(* ===== verification/Prelude.thy ===== *)
theory Prelude
  imports "HOL-Library.Word"
begin

text \<open>
  Shared ground of the development: the C integer types the sources use, their
  shifts, conversions and divisions as the BPF machine executes them, the bit length
  of a natural number, and the lemmas that carry a word computation over to integer
  arithmetic.

  Integers.  \<open>int32_t\<close>, \<open>int\<close> and \<open>__u32\<close> are 32-bit words, \<open>int64_t\<close>, \<open>__u64\<close>
  and \<open>unsigned long\<close> are 64-bit words; a signed type is read with \<open>sint\<close>, an
  unsigned one with \<open>uint\<close> or \<open>unat\<close>.  Addition, subtraction and multiplication
  wrap around in two's complement, a shift uses the low 5 (32-bit operand) or 6
  (64-bit operand) bits of its count, and an unsigned division by zero gives zero:
  this is what the BPF instruction set does, and it fixes the cases that the C
  standard leaves undefined.
\<close>

unbundle bit_operations_syntax

named_theorems c_int_simps \<open>evaluation of the C integer operations\<close>

named_theorems c_sint_simps \<open>signed readings of in-range C integer operations\<close>

type_synonym i32 = "32 word"
type_synonym u32 = "32 word"
type_synonym i64 = "64 word"
type_synonym u64 = "64 word"
type_synonym u16 = "16 word"
type_synonym u8 = "8 word"

section \<open>C integer operations\<close>

definition shl32 :: "i32 \<Rightarrow> i32 \<Rightarrow> i32" where
  [c_int_simps]: "shl32 x n = push_bit (unat (n AND 31)) x"

definition sar32 :: "i32 \<Rightarrow> i32 \<Rightarrow> i32" where
  [c_int_simps]: "sar32 x n = signed_drop_bit (unat (n AND 31)) x"

definition shl64 :: "u64 \<Rightarrow> i32 \<Rightarrow> u64" where
  [c_int_simps]: "shl64 x n = push_bit (unat (n AND 63)) x"

definition shr64 :: "u64 \<Rightarrow> i32 \<Rightarrow> u64" where
  [c_int_simps]: "shr64 x n = drop_bit (unat (n AND 63)) x"

definition sar64 :: "i64 \<Rightarrow> i32 \<Rightarrow> i64" where
  [c_int_simps]: "sar64 x n = signed_drop_bit (unat (n AND 63)) x"

definition udiv64 :: "u64 \<Rightarrow> u64 \<Rightarrow> u64" where
  [c_int_simps]: "udiv64 a b = (if b = 0 then 0 else a div b)"

definition sext64 :: "i32 \<Rightarrow> i64" where
  [c_int_simps]: "sext64 x = scast x"

definition trunc32 :: "i64 \<Rightarrow> i32" where
  [c_int_simps]: "trunc32 x = ucast x"

section \<open>Error numbers\<close>

text \<open>The values of \<open>errno\<close> that the sources name.\<close>

definition ENOENT :: int where "ENOENT = 2"
definition ENOMEM :: int where "ENOMEM = 12"
definition EBUSY :: int where "EBUSY = 16"
definition EEXIST :: int where "EEXIST = 17"
definition EINVAL :: int where "EINVAL = 22"
definition EFAULT :: int where "EFAULT = 14"
definition ENAMETOOLONG :: int where "ENAMETOOLONG = 36"
definition EOVERFLOW :: int where "EOVERFLOW = 75"
definition EOPNOTSUPP :: int where "EOPNOTSUPP = 95"
definition PATH_MAX :: nat where "PATH_MAX = 4096"

section \<open>Bit length\<close>

fun bit_len :: "nat \<Rightarrow> nat" where
  "bit_len n = (if n = 0 then 0 else Suc (bit_len (n div 2)))"

declare bit_len.simps [simp del]

lemma bit_len_0 [simp]: "bit_len 0 = 0"
  by (simp add: bit_len.simps)

lemma bit_len_pos: "0 < n \<Longrightarrow> bit_len n = Suc (bit_len (n div 2))"
  by (simp add: bit_len.simps)

lemma bit_len_le_iff: "bit_len n \<le> k \<longleftrightarrow> n < 2 ^ k"
proof (induction n arbitrary: k rule: bit_len.induct)
  case (1 n)
  show ?case
  proof (cases "n = 0")
    case False
    then show ?thesis
    proof (cases k)
      case (Suc j)
      with False have "bit_len n \<le> k \<longleftrightarrow> n div 2 < 2 ^ j"
        using "1.IH" [of j] by (simp add: bit_len_pos)
      also have "\<dots> \<longleftrightarrow> n < 2 ^ k" using Suc by auto
      finally show ?thesis .
    qed (simp add: bit_len_pos)
  qed simp
qed

lemma bit_len_unique: "2 ^ k \<le> n \<Longrightarrow> n < 2 ^ Suc k \<Longrightarrow> bit_len n = Suc k"
  using bit_len_le_iff [of n k] bit_len_le_iff [of n "Suc k"] by auto

lemma bit_len_lower: "0 < n \<Longrightarrow> 2 ^ (bit_len n - 1) \<le> n"
  using bit_len_le_iff [of n "bit_len n - 1"] by (auto simp: bit_len_pos)

lemma bit_len_upper: "n < 2 ^ bit_len n"
  using bit_len_le_iff [of n "bit_len n"] by simp

lemma bit_len_div: "n div 2 ^ k \<noteq> 0 \<Longrightarrow> bit_len n = bit_len (n div 2 ^ k) + k"
proof (induction k arbitrary: n)
  case (Suc k)
  from Suc.prems have n: "0 < n" by (cases "n = 0") auto
  have "n div 2 div 2 ^ k \<noteq> 0"
    using Suc.prems by (simp add: div_mult2_eq)
  then have "bit_len (n div 2) = bit_len (n div 2 div 2 ^ k) + k" by (rule Suc.IH)
  with n show ?case by (simp add: bit_len_pos div_mult2_eq)
qed simp

section \<open>Signed readings\<close>

lemma sint32_range: "- (2 ^ 31) \<le> sint (x :: i32)" "sint (x :: i32) < 2 ^ 31"
  using sint_range_size [of x] by (simp_all add: word_size)

lemma sint64_range: "- (2 ^ 63) \<le> sint (x :: i64)" "sint (x :: i64) < 2 ^ 63"
  using sint_range_size [of x] by (simp_all add: word_size)

lemma sint32_add [c_sint_simps]:
  "- (2 ^ 31) \<le> sint a + sint b \<Longrightarrow> sint a + sint b < 2 ^ 31 \<Longrightarrow>
   sint (a + b :: i32) = sint a + sint b"
  by (simp add: sint_word_ariths signed_take_bit_int_eq_self)

lemma sint32_sub [c_sint_simps]:
  "- (2 ^ 31) \<le> sint a - sint b \<Longrightarrow> sint a - sint b < 2 ^ 31 \<Longrightarrow>
   sint (a - b :: i32) = sint a - sint b"
  by (simp add: sint_word_ariths signed_take_bit_int_eq_self)

lemma sint32_mult [c_sint_simps]:
  "- (2 ^ 31) \<le> sint a * sint b \<Longrightarrow> sint a * sint b < 2 ^ 31 \<Longrightarrow>
   sint (a * b :: i32) = sint a * sint b"
  by (simp add: sint_word_ariths signed_take_bit_int_eq_self)

lemma sint_sext64 [simp]: "sint (sext64 x) = sint x"
  by (simp add: sext64_def sint_up_scast is_up_def source_size target_size)

lemma sint_eq_uint_nonneg: "0 \<le> sint x \<Longrightarrow> uint (x :: 'a::len word) = sint x"
proof -
  assume "0 \<le> sint x"
  moreover have "sint x < 2 ^ LENGTH('a)"
    using sint_lt [of x] power_increasing [of "LENGTH('a) - 1" "LENGTH('a)" "2 :: int"]
    by linarith
  ultimately show ?thesis by (simp only: uint_sint take_bit_int_eq_self)
qed

lemma sint_eqD: "sint a = sint b \<Longrightarrow> a = b"
proof -
  assume "sint a = sint b"
  then have "word_of_int (sint a) = (word_of_int (sint b) :: 'a word)" by simp
  then show "a = b" by simp
qed

lemma sint32_small: "uint (x :: i32) < 2 ^ 31 \<Longrightarrow> sint x = uint x"
proof -
  assume u: "uint x < 2 ^ 31"
  have "- (2 ^ 31) \<le> uint x" by (rule order_trans [OF _ uint_ge_0]) simp
  from signed_take_bit_int_eq_self [OF this u] show ?thesis by (simp add: sint_uint)
qed

lemma sint64_small: "uint (x :: i64) < 2 ^ 63 \<Longrightarrow> sint x = uint x"
proof -
  assume u: "uint x < 2 ^ 63"
  have "- (2 ^ 63) \<le> uint x" by (rule order_trans [OF _ uint_ge_0]) simp
  from signed_take_bit_int_eq_self [OF this u] show ?thesis by (simp add: sint_uint)
qed

lemma sint32_neg: "2 ^ 31 \<le> uint (x :: i32) \<Longrightarrow> sint x = uint x - 2 ^ 32"
proof -
  assume big: "2 ^ 31 \<le> uint x"
  have "uint x + 2 ^ 31 = (uint x - 2 ^ 31) + 1 * 2 ^ 32" by simp
  then have "(uint x + 2 ^ 31) mod 2 ^ 32 = (uint x - 2 ^ 31) mod 2 ^ 32"
    by (simp only: mod_mult_self1)
  also have "\<dots> = uint x - 2 ^ 31"
    using big uint_lt2p [of x] by (intro mod_pos_pos_trivial) simp_all
  finally show ?thesis
    by (simp add: sint_uint signed_take_bit_eq_take_bit_shift take_bit_eq_mod)
qed

lemma sint32_of_int:
  "- (2 ^ 31) \<le> k \<Longrightarrow> k < 2 ^ 31 \<Longrightarrow> sint (word_of_int k :: i32) = k"
  by (simp add: sint_uint uint_word_of_int_eq signed_take_bit_take_bit
      signed_take_bit_int_eq_self)

lemma word_of_sint_eqI: "sint x = k \<Longrightarrow> x = word_of_int k"
  by auto

section \<open>Shifts with a count in range\<close>

lemma shift_count5: "0 \<le> sint n \<Longrightarrow> sint n < 32 \<Longrightarrow> unat (n AND 31 :: i32) = nat (sint n)"
proof -
  assume n: "0 \<le> sint n" "sint n < 32"
  have "n AND 31 = take_bit 5 n" by (simp add: take_bit_eq_mask mask_eq_exp_minus_1)
  moreover have "unat (take_bit 5 n) = unat n mod 2 ^ 5"
    by (simp add: take_bit_eq_mod unat_mod)
  moreover have "unat n = nat (sint n)" using n by (simp flip: sint_eq_uint_nonneg)
  ultimately show ?thesis using n by simp
qed

lemma shift_count6: "0 \<le> sint n \<Longrightarrow> sint n < 64 \<Longrightarrow> unat (n AND 63 :: i32) = nat (sint n)"
proof -
  assume n: "0 \<le> sint n" "sint n < 64"
  have "n AND 63 = take_bit 6 n" by (simp add: take_bit_eq_mask mask_eq_exp_minus_1)
  moreover have "unat (take_bit 6 n) = unat n mod 2 ^ 6"
    by (simp add: take_bit_eq_mod unat_mod)
  moreover have "unat n = nat (sint n)" using n by (simp flip: sint_eq_uint_nonneg)
  ultimately show ?thesis using n by simp
qed

lemma sint_sar32 [c_sint_simps]:
  "0 \<le> sint n \<Longrightarrow> sint n < 32 \<Longrightarrow> sint (sar32 x n) = sint x div 2 ^ nat (sint n)"
  by (simp add: sar32_def shift_count5 sint_signed_drop_bit_eq drop_bit_eq_div)

lemma sint_sar64 [c_sint_simps]:
  "0 \<le> sint n \<Longrightarrow> sint n < 64 \<Longrightarrow> sint (sar64 x n) = sint x div 2 ^ nat (sint n)"
  by (simp add: sar64_def shift_count6 sint_signed_drop_bit_eq drop_bit_eq_div)

lemma uint_shr64 [c_sint_simps]:
  "0 \<le> sint n \<Longrightarrow> sint n < 64 \<Longrightarrow> uint (shr64 x n) = uint x div 2 ^ nat (sint n)"
  by (simp add: shr64_def shift_count6 unsigned_drop_bit_eq take_bit_int_eq_self
      uint_lt2p [of x, simplified] flip: drop_bit_eq_div)

lemma shl32_mult:
  "0 \<le> sint n \<Longrightarrow> sint n < 32 \<Longrightarrow> shl32 x n = x * 2 ^ nat (sint n)"
  by (simp add: shl32_def shift_count5 push_bit_eq_mult)

lemma unat_shl32:
  assumes "0 \<le> sint n" "sint n < 32"
  shows "unat (shl32 x n) = unat x * 2 ^ nat (sint n) mod 2 ^ 32"
proof -
  have "unat (push_bit k x) = take_bit LENGTH(32) (push_bit k (unat x))" for k
    by (simp only: unsigned_push_bit_eq)
  then show ?thesis
    using assms by (simp add: shl32_def shift_count5 push_bit_eq_mult take_bit_eq_mod)
qed

lemma uint_shl64:
  assumes "0 \<le> sint n" "sint n < 64"
  shows "uint (shl64 x n) = uint x * 2 ^ nat (sint n) mod 2 ^ 64"
proof -
  have "uint (push_bit k x) = take_bit LENGTH(64) (push_bit k (uint x))" for k
    by (simp only: unsigned_push_bit_eq)
  then show ?thesis
    using assms by (simp add: shl64_def shift_count6 push_bit_eq_mult take_bit_eq_mod)
qed

lemma sint_shl32 [c_sint_simps]:
  assumes "0 \<le> sint n" "sint n < 32"
    and "- (2 ^ 31) \<le> sint x * 2 ^ nat (sint n)" "sint x * 2 ^ nat (sint n) < 2 ^ 31"
  shows "sint (shl32 x n) = sint x * 2 ^ nat (sint n)"
proof -
  have "shl32 x n = word_of_int (sint x * 2 ^ nat (sint n))"
    using assms(1,2) by (simp add: shl32_mult)
  then show ?thesis using assms(3,4) by (simp only: sint32_of_int)
qed

section \<open>Conversions\<close>

lemma uint_less_power: "uint x < 2 ^ k \<longleftrightarrow> unat x < 2 ^ k"
proof -
  have "int (unat x) < 2 ^ k \<longleftrightarrow> unat x < 2 ^ k"
    by (simp only: of_nat_less_numeral_power_cancel_iff)
  then show ?thesis by simp
qed

lemma unat_eqI: "uint x = int k \<Longrightarrow> unat x = k"
  by (metis nat_int nat_uint_eq)

lemma uint_of_nat_32:
  assumes "int n < 2 ^ 31"
  shows "uint (of_nat n :: u32) = int n"
proof -
  have "n < 2 ^ LENGTH(32)" using assms by simp
  then have "unat (of_nat n :: u32) = n" unfolding unat_of_nat by (rule mod_less)
  then show ?thesis by (simp add: uint_nat)
qed

lemma of_nat_unat_eqI: "unat x = k \<Longrightarrow> x = of_nat k"
  by auto

lemma trunc32_of_int: "trunc32 (word_of_int k) = word_of_int k"
  unfolding trunc32_def by transfer simp

lemma trunc32_diff: "trunc32 (a - b) = trunc32 a - trunc32 b"
proof -
  have "a - b = word_of_int (uint a - uint b)" by simp
  then have "trunc32 (a - b) = word_of_int (uint a - uint b)" by (simp only: trunc32_of_int)
  also have "\<dots> = trunc32 (word_of_int (uint a)) - trunc32 (word_of_int (uint b))"
    by (simp only: trunc32_of_int wi_hom_sub)
  finally show ?thesis by simp
qed

lemma trunc32_add: "trunc32 (a + b) = trunc32 a + trunc32 b"
proof -
  have "a + b = word_of_int (uint a + uint b)" by simp
  then have "trunc32 (a + b) = word_of_int (uint a + uint b)" by (simp only: trunc32_of_int)
  also have "\<dots> = trunc32 (word_of_int (uint a)) + trunc32 (word_of_int (uint b))"
    by (simp only: trunc32_of_int wi_hom_add)
  finally show ?thesis by simp
qed

lemma trunc32_sext64 [simp]: "trunc32 (sext64 a) = a"
  unfolding trunc32_def sext64_def by transfer (simp add: take_bit_signed_take_bit)

lemma unat_trunc32: "unat x < 2 ^ 32 \<Longrightarrow> unat (trunc32 x) = unat x"
  by (simp add: trunc32_def unsigned_ucast_eq take_bit_nat_eq_self)

lemma sint_trunc32: "unat x < 2 ^ 31 \<Longrightarrow> sint (trunc32 x) = int (unat x)"
proof -
  assume x: "unat x < 2 ^ 31"
  then have u: "unat (trunc32 x) = unat x" by (intro unat_trunc32) simp
  with x have "uint (trunc32 x) < 2 ^ 31" by (simp only: uint_less_power)
  then have "sint (trunc32 x) = uint (trunc32 x)" by (rule sint32_small)
  also have "\<dots> = int (unat (trunc32 x))" by simp
  finally show ?thesis by (simp only: u)
qed

lemma unat_zext64 [simp]: "unat (ucast (x :: u32) :: u64) = unat x"
  unfolding unsigned_ucast_eq
  by (rule take_bit_nat_eq_self, rule less_trans [OF unsigned_less]) simp

lemma sint32_of_nat: "k < 2 ^ 31 \<Longrightarrow> sint (of_nat k :: i32) = int k"
  using sint32_of_int [of "int k"] by simp

lemma word_less_4E:
  fixes x :: i64
  assumes "unat x < 4"
  obtains "x = 0" | "x = 1" | "x = 2" | "x = 3"
proof -
  from assms consider "unat x = 0" | "unat x = 1" | "unat x = 2" | "unat x = 3" by linarith
  then show thesis by cases (auto simp: word_unat_eq_iff intro: that)
qed

lemma sint_range_unat: "0 \<le> sint (x :: i64) \<Longrightarrow> sint x < 2 ^ 31 \<Longrightarrow> unat x < 2 ^ 31"
  using sint_eq_uint_nonneg [of x] uint_less_power [of x 31] by simp

section \<open>Balancing equations\<close>

lemma add_balance:
  fixes a :: "'a::ab_group_add"
  assumes "a' + x = a + x'" "a + m = w + x"
  shows "a' + m = w + x'"
proof -
  from assms(1) have "a' = a + x' - x" by (simp add: eq_diff_eq)
  moreover from assms(2) have "a = w + x - m" by (simp add: eq_diff_eq)
  ultimately show ?thesis by (simp add: algebra_simps)
qed

lemma diff_balance:
  fixes a :: "'a::ab_group_add"
  shows "a + m = w + b \<Longrightarrow> a - b = w - m"
  by (simp add: algebra_simps)

lemma fold_update_upt:
  "k \<le> length xs \<Longrightarrow>
   fold (\<lambda>j ys. ys[j := f j]) [0..<k] xs = map (\<lambda>j. if j < k then f j else xs ! j) [0..<length xs]"
proof (induction k)
  case 0
  then show ?case by (simp add: map_nth)
next
  case (Suc k)
  then show ?case by (auto intro!: nth_equalityI simp: nth_list_update)
qed

end
