(* ===== verification/Fixed_Point.thy ===== *)
theory Fixed_Point
  imports Prelude Complex_Main
begin

text \<open>
  The dynamic fixed-point arithmetic of \<open>fixed-point.h\<close>, which the in-kernel program
  includes: the struct, the two leading-zero counters, \<open>check_bit\<close>, the four
  arithmetic operations, the table logarithm and the absolute value.  An operation
  that writes through its pointer arguments returns the new values of its arguments
  before its result.  The sources never pass the same object twice to one call, so the
  two pointer arguments are modelled as two values.
\<close>

section \<open>The operations\<close>

record fixed_point =
  fp_number :: i32
  fp_q :: i32

definition low32 :: "fixed_point \<Rightarrow> i64" where
  "low32 x = sext64 (fp_number x AND 0xFFFF)"

definition high32 :: "fixed_point \<Rightarrow> i64" where
  "high32 x = sext64 (sar32 (fp_number x) 16)"

definition to_fixed_point :: "i32 \<Rightarrow> i32 \<Rightarrow> fixed_point" where
  "to_fixed_point fixed_point q = \<lparr>fp_number = q * shl32 1 fixed_point, fp_q = fixed_point\<rparr>"

text \<open>One of the halving blocks of the counters: \<open>y = x >> k; if (y != 0) { n -= k; x = y; }\<close>\<close>

definition count_zero_block :: "i32 \<Rightarrow> i32 \<times> i64 \<Rightarrow> i32 \<times> i64" where
  "count_zero_block k nx =
     (let (n, x) = nx; y = trunc32 (sar64 x k)
      in if y \<noteq> 0 then (n - k, ucast y) else (n, x))"

definition count_zero_end :: "i32 \<times> i64 \<Rightarrow> i32" where
  "count_zero_end nx =
     (let (n, x) = nx; y = trunc32 (sar64 x 1)
      in if y \<noteq> 0 then n - 2 else trunc32 (sext64 n - x))"

definition count_zero_64 :: "i64 \<Rightarrow> i32" where
  "count_zero_64 x =
     (if sar64 x 31 \<noteq> 0 then - 1
      else count_zero_end (count_zero_block 2 (count_zero_block 4 (count_zero_block 8
             (count_zero_block 16 (count_zero_block 32 (64, x)))))))"

definition count_zero_32 :: "i64 \<Rightarrow> i32" where
  "count_zero_32 x =
     (if sar64 x 31 \<noteq> 0 then - 1
      else count_zero_end (count_zero_block 2 (count_zero_block 4 (count_zero_block 8
             (count_zero_block 16 (32, x))))))"

text \<open>
  \<open>check_bit\<close> assigns the new \<open>q\<close> before it computes the shift count from it, so the
  count is read from the updated field, as in the source.
\<close>

definition check_bit :: "fixed_point \<Rightarrow> fixed_point \<Rightarrow> fixed_point \<times> fixed_point" where
  "check_bit first second =
     (if sint (fp_q first) > sint (fp_q second) then
        (let second = second\<lparr>fp_q := fp_q first\<rparr>;
             second = second\<lparr>fp_number := shl32 (fp_number second) (fp_q first - fp_q second)\<rparr>
         in (first, second))
      else if sint (fp_q first) < sint (fp_q second) then
        (let first = first\<lparr>fp_q := fp_q second\<rparr>;
             first = first\<lparr>fp_number := shl32 (fp_number first) (fp_q second - fp_q first)\<rparr>
         in (first, second))
      else (first, second))"

text \<open>The result block that \<open>add\<close>, \<open>subtract\<close> and \<open>divide\<close> share.\<close>

definition fit_result :: "i32 \<Rightarrow> u64 \<Rightarrow> fixed_point" where
  "fit_result q acc =
     (let allowed_fixed_point_bits = 64 - count_zero_64 acc
      in if sint allowed_fixed_point_bits < sint q
         then \<lparr>fp_number = trunc32 (shr64 acc (q - allowed_fixed_point_bits)),
               fp_q = allowed_fixed_point_bits\<rparr>
         else \<lparr>fp_number = trunc32 acc, fp_q = q\<rparr>)"

definition add :: "fixed_point \<Rightarrow> fixed_point \<Rightarrow> fixed_point \<times> fixed_point \<times> fixed_point" where
  "add first second =
     (let (first, second) = check_bit first second;
          acc = sext64 (fp_number first + fp_number second)
      in (first, second, fit_result (fp_q first) acc))"

definition subtract ::
    "fixed_point \<Rightarrow> fixed_point \<Rightarrow> fixed_point \<times> fixed_point \<times> fixed_point" where
  "subtract first second =
     (let (first, second) = check_bit first second;
          acc = sext64 (fp_number first - fp_number second)
      in (first, second, fit_result (fp_q first) acc))"

definition multiply ::
    "fixed_point \<Rightarrow> fixed_point \<Rightarrow> fixed_point \<times> fixed_point \<times> fixed_point" where
  "multiply first second =
     (let high_f = trunc32 (high32 first);
          low_f = trunc32 (low32 first);
          high_s = trunc32 (high32 second);
          low_s = trunc32 (low32 second);
          (first, second) = check_bit first second;
          fixed_point_bits = fp_q first;
          temp = sext64 (high_f * high_s);
          fixed_point_bits =
            (if uint temp > uint (shl64 1 (32 - fixed_point_bits - 1))
             then 31 - (64 - count_zero_64 temp) else fixed_point_bits);
          prod =
            (if sint fixed_point_bits \<ge> 16
             then (let q = fixed_point_bits - 16
                   in shl32 (trunc32 temp) fixed_point_bits + sar32 (low_f * high_s) q
                      + sar32 (high_f * low_s) q
                      + sar32 (low_f * low_s) (32 - fixed_point_bits))
             else (let q = 16 - fixed_point_bits
                   in shl32 (trunc32 temp) fixed_point_bits + shl32 (low_f * high_s) q
                      + shl32 (high_f * low_s) q
                      + sar32 (low_f * low_s) (32 - fixed_point_bits)))
      in (first, second, \<lparr>fp_number = prod, fp_q = fixed_point_bits\<rparr>))"

definition divide ::
    "fixed_point \<Rightarrow> fixed_point \<Rightarrow> fixed_point \<times> fixed_point \<times> fixed_point" where
  "divide first second =
     (let (first, second) = check_bit first second;
          acc = shr64 (udiv64 (shl64 (sext64 (fp_number first)) 32) (sext64 (fp_number second)))
                  (32 - fp_q first)
      in (first, second, fit_result (fp_q first) acc))"

definition log_array :: "u64 list" where
  "log_array =
  [0, 94364, 188362, 281996, 375269, 468184, 560744, 652952, 744809, 836319, 927485, 1018308,
   1108792, 1198939, 1288751, 1378232, 1467382, 1556206, 1644705, 1732881, 1820738, 1908276,
   1995500, 2082410, 2169009, 2255299, 2341283, 2426962, 2512339, 2597416, 2682195, 2766679,
   2850868, 2934765, 3018373, 3101693, 3184727, 3267477, 3349946, 3432134, 3514044, 3595678,
   3677037, 3758124, 3838940, 3919487, 3999767, 4079782, 4159533, 4239022, 4318251, 4397221,
   4475935, 4554393, 4632598, 4710551, 4788254, 4865708, 4942915, 5019877, 5096595, 5173070,
   5249304, 5325299, 5401057, 5476578, 5551863, 5626916, 5701736, 5776326, 5850687, 5924820,
   5998727, 6072408, 6145866, 6219102, 6292117, 6364912, 6437489, 6509849, 6581994, 6653924,
   6725640, 6797145, 6868440, 6939525, 7010401, 7081071, 7151535, 7221795, 7291851, 7361705,
   7431358, 7500811, 7570066, 7639123, 7707983, 7776648, 7845119, 7913396, 7981482, 8049377,
   8117081, 8184597, 8251925, 8319066, 8386022, 8452793, 8519380, 8585784, 8652007, 8718049,
   8783912, 8849595, 8915101, 8980430, 9045583, 9110562, 9175366, 9239997, 9304456, 9368744,
   9432862, 9496810, 9560590, 9624202, 9687648, 9750927, 9814042, 9876992, 9939779, 10002404,
   10064867, 10127169, 10189311, 10251295, 10313119, 10374787, 10436297, 10497652, 10558851,
   10619897, 10680788, 10741527, 10802114, 10862549, 10922834, 10982970, 11042956, 11102794,
   11162484, 11222027, 11281425, 11340677, 11399784, 11458747, 11517567, 11576245, 11634780,
   11693174, 11751428, 11809542, 11867516, 11925353, 11983051, 12040612, 12098036, 12155325,
   12212478, 12269497, 12326381, 12383133, 12439751, 12496238, 12552593, 12608817, 12664910,
   12720874, 12776709, 12832415, 12887994, 12943445, 12998769, 13053968, 13109040, 13163988,
   13218811, 13273510, 13328086, 13382539, 13436870, 13491079, 13545167, 13599135, 13652982,
   13706710, 13760319, 13813810, 13867182, 13920437, 13973575, 14026597, 14079503, 14132293,
   14184969, 14237530, 14289977, 14342311, 14394532, 14446641, 14498637, 14550522, 14602296,
   14653960, 14705514, 14756958, 14808293, 14859519, 14910637, 14961647, 15012550, 15063347,
   15114037, 15164620, 15215099, 15265472, 15315741, 15365906, 15415967, 15465924, 15515779,
   15565531, 15615181, 15664729, 15714177, 15763523, 15812769, 15861915, 15910961, 15959909,
   16008757, 16057507, 16106159, 16154714, 16203171, 16251532, 16299796, 16347964, 16396036,
   16444013, 16491895, 16539683, 16587376, 16634976, 16682482, 16729895]"

definition calc_log :: "fixed_point \<Rightarrow> fixed_point" where
  "calc_log x =
     (let leading_zero = count_zero_32 (sext64 (fp_number x))
      in if sint leading_zero \<ge> 0 \<and> sint leading_zero < 32
         then (let idx = (ucast (sar32 (shl32 (fp_number x) (leading_zero + 1)) 24) :: u8)
               in \<lparr>fp_number = trunc32 (sext64 (shl32 (31 - fp_q x - leading_zero) 24)
                                + shr64 (log_array ! unat idx) (24 - fp_q x)),
                   fp_q = 8\<rparr>)
         else \<lparr>fp_number = 0, fp_q = 8\<rparr>)"

text \<open>\<open>abs_val\<close> overwrites its argument and returns a copy of it.\<close>

definition abs_val :: "fixed_point \<Rightarrow> fixed_point" where
  "abs_val x =
     (let mask = sar32 (fp_number x) 31
      in x\<lparr>fp_number := (fp_number x + mask) XOR mask\<rparr>)"

text \<open>
  What the halving blocks keep: with \<open>m\<close> the number the count started from, the part of
  \<open>m\<close> that is left has at most \<open>k\<close> bits, and the zeros counted so far account for the
  bits that were shifted out.
\<close>

definition cz_state :: "nat \<Rightarrow> nat \<Rightarrow> nat \<Rightarrow> i32 \<times> i64 \<Rightarrow> bool" where
  "cz_state w m k nx \<longleftrightarrow>
     unat (snd nx) < 2 ^ k \<and> unat (snd nx) < 2 ^ 31 \<and>
     fst nx + of_nat (bit_len m) = of_nat w + of_nat (bit_len (unat (snd nx)))"

text \<open>The rational number a fixed-point pair stands for.\<close>

definition fp_value :: "fixed_point \<Rightarrow> rat" where
  "fp_value x = of_int (sint (fp_number x)) / 2 ^ nat (sint (fp_q x))"

section \<open>Leading-zero counters\<close>

lemma unat_trunc_sar64:
  assumes "unat x < 2 ^ 31" "K < 64"
  shows "unat (trunc32 (sar64 x (of_nat K))) = unat x div 2 ^ K"
proof -
  have ux: "uint x < 2 ^ 31" using assms(1) by (simp only: uint_less_power)
  then have sx: "sint x = uint x" by (intro sint64_small) simp
  have K: "sint (of_nat K :: i32) = int K" using assms(2) by (intro sint32_of_nat) simp
  have s: "sint (sar64 x (of_nat K)) = uint x div 2 ^ K"
    using assms(2) K sx by (subst sint_sar64) simp_all
  then have "uint (sar64 x (of_nat K)) = uint x div 2 ^ K"
    by (subst sint_eq_uint_nonneg) (simp_all add: pos_imp_zdiv_nonneg_iff)
  then have "unat (sar64 x (of_nat K)) = unat x div 2 ^ K"
    by (intro unat_eqI) (simp add: zdiv_int)
  moreover have "unat x div 2 ^ K < 2 ^ 32"
    using le_less_trans [OF div_le_dividend assms(1)] by (rule less_trans) simp
  ultimately show ?thesis by (simp only: unat_trunc32)
qed

lemma count_zero_end_spec:
  assumes "unat x < 4"
  shows "count_zero_end (n, x) = n - of_nat (bit_len (unat x))"
proof -
  have c: "trunc32 0 = 0" "trunc32 1 = 1" by (simp_all add: trunc32_def)
  have s: "trunc32 (sar64 2 1) \<noteq> 0" "trunc32 (sar64 3 1) \<noteq> 0" "sar64 1 1 = 0" "sar64 0 1 = 0"
    by (simp_all add: sar64_def trunc32_def)
  from assms show ?thesis
    by (rule word_less_4E) (simp_all add: count_zero_end_def trunc32_diff bit_len_pos s c)
qed

lemma count_zero_block_spec:
  assumes "unat x < 2 ^ 31" "K < 64" "count_zero_block (of_nat K) (n, x) = (n', x')"
  shows "n' + of_nat (bit_len (unat x)) = n + of_nat (bit_len (unat x'))"
    and "unat x' < 2 ^ 31"
    and "unat x < 2 ^ (2 * K) \<Longrightarrow> unat x' < 2 ^ K"
proof -
  let ?y = "trunc32 (sar64 x (of_nat K))"
  have y: "unat ?y = unat x div 2 ^ K" using assms(1,2) by (rule unat_trunc_sar64)
  have eq: "n' = (if ?y \<noteq> 0 then n - of_nat K else n)" "x' = (if ?y \<noteq> 0 then ucast ?y else x)"
    using assms(3) by (auto simp: count_zero_block_def Let_def split: if_splits)
  have nz: "?y \<noteq> 0 \<longleftrightarrow> unat x div 2 ^ K \<noteq> 0" using y by (metis unat_0 word_unat_eq_iff)
  show "n' + of_nat (bit_len (unat x)) = n + of_nat (bit_len (unat x'))"
    using bit_len_div [of "unat x" K] nz y eq by auto
  show "unat x' < 2 ^ 31"
    using assms(1) le_less_trans [OF div_le_dividend [of "unat x" "2 ^ K"] assms(1)] y eq
    by auto
  show "unat x' < 2 ^ K" if "unat x < 2 ^ (2 * K)"
    using that nz y eq
    by (auto simp: div_eq_0_iff less_mult_imp_div_less mult_2 power_add)
qed

lemma cz_state_block:
  assumes "cz_state w m (2 * K) nx" "K < 64"
  shows "cz_state w m K (count_zero_block (of_nat K) nx)"
proof -
  obtain n x where nx: "nx = (n, x)" by force
  obtain n' x' where nx': "count_zero_block (of_nat K) (n, x) = (n', x')" by force
  have x: "unat x < 2 ^ 31" "unat x < 2 ^ (2 * K)"
    and e: "n + of_nat (bit_len m) = of_nat w + of_nat (bit_len (unat x))"
    using assms(1) nx by (simp_all add: cz_state_def)
  note b = count_zero_block_spec [OF x(1) assms(2) nx']
  have "n' + of_nat (bit_len m) = of_nat w + of_nat (bit_len (unat x'))"
    using b(1) e by (rule add_balance)
  with b(2) b(3) [OF x(2)] show ?thesis by (simp add: cz_state_def nx nx')
qed

lemma cz_state_end: "cz_state w m 2 nx \<Longrightarrow> count_zero_end nx = of_nat w - of_nat (bit_len m)"
  by (cases nx) (auto simp: cz_state_def count_zero_end_spec intro: diff_balance)

lemma cz_guard: "sar64 x 31 = 0 \<longleftrightarrow> 0 \<le> sint x \<and> sint x < 2 ^ 31"
proof -
  have "sar64 x 31 = 0 \<longleftrightarrow> sint (sar64 x 31) = 0"
    by (simp add: signed_eq_0_iff)
  also have "\<dots> \<longleftrightarrow> sint x div 2 ^ 31 = 0" by (simp add: sint_sar64)
  also have "\<dots> \<longleftrightarrow> 0 \<le> sint x \<and> sint x < 2 ^ 31" by (auto simp: zdiv_eq_0_iff)
  finally show ?thesis .
qed

lemma count_zero_64_eq:
  "count_zero_64 x =
     (if 0 \<le> sint x \<and> sint x < 2 ^ 31 then of_nat 64 - of_nat (bit_len (unat x)) else - 1)"
proof (cases "0 \<le> sint x \<and> sint x < 2 ^ 31")
  case True
  then have "unat x < 2 ^ 31" by (blast intro: sint_range_unat)
  then have "cz_state 64 (unat x) (2 * 32) (64, x)" by (simp add: cz_state_def)
  then have "cz_state 64 (unat x) (2 * 1) (count_zero_block 2 (count_zero_block 4
      (count_zero_block 8 (count_zero_block 16 (count_zero_block 32 (64, x))))))"
    using cz_state_block [of 64 "unat x" 32] cz_state_block [of 64 "unat x" 16]
      cz_state_block [of 64 "unat x" 8] cz_state_block [of 64 "unat x" 4]
      cz_state_block [of 64 "unat x" 2] by simp
  with True show ?thesis by (simp add: count_zero_64_def cz_guard cz_state_end)
qed (auto simp: count_zero_64_def cz_guard)

lemma count_zero_32_eq:
  "count_zero_32 x =
     (if 0 \<le> sint x \<and> sint x < 2 ^ 31 then of_nat 32 - of_nat (bit_len (unat x)) else - 1)"
proof (cases "0 \<le> sint x \<and> sint x < 2 ^ 31")
  case True
  then have "unat x < 2 ^ 31" by (blast intro: sint_range_unat)
  then have "cz_state 32 (unat x) (2 * 16) (32, x)" by (simp add: cz_state_def)
  then have "cz_state 32 (unat x) (2 * 1) (count_zero_block 2 (count_zero_block 4
      (count_zero_block 8 (count_zero_block 16 (32, x)))))"
    using cz_state_block [of 32 "unat x" 16]
      cz_state_block [of 32 "unat x" 8] cz_state_block [of 32 "unat x" 4]
      cz_state_block [of 32 "unat x" 2] by simp
  with True show ?thesis by (simp add: count_zero_32_def cz_guard cz_state_end)
qed (auto simp: count_zero_32_def cz_guard)

locale zero_counter =
  fixes width :: nat and cz :: "i64 \<Rightarrow> i32"
  assumes width_ge: "31 \<le> width" and width_le: "width \<le> 64"
    and cz_eq: "cz x = (if 0 \<le> sint x \<and> sint x < 2 ^ 31
                        then of_nat width - of_nat (bit_len (unat x)) else - 1)"
begin

lemma bit_len_le_31: "0 \<le> sint (x :: i64) \<Longrightarrow> sint x < 2 ^ 31 \<Longrightarrow> bit_len (unat x) \<le> 31"
  using sint_range_unat [of x] by (simp only: bit_len_le_iff)

lemma cz_in_range:
  assumes "0 \<le> sint x" "sint x < 2 ^ 31"
  shows "sint (cz x) = int width - int (bit_len (unat x))"
proof -
  have b: "bit_len (unat x) \<le> 31" using assms by (rule bit_len_le_31)
  then have "cz x = of_nat (width - bit_len (unat x))"
    using assms width_ge by (simp add: cz_eq)
  also have "sint \<dots> = int (width - bit_len (unat x))"
    using width_le by (intro sint32_of_nat) simp
  finally show ?thesis using b width_ge by simp
qed

lemma cz_error_iff: "cz x = - 1 \<longleftrightarrow> sint x < 0 \<or> 2 ^ 31 \<le> sint x"
proof
  assume err: "cz x = - 1"
  show "sint x < 0 \<or> 2 ^ 31 \<le> sint x"
  proof (rule ccontr)
    assume "\<not> ?thesis"
    then have r: "0 \<le> sint x" "sint x < 2 ^ 31" by auto
    from cz_in_range [OF r] bit_len_le_31 [OF r] width_ge err show False by simp
  qed
qed (auto simp: cz_eq)

lemma used_bits:
  "0 \<le> sint x \<Longrightarrow> sint x < 2 ^ 31 \<Longrightarrow> of_nat width - cz x = of_nat (bit_len (unat x))"
  by (simp add: cz_eq)

end

interpretation cz64: zero_counter 64 count_zero_64
  by unfold_locales (simp_all add: count_zero_64_eq)

interpretation cz32: zero_counter 32 count_zero_32
  by unfold_locales (simp_all add: count_zero_32_eq)

section \<open>The shared result block\<close>

lemma fit_result_other:
  assumes "sint acc < 0 \<or> 2 ^ 31 \<le> sint acc" "sint q \<le> 65"
  shows "fit_result q acc = \<lparr>fp_number = trunc32 acc, fp_q = q\<rparr>"
proof -
  have "count_zero_64 acc = - 1" using assms(1) by (simp only: cz64.cz_error_iff)
  then show ?thesis using assms(2) by (simp add: fit_result_def)
qed

lemma fit_result_in_range:
  assumes "0 \<le> sint acc" "sint acc < 2 ^ 31" "0 \<le> sint q" "sint q < 64"
  shows "fit_result q acc =
    (if nat (sint q) \<le> bit_len (unat acc) then \<lparr>fp_number = trunc32 acc, fp_q = q\<rparr>
     else \<lparr>fp_number = of_nat (unat acc div 2 ^ (nat (sint q) - bit_len (unat acc))),
           fp_q = of_nat (bit_len (unat acc))\<rparr>)"
proof -
  let ?b = "bit_len (unat acc)"
  have b: "?b \<le> 31" using assms(1,2) by (rule cz64.bit_len_le_31)
  have al: "64 - count_zero_64 acc = of_nat ?b"
    using cz64.used_bits [OF assms(1,2)] by simp
  have sb: "sint (of_nat ?b :: i32) = int ?b" using b by (intro sint32_of_nat) simp
  show ?thesis
  proof (cases "nat (sint q) \<le> ?b")
    case True
    then have "\<not> int ?b < sint q" by linarith
    then show ?thesis using True al sb by (simp add: fit_result_def)
  next
    case False
    then have lt: "int ?b < sint q" by linarith
    have d: "sint (q - of_nat ?b) = sint q - int ?b"
      using lt assms(3,4) sb by (subst sint32_sub) auto
    have "uint (shr64 acc (q - of_nat ?b)) = uint acc div 2 ^ nat (sint q - int ?b)"
      using lt assms(3,4) by (subst uint_shr64) (simp_all add: d)
    then have u: "unat (shr64 acc (q - of_nat ?b)) = unat acc div 2 ^ (nat (sint q) - ?b)"
      using lt by (intro unat_eqI) (simp add: zdiv_int nat_diff_distrib)
    have "unat acc div 2 ^ (nat (sint q) - ?b) < 2 ^ 32"
      using le_less_trans [OF div_le_dividend sint_range_unat [OF assms(1,2)]]
      by (rule less_trans) simp
    then have "unat (trunc32 (shr64 acc (q - of_nat ?b))) = unat acc div 2 ^ (nat (sint q) - ?b)"
      by (simp only: unat_trunc32 u)
    then have "trunc32 (shr64 acc (q - of_nat ?b)) = of_nat (unat acc div 2 ^ (nat (sint q) - ?b))"
      by (rule of_nat_unat_eqI)
    then show ?thesis using False lt al sb by (simp add: fit_result_def)
  qed
qed

lemma sint_sext_unat: "0 \<le> sint s \<Longrightarrow> int (unat (sext64 s)) = sint s"
  using sint_eq_uint_nonneg [of "sext64 s"] by simp

lemma sint_of_nat_div:
  "unat acc < 2 ^ 31 \<Longrightarrow> sint (of_nat (unat acc div m) :: i32) = int (unat acc div m)"
  by (rule sint32_of_nat) (rule le_less_trans [OF div_le_dividend])

text \<open>Truncating a quotient of powers of two loses less than one unit in the last place.\<close>

lemma rat_div_power_bounds:
  fixes n :: nat
  assumes "b \<le> k"
  shows "of_nat (n div 2 ^ (k - b)) / 2 ^ b \<le> (of_nat n / 2 ^ k :: rat)"
    and "of_nat n / 2 ^ k - of_nat (n div 2 ^ (k - b)) / 2 ^ b < (1 / 2 ^ b :: rat)"
proof -
  let ?d = "n div 2 ^ (k - b)" and ?r = "n mod 2 ^ (k - b)"
  have k: "(2 :: rat) ^ k = 2 ^ b * 2 ^ (k - b)" using assms by (simp flip: power_add)
  have "n = ?d * 2 ^ (k - b) + ?r" by (simp only: div_mult_mod_eq)
  then have n: "(of_nat n :: rat) = of_nat ?d * 2 ^ (k - b) + of_nat ?r"
    by (metis of_nat_add of_nat_mult of_nat_numeral of_nat_power)
  have split: "(of_nat n / 2 ^ k :: rat) = of_nat ?d / 2 ^ b + of_nat ?r / 2 ^ k"
    by (simp add: n k add_divide_distrib)
  have "(of_nat ?r :: rat) < 2 ^ (k - b)"
    by (metis mod_less_divisor of_nat_less_numeral_power_cancel_iff zero_less_numeral zero_less_power)
  then have "(of_nat ?r / 2 ^ k :: rat) < 2 ^ (k - b) / 2 ^ k"
    by (simp add: divide_strict_right_mono)
  also have "\<dots> = 1 / 2 ^ b" by (simp add: k)
  finally show "of_nat n / 2 ^ k - of_nat ?d / 2 ^ b < (1 / 2 ^ b :: rat)" using split by simp
  show "of_nat ?d / 2 ^ b \<le> (of_nat n / 2 ^ k :: rat)" using split by simp
qed

text \<open>The value of the result block is the exact value, cut to the precision it keeps.\<close>

lemma fit_result_value:
  assumes "0 \<le> sint acc" "sint acc < 2 ^ 31" "0 \<le> sint q" "sint q < 64"
  defines "r \<equiv> fit_result q acc"
  shows "fp_value r \<le> of_nat (unat acc) / 2 ^ nat (sint q)"
    and "of_nat (unat acc) / 2 ^ nat (sint q) - fp_value r < 1 / 2 ^ nat (sint (fp_q r))"
    and "nat (sint q) \<le> bit_len (unat acc) \<Longrightarrow> fp_value r = of_nat (unat acc) / 2 ^ nat (sint q)"
    and "2 * bit_len (unat acc) \<le> nat (sint q) \<Longrightarrow> fp_value r = 0"
proof -
  let ?n = "unat acc" and ?b = "bit_len (unat acc)" and ?k = "nat (sint q)"
  have n: "?n < 2 ^ 31" using assms(1,2) by (rule sint_range_unat)
  have b: "?b \<le> 31" using assms(1,2) by (rule cz64.bit_len_le_31)
  then have sb: "sint (of_nat ?b :: i32) = int ?b" by (intro sint32_of_nat) simp
  have t: "sint (trunc32 acc) = int ?n"
    using n by (intro sint_trunc32)
  have r: "r = (if ?k \<le> ?b then \<lparr>fp_number = trunc32 acc, fp_q = q\<rparr>
     else \<lparr>fp_number = of_nat (?n div 2 ^ (?k - ?b)), fp_q = of_nat ?b\<rparr>)"
    unfolding r_def using assms(1-4) by (rule fit_result_in_range)
  have v: "fp_value r = (if ?k \<le> ?b then of_nat ?n / 2 ^ ?k else of_nat (?n div 2 ^ (?k - ?b)) / 2 ^ ?b)"
    using r t sb sint_of_nat_div [OF n]
    by (simp add: fp_value_def del: of_int_sint of_nat_unat)
  have q: "\<not> ?k \<le> ?b \<Longrightarrow> nat (sint (fp_q r)) = ?b" using r sb by simp
  show "fp_value r \<le> of_nat ?n / 2 ^ ?k"
    using v rat_div_power_bounds(1) [of ?b ?k ?n] by auto
  show "of_nat ?n / 2 ^ ?k - fp_value r < 1 / 2 ^ nat (sint (fp_q r))"
    using v q rat_div_power_bounds(2) [of ?b ?k ?n] by auto
  show "?k \<le> ?b \<Longrightarrow> fp_value r = of_nat ?n / 2 ^ ?k" using v by simp
  show "fp_value r = 0" if "2 * ?b \<le> ?k"
  proof (cases "?b = 0")
    case True
    then have "?n = 0" by (metis bit_len_pos gr0I nat.distinct(1))
    then show ?thesis using v by simp
  next
    case False
    have "(2::nat) ^ ?b \<le> 2 ^ (?k - ?b)" using that by (intro power_increasing) simp_all
    with bit_len_upper [of ?n] have "?n < 2 ^ (?k - ?b)" by (rule less_le_trans)
    then show ?thesis using v False that by simp
  qed
qed

section \<open>\<open>check_bit\<close>\<close>

lemma check_bit_eq:
  "check_bit a b =
     (a\<lparr>fp_q := if sint (fp_q a) < sint (fp_q b) then fp_q b else fp_q a\<rparr>,
      b\<lparr>fp_q := if sint (fp_q b) < sint (fp_q a) then fp_q a else fp_q b\<rparr>)"
  by (simp add: check_bit_def shl32_def)

lemma check_bit_same [simp]: "fp_q a = fp_q b \<Longrightarrow> check_bit a b = (a, b)"
  by (simp add: check_bit_eq)

lemma check_bit_numbers [simp]:
  "fp_number (fst (check_bit a b)) = fp_number a" "fp_number (snd (check_bit a b)) = fp_number b"
  by (simp_all add: check_bit_eq)

lemma check_bit_q:
  "fp_q (fst (check_bit a b)) = fp_q (snd (check_bit a b))"
  "sint (fp_q (fst (check_bit a b))) = max (sint (fp_q a)) (sint (fp_q b))"
  by (auto simp: check_bit_eq intro: sint_eqD)

section \<open>Addition, subtraction, division\<close>

abbreviation op_result :: "fixed_point \<times> fixed_point \<times> fixed_point \<Rightarrow> fixed_point" where
  "op_result r \<equiv> snd (snd r)"

lemma add_any_q:
  "op_result (add a b) = fit_result (fp_q (fst (check_bit a b))) (sext64 (fp_number a + fp_number b))"
  by (simp add: add_def split_beta)

lemma add_same_q:
  "fp_q a = fp_q b \<Longrightarrow>
   op_result (add a b) = fit_result (fp_q a) (sext64 (fp_number a + fp_number b))"
  by (simp add: add_def)

lemma subtract_same_q:
  "fp_q a = fp_q b \<Longrightarrow>
   op_result (subtract a b) = fit_result (fp_q a) (sext64 (fp_number a - fp_number b))"
  by (simp add: subtract_def)

lemma fit_sext_neg_value:
  assumes "sint s < 0" "sint q \<le> 65"
  shows "fp_value (fit_result q (sext64 s)) = of_int (sint s) / 2 ^ nat (sint q)"
  using assms by (simp add: fit_result_other fp_value_def)

lemmas fit_sext_value = fit_result_value [of "sext64 s" for s, unfolded sint_sext64]

lemma of_nat_unat_sext: "0 \<le> sint s \<Longrightarrow> (of_nat (unat (sext64 s)) :: rat) = of_int (sint s)"
  by (metis of_int_of_nat_eq sint_sext_unat)

lemma bit_len_ge: "2 ^ k \<le> sint s \<Longrightarrow> Suc k \<le> bit_len (unat (sext64 s))"
proof -
  assume s: "2 ^ k \<le> sint s"
  then have "0 \<le> sint s" by (meson order_trans zero_le_numeral zero_le_power)
  with s have "2 ^ k \<le> unat (sext64 s)"
    by (metis sint_sext_unat numeral_power_le_of_nat_cancel_iff)
  then show ?thesis using bit_len_le_iff [of "unat (sext64 s)" k] by linarith
qed

lemma fit_sext_exact:
  assumes "0 \<le> sint q" "sint q < 32" "sint s < 0 \<or> 2 ^ nat (sint q) \<le> 2 * sint s"
  shows "fp_value (fit_result q (sext64 s)) = of_int (sint s) / 2 ^ nat (sint q)"
proof (cases "sint s < 0")
  case True
  then show ?thesis using assms(2) by (intro fit_sext_neg_value) simp_all
next
  case False
  have "nat (sint q) \<le> bit_len (unat (sext64 s))"
  proof (cases "nat (sint q)")
    case (Suc k)
    then show ?thesis using bit_len_ge [of k s] False assms(3) by simp
  qed simp
  then show ?thesis
    using fit_sext_value(3) [of s q] False assms(1,2) sint32_range(2) [of s] of_nat_unat_sext [of s]
    by simp
qed

lemma fit_sext_error:
  fixes s q :: i32
  assumes "0 \<le> sint q" "sint q < 32" 
  defines "r \<equiv> fit_result q (sext64 s)"
  shows "fp_value r \<le> of_int (sint s) / 2 ^ nat (sint q)"
    and "of_int (sint s) / 2 ^ nat (sint q) - fp_value r < 1 / 2 ^ nat (sint (fp_q r))"
proof -
  have "fp_value r \<le> of_int (sint s) / 2 ^ nat (sint q) \<and>
        of_int (sint s) / 2 ^ nat (sint q) - fp_value r < 1 / 2 ^ nat (sint (fp_q r))"
  proof (cases "sint s < 0")
    case True
    then have "fp_value r = of_int (sint s) / 2 ^ nat (sint q)"
      unfolding r_def using assms(2) by (intro fit_sext_neg_value) simp_all
    then show ?thesis by simp
  next
    case False
    then show ?thesis
      using fit_sext_value(1,2) [of s q] assms(1,2) sint32_range(2) [of s] of_nat_unat_sext [of s]
      by (simp add: r_def del: of_int_sint of_nat_unat)
  qed
  then show "fp_value r \<le> of_int (sint s) / 2 ^ nat (sint q)"
    and "of_int (sint s) / 2 ^ nat (sint q) - fp_value r < 1 / 2 ^ nat (sint (fp_q r))"
    by blast+
qed

lemma fp_value_add:
  "fp_q a = fp_q b \<Longrightarrow>
   fp_value a + fp_value b = of_int (sint (fp_number a) + sint (fp_number b)) / 2 ^ nat (sint (fp_q a))"
  by (simp add: fp_value_def add_divide_distrib)

lemma fp_value_diff:
  "fp_q a = fp_q b \<Longrightarrow>
   fp_value a - fp_value b = of_int (sint (fp_number a) - sint (fp_number b)) / 2 ^ nat (sint (fp_q a))"
  by (simp add: fp_value_def diff_divide_distrib)

lemma divide_acc:
  assumes "0 \<le> sint a" "0 < sint b" "0 \<le> sint q" "sint q \<le> 32"
  shows "uint (shr64 (udiv64 (shl64 (sext64 a) 32) (sext64 b)) (32 - q)) =
         sint a * 2 ^ nat (sint q) div sint b"
proof -
  have ua: "uint (sext64 a) = sint a" using assms(1) sint_eq_uint_nonneg [of "sext64 a"] by simp
  have ub: "uint (sext64 b) = sint b" using assms(2) sint_eq_uint_nonneg [of "sext64 b"] by simp
  have "sint a * 2 ^ 32 < 2 ^ 64" using sint32_range(2) [of a] by simp
  then have sh: "uint (shl64 (sext64 a) 32) = sint a * 2 ^ 32"
    using assms(1) ua
    by (simp add: shl64_def push_bit_eq_mult uint_word_ariths)
  have "sext64 b \<noteq> 0" using assms(2) ub by auto
  then have dv: "uint (udiv64 (shl64 (sext64 a) 32) (sext64 b)) = sint a * 2 ^ 32 div sint b"
    by (simp add: udiv64_def uint_div sh ub)
  have c: "sint (32 - q) = 32 - sint q" using assms(3,4) by (subst sint32_sub) simp_all
  have "uint (shr64 (udiv64 (shl64 (sext64 a) 32) (sext64 b)) (32 - q))
      = sint a * 2 ^ 32 div sint b div 2 ^ nat (32 - sint q)"
    using assms(3,4) by (subst uint_shr64) (simp_all add: c dv)
  also have "\<dots> = sint a * 2 ^ 32 div (sint b * 2 ^ nat (32 - sint q))"
    by (simp add: zdiv_zmult2_eq)
  also have "(2::int) ^ 32 = 2 ^ nat (sint q) * 2 ^ nat (32 - sint q)"
    using assms(3,4) by (simp add: nat_diff_distrib flip: power_add)
  finally show ?thesis by (simp flip: mult.assoc)
qed

lemma divide_any_q:
  fixes a b :: fixed_point
  defines "q \<equiv> fp_q (fst (check_bit a b))"
  assumes "0 \<le> sint (fp_number a)" "0 < sint (fp_number b)" "0 \<le> sint q" "sint q \<le> 32"
    and "sint (fp_number a) * 2 ^ nat (sint q) div sint (fp_number b) < 2 ^ 31"
  obtains s where "sint s = sint (fp_number a) * 2 ^ nat (sint q) div sint (fp_number b)"
    and "op_result (divide a b) = fit_result q (sext64 s)"
proof -
  let ?w = "shr64 (udiv64 (shl64 (sext64 (fp_number a)) 32) (sext64 (fp_number b))) (32 - q)"
  let ?v = "sint (fp_number a) * 2 ^ nat (sint q) div sint (fp_number b)"
  have w: "uint ?w = ?v" using assms(2-5) by (rule divide_acc)
  have v: "0 \<le> ?v" using assms(2,3) by (simp add: pos_imp_zdiv_nonneg_iff)
  have s: "sint (word_of_int ?v :: i32) = ?v"
    using v assms(6) by (intro sint32_of_int) (rule order_trans [OF _ v], simp_all)
  have "sext64 (word_of_int ?v) = ?w"
  proof (rule sint_eqD)
    have "sint ?w = ?v" using w assms(6) sint64_small [of ?w] by simp
    then show "sint (sext64 (word_of_int ?v)) = sint ?w" using s by simp
  qed
  then show thesis using s by (intro that [of "word_of_int ?v"]) (simp_all add: divide_def q_def split_beta)
qed

lemma widened_value:
  fixes a b :: fixed_point
  defines "k \<equiv> max (sint (fp_q a)) (sint (fp_q b))"
  assumes "0 \<le> sint (fp_q a)" "0 \<le> sint (fp_q b)"
  shows "of_int (sint (fp_number a)) / 2 ^ nat k = fp_value a / 2 ^ nat (k - sint (fp_q a))"
    and "of_int (sint (fp_number b)) / 2 ^ nat k = fp_value b / 2 ^ nat (k - sint (fp_q b))"
proof -
  have "nat k = nat (sint (fp_q a)) + nat (k - sint (fp_q a))" "nat k = nat (sint (fp_q b)) + nat (k - sint (fp_q b))"
    using assms(2,3) by (auto simp: k_def)
  from this [THEN arg_cong, of "(^) (2::rat)"]
  show "of_int (sint (fp_number a)) / 2 ^ nat k = fp_value a / 2 ^ nat (k - sint (fp_q a))"
    and "of_int (sint (fp_number b)) / 2 ^ nat k = fp_value b / 2 ^ nat (k - sint (fp_q b))"
    by (simp_all add: fp_value_def power_add del: of_int_sint)
qed

lemma rat_floor_div:
  fixes a b m :: int
  assumes "0 < b"
  shows "of_int (a * m div b) \<le> (of_int a * of_int m / of_int b :: rat)"
    and "(of_int a * of_int m / of_int b :: rat) < of_int (a * m div b) + 1"
proof -
  have "a * m div b = \<lfloor>of_int (a * m) / of_int b :: rat\<rfloor>" by (rule floor_divide_of_int_eq [symmetric])
  then show "of_int (a * m div b) \<le> (of_int a * of_int m / of_int b :: rat)"
    and "(of_int a * of_int m / of_int b :: rat) < of_int (a * m div b) + 1"
    by (simp_all only: of_int_floor_le floor_correct flip: of_int_mult) linarith+
qed

section \<open>Multiplication\<close>

lemma sint_high32: "sint (trunc32 (high32 x)) = sint (fp_number x) div 2 ^ 16"
  by (simp add: high32_def sint_sar32)

lemma sint_low32: "sint (trunc32 (low32 x)) = sint (fp_number x) mod 2 ^ 16"
proof -
  let ?n = "fp_number x"
  have m: "?n AND 0xFFFF = take_bit 16 ?n" by (simp add: take_bit_eq_mask mask_eq_exp_minus_1)
  have u: "uint (take_bit 16 ?n) = uint ?n mod 2 ^ 16"
    by (simp add: take_bit_eq_mod uint_mod)
  then have "uint (take_bit 16 ?n) < 2 ^ 16" by simp
  then have "uint (take_bit 16 ?n) < 2 ^ 31" by simp
  then have "sint (take_bit 16 ?n) = uint ?n mod 2 ^ 16" using u by (simp only: sint32_small)
  also have "uint ?n mod 2 ^ 16 = sint ?n mod 2 ^ 16"
    by (simp add: uint_sint take_bit_eq_mod mod_mod_cancel)
  finally show ?thesis by (simp add: low32_def m)
qed

lemma product_split_aux:
  fixes h l m :: int
  shows "(h * m + l) * (h' * m + l') = l * l' + (h * h' * m + l * h' + h * l') * m"
  by (simp add: algebra_simps)

lemma product_split:
  fixes a b :: int
  shows "a * b div 2 ^ 16 =
    (a div 2 ^ 16) * (b div 2 ^ 16) * 2 ^ 16 + (a mod 2 ^ 16) * (b div 2 ^ 16)
    + (a div 2 ^ 16) * (b mod 2 ^ 16) + (a mod 2 ^ 16) * (b mod 2 ^ 16) div 2 ^ 16"
proof -
  have "a * b = ((a div 2 ^ 16) * 2 ^ 16 + a mod 2 ^ 16) * ((b div 2 ^ 16) * 2 ^ 16 + b mod 2 ^ 16)"
    by (simp only: div_mult_mod_eq)
  also have "\<dots> = (a mod 2 ^ 16) * (b mod 2 ^ 16)
      + ((a div 2 ^ 16) * (b div 2 ^ 16) * 2 ^ 16 + (a mod 2 ^ 16) * (b div 2 ^ 16)
         + (a div 2 ^ 16) * (b mod 2 ^ 16)) * 2 ^ 16"
    by (rule product_split_aux)
  finally have ab: "a * b = (a mod 2 ^ 16) * (b mod 2 ^ 16)
      + ((a div 2 ^ 16) * (b div 2 ^ 16) * 2 ^ 16 + (a mod 2 ^ 16) * (b div 2 ^ 16)
         + (a div 2 ^ 16) * (b mod 2 ^ 16)) * 2 ^ 16" .
  show ?thesis unfolding ab by (subst div_mult_self1) simp_all
qed

lemma half_product_range:
  fixes a b :: i32
  shows "- (2 ^ 31) < (sint a div 2 ^ 16) * (sint b div 2 ^ 16)"
    and "(sint a div 2 ^ 16) * (sint b div 2 ^ 16) < 2 ^ 31"
proof -
  have ab: "\<bar>sint a div 2 ^ 16\<bar> \<le> 2 ^ 15" "\<bar>sint b div 2 ^ 16\<bar> \<le> 2 ^ 15"
    using sint32_range [of a] sint32_range [of b] by auto
  have "\<bar>(sint a div 2 ^ 16) * (sint b div 2 ^ 16)\<bar> \<le> 2 ^ 15 * 2 ^ 15"
    unfolding abs_mult using ab by (intro mult_mono) simp_all
  then show "- (2 ^ 31) < (sint a div 2 ^ 16) * (sint b div 2 ^ 16)"
    and "(sint a div 2 ^ 16) * (sint b div 2 ^ 16) < 2 ^ 31"
    by (simp_all add: abs_le_iff)
qed

lemma multiply_q16_word:
  fixes a b :: fixed_point
  assumes q: "fp_q a = 16" "fp_q b = 16"
  defines "A \<equiv> sint (fp_number a)" and "B \<equiv> sint (fp_number b)"
  assumes hh: "0 \<le> (A div 2 ^ 16) * (B div 2 ^ 16)" "(A div 2 ^ 16) * (B div 2 ^ 16) \<le> 2 ^ 15"
    and ll: "(A mod 2 ^ 16) * (B mod 2 ^ 16) < 2 ^ 31"
  shows "op_result (multiply a b) = \<lparr>fp_number = word_of_int (A * B div 2 ^ 16), fp_q = 16\<rparr>"
proof -
  let ?hf = "trunc32 (high32 a)" and ?lf = "trunc32 (low32 a)"
  let ?hs = "trunc32 (high32 b)" and ?ls = "trunc32 (low32 b)"
  have w: "?hf = word_of_int (A div 2 ^ 16)" "?lf = word_of_int (A mod 2 ^ 16)"
    "?hs = word_of_int (B div 2 ^ 16)" "?ls = word_of_int (B mod 2 ^ 16)"
    unfolding A_def B_def by (intro word_of_sint_eqI sint_high32 sint_low32)+
  have t: "sint (?hf * ?hs) = (A div 2 ^ 16) * (B div 2 ^ 16)"
    using half_product_range [of "fp_number a" "fp_number b"]
    by (subst sint32_mult) (simp_all add: sint_high32 A_def B_def)
  then have "uint (sext64 (?hf * ?hs)) = (A div 2 ^ 16) * (B div 2 ^ 16)"
    using hh(1) by (subst sint_eq_uint_nonneg) simp_all
  then have no: "\<not> uint (sext64 (?hf * ?hs)) > uint (shl64 1 (32 - 16 - 1))"
    using hh(2) by (simp add: shl64_def)
  have l: "sint (?lf * ?ls) = (A mod 2 ^ 16) * (B mod 2 ^ 16)"
    using ll by (subst sint32_mult)
      (simp_all add: sint_low32 A_def B_def order_trans [of _ 0])
  have s0: "sar32 x 0 = x" for x by (simp add: sar32_def)
  let ?p = "(A mod 2 ^ 16) * (B mod 2 ^ 16) div 2 ^ 16"
  have p: "0 \<le> ?p" "?p < 2 ^ 31" using ll by (simp_all add: pos_imp_zdiv_nonneg_iff)
  have sl: "sar32 (?lf * ?ls) 16 = word_of_int ?p"
    using p l by (intro word_of_sint_eqI) (simp add: sint_sar32)
  have "op_result (multiply a b) =
      \<lparr>fp_number = ?hf * ?hs * 2 ^ 16 + ?lf * ?hs + ?hf * ?ls + sar32 (?lf * ?ls) 16, fp_q = 16\<rparr>"
    using q no by (simp add: multiply_def Let_def s0 shl32_mult)
  also have "?hf * ?hs * 2 ^ 16 + ?lf * ?hs + ?hf * ?ls + sar32 (?lf * ?ls) 16 =
      word_of_int (A * B div 2 ^ 16)"
    unfolding sl unfolding w product_split [of A B] by simp
  finally show ?thesis .
qed

section \<open>Absolute value\<close>

lemma abs_val_number:
  "fp_number (abs_val x) = (if sint (fp_number x) < 0 then - fp_number x else fp_number x)"
proof -
  let ?n = "fp_number x" and ?m = "sar32 (fp_number x) 31"
  have m: "sint ?m = sint ?n div 2 ^ 31" by (simp add: sint_sar32)
  show ?thesis
  proof (cases "sint ?n < 0")
    case True
    then have "sint ?m = - 1" using m sint32_range(1) [of ?n] by (simp add: div_eq_minus1)
    then have "?m = - 1" by (metis sint_eqD sint_n1)
    then show ?thesis using True by (simp add: abs_val_def not_eq_complement)
  next
    case False
    then have "sint ?m = 0" using m sint32_range(2) [of ?n] by simp
    then have "?m = 0" by (simp add: signed_eq_0_iff)
    then show ?thesis using False by (simp add: abs_val_def)
  qed
qed

lemma abs_val_q [simp]: "fp_q (abs_val x) = fp_q x"
  by (simp add: abs_val_def Let_def)

lemma sint_uminus32: "- (2 ^ 31) < sint (x :: i32) \<Longrightarrow> sint (- x) = - sint x"
  using sint32_range [of x] by (simp add: sint_word_ariths signed_take_bit_int_eq_self)

lemma sint_abs_val:
  "- (2 ^ 31) < sint (fp_number x) \<Longrightarrow> sint (fp_number (abs_val x)) = \<bar>sint (fp_number x)\<bar>"
  by (simp add: abs_val_number sint_uminus32)

section \<open>Logarithm\<close>

lemma log_array_length: "length log_array = 256"
  by (simp add: log_array_def)

lemma log_array_increasing: "sorted_wrt (<) log_array"
proof -
  have "successively (<) log_array" by (simp add: log_array_def)
  then show ?thesis by (simp add: successively_conv_sorted_wrt)
qed

lemma log_array_bound: "\<forall>v \<in> set log_array. uint v < 2 ^ 24"
  by (simp add: log_array_def)

lemma log_array_nth_bound: "i < 256 \<Longrightarrow> uint (log_array ! i) < 2 ^ 24"
  using log_array_bound log_array_length by (metis nth_mem)

text \<open>The exponent \<open>e\<close> of \<open>2 ^ e \<le> n < 2 ^ (e + 1)\<close>, and the table index the code extracts.\<close>

lemma unat_nonneg32: "0 \<le> sint (x :: i32) \<Longrightarrow> int (unat x) = sint x"
  using sint_eq_uint_nonneg [of x] by simp

lemma uint_byte_of_sar24: "uint (ucast (sar32 x 24) :: u8) = uint x div 2 ^ 24"
proof -
  let ?y = "uint x div 2 ^ 24"
  have s: "sint (sar32 x 24) = sint x div 2 ^ 24" by (simp add: sint_sar32)
  have y: "0 \<le> ?y" "?y < 2 ^ 8" using uint_lt2p [of x] by (simp_all add: pos_imp_zdiv_nonneg_iff)
  have "uint (ucast (sar32 x 24) :: u8) = uint (sar32 x 24) mod 2 ^ 8"
    by (simp add: unsigned_ucast_eq take_bit_eq_mod)
  also have "\<dots> = sint (sar32 x 24) mod 2 ^ 8"
    by (simp add: uint_sint take_bit_eq_mod mod_mod_cancel)
  also have "\<dots> = (sint x div 2 ^ 24) mod 2 ^ 8" by (simp only: s)
  also have "\<dots> = ?y mod 2 ^ 8"
  proof (cases "uint x < 2 ^ 31")
    case True
    then show ?thesis by (simp add: sint32_small)
  next
    case False
    then have "sint x = uint x - 2 ^ 32" by (intro sint32_neg) simp
    then have "sint x = uint x + (- 256) * 2 ^ 24" by simp
    then have "sint x div 2 ^ 24 = ?y + (- 1) * 2 ^ 8" by (simp only: div_mult_self1) simp
    then show ?thesis by (simp only: mod_mult_self1)
  qed
  also have "\<dots> = ?y" using y by (rule mod_pos_pos_trivial)
  finally show ?thesis .
qed

lemma unat_byte_of_sar24: "unat (ucast (sar32 x 24) :: u8) = unat x div 2 ^ 24"
  by (rule unat_eqI) (simp add: uint_byte_of_sar24 zdiv_int)

lemma exponent_bounds:
  assumes "0 < sint (n :: i32)" "e = bit_len (unat n) - 1"
  shows "2 ^ e \<le> unat n" "unat n < 2 * 2 ^ e" "e \<le> 30" "bit_len (unat n) = Suc e"
proof -
  have un: "int (unat n) = sint n" using assms(1) by (intro unat_nonneg32) simp
  then have n0: "0 < unat n" using assms(1) by linarith
  then show s: "bit_len (unat n) = Suc e" using assms(2) bit_len_pos [OF n0] by simp
  have "uint n < 2 ^ 31" using sint32_range(2) [of n] un by simp
  then have "unat n < 2 ^ 31" by (simp only: uint_less_power)
  then show "e \<le> 30" using bit_len_le_iff [of "unat n" 31] s by simp
  show "2 ^ e \<le> unat n" using n0 assms(2) bit_len_lower by simp
  show "unat n < 2 * 2 ^ e" using s bit_len_upper [of "unat n"] by simp
qed

lemma log_index_shift:
  assumes "0 < sint n" "e = bit_len (unat n) - 1"
  shows "unat (shl32 n (of_nat (32 - e))) div 2 ^ 24 = (unat n - 2 ^ e) * 2 ^ (32 - e) div 2 ^ 24"
proof (cases "e = 0")
  case True
  then have "unat n = 1" using exponent_bounds(1,2) [OF assms] by simp
  then have "n = 1" by (simp add: word_unat_eq_iff)
  then show ?thesis using True by (simp add: shl32_def)
next
  case False
  note b = exponent_bounds [OF assms]
  let ?d = "unat n - 2 ^ e"
  have p: "(2::nat) ^ 32 = 2 ^ e * 2 ^ (32 - e)" using b(3) by (simp flip: power_add)
  have "?d < 2 ^ e" using b(2) by simp
  then have small: "?d * 2 ^ (32 - e) < 2 ^ 32" unfolding p by simp
  have c: "sint (of_nat (32 - e) :: i32) = int (32 - e)" by (intro sint32_of_nat) simp
  have "unat (shl32 n (of_nat (32 - e))) = unat n * 2 ^ (32 - e) mod 2 ^ 32"
    using False c by (subst unat_shl32) simp_all
  also have "unat n * 2 ^ (32 - e) = ?d * 2 ^ (32 - e) + 1 * 2 ^ 32"
    unfolding p using b(1) by (simp add: diff_mult_distrib)
  also have "\<dots> mod 2 ^ 32 = ?d * 2 ^ (32 - e)"
    using small by (simp only: mod_mult_self1 mod_less)
  finally show ?thesis by simp
qed

lemma log_index:
  assumes "0 < sint n" "e = bit_len (unat n) - 1"
  shows "unat (ucast (sar32 (shl32 n (of_nat (32 - e))) 24) :: u8) = unat n * 256 div 2 ^ e - 256"
proof -
  note b = exponent_bounds [OF assms]
  let ?d = "unat n - 2 ^ e"
  have p: "(2::nat) ^ (32 - e) * 2 ^ e = 2 ^ 8 * 2 ^ 24" using b(3) by (simp flip: power_add)
  have "?d * 2 ^ (32 - e) div 2 ^ 24 = ?d * 2 ^ (32 - e) * 2 ^ e div (2 ^ 24 * 2 ^ e)"
    by simp
  also have "?d * 2 ^ (32 - e) * 2 ^ e = 2 ^ 24 * (?d * 2 ^ 8)"
    unfolding mult.assoc p by simp
  also have "2 ^ 24 * (?d * 2 ^ 8) div (2 ^ 24 * 2 ^ e) = ?d * 2 ^ 8 div 2 ^ e"
    by (rule div_mult_mult1) simp
  also have "\<dots> = unat n * 256 div 2 ^ e - 256"
  proof -
    have "unat n * 256 = ?d * 2 ^ 8 + 256 * 2 ^ e" using b(1) by (simp add: diff_mult_distrib)
    then have "unat n * 256 div 2 ^ e = 256 + ?d * 2 ^ 8 div 2 ^ e" by simp
    then show ?thesis by simp
  qed
  finally show ?thesis by (simp only: unat_byte_of_sar24 log_index_shift [OF assms])
qed

lemma unat_sext64_nonneg: "0 \<le> sint n \<Longrightarrow> unat (sext64 n) = unat n"
  by (rule unat_eqI) (metis sint_sext_unat unat_nonneg32 uint_nat)

text \<open>The ingredients of a logarithm: the exponent, the table index and the table entry.\<close>

lemma log_parts:
  fixes n q :: i32
  defines "e \<equiv> bit_len (unat n) - 1" and "lz \<equiv> count_zero_32 (sext64 n)"
  assumes n: "0 < sint n" and q: "0 \<le> sint q" "sint q \<le> 24"
  shows "sint lz = 31 - int e" "e \<le> 30"
    and "unat (ucast (sar32 (shl32 n (lz + 1)) 24) :: u8) = unat n * 256 div 2 ^ e - 256"
    and "uint (log_array ! (unat n * 256 div 2 ^ e - 256)) < 2 ^ 24"
    and "sint (shl32 (31 - q - lz) 24) = (int e - sint q) * 2 ^ 24"
    and "sint (24 - q) = 24 - sint q"
proof -
  have e: "e = bit_len (unat n) - 1" by (simp add: e_def)
  note b = exponent_bounds [OF n e]
  show "e \<le> 30" by (rule b(3))
  have s: "0 \<le> sint (sext64 n)" "sint (sext64 n) < 2 ^ 31"
    using n sint32_range(2) [of n] by simp_all
  have "unat (sext64 n) = unat n" using n by (intro unat_sext64_nonneg) simp
  then have lz: "lz = of_nat (31 - e)"
    using cz32.cz_eq [of "sext64 n"] s b(3,4) by (simp add: lz_def)
  have "sint (of_nat (31 - e) :: i32) = int (31 - e)" by (intro sint32_of_nat) simp
  then show slz: "sint lz = 31 - int e" using b(3) by (simp add: lz)
  have lz1: "lz + 1 = of_nat (32 - e)" using lz b(3) by simp
  show idx: "unat (ucast (sar32 (shl32 n (lz + 1)) 24) :: u8) = unat n * 256 div 2 ^ e - 256"
    unfolding lz1 using n e by (rule log_index)
  have "unat (ucast (sar32 (shl32 n (lz + 1)) 24) :: u8) < 2 ^ LENGTH(8)" by (rule unsigned_less)
  then show "uint (log_array ! (unat n * 256 div 2 ^ e - 256)) < 2 ^ 24"
    using log_array_nth_bound [of "unat (ucast (sar32 (shl32 n (lz + 1)) 24) :: u8)"] idx by simp
  have a: "sint (31 - q) = 31 - sint q" using q by (subst sint32_sub) simp_all
  have "sint (31 - q - lz) = int e - sint q" using q slz b(3) by (subst sint32_sub) (simp_all add: a)
  then show "sint (shl32 (31 - q - lz) 24) = (int e - sint q) * 2 ^ 24"
    using q b(3) by (subst sint_shl32) simp_all
  show "sint (24 - q) = 24 - sint q" using q by (subst sint32_sub) simp_all
qed

lemma calc_log_positive:
  fixes x :: fixed_point
  defines "n \<equiv> fp_number x" and "q \<equiv> sint (fp_q x)" and "e \<equiv> bit_len (unat (fp_number x)) - 1"
  assumes n: "0 < sint n" and q: "0 \<le> q" "q \<le> 24"
  shows "sint (fp_number (calc_log x)) =
           (int e - q) * 2 ^ 24
           + uint (log_array ! (unat n * 256 div 2 ^ e - 256)) div 2 ^ nat (24 - q)"
    and "fp_q (calc_log x) = 8"
proof -
  let ?lz = "count_zero_32 (sext64 n)"
  let ?T = "log_array ! (unat n * 256 div 2 ^ e - 256)"
  let ?f = "uint ?T div 2 ^ nat (24 - q)"
  note l = log_parts [of n "fp_q x", OF n, folded q_def, OF q, unfolded n_def, folded e_def, folded n_def]
  have f: "0 \<le> ?f" "?f < 2 ^ 24"
    using l(4) zdiv_mono2 [of "uint ?T" 1 "2 ^ nat (24 - q)"]
    by (simp_all add: pos_imp_zdiv_nonneg_iff)
  have frac: "sint (trunc32 (shr64 ?T (24 - fp_q x))) = ?f"
  proof -
    have u: "uint (shr64 ?T (24 - fp_q x)) = ?f"
      using q by (subst uint_shr64) (simp_all add: l(6))
    then have "unat (shr64 ?T (24 - fp_q x)) < 2 ^ 31"
      using f uint_less_power [of "shr64 ?T (24 - fp_q x)" 31] by simp
    then show ?thesis using u by (simp add: sint_trunc32)
  qed
  have "fp_number (calc_log x) = shl32 (31 - fp_q x - ?lz) 24 + trunc32 (shr64 ?T (24 - fp_q x))"
    using l(1-3) by (simp add: calc_log_def trunc32_add flip: n_def)
  also have "sint \<dots> = (int e - q) * 2 ^ 24 + ?f"
    using l(2) q f by (subst sint32_add) (simp_all add: frac l(5))
  finally show "sint (fp_number (calc_log x)) = (int e - q) * 2 ^ 24 + ?f" .
  show "fp_q (calc_log x) = 8" by (simp add: calc_log_def Let_def)
qed

section \<open>Conversion\<close>

lemma to_fixed_point_value:
  assumes "0 \<le> sint k" "sint k < 31"
    and "- (2 ^ 31) \<le> sint v * 2 ^ nat (sint k)" "sint v * 2 ^ nat (sint k) < 2 ^ 31"
  shows "fp_value (to_fixed_point k v) = of_int (sint v)"
proof -
  have "(2::int) ^ nat (sint k) \<le> 2 ^ 30" using assms(1,2) by (intro power_increasing) auto
  then have one: "sint (shl32 1 k) = 2 ^ nat (sint k)"
    using assms(1,2) by (subst sint_shl32) (simp_all add: order_trans [of _ 0])
  have "sint (v * shl32 1 k) = sint v * 2 ^ nat (sint k)"
    using assms(3,4) by (subst sint32_mult) (simp_all add: one)
  then show ?thesis by (simp add: fp_value_def to_fixed_point_def del: of_int_sint)
qed

lemma half_or_negative:
  fixes z :: int
  assumes "(of_int z :: rat) / 2 ^ k < 0 \<or> 1 / 2 \<le> (of_int z :: rat) / 2 ^ k"
  shows "z < 0 \<or> 2 ^ k \<le> 2 * z"
proof -
  have "1 / 2 \<le> (of_int z :: rat) / 2 ^ k \<longleftrightarrow> (2 ^ k :: rat) \<le> of_int (2 * z)"
    by (simp add: field_simps)
  also have "\<dots> \<longleftrightarrow> of_int (2 ^ k) \<le> (of_int (2 * z) :: rat)" by simp
  also have "\<dots> \<longleftrightarrow> 2 ^ k \<le> 2 * z" by (simp only: of_int_le_iff)
  finally show ?thesis using assms by (auto simp: divide_less_0_iff)
qed

lemma bit_len_sext_le:
  assumes "0 \<le> sint s" "sint s < 2 ^ m"
  shows "bit_len (unat (sext64 s)) \<le> m"
proof -
  have "int (unat (sext64 s)) < 2 ^ m" using assms sint_sext_unat [of s] by simp
  then have "unat (sext64 s) < 2 ^ m" by (simp only: of_nat_less_numeral_power_cancel_iff)
  then show ?thesis by (simp only: bit_len_le_iff)
qed

section \<open>Properties\<close>

text \<open>
  both counters return the number of leading zeros of a value that fits in 31 bits
  (over a 64-bit, respectively 32-bit, field), and -1 for every other value, negative
  ones and those of 32 bits and more included.
\<close>

theorem count_zero_spec:
  "sint (count_zero_64 x) =
     (if 0 \<le> sint x \<and> sint x < 2 ^ 31 then 64 - int (bit_len (unat x)) else - 1) \<and>
   sint (count_zero_32 x) =
     (if 0 \<le> sint x \<and> sint x < 2 ^ 31 then 32 - int (bit_len (unat x)) else - 1)"
  using cz64.cz_in_range [of x] cz32.cz_in_range [of x] cz64.cz_error_iff [of x] cz32.cz_error_iff [of x]
  by auto

text \<open>
  \<open>check_bit\<close> gives both operands the larger of the two fraction widths but never
  shifts a number, because it overwrites the narrower width before it computes the
  shift count from it: the operand that was narrower comes out divided by two to the
  difference of the widths.
\<close>

theorem check_bit_scales_value:
  assumes "0 \<le> sint (fp_q a)" "0 \<le> sint (fp_q b)"
  defines "m \<equiv> max (sint (fp_q a)) (sint (fp_q b))"
  shows "fp_number (fst (check_bit a b)) = fp_number a \<and> fp_number (snd (check_bit a b)) = fp_number b \<and>
         sint (fp_q (fst (check_bit a b))) = m \<and> sint (fp_q (snd (check_bit a b))) = m \<and>
         fp_value (fst (check_bit a b)) = fp_value a / 2 ^ nat (m - sint (fp_q a)) \<and>
         fp_value (snd (check_bit a b)) = fp_value b / 2 ^ nat (m - sint (fp_q b))"
proof -
  have p: "nat m = nat (sint (fp_q a)) + nat (m - sint (fp_q a))"
    "nat m = nat (sint (fp_q b)) + nat (m - sint (fp_q b))"
    using assms(1,2) by (auto simp: m_def)
  have "fp_value (fst (check_bit a b)) = fp_value a / 2 ^ nat (m - sint (fp_q a))"
    "fp_value (snd (check_bit a b)) = fp_value b / 2 ^ nat (m - sint (fp_q b))"
    using check_bit_q [of a b] p [THEN arg_cong, of "(^) (2::rat)"]
    by (simp_all add: fp_value_def power_add flip: m_def)
  then show ?thesis using check_bit_q [of a b] by (simp add: m_def)
qed

theorem check_bit_scales_value_witness:
  "fp_value \<lparr>fp_number = 1, fp_q = 0\<rparr> = 1 \<and>
   fp_value (fst (check_bit \<lparr>fp_number = 1, fp_q = 0\<rparr> \<lparr>fp_number = 1, fp_q = 16\<rparr>)) = 1 / 65536"
  using check_bit_scales_value [of "\<lparr>fp_number = 1, fp_q = 0\<rparr>" "\<lparr>fp_number = 1, fp_q = 16\<rparr>"]
  by (simp add: fp_value_def)

text \<open>
  C9: for operands with any fraction widths between 0 and 31, let \<open>k\<close> be the wider of the two
  and \<open>S\<close> the wrapped 32-bit sum of the two numbers, read with \<open>k\<close> fraction bits.  The result
  of \<open>add\<close> never overshoots \<open>S\<close>, loses less than one unit in the last place that it keeps, and
  is exactly \<open>S\<close> when \<open>S\<close> is negative or at least one half.  When the sum of the numbers fits
  an \<open>int32_t\<close>, \<open>S\<close> is the sum of the operands' values, each divided by two to the number of
  bits its width falls short of \<open>k\<close>: the sum of the operands for equal widths, not for unequal ones.
\<close>

theorem add_accuracy:
  assumes "0 \<le> sint (fp_q a)" "sint (fp_q a) < 32" "0 \<le> sint (fp_q b)" "sint (fp_q b) < 32"
  defines "r \<equiv> op_result (add a b)" and "k \<equiv> max (sint (fp_q a)) (sint (fp_q b))"
    and "S \<equiv> (of_int (sint (fp_number a + fp_number b)) / 2 ^ nat (max (sint (fp_q a)) (sint (fp_q b))) :: rat)"
  shows "fp_value r \<le> S \<and> S - fp_value r < 1 / 2 ^ nat (sint (fp_q r)) \<and>
         (S < 0 \<or> 1 / 2 \<le> S \<longrightarrow> fp_value r = S) \<and>
         (- (2 ^ 31) \<le> sint (fp_number a) + sint (fp_number b) \<and> sint (fp_number a) + sint (fp_number b) < 2 ^ 31 \<longrightarrow>
          S = fp_value a / 2 ^ nat (k - sint (fp_q a)) + fp_value b / 2 ^ nat (k - sint (fp_q b)))"
proof -
  let ?s = "fp_number a + fp_number b"
  define q where "q = fp_q (fst (check_bit a b))"
  have q: "sint q = k" "0 \<le> sint q" "sint q < 32" using check_bit_q(2) [of a b] assms(1-4) by (simp_all add: q_def k_def)
  have S: "S = of_int (sint ?s) / 2 ^ nat (sint q)" by (simp only: S_def q(1) k_def)
  have r: "r = fit_result q (sext64 ?s)" unfolding r_def q_def by (rule add_any_q)
  have ex: "fp_value r = S" if "S < 0 \<or> 1 / 2 \<le> S"
  proof -
    have "sint ?s < 0 \<or> 2 ^ nat (sint q) \<le> 2 * sint ?s" using that unfolding S by (rule half_or_negative)
    then show ?thesis unfolding S r using q(2,3) by (intro fit_sext_exact)
  qed
  have eq: "S = fp_value a / 2 ^ nat (k - sint (fp_q a)) + fp_value b / 2 ^ nat (k - sint (fp_q b))"
    if "- (2 ^ 31) \<le> sint (fp_number a) + sint (fp_number b)" "sint (fp_number a) + sint (fp_number b) < 2 ^ 31"
  proof -
    have "S = of_int (sint (fp_number a) + sint (fp_number b)) / 2 ^ nat k"
      unfolding S q(1) sint32_add [OF that] by (rule refl)
    then show ?thesis using widened_value [of a b] assms(1,3) by (simp add: k_def add_divide_distrib del: of_int_sint)
  qed
  show ?thesis
    using fit_sext_error [OF q(2,3), of ?s, folded S r] ex eq by blast
qed

theorem add_accuracy_witness:
  "fp_value (op_result (add \<lparr>fp_number = 98304, fp_q = 16\<rparr> \<lparr>fp_number = 32768, fp_q = 16\<rparr>)) = 2 \<and>
   fp_value (op_result (add \<lparr>fp_number = 98304, fp_q = 16\<rparr> \<lparr>fp_number = 32768, fp_q = 15\<rparr>)) = 2 \<and>
   fp_value \<lparr>fp_number = 98304, fp_q = 16\<rparr> + fp_value \<lparr>fp_number = 32768, fp_q = 15\<rparr> = 5 / 2"
  using add_accuracy [of "\<lparr>fp_number = 98304, fp_q = 16\<rparr>" "\<lparr>fp_number = 32768, fp_q = 16\<rparr>"]
    add_accuracy [of "\<lparr>fp_number = 98304, fp_q = 16\<rparr>" "\<lparr>fp_number = 32768, fp_q = 15\<rparr>"]
  by (simp add: fp_value_def)

text \<open>
  A non-negative sum whose bit length is at most half of the fraction width comes
  out of \<open>add\<close> as zero: the bits it keeps are the leading zeros of the sum, not its
  significant digits.
\<close>

theorem add_flushes_small_sums:
  assumes "fp_q a = fp_q b" "2 * int m \<le> sint (fp_q a)" "sint (fp_q a) < 32"
    and "0 \<le> sint (fp_number a) + sint (fp_number b)"
    and "sint (fp_number a) + sint (fp_number b) < 2 ^ m"
  shows "fp_value (op_result (add a b)) = 0"
proof -
  let ?s = "fp_number a + fp_number b" and ?S = "sint (fp_number a) + sint (fp_number b)"
  have "?S < 2 ^ 31"
    using assms(2,3,5) power_increasing [of m 31 "2::int"] by linarith
  then have s: "sint ?s = ?S" using assms(4) by (intro sint32_add) simp_all
  have "bit_len (unat (sext64 ?s)) \<le> m" using s assms(4,5) by (intro bit_len_sext_le) simp_all
  then have "2 * bit_len (unat (sext64 ?s)) \<le> nat (sint (fp_q a))" using assms(2) by linarith
  then show ?thesis
    using assms s sint32_range(2) [of ?s] fit_sext_value(4) [of ?s "fp_q a"] by (simp add: add_same_q)
qed

theorem add_flushes_small_sums_witness:
  "fp_value (op_result (add \<lparr>fp_number = 200, fp_q = 16\<rparr> \<lparr>fp_number = 55, fp_q = 16\<rparr>)) = 0"
  by (rule add_flushes_small_sums [of _ _ 8]) simp_all

text \<open>
  C10: for a non-negative dividend and a positive divisor with any fraction widths between 0
  and 31, and a quotient that fits 31 bits at the wider width \<open>k\<close>, the result of \<open>divide\<close> is
  below \<open>Q\<close>, the quotient of the two numbers, by less than one unit of width \<open>k\<close> plus one unit
  of its own.  \<open>Q\<close> is the quotient of the values times two to the difference of the widths:
  the quotient of the operands for equal widths, not for unequal ones.
\<close>

theorem divide_accuracy:
  assumes "0 \<le> sint (fp_q a)" "sint (fp_q a) < 32" "0 \<le> sint (fp_q b)" "sint (fp_q b) < 32"
    and "0 \<le> sint (fp_number a)" "0 < sint (fp_number b)"
    and "sint (fp_number a) * 2 ^ nat (max (sint (fp_q a)) (sint (fp_q b))) div sint (fp_number b) < 2 ^ 31"
  defines "r \<equiv> op_result (divide a b)" and "k \<equiv> max (sint (fp_q a)) (sint (fp_q b))"
    and "Q \<equiv> (of_int (sint (fp_number a)) / of_int (sint (fp_number b)) :: rat)"
  shows "fp_value r \<le> Q \<and> Q < fp_value r + 1 / 2 ^ nat (sint (fp_q r)) + 1 / 2 ^ nat k \<and>
         Q = fp_value a / fp_value b * 2 ^ nat (sint (fp_q a)) / 2 ^ nat (sint (fp_q b))"
proof -
  let ?A = "sint (fp_number a)" and ?B = "sint (fp_number b)"
  define q where "q = fp_q (fst (check_bit a b))"
  have q: "sint q = k" "0 \<le> sint q" "sint q < 32" using check_bit_q(2) [of a b] assms(1-4) by (simp_all add: q_def k_def)
  obtain s where s: "sint s = ?A * 2 ^ nat k div ?B" and r: "r = fit_result q (sext64 s)"
    using divide_any_q [of a b] assms(5-7) q unfolding r_def q_def k_def by auto
  have lo: "of_int (sint s) / 2 ^ nat k \<le> Q"
    using rat_floor_div(1) [OF assms(6), of ?A "2 ^ nat k"] s by (simp add: Q_def field_simps del: of_int_sint)
  have hi: "Q < of_int (sint s) / 2 ^ nat k + 1 / 2 ^ nat k"
    using rat_floor_div(2) [OF assms(6), of ?A "2 ^ nat k"] s assms(6)
    by (simp add: Q_def field_simps del: of_int_sint)
  have "Q = fp_value a / fp_value b * 2 ^ nat (sint (fp_q a)) / 2 ^ nat (sint (fp_q b))"
    by (simp add: Q_def fp_value_def del: of_int_sint)
  then show ?thesis
    using fit_sext_error [OF q(2,3), of s, folded r, unfolded q(1)] lo hi by linarith
qed

theorem divide_accuracy_witness:
  "fp_value (op_result (divide \<lparr>fp_number = 65536, fp_q = 16\<rparr> \<lparr>fp_number = 196608, fp_q = 16\<rparr>)) \<le> 1 / 3 \<and>
   fp_value (op_result (divide \<lparr>fp_number = 65536, fp_q = 15\<rparr> \<lparr>fp_number = 196608, fp_q = 16\<rparr>)) \<le> 1 / 3"
  using divide_accuracy [of "\<lparr>fp_number = 65536, fp_q = 16\<rparr>" "\<lparr>fp_number = 196608, fp_q = 16\<rparr>"]
    divide_accuracy [of "\<lparr>fp_number = 65536, fp_q = 15\<rparr>" "\<lparr>fp_number = 196608, fp_q = 16\<rparr>"]
  by simp

lemma multiply_high_only_word:
  fixes a b :: fixed_point
  assumes q: "fp_q a = fp_q b" "16 \<le> sint (fp_q a)" "sint (fp_q a) < 31"
  defines "H \<equiv> (sint (fp_number a) div 2 ^ 16) * (sint (fp_number b) div 2 ^ 16)"
  assumes low: "sint (fp_number a) mod 2 ^ 16 = 0" "sint (fp_number b) mod 2 ^ 16 = 0"
    and hh: "0 \<le> H" "H < 2 ^ nat (31 - sint (fp_q a))"
  shows "sint (fp_number (op_result (multiply a b))) = H * 2 ^ nat (sint (fp_q a)) \<and>
         fp_q (op_result (multiply a b)) = fp_q a"
proof -
  let ?hf = "trunc32 (high32 a)" and ?hs = "trunc32 (high32 b)" and ?q = "sint (fp_q a)"
  have l0: "trunc32 (low32 a) = 0" "trunc32 (low32 b) = 0"
    using low sint_low32 [of a] sint_low32 [of b] by (simp_all add: signed_eq_0_iff)
  have t: "sint (?hf * ?hs) = H"
    using half_product_range [of "fp_number a" "fp_number b"]
    by (subst sint32_mult) (simp_all add: sint_high32 H_def)
  then have u: "uint (sext64 (?hf * ?hs)) = H"
    using hh(1) by (subst sint_eq_uint_nonneg) simp_all
  have c: "sint (32 - fp_q a - 1) = 31 - ?q"
    using q(2,3) sint32_sub [of 31 "fp_q a"] by simp
  have "uint (shl64 1 (32 - fp_q a - 1)) = 2 ^ nat (31 - ?q)"
    using q(2,3) power_strict_increasing [of "nat (31 - ?q)" 64 "2::int"]
    by (subst uint_shl64) (simp_all only: c, simp_all)
  then have no: "\<not> uint (sext64 (?hf * ?hs)) > uint (shl64 1 (32 - fp_q a - 1))"
    using u hh(2) by simp
  have s0: "sar32 0 x = 0" for x by (simp add: sar32_def)
  have r: "op_result (multiply a b) = \<lparr>fp_number = shl32 (?hf * ?hs) (fp_q a), fp_q = fp_q a\<rparr>"
    using q no by (simp add: multiply_def Let_def s0 l0)
  have "H * 2 ^ nat ?q < 2 ^ nat (31 - ?q) * 2 ^ nat ?q"
    using hh(2) by (intro mult_strict_right_mono) simp_all
  also have "\<dots> = 2 ^ 31" using q(2,3) by (simp add: nat_diff_distrib flip: power_add)
  finally have "H * 2 ^ nat ?q < 2 ^ 31" .
  moreover have "0 \<le> H * 2 ^ nat ?q" using hh(1) by simp
  ultimately have "sint (shl32 (?hf * ?hs) (fp_q a)) = H * 2 ^ nat ?q"
    using q(2,3) by (subst sint_shl32) (simp_all add: t order_trans [of _ 0])
  then show ?thesis by (simp add: r)
qed
text \<open>
  at the fraction width 16 the four-part product of \<open>multiply\<close> is the exact product
  of the numbers, shifted right by 16, whenever the product of the high halves triggers
  no rescaling and the product of the low halves does not overflow an \<open>int\<close>.
\<close>

theorem multiply_q16_exact:
  assumes "fp_q a = 16" "fp_q b = 16"
    and "0 \<le> (sint (fp_number a) div 2 ^ 16) * (sint (fp_number b) div 2 ^ 16)"
    and "(sint (fp_number a) div 2 ^ 16) * (sint (fp_number b) div 2 ^ 16) \<le> 2 ^ 15"
    and "(sint (fp_number a) mod 2 ^ 16) * (sint (fp_number b) mod 2 ^ 16) < 2 ^ 31"
    and "- (2 ^ 31) \<le> sint (fp_number a) * sint (fp_number b) div 2 ^ 16"
    and "sint (fp_number a) * sint (fp_number b) div 2 ^ 16 < 2 ^ 31"
  shows "sint (fp_number (op_result (multiply a b))) = sint (fp_number a) * sint (fp_number b) div 2 ^ 16 \<and>
         fp_q (op_result (multiply a b)) = 16"
  using multiply_q16_word [OF assms(1-5)] assms(6,7) by (simp add: sint32_of_int)

theorem multiply_q16_exact_witness:
  "sint (fp_number (op_result (multiply \<lparr>fp_number = 196608, fp_q = 16\<rparr> \<lparr>fp_number = 163840, fp_q = 16\<rparr>)))
   = 491520"
  using multiply_q16_exact [of "\<lparr>fp_number = 196608, fp_q = 16\<rparr>" "\<lparr>fp_number = 163840, fp_q = 16\<rparr>"]
  by simp

text \<open>
  Away from the width 16 the scaling of \<open>multiply\<close> is wrong: for a common width
  \<open>q\<close> between 16 and 30 and operands without low halves, the result is the product of
  the operands times two to \<open>2 (q - 16)\<close>.
\<close>

theorem multiply_scaling_error:
  assumes "fp_q a = fp_q b" "16 \<le> sint (fp_q a)" "sint (fp_q a) < 31"
    and "sint (fp_number a) mod 2 ^ 16 = 0" "sint (fp_number b) mod 2 ^ 16 = 0"
    and "0 \<le> (sint (fp_number a) div 2 ^ 16) * (sint (fp_number b) div 2 ^ 16)"
    and "(sint (fp_number a) div 2 ^ 16) * (sint (fp_number b) div 2 ^ 16) < 2 ^ nat (31 - sint (fp_q a))"
  shows "fp_value (op_result (multiply a b)) =
         fp_value a * fp_value b * 2 ^ (2 * nat (sint (fp_q a) - 16))"
proof -
  let ?A = "sint (fp_number a)" and ?B = "sint (fp_number b)" and ?k = "nat (sint (fp_q a) - 16)"
  define h h' where "h = ?A div 2 ^ 16" and "h' = ?B div 2 ^ 16"
  have A: "?A = h * 2 ^ 16" "?B = h' * 2 ^ 16"
    using assms(4,5) div_mult_mod_eq [of ?A "2 ^ 16"] div_mult_mod_eq [of ?B "2 ^ 16"]
    by (simp_all add: h_def h'_def)
  have k: "nat (sint (fp_q a)) = 16 + ?k" "nat (sint (fp_q b)) = 16 + ?k"
    using assms(1,2) by simp_all
  note m = multiply_high_only_word [OF assms]
  have l: "fp_value (op_result (multiply a b)) = of_int (h * h')"
    using m by (simp add: fp_value_def h_def h'_def del: of_int_sint)
  have va: "fp_value a = of_int h / 2 ^ ?k" "fp_value b = of_int h' / 2 ^ ?k"
    unfolding fp_value_def A k by (simp_all add: power_add del: of_int_sint)
  show ?thesis unfolding l va by (simp add: power_add mult_2)
qed

theorem multiply_scaling_error_witness:
  "fp_value \<lparr>fp_number = 131072, fp_q = 17\<rparr> = 1 \<and>
   fp_value (op_result (multiply \<lparr>fp_number = 131072, fp_q = 17\<rparr> \<lparr>fp_number = 131072, fp_q = 17\<rparr>)) = 4"
  using multiply_scaling_error [of "\<lparr>fp_number = 131072, fp_q = 17\<rparr>" "\<lparr>fp_number = 131072, fp_q = 17\<rparr>"]
  by (simp add: fp_value_def)

text \<open>
  \<open>abs_val\<close> makes the number its absolute value and keeps the fraction width, for
  every number but the least one, which it returns unchanged.
\<close>

theorem abs_val_spec:
  "abs_val x = x\<lparr>fp_number := fp_number (abs_val x)\<rparr> \<and>
   sint (fp_number (abs_val x)) =
     (if sint (fp_number x) = - (2 ^ 31) then - (2 ^ 31) else \<bar>sint (fp_number x)\<bar>)"
proof -
  have "sint (fp_number (abs_val x)) = - (2 ^ 31)" if m: "sint (fp_number x) = - (2 ^ 31)"
  proof -
    have "fp_number x = word_of_int (- (2 ^ 31))" using m by (rule word_of_sint_eqI)
    then show ?thesis by (simp add: abs_val_number)
  qed
  moreover have "sint (fp_number (abs_val x)) = \<bar>sint (fp_number x)\<bar>"
    if "sint (fp_number x) \<noteq> - (2 ^ 31)"
    using that sint32_range(1) [of "fp_number x"] by (intro sint_abs_val) linarith
  moreover have "abs_val x = x\<lparr>fp_number := fp_number (abs_val x)\<rparr>"
    by (simp add: abs_val_def Let_def)
  ultimately show ?thesis by simp
qed

text \<open>
  for a positive number of at most 24 fraction bits, \<open>calc_log\<close> returns the
  exponent of the value (the floor of its binary logarithm) in units of two to the 24,
  plus the table entry indexed by the eight digits after the leading one, shifted down
  by 24 less the fraction width; the result always carries the width 8.
\<close>

theorem calc_log_spec:
  fixes x :: fixed_point and e :: nat
  assumes "2 ^ e \<le> sint (fp_number x)" "sint (fp_number x) < 2 ^ Suc e"
    and "0 \<le> sint (fp_q x)" "sint (fp_q x) \<le> 24"
  shows "sint (fp_number (calc_log x)) =
           (int e - sint (fp_q x)) * 2 ^ 24
           + uint (log_array ! (unat (fp_number x) * 256 div 2 ^ e - 256)) div 2 ^ nat (24 - sint (fp_q x)) \<and>
         sint (fp_number (calc_log x)) div 2 ^ 24 = int e - sint (fp_q x) \<and>
         fp_q (calc_log x) = 8"
proof -
  have n: "0 < sint (fp_number x)" using assms(1) by (rule less_le_trans [rotated]) simp
  then have un: "int (unat (fp_number x)) = sint (fp_number x)" by (intro unat_nonneg32) simp
  have "int (2 ^ e) \<le> int (unat (fp_number x))" "int (unat (fp_number x)) < int (2 ^ Suc e)"
    unfolding un using assms(1,2) by simp_all
  then have e: "e = bit_len (unat (fp_number x)) - 1"
    using bit_len_unique [of e "unat (fp_number x)"] by (simp only: of_nat_le_iff of_nat_less_iff)
  note eq = calc_log_positive [OF n assms(3,4), folded e]
  have "unat (fp_number x) * 256 div 2 ^ e < 512"
    using exponent_bounds(2) [OF n e] by (intro less_mult_imp_div_less) simp
  then have "uint (log_array ! (unat (fp_number x) * 256 div 2 ^ e - 256)) < 2 ^ 24"
    by (intro log_array_nth_bound) simp
  then have "uint (log_array ! (unat (fp_number x) * 256 div 2 ^ e - 256)) div 2 ^ nat (24 - sint (fp_q x)) < 2 ^ 24"
    using zdiv_mono2 [of "uint (log_array ! (unat (fp_number x) * 256 div 2 ^ e - 256))" 1 "2 ^ nat (24 - sint (fp_q x))"]
    by simp
  then have "uint (log_array ! (unat (fp_number x) * 256 div 2 ^ e - 256)) div 2 ^ nat (24 - sint (fp_q x)) div 2 ^ 24 = 0"
    by (intro div_pos_pos_trivial) (simp_all add: pos_imp_zdiv_nonneg_iff)
  then have "sint (fp_number (calc_log x)) div 2 ^ 24 = int e - sint (fp_q x)"
    unfolding eq(1) by (subst div_mult_self3) simp_all
  then show ?thesis using eq by blast
qed

theorem calc_log_spec_witness:
  "sint (fp_number (calc_log \<lparr>fp_number = 8, fp_q = 0\<rparr>)) div 2 ^ 24 = 3"
  using calc_log_spec [of 3 "\<lparr>fp_number = 8, fp_q = 0\<rparr>"] by (simp add: log_array_def)

end
