(* ===== verification/Bpf_Map.thy ===== *)
theory Bpf_Map
  imports Prelude "HOL-Library.AList"
begin

text \<open>
  The interface of the kernel's BPF maps, as the programs use it.  The maps live in the
  kernel, outside the repository, so their operations are a parameter of every model that
  uses them: a record of functions over an abstract map state.  The locale \<open>bpf_map\<close>
  states what the helper documentation promises of them (\<open>bpf_helper_defs.h\<close>), and the
  facts the programs rest on are proved from those laws alone.

  A bounded association list is an instance of the laws: it is the shape of a
  \<open>BPF_MAP_TYPE_HASH\<close> map with its \<open>max_entries\<close>.
\<close>

section \<open>Operations\<close>

text \<open>
  \<open>map_lookup\<close> is \<open>bpf_map_lookup_elem\<close> (\<open>None\<close> for a null pointer), \<open>map_store\<close> a write
  through the pointer that a lookup returned, \<open>map_update\<close> is \<open>bpf_map_update_elem\<close> with
  its return code, \<open>map_delete\<close> is \<open>bpf_map_delete_elem\<close>, and \<open>map_keys\<close> lists the keys
  in the order in which \<open>bpf_map_get_next_key\<close> and \<open>bpf_for_each_map_elem\<close> visit them.
\<close>

record ('m, 'k, 'v) map_ops =
  map_lookup :: "'m \<Rightarrow> 'k \<Rightarrow> 'v option"
  map_store :: "'m \<Rightarrow> 'k \<Rightarrow> 'v \<Rightarrow> 'm"
  map_update :: "'m \<Rightarrow> 'k \<Rightarrow> 'v \<Rightarrow> u64 \<Rightarrow> int \<times> 'm"
  map_delete :: "'m \<Rightarrow> 'k \<Rightarrow> int \<times> 'm"
  map_keys :: "'m \<Rightarrow> 'k list"

definition BPF_ANY :: u64 where "BPF_ANY = 0"

definition BPF_NOEXIST :: u64 where "BPF_NOEXIST = 1"

definition BPF_EXIST :: u64 where "BPF_EXIST = 2"

text \<open>
  \<open>bpf_for_each_map_elem\<close>: the callback is called for each key in turn with the state that
  the call before it left, until one returns a value other than 0.
\<close>

fun for_each_elem :: "('k \<Rightarrow> 's \<Rightarrow> i32 \<times> 's) \<Rightarrow> 'k list \<Rightarrow> 's \<Rightarrow> 's" where
  "for_each_elem callback [] s = s"
| "for_each_elem callback (k # ks) s =
     (let (r, s) = callback k s in if r = 0 then for_each_elem callback ks s else s)"

text \<open>
  \<open>bpf_map_get_next_key\<close>: the key after the given one in the visiting order, the first key if
  the given one is null or not in the map, and an error (\<open>None\<close>) after the last key and in an empty map.
\<close>

fun next_key_in :: "'k list \<Rightarrow> 'k \<Rightarrow> 'k option" where
  "next_key_in [] k = None"
| "next_key_in (j # ks) k = (if j = k then (case ks of [] \<Rightarrow> None | j # _ \<Rightarrow> Some j) else next_key_in ks k)"

definition map_first_key :: "('m, 'k, 'v) map_ops \<Rightarrow> 'm \<Rightarrow> 'k option" where
  "map_first_key ops m = (case map_keys ops m of [] \<Rightarrow> None | j # _ \<Rightarrow> Some j)"

definition map_get_next_key :: "('m, 'k, 'v) map_ops \<Rightarrow> 'm \<Rightarrow> 'k \<Rightarrow> 'k option" where
  "map_get_next_key ops m k =
     (if k \<in> set (map_keys ops m) then next_key_in (map_keys ops m) k else map_first_key ops m)"

text \<open>The sum of a quantity over the entries of a map.\<close>

definition entry_sum :: "('v \<Rightarrow> 'n::comm_monoid_add) \<Rightarrow> ('k \<rightharpoonup> 'v) \<Rightarrow> 'n" where
  "entry_sum f m = (\<Sum>k\<in>dom m. f (the (m k)))"

section \<open>The laws\<close>

locale bpf_map =
  fixes ops :: "('m, 'k, 'v) map_ops"
  assumes keys_lookup: "set (map_keys ops m) = dom (map_lookup ops m)"
    and distinct_keys: "distinct (map_keys ops m)"
    and lookup_store:
      "map_lookup ops m k \<noteq> None \<Longrightarrow> map_lookup ops (map_store ops m k v) = (map_lookup ops m)(k \<mapsto> v)"
    and lookup_update:
      "fst (map_update ops m k v flags) = 0 \<Longrightarrow>
       map_lookup ops (snd (map_update ops m k v flags)) = (map_lookup ops m)(k \<mapsto> v)"
    and update_error:
      "fst (map_update ops m k v flags) \<noteq> 0 \<Longrightarrow>
       fst (map_update ops m k v flags) < 0 \<and> snd (map_update ops m k v flags) = m"
    and lookup_delete:
      "map_lookup ops m k \<noteq> None \<Longrightarrow>
       fst (map_delete ops m k) = 0 \<and>
       map_lookup ops (snd (map_delete ops m k)) = (map_lookup ops m)(k := None)"
    and delete_error:
      "map_lookup ops m k = None \<Longrightarrow> fst (map_delete ops m k) < 0 \<and> snd (map_delete ops m k) = m"
begin

lemma finite_dom: "finite (dom (map_lookup ops m))"
  by (metis keys_lookup finite_set)

text \<open>A sum over the visited keys depends on the contents only, not on the order.\<close>

lemma sum_keys:
  "(\<Sum>k\<leftarrow>map_keys ops m. f (the (map_lookup ops m k))) =
   (\<Sum>k\<in>dom (map_lookup ops m). f (the (map_lookup ops m k)))"
  by (simp add: sum_list_distinct_conv_sum_set distinct_keys keys_lookup)

end

text \<open>A hash map also accepts a new value for a key that it holds.\<close>

locale bpf_hash_map = bpf_map +
  assumes update_present: "map_lookup ops m k \<noteq> None \<Longrightarrow> fst (map_update ops m k v BPF_ANY) = 0"

text \<open>With \<open>BPF_NOEXIST\<close> an entry that exists is not overwritten.\<close>

locale bpf_noexist_map = bpf_map +
  assumes update_noexist: "map_lookup ops m k \<noteq> None \<Longrightarrow> fst (map_update ops m k v BPF_NOEXIST) \<noteq> 0"

section \<open>Walks over a map\<close>

lemma next_key_in_nth:
  "distinct ks \<Longrightarrow> i < length ks \<Longrightarrow>
   next_key_in ks (ks ! i) = (if Suc i < length ks then Some (ks ! Suc i) else None)"
proof (induction ks arbitrary: i)
  case (Cons j ks)
  show ?case
  proof (cases i)
    case 0
    then show ?thesis by (cases ks) simp_all
  next
    case (Suc n)
    then show ?thesis using Cons.IH [of n] Cons.prems nth_mem [of n ks] by auto
  qed
qed simp

context bpf_map
begin

lemma next_key_nth:
  assumes "i < length (map_keys ops m)"
  shows "map_get_next_key ops m (map_keys ops m ! i) =
    (if Suc i < length (map_keys ops m) then Some (map_keys ops m ! Suc i) else None)"
  using next_key_in_nth [OF distinct_keys assms] nth_mem [OF assms] by (simp add: map_get_next_key_def)

lemma next_key_first:
  assumes "map_lookup ops m k = None"
  shows "map_get_next_key ops m k = (if map_keys ops m = [] then None else Some (map_keys ops m ! 0))"
proof -
  have "k \<notin> set (map_keys ops m)" using assms keys_lookup [of m] by auto
  then show ?thesis by (cases "map_keys ops m") (simp_all add: map_get_next_key_def map_first_key_def)
qed

lemma lookup_nth_key: "i < length (map_keys ops m) \<Longrightarrow> map_lookup ops m (map_keys ops m ! i) \<noteq> None"
  using keys_lookup [of m] nth_mem [of i "map_keys ops m"] by (auto simp: domIff)

end

section \<open>Passes over a map\<close>

text \<open>
  A callback that always returns 0 is called for every key; one that touches no other
  entry than its own acts on each entry independently of the visiting order.
\<close>

lemma for_each_elem_keep:
  assumes "\<And>k s. g (snd (f k s)) = g s"
  shows "g (for_each_elem f ks s) = g s"
proof (induction ks arbitrary: s)
  case (Cons k ks)
  obtain r t where f: "f k s = (r, t)" by force
  then have "g t = g s" using assms [of k s] by simp
  then show ?case using Cons.IH [of t] f by simp
qed simp

lemma for_each_elem_pointwise:
  assumes ret: "\<And>k s. fst (f k s) = 0"
    and other: "\<And>k s j. j \<noteq> k \<Longrightarrow> look (snd (f k s)) j = look s j"
    and own: "\<And>k s. R (look s k) (look (snd (f k s)) k)"
    and "distinct ks"
  shows "(k \<in> set ks \<longrightarrow> R (look s k) (look (for_each_elem f ks s) k)) \<and>
         (k \<notin> set ks \<longrightarrow> look (for_each_elem f ks s) k = look s k)"
  using \<open>distinct ks\<close>
proof (induction ks arbitrary: s)
  case (Cons j ks)
  obtain r t where f: "f j s = (r, t)" by force
  have step: "for_each_elem f (j # ks) s = for_each_elem f ks t" using f ret [of j s] by simp
  have IH: "(k \<in> set ks \<longrightarrow> R (look t k) (look (for_each_elem f ks t) k)) \<and>
         (k \<notin> set ks \<longrightarrow> look (for_each_elem f ks t) k = look t k)"
    using Cons by simp
  have "R (look s j) (look t j)" using own [where k = j and s = s] f by simp
  moreover have "k \<noteq> j \<longrightarrow> look t k = look s k" using other [where k = j and s = s] f by simp
  ultimately show ?case unfolding step using IH Cons.prems by (cases "k = j") auto
qed simp

lemma for_each_elem_count:
  assumes ret: "\<And>k s. fst (f k s) = 0"
    and inc: "\<And>k s. P s k \<Longrightarrow> c (snd (f k s)) = c s + (1 :: 'n::semiring_1)"
    and keep: "\<And>k s j. P s j \<Longrightarrow> P (snd (f k s)) j"
    and "\<And>k. k \<in> set ks \<Longrightarrow> P s k"
  shows "c (for_each_elem f ks s) = c s + of_nat (length ks)"
  using assms(4)
proof (induction ks arbitrary: s)
  case (Cons k ks)
  obtain r t where f: "f k s = (r, t)" by force
  have "c t = c s + 1" using inc [where k = k and s = s] Cons.prems f by simp
  moreover have "c (for_each_elem f ks t) = c t + of_nat (length ks)"
    using keep [where k = k and s = s] f Cons.prems by (intro Cons.IH) auto
  ultimately show ?case using f ret [of k s] by (simp add: add.assoc)
qed simp

section \<open>Sums over the entries of a map\<close>

lemma entry_sum_upd_same:
  assumes "finite (dom m)" "m k = Some v"
  shows "entry_sum f (m(k \<mapsto> w)) + f v = entry_sum f m + f w"
proof -
  have k: "insert k (dom m) = dom m" using assms(2) by auto
  have "entry_sum f m = f v + (\<Sum>j\<in>dom m - {k}. f (the (m j)))"
    unfolding entry_sum_def using assms by (subst sum.remove [of _ k]) auto
  moreover have "entry_sum f (m(k \<mapsto> w)) = f w + (\<Sum>j\<in>dom m - {k}. f (the (m j)))"
    unfolding entry_sum_def using assms k
    by (subst sum.remove [of _ k]) (auto intro!: arg_cong2 [of _ _ _ _ "(+)"] sum.cong)
  ultimately show ?thesis by (simp add: ac_simps)
qed

lemma entry_sum_upd_new:
  assumes "finite (dom m)" "m k = None"
  shows "entry_sum f (m(k \<mapsto> w)) = f w + entry_sum f m"
proof -
  have "k \<notin> dom m" using assms(2) by auto
  then show ?thesis using assms(1) unfolding entry_sum_def
    by (auto intro!: arg_cong2 [of _ _ _ _ "(+)"] sum.cong)
qed

lemma entry_sum_zero: "(\<And>k v. m k = Some v \<Longrightarrow> f v = 0) \<Longrightarrow> entry_sum f m = 0"
  unfolding entry_sum_def by (rule sum.neutral) auto

section \<open>Counting entries\<close>

text \<open>
  A client that counts events per key: it increments the entry of the key through the pointer
  a lookup returned, or inserts a new entry that stands for one event.  Both XDP programs
  count packets per source address this way.
\<close>

locale flow_counter = bpf_map ops for ops :: "('m, 'k, 'v) map_ops" +
  fixes count :: "'k \<Rightarrow> 'm \<Rightarrow> 'm" and cur :: "'v \<Rightarrow> i32" and inc :: "'v \<Rightarrow> 'v" and new :: 'v
  assumes count_eq:
      "count k m = (case map_lookup ops m k of Some v \<Rightarrow> map_store ops m k (inc v)
                    | None \<Rightarrow> snd (map_update ops m k new BPF_ANY))"
    and cur_inc: "cur (inc v) = cur v + 1"
    and cur_new: "cur new = 1"
begin

abbreviation flow_total :: "'m \<Rightarrow> i32" where
  "flow_total m \<equiv> entry_sum cur (map_lookup ops m)"

lemma count_lookup:
  assumes "map_lookup ops m k = None \<Longrightarrow> fst (map_update ops m k new BPF_ANY) = 0"
  shows "map_lookup ops (count k m) =
    (map_lookup ops m)(k \<mapsto> (case map_lookup ops m k of None \<Rightarrow> new | Some v \<Rightarrow> inc v))"
  using assms by (auto simp: count_eq lookup_store lookup_update split: option.splits)

lemma count_total:
  assumes "map_lookup ops m k = None \<Longrightarrow> fst (map_update ops m k new BPF_ANY) = 0"
  shows "flow_total (count k m) = flow_total m + 1"
proof (cases "map_lookup ops m k")
  case None
  then show ?thesis
    using assms entry_sum_upd_new [OF finite_dom None, of cur new] by (simp add: count_lookup cur_new)
next
  case (Some v)
  then show ?thesis
    using entry_sum_upd_same [OF finite_dom Some, of cur "inc v"] count_lookup [of m k] by (simp add: cur_inc)
qed

lemma count_full:
  assumes "map_lookup ops m k = None" "fst (map_update ops m k new BPF_ANY) \<noteq> 0"
  shows "count k m = m"
  using assms update_error by (simp add: count_eq)

end

section \<open>Bounded association lists\<close>

definition alist_ops :: "nat \<Rightarrow> (('k \<times> 'v) list, 'k, 'v) map_ops" where
  "alist_ops max_entries =
     \<lparr>map_lookup = map_of,
      map_store = (\<lambda>m k v. AList.update k v m),
      map_update = (\<lambda>m k v flags.
        if map_of m k = None then
          (if flags = BPF_EXIST then (- 2, m)
           else if length (remdups (map fst m)) \<ge> max_entries then (- 7, m)
           else (0, AList.update k v m))
        else (if flags = BPF_NOEXIST then (- 17, m) else (0, AList.update k v m))),
      map_delete = (\<lambda>m k. if map_of m k = None then (- 2, m) else (0, AList.delete k m)),
      map_keys = (\<lambda>m. remdups (map fst m))\<rparr>"

interpretation alist_map: bpf_hash_map "alist_ops max_entries"
  by unfold_locales
    (auto simp: alist_ops_def BPF_ANY_def BPF_NOEXIST_def update_conv' delete_conv' dom_map_of_conv_image_fst split: if_splits)

interpretation alist_noexist: bpf_noexist_map "alist_ops max_entries"
  by unfold_locales (auto simp: alist_ops_def BPF_NOEXIST_def)

end
