(* ===== verification/Packet.thy ===== *)
theory Packet
  imports Prelude
begin

text \<open>
  Packet memory and byte order.  A packet is the list of its bytes from \<open>ctx->data\<close> to
  \<open>ctx->data_end\<close>; a pointer into it is an offset.  The host is little-endian, the branch
  of \<open>bpf_endian.h\<close> that x86 and the \<open>bpfel\<close> target take: a field is read with its first
  byte least significant, and \<open>bpf_htons\<close>/\<open>bpf_ntohs\<close> swap the two bytes.
\<close>

type_synonym packet = "u8 list"

definition load16 :: "packet \<Rightarrow> nat \<Rightarrow> u16" where
  "load16 pkt off = ucast (pkt ! off) OR push_bit 8 (ucast (pkt ! (off + 1)))"

definition load32 :: "packet \<Rightarrow> nat \<Rightarrow> u32" where
  "load32 pkt off =
     ucast (pkt ! off) OR push_bit 8 (ucast (pkt ! (off + 1)))
     OR push_bit 16 (ucast (pkt ! (off + 2))) OR push_bit 24 (ucast (pkt ! (off + 3)))"

text \<open>
  The checked reads: a read that does not lie inside the bytes is the result None, so that a
  claim that code reads only what it may is a claim that it returns \<open>Some\<close>.
\<close>

definition mem8 :: "packet \<Rightarrow> nat \<Rightarrow> u8 option" where
  "mem8 m off = (if off < length m then Some (m ! off) else None)"

definition mem16 :: "packet \<Rightarrow> nat \<Rightarrow> u16 option" where
  "mem16 m off = (if off + 2 \<le> length m then Some (load16 m off) else None)"

definition mem32 :: "packet \<Rightarrow> nat \<Rightarrow> u32 option" where
  "mem32 m off = (if off + 4 \<le> length m then Some (load32 m off) else None)"

definition store16 :: "packet \<Rightarrow> nat \<Rightarrow> u16 \<Rightarrow> packet" where
  "store16 pkt off v = pkt[off := ucast v, off + 1 := ucast (drop_bit 8 v)]"

text \<open>\<open>__builtin_memcpy\<close> out of and into the packet.\<close>

definition mem_read :: "packet \<Rightarrow> nat \<Rightarrow> nat \<Rightarrow> u8 list" where
  "mem_read pkt off n = take n (drop off pkt)"

definition mem_write :: "packet \<Rightarrow> nat \<Rightarrow> u8 list \<Rightarrow> packet" where
  "mem_write pkt off bs = take off pkt @ bs @ drop (off + length bs) pkt"

definition bswap16 :: "u16 \<Rightarrow> u16" where
  "bswap16 x = push_bit 8 x OR drop_bit 8 x"

abbreviation bpf_htons :: "u16 \<Rightarrow> u16" where
  "bpf_htons \<equiv> bswap16"

abbreviation bpf_ntohs :: "u16 \<Rightarrow> u16" where
  "bpf_ntohs \<equiv> bswap16"

definition ETH_P_IP :: u16 where "ETH_P_IP = 0x0800"

definition ETH_P_8021Q :: u16 where "ETH_P_8021Q = 0x8100"

definition ETH_P_8021AD :: u16 where "ETH_P_8021AD = 0x88A8"

text \<open>The verdicts of an XDP program (\<open>enum xdp_action\<close> of \<open>linux/bpf.h\<close>), in the order of their codes.\<close>

datatype xdp_action = XDP_ABORTED | XDP_DROP | XDP_PASS | XDP_TX | XDP_REDIRECT

text \<open>The key of the trie \<open>blacklist\<close>, the same struct in both programs.\<close>

record lpm_v4_key =
  prefixlen :: u32
  address :: u32

section \<open>Laws\<close>

lemma mem_Some:
  "off < length m \<Longrightarrow> mem8 m off = Some (m ! off)"
  "off + 2 \<le> length m \<Longrightarrow> mem16 m off = Some (load16 m off)"
  "off + 4 \<le> length m \<Longrightarrow> mem32 m off = Some (load32 m off)"
  by (simp_all add: mem8_def mem16_def mem32_def)

lemma bswap16_bswap16 [simp]: "bswap16 (bswap16 x) = x"
  by (rule bit_word_eqI) (auto simp: bswap16_def bit_simps)

lemma bswap16_eq_iff [simp]: "bswap16 x = bswap16 y \<longleftrightarrow> x = y"
  by (metis bswap16_bswap16)

lemma load16_store16_same [simp]:
  "off + 1 < length pkt \<Longrightarrow> load16 (store16 pkt off v) off = v"
  by (rule bit_word_eqI) (auto simp: load16_def store16_def bit_simps)

lemma length_store16 [simp]: "length (store16 pkt off v) = length pkt"
  by (simp add: store16_def)

lemma nth_store16_other:
  "i \<noteq> off \<Longrightarrow> i \<noteq> off + 1 \<Longrightarrow> store16 pkt off v ! i = pkt ! i"
  by (simp add: store16_def)

lemma load16_store16_other:
  "j + 1 < off \<or> off + 1 < j \<Longrightarrow> load16 (store16 pkt off v) j = load16 pkt j"
  by (auto simp: load16_def nth_store16_other)

lemma ucast_load16 [simp]:
  "ucast (load16 pkt off) = pkt ! off"
  "ucast (drop_bit 8 (load16 pkt off)) = pkt ! (off + 1)"
  by (rule bit_word_eqI; auto simp: load16_def bit_simps dest: bit_imp_le_length)+

lemma length_mem_read [simp]: "off + n \<le> length pkt \<Longrightarrow> length (mem_read pkt off n) = n"
  by (simp add: mem_read_def)

lemma length_mem_write [simp]: "off + length bs \<le> length pkt \<Longrightarrow> length (mem_write pkt off bs) = length pkt"
  by (simp add: mem_write_def)

lemma nth_mem_read [simp]: "off + n \<le> length pkt \<Longrightarrow> i < n \<Longrightarrow> mem_read pkt off n ! i = pkt ! (off + i)"
  by (simp add: mem_read_def)

lemma nth_mem_write:
  "off + length bs \<le> length pkt \<Longrightarrow> i < length pkt \<Longrightarrow>
   mem_write pkt off bs ! i = (if off \<le> i \<and> i < off + length bs then bs ! (i - off) else pkt ! i)"
  by (auto simp: mem_write_def nth_append)

lemma nth_store16:
  "off + 1 < length pkt \<Longrightarrow> i < length pkt \<Longrightarrow>
   store16 pkt off v ! i = (if i = off then ucast v else if i = off + 1 then ucast (drop_bit 8 v) else pkt ! i)"
  by (simp add: store16_def nth_list_update)

end
