(* ===== verification/Xdp_Kern.thy ===== *)
theory Xdp_Kern
  imports Fixed_Point Bpf_Map Packet
begin

text \<open>
  The in-kernel detector, \<open>fully_in-kernel/main/xdp_prog_kern.c\<close>: the structs stored in
  its maps, its three static variables, the two callbacks of \<open>bpf_for_each_map_elem\<close> and
  the XDP program.  One packet is one call of \<open>xdp_filter_func\<close>, which runs to its end on
  a state that no other CPU touches meanwhile; the interleaving of several CPUs at the
  interval lock is the subject of the theory \<open>Interval_Lock\<close>.

  The array maps \<open>data\<close> and \<open>loc_ts\<close> have one entry, so their state is what a lookup of
  key 0 returns.  The trie \<open>blacklist\<close> is only ever looked up, so its state is the answer
  to each lookup.  The hash map \<open>logger\<close> is reached through the operations of the kernel's
  map interface, which are an argument.
\<close>

section \<open>Maps and static state\<close>

record logger_value =
  lv_prev :: i32
  lv_cur :: i32
  lv_entropy :: fixed_point

record data_value =
  prev_interval_pkt :: i32
  cur_interval_pkt :: i32
  threshold :: i32
  int_bits :: i32

record 'm xdp_state =
  logger :: 'm
  blacklist :: "lpm_v4_key \<Rightarrow> u32 option"
  data :: "data_value option"
  loc_ts :: "i64 option"
  flow_count :: i32
  entropy_all :: fixed_point
  avg :: fixed_point
  trace :: "string list"

type_synonym 'm logger_ops = "('m, u32, logger_value) map_ops"

definition invl_ns :: i64 where "invl_ns = 1000000000"

text \<open>The trace buffer records each message without its final newline.\<close>

definition bpf_trace_printk :: "string \<Rightarrow> 'm xdp_state \<Rightarrow> 'm xdp_state" where
  "bpf_trace_printk msg st = st\<lparr>trace := trace st @ [msg]\<rparr>"

section \<open>Entropy of one flow\<close>

text \<open>
  The entropy that \<open>calc_entropy\<close> computes for one flow.  Every call passes its packet
  count first and \<open>int_bits\<close> second to \<open>to_fixed_point\<close>, as the source does.
\<close>

definition flow_entropy :: "data_value \<Rightarrow> logger_value \<Rightarrow> fixed_point" where
  "flow_entropy tmp logger_value =
     (let cur = to_fixed_point (lv_cur logger_value) (int_bits tmp);
          prev = to_fixed_point (lv_prev logger_value) (int_bits tmp);
          prev_invl = to_fixed_point (prev_interval_pkt tmp) (int_bits tmp);
          tmp_one = to_fixed_point 1 (int_bits tmp);
          tmp_ten = to_fixed_point 10 (int_bits tmp);
          (tmp_one, tmp_ten, prev) =
            (if lv_prev logger_value = 0 then divide tmp_one tmp_ten else (tmp_one, tmp_ten, prev));
          (tmp_one, tmp_ten, cur) =
            (if lv_cur logger_value = 0 then divide tmp_one tmp_ten else (tmp_one, tmp_ten, cur));
          (prev, prev_invl, first) = divide prev prev_invl;
          first = calc_log first;
          first = first\<lparr>fp_number := fp_number first * - 1\<rparr>
      in if sint (fp_number prev) \<ge> sint (fp_number cur)
         then (let (cur, prev, second) = divide cur prev;
                   second = abs_val (calc_log second);
                   (first, second, entropy) = add first second
               in entropy)
         else (let (prev, cur, second) = divide prev cur;
                   second = abs_val (calc_log second);
                   (first, second, entropy) = add first second
               in entropy))"

definition calc_entropy ::
    "'m logger_ops \<Rightarrow> data_value \<Rightarrow> u32 \<Rightarrow> 'm xdp_state \<Rightarrow> i32 \<times> 'm xdp_state" where
  "calc_entropy ops tmp key st =
     (case map_lookup ops (logger st) key of
        None \<Rightarrow> (0, st)
      | Some logger_value \<Rightarrow>
          (let entropy = flow_entropy tmp logger_value;
               st = st\<lparr>logger := map_store ops (logger st) key (logger_value\<lparr>lv_entropy := entropy\<rparr>)\<rparr>;
               (_, _, all) = add (entropy_all st) entropy;
               st = st\<lparr>entropy_all := all, flow_count := flow_count st + 1\<rparr>
           in (0, st)))"

definition detection ::
    "'m logger_ops \<Rightarrow> data_value \<Rightarrow> u32 \<Rightarrow> 'm xdp_state \<Rightarrow> i32 \<times> 'm xdp_state" where
  "detection ops tmp key st =
     (case map_lookup ops (logger st) key of
        None \<Rightarrow> (0, st)
      | Some logger_value \<Rightarrow>
          (if fp_number (lv_entropy logger_value) = 0
           then (0, st\<lparr>logger := map_store ops (logger st) key
                         (logger_value\<lparr>lv_prev := lv_cur logger_value, lv_cur := 0\<rparr>)\<rparr>)
           else
             (let (entropy, avg', diff) = subtract (lv_entropy logger_value) (avg st);
                  logger_value = logger_value\<lparr>lv_entropy := entropy\<rparr>;
                  st = st\<lparr>avg := avg', logger := map_store ops (logger st) key logger_value\<rparr>;
                  d = abs_val diff;
                  st = (if sint (fp_number d) > sint (threshold tmp)
                        then (let filter_key = \<lparr>prefixlen = 32, address = key\<rparr> in st)
                        else st)
              in if lv_cur logger_value = 0
                 then (0, st\<lparr>logger := snd (map_delete ops (logger st) key)\<rparr>)
                 else (0, st\<lparr>logger := map_store ops (logger st) key
                            (logger_value\<lparr>lv_prev := lv_cur logger_value, lv_cur := 0\<rparr>)\<rparr>))))"

section \<open>The XDP program\<close>

text \<open>The work at the end of an interval, after the lock has been released (lines 303 to 323).\<close>

definition end_interval ::
    "'m logger_ops \<Rightarrow> data_value \<Rightarrow> 'm xdp_state \<Rightarrow> 'm xdp_state" where
  "end_interval ops tmp st =
     (let d = tmp;
          st = for_each_elem (calc_entropy ops d) (map_keys ops (logger st)) st;
          cnt = to_fixed_point (flow_count st) (int_bits tmp);
          (all, cnt, a) = divide (entropy_all st) cnt;
          st = st\<lparr>entropy_all := all, avg := a\<rparr>;
          st = for_each_elem (detection ops d) (map_keys ops (logger st)) st;
          tmp = tmp\<lparr>prev_interval_pkt := cur_interval_pkt tmp\<rparr>;
          tmp = tmp\<lparr>cur_interval_pkt := 0\<rparr>;
          tmp = tmp\<lparr>int_bits := 4\<rparr>
      in st\<lparr>data := Some tmp, flow_count := 0, entropy_all := \<lparr>fp_number = 0, fp_q = 16\<rparr>\<rparr>)"

text \<open>Counting the packet for its interval (lines 237 to 249) and for its flow (257 to 274).\<close>

definition count_interval :: "data_value \<Rightarrow> data_value" where
  "count_interval tmp =
     (let tmp = tmp\<lparr>cur_interval_pkt := cur_interval_pkt tmp + 1\<rparr>
      in if sint (cur_interval_pkt tmp) > sint (shl32 1 (int_bits tmp - 1) - 1)
         then tmp\<lparr>int_bits := int_bits tmp + 1\<rparr> else tmp)"

definition new_logger_value :: logger_value where
  "new_logger_value = \<lparr>lv_prev = 0, lv_cur = 1, lv_entropy = \<lparr>fp_number = 0, fp_q = 16\<rparr>\<rparr>"

definition count_flow :: "'m logger_ops \<Rightarrow> u32 \<Rightarrow> 'm \<Rightarrow> 'm" where
  "count_flow ops saddr lg =
     (case map_lookup ops lg saddr of
        Some value \<Rightarrow> map_store ops lg saddr (value\<lparr>lv_cur := lv_cur value + 1\<rparr>)
      | None \<Rightarrow> snd (map_update ops lg saddr new_logger_value BPF_ANY))"

definition xdp_filter_func ::
    "'m logger_ops \<Rightarrow> i64 \<Rightarrow> xdp_action \<Rightarrow> packet \<Rightarrow> 'm xdp_state \<Rightarrow> xdp_action \<times> 'm xdp_state" where
  "xdp_filter_func ops ts redirect pkt st =
     (if 14 > length pkt
      then (XDP_PASS, bpf_trace_printk ''Issue with packet size, ETH'' st)
      else if load16 pkt 12 = bpf_htons ETH_P_IP then
        (if 14 + 20 > length pkt
         then (XDP_PASS, bpf_trace_printk ''Issue with packet size, IPv4'' st)
         else
           (let saddr = load32 pkt (14 + 12);
                filter_key = \<lparr>prefixlen = 32, address = saddr\<rparr>
            in case blacklist st filter_key of
                 Some rule \<Rightarrow> (XDP_DROP, bpf_trace_printk ''IP listed on blocklist.'' st)
               | None \<Rightarrow>
                   (case data st of
                      None \<Rightarrow> (XDP_PASS, bpf_trace_printk ''Error at reading data, the first one'' st)
                    | Some tmp \<Rightarrow>
                        (let tmp = count_interval tmp;
                             st = st\<lparr>data := Some tmp\<rparr>;
                             st = st\<lparr>logger := count_flow ops saddr (logger st)\<rparr>
                         in case loc_ts st of
                              None \<Rightarrow> (XDP_PASS, bpf_trace_printk ''Error at reading time stamp'' st)
                            | Some timestamp \<Rightarrow>
                                (if sint ts > sint (timestamp + invl_ns) then
                                   (if timestamp = 0 then (redirect, st\<lparr>loc_ts := Some ts\<rparr>)
                                    else if sint ts > sint (timestamp + invl_ns)
                                    then (redirect, end_interval ops tmp (st\<lparr>loc_ts := Some ts\<rparr>))
                                    else (redirect, st))
                                 else (redirect, st))))))
      else (redirect, st))"

text \<open>A run: each packet comes with the clock reading and the answer of \<open>bpf_redirect_map\<close>.\<close>

fun xdp_run ::
    "'m logger_ops \<Rightarrow> (i64 \<times> xdp_action \<times> packet) list \<Rightarrow> 'm xdp_state \<Rightarrow> xdp_action list \<times> 'm xdp_state" where
  "xdp_run ops [] st = ([], st)"
| "xdp_run ops ((ts, redirect, pkt) # evs) st =
     (let (act, st) = xdp_filter_func ops ts redirect pkt st;
          (acts, st) = xdp_run ops evs st
      in (act # acts, st))"

section \<open>Specification\<close>

text \<open>
  What the two passes do to one entry: \<open>calc_entropy\<close> stores the flow's entropy;
  \<open>detection\<close> ages the counters, and drops the entry of a flow that has an entropy and
  sent nothing in the interval.
\<close>

definition entropy_entry :: "data_value \<Rightarrow> logger_value option \<Rightarrow> logger_value option" where
  "entropy_entry d = map_option (\<lambda>v. v\<lparr>lv_entropy := flow_entropy d v\<rparr>)"

fun aged_entry :: "logger_value option \<Rightarrow> logger_value option \<Rightarrow> bool" where
  "aged_entry None w \<longleftrightarrow> w = None"
| "aged_entry (Some v) None \<longleftrightarrow> fp_number (lv_entropy v) \<noteq> 0 \<and> lv_cur v = 0"
| "aged_entry (Some v) (Some w) \<longleftrightarrow>
     (fp_number (lv_entropy v) = 0 \<or> lv_cur v \<noteq> 0) \<and>
     lv_prev w = lv_cur v \<and> lv_cur w = 0 \<and> fp_number (lv_entropy w) = fp_number (lv_entropy v)"

text \<open>
  What the program should do with a packet, given the blacklist: a frame it cannot parse
  and a frame that is not IPv4 are let through, a listed source is dropped, and anything
  else is a packet of the flow of its source address.
\<close>

datatype packet_class = Bad_eth | Not_ipv4 | Bad_ip | Blocked | Flow u32

definition classify :: "(lpm_v4_key \<Rightarrow> u32 option) \<Rightarrow> packet \<Rightarrow> packet_class" where
  "classify bl pkt =
     (if length pkt < 14 then Bad_eth
      else if load16 pkt 12 \<noteq> bpf_htons ETH_P_IP then Not_ipv4
      else if length pkt < 34 then Bad_ip
      else if bl \<lparr>prefixlen = 32, address = load32 pkt 26\<rparr> \<noteq> None then Blocked
      else Flow (load32 pkt 26))"

text \<open>The packet's flow is in the table, or the table takes a new entry for it.\<close>

definition insert_ok :: "'m logger_ops \<Rightarrow> packet \<Rightarrow> 'm xdp_state \<Rightarrow> bool" where
  "insert_ok ops pkt st =
     (case classify (blacklist st) pkt of
        Flow a \<Rightarrow> map_lookup ops (logger st) a \<noteq> None \<or>
                  fst (map_update ops (logger st) a new_logger_value BPF_ANY) = 0
      | _ \<Rightarrow> True)"

fun inserts_ok :: "'m logger_ops \<Rightarrow> (i64 \<times> xdp_action \<times> packet) list \<Rightarrow> 'm xdp_state \<Rightarrow> bool" where
  "inserts_ok ops [] st = True"
| "inserts_ok ops ((ts, redirect, pkt) # evs) st =
     (insert_ok ops pkt st \<and> inserts_ok ops evs (snd (xdp_filter_func ops ts redirect pkt st)))"

text \<open>The interval counter is the sum of the flow counters.\<close>

definition conserved :: "'m logger_ops \<Rightarrow> 'm xdp_state \<Rightarrow> bool" where
  "conserved ops st =
     (case data st of
        None \<Rightarrow> True
      | Some d \<Rightarrow> cur_interval_pkt d = (\<Sum>k\<leftarrow>map_keys ops (logger st). lv_cur (the (map_lookup ops (logger st) k))))"

text \<open>The program on a packet of a flow, with both array lookups answered.\<close>

definition flow_step ::
    "'m logger_ops \<Rightarrow> i64 \<Rightarrow> u32 \<Rightarrow> data_value \<Rightarrow> i64 \<Rightarrow> 'm xdp_state \<Rightarrow> 'm xdp_state" where
  "flow_step ops ts a d t st =
     (let st' = st\<lparr>data := Some (count_interval d), logger := count_flow ops a (logger st)\<rparr>
      in if sint ts > sint (t + invl_ns)
         then (if t = 0 then st'\<lparr>loc_ts := Some ts\<rparr>
               else end_interval ops (count_interval d) (st'\<lparr>loc_ts := Some ts\<rparr>))
         else st')"

section \<open>A sample\<close>

text \<open>An IPv4 frame from 10.0.0.1, and a state in which one interval is under way.\<close>

definition sample_packet :: packet where
  "sample_packet = [0,0,0,0,0,0,0,0,0,0,0,0,8,0,0x45,0,0,20,0,0,0,0,64,17,0,0,10,0,0,1,10,0,0,2]"

definition sample_state :: "(u32 \<times> logger_value) list xdp_state" where
  "sample_state =
     \<lparr>logger = [], blacklist = (\<lambda>_. None),
      data = Some \<lparr>prev_interval_pkt = 0, cur_interval_pkt = 0, threshold = 100, int_bits = 4\<rparr>,
      loc_ts = Some 1, flow_count = 0, entropy_all = \<lparr>fp_number = 0, fp_q = 16\<rparr>,
      avg = \<lparr>fp_number = 0, fp_q = 0\<rparr>, trace = []\<rparr>"

section \<open>The callbacks, entry by entry\<close>

lemma subtract_keeps_numbers:
  "subtract a b = (a', b', r) \<Longrightarrow> fp_number a' = fp_number a \<and> fp_number b' = fp_number b"
  by (auto simp: subtract_def check_bit_eq)

lemma flow_entropy_cong:
  "lv_prev v = lv_prev w \<Longrightarrow> lv_cur v = lv_cur w \<Longrightarrow> flow_entropy d v = flow_entropy d w"
  by (simp add: flow_entropy_def)

locale logger_map = bpf_map ops for ops :: "'m logger_ops"
begin

lemma calc_entropy_step:
  "fst (calc_entropy ops d k st) = 0"
  "j \<noteq> k \<Longrightarrow> map_lookup ops (logger (snd (calc_entropy ops d k st))) j = map_lookup ops (logger st) j"
  "map_lookup ops (logger (snd (calc_entropy ops d k st))) k = entropy_entry d (map_lookup ops (logger st) k)"
  by (auto simp: calc_entropy_def entropy_entry_def lookup_store Let_def split: option.splits prod.splits)

lemma detection_step:
  "fst (detection ops d k st) = 0"
  "j \<noteq> k \<Longrightarrow> map_lookup ops (logger (snd (detection ops d k st))) j = map_lookup ops (logger st) j"
  "aged_entry (map_lookup ops (logger st) k) (map_lookup ops (logger (snd (detection ops d k st))) k)"
  by (auto simp: detection_def lookup_store lookup_delete Let_def subtract_keeps_numbers
      split: option.splits prod.splits)

lemma calc_entropy_frame:
  "data (snd (calc_entropy ops d k st)) = data st"
  "loc_ts (snd (calc_entropy ops d k st)) = loc_ts st"
  "blacklist (snd (calc_entropy ops d k st)) = blacklist st"
  "avg (snd (calc_entropy ops d k st)) = avg st"
  "trace (snd (calc_entropy ops d k st)) = trace st"
  by (auto simp: calc_entropy_def Let_def split: option.splits prod.splits)

lemma detection_frame:
  "data (snd (detection ops d k st)) = data st"
  "loc_ts (snd (detection ops d k st)) = loc_ts st"
  "blacklist (snd (detection ops d k st)) = blacklist st"
  "flow_count (snd (detection ops d k st)) = flow_count st"
  "entropy_all (snd (detection ops d k st)) = entropy_all st"
  "trace (snd (detection ops d k st)) = trace st"
  by (auto simp: detection_def Let_def split: option.splits prod.splits)

lemma calc_entropy_pass:
  "map_lookup ops (logger (for_each_elem (calc_entropy ops d) (map_keys ops (logger st)) st)) k =
   entropy_entry d (map_lookup ops (logger st) k)"
proof -
  let ?look = "\<lambda>st. map_lookup ops (logger st)"
  have "(k \<in> set (map_keys ops (logger st)) \<longrightarrow>
          ?look (for_each_elem (calc_entropy ops d) (map_keys ops (logger st)) st) k = entropy_entry d (?look st k)) \<and>
        (k \<notin> set (map_keys ops (logger st)) \<longrightarrow>
          ?look (for_each_elem (calc_entropy ops d) (map_keys ops (logger st)) st) k = ?look st k)"
    by (rule for_each_elem_pointwise [where R = "\<lambda>v w. w = entropy_entry d v" and look = ?look])
      (simp_all add: calc_entropy_step distinct_keys)
  moreover have "k \<notin> set (map_keys ops (logger st)) \<Longrightarrow> ?look st k = None"
    by (simp add: keys_lookup domIff)
  ultimately show ?thesis by (auto simp: entropy_entry_def)
qed

lemma detection_pass:
  "aged_entry (map_lookup ops (logger st) k)
     (map_lookup ops (logger (for_each_elem (detection ops d) (map_keys ops (logger st)) st)) k)"
proof -
  let ?look = "\<lambda>st. map_lookup ops (logger st)"
  have "(k \<in> set (map_keys ops (logger st)) \<longrightarrow>
          aged_entry (?look st k) (?look (for_each_elem (detection ops d) (map_keys ops (logger st)) st) k)) \<and>
        (k \<notin> set (map_keys ops (logger st)) \<longrightarrow>
          ?look (for_each_elem (detection ops d) (map_keys ops (logger st)) st) k = ?look st k)"
    by (rule for_each_elem_pointwise [where R = aged_entry and look = ?look])
      (simp_all add: detection_step distinct_keys)
  moreover have "k \<notin> set (map_keys ops (logger st)) \<Longrightarrow> ?look st k = None"
    by (simp add: keys_lookup domIff)
  ultimately show ?thesis by auto
qed

lemmas pass_frame =
  for_each_elem_keep [of _ "calc_entropy ops d" for d] for_each_elem_keep [of _ "detection ops d" for d]

lemma end_interval_logger:
  "aged_entry (entropy_entry tmp (map_lookup ops (logger st) k))
     (map_lookup ops (logger (end_interval ops tmp st)) k)"
proof -
  define st1 where "st1 = for_each_elem (calc_entropy ops tmp) (map_keys ops (logger st)) st"
  obtain al cn a where dv: "divide (entropy_all st1) (to_fixed_point (flow_count st1) (int_bits tmp)) = (al, cn, a)"
    by (metis prod_cases3)
  define st2 where "st2 = st1\<lparr>entropy_all := al, avg := a\<rparr>"
  have l2: "logger st2 = logger st1" by (simp add: st2_def)
  have lg: "logger (end_interval ops tmp st) =
      logger (for_each_elem (detection ops tmp) (map_keys ops (logger st2)) st2)"
    by (simp add: end_interval_def Let_def dv l2 flip: st1_def st2_def)
  have "map_lookup ops (logger st2) k = entropy_entry tmp (map_lookup ops (logger st) k)"
    unfolding l2 st1_def by (rule calc_entropy_pass)
  then show ?thesis unfolding lg using detection_pass [of st2 k tmp] by simp
qed

lemma end_interval_frame:
  "data (end_interval ops tmp st) =
     Some (tmp\<lparr>prev_interval_pkt := cur_interval_pkt tmp, cur_interval_pkt := 0, int_bits := 4\<rparr>)"
  "loc_ts (end_interval ops tmp st) = loc_ts st"
  "blacklist (end_interval ops tmp st) = blacklist st"
  "flow_count (end_interval ops tmp st) = 0"
  "entropy_all (end_interval ops tmp st) = \<lparr>fp_number = 0, fp_q = 16\<rparr>"
  "trace (end_interval ops tmp st) = trace st"
  by (simp_all add: end_interval_def Let_def split: prod.split)
    (simp_all add: pass_frame calc_entropy_frame detection_frame)

lemma end_interval_entry:
  assumes "map_lookup ops (logger (end_interval ops tmp st)) k = Some w"
  shows "\<exists>v. map_lookup ops (logger st) k = Some v \<and> lv_prev w = lv_cur v \<and> lv_cur w = 0"
  using end_interval_logger [of tmp st k] assms
  by (cases "map_lookup ops (logger st) k") (auto simp: entropy_entry_def)

end

section \<open>Counting\<close>

sublocale logger_map \<subseteq> flow: flow_counter ops "count_flow ops" lv_cur
    "\<lambda>v. v\<lparr>lv_cur := lv_cur v + 1\<rparr>" new_logger_value
  by unfold_locales (simp_all add: count_flow_def new_logger_value_def)

context logger_map
begin

lemmas count_flow_lookup = flow.count_lookup

lemma end_interval_total: "flow.flow_total (logger (end_interval ops tmp st)) = 0"
  by (rule entry_sum_zero) (use end_interval_entry in blast)

end

lemma count_interval_cur [simp]: "cur_interval_pkt (count_interval d) = cur_interval_pkt d + 1"
  by (simp add: count_interval_def Let_def)

lemma count_interval_frame [simp]:
  "prev_interval_pkt (count_interval d) = prev_interval_pkt d"
  "threshold (count_interval d) = threshold d"
  by (simp_all add: count_interval_def Let_def)

section \<open>One packet\<close>

lemma xdp_filter_func_eq:
  "xdp_filter_func ops ts redirect pkt st =
     (case classify (blacklist st) pkt of
        Bad_eth \<Rightarrow> (XDP_PASS, bpf_trace_printk ''Issue with packet size, ETH'' st)
      | Not_ipv4 \<Rightarrow> (redirect, st)
      | Bad_ip \<Rightarrow> (XDP_PASS, bpf_trace_printk ''Issue with packet size, IPv4'' st)
      | Blocked \<Rightarrow> (XDP_DROP, bpf_trace_printk ''IP listed on blocklist.'' st)
      | Flow a \<Rightarrow>
          (case data st of
             None \<Rightarrow> (XDP_PASS, bpf_trace_printk ''Error at reading data, the first one'' st)
           | Some d \<Rightarrow>
               (case loc_ts st of
                  None \<Rightarrow> (XDP_PASS, bpf_trace_printk ''Error at reading time stamp''
                             (st\<lparr>data := Some (count_interval d), logger := count_flow ops a (logger st)\<rparr>))
                | Some t \<Rightarrow> (redirect, flow_step ops ts a d t st))))"
  by (auto simp: xdp_filter_func_def classify_def flow_step_def Let_def split: option.splits)

lemma xdp_filter_func_blacklist: "blacklist (snd (xdp_filter_func ops ts redirect pkt st)) = blacklist st"
proof -
  have "blacklist (snd (calc_entropy ops d k st)) = blacklist st" for d k st
    by (auto simp: calc_entropy_def Let_def split: option.splits prod.splits)
  moreover have "blacklist (snd (detection ops d k st)) = blacklist st" for d k st
    by (auto simp: detection_def Let_def split: option.splits prod.splits)
  ultimately have "blacklist (end_interval ops d st) = blacklist st" for d st
    by (simp add: end_interval_def Let_def for_each_elem_keep split: prod.split)
  then show ?thesis
    by (auto simp: xdp_filter_func_eq flow_step_def bpf_trace_printk_def Let_def
        split: packet_class.splits option.splits)
qed

lemma xdp_run_blacklist: "blacklist (snd (xdp_run ops evs st)) = blacklist st"
  by (induction ops evs st rule: xdp_run.induct)
    (auto simp: Let_def split: prod.splits, metis snd_conv xdp_filter_func_blacklist)

lemma drop_iff:
  "redirect \<noteq> XDP_DROP \<Longrightarrow>
   fst (xdp_filter_func ops ts redirect pkt st) = XDP_DROP \<longleftrightarrow> classify (blacklist st) pkt = Blocked"
  by (auto simp: xdp_filter_func_eq split: packet_class.splits option.splits)

lemma xdp_run_no_drop:
  assumes "blacklist st = (\<lambda>_. None)" "\<forall>(ts, redirect, pkt) \<in> set evs. redirect \<noteq> XDP_DROP"
  shows "XDP_DROP \<notin> set (fst (xdp_run ops evs st))"
  using assms
proof (induction ops evs st rule: xdp_run.induct)
  case (2 ops ts redirect pkt evs st)
  obtain act st' where f: "xdp_filter_func ops ts redirect pkt st = (act, st')" by force
  have bl: "blacklist st' = (\<lambda>_. None)"
    using xdp_filter_func_blacklist [of ops ts redirect pkt st] f "2.prems"(1) by simp
  have "act \<noteq> XDP_DROP"
    using drop_iff [of redirect ops ts pkt st] f "2.prems" by (auto simp: classify_def split: if_splits)
  then show ?case using "2.IH" [OF f [symmetric] _ bl] "2.prems"(2) f
    by (auto split: prod.splits)
qed simp

context logger_map
begin

lemma conserved_iff:
  "conserved ops st \<longleftrightarrow> (case data st of None \<Rightarrow> True | Some d \<Rightarrow> cur_interval_pkt d = flow.flow_total (logger st))"
  by (simp add: conserved_def sum_keys entry_sum_def split: option.split)

lemma conserved_step:
  assumes "conserved ops st" "insert_ok ops pkt st"
  shows "conserved ops (snd (xdp_filter_func ops ts redirect pkt st))"
proof (cases "classify (blacklist st) pkt")
  case (Flow a)
  have total: "flow.flow_total (count_flow ops a (logger st)) = flow.flow_total (logger st) + 1"
    using assms(2) Flow by (intro flow.count_total) (auto simp: insert_ok_def)
  then show ?thesis using assms(1) Flow
    by (auto simp: xdp_filter_func_eq conserved_iff flow_step_def bpf_trace_printk_def Let_def
        end_interval_frame end_interval_total split: option.splits)
qed (use assms(1) in \<open>auto simp: xdp_filter_func_eq conserved_iff bpf_trace_printk_def split: option.splits\<close>)

lemma conserved_run: "conserved ops st \<Longrightarrow> inserts_ok ops evs st \<Longrightarrow> conserved ops (snd (xdp_run ops evs st))"
proof (induction evs arbitrary: st)
  case (Cons ev evs)
  obtain ts redirect pkt where ev: "ev = (ts, redirect, pkt)" by (metis prod_cases3)
  obtain act st' where f: "xdp_filter_func ops ts redirect pkt st = (act, st')" by force
  have "conserved ops st'" using conserved_step [of st pkt ts redirect] Cons.prems ev f by simp
  then show ?case using Cons.IH [of st'] Cons.prems(2) ev f by (auto split: prod.splits)
qed simp

end

section \<open>The width of the packet counter\<close>

lemma count_interval_grows:
  assumes "1 \<le> sint (int_bits d)" "sint (int_bits d) \<le> 30"
    and "0 \<le> sint (cur_interval_pkt d)" "sint (cur_interval_pkt d) < 2 ^ nat (sint (int_bits d) - 1)"
  shows "sint (cur_interval_pkt (count_interval d)) = sint (cur_interval_pkt d) + 1"
    and "sint (int_bits (count_interval d)) =
           (if sint (cur_interval_pkt d) + 1 < 2 ^ nat (sint (int_bits d) - 1)
            then sint (int_bits d) else sint (int_bits d) + 1)"
proof -
  let ?b = "sint (int_bits d)" and ?c = "sint (cur_interval_pkt d)"
  have p: "(2::int) ^ nat (?b - 1) \<le> 2 ^ 29" using assms(1,2) by (intro power_increasing) auto
  then have c: "sint (cur_interval_pkt d + 1) = ?c + 1"
    using assms(3,4) by (subst sint32_add) simp_all
  have b1: "sint (int_bits d - 1) = ?b - 1" using assms(1,2) by (subst sint32_sub) simp_all
  have "sint (shl32 1 (int_bits d - 1)) = 2 ^ nat (?b - 1)"
    using assms(1,2) p by (subst sint_shl32) (simp_all add: b1 order_trans [of _ 0])
  then have lim: "sint (shl32 1 (int_bits d - 1) - 1) = 2 ^ nat (?b - 1) - 1"
    using p less_le_trans [of "- (2 ^ 31)" 0 "2 ^ nat (?b - 1) :: int"]
    by (subst sint32_sub) simp_all
  have bb: "sint (int_bits d + 1) = ?b + 1" using assms(1,2) by (subst sint32_add) simp_all
  show "sint (cur_interval_pkt (count_interval d)) = ?c + 1" using c by simp
  show "sint (int_bits (count_interval d)) = (if ?c + 1 < 2 ^ nat (?b - 1) then ?b else ?b + 1)"
    using c lim bb by (simp add: count_interval_def Let_def)
qed

section \<open>An instance\<close>

interpretation alist_logger: logger_map "alist_ops max_entries"
  by unfold_locales

lemma classify_sample: "classify (\<lambda>_. None) sample_packet = Flow 0x0100000A"
  by (simp add: classify_def sample_packet_def load16_def load32_def bswap16_def ETH_P_IP_def)

lemma sample_state_simps [simp]:
  "logger sample_state = []" "blacklist sample_state = (\<lambda>_. None)"
  "data sample_state = Some \<lparr>prev_interval_pkt = 0, cur_interval_pkt = 0, threshold = 100, int_bits = 4\<rparr>"
  "loc_ts sample_state = Some 1"
  by (simp_all add: sample_state_def)

lemma alist_ops_lookup [simp]: "map_lookup (alist_ops n) = map_of"
  by (simp add: alist_ops_def)

lemma sample_conserved: "conserved (alist_ops 2) sample_state"
  by (simp add: conserved_def alist_ops_def)

lemma sample_insert_ok: "insert_ok (alist_ops 2) sample_packet sample_state"
  by (simp add: insert_ok_def classify_sample alist_ops_def BPF_ANY_def BPF_EXIST_def)

lemma aged_entropy_cases:
  assumes "aged_entry (entropy_entry d v') w'"
  shows "case v' of None \<Rightarrow> w' = None
         | Some v \<Rightarrow> (case w' of None \<Rightarrow> lv_cur v = 0 \<and> fp_number (flow_entropy d v) \<noteq> 0
             | Some w \<Rightarrow> (lv_cur v \<noteq> 0 \<or> fp_number (flow_entropy d v) = 0) \<and>
                 lv_prev w = lv_cur v \<and> lv_cur w = 0 \<and> fp_number (lv_entropy w) = fp_number (flow_entropy d v))"
  using assms by (cases v'; cases w') (auto simp: entropy_entry_def)

section \<open>Properties\<close>

text \<open>
  C1: conservation of packets.  Over any run of packets in which every new flow finds room
  in the flow table, the interval counter \<open>cur_interval_pkt\<close> equals the sum of the
  counters \<open>cur\<close> of all flows (in 32-bit arithmetic), across ends of intervals, deletions
  of idle flows and packets that are not counted.
\<close>

theorem packets_conserved:
  assumes "logger_map ops" "conserved ops st" "inserts_ok ops evs st"
  shows "conserved ops (snd (xdp_run ops evs st))"
  using assms by (rule logger_map.conserved_run)

theorem packets_conserved_witness:
  "conserved (alist_ops 2)
     (snd (xdp_run (alist_ops 2) [(5, XDP_REDIRECT, sample_packet), (5000000000, XDP_REDIRECT, [])] sample_state))"
  by (rule packets_conserved [OF alist_logger.logger_map_axioms sample_conserved])
    (simp add: sample_insert_ok, simp add: insert_ok_def classify_def)

text \<open>
  C7: a packet of a flow before the end of the interval is redirected; it adds one to the
  interval counter and one to the counter of its flow (which starts at one with no
  previous count and no entropy), changes no other entry and keeps every other part of
  the state; the very first packet only starts the clock.
\<close>

theorem flow_packet_counted:
  fixes ops :: "'m logger_ops" and redirect :: xdp_action and ts :: i64
  assumes "logger_map ops" "classify (blacklist st) pkt = Flow a" "insert_ok ops pkt st"
    and "data st = Some d" "loc_ts st = Some t" "t = 0 \<or> sint ts \<le> sint (t + invl_ns)"
  defines "st' \<equiv> snd (xdp_filter_func ops ts redirect pkt st)"
  shows "fst (xdp_filter_func ops ts redirect pkt st) = redirect \<and>
         (\<exists>d'. data st' = Some d' \<and> cur_interval_pkt d' = cur_interval_pkt d + 1 \<and>
               prev_interval_pkt d' = prev_interval_pkt d \<and> threshold d' = threshold d) \<and>
         map_lookup ops (logger st') =
           (map_lookup ops (logger st))(a \<mapsto>
             (case map_lookup ops (logger st) a of
                None \<Rightarrow> \<lparr>lv_prev = 0, lv_cur = 1, lv_entropy = \<lparr>fp_number = 0, fp_q = 16\<rparr>\<rparr>
              | Some v \<Rightarrow> v\<lparr>lv_cur := lv_cur v + 1\<rparr>)) \<and>
         st' = st\<lparr>data := data st', logger := logger st',
                  loc_ts := Some (if sint ts > sint (t + invl_ns) then ts else t)\<rparr>"
proof -
  have st': "st' = st\<lparr>data := Some (count_interval d), logger := count_flow ops a (logger st),
        loc_ts := Some (if sint ts > sint (t + invl_ns) then ts else t)\<rparr>"
    using assms(2,4-6) by (auto simp: st'_def xdp_filter_func_eq flow_step_def Let_def)
  have "map_lookup ops (count_flow ops a (logger st)) =
      (map_lookup ops (logger st))(a \<mapsto> (case map_lookup ops (logger st) a of None \<Rightarrow> new_logger_value
                               | Some v \<Rightarrow> v\<lparr>lv_cur := lv_cur v + 1\<rparr>))"
    using assms(2,3) by (intro logger_map.count_flow_lookup [OF assms(1)]) (auto simp: insert_ok_def)
  then show ?thesis
    using assms(2,4,5) st' by (simp add: xdp_filter_func_eq new_logger_value_def cong: option.case_cong)
qed

theorem flow_packet_counted_witness:
  "fst (xdp_filter_func (alist_ops 2) 5 XDP_REDIRECT sample_packet sample_state) = XDP_REDIRECT \<and>
   map_lookup (alist_ops 2) (logger (snd (xdp_filter_func (alist_ops 2) 5 XDP_REDIRECT sample_packet sample_state)))
     0x0100000A = Some \<lparr>lv_prev = 0, lv_cur = 1, lv_entropy = \<lparr>fp_number = 0, fp_q = 16\<rparr>\<rparr>"
  using flow_packet_counted [OF alist_logger.logger_map_axioms [of 2], of sample_state sample_packet "0x0100000A"
      "\<lparr>prev_interval_pkt = 0, cur_interval_pkt = 0, threshold = 100, int_bits = 4\<rparr>" 1 5 XDP_REDIRECT]
  by (simp add: classify_sample sample_insert_ok invl_ns_def)

text \<open>
  C2: the end of an interval.  The first packet of a flow that arrives more than \<open>invl_ns\<close>
  after the last end is counted and then closes the interval: the clock is set to its
  arrival, the packet counter moves to \<open>prev_interval_pkt\<close> and restarts at 0 with width 4,
  the accumulators restart, every flow's counter moves to \<open>prev\<close> and restarts at 0, and a flow
  leaves the table exactly when it sent nothing in the interval and has a non-zero entropy.
\<close>

theorem interval_closed:
  fixes ops :: "'m logger_ops" and redirect :: xdp_action and ts :: i64
  assumes "logger_map ops" "classify (blacklist st) pkt = Flow a"
    and "data st = Some d" "loc_ts st = Some t" "t \<noteq> 0" "sint ts > sint (t + invl_ns)"
  defines "st' \<equiv> snd (xdp_filter_func ops ts redirect pkt st)"
    and "counted \<equiv> count_flow ops a (logger st)"
  shows "fst (xdp_filter_func ops ts redirect pkt st) = redirect \<and>
         data st' = Some \<lparr>prev_interval_pkt = cur_interval_pkt d + 1, cur_interval_pkt = 0,
                          threshold = threshold d, int_bits = 4\<rparr> \<and>
         loc_ts st' = Some ts \<and> flow_count st' = 0 \<and> entropy_all st' = \<lparr>fp_number = 0, fp_q = 16\<rparr> \<and>
         (\<forall>k. case map_lookup ops counted k of
                None \<Rightarrow> map_lookup ops (logger st') k = None
              | Some v \<Rightarrow>
                  (case map_lookup ops (logger st') k of
                     None \<Rightarrow> lv_cur v = 0 \<and> fp_number (flow_entropy (count_interval d) v) \<noteq> 0
                   | Some w \<Rightarrow> (lv_cur v \<noteq> 0 \<or> fp_number (flow_entropy (count_interval d) v) = 0) \<and>
                               lv_prev w = lv_cur v \<and> lv_cur w = 0 \<and>
                               fp_number (lv_entropy w) = fp_number (flow_entropy (count_interval d) v)))"
proof -
  let ?st1 = "st\<lparr>data := Some (count_interval d), logger := counted, loc_ts := Some ts\<rparr>"
  have st': "st' = end_interval ops (count_interval d) ?st1"
    using assms(2-6) by (simp add: st'_def xdp_filter_func_eq flow_step_def counted_def)
  have "aged_entry (entropy_entry (count_interval d) (map_lookup ops counted k))
          (map_lookup ops (logger st') k)" for k
    using logger_map.end_interval_logger [OF assms(1), of "count_interval d" ?st1 k] by (simp add: st')
  then have "case map_lookup ops counted k of
                None \<Rightarrow> map_lookup ops (logger st') k = None
              | Some v \<Rightarrow>
                  (case map_lookup ops (logger st') k of
                     None \<Rightarrow> lv_cur v = 0 \<and> fp_number (flow_entropy (count_interval d) v) \<noteq> 0
                   | Some w \<Rightarrow> (lv_cur v \<noteq> 0 \<or> fp_number (flow_entropy (count_interval d) v) = 0) \<and>
                               lv_prev w = lv_cur v \<and> lv_cur w = 0 \<and>
                               fp_number (lv_entropy w) = fp_number (flow_entropy (count_interval d) v))" for k
    using aged_entropy_cases by blast
  moreover have "fst (xdp_filter_func ops ts redirect pkt st) = redirect"
    using assms(2-4) by (simp add: xdp_filter_func_eq)
  ultimately show ?thesis
    by (simp add: st' logger_map.end_interval_frame [OF assms(1)])
qed

theorem interval_closed_witness:
  "fst (xdp_filter_func (alist_ops 2) 2000000000 XDP_REDIRECT sample_packet sample_state) = XDP_REDIRECT \<and>
   data (snd (xdp_filter_func (alist_ops 2) 2000000000 XDP_REDIRECT sample_packet sample_state)) =
     Some \<lparr>prev_interval_pkt = 1, cur_interval_pkt = 0, threshold = 100, int_bits = 4\<rparr>"
  using interval_closed [OF alist_logger.logger_map_axioms [of 2], of sample_state sample_packet "0x0100000A"
      "\<lparr>prev_interval_pkt = 0, cur_interval_pkt = 0, threshold = 100, int_bits = 4\<rparr>" 1 2000000000 XDP_REDIRECT]
  by (simp add: classify_sample invl_ns_def)

text \<open>
  every other packet.  A frame too short for its Ethernet header, or an IPv4 frame too
  short for its IP header, is passed to the stack; a frame that is not IPv4 is redirected; a
  frame from a listed source is dropped; a missing \<open>data\<close> entry passes the frame.  None of
  them changes anything but the trace buffer.  A missing time stamp is noticed only after the
  packet has been counted.
\<close>

theorem uncounted_packets:
  "(classify (blacklist st) pkt = Bad_eth \<longrightarrow>
      xdp_filter_func ops ts redirect pkt st = (XDP_PASS, bpf_trace_printk ''Issue with packet size, ETH'' st)) \<and>
   (classify (blacklist st) pkt = Not_ipv4 \<longrightarrow> xdp_filter_func ops ts redirect pkt st = (redirect, st)) \<and>
   (classify (blacklist st) pkt = Bad_ip \<longrightarrow>
      xdp_filter_func ops ts redirect pkt st = (XDP_PASS, bpf_trace_printk ''Issue with packet size, IPv4'' st)) \<and>
   (classify (blacklist st) pkt = Blocked \<longrightarrow>
      xdp_filter_func ops ts redirect pkt st = (XDP_DROP, bpf_trace_printk ''IP listed on blocklist.'' st)) \<and>
   (classify (blacklist st) pkt = Flow a \<and> data st = None \<longrightarrow>
      xdp_filter_func ops ts redirect pkt st =
        (XDP_PASS, bpf_trace_printk ''Error at reading data, the first one'' st)) \<and>
   (classify (blacklist st) pkt = Flow a \<and> data st = Some d \<and> loc_ts st = None \<longrightarrow>
      xdp_filter_func ops ts redirect pkt st =
        (XDP_PASS, bpf_trace_printk ''Error at reading time stamp''
           (st\<lparr>data := Some (count_interval d), logger := count_flow ops a (logger st)\<rparr>)))"
  by (simp add: xdp_filter_func_eq)

theorem uncounted_packets_witness:
  "xdp_filter_func (alist_ops 2) 5 XDP_REDIRECT [] sample_state =
     (XDP_PASS, bpf_trace_printk ''Issue with packet size, ETH'' sample_state) \<and>
   xdp_filter_func (alist_ops 2) 5 XDP_REDIRECT sample_packet (sample_state\<lparr>data := None\<rparr>) =
     (XDP_PASS, bpf_trace_printk ''Error at reading data, the first one'' (sample_state\<lparr>data := None\<rparr>))"
  using uncounted_packets [of sample_state "[]" "alist_ops 2" 5 XDP_REDIRECT]
    uncounted_packets [of "sample_state\<lparr>data := None\<rparr>" sample_packet "alist_ops 2" 5 XDP_REDIRECT "0x0100000A"]
  by (simp add: classify_sample, simp add: classify_def)

text \<open>
  no mitigation.  The program never writes the blacklist, so a run over any packets
  leaves it as it was; if it starts empty, as the loader creates it, no packet of any run is
  ever dropped, whatever entropies \<open>detection\<close> finds.
\<close>

theorem blacklist_never_filled:
  assumes "\<forall>(ts, redirect, pkt) \<in> set evs. redirect \<noteq> XDP_DROP"
  shows "blacklist (snd (xdp_run ops evs st)) = blacklist st \<and>
         (blacklist st = (\<lambda>_. None) \<longrightarrow> XDP_DROP \<notin> set (fst (xdp_run ops evs st)))"
  using xdp_run_blacklist [of ops evs st] xdp_run_no_drop [OF _ assms, of st ops] by blast

theorem blacklist_never_filled_witness:
  "blacklist (snd (xdp_run (alist_ops 2) [(5, XDP_REDIRECT, sample_packet)] sample_state)) = (\<lambda>_. None) \<and>
   XDP_DROP \<notin> set (fst (xdp_run (alist_ops 2) [(5, XDP_REDIRECT, sample_packet)] sample_state))"
  using blacklist_never_filled [of "[(5, XDP_REDIRECT, sample_packet)]" "alist_ops 2" sample_state] by simp

text \<open>
  The width of the packet counter.  While \<open>int_bits\<close> is at most 30, counting a packet
  adds one without wrap-around, and the counter, if it was below \<open>2 ^ (int_bits - 1)\<close>, stays
  below it: \<open>int_bits\<close> grows by one exactly when the counter reaches the bound.
\<close>

theorem counter_fits_width:
  assumes "1 \<le> sint (int_bits d)" "sint (int_bits d) \<le> 30"
    and "0 \<le> sint (cur_interval_pkt d)" "sint (cur_interval_pkt d) < 2 ^ nat (sint (int_bits d) - 1)"
  shows "sint (cur_interval_pkt (count_interval d)) = sint (cur_interval_pkt d) + 1 \<and>
         sint (cur_interval_pkt (count_interval d)) < 2 ^ nat (sint (int_bits (count_interval d)) - 1) \<and>
         sint (int_bits (count_interval d)) - sint (int_bits d) =
           (if sint (cur_interval_pkt d) + 1 = 2 ^ nat (sint (int_bits d) - 1) then 1 else 0)"
proof -
  have "(2::int) ^ nat (sint (int_bits d)) = 2 * 2 ^ nat (sint (int_bits d) - 1)"
    using assms(1) by (simp flip: power_Suc add: Suc_nat_eq_nat_zadd1)
  then show ?thesis using count_interval_grows [OF assms] assms(4) by auto
qed

theorem counter_fits_width_witness:
  "sint (cur_interval_pkt (count_interval
      \<lparr>prev_interval_pkt = 0, cur_interval_pkt = 7, threshold = 100, int_bits = 4\<rparr>)) = 8 \<and>
   sint (int_bits (count_interval
      \<lparr>prev_interval_pkt = 0, cur_interval_pkt = 7, threshold = 100, int_bits = 4\<rparr>)) = 5"
  using counter_fits_width [of "\<lparr>prev_interval_pkt = 0, cur_interval_pkt = 7, threshold = 100, int_bits = 4\<rparr>"]
  by simp

text \<open>
  The arguments of \<open>to_fixed_point\<close>.  Its first parameter is the number of fraction bits
  and its second the value.  \<open>calc_entropy\<close> passes the packet count first and \<open>int_bits\<close>
  second, so the number it builds from any count of at most 25 packets stands for
  \<open>int_bits\<close>, whatever the count is: the value does not depend on the traffic.
\<close>

theorem packet_count_as_fraction_bits:
  assumes "0 \<le> sint c" "sint c \<le> 25" "0 \<le> sint b" "sint b \<le> 31"
  shows "fp_value (to_fixed_point c b) = of_int (sint b)"
proof (rule to_fixed_point_value)
  have "nat (sint c) \<le> 25" using assms(2) by linarith
  then have "(2::int) ^ nat (sint c) \<le> 2 ^ 25" by (rule power_increasing) simp
  then have "sint b * 2 ^ nat (sint c) \<le> 31 * 2 ^ 25"
    using assms(3,4) by (rule_tac mult_mono) simp_all
  then show "sint b * 2 ^ nat (sint c) < 2 ^ 31" by simp
  show "- (2 ^ 31) \<le> sint b * 2 ^ nat (sint c)"
    using assms(3) by (rule_tac order_trans [of _ 0]) simp_all
qed (use assms in simp_all)

theorem packet_count_as_fraction_bits_witness:
  "fp_value (to_fixed_point 1 4) = 4 \<and> fp_value (to_fixed_point 20 4) = 4"
  using packet_count_as_fraction_bits [of 1 4] packet_count_as_fraction_bits [of 20 4] by simp

end
