(* ===== verification/Interval_Lock.thy ===== *)
theory Interval_Lock
  imports Xdp_Kern
begin

text \<open>
  The in-kernel detector on several CPUs: the parts of \<open>xdp_filter_func\<close> in
  \<open>fully_in-kernel/main/xdp_prog_kern.c\<close> that rely on atomicity.  Two step relations
  interleave the CPUs at the granularity of the source's atomic accesses: the spin lock that
  decides which packet closes an interval (lines 284 to 302), and the lookup, atomic
  increment and insertion that count a packet for its flow (lines 257 to 274).
\<close>

section \<open>The interval lock\<close>

text \<open>
  Where a CPU is: outside; holding a clock reading \<open>ts\<close> before the unlocked test; waiting for
  the lock; holding it before the second test; holding it before the unlock, with what
  follows (\<open>True\<close> for the work at the end of the interval); doing that work.
\<close>

datatype lock_pc = Outside | Testing i64 | Waiting i64 | Locked i64 | Unlocking bool i64 | Closing

record lock_state =
  lts_timestamp :: i64
  lts_lock :: "nat option"
  cpus :: "nat \<Rightarrow> lock_pc"
  stamps :: "i64 list"

text \<open>\<open>stamps\<close> is a ghost: the values written to \<open>lts->timestamp\<close>, the latest first.\<close>

inductive lock_step :: "i64 set \<Rightarrow> lock_state \<Rightarrow> lock_state \<Rightarrow> bool" for clock where
  arrive: "cpus s c = Outside \<Longrightarrow> ts \<in> clock \<Longrightarrow>
     lock_step clock s (s\<lparr>cpus := (cpus s)(c := Testing ts)\<rparr>)"
| test_late: "cpus s c = Testing ts \<Longrightarrow> sint ts > sint (lts_timestamp s + invl_ns) \<Longrightarrow>
     lock_step clock s (s\<lparr>cpus := (cpus s)(c := Waiting ts)\<rparr>)"
| test_early: "cpus s c = Testing ts \<Longrightarrow> \<not> sint ts > sint (lts_timestamp s + invl_ns) \<Longrightarrow>
     lock_step clock s (s\<lparr>cpus := (cpus s)(c := Outside)\<rparr>)"
| spin_lock: "cpus s c = Waiting ts \<Longrightarrow> lts_lock s = None \<Longrightarrow>
     lock_step clock s (s\<lparr>lts_lock := Some c, cpus := (cpus s)(c := Locked ts)\<rparr>)"
| first: "cpus s c = Locked ts \<Longrightarrow> lts_timestamp s = 0 \<Longrightarrow>
     lock_step clock s (s\<lparr>lts_timestamp := ts, stamps := ts # stamps s, cpus := (cpus s)(c := Unlocking False ts)\<rparr>)"
| still_late: "cpus s c = Locked ts \<Longrightarrow> lts_timestamp s \<noteq> 0 \<Longrightarrow>
     sint ts > sint (lts_timestamp s + invl_ns) \<Longrightarrow>
     lock_step clock s (s\<lparr>lts_timestamp := ts, stamps := ts # stamps s, cpus := (cpus s)(c := Unlocking True ts)\<rparr>)"
| too_late: "cpus s c = Locked ts \<Longrightarrow> lts_timestamp s \<noteq> 0 \<Longrightarrow>
     \<not> sint ts > sint (lts_timestamp s + invl_ns) \<Longrightarrow>
     lock_step clock s (s\<lparr>cpus := (cpus s)(c := Unlocking False ts)\<rparr>)"
| spin_unlock: "cpus s c = Unlocking go ts \<Longrightarrow>
     lock_step clock s (s\<lparr>lts_lock := None, cpus := (cpus s)(c := if go then Closing else Outside)\<rparr>)"
| closed: "cpus s c = Closing \<Longrightarrow>
     lock_step clock s (s\<lparr>cpus := (cpus s)(c := Outside)\<rparr>)"

definition lock_init :: lock_state where
  "lock_init = \<lparr>lts_timestamp = 0, lts_lock = None, cpus = (\<lambda>_. Outside), stamps = []\<rparr>"

inductive lock_reach :: "i64 set \<Rightarrow> lock_state \<Rightarrow> bool" for clock where
  init: "lock_reach clock lock_init"
| step: "lock_reach clock s \<Longrightarrow> lock_step clock s s' \<Longrightarrow> lock_reach clock s'"

text \<open>The CPU is between \<open>bpf_spin_lock\<close> and \<open>bpf_spin_unlock\<close>.\<close>

fun in_section :: "lock_pc \<Rightarrow> bool" where
  "in_section (Locked ts) = True"
| "in_section (Unlocking go ts) = True"
| "in_section _ = False"

fun pc_ts :: "lock_pc \<Rightarrow> i64 option" where
  "pc_ts (Testing ts) = Some ts"
| "pc_ts (Waiting ts) = Some ts"
| "pc_ts (Locked ts) = Some ts"
| "pc_ts (Unlocking go ts) = Some ts"
| "pc_ts _ = None"

text \<open>Successive stamps, the latest first, are more than an interval apart.\<close>

fun spaced :: "i64 list \<Rightarrow> bool" where
  "spaced (t' # t # ts) = (sint t' > sint t + sint invl_ns \<and> spaced (t # ts))"
| "spaced _ = True"

text \<open>
  The clock: \<open>bpf_ktime_get_ns\<close> counts nanoseconds since boot, so a reading is positive and,
  for the next 146 years, below \<open>2 ^ 62\<close>; no reading is within the first interval.
\<close>

definition clock_ok :: "i64 set \<Rightarrow> bool" where
  "clock_ok clock = (\<forall>ts\<in>clock. sint invl_ns < sint ts \<and> sint ts < 2 ^ 62)"

definition lock_inv :: "i64 set \<Rightarrow> lock_state \<Rightarrow> bool" where
  "lock_inv clock s \<longleftrightarrow>
     (\<forall>c. in_section (cpus s c) \<longleftrightarrow> lts_lock s = Some c) \<and>
     (\<forall>c ts. pc_ts (cpus s c) = Some ts \<longrightarrow> ts \<in> clock) \<and>
     (stamps s = [] \<longrightarrow> lts_timestamp s = 0) \<and>
     (\<forall>t ts. stamps s = t # ts \<longrightarrow> lts_timestamp s = t) \<and>
     set (stamps s) \<subseteq> clock \<and> spaced (stamps s)"

section \<open>Counting one flow on several CPUs\<close>

text \<open>
  CPUs that count packets of the same source address.  \<open>Hit\<close> is a CPU whose lookup returned
  the entry (it will do \<open>lock_xadd\<close>), \<open>Miss\<close> one whose lookup returned null (it will insert
  \<open>cur = 1\<close> with \<open>BPF_ANY\<close>).  Each CPU counts one packet.
\<close>

datatype flow_pc = Start | Hit | Miss | Done

record flow_state =
  entry :: "i32 option"
  pcs :: "flow_pc list"

inductive flow_race_step :: "flow_state \<Rightarrow> flow_state \<Rightarrow> bool" where
  hit: "c < length (pcs s) \<Longrightarrow> pcs s ! c = Start \<Longrightarrow> entry s \<noteq> None \<Longrightarrow>
     flow_race_step s (s\<lparr>pcs := (pcs s)[c := Hit]\<rparr>)"
| miss: "c < length (pcs s) \<Longrightarrow> pcs s ! c = Start \<Longrightarrow> entry s = None \<Longrightarrow>
     flow_race_step s (s\<lparr>pcs := (pcs s)[c := Miss]\<rparr>)"
| xadd: "c < length (pcs s) \<Longrightarrow> pcs s ! c = Hit \<Longrightarrow> entry s = Some n \<Longrightarrow>
     flow_race_step s (s\<lparr>entry := Some (n + 1), pcs := (pcs s)[c := Done]\<rparr>)"
| insert: "c < length (pcs s) \<Longrightarrow> pcs s ! c = Miss \<Longrightarrow>
     flow_race_step s (s\<lparr>entry := Some 1, pcs := (pcs s)[c := Done]\<rparr>)"

inductive flow_race :: "flow_state \<Rightarrow> flow_state \<Rightarrow> bool" where
  start: "flow_race s s"
| more: "flow_race s s' \<Longrightarrow> flow_race_step s' s'' \<Longrightarrow> flow_race s s''"

definition flow_start :: "i32 option \<Rightarrow> nat \<Rightarrow> flow_state" where
  "flow_start v n = \<lparr>entry = v, pcs = replicate n Start\<rparr>"

definition done_count :: "flow_state \<Rightarrow> nat" where
  "done_count s = length (filter (\<lambda>p. p = Done) (pcs s))"

text \<open>What holds throughout: \<open>v\<close> is the entry at the start and \<open>n\<close> the number of CPUs.\<close>

definition flow_inv :: "i32 option \<Rightarrow> nat \<Rightarrow> flow_state \<Rightarrow> bool" where
  "flow_inv v n s \<longleftrightarrow>
     length (pcs s) = n \<and> (Hit \<in> set (pcs s) \<longrightarrow> entry s \<noteq> None) \<and>
     (case v of
        Some k \<Rightarrow> entry s = Some (k + of_nat (done_count s)) \<and> Miss \<notin> set (pcs s)
      | None \<Rightarrow> (done_count s = 0 \<and> entry s = None) \<or>
                (\<exists>k. 1 \<le> k \<and> k \<le> done_count s \<and> entry s = Some (of_nat k)))"

section \<open>The lock\<close>

inductive_cases lock_stepE: "lock_step clock s s'"

inductive_simps lock_step_iff: "lock_step clock s s'"

lemma clock_no_wrap: "sint t \<ge> 0 \<Longrightarrow> sint t < 2 ^ 62 \<Longrightarrow> sint (t + invl_ns) = sint t + sint invl_ns"
  by (simp add: invl_ns_def sint_word_ariths signed_take_bit_int_eq_self)

lemma lock_inv_init: "lock_inv clock lock_init"
  by (simp add: lock_inv_def lock_init_def)

lemma spaced_Cons:
  "spaced ts \<Longrightarrow> (\<And>u us. ts = u # us \<Longrightarrow> sint t > sint u + sint invl_ns) \<Longrightarrow> spaced (t # ts)"
  by (cases ts) auto

lemma lock_inv_sectionD: "lock_inv clock s \<Longrightarrow> in_section (cpus s c) \<Longrightarrow> lts_lock s = Some c"
  by (simp add: lock_inv_def)

lemma lock_inv_tsD: "lock_inv clock s \<Longrightarrow> pc_ts (cpus s c) = Some ts \<Longrightarrow> ts \<in> clock"
  unfolding lock_inv_def by blast

lemma lock_inv_stampD: "lock_inv clock s \<Longrightarrow> stamps s = u # us \<Longrightarrow> lts_timestamp s = u \<and> u \<in> clock"
  by (auto simp: lock_inv_def)

text \<open>A CPU moves, and takes or gives back the lock as it enters or leaves the section.\<close>

lemma lock_inv_move:
  assumes "lock_inv clock s" "\<And>ts. pc_ts p = Some ts \<Longrightarrow> ts \<in> clock"
    and "lts_lock s = None \<or> lts_lock s = Some c" "l = (if in_section p then Some c else None)"
  shows "lock_inv clock (s\<lparr>lts_lock := l, cpus := (cpus s)(c := p)\<rparr>)"
proof -
  have "in_section (((cpus s)(c := p)) d) \<longleftrightarrow> l = Some d" for d
    using assms(1,3,4) by (auto simp: lock_inv_def)
  moreover have "ts \<in> clock" if "pc_ts (((cpus s)(c := p)) d) = Some ts" for d ts
    using that assms(2) lock_inv_tsD [OF assms(1)] by (auto split: if_splits)
  ultimately show ?thesis using assms(1) by (simp add: lock_inv_def)
qed

lemma lock_inv_pc:
  assumes "lock_inv clock s" "\<And>ts. pc_ts p = Some ts \<Longrightarrow> ts \<in> clock"
    and "in_section p = in_section (cpus s c)"
  shows "lock_inv clock (s\<lparr>cpus := (cpus s)(c := p)\<rparr>)"
proof -
  have "in_section (((cpus s)(c := p)) d) \<longleftrightarrow> lts_lock s = Some d" for d
    using assms(1,3) by (auto simp: lock_inv_def)
  moreover have "ts \<in> clock" if "pc_ts (((cpus s)(c := p)) d) = Some ts" for d ts
    using that assms(2) lock_inv_tsD [OF assms(1)] by (auto split: if_splits)
  ultimately show ?thesis using assms(1) by (simp add: lock_inv_def)
qed

lemma lock_inv_stamp:
  assumes "lock_inv clock s" "cpus s c = Locked ts"
    and "\<And>u us. stamps s = u # us \<Longrightarrow> sint ts > sint u + sint invl_ns"
  shows "lock_inv clock (s\<lparr>lts_timestamp := ts, stamps := ts # stamps s, cpus := (cpus s)(c := Unlocking go ts)\<rparr>)"
proof -
  have "spaced (ts # stamps s)" using assms(1,3) by (intro spaced_Cons) (auto simp: lock_inv_def)
  moreover have ts: "ts \<in> clock" using assms(1,2) lock_inv_tsD [of clock s c] by simp
  moreover have "lock_inv clock (s\<lparr>cpus := (cpus s)(c := Unlocking go ts)\<rparr>)"
    using assms(1,2) ts by (intro lock_inv_pc) simp_all
  ultimately show ?thesis by (simp add: lock_inv_def)
qed

lemma lock_inv_step:
  assumes ok: "clock_ok clock" and inv: "lock_inv clock s" and "lock_step clock s s'"
  shows "lock_inv clock s'"
  using assms(3)
proof cases
  case (first c ts)
  have "stamps s = []"
  proof (rule ccontr)
    assume "stamps s \<noteq> []"
    then obtain u us where "stamps s = u # us" by (auto simp: neq_Nil_conv)
    then have "0 \<in> clock" using lock_inv_stampD [OF inv] first(3) by auto
    then show False using ok by (auto simp: clock_ok_def invl_ns_def)
  qed
  then show ?thesis using lock_inv_stamp [OF inv first(2)] first(1) by simp
next
  case (still_late c ts)
  have "sint ts > sint u + sint invl_ns" if "stamps s = u # us" for u us
  proof -
    have u: "lts_timestamp s = u" "u \<in> clock" using lock_inv_stampD [OF inv that] by auto
    moreover have "0 \<le> sint u" "sint u < 2 ^ 62" using ok u(2) by (auto simp: clock_ok_def invl_ns_def)
    ultimately show ?thesis using still_late(4) clock_no_wrap [of u] by simp
  qed
  then show ?thesis using lock_inv_stamp [OF inv still_late(2)] still_late(1) by simp
next
  case (spin_unlock c go ts)
  then have "lts_lock s = Some c" using inv by (simp add: lock_inv_sectionD)
  then show ?thesis unfolding spin_unlock(1) using inv by (intro lock_inv_move) (auto split: if_splits)
next
  case (spin_lock c ts)
  then show ?thesis unfolding spin_lock(1) using inv lock_inv_tsD [OF inv, of c]
    by (intro lock_inv_move) simp_all
next
  case (test_late c ts)
  then show ?thesis unfolding test_late(1) using inv lock_inv_tsD [OF inv, of c] by (intro lock_inv_pc) simp_all
next
  case (too_late c ts)
  then show ?thesis unfolding too_late(1) using inv lock_inv_tsD [OF inv, of c] by (intro lock_inv_pc) simp_all
qed (use inv in \<open>simp, auto intro: lock_inv_pc\<close>)+

lemma lock_inv_reach: "lock_reach clock s \<Longrightarrow> clock_ok clock \<Longrightarrow> lock_inv clock s"
  by (induction rule: lock_reach.induct) (blast intro: lock_inv_init lock_inv_step)+

lemma pc_moves:
  assumes "cpus s c \<noteq> Outside" "\<And>ts. cpus s c = Waiting ts \<Longrightarrow> lts_lock s = None"
  shows "\<exists>s'. lock_step clock s s' \<and> cpus s' c \<noteq> cpus s c"
proof (cases "cpus s c")
  case (Testing ts)
  then show ?thesis
    using lock_step.test_late [of s c ts clock] lock_step.test_early [of s c ts clock] by fastforce
next
  case (Waiting ts)
  then show ?thesis using lock_step.spin_lock [of s c ts clock] assms(2) by fastforce
next
  case (Locked ts)
  then show ?thesis
    using lock_step.first [of s c ts clock] lock_step.still_late [of s c ts clock]
      lock_step.too_late [of s c ts clock]
    by (cases "lts_timestamp s = 0"; cases "sint ts > sint (lts_timestamp s + invl_ns)") fastforce+
next
  case (Unlocking go ts)
  then show ?thesis using lock_step.spin_unlock [of s c go ts clock] by (cases go) fastforce+
next
  case Closing
  then show ?thesis using lock_step.closed [of s c clock] by fastforce
qed (use assms(1) in simp)

lemma lock_inv_progress:
  assumes "lock_inv clock s" "cpus s c \<noteq> Outside"
  shows "\<exists>s' d. lock_step clock s s' \<and> (d = c \<or> lts_lock s = Some d) \<and> cpus s' d \<noteq> cpus s d"
proof (cases "lts_lock s")
  case None
  then show ?thesis using pc_moves [OF assms(2), of clock] by blast
next
  case (Some d)
  then have "in_section (cpus s d)" using assms(1) by (simp add: lock_inv_def)
  then have "\<exists>s'. lock_step clock s s' \<and> cpus s' d \<noteq> cpus s d" by (intro pc_moves) auto
  then show ?thesis using Some by blast
qed

section \<open>Counting\<close>

inductive_cases flow_race_stepE: "flow_race_step s s'"

lemma length_filter_update:
  "i < length xs \<Longrightarrow>
   length (filter P (xs[i := y])) + (if P (xs ! i) then 1 else 0) = length (filter P xs) + (if P y then 1 else 0)"
proof (induction xs arbitrary: i)
  case (Cons x xs)
  then show ?case by (cases i) auto
qed simp

lemma done_count_update:
  assumes "c < length (pcs s)" "pcs s ! c \<noteq> Done"
  shows "done_count (s\<lparr>pcs := (pcs s)[c := p]\<rparr>) = done_count s + (if p = Done then 1 else 0)"
  using assms length_filter_update [of c "pcs s" "\<lambda>p. p = Done" p] by (simp add: done_count_def)

lemma done_count_entry [simp]: "done_count (s\<lparr>entry := e\<rparr>) = done_count s"
  by (simp add: done_count_def)

lemma flow_inv_start: "flow_inv v n (flow_start v n)"
  by (simp add: flow_inv_def flow_start_def done_count_def split: option.split)

lemma flow_inv_step:
  assumes inv: "flow_inv v n s" and "flow_race_step s s'"
  shows "flow_inv v n s'"
  using assms(2)
proof cases
  case (hit c)
  then show ?thesis using inv done_count_update [of c s Hit] set_update_subset_insert [of "pcs s" c Hit]
    by (auto simp: flow_inv_def split: option.splits)
next
  case (miss c)
  then show ?thesis using inv done_count_update [of c s Miss] set_update_subset_insert [of "pcs s" c Miss]
    by (auto simp: flow_inv_def split: option.splits)
next
  case (xadd c k)
  then have "done_count s' = done_count s + 1" using done_count_update [of c s Done] by (simp add: done_count_def)
  then show ?thesis using inv xadd set_update_subset_insert [of "pcs s" c Done]
    by (auto simp: flow_inv_def split: option.splits intro: exI [of _ "Suc _"])
next
  case (insert c)
  then have "done_count s' = done_count s + 1" using done_count_update [of c s Done] by (simp add: done_count_def)
  then show ?thesis using inv insert nth_mem [of c "pcs s"] set_update_subset_insert [of "pcs s" c Done]
    by (auto simp: flow_inv_def split: option.splits intro: exI [of _ 1])
qed

lemma flow_inv_race: "flow_race s s' \<Longrightarrow> flow_inv v n s \<Longrightarrow> flow_inv v n s'"
  by (induction rule: flow_race.induct) (auto intro: flow_inv_step)

lemma stuck_done:
  assumes "flow_inv v n s" "\<nexists>s'. flow_race_step s s'" "c < n"
  shows "pcs s ! c = Done"
proof (cases "pcs s ! c")
  case Start
  then show ?thesis using assms flow_race_step.hit [of c s] flow_race_step.miss [of c s]
    by (cases "entry s") (auto simp: flow_inv_def)
next
  case Hit
  then have "entry s \<noteq> None" using assms(1,3) nth_mem [of c "pcs s"] by (auto simp: flow_inv_def)
  then show ?thesis using assms flow_race_step.xadd [of c s] Hit by (auto simp: flow_inv_def)
next
  case Miss
  then show ?thesis using assms flow_race_step.insert [of c s] by (auto simp: flow_inv_def)
qed simp

lemma all_done: "length (pcs s) = n \<Longrightarrow> (\<And>c. c < n \<Longrightarrow> pcs s ! c = Done) \<Longrightarrow> done_count s = n"
  by (simp add: done_count_def all_set_conv_all_nth filter_id_conv)

section \<open>Properties\<close>



text \<open>
  C4: the lock cannot block the packet path.  In every reachable state in which some CPU is
  inside the code, that CPU or the holder of the lock has a step that moves it.
\<close>

theorem interval_lock_progress:
  assumes "lock_reach clock s" "clock_ok clock" "cpus s c \<noteq> Outside"
  shows "\<exists>s' d. lock_step clock s s' \<and> (d = c \<or> lts_lock s = Some d) \<and> cpus s' d \<noteq> cpus s d"
  using lock_inv_progress [OF lock_inv_reach [OF assms(1,2)] assms(3)] .

theorem interval_lock_progress_witness:
  "\<exists>s' d. lock_step {5000000000} (lock_init\<lparr>cpus := (cpus lock_init)(3 := Testing 5000000000)\<rparr>) s' \<and>
     (d = 3 \<or> lts_lock (lock_init\<lparr>cpus := (cpus lock_init)(3 := Testing 5000000000)\<rparr>) = Some d) \<and>
     cpus s' d \<noteq> cpus (lock_init\<lparr>cpus := (cpus lock_init)(3 := Testing 5000000000)\<rparr>) d"
proof (rule interval_lock_progress)
  show "lock_reach {5000000000} (lock_init\<lparr>cpus := (cpus lock_init)(3 := Testing 5000000000)\<rparr>)"
    by (rule lock_reach.step [OF lock_reach.init], rule lock_step.arrive) (simp_all add: lock_init_def)
qed (simp_all add: clock_ok_def invl_ns_def)

text \<open>
  Counting a flow on several CPUs.  When \<open>n\<close> CPUs count packets of one source and none can
  take another step, every CPU is done.  If the flow had an entry, all \<open>n\<close> packets were added
  to it; if it had none, the entry holds at least 1 and at most \<open>n\<close>, because an insertion with
  \<open>BPF_ANY\<close> overwrites what other CPUs have counted since the lookup.
\<close>

theorem flow_race_result:
  assumes "flow_race (flow_start v n) s" "\<nexists>s'. flow_race_step s s'"
  shows "done_count s = n \<and>
         (case v of
            Some k \<Rightarrow> entry s = Some (k + of_nat n)
          | None \<Rightarrow> (n = 0 \<and> entry s = None) \<or> (\<exists>k. 1 \<le> k \<and> k \<le> n \<and> entry s = Some (of_nat k)))"
proof -
  have inv: "flow_inv v n s" using flow_inv_race [OF assms(1) flow_inv_start] .
  then have "done_count s = n" using stuck_done [OF inv assms(2)] by (intro all_done) (auto simp: flow_inv_def)
  then show ?thesis using inv by (auto simp: flow_inv_def split: option.splits)
qed

theorem flow_race_result_witness:
  "flow_race (flow_start (Some 7) 1) \<lparr>entry = Some 8, pcs = [Done]\<rparr> \<and>
   done_count \<lparr>entry = Some 8, pcs = [Done]\<rparr> = 1"
proof -
  have "flow_race_step (flow_start (Some 7) 1) \<lparr>entry = Some 7, pcs = [Hit]\<rparr>"
    using flow_race_step.hit [of 0 "flow_start (Some 7) 1"] by (simp add: flow_start_def)
  moreover have "flow_race_step \<lparr>entry = Some 7, pcs = [Hit]\<rparr> \<lparr>entry = Some 8, pcs = [Done]\<rparr>"
    using flow_race_step.xadd [of 0 "\<lparr>entry = Some 7, pcs = [Hit]\<rparr>" 7] by simp
  ultimately have r: "flow_race (flow_start (Some 7) 1) \<lparr>entry = Some 8, pcs = [Done]\<rparr>"
    by (blast intro: flow_race.intros)
  have "\<nexists>s'. flow_race_step \<lparr>entry = Some 8, pcs = [Done]\<rparr> s'"
    by (auto elim: flow_race_stepE)
  from r flow_race_result [OF r this] show ?thesis by blast
qed

text \<open>
  a lost packet.  Two CPUs that see the first two packets of a flow at the same time can
  both finish with the flow's counter at 1: both look the address up before either inserts.
\<close>

theorem first_packets_lost:
  "\<exists>s. flow_race (flow_start None 2) s \<and> done_count s = 2 \<and> entry s = Some 1"
proof -
  have s0: "flow_start None 2 = \<lparr>entry = None, pcs = [Start, Start]\<rparr>"
    by (simp add: flow_start_def numeral_2_eq_2)
  have s1: "flow_race_step \<lparr>entry = None, pcs = [Start, Start]\<rparr> \<lparr>entry = None, pcs = [Miss, Start]\<rparr>"
    using flow_race_step.miss [of 0 "\<lparr>entry = None, pcs = [Start, Start]\<rparr>"] by simp
  have s2: "flow_race_step \<lparr>entry = None, pcs = [Miss, Start]\<rparr> \<lparr>entry = None, pcs = [Miss, Miss]\<rparr>"
    using flow_race_step.miss [of 1 "\<lparr>entry = None, pcs = [Miss, Start]\<rparr>"] by simp
  have s3: "flow_race_step \<lparr>entry = None, pcs = [Miss, Miss]\<rparr> \<lparr>entry = Some 1, pcs = [Done, Miss]\<rparr>"
    using flow_race_step.insert [of 0 "\<lparr>entry = None, pcs = [Miss, Miss]\<rparr>"] by simp
  have s4: "flow_race_step \<lparr>entry = Some 1, pcs = [Done, Miss]\<rparr> \<lparr>entry = Some 1, pcs = [Done, Done]\<rparr>"
    using flow_race_step.insert [of 1 "\<lparr>entry = Some 1, pcs = [Done, Miss]\<rparr>"] by simp
  have "flow_race (flow_start None 2) \<lparr>entry = Some 1, pcs = [Done, Done]\<rparr>"
    unfolding s0 by (rule flow_race.more [OF flow_race.more [OF flow_race.more [OF flow_race.more [OF flow_race.start s1] s2] s3] s4])
  then show ?thesis by (intro exI [of _ "\<lparr>entry = Some 1, pcs = [Done, Done]\<rparr>"]) (simp add: done_count_def)
qed

end
