(* ===== verification/Xdp_Filter_User.thy ===== *)
theory Xdp_Filter_User
  imports Bpf_Map Packet
begin

text \<open>
  The XDP program of the user-space variant, \<open>user+ebpf/main/xdp_prog_kern.c\<close>: it counts
  packets and enforces the blacklist that the loader fills; the entropies are computed in
  user space.  Its structs differ from those of the in-kernel detector (the entropy is a
  plain 32-bit number, there is no threshold), so they carry names of their own.
\<close>

section \<open>Maps\<close>

record logger_value_user =
  uv_prev :: i32
  uv_cur :: i32
  uv_entropy :: i32

record data_value_user =
  ud_prev_interval_pkt :: i32
  ud_cur_interval_pkt :: i32

record 'm user_state =
  u_logger :: 'm
  u_blacklist :: "lpm_v4_key \<Rightarrow> u32 option"
  u_data :: "data_value_user option"
  u_trace :: "string list"

type_synonym 'm user_logger_ops = "('m, u32, logger_value_user) map_ops"

definition u_trace_printk :: "string \<Rightarrow> 'm user_state \<Rightarrow> 'm user_state" where
  "u_trace_printk msg st = st\<lparr>u_trace := u_trace st @ [msg]\<rparr>"

section \<open>The program\<close>

definition new_logger_value_user :: logger_value_user where
  "new_logger_value_user = \<lparr>uv_prev = 0, uv_cur = 1, uv_entropy = 0\<rparr>"

definition count_flow_user :: "'m user_logger_ops \<Rightarrow> u32 \<Rightarrow> 'm \<Rightarrow> 'm" where
  "count_flow_user ops saddr lg =
     (case map_lookup ops lg saddr of
        Some value \<Rightarrow> map_store ops lg saddr (value\<lparr>uv_cur := uv_cur value + 1\<rparr>)
      | None \<Rightarrow> snd (map_update ops lg saddr new_logger_value_user BPF_ANY))"

definition xdp_filter_func_user ::
    "'m user_logger_ops \<Rightarrow> xdp_action \<Rightarrow> packet \<Rightarrow> 'm user_state \<Rightarrow> xdp_action \<times> 'm user_state" where
  "xdp_filter_func_user ops redirect pkt st =
     (let drop_flag = (0 :: i32)
      in if 14 > length pkt
         then (XDP_ABORTED, u_trace_printk ''not ethernet frame, dropped'' st)
         else if load16 pkt 12 = bpf_htons ETH_P_IP then
           (if 14 + 20 > length pkt then (XDP_ABORTED, u_trace_printk ''dropped'' st)
            else
              (let saddr = load32 pkt (14 + 12);
                   drop_flag =
                     (case u_blacklist st \<lparr>prefixlen = 32, address = saddr\<rparr> of
                        Some rule \<Rightarrow> 1 | None \<Rightarrow> drop_flag)
               in case u_data st of
                    None \<Rightarrow> (XDP_ABORTED, u_trace_printk ''Error at reading data, the first one'' st)
                  | Some tmp \<Rightarrow>
                      (let st = st\<lparr>u_data := Some (tmp\<lparr>ud_cur_interval_pkt := ud_cur_interval_pkt tmp + 1\<rparr>)\<rparr>;
                           st = st\<lparr>u_logger := count_flow_user ops saddr (u_logger st)\<rparr>
                       in if drop_flag = 1 then (XDP_DROP, st) else (redirect, st))))
         else if drop_flag = 1 then (XDP_DROP, st) else (redirect, st))"

fun xdp_run_user ::
    "'m user_logger_ops \<Rightarrow> (xdp_action \<times> packet) list \<Rightarrow> 'm user_state \<Rightarrow> xdp_action list \<times> 'm user_state" where
  "xdp_run_user ops [] st = ([], st)"
| "xdp_run_user ops ((redirect, pkt) # evs) st =
     (let (act, st) = xdp_filter_func_user ops redirect pkt st;
          (acts, st) = xdp_run_user ops evs st
      in (act # acts, st))"

section \<open>Specification\<close>

text \<open>The source address of an IPv4 frame that is long enough for its headers.\<close>

datatype user_class = U_short string | U_other | U_flow u32

definition user_classify :: "packet \<Rightarrow> user_class" where
  "user_classify pkt =
     (if length pkt < 14 then U_short ''not ethernet frame, dropped''
      else if load16 pkt 12 \<noteq> bpf_htons ETH_P_IP then U_other
      else if length pkt < 34 then U_short ''dropped''
      else U_flow (load32 pkt 26))"

definition listed :: "(lpm_v4_key \<Rightarrow> u32 option) \<Rightarrow> u32 \<Rightarrow> bool" where
  "listed bl a = (bl \<lparr>prefixlen = 32, address = a\<rparr> \<noteq> None)"

definition user_insert_ok :: "'m user_logger_ops \<Rightarrow> packet \<Rightarrow> 'm user_state \<Rightarrow> bool" where
  "user_insert_ok ops pkt st =
     (case user_classify pkt of
        U_flow a \<Rightarrow> map_lookup ops (u_logger st) a \<noteq> None \<or>
                    fst (map_update ops (u_logger st) a new_logger_value_user BPF_ANY) = 0
      | _ \<Rightarrow> True)"

fun user_inserts_ok :: "'m user_logger_ops \<Rightarrow> (xdp_action \<times> packet) list \<Rightarrow> 'm user_state \<Rightarrow> bool" where
  "user_inserts_ok ops [] st = True"
| "user_inserts_ok ops ((redirect, pkt) # evs) st =
     (user_insert_ok ops pkt st \<and> user_inserts_ok ops evs (snd (xdp_filter_func_user ops redirect pkt st)))"

text \<open>How many packets of a run carry a source address.\<close>

fun flow_packets :: "(xdp_action \<times> packet) list \<Rightarrow> nat" where
  "flow_packets [] = 0"
| "flow_packets ((redirect, pkt) # evs) =
     (case user_classify pkt of U_flow a \<Rightarrow> Suc (flow_packets evs) | _ \<Rightarrow> flow_packets evs)"

text \<open>A run of one frame from 10.0.0.1, and a state with a rule against that source.\<close>

definition sample_run_user :: "(xdp_action \<times> packet) list" where
  "sample_run_user =
     [(XDP_REDIRECT, [0,0,0,0,0,0,0,0,0,0,0,0,8,0,0x45,0,0,20,0,0,0,0,64,17,0,0,10,0,0,1,10,0,0,2])]"

definition sample_state_user :: "(u32 \<times> logger_value_user) list user_state" where
  "sample_state_user =
     \<lparr>u_logger = [], u_blacklist = (\<lambda>_. Some 0),
      u_data = Some \<lparr>ud_prev_interval_pkt = 0, ud_cur_interval_pkt = 5\<rparr>, u_trace = []\<rparr>"

section \<open>One packet\<close>

lemma xdp_filter_func_user_eq:
  "xdp_filter_func_user ops redirect pkt st =
     (case user_classify pkt of
        U_short msg \<Rightarrow> (XDP_ABORTED, u_trace_printk msg st)
      | U_other \<Rightarrow> (redirect, st)
      | U_flow a \<Rightarrow>
          (case u_data st of
             None \<Rightarrow> (XDP_ABORTED, u_trace_printk ''Error at reading data, the first one'' st)
           | Some d \<Rightarrow>
               (if listed (u_blacklist st) a then XDP_DROP else redirect,
                st\<lparr>u_data := Some (d\<lparr>ud_cur_interval_pkt := ud_cur_interval_pkt d + 1\<rparr>),
                   u_logger := count_flow_user ops a (u_logger st)\<rparr>)))"
  by (auto simp: xdp_filter_func_user_def user_classify_def listed_def Let_def split: option.splits)

locale user_logger_map = bpf_map ops for ops :: "'m user_logger_ops"

sublocale user_logger_map \<subseteq> user_flow: flow_counter ops "count_flow_user ops" uv_cur
    "\<lambda>v. v\<lparr>uv_cur := uv_cur v + 1\<rparr>" new_logger_value_user
  by unfold_locales (simp_all add: count_flow_user_def new_logger_value_user_def)

context user_logger_map
begin

lemma user_step_total:
  assumes "user_insert_ok ops pkt st" "u_data st = Some d"
  shows "\<exists>d'. u_data (snd (xdp_filter_func_user ops redirect pkt st)) = Some d' \<and>
      ud_cur_interval_pkt d' = ud_cur_interval_pkt d + of_nat (flow_packets [(redirect, pkt)])"
    and "user_flow.flow_total (u_logger (snd (xdp_filter_func_user ops redirect pkt st))) =
      user_flow.flow_total (u_logger st) + of_nat (flow_packets [(redirect, pkt)])"
proof -
  have "user_flow.flow_total (count_flow_user ops a (u_logger st)) = user_flow.flow_total (u_logger st) + 1"
    if "user_classify pkt = U_flow a" for a
    using that assms(1) by (intro user_flow.count_total) (auto simp: user_insert_ok_def)
  then show "user_flow.flow_total (u_logger (snd (xdp_filter_func_user ops redirect pkt st))) =
      user_flow.flow_total (u_logger st) + of_nat (flow_packets [(redirect, pkt)])"
    using assms(2) by (simp add: xdp_filter_func_user_eq u_trace_printk_def split: user_class.split)
qed (use assms(2) in \<open>simp add: xdp_filter_func_user_eq u_trace_printk_def split: user_class.split\<close>)

lemma user_run_total:
  assumes "user_inserts_ok ops evs st" "u_data st = Some d"
  shows "(\<exists>d'. u_data (snd (xdp_run_user ops evs st)) = Some d' \<and>
      ud_cur_interval_pkt d' = ud_cur_interval_pkt d + of_nat (flow_packets evs)) \<and>
    user_flow.flow_total (u_logger (snd (xdp_run_user ops evs st))) =
      user_flow.flow_total (u_logger st) + of_nat (flow_packets evs)"
  using assms
proof (induction evs arbitrary: st d)
  case (Cons ev evs)
  obtain redirect pkt where ev: "ev = (redirect, pkt)" by force
  obtain act st1 where f: "xdp_filter_func_user ops redirect pkt st = (act, st1)" by force
  have prems: "user_insert_ok ops pkt st" "user_inserts_ok ops evs st1" "u_data st = Some d"
    using Cons.prems ev f by simp_all
  obtain d1 where d1: "u_data st1 = Some d1"
      "ud_cur_interval_pkt d1 = ud_cur_interval_pkt d + of_nat (flow_packets [(redirect, pkt)])"
    using user_step_total(1) [OF prems(1,3), of redirect] f by auto
  have "of_nat (flow_packets (ev # evs)) = (of_nat (flow_packets [(redirect, pkt)]) + of_nat (flow_packets evs) :: i32)"
    using ev by (simp split: user_class.split)
  moreover have "snd (xdp_run_user ops (ev # evs) st) = snd (xdp_run_user ops evs st1)"
    using ev f by (simp split: prod.split)
  ultimately show ?case
    using Cons.IH [OF prems(2) d1(1)] d1(2) user_step_total(2) [OF prems(1,3), of redirect] f
    by (auto simp: add.assoc)
qed simp

end

interpretation alist_user_logger: user_logger_map "alist_ops max_entries"
  by unfold_locales

section \<open>Properties\<close>

text \<open>
  Conservation of packets in the user-space variant.  Over any run in which every new flow
  finds room in the flow table, the interval counter and the sum of the flows' counters grow by
  the same number, the number of IPv4 frames in the run, whether their sources are listed or
  not.
\<close>

theorem user_packets_conserved:
  assumes "user_logger_map ops" "user_inserts_ok ops evs st" "u_data st = Some d"
  defines "st' \<equiv> snd (xdp_run_user ops evs st)"
  shows "(\<exists>d'. u_data st' = Some d' \<and>
            ud_cur_interval_pkt d' = ud_cur_interval_pkt d + of_nat (flow_packets evs)) \<and>
         (\<Sum>k\<leftarrow>map_keys ops (u_logger st'). uv_cur (the (map_lookup ops (u_logger st') k))) =
         (\<Sum>k\<leftarrow>map_keys ops (u_logger st). uv_cur (the (map_lookup ops (u_logger st) k))) + of_nat (flow_packets evs)"
proof -
  have laws: "bpf_map ops" using assms(1) by (simp add: user_logger_map_def)
  show ?thesis
    unfolding bpf_map.sum_keys [OF laws] st'_def
    using user_logger_map.user_run_total [OF assms(1-3)] by (simp add: entry_sum_def)
qed

theorem user_packets_conserved_witness:
  "(\<exists>d'. u_data (snd (xdp_run_user (alist_ops 2) sample_run_user sample_state_user)) = Some d' \<and>
         ud_cur_interval_pkt d' = 5 + of_nat (flow_packets sample_run_user))"
proof -
  have "user_inserts_ok (alist_ops 2) sample_run_user sample_state_user"
    by (simp add: sample_run_user_def user_insert_ok_def sample_state_user_def alist_ops_def BPF_ANY_def
        BPF_EXIST_def split: user_class.split)
  then show ?thesis
    using user_packets_conserved [OF alist_user_logger.user_logger_map_axioms, of 2 sample_run_user sample_state_user
        "\<lparr>ud_prev_interval_pkt = 0, ud_cur_interval_pkt = 5\<rparr>"]
    by (simp add: sample_state_user_def)
qed

end
