(* ===== verification/Loader_Ent.thy ===== *)
theory Loader_Ent
  imports Xdp_Filter_User Complex_Main
begin

text \<open>
  The detector in user space: \<open>calculate_ent\<close> and the loop of \<open>main\<close> in
  \<open>user+ebpf/main/xdp_loader.c\<close>.  Once a second the loader walks the flow table that the XDP
  program fills, computes an entropy per flow, adapts its threshold factor \<open>beta\<close> and starts a
  new interval by aging the counters.

  Doubles are an argument: a record of the operations that the code uses, over an arbitrary
  type, so what is proved holds for IEEE arithmetic with its infinities and NaNs.  Memory from
  \<open>malloc\<close> that is read before it is written is an argument too (\<open>heap_junk\<close>).  In
  \<open>calculate_ent\<close>, and so in a turn of the loop, no packet arrives between the system calls of one
  call; \<open>calculate_ent_racing\<close> is the same code with packets in between.
\<close>

section \<open>State\<close>

record 'd dbl_ops =
  d_lit :: "rat \<Rightarrow> 'd"
  d_of_int :: "i32 \<Rightarrow> 'd"
  d_add :: "'d \<Rightarrow> 'd \<Rightarrow> 'd"
  d_sub :: "'d \<Rightarrow> 'd \<Rightarrow> 'd"
  d_mul :: "'d \<Rightarrow> 'd \<Rightarrow> 'd"
  d_div :: "'d \<Rightarrow> 'd \<Rightarrow> 'd"
  d_log2 :: "'d \<Rightarrow> 'd"
  d_fabs :: "'d \<Rightarrow> 'd"
  d_sqrt :: "'d \<Rightarrow> 'd"
  d_gt :: "'d \<Rightarrow> 'd \<Rightarrow> bool"

record 'd heap_junk =
  junk_data :: data_value_user
  junk_value :: logger_value_user
  junk_ent :: "nat \<Rightarrow> 'd"
  junk_ip :: "nat \<Rightarrow> u32"

text \<open>The lines that the loader prints, with their arguments.\<close>

datatype loader_out = Flow_line u32 i32 i32 | Total_line nat i32 | Roundup_line i32

text \<open>
  The maps, which are shared with the XDP program, the static variables \<open>beta\<close>, \<open>holder\<close> and
  \<open>cur_packet_count\<close>, the local \<open>count\<close> of \<open>main\<close>, and what was printed.
\<close>

record 'm loader =
  kern :: "'m user_state"
  beta :: i32
  holder :: i32
  cur_packet_count :: i32
  tick_count :: i32
  out :: "loader_out list"

section \<open>One interval\<close>

definition dbl_entropy :: "'d dbl_ops \<Rightarrow> data_value_user \<Rightarrow> logger_value_user \<Rightarrow> 'd" where
  "dbl_entropy D data_value logger_value =
     (let prev = d_of_int D (uv_prev logger_value); cur = d_of_int D (uv_cur logger_value);
          first = d_mul D (d_of_int D (- 1))
                    (d_log2 D (d_div D prev (d_of_int D (ud_prev_interval_pkt data_value))))
      in if sint (uv_prev logger_value) \<ge> sint (uv_cur logger_value)
         then d_add D first (d_fabs D (d_log2 D (d_div D cur prev)))
         else d_add D first (d_fabs D (d_log2 D (d_div D prev cur))))"

text \<open>The variables of the walk over the flow table (lines 223 to 250).\<close>

record 'd walk =
  w_i :: nat
  w_next :: u32
  w_value :: logger_value_user
  w_ent :: "nat \<Rightarrow> 'd"
  w_ip :: "nat \<Rightarrow> u32"
  w_all :: 'd
  w_out :: "loader_out list"

definition walk_body ::
    "'d dbl_ops \<Rightarrow> 'm user_logger_ops \<Rightarrow> 'm \<Rightarrow> data_value_user \<Rightarrow> 'd walk \<Rightarrow> 'd walk" where
  "walk_body D ops lg data_value w =
     (let logger_value = (case map_lookup ops lg (w_next w) of Some v \<Rightarrow> v | None \<Rightarrow> w_value w);
          entropy = dbl_entropy D data_value logger_value
      in w\<lparr>w_value := logger_value,
           w_out := w_out w @ [Flow_line (w_next w) (uv_prev logger_value) (uv_cur logger_value)],
           w_ent := (w_ent w)(w_i w := entropy),
           w_ip := (w_ip w)(w_i w := w_next w),
           w_all := d_add D (w_all w) entropy\<rparr>)"

fun ent_walk ::
    "'d dbl_ops \<Rightarrow> 'm user_logger_ops \<Rightarrow> 'm \<Rightarrow> data_value_user \<Rightarrow> nat \<Rightarrow> 'd walk \<Rightarrow> 'd walk" where
  "ent_walk D ops lg data_value 0 w = w"
| "ent_walk D ops lg data_value (Suc n) w =
     (let w = walk_body D ops lg data_value w
      in case map_get_next_key ops lg (w_next w) of
           None \<Rightarrow> w
         | Some k \<Rightarrow> ent_walk D ops lg data_value n (w\<lparr>w_next := k, w_i := w_i w + 1\<rparr>))"

definition beta_step :: "'d dbl_ops \<Rightarrow> (nat \<Rightarrow> 'd) \<Rightarrow> (nat \<Rightarrow> u32) \<Rightarrow> 'd \<Rightarrow> 'd \<Rightarrow> nat \<Rightarrow> i32 \<Rightarrow> i32" where
  "beta_step D ent ip avg std k b =
     (let d = d_fabs D (d_sub D (ent k) avg);
          b = (if d_gt D (ent k) (d_mul D (d_lit D (3 / 2)) avg) then b + 1
               else if d_gt D (d_mul D (d_lit D (1 / 2)) avg) (ent k) then b - 1
               else b)
      in if d_gt D d (d_mul D (d_of_int D b) std)
         then (let filter_key = \<lparr>prefixlen = 32, address = ip k\<rparr> in b)
         else b)"

definition age_step ::
    "'m user_logger_ops \<Rightarrow> (nat \<Rightarrow> u32) \<Rightarrow> nat \<Rightarrow> 'm \<times> logger_value_user \<Rightarrow> 'm \<times> logger_value_user" where
  "age_step ops ip k s =
     (let (lg, logger_value) = s; key = ip k;
          logger_value = (case map_lookup ops lg key of Some v \<Rightarrow> v | None \<Rightarrow> logger_value)
      in if uv_cur logger_value = 0 then (snd (map_delete ops lg key), logger_value)
         else (let logger_value = logger_value\<lparr>uv_prev := uv_cur logger_value, uv_cur := 0\<rparr>
               in (snd (map_update ops lg key logger_value BPF_ANY), logger_value)))"

definition MAX_FLOWS :: nat where "MAX_FLOWS = 100000"

text \<open>
  The three stages of \<open>calculate_ent\<close>, between which packets can arrive: the reads (lines 210
  to 250), the totals and the reset of the interval counter (292 to 297), and the adaptation of
  \<open>beta\<close> with the aging of the flows (299 to 345).
\<close>

definition ent_reads :: "'d dbl_ops \<Rightarrow> 'm user_logger_ops \<Rightarrow> 'd heap_junk \<Rightarrow> 'm loader \<Rightarrow> data_value_user \<times> 'd walk" where
  "ent_reads D ops junk st =
     (let lg = u_logger (kern st);
          data_value = (case u_data (kern st) of Some d \<Rightarrow> d | None \<Rightarrow> junk_data junk);
          w = \<lparr>w_i = 1, w_next = 0, w_value = junk_value junk, w_ent = junk_ent junk, w_ip = junk_ip junk,
               w_all = d_lit D 0, w_out = []\<rparr>;
          w = (case map_get_next_key ops lg 0 of
                 Some next_key \<Rightarrow> ent_walk D ops lg data_value MAX_FLOWS (w\<lparr>w_i := 0, w_next := next_key\<rparr>)
               | None \<Rightarrow> w)
      in (data_value, w))"

definition ent_reset :: "data_value_user \<Rightarrow> 'd walk \<Rightarrow> 'm loader \<Rightarrow> 'm loader" where
  "ent_reset data_value w st =
     (let st = st\<lparr>out := out st @ w_out w @ [Total_line (w_i w) (ud_cur_interval_pkt data_value)],
                  holder := holder st + ud_cur_interval_pkt data_value\<rparr>;
          data_value = data_value\<lparr>ud_prev_interval_pkt := ud_cur_interval_pkt data_value\<rparr>;
          data_value = data_value\<lparr>ud_cur_interval_pkt := 0\<rparr>
      in st\<lparr>kern := (kern st)\<lparr>u_data := map_option (\<lambda>_. data_value) (u_data (kern st))\<rparr>\<rparr>)"

definition ent_close :: "'d dbl_ops \<Rightarrow> 'm user_logger_ops \<Rightarrow> 'd walk \<Rightarrow> 'm loader \<Rightarrow> 'm loader" where
  "ent_close D ops w st =
     (let i = w_i w;
          avg = d_div D (w_all w) (d_of_int D (of_nat i));
          deviation = fold (\<lambda>k dev. d_add D dev (d_sub D (w_ent w k) avg)) [0..<i] (d_lit D 0);
          variance = d_mul D deviation deviation;
          std = d_sqrt D variance;
          st = st\<lparr>beta := fold (beta_step D (w_ent w) (w_ip w) avg std) [0..<i] (beta st)\<rparr>;
          (lg, _) = fold (age_step ops (w_ip w)) [0..<i + 1] (u_logger (kern st), w_value w)
      in st\<lparr>kern := (kern st)\<lparr>u_logger := lg\<rparr>\<rparr>)"

text \<open>One call, with no packet between its stages.\<close>

definition calculate_ent ::
    "'d dbl_ops \<Rightarrow> 'm user_logger_ops \<Rightarrow> 'd heap_junk \<Rightarrow> 'm loader \<Rightarrow> 'm loader" where
  "calculate_ent D ops junk st =
     (let (data_value, w) = ent_reads D ops junk st;
          st = ent_reset data_value w st
      in ent_close D ops w st)"

text \<open>
  The same call when the packets \<open>ps1\<close> arrive between the reads and the reset, and the packets
  \<open>ps2\<close> between the reset and the aging.  The loader takes no lock and the XDP program runs
  meanwhile.
\<close>

definition packets_arrive :: "'m user_logger_ops \<Rightarrow> (xdp_action \<times> packet) list \<Rightarrow> 'm loader \<Rightarrow> 'm loader" where
  "packets_arrive ops ps st = st\<lparr>kern := snd (xdp_run_user ops ps (kern st))\<rparr>"

definition calculate_ent_racing ::
    "'d dbl_ops \<Rightarrow> 'm user_logger_ops \<Rightarrow> 'd heap_junk \<Rightarrow> (xdp_action \<times> packet) list \<Rightarrow> (xdp_action \<times> packet) list \<Rightarrow>
     'm loader \<Rightarrow> 'm loader" where
  "calculate_ent_racing D ops junk ps1 ps2 st =
     (let (data_value, w) = ent_reads D ops junk st;
          st = ent_reset data_value w (packets_arrive ops ps1 st)
      in ent_close D ops w (packets_arrive ops ps2 st))"

text \<open>One turn of the loop of \<open>main\<close> (lines 787 to 806), after its \<open>sleep\<close>.\<close>

definition main_tick ::
    "'d dbl_ops \<Rightarrow> 'm user_logger_ops \<Rightarrow> 'd heap_junk \<Rightarrow> 'm loader \<Rightarrow> 'm loader" where
  "main_tick D ops junk st =
     (let st = calculate_ent D ops junk st;
          st = (if sint (holder st) > 0 then st\<lparr>tick_count := tick_count st + 1\<rparr> else st)
      in if tick_count st = 11
         then st\<lparr>out := out st @ [Roundup_line (holder st)], tick_count := 0, cur_packet_count := 0, holder := 0\<rparr>
         else st)"

section \<open>The whole system\<close>

text \<open>Packets arrive, and now and then the loader wakes up.  A turn of the loader is one step.\<close>

datatype 'd system_event = Packet xdp_action packet | Tick "'d heap_junk"

fun system_step :: "'d dbl_ops \<Rightarrow> 'm user_logger_ops \<Rightarrow> 'd system_event \<Rightarrow> 'm loader \<Rightarrow> 'm loader" where
  "system_step D ops (Packet redirect pkt) st =
     st\<lparr>kern := snd (xdp_filter_func_user ops redirect pkt (kern st))\<rparr>"
| "system_step D ops (Tick junk) st = main_tick D ops junk st"

fun system_run :: "'d dbl_ops \<Rightarrow> 'm user_logger_ops \<Rightarrow> 'd system_event list \<Rightarrow> 'm loader \<Rightarrow> 'm loader" where
  "system_run D ops [] st = st"
| "system_run D ops (e # es) st = system_run D ops es (system_step D ops e st)"

section \<open>Specification\<close>

text \<open>What a new interval makes of one flow: idle flows go, the others start counting afresh.\<close>

definition aged_user :: "logger_value_user option \<Rightarrow> logger_value_user option" where
  "aged_user v =
     (case v of
        None \<Rightarrow> None
      | Some v \<Rightarrow> if uv_cur v = 0 then None else Some (v\<lparr>uv_prev := uv_cur v, uv_cur := 0\<rparr>))"

text \<open>The table can be walked: it holds a flow, not too many, and none from address 0.\<close>

definition walkable :: "'m user_logger_ops \<Rightarrow> 'm \<Rightarrow> bool" where
  "walkable ops lg \<longleftrightarrow>
     map_keys ops lg \<noteq> [] \<and> length (map_keys ops lg) \<le> MAX_FLOWS \<and> map_lookup ops lg 0 = None"

fun event_ok :: "'m user_logger_ops \<Rightarrow> 'd system_event \<Rightarrow> 'm loader \<Rightarrow> bool" where
  "event_ok ops (Packet redirect pkt) st = user_insert_ok ops pkt (kern st)"
| "event_ok ops (Tick junk) st = walkable ops (u_logger (kern st))"

fun events_ok :: "'d dbl_ops \<Rightarrow> 'm user_logger_ops \<Rightarrow> 'd system_event list \<Rightarrow> 'm loader \<Rightarrow> bool" where
  "events_ok D ops [] st = True"
| "events_ok D ops (e # es) st = (event_ok ops e st \<and> events_ok D ops es (system_step D ops e st))"

definition conserved_user :: "'m user_logger_ops \<Rightarrow> 'm user_state \<Rightarrow> bool" where
  "conserved_user ops us =
     (case u_data us of
        None \<Rightarrow> False
      | Some d \<Rightarrow> ud_cur_interval_pkt d =
          (\<Sum>k\<leftarrow>map_keys ops (u_logger us). uv_cur (the (map_lookup ops (u_logger us) k))))"

text \<open>
  The new factor \<open>beta\<close> from the entropies of all flows.  The loop bound of the source is the
  index of the last flow: the sum runs over all flows, but is divided by one less than their
  number, and the decisions leave the last flow out.  The deviation has no effect, because the
  update of the blacklist that would use it is commented out.
\<close>

definition beta_of :: "'d dbl_ops \<Rightarrow> 'd list \<Rightarrow> i32 \<Rightarrow> i32" where
  "beta_of D es b =
     (let avg = d_div D (foldl (d_add D) (d_lit D 0) es) (d_of_int D (of_nat (length es - 1)))
      in foldl (\<lambda>b e. if d_gt D e (d_mul D (d_lit D (3 / 2)) avg) then b + 1
                      else if d_gt D (d_mul D (d_lit D (1 / 2)) avg) e then b - 1
                      else b) b (butlast es))"

text \<open>A small instance: integer arithmetic for doubles, two flows, zeroed memory.\<close>

definition int_dbl :: "int dbl_ops" where
  "int_dbl =
     \<lparr>d_lit = floor, d_of_int = sint, d_add = (+), d_sub = (-), d_mul = (*), d_div = (div),
      d_log2 = (\<lambda>x. x), d_fabs = abs, d_sqrt = (\<lambda>x. x), d_gt = (>)\<rparr>"

definition sample_junk :: "int heap_junk" where
  "sample_junk =
     \<lparr>junk_data = \<lparr>ud_prev_interval_pkt = 0, ud_cur_interval_pkt = 0\<rparr>,
      junk_value = \<lparr>uv_prev = 0, uv_cur = 0, uv_entropy = 0\<rparr>, junk_ent = (\<lambda>_. 0), junk_ip = (\<lambda>_. 0)\<rparr>"

definition sample_loader :: "(u32 \<times> logger_value_user) list loader" where
  "sample_loader =
     \<lparr>kern = \<lparr>u_logger = [(10, \<lparr>uv_prev = 1, uv_cur = 3, uv_entropy = 0\<rparr>), (20, \<lparr>uv_prev = 2, uv_cur = 0, uv_entropy = 0\<rparr>)],
        u_blacklist = (\<lambda>_. None), u_data = Some \<lparr>ud_prev_interval_pkt = 1, ud_cur_interval_pkt = 3\<rparr>, u_trace = []\<rparr>,
      beta = 1, holder = 0, cur_packet_count = 0, tick_count = 0, out = []\<rparr>"

section \<open>The walk\<close>

lemmas calculate_ent_stages = calculate_ent_def ent_reads_def ent_reset_def ent_close_def

lemma fold_butlast_nth:
  assumes "\<And>k a. k < length es - 1 \<Longrightarrow> f k a = g (es ! k) a"
  shows "fold f [0..<length es - 1] a = fold g (butlast es) a"
proof -
  have "butlast es = map ((!) es) [0..<length es - 1]"
    by (rule nth_equalityI) (simp_all add: nth_butlast)
  then have "fold g (butlast es) a = fold (\<lambda>k. g (es ! k)) [0..<length es - 1] a"
    by (simp add: fold_map comp_def)
  also have "\<dots> = fold f [0..<length es - 1] a"
    by (rule fold_cong) (simp_all add: fun_eq_iff assms)
  finally show ?thesis by simp
qed

locale user_hash_map = bpf_hash_map ops for ops :: "'m user_logger_ops"

sublocale user_hash_map \<subseteq> user_logger_map
  by unfold_locales

context user_hash_map
begin

abbreviation flow_of :: "'m \<Rightarrow> nat \<Rightarrow> logger_value_user" where
  "flow_of lg k \<equiv> the (map_lookup ops lg (map_keys ops lg ! k))"

lemma ent_walk_result:
  fixes D :: "'d dbl_ops" and w :: "'d walk" and d :: data_value_user and lg :: 'm and n :: nat
  assumes "w_i w < length (map_keys ops lg)" "w_next w = map_keys ops lg ! w_i w"
    and "length (map_keys ops lg) - w_i w \<le> n"
  defines "w' \<equiv> ent_walk D ops lg d n w"
  shows "w_i w' = length (map_keys ops lg) - 1 \<and>
    (\<forall>k. w_ip w' k = (if w_i w \<le> k \<and> k < length (map_keys ops lg) then map_keys ops lg ! k else w_ip w k)) \<and>
    (\<forall>k. w_ent w' k = (if w_i w \<le> k \<and> k < length (map_keys ops lg) then dbl_entropy D d (flow_of lg k) else w_ent w k)) \<and>
    w_all w' = fold (\<lambda>k a. d_add D a (dbl_entropy D d (flow_of lg k))) [w_i w..<length (map_keys ops lg)] (w_all w)"
  using assms(1-3) unfolding w'_def
proof (induction n arbitrary: w)
  case (Suc n)
  let ?ks = "map_keys ops lg" and ?b = "walk_body D ops lg d w"
  obtain v where v: "map_lookup ops lg (?ks ! w_i w) = Some v" using lookup_nth_key [OF Suc.prems(1)] by blast
  have b: "w_i ?b = w_i w" "w_next ?b = ?ks ! w_i w" "w_ip ?b = (w_ip w)(w_i w := ?ks ! w_i w)"
      "w_ent ?b = (w_ent w)(w_i w := dbl_entropy D d (flow_of lg (w_i w)))"
      "w_all ?b = d_add D (w_all w) (dbl_entropy D d (flow_of lg (w_i w)))"
    using Suc.prems(2) v by (simp_all add: walk_body_def Let_def)
  show ?case
  proof (cases "Suc (w_i w) < length ?ks")
    case False
    then have "ent_walk D ops lg d (Suc n) w = ?b"
      using next_key_nth [OF Suc.prems(1)] b(2) by (simp add: Let_def)
    moreover have "[w_i w..<length ?ks] = [w_i w]"
      using False Suc.prems(1) by (metis Suc_lessI upt_conv_Cons upt_rec)
    ultimately show ?thesis using False Suc.prems(1) b by auto
  next
    case True
    let ?w1 = "?b\<lparr>w_next := ?ks ! Suc (w_i w), w_i := w_i w + 1\<rparr>"
    have e: "ent_walk D ops lg d (Suc n) w = ent_walk D ops lg d n ?w1"
      using next_key_nth [OF Suc.prems(1)] b(1,2) True by (simp add: Let_def)
    have IH: "w_i (ent_walk D ops lg d n ?w1) = length ?ks - 1"
      "\<And>k. w_ip (ent_walk D ops lg d n ?w1) k = (if w_i ?w1 \<le> k \<and> k < length ?ks then ?ks ! k else w_ip ?w1 k)"
      "\<And>k. w_ent (ent_walk D ops lg d n ?w1) k = (if w_i ?w1 \<le> k \<and> k < length ?ks then dbl_entropy D d (flow_of lg k) else w_ent ?w1 k)"
      "w_all (ent_walk D ops lg d n ?w1) = fold (\<lambda>k a. d_add D a (dbl_entropy D d (flow_of lg k))) [w_i ?w1..<length ?ks] (w_all ?w1)"
      using Suc.IH [of ?w1] Suc.prems(3) True by simp_all
    show ?thesis unfolding e using Suc.prems(1) IH b by (auto simp: upt_conv_Cons less_Suc_eq_le)
  qed
qed simp

lemma age_step_lookup:
  assumes "map_lookup ops lg (ip k) \<noteq> None"
  shows "map_lookup ops (fst (age_step ops ip k (lg, v))) =
    (map_lookup ops lg)(ip k := aged_user (map_lookup ops lg (ip k)))"
  using assms lookup_delete [OF assms] lookup_update [OF update_present [OF assms]]
  by (auto simp: age_step_def aged_user_def Let_def)

lemma age_fold_lookup:
  assumes "n \<le> length (map_keys ops lg)" "\<And>k. k < n \<Longrightarrow> ip k = map_keys ops lg ! k"
  shows "map_lookup ops (fst (fold (age_step ops ip) [0..<n] (lg, v))) j =
    (if j \<in> set (take n (map_keys ops lg)) then aged_user (map_lookup ops lg j) else map_lookup ops lg j)"
  using assms
proof (induction n arbitrary: j)
  case (Suc n)
  let ?ks = "map_keys ops lg"
  obtain lg1 v1 where s: "fold (age_step ops ip) [0..<n] (lg, v) = (lg1, v1)" by force
  have IH: "map_lookup ops lg1 j =
      (if j \<in> set (take n ?ks) then aged_user (map_lookup ops lg j) else map_lookup ops lg j)" for j
    using Suc.IH [of j] Suc.prems s by simp
  have n: "n < length ?ks" "ip n = ?ks ! n" using Suc.prems by simp_all
  then have new: "?ks ! n \<notin> set (take n ?ks)"
    using distinct_keys [of lg] by (auto simp: in_set_conv_nth nth_eq_iff_index_eq)
  have "map_lookup ops lg1 (ip n) = map_lookup ops lg (?ks ! n)" using IH new n(2) by simp
  moreover have "map_lookup ops lg (?ks ! n) \<noteq> None" using lookup_nth_key [OF n(1)] .
  ultimately have "map_lookup ops (fst (age_step ops ip n (lg1, v1))) =
      (map_lookup ops lg1)(?ks ! n := aged_user (map_lookup ops lg (?ks ! n)))"
    using age_step_lookup [of lg1 ip n v1] n(2) by simp
  then show ?case using IH [of j] n new s by (simp add: take_Suc_conv_app_nth)
qed simp

text \<open>The variables of \<open>calculate_ent\<close> after the walk of a table that can be walked.\<close>

definition walked :: "'d dbl_ops \<Rightarrow> 'd heap_junk \<Rightarrow> data_value_user \<Rightarrow> 'm \<Rightarrow> 'd walk" where
  "walked D junk d lg = ent_walk D ops lg d MAX_FLOWS
     \<lparr>w_i = 0, w_next = map_keys ops lg ! 0, w_value = junk_value junk, w_ent = junk_ent junk,
      w_ip = junk_ip junk, w_all = d_lit D 0, w_out = []\<rparr>"

lemma walked_result:
  assumes "walkable ops lg"
  shows "w_i (walked D junk d lg) = length (map_keys ops lg) - 1"
    and "k < length (map_keys ops lg) \<Longrightarrow> w_ip (walked D junk d lg) k = map_keys ops lg ! k"
    and "k < length (map_keys ops lg) \<Longrightarrow> w_ent (walked D junk d lg) k = dbl_entropy D d (flow_of lg k)"
    and "w_all (walked D junk d lg) =
      fold (\<lambda>k a. d_add D a (dbl_entropy D d (flow_of lg k))) [0..<length (map_keys ops lg)] (d_lit D 0)"
  using ent_walk_result [of "\<lparr>w_i = 0, w_next = map_keys ops lg ! 0, w_value = junk_value junk, w_ent = junk_ent junk,
      w_ip = junk_ip junk, w_all = d_lit D 0, w_out = []\<rparr>" lg MAX_FLOWS D d] assms
  by (simp_all add: walked_def walkable_def)

lemma calculate_ent_walked:
  assumes "walkable ops (u_logger (kern st))" "u_data (kern st) = Some d"
  shows "u_logger (kern (calculate_ent D ops junk st)) =
      fst (fold (age_step ops (w_ip (walked D junk d (u_logger (kern st)))))
             [0..<length (map_keys ops (u_logger (kern st)))]
             (u_logger (kern st), w_value (walked D junk d (u_logger (kern st)))))"
    and "u_data (kern (calculate_ent D ops junk st)) =
      Some \<lparr>ud_prev_interval_pkt = ud_cur_interval_pkt d, ud_cur_interval_pkt = 0\<rparr>"
    and "holder (calculate_ent D ops junk st) = holder st + ud_cur_interval_pkt d"
proof -
  have i: "Suc (w_i (walked D junk d (u_logger (kern st)))) = length (map_keys ops (u_logger (kern st)))"
    using walked_result(1) [OF assms(1), of D junk d] assms(1) by (simp add: walkable_def)
  have first: "map_get_next_key ops (u_logger (kern st)) 0 = Some (map_keys ops (u_logger (kern st)) ! 0)"
    using next_key_first [of "u_logger (kern st)" 0] assms(1) by (simp add: walkable_def)
  show "u_logger (kern (calculate_ent D ops junk st)) =
      fst (fold (age_step ops (w_ip (walked D junk d (u_logger (kern st)))))
             [0..<length (map_keys ops (u_logger (kern st)))]
             (u_logger (kern st), w_value (walked D junk d (u_logger (kern st)))))"
    using assms(2) by (simp add: calculate_ent_stages Let_def first i del: upt_Suc flip: walked_def split: prod.split)
  show "u_data (kern (calculate_ent D ops junk st)) =
      Some \<lparr>ud_prev_interval_pkt = ud_cur_interval_pkt d, ud_cur_interval_pkt = 0\<rparr>"
    and "holder (calculate_ent D ops junk st) = holder st + ud_cur_interval_pkt d"
    using assms(2) by (simp_all add: calculate_ent_stages Let_def split: prod.split)
qed

lemma calculate_ent_lookup:
  assumes "walkable ops (u_logger (kern st))" "u_data (kern st) = Some d"
  shows "map_lookup ops (u_logger (kern (calculate_ent D ops junk st))) j =
    aged_user (map_lookup ops (u_logger (kern st)) j)"
proof -
  let ?lg = "u_logger (kern st)"
  have "map_lookup ops ?lg j = None" if "j \<notin> set (map_keys ops ?lg)"
    using that keys_lookup [of ?lg] by auto
  then show ?thesis
    using age_fold_lookup [of "length (map_keys ops ?lg)" ?lg "w_ip (walked D junk d ?lg)"
        "w_value (walked D junk d ?lg)" j] walked_result(2) [OF assms(1), of _ D junk d]
    unfolding calculate_ent_walked(1) [OF assms] by (auto simp: aged_user_def)
qed

lemma calculate_ent_beta:
  assumes "walkable ops (u_logger (kern st))" "u_data (kern st) = Some d"
  shows "beta (calculate_ent D ops junk st) =
    beta_of D (map (\<lambda>k. dbl_entropy D d (the (map_lookup ops (u_logger (kern st)) k)))
                 (map_keys ops (u_logger (kern st)))) (beta st)"
proof -
  let ?lg = "u_logger (kern st)" and ?w = "walked D junk d (u_logger (kern st))"
  let ?ks = "map_keys ops ?lg"
  define es where "es = map (\<lambda>k. dbl_entropy D d (the (map_lookup ops ?lg k))) ?ks"
  have n: "w_i ?w = length es - 1" using walked_result(1) [OF assms(1)] by (simp add: es_def)
  have all: "w_all ?w = foldl (d_add D) (d_lit D 0) es"
    unfolding walked_result(4) [OF assms(1)] foldl_conv_fold es_def
    by (subst (2) map_nth [symmetric, of ?ks]) (simp add: fold_map comp_def)
  have ent: "w_ent ?w k = es ! k" if "k < length es - 1" for k
    using walked_result(3) [OF assms(1), of k D junk d] that by (simp add: es_def)
  have bet: "fold (beta_step D (w_ent ?w) (w_ip ?w) avg std) [0..<length es - 1] b =
      foldl (\<lambda>b e. if d_gt D e (d_mul D (d_lit D (3 / 2)) avg) then b + 1
                   else if d_gt D (d_mul D (d_lit D (1 / 2)) avg) e then b - 1 else b) b (butlast es)" for avg std b
    unfolding foldl_conv_fold by (rule fold_butlast_nth) (simp add: ent beta_step_def Let_def)
  have first: "map_get_next_key ops ?lg 0 = Some (?ks ! 0)"
    using next_key_first [of ?lg 0] assms(1) by (simp add: walkable_def)
  show ?thesis
    using assms(2) by (simp add: calculate_ent_stages Let_def first n all bet [unfolded One_nat_def] beta_of_def
        flip: walked_def es_def split: prod.split)
qed

lemma calculate_ent_empty:
  assumes "map_keys ops (u_logger (kern st)) = []" "uv_cur (junk_value junk) \<noteq> 0" "junk_ip junk 1 \<noteq> junk_ip junk 0"
  defines "v \<equiv> (junk_value junk)\<lparr>uv_prev := uv_cur (junk_value junk), uv_cur := 0\<rparr>"
  assumes "fst (map_update ops (u_logger (kern st)) (junk_ip junk 0) v BPF_ANY) = 0"
  shows "map_lookup ops (u_logger (kern (calculate_ent D ops junk st))) = [junk_ip junk 0 \<mapsto> v]"
proof -
  let ?lg = "u_logger (kern st)" and ?ip = "junk_ip junk"
  have empty: "map_lookup ops ?lg = (\<lambda>_. None)" using keys_lookup [of ?lg] assms(1) by (auto simp: dom_def)
  define lg1 where "lg1 = snd (map_update ops ?lg (?ip 0) v BPF_ANY)"
  have lg1: "map_lookup ops lg1 = [?ip 0 \<mapsto> v]"
    using lookup_update [OF assms(5)] empty by (simp add: lg1_def)
  have "map_get_next_key ops ?lg 0 = None" using next_key_first [of ?lg 0] empty assms(1) by simp
  moreover have "age_step ops ?ip 0 (?lg, junk_value junk) = (lg1, v)"
    using assms(2) by (simp add: age_step_def empty lg1_def v_def Let_def)
  moreover have "age_step ops ?ip 1 (lg1, v) = (snd (map_delete ops lg1 (?ip 1)), v)"
    using assms(3) by (simp add: age_step_def lg1 v_def Let_def)
  moreover have "snd (map_delete ops lg1 (?ip 1)) = lg1" using delete_error [of lg1 "?ip 1"] lg1 assms(3) by simp
  ultimately show ?thesis using lg1 by (simp add: calculate_ent_stages Let_def)
qed

lemma conserved_user_iff:
  "conserved_user ops us \<longleftrightarrow>
   (\<exists>d. u_data us = Some d \<and> ud_cur_interval_pkt d = user_flow.flow_total (u_logger us))"
  by (auto simp: conserved_user_def sum_keys entry_sum_def split: option.split)

lemma conserved_user_packet:
  assumes "conserved_user ops us" "user_insert_ok ops pkt us"
  shows "conserved_user ops (snd (xdp_filter_func_user ops redirect pkt us))"
proof -
  obtain d where d: "u_data us = Some d" "ud_cur_interval_pkt d = user_flow.flow_total (u_logger us)"
    using assms(1) by (auto simp: conserved_user_iff)
  show ?thesis using user_step_total [OF assms(2) d(1), of redirect] d(2) by (auto simp: conserved_user_iff)
qed

lemma conserved_user_tick:
  assumes "conserved_user ops (kern st)" "walkable ops (u_logger (kern st))"
  shows "conserved_user ops (kern (main_tick D ops junk st))"
proof -
  obtain d where d: "u_data (kern st) = Some d" using assms(1) by (auto simp: conserved_user_iff)
  have "user_flow.flow_total (u_logger (kern (calculate_ent D ops junk st))) = 0"
    by (rule entry_sum_zero) (auto simp: calculate_ent_lookup [OF assms(2) d] aged_user_def split: option.splits if_splits)
  moreover have "kern (main_tick D ops junk st) = kern (calculate_ent D ops junk st)"
    by (simp add: main_tick_def Let_def)
  ultimately show ?thesis using calculate_ent_walked(2) [OF assms(2) d, of D junk] by (simp add: conserved_user_iff)
qed

lemma conserved_user_run:
  "conserved_user ops (kern st) \<Longrightarrow> events_ok D ops es st \<Longrightarrow> conserved_user ops (kern (system_run D ops es st))"
proof (induction es arbitrary: st)
  case (Cons e es)
  then show ?case by (cases e) (auto simp: conserved_user_packet conserved_user_tick)
qed simp

lemma filter_keeps_flow:
  assumes "map_lookup ops (u_logger us) j \<noteq> None"
  shows "map_lookup ops (u_logger (snd (xdp_filter_func_user ops redirect pkt us))) j \<noteq> None"
proof -
  have "map_lookup ops (count_flow_user ops a (u_logger us)) j \<noteq> None" for a
  proof (cases "map_lookup ops (u_logger us) a = None \<and> fst (map_update ops (u_logger us) a new_logger_value_user BPF_ANY) \<noteq> 0")
    case True
    then show ?thesis using user_flow.count_full assms by simp
  next
    case False
    then have "map_lookup ops (count_flow_user ops a (u_logger us)) =
        (map_lookup ops (u_logger us))(a \<mapsto> (case map_lookup ops (u_logger us) a of None \<Rightarrow> new_logger_value_user
           | Some v \<Rightarrow> v\<lparr>uv_cur := uv_cur v + 1\<rparr>))"
      by (intro user_flow.count_lookup) simp
    then show ?thesis using assms by simp
  qed
  then show ?thesis using assms
    by (auto simp: xdp_filter_func_user_eq u_trace_printk_def split: user_class.split option.split)
qed

lemma run_keeps_flow:
  "map_lookup ops (u_logger us) j \<noteq> None \<Longrightarrow> map_lookup ops (u_logger (snd (xdp_run_user ops ps us))) j \<noteq> None"
proof (induction ps arbitrary: us)
  case (Cons p ps)
  obtain redirect pkt where p: "p = (redirect, pkt)" by force
  show ?case using Cons.IH [OF filter_keeps_flow [OF Cons.prems, of redirect pkt]] by (simp add: p split_beta Let_def)
qed simp

lemma run_counts:
  "u_data us = Some d \<Longrightarrow>
   u_data (snd (xdp_run_user ops ps us)) = Some (d\<lparr>ud_cur_interval_pkt := ud_cur_interval_pkt d + of_nat (flow_packets ps)\<rparr>)"
proof (induction ps arbitrary: us d)
  case (Cons p ps)
  obtain redirect pkt where p: "p = (redirect, pkt)" by force
  have "u_data (snd (xdp_filter_func_user ops redirect pkt us)) =
      Some (d\<lparr>ud_cur_interval_pkt := ud_cur_interval_pkt d + of_nat (flow_packets [p])\<rparr>)"
    using Cons.prems by (simp add: p xdp_filter_func_user_eq u_trace_printk_def split: user_class.split)
  from Cons.IH [OF this] show ?case by (simp add: p split_beta Let_def ac_simps split: user_class.split)
qed simp

text \<open>Aging flows that are all in the table, whatever its order is by now.\<close>

lemma age_fold_present:
  assumes "distinct (map ip [0..<n])" "\<And>k. k < n \<Longrightarrow> map_lookup ops lg (ip k) \<noteq> None"
  shows "map_lookup ops (fst (fold (age_step ops ip) [0..<n] (lg, v))) j =
    (if j \<in> ip ` {0..<n} then aged_user (map_lookup ops lg j) else map_lookup ops lg j)"
  using assms
proof (induction n arbitrary: j)
  case (Suc n)
  obtain lg1 v1 where s: "fold (age_step ops ip) [0..<n] (lg, v) = (lg1, v1)" by force
  have IH: "map_lookup ops lg1 j = (if j \<in> ip ` {0..<n} then aged_user (map_lookup ops lg j) else map_lookup ops lg j)" for j
    using Suc.IH [of j] Suc.prems s by simp
  have new: "ip n \<notin> ip ` {0..<n}" using Suc.prems(1) by auto
  have "map_lookup ops lg1 (ip n) = map_lookup ops lg (ip n)" using IH new by simp
  then have "map_lookup ops (fst (age_step ops ip n (lg1, v1))) = (map_lookup ops lg1)(ip n := aged_user (map_lookup ops lg (ip n)))"
    using age_step_lookup [of lg1 ip n v1] Suc.prems(2) [of n] by simp
  then show ?case using IH [of j] new s by (auto simp: atLeastLessThanSuc)
qed simp

lemma racing_result:
  fixes D :: "'d dbl_ops" and st :: "'m loader" and junk :: "'d heap_junk" and ps1 ps2 :: "(xdp_action \<times> packet) list"
  assumes "walkable ops (u_logger (kern st))" "u_data (kern st) = Some d"
  defines "st' \<equiv> calculate_ent_racing D ops junk ps1 ps2 st"
    and "us \<equiv> snd (xdp_run_user ops ps2 ((snd (xdp_run_user ops ps1 (kern st)))
                  \<lparr>u_data := Some \<lparr>ud_prev_interval_pkt = ud_cur_interval_pkt d, ud_cur_interval_pkt = 0\<rparr>\<rparr>))"
  shows "holder st' = holder st + ud_cur_interval_pkt d" "u_data (kern st') = u_data us"
    and "map_lookup ops (u_logger (kern st')) j =
      (if map_lookup ops (u_logger (kern st)) j \<noteq> None then aged_user (map_lookup ops (u_logger us) j)
       else map_lookup ops (u_logger us) j)"
proof -
  let ?lg = "u_logger (kern st)"
  let ?w = "walked D junk d ?lg" and ?ks = "map_keys ops ?lg"
  have first: "map_get_next_key ops ?lg 0 = Some (?ks ! 0)"
    using next_key_first [of ?lg 0] assms(1) by (simp add: walkable_def)
  have r: "ent_reads D ops junk st = (d, ?w)" using assms(2) first by (simp add: ent_reads_def walked_def Let_def)
  have d1: "u_data (snd (xdp_run_user ops ps1 (kern st))) = Some (d\<lparr>ud_cur_interval_pkt := ud_cur_interval_pkt d + of_nat (flow_packets ps1)\<rparr>)"
    by (rule run_counts [OF assms(2)])
  have us: "kern (packets_arrive ops ps2 (ent_reset d ?w (packets_arrive ops ps1 st))) = us"
    using d1 by (cases d) (simp add: packets_arrive_def ent_reset_def us_def Let_def)
  have st': "st' = ent_close D ops ?w (packets_arrive ops ps2 (ent_reset d ?w (packets_arrive ops ps1 st)))"
    by (simp add: st'_def calculate_ent_racing_def r Let_def)
  show "holder st' = holder st + ud_cur_interval_pkt d"
    unfolding st' by (simp add: ent_close_def packets_arrive_def ent_reset_def Let_def split: prod.split)
  show "u_data (kern st') = u_data us"
    unfolding st' using us by (simp add: ent_close_def Let_def split: prod.split)
  have i: "Suc (w_i ?w) = length ?ks" using walked_result(1) [OF assms(1), of D junk d] assms(1) by (simp add: walkable_def)
  have ip: "map (w_ip ?w) [0..<length ?ks] = ?ks"
    using walked_result(2) [OF assms(1), of _ D junk d] by (intro nth_equalityI) simp_all
  have keys: "w_ip ?w ` {0..<length ?ks} = set ?ks" using ip by (metis set_map set_upt)
  have lg: "u_logger (kern st') = fst (fold (age_step ops (w_ip ?w)) [0..<length ?ks] (u_logger us, w_value ?w))"
    unfolding st' using us by (simp add: ent_close_def Let_def i del: upt_Suc split: prod.split)
  have p: "map_lookup ops (u_logger us) (w_ip ?w k) \<noteq> None" if "k < length ?ks" for k
  proof -
    have "map_lookup ops ?lg (w_ip ?w k) \<noteq> None"
      using walked_result(2) [OF assms(1) that, of D junk d] lookup_nth_key [OF that] by simp
    then show ?thesis unfolding us_def by (intro run_keeps_flow) (simp add: run_keeps_flow)
  qed
  show "map_lookup ops (u_logger (kern st')) j =
      (if map_lookup ops ?lg j \<noteq> None then aged_user (map_lookup ops (u_logger us) j) else map_lookup ops (u_logger us) j)"
    unfolding lg using age_fold_present [of "w_ip ?w" "length ?ks" "u_logger us" "w_value ?w" j] p distinct_keys [of ?lg] keys_lookup [of ?lg]
    by (auto simp: ip keys)
qed

end

interpretation alist_user_hash: user_hash_map "alist_ops max_entries"
  by unfold_locales

section \<open>Properties\<close>

text \<open>
  C8: one interval in user space.  On a table that can be walked, whatever the doubles are and
  whatever \<open>malloc\<close> returned, \<open>calculate_ent\<close> removes exactly the flows that sent nothing, makes
  the current count of every other flow its previous count and restarts it at 0, moves the
  interval counter in the same way and adds it to \<open>holder\<close>.
\<close>

theorem user_interval_closed:
  fixes D :: "'d dbl_ops" and junk :: "'d heap_junk" and st :: "'m loader"
  assumes "user_hash_map ops" "walkable ops (u_logger (kern st))" "u_data (kern st) = Some d"
  defines "st' \<equiv> calculate_ent D ops junk st"
  shows "(\<forall>k. map_lookup ops (u_logger (kern st')) k =
            (case map_lookup ops (u_logger (kern st)) k of
               None \<Rightarrow> None
             | Some v \<Rightarrow> if uv_cur v = 0 then None else Some (v\<lparr>uv_prev := uv_cur v, uv_cur := 0\<rparr>))) \<and>
         u_data (kern st') = Some \<lparr>ud_prev_interval_pkt = ud_cur_interval_pkt d, ud_cur_interval_pkt = 0\<rparr> \<and>
         holder st' = holder st + ud_cur_interval_pkt d"
  unfolding st'_def
  using user_hash_map.calculate_ent_lookup [OF assms(1-3), of D junk]
    user_hash_map.calculate_ent_walked(2,3) [OF assms(1-3), of D junk]
  by (simp add: aged_user_def)

theorem user_interval_closed_witness:
  "map_lookup (alist_ops 5) (u_logger (kern (calculate_ent int_dbl (alist_ops 5) sample_junk sample_loader))) 20 = None \<and>
   map_lookup (alist_ops 5) (u_logger (kern (calculate_ent int_dbl (alist_ops 5) sample_junk sample_loader))) 10 =
     Some \<lparr>uv_prev = 3, uv_cur = 0, uv_entropy = 0\<rparr>"
proof -
  have "walkable (alist_ops 5) (u_logger (kern sample_loader))"
    by (simp add: walkable_def sample_loader_def alist_ops_def MAX_FLOWS_def)
  from user_interval_closed [OF alist_user_hash.user_hash_map_axioms this, of _ int_dbl sample_junk]
  show ?thesis by (simp add: sample_loader_def alist_ops_def)
qed

text \<open>
  the adaptation of \<open>beta\<close>.  The loop bound \<open>i\<close> of the source is the index of the last flow,
  one less than the number of flows: the average is the sum over all flows divided by that
  index, and \<open>beta\<close> is adapted for every flow but the last.
\<close>

theorem user_beta_omits_last_flow:
  assumes "user_hash_map ops" "walkable ops (u_logger (kern st))" "u_data (kern st) = Some d"
  shows "beta (calculate_ent D ops junk st) =
         beta_of D (map (\<lambda>k. dbl_entropy D d (the (map_lookup ops (u_logger (kern st)) k)))
                     (map_keys ops (u_logger (kern st)))) (beta st)"
  using assms by (rule user_hash_map.calculate_ent_beta)

theorem user_beta_omits_last_flow_witness:
  "beta (calculate_ent int_dbl (alist_ops 5) sample_junk sample_loader) =
   beta_of int_dbl [dbl_entropy int_dbl \<lparr>ud_prev_interval_pkt = 1, ud_cur_interval_pkt = 3\<rparr> \<lparr>uv_prev = 1, uv_cur = 3, uv_entropy = 0\<rparr>,
     dbl_entropy int_dbl \<lparr>ud_prev_interval_pkt = 1, ud_cur_interval_pkt = 3\<rparr> \<lparr>uv_prev = 2, uv_cur = 0, uv_entropy = 0\<rparr>] 1"
proof -
  have "walkable (alist_ops 5) (u_logger (kern sample_loader))"
    by (simp add: walkable_def sample_loader_def alist_ops_def MAX_FLOWS_def)
  from user_beta_omits_last_flow [OF alist_user_hash.user_hash_map_axioms this, of _ int_dbl sample_junk]
  show ?thesis by (simp add: sample_loader_def alist_ops_def)
qed

text \<open>
  C5: conservation of packets in the whole user-space variant, with the turns of the loader as
  single steps.  In any sequence of packets and whole loader turns (no packet arrives while
  \<open>calculate_ent\<close> runs), in which every new flow finds room in the table and each turn finds a
  table it can walk (not empty, at most 100000 flows, none from address 0), the interval counter
  equals the sum of the counters of all flows if it did so at the start.  Without the first
  condition it fails: \<open>racing_packets\<close> below.
\<close>

theorem user_system_conserved:
  assumes "user_hash_map ops" "conserved_user ops (kern st)" "events_ok D ops es st"
  shows "conserved_user ops (kern (system_run D ops es st))"
  using assms by (rule user_hash_map.conserved_user_run)

theorem user_system_conserved_witness:
  "conserved_user (alist_ops 5) (kern (system_run int_dbl (alist_ops 5)
     [Packet XDP_REDIRECT (snd (hd sample_run_user)), Tick sample_junk] sample_loader))"
proof (rule user_system_conserved [OF alist_user_hash.user_hash_map_axioms])
  let ?pkt = "snd (hd sample_run_user)"
  have cl: "user_classify ?pkt = U_flow 0x0100000a"
    by (simp add: sample_run_user_def user_classify_def load16_def load32_def bswap16_def ETH_P_IP_def)
  show "conserved_user (alist_ops 5) (kern sample_loader)"
    by (simp add: conserved_user_def sample_loader_def alist_ops_def)
  show "events_ok int_dbl (alist_ops 5) [Packet XDP_REDIRECT ?pkt, Tick sample_junk] sample_loader"
    using cl by (simp add: user_insert_ok_def walkable_def sample_loader_def alist_ops_def MAX_FLOWS_def xdp_filter_func_user_eq count_flow_user_def BPF_ANY_def BPF_EXIST_def)
qed

text \<open>
  Packets during a turn.  When packets arrive while \<open>calculate_ent\<close> runs, those between its reads
  and the reset of the interval counter (\<open>ps1\<close>) are in no interval total: the total added to
  \<open>holder\<close> was read before them, and the reset erases their count.  Those between the reset and
  the aging (\<open>ps2\<close>) are in the next interval's total.  The flow counters see both: a flow that
  was in the table when it was walked moves them to its previous count, a new flow keeps them.
  So the totals and the flow counters differ afterwards.
\<close>

theorem racing_packets:
  fixes D :: "'d dbl_ops" and st :: "'m loader" and junk :: "'d heap_junk" and ps1 ps2 :: "(xdp_action \<times> packet) list"
  assumes "user_hash_map ops" "walkable ops (u_logger (kern st))" "u_data (kern st) = Some d"
  defines "st' \<equiv> calculate_ent_racing D ops junk ps1 ps2 st"
    and "us \<equiv> snd (xdp_run_user ops ps2 ((snd (xdp_run_user ops ps1 (kern st)))
                  \<lparr>u_data := Some \<lparr>ud_prev_interval_pkt = ud_cur_interval_pkt d, ud_cur_interval_pkt = 0\<rparr>\<rparr>))"
  shows "holder st' = holder st + ud_cur_interval_pkt d \<and>
    u_data (kern st') = Some \<lparr>ud_prev_interval_pkt = ud_cur_interval_pkt d, ud_cur_interval_pkt = of_nat (flow_packets ps2)\<rparr> \<and>
    (\<forall>j. map_lookup ops (u_logger (kern st')) j =
       (if map_lookup ops (u_logger (kern st)) j \<noteq> None then aged_user (map_lookup ops (u_logger us) j)
        else map_lookup ops (u_logger us) j))"
  using user_hash_map.racing_result [OF assms(1-3), of D junk ps1 ps2]
    user_hash_map.run_counts [OF assms(1), of "(snd (xdp_run_user ops ps1 (kern st)))
      \<lparr>u_data := Some \<lparr>ud_prev_interval_pkt = ud_cur_interval_pkt d, ud_cur_interval_pkt = 0\<rparr>\<rparr>" _ ps2]
  by (simp add: st'_def us_def)

text \<open>A frame from 10.0.0.1 between the reads and the reset: the flow keeps it, the total does not.\<close>

theorem racing_packets_witness:
  "\<not> conserved_user (alist_ops 5) (kern (calculate_ent_racing int_dbl (alist_ops 5) sample_junk sample_run_user [] sample_loader))"
proof -
  let ?st' = "calculate_ent_racing int_dbl (alist_ops 5) sample_junk sample_run_user [] sample_loader"
  have w: "walkable (alist_ops 5) (u_logger (kern sample_loader))"
    by (simp add: walkable_def sample_loader_def alist_ops_def MAX_FLOWS_def)
  have d: "u_data (kern sample_loader) = Some \<lparr>ud_prev_interval_pkt = 1, ud_cur_interval_pkt = 3\<rparr>" by (simp add: sample_loader_def)
  note r = racing_packets [OF alist_user_hash.user_hash_map_axioms w d, of int_dbl sample_junk sample_run_user "[]"]
  have cl: "user_classify (snd (hd sample_run_user)) = U_flow 0x0100000a"
    by (simp add: sample_run_user_def user_classify_def load16_def load32_def bswap16_def ETH_P_IP_def)
  have u: "map_lookup (alist_ops 5) (u_logger (kern ?st')) =
      (\<lambda>j. if j = 10 then Some \<lparr>uv_prev = 3, uv_cur = 0, uv_entropy = 0\<rparr> else if j = 0x0100000a then Some new_logger_value_user else None)"
    using r cl by (auto simp: fun_eq_iff sample_run_user_def sample_loader_def alist_ops_def xdp_filter_func_user_eq count_flow_user_def
        BPF_ANY_def BPF_EXIST_def BPF_NOEXIST_def aged_user_def)
  have dom: "dom (\<lambda>j :: u32. if j = 10 then Some \<lparr>uv_prev = 3, uv_cur = 0, uv_entropy = 0\<rparr>
      else if j = 0x0100000a then Some new_logger_value_user else None) = {10, 0x0100000a}" by (auto split: if_splits)
  have "entry_sum uv_cur (map_lookup (alist_ops 5) (u_logger (kern ?st'))) = (1 :: i32)"
    unfolding u entry_sum_def by (simp add: dom new_logger_value_user_def)
  then show ?thesis using r by (simp add: alist_user_hash.conserved_user_iff)
qed

text \<open>
  An empty table.  When no flow is in the table, \<open>calculate_ent\<close> still runs its last loop over
  the two first elements of an array that it never wrote, with a \<open>logger_value\<close> that it never
  wrote: if that memory holds a non-zero count, a flow that no packet belongs to enters the
  table.
\<close>

theorem empty_table_gains_flow:
  assumes "user_hash_map ops" "map_keys ops (u_logger (kern st)) = []"
    and "uv_cur (junk_value junk) \<noteq> 0" "junk_ip junk 1 \<noteq> junk_ip junk 0"
    and "fst (map_update ops (u_logger (kern st)) (junk_ip junk 0)
           ((junk_value junk)\<lparr>uv_prev := uv_cur (junk_value junk), uv_cur := 0\<rparr>) BPF_ANY) = 0"
  shows "map_lookup ops (u_logger (kern (calculate_ent D ops junk st))) =
         [junk_ip junk 0 \<mapsto> (junk_value junk)\<lparr>uv_prev := uv_cur (junk_value junk), uv_cur := 0\<rparr>]"
  using assms by (rule user_hash_map.calculate_ent_empty)

theorem empty_table_gains_flow_witness:
  "map_lookup (alist_ops 5) (u_logger (kern (calculate_ent int_dbl (alist_ops 5)
     (sample_junk\<lparr>junk_value := \<lparr>uv_prev = 0, uv_cur = 9, uv_entropy = 0\<rparr>, junk_ip := of_nat\<rparr>)
     (sample_loader\<lparr>kern := (kern sample_loader)\<lparr>u_logger := []\<rparr>\<rparr>)))) =
   [0 \<mapsto> \<lparr>uv_prev = 9, uv_cur = 0, uv_entropy = 0\<rparr>]"
  using empty_table_gains_flow [OF alist_user_hash.user_hash_map_axioms, of 5
      "sample_loader\<lparr>kern := (kern sample_loader)\<lparr>u_logger := []\<rparr>\<rparr>"
      "sample_junk\<lparr>junk_value := \<lparr>uv_prev = 0, uv_cur = 9, uv_entropy = 0\<rparr>, junk_ip := of_nat\<rparr>" int_dbl]
  by (simp add: alist_ops_def BPF_ANY_def BPF_EXIST_def)

end
