(* ===== verification/Loader_Legacy.thy ===== *)
theory Loader_Legacy
  imports Loader_Ent
begin

text \<open>
  The detection functions of \<open>user+ebpf/main/xdp_loader.c\<close> that \<open>main\<close> no longer calls:
  \<open>check_trie\<close>, \<open>calculate_entropy\<close> and \<open>calculate_entropy_csv\<close>.  They read a flow table keyed by
  \<open>struct lpm_v4_key\<close> and, unlike \<open>calculate_ent\<close>, write the blacklist.  An array is a function
  from indices, its initial contents being whatever \<open>malloc\<close> returned; a loop over an index
  range is a recursion over the list of its indices.
\<close>

section \<open>Data\<close>

record 'd flow =
  ip_src :: u32
  packet_count :: u32
  entropy :: 'd

type_synonym 'd interval = "nat \<Rightarrow> 'd flow"

type_synonym 'm trie_ops = "('m, lpm_v4_key, i32) map_ops"

text \<open>\<open>abs\<close> takes an \<open>int\<close>: \<open>d_trunc\<close> is the conversion of a double to \<open>int\<close>.\<close>

record 'd dbl_ops2 = "'d dbl_ops" +
  d_log :: "'d \<Rightarrow> 'd"
  d_trunc :: "'d \<Rightarrow> i32"
  d_of_uint :: "u32 \<Rightarrow> 'd"

definition abs32 :: "i32 \<Rightarrow> i32" where
  "abs32 x = (if sint x < 0 then - x else x)"

datatype 'd legacy_out =
    Trie_line u32 i32
  | Etp_line u32 u32 u32 'd
  | Blocked_line u32
  | Failed_line u32
  | Sum_line i32
  | Fetch_error

record ('b, 'd) legacy =
  l_black :: 'b
  l_alltime :: i32
  l_cur_count :: i32
  l_beta :: i32
  l_holder :: i32
  l_out :: "'d legacy_out list"

section \<open>Draining a table\<close>

text \<open>
  The loop that reads and deletes one entry after the other, until there is no next key or
  the bound is reached.  \<open>store\<close> puts the address and the value at an index.
\<close>

fun drain ::
    "'m trie_ops \<Rightarrow> (nat \<Rightarrow> u32 \<Rightarrow> i32 \<Rightarrow> 'a \<Rightarrow> 'a) \<Rightarrow> nat \<Rightarrow> nat \<Rightarrow> lpm_v4_key \<Rightarrow> i32 \<Rightarrow> 'm \<Rightarrow> 'a \<Rightarrow> nat \<times> 'm \<times> 'a" where
  "drain ops store 0 num next val m a = (num, m, a)"
| "drain ops store (Suc n) num next val m a =
     (let val = (case map_lookup ops m next of Some v \<Rightarrow> v | None \<Rightarrow> val);
          a = store num (address next) val a;
          m = snd (map_delete ops m next)
      in case map_get_next_key ops m next of
           None \<Rightarrow> (num, m, a)
         | Some k \<Rightarrow> drain ops store n (num + 1) k val m a)"

definition check_trie :: "'m trie_ops \<Rightarrow> lpm_v4_key \<Rightarrow> 'm \<Rightarrow> 'm \<times> 'd legacy_out list" where
  "check_trie ops junk_next m =
     (let next = (case map_first_key ops m of Some k \<Rightarrow> k | None \<Rightarrow> junk_next);
          (num, m, (ip, cnt)) =
            drain ops (\<lambda>i a v (ip, cnt). (ip(i := a), cnt(i := v))) 10000 0 next 0 m (\<lambda>_. 0, \<lambda>_. 0)
      in (m, map (\<lambda>j. Trie_line (ip j) (cnt j)) [0..<num + 1]))"

section \<open>The analysis of an interval\<close>

fun sum_counts :: "'d interval \<Rightarrow> nat list \<Rightarrow> i32 \<Rightarrow> i32" where
  "sum_counts prev [] c = c"
| "sum_counts prev (k # ks) c =
     (if packet_count (prev k) \<noteq> 0 then sum_counts prev ks (c + packet_count (prev k)) else c)"

text \<open>The search for the flow in the current interval: where it stopped, and \<open>tau\<close>.\<close>

fun tau_loop :: "'d dbl_ops2 \<Rightarrow> 'd flow \<Rightarrow> 'd interval \<Rightarrow> nat list \<Rightarrow> nat \<times> 'd" where
  "tau_loop D p cur [] = (10000, d_lit D 0)"
| "tau_loop D p cur (j # js) =
     (if ip_src p = ip_src (cur j)
      then (if unat (packet_count p) \<ge> unat (packet_count (cur j))
            then (j, d_log D (d_div D (d_of_uint D (packet_count (cur j))) (d_of_uint D (packet_count p))))
            else (j, d_log D (d_div D (d_of_uint D (packet_count p)) (d_of_uint D (packet_count (cur j))))))
      else if ip_src (cur j) = 0 then (j, d_lit D 0)
      else tau_loop D p cur js)"

fun entropy_loop ::
    "'d dbl_ops2 \<Rightarrow> bool \<Rightarrow> 'd interval \<Rightarrow> nat list \<Rightarrow> 'd interval \<Rightarrow> ('b, 'd) legacy \<Rightarrow> 'd interval \<times> ('b, 'd) legacy" where
  "entropy_loop D show_lines cur [] prev st = (prev, st)"
| "entropy_loop D show_lines cur (i # is) prev st =
     (if packet_count (prev i) \<noteq> 0 then
        (let st = st\<lparr>l_alltime := l_alltime st + packet_count (prev i)\<rparr>;
             p = d_div D (d_of_uint D (packet_count (prev i))) (d_of_int D (l_cur_count st));
             v = d_mul D (d_of_int D (- 1)) (d_log D p);
             (j, tau) = tau_loop D (prev i) cur [0..<10000];
             tau = (if d_gt D (d_of_int D 0) tau then d_mul D (d_of_int D (- 1)) tau else tau);
             prev = prev(i := (prev i)\<lparr>entropy := d_add D v tau\<rparr>);
             st = (if show_lines
                   then st\<lparr>l_out := l_out st @ [Etp_line (ip_src (prev i)) (packet_count (prev i)) (packet_count (cur j)) (entropy (prev i))]\<rparr>
                   else st);
             st = st\<lparr>l_holder := l_holder st + packet_count (prev i)\<rparr>
         in entropy_loop D show_lines cur is prev st)
      else (prev, st))"

text \<open>The number of flows (the index where the loop stops) and the sum of their entropies.\<close>

fun sum_loop :: "'d dbl_ops2 \<Rightarrow> 'd interval \<Rightarrow> nat \<Rightarrow> nat \<Rightarrow> 'd \<Rightarrow> nat \<times> 'd" where
  "sum_loop D prev 0 k s = (k, s)"
| "sum_loop D prev (Suc n) k s =
     (if packet_count (prev k) \<noteq> 0 then sum_loop D prev n (k + 1) (d_add D s (entropy (prev k))) else (k, s))"

definition deviation_step :: "'d dbl_ops2 \<Rightarrow> 'd interval \<Rightarrow> 'd \<Rightarrow> nat \<Rightarrow> 'd \<Rightarrow> 'd" where
  "deviation_step D prev avg i dev =
     (let t = abs32 (d_trunc D (d_sub D (entropy (prev i)) avg)) in d_add D dev (d_of_int D (t * t)))"

text \<open>
  One flow of the last loop: \<open>factor\<close> is 2 or 3/2, \<open>shown\<close> the index whose address is printed.
\<close>

definition block_step ::
    "'d dbl_ops2 \<Rightarrow> ('b, lpm_v4_key, i32) map_ops \<Rightarrow> rat \<Rightarrow> (nat \<Rightarrow> nat) \<Rightarrow> 'd interval \<Rightarrow> 'd \<Rightarrow> 'd \<Rightarrow>
     nat \<Rightarrow> ('b, 'd) legacy \<Rightarrow> ('b, 'd) legacy" where
  "block_step D bops factor shown prev avg std i st =
     (let ent = entropy (prev i);
          st = (if d_gt D ent (d_mul D (d_lit D factor) avg) then st\<lparr>l_beta := l_beta st + 1\<rparr>
                else if d_gt D (d_mul D (d_lit D (1 / 2)) avg) ent then st\<lparr>l_beta := l_beta st - 1\<rparr>
                else st)
      in if d_gt D (d_of_int D (abs32 (d_trunc D (d_sub D avg ent)))) (d_mul D (d_of_int D (l_beta st)) std)
         then (let key = \<lparr>prefixlen = 32, address = ip_src (prev i)\<rparr>;
                   (e, black) = map_update bops (l_black st) key 0 BPF_NOEXIST;
                   ip = ip_src (prev (shown i))
               in st\<lparr>l_black := black, l_out := l_out st @ [if e < 0 then Failed_line ip else Blocked_line ip]\<rparr>)
         else st)"

text \<open>The part that both functions share: from the packet total to the blacklist.\<close>

definition analyse ::
    "'d dbl_ops2 \<Rightarrow> ('b, lpm_v4_key, i32) map_ops \<Rightarrow> nat \<Rightarrow> rat \<Rightarrow> bool \<Rightarrow> (nat \<Rightarrow> nat) \<Rightarrow>
     'd interval \<Rightarrow> 'd interval \<Rightarrow> ('b, 'd) legacy \<Rightarrow> ('b, 'd) legacy" where
  "analyse D bops limit factor show_lines shown prev cur st =
     (let st = st\<lparr>l_cur_count := sum_counts prev [0..<limit] (l_cur_count st)\<rparr>;
          (prev, st) = entropy_loop D show_lines cur [0..<limit] prev st;
          (num_of_flow, sum_of_entropy) = sum_loop D prev limit 0 (d_lit D 0);
          avg = d_div D sum_of_entropy (d_of_int D (of_nat num_of_flow));
          deviation = fold (deviation_step D prev avg) [0..<num_of_flow + 1] (d_lit D 0);
          std = d_sqrt D (d_div D deviation (d_of_int D (of_nat num_of_flow)))
      in fold (block_step D bops factor shown prev avg std) [0..<num_of_flow + 1] st)"

definition calculate_entropy ::
    "'d dbl_ops2 \<Rightarrow> 'm trie_ops \<Rightarrow> ('b, lpm_v4_key, i32) map_ops \<Rightarrow> lpm_v4_key \<Rightarrow> 'd interval \<Rightarrow>
     'm \<Rightarrow> 'd interval \<Rightarrow> ('b, 'd) legacy \<Rightarrow> 'm \<times> 'd interval \<times> ('b, 'd) legacy" where
  "calculate_entropy D ops bops junk_next junk_interval lg invl_prev st =
     (let next = (case map_first_key ops lg of Some k \<Rightarrow> k | None \<Rightarrow> junk_next);
          (num, lg, invl_cur) =
            drain ops (\<lambda>i a v cur. cur(i := (cur i)\<lparr>ip_src := a, packet_count := v\<rparr>)) 10000 0 next 0 lg junk_interval;
          st = analyse D bops 10000 2 True (\<lambda>i. i) invl_prev invl_cur st;
          st = st\<lparr>l_out := l_out st @ [Sum_line (l_cur_count st)], l_cur_count := 0\<rparr>
      in (lg, invl_cur, st))"

text \<open>
  The variant that keeps the two intervals in an array map of its own: elements 0 and 1.  Inside
  the last loop a second variable \<open>i\<close>, which is 0, hides the index.
\<close>

definition calculate_entropy_csv ::
    "'d dbl_ops2 \<Rightarrow> ('b, lpm_v4_key, i32) map_ops \<Rightarrow> 'd interval \<Rightarrow>
     (nat \<Rightarrow> 'd interval option) \<Rightarrow> ('b, 'd) legacy \<Rightarrow> (nat \<Rightarrow> 'd interval option) \<times> ('b, 'd) legacy" where
  "calculate_entropy_csv D bops junk_interval tab st =
     (case tab 0 of
        None \<Rightarrow> (tab, st\<lparr>l_out := l_out st @ [Fetch_error]\<rparr>)
      | Some invl_prev \<Rightarrow>
          (case tab 1 of
             None \<Rightarrow> (tab, st\<lparr>l_out := l_out st @ [Fetch_error]\<rparr>)
           | Some invl_cur \<Rightarrow>
               (let tab = tab(1 \<mapsto> junk_interval);
                    st = analyse D bops 1000 (3 / 2) False (\<lambda>_. 0) invl_prev invl_cur st;
                    st = st\<lparr>l_cur_count := 0\<rparr>
                in (tab(0 \<mapsto> invl_cur), st))))"

section \<open>Specification\<close>

text \<open>Storing the entries of a list of keys at consecutive indices.\<close>

fun store_seq :: "(nat \<Rightarrow> u32 \<Rightarrow> i32 \<Rightarrow> 'a \<Rightarrow> 'a) \<Rightarrow> (lpm_v4_key \<Rightarrow> i32) \<Rightarrow> nat \<Rightarrow> lpm_v4_key list \<Rightarrow> 'a \<Rightarrow> 'a" where
  "store_seq store val_of num [] a = a"
| "store_seq store val_of num (k # ks) a =
     store_seq store val_of (num + 1) ks (store num (address k) (val_of k) a)"

section \<open>Draining\<close>

lemma store_seq_cong:
  "(\<And>k. k \<in> set ks \<Longrightarrow> f k = g k) \<Longrightarrow> store_seq store f num ks a = store_seq store g num ks a"
  by (induction ks arbitrary: num a) simp_all

locale trie_map = bpf_map ops for ops :: "'m trie_ops"
begin

lemma drain_all:
  assumes "map_lookup ops m next \<noteq> None" "card (dom (map_lookup ops m)) \<le> n"
  shows "\<exists>ks m'. distinct ks \<and> set ks = dom (map_lookup ops m) \<and> ks \<noteq> [] \<and>
    map_lookup ops m' = (\<lambda>_. None) \<and>
    drain ops store n num next v m a =
      (num + length ks - 1, m', store_seq store (\<lambda>k. the (map_lookup ops m k)) num ks a)"
  using assms
proof (induction n arbitrary: num "next" v m a)
  case 0
  then show ?case using finite_dom [of m] by (auto simp: card_eq_0_iff)
next
  case (Suc n)
  define m1 where "m1 = snd (map_delete ops m next)"
  have l1: "map_lookup ops m1 = (map_lookup ops m)(next := None)"
    using lookup_delete [OF Suc.prems(1)] by (simp add: m1_def)
  obtain w where w: "map_lookup ops m next = Some w" using Suc.prems(1) by blast
  have nk: "map_get_next_key ops m1 next = map_first_key ops m1"
    using keys_lookup [of m1] l1 by (simp add: map_get_next_key_def)
  show ?case
  proof (cases "map_keys ops m1")
    case Nil
    then have e: "map_lookup ops m1 = (\<lambda>_. None)" using keys_lookup [of m1] by (auto simp: dom_def)
    moreover have "dom (map_lookup ops m) = {next}" using e l1 w by (auto simp: fun_eq_iff dom_def split: if_splits)
    moreover have "drain ops store (Suc n) num next v m a = (num, m1, store num (address next) w a)"
      using Nil nk w by (simp add: Let_def map_first_key_def flip: m1_def)
    ultimately show ?thesis using w by (intro exI [of _ "[next]"] exI [of _ m1]) simp
  next
    case (Cons k ks0)
    have k: "map_lookup ops m1 k \<noteq> None" using Cons keys_lookup [of m1] by auto
    have "dom (map_lookup ops m1) = dom (map_lookup ops m) - {next}" using l1 by auto
    then have c: "card (dom (map_lookup ops m1)) \<le> n"
      using Suc.prems w finite_dom [of m] by (simp add: card_Diff_singleton_if domIff)
    obtain ks m' where IH: "distinct ks" "set ks = dom (map_lookup ops m1)" "ks \<noteq> []" "map_lookup ops m' = (\<lambda>_. None)"
      "drain ops store n (num + 1) k w m1 (store num (address next) w a) =
        (num + 1 + length ks - 1, m', store_seq store (\<lambda>k. the (map_lookup ops m1 k)) (num + 1) ks (store num (address next) w a))"
      using Suc.IH [OF k c, of "num + 1" w "store num (address next) w a"] by blast
    have "drain ops store (Suc n) num next v m a = drain ops store n (num + 1) k w m1 (store num (address next) w a)"
      using Cons nk w by (simp add: Let_def map_first_key_def flip: m1_def)
    moreover have "store_seq store (\<lambda>k. the (map_lookup ops m1 k)) (num + 1) ks b =
        store_seq store (\<lambda>k. the (map_lookup ops m k)) (num + 1) ks b" for b
      using IH(2) l1 by (intro store_seq_cong) auto
    ultimately show ?thesis using IH l1 w
      by (intro exI [of _ "next # ks"] exI [of _ m']) auto
  qed
qed

lemma arrays_store_seq:
  "store_seq (\<lambda>i a v (ip, cnt). (ip(i := a), cnt(i := v))) f num ks (ip0, cnt0) =
   (\<lambda>j. if num \<le> j \<and> j < num + length ks then address (ks ! (j - num)) else ip0 j,
    \<lambda>j. if num \<le> j \<and> j < num + length ks then f (ks ! (j - num)) else cnt0 j)"
proof (induction ks arbitrary: num ip0 cnt0)
  case (Cons k ks)
  show ?case unfolding store_seq.simps prod.case Cons.IH
    by (auto intro!: ext simp: nth_Cons')
qed (auto intro!: ext)

lemma check_trie_result:
  assumes "map_keys ops m \<noteq> []" "length (map_keys ops m) \<le> 10000"
  shows "\<exists>ks m'. check_trie ops junk m = (m', map (\<lambda>k. Trie_line (address k) (the (map_lookup ops m k))) ks) \<and>
    distinct ks \<and> set ks = dom (map_lookup ops m) \<and> map_lookup ops m' = (\<lambda>_. None)"
proof -
  obtain k0 ks0 where k0: "map_keys ops m = k0 # ks0" using assms(1) by (auto simp: neq_Nil_conv)
  then have f: "map_first_key ops m = Some k0" "map_lookup ops m k0 \<noteq> None"
    using keys_lookup [of m] by (auto simp: map_first_key_def)
  have "card (dom (map_lookup ops m)) \<le> 10000"
    using assms(2) distinct_card [OF distinct_keys, of m] keys_lookup [of m] by simp
  from drain_all [OF f(2) this, of "\<lambda>i a v (ip, cnt). (ip(i := a), cnt(i := v))" 0 0 "(\<lambda>_. 0, \<lambda>_. 0)"]
  obtain ks m' where d: "distinct ks" "set ks = dom (map_lookup ops m)" "ks \<noteq> []" "map_lookup ops m' = (\<lambda>_. None)"
    "drain ops (\<lambda>i a v (ip, cnt). (ip(i := a), cnt(i := v))) 10000 0 k0 0 m (\<lambda>_. 0, \<lambda>_. 0) =
      (length ks - 1, m', store_seq (\<lambda>i a v (ip, cnt). (ip(i := a), cnt(i := v))) (\<lambda>k. the (map_lookup ops m k)) 0 ks (\<lambda>_. 0, \<lambda>_. 0))"
    by auto
  have "map (\<lambda>j. Trie_line (if j < length ks then address (ks ! j) else 0)
        (if j < length ks then the (map_lookup ops m (ks ! j)) else 0)) [0..<length ks - 1 + 1] =
      map (\<lambda>k. Trie_line (address k) (the (map_lookup ops m k))) ks"
    using d(3) by (intro nth_equalityI) (auto simp del: upt_Suc)
  then have "check_trie ops junk m = (m', map (\<lambda>k. Trie_line (address k) (the (map_lookup ops m k))) ks)"
    by (simp add: check_trie_def f(1) d(5) arrays_store_seq cong: if_cong del: upt_Suc)
  then show ?thesis using d by blast
qed

end

interpretation alist_trie: trie_map "alist_ops max_entries"
  by unfold_locales

definition sample_trie :: "(lpm_v4_key \<times> i32) list" where
  "sample_trie = [(\<lparr>prefixlen = 32, address = 7\<rparr>, 3), (\<lparr>prefixlen = 32, address = 9\<rparr>, 1)]"

text \<open>
  \<open>check_trie\<close> empties the table and prints every entry once.  When the table has between one
  and 10000 entries, the call prints one line per entry, with its address and its counter, in
  some order of the keys, and leaves no entry in the table.
\<close>

theorem check_trie_complete:
  assumes "trie_map ops" "map_keys ops m \<noteq> []" "length (map_keys ops m) \<le> 10000"
  shows "\<exists>ks m'. check_trie ops junk m = (m', map (\<lambda>k. Trie_line (address k) (the (map_lookup ops m k))) ks) \<and>
    distinct ks \<and> set ks = dom (map_lookup ops m) \<and> map_lookup ops m' = (\<lambda>_. None)"
  by (rule trie_map.check_trie_result [OF assms])

theorem check_trie_complete_witness:
  "\<exists>ks m'. check_trie (alist_ops 4) \<lparr>prefixlen = 0, address = 0\<rparr> sample_trie =
      (m', map (\<lambda>k. Trie_line (address k) (the (map_lookup (alist_ops 4) sample_trie k))) ks) \<and>
    distinct ks \<and> set ks = dom (map_lookup (alist_ops 4) sample_trie) \<and>
    map_lookup (alist_ops 4) m' = (\<lambda>_. None)"
  by (rule check_trie_complete [OF alist_trie.trie_map_axioms]) (simp_all add: alist_ops_def sample_trie_def)

section \<open>The analysis\<close>

text \<open>The flows of an interval end at the first index whose counter is 0.\<close>

definition flow_end :: "'d interval \<Rightarrow> nat \<Rightarrow> nat" where
  "flow_end prev limit = length (takeWhile (\<lambda>k. packet_count (prev k) \<noteq> 0) [0..<limit])"

lemma sum_counts_eq:
  "sum_counts prev ks c = c + (\<Sum>k\<leftarrow>takeWhile (\<lambda>k. packet_count (prev k) \<noteq> 0) ks. packet_count (prev k))"
  by (induction ks arbitrary: c) (simp_all add: add.assoc)

text \<open>What the entropy loop keeps of an interval: everything but the entropies.\<close>

definition same_flows :: "'d interval \<Rightarrow> 'd interval \<Rightarrow> bool" where
  "same_flows p q \<longleftrightarrow> (\<forall>i. ip_src (p i) = ip_src (q i) \<and> packet_count (p i) = packet_count (q i))"

lemma entropy_loop_step:
  assumes "packet_count (prev k) \<noteq> 0"
  shows "\<exists>e s2. entropy_loop D sh cur (k # ks) prev st = entropy_loop D sh cur ks (prev(k := (prev k)\<lparr>entropy := e\<rparr>)) s2 \<and>
    l_alltime s2 = l_alltime st + packet_count (prev k) \<and> l_holder s2 = l_holder st + packet_count (prev k) \<and>
    l_black s2 = l_black st \<and> l_cur_count s2 = l_cur_count st \<and> l_beta s2 = l_beta st"
  unfolding entropy_loop.simps if_P [OF assms] Let_def case_prod_beta
  by (intro exI conjI, rule refl) simp_all

lemma entropy_loop_keeps:
  "entropy_loop D sh cur ks prev st = (prev', st') \<Longrightarrow>
     same_flows prev' prev \<and> l_black st' = l_black st \<and> l_cur_count st' = l_cur_count st \<and> l_beta st' = l_beta st"
proof (induction ks arbitrary: prev st)
  case (Cons k ks)
  show ?case
  proof (cases "packet_count (prev k) = 0")
    case True
    then show ?thesis using Cons.prems by (simp add: same_flows_def)
  next
    case False
    then obtain p2 s2 where 2: "entropy_loop D sh cur ks p2 s2 = (prev', st')"
      "same_flows p2 prev" "l_black s2 = l_black st" "l_cur_count s2 = l_cur_count st" "l_beta s2 = l_beta st"
      using Cons.prems entropy_loop_step [of prev k D sh cur ks st] by (auto simp: same_flows_def)
    show ?thesis using Cons.IH [OF 2(1)] 2(2-) by (simp add: same_flows_def)
  qed
qed (simp add: same_flows_def)

lemma entropy_loop_totals:
  assumes "distinct ks"
  shows "l_alltime (snd (entropy_loop D sh cur ks prev st)) =
      l_alltime st + (\<Sum>k\<leftarrow>takeWhile (\<lambda>k. packet_count (prev k) \<noteq> 0) ks. packet_count (prev k)) \<and>
    l_holder (snd (entropy_loop D sh cur ks prev st)) =
      l_holder st + (\<Sum>k\<leftarrow>takeWhile (\<lambda>k. packet_count (prev k) \<noteq> 0) ks. packet_count (prev k))"
  using assms
proof (induction ks arbitrary: prev st)
  case (Cons k ks)
  show ?case
  proof (cases "packet_count (prev k) = 0")
    case False
    then obtain p2 s2 where 2: "entropy_loop D sh cur (k # ks) prev st = entropy_loop D sh cur ks p2 s2"
      "l_alltime s2 = l_alltime st + packet_count (prev k)" "l_holder s2 = l_holder st + packet_count (prev k)"
      and p2: "\<And>j. packet_count (p2 j) = packet_count (prev j)"
      using entropy_loop_step [of prev k D sh cur ks st] by fastforce
    show ?thesis unfolding 2(1) using Cons.IH [of p2 s2] Cons.prems 2(2,3) False by (simp add: p2 add.assoc)
  qed simp
qed simp

lemma sum_loop_end:
  "fst (sum_loop D prev n k s) = k + length (takeWhile (\<lambda>j. packet_count (prev j) \<noteq> 0) [k..<k + n])"
proof (induction n arbitrary: k s)
  case (Suc n)
  then show ?case by (simp add: upt_conv_Cons del: upt_Suc)
qed simp

section \<open>The blacklist\<close>

text \<open>What the last loop may do to the blacklist: add host entries of the flows it visits.\<close>

definition black_extends :: "('b, lpm_v4_key, i32) map_ops \<Rightarrow> u32 set \<Rightarrow> 'b \<Rightarrow> 'b \<Rightarrow> bool" where
  "black_extends bops ips b b' \<longleftrightarrow>
     (\<forall>k. map_lookup bops b k \<noteq> None \<longrightarrow> map_lookup bops b' k = map_lookup bops b k) \<and>
     (\<forall>k v. map_lookup bops b k = None \<and> map_lookup bops b' k = Some v \<longrightarrow> v = 0 \<and> prefixlen k = 32 \<and> address k \<in> ips)"

lemma black_extends_refl: "black_extends bops ips b b"
  by (auto simp: black_extends_def)

lemma black_extends_trans:
  assumes "black_extends bops ips a b" "black_extends bops ips b c"
  shows "black_extends bops ips a c"
proof -
  have "map_lookup bops b k = Some v \<or> map_lookup bops b k = None" if "map_lookup bops c k = Some v" for k v
    using assms(2) that by (cases "map_lookup bops b k") (auto simp: black_extends_def)
  then show ?thesis using assms unfolding black_extends_def by (metis option.distinct(1))
qed

text \<open>
  The blacklist as the loader writes it; \<open>map_lookup\<close> is the entry stored under exactly that
  prefix.
\<close>

locale blacklist_map = bpf_noexist_map ops for ops :: "('b, lpm_v4_key, i32) map_ops"
begin

lemma noexist_extends:
  assumes "prefixlen k = 32" "address k \<in> ips"
  shows "black_extends ops ips b (snd (map_update ops b k 0 BPF_NOEXIST))"
proof (cases "fst (map_update ops b k 0 BPF_NOEXIST) = 0")
  case True
  then have "map_lookup ops b k = None" using update_noexist by blast
  then show ?thesis using lookup_update [OF True] assms by (auto simp: black_extends_def split: if_splits)
next
  case False
  then show ?thesis using update_error by (simp add: black_extends_refl)
qed

lemma block_step_extends:
  assumes "ip_src (prev i) \<in> ips"
  shows "black_extends ops ips (l_black st) (l_black (block_step D ops factor shown prev avg std i st))"
  using noexist_extends [of "\<lparr>prefixlen = 32, address = ip_src (prev i)\<rparr>" ips "l_black st"] assms
  by (simp add: block_step_def Let_def black_extends_refl case_prod_beta)

lemma block_fold_extends:
  assumes "\<And>i. i \<in> set is \<Longrightarrow> ip_src (prev i) \<in> ips"
  shows "black_extends ops ips (l_black st) (l_black (fold (block_step D ops factor shown prev avg std) is st))"
  using assms
proof (induction "is" arbitrary: st)
  case (Cons i "is")
  have "black_extends ops ips (l_black st) (l_black (block_step D ops factor shown prev avg std i st))"
    using Cons.prems by (intro block_step_extends) simp
  moreover have "black_extends ops ips (l_black (block_step D ops factor shown prev avg std i st))
      (l_black (fold (block_step D ops factor shown prev avg std) (i # is) st))"
    using Cons by simp
  ultimately show ?case by (rule black_extends_trans)
qed (simp add: black_extends_refl)

lemma block_fold_keeps:
  "l_cur_count (fold (block_step D ops factor shown prev avg std) is st) = l_cur_count st \<and>
   l_alltime (fold (block_step D ops factor shown prev avg std) is st) = l_alltime st"
proof (induction "is" arbitrary: st)
  case (Cons i "is")
  have "l_cur_count (block_step D ops factor shown prev avg std i st) = l_cur_count st \<and>
      l_alltime (block_step D ops factor shown prev avg std i st) = l_alltime st"
    by (simp add: block_step_def Let_def split: prod.splits)
  then show ?case using Cons.IH by simp
qed simp

lemma analyse_result:
  fixes st :: "('b, 'd) legacy" and prev cur :: "'d interval" and D factor sh shown limit
  defines "st' \<equiv> analyse D ops limit factor sh shown prev cur st"
    and "n \<equiv> flow_end prev limit" and "pkts \<equiv> (\<Sum>k<flow_end prev limit. packet_count (prev k))"
  shows "black_extends ops ((\<lambda>i. ip_src (prev i)) ` {..n}) (l_black st) (l_black st')"
    and "l_cur_count st' = l_cur_count st + pkts" and "l_alltime st' = l_alltime st + pkts"
proof -
  let ?tw = "takeWhile (\<lambda>k. packet_count (prev k) \<noteq> 0) [0..<limit]"
  have tw: "?tw = [0..<n]"
    using takeWhile_eq_take [of "\<lambda>k. packet_count (prev k) \<noteq> 0" "[0..<limit]"]
    by (simp add: n_def flow_end_def take_upt length_takeWhile_le [of _ "[0..<limit]", simplified])
  have pk: "(\<Sum>k\<leftarrow>?tw. packet_count (prev k)) = pkts"
    unfolding tw pkts_def n_def [symmetric] by (simp add: sum_list_distinct_conv_sum_set atLeast0LessThan)
  let ?s0 = "st\<lparr>l_cur_count := sum_counts prev [0..<limit] (l_cur_count st)\<rparr>"
  obtain p1 s1 where e: "entropy_loop D sh cur [0..<limit] prev ?s0 = (p1, s1)" by force
  have k: "same_flows p1 prev" "l_black s1 = l_black st" "l_cur_count s1 = l_cur_count st + pkts"
    using entropy_loop_keeps [OF e] pk by (simp_all add: sum_counts_eq)
  have a: "l_alltime s1 = l_alltime st + pkts"
    using entropy_loop_totals [of "[0..<limit]" D sh cur prev ?s0] e pk by simp
  obtain n' s where sl: "sum_loop D p1 limit 0 (d_lit D 0) = (n', s)" by force
  have n': "n' = n" using sum_loop_end [of D p1 limit 0 "d_lit D 0"] sl k(1)
    by (simp add: n_def flow_end_def same_flows_def)
  obtain avg std where st': "st' = fold (block_step D ops factor shown p1 avg std) [0..<n + 1] s1"
    by (auto simp: st'_def analyse_def e sl n' Let_def simp del: upt_Suc)
  show "black_extends ops ((\<lambda>i. ip_src (prev i)) ` {..n}) (l_black st) (l_black st')"
    using block_fold_extends [of "[0..<n + 1]" p1 "(\<lambda>i. ip_src (prev i)) ` {..n}" s1 D factor shown avg std] k
    by (auto simp: st' same_flows_def less_Suc_eq_le simp del: upt_Suc)
  show "l_cur_count st' = l_cur_count st + pkts" "l_alltime st' = l_alltime st + pkts"
    using k a by (simp_all add: st' block_fold_keeps del: upt_Suc)
qed

end

interpretation alist_black: blacklist_map "alist_ops max_entries"
  by unfold_locales

text \<open>
  what \<open>calculate_entropy\<close> does to the blacklist and to the totals.  Let \<open>n\<close> be the index at
  which the flows of the previous interval end.  No entry of the blacklist is changed or
  removed; every new entry is a host entry (prefix length 32, value 0) of a flow of the
  previous interval with index at most \<open>n\<close> (the loop visits one element past the last flow).
  The packets of these flows are added to the total of all time, the last line printed is
  their number, counted on from \<open>cur_packet_count\<close>, which is then reset, and the drained
  interval becomes the previous one.
\<close>

theorem calculate_entropy_blocks:
  fixes st :: "('b, 'd) legacy" and invl_prev ji :: "'d interval" and ops :: "'m trie_ops" and bops and D and jn and lg
  assumes "blacklist_map bops"
  defines "n \<equiv> flow_end invl_prev 10000" and "st' \<equiv> snd (snd (calculate_entropy D ops bops jn ji lg invl_prev st))"
  shows "(\<forall>k. map_lookup bops (l_black st) k \<noteq> None \<longrightarrow> map_lookup bops (l_black st') k = map_lookup bops (l_black st) k) \<and>
    (\<forall>k v. map_lookup bops (l_black st) k = None \<and> map_lookup bops (l_black st') k = Some v \<longrightarrow>
       v = 0 \<and> prefixlen k = 32 \<and> (\<exists>i\<le>n. address k = ip_src (invl_prev i))) \<and>
    l_alltime st' = l_alltime st + (\<Sum>i<n. packet_count (invl_prev i)) \<and>
    last (l_out st') = Sum_line (l_cur_count st + (\<Sum>i<n. packet_count (invl_prev i))) \<and> l_cur_count st' = 0"
proof -
  obtain lg' invl where st': "calculate_entropy D ops bops jn ji lg invl_prev st = (lg', invl, st')"
    by (metis prod.collapse st'_def)
  show ?thesis
    using blacklist_map.analyse_result [OF assms(1), where prev = invl_prev and limit = 10000 and st = st and cur = invl
      and D = D and factor = 2 and sh = True and shown = "\<lambda>i. i"] st'
    by (auto simp: calculate_entropy_def black_extends_def n_def Let_def image_iff Bex_def split: prod.splits)
qed

definition sample_interval :: "int interval" where
  "sample_interval = (\<lambda>i. \<lparr>ip_src = of_nat i + 7, packet_count = (if i < 2 then 3 else 0), entropy = 0\<rparr>)"

definition sample_dbl2 :: "int dbl_ops2" where
  "sample_dbl2 = dbl_ops.extend int_dbl \<lparr>d_log = (\<lambda>x. x), d_trunc = of_int, d_of_uint = uint\<rparr>"

lemma sample_flow_end: "flow_end sample_interval (3 + n) = 2"
proof -
  have "[0..<3 + n] = [0, 1, 2] @ [3..<3 + n]" by (subst upt_add_eq_append) (simp_all add: upt_rec)
  then show ?thesis by (simp add: flow_end_def sample_interval_def)
qed

definition sample_legacy :: "((lpm_v4_key \<times> i32) list, int) legacy" where
  "sample_legacy = \<lparr>l_black = [], l_alltime = 5, l_cur_count = 0, l_beta = 1, l_holder = 0, l_out = []\<rparr>"

theorem calculate_entropy_blocks_witness:
  "l_alltime (snd (snd (calculate_entropy sample_dbl2 (alist_ops 4) (alist_ops 4) \<lparr>prefixlen = 0, address = 0\<rparr>
      sample_interval sample_trie sample_interval sample_legacy))) = 11"
proof -
  have "flow_end sample_interval 10000 = 2" using sample_flow_end [of 9997] by simp
  then show ?thesis
    using calculate_entropy_blocks [OF alist_black.blacklist_map_axioms, where ?invl_prev = sample_interval
      and ?D = sample_dbl2 and ?ops = "alist_ops 4" and ?jn = "\<lparr>prefixlen = 0, address = 0\<rparr>"
      and ?ji = sample_interval and ?lg = sample_trie and ?st = sample_legacy]
    by (simp add: sample_interval_def sample_legacy_def lessThan_Suc numeral_2_eq_2)
qed

end
