(* ===== verification/Common_Params.thy ===== *)
theory Common_Params
  imports Prelude
begin

text \<open>
  The command line: \<open>common/common_params.c\<close> of both variants, with \<open>struct config\<close> of
  \<open>common/common_defines.h\<close>.  What \<open>getopt_long\<close> returns, call after call until -1, is a list of
  option codes with their arguments; \<open>if_nametoindex\<close> is an argument.  Error messages carry
  their fixed text only.  A character array holds all its bytes, so that a string that
  \<open>strncpy\<close> left without a terminator can be told from one that has it.
\<close>

section \<open>C strings\<close>

definition strncpy :: "nat \<Rightarrow> string \<Rightarrow> string" where
  "strncpy n src = take n (src @ replicate n (CHR 0x00))"

definition terminated :: "string \<Rightarrow> bool" where
  "terminated buf \<longleftrightarrow> CHR 0x00 \<in> set buf"

definition c_string :: "string \<Rightarrow> string" where
  "c_string buf = takeWhile (\<lambda>c. c \<noteq> CHR 0x00) buf"

text \<open>\<open>snprintf\<close> into a buffer of \<open>n\<close> bytes, as the string that the buffer then holds.\<close>

definition snprintf :: "nat \<Rightarrow> string \<Rightarrow> string" where
  "snprintf n s = take (n - 1) s"

definition is_digit :: "char \<Rightarrow> bool" where
  "is_digit c \<longleftrightarrow> c \<in> set ''0123456789''"

definition digits_val :: "string \<Rightarrow> int" where
  "digits_val ds = foldl (\<lambda>n c. 10 * n + (int (of_char c) - 48)) 0 ds"

definition atoi :: "string \<Rightarrow> i32" where
  "atoi s =
     (let s = dropWhile (\<lambda>c. c \<in> set [CHR 0x20, CHR 0x09, CHR 0x0A, CHR 0x0B, CHR 0x0C, CHR 0x0D]) s
      in case s of
           c # cs \<Rightarrow>
             (if c = CHR ''-'' then word_of_int (- digits_val (takeWhile is_digit cs))
              else if c = CHR ''+'' then word_of_int (digits_val (takeWhile is_digit cs))
              else word_of_int (digits_val (takeWhile is_digit s)))
         | [] \<Rightarrow> 0)"

section \<open>Options and their help\<close>

record option_wrapper =
  ow_name :: "string option"
  ow_has_arg :: int
  ow_val :: int
  ow_help :: string
  ow_metavar :: "string option"
  ow_required :: bool

definition BUFSIZE :: nat where "BUFSIZE = 30"

definition option_line :: "option_wrapper \<Rightarrow> string" where
  "option_line w =
     (let name = the (ow_name w);
          buf = snprintf BUFSIZE ('' --'' @ name);
          pos = length ('' --'' @ name);
          buf = (case ow_metavar w of
                   Some m \<Rightarrow> take pos buf @ snprintf (BUFSIZE - pos) ('' '' @ m)
                 | None \<Rightarrow> buf)
      in (if ow_val w > 64 then '' -'' @ [char_of (nat (ow_val w)), CHR 0x2C] else ''    '')
         @ buf @ replicate (22 - length buf) (CHR 0x20)
         @ ''  '' @ ow_help w @ [CHR 0x0A])"

fun print_option_list :: "option_wrapper list \<Rightarrow> bool \<Rightarrow> string" where
  "print_option_list [] required = []"
| "print_option_list (w # ws) required =
     (if ow_name w = None then []
      else if ow_required w \<noteq> required then print_option_list ws required
      else option_line w @ print_option_list ws required)"

definition usage :: "string \<Rightarrow> string \<Rightarrow> option_wrapper list \<Rightarrow> bool \<Rightarrow> string" where
  "usage prog_name doc long_options full =
     ''Usage: '' @ prog_name @ '' [options]'' @ [CHR 0x0A] @
     (if \<not> full then ''Use --help (or -h) to see full option list.'' @ [CHR 0x0A]
      else [CHR 0x0A] @ ''DOCUMENTATION:'' @ [CHR 0x0A] @ '' '' @ doc @ [CHR 0x0A] @
           ''Required options:'' @ [CHR 0x0A] @ print_option_list long_options True @ [CHR 0x0A] @
           ''Other options:'' @ [CHR 0x0A] @ print_option_list long_options False @ [CHR 0x0A])"

text \<open>
  The array that \<open>getopt_long\<close> gets: the options before the entry with a null name, in memory
  of exactly their size; \<open>None\<close> when \<open>malloc\<close> fails.
\<close>

definition option_wrappers_to_options ::
    "bool \<Rightarrow> option_wrapper list \<Rightarrow> (string option \<times> int \<times> int) list option" where
  "option_wrappers_to_options malloc_ok wrapper =
     (let num = length (takeWhile (\<lambda>w. ow_name w \<noteq> None) wrapper)
      in if \<not> malloc_ok then None
         else Some (map (\<lambda>i. (ow_name (wrapper ! i), ow_has_arg (wrapper ! i), ow_val (wrapper ! i))) [0..<num]))"

section \<open>The configuration\<close>

record config =
  xdp_flags :: u32
  ifindex :: i32
  ifname_set :: bool
  ifname_buf :: string
  redirect_ifindex :: i32
  redirect_ifname_set :: bool
  redirect_ifname_buf :: string
  do_unload_flag :: bool
  reuse_maps_flag :: bool
  pin_dir :: string
  filename :: string
  src_mac :: string
  dest_mac :: string
  xsk_bind_flags :: u16
  xsk_if_queue :: i32
  xsk_poll_mode :: bool

record config_user = config +
  progsec :: string

datatype xdp_attach_mode = XDP_MODE_UNSPEC | XDP_MODE_NATIVE | XDP_MODE_SKB | XDP_MODE_HW

record config_kern = config +
  attach_mode :: xdp_attach_mode
  prog_id :: u32
  progname :: string
  unload_all :: bool

definition IF_NAMESIZE :: nat where "IF_NAMESIZE = 16"

definition XDP_FLAGS_UPDATE_IF_NOEXIST :: u32 where "XDP_FLAGS_UPDATE_IF_NOEXIST = 1"
definition XDP_FLAGS_SKB_MODE :: u32 where "XDP_FLAGS_SKB_MODE = 2"
definition XDP_FLAGS_DRV_MODE :: u32 where "XDP_FLAGS_DRV_MODE = 4"
definition XDP_FLAGS_HW_MODE :: u32 where "XDP_FLAGS_HW_MODE = 8"
definition XDP_FLAGS_MODES :: u32 where
  "XDP_FLAGS_MODES = XDP_FLAGS_SKB_MODE OR XDP_FLAGS_DRV_MODE OR XDP_FLAGS_HW_MODE"
definition XDP_COPY :: u16 where "XDP_COPY = 2"
definition XDP_ZEROCOPY :: u16 where "XDP_ZEROCOPY = 4"

definition EXIT_OK :: int where "EXIT_OK = 0"
definition EXIT_FAIL :: int where "EXIT_FAIL = 1"
definition EXIT_FAIL_OPTION :: int where "EXIT_FAIL_OPTION = 2"
definition EXIT_FAIL_XDP :: int where "EXIT_FAIL_XDP = 30"
definition EXIT_FAIL_BPF :: int where "EXIT_FAIL_BPF = 40"

section \<open>Parsing\<close>

text \<open>
  What one option does: the next configuration and \<open>verbose\<close>, or the error path with a message
  and whether the full help is shown.
\<close>

datatype 'c option_step = Next 'c bool | Error "string list" bool

definition set_mode :: "u32 \<Rightarrow> u32 \<Rightarrow> u32" where
  "set_mode mode flags = (flags AND NOT XDP_FLAGS_MODES) OR mode"

text \<open>The cases \<open>'d'\<close> and \<open>'r'\<close>, which are the same in both variants.\<close>

definition opt_dev :: "(string \<Rightarrow> i32) \<Rightarrow> string \<Rightarrow> bool \<Rightarrow> 'c config_scheme \<Rightarrow> 'c config_scheme option_step" where
  "opt_dev if_nametoindex optarg verbose cfg =
     (if length optarg \<ge> IF_NAMESIZE then Error [''ERR: --dev name too long''] False
      else
        (let cfg = cfg\<lparr>ifname_set := True, ifname_buf := strncpy IF_NAMESIZE optarg\<rparr>;
             cfg = cfg\<lparr>ifindex := if_nametoindex (c_string (ifname_buf cfg))\<rparr>
         in if ifindex cfg = 0 then Error [''ERR: --dev name unknown''] False else Next cfg verbose))"

definition opt_redirect :: "(string \<Rightarrow> i32) \<Rightarrow> string \<Rightarrow> bool \<Rightarrow> 'c config_scheme \<Rightarrow> 'c config_scheme option_step" where
  "opt_redirect if_nametoindex optarg verbose cfg =
     (if length optarg \<ge> IF_NAMESIZE then Error [''ERR: --redirect-dev name too long''] False
      else
        (let cfg = cfg\<lparr>redirect_ifname_set := True, redirect_ifname_buf := strncpy IF_NAMESIZE optarg\<rparr>;
             cfg = cfg\<lparr>redirect_ifindex := if_nametoindex (c_string (redirect_ifname_buf cfg))\<rparr>
         in if redirect_ifindex cfg = 0 then Error [''ERR: --redirect-dev name unknown''] False
            else Next cfg verbose))"

definition ord :: "char \<Rightarrow> int" where
  "ord c = int (of_char c)"

definition parse_option_user ::
    "(string \<Rightarrow> i32) \<Rightarrow> int \<times> string \<Rightarrow> bool \<Rightarrow> config_user \<Rightarrow> config_user option_step" where
  "parse_option_user if_nametoindex o_arg verbose cfg =
     (let (opt, optarg) = o_arg
      in if opt = ord CHR ''d'' then opt_dev if_nametoindex optarg verbose cfg
      else if opt = ord CHR ''r'' then opt_redirect if_nametoindex optarg verbose cfg
      else if opt = ord CHR ''A'' then Next (cfg\<lparr>xdp_flags := xdp_flags cfg AND NOT XDP_FLAGS_MODES\<rparr>) verbose
      else if opt = ord CHR ''S'' then
        Next (cfg\<lparr>xdp_flags := set_mode XDP_FLAGS_SKB_MODE (xdp_flags cfg),
                  xsk_bind_flags := (xsk_bind_flags cfg AND XDP_ZEROCOPY) OR XDP_COPY\<rparr>) verbose
      else if opt = ord CHR ''N'' then Next (cfg\<lparr>xdp_flags := set_mode XDP_FLAGS_DRV_MODE (xdp_flags cfg)\<rparr>) verbose
      else if opt = 3 then Next (cfg\<lparr>xdp_flags := set_mode XDP_FLAGS_HW_MODE (xdp_flags cfg)\<rparr>) verbose
      else if opt = ord CHR ''F'' then
        Next (cfg\<lparr>xdp_flags := xdp_flags cfg AND NOT XDP_FLAGS_UPDATE_IF_NOEXIST\<rparr>) verbose
      else if opt = ord CHR ''M'' then Next (cfg\<lparr>reuse_maps_flag := True\<rparr>) verbose
      else if opt = ord CHR ''U'' then Next (cfg\<lparr>do_unload_flag := True\<rparr>) verbose
      else if opt = ord CHR ''p'' then Next (cfg\<lparr>xsk_poll_mode := True\<rparr>) verbose
      else if opt = ord CHR ''q'' then Next cfg False
      else if opt = ord CHR ''Q'' then Next (cfg\<lparr>xsk_if_queue := atoi optarg\<rparr>) verbose
      else if opt = 1 then Next (cfg\<lparr>filename := strncpy 512 optarg\<rparr>) verbose
      else if opt = 2 then Next (cfg\<lparr>progsec := strncpy 32 optarg\<rparr>) verbose
      else if opt = ord CHR ''L'' then Next (cfg\<lparr>src_mac := strncpy 18 optarg\<rparr>) verbose
      else if opt = ord CHR ''R'' then Next (cfg\<lparr>dest_mac := strncpy 18 optarg\<rparr>) verbose
      else if opt = ord CHR ''c'' then
        Next (cfg\<lparr>xsk_bind_flags := (xsk_bind_flags cfg AND XDP_ZEROCOPY) OR XDP_COPY\<rparr>) verbose
      else if opt = ord CHR ''z'' then
        Next (cfg\<lparr>xsk_bind_flags := (xsk_bind_flags cfg AND XDP_COPY) OR XDP_ZEROCOPY\<rparr>) verbose
      else if opt = ord CHR ''h'' then Error [] True
      else Error [] False)"

definition parse_option_kern ::
    "(string \<Rightarrow> i32) \<Rightarrow> int \<times> string \<Rightarrow> bool \<Rightarrow> config_kern \<Rightarrow> config_kern option_step" where
  "parse_option_kern if_nametoindex o_arg verbose cfg =
     (let (opt, optarg) = o_arg
      in if opt = ord CHR ''d'' then opt_dev if_nametoindex optarg verbose cfg
      else if opt = ord CHR ''r'' then opt_redirect if_nametoindex optarg verbose cfg
      else if opt = ord CHR ''A'' then Next (cfg\<lparr>attach_mode := XDP_MODE_UNSPEC\<rparr>) verbose
      else if opt = ord CHR ''S'' then
        Next (cfg\<lparr>attach_mode := XDP_MODE_SKB,
                  xsk_bind_flags := (xsk_bind_flags cfg AND NOT XDP_ZEROCOPY) OR XDP_COPY\<rparr>) verbose
      else if opt = ord CHR ''N'' then Next (cfg\<lparr>attach_mode := XDP_MODE_NATIVE\<rparr>) verbose
      else if opt = 3 then Next (cfg\<lparr>attach_mode := XDP_MODE_HW\<rparr>) verbose
      else if opt = ord CHR ''M'' then Next (cfg\<lparr>reuse_maps_flag := True\<rparr>) verbose
      else if opt = ord CHR ''U'' then Next (cfg\<lparr>do_unload_flag := True, prog_id := atoi optarg\<rparr>) verbose
      else if opt = ord CHR ''p'' then Next (cfg\<lparr>xsk_poll_mode := True\<rparr>) verbose
      else if opt = ord CHR ''q'' then Next cfg False
      else if opt = ord CHR ''Q'' then Next (cfg\<lparr>xsk_if_queue := atoi optarg\<rparr>) verbose
      else if opt = 1 then Next (cfg\<lparr>filename := strncpy 512 optarg\<rparr>) verbose
      else if opt = 2 then Next (cfg\<lparr>progname := strncpy 32 optarg\<rparr>) verbose
      else if opt = ord CHR ''L'' then Next (cfg\<lparr>src_mac := strncpy 18 optarg\<rparr>) verbose
      else if opt = ord CHR ''R'' then Next (cfg\<lparr>dest_mac := strncpy 18 optarg\<rparr>) verbose
      else if opt = ord CHR ''c'' then
        Next (cfg\<lparr>xsk_bind_flags := (xsk_bind_flags cfg AND NOT XDP_ZEROCOPY) OR XDP_COPY\<rparr>) verbose
      else if opt = ord CHR ''z'' then
        Next (cfg\<lparr>xsk_bind_flags := (xsk_bind_flags cfg AND NOT XDP_COPY) OR XDP_ZEROCOPY\<rparr>) verbose
      else if opt = 4 then Next (cfg\<lparr>unload_all := True\<rparr>) verbose
      else if opt = ord CHR ''h'' then Error [] True
      else Error [] False)"

text \<open>
  The loop: it ends with the parsed configuration, or the process exits with a code after
  printing the messages and the usage text.
\<close>

datatype 'c parsed = Parsed 'c bool | Exited int "string list" string

fun parse_loop ::
    "(int \<times> string \<Rightarrow> bool \<Rightarrow> 'c \<Rightarrow> 'c option_step) \<Rightarrow> (bool \<Rightarrow> string) \<Rightarrow>
     (int \<times> string) list \<Rightarrow> bool \<Rightarrow> 'c \<Rightarrow> 'c parsed" where
  "parse_loop opt_case use [] verbose cfg = Parsed cfg verbose"
| "parse_loop opt_case use (o_arg # opts) verbose cfg =
     (case opt_case o_arg verbose cfg of
        Next cfg verbose \<Rightarrow> parse_loop opt_case use opts verbose cfg
      | Error msgs full_help \<Rightarrow> Exited EXIT_FAIL_OPTION msgs (use full_help))"

definition parse_cmdline_args_user ::
    "(string \<Rightarrow> i32) \<Rightarrow> bool \<Rightarrow> string \<Rightarrow> string \<Rightarrow> option_wrapper list \<Rightarrow>
     (int \<times> string) list \<Rightarrow> bool \<Rightarrow> config_user \<Rightarrow> config_user parsed" where
  "parse_cmdline_args_user if_nametoindex malloc_ok prog_name doc options_wrapper opts verbose cfg =
     (case option_wrappers_to_options malloc_ok options_wrapper of
        None \<Rightarrow> Exited EXIT_FAIL_OPTION [''Unable to malloc()''] []
      | Some long_options \<Rightarrow>
          parse_loop (parse_option_user if_nametoindex) (usage prog_name doc options_wrapper) opts verbose cfg)"

definition parse_cmdline_args_kern ::
    "(string \<Rightarrow> i32) \<Rightarrow> bool \<Rightarrow> string \<Rightarrow> string \<Rightarrow> option_wrapper list \<Rightarrow>
     (int \<times> string) list \<Rightarrow> bool \<Rightarrow> config_kern \<Rightarrow> config_kern parsed" where
  "parse_cmdline_args_kern if_nametoindex malloc_ok prog_name doc options_wrapper opts verbose cfg =
     (case option_wrappers_to_options malloc_ok options_wrapper of
        None \<Rightarrow> Exited EXIT_FAIL_OPTION [''Unable to malloc()''] []
      | Some long_options \<Rightarrow>
          parse_loop (parse_option_kern if_nametoindex) (usage prog_name doc options_wrapper) opts verbose cfg)"

section \<open>Specification\<close>

text \<open>What an option does to the attach mode, and whether a configuration names its device properly.\<close>

definition mode_step :: "u32 \<Rightarrow> int \<times> string \<Rightarrow> u32" where
  "mode_step m o_arg =
     (if fst o_arg = ord CHR ''A'' then 0
      else if fst o_arg = ord CHR ''S'' then XDP_FLAGS_SKB_MODE
      else if fst o_arg = ord CHR ''N'' then XDP_FLAGS_DRV_MODE
      else if fst o_arg = 3 then XDP_FLAGS_HW_MODE
      else m)"

definition name_ok :: "(string \<Rightarrow> i32) \<Rightarrow> bool \<Rightarrow> string \<Rightarrow> i32 \<Rightarrow> bool" where
  "name_ok if_nametoindex is_set buf index \<longleftrightarrow>
     (is_set \<longrightarrow> length buf = IF_NAMESIZE \<and> terminated buf \<and> index = if_nametoindex (c_string buf) \<and> index \<noteq> 0)"

definition dev_ok :: "(string \<Rightarrow> i32) \<Rightarrow> 'c config_scheme \<Rightarrow> bool" where
  "dev_ok if_nametoindex cfg \<longleftrightarrow>
     name_ok if_nametoindex (ifname_set cfg) (ifname_buf cfg) (ifindex cfg) \<and>
     name_ok if_nametoindex (redirect_ifname_set cfg) (redirect_ifname_buf cfg) (redirect_ifindex cfg)"

definition one_copy_mode :: "u16 \<Rightarrow> bool" where
  "one_copy_mode flags \<longleftrightarrow> \<not> (flags AND XDP_COPY \<noteq> 0 \<and> flags AND XDP_ZEROCOPY \<noteq> 0)"

text \<open>An empty configuration of each variant.\<close>

definition config0 :: config_user where
  "config0 = \<lparr>xdp_flags = XDP_FLAGS_UPDATE_IF_NOEXIST OR XDP_FLAGS_DRV_MODE, ifindex = - 1, ifname_set = False,
     ifname_buf = [], redirect_ifindex = 0, redirect_ifname_set = False, redirect_ifname_buf = [],
     do_unload_flag = False, reuse_maps_flag = False, pin_dir = [], filename = [], src_mac = [], dest_mac = [],
     xsk_bind_flags = 0, xsk_if_queue = 0, xsk_poll_mode = False, progsec = ''xdp_filter''\<rparr>"

definition config0_kern :: config_kern where
  "config0_kern = \<lparr>xdp_flags = 0, ifindex = - 1, ifname_set = False,
     ifname_buf = [], redirect_ifindex = 0, redirect_ifname_set = False, redirect_ifname_buf = [],
     do_unload_flag = False, reuse_maps_flag = False, pin_dir = [], filename = [], src_mac = [], dest_mac = [],
     xsk_bind_flags = 0, xsk_if_queue = 0, xsk_poll_mode = False,
     attach_mode = XDP_MODE_UNSPEC, prog_id = 0, progname = [], unload_all = False\<rparr>"

section \<open>C strings\<close>

lemma length_strncpy [simp]: "length (strncpy n s) = n"
  by (simp add: strncpy_def)

lemma strncpy_fits:
  assumes "CHR 0x00 \<notin> set s" "length s < n"
  shows "terminated (strncpy n s)" "c_string (strncpy n s) = s"
proof -
  have e: "strncpy n s = s @ CHR 0x00 # replicate (n - Suc (length s)) CHR 0x00"
    using assms(2) by (simp add: strncpy_def flip: replicate_Suc add: Suc_diff_Suc)
  show "terminated (strncpy n s)" by (simp add: terminated_def e)
  show "c_string (strncpy n s) = s" using assms(1) by (auto simp: c_string_def e takeWhile_append)
qed

lemma strncpy_terminated: "length s < n \<Longrightarrow> terminated (strncpy n s)"
  by (auto simp: terminated_def strncpy_def)

lemma strncpy_cut:
  assumes "CHR 0x00 \<notin> set s" "n \<le> length s"
  shows "\<not> terminated (strncpy n s)"
  using assms set_take_subset [of n s] by (auto simp: terminated_def strncpy_def)

section \<open>Options one by one\<close>

text \<open>A property of the configuration that every option keeps holds at the end.\<close>

locale option_invariant =
  fixes opt_case :: "int \<times> string \<Rightarrow> bool \<Rightarrow> 'c \<Rightarrow> 'c option_step" and I :: "'c \<Rightarrow> bool"
  assumes keeps: "I cfg \<Longrightarrow> opt_case o_arg v cfg = Next cfg' v' \<Longrightarrow> I cfg'"
begin

lemma loop_keeps: "I cfg \<Longrightarrow> parse_loop opt_case use opts v cfg = Parsed cfg' v' \<Longrightarrow> I cfg'"
proof (induction opts arbitrary: v cfg)
  case (Cons o_arg opts)
  then show ?case by (auto split: option_step.splits intro: keeps)
qed simp

end

lemma opt_dev_NextE:
  assumes "opt_dev if_nametoindex optarg v cfg = Next cfg' v'"
  shows "cfg' = cfg\<lparr>ifname_set := True, ifname_buf := strncpy IF_NAMESIZE optarg,
      ifindex := if_nametoindex (c_string (strncpy IF_NAMESIZE optarg))\<rparr> \<and>
    length optarg < IF_NAMESIZE \<and> ifindex cfg' \<noteq> 0 \<and> v' = v"
  using assms by (auto simp: opt_dev_def Let_def split: if_splits)

lemma opt_redirect_NextE:
  assumes "opt_redirect if_nametoindex optarg v cfg = Next cfg' v'"
  shows "cfg' = cfg\<lparr>redirect_ifname_set := True, redirect_ifname_buf := strncpy IF_NAMESIZE optarg,
      redirect_ifindex := if_nametoindex (c_string (strncpy IF_NAMESIZE optarg))\<rparr> \<and>
    length optarg < IF_NAMESIZE \<and> redirect_ifindex cfg' \<noteq> 0 \<and> v' = v"
  using assms by (auto simp: opt_redirect_def Let_def split: if_splits)

lemma name_ok_new:
  "length s < IF_NAMESIZE \<Longrightarrow> f (c_string (strncpy IF_NAMESIZE s)) \<noteq> 0 \<Longrightarrow>
   name_ok f True (strncpy IF_NAMESIZE s) (f (c_string (strncpy IF_NAMESIZE s)))"
  by (simp add: name_ok_def strncpy_terminated)

lemmas dev_steps = opt_dev_NextE opt_redirect_NextE

text \<open>The switch as a chain of cases.\<close>

lemma switchE:
  assumes "(if b then x else y) = z" "b \<Longrightarrow> x = z \<Longrightarrow> P" "\<not> b \<Longrightarrow> y = z \<Longrightarrow> P"
  shows P
  using assms by (auto split: if_splits)

lemmas user_switch = parse_option_user_def [unfolded Let_def, simplified prod.case_eq_if]

lemmas kern_switch = parse_option_kern_def [unfolded Let_def, simplified prod.case_eq_if]

interpretation user_dev: option_invariant "parse_option_user f" "dev_ok f"
proof
  fix cfg cfg' :: config_user and o_arg v v'
  assume "dev_ok f cfg" "parse_option_user f o_arg v cfg = Next cfg' v'"
  then show "dev_ok f cfg'"
    unfolding user_switch by (elim switchE) (auto simp: dev_ok_def name_ok_new dest!: dev_steps)
qed

interpretation kern_dev: option_invariant "parse_option_kern f" "dev_ok f"
proof
  fix cfg cfg' :: config_kern and o_arg v v'
  assume "dev_ok f cfg" "parse_option_kern f o_arg v cfg = Next cfg' v'"
  then show "dev_ok f cfg'"
    unfolding kern_switch by (elim switchE) (auto simp: dev_ok_def name_ok_new dest!: dev_steps)
qed

lemma one_copy_mode_set:
  "one_copy_mode ((x AND NOT XDP_ZEROCOPY) OR XDP_COPY)"
  "one_copy_mode ((x AND NOT XDP_COPY) OR XDP_ZEROCOPY)"
proof -
  have "((x AND NOT XDP_ZEROCOPY) OR XDP_COPY) AND XDP_ZEROCOPY = 0"
    "((x AND NOT XDP_COPY) OR XDP_ZEROCOPY) AND XDP_COPY = 0"
    by (simp_all add: bit.conj_disj_distrib2 and.assoc) (simp_all add: XDP_ZEROCOPY_def XDP_COPY_def)
  then show "one_copy_mode ((x AND NOT XDP_ZEROCOPY) OR XDP_COPY)"
    "one_copy_mode ((x AND NOT XDP_COPY) OR XDP_ZEROCOPY)" by (simp_all add: one_copy_mode_def)
qed

interpretation kern_copy: option_invariant "parse_option_kern f" "\<lambda>cfg. one_copy_mode (xsk_bind_flags cfg)"
proof
  fix cfg cfg' :: config_kern and o_arg v v'
  assume "one_copy_mode (xsk_bind_flags cfg)" "parse_option_kern f o_arg v cfg = Next cfg' v'"
  then show "one_copy_mode (xsk_bind_flags cfg')"
    unfolding kern_switch by (elim switchE) (auto simp: one_copy_mode_set dest!: dev_steps)
qed

text \<open>The attach mode: each of its options replaces it, every other option keeps it.\<close>

lemma set_mode_bits:
  "m AND XDP_FLAGS_MODES = m \<Longrightarrow> set_mode m x AND XDP_FLAGS_MODES = m"
  "(x AND NOT XDP_FLAGS_MODES) AND XDP_FLAGS_MODES = 0"
  "(x AND NOT XDP_FLAGS_UPDATE_IF_NOEXIST) AND XDP_FLAGS_MODES = x AND XDP_FLAGS_MODES"
proof -
  have "(x AND NOT XDP_FLAGS_UPDATE_IF_NOEXIST) AND XDP_FLAGS_MODES = x AND (XDP_FLAGS_MODES AND NOT XDP_FLAGS_UPDATE_IF_NOEXIST)"
    by (simp add: ac_simps)
  moreover have "XDP_FLAGS_MODES AND NOT XDP_FLAGS_UPDATE_IF_NOEXIST = XDP_FLAGS_MODES"
    by (simp add: XDP_FLAGS_MODES_def XDP_FLAGS_SKB_MODE_def XDP_FLAGS_DRV_MODE_def XDP_FLAGS_HW_MODE_def
        XDP_FLAGS_UPDATE_IF_NOEXIST_def)
  ultimately show "(x AND NOT XDP_FLAGS_UPDATE_IF_NOEXIST) AND XDP_FLAGS_MODES = x AND XDP_FLAGS_MODES" by simp
  show "(x AND NOT XDP_FLAGS_MODES) AND XDP_FLAGS_MODES = 0" by (simp add: and.assoc)
  then show "m AND XDP_FLAGS_MODES = m \<Longrightarrow> set_mode m x AND XDP_FLAGS_MODES = m"
    by (simp add: set_mode_def bit.conj_disj_distrib2)
qed

lemma mode_flags:
  "XDP_FLAGS_SKB_MODE AND XDP_FLAGS_MODES = XDP_FLAGS_SKB_MODE"
  "XDP_FLAGS_DRV_MODE AND XDP_FLAGS_MODES = XDP_FLAGS_DRV_MODE"
  "XDP_FLAGS_HW_MODE AND XDP_FLAGS_MODES = XDP_FLAGS_HW_MODE"
  by (simp_all add: XDP_FLAGS_MODES_def XDP_FLAGS_SKB_MODE_def XDP_FLAGS_DRV_MODE_def XDP_FLAGS_HW_MODE_def)

lemma user_mode_step:
  assumes "parse_option_user f o_arg v cfg = Next cfg' v'"
  shows "xdp_flags cfg' AND XDP_FLAGS_MODES = mode_step (xdp_flags cfg AND XDP_FLAGS_MODES) o_arg"
  using assms unfolding user_switch
  by (elim switchE) (auto simp: mode_step_def set_mode_bits mode_flags ord_def dest!: dev_steps)

lemma user_mode_loop:
  "parse_loop (parse_option_user f) use opts v cfg = Parsed cfg' v' \<Longrightarrow>
   xdp_flags cfg' AND XDP_FLAGS_MODES = foldl mode_step (xdp_flags cfg AND XDP_FLAGS_MODES) opts"
proof (induction opts arbitrary: v cfg)
  case (Cons o_arg opts)
  then show ?case by (auto split: option_step.splits dest: user_mode_step)
qed simp

lemma parse_loop_Exited: "parse_loop opt_case use opts v cfg = Exited code msgs out \<Longrightarrow> code = EXIT_FAIL_OPTION"
  by (induction opts arbitrary: v cfg) (auto split: option_step.splits)

section \<open>Properties\<close>

text \<open>
  the command line of the user-space variant.  Whatever the options are, the parser either
  leaves with exit code 2 or returns a configuration whose device names are terminated and
  resolved to a non-zero interface index, and whose attach mode is the one that the last of the
  options A, S, N and offload-mode selects (or the initial one when there is none), so at most
  one mode is selected.
\<close>

theorem parse_cmdline_args_user_result:
  assumes "dev_ok if_nametoindex cfg"
  shows "case parse_cmdline_args_user if_nametoindex malloc_ok prog doc ws opts v cfg of
           Exited code _ _ \<Rightarrow> code = EXIT_FAIL_OPTION
         | Parsed cfg' _ \<Rightarrow>
             malloc_ok \<and> dev_ok if_nametoindex cfg' \<and>
             xdp_flags cfg' AND XDP_FLAGS_MODES = foldl mode_step (xdp_flags cfg AND XDP_FLAGS_MODES) opts"
proof -
  have "dev_ok if_nametoindex cfg' \<and>
      xdp_flags cfg' AND XDP_FLAGS_MODES = foldl mode_step (xdp_flags cfg AND XDP_FLAGS_MODES) opts"
    if "parse_loop (parse_option_user if_nametoindex) (usage prog doc ws) opts v cfg = Parsed cfg' v'" for cfg' v'
    using user_dev.loop_keeps [OF assms that] user_mode_loop [OF that] by simp
  then show ?thesis
    using parse_loop_Exited [of "parse_option_user if_nametoindex" "usage prog doc ws" opts v cfg]
    by (auto simp: parse_cmdline_args_user_def option_wrappers_to_options_def Let_def split: parsed.split)
qed

theorem parse_cmdline_args_user_result_witness:
  "dev_ok (\<lambda>_. 4) config0 \<and>
   (case parse_cmdline_args_user (\<lambda>_. 4) True ''loader'' [] [] [(ord CHR ''S'', []), (ord CHR ''N'', [])] True config0 of
      Exited code _ _ \<Rightarrow> code = EXIT_FAIL_OPTION
    | Parsed cfg' _ \<Rightarrow> True \<and> dev_ok (\<lambda>_. 4) cfg' \<and>
        xdp_flags cfg' AND XDP_FLAGS_MODES =
          foldl mode_step (xdp_flags config0 AND XDP_FLAGS_MODES) [(ord CHR ''S'', []), (ord CHR ''N'', [])])"
proof -
  have ok: "dev_ok (\<lambda>_. 4) config0" by (simp add: dev_ok_def name_ok_def config0_def)
  show ?thesis
    using ok parse_cmdline_args_user_result [OF ok, where malloc_ok = True and prog = "''loader''" and doc = "[]"
        and ws = "[]" and opts = "[(ord CHR ''S'', []), (ord CHR ''N'', [])]" and v = True]
    by blast
qed

text \<open>
  Copy and zero-copy mode.  In the in-kernel variant no sequence of options ever sets both
  \<open>XDP_COPY\<close> and \<open>XDP_ZEROCOPY\<close> when they were not both set before.  In the user-space variant the
  option c after the option z sets both, because the flag to be cleared is the one that is kept.
\<close>

theorem copy_modes:
  "(parse_cmdline_args_kern f malloc_ok prog doc ws opts v cfg = Parsed cfg' v' \<and>
      one_copy_mode (xsk_bind_flags cfg) \<longrightarrow> one_copy_mode (xsk_bind_flags cfg')) \<and>
   (\<exists>ucfg'. parse_cmdline_args_user f True prog doc ws [(ord CHR ''z'', []), (ord CHR ''c'', [])] v ucfg = Parsed ucfg' v \<and>
      \<not> one_copy_mode (xsk_bind_flags ucfg'))"
proof (intro conjI impI)
  assume "parse_cmdline_args_kern f malloc_ok prog doc ws opts v cfg = Parsed cfg' v' \<and> one_copy_mode (xsk_bind_flags cfg)"
  then show "one_copy_mode (xsk_bind_flags cfg')"
    using kern_copy.loop_keeps [of cfg f "usage prog doc ws" opts v cfg' v']
    by (auto simp: parse_cmdline_args_kern_def split: option.splits)
next
  have "(((x AND XDP_COPY) OR XDP_ZEROCOPY) AND XDP_ZEROCOPY) OR XDP_COPY = XDP_ZEROCOPY OR XDP_COPY" for x
  proof -
    have "(x AND XDP_COPY) AND XDP_ZEROCOPY = 0" by (simp add: and.assoc) (simp add: XDP_COPY_def XDP_ZEROCOPY_def)
    then show ?thesis by (simp add: bit.conj_disj_distrib2)
  qed
  moreover have "\<not> one_copy_mode (XDP_ZEROCOPY OR XDP_COPY)"
    by (simp add: one_copy_mode_def XDP_ZEROCOPY_def XDP_COPY_def)
  ultimately show "\<exists>ucfg'. parse_cmdline_args_user f True prog doc ws [(ord CHR ''z'', []), (ord CHR ''c'', [])] v ucfg = Parsed ucfg' v \<and>
      \<not> one_copy_mode (xsk_bind_flags ucfg')"
    by (simp add: parse_cmdline_args_user_def option_wrappers_to_options_def parse_option_user_def ord_def Let_def)
qed

theorem copy_modes_witness:
  "one_copy_mode (xsk_bind_flags config0_kern) \<and>
   one_copy_mode (xsk_bind_flags (config0_kern\<lparr>xsk_bind_flags := (0 AND NOT XDP_COPY) OR XDP_ZEROCOPY\<rparr>))"
proof -
  have "parse_cmdline_args_kern (\<lambda>_. 4) True [] [] [] [(ord CHR ''z'', [])] True config0_kern =
      Parsed (config0_kern\<lparr>xsk_bind_flags := (0 AND NOT XDP_COPY) OR XDP_ZEROCOPY\<rparr>) True"
    by (simp add: parse_cmdline_args_kern_def option_wrappers_to_options_def parse_option_kern_def ord_def Let_def config0_kern_def)
  moreover have "one_copy_mode (xsk_bind_flags config0_kern)" by (simp add: one_copy_mode_def config0_kern_def)
  ultimately show ?thesis
    using copy_modes [of "\<lambda>_. 4" True "[]" "[]" "[]" "[(ord CHR ''z'', [])]" True config0_kern] by blast
qed

text \<open>
  Names from the command line.  A file name of at most 511 characters (a section name of at
  most 31) arrives in the configuration as it was given; a longer one leaves the array without
  a terminating zero byte.
\<close>

theorem long_names_unterminated:
  assumes "CHR 0x00 \<notin> set arg"
  shows "\<exists>cfg1 cfg2. parse_option_user f (1, arg) v cfg = Next cfg1 v \<and> parse_option_user f (2, arg) v cfg = Next cfg2 v \<and>
     (if length arg < 512 then terminated (filename cfg1) \<and> c_string (filename cfg1) = arg
      else \<not> terminated (filename cfg1)) \<and>
     (if length arg < 32 then terminated (progsec cfg2) \<and> c_string (progsec cfg2) = arg
      else \<not> terminated (progsec cfg2))"
  using strncpy_fits [OF assms] strncpy_cut [OF assms]
  by (simp add: parse_option_user_def ord_def)

theorem long_names_unterminated_witness:
  "\<exists>cfg1 cfg2. parse_option_user (\<lambda>_. 4) (1, replicate 40 CHR ''x'') True config0 = Next cfg1 True \<and>
     parse_option_user (\<lambda>_. 4) (2, replicate 40 CHR ''x'') True config0 = Next cfg2 True \<and>
     terminated (filename cfg1) \<and> \<not> terminated (progsec cfg2)"
  using long_names_unterminated [of "replicate 40 CHR ''x''" "\<lambda>_. 4" True config0] by auto

text \<open>
  The table for \<open>getopt_long\<close>.  It holds the options before the first entry with a null name,
  in order, and nothing else: the terminating all-zero entry that \<open>getopt_long\<close> requires is not
  part of it.
\<close>

theorem options_table_unterminated:
  assumes "option_wrappers_to_options malloc_ok (ws @ w # rest) = Some os"
    and "\<forall>x \<in> set ws. ow_name x \<noteq> None" "ow_name w = None"
  shows "os = map (\<lambda>x. (ow_name x, ow_has_arg x, ow_val x)) ws \<and> (\<forall>(name, _, _) \<in> set os. name \<noteq> None)"
proof -
  have t: "takeWhile (\<lambda>w. ow_name w \<noteq> None) (ws @ w # rest) = ws" using assms(2,3) by (simp add: takeWhile_tail)
  have "os = map (\<lambda>i. (ow_name ((ws @ w # rest) ! i), ow_has_arg ((ws @ w # rest) ! i), ow_val ((ws @ w # rest) ! i))) [0..<length ws]"
    using assms(1) unfolding option_wrappers_to_options_def t by (auto simp: Let_def split: if_splits)
  also have "\<dots> = map (\<lambda>x. (ow_name x, ow_has_arg x, ow_val x)) ws"
    by (rule nth_equalityI) (simp_all add: nth_append)
  finally show ?thesis using assms(2) by auto
qed

theorem options_table_unterminated_witness:
  "option_wrappers_to_options True
     [\<lparr>ow_name = Some ''help'', ow_has_arg = 0, ow_val = 104, ow_help = ''Show help'', ow_metavar = None, ow_required = False\<rparr>,
      \<lparr>ow_name = None, ow_has_arg = 0, ow_val = 0, ow_help = [], ow_metavar = None, ow_required = False\<rparr>] =
   Some [(Some ''help'', 0, 104)]"
proof -
  obtain os where os: "option_wrappers_to_options True
     ([\<lparr>ow_name = Some ''help'', ow_has_arg = 0, ow_val = 104, ow_help = ''Show help'', ow_metavar = None, ow_required = False\<rparr>] @
      \<lparr>ow_name = None, ow_has_arg = 0, ow_val = 0, ow_help = [], ow_metavar = None, ow_required = False\<rparr> # []) = Some os"
    by (simp add: option_wrappers_to_options_def Let_def)
  from options_table_unterminated [OF this] os show ?thesis by simp
qed

end
