(* ===== verification/Xdp_Link.thy ===== *)
theory Xdp_Link
  imports Common_Params
begin

text \<open>
  Attaching and detaching an XDP program: \<open>xdp_link_attach\<close> and \<open>xdp_link_detach\<close> of
  \<open>user+ebpf/main/common/common_user_bpf_xdp.c\<close>, and the helpers of the same file that look at
  actions and maps.  The netlink calls of libbpf act on the kernel's device table; they are an
  argument (\<open>link_ops\<close>), and the locale \<open>xdp_link\<close> states what their callers rely on.
\<close>

section \<open>Device hooks\<close>

text \<open>
  \<open>set_link_xdp_fd\<close> and \<open>get_link_xdp_id\<close> are the calls; \<open>hook\<close> observes which program (by file
  descriptor) is attached to an interface, and in which mode.
\<close>

record 's link_ops =
  set_link_xdp_fd :: "i32 \<Rightarrow> i32 \<Rightarrow> u32 \<Rightarrow> 's \<Rightarrow> int \<times> 's"
  get_link_xdp_id :: "i32 \<Rightarrow> u32 \<Rightarrow> 's \<Rightarrow> int \<times> u32"
  hook :: "'s \<Rightarrow> i32 \<Rightarrow> (u32 \<times> i32) option"


text \<open>The return code, the messages and the device table after the call.\<close>

definition xdp_link_attach ::
    "'s link_ops \<Rightarrow> i32 \<Rightarrow> u32 \<Rightarrow> i32 \<Rightarrow> 's \<Rightarrow> int \<times> string list \<times> 's" where
  "xdp_link_attach ops ifi flags prog_fd s =
     (let (err, s) = set_link_xdp_fd ops ifi prog_fd flags s;
          (err, s) =
            (if err = - EEXIST \<and> flags AND XDP_FLAGS_UPDATE_IF_NOEXIST = 0
             then
               (let old_flags = flags;
                    flags = flags AND NOT XDP_FLAGS_MODES;
                    flags = flags OR
                      (if old_flags AND XDP_FLAGS_SKB_MODE \<noteq> 0 then XDP_FLAGS_DRV_MODE else XDP_FLAGS_SKB_MODE);
                    (err, s) = set_link_xdp_fd ops ifi (- 1) flags s
                in if err = 0 then set_link_xdp_fd ops ifi prog_fd old_flags s else (err, s))
             else (err, s))
      in if err < 0
         then (EXIT_FAIL_XDP,
               ''ERR: link set xdp fd failed'' #
               (if - err = EBUSY \<or> - err = EEXIST
                then [''Hint: XDP already loaded on device use --force to swap/replace'']
                else if - err = EOPNOTSUPP
                then [''Hint: Native-XDP not supported use --skb-mode or --auto-mode'']
                else []), s)
         else (EXIT_OK, [], s))"

definition xdp_link_detach ::
    "'s link_ops \<Rightarrow> bool \<Rightarrow> i32 \<Rightarrow> u32 \<Rightarrow> u32 \<Rightarrow> 's \<Rightarrow> int \<times> string list \<times> 's" where
  "xdp_link_detach ops verbose ifi flags expected_prog_id s =
     (let (err, curr_prog_id) = get_link_xdp_id ops ifi flags s
      in if err \<noteq> 0 then (EXIT_FAIL_XDP, [''ERR: get link xdp id failed''], s)
         else if curr_prog_id = 0 then
           (EXIT_OK, if verbose then [''INFO: no curr XDP prog''] else [], s)
         else if expected_prog_id \<noteq> 0 \<and> curr_prog_id \<noteq> expected_prog_id then
           (EXIT_FAIL, [''ERR: expected prog ID no match, not removing''], s)
         else
           (let (err, s) = set_link_xdp_fd ops ifi (- 1) flags s
            in if err < 0 then (EXIT_FAIL_XDP, [''ERR: link set xdp failed''], s)
               else (EXIT_OK, if verbose then [''INFO: removed XDP prog''] else [], s)))"

section \<open>Actions and maps\<close>

text \<open>\<open>XDP_ACTION_MAX\<close> is one more than \<open>XDP_UNKNOWN\<close> in this file.\<close>

definition xdp_action_names :: "string list" where
  "xdp_action_names = [''XDP_ABORTED'', ''XDP_DROP'', ''XDP_PASS'', ''XDP_TX'', ''XDP_REDIRECT'', ''XDP_UNKNOWN'']"

definition XDP_ACTION_MAX :: nat where "XDP_ACTION_MAX = 6"

definition action2str :: "u32 \<Rightarrow> string option" where
  "action2str action = (if unat action < XDP_ACTION_MAX then Some (xdp_action_names ! unat action) else None)"

record bpf_map_info =
  mi_type :: u32
  mi_key_size :: u32
  mi_value_size :: u32
  mi_max_entries :: u32

definition check_map_fd_info :: "bpf_map_info \<Rightarrow> bpf_map_info \<Rightarrow> int" where
  "check_map_fd_info info expd =
     (if mi_key_size expd \<noteq> 0 \<and> mi_key_size expd \<noteq> mi_key_size info then EXIT_FAIL
      else if mi_value_size expd \<noteq> 0 \<and> mi_value_size expd \<noteq> mi_value_size info then EXIT_FAIL
      else if mi_max_entries expd \<noteq> 0 \<and> mi_max_entries expd \<noteq> mi_max_entries info then EXIT_FAIL
      else if mi_type expd \<noteq> 0 \<and> mi_type expd \<noteq> mi_type info then EXIT_FAIL
      else 0)"


text \<open>
  \<open>obj_get\<close> is \<open>bpf_obj_get\<close> and \<open>get_info\<close> is \<open>bpf_obj_get_info_by_fd\<close>; the result is the return
  value and what \<open>*info\<close> then holds.  \<open>snprintf\<close> cuts a long path to its buffer.
\<close>

definition open_bpf_map_file ::
    "(string \<Rightarrow> int) \<Rightarrow> (int \<Rightarrow> int \<times> bpf_map_info) \<Rightarrow> string \<Rightarrow> string \<Rightarrow> bpf_map_info option \<Rightarrow>
     int \<times> bpf_map_info option" where
  "open_bpf_map_file obj_get get_info dir mapname info =
     (let fd = obj_get (snprintf PATH_MAX (dir @ ''/'' @ mapname))
      in if fd < 0 then (fd, info)
         else (case info of
                 None \<Rightarrow> (fd, None)
               | Some old \<Rightarrow>
                   (let (err, new) = get_info fd
                    in if err \<noteq> 0 then (EXIT_FAIL_BPF, Some old) else (fd, Some new))))"

text \<open>
  A device table: one hook per interface; an occupied hook refuses a program of the other mode
  with \<open>EEXIST\<close>, and any program when \<open>UPDATE_IF_NOEXIST\<close> is set with \<open>EBUSY\<close>.  Removing
  succeeds without an effect when no program is attached in the mode of the flags.
\<close>

definition table_ops :: "(i32 \<Rightarrow> (u32 \<times> i32) option) link_ops" where
  "table_ops =
     \<lparr>set_link_xdp_fd = (\<lambda>i fd fl s.
        if sint fd < 0 then
          (0, case s i of None \<Rightarrow> s | Some (mode, _) \<Rightarrow> if mode = fl AND XDP_FLAGS_MODES then s(i := None) else s)
        else (case s i of
                None \<Rightarrow> (0, s(i \<mapsto> (fl AND XDP_FLAGS_MODES, fd)))
              | Some (mode, _) \<Rightarrow>
                  if mode \<noteq> fl AND XDP_FLAGS_MODES then (- EEXIST, s)
                  else if fl AND XDP_FLAGS_UPDATE_IF_NOEXIST \<noteq> 0 then (- EBUSY, s)
                  else (0, s(i \<mapsto> (fl AND XDP_FLAGS_MODES, fd))))),
      get_link_xdp_id = (\<lambda>i fl s. (0, if s i = None then 0 else 1)),
      hook = (\<lambda>s. s)\<rparr>"

section \<open>The contract of the link layer\<close>

text \<open>
  Removing acts on the mode that the flags select: a program that was attached in this mode is
  gone, one of another mode may stay.  A query that finds no program means that none is attached
  in the mode of the flags.
\<close>

definition detached :: "(i32 \<Rightarrow> (u32 \<times> i32) option) \<Rightarrow> i32 \<Rightarrow> u32 \<Rightarrow> (i32 \<Rightarrow> (u32 \<times> i32) option) \<Rightarrow> bool" where
  "detached h i fl h' \<longleftrightarrow>
     h' = h(i := None) \<or> h' = h \<and> (\<exists>mode fd. h i = Some (mode, fd) \<and> mode \<noteq> fl AND XDP_FLAGS_MODES)"

text \<open>The flags with the mode that a forced replacement removes first: generic for native and hardware, native for generic.\<close>

definition other_mode :: "u32 \<Rightarrow> u32" where
  "other_mode fl = (fl AND NOT XDP_FLAGS_MODES) OR
     (if fl AND XDP_FLAGS_SKB_MODE \<noteq> 0 then XDP_FLAGS_DRV_MODE else XDP_FLAGS_SKB_MODE)"

lemma detached_update: "detached h i fl h' \<Longrightarrow> h'(i \<mapsto> v) = h(i \<mapsto> v)"
  by (auto simp: detached_def)

locale xdp_link =
  fixes ops :: "'s link_ops"
  assumes set_error: "fst (set_link_xdp_fd ops i fd fl s) \<noteq> 0 \<Longrightarrow>
      fst (set_link_xdp_fd ops i fd fl s) < 0 \<and> snd (set_link_xdp_fd ops i fd fl s) = s"
    and set_attach: "fst (set_link_xdp_fd ops i fd fl s) = 0 \<Longrightarrow> sint fd \<ge> 0 \<Longrightarrow>
      hook ops (snd (set_link_xdp_fd ops i fd fl s)) = (hook ops s)(i \<mapsto> (fl AND XDP_FLAGS_MODES, fd))"
    and set_detach: "fst (set_link_xdp_fd ops i (- 1) fl s) = 0 \<Longrightarrow>
      detached (hook ops s) i fl (hook ops (snd (set_link_xdp_fd ops i (- 1) fl s)))"
    and set_noexist: "fl AND XDP_FLAGS_UPDATE_IF_NOEXIST \<noteq> 0 \<Longrightarrow> hook ops s i \<noteq> None \<Longrightarrow> sint fd \<ge> 0 \<Longrightarrow>
      fst (set_link_xdp_fd ops i fd fl s) \<noteq> 0"
    and get_id: "get_link_xdp_id ops i fl s = (0, 0) \<Longrightarrow> detached (hook ops s) i fl (hook ops s)"
begin

lemma attach_cases:
  assumes "sint fd \<ge> 0"
  shows "\<exists>(err :: int) s'. xdp_link_attach ops i fl fd s =
      (if err < 0 then EXIT_FAIL_XDP else EXIT_OK, fst (snd (xdp_link_attach ops i fl fd s)), s') \<and>
    (err \<ge> 0 \<longrightarrow> hook ops s' = (hook ops s)(i \<mapsto> (fl AND XDP_FLAGS_MODES, fd))) \<and>
    (err < 0 \<longrightarrow> s' = s \<or> (fl AND XDP_FLAGS_UPDATE_IF_NOEXIST = 0 \<and> hook ops s' \<in> {hook ops s, (hook ops s)(i := None)}))"
proof -
  obtain e1 s1 where c1: "set_link_xdp_fd ops i fd fl s = (e1, s1)" by force
  define fl' where "fl' = (fl AND NOT XDP_FLAGS_MODES) OR
      (if fl AND XDP_FLAGS_SKB_MODE \<noteq> 0 then XDP_FLAGS_DRV_MODE else XDP_FLAGS_SKB_MODE)"
  obtain e2 s2 where c2: "set_link_xdp_fd ops i (- 1) fl' s1 = (e2, s2)" by force
  obtain e3 s3 where c3: "set_link_xdp_fd ops i fd fl s2 = (e3, s3)" by force
  have l1: "e1 \<noteq> 0 \<Longrightarrow> e1 < 0 \<and> s1 = s" "e1 = 0 \<Longrightarrow> hook ops s1 = (hook ops s)(i \<mapsto> (fl AND XDP_FLAGS_MODES, fd))"
    using set_error [of i fd fl s] set_attach [of i fd fl s] assms c1 by simp_all
  have l2: "e2 \<noteq> 0 \<Longrightarrow> e2 < 0 \<and> s2 = s1" "e2 = 0 \<Longrightarrow> detached (hook ops s1) i fl' (hook ops s2)"
    using set_error [of i "- 1" fl' s1] set_detach [of i fl' s1] c2 by simp_all
  have l3: "e3 \<noteq> 0 \<Longrightarrow> e3 < 0 \<and> s3 = s2" "e3 = 0 \<Longrightarrow> hook ops s3 = (hook ops s2)(i \<mapsto> (fl AND XDP_FLAGS_MODES, fd))"
    using set_error [of i fd fl s2] set_attach [of i fd fl s2] assms c3 by simp_all
  show ?thesis
  proof (cases "e1 = - EEXIST \<and> fl AND XDP_FLAGS_UPDATE_IF_NOEXIST = 0")
    case False
    then show ?thesis using l1
      by - (rule exI [of _ e1], rule exI [of _ s1], auto simp: xdp_link_attach_def c1 Let_def)
  next
    case True
    then have s1: "s1 = s" using l1(1) by (simp add: EEXIST_def)
    show ?thesis
    proof (cases "e2 = 0")
      case True
      then have "hook ops s2 \<in> {hook ops s, (hook ops s)(i := None)}" "e3 = 0 \<Longrightarrow> hook ops s3 = (hook ops s)(i \<mapsto> (fl AND XDP_FLAGS_MODES, fd))"
        using l2(2) l3(2) detached_update s1 by (auto simp: detached_def)
      then show ?thesis using \<open>e1 = - EEXIST \<and> _\<close> s1 True l3(1)
        by - (rule exI [of _ e3], rule exI [of _ s3], auto simp: xdp_link_attach_def c1 c2 [unfolded s1] c3 Let_def simp flip: fl'_def)
    next
      case False
      then show ?thesis using \<open>e1 = - EEXIST \<and> _\<close> s1 l2(1)
        by - (rule exI [of _ e2], rule exI [of _ s2], auto simp: xdp_link_attach_def c1 c2 [unfolded s1] Let_def simp flip: fl'_def)
    qed
  qed
qed

lemma attach_calls:
  fixes s :: 's and i fd :: i32 and fl :: u32
  defines "r \<equiv> xdp_link_attach ops i fl fd s" and "e1 \<equiv> fst (set_link_xdp_fd ops i fd fl s)"
    and "c2 \<equiv> set_link_xdp_fd ops i (- 1) (other_mode fl) s"
  defines "e3 \<equiv> fst (set_link_xdp_fd ops i fd fl (snd c2))"
  shows "e1 = 0 \<Longrightarrow> fst r = EXIT_OK"
    and "e1 \<noteq> 0 \<Longrightarrow> e1 \<noteq> - EEXIST \<or> fl AND XDP_FLAGS_UPDATE_IF_NOEXIST \<noteq> 0 \<Longrightarrow> fst r = EXIT_FAIL_XDP \<and> snd (snd r) = s"
    and "e1 = - EEXIST \<Longrightarrow> fl AND XDP_FLAGS_UPDATE_IF_NOEXIST = 0 \<Longrightarrow>
      (if fst c2 \<noteq> 0 then fst r = EXIT_FAIL_XDP \<and> snd (snd r) = s
       else if e3 = 0 then fst r = EXIT_OK \<and> snd (snd r) = snd (set_link_xdp_fd ops i fd fl (snd c2))
       else fst r = EXIT_FAIL_XDP \<and> snd (snd r) = snd c2)"
proof -
  obtain x1 s1 where c1: "set_link_xdp_fd ops i fd fl s = (x1, s1)" by force
  obtain x2 s2 where c2: "set_link_xdp_fd ops i (- 1) (other_mode fl) s = (x2, s2)" by force
  obtain x3 s3 where c3: "set_link_xdp_fd ops i fd fl s2 = (x3, s3)" by force
  have l: "x1 \<noteq> 0 \<Longrightarrow> x1 < 0 \<and> s1 = s" "x2 \<noteq> 0 \<Longrightarrow> x2 < 0 \<and> s2 = s" "x3 \<noteq> 0 \<Longrightarrow> x3 < 0 \<and> s3 = s2"
    using set_error [of i fd fl s] set_error [of i "- 1" "other_mode fl" s] set_error [of i fd fl s2] c1 c2 c3 by simp_all
  have EE: "- EEXIST \<noteq> 0" by (simp add: EEXIST_def)
  note d = r_def e1_def c2_def e3_def xdp_link_attach_def Let_def c1 c2 c3 fst_conv snd_conv prod.case
  show "e1 = 0 \<Longrightarrow> fst r = EXIT_OK" using EE by (simp add: d)
  show "e1 \<noteq> 0 \<Longrightarrow> e1 \<noteq> - EEXIST \<or> fl AND XDP_FLAGS_UPDATE_IF_NOEXIST \<noteq> 0 \<Longrightarrow> fst r = EXIT_FAIL_XDP \<and> snd (snd r) = s"
    using l(1) by (auto simp: d)
  assume e: "e1 = - EEXIST" "fl AND XDP_FLAGS_UPDATE_IF_NOEXIST = 0"
  then have x1: "x1 = - EEXIST" "s1 = s" using l(1) EE by (simp_all add: d)
  have "r = (if (if x2 = 0 then x3 else x2) < 0 then EXIT_FAIL_XDP else EXIT_OK, fst (snd r), if x2 = 0 then s3 else s2)"
    using e(2) x1 c2 c3 by (simp add: r_def xdp_link_attach_def Let_def c1 flip: other_mode_def)
  from arg_cong [OF this, of fst] arg_cong [OF this, of "\<lambda>r. snd (snd r)"]
  show "if fst c2 \<noteq> 0 then fst r = EXIT_FAIL_XDP \<and> snd (snd r) = s
       else if e3 = 0 then fst r = EXIT_OK \<and> snd (snd r) = snd (set_link_xdp_fd ops i fd fl (snd c2))
       else fst r = EXIT_FAIL_XDP \<and> snd (snd r) = snd c2"
    using l(2,3) by (simp add: c2_def e3_def c2 c3)
qed

lemma attach_code:
  assumes "\<not> sint fd \<le> 0" "xdp_link_attach ops i fl fd s = (err, m, s1)"
  shows "(err = 0 \<longrightarrow> hook ops s1 = (hook ops s)(i \<mapsto> (fl AND XDP_FLAGS_MODES, fd))) \<and> (err \<noteq> 0 \<longrightarrow> err = EXIT_FAIL_XDP)"
  using attach_cases [of fd i fl s] assms by (auto simp: EXIT_OK_def EXIT_FAIL_XDP_def split: if_splits)

lemma attach_noexist:
  assumes "sint fd \<ge> 0" "fl AND XDP_FLAGS_UPDATE_IF_NOEXIST \<noteq> 0" "hook ops s i \<noteq> None"
  shows "fst (xdp_link_attach ops i fl fd s) = EXIT_FAIL_XDP \<and> snd (snd (xdp_link_attach ops i fl fd s)) = s"
proof -
  obtain e s' where c: "set_link_xdp_fd ops i fd fl s = (e, s')" by force
  then have "e < 0" "s' = s" using set_noexist [OF assms(2,3,1)] set_error [of i fd fl s] by auto
  then show ?thesis using assms(2) c by (simp add: xdp_link_attach_def)
qed

lemma detach_result:
  fixes s :: 's and i :: i32 and fl expd :: u32 and v :: bool
  defines "r \<equiv> xdp_link_detach ops v i fl expd s"
  shows "fst r = EXIT_OK \<Longrightarrow> detached (hook ops s) i fl (hook ops (snd (snd r)))"
    and "fst r \<noteq> EXIT_OK \<Longrightarrow> snd (snd r) = s"
proof -
  obtain e2 s2 where c2: "set_link_xdp_fd ops i (- 1) fl s = (e2, s2)" by force
  have l2: "e2 \<noteq> 0 \<Longrightarrow> e2 < 0 \<and> s2 = s" "e2 = 0 \<Longrightarrow> detached (hook ops s) i fl (hook ops s2)"
    using set_error [of i "- 1" fl s] set_detach [of i fl s] c2 by simp_all
  have "get_link_xdp_id ops i fl s = (0, 0) \<Longrightarrow> detached (hook ops s) i fl (hook ops s)"
    by (rule get_id)
  then show "fst r = EXIT_OK \<Longrightarrow> detached (hook ops s) i fl (hook ops (snd (snd r)))"
    using l2 by (auto simp: r_def xdp_link_detach_def c2 EXIT_OK_def EXIT_FAIL_def EXIT_FAIL_XDP_def Let_def
        split: if_splits prod.splits)
  show "fst r \<noteq> EXIT_OK \<Longrightarrow> snd (snd r) = s"
    using l2 by (auto simp: r_def xdp_link_detach_def c2 Let_def split: if_splits prod.splits)
qed

end

text \<open>A device table with one hook per interface is an instance.\<close>

interpretation table: xdp_link table_ops
proof
  fix i fd :: i32 and fl :: u32 and s :: "i32 \<Rightarrow> (u32 \<times> i32) option"
  show "fst (set_link_xdp_fd table_ops i (- 1) fl s) = 0 \<Longrightarrow>
      detached (hook table_ops s) i fl (hook table_ops (snd (set_link_xdp_fd table_ops i (- 1) fl s)))"
    by (auto simp: table_ops_def detached_def fun_upd_idem split: option.splits if_splits)
qed (auto simp: table_ops_def detached_def fun_upd_idem EBUSY_def EEXIST_def split: if_splits option.splits)

section \<open>Properties\<close>

text \<open>
  C14: attaching.  \<open>xdp_link_attach\<close> returns 0 only with the program attached to the interface in
  the mode of the flags, and otherwise 30.  Without force it fails on an occupied interface and
  changes nothing.  With force a failure may have removed the program that was attached, never
  more; no other interface changes in any case.  Call by call: when the kernel accepts the
  program the result is 0; when it refuses it with another error than \<open>EEXIST\<close>, or without force, the
  result is 30 and nothing has changed; when it refuses a forced program with \<open>EEXIST\<close>, the
  program of the other mode is removed and the program is attached again: the result is 0 when both
  succeed, and 30 otherwise, with nothing changed when the removal failed, and with what the
  removal left when the second attempt failed.
\<close>

theorem attach_result:
  fixes ops :: "'s link_ops" and fl :: u32 and i fd :: i32 and s :: 's
  assumes "xdp_link ops" "sint fd \<ge> 0"
  defines "r \<equiv> xdp_link_attach ops i fl fd s" and "e1 \<equiv> fst (set_link_xdp_fd ops i fd fl s)"
    and "c2 \<equiv> set_link_xdp_fd ops i (- 1) (other_mode fl) s"
  shows "(fst r = EXIT_OK \<longrightarrow> hook ops (snd (snd r)) = (hook ops s)(i \<mapsto> (fl AND XDP_FLAGS_MODES, fd))) \<and>
         (fst r \<noteq> EXIT_OK \<longrightarrow> fst r = EXIT_FAIL_XDP \<and>
            (snd (snd r) = s \<or>
             fl AND XDP_FLAGS_UPDATE_IF_NOEXIST = 0 \<and> hook ops (snd (snd r)) \<in> {hook ops s, (hook ops s)(i := None)})) \<and>
         (fl AND XDP_FLAGS_UPDATE_IF_NOEXIST \<noteq> 0 \<and> hook ops s i \<noteq> None \<longrightarrow>
            fst r = EXIT_FAIL_XDP \<and> snd (snd r) = s) \<and>
         (e1 = 0 \<longrightarrow> fst r = EXIT_OK) \<and>
         (e1 \<noteq> 0 \<and> (e1 \<noteq> - EEXIST \<or> fl AND XDP_FLAGS_UPDATE_IF_NOEXIST \<noteq> 0) \<longrightarrow> fst r = EXIT_FAIL_XDP \<and> snd (snd r) = s) \<and>
         (e1 = - EEXIST \<and> fl AND XDP_FLAGS_UPDATE_IF_NOEXIST = 0 \<longrightarrow>
            (if fst c2 \<noteq> 0 then fst r = EXIT_FAIL_XDP \<and> snd (snd r) = s
             else if fst (set_link_xdp_fd ops i fd fl (snd c2)) = 0
             then fst r = EXIT_OK \<and> snd (snd r) = snd (set_link_xdp_fd ops i fd fl (snd c2))
             else fst r = EXIT_FAIL_XDP \<and> snd (snd r) = snd c2))"
proof -
  obtain err s' where r: "r = (if (err :: int) < 0 then EXIT_FAIL_XDP else EXIT_OK, fst (snd r), s')"
      "err \<ge> 0 \<longrightarrow> hook ops s' = (hook ops s)(i \<mapsto> (fl AND XDP_FLAGS_MODES, fd))"
      "err < 0 \<longrightarrow> s' = s \<or> (fl AND XDP_FLAGS_UPDATE_IF_NOEXIST = 0 \<and> hook ops s' \<in> {hook ops s, (hook ops s)(i := None)})"
    using xdp_link.attach_cases [OF assms(1,2), of i fl s] unfolding r_def by blast
  have f: "fst r = (if err < 0 then EXIT_FAIL_XDP else EXIT_OK)" "snd (snd r) = s'"
    using arg_cong [OF r(1), of fst] arg_cong [OF r(1), of "\<lambda>r. snd (snd r)"] by simp_all
  have "fl AND XDP_FLAGS_UPDATE_IF_NOEXIST \<noteq> 0 \<and> hook ops s i \<noteq> None \<longrightarrow> fst r = EXIT_FAIL_XDP \<and> snd (snd r) = s"
    using xdp_link.attach_noexist [OF assms(1,2), of fl s i] by (simp add: r_def)
  note occupied = this
  have "(fst r = EXIT_OK \<longrightarrow> hook ops (snd (snd r)) = (hook ops s)(i \<mapsto> (fl AND XDP_FLAGS_MODES, fd))) \<and>
         (fst r \<noteq> EXIT_OK \<longrightarrow> fst r = EXIT_FAIL_XDP \<and> (snd (snd r) = s \<or>
             fl AND XDP_FLAGS_UPDATE_IF_NOEXIST = 0 \<and> hook ops (snd (snd r)) \<in> {hook ops s, (hook ops s)(i := None)}))"
    using r(2,3) unfolding f by (auto simp: EXIT_OK_def EXIT_FAIL_XDP_def split: if_splits)
  then show ?thesis using occupied xdp_link.attach_calls [OF assms(1), of i fd fl s, folded r_def e1_def c2_def] by blast
qed

text \<open>A native program takes the place of a generic one: the first attempt is refused, the forced replacement succeeds.\<close>

theorem attach_result_witness:
  "fst (xdp_link_attach table_ops 2 XDP_FLAGS_DRV_MODE 7 ((\<lambda>_. None)(2 \<mapsto> (XDP_FLAGS_SKB_MODE, 5)))) = EXIT_OK \<and>
   hook table_ops (snd (snd (xdp_link_attach table_ops 2 XDP_FLAGS_DRV_MODE 7 ((\<lambda>_. None)(2 \<mapsto> (XDP_FLAGS_SKB_MODE, 5)))))) 2
     = Some (XDP_FLAGS_DRV_MODE AND XDP_FLAGS_MODES, 7)"
proof -
  let ?s = "(\<lambda>_. None)(2 \<mapsto> (XDP_FLAGS_SKB_MODE, 5)) :: i32 \<Rightarrow> (u32 \<times> i32) option"
  note d = table_ops_def other_mode_def EEXIST_def EBUSY_def XDP_FLAGS_SKB_MODE_def XDP_FLAGS_DRV_MODE_def
    XDP_FLAGS_HW_MODE_def XDP_FLAGS_MODES_def XDP_FLAGS_UPDATE_IF_NOEXIST_def
  have "fst (set_link_xdp_fd table_ops 2 7 XDP_FLAGS_DRV_MODE ?s) = - EEXIST" "XDP_FLAGS_DRV_MODE AND XDP_FLAGS_UPDATE_IF_NOEXIST = 0"
    "set_link_xdp_fd table_ops 2 (- 1) (other_mode XDP_FLAGS_DRV_MODE) ?s = (0, \<lambda>_. None)"
    "set_link_xdp_fd table_ops 2 7 XDP_FLAGS_DRV_MODE (\<lambda>_. None) = (0, (\<lambda>_. None)(2 \<mapsto> (XDP_FLAGS_DRV_MODE AND XDP_FLAGS_MODES, 7)))"
    by (simp_all add: d fun_eq_iff)
  note c = this
  have "0 \<le> sint (7 :: i32)" by simp
  note r = attach_result [OF table.xdp_link_axioms this, of 2 XDP_FLAGS_DRV_MODE ?s]
  have ok: "fst (xdp_link_attach table_ops 2 XDP_FLAGS_DRV_MODE 7 ?s) = EXIT_OK" using r c by simp
  then show ?thesis using r [THEN conjunct1] by simp
qed

text \<open>
  Detaching.  \<open>xdp_link_detach\<close> returns 0 only when no program is left on the interface, or one that
  was attached in another mode than that of the flags; all other interfaces are as they were.  With
  any other code nothing has changed.
\<close>

theorem detach_leaves_nothing:
  assumes "xdp_link ops"
  shows "case xdp_link_detach ops v i fl expd s of
           (code, _, s') \<Rightarrow>
             if code = EXIT_OK then
               hook ops s' = (hook ops s)(i := None) \<or>
               hook ops s' = hook ops s \<and> (\<exists>mode fd. hook ops s i = Some (mode, fd) \<and> mode \<noteq> fl AND XDP_FLAGS_MODES)
             else s' = s"
  using xdp_link.detach_result [OF assms, of v i fl expd s] by (auto simp: detached_def split: prod.splits)

theorem detach_leaves_nothing_witness:
  "hook table_ops (snd (snd (xdp_link_detach table_ops True 2 XDP_FLAGS_SKB_MODE 0 ((\<lambda>_. None)(2 \<mapsto> (XDP_FLAGS_SKB_MODE, 5)))))) 2 = None"
proof -
  let ?s = "(\<lambda>_. None)(2 \<mapsto> (XDP_FLAGS_SKB_MODE, 5)) :: i32 \<Rightarrow> (u32 \<times> i32) option"
  have "fst (xdp_link_detach table_ops True 2 XDP_FLAGS_SKB_MODE 0 ?s) = EXIT_OK"
    by (simp add: xdp_link_detach_def table_ops_def EXIT_OK_def)
  moreover have "XDP_FLAGS_SKB_MODE AND XDP_FLAGS_MODES = XDP_FLAGS_SKB_MODE"
    by (simp add: XDP_FLAGS_SKB_MODE_def XDP_FLAGS_MODES_def XDP_FLAGS_DRV_MODE_def XDP_FLAGS_HW_MODE_def)
  ultimately show ?thesis
    using detach_leaves_nothing [OF table.xdp_link_axioms, where v = True and i = 2 and fl = XDP_FLAGS_SKB_MODE and expd = 0 and s = ?s]
    by (auto simp: table_ops_def split: prod.splits)
qed

text \<open>
  A program that was attached in the other mode stays, although \<open>xdp_link_detach\<close> returns 0 and
  reports that it removed the program.
\<close>

theorem detach_other_mode_stays:
  "case xdp_link_detach table_ops True 2 XDP_FLAGS_DRV_MODE 0 ((\<lambda>_. None)(2 \<mapsto> (XDP_FLAGS_SKB_MODE, 5))) of
     (code, msgs, s') \<Rightarrow> code = EXIT_OK \<and> msgs = [''INFO: removed XDP prog''] \<and> hook table_ops s' 2 = Some (XDP_FLAGS_SKB_MODE, 5)"
  by (simp add: xdp_link_detach_def table_ops_def EXIT_OK_def XDP_FLAGS_SKB_MODE_def XDP_FLAGS_MODES_def XDP_FLAGS_DRV_MODE_def XDP_FLAGS_HW_MODE_def)

text \<open>
  Checking a map.  \<open>check_map_fd_info\<close> accepts a map exactly when each of the four attributes
  that the caller expects (those it set to a non-zero value) is the map's.
\<close>

theorem check_map_fd_info_spec:
  "check_map_fd_info info expd = 0 \<longleftrightarrow>
     (\<forall>(want, got) \<in> {(mi_key_size expd, mi_key_size info), (mi_value_size expd, mi_value_size info),
                      (mi_max_entries expd, mi_max_entries info), (mi_type expd, mi_type info)}.
        want = 0 \<or> want = got)"
  by (auto simp: check_map_fd_info_def EXIT_FAIL_def)

theorem check_map_fd_info_spec_witness:
  "check_map_fd_info \<lparr>mi_type = 1, mi_key_size = 4, mi_value_size = 12, mi_max_entries = 100000\<rparr>
     \<lparr>mi_type = 0, mi_key_size = 4, mi_value_size = 0, mi_max_entries = 0\<rparr> = 0"
  using check_map_fd_info_spec [of "\<lparr>mi_type = 1, mi_key_size = 4, mi_value_size = 12, mi_max_entries = 100000\<rparr>"
      "\<lparr>mi_type = 0, mi_key_size = 4, mi_value_size = 0, mi_max_entries = 0\<rparr>"] by simp

end
