(* ===== verification/Bpf_Object.thy ===== *)
theory Bpf_Object
  imports Xdp_Link
begin

text \<open>
  Loading an object file: \<open>common/common_libbpf.c\<close> (the same file in both variants) and the
  loading half of \<open>common/common_user_bpf_xdp.c\<close>.  A \<open>bpf_object\<close> is the part of libbpf's struct
  that this code reads and writes: its programs and maps, in the order in which libbpf iterates
  over them.  What libbpf and the kernel do with an object (opening, verifying and loading it,
  pinning) is an argument, \<open>obj_env\<close>.
\<close>

section \<open>Objects\<close>

record bpf_program =
  p_title :: string
  p_type :: int
  p_ifindex :: i32
  p_attach :: int
  p_fd :: i32

record bpf_map_rec =
  m_name :: string
  m_neutral :: bool
  m_ifindex :: i32
  m_fd :: int

record bpf_object =
  o_programs :: "bpf_program list"
  o_maps :: "bpf_map_rec list"

record obj_env =
  obj_open :: "string \<Rightarrow> bpf_object option"
  obj_load :: "bpf_object \<Rightarrow> int \<times> bpf_object"
  prog_load_xattr :: "string \<Rightarrow> i32 \<Rightarrow> int \<times> bpf_object"
  obj_get :: "string \<Rightarrow> int"
  map_reuse_fd :: "bpf_map_rec \<Rightarrow> int \<Rightarrow> int \<times> bpf_map_rec"
  map_pin :: "bpf_map_rec \<Rightarrow> string \<Rightarrow> int"


definition BPF_PROG_TYPE_XDP :: int where "BPF_PROG_TYPE_XDP = 6"

section \<open>Loading with pinned maps\<close>

record pinned_map =
  pm_name :: string
  pm_filename :: string
  pm_fd :: int

record load_attr =
  la_file :: "string option"
  la_type :: int
  la_attach :: int
  la_ifindex :: i32
  la_pinned :: "pinned_map list"

text \<open>
  The loop over the pinned maps for one map of the object, before the object is loaded.  The
  name is read once, before the loop, as in the source.
\<close>

fun reuse_pinned :: "obj_env \<Rightarrow> string \<Rightarrow> bpf_map_rec \<Rightarrow> pinned_map list \<Rightarrow> bpf_map_rec \<times> pinned_map list" where
  "reuse_pinned env mapname m [] = (m, [])"
| "reuse_pinned env mapname m (p # ps) =
     (let fd = obj_get env (pm_filename p);
          (m, p) =
            (if mapname \<noteq> pm_name p then (m, p)
             else if fd > 0 then (snd (map_reuse_fd env m fd), p\<lparr>pm_fd := fd\<rparr>)
             else (m, p));
          (m, ps) = reuse_pinned env mapname m ps
      in (m, p # ps))"

fun reuse_all :: "obj_env \<Rightarrow> i32 \<Rightarrow> bpf_map_rec list \<Rightarrow> pinned_map list \<Rightarrow> bpf_map_rec list \<times> pinned_map list" where
  "reuse_all env ifi [] ps = ([], ps)"
| "reuse_all env ifi (m # ms) ps =
     (let mapname = m_name m;
          m = (if \<not> m_neutral m then m\<lparr>m_ifindex := ifi\<rparr> else m);
          (m, ps) = reuse_pinned env mapname m ps;
          (ms, ps) = reuse_all env ifi ms ps
      in (m # ms, ps))"

text \<open>The loop that pins what was not reused, after the object is loaded.\<close>

definition pin_one :: "obj_env \<Rightarrow> bpf_map_rec \<Rightarrow> pinned_map \<Rightarrow> pinned_map" where
  "pin_one env m p =
     (if m_name m \<noteq> pm_name p then p
      else if pm_fd p \<noteq> - 1 then p
      else if map_pin env m (pm_filename p) \<noteq> 0 then p
      else p\<lparr>pm_fd := m_fd m\<rparr>)"

definition pin_all :: "obj_env \<Rightarrow> bpf_map_rec list \<Rightarrow> pinned_map list \<Rightarrow> pinned_map list" where
  "pin_all env ms ps = fold (\<lambda>m ps. map (pin_one env m) ps) ms ps"

text \<open>The return value, and the object, program and pinned maps on success, with the warnings.\<close>

definition bpf_prog_load_xattr_maps ::
    "obj_env \<Rightarrow> load_attr option \<Rightarrow> int \<times> (bpf_object \<times> i32) option \<times> pinned_map list \<times> string list" where
  "bpf_prog_load_xattr_maps env attr =
     (case attr of
        None \<Rightarrow> (- EINVAL, None, [], [])
      | Some attr \<Rightarrow>
          (case la_file attr of
             None \<Rightarrow> (- EINVAL, None, la_pinned attr, [])
           | Some file \<Rightarrow>
               (case obj_open env file of
                  None \<Rightarrow> (- ENOENT, None, la_pinned attr, [])
                | Some obj \<Rightarrow>
                    (let progs = map (\<lambda>prog. prog\<lparr>p_ifindex := la_ifindex attr, p_type := la_type attr,
                                                  p_attach := la_attach attr\<rparr>) (o_programs obj);
                         pins = map (\<lambda>p. p\<lparr>pm_fd := - 1\<rparr>) (la_pinned attr);
                         (maps, pins) = reuse_all env (la_ifindex attr) (o_maps obj) pins;
                         obj = obj\<lparr>o_programs := progs, o_maps := maps\<rparr>
                     in if o_programs obj = []
                        then (- ENOENT, None, pins, [''object file doesn't contain bpf program''])
                        else
                          (let (err, obj) = obj_load env obj
                           in if err \<noteq> 0 then (- EINVAL, None, pins, [])
                              else
                                (let pins = pin_all env (o_maps obj) pins
                                 in (0, Some (obj, p_fd (hd (o_programs obj))), pins,
                                     map (\<lambda>p. ''requested mapname not seen: '' @ pm_name p)
                                       (filter (\<lambda>p. pm_fd p < 0) pins))))))))"

section \<open>Loading and attaching\<close>

definition load_bpf_object_file :: "obj_env \<Rightarrow> string \<Rightarrow> i32 \<Rightarrow> bpf_object option" where
  "load_bpf_object_file env file ifi =
     (let (err, obj) = prog_load_xattr env file ifi in if err \<noteq> 0 then None else Some obj)"

definition open_bpf_object :: "obj_env \<Rightarrow> string \<Rightarrow> i32 \<Rightarrow> bpf_object option" where
  "open_bpf_object env file ifi =
     (case obj_open env file of
        None \<Rightarrow> None
      | Some obj \<Rightarrow>
          (let obj = obj\<lparr>o_programs := map (\<lambda>prog. prog\<lparr>p_type := BPF_PROG_TYPE_XDP, p_ifindex := ifi\<rparr>) (o_programs obj),
                         o_maps := map (\<lambda>m. if \<not> m_neutral m then m\<lparr>m_ifindex := ifi\<rparr> else m) (o_maps obj)\<rparr>
           in if o_programs obj = [] then None else Some obj))"

fun reuse_maps_loop :: "obj_env \<Rightarrow> string \<Rightarrow> bpf_map_rec list \<Rightarrow> int \<times> bpf_map_rec list" where
  "reuse_maps_loop env path [] = (0, [])"
| "reuse_maps_loop env path (m # ms) =
     (let name = path @ ''/'' @ m_name m
      in if length name \<ge> PATH_MAX then (- ENAMETOOLONG, m # ms)
         else
           (let pinned_map_fd = obj_get env (snprintf PATH_MAX name)
            in if pinned_map_fd < 0 then (pinned_map_fd, m # ms)
               else
                 (let (err, m) = map_reuse_fd env m pinned_map_fd
                  in if err \<noteq> 0 then (err, m # ms)
                     else (let (err, ms) = reuse_maps_loop env path ms in (err, m # ms)))))"

definition reuse_maps :: "obj_env \<Rightarrow> bpf_object option \<Rightarrow> string option \<Rightarrow> int \<times> bpf_object option" where
  "reuse_maps env obj path =
     (case obj of
        None \<Rightarrow> (- ENOENT, None)
      | Some o1 \<Rightarrow>
          (case path of
             None \<Rightarrow> (- EINVAL, Some o1)
           | Some path \<Rightarrow>
               (let (err, maps) = reuse_maps_loop env path (o_maps o1) in (err, Some (o1\<lparr>o_maps := maps\<rparr>)))))"

definition load_bpf_object_file_reuse_maps :: "obj_env \<Rightarrow> string \<Rightarrow> i32 \<Rightarrow> string \<Rightarrow> bpf_object option" where
  "load_bpf_object_file_reuse_maps env file ifi dir =
     (case open_bpf_object env file ifi of
        None \<Rightarrow> None
      | Some obj \<Rightarrow>
          (let (err, obj) = reuse_maps env (Some obj) (Some dir)
           in if err \<noteq> 0 then None
              else (let (err, obj) = obj_load env (the obj) in if err \<noteq> 0 then None else Some obj)))"

text \<open>The process ends with an exit code, or goes on.\<close>

datatype 'a run = Go 'a | Exit int

definition find_program_by_title :: "bpf_object \<Rightarrow> string \<Rightarrow> bpf_program option" where
  "find_program_by_title obj title = find (\<lambda>p. p_title p = title) (o_programs obj)"

definition load_bpf_and_xdp_attach ::
    "obj_env \<Rightarrow> 's link_ops \<Rightarrow> config_user \<Rightarrow> 's \<Rightarrow> (bpf_object \<times> config_user) run \<times> 's" where
  "load_bpf_and_xdp_attach env ops cfg s =
     (let offload_ifindex = (if xdp_flags cfg AND XDP_FLAGS_HW_MODE \<noteq> 0 then ifindex cfg else 0);
          bpf_obj =
            (if reuse_maps_flag cfg
             then load_bpf_object_file_reuse_maps env (c_string (filename cfg)) offload_ifindex (c_string (pin_dir cfg))
             else load_bpf_object_file env (c_string (filename cfg)) offload_ifindex)
      in case bpf_obj of
           None \<Rightarrow> (Exit EXIT_FAIL_BPF, s)
         | Some bpf_obj \<Rightarrow>
             (case (if c_string (progsec cfg) \<noteq> [] then find_program_by_title bpf_obj (c_string (progsec cfg))
                    else (case o_programs bpf_obj of [] \<Rightarrow> None | p # _ \<Rightarrow> Some p)) of
                None \<Rightarrow> (Exit EXIT_FAIL_BPF, s)
              | Some bpf_prog \<Rightarrow>
                  (let cfg = cfg\<lparr>progsec := strncpy 32 (p_title bpf_prog)\<rparr>;
                       prog_fd = p_fd bpf_prog
                   in if sint prog_fd \<le> 0 then (Exit EXIT_FAIL_BPF, s)
                      else
                        (let (err, _, s) = xdp_link_attach ops (ifindex cfg) (xdp_flags cfg) prog_fd s
                         in if err \<noteq> 0 then (Exit err, s) else (Go (bpf_obj, cfg), s)))))"

section \<open>Specification\<close>

text \<open>The descriptor that a pinned map ends up with, given the maps of the loaded object.\<close>

definition pinned_fd :: "obj_env \<Rightarrow> bpf_map_rec list \<Rightarrow> pinned_map \<Rightarrow> int" where
  "pinned_fd env ms p =
     (case find (\<lambda>m. m_name m = pm_name p) ms of
        None \<Rightarrow> - 1
      | Some m \<Rightarrow>
          if obj_get env (pm_filename p) > 0 then obj_get env (pm_filename p)
          else if map_pin env m (pm_filename p) = 0 then m_fd m else - 1)"

text \<open>An environment in which every file holds one program and the maps of the detector.\<close>

definition sample_object :: bpf_object where
  "sample_object =
     \<lparr>o_programs = [\<lparr>p_title = ''xdp_filter'', p_type = 0, p_ifindex = 0, p_attach = 0, p_fd = 9\<rparr>],
      o_maps = [\<lparr>m_name = ''logger'', m_neutral = False, m_ifindex = 0, m_fd = 3\<rparr>,
                \<lparr>m_name = ''blacklist'', m_neutral = False, m_ifindex = 0, m_fd = 4\<rparr>,
                \<lparr>m_name = ''data'', m_neutral = False, m_ifindex = 0, m_fd = 5\<rparr>,
                \<lparr>m_name = ''tx_port'', m_neutral = False, m_ifindex = 0, m_fd = 6\<rparr>]\<rparr>"

definition sample_env :: obj_env where
  "sample_env =
     \<lparr>obj_open = (\<lambda>_. Some sample_object), obj_load = (\<lambda>obj. (0, obj)),
      prog_load_xattr = (\<lambda>_ _. (0, sample_object)),
      obj_get = (\<lambda>f. if f = ''/sys/fs/bpf/data'' then 12 else - 2),
      map_reuse_fd = (\<lambda>m fd. (0, m\<lparr>m_fd := fd\<rparr>)), map_pin = (\<lambda>_ _. 0)\<rparr>"

section \<open>Pinned maps\<close>

text \<open>Reusing and loading keep the names of the maps.\<close>

locale obj_names =
  fixes env :: obj_env
  assumes reuse_name: "m_name (snd (map_reuse_fd env m fd)) = m_name m"
    and load_names: "fst (obj_load env obj) = 0 \<Longrightarrow>
      map m_name (o_maps (snd (obj_load env obj))) = map m_name (o_maps obj)"
begin

lemma reuse_pinned_result:
  "m_name (fst (reuse_pinned env n m ps)) = m_name m \<and>
   snd (reuse_pinned env n m ps) =
     map (\<lambda>p. if n = pm_name p \<and> obj_get env (pm_filename p) > 0 then p\<lparr>pm_fd := obj_get env (pm_filename p)\<rparr> else p) ps"
proof (induction ps arbitrary: m)
  case (Cons p ps)
  show ?case
    using Cons.IH [of m] Cons.IH [of "snd (map_reuse_fd env m (obj_get env (pm_filename p)))"]
      reuse_name [of m "obj_get env (pm_filename p)"]
    by (auto simp: Let_def split: prod.splits)
qed simp

lemma reuse_all_result:
  "map m_name (fst (reuse_all env ifi ms ps)) = map m_name ms \<and>
   snd (reuse_all env ifi ms ps) =
     map (\<lambda>p. if pm_name p \<in> m_name ` set ms \<and> obj_get env (pm_filename p) > 0
              then p\<lparr>pm_fd := obj_get env (pm_filename p)\<rparr> else p) ps"
proof (induction ms arbitrary: ps)
  case Nil
  then show ?case by (simp add: map_idI)
next
  case (Cons m ms)
  let ?m = "if \<not> m_neutral m then m\<lparr>m_ifindex := ifi\<rparr> else m"
  obtain m1 ps1 where r: "reuse_pinned env (m_name m) ?m ps = (m1, ps1)" by force
  have r1: "m_name m1 = m_name m"
      "ps1 = map (\<lambda>p. if m_name m = pm_name p \<and> obj_get env (pm_filename p) > 0 then p\<lparr>pm_fd := obj_get env (pm_filename p)\<rparr> else p) ps"
    using reuse_pinned_result [of "m_name m" ?m ps] r by (auto split: if_splits)
  obtain ms2 ps2 where s: "reuse_all env ifi ms ps1 = (ms2, ps2)" by force
  have "reuse_all env ifi (m # ms) ps = (m1 # ms2, ps2)" using r s by (simp add: Let_def)
  then show ?case using Cons.IH [of ps1] s r1 by auto
qed

lemma pin_one_keys: "pm_name (pin_one env m p) = pm_name p" "pm_filename (pin_one env m p) = pm_filename p"
  by (simp_all add: pin_one_def)

lemma pin_all_map: "pin_all env ms ps = map (\<lambda>p. fold (pin_one env) ms p) ps"
  unfolding pin_all_def by (induction ms arbitrary: ps) (simp_all add: comp_def)

lemma fold_pin_other: "pm_name p \<notin> m_name ` set ms \<Longrightarrow> fold (pin_one env) ms p = p"
  by (induction ms) (auto simp: pin_one_def)

lemma fold_pin_one:
  assumes "distinct (map m_name ms)"
  shows "fold (pin_one env) ms p =
    (case find (\<lambda>m. m_name m = pm_name p) ms of None \<Rightarrow> p | Some m \<Rightarrow> pin_one env m p)"
  using assms
proof (induction ms)
  case (Cons m ms)
  show ?case
  proof (cases "m_name m = pm_name p")
    case True
    then have "fold (pin_one env) ms (pin_one env m p) = pin_one env m p"
      using Cons.prems by (intro fold_pin_other) (auto simp: pin_one_keys)
    then show ?thesis using True by simp
  next
    case False
    then have "pin_one env m p = p" by (simp add: pin_one_def)
    then show ?thesis using False Cons by simp
  qed
qed simp

lemma find_name_None: "find (\<lambda>m. m_name m = n) ms = None \<longleftrightarrow> n \<notin> m_name ` set ms"
  by (auto simp: find_None_iff)

lemma pin_result:
  assumes "distinct (map m_name ms)"
  shows "fold (pin_one env) ms
      (if pm_name p \<in> m_name ` set ms \<and> obj_get env (pm_filename p) > 0
       then p\<lparr>pm_fd := obj_get env (pm_filename p)\<rparr> else p\<lparr>pm_fd := - 1\<rparr>) =
    p\<lparr>pm_fd := pinned_fd env ms p\<rparr>"
proof (cases "find (\<lambda>m. m_name m = pm_name p) ms")
  case None
  then show ?thesis
    using find_name_None [of "pm_name p" ms] by (simp add: fold_pin_one [OF assms] pinned_fd_def)
next
  case (Some m)
  then have m: "m \<in> set ms" "m_name m = pm_name p" by (auto simp: find_Some_iff)
  then have "pm_name p \<in> m_name ` set ms" by (metis imageI)
  then show ?thesis using Some m(2) by (simp add: fold_pin_one [OF assms] pinned_fd_def pin_one_def)
qed

lemma load_maps_pins:
  assumes "bpf_prog_load_xattr_maps env (Some attr) = (0, r, pins, warn)"
    and "\<And>obj. obj_open env (the (la_file attr)) = Some obj \<Longrightarrow> distinct (map m_name (o_maps obj))"
  shows "\<exists>obj fd. r = Some (obj, fd) \<and>
    pins = map (\<lambda>p. p\<lparr>pm_fd := pinned_fd env (o_maps obj) p\<rparr>) (la_pinned attr)"
proof -
  obtain fname obj0 where f: "la_file attr = Some fname" "obj_open env fname = Some obj0"
    using assms(1) by (auto simp: bpf_prog_load_xattr_maps_def EINVAL_def ENOENT_def split: option.splits)
  define ps0 where "ps0 = map (\<lambda>p. p\<lparr>pm_fd := - 1\<rparr>) (la_pinned attr)"
  obtain ms ps1 where ra: "reuse_all env (la_ifindex attr) (o_maps obj0) ps0 = (ms, ps1)" by force
  have ra': "map m_name ms = map m_name (o_maps obj0)"
      "ps1 = map (\<lambda>p. if pm_name p \<in> m_name ` set (o_maps obj0) \<and> obj_get env (pm_filename p) > 0
              then p\<lparr>pm_fd := obj_get env (pm_filename p)\<rparr> else p) ps0"
    using reuse_all_result [of "la_ifindex attr" "o_maps obj0" ps0] ra by simp_all
  define obj1 where "obj1 = obj0\<lparr>o_programs := map (\<lambda>prog. prog\<lparr>p_ifindex := la_ifindex attr, p_type := la_type attr,
      p_attach := la_attach attr\<rparr>) (o_programs obj0), o_maps := ms\<rparr>"
  obtain err obj2 where ld: "obj_load env obj1 = (err, obj2)" by force
  have res: "err = 0" "\<exists>fd. r = Some (obj2, fd)" "pins = pin_all env (o_maps obj2) ps1"
    using assms(1) f ra ld
    by (auto simp: bpf_prog_load_xattr_maps_def EINVAL_def ENOENT_def Let_def split: if_splits
        simp flip: ps0_def obj1_def)
  have names: "map m_name (o_maps obj2) = map m_name (o_maps obj0)"
    using load_names [of obj1] ld res(1) ra'(1) by (simp add: obj1_def)
  then have d: "distinct (map m_name (o_maps obj2))" using assms(2) f by simp
  have n: "m_name ` set (o_maps obj0) = m_name ` set (o_maps obj2)" using names by (metis image_set)
  have "pins = map (\<lambda>p. p\<lparr>pm_fd := pinned_fd env (o_maps obj2) p\<rparr>) (la_pinned attr)"
    unfolding res(3) pin_all_map ra'(2) ps0_def map_map n pin_result [OF d, symmetric] by (simp add: comp_def)
  then show ?thesis using res(2) by blast
qed

end

interpretation sample: obj_names sample_env
  by unfold_locales (simp_all add: sample_env_def)

section \<open>Loading\<close>

lemma reuse_maps_loop_result:
  "reuse_maps_loop env path ms = (err, ms') \<Longrightarrow>
   (err = 0 \<longleftrightarrow> list_all2 (\<lambda>m m'. length (path @ ''/'' @ m_name m) < PATH_MAX \<and>
      obj_get env (path @ ''/'' @ m_name m) \<ge> 0 \<and>
      map_reuse_fd env m (obj_get env (path @ ''/'' @ m_name m)) = (0, m')) ms ms') \<and> length ms' = length ms"
proof (induction ms arbitrary: err ms')
  case (Cons m ms)
  have cut: "length n < PATH_MAX \<Longrightarrow> snprintf PATH_MAX n = n" for n by (simp add: snprintf_def)
  show ?case
    using Cons.prems Cons.IH cut
    by (fastforce simp: Let_def ENAMETOOLONG_def split: if_splits prod.splits)
qed simp

section \<open>Properties\<close>

text \<open>
  Pinned maps.  When \<open>bpf_prog_load_xattr_maps\<close> succeeds on an object whose maps have
  distinct names, each requested pinned map carries the descriptor of its pinned file if that
  could be opened, else the descriptor of the object's own map if pinning it succeeded, else
  -1; a requested name that the object does not have carries -1.
\<close>

theorem pinned_maps_resolved:
  assumes "obj_names env" "la_file attr = Some fname" "obj_open env fname = Some obj0"
    and "distinct (map m_name (o_maps obj0))"
    and "bpf_prog_load_xattr_maps env (Some attr) = (0, r, pins, warn)"
  shows "\<exists>obj fd. r = Some (obj, fd) \<and>
           pins = map (\<lambda>p. p\<lparr>pm_fd := pinned_fd env (o_maps obj) p\<rparr>) (la_pinned attr)"
  using obj_names.load_maps_pins [OF assms(1,5)] assms(2-4) by simp

theorem pinned_maps_resolved_witness:
  "\<exists>obj fd. fst (snd (bpf_prog_load_xattr_maps sample_env (Some
       \<lparr>la_file = Some ''k.o'', la_type = 6, la_attach = 0, la_ifindex = 0,
        la_pinned = [\<lparr>pm_name = ''data'', pm_filename = ''/sys/fs/bpf/data'', pm_fd = 0\<rparr>]\<rparr>))) = Some (obj, fd) \<and>
     fst (snd (snd (bpf_prog_load_xattr_maps sample_env (Some
       \<lparr>la_file = Some ''k.o'', la_type = 6, la_attach = 0, la_ifindex = 0,
        la_pinned = [\<lparr>pm_name = ''data'', pm_filename = ''/sys/fs/bpf/data'', pm_fd = 0\<rparr>]\<rparr>)))) =
       [\<lparr>pm_name = ''data'', pm_filename = ''/sys/fs/bpf/data'',
         pm_fd = pinned_fd sample_env (o_maps obj) \<lparr>pm_name = ''data'', pm_filename = ''/sys/fs/bpf/data'', pm_fd = 0\<rparr>\<rparr>]"
proof -
  let ?attr = "\<lparr>la_file = Some ''k.o'', la_type = 6, la_attach = 0, la_ifindex = 0,
        la_pinned = [\<lparr>pm_name = ''data'', pm_filename = ''/sys/fs/bpf/data'', pm_fd = 0\<rparr>]\<rparr>"
  obtain r pins warn where x: "bpf_prog_load_xattr_maps sample_env (Some ?attr) = (0, r, pins, warn)"
    by (simp add: bpf_prog_load_xattr_maps_def sample_env_def sample_object_def Let_def)
  have "distinct (map m_name (o_maps sample_object))" by (simp add: sample_object_def)
  then show ?thesis
    using pinned_maps_resolved [OF sample.obj_names_axioms _ _ _ x, of "''k.o''" sample_object] x
    by (simp add: sample_env_def)
qed

text \<open>
  reusing pinned maps.  \<open>reuse_maps\<close> returns 0 exactly when for every map of the object the
  path fits its buffer, the pinned file opens, and the object's map takes over its descriptor;
  it never adds or removes a map.
\<close>

theorem reuse_maps_complete:
  assumes "reuse_maps env (Some obj) (Some path) = (err, Some obj')"
  shows "o_programs obj' = o_programs obj \<and> length (o_maps obj') = length (o_maps obj) \<and>
         (err = 0 \<longleftrightarrow>
            list_all2 (\<lambda>m m'. length (path @ ''/'' @ m_name m) < PATH_MAX \<and>
                obj_get env (path @ ''/'' @ m_name m) \<ge> 0 \<and>
                map_reuse_fd env m (obj_get env (path @ ''/'' @ m_name m)) = (0, m')) (o_maps obj) (o_maps obj'))"
proof -
  obtain e ms where l: "reuse_maps_loop env path (o_maps obj) = (e, ms)" by force
  then have "err = e" "obj' = obj\<lparr>o_maps := ms\<rparr>" using assms by (auto simp: reuse_maps_def)
  then show ?thesis using reuse_maps_loop_result [OF l] by simp
qed

theorem reuse_maps_complete_witness:
  "fst (reuse_maps sample_env (Some (sample_object\<lparr>o_maps := [\<lparr>m_name = ''data'', m_neutral = False, m_ifindex = 0, m_fd = 5\<rparr>]\<rparr>))
     (Some ''/sys/fs/bpf'')) = 0"
proof -
  let ?obj = "sample_object\<lparr>o_maps := [\<lparr>m_name = ''data'', m_neutral = False, m_ifindex = 0, m_fd = 5\<rparr>]\<rparr>"
  have "reuse_maps sample_env (Some ?obj) (Some ''/sys/fs/bpf'') =
      (fst (reuse_maps sample_env (Some ?obj) (Some ''/sys/fs/bpf'')),
       Some (?obj\<lparr>o_maps := [\<lparr>m_name = ''data'', m_neutral = False, m_ifindex = 0, m_fd = 12\<rparr>]\<rparr>))"
    by (simp add: reuse_maps_def sample_env_def snprintf_def PATH_MAX_def)
  from reuse_maps_complete [OF this] show ?thesis by (simp add: sample_env_def PATH_MAX_def)
qed

text \<open>
  Loading and attaching.  The process goes on only when a program of the loaded object, the
  one whose section was asked for or the first one, is attached to the configured interface in
  the configured mode.  It exits with 40 before touching the interface, or with 30 when the
  attachment failed.
\<close>

theorem load_attaches_section:
  assumes "xdp_link ops" "load_bpf_and_xdp_attach env ops cfg s = (result, s')"
  shows "case result of
           Go (obj, cfg') \<Rightarrow>
             (\<exists>p \<in> set (o_programs obj).
                (c_string (progsec cfg) \<noteq> [] \<longrightarrow> p_title p = c_string (progsec cfg)) \<and>
                hook ops s' = (hook ops s)(ifindex cfg \<mapsto> (xdp_flags cfg AND XDP_FLAGS_MODES, p_fd p)))
         | Exit code \<Rightarrow> (code = EXIT_FAIL_BPF \<and> s' = s) \<or> code = EXIT_FAIL_XDP"
proof -
  define bo where "bo =
    (if reuse_maps_flag cfg
     then load_bpf_object_file_reuse_maps env (c_string (filename cfg))
            (if xdp_flags cfg AND XDP_FLAGS_HW_MODE \<noteq> 0 then ifindex cfg else 0) (c_string (pin_dir cfg))
     else load_bpf_object_file env (c_string (filename cfg))
            (if xdp_flags cfg AND XDP_FLAGS_HW_MODE \<noteq> 0 then ifindex cfg else 0))"
  define sel where "sel = (\<lambda>obj. if c_string (progsec cfg) \<noteq> [] then find_program_by_title obj (c_string (progsec cfg))
         else (case o_programs obj of [] \<Rightarrow> None | p # _ \<Rightarrow> Some p))"
  have prog: "p \<in> set (o_programs obj) \<and> (c_string (progsec cfg) \<noteq> [] \<longrightarrow> p_title p = c_string (progsec cfg))"
    if "sel obj = Some p" for p obj
    using that by (auto simp: sel_def find_program_by_title_def find_Some_iff split: if_splits list.splits)
  have keep: "ifindex (cfg\<lparr>progsec := x\<rparr>) = ifindex cfg" "xdp_flags (cfg\<lparr>progsec := x\<rparr>) = xdp_flags cfg" for x
    by simp_all
  have def: "(case bo of None \<Rightarrow> (Exit EXIT_FAIL_BPF, s)
     | Some obj \<Rightarrow> (case sel obj of None \<Rightarrow> (Exit EXIT_FAIL_BPF, s)
         | Some p \<Rightarrow> if sint (p_fd p) \<le> 0 then (Exit EXIT_FAIL_BPF, s)
             else (case xdp_link_attach ops (ifindex cfg) (xdp_flags cfg) (p_fd p) s of
                 (err, _, s) \<Rightarrow> if err \<noteq> 0 then (Exit err, s)
                   else (Go (obj, cfg\<lparr>progsec := strncpy 32 (p_title p)\<rparr>), s)))) = (result, s')"
    using assms(2) unfolding load_bpf_and_xdp_attach_def Let_def keep bo_def sel_def .
  show ?thesis
  proof (cases "\<exists>obj p. bo = Some obj \<and> sel obj = Some p \<and> \<not> sint (p_fd p) \<le> 0")
    case False
    then have "result = Exit EXIT_FAIL_BPF" "s' = s" using def by (auto split: option.splits)
    then show ?thesis by simp
  next
    case True
    then obtain obj p where op: "bo = Some obj" "sel obj = Some p" "\<not> sint (p_fd p) \<le> 0" by blast
    obtain err m s1 where a: "xdp_link_attach ops (ifindex cfg) (xdp_flags cfg) (p_fd p) s = (err, m, s1)"
      by (metis prod_cases3)
    have "(err = 0 \<longrightarrow> hook ops s1 = (hook ops s)(ifindex cfg \<mapsto> (xdp_flags cfg AND XDP_FLAGS_MODES, p_fd p))) \<and>
        (err \<noteq> 0 \<longrightarrow> err = EXIT_FAIL_XDP)"
      using xdp_link.attach_code [OF assms(1) op(3) a] .
    then show ?thesis using def op a prog [OF op(2)] by (cases "err = 0") auto
  qed
qed

theorem load_attaches_section_witness:
  "case fst (load_bpf_and_xdp_attach sample_env table_ops (config0\<lparr>ifindex := 2\<rparr>) (\<lambda>_. None)) of
     Go (obj, cfg') \<Rightarrow>
       (\<exists>p \<in> set (o_programs obj).
          (c_string (progsec (config0\<lparr>ifindex := 2\<rparr>)) \<noteq> [] \<longrightarrow> p_title p = c_string (progsec (config0\<lparr>ifindex := 2\<rparr>))) \<and>
          hook table_ops (snd (load_bpf_and_xdp_attach sample_env table_ops (config0\<lparr>ifindex := 2\<rparr>) (\<lambda>_. None))) =
            (hook table_ops (\<lambda>_. None))(ifindex (config0\<lparr>ifindex := 2\<rparr>) \<mapsto> (xdp_flags (config0\<lparr>ifindex := 2\<rparr>) AND XDP_FLAGS_MODES, p_fd p)))
   | Exit code \<Rightarrow> (code = EXIT_FAIL_BPF \<and>
         snd (load_bpf_and_xdp_attach sample_env table_ops (config0\<lparr>ifindex := 2\<rparr>) (\<lambda>_. None)) = (\<lambda>_. None)) \<or>
       code = EXIT_FAIL_XDP"
  using load_attaches_section [OF table.xdp_link_axioms prod.collapse [symmetric],
      where env = sample_env and cfg = "config0\<lparr>ifindex := 2\<rparr>" and s = "\<lambda>_. None"]
  .

end
