(* ===== verification/Loader_Main.thy ===== *)
theory Loader_Main
  imports Bpf_Object
begin

text \<open>
  The start of the user-space loader, \<open>user+ebpf/main/xdp_loader.c\<close>: its option table, loading
  and attaching the object, pinning its maps, and \<open>main\<close> up to its endless loop (the loop is in
  the theory \<open>Loader_Ent\<close>).  Besides libbpf, the file system calls are an argument.
\<close>

section \<open>Options\<close>

definition wrap :: "string \<Rightarrow> int \<Rightarrow> int \<Rightarrow> string \<Rightarrow> string option \<Rightarrow> bool \<Rightarrow> option_wrapper" where
  "wrap name has_arg val help metavar required =
     \<lparr>ow_name = Some name, ow_has_arg = has_arg, ow_val = val, ow_help = help, ow_metavar = metavar, ow_required = required\<rparr>"

definition long_options :: "option_wrapper list" where
  "long_options =
     [wrap ''help'' 0 (ord CHR ''h'') ''Show help'' None False,
      wrap ''force'' 0 (ord CHR ''F'') ''Force install, replacing existing program on interface'' None False,
      wrap ''dev'' 1 (ord CHR ''d'') ''Operate on device <ifname>'' (Some ''<ifname>'') True,
      wrap ''filename'' 1 1 ''Store packet sample into <file>'' (Some ''<file>'') False,
      wrap ''quiet'' 0 (ord CHR ''q'') ''Quiet mode (no output)'' None False,
      wrap ''unload'' 0 (ord CHR ''U'') ''Unload XDP program instead of loading'' None False,
      wrap ''udef'' 0 (ord CHR ''i'') ''Add user defined filter'' None False,
      \<lparr>ow_name = None, ow_has_arg = 0, ow_val = 0, ow_help = [], ow_metavar = None, ow_required = False\<rparr>]"

section \<open>Loading, attaching and pinning\<close>

definition load_bpf_object_file_loader :: "obj_env \<Rightarrow> string \<Rightarrow> i32 \<Rightarrow> bpf_object option" where
  "load_bpf_object_file_loader env fname ifi =
     (let (err, obj) = prog_load_xattr env ''xdp_prog_kern.o'' ifi in if err \<noteq> 0 then None else Some obj)"

definition load_bpf_and_xdp_attach_loader ::
    "obj_env \<Rightarrow> 's link_ops \<Rightarrow> config_user \<Rightarrow> 's \<Rightarrow> bpf_object run \<times> 's" where
  "load_bpf_and_xdp_attach_loader env ops cfg s =
     (let offload_ifindex = (if xdp_flags cfg AND XDP_FLAGS_HW_MODE \<noteq> 0 then ifindex cfg else 0)
      in case load_bpf_object_file_loader env (c_string (filename cfg)) offload_ifindex of
           None \<Rightarrow> (Exit EXIT_FAIL_BPF, s)
         | Some bpf_obj \<Rightarrow>
             (case find_program_by_title bpf_obj (c_string (progsec cfg)) of
                None \<Rightarrow> (Exit EXIT_FAIL_BPF, s)
              | Some bpf_prog \<Rightarrow>
                  (let prog_fd = p_fd bpf_prog
                   in if sint prog_fd \<le> 0 then (Exit EXIT_FAIL_BPF, s)
                      else
                        (let (err, _, s) = xdp_link_attach ops (ifindex cfg) (xdp_flags cfg) prog_fd s
                         in if err \<noteq> 0 then (Exit err, s) else (Go bpf_obj, s)))))"

text \<open>
  The calls on the bpf file system and on the maps behind it: whether a file exists, libbpf's
  unpinning and pinning of all maps of an object in a directory, and the update of a map.  Their
  state is a type of its own.
\<close>

record 'f pin_env =
  file_exists :: "string \<Rightarrow> 'f \<Rightarrow> bool"
  unpin_maps :: "bpf_object \<Rightarrow> string \<Rightarrow> 'f \<Rightarrow> int \<times> 'f"
  pin_maps :: "bpf_object \<Rightarrow> string \<Rightarrow> 'f \<Rightarrow> int \<times> 'f"
  update_elem :: "int \<Rightarrow> i32 \<Rightarrow> i32 \<Rightarrow> u64 \<Rightarrow> 'f \<Rightarrow> int \<times> 'f"

definition pin_basedir :: string where "pin_basedir = ''/sys/fs/bpf''"
definition map_name :: string where "map_name = ''map''"

definition pin_maps_in_bpf_object :: "'f pin_env \<Rightarrow> bpf_object \<Rightarrow> string \<Rightarrow> 'f \<Rightarrow> int \<times> 'f" where
  "pin_maps_in_bpf_object penv bpf_obj subdir fs =
     (let dir = snprintf 4096 (pin_basedir @ ''/'' @ subdir);
          map_filename = snprintf 4096 (pin_basedir @ ''/'' @ subdir @ ''/'' @ map_name);
          (err, fs) = (if file_exists penv map_filename fs then unpin_maps penv bpf_obj dir fs else (0, fs))
      in if err \<noteq> 0 then (EXIT_FAIL_BPF, fs)
         else
           (let (err, fs) = pin_maps penv bpf_obj dir fs
            in if err \<noteq> 0 then (EXIT_FAIL_BPF, fs) else (0, fs)))"

section \<open>The main function\<close>

record loader_fds =
  logger_fd :: int
  blacklist_fd :: int
  data_fd :: int
  tx_port_fd :: int

text \<open>\<open>bpf_map__next\<close>: the maps of the object one after the other.\<close>

definition nth_map :: "bpf_object \<Rightarrow> nat \<Rightarrow> bpf_map_rec option" where
  "nth_map obj n = (if n < length (o_maps obj) then Some (o_maps obj ! n) else None)"

definition find_maps :: "bpf_object \<Rightarrow> loader_fds run" where
  "find_maps obj =
     (case nth_map obj 0 of
        None \<Rightarrow> Exit 1
      | Some logger \<Rightarrow>
          (case nth_map obj 1 of
             None \<Rightarrow> Exit 1
           | Some blacklist \<Rightarrow>
               (case nth_map obj 2 of
                  None \<Rightarrow> Exit 1
                | Some data \<Rightarrow>
                    (case nth_map obj 3 of
                       None \<Rightarrow> Exit 1
                     | Some tx_port \<Rightarrow>
                         Go \<lparr>logger_fd = m_fd logger, blacklist_fd = m_fd blacklist,
                              data_fd = m_fd data, tx_port_fd = m_fd tx_port\<rparr>))))"

definition default_config :: config_user where
  "default_config = config0\<lparr>progsec := strncpy 32 ''xdp_filter''\<rparr>"

text \<open>
  \<open>main\<close> up to its loop: \<open>opts\<close> is what \<open>getopt_long\<close> finds, \<open>rlimit_ok\<close> says whether
  \<open>setrlimit\<close> succeeds, \<open>s\<close> is the state of the devices and \<open>fs\<close> that of the bpf file system and
  the maps.  The code of the pinning is not looked at, and a failed update of the device map is
  only reported.
\<close>

definition loader_main ::
    "obj_env \<Rightarrow> 's link_ops \<Rightarrow> 'f pin_env \<Rightarrow> (string \<Rightarrow> i32) \<Rightarrow> bool \<Rightarrow> bool \<Rightarrow> string \<Rightarrow>
     (int \<times> string) list \<Rightarrow> 's \<Rightarrow> 'f \<Rightarrow> loader_fds run \<times> 's \<times> 'f" where
  "loader_main env ops penv if_nametoindex malloc_ok rlimit_ok argv0 opts s fs =
     (case parse_cmdline_args_user if_nametoindex malloc_ok argv0 ''XDP sample packet'' long_options opts True default_config of
        Exited code _ _ \<Rightarrow> (Exit code, s, fs)
      | Parsed cfg verbose \<Rightarrow>
          (if ifindex cfg = - 1 then (Exit EXIT_FAIL_OPTION, s, fs)
           else if \<not> rlimit_ok then (Exit 1, s, fs)
           else
             (let cfg = cfg\<lparr>filename := strncpy 512 (snprintf 512 ''xdp_prog_kern.o'')\<rparr>
              in if do_unload_flag cfg
                 then (let (code, _, s) = xdp_link_detach ops verbose (ifindex cfg) (xdp_flags cfg) 0 s in (Exit code, s, fs))
                 else
                   (case load_bpf_and_xdp_attach_loader env ops cfg s of
                      (Exit code, s) \<Rightarrow> (Exit code, s, fs)
                    | (Go obj, s) \<Rightarrow>
                        (let (_, fs) = pin_maps_in_bpf_object penv obj (c_string (ifname_buf cfg)) fs
                         in case find_maps obj of
                              Exit code \<Rightarrow> (Exit code, s, fs)
                            | Go fds \<Rightarrow> (let (ret, fs) = update_elem penv (tx_port_fd fds) 0 4 0 fs in (Go fds, s, fs)))))))"

section \<open>Loading\<close>

text \<open>What loading comes to, given the object that libbpf returned and the code of the attach.\<close>

lemma load_loader_result:
  assumes "prog_load_xattr env ''xdp_prog_kern.o'' (if xdp_flags cfg AND XDP_FLAGS_HW_MODE \<noteq> 0 then ifindex cfg else 0) = (err, obj)"
  defines "po \<equiv> (if err \<noteq> 0 then None else find_program_by_title obj (c_string (progsec cfg)))"
  shows "po = None \<Longrightarrow> load_bpf_and_xdp_attach_loader env ops cfg s = (Exit EXIT_FAIL_BPF, s)"
    and "po = Some p \<Longrightarrow> sint (p_fd p) \<le> 0 \<Longrightarrow> load_bpf_and_xdp_attach_loader env ops cfg s = (Exit EXIT_FAIL_BPF, s)"
    and "po = Some p \<Longrightarrow> \<not> sint (p_fd p) \<le> 0 \<Longrightarrow> xdp_link_attach ops (ifindex cfg) (xdp_flags cfg) (p_fd p) s = (code, m, s') \<Longrightarrow>
      load_bpf_and_xdp_attach_loader env ops cfg s = (if code \<noteq> 0 then Exit code else Go obj, s')"
  unfolding load_bpf_and_xdp_attach_loader_def load_bpf_object_file_loader_def Let_def assms(1) po_def
  by (simp_all split: if_splits)

lemma find_maps_cases:
  "find_maps obj = (if 4 \<le> length (o_maps obj)
     then Go \<lparr>logger_fd = m_fd (o_maps obj ! 0), blacklist_fd = m_fd (o_maps obj ! 1),
              data_fd = m_fd (o_maps obj ! 2), tx_port_fd = m_fd (o_maps obj ! 3)\<rparr>
     else Exit 1)"
  by (simp add: find_maps_def nth_map_def)

lemma detach_codes: "fst (xdp_link_detach ops v i fl e s) \<in> {EXIT_OK, EXIT_FAIL, EXIT_FAIL_XDP}"
  by (simp add: xdp_link_detach_def Let_def split: prod.split)

lemma default_modes: "xdp_flags default_config AND XDP_FLAGS_MODES = XDP_FLAGS_DRV_MODE"
  by (simp add: default_config_def config0_def XDP_FLAGS_MODES_def XDP_FLAGS_UPDATE_IF_NOEXIST_def
      XDP_FLAGS_SKB_MODE_def XDP_FLAGS_DRV_MODE_def XDP_FLAGS_HW_MODE_def)

lemma exit_code_simps:
  "EXIT_OK = 0" "EXIT_FAIL = 1" "EXIT_FAIL_OPTION = 2" "EXIT_FAIL_XDP = 30" "EXIT_FAIL_BPF = 40"
  by (simp_all add: EXIT_OK_def EXIT_FAIL_def EXIT_FAIL_OPTION_def EXIT_FAIL_XDP_def EXIT_FAIL_BPF_def)

lemma exited_code:
  "parse_cmdline_args_user f malloc_ok argv0 doc opts_tab opts v cfg = Exited code msgs shown \<Longrightarrow> code = EXIT_FAIL_OPTION"
  by (auto simp: parse_cmdline_args_user_def split: option.splits dest: parse_loop_Exited)

lemma parsed_modes:
  assumes "parse_cmdline_args_user f malloc_ok argv0 doc opts_tab opts v default_config = Parsed cfg v'"
  shows "xdp_flags cfg AND XDP_FLAGS_MODES = foldl mode_step XDP_FLAGS_DRV_MODE opts"
  using assms user_mode_loop [of f _ opts v default_config cfg v']
  by (auto simp: parse_cmdline_args_user_def default_modes split: option.splits)

text \<open>Unloading: code 0 only when nothing is left in the mode of the flags, any other code without a change.\<close>

definition unloaded :: "'s link_ops \<Rightarrow> config_user \<Rightarrow> 's \<Rightarrow> int \<Rightarrow> 's \<Rightarrow> bool" where
  "unloaded ops cfg s code s' \<longleftrightarrow>
     (if code = 0 then detached (hook ops s) (ifindex cfg) (xdp_flags cfg) (hook ops s')
      else code \<in> {1, 30} \<and> s' = s)"

text \<open>
  Attaching the program \<open>p\<close>: code 0 with \<open>p\<close> on the interface, or code 30, with the program
  removed at most that was attached before, and that only when replacing was asked for.
\<close>

definition attached :: "'s link_ops \<Rightarrow> config_user \<Rightarrow> bpf_program \<Rightarrow> 's \<Rightarrow> int \<Rightarrow> 's \<Rightarrow> bool" where
  "attached ops cfg p s code s' \<longleftrightarrow>
     (if code = 0 then hook ops s' = (hook ops s)(ifindex cfg \<mapsto> (xdp_flags cfg AND XDP_FLAGS_MODES, p_fd p))
      else code = 30 \<and> (s' = s \<or> xdp_flags cfg AND XDP_FLAGS_UPDATE_IF_NOEXIST = 0 \<and>
             hook ops s' \<in> {hook ops s, (hook ops s)(ifindex cfg := None)}))"

lemma detach_unloaded:
  assumes "xdp_link ops" "xdp_link_detach ops v (ifindex cfg) (xdp_flags cfg) 0 s = (code, m, s')"
  shows "unloaded ops cfg s code s'"
  using xdp_link.detach_result [OF assms(1), of v "ifindex cfg" "xdp_flags cfg" 0 s]
    detach_codes [of ops v "ifindex cfg" "xdp_flags cfg" 0 s] assms(2)
  by (auto simp: unloaded_def exit_code_simps)

lemma attach_attached:
  assumes "xdp_link ops" "\<not> sint (p_fd p) \<le> 0" "xdp_link_attach ops (ifindex cfg) (xdp_flags cfg) (p_fd p) s = (code, m, s')"
  shows "attached ops cfg p s code s'"
proof -
  have fd: "sint (p_fd p) \<ge> 0" using assms(2) by simp
  show ?thesis using xdp_link.attach_cases [OF assms(1) fd, of "ifindex cfg" "xdp_flags cfg" s] assms(3)
    by (auto simp: attached_def exit_code_simps split: if_splits)
qed

text \<open>The rest of \<open>main\<close> behind the load, and what it comes to.\<close>

definition after_load :: "'f pin_env \<Rightarrow> config_user \<Rightarrow> 'f \<Rightarrow> bpf_object run \<times> 's \<Rightarrow> loader_fds run \<times> 's \<times> 'f" where
  "after_load penv cfg fs l =
     (case l of
        (Exit code, s) \<Rightarrow> (Exit code, s, fs)
      | (Go obj, s) \<Rightarrow>
         (let (_, fs) = pin_maps_in_bpf_object penv obj (c_string (ifname_buf cfg)) fs
          in case find_maps obj of
               Exit code \<Rightarrow> (Exit code, s, fs)
             | Go fds \<Rightarrow> (let (ret, fs) = update_elem penv (tx_port_fd fds) 0 4 0 fs in (Go fds, s, fs))))"

lemma after_load_go:
  "after_load penv cfg fs (Go obj, s) =
     (let fs1 = snd (pin_maps_in_bpf_object penv obj (c_string (ifname_buf cfg)) fs); fds = map m_fd (take 4 (o_maps obj))
      in if length (o_maps obj) < 4 then (Exit 1, s, fs1)
         else (Go \<lparr>logger_fd = fds ! 0, blacklist_fd = fds ! 1, data_fd = fds ! 2, tx_port_fd = fds ! 3\<rparr>,
               s, snd (update_elem penv (fds ! 3) 0 4 0 fs1)))"
proof (cases "length (o_maps obj) < 4")
  case True
  then show ?thesis by (simp add: after_load_def find_maps_cases Let_def split: prod.split)
next
  case False
  obtain c fs1 where p: "pin_maps_in_bpf_object penv obj (c_string (ifname_buf cfg)) fs = (c, fs1)" by force
  show ?thesis using False by (simp add: after_load_def find_maps_cases Let_def p split: prod.split)
qed

text \<open>
  The start of the detector \<open>p\<close> of the object \<open>obj\<close>: a failed attach ends \<open>main\<close> with its code;
  after a successful one the maps are pinned, interface 4 is stored at index 0 of the fourth
  map and \<open>main\<close> goes on with the first four maps in their order, or ends with 1 when there are fewer.
\<close>

definition started ::
    "'s link_ops \<Rightarrow> 'f pin_env \<Rightarrow> config_user \<Rightarrow> bpf_object \<Rightarrow> bpf_program \<Rightarrow> 's \<Rightarrow> 'f \<Rightarrow> loader_fds run \<times> 's \<times> 'f \<Rightarrow> bool" where
  "started ops penv cfg obj p s fs r \<longleftrightarrow>
     (\<exists>code msgs s'. xdp_link_attach ops (ifindex cfg) (xdp_flags cfg) (p_fd p) s = (code, msgs, s') \<and> attached ops cfg p s code s' \<and>
        (let fs1 = snd (pin_maps_in_bpf_object penv obj (c_string (ifname_buf cfg)) fs); fds = map m_fd (take 4 (o_maps obj))
         in r = (if code \<noteq> 0 then (Exit code, s', fs)
                 else if length (o_maps obj) < 4 then (Exit 1, s', fs1)
                 else (Go \<lparr>logger_fd = fds ! 0, blacklist_fd = fds ! 1, data_fd = fds ! 2, tx_port_fd = fds ! 3\<rparr>,
                       s', snd (update_elem penv (fds ! 3) 0 4 0 fs1)))))"

lemma after_load_result:
  fixes env :: obj_env and ops :: "'s link_ops" and penv :: "'f pin_env" and s :: 's and fs :: 'f and cfg :: config_user
  assumes "xdp_link ops"
    and x: "prog_load_xattr env ''xdp_prog_kern.o'' (if xdp_flags cfg AND XDP_FLAGS_HW_MODE \<noteq> 0 then ifindex cfg else 0) = (err, obj)"
  defines "po \<equiv> (if err \<noteq> 0 then None else find_program_by_title obj (c_string (progsec cfg)))"
    and "r \<equiv> after_load penv cfg fs (load_bpf_and_xdp_attach_loader env ops cfg s)"
  shows "case po of
      None \<Rightarrow> r = (Exit 40, s, fs)
    | Some p \<Rightarrow> if sint (p_fd p) \<le> 0 then r = (Exit 40, s, fs) else started ops penv cfg obj p s fs r"
proof (cases po)
  case None
  then show ?thesis using load_loader_result(1) [OF x, folded po_def, of ops s]
    by (simp add: r_def after_load_def exit_code_simps)
next
  case (Some p)
  show ?thesis
  proof (cases "sint (p_fd p) \<le> 0")
    case True
    then show ?thesis using Some load_loader_result(2) [OF x, folded po_def, of p ops s]
      by (simp add: r_def after_load_def exit_code_simps)
  next
    case False
    obtain code m s' where a: "xdp_link_attach ops (ifindex cfg) (xdp_flags cfg) (p_fd p) s = (code, m, s')" by (metis prod_cases3)
    have l: "load_bpf_and_xdp_attach_loader env ops cfg s = (if code \<noteq> 0 then Exit code else Go obj, s')"
      using load_loader_result(3) [OF x, folded po_def, OF Some False a] .
    have "started ops penv cfg obj p s fs r"
      unfolding started_def using attach_attached [OF assms(1) False a] l a
      by (intro exI [of _ code] exI [of _ m] exI [of _ s'] conjI) (simp_all add: r_def after_load_go Let_def, simp add: after_load_def)
    then show ?thesis using Some False by simp
  qed
qed

section \<open>Properties\<close>

text \<open>
  C13: starting the loader, in every case.  A command line that the parser refuses ends \<open>main\<close>
  with code 2.  Otherwise the flags have the mode that the last mode option selects (native
  without one).  Without an interface the code is 2, without the memory limit 1, and nothing
  has changed.  With the unload option \<open>main\<close> ends as \<open>unloaded\<close> says.  Otherwise the program
  with the selected title of the object that libbpf loads from \<open>xdp_prog_kern.o\<close> (for the device
  when it is offloaded) is attached: without such an object, program or descriptor the code is 40
  and nothing has changed; a failed attach is code 30; after a successful one the maps of the
  object are pinned under the name of the interface, whatever comes of it, and \<open>main\<close> goes on with
  the descriptors of the object's first four maps in order, after it has stored interface 4 at
  index 0 of the last of them, or ends with code 1 when there are fewer.
\<close>

theorem loader_start:
  fixes env :: obj_env and ops :: "'s link_ops" and penv :: "'f pin_env" and s :: 's and fs :: 'f
    and f :: "string \<Rightarrow> i32" and malloc_ok rlimit_ok :: bool and argv0 :: string and opts :: "(int \<times> string) list"
  assumes "xdp_link ops"
  defines "r \<equiv> loader_main env ops penv f malloc_ok rlimit_ok argv0 opts s fs"
  shows "case parse_cmdline_args_user f malloc_ok argv0 ''XDP sample packet'' long_options opts True default_config of
      Exited _ _ _ \<Rightarrow> r = (Exit 2, s, fs)
    | Parsed cfg v \<Rightarrow>
        xdp_flags cfg AND XDP_FLAGS_MODES = foldl mode_step XDP_FLAGS_DRV_MODE opts \<and>
        (if ifindex cfg = - 1 then r = (Exit 2, s, fs)
         else if \<not> rlimit_ok then r = (Exit 1, s, fs)
         else if do_unload_flag cfg then
           \<exists>code msgs s'. xdp_link_detach ops v (ifindex cfg) (xdp_flags cfg) 0 s = (code, msgs, s') \<and> r = (Exit code, s', fs) \<and> unloaded ops cfg s code s'
         else
           (case prog_load_xattr env ''xdp_prog_kern.o'' (if xdp_flags cfg AND XDP_FLAGS_HW_MODE \<noteq> 0 then ifindex cfg else 0) of
              (err, obj) \<Rightarrow>
                (case (if err \<noteq> 0 then None else find_program_by_title obj (c_string (progsec cfg))) of
                   None \<Rightarrow> r = (Exit 40, s, fs)
                 | Some p \<Rightarrow>
                     if sint (p_fd p) \<le> 0 then r = (Exit 40, s, fs) else started ops penv cfg obj p s fs r)))"
proof (cases "parse_cmdline_args_user f malloc_ok argv0 ''XDP sample packet'' long_options opts True default_config")
  case (Exited code msgs shown)
  then show ?thesis using exited_code [OF Exited] by (simp add: r_def loader_main_def exit_code_simps)
next
  case (Parsed cfg0 v)
  define cfg where "cfg = cfg0\<lparr>filename := strncpy 512 (snprintf 512 ''xdp_prog_kern.o'')\<rparr>"
  have same: "ifindex cfg = ifindex cfg0" "xdp_flags cfg = xdp_flags cfg0" "progsec cfg = progsec cfg0" "ifname_buf cfg = ifname_buf cfg0"
    "do_unload_flag cfg = do_unload_flag cfg0" "attached ops cfg = attached ops cfg0" "unloaded ops cfg = unloaded ops cfg0"
    by (simp_all add: cfg_def attached_def unloaded_def fun_eq_iff)
  have main: "r = (if ifindex cfg = - 1 then (Exit 2, s, fs)
      else if \<not> rlimit_ok then (Exit 1, s, fs)
      else if do_unload_flag cfg
           then (let (code, _, s) = xdp_link_detach ops v (ifindex cfg) (xdp_flags cfg) 0 s in (Exit code, s, fs))
           else (case load_bpf_and_xdp_attach_loader env ops cfg s of
                   (Exit code, s) \<Rightarrow> (Exit code, s, fs)
                 | (Go obj, s) \<Rightarrow>
                    (let (_, fs) = pin_maps_in_bpf_object penv obj (c_string (ifname_buf cfg)) fs
                     in case find_maps obj of
                          Exit code \<Rightarrow> (Exit code, s, fs)
                        | Go fds \<Rightarrow> (let (ret, fs) = update_elem penv (tx_port_fd fds) 0 4 0 fs in (Go fds, s, fs)))))"
    unfolding r_def loader_main_def Parsed parsed.case Let_def cfg_def by (simp add: exit_code_simps)
  consider (no) "ifindex cfg = - 1 \<or> \<not> rlimit_ok" | (unload) "ifindex cfg \<noteq> - 1" "rlimit_ok" "do_unload_flag cfg"
    | (load) "ifindex cfg \<noteq> - 1" "rlimit_ok" "\<not> do_unload_flag cfg" by blast
  then show ?thesis
  proof cases
    case no
    then show ?thesis using parsed_modes [OF Parsed] unfolding Parsed parsed.case main same by auto
  next
    case unload
    obtain code m s' where d: "xdp_link_detach ops v (ifindex cfg) (xdp_flags cfg) 0 s = (code, m, s')" by (metis prod_cases3)
    then have "r = (Exit code, s', fs)" using unload unfolding main by simp
    moreover have "unloaded ops cfg0 s code s'" using detach_unloaded [OF assms(1) d] by (simp only: same)
    ultimately show ?thesis using unload d parsed_modes [OF Parsed] unfolding Parsed parsed.case same by auto
  next
    case load
    obtain err obj where x: "prog_load_xattr env ''xdp_prog_kern.o'' (if xdp_flags cfg AND XDP_FLAGS_HW_MODE \<noteq> 0 then ifindex cfg else 0) = (err, obj)" by force
    have r: "r = after_load penv cfg fs (load_bpf_and_xdp_attach_loader env ops cfg s)"
      unfolding main after_load_def using load by simp
    have st: "started ops penv cfg = started ops penv cfg0" by (simp add: started_def fun_eq_iff same)
    show ?thesis
      using after_load_result [OF assms(1) x, of penv fs s, folded r] load parsed_modes [OF Parsed]
      unfolding Parsed parsed.case x [unfolded same] prod.case st same by simp
  qed
qed

lemma sample_parse:
  "\<exists>cfg. parse_cmdline_args_user (\<lambda>_. 2) True ''loader'' ''XDP sample packet'' long_options [(ord CHR ''d'', ''eth0''), (ord CHR ''S'', [])]
      True default_config = Parsed cfg True \<and>
    ifindex cfg = 2 \<and> \<not> do_unload_flag cfg \<and> c_string (progsec cfg) = ''xdp_filter'' \<and> c_string (ifname_buf cfg) = ''eth0'' \<and>
    xdp_flags cfg = XDP_FLAGS_UPDATE_IF_NOEXIST OR XDP_FLAGS_SKB_MODE"
  by (simp add: parse_cmdline_args_user_def parse_option_user_def option_wrappers_to_options_def default_config_def config0_def
      long_options_def wrap_def ord_def opt_dev_def set_mode_def IF_NAMESIZE_def strncpy_def c_string_def
      XDP_FLAGS_MODES_def XDP_FLAGS_UPDATE_IF_NOEXIST_def XDP_FLAGS_SKB_MODE_def XDP_FLAGS_DRV_MODE_def XDP_FLAGS_HW_MODE_def)

text \<open>The sample object on an empty device table, generic mode: the loop is reached with descriptors 3 to 6.\<close>

theorem loader_start_witness:
  "\<exists>s'. loader_main sample_env table_ops
       \<lparr>file_exists = (\<lambda>_ _. False), unpin_maps = (\<lambda>_ _ fs. (0, fs)), pin_maps = (\<lambda>_ dir fs. (0, dir # fs)),
        update_elem = (\<lambda>_ _ _ _ fs. (0, ''update'' # fs))\<rparr>
       (\<lambda>_. 2) True True ''loader'' [(ord CHR ''d'', ''eth0''), (ord CHR ''S'', [])] (\<lambda>_. None) [] =
     (Go \<lparr>logger_fd = 3, blacklist_fd = 4, data_fd = 5, tx_port_fd = 6\<rparr>, s', [''update'', ''/sys/fs/bpf/eth0'']) \<and>
     hook table_ops s' = (\<lambda>_. None)(2 \<mapsto> (XDP_FLAGS_SKB_MODE, 9))"
proof -
  let ?penv = "\<lparr>file_exists = (\<lambda>_ _. False), unpin_maps = (\<lambda>_ _ fs. (0, fs)), pin_maps = (\<lambda>_ dir fs. (0, dir # fs)),
      update_elem = (\<lambda>_ _ _ _ fs. (0, ''update'' # fs))\<rparr> :: string list pin_env"
  let ?opts = "[(ord CHR ''d'', ''eth0''), (ord CHR ''S'', [])]"
  obtain cfg where p: "parse_cmdline_args_user (\<lambda>_. 2) True ''loader'' ''XDP sample packet'' long_options ?opts True default_config = Parsed cfg True"
    and c: "ifindex cfg = 2" "\<not> do_unload_flag cfg" "c_string (progsec cfg) = ''xdp_filter''" "c_string (ifname_buf cfg) = ''eth0''"
      "xdp_flags cfg = XDP_FLAGS_UPDATE_IF_NOEXIST OR XDP_FLAGS_SKB_MODE"
    using sample_parse by blast
  have x: "prog_load_xattr sample_env ''xdp_prog_kern.o'' i = (0, sample_object)" for i by (simp add: sample_env_def)
  have fp: "find_program_by_title sample_object ''xdp_filter'' = Some (hd (o_programs sample_object))"
    by (simp add: find_program_by_title_def sample_object_def)
  have a: "fst (xdp_link_attach table_ops 2 (XDP_FLAGS_UPDATE_IF_NOEXIST OR XDP_FLAGS_SKB_MODE) 9 (\<lambda>_. None)) = 0"
    by (simp add: xdp_link_attach_def table_ops_def EXIT_OK_def EEXIST_def)
  note r = loader_start [OF table.xdp_link_axioms, where f = "\<lambda>_. 2" and malloc_ok = True and ?argv0.0 = "''loader''" and opts = ?opts
      and env = sample_env and penv = ?penv and rlimit_ok = True and s = "\<lambda>_. None" and fs = "[]", unfolded p parsed.case]
  have st: "started table_ops ?penv cfg sample_object (hd (o_programs sample_object)) (\<lambda>_. None) []
      (loader_main sample_env table_ops ?penv (\<lambda>_. 2) True True ''loader'' ?opts (\<lambda>_. None) [])"
    using r c(1-3) fp unfolding x by (simp add: sample_object_def)
  have m: "(XDP_FLAGS_UPDATE_IF_NOEXIST OR XDP_FLAGS_SKB_MODE) AND XDP_FLAGS_MODES = XDP_FLAGS_SKB_MODE"
    by (simp add: XDP_FLAGS_MODES_def XDP_FLAGS_UPDATE_IF_NOEXIST_def XDP_FLAGS_SKB_MODE_def XDP_FLAGS_DRV_MODE_def XDP_FLAGS_HW_MODE_def)
  have h: "hook table_ops (\<lambda>_. None) = (\<lambda>_. None)" by (simp add: table_ops_def)
  show ?thesis using st a c m h
    by (auto simp: started_def attached_def sample_object_def pin_maps_in_bpf_object_def pin_basedir_def snprintf_def Let_def)
qed

text \<open>
  The option \<open>udef\<close>.  It is in the option table with the help text \<open>Add user defined filter\<close>,
  but the parser has no case for it: a command line that contains it, with only valid options
  before it, ends the loader with code 2 and the usage text.
\<close>

theorem udef_option_exits:
  "\<exists>w \<in> set long_options. ow_name w = Some ''udef'' \<and>
     parse_cmdline_args_user f True argv0 doc long_options ((ow_val w, []) # opts) v cfg =
       Exited EXIT_FAIL_OPTION [] (usage argv0 doc long_options False)"
  by (rule bexI [of _ "wrap ''udef'' 0 (ord CHR ''i'') ''Add user defined filter'' None False"])
    (simp_all add: long_options_def wrap_def parse_cmdline_args_user_def option_wrappers_to_options_def
      parse_option_user_def ord_def Let_def)

end
