(* ===== verification/Parsing_Helpers.thy ===== *)
theory Parsing_Helpers
  imports Packet
begin

text \<open>
  \<open>common/parsing_helpers.h\<close>, the same file in both variants: a cursor over the packet and
  one parser per header.  The cursor is an offset into the packet and \<open>data_end\<close> its length.
  A parser returns the C return value, the new cursor, and the header pointer it wrote
  (\<open>None\<close> when it wrote none).  Every field is read with a checked read; a parser whose read
  leaves the packet has the result \<open>None\<close>.  The locale \<open>header_parser\<close> is the contract that
  every parser keeps towards its callers and the BPF verifier: it reads no byte outside the
  packet, and exposes none.
\<close>

section \<open>Parsers\<close>

type_synonym parse_result = "int \<times> nat \<times> nat option"

type_synonym parser = "packet \<Rightarrow> nat \<Rightarrow> parse_result option"

definition VLAN_MAX_DEPTH :: nat where "VLAN_MAX_DEPTH = 2"

definition VLAN_VID_MASK :: u16 where "VLAN_VID_MASK = 0x0fff"

definition proto_is_vlan :: "u16 \<Rightarrow> bool" where
  "proto_is_vlan h_proto \<longleftrightarrow> h_proto = bpf_htons ETH_P_8021Q \<or> h_proto = bpf_htons ETH_P_8021AD"

text \<open>
  The loop over VLAN tags: \<open>n\<close> iterations are left, \<open>i\<close> is the loop variable, \<open>vlans\<close> the array
  \<open>id\<close> of the caller's \<open>struct collect_vlans\<close>, if it passed one.
\<close>

fun vlan_loop ::
    "nat \<Rightarrow> packet \<Rightarrow> nat \<Rightarrow> nat \<Rightarrow> u16 \<Rightarrow> u16 list option \<Rightarrow> (u16 \<times> nat \<times> u16 list option) option" where
  "vlan_loop 0 pkt i vlh h_proto vlans = Some (h_proto, vlh, vlans)"
| "vlan_loop (Suc n) pkt i vlh h_proto vlans =
     (if \<not> proto_is_vlan h_proto then Some (h_proto, vlh, vlans)
      else if vlh + 4 > length pkt then Some (h_proto, vlh, vlans)
      else Option.bind (mem16 pkt (vlh + 2)) (\<lambda>h_proto.
           Option.bind (case vlans of None \<Rightarrow> Some None
                        | Some ids \<Rightarrow> map_option (\<lambda>tci. Some (ids[i := bpf_ntohs tci AND VLAN_VID_MASK])) (mem16 pkt vlh)) (\<lambda>vlans.
           vlan_loop n pkt (i + 1) (vlh + 4) h_proto vlans)))"

definition parse_ethhdr_vlan ::
    "packet \<Rightarrow> nat \<Rightarrow> u16 list option \<Rightarrow> (parse_result \<times> u16 list option) option" where
  "parse_ethhdr_vlan pkt pos vlans =
     (let eth = pos; hdrsize = 14
      in if pos + hdrsize > length pkt then Some ((- 1, pos, None), vlans)
         else Option.bind (mem16 pkt (eth + 12)) (\<lambda>h_proto.
              Option.bind (vlan_loop VLAN_MAX_DEPTH pkt 0 (pos + hdrsize) h_proto vlans) (\<lambda>(h_proto, vlh, vlans).
              Some ((uint h_proto, vlh, Some eth), vlans))))"

definition parse_ethhdr :: parser where
  "parse_ethhdr pkt pos = map_option fst (parse_ethhdr_vlan pkt pos None)"

definition parse_ip6hdr :: parser where
  "parse_ip6hdr pkt pos =
     (let ip6h = pos
      in if ip6h + 40 > length pkt then Some (- 1, pos, None)
         else Option.bind (mem8 pkt (ip6h + 6)) (\<lambda>nexthdr. Some (uint nexthdr, ip6h + 40, Some ip6h)))"

definition parse_iphdr :: parser where
  "parse_iphdr pkt pos =
     (let iph = pos
      in if iph + 20 > length pkt then Some (- 1, pos, None)
         else Option.bind (mem8 pkt iph) (\<lambda>vhl.
              let hdrsize = unat (vhl AND 0x0f) * 4
              in if hdrsize < 20 then Some (- 1, pos, None)
                 else if pos + hdrsize > length pkt then Some (- 1, pos, None)
                 else Option.bind (mem8 pkt (iph + 9)) (\<lambda>protocol.
                      Some (uint protocol, pos + hdrsize, Some iph))))"

definition parse_icmp6hdr :: parser where
  "parse_icmp6hdr pkt pos =
     (let icmp6h = pos
      in if icmp6h + 8 > length pkt then Some (- 1, pos, None)
         else Option.bind (mem8 pkt icmp6h) (\<lambda>icmp6_type. Some (uint icmp6_type, icmp6h + 8, Some icmp6h)))"

definition parse_icmphdr :: parser where
  "parse_icmphdr pkt pos =
     (let icmph = pos
      in if icmph + 8 > length pkt then Some (- 1, pos, None)
         else Option.bind (mem8 pkt icmph) (\<lambda>type. Some (uint type, icmph + 8, Some icmph)))"

definition parse_icmphdr_common :: parser where
  "parse_icmphdr_common pkt pos =
     (let h = pos
      in if h + 4 > length pkt then Some (- 1, pos, None)
         else Option.bind (mem8 pkt h) (\<lambda>type. Some (uint type, h + 4, Some h)))"

text \<open>
  \<open>bpf_ntohs(h->len) - sizeof(struct udphdr)\<close> is computed in 64-bit unsigned arithmetic and
  stored in an \<open>int\<close>.
\<close>

definition parse_udphdr :: parser where
  "parse_udphdr pkt pos =
     (let h = pos
      in if h + 8 > length pkt then Some (- 1, pos, None)
         else Option.bind (mem16 pkt (h + 4)) (\<lambda>h_len.
              let len = trunc32 (ucast (bpf_ntohs h_len) - 8)
              in if sint len < 0 then Some (- 1, h + 8, Some h)
                 else Some (sint len, h + 8, Some h)))"

definition parse_tcphdr :: parser where
  "parse_tcphdr pkt pos =
     (let h = pos
      in if h + 20 > length pkt then Some (- 1, pos, None)
         else Option.bind (mem8 pkt (h + 12)) (\<lambda>off_res.
              let len = unat (drop_bit 4 off_res) * 4
              in if len < 20 then Some (- 1, pos, None)
                 else if pos + len > length pkt then Some (- 1, pos, None)
                 else Some (int len, pos + len, Some h)))"

text \<open>Every parser with the size of the fixed part of its header.\<close>

definition header_parsers :: "(nat \<times> parser) list" where
  "header_parsers =
     [(14, parse_ethhdr), (40, parse_ip6hdr), (20, parse_iphdr), (8, parse_icmp6hdr),
      (8, parse_icmphdr), (4, parse_icmphdr_common), (8, parse_udphdr), (20, parse_tcphdr)]"

text \<open>A frame with one VLAN tag (identifier 5) around an IPv4 packet.\<close>

definition sample_vlan :: packet where
  "sample_vlan = [0,0,0,0,0,0,0,0,0,0,0,0,0x81,0,0,5,8,0]"

section \<open>The contract of a parser\<close>

declare mem_Some [simp]

locale header_parser =
  fixes hdr_size :: nat and parse :: parser
  assumes reads_inside: "parse pkt pos \<noteq> None"
    and short: "pos + hdr_size > length pkt \<Longrightarrow> parse pkt pos = Some (- 1, pos, None)"
    and no_header: "parse pkt pos = Some (r, pos', None) \<Longrightarrow> r = - 1 \<and> pos' = pos"
    and header: "parse pkt pos = Some (r, pos', Some h) \<Longrightarrow>
      h = pos \<and> pos + hdr_size \<le> pos' \<and> pos' \<le> length pkt \<and> - 1 \<le> r"
begin

lemma cursor_in_bounds:
  assumes "parse pkt pos = Some (r, pos', h)" "pos \<le> length pkt"
  shows "pos \<le> pos' \<and> pos' \<le> length pkt \<and> - 1 \<le> r"
  using assms header [of pkt pos r pos'] no_header [of pkt pos r pos'] by (cases h) auto

lemma success_exposes_header:
  assumes "parse pkt pos = Some (r, pos', h)" "r \<noteq> - 1"
  shows "h = Some pos \<and> pos + hdr_size \<le> pos' \<and> pos' \<le> length pkt"
  using assms header [of pkt pos r pos'] no_header [of pkt pos r pos'] by (cases h) auto

lemma header_iff_moved:
  assumes "parse pkt pos = Some (r, pos', h)" "0 < hdr_size"
  shows "h \<noteq> None \<longleftrightarrow> pos' \<noteq> pos"
  using assms header [of pkt pos r pos'] no_header [of pkt pos r pos'] by (cases h) auto

lemma parses:
  assumes "pos \<le> length pkt" "0 < hdr_size"
  shows "\<exists>r pos' h. parse pkt pos = Some (r, pos', h) \<and> pos \<le> pos' \<and> pos' \<le> length pkt \<and>
    (h \<noteq> None \<longleftrightarrow> pos' \<noteq> pos) \<and> (h = None \<longrightarrow> r = - 1) \<and> (\<forall>a. h = Some a \<longrightarrow> a = pos \<and> a + hdr_size \<le> pos') \<and>
    (length pkt < pos + hdr_size \<longrightarrow> h = None)"
proof -
  obtain r pos' h where p: "parse pkt pos = Some (r, pos', h)"
    using reads_inside [of pkt pos] by (metis option.exhaust prod_cases3)
  have "length pkt < pos + hdr_size \<longrightarrow> h = None" using short [of pkt pos] p by auto
  then show ?thesis
    using p cursor_in_bounds [OF p assms(1)] header_iff_moved [OF p assms(2)] no_header [of pkt pos r pos'] header [of pkt pos r pos']
    by (intro exI [of _ r] exI [of _ pos'] exI [of _ h] conjI) auto
qed

end

text \<open>Two parsers in a row, the second called where the first succeeded.\<close>

locale header_chain = outer: header_parser size1 parse1 + inner: header_parser size2 parse2
  for size1 parse1 size2 parse2
begin

lemma chain_in_bounds:
  assumes "parse1 pkt pos = Some (r, p1, h1)" "r \<noteq> - 1" "parse2 pkt p1 = Some (r', p2, h2)" "r' \<noteq> - 1"
  shows "pos + size1 + size2 \<le> p2 \<and> p2 \<le> length pkt \<and> h2 = Some p1 \<and> h1 = Some pos"
  using outer.success_exposes_header [OF assms(1,2)] inner.success_exposes_header [OF assms(3,4)] by linarith

end

section \<open>The VLAN loop\<close>

text \<open>
  \<open>k\<close> tags were skipped; each was announced by the EtherType before it, and the loop stopped
  because it had seen enough tags, met another EtherType, or ran out of packet.
\<close>

lemma vlan_loop_spec:
  assumes "vlan_loop n pkt i vlh proto vlans = Some (proto', vlh', vlans')"
  shows "\<exists>k\<le>n. vlh' = vlh + 4 * k \<and> (k = 0 \<longrightarrow> proto' = proto) \<and>
    (0 < k \<longrightarrow> proto_is_vlan proto \<and> vlh' \<le> length pkt \<and> proto' = load16 pkt (vlh' - 2)) \<and>
    (\<forall>j<k - 1. proto_is_vlan (load16 pkt (vlh + 4 * j + 2))) \<and>
    (k < n \<longrightarrow> \<not> proto_is_vlan proto' \<or> vlh' + 4 > length pkt) \<and>
    vlans' = map_option (\<lambda>ids. fold (\<lambda>j ids. ids[i + j := bpf_ntohs (load16 pkt (vlh + 4 * j)) AND VLAN_VID_MASK])
                                [0..<k] ids) vlans"
  using assms
proof (induction n arbitrary: i vlh proto vlans)
  case 0
  then show ?case by (simp add: option.map_id)
next
  case (Suc n)
  show ?case
  proof (cases "proto_is_vlan proto \<and> vlh + 4 \<le> length pkt")
    case True
    then have "vlan_loop n pkt (i + 1) (vlh + 4) (load16 pkt (vlh + 2))
         (map_option (\<lambda>id. id[i := bpf_ntohs (load16 pkt vlh) AND VLAN_VID_MASK]) vlans) = Some (proto', vlh', vlans')"
      using Suc.prems by (cases vlans) simp_all
    from Suc.IH [OF this] obtain k where k: "k \<le> n" "vlh' = vlh + 4 + 4 * k"
        "k = 0 \<longrightarrow> proto' = load16 pkt (vlh + 2)"
        "0 < k \<longrightarrow> proto_is_vlan (load16 pkt (vlh + 2)) \<and> vlh' \<le> length pkt \<and> proto' = load16 pkt (vlh' - 2)"
        "\<forall>j<k - 1. proto_is_vlan (load16 pkt (vlh + 4 + 4 * j + 2))"
        "k < n \<longrightarrow> \<not> proto_is_vlan proto' \<or> vlh' + 4 > length pkt"
        "vlans' = map_option (\<lambda>ids. fold (\<lambda>j ids. ids[i + 1 + j := bpf_ntohs (load16 pkt (vlh + 4 + 4 * j)) AND VLAN_VID_MASK])
             [0..<k] ids) (map_option (\<lambda>id. id[i := bpf_ntohs (load16 pkt vlh) AND VLAN_VID_MASK]) vlans)"
      by blast
    have "\<forall>j<Suc k - 1. proto_is_vlan (load16 pkt (vlh + 4 * j + 2))"
    proof (intro allI impI)
      fix j assume "j < Suc k - 1"
      then show "proto_is_vlan (load16 pkt (vlh + 4 * j + 2))"
        using k(4) k(5) [rule_format, of "j - 1"] by (cases j) (simp_all add: add.assoc)
    qed
    moreover have "vlans' = map_option (\<lambda>ids. fold (\<lambda>j ids. ids[i + j := bpf_ntohs (load16 pkt (vlh + 4 * j)) AND VLAN_VID_MASK])
                                [0..<Suc k] ids) vlans"
    proof -
      have "[0..<Suc k] = 0 # map Suc [0..<k]"
        by (simp only: upt_conv_Cons [OF zero_less_Suc] map_Suc_upt)
      then show ?thesis unfolding k(7)
        by (simp add: option.map_comp comp_def fold_map add.assoc del: map_Suc_upt upt_Suc)
    qed
    moreover have v: "vlh' = vlh + 4 * Suc k" using k(2) by simp
    moreover have "vlh' \<le> length pkt" using k(2,4) True by (cases "k = 0") simp_all
    moreover have "proto' = load16 pkt (vlh' - 2)" using k(2-4) by (cases "k = 0") simp_all
    moreover have "Suc k < Suc n \<longrightarrow> \<not> proto_is_vlan proto' \<or> vlh' + 4 > length pkt" using k(6) by simp
    ultimately show ?thesis using True k(1) by (intro exI [of _ "Suc k"]) simp
  next
    case False
    then show ?thesis using Suc.prems by (intro exI [of _ 0]) (auto simp: option.map_id option.map_ident split: if_splits)
  qed
qed

section \<open>The contract, parser by parser\<close>

lemma vlan_loop_reads_inside: "vlan_loop n pkt i vlh proto vlans \<noteq> None"
  by (induction n pkt i vlh proto vlans rule: vlan_loop.induct) (auto split: option.split)

lemma vlan_loop_bounds:
  assumes "vlan_loop n pkt i vlh proto vlans = Some (proto', vlh', vlans')" "vlh \<le> length pkt"
  shows "vlh \<le> vlh' \<and> vlh' \<le> length pkt"
  using vlan_loop_spec [OF assms(1)] assms(2) by (metis le_add1 mult_0_right add_0_right gr0I)

interpretation eth: header_parser 14 parse_ethhdr
proof
  fix pkt :: packet and pos pos' h :: nat and r :: int
  show "parse_ethhdr pkt pos \<noteq> None"
    using vlan_loop_reads_inside [of VLAN_MAX_DEPTH pkt 0 "pos + 14" "load16 pkt (pos + 12)" None]
    by (auto simp: parse_ethhdr_def parse_ethhdr_vlan_def)
  show "length pkt < pos + 14 \<Longrightarrow> parse_ethhdr pkt pos = Some (- 1, pos, None)"
    by (simp add: parse_ethhdr_def parse_ethhdr_vlan_def)
  show "parse_ethhdr pkt pos = Some (r, pos', None) \<Longrightarrow> r = - 1 \<and> pos' = pos"
    by (auto simp: parse_ethhdr_def parse_ethhdr_vlan_def bind_eq_Some_conv split: if_splits prod.splits)
  show "parse_ethhdr pkt pos = Some (r, pos', Some h) \<Longrightarrow>
      h = pos \<and> pos + 14 \<le> pos' \<and> pos' \<le> length pkt \<and> - 1 \<le> r"
    using vlan_loop_bounds [of VLAN_MAX_DEPTH pkt 0 "pos + 14" "load16 pkt (pos + 12)" None]
    by (auto simp: parse_ethhdr_def parse_ethhdr_vlan_def bind_eq_Some_conv split: if_splits prod.splits
        intro: order_trans [of "- 1" 0])
qed

lemmas parser_defs =
  parse_ip6hdr_def parse_iphdr_def parse_icmp6hdr_def parse_icmphdr_def parse_icmphdr_common_def
  parse_udphdr_def parse_tcphdr_def

lemma uint_ge_minus_one [simp]: "- 1 \<le> uint (x :: 'a::len word)"
  by (rule order_trans [of _ 0]) simp_all

interpretation ip6: header_parser 40 parse_ip6hdr
  by unfold_locales (auto simp: parser_defs Let_def split: if_splits)

interpretation ip: header_parser 20 parse_iphdr
  by unfold_locales (auto simp: parser_defs Let_def split: if_splits)

interpretation icmp6: header_parser 8 parse_icmp6hdr
  by unfold_locales (auto simp: parser_defs Let_def split: if_splits)

interpretation icmp: header_parser 8 parse_icmphdr
  by unfold_locales (auto simp: parser_defs Let_def split: if_splits)

interpretation icmp_common: header_parser 4 parse_icmphdr_common
  by unfold_locales (auto simp: parser_defs Let_def split: if_splits)

interpretation udp: header_parser 8 parse_udphdr
  by unfold_locales (auto simp: parser_defs Let_def split: if_splits)

interpretation tcp: header_parser 20 parse_tcphdr
  by unfold_locales (auto simp: parser_defs Let_def simp del: of_nat_unat split: if_splits)

interpretation eth_ip: header_chain 14 parse_ethhdr 20 parse_iphdr ..

interpretation eth_ip6: header_chain 14 parse_ethhdr 40 parse_ip6hdr ..

interpretation ip_udp: header_chain 20 parse_iphdr 8 parse_udphdr ..

interpretation ip_tcp: header_chain 20 parse_iphdr 20 parse_tcphdr ..

lemma header_parsers_laws: "(n, p) \<in> set header_parsers \<Longrightarrow> header_parser n p"
  by (auto simp: header_parsers_def eth.header_parser_axioms ip6.header_parser_axioms ip.header_parser_axioms
      icmp6.header_parser_axioms icmp.header_parser_axioms icmp_common.header_parser_axioms
      udp.header_parser_axioms tcp.header_parser_axioms)

lemma header_parsers_pos: "(n, p) \<in> set header_parsers \<Longrightarrow> 0 < n"
  by (auto simp: header_parsers_def)

section \<open>Arithmetic of the length fields\<close>

lemma udp_len: "sint (trunc32 (ucast (x :: u16) - 8)) = uint x - 8"
proof -
  have r: "0 \<le> uint x" "uint x < 2 ^ 16" using unsigned_less [of x, where 'a = int] by simp_all
  have "sint (ucast x :: i32) = uint x"
    unfolding sint_uint using r
    by (subst signed_take_bit_int_eq_self)
      (simp_all add: unsigned_ucast_eq take_bit_int_eq_self order_trans [of _ "0::int"])
  moreover have "trunc32 (ucast x) = ucast x" unfolding trunc32_def by (rule bit_word_eqI) (auto simp: bit_simps)
  moreover have "trunc32 8 = 8" by (simp add: trunc32_def)
  ultimately show ?thesis using r unfolding trunc32_diff by (subst sint32_sub) simp_all
qed

lemma low_nibble: "unat (b AND 0x0f :: u8) \<le> 15"
proof -
  have "b AND 0x0f = take_bit 4 b" by (simp add: take_bit_eq_mask mask_eq_exp_minus_1)
  then show ?thesis by (simp add: unsigned_take_bit_eq take_bit_nat_def)
qed

lemma high_nibble: "unat (drop_bit 4 b :: u8) \<le> 15"
proof -
  have "unat b < 16 * 16" using unsigned_less [of b, where 'a = nat] by simp
  then have "unat b div 16 < 16" by (rule less_mult_imp_div_less)
  moreover have "take_bit LENGTH(8) (unat b) = unat b" using \<open>unat b < 16 * 16\<close> by (simp add: take_bit_nat_eq_self)
  ultimately have "drop_bit 4 (take_bit LENGTH(8) (unat b)) \<le> 15" by (simp only: drop_bit_eq_div) simp
  then show ?thesis by (simp only: unsigned_drop_bit_eq)
qed

section \<open>Properties\<close>

text \<open>
  C11: the parsers are memory-safe.  Each of the eight parsers, on any packet and any cursor
  inside it, returns: none of its reads leaves the packet.  The cursor never moves back or past
  the end; a header pointer is given out exactly when the cursor moved, it is the old cursor,
  and the whole fixed part of the header lies between it and the new cursor; without a header
  the parser returns -1, which is always so when the packet is too short for the fixed part.
\<close>

theorem parsers_in_bounds:
  assumes "(n, parse) \<in> set header_parsers" "pos \<le> length pkt"
  shows "\<exists>r pos' h. parse pkt pos = Some (r, pos', h) \<and> pos \<le> pos' \<and> pos' \<le> length pkt \<and>
           (h \<noteq> None \<longleftrightarrow> pos' \<noteq> pos) \<and> (h = None \<longrightarrow> r = - 1) \<and> (\<forall>a. h = Some a \<longrightarrow> a = pos \<and> a + n \<le> pos') \<and>
           (length pkt < pos + n \<longrightarrow> h = None)"
  by (rule header_parser.parses [OF header_parsers_laws [OF assms(1)] assms(2) header_parsers_pos [OF assms(1)]])

theorem parsers_in_bounds_witness:
  "(\<exists>r h. parse_udphdr [0, 53, 0, 53, 0, 12, 0, 0, 1, 2, 3, 4] 0 = Some (r, 8, h) \<and> r = 4 \<and> h = Some 0) \<and>
   (\<exists>r h. parse_tcphdr [0, 80, 0, 80, 0] 0 = Some (r, 0, h) \<and> r = - 1 \<and> h = None)"
  using parsers_in_bounds [of 8 parse_udphdr 0 "[0, 53, 0, 53, 0, 12, 0, 0, 1, 2, 3, 4]"]
    parsers_in_bounds [of 20 parse_tcphdr 0 "[0, 80, 0, 80, 0]"]
  by (simp add: header_parsers_def parse_udphdr_def parse_tcphdr_def load16_def bswap16_def trunc32_def)

text \<open>
  VLAN tags.  \<open>parse_ethhdr_vlan\<close> skips \<open>k \<le> VLAN_MAX_DEPTH\<close> tags behind a complete
  Ethernet header and returns the EtherType right before the new cursor.  Every skipped tag was
  announced by the EtherType before it; it stops early only at an EtherType that is no VLAN or
  when another tag would pass the end; and the \<open>j\<close>-th element of the caller's array becomes the
  12-bit identifier of the \<open>j\<close>-th tag, the others being kept.
\<close>

theorem parse_ethhdr_vlan_spec:
  assumes "pos + 14 \<le> length pkt" "length ids = VLAN_MAX_DEPTH"
    and "parse_ethhdr_vlan pkt pos (Some ids) = Some ((r, pos', h), vlans')"
  shows "\<exists>k ids'. k \<le> VLAN_MAX_DEPTH \<and> pos' = pos + 14 + 4 * k \<and> pos' \<le> length pkt \<and> h = Some pos \<and>
           r = uint (load16 pkt (pos' - 2)) \<and>
           (\<forall>j<k. proto_is_vlan (load16 pkt (pos + 12 + 4 * j))) \<and>
           (k < VLAN_MAX_DEPTH \<longrightarrow> \<not> proto_is_vlan (load16 pkt (pos' - 2)) \<or> pos' + 4 > length pkt) \<and>
           vlans' = Some ids' \<and> length ids' = length ids \<and>
           (\<forall>j<length ids. ids' ! j =
              (if j < k then bpf_ntohs (load16 pkt (pos + 14 + 4 * j)) AND VLAN_VID_MASK else ids ! j))"
proof -
  obtain proto vlh vl where l: "vlan_loop VLAN_MAX_DEPTH pkt 0 (pos + 14) (load16 pkt (pos + 12)) (Some ids) = Some (proto, vlh, vl)"
    using vlan_loop_reads_inside by (metis option.exhaust prod_cases3)
  then have res: "r = uint proto" "pos' = vlh" "h = Some pos" "vlans' = vl"
    using assms(1,3) by (auto simp: parse_ethhdr_vlan_def)
  from vlan_loop_spec [OF l] obtain k where k: "k \<le> VLAN_MAX_DEPTH" "vlh = pos + 14 + 4 * k"
      "k = 0 \<longrightarrow> proto = load16 pkt (pos + 12)"
      "0 < k \<longrightarrow> proto_is_vlan (load16 pkt (pos + 12)) \<and> vlh \<le> length pkt \<and> proto = load16 pkt (vlh - 2)"
      "\<forall>j<k - 1. proto_is_vlan (load16 pkt (pos + 14 + 4 * j + 2))"
      "k < VLAN_MAX_DEPTH \<longrightarrow> \<not> proto_is_vlan proto \<or> vlh + 4 > length pkt"
      "vl = Some (fold (\<lambda>j ids. ids[j := bpf_ntohs (load16 pkt (pos + 14 + 4 * j)) AND VLAN_VID_MASK]) [0..<k] ids)"
    by auto
  have proto: "proto = load16 pkt (vlh - 2)" "vlh \<le> length pkt"
  proof -
    have "proto = load16 pkt (vlh - 2) \<and> vlh \<le> length pkt"
      using k(2-4) assms(1) by (cases "k = 0") (simp_all add: add.commute)
    then show "proto = load16 pkt (vlh - 2)" "vlh \<le> length pkt" by blast+
  qed
  have "\<forall>j<k. proto_is_vlan (load16 pkt (pos + 12 + 4 * j))"
  proof (intro allI impI)
    fix j assume "j < k"
    then show "proto_is_vlan (load16 pkt (pos + 12 + 4 * j))"
      using k(4) k(5) [rule_format, of "j - 1"] by (cases j) (simp_all add: ac_simps)
  qed
  moreover have "k < VLAN_MAX_DEPTH \<longrightarrow> \<not> proto_is_vlan (load16 pkt (vlh - 2)) \<or> vlh + 4 > length pkt"
    using k(6) proto(1) by simp
  moreover have "vlans' = Some (map (\<lambda>j. if j < k then bpf_ntohs (load16 pkt (pos + 14 + 4 * j)) AND VLAN_VID_MASK
      else ids ! j) [0..<length ids])"
    unfolding res(4) k(7) using k(1) assms(2) by (simp only: fold_update_upt)
  ultimately show ?thesis using k(1,2) res(1-3) proto
    by (intro exI [of _ k] exI [of _ "map (\<lambda>j. if j < k then bpf_ntohs (load16 pkt (pos + 14 + 4 * j)) AND VLAN_VID_MASK
          else ids ! j) [0..<length ids]"] conjI) simp_all
qed

theorem parse_ethhdr_vlan_spec_witness:
  "\<exists>k ids'. k \<le> VLAN_MAX_DEPTH \<and> 18 = 0 + 14 + 4 * k \<and>
     map_option snd (parse_ethhdr_vlan sample_vlan 0 (Some [0, 0])) = Some (Some ids') \<and> ids' ! 0 = 5"
proof -
  have "parse_ethhdr_vlan sample_vlan 0 (Some [0, 0]) = Some ((8, 18, Some 0), Some [5, 0])"
    by code_simp
  note r = this
  have "0 + 14 \<le> length sample_vlan" "length [0, 0 :: u16] = VLAN_MAX_DEPTH"
    by (simp_all add: sample_vlan_def VLAN_MAX_DEPTH_def)
  from parse_ethhdr_vlan_spec [OF this r] r show ?thesis by (metis nth_Cons_0 option.inject option.map(2) snd_conv)
qed

text \<open>
  Lengths from the packet.  \<open>parse_udphdr\<close> returns the payload length \<open>len - 8\<close>; a length
  field below 8 gives -1, but the cursor and the header pointer have been set by then.
  \<open>parse_iphdr\<close> and \<open>parse_tcphdr\<close> skip exactly the header length that the packet declares,
  between 20 and 60 bytes, and refuse a smaller one or one that passes the end without moving.
\<close>

theorem declared_lengths:
  assumes "pos + 20 \<le> length pkt"
  shows "parse_udphdr pkt pos =
           (let len = uint (bpf_ntohs (load16 pkt (pos + 4)))
            in Some (if len < 8 then - 1 else len - 8, pos + 8, Some pos)) \<and>
         parse_iphdr pkt pos =
           (let n = 4 * unat (pkt ! pos AND 0x0f)
            in if 20 \<le> n \<and> n \<le> 60 \<and> pos + n \<le> length pkt
               then Some (uint (pkt ! (pos + 9)), pos + n, Some pos) else Some (- 1, pos, None)) \<and>
         parse_tcphdr pkt pos =
           (let n = 4 * unat (drop_bit 4 (pkt ! (pos + 12)))
            in if 20 \<le> n \<and> n \<le> 60 \<and> pos + n \<le> length pkt
               then Some (int n, pos + n, Some pos) else Some (- 1, pos, None))"
proof (intro conjI)
  show "parse_udphdr pkt pos =
           (let len = uint (bpf_ntohs (load16 pkt (pos + 4)))
            in Some (if len < 8 then - 1 else len - 8, pos + 8, Some pos))"
    using assms udp_len [of "bpf_ntohs (load16 pkt (pos + 4))"] by (auto simp: parse_udphdr_def Let_def)
  show "parse_iphdr pkt pos =
           (let n = 4 * unat (pkt ! pos AND 0x0f)
            in if 20 \<le> n \<and> n \<le> 60 \<and> pos + n \<le> length pkt
               then Some (uint (pkt ! (pos + 9)), pos + n, Some pos) else Some (- 1, pos, None))"
    using assms low_nibble [of "pkt ! pos"] by (auto simp: parse_iphdr_def Let_def)
  show "parse_tcphdr pkt pos =
           (let n = 4 * unat (drop_bit 4 (pkt ! (pos + 12)))
            in if 20 \<le> n \<and> n \<le> 60 \<and> pos + n \<le> length pkt
               then Some (int n, pos + n, Some pos) else Some (- 1, pos, None))"
    using assms high_nibble [of "pkt ! (pos + 12)"] by (auto simp: parse_tcphdr_def Let_def)
qed

theorem declared_lengths_witness:
  "map_option fst (parse_udphdr [0, 53, 0, 53, 0, 12, 0, 0, 1, 2, 3, 4, 0, 0, 0, 0, 0, 0, 0, 0] 0) = Some 4 \<and>
   parse_udphdr [0, 53, 0, 53, 0, 7, 0, 0, 1, 2, 3, 4, 0, 0, 0, 0, 0, 0, 0, 0] 0 = Some (- 1, 8, Some 0)"
  using declared_lengths [of 0 "[0, 53, 0, 53, 0, 12, 0, 0, 1, 2, 3, 4, 0, 0, 0, 0, 0, 0, 0, 0]"]
    declared_lengths [of 0 "[0, 53, 0, 53, 0, 7, 0, 0, 1, 2, 3, 4, 0, 0, 0, 0, 0, 0, 0, 0]"]
  by (simp add: load16_def bswap16_def)

end
