(* ===== verification/Rewrite_Helpers.thy ===== *)
theory Rewrite_Helpers
  imports Parsing_Helpers
begin

text \<open>
  \<open>common/rewrite_helpers.h\<close>, the same file in both variants: pushing and popping a VLAN tag,
  and exchanging source and destination addresses.  The packet is a list of bytes and \<open>eth\<close>
  an offset into it.  \<open>bpf_xdp_adjust_head\<close> is a kernel helper and therefore an argument; the
  locale \<open>xdp_head\<close> states its documentation.
\<close>

section \<open>VLAN tags\<close>

type_synonym adjust_head = "packet \<Rightarrow> int \<Rightarrow> int \<times> packet"

definition vlan_tag_pop :: "adjust_head \<Rightarrow> packet \<Rightarrow> nat \<Rightarrow> int \<times> packet" where
  "vlan_tag_pop bpf_xdp_adjust_head ctx eth =
     (if \<not> proto_is_vlan (load16 ctx (eth + 12)) then (- 1, ctx)
      else
        (let vlh = eth + 14
         in if vlh + 4 > length ctx then (- 1, ctx)
            else
              (let vlid = uint (bpf_ntohs (load16 ctx vlh));
                   h_proto = load16 ctx (vlh + 2);
                   eth_cpy = mem_read ctx eth 14;
                   (err, ctx) = bpf_xdp_adjust_head ctx 4
               in if err \<noteq> 0 then (- 1, ctx)
                  else
                    (let eth = 0
                     in if eth + 14 > length ctx then (- 1, ctx)
                        else (let ctx = mem_write ctx eth eth_cpy;
                                  ctx = store16 ctx (eth + 12) h_proto
                              in (vlid, ctx))))))"

definition vlan_tag_push :: "adjust_head \<Rightarrow> packet \<Rightarrow> nat \<Rightarrow> i32 \<Rightarrow> int \<times> packet" where
  "vlan_tag_push bpf_xdp_adjust_head ctx eth vlid =
     (let eth_cpy = mem_read ctx eth 14;
          (err, ctx) = bpf_xdp_adjust_head ctx (0 - 4)
      in if err \<noteq> 0 then (- 1, ctx)
         else
           (let eth = 0
            in if eth + 14 > length ctx then (- 1, ctx)
               else
                 (let ctx = mem_write ctx eth eth_cpy;
                      vlh = eth + 14
                  in if vlh + 4 > length ctx then (- 1, ctx)
                     else
                       (let ctx = store16 ctx vlh (bpf_htons (ucast vlid));
                            ctx = store16 ctx (vlh + 2) (load16 ctx (eth + 12));
                            ctx = store16 ctx (eth + 12) (bpf_htons ETH_P_8021Q)
                        in (0, ctx)))))"

section \<open>Exchanging addresses\<close>

definition swap_src_dst_mac :: "packet \<Rightarrow> nat \<Rightarrow> packet" where
  "swap_src_dst_mac pkt eth =
     (let h_tmp = mem_read pkt (eth + 6) 6;
          pkt = mem_write pkt (eth + 6) (mem_read pkt eth 6)
      in mem_write pkt eth h_tmp)"

definition swap_src_dst_ipv6 :: "packet \<Rightarrow> nat \<Rightarrow> packet" where
  "swap_src_dst_ipv6 pkt ipv6 =
     (let tmp = mem_read pkt (ipv6 + 8) 16;
          pkt = mem_write pkt (ipv6 + 8) (mem_read pkt (ipv6 + 24) 16)
      in mem_write pkt (ipv6 + 24) tmp)"

definition swap_src_dst_ipv4 :: "packet \<Rightarrow> nat \<Rightarrow> packet" where
  "swap_src_dst_ipv4 pkt iphdr =
     (let tmp = mem_read pkt (iphdr + 12) 4;
          pkt = mem_write pkt (iphdr + 12) (mem_read pkt (iphdr + 16) 4)
      in mem_write pkt (iphdr + 16) tmp)"

text \<open>The packet in which the \<open>n\<close> bytes at \<open>a\<close> and the \<open>n\<close> bytes at \<open>a + n\<close> change places.\<close>

definition exchanged :: "nat \<Rightarrow> nat \<Rightarrow> packet \<Rightarrow> packet" where
  "exchanged a n pkt = take a pkt @ mem_read pkt (a + n) n @ mem_read pkt a n @ drop (a + 2 * n) pkt"

text \<open>A frame buffer with zeroed headroom, which keeps an Ethernet header's worth of data.\<close>

definition adjust_zero :: adjust_head where
  "adjust_zero pkt delta =
     (if delta < 0 then (0, replicate (nat (- delta)) 0 @ pkt)
      else if nat delta + 14 > length pkt then (- 22, pkt)
      else (0, drop (nat delta) pkt))"

section \<open>The head of the packet\<close>

locale xdp_head =
  fixes adjust :: adjust_head
  assumes adjust_fails: "fst (adjust pkt delta) \<noteq> 0 \<Longrightarrow> snd (adjust pkt delta) = pkt"
    and adjust_cuts: "fst (adjust pkt (int n)) = 0 \<Longrightarrow> n \<le> length pkt \<and> snd (adjust pkt (int n)) = drop n pkt"
    and adjust_adds: "fst (adjust pkt (- int n)) = 0 \<Longrightarrow> \<exists>bs. length bs = n \<and> snd (adjust pkt (- int n)) = bs @ pkt"
begin

lemma pop_frame:
  assumes "proto_is_vlan (load16 pkt 12)" "18 \<le> length pkt" "fst (adjust pkt 4) = 0"
  shows "vlan_tag_pop adjust pkt 0 = (uint (bpf_ntohs (load16 pkt 14)), take 12 pkt @ drop 16 pkt)"
proof -
  have cut: "adjust pkt 4 = (0, drop 4 pkt)" using adjust_cuts [of pkt 4] assms(3) by (simp add: prod_eq_iff)
  have "store16 (mem_write (drop 4 pkt) 0 (mem_read pkt 0 14)) 12 (load16 pkt 16) = take 12 pkt @ drop 16 pkt"
    using assms(2) by (intro nth_equalityI) (auto simp: nth_store16 nth_mem_write nth_append less_Suc_eq_le)
  moreover have "\<not> length pkt - 4 < 14" using assms(2) by linarith
  ultimately show ?thesis using assms cut by (simp add: vlan_tag_pop_def)
qed

lemma push_frame:
  assumes "14 \<le> length pkt" "fst (adjust pkt (- 4)) = 0"
  shows "vlan_tag_push adjust pkt 0 vlid =
    (0, take 12 pkt @ [0x81, 0, ucast (drop_bit 8 vlid), ucast vlid] @ drop 12 pkt)"
proof -
  obtain bs where bs: "length bs = 4" "adjust pkt (- 4) = (0, bs @ pkt)"
    using adjust_adds [of pkt 4] assms(2) by (metis of_nat_numeral prod.collapse)
  let ?m = "mem_write (bs @ pkt) 0 (mem_read pkt 0 14)"
  have m: "length ?m = length pkt + 4" "\<And>i. i < length pkt + 4 \<Longrightarrow> ?m ! i = (if i < 14 then pkt ! i else pkt ! (i - 4))"
    using assms(1) bs(1) by (auto simp: nth_mem_write nth_append)
  have p: "load16 ?m 12 = load16 pkt 12" using m assms(1) by (simp add: load16_def)
  have tci: "ucast (bswap16 (ucast vlid)) = (ucast (drop_bit 8 vlid) :: u8)"
      "ucast (drop_bit 8 (bswap16 (ucast vlid))) = (ucast vlid :: u8)"
      "ucast (bswap16 ETH_P_8021Q) = (0x81 :: u8)" "ucast (drop_bit 8 (bswap16 ETH_P_8021Q)) = (0 :: u8)"
    by (rule bit_word_eqI; auto simp: bswap16_def bit_simps; fail)+
       (simp_all add: bswap16_def ETH_P_8021Q_def)
  have "store16 (store16 (store16 ?m 14 (bswap16 (ucast vlid))) 16 (load16 pkt 12)) 12 (bswap16 ETH_P_8021Q) =
      take 12 pkt @ [0x81, 0, ucast (drop_bit 8 vlid), ucast vlid] @ drop 12 pkt"
    using assms(1) m
    by (intro nth_equalityI) (auto simp: nth_store16 tci nth_append nth_Cons' less_Suc_eq_le)
  moreover have "load16 (store16 ?m 14 (bswap16 (ucast vlid))) 12 = load16 pkt 12"
    using p by (simp add: load16_store16_other load16_def nth_store16_other)
  ultimately show ?thesis using assms(1) bs m(1) by (simp add: vlan_tag_push_def)
qed

end

interpretation zero_head: xdp_head adjust_zero
  by unfold_locales (auto simp: adjust_zero_def split: if_splits)

section \<open>Exchanges\<close>

lemma exchange_append:
  assumes "length A = a" "length B = n" "length C = n"
  shows "mem_write (mem_write (A @ B @ C @ D) a (mem_read (A @ B @ C @ D) (a + n) n)) (a + n)
           (mem_read (A @ B @ C @ D) a n) = exchanged a n (A @ B @ C @ D)"
    and "mem_write (mem_write (A @ B @ C @ D) (a + n) (mem_read (A @ B @ C @ D) a n)) a
           (mem_read (A @ B @ C @ D) (a + n) n) = exchanged a n (A @ B @ C @ D)"
    and "exchanged a n (exchanged a n (A @ B @ C @ D)) = A @ B @ C @ D"
  using assms by (auto simp: exchanged_def mem_write_def mem_read_def)

lemma split_fields:
  assumes "a + 2 * n \<le> length pkt"
  obtains A B C D where "pkt = A @ B @ C @ D" "length A = a" "length B = n" "length C = n"
proof
  show "pkt = take a pkt @ take n (drop a pkt) @ take n (drop (n + a) pkt) @ drop (n + (n + a)) pkt"
    by (metis append_take_drop_id drop_drop)
qed (use assms in simp_all)

lemma exchange_fields:
  assumes "a + 2 * n \<le> length pkt"
  shows "mem_write (mem_write pkt a (mem_read pkt (a + n) n)) (a + n) (mem_read pkt a n) = exchanged a n pkt"
    and "mem_write (mem_write pkt (a + n) (mem_read pkt a n)) a (mem_read pkt (a + n) n) = exchanged a n pkt"
    and "exchanged a n (exchanged a n pkt) = pkt"
proof -
  from split_fields [OF assms] obtain A B C D
    where f: "pkt = A @ B @ C @ D" "length A = a" "length B = n" "length C = n" by blast
  show "mem_write (mem_write pkt a (mem_read pkt (a + n) n)) (a + n) (mem_read pkt a n) = exchanged a n pkt"
    and "mem_write (mem_write pkt (a + n) (mem_read pkt a n)) a (mem_read pkt (a + n) n) = exchanged a n pkt"
    and "exchanged a n (exchanged a n pkt) = pkt"
    unfolding f(1) by (rule exchange_append [OF f(2-4)])+
qed

lemma tci_bytes: "load16 (xs @ [x, y] @ ys) (length xs) = ucast x OR push_bit 8 (ucast y)"
  by (simp add: load16_def nth_append)

lemma swab_bytes: "bswap16 (ucast (ucast (drop_bit 8 v) :: u8) OR push_bit 8 (ucast (ucast v :: u8))) = ucast (v :: i32)"
  by (rule bit_word_eqI) (auto simp: bswap16_def bit_simps)

lemma swap_exchanged:
  "eth + 14 \<le> length pkt \<Longrightarrow> swap_src_dst_mac pkt eth = exchanged eth 6 pkt"
  "ip6 + 40 \<le> length pkt \<Longrightarrow> swap_src_dst_ipv6 pkt ip6 = exchanged (ip6 + 8) 16 pkt"
  "iph + 20 \<le> length pkt \<Longrightarrow> swap_src_dst_ipv4 pkt iph = exchanged (iph + 12) 4 pkt"
  using exchange_fields(2) [of eth 6 pkt] exchange_fields(1) [of "ip6 + 8" 16 pkt]
    exchange_fields(1) [of "iph + 12" 4 pkt]
  by (simp_all add: swap_src_dst_mac_def swap_src_dst_ipv6_def swap_src_dst_ipv4_def add.assoc)

lemma length_exchanged: "a + 2 * n \<le> length pkt \<Longrightarrow> length (exchanged a n pkt) = length pkt"
  by (simp add: exchanged_def)

section \<open>Properties\<close>

text \<open>
  C12: pushing and popping a VLAN tag.  A push on a complete frame inserts the four bytes of the
  802.1Q tag between the MAC addresses and the EtherType; a pop of the result takes them out
  again, returns the 16 bits of \<open>vlid\<close> and leaves the original frame.
\<close>

theorem vlan_push_pop:
  assumes "xdp_head adjust" "14 \<le> length pkt" "fst (adjust pkt (- 4)) = 0"
    and "vlan_tag_push adjust pkt 0 vlid = (r, pkt')" "fst (adjust pkt' 4) = 0"
  shows "r = 0 \<and> pkt' = take 12 pkt @ [0x81, 0, ucast (drop_bit 8 vlid), ucast vlid] @ drop 12 pkt \<and>
         vlan_tag_pop adjust pkt' 0 = (uint (ucast vlid :: u16), pkt)"
proof -
  have push: "r = 0" "pkt' = take 12 pkt @ [0x81, 0, ucast (drop_bit 8 vlid), ucast vlid] @ drop 12 pkt"
    using xdp_head.push_frame [OF assms(1-3), of vlid] assms(4) by simp_all
  have "load16 pkt' 14 = bswap16 (ucast vlid)"
    using tci_bytes [of "take 12 pkt @ [0x81, 0]" "ucast (drop_bit 8 vlid)" "ucast vlid" "drop 12 pkt"] assms(2)
      arg_cong [OF swab_bytes [of vlid], of bswap16]
    by (simp add: push(2))
  moreover have "proto_is_vlan (load16 pkt' 12)"
    using tci_bytes [of "take 12 pkt" "0x81" 0] assms(2)
    by (simp add: push(2) proto_is_vlan_def ETH_P_8021Q_def bswap16_def)
  ultimately show ?thesis
    using xdp_head.pop_frame [OF assms(1), of pkt'] assms(2,5) push by simp
qed

theorem vlan_push_pop_witness:
  "vlan_tag_pop adjust_zero (snd (vlan_tag_push adjust_zero (replicate 14 7) 0 5)) 0 = (5, replicate 14 7)"
proof -
  have "fst (adjust_zero (snd (vlan_tag_push adjust_zero (replicate 14 7) 0 5)) 4) = 0" by code_simp
  moreover have "14 \<le> length (replicate 14 (7 :: u8))" "fst (adjust_zero (replicate 14 7) (- 4)) = 0"
    "uint (ucast (5 :: i32) :: u16) = 5" by (simp_all add: adjust_zero_def)
  ultimately show ?thesis
    using vlan_push_pop [OF zero_head.xdp_head_axioms _ _ prod.collapse [symmetric]] by metis
qed

text \<open>
  The address swaps.  Each of the three helpers exchanges its two adjacent address fields,
  changes no other byte, and undoes itself when it is called again.
\<close>

theorem swaps_exchange_addresses:
  "(eth + 14 \<le> length pkt \<longrightarrow>
      swap_src_dst_mac pkt eth = exchanged eth 6 pkt \<and> swap_src_dst_mac (swap_src_dst_mac pkt eth) eth = pkt) \<and>
   (ip6 + 40 \<le> length pkt \<longrightarrow>
      swap_src_dst_ipv6 pkt ip6 = exchanged (ip6 + 8) 16 pkt \<and> swap_src_dst_ipv6 (swap_src_dst_ipv6 pkt ip6) ip6 = pkt) \<and>
   (iph + 20 \<le> length pkt \<longrightarrow>
      swap_src_dst_ipv4 pkt iph = exchanged (iph + 12) 4 pkt \<and> swap_src_dst_ipv4 (swap_src_dst_ipv4 pkt iph) iph = pkt)"
  by (simp add: swap_exchanged exchange_fields(3) length_exchanged)

theorem swaps_exchange_addresses_witness:
  "swap_src_dst_mac [1,2,3,4,5,6,11,12,13,14,15,16,8,0] 0 = [11,12,13,14,15,16,1,2,3,4,5,6,8,0] \<and>
   swap_src_dst_mac (swap_src_dst_mac [1,2,3,4,5,6,11,12,13,14,15,16,8,0] 0) 0 = [1,2,3,4,5,6,11,12,13,14,15,16,8,0]"
  using swaps_exchange_addresses [of 0 "[1,2,3,4,5,6,11,12,13,14,15,16,8,0]" 0 0]
  by (auto simp: exchanged_def mem_read_def)

end
