(* ===== verification/Dynamic_Fix.thy ===== *)
theory Dynamic_Fix
  imports Fixed_Point "HOL-Library.Signed_Division"
begin

text \<open>
  The prototype of the fixed-point arithmetic, \<open>fully_in-kernel/main/dynamic-fix.c\<close>, which runs in
  user space.  Its counters, \<open>check_bit\<close>, \<open>add\<close>, \<open>subtract\<close>, \<open>multi\<close> and \<open>abs_val\<close> are those of
  \<open>fixed-point.h\<close>; its \<open>divide\<close> uses signed instead of unsigned arithmetic, and its \<open>calc_log\<close>
  shifts the whole sum instead of the table entry.  The theory relates these two to the header.
\<close>

section \<open>Operations\<close>

text \<open>Division of 64-bit signed integers, which truncates; dividing by zero ends the process.\<close>

definition sdiv64 :: "i64 \<Rightarrow> i64 \<Rightarrow> i64 option" where
  "sdiv64 a b = (if b = 0 then None else Some (word_of_int (sint a sdiv sint b)))"

definition multi ::
    "fixed_point \<Rightarrow> fixed_point \<Rightarrow> fixed_point \<times> fixed_point \<times> fixed_point" where
  "multi first second =
     (let high_f = trunc32 (high32 first);
          low_f = trunc32 (low32 first);
          high_s = trunc32 (high32 second);
          low_s = trunc32 (low32 second);
          (first, second) = check_bit first second;
          fixed_point_bits = fp_q first;
          temp = sext64 (high_f * high_s);
          fixed_point_bits =
            (if uint temp > uint (shl64 1 (32 - fixed_point_bits - 1))
             then 31 - (64 - count_zero_64 temp) else fixed_point_bits);
          (q, prod) =
            (if sint fixed_point_bits \<ge> 16
             then (fixed_point_bits - 16,
                   shl32 (trunc32 temp) fixed_point_bits + sar32 (low_f * high_s) (fixed_point_bits - 16)
                   + sar32 (high_f * low_s) (fixed_point_bits - 16)
                   + sar32 (low_f * low_s) (32 - fixed_point_bits))
             else (16 - fixed_point_bits,
                   shl32 (trunc32 temp) fixed_point_bits + shl32 (low_f * high_s) (16 - fixed_point_bits)
                   + shl32 (high_f * low_s) (16 - fixed_point_bits)
                   + sar32 (low_f * low_s) (32 - fixed_point_bits)))
      in (first, second, \<lparr>fp_number = prod, fp_q = fixed_point_bits\<rparr>))"

text \<open>The quotient and the number it prints; \<open>None\<close> when the process dies on a zero divisor.\<close>

definition divide_dyn ::
    "fixed_point \<Rightarrow> fixed_point \<Rightarrow> (fixed_point \<times> fixed_point \<times> fixed_point \<times> i32) option" where
  "divide_dyn first second =
     (let (first, second) = check_bit first second
      in case sdiv64 (shl64 (sext64 (fp_number first)) 32) (sext64 (fp_number second)) of
           None \<Rightarrow> None
         | Some d \<Rightarrow>
             (let acc = sar64 d (32 - fp_q first)
              in Some (first, second, fit_result (fp_q first) acc, trunc32 (shr64 acc (fp_q first)))))"

text \<open>
  In the source \<open>a + b >> c\<close> is \<open>(a + b) >> c\<close>, in 64-bit unsigned arithmetic because of the
  cast of \<open>b\<close>.  The value that line 285 stores is overwritten by line 286.
\<close>

definition calc_log_dyn :: "fixed_point \<Rightarrow> fixed_point" where
  "calc_log_dyn x =
     (let leading_zero = count_zero_32 (sext64 (fp_number x))
      in if sint leading_zero \<ge> 0 \<and> sint leading_zero < 32
         then (let idx = (ucast (sar32 (shl32 (fp_number x) (leading_zero + 1)) 24) :: u8)
               in \<lparr>fp_number = trunc32 (shr64 (sext64 (shl32 (31 - fp_q x - leading_zero) 24) + log_array ! unat idx)
                                         (24 - fp_q x)),
                   fp_q = 8\<rparr>)
         else \<lparr>fp_number = 0, fp_q = 8\<rparr>)"

section \<open>Division\<close>

lemma zdiv_le_self: "0 \<le> a \<Longrightarrow> 0 < b \<Longrightarrow> a div b \<le> (a :: int)"
  using zdiv_mono2 [of a 1 b] by simp

lemma uint_shl64_32:
  assumes "0 \<le> sint n"
  shows "uint (shl64 (sext64 n) 32) = sint n * 2 ^ 32" "sint (shl64 (sext64 n) 32) = sint n * 2 ^ 32"
proof -
  have n: "uint (sext64 n) = sint n" using assms sint_eq_uint_nonneg [of "sext64 n"] by simp
  have b: "sint n * 2 ^ 32 < 2 ^ 63" using sint32_range(2) [of n] by simp
  show u: "uint (shl64 (sext64 n) 32) = sint n * 2 ^ 32"
    using assms b by (subst uint_shl64) (simp_all add: n)
  then show "sint (shl64 (sext64 n) 32) = sint n * 2 ^ 32"
    using assms b by (simp add: sint_uint u signed_take_bit_int_eq_self order_trans [of _ 0])
qed

lemma shr64_sar64:
  assumes "0 \<le> sint (x :: i64)" "0 \<le> sint k" "sint k < 64"
  shows "sar64 x k = shr64 x k"
proof -
  have ux: "uint x = sint x" using assms(1) by (rule sint_eq_uint_nonneg)
  have "0 \<le> sint (sar64 x k)" using assms by (simp add: sint_sar64 pos_imp_zdiv_nonneg_iff)
  then have "uint (sar64 x k) = sint (sar64 x k)" by (rule sint_eq_uint_nonneg)
  also have "\<dots> = uint (shr64 x k)" using assms by (simp add: sint_sar64 uint_shr64 ux)
  finally show ?thesis by (simp only: word_uint_eq_iff)
qed

lemma sdiv64_nonneg:
  assumes "0 \<le> sint a" "0 < sint b"
  shows "sdiv64 a b = Some (udiv64 a b)" "0 \<le> sint (udiv64 a b)"
proof -
  have b: "b \<noteq> 0" using assms(2) by auto
  have u: "uint a = sint a" "uint b = sint b" using assms sint_eq_uint_nonneg [of a] sint_eq_uint_nonneg [of b] by simp_all
  have d: "uint (udiv64 a b) = sint a div sint b" using b u by (simp add: udiv64_def uint_div)
  have le: "sint a div sint b \<le> sint a" using assms by (intro zdiv_le_self) simp_all
  then have "uint (udiv64 a b) < 2 ^ 63" using d sint_lt [of a] by simp
  then show s: "0 \<le> sint (udiv64 a b)" by (simp add: sint_uint signed_take_bit_int_eq_self order_trans [of _ 0])
  have "sint a sdiv sint b = sint a div sint b"
    using assms by (simp add: signed_divide_int_def sgn_if)
  then show "sdiv64 a b = Some (udiv64 a b)"
    using b d by (simp add: sdiv64_def) (metis word_of_int_uint)
qed

lemma divide_dyn_nonneg:
  assumes "0 \<le> sint (fp_number a)" "0 < sint (fp_number b)"
    and "0 \<le> sint (fp_q a)" "sint (fp_q a) \<le> 32" "0 \<le> sint (fp_q b)" "sint (fp_q b) \<le> 32"
  shows "map_option (\<lambda>(a, b, r, _). (a, b, r)) (divide_dyn a b) = Some (divide a b)"
proof -
  obtain a' b' where c: "check_bit a b = (a', b')" by force
  have k: "fp_number a' = fp_number a" "fp_number b' = fp_number b" "0 \<le> sint (fp_q a')" "sint (fp_q a') \<le> 32"
    using c assms(3-6) by (auto simp: check_bit_eq)
  have q: "sint (32 - fp_q a') = 32 - sint (fp_q a')" using k(3,4) by (subst sint32_sub) simp_all
  let ?n = "shl64 (sext64 (fp_number a)) 32" and ?d = "sext64 (fp_number b)"
  have n: "0 \<le> sint ?n" using uint_shl64_32(2) [OF assms(1)] assms(1) by simp
  have d: "0 < sint ?d" using assms(2) by simp
  have "sar64 (udiv64 ?n ?d) (32 - fp_q a') = shr64 (udiv64 ?n ?d) (32 - fp_q a')"
    using k(3,4) q by (intro shr64_sar64 sdiv64_nonneg(2) [OF n d]) simp_all
  then show ?thesis using sdiv64_nonneg(1) [OF n d] by (simp add: divide_dyn_def divide_def c k(1,2) Let_def)
qed

section \<open>Logarithm\<close>

lemma calc_log_dyn_positive:
  fixes x :: fixed_point
  defines "n \<equiv> fp_number x" and "q \<equiv> sint (fp_q x)" and "e \<equiv> bit_len (unat (fp_number x)) - 1"
  assumes n: "0 < sint n" and q: "0 \<le> q" "q \<le> int e" "q \<le> 24"
  shows "sint (fp_number (calc_log_dyn x)) =
    ((int e - q) * 2 ^ 24 + uint (log_array ! (unat n * 256 div 2 ^ e - 256))) div 2 ^ nat (24 - q)"
proof -
  let ?lz = "count_zero_32 (sext64 n)"
  let ?T = "log_array ! (unat n * 256 div 2 ^ e - 256)"
  let ?s = "sext64 (shl32 (31 - fp_q x - ?lz) 24) + ?T"
  note l = log_parts [of n "fp_q x", OF n, folded q_def, OF q(1,3), unfolded n_def, folded e_def, folded n_def]
  have i: "0 \<le> (int e - q) * 2 ^ 24" "(int e - q) * 2 ^ 24 \<le> 30 * 2 ^ 24" using q l(2) by simp_all
  have "sint (sext64 (shl32 (31 - fp_q x - ?lz) 24)) = (int e - q) * 2 ^ 24" using l(5) by simp
  then have "uint (sext64 (shl32 (31 - fp_q x - ?lz) 24)) = (int e - q) * 2 ^ 24"
    using i(1) sint_eq_uint_nonneg [of "sext64 (shl32 (31 - fp_q x - ?lz) 24)"] by simp
  then have s: "uint ?s = (int e - q) * 2 ^ 24 + uint ?T"
    using i l(4) by (simp add: uint_word_ariths)
  then have u: "uint (shr64 ?s (24 - fp_q x)) = ((int e - q) * 2 ^ 24 + uint ?T) div 2 ^ nat (24 - q)"
    using q by (subst uint_shr64) (simp_all add: l(6))
  have "((int e - q) * 2 ^ 24 + uint ?T) div 2 ^ nat (24 - q) \<le> (int e - q) * 2 ^ 24 + uint ?T"
    using i by (intro zdiv_le_self) simp_all
  then have "uint (shr64 ?s (24 - fp_q x)) < 2 ^ 31" using u i l(4) by simp
  then have "unat (shr64 ?s (24 - fp_q x)) < 2 ^ 31" using uint_less_power [of "shr64 ?s (24 - fp_q x)" 31] by simp
  then have "sint (trunc32 (shr64 ?s (24 - fp_q x))) = uint (shr64 ?s (24 - fp_q x))" by (simp add: sint_trunc32)
  moreover have "fp_number (calc_log_dyn x) = trunc32 (shr64 ?s (24 - fp_q x))"
    using l(1-3) by (simp add: calc_log_dyn_def flip: n_def)
  ultimately show ?thesis using u by simp
qed

section \<open>Properties\<close>

text \<open>
  the prototype's division is the kernel's.  On a non-negative dividend and a positive
  divisor with 0 to 32 fraction bits, the signed division of the prototype and the unsigned
  division of \<open>fixed-point.h\<close> return the same result and leave the same operands.
\<close>

theorem divide_dyn_refines:
  assumes "0 \<le> sint (fp_number a)" "0 < sint (fp_number b)"
    and "0 \<le> sint (fp_q a)" "sint (fp_q a) \<le> 32" "0 \<le> sint (fp_q b)" "sint (fp_q b) \<le> 32"
  shows "map_option (\<lambda>(a, b, r, _). (a, b, r)) (divide_dyn a b) = Some (divide a b)"
  using assms by (rule divide_dyn_nonneg)

theorem divide_dyn_refines_witness:
  "map_option (\<lambda>(a, b, r, _). (a, b, r)) (divide_dyn \<lparr>fp_number = 3, fp_q = 16\<rparr> \<lparr>fp_number = 2, fp_q = 16\<rparr>) =
   Some (divide \<lparr>fp_number = 3, fp_q = 16\<rparr> \<lparr>fp_number = 2, fp_q = 16\<rparr>)"
  by (rule divide_dyn_refines) simp_all

text \<open>
  The scale of a logarithm.  For a value of at least 1 with \<open>q\<close> fraction bits, the
  prototype returns the binary logarithm with \<open>q\<close> fraction bits: the sum of the exponent and the
  table entry, both with 24 fraction bits, shifted down by \<open>24 - q\<close>.  \<open>fixed-point.h\<close> shifts
  only the table entry: its integer part keeps 24 fraction bits, so its result is too large by
  the exponent times \<open>2 ^ 24 - 2 ^ q\<close>.
\<close>

theorem calc_log_scales:
  fixes x :: fixed_point and e :: nat
  assumes "2 ^ e \<le> sint (fp_number x)" "sint (fp_number x) < 2 ^ Suc e"
    and "0 \<le> sint (fp_q x)" "sint (fp_q x) \<le> int e" "sint (fp_q x) \<le> 24"
  shows "sint (fp_number (calc_log_dyn x)) =
           ((int e - sint (fp_q x)) * 2 ^ 24 + uint (log_array ! (unat (fp_number x) * 256 div 2 ^ e - 256)))
             div 2 ^ nat (24 - sint (fp_q x)) \<and>
         sint (fp_number (calc_log x)) - sint (fp_number (calc_log_dyn x)) =
           (int e - sint (fp_q x)) * (2 ^ 24 - 2 ^ nat (sint (fp_q x)))"
proof -
  let ?q = "sint (fp_q x)" and ?T = "uint (log_array ! (unat (fp_number x) * 256 div 2 ^ e - 256))"
  have n: "0 < sint (fp_number x)" using assms(1) by (rule less_le_trans [rotated]) simp
  then have un: "int (unat (fp_number x)) = sint (fp_number x)" by (intro unat_nonneg32) simp
  have "int (2 ^ e) \<le> int (unat (fp_number x))" "int (unat (fp_number x)) < int (2 ^ Suc e)"
    unfolding un using assms(1,2) by simp_all
  then have e: "e = bit_len (unat (fp_number x)) - 1"
    using bit_len_unique [of e "unat (fp_number x)"] by (simp only: of_nat_le_iff of_nat_less_iff)
  note dyn = calc_log_dyn_positive [OF n assms(3), folded e, OF assms(4,5)]
  note hdr = calc_log_positive(1) [OF n assms(3,5), folded e]
  have p: "(2::int) ^ 24 = 2 ^ nat ?q * 2 ^ nat (24 - ?q)" using assms(3,5) by (simp flip: power_add nat_add_distrib)
  have "((int e - ?q) * 2 ^ 24 + ?T) div 2 ^ nat (24 - ?q) = (int e - ?q) * 2 ^ nat ?q + ?T div 2 ^ nat (24 - ?q)"
    unfolding p mult.assoc [symmetric] by (simp add: div_mult_self3)
  then show ?thesis unfolding dyn hdr by (simp add: algebra_simps)
qed

theorem calc_log_scales_witness:
  "sint (fp_number (calc_log \<lparr>fp_number = 4 * 2 ^ 16, fp_q = 16\<rparr>)) -
   sint (fp_number (calc_log_dyn \<lparr>fp_number = 4 * 2 ^ 16, fp_q = 16\<rparr>)) = 2 * (2 ^ 24 - 2 ^ 16)"
  using calc_log_scales [of 18 "\<lparr>fp_number = 4 * 2 ^ 16, fp_q = 16\<rparr>"] by simp

text \<open>
  The prototype's multiplication is the kernel's: \<open>multi\<close> and \<open>multiply\<close> agree on all inputs.
\<close>

theorem multi_is_multiply: "multi a b = multiply a b"
  by (simp add: multi_def multiply_def Let_def split: prod.split)

end
