(* ===== verification/Hashmap.thy ===== *)
theory Hashmap
  imports Prelude
begin

text \<open>
  libbpf's chained hash table, \<open>libbpf/src/hashmap.c\<close> and \<open>hashmap.h\<close>.

  A chain is a list, the array of chains a list of lists, and the array pointer is \<open>Null\<close>,
  \<open>Live\<close> or \<open>Dangling\<close>: an operation that reads through a dangling pointer gives
  \<open>None\<close>.  Whether an allocation succeeds is an argument: \<open>callocs\<close> of the number of elements,
  \<open>mallocs\<close> for one entry.  Keys are compared and hashed by the functions of the table, here
  the record \<open>hash_fns\<close> (with the context pointer already applied).
\<close>

section \<open>Data\<close>

record 'k hash_fns =
  hash_fn :: "'k \<Rightarrow> u64"
  equal_fn :: "'k \<Rightarrow> 'k \<Rightarrow> bool"

datatype 'e bucket_array = Null | Live "'e list list" | Dangling

record ('k, 'v) hashmap =
  buckets :: "('k \<times> 'v) bucket_array"
  cap :: u64
  cap_bits :: u64
  sz :: u64

datatype hashmap_insert_strategy = HASHMAP_ADD | HASHMAP_SET | HASHMAP_UPDATE | HASHMAP_APPEND


definition HASHMAP_MIN_CAP_BITS :: u64 where "HASHMAP_MIN_CAP_BITS = 2"

section \<open>Operations\<close>

definition hash_bits :: "u64 \<Rightarrow> i32 \<Rightarrow> u64" where
  "hash_bits h bits = shr64 (h * 11400714819323198485) (64 - bits)"

definition hashmap_add_entry :: "'e \<Rightarrow> 'e list \<Rightarrow> 'e list" where
  "hashmap_add_entry entry chain = entry # chain"

definition hashmap_del_entry :: "nat \<Rightarrow> 'e list \<Rightarrow> 'e list" where
  "hashmap_del_entry pos chain = take pos chain @ drop (Suc pos) chain"

definition hashmap_init :: "('k, 'v) hashmap" where
  "hashmap_init = \<lparr>buckets = Null, cap = 0, cap_bits = 0, sz = 0\<rparr>"

definition hashmap_new :: "bool \<Rightarrow> int + ('k, 'v) hashmap" where
  "hashmap_new malloc_ok = (if malloc_ok then Inr hashmap_init else Inl (- ENOMEM))"

definition hashmap_clear :: "('k, 'v) hashmap \<Rightarrow> ('k, 'v) hashmap" where
  "hashmap_clear m =
     m\<lparr>buckets := (case buckets m of Null \<Rightarrow> Null | _ \<Rightarrow> Dangling), cap := 0, cap_bits := 0, sz := 0\<rparr>"

definition hashmap_size :: "('k, 'v) hashmap \<Rightarrow> u64" where "hashmap_size m = sz m"

definition hashmap_capacity :: "('k, 'v) hashmap \<Rightarrow> u64" where "hashmap_capacity m = cap m"

definition hashmap_needs_to_grow :: "('k, 'v) hashmap \<Rightarrow> bool" where
  "hashmap_needs_to_grow m \<longleftrightarrow> cap m = 0 \<or> (sz m + 1) * 4 div 3 > cap m"

definition bucket_of :: "'k hash_fns \<Rightarrow> u64 \<Rightarrow> 'k \<Rightarrow> nat" where
  "bucket_of fns bits key = unat (hash_bits (hash_fn fns key) (ucast bits))"

text \<open>Moving the entries into the new array, one after the other.\<close>

fun rehash :: "'k hash_fns \<Rightarrow> u64 \<Rightarrow> ('k \<times> 'v) list \<Rightarrow> ('k \<times> 'v) list list \<Rightarrow> ('k \<times> 'v) list list" where
  "rehash fns bits [] bs = bs"
| "rehash fns bits (e # es) bs =
     (let h = bucket_of fns bits (fst e) in rehash fns bits es (bs[h := hashmap_add_entry e (bs ! h)]))"

text \<open>The result is \<open>None\<close> when the old entries are read, or freed, through a dangling pointer.\<close>

definition hashmap_grow ::
    "'k hash_fns \<Rightarrow> (u64 \<Rightarrow> bool) \<Rightarrow> ('k, 'v) hashmap \<Rightarrow> (int \<times> ('k, 'v) hashmap) option" where
  "hashmap_grow fns callocs m =
     (let new_cap_bits = (if cap_bits m + 1 < HASHMAP_MIN_CAP_BITS then HASHMAP_MIN_CAP_BITS else cap_bits m + 1);
          new_cap = shl64 1 (ucast new_cap_bits)
      in if \<not> callocs new_cap then Some (- ENOMEM, m)
         else case buckets m of
                Dangling \<Rightarrow> None
              | Null \<Rightarrow> Some (0, m\<lparr>buckets := Live (replicate (unat new_cap) []), cap := new_cap, cap_bits := new_cap_bits\<rparr>)
              | Live bs \<Rightarrow>
                  Some (0, m\<lparr>buckets := Live (rehash fns new_cap_bits (concat (take (unat (cap m)) bs)) (replicate (unat new_cap) [])),
                             cap := new_cap, cap_bits := new_cap_bits\<rparr>))"

text \<open>The position of the first entry of a chain whose key equals the given one.\<close>

fun chain_find :: "'k hash_fns \<Rightarrow> 'k \<Rightarrow> ('k \<times> 'v) list \<Rightarrow> nat option" where
  "chain_find fns key [] = None"
| "chain_find fns key (e # es) =
     (if equal_fn fns (fst e) key then Some 0 else map_option Suc (chain_find fns key es))"

definition hashmap_find_entry ::
    "'k hash_fns \<Rightarrow> ('k, 'v) hashmap \<Rightarrow> 'k \<Rightarrow> nat \<Rightarrow> nat option option" where
  "hashmap_find_entry fns m key h =
     (case buckets m of
        Null \<Rightarrow> Some None
      | Dangling \<Rightarrow> None
      | Live bs \<Rightarrow> Some (chain_find fns key (bs ! h)))"

definition chain_at :: "('k, 'v) hashmap \<Rightarrow> nat \<Rightarrow> ('k \<times> 'v) list" where
  "chain_at m h = (case buckets m of Live bs \<Rightarrow> bs ! h | _ \<Rightarrow> [])"

definition set_chain :: "('k, 'v) hashmap \<Rightarrow> nat \<Rightarrow> ('k \<times> 'v) list \<Rightarrow> ('k, 'v) hashmap" where
  "set_chain m h c = (case buckets m of Live bs \<Rightarrow> m\<lparr>buckets := Live (bs[h := c])\<rparr> | _ \<Rightarrow> m)"

text \<open>
  The return value, the old entry that is handed back, and the table.  \<open>insert_new\<close> is the second half, which every
  strategy but \<open>HASHMAP_UPDATE\<close> reaches when the key was not found.
\<close>

definition insert_new ::
    "'k hash_fns \<Rightarrow> (u64 \<Rightarrow> bool) \<Rightarrow> bool \<Rightarrow> ('k, 'v) hashmap \<Rightarrow> 'k \<Rightarrow> 'v \<Rightarrow>
     (int \<times> ('k \<times> 'v) option \<times> ('k, 'v) hashmap) option" where
  "insert_new fns callocs mallocs m key v =
     (case (if hashmap_needs_to_grow m then hashmap_grow fns callocs m else Some (0, m)) of
        None \<Rightarrow> None
      | Some (err, m) \<Rightarrow>
          if err \<noteq> 0 then Some (err, None, m)
          else if \<not> mallocs then Some (- ENOMEM, None, m)
          else (let h = bucket_of fns (cap_bits m) key;
                    m = set_chain m h (hashmap_add_entry (key, v) (chain_at m h))
                in Some (0, None, m\<lparr>sz := sz m + 1\<rparr>)))"

definition hashmap_insert ::
    "'k hash_fns \<Rightarrow> (u64 \<Rightarrow> bool) \<Rightarrow> bool \<Rightarrow> ('k, 'v) hashmap \<Rightarrow> 'k \<Rightarrow> 'v \<Rightarrow> hashmap_insert_strategy \<Rightarrow>
     (int \<times> ('k \<times> 'v) option \<times> ('k, 'v) hashmap) option" where
  "hashmap_insert fns callocs mallocs m key v strategy =
     (let h = bucket_of fns (cap_bits m) key
      in case (if strategy \<noteq> HASHMAP_APPEND then hashmap_find_entry fns m key h else Some None) of
           None \<Rightarrow> None
         | Some (Some pos) \<Rightarrow>
             (let old = chain_at m h ! pos
              in if strategy = HASHMAP_SET \<or> strategy = HASHMAP_UPDATE
                 then Some (0, Some old, set_chain m h ((chain_at m h)[pos := (key, v)]))
                 else Some (- EEXIST, Some old, m))
         | Some None \<Rightarrow>
             if strategy = HASHMAP_UPDATE then Some (- ENOENT, None, m)
             else insert_new fns callocs mallocs m key v)"

definition hashmap_add where
  "hashmap_add fns callocs mallocs m key v =
     map_option (\<lambda>(err, _, m). (err, m)) (hashmap_insert fns callocs mallocs m key v HASHMAP_ADD)"

definition hashmap_set where
  "hashmap_set fns callocs mallocs m key v = hashmap_insert fns callocs mallocs m key v HASHMAP_SET"

definition hashmap_update where
  "hashmap_update fns callocs mallocs m key v = hashmap_insert fns callocs mallocs m key v HASHMAP_UPDATE"

definition hashmap_append where
  "hashmap_append fns callocs mallocs m key v =
     map_option (\<lambda>(err, _, m). (err, m)) (hashmap_insert fns callocs mallocs m key v HASHMAP_APPEND)"

definition hashmap_find :: "'k hash_fns \<Rightarrow> ('k, 'v) hashmap \<Rightarrow> 'k \<Rightarrow> 'v option option" where
  "hashmap_find fns m key =
     (let h = bucket_of fns (cap_bits m) key
      in map_option (map_option (\<lambda>pos. snd (chain_at m h ! pos))) (hashmap_find_entry fns m key h))"

definition hashmap_delete ::
    "'k hash_fns \<Rightarrow> ('k, 'v) hashmap \<Rightarrow> 'k \<Rightarrow> (bool \<times> ('k \<times> 'v) option \<times> ('k, 'v) hashmap) option" where
  "hashmap_delete fns m key =
     (let h = bucket_of fns (cap_bits m) key
      in case hashmap_find_entry fns m key h of
           None \<Rightarrow> None
         | Some None \<Rightarrow> Some (False, None, m)
         | Some (Some pos) \<Rightarrow>
             (let m' = set_chain m h (hashmap_del_entry pos (chain_at m h))
              in Some (True, Some (chain_at m h ! pos), m'\<lparr>sz := sz m' - 1\<rparr>)))"

text \<open>The iteration macros: all entries, and the entries of a key, in the order of the visit.\<close>

definition for_each_entry :: "('k, 'v) hashmap \<Rightarrow> ('k \<times> 'v) list" where
  "for_each_entry m = (case buckets m of Live bs \<Rightarrow> concat (take (unat (cap m)) bs) | _ \<Rightarrow> [])"

definition for_each_key_entry :: "'k hash_fns \<Rightarrow> ('k, 'v) hashmap \<Rightarrow> 'k \<Rightarrow> ('k \<times> 'v) list" where
  "for_each_key_entry fns m key =
     filter (\<lambda>e. equal_fn fns (fst e) key) (chain_at m (bucket_of fns (cap_bits m) key))"

section \<open>Hash and equality functions of the tables in libbpf\<close>

text \<open>\<open>btf_dump.c\<close>: names, hashed over their characters, which are signed.\<close>

fun str_hash :: "char list \<Rightarrow> u64 \<Rightarrow> u64" where
  "str_hash [] h = h"
| "str_hash (c # s) h = str_hash s (h * 31 + scast (of_char c :: u8))"

definition str_hash_fn :: "string \<Rightarrow> u64" where "str_hash_fn s = str_hash s 0"

definition str_equal_fn :: "string \<Rightarrow> string \<Rightarrow> bool" where "str_equal_fn a b \<longleftrightarrow> a = b"

text \<open>\<open>btf.c\<close>: the deduplication table, keyed by hash values.\<close>

definition btf_dedup_identity_hash_fn :: "u64 \<Rightarrow> u64" where "btf_dedup_identity_hash_fn key = key"

definition btf_dedup_collision_hash_fn :: "u64 \<Rightarrow> u64" where "btf_dedup_collision_hash_fn key = 0"

definition btf_dedup_equal_fn :: "u64 \<Rightarrow> u64 \<Rightarrow> bool" where "btf_dedup_equal_fn k1 k2 \<longleftrightarrow> k1 = k2"

section \<open>Specification\<close>

definition entries_total :: "('k, 'v) hashmap \<Rightarrow> nat" where
  "entries_total m = (case buckets m of Live bs \<Rightarrow> length (concat bs) | _ \<Rightarrow> 0)"

text \<open>
  The invariant: an array of \<open>2 ^ cap_bits\<close> chains, each entry in the chain of its key, the size
  the number of entries, and the table at most three quarters full (rounded).
\<close>

definition hm_inv :: "'k hash_fns \<Rightarrow> ('k, 'v) hashmap \<Rightarrow> bool" where
  "hm_inv fns m \<longleftrightarrow>
     (case buckets m of
        Null \<Rightarrow> cap m = 0 \<and> cap_bits m = 0 \<and> sz m = 0
      | Dangling \<Rightarrow> False
      | Live bs \<Rightarrow>
          2 \<le> unat (cap_bits m) \<and> unat (cap_bits m) \<le> 60 \<and> unat (cap m) = 2 ^ unat (cap_bits m) \<and>
          length bs = 2 ^ unat (cap_bits m) \<and> unat (sz m) = length (concat bs) \<and>
          length (concat bs) * 4 div 3 \<le> 2 ^ unat (cap_bits m) \<and>
          (\<forall>i < length bs. \<forall>e \<in> set (bs ! i). bucket_of fns (cap_bits m) (fst e) = i))"

text \<open>\<open>calloc\<close> fails when the size in bytes is not representable.\<close>

definition calloc_ok :: "(u64 \<Rightarrow> bool) \<Rightarrow> bool" where
  "calloc_ok callocs \<longleftrightarrow> (\<forall>n. callocs n \<longrightarrow> unat n * 8 < 2 ^ 64)"

text \<open>
  The number of chains of a larger table: four, then twice as many each time.  An insertion of a
  new entry has memory when the entry can be allocated and, if the table has to grow, the
  larger array can.
\<close>

definition next_cap :: "('k, 'v) hashmap \<Rightarrow> u64" where
  "next_cap m = (if cap m = 0 then 4 else 2 * cap m)"

definition grows :: "(u64 \<Rightarrow> bool) \<Rightarrow> ('k, 'v) hashmap \<Rightarrow> bool" where
  "grows callocs m \<longleftrightarrow> hashmap_needs_to_grow m \<and> callocs (next_cap m)"

definition has_memory :: "(u64 \<Rightarrow> bool) \<Rightarrow> bool \<Rightarrow> ('k, 'v) hashmap \<Rightarrow> bool" where
  "has_memory callocs mallocs m \<longleftrightarrow> mallocs \<and> (hashmap_needs_to_grow m \<longrightarrow> callocs (next_cap m))"

section \<open>Chains\<close>

lemma chain_find_None: "chain_find fns key es = None \<longleftrightarrow> filter (\<lambda>e. equal_fn fns (fst e) key) es = []"
  by (induction es) auto

lemma chain_find_Some:
  "chain_find fns key es = Some pos \<Longrightarrow>
     pos < length es \<and> equal_fn fns (fst (es ! pos)) key \<and> filter (\<lambda>e. equal_fn fns (fst e) key) (take pos es) = []"
  by (induction es arbitrary: pos) (auto split: if_splits)

lemma chain_find_split:
  assumes "chain_find fns key es = Some pos"
  obtains xs e ys where "es = xs @ e # ys" "pos = length xs" "equal_fn fns (fst e) key"
    "filter (\<lambda>e. equal_fn fns (fst e) key) xs = []"
proof (rule that)
  show "es = take pos es @ es ! pos # drop (Suc pos) es" "pos = length (take pos es)"
    using chain_find_Some [OF assms] by (simp_all add: id_take_nth_drop [symmetric])
qed (use chain_find_Some [OF assms] in auto)

lemma filter_concat_nth:
  assumes "h < length xss" "\<And>i e. i < length xss \<Longrightarrow> i \<noteq> h \<Longrightarrow> e \<in> set (xss ! i) \<Longrightarrow> \<not> P e"
  shows "filter P (concat xss) = filter P (xss ! h)"
  using assms
proof (induction xss arbitrary: h)
  case (Cons xs xss)
  show ?case
  proof (cases h)
    case 0
    have "\<not> P e" if "e \<in> set ys" "ys \<in> set xss" for e ys
      using that Cons.prems(2) [of "Suc _" e] 0 by (metis Suc_mono in_set_conv_nth length_Cons nat.distinct(1) nth_Cons_Suc)
    then show ?thesis using 0 by (auto simp: filter_empty_conv)
  next
    case (Suc n)
    have "filter P xs = []" using Cons.prems(2) [of 0] Suc by (simp add: filter_empty_conv)
    moreover have "filter P (concat xss) = filter P (xss ! n)"
      using Cons.prems(1) Suc Cons.prems(2) [of "Suc _"] by (intro Cons.IH) auto
    ultimately show ?thesis using Suc by simp
  qed
qed simp

lemma length_concat_upd:
  assumes "h < length bs"
  shows "length (concat (bs[h := c])) + length (bs ! h) = length (concat bs) + length c"
  using assms
proof (induction bs arbitrary: h)
  case (Cons b bs)
  then show ?case by (cases h) auto
qed simp

section \<open>Buckets\<close>

lemma unat_and_63: "unat (x AND 63 :: i32) = unat x mod 64"
proof -
  have "x AND 63 = take_bit 6 x" by (simp add: take_bit_eq_mask mask_eq_exp_minus_1)
  then show ?thesis by (simp add: take_bit_eq_mod unat_mod)
qed

lemma bucket_of_less:
  assumes "1 \<le> unat bits" "unat bits \<le> 63"
  shows "bucket_of fns bits key < 2 ^ unat bits"
proof -
  define n where "n = unat bits"
  have n: "1 \<le> n" "n \<le> 63" using assms by (simp_all add: n_def)
  have "ucast bits = (of_nat n :: i32)" by (simp add: n_def)
  then have c: "64 - ucast bits = (of_nat (64 - n) :: i32)" using n by (simp add: of_nat_diff)
  have "unat ((64 - ucast bits :: i32) AND 63) = 64 - n"
    unfolding unat_and_63 c unat_of_nat using n by (simp add: take_bit_eq_mod)
  then have "bucket_of fns bits key = unat (hash_fn fns key * 11400714819323198485) div 2 ^ (64 - n)"
    by (simp add: bucket_of_def hash_bits_def shr64_def unat_drop_bit_eq drop_bit_eq_div [where ?'a = nat])
  also have "\<dots> < 2 ^ n"
    using unsigned_less [where ?'a = nat, of "hash_fn fns key * 11400714819323198485"] n
    by (simp add: less_mult_imp_div_less flip: power_add)
  finally show ?thesis by (simp add: n_def)
qed

lemma rehash_length [simp]: "length (rehash fns bits es bs) = length bs"
  by (induction es arbitrary: bs) (simp_all add: Let_def)

lemma rehash_nth:
  assumes "\<And>key. bucket_of fns bits key < length bs" "i < length bs"
  shows "rehash fns bits es bs ! i = rev (filter (\<lambda>e. bucket_of fns bits (fst e) = i) es) @ bs ! i"
  using assms
proof (induction es arbitrary: bs)
  case (Cons e es)
  then show ?case by (simp add: Let_def hashmap_add_entry_def nth_list_update)
qed simp

lemma rehash_total:
  assumes "\<And>key. bucket_of fns bits key < length bs"
  shows "length (concat (rehash fns bits es bs)) = length es + length (concat bs)"
  using assms
proof (induction es arbitrary: bs)
  case (Cons e es)
  have "length (concat (bs[bucket_of fns bits (fst e) := e # bs ! bucket_of fns bits (fst e)])) = Suc (length (concat bs))"
    using length_concat_upd [of "bucket_of fns bits (fst e)" bs "e # bs ! bucket_of fns bits (fst e)"] Cons.prems by simp
  then show ?case using Cons by (simp add: Let_def hashmap_add_entry_def)
qed simp

lemma unat_exp2: "k < 64 \<Longrightarrow> unat (2 ^ k :: u64) = 2 ^ k"
  using unat_of_nat [of "2 ^ k", where ?'a = 64] power_strict_increasing [of k 64 "2 :: nat"] by (simp add: take_bit_eq_mod)

lemma load_unat:
  assumes "unat s * 4 div 3 \<le> 2 ^ k" "k \<le> 60"
  shows "unat (s + 1 :: u64) = unat s + 1" "unat ((s + 1) * 4 div 3) = (unat s + 1) * 4 div 3"
proof -
  have "unat s < 2 ^ 61" using assms power_increasing [of k 60 "2 :: nat"] by simp
  then show "unat (s + 1 :: u64) = unat s + 1" "unat ((s + 1) * 4 div 3) = (unat s + 1) * 4 div 3"
    by (simp_all add: unat_word_ariths unat_div)
qed

section \<open>Refinement\<close>

text \<open>
  What a client promises: equality is an equivalence, and equal keys have the same hash.  All
  facts about the table are stated through the entries of a key, \<open>for_each_key_entry\<close>.
\<close>

locale hash_laws =
  fixes fns :: "'k hash_fns"
  assumes eq_refl: "equal_fn fns a a"
    and eq_sym: "equal_fn fns a b \<Longrightarrow> equal_fn fns b a"
    and eq_trans: "equal_fn fns a b \<Longrightarrow> equal_fn fns b c \<Longrightarrow> equal_fn fns a c"
    and eq_hash: "equal_fn fns a b \<Longrightarrow> hash_fn fns a = hash_fn fns b"
begin

lemma eq_bucket: "equal_fn fns a b \<Longrightarrow> bucket_of fns bits a = bucket_of fns bits b"
  by (simp add: bucket_of_def eq_hash)

lemma live_bucket:
  "hm_inv fns m \<Longrightarrow> buckets m = Live bs \<Longrightarrow> bucket_of fns (cap_bits m) key < length bs"
  using bucket_of_less [of "cap_bits m" fns key] by (simp add: hm_inv_def)

lemma key_entries_concat:
  assumes "hm_inv fns m" "buckets m = Live bs"
  shows "for_each_key_entry fns m key = filter (\<lambda>e. equal_fn fns (fst e) key) (concat bs)"
proof -
  have "filter (\<lambda>e. equal_fn fns (fst e) key) (concat bs) =
      filter (\<lambda>e. equal_fn fns (fst e) key) (bs ! bucket_of fns (cap_bits m) key)"
  proof (rule filter_concat_nth)
    show "\<not> equal_fn fns (fst e) key" if "i < length bs" "i \<noteq> bucket_of fns (cap_bits m) key" "e \<in> set (bs ! i)" for i e
      using that assms eq_bucket [of "fst e" key "cap_bits m"] by (auto simp: hm_inv_def)
  qed (use live_bucket [OF assms] in simp)
  then show ?thesis using assms(2) by (simp add: for_each_key_entry_def chain_at_def)
qed

lemma find_entries:
  assumes "hm_inv fns m"
  shows "hashmap_find fns m key =
    Some (case for_each_key_entry fns m key of [] \<Rightarrow> None | e # _ \<Rightarrow> Some (snd e))"
proof (cases "buckets m")
  case Null
  then show ?thesis by (simp add: hashmap_find_def hashmap_find_entry_def for_each_key_entry_def chain_at_def)
next
  case (Live bs)
  let ?c = "bs ! bucket_of fns (cap_bits m) key"
  show ?thesis
  proof (cases "chain_find fns key ?c")
    case None
    then show ?thesis using Live by (simp add: chain_find_None hashmap_find_def hashmap_find_entry_def for_each_key_entry_def chain_at_def Let_def)
  next
    case (Some pos)
    then obtain xs e ys where "?c = xs @ e # ys" "pos = length xs" "equal_fn fns (fst e) key"
      "filter (\<lambda>e. equal_fn fns (fst e) key) xs = []" by (rule chain_find_split)
    then show ?thesis using Live Some
      by (simp add: hashmap_find_def hashmap_find_entry_def for_each_key_entry_def chain_at_def Let_def)
  qed
qed (use assms in \<open>simp add: hm_inv_def\<close>)

text \<open>The array of a larger table, and what it does to the chains: the order is reversed.\<close>

lemma grow_cap:
  assumes "hm_inv fns m"
  defines "nb \<equiv> (if cap_bits m + 1 < HASHMAP_MIN_CAP_BITS then HASHMAP_MIN_CAP_BITS else cap_bits m + 1)"
  shows "shl64 1 (ucast nb) = next_cap m"
proof -
  have cb: "unat (cap_bits m) \<le> 60" "buckets m = Null \<longrightarrow> cap_bits m = 0 \<and> cap m = 0"
    "buckets m \<noteq> Null \<longrightarrow> 2 \<le> unat (cap_bits m) \<and> unat (cap m) = 2 ^ unat (cap_bits m)"
    using assms(1) by (auto simp: hm_inv_def split: bucket_array.splits)
  then have u: "unat (cap_bits m + 1) = unat (cap_bits m) + 1" by (simp add: unat_word_ariths)
  have nb: "unat nb = (if buckets m = Null then 2 else unat (cap_bits m) + 1)"
    using cb u by (auto simp: nb_def HASHMAP_MIN_CAP_BITS_def word_less_nat_alt)
  then have b: "unat nb \<le> 61" using cb by simp
  have "unat ((ucast nb :: i32) AND 63) = unat nb" using b by (simp add: unat_and_63 unsigned_ucast_eq take_bit_eq_mod)
  then have c: "unat (shl64 1 (ucast nb)) = 2 ^ unat nb" using b by (simp add: shl64_def push_bit_eq_mult unat_exp2)
  show ?thesis
  proof (cases "buckets m = Null")
    case True
    then show ?thesis using c nb cb(2) by (simp add: next_cap_def word_unat_eq_iff)
  next
    case False
    have n: "cap m \<noteq> 0" using cb(3) False by (metis power_not_zero unsigned_0 zero_neq_numeral)
    have "(2 :: nat) ^ unat (cap_bits m) \<le> 2 ^ 60" using cb(1) by (intro power_increasing) simp_all
    then have "unat (2 * cap m) = 2 * unat (cap m)" using cb(3) False by (simp add: unat_word_ariths)
    then have "unat (2 * cap m) = unat (shl64 1 (ucast nb))" using c nb cb(3) False by simp
    then show ?thesis using n by (simp add: next_cap_def word_unat_eq_iff)
  qed
qed

lemma grow_bits:
  assumes "hm_inv fns m" "calloc_ok callocs"
  defines "nb \<equiv> (if cap_bits m + 1 < HASHMAP_MIN_CAP_BITS then HASHMAP_MIN_CAP_BITS else cap_bits m + 1)"
  assumes "callocs (shl64 1 (ucast nb))"
  shows "unat nb = (if buckets m = Null then 2 else unat (cap_bits m) + 1)" "unat nb \<le> 60" "2 \<le> unat nb"
    "unat (shl64 1 (ucast nb)) = 2 ^ unat nb"
proof -
  have cb: "unat (cap_bits m) \<le> 60" "buckets m = Null \<longrightarrow> cap_bits m = 0" "buckets m \<noteq> Null \<longrightarrow> 2 \<le> unat (cap_bits m)"
    using assms(1) by (auto simp: hm_inv_def split: bucket_array.splits)
  then have u: "unat (cap_bits m + 1) = unat (cap_bits m) + 1" by (simp add: unat_word_ariths)
  show nb: "unat nb = (if buckets m = Null then 2 else unat (cap_bits m) + 1)"
    using cb u by (auto simp: nb_def HASHMAP_MIN_CAP_BITS_def word_less_nat_alt)
  then have b: "unat nb \<le> 61" using cb by simp
  have "unat ((ucast nb :: i32) AND 63) = unat nb" using b by (simp add: unat_and_63 unsigned_ucast_eq take_bit_eq_mod)
  then show c: "unat (shl64 1 (ucast nb)) = 2 ^ unat nb" using b
    by (simp add: shl64_def push_bit_eq_mult unat_exp2)
  have "(2::nat) ^ unat nb * 8 < 2 ^ 64" using assms(2,4) c unfolding calloc_ok_def by metis
  then have "(2::nat) ^ (unat nb + 3) < 2 ^ 64" by (simp add: power_add)
  then have "unat nb + 3 < 64" by (rule power_less_imp_less_exp [rotated]) simp
  then show "unat nb \<le> 60" by simp
  show "2 \<le> unat nb" using nb cb by auto
qed

lemma grow_live:
  fixes m :: "('k, 'v) hashmap"
  assumes "hm_inv fns m" "calloc_ok callocs" "hashmap_needs_to_grow m" "hashmap_grow fns callocs m = Some (0, m')"
  shows "hm_inv fns m' \<and> (\<forall>key. for_each_key_entry fns m' key = rev (for_each_key_entry fns m key)) \<and>
    sz m' = sz m \<and> \<not> hashmap_needs_to_grow m' \<and> buckets m' \<noteq> Null"
proof -
  define nb where "nb = (if cap_bits m + 1 < HASHMAP_MIN_CAP_BITS then HASHMAP_MIN_CAP_BITS else cap_bits m + 1)"
  define bs where "bs = (case buckets m of Live bs \<Rightarrow> bs | _ \<Rightarrow> [])"
  define bs' where "bs' = rehash fns nb (concat bs) (replicate (2 ^ unat nb) [])"
  have ok: "callocs (shl64 1 (ucast nb))"
    using assms(4) by (auto simp: hashmap_grow_def nb_def Let_def ENOMEM_def split: if_splits)
  note gb = grow_bits [OF assms(1,2), folded nb_def, OF ok]
  have tk: "take (unat (cap m)) bs = bs" using assms(1) by (auto simp: hm_inv_def bs_def split: bucket_array.splits)
  have m': "m' = m\<lparr>buckets := Live bs', cap := shl64 1 (ucast nb), cap_bits := nb\<rparr>"
    using assms(1,4) ok gb(4) tk
    by (auto simp: hashmap_grow_def nb_def [symmetric] Let_def bs_def bs'_def hm_inv_def split: bucket_array.splits)
  have bk: "bucket_of fns nb key < 2 ^ unat nb" for key using bucket_of_less [of nb fns key] gb by simp
  have nth: "bs' ! i = rev (filter (\<lambda>e. bucket_of fns nb (fst e) = i) (concat bs))" if "i < 2 ^ unat nb" for i
    using rehash_nth [of fns nb "replicate (2 ^ unat nb) []" i "concat bs"] bk that by (simp add: bs'_def)
  have len: "length bs' = 2 ^ unat nb" "length (concat bs') = length (concat bs)"
    using rehash_total [of fns nb "replicate (2 ^ unat nb) []" "concat bs"] bk by (simp_all add: bs'_def)
  have sz: "unat (sz m) = length (concat bs)" "length (concat bs) * 4 div 3 \<le> 2 ^ unat (cap_bits m)"
    using assms(1) by (auto simp: hm_inv_def bs_def split: bucket_array.splits)
  have load: "(length (concat bs) + 1) * 4 div 3 \<le> 2 ^ unat nb"
  proof (cases "buckets m = Null")
    case False
    then have "2 ^ unat nb = 2 * (2 :: nat) ^ unat (cap_bits m)" "(2 :: nat) ^ 2 \<le> 2 ^ unat (cap_bits m)"
      using gb(1) assms(1) power_increasing [of 2 "unat (cap_bits m)" "2 :: nat"]
      by (auto simp: hm_inv_def split: bucket_array.splits)
    then show ?thesis using sz(2) by (simp del: length_concat)
  qed (use gb(1) in \<open>simp add: bs_def\<close>)
  have inv: "hm_inv fns m'"
    using gb len sz load by (auto simp: hm_inv_def m' nth)
  have "for_each_key_entry fns m' key = rev (for_each_key_entry fns m key)" for key
  proof -
    have "for_each_key_entry fns m key = filter (\<lambda>e. equal_fn fns (fst e) key) (concat bs)"
      using key_entries_concat [OF assms(1)] assms(1)
      by (cases "buckets m") (auto simp: bs_def for_each_key_entry_def chain_at_def hm_inv_def)
    moreover have "filter (\<lambda>e. bucket_of fns nb (fst e) = bucket_of fns nb key \<and> equal_fn fns (fst e) key) es =
        filter (\<lambda>e. equal_fn fns (fst e) key) es" for es :: "('k \<times> 'v) list"
      by (rule filter_cong) (use eq_bucket in auto)
    ultimately show ?thesis
      by (simp add: for_each_key_entry_def chain_at_def m' nth bk rev_filter [symmetric] filter_filter)
  qed
  moreover have "\<not> hashmap_needs_to_grow m'"
  proof -
    have "unat (cap_bits m) \<le> 60" using assms(1) by (auto simp: hm_inv_def split: bucket_array.splits)
    from load_unat(2) [OF _ this, of "sz m"] have "unat ((sz m + 1) * 4 div 3) = (length (concat bs) + 1) * 4 div 3"
      using sz by metis
    moreover have "shl64 1 (ucast nb) \<noteq> 0" using gb(4) by force
    moreover have "cap m' = shl64 1 (ucast nb)" "sz m' = sz m" by (simp_all add: m')
    ultimately show ?thesis using load gb(4) by (simp add: hashmap_needs_to_grow_def word_less_nat_alt del: length_concat)
  qed
  ultimately show ?thesis using inv by (simp add: m')
qed


lemma grow_total:
  assumes "hm_inv fns m"
  shows "\<not> callocs (next_cap m) \<Longrightarrow> hashmap_grow fns callocs m = Some (- ENOMEM, m)"
    and "callocs (next_cap m) \<Longrightarrow> \<exists>m'. hashmap_grow fns callocs m = Some (0, m')"
  using assms grow_cap [OF assms] by (cases "buckets m"; simp add: hashmap_grow_def Let_def hm_inv_def)+

text \<open>Replacing the chain of a key, where the new chain holds keys of that bucket only.\<close>

lemma set_chain_inv:
  assumes "hm_inv fns m" "buckets m = Live bs" "h = bucket_of fns (cap_bits m) key"
    and "\<forall>e \<in> set c. bucket_of fns (cap_bits m) (fst e) = h"
    and "unat n + length (bs ! h) = unat (sz m) + length c"
    and "length (concat (bs[h := c])) * 4 div 3 \<le> 2 ^ unat (cap_bits m)"
  shows "hm_inv fns ((set_chain m h c)\<lparr>sz := n\<rparr>)"
proof -
  have h: "h < length bs" using live_bucket [OF assms(1,2)] assms(3) by simp
  have "unat n = length (concat (bs[h := c]))"
    using length_concat_upd [OF h, of c] assms(1,2,5) by (simp add: hm_inv_def)
  moreover have "bucket_of fns (cap_bits m) (fst e) = i" if "i < length bs" "e \<in> set (bs[h := c] ! i)" for i e
    using that h assms(1,2,4) by (cases "i = h") (auto simp: hm_inv_def)
  ultimately show ?thesis using assms(1,2,6) by (auto simp: hm_inv_def set_chain_def)
qed

lemma set_chain_entries:
  assumes "hm_inv fns m" "buckets m = Live bs" "h = bucket_of fns (cap_bits m) key"
  shows "for_each_key_entry fns ((set_chain m h c)\<lparr>sz := n\<rparr>) k =
    (if bucket_of fns (cap_bits m) k = h then filter (\<lambda>e. equal_fn fns (fst e) k) c else for_each_key_entry fns m k)"
  using live_bucket [OF assms(1,2)] assms(2,3)
  by (simp add: for_each_key_entry_def chain_at_def set_chain_def)

lemma set_chain_cap [simp]: "cap_bits (set_chain m h c) = cap_bits m" "sz (set_chain m h c) = sz m"
  by (simp_all add: set_chain_def split: bucket_array.splits)

lemma eq_cong: "equal_fn fns a b \<Longrightarrow> equal_fn fns a c = equal_fn fns b c"
  using eq_sym eq_trans by blast

text \<open>Adding an entry to a table that has room.\<close>

lemma add_entry:
  fixes m :: "('k, 'v) hashmap" and key v
  assumes "hm_inv fns m" "\<not> hashmap_needs_to_grow m"
  defines "h \<equiv> bucket_of fns (cap_bits m) key"
  defines "m' \<equiv> (set_chain m h (hashmap_add_entry (key, v) (chain_at m h)))\<lparr>sz := sz m + 1\<rparr>"
  shows "hm_inv fns m'" and "unat (sz m') = unat (sz m) + 1"
    and "for_each_key_entry fns m' k =
      (if equal_fn fns key k then (key, v) # for_each_key_entry fns m k else for_each_key_entry fns m k)"
proof -
  obtain bs where bs: "buckets m = Live bs"
    using assms(1,2) by (cases "buckets m") (auto simp: hm_inv_def hashmap_needs_to_grow_def)
  have h: "h < length bs" using live_bucket [OF assms(1) bs] by (simp add: h_def)
  have inv: "unat (sz m) = length (concat bs)" "length (concat bs) * 4 div 3 \<le> 2 ^ unat (cap_bits m)"
    "unat (cap_bits m) \<le> 60" "unat (cap m) = 2 ^ unat (cap_bits m)"
    using assms(1) bs by (auto simp: hm_inv_def)
  note s1 = load_unat [of "sz m" "unat (cap_bits m)", unfolded inv(1), OF inv(2,3), folded inv(1)]
  have room: "(unat (sz m) + 1) * 4 div 3 \<le> 2 ^ unat (cap_bits m)"
    using assms(2) s1(2) inv(4) by (simp add: hashmap_needs_to_grow_def word_less_nat_alt)
  show "unat (sz m') = unat (sz m) + 1" using s1(1) by (simp add: m'_def)
  show "hm_inv fns m'" unfolding m'_def
  proof (rule set_chain_inv [OF assms(1) bs h_def [THEN meta_eq_to_obj_eq]])
    show "\<forall>e\<in>set (hashmap_add_entry (key, v) (chain_at m h)). bucket_of fns (cap_bits m) (fst e) = h"
      using assms(1) bs h by (auto simp: hashmap_add_entry_def chain_at_def hm_inv_def h_def)
    show "unat (sz m + 1) + length (bs ! h) = unat (sz m) + length (hashmap_add_entry (key, v) (chain_at m h))"
      using s1(1) bs by (simp add: hashmap_add_entry_def chain_at_def)
    have "length (concat (bs[h := hashmap_add_entry (key, v) (chain_at m h)])) = unat (sz m) + 1"
      using length_concat_upd [OF h, of "hashmap_add_entry (key, v) (chain_at m h)"] bs inv(1)
      by (simp add: hashmap_add_entry_def chain_at_def)
    then show "length (concat (bs[h := hashmap_add_entry (key, v) (chain_at m h)])) * 4 div 3 \<le> 2 ^ unat (cap_bits m)"
      using room by simp
  qed
  show "for_each_key_entry fns m' k =
      (if equal_fn fns key k then (key, v) # for_each_key_entry fns m k else for_each_key_entry fns m k)"
    unfolding m'_def set_chain_entries [OF assms(1) bs h_def [THEN meta_eq_to_obj_eq]]
    using eq_bucket [of key k "cap_bits m"]
    by (auto simp: h_def hashmap_add_entry_def for_each_key_entry_def)
qed

end

context hash_laws
begin

lemma insert_new_result:
  assumes "hm_inv fns m" "calloc_ok callocs"
  defines "es \<equiv> (\<lambda>k. if grows callocs m then rev (for_each_key_entry fns m k) else for_each_key_entry fns m k)"
  shows "\<exists>m'. insert_new fns callocs mallocs m key v = Some (if has_memory callocs mallocs m then 0 else - ENOMEM, None, m') \<and>
    hm_inv fns m' \<and>
    (\<forall>k. for_each_key_entry fns m' k = (if has_memory callocs mallocs m \<and> equal_fn fns key k then (key, v) # es k else es k))"
proof (cases "hashmap_needs_to_grow m")
  case False
  then show ?thesis
    using add_entry [OF assms(1) False, of key v] assms(1)
    by (simp add: insert_new_def es_def Let_def has_memory_def grows_def)
next
  case True
  show ?thesis
  proof (cases "callocs (next_cap m)")
    case False
    then show ?thesis using True assms(1) grow_total(1) [OF assms(1)]
      by (simp add: insert_new_def ENOMEM_def es_def has_memory_def grows_def)
  next
    case calloc: True
    obtain m1 where m1: "hashmap_grow fns callocs m = Some (0, m1)" using grow_total(2) [OF assms(1), of callocs] calloc by blast
    note g = grow_live [OF assms(1,2) True m1]
    show ?thesis using True calloc m1 g add_entry [of m1 key v]
      by (simp add: insert_new_def es_def Let_def has_memory_def grows_def)
  qed
qed

text \<open>The entry that a search finds is the first one of its key.\<close>

lemma find_entry_cases:
  fixes m :: "('k, 'v) hashmap" and key
  assumes "hm_inv fns m"
  defines "h \<equiv> bucket_of fns (cap_bits m) key"
  obtains "hashmap_find_entry fns m key h = Some None" "for_each_key_entry fns m key = []"
  | bs xs e ys where "hashmap_find_entry fns m key h = Some (Some (length xs))" "buckets m = Live bs"
      "bs ! h = xs @ e # ys" "chain_at m h = xs @ e # ys" "equal_fn fns (fst e) key" "filter (\<lambda>e. equal_fn fns (fst e) key) xs = []"
proof (cases "buckets m")
  case Null
  then show ?thesis
    using that(1) by (simp add: hashmap_find_entry_def for_each_key_entry_def chain_at_def)
next
  case (Live bs)
  show ?thesis
  proof (cases "chain_find fns key (bs ! h)")
    case None
    then show ?thesis
      using that(1) Live by (simp add: hashmap_find_entry_def for_each_key_entry_def chain_at_def chain_find_None h_def)
  next
    case (Some pos)
    then obtain xs e ys where c: "bs ! h = xs @ e # ys" "pos = length xs" "equal_fn fns (fst e) key"
      "filter (\<lambda>e. equal_fn fns (fst e) key) xs = []" by (rule chain_find_split)
    show ?thesis
      by (rule that(2) [of xs bs e ys]) (use Some Live c in \<open>simp_all add: hashmap_find_entry_def chain_at_def\<close>)
  qed
qed (use assms in \<open>simp add: hm_inv_def\<close>)

lemma hit_entries:
  assumes "chain_at m (bucket_of fns (cap_bits m) key) = xs @ e # ys" "equal_fn fns (fst e) key"
    "filter (\<lambda>e. equal_fn fns (fst e) key) xs = []" "equal_fn fns key k"
  shows "for_each_key_entry fns m k = e # filter (\<lambda>e. equal_fn fns (fst e) k) ys"
    and "filter (\<lambda>e. equal_fn fns (fst e) k) xs = []"
proof -
  have k: "equal_fn fns a k = equal_fn fns a key" for a using assms(4) eq_sym eq_trans by blast
  show "for_each_key_entry fns m k = e # filter (\<lambda>e. equal_fn fns (fst e) k) ys"
    "filter (\<lambda>e. equal_fn fns (fst e) k) xs = []"
    using assms eq_bucket [OF assms(4), of "cap_bits m"] by (simp_all add: for_each_key_entry_def k)
qed

text \<open>Replacing or removing the entry that was found.\<close>

lemma set_chain_sz: "(set_chain m h c)\<lparr>sz := sz m\<rparr> = set_chain m h c"
  by (simp add: set_chain_def split: bucket_array.splits)

lemma replace_entry:
  fixes m :: "('k, 'v) hashmap" and key v h xs ys
  assumes "hm_inv fns m" "buckets m = Live bs" "h = bucket_of fns (cap_bits m) key"
    and c: "chain_at m h = xs @ e # ys" "equal_fn fns (fst e) key" "filter (\<lambda>e. equal_fn fns (fst e) key) xs = []"
  defines "m' \<equiv> set_chain m h (xs @ (key, v) # ys)"
  shows "hm_inv fns m'" and "sz m' = sz m"
    and "for_each_key_entry fns m' k =
      (if equal_fn fns key k then (key, v) # tl (for_each_key_entry fns m k) else for_each_key_entry fns m k)"
proof -
  have bh: "bs ! h = xs @ e # ys" "h < length bs"
    using c(1) assms(2) live_bucket [OF assms(1,2)] assms(3) by (simp_all add: chain_at_def)
  have len: "length (concat (bs[h := xs @ (key, v) # ys])) = length (concat bs)"
    using length_concat_upd [OF bh(2), of "xs @ (key, v) # ys"] bh(1) by simp
  have "hm_inv fns ((set_chain m h (xs @ (key, v) # ys))\<lparr>sz := sz m\<rparr>)"
  proof (rule set_chain_inv [OF assms(1,2,3)])
    show "\<forall>e\<in>set (xs @ (key, v) # ys). bucket_of fns (cap_bits m) (fst e) = h"
      using assms(1-3) bh by (auto simp: hm_inv_def)
    show "length (concat (bs[h := xs @ (key, v) # ys])) * 4 div 3 \<le> 2 ^ unat (cap_bits m)"
      unfolding len using assms(1,2) by (simp add: hm_inv_def)
  qed (use bh in simp)
  then show "hm_inv fns m'" "sz m' = sz m" by (simp_all add: m'_def set_chain_sz)
  have e: "equal_fn fns (fst e) k = equal_fn fns key k" using c(2) eq_cong by blast
  have "for_each_key_entry fns ((set_chain m h (xs @ (key, v) # ys))\<lparr>sz := sz m\<rparr>) k =
      (if equal_fn fns key k then (key, v) # tl (for_each_key_entry fns m k) else for_each_key_entry fns m k)"
    unfolding set_chain_entries [OF assms(1,2,3)]
    using hit_entries [OF c(1) [unfolded assms(3)] c(2,3)] eq_bucket [of key k "cap_bits m"] c(1) e
    by (auto simp: for_each_key_entry_def assms(3))
  then show "for_each_key_entry fns m' k =
      (if equal_fn fns key k then (key, v) # tl (for_each_key_entry fns m k) else for_each_key_entry fns m k)"
    by (simp add: m'_def set_chain_sz)
qed

lemma remove_entry:
  fixes m :: "('k, 'v) hashmap" and key h xs ys
  assumes "hm_inv fns m" "buckets m = Live bs" "h = bucket_of fns (cap_bits m) key"
    and c: "chain_at m h = xs @ e # ys" "equal_fn fns (fst e) key" "filter (\<lambda>e. equal_fn fns (fst e) key) xs = []"
  defines "m' \<equiv> (set_chain m h (xs @ ys))\<lparr>sz := sz m - 1\<rparr>"
  shows "hm_inv fns m'" and "unat (sz m') + 1 = unat (sz m)"
    and "for_each_key_entry fns m' k =
      (if equal_fn fns key k then tl (for_each_key_entry fns m k) else for_each_key_entry fns m k)"
proof -
  have bh: "bs ! h = xs @ e # ys" "h < length bs"
    using c(1) assms(2) live_bucket [OF assms(1,2)] assms(3) by (simp_all add: chain_at_def)
  have len: "length (concat (bs[h := xs @ ys])) + 1 = length (concat bs)"
    using length_concat_upd [OF bh(2), of "xs @ ys"] bh(1) by simp
  have inv: "unat (sz m) = length (concat bs)" "length (concat bs) * 4 div 3 \<le> 2 ^ unat (cap_bits m)"
    using assms(1,2) by (simp_all add: hm_inv_def)
  have s: "unat (sz m - 1) + 1 = unat (sz m)"
  proof -
    have "unat (sz m) \<noteq> 0" using inv(1) len by linarith
    then have "sz m \<noteq> 0" by auto
    then show ?thesis using unat_minus_one [of "sz m"] \<open>unat (sz m) \<noteq> 0\<close> by simp
  qed
  show "unat (sz m') + 1 = unat (sz m)" using s by (simp add: m'_def)
  show "hm_inv fns m'" unfolding m'_def
  proof (rule set_chain_inv [OF assms(1,2,3)])
    show "\<forall>e\<in>set (xs @ ys). bucket_of fns (cap_bits m) (fst e) = h"
      using assms(1-3) bh by (auto simp: hm_inv_def)
    have "length (concat (bs[h := xs @ ys])) * 4 div 3 \<le> length (concat bs) * 4 div 3"
      using len by (intro div_le_mono mult_le_mono1) linarith
    then show "length (concat (bs[h := xs @ ys])) * 4 div 3 \<le> 2 ^ unat (cap_bits m)"
      using inv(2) by (rule order_trans)
  qed (use bh s in simp)
  have e: "equal_fn fns (fst e) k = equal_fn fns key k" using c(2) eq_cong by blast
  show "for_each_key_entry fns m' k =
      (if equal_fn fns key k then tl (for_each_key_entry fns m k) else for_each_key_entry fns m k)"
    unfolding m'_def set_chain_entries [OF assms(1,2,3)]
    using hit_entries [OF c(1) [unfolded assms(3)] c(2,3)] eq_bucket [of key k "cap_bits m"] c(1) e
    by (auto simp: for_each_key_entry_def assms(3))
qed

end

text \<open>The contents as a map, and the tables that are maps: at most one entry per key.\<close>

definition hm_view :: "'k hash_fns \<Rightarrow> ('k, 'v) hashmap \<Rightarrow> 'k \<Rightarrow> 'v option" where
  "hm_view fns m k = (case for_each_key_entry fns m k of [] \<Rightarrow> None | e # _ \<Rightarrow> Some (snd e))"

definition hm_unique :: "'k hash_fns \<Rightarrow> ('k, 'v) hashmap \<Rightarrow> bool" where
  "hm_unique fns m \<longleftrightarrow> (\<forall>k. length (for_each_key_entry fns m k) \<le> 1)"

text \<open>
  The return value of an insertion, from whether the key was found (not looked for by
  \<open>HASHMAP_APPEND\<close>) and whether there is memory; and the entries of a key afterwards.  A table
  that has grown holds the entries of each key in the reverse order.
\<close>

definition found :: "'k hash_fns \<Rightarrow> ('k, 'v) hashmap \<Rightarrow> 'k \<Rightarrow> hashmap_insert_strategy \<Rightarrow> bool" where
  "found fns m key strategy \<longleftrightarrow> strategy \<noteq> HASHMAP_APPEND \<and> for_each_key_entry fns m key \<noteq> []"

definition insert_code :: "hashmap_insert_strategy \<Rightarrow> bool \<Rightarrow> bool \<Rightarrow> int" where
  "insert_code strategy hit memory =
     (case strategy of
        HASHMAP_ADD \<Rightarrow> if hit then - EEXIST else if memory then 0 else - ENOMEM
      | HASHMAP_SET \<Rightarrow> if hit \<or> memory then 0 else - ENOMEM
      | HASHMAP_UPDATE \<Rightarrow> if hit then 0 else - ENOENT
      | HASHMAP_APPEND \<Rightarrow> if memory then 0 else - ENOMEM)"

definition entries_after ::
    "'k hash_fns \<Rightarrow> (u64 \<Rightarrow> bool) \<Rightarrow> bool \<Rightarrow> ('k, 'v) hashmap \<Rightarrow> 'k \<Rightarrow> 'v \<Rightarrow> hashmap_insert_strategy \<Rightarrow> 'k \<Rightarrow> ('k \<times> 'v) list" where
  "entries_after fns callocs mallocs m key v strategy k =
     (let es = for_each_key_entry fns m k;
          hit = found fns m key strategy;
          es = (if \<not> hit \<and> strategy \<noteq> HASHMAP_UPDATE \<and> grows callocs m then rev es else es)
      in if insert_code strategy hit (has_memory callocs mallocs m) \<noteq> 0 \<or> \<not> equal_fn fns key k then es
         else (key, v) # (if hit then tl es else es))"

lemma rev_short: "length xs \<le> 1 \<Longrightarrow> rev xs = xs"
  by (cases xs) auto

lemma del_entry_split: "hashmap_del_entry (length xs) (xs @ e # ys) = xs @ ys"
  by (simp add: hashmap_del_entry_def)

context hash_laws
begin

lemma entries_cong:
  assumes "equal_fn fns key k"
  shows "for_each_key_entry fns m k = for_each_key_entry fns m key"
proof -
  have "equal_fn fns a k = equal_fn fns a key" for a using assms eq_sym eq_trans by blast
  then show ?thesis using eq_bucket [OF assms, of "cap_bits m"] by (simp add: for_each_key_entry_def)
qed

lemma insert_entries:
  assumes "hm_inv fns m" "calloc_ok callocs"
  shows "\<exists>old m'. hashmap_insert fns callocs mallocs m key v strategy =
      Some (insert_code strategy (found fns m key strategy) (has_memory callocs mallocs m), old, m') \<and> hm_inv fns m' \<and>
    map_option snd old = (if strategy = HASHMAP_APPEND then None else hm_view fns m key) \<and>
    (\<forall>k. for_each_key_entry fns m' k = entries_after fns callocs mallocs m key v strategy k)"
proof (cases "found fns m key strategy")
  case False
  have s: "(if strategy \<noteq> HASHMAP_APPEND then hashmap_find_entry fns m key (bucket_of fns (cap_bits m) key) else Some None) = Some None"
    and w: "strategy \<noteq> HASHMAP_APPEND \<Longrightarrow> hm_view fns m key = None"
  proof -
    have "strategy \<noteq> HASHMAP_APPEND \<Longrightarrow> for_each_key_entry fns m key = []" using False by (simp add: found_def)
    then show "(if strategy \<noteq> HASHMAP_APPEND then hashmap_find_entry fns m key (bucket_of fns (cap_bits m) key) else Some None) = Some None"
      using hit_entries(1) [OF _ _ _ eq_refl, of m key] by (cases rule: find_entry_cases [OF assms(1), of key]) auto
    show "strategy \<noteq> HASHMAP_APPEND \<Longrightarrow> hm_view fns m key = None" using False by (simp add: hm_view_def found_def)
  qed
  have i: "hashmap_insert fns callocs mallocs m key v strategy =
      (if strategy = HASHMAP_UPDATE then Some (- ENOENT, None, m) else insert_new fns callocs mallocs m key v)"
    unfolding hashmap_insert_def Let_def s by simp
  show ?thesis
  proof (cases "strategy = HASHMAP_UPDATE")
    case True
    then show ?thesis using False i w assms(1) by (simp add: insert_code_def entries_after_def ENOENT_def)
  next
    case u: False
    obtain m' where m': "insert_new fns callocs mallocs m key v = Some (if has_memory callocs mallocs m then 0 else - ENOMEM, None, m')" "hm_inv fns m'"
      "\<forall>k. for_each_key_entry fns m' k = (if has_memory callocs mallocs m \<and> equal_fn fns key k
         then (key, v) # (if grows callocs m then rev (for_each_key_entry fns m k) else for_each_key_entry fns m k)
         else (if grows callocs m then rev (for_each_key_entry fns m k) else for_each_key_entry fns m k))"
      using insert_new_result [OF assms, of mallocs key v] by blast
    have c: "insert_code strategy False mem = (if mem then 0 else - ENOMEM)" for mem
      using u by (cases strategy) (simp_all add: insert_code_def)
    show ?thesis using m' u False w
      by (intro exI [of _ None] exI [of _ m']) (simp add: i c entries_after_def Let_def ENOMEM_def)
  qed
next
  case True
  then have a: "strategy \<noteq> HASHMAP_APPEND" "for_each_key_entry fns m key \<noteq> []" by (simp_all add: found_def)
  show ?thesis
  proof (cases rule: find_entry_cases [OF assms(1), of key])
    case 1
    then show ?thesis using a by simp
  next
    case (2 bs xs e ys)
    note r = replace_entry [OF assms(1) 2(2) refl 2(4,5,6), of v]
    have key: "hm_view fns m key = Some (snd e)"
      using hit_entries(1) [OF 2(4,5,6) eq_refl] by (simp add: hm_view_def)
    let ?m' = "if strategy = HASHMAP_ADD then m else set_chain m (bucket_of fns (cap_bits m) key) (xs @ (key, v) # ys)"
    have c: "insert_code strategy True mem = (if strategy = HASHMAP_ADD then - EEXIST else 0)" for mem
      using a(1) by (cases strategy) (simp_all add: insert_code_def)
    have i: "hashmap_insert fns callocs mallocs m key v strategy =
        Some (insert_code strategy True mem, Some e, ?m')" for mem
      using 2(1,4) a(1) unfolding c by (cases strategy) (simp_all add: hashmap_insert_def Let_def)
    have "for_each_key_entry fns ?m' k = entries_after fns callocs mallocs m key v strategy k" for k
      using True hit_entries(1) [OF 2(4,5,6), of k] by (simp add: entries_after_def Let_def c r(3) EEXIST_def)
    then show ?thesis using i True a(1) key r(1) assms(1) by (intro exI [of _ "Some e"] exI [of _ ?m']) auto
  qed
qed

text \<open>On a table with at most one entry per key, every strategy but \<open>HASHMAP_APPEND\<close> updates a map.\<close>

lemma entries_after_unique:
  assumes "hm_unique fns m" "strategy \<noteq> HASHMAP_APPEND" "\<And>k. for_each_key_entry fns m' k = entries_after fns callocs mallocs m key v strategy k"
  shows "hm_unique fns m'"
    and "hm_view fns m' k = (if insert_code strategy (found fns m key strategy) (has_memory callocs mallocs m) = 0 \<and> equal_fn fns key k
      then Some v else hm_view fns m k)"
proof -
  have short: "length (for_each_key_entry fns m k) \<le> 1" for k using assms(1) by (simp add: hm_unique_def)
  have none: "for_each_key_entry fns m k = []" if "\<not> found fns m key strategy" "equal_fn fns key k" for k
    using that assms(2) entries_cong [OF that(2), of m] by (simp add: found_def)
  have tl: "tl (for_each_key_entry fns m k) = []" for k using short [of k] by (cases "for_each_key_entry fns m k") auto
  have e: "for_each_key_entry fns m' k = (if insert_code strategy (found fns m key strategy) (has_memory callocs mallocs m) = 0 \<and> equal_fn fns key k
      then [(key, v)] else for_each_key_entry fns m k)" for k
    unfolding assms(3) entries_after_def Let_def rev_short [OF short] if_cancel using tl none by auto
  show "hm_unique fns m'" using e short by (simp add: hm_unique_def)
  show "hm_view fns m' k = (if insert_code strategy (found fns m key strategy) (has_memory callocs mallocs m) = 0 \<and> equal_fn fns key k
      then Some v else hm_view fns m k)"
    by (simp add: hm_view_def e)
qed

lemma delete_map:
  assumes "hm_inv fns m"
  shows "\<exists>old m'. hashmap_delete fns m key = Some (hm_view fns m key \<noteq> None, old, m') \<and> hm_inv fns m' \<and>
    map_option snd old = hm_view fns m key \<and>
    (\<forall>k. for_each_key_entry fns m' k = (if equal_fn fns key k then tl (for_each_key_entry fns m k) else for_each_key_entry fns m k))"
proof (cases rule: find_entry_cases [OF assms(1), of key])
  case 1
  have "for_each_key_entry fns m k = []" if "equal_fn fns key k" for k
    using 1(2) entries_cong [OF that, of m] by simp
  then show ?thesis using 1 assms by (auto simp: hashmap_delete_def hm_view_def Let_def)
next
  case (2 bs xs e ys)
  note r = remove_entry [OF assms(1) 2(2) refl 2(4,5,6)]
  have "hm_view fns m key = Some (snd e)"
    using hit_entries(1) [OF 2(4,5,6) eq_refl] by (simp add: hm_view_def)
  moreover have "hashmap_delete fns m key =
      Some (True, Some e, (set_chain m (bucket_of fns (cap_bits m) key) (xs @ ys))\<lparr>sz := sz m - 1\<rparr>)"
    using 2(1,4) by (simp add: hashmap_delete_def Let_def del_entry_split)
  ultimately show ?thesis using r(1,3) by (cases e) simp
qed

lemma append_entries:
  assumes "hm_inv fns m" "calloc_ok callocs" "hashmap_append fns callocs mallocs m key v = Some (0, m')"
  shows "hm_inv fns m' \<and>
    for_each_key_entry fns m' k =
      (if equal_fn fns key k then [(key, v)] else []) @
      (if hashmap_needs_to_grow m then rev (for_each_key_entry fns m k) else for_each_key_entry fns m k)"
  using insert_new_result [OF assms(1,2), of mallocs key v] assms(3)
  by (auto simp: hashmap_append_def hashmap_insert_def Let_def ENOMEM_def has_memory_def grows_def split: if_splits)

end

interpretation str_table: hash_laws "\<lparr>hash_fn = str_hash_fn, equal_fn = str_equal_fn\<rparr>"
  by unfold_locales (simp_all add: str_equal_fn_def)

interpretation dedup_table: hash_laws "\<lparr>hash_fn = btf_dedup_identity_hash_fn, equal_fn = btf_dedup_equal_fn\<rparr>"
  by unfold_locales (simp_all add: btf_dedup_equal_fn_def)

interpretation dedup_collision_table: hash_laws "\<lparr>hash_fn = btf_dedup_collision_hash_fn, equal_fn = btf_dedup_equal_fn\<rparr>"
  by unfold_locales (simp_all add: btf_dedup_equal_fn_def)

section \<open>Properties\<close>

abbreviation str_fns :: "string hash_fns" where
  "str_fns \<equiv> \<lparr>hash_fn = str_hash_fn, equal_fn = str_equal_fn\<rparr>"

lemma init_inv: "hm_inv fns hashmap_init" "hm_unique fns hashmap_init" "for_each_key_entry fns hashmap_init k = []"
  by (simp_all add: hm_inv_def hm_unique_def hashmap_init_def for_each_key_entry_def chain_at_def)

lemma calloc_small: "calloc_ok (\<lambda>n. unat n < 1000)"
  by (auto simp: calloc_ok_def)

text \<open>
  C17: insertion, every strategy.  On a well-formed table \<open>hashmap__insert\<close> returns without reading
  freed memory and keeps the invariant (each entry in the chain of its hash, the size equal to
  the number of entries, at most three quarters of the buckets filled).  The code is the one of
  the comment in the header: \<open>HASHMAP_ADD\<close> refuses a present key with \<open>-EEXIST\<close>, \<open>HASHMAP_UPDATE\<close>
  an absent one with \<open>-ENOENT\<close>; a new entry fails with \<open>-ENOMEM\<close> exactly when it cannot be
  allocated, or the table has to grow and the array of twice the size cannot be; otherwise the
  code is 0.  The entry handed back is the first one of the key (none for \<open>HASHMAP_APPEND\<close>).  The
  entries of each key are those before, with the first one replaced (the key was found) or a new
  one in front, in the reverse order when the table grew.  So on a table with at most one entry
  per key, every strategy but \<open>HASHMAP_APPEND\<close> is the update of a map: exactly when the code is 0,
  the key (and no other) has the new value.
\<close>

theorem hashmap_insert_refines:
  fixes fns :: "'k hash_fns" and m :: "('k, 'v) hashmap" and key :: 'k and v :: 'v and strategy :: hashmap_insert_strategy
    and callocs :: "u64 \<Rightarrow> bool" and mallocs :: bool
  assumes "hash_laws fns" "hm_inv fns m" "calloc_ok callocs"
  defines "code \<equiv> insert_code strategy (found fns m key strategy) (has_memory callocs mallocs m)"
  shows "\<exists>old m'. hashmap_insert fns callocs mallocs m key v strategy = Some (code, old, m') \<and> hm_inv fns m' \<and>
    Some (map_option snd old) = (if strategy = HASHMAP_APPEND then Some None else hashmap_find fns m key) \<and>
    (\<forall>k. for_each_key_entry fns m' k = entries_after fns callocs mallocs m key v strategy k) \<and>
    (hm_unique fns m \<and> strategy \<noteq> HASHMAP_APPEND \<longrightarrow>
       hm_unique fns m' \<and>
       (\<forall>k. hashmap_find fns m' k = (if code = 0 \<and> equal_fn fns key k then Some (Some v) else hashmap_find fns m k)))"
proof -
  have f: "hashmap_find fns m k = Some (hm_view fns m k)" if "hm_inv fns m" for m :: "('k, 'v) hashmap" and k
    using hash_laws.find_entries [OF assms(1) that] by (simp add: hm_view_def)
  obtain old m' where i: "hashmap_insert fns callocs mallocs m key v strategy = Some (code, old, m')" "hm_inv fns m'"
      "map_option snd old = (if strategy = HASHMAP_APPEND then None else hm_view fns m key)"
      "\<And>k. for_each_key_entry fns m' k = entries_after fns callocs mallocs m key v strategy k"
    using hash_laws.insert_entries [OF assms(1-3), of mallocs key v strategy] unfolding code_def by blast
  have "hm_unique fns m \<and> strategy \<noteq> HASHMAP_APPEND \<longrightarrow> hm_unique fns m' \<and>
       (\<forall>k. hashmap_find fns m' k = (if code = 0 \<and> equal_fn fns key k then Some (Some v) else hashmap_find fns m k))"
    using hash_laws.entries_after_unique [OF assms(1) _ _ i(4)] unfolding f [OF assms(2)] f [OF i(2)] code_def by auto
  then show ?thesis using i f [OF assms(2)] by (intro exI [of _ old] exI [of _ m']) auto
qed

text \<open>The first entry of an empty table, with and without memory for the entry.\<close>

theorem hashmap_insert_refines_witness:
  "(\<exists>m'. hashmap_insert str_fns (\<lambda>n. unat n < 1000) True hashmap_init ''eth0'' (7 :: nat) HASHMAP_SET = Some (0, None, m') \<and>
      hashmap_find str_fns m' ''eth0'' = Some (Some 7) \<and> hashmap_find str_fns m' ''lo'' = Some None) \<and>
   (\<exists>m'. hashmap_insert str_fns (\<lambda>n. unat n < 1000) False hashmap_init ''eth0'' (7 :: nat) HASHMAP_APPEND = Some (- ENOMEM, None, m') \<and>
      for_each_key_entry str_fns m' ''eth0'' = [])"
proof -
  have find0: "hashmap_find str_fns (hashmap_init :: (string, nat) hashmap) k = Some None" for k
    using str_table.find_entries [OF init_inv(1), of k] by (simp add: init_inv)
  have n: "found str_fns (hashmap_init :: (string, nat) hashmap) k s = False" for k s by (simp add: found_def init_inv)
  have mem: "has_memory (\<lambda>n. unat n < 1000) b (hashmap_init :: (string, nat) hashmap) = b" for b
    by (simp add: has_memory_def next_cap_def hashmap_init_def)
  note r = hashmap_insert_refines [OF str_table.hash_laws_axioms init_inv(1) calloc_small, where key = "''eth0''" and v = "7 :: nat", unfolded n mem find0]
  show ?thesis
    using r [where mallocs = True and strategy = HASHMAP_SET] r [where mallocs = False and strategy = HASHMAP_APPEND]
    by (auto simp: insert_code_def init_inv find0 str_equal_fn_def entries_after_def Let_def ENOMEM_def n mem)
qed

text \<open>
  Deletion.  On a well-formed table \<open>hashmap__delete\<close> reports whether the key was present,
  hands back its value, removes its first entry and no other, and keeps the invariant.
\<close>

theorem hashmap_delete_refines:
  assumes "hash_laws fns" "hm_inv fns m"
  shows "\<exists>old m'. hashmap_delete fns m key = Some (hashmap_find fns m key \<noteq> Some None, old, m') \<and> hm_inv fns m' \<and>
    Some (map_option snd old) = hashmap_find fns m key \<and>
    (\<forall>k. for_each_key_entry fns m' k = (if equal_fn fns key k then tl (for_each_key_entry fns m k) else for_each_key_entry fns m k))"
proof -
  have "hashmap_find fns m key = Some (hm_view fns m key)"
    using hash_laws.find_entries [OF assms] by (simp add: hm_view_def)
  then show ?thesis using hash_laws.delete_map [OF assms, of key] by simp
qed

theorem hashmap_delete_refines_witness:
  "\<exists>old m'. hashmap_delete str_fns (hashmap_init :: (string, nat) hashmap) ''eth0'' =
      Some (hashmap_find str_fns (hashmap_init :: (string, nat) hashmap) ''eth0'' \<noteq> Some None, old, m') \<and> hm_inv str_fns m' \<and>
    Some (map_option snd old) = hashmap_find str_fns hashmap_init ''eth0'' \<and>
    (\<forall>k. for_each_key_entry str_fns m' k =
      (if equal_fn str_fns ''eth0'' k then tl (for_each_key_entry str_fns hashmap_init k) else for_each_key_entry str_fns hashmap_init k))"
  by (rule hashmap_delete_refines [OF str_table.hash_laws_axioms init_inv(1)])

text \<open>
  the order of a multimap.  An append that does not grow the table puts its entry in front
  of the earlier ones of its key; one that does grow it reverses the order of the earlier
  ones, for every key, so that \<open>hashmap__find\<close> no longer gives the entry that was
  inserted last.
\<close>

theorem hashmap_append_order:
  assumes "hash_laws fns" "hm_inv fns m" "calloc_ok callocs" "hashmap_append fns callocs mallocs m key v = Some (0, m')"
  shows "hm_inv fns m' \<and>
    for_each_key_entry fns m' k =
      (if equal_fn fns key k then [(key, v)] else []) @
      (if hashmap_needs_to_grow m then rev (for_each_key_entry fns m k) else for_each_key_entry fns m k)"
  by (rule hash_laws.append_entries [OF assms])

text \<open>Three entries under one key, and the append of another key, which grows the table.\<close>

abbreviation dedup_fns :: "u64 hash_fns" where
  "dedup_fns \<equiv> \<lparr>hash_fn = btf_dedup_collision_hash_fn, equal_fn = btf_dedup_equal_fn\<rparr>"

fun appends :: "(u64 \<times> nat) list \<Rightarrow> (u64, nat) hashmap \<Rightarrow> (u64, nat) hashmap" where
  "appends [] m = m"
| "appends ((k, v) # es) m = appends es (snd (the (hashmap_append dedup_fns (\<lambda>n. unat n < 1000) True m k v)))"

definition three_entries :: "(u64, nat) hashmap" where
  "three_entries = \<lparr>buckets = Live [[(5, 3), (5, 2), (5, 1)], [], [], []], cap = 4, cap_bits = 2, sz = 3\<rparr>"

lemma collision_bucket [simp]: "bucket_of dedup_fns bits key = 0"
  by (simp add: bucket_of_def hash_bits_def shr64_def btf_dedup_collision_hash_fn_def)

lemma four_chains: "replicate 4 x = [x, x, x, x]"
  by (simp add: numeral_eq_Suc)

lemma first_grow: "hashmap_grow dedup_fns (\<lambda>n. unat n < 1000) \<lparr>buckets = Null, cap = 0, cap_bits = 0, sz = 0\<rparr> =
    Some (0, \<lparr>buckets = Live [[], [], [], []], cap = 4, cap_bits = 2, sz = 0\<rparr>)"
  by (simp add: hashmap_grow_def HASHMAP_MIN_CAP_BITS_def shl64_def push_bit_eq_mult four_chains Let_def)

lemmas append_eval = hashmap_append_def hashmap_insert_def insert_new_def hashmap_add_entry_def set_chain_def chain_at_def
  hashmap_needs_to_grow_def Let_def

lemma three_entries_reached: "appends [(5, 1), (5, 2), (5, 3)] hashmap_init = three_entries"
  by (simp add: append_eval first_grow three_entries_def hashmap_init_def)

lemma three_entries_inv: "hm_inv dedup_fns three_entries"
  by (simp add: hm_inv_def three_entries_def All_less_Suc)

theorem hashmap_append_order_witness:
  "for_each_key_entry dedup_fns (appends [(6, 4)] three_entries) 5 = [(5, 1), (5, 2), (5, 3)]"
proof -
  have g: "hashmap_needs_to_grow three_entries" by (simp add: hashmap_needs_to_grow_def three_entries_def)
  have "\<exists>m1. hashmap_append dedup_fns (\<lambda>n. unat n < 1000) True three_entries 6 4 = Some (0, m1)"
    using g by (simp add: hashmap_append_def hashmap_insert_def insert_new_def hashmap_grow_def three_entries_def
        HASHMAP_MIN_CAP_BITS_def shl64_def push_bit_eq_mult Let_def)
  then have "hashmap_append dedup_fns (\<lambda>n. unat n < 1000) True three_entries 6 4 = Some (0, appends [(6, 4)] three_entries)"
    by auto
  from hashmap_append_order [OF dedup_collision_table.hash_laws_axioms three_entries_inv calloc_small this, of 5]
  show ?thesis using g
    by (simp add: btf_dedup_equal_fn_def for_each_key_entry_def three_entries_def chain_at_def)
qed

text \<open>
  \<open>hashmap__clear\<close> leaves the table unusable.  It frees the array and sets the sizes to 0,
  but keeps the pointer: after a clear of a table that ever held an entry, every lookup and
  every insertion reads freed memory.  Only a table that was never filled survives.
\<close>

theorem hashmap_clear_dangles:
  assumes "hm_inv fns m"
  shows "hashmap_find fns (hashmap_clear m) key = (if buckets m = Null then Some None else None)"
    and "strategy \<noteq> HASHMAP_APPEND \<Longrightarrow> buckets m \<noteq> Null \<Longrightarrow>
      hashmap_insert fns callocs mallocs (hashmap_clear m) key v strategy = None"
  by (auto simp: hashmap_find_def hashmap_find_entry_def hashmap_clear_def hashmap_insert_def Let_def split: bucket_array.splits)

end
