(* ===== verification/Nlattr.thy ===== *)
theory Nlattr
  imports Packet
begin

text \<open>
  Netlink attributes: \<open>libbpf/src/nlattr.c\<close> and \<open>nlattr.h\<close>, with the layout macros of
  \<open>linux/netlink.h\<close>.

  A buffer is a list of bytes and a pointer to an attribute the offset of its header: two
  bytes of length, two of type, then the payload, padded to a multiple of four.  The number of
  remaining bytes is an \<open>int\<close> and may become negative.  The index array that the parser fills
  is a list of optional offsets.
\<close>

section \<open>Layout\<close>

definition NLA_ALIGNTO :: int where "NLA_ALIGNTO = 4"

definition NLA_ALIGN :: "int \<Rightarrow> int" where
  "NLA_ALIGN len = (len + NLA_ALIGNTO - 1) AND NOT (NLA_ALIGNTO - 1)"

definition NLA_HDRLEN :: nat where "NLA_HDRLEN = 4"

definition NLA_F_NESTED :: u16 where "NLA_F_NESTED = push_bit 15 1"
definition NLA_F_NET_BYTEORDER :: u16 where "NLA_F_NET_BYTEORDER = push_bit 14 1"
definition NLA_TYPE_MASK :: u16 where "NLA_TYPE_MASK = NOT (NLA_F_NESTED OR NLA_F_NET_BYTEORDER)"

definition nla_len :: "packet \<Rightarrow> nat \<Rightarrow> nat" where "nla_len buf nla = unat (load16 buf nla)"

definition libbpf_nla_data :: "nat \<Rightarrow> nat" where "libbpf_nla_data nla = nla + NLA_HDRLEN"

definition libbpf_nla_len :: "packet \<Rightarrow> nat \<Rightarrow> int" where
  "libbpf_nla_len buf nla = int (nla_len buf nla) - int NLA_HDRLEN"

definition libbpf_nla_getattr_u8 :: "packet \<Rightarrow> nat \<Rightarrow> u8" where
  "libbpf_nla_getattr_u8 buf nla = buf ! libbpf_nla_data nla"

definition libbpf_nla_getattr_u32 :: "packet \<Rightarrow> nat \<Rightarrow> u32" where
  "libbpf_nla_getattr_u32 buf nla = load32 buf (libbpf_nla_data nla)"

section \<open>Policies\<close>

definition LIBBPF_NLA_UNSPEC :: u16 where "LIBBPF_NLA_UNSPEC = 0"
definition LIBBPF_NLA_U8 :: u16 where "LIBBPF_NLA_U8 = 1"
definition LIBBPF_NLA_U16 :: u16 where "LIBBPF_NLA_U16 = 2"
definition LIBBPF_NLA_U32 :: u16 where "LIBBPF_NLA_U32 = 3"
definition LIBBPF_NLA_U64 :: u16 where "LIBBPF_NLA_U64 = 4"
definition LIBBPF_NLA_STRING :: u16 where "LIBBPF_NLA_STRING = 5"
definition LIBBPF_NLA_FLAG :: u16 where "LIBBPF_NLA_FLAG = 6"
definition LIBBPF_NLA_MSECS :: u16 where "LIBBPF_NLA_MSECS = 7"
definition LIBBPF_NLA_NESTED :: u16 where "LIBBPF_NLA_NESTED = 8"
definition LIBBPF_NLA_TYPE_MAX :: u16 where "LIBBPF_NLA_TYPE_MAX = 8"

record libbpf_nla_policy =
  pol_type :: u16
  pol_minlen :: u16
  pol_maxlen :: u16

text \<open>The default minimal length by type; the types without an initialiser have 0.\<close>

definition nla_attr_minlen :: "nat list" where
  "nla_attr_minlen = [0, 1, 2, 4, 8, 1, 0, 0, 0]"

section \<open>Operations\<close>

text \<open>\<open>nla_next\<close>: the next attribute and the bytes that remain.\<close>

definition nla_next :: "packet \<Rightarrow> nat \<Rightarrow> int \<Rightarrow> nat \<times> int" where
  "nla_next buf nla remaining =
     (let totlen = NLA_ALIGN (int (nla_len buf nla)) in (nla + nat totlen, remaining - totlen))"

text \<open>The first comparison is one of \<open>size_t\<close>: a negative number of remaining bytes passes it.\<close>

definition nla_ok :: "packet \<Rightarrow> nat \<Rightarrow> int \<Rightarrow> bool" where
  "nla_ok buf nla remaining \<longleftrightarrow>
     remaining mod 2 ^ 64 \<ge> 4 \<and> nla_len buf nla \<ge> 4 \<and> int (nla_len buf nla) \<le> remaining"

definition nla_type :: "packet \<Rightarrow> nat \<Rightarrow> int" where
  "nla_type buf nla = uint (load16 buf (nla + 2) AND NLA_TYPE_MASK)"

definition validate_nla :: "packet \<Rightarrow> nat \<Rightarrow> int \<Rightarrow> libbpf_nla_policy list \<Rightarrow> int" where
  "validate_nla buf nla maxtype policy =
     (let type = nla_type buf nla
      in if type < 0 \<or> type > maxtype then 0
         else
           (let pt = policy ! nat type
            in if pol_type pt > LIBBPF_NLA_TYPE_MAX then 0
               else
                 (let minlen = (if pol_minlen pt \<noteq> 0 then uint (pol_minlen pt)
                                else if pol_type pt \<noteq> LIBBPF_NLA_UNSPEC then int (nla_attr_minlen ! unat (pol_type pt))
                                else 0)
                  in if libbpf_nla_len buf nla mod 2 ^ 32 < minlen then - 1
                     else if pol_maxlen pt \<noteq> 0 \<and> libbpf_nla_len buf nla > uint (pol_maxlen pt) then - 1
                     else if pol_type pt = LIBBPF_NLA_STRING \<and>
                             buf ! nat (int (libbpf_nla_data nla) + libbpf_nla_len buf nla - 1) \<noteq> 0 then - 1
                     else 0)))"

text \<open>
  The loop of \<open>libbpf_nla_parse\<close>: the result, the index array, and the types of the warnings
  about attributes found again.
\<close>

lemma and_not_3: "x AND NOT 3 = x div 4 * (4 :: int)"
proof -
  have "x AND NOT (mask 2) = push_bit 2 (drop_bit 2 x)"
  proof (rule bit_eqI)
    fix n
    have "2 \<le> n \<Longrightarrow> Suc (Suc (n - 2)) = n" by simp
    then show "bit (x AND NOT (mask 2)) n \<longleftrightarrow> bit (push_bit 2 (drop_bit 2 x)) n"
      by (auto simp: bit_simps not_less)
  qed
  moreover have "mask 2 = (3 :: int)" by (simp add: mask_eq_exp_minus_1)
  ultimately show ?thesis by (simp add: push_bit_eq_mult drop_bit_eq_div)
qed

lemma NLA_ALIGN_eq: "NLA_ALIGN len = (len + 3) div 4 * 4"
  unfolding NLA_ALIGN_def NLA_ALIGNTO_def using and_not_3 [of "len + 3"] by (simp add: add.commute)

function nla_parse_loop ::
    "packet \<Rightarrow> int \<Rightarrow> libbpf_nla_policy list option \<Rightarrow> nat \<Rightarrow> int \<Rightarrow> nat option list \<Rightarrow> int list \<Rightarrow>
     int \<times> nat option list \<times> int list" where
  "nla_parse_loop buf maxtype policy nla rem tb warns =
     (if \<not> nla_ok buf nla rem then (0, tb, warns)
      else
        (let type = nla_type buf nla;
             (nla', rem') = nla_next buf nla rem
         in if type > maxtype then nla_parse_loop buf maxtype policy nla' rem' tb warns
            else if (case policy of Some pol \<Rightarrow> validate_nla buf nla maxtype pol < 0 | None \<Rightarrow> False)
            then (the (map_option (validate_nla buf nla maxtype) policy), tb, warns)
            else nla_parse_loop buf maxtype policy nla' rem' (tb[nat type := Some nla])
                   (if tb ! nat type \<noteq> None then warns @ [type] else warns)))"
  by pat_completeness auto
termination
  by (relation "measure (\<lambda>(_, _, _, _, rem, _, _). nat rem)")
    (auto simp: nla_next_def nla_ok_def NLA_ALIGN_eq Let_def)

declare nla_parse_loop.simps [simp del]

definition libbpf_nla_parse ::
    "packet \<Rightarrow> int \<Rightarrow> nat \<Rightarrow> int \<Rightarrow> libbpf_nla_policy list option \<Rightarrow> int \<times> nat option list \<times> int list" where
  "libbpf_nla_parse buf maxtype head len policy =
     nla_parse_loop buf maxtype policy head len (replicate (nat (maxtype + 1)) None) []"

definition libbpf_nla_parse_nested ::
    "packet \<Rightarrow> int \<Rightarrow> nat \<Rightarrow> libbpf_nla_policy list option \<Rightarrow> int \<times> nat option list \<times> int list" where
  "libbpf_nla_parse_nested buf maxtype nla policy =
     libbpf_nla_parse buf maxtype (libbpf_nla_data nla) (libbpf_nla_len buf nla) policy"

section \<open>Netlink messages\<close>

text \<open>
  A message starts with \<open>struct nlmsghdr\<close>: length (4 bytes), type (2), flags (2), sequence
  number (4) and port (4).
\<close>

definition nlmsg_len_at :: "packet \<Rightarrow> nat \<Rightarrow> u32" where "nlmsg_len_at buf nh = load32 buf nh"
definition nlmsg_type_at :: "packet \<Rightarrow> nat \<Rightarrow> u16" where "nlmsg_type_at buf nh = load16 buf (nh + 4)"
definition nlmsg_flags_at :: "packet \<Rightarrow> nat \<Rightarrow> u16" where "nlmsg_flags_at buf nh = load16 buf (nh + 6)"
definition nlmsg_seq_at :: "packet \<Rightarrow> nat \<Rightarrow> u32" where "nlmsg_seq_at buf nh = load32 buf (nh + 8)"
definition nlmsg_pid_at :: "packet \<Rightarrow> nat \<Rightarrow> u32" where "nlmsg_pid_at buf nh = load32 buf (nh + 12)"

definition NLMSG_HDRLEN :: nat where "NLMSG_HDRLEN = 16"

definition NLMSG_ALIGN :: "int \<Rightarrow> int" where
  "NLMSG_ALIGN len = (len + 4 - 1) AND NOT (4 - 1)"

definition NLMSG_LENGTH :: "nat \<Rightarrow> nat" where "NLMSG_LENGTH len = len + NLMSG_HDRLEN"

definition NLMSG_DATA :: "nat \<Rightarrow> nat" where "NLMSG_DATA nlh = nlh + NLMSG_LENGTH 0"

definition NLMSG_OK :: "packet \<Rightarrow> nat \<Rightarrow> int \<Rightarrow> bool" where
  "NLMSG_OK buf nlh len \<longleftrightarrow>
     len \<ge> 16 \<and> uint (nlmsg_len_at buf nlh) \<ge> 16 \<and> uint (nlmsg_len_at buf nlh) \<le> len"

definition NLMSG_NEXT :: "packet \<Rightarrow> nat \<Rightarrow> int \<Rightarrow> nat \<times> int" where
  "NLMSG_NEXT buf nlh len =
     (let n = NLMSG_ALIGN (uint (nlmsg_len_at buf nlh)) in (nlh + nat n, len - n))"

definition NLM_F_REQUEST :: u16 where "NLM_F_REQUEST = 0x01"
definition NLM_F_MULTI :: u16 where "NLM_F_MULTI = 0x02"
definition NLM_F_ACK :: u16 where "NLM_F_ACK = 0x04"
definition NLM_F_DUMP :: u16 where "NLM_F_DUMP = 0x100 OR 0x200"
definition NLM_F_CAPPED :: u16 where "NLM_F_CAPPED = 0x100"
definition NLM_F_ACK_TLVS :: u16 where "NLM_F_ACK_TLVS = 0x200"

definition NLMSG_ERROR :: u16 where "NLMSG_ERROR = 2"
definition NLMSG_DONE :: u16 where "NLMSG_DONE = 3"

definition nlmsg_len :: "packet \<Rightarrow> nat \<Rightarrow> int" where
  "nlmsg_len buf nlh = sint (nlmsg_len_at buf nlh - of_nat NLMSG_HDRLEN)"

definition NLMSGERR_ATTR_MSG :: nat where "NLMSGERR_ATTR_MSG = 1"
definition NLMSGERR_ATTR_OFFS :: nat where "NLMSGERR_ATTR_OFFS = 2"
definition NLMSGERR_ATTR_MAX :: int where "NLMSGERR_ATTR_MAX = 3"

text \<open>
  What is printed about an error message: nothing, that its attributes are malformed, or the
  text, given by its offset (\<open>None\<close> for a null pointer).
\<close>

datatype errormsg = No_tlvs | Parse_failed | Kernel_message "nat option"

definition extack_policy :: "libbpf_nla_policy list" where
  "extack_policy =
     [\<lparr>pol_type = 0, pol_minlen = 0, pol_maxlen = 0\<rparr>,
      \<lparr>pol_type = LIBBPF_NLA_STRING, pol_minlen = 0, pol_maxlen = 0\<rparr>,
      \<lparr>pol_type = LIBBPF_NLA_U32, pol_minlen = 0, pol_maxlen = 0\<rparr>,
      \<lparr>pol_type = 0, pol_minlen = 0, pol_maxlen = 0\<rparr>]"

text \<open>\<open>struct nlmsgerr\<close> is the error number and the header of the message it answers: 20 bytes.\<close>

definition extack_attrs :: "packet \<Rightarrow> nat \<Rightarrow> nat \<times> int" where
  "extack_attrs buf nlh =
     (let err = NLMSG_DATA nlh;
          hlen = 20 + (if nlmsg_flags_at buf nlh AND NLM_F_CAPPED = 0 then nlmsg_len buf (err + 4) else 0)
      in (nat (int err + hlen), sint (nlmsg_len_at buf nlh - word_of_int hlen)))"

definition libbpf_nla_dump_errormsg :: "packet \<Rightarrow> nat \<Rightarrow> int \<times> errormsg" where
  "libbpf_nla_dump_errormsg buf nlh =
     (if nlmsg_flags_at buf nlh AND NLM_F_ACK_TLVS = 0 then (0, No_tlvs)
      else
        (let (attr, alen) = extack_attrs buf nlh;
             (err, tb, _) = libbpf_nla_parse buf NLMSGERR_ATTR_MAX attr alen (Some extack_policy)
         in if err \<noteq> 0 then (0, Parse_failed)
            else (0, Kernel_message (map_option libbpf_nla_data (tb ! NLMSGERR_ATTR_MSG)))))"

section \<open>Specification\<close>

text \<open>The bytes of an attribute, and what a reader finds at an attribute.\<close>

definition le16 :: "u16 \<Rightarrow> u8 list" where "le16 v = [ucast v, ucast (drop_bit 8 v)]"

definition le32 :: "u32 \<Rightarrow> u8 list" where
  "le32 v = [ucast v, ucast (drop_bit 8 v), ucast (drop_bit 16 v), ucast (drop_bit 24 v)]"

definition padding :: "nat \<Rightarrow> nat" where "padding n = (4 - n mod 4) mod 4"

definition nla_bytes :: "u16 \<times> u8 list \<Rightarrow> u8 list" where
  "nla_bytes a =
     le16 (of_nat (length (snd a) + 4)) @ le16 (fst a) @ snd a @ replicate (padding (length (snd a))) 0"

definition attr_at :: "packet \<Rightarrow> nat \<Rightarrow> u16 \<times> u8 list" where
  "attr_at buf nla = (load16 buf (nla + 2), mem_read buf (nla + 4) (nla_len buf nla - 4))"

text \<open>\<open>bs\<close> stands in \<open>buf\<close> at an offset.\<close>

definition bytes_at :: "packet \<Rightarrow> nat \<Rightarrow> u8 list \<Rightarrow> bool" where
  "bytes_at buf off bs \<longleftrightarrow> off + length bs \<le> length buf \<and> take (length bs) (drop off buf) = bs"

section \<open>Bytes in a buffer\<close>

lemma length_le [simp]: "length (le16 v) = 2" "length (le32 w) = 4"
  by (simp_all add: le16_def le32_def)

lemma bytes_at_append:
  "bytes_at buf off (xs @ ys) \<longleftrightarrow> bytes_at buf off xs \<and> bytes_at buf (off + length xs) ys"
proof
  assume *: "bytes_at buf off (xs @ ys)"
  then have "take (length xs) (take (length xs + length ys) (drop off buf)) = xs"
    "drop (length xs) (take (length xs + length ys) (drop off buf)) = ys"
    by (simp_all add: bytes_at_def)
  then show "bytes_at buf off xs \<and> bytes_at buf (off + length xs) ys"
    using * by (simp add: bytes_at_def drop_take add.commute)
next
  assume "bytes_at buf off xs \<and> bytes_at buf (off + length xs) ys"
  then show "bytes_at buf off (xs @ ys)" by (simp add: bytes_at_def take_add add.commute)
qed

lemma bytes_at_self: "bytes_at buf 0 buf"
  by (simp add: bytes_at_def)

lemma bytes_at_nth: "bytes_at buf off bs \<Longrightarrow> i < length bs \<Longrightarrow> buf ! (off + i) = bs ! i"
  unfolding bytes_at_def by (metis add_leD1 nth_drop nth_take)

lemma bytes_at_read: "bytes_at buf off bs \<Longrightarrow> mem_read buf off (length bs) = bs"
  by (simp add: bytes_at_def mem_read_def)

lemma load16_at: "bytes_at buf off (le16 v) \<Longrightarrow> load16 buf off = v"
proof -
  assume *: "bytes_at buf off (le16 v)"
  then have "buf ! off = ucast v" "buf ! (off + 1) = ucast (drop_bit 8 v)"
    using bytes_at_nth [OF *, of 0] bytes_at_nth [OF *, of 1] by (simp_all add: le16_def)
  then show ?thesis by (intro bit_word_eqI) (auto simp: load16_def bit_simps)
qed

lemma word_of_bytes:
  "ucast (ucast v :: u8) OR push_bit 8 (ucast (ucast (drop_bit 8 v) :: u8)) OR push_bit 16 (ucast (ucast (drop_bit 16 v) :: u8))
   OR push_bit 24 (ucast (ucast (drop_bit 24 v) :: u8)) = (v :: u32)" (is "?l = v")
proof (rule bit_word_eqI)
  fix n assume "n < LENGTH(32)"
  then consider "n < 8" | "8 \<le> n" "n < 16" | "16 \<le> n" "n < 24" | "24 \<le> n" "n < 32" by fastforce
  then show "bit ?l n \<longleftrightarrow> bit v n"
    by cases (auto simp: bit_simps)
qed

lemma load32_at: "bytes_at buf off (le32 v) \<Longrightarrow> load32 buf off = v"
proof -
  assume *: "bytes_at buf off (le32 v)"
  then have b: "buf ! off = ucast v" "buf ! (off + 1) = ucast (drop_bit 8 v)"
    "buf ! (off + 2) = ucast (drop_bit 16 v)" "buf ! (off + 3) = ucast (drop_bit 24 v)"
    using bytes_at_nth [OF *, of 0] bytes_at_nth [OF *, of 1] bytes_at_nth [OF *, of 2] bytes_at_nth [OF *, of 3]
    by (simp_all add: le32_def)
  show ?thesis unfolding load32_def b by (rule word_of_bytes)
qed

section \<open>One attribute\<close>

lemma padding_align: "NLA_ALIGN (int (n + 4)) = int (n + 4 + padding n)"
proof -
  define q r where "q = n div 4" and "r = n mod 4"
  have n: "n = 4 * q + r" "r < 4" "padding n = (4 - r) mod 4" by (simp_all add: q_def r_def padding_def)
  then have "r = 0 \<or> r = 1 \<or> r = 2 \<or> r = 3" by auto
  then show ?thesis unfolding n(3) by (elim disjE) (simp_all add: n(1) NLA_ALIGN_eq)
qed

lemma length_nla_bytes: "length (nla_bytes a) = length (snd a) + 4 + padding (length (snd a))"
  by (simp add: nla_bytes_def)

text \<open>An attribute that is small enough for its length field.\<close>

definition attr_small :: "u16 \<times> u8 list \<Rightarrow> bool" where
  "attr_small a \<longleftrightarrow> length (snd a) + 4 < 2 ^ 16"

lemma attr_fields:
  assumes "bytes_at buf nla (nla_bytes a)" "attr_small a"
  shows "nla_len buf nla = length (snd a) + 4" "load16 buf (nla + 2) = fst a"
    "mem_read buf (nla + 4) (length (snd a)) = snd a" "attr_at buf nla = a"
proof -
  have *: "bytes_at buf nla (le16 (of_nat (length (snd a) + 4)))" "bytes_at buf (nla + 2) (le16 (fst a))"
    "bytes_at buf (nla + 4) (snd a)"
    using assms(1) by (simp_all add: nla_bytes_def bytes_at_append numeral_eq_Suc)
  show l: "nla_len buf nla = length (snd a) + 4"
    unfolding nla_len_def load16_at [OF *(1)] unat_of_nat using assms(2) by (simp add: attr_small_def take_bit_eq_mod)
  show t: "load16 buf (nla + 2) = fst a" by (rule load16_at [OF *(2)])
  show r: "mem_read buf (nla + 4) (length (snd a)) = snd a" by (rule bytes_at_read [OF *(3)])
  show "attr_at buf nla = a" using l t r by (simp add: attr_at_def)
qed

lemma attr_step:
  assumes "bytes_at buf nla (nla_bytes a)" "attr_small a" "int (length (nla_bytes a)) \<le> rem" "rem < 2 ^ 31"
  shows "nla_ok buf nla rem" "nla_next buf nla rem = (nla + length (nla_bytes a), rem - int (length (nla_bytes a)))"
proof -
  note f = attr_fields [OF assms(1,2)]
  have "rem mod 2 ^ 64 = rem" using assms(3,4) by (intro mod_pos_pos_trivial) auto
  then show "nla_ok buf nla rem" using f(1) assms(3) by (simp add: nla_ok_def length_nla_bytes)
  show "nla_next buf nla rem = (nla + length (nla_bytes a), rem - int (length (nla_bytes a)))"
    using f(1) padding_align [of "length (snd a)"] by (simp add: nla_next_def length_nla_bytes Let_def)
qed

lemma nla_not_ok: "rem < 4 \<Longrightarrow> \<not> nla_ok buf nla rem"
  by (auto simp: nla_ok_def)

section \<open>A stream of attributes\<close>

text \<open>The type of an attribute without the flag bits.\<close>

definition attr_type :: "u16 \<times> u8 list \<Rightarrow> int" where
  "attr_type a = uint (fst a AND NLA_TYPE_MASK)"

lemma find_append: "find P (xs @ ys) = (case find P xs of None \<Rightarrow> find P ys | Some x \<Rightarrow> Some x)"
  by (induction xs) auto

lemma parse_stream:
  assumes "bytes_at buf nla (concat (map nla_bytes attrs))" "\<forall>a\<in>set attrs. attr_small a"
    and "rem = int (length (concat (map nla_bytes attrs)))" "rem < 2 ^ 31" "length tb = nat (maxtype + 1)"
  shows "\<exists>tb' w. nla_parse_loop buf maxtype None nla rem tb warns = (0, tb', w) \<and> length tb' = length tb \<and>
    (\<forall>t. 0 \<le> t \<and> t \<le> maxtype \<longrightarrow> map_option (attr_at buf) (tb' ! nat t) =
       (case find (\<lambda>a. attr_type a = t) (rev attrs) of Some a \<Rightarrow> Some a | None \<Rightarrow> map_option (attr_at buf) (tb ! nat t)))"
  using assms
proof (induction attrs arbitrary: nla rem tb warns)
  case Nil
  then show ?case using nla_not_ok [of rem buf nla] by (simp add: nla_parse_loop.simps)
next
  case (Cons a attrs)
  have b: "bytes_at buf nla (nla_bytes a)" "bytes_at buf (nla + length (nla_bytes a)) (concat (map nla_bytes attrs))"
    using Cons.prems(1) by (simp_all add: bytes_at_append)
  have s: "attr_small a" "\<forall>a\<in>set attrs. attr_small a" using Cons.prems(2) by auto
  have r: "int (length (nla_bytes a)) \<le> rem" "rem - int (length (nla_bytes a)) = int (length (concat (map nla_bytes attrs)))"
    using Cons.prems(3) by simp_all
  note st = attr_step [OF b(1) s(1) r(1) Cons.prems(4)]
  have ty: "nla_type buf nla = attr_type a"
    using attr_fields(2) [OF b(1) s(1)] by (simp add: nla_type_def attr_type_def)
  have ty0: "0 \<le> attr_type a" by (simp add: attr_type_def)
  define tb1 where "tb1 = (if attr_type a > maxtype then tb else tb[nat (attr_type a) := Some nla])"
  define w1 where "w1 = (if attr_type a \<le> maxtype \<and> tb ! nat (attr_type a) \<noteq> None then warns @ [attr_type a] else warns)"
  have step: "nla_parse_loop buf maxtype None nla rem tb warns =
      nla_parse_loop buf maxtype None (nla + length (nla_bytes a)) (rem - int (length (nla_bytes a))) tb1 w1"
    using st ty by (subst nla_parse_loop.simps) (auto simp: Let_def tb1_def w1_def)
  have len1: "length tb1 = nat (maxtype + 1)" using Cons.prems(5) by (simp add: tb1_def)
  have look: "map_option (attr_at buf) (tb1 ! nat t) = (if t = attr_type a then Some a else map_option (attr_at buf) (tb ! nat t))"
    if "0 \<le> t" "t \<le> maxtype" for t
    using that Cons.prems(5) ty0 attr_fields(4) [OF b(1) s(1)] by (auto simp: tb1_def nth_list_update)
  obtain tb' w where IH: "nla_parse_loop buf maxtype None (nla + length (nla_bytes a)) (rem - int (length (nla_bytes a))) tb1 w1 = (0, tb', w)"
    "length tb' = length tb1"
    "\<forall>t. 0 \<le> t \<and> t \<le> maxtype \<longrightarrow> map_option (attr_at buf) (tb' ! nat t) =
       (case find (\<lambda>a. attr_type a = t) (rev attrs) of Some a \<Rightarrow> Some a | None \<Rightarrow> map_option (attr_at buf) (tb1 ! nat t))"
    using Cons.IH [OF b(2) s(2) r(2) _ len1, of w1] Cons.prems(4) by auto
  show ?case using step IH look len1 Cons.prems(5) by (auto simp: find_append split: option.splits)
qed

section \<open>Attributes of untrusted streams\<close>

text \<open>An attribute that the parser hands out: inside the stream, and accepted by the policy.\<close>

definition attr_inside :: "packet \<Rightarrow> int \<Rightarrow> libbpf_nla_policy list option \<Rightarrow> nat \<Rightarrow> int \<Rightarrow> int \<Rightarrow> nat \<Rightarrow> bool" where
  "attr_inside buf maxtype policy head len t p \<longleftrightarrow>
     head \<le> p \<and> nla_len buf p \<ge> NLA_HDRLEN \<and> int (p + nla_len buf p) \<le> int head + len \<and> nla_type buf p = t \<and>
     (case policy of None \<Rightarrow> True | Some pol \<Rightarrow> validate_nla buf p maxtype pol \<ge> 0)"

definition tb_inside where
  "tb_inside buf maxtype policy head len tb \<longleftrightarrow>
     length tb = nat (maxtype + 1) \<and>
     (\<forall>t p. 0 \<le> t \<and> t \<le> maxtype \<and> tb ! nat t = Some p \<longrightarrow> attr_inside buf maxtype policy head len t p)"

lemma parse_loop_inside:
  assumes "tb_inside buf maxtype policy head len tb" "head \<le> nla" "int nla + rem = int head + len"
  shows "tb_inside buf maxtype policy head len (fst (snd (nla_parse_loop buf maxtype policy nla rem tb warns)))"
  using assms
proof (induction buf maxtype policy nla rem tb warns rule: nla_parse_loop.induct)
  case (1 buf maxtype policy nla rem tb warns)
  show ?case
  proof (cases "nla_ok buf nla rem")
    case False
    then show ?thesis using "1.prems"(1) by (subst nla_parse_loop.simps) simp
  next
    case True
    define nla' where "nla' = fst (nla_next buf nla rem)"
    define rem' where "rem' = snd (nla_next buf nla rem)"
    have nx: "nla_next buf nla rem = (nla', rem')" by (simp add: nla'_def rem'_def)
    have pos: "head \<le> nla'" "int nla' + rem' = int head + len"
      using "1.prems"(2,3) True by (auto simp: nla'_def rem'_def nla_next_def nla_ok_def NLA_ALIGN_eq Let_def)
    define bad where "bad = (case policy of Some pol \<Rightarrow> validate_nla buf nla maxtype pol < 0 | None \<Rightarrow> False)"
    consider "nla_type buf nla > maxtype" | "\<not> nla_type buf nla > maxtype" bad | "\<not> nla_type buf nla > maxtype" "\<not> bad" by blast
    then show ?thesis
    proof cases
      case 1
      then show ?thesis
        using "1.IH"(1) [OF _ refl nx [symmetric] refl] True nx "1.prems"(1) pos
        by (subst nla_parse_loop.simps) simp
    next
      case 2
      then show ?thesis using True nx "1.prems"(1) by (subst nla_parse_loop.simps) (simp add: bad_def)
    next
      case 3
      have "attr_inside buf maxtype policy head len (nla_type buf nla) nla"
        using 3(2) True "1.prems"(2,3) by (auto simp: attr_inside_def nla_ok_def NLA_HDRLEN_def bad_def split: option.splits)
      moreover have "0 \<le> nla_type buf nla" by (simp add: nla_type_def)
      ultimately have "tb_inside buf maxtype policy head len (tb[nat (nla_type buf nla) := Some nla])"
        using "1.prems"(1) 3(1) by (auto simp: tb_inside_def nth_list_update eq_nat_nat_iff split: if_splits)
      then show ?thesis
        using "1.IH"(2) [OF _ refl nx [symmetric] refl] True nx 3 pos
        by (subst nla_parse_loop.simps) (simp add: bad_def Let_def)
    qed
  qed
qed

section \<open>Properties\<close>


definition sample_attrs :: "(u16 \<times> u8 list) list" where
  "sample_attrs = [(1, [7, 8]), (3, [1, 2, 3, 4]), (1, [9])]"

lemma sample_attrs_facts:
  "length (concat (map nla_bytes sample_attrs)) = 24"
  "find (\<lambda>a. attr_type a = 1) (rev sample_attrs) = Some (1, [9])"
  "\<forall>a\<in>set sample_attrs. attr_small a"
  by (simp_all add: sample_attrs_def nla_bytes_def padding_def attr_small_def
      attr_type_def NLA_TYPE_MASK_def NLA_F_NESTED_def NLA_F_NET_BYTEORDER_def push_bit_eq_mult)

lemma parse_whole:
  assumes "bytes_at buf head (concat (map nla_bytes attrs))" "\<forall>a\<in>set attrs. attr_small a"
    and "length (concat (map nla_bytes attrs)) < 2 ^ 31"
  shows "\<exists>tb w. libbpf_nla_parse buf maxtype head (int (length (concat (map nla_bytes attrs)))) None = (0, tb, w) \<and>
    (\<forall>t. 0 \<le> t \<and> t \<le> maxtype \<longrightarrow> map_option (attr_at buf) (tb ! nat t) = find (\<lambda>a. attr_type a = t) (rev attrs))"
proof -
  have *: "length (replicate (nat (maxtype + 1)) (None :: nat option)) = nat (maxtype + 1)" by simp
  obtain tb w where 1: "libbpf_nla_parse buf maxtype head (int (length (concat (map nla_bytes attrs)))) None = (0, tb, w)"
    and 2: "\<forall>t. 0 \<le> t \<and> t \<le> maxtype \<longrightarrow> map_option (attr_at buf) (tb ! nat t) =
      (case find (\<lambda>a. attr_type a = t) (rev attrs) of Some a \<Rightarrow> Some a
       | None \<Rightarrow> map_option (attr_at buf) (replicate (nat (maxtype + 1)) None ! nat t))"
    using parse_stream [OF assms(1,2) refl _ *, of "[]"] assms(3) by (auto simp: libbpf_nla_parse_def)
  have "replicate (nat (maxtype + 1)) None ! nat t = None" if "0 \<le> t" "t \<le> maxtype" for t
    using that by (intro nth_replicate) simp
  then show ?thesis using 1 2 by (auto split: option.splits)
qed


text \<open>
  C19: the parser reads back what was written.  A stream of attributes, each with its length, its
  type, its payload and padding to four bytes, is parsed without error; under each accepted type
  the array gives the last attribute of that type (without its flag bits), with its payload,
  and nothing for a type that does not occur.
\<close>

theorem nla_parse_roundtrip:
  assumes "bytes_at buf head (concat (map nla_bytes attrs))" "\<forall>a\<in>set attrs. attr_small a"
    and "length (concat (map nla_bytes attrs)) < 2 ^ 31"
  shows "\<exists>tb w. libbpf_nla_parse buf maxtype head (int (length (concat (map nla_bytes attrs)))) None = (0, tb, w) \<and>
    (\<forall>t. 0 \<le> t \<and> t \<le> maxtype \<longrightarrow> map_option (attr_at buf) (tb ! nat t) = find (\<lambda>a. attr_type a = t) (rev attrs))"
  by (rule parse_whole [OF assms])

theorem nla_parse_roundtrip_witness:
  "\<exists>tb w. libbpf_nla_parse (concat (map nla_bytes sample_attrs)) 7 0 24 None = (0, tb, w) \<and>
    map_option (attr_at (concat (map nla_bytes sample_attrs))) (tb ! 1) = Some (1, [9])"
proof -
  let ?buf = "concat (map nla_bytes sample_attrs)"
  obtain tb w where p: "libbpf_nla_parse ?buf 7 0 24 None = (0, tb, w)"
    and "\<forall>t. 0 \<le> t \<and> t \<le> 7 \<longrightarrow> map_option (attr_at ?buf) (tb ! nat t) = find (\<lambda>a. attr_type a = t) (rev sample_attrs)"
    using nla_parse_roundtrip [OF bytes_at_self, of sample_attrs 7] sample_attrs_facts by auto
  from spec [OF this(2), of 1] p show ?thesis using sample_attrs_facts(2) by auto
qed

text \<open>
  the attributes of an extended error message are read past its end.  The length that
  \<open>libbpf_nla_dump_errormsg\<close> passes to the parser does not leave out the header of the message, so
  that the stream ends 16 bytes after the message does.
\<close>

theorem extack_overreads:
  assumes "extack_attrs buf nlh = (attr, alen)" "nlmsg_flags_at buf nlh AND NLM_F_CAPPED \<noteq> 0"
    and "36 \<le> uint (nlmsg_len_at buf nlh)" "uint (nlmsg_len_at buf nlh) < 2 ^ 31"
  shows "int attr + alen = int nlh + uint (nlmsg_len_at buf nlh) + int NLMSG_HDRLEN"
proof -
  define n where "n = nlmsg_len_at buf nlh"
  have u: "uint (n - 20) = uint n - 20" using assms(3) n_def by (simp add: uint_sub_if')
  then have "sint (n - 20) = uint n - 20"
    using assms(3,4) n_def by (simp add: sint_uint signed_take_bit_int_eq_self)
  then show ?thesis
    using assms(1,2) by (auto simp: extack_attrs_def Let_def NLMSG_DATA_def NLMSG_LENGTH_def NLMSG_HDRLEN_def n_def)
qed

end
