(* ===== verification/Libbpf_Errno.thy ===== *)
theory Libbpf_Errno
  imports Common_Params
begin

text \<open>
  Error numbers of libbpf and their messages, \<open>libbpf/src/libbpf.h\<close>, \<open>libbpf_errno.c\<close> and \<open>str_error.c\<close>.
  \<open>strerror_r\<close> of the C library is an argument: from a number and the size of the buffer, its return
  value and what it writes.
\<close>

section \<open>Numbers\<close>

definition LIBBPF_ERRNO__START :: int where "LIBBPF_ERRNO__START = 4000"
definition LIBBPF_ERRNO__LIBELF :: int where "LIBBPF_ERRNO__LIBELF = LIBBPF_ERRNO__START"
definition LIBBPF_ERRNO__FORMAT :: int where "LIBBPF_ERRNO__FORMAT = 4001"
definition LIBBPF_ERRNO__KVERSION :: int where "LIBBPF_ERRNO__KVERSION = 4002"
definition LIBBPF_ERRNO__ENDIAN :: int where "LIBBPF_ERRNO__ENDIAN = 4003"
definition LIBBPF_ERRNO__INTERNAL :: int where "LIBBPF_ERRNO__INTERNAL = 4004"
definition LIBBPF_ERRNO__RELOC :: int where "LIBBPF_ERRNO__RELOC = 4005"
definition LIBBPF_ERRNO__LOAD :: int where "LIBBPF_ERRNO__LOAD = 4006"
definition LIBBPF_ERRNO__VERIFY :: int where "LIBBPF_ERRNO__VERIFY = 4007"
definition LIBBPF_ERRNO__PROG2BIG :: int where "LIBBPF_ERRNO__PROG2BIG = 4008"
definition LIBBPF_ERRNO__KVER :: int where "LIBBPF_ERRNO__KVER = 4009"
definition LIBBPF_ERRNO__PROGTYPE :: int where "LIBBPF_ERRNO__PROGTYPE = 4010"
definition LIBBPF_ERRNO__WRNGPID :: int where "LIBBPF_ERRNO__WRNGPID = 4011"
definition LIBBPF_ERRNO__INVSEQ :: int where "LIBBPF_ERRNO__INVSEQ = 4012"
definition LIBBPF_ERRNO__NLPARSE :: int where "LIBBPF_ERRNO__NLPARSE = 4013"
definition LIBBPF_ERRNO__END :: int where "LIBBPF_ERRNO__END = 4014"

lemmas libbpf_errno_defs =
  LIBBPF_ERRNO__START_def LIBBPF_ERRNO__LIBELF_def LIBBPF_ERRNO__FORMAT_def LIBBPF_ERRNO__KVERSION_def LIBBPF_ERRNO__ENDIAN_def
  LIBBPF_ERRNO__INTERNAL_def LIBBPF_ERRNO__RELOC_def LIBBPF_ERRNO__LOAD_def LIBBPF_ERRNO__VERIFY_def LIBBPF_ERRNO__PROG2BIG_def
  LIBBPF_ERRNO__KVER_def LIBBPF_ERRNO__PROGTYPE_def LIBBPF_ERRNO__WRNGPID_def LIBBPF_ERRNO__INVSEQ_def LIBBPF_ERRNO__NLPARSE_def
  LIBBPF_ERRNO__END_def

section \<open>Messages\<close>

text \<open>The table; an entry that the initialiser leaves out is NULL.\<close>

definition libbpf_strerror_table :: "(int \<times> string) list" where
  "libbpf_strerror_table =
     [(LIBBPF_ERRNO__LIBELF, ''Something wrong in libelf''),
      (LIBBPF_ERRNO__FORMAT, ''BPF object format invalid''),
      (LIBBPF_ERRNO__KVERSION, CHR 0x27 # ''version'' @ CHR 0x27 # '' section incorrect or lost''),
      (LIBBPF_ERRNO__ENDIAN, ''Endian mismatch''),
      (LIBBPF_ERRNO__INTERNAL, ''Internal error in libbpf''),
      (LIBBPF_ERRNO__RELOC, ''Relocation failed''),
      (LIBBPF_ERRNO__VERIFY, ''Kernel verifier blocks program loading''),
      (LIBBPF_ERRNO__PROG2BIG, ''Program too big''),
      (LIBBPF_ERRNO__KVER, ''Incorrect kernel version''),
      (LIBBPF_ERRNO__PROGTYPE, ''Kernel doesn'' @ CHR 0x27 # ''t support this program type''),
      (LIBBPF_ERRNO__WRNGPID, ''Wrong pid in netlink message''),
      (LIBBPF_ERRNO__INVSEQ, ''Invalid netlink sequence''),
      (LIBBPF_ERRNO__NLPARSE, ''Incorrect netlink message parsing'')]"

text \<open>The digits of \<open>%d\<close>.\<close>

fun decimal :: "nat \<Rightarrow> string" where
  "decimal n = (if n < 10 then [] else decimal (n div 10)) @ [char_of (48 + n mod 10)]"

declare decimal.simps [simp del]

definition decimal_int :: "int \<Rightarrow> string" where
  "decimal_int n = (if n < 0 then ''-'' @ decimal (nat (- n)) else decimal (nat n))"

text \<open>
  The size is \<open>None\<close> for a NULL buffer.  The result \<open>None\<close> is undefined: the negation of the smallest
  \<open>int\<close>, or a NULL message given to \<open>%s\<close>.
\<close>

definition libbpf_strerror :: "(int \<Rightarrow> nat \<Rightarrow> int \<times> string) \<Rightarrow> int \<Rightarrow> nat option \<Rightarrow> (int \<times> string) option" where
  "libbpf_strerror strerror_r err buf =
     (case buf of
        None \<Rightarrow> Some (- 1, [])
      | Some n \<Rightarrow>
          if n = 0 then Some (- 1, [])
          else if err = - (2 ^ 31) then None
          else
            (let err = (if err > 0 then err else - err)
             in if err < LIBBPF_ERRNO__START then (let (ret, msg) = strerror_r err n in Some (ret, take (n - 1) msg))
                else if err < LIBBPF_ERRNO__END then
                  (case map_of libbpf_strerror_table err of None \<Rightarrow> None | Some msg \<Rightarrow> Some (0, snprintf n msg))
                else Some (- 1, snprintf n (''Unknown libbpf error '' @ decimal_int err))))"

definition libbpf_strerror_r :: "(int \<Rightarrow> nat \<Rightarrow> int \<times> string) \<Rightarrow> int \<Rightarrow> nat \<Rightarrow> string" where
  "libbpf_strerror_r strerror_r err len =
     (let (ret, dst) = strerror_r (if err < 0 then - err else err) len
      in if ret \<noteq> 0 then snprintf len (''ERROR: strerror_r('' @ decimal_int err @ '')='' @ decimal_int ret) else dst)"

text \<open>
  Every number of libbpf has a message of its own, also when it is given negated, as the functions
  return it; except \<open>LOAD\<close>, for which the table has no entry.
\<close>

theorem strerror_messages:
  assumes "LIBBPF_ERRNO__START \<le> e" "e < LIBBPF_ERRNO__END" "0 < n"
  shows "libbpf_strerror f (- e) (Some n) = libbpf_strerror f e (Some n)"
    "libbpf_strerror f e (Some n) = (if e = LIBBPF_ERRNO__LOAD then None else Some (0, take (n - 1) (the (map_of libbpf_strerror_table e))))"
    "distinct (map snd libbpf_strerror_table)"
proof -
  have "e \<in> {4000, 4001, 4002, 4003, 4004, 4005, 4006, 4007, 4008, 4009, 4010, 4011, 4012, 4013}"
    using assms(1,2) unfolding libbpf_errno_defs insert_iff empty_iff by presburger
  then show "libbpf_strerror f e (Some n) = (if e = LIBBPF_ERRNO__LOAD then None else Some (0, take (n - 1) (the (map_of libbpf_strerror_table e))))"
    using assms(3) by (auto simp: libbpf_strerror_def libbpf_strerror_table_def libbpf_errno_defs snprintf_def)
  show "libbpf_strerror f (- e) (Some n) = libbpf_strerror f e (Some n)"
    using assms by (auto simp: libbpf_strerror_def libbpf_errno_defs Let_def)
  show "distinct (map snd libbpf_strerror_table)" by (simp add: libbpf_strerror_table_def)
qed

end
