(* ===== verification/Netlink.thy ===== *)
theory Netlink
  imports Nlattr Libbpf_Errno
begin

text \<open>
  The netlink client, \<open>libbpf/src/netlink.c\<close>, through which the loader attaches its program.

  The kernel is an argument: the record \<open>nl_sys\<close> holds the answers of the system calls on
  one socket, with the datagrams that successive calls of \<open>recv\<close> return (an error number or
  bytes).  When no datagram is left, \<open>recv\<close> blocks, and the operation gives \<open>None\<close>.  An
  operation returns its result and an \<open>nl_trace\<close>: what was sent, which descriptors were
  closed, what was printed about errors.
\<close>

section \<open>Data\<close>

record nl_sys =
  sys_socket :: "int + int"
  sys_bind :: "int option"
  sys_getsockname :: "int + (u32 \<times> nat)"
  sys_send :: "packet \<Rightarrow> int option"
  sys_recv :: "(int + packet) list"
  sys_time :: u32

record nl_trace =
  sent :: "packet list"
  closed :: "int list"
  messages :: "errormsg list"

definition nl_trace0 :: nl_trace where "nl_trace0 = \<lparr>sent = [], closed = [], messages = []\<rparr>"

definition SIZEOF_SOCKADDR_NL :: nat where "SIZEOF_SOCKADDR_NL = 12"

definition RTM_GETLINK :: u16 where "RTM_GETLINK = 18"
definition RTM_SETLINK :: u16 where "RTM_SETLINK = 19"
definition RTM_GETQDISC :: u16 where "RTM_GETQDISC = 38"
definition RTM_GETTCLASS :: u16 where "RTM_GETTCLASS = 42"
definition RTM_GETTFILTER :: u16 where "RTM_GETTFILTER = 46"

definition IFLA_XDP :: u16 where "IFLA_XDP = 43"
definition IFLA_MAX :: int where "IFLA_MAX = 54"

definition IFLA_XDP_FD :: u16 where "IFLA_XDP_FD = 1"
definition IFLA_XDP_ATTACHED :: u16 where "IFLA_XDP_ATTACHED = 2"
definition IFLA_XDP_FLAGS :: u16 where "IFLA_XDP_FLAGS = 3"
definition IFLA_XDP_PROG_ID :: u16 where "IFLA_XDP_PROG_ID = 4"
definition IFLA_XDP_DRV_PROG_ID :: u16 where "IFLA_XDP_DRV_PROG_ID = 5"
definition IFLA_XDP_SKB_PROG_ID :: u16 where "IFLA_XDP_SKB_PROG_ID = 6"
definition IFLA_XDP_HW_PROG_ID :: u16 where "IFLA_XDP_HW_PROG_ID = 7"
definition IFLA_XDP_MAX :: int where "IFLA_XDP_MAX = 7"

definition XDP_ATTACHED_NONE :: u8 where "XDP_ATTACHED_NONE = 0"
definition XDP_ATTACHED_MULTI :: u8 where "XDP_ATTACHED_MULTI = 4"

record xdp_link_info =
  prog_id :: u32
  drv_prog_id :: u32
  hw_prog_id :: u32
  skb_prog_id :: u32
  attach_mode :: u8

record xdp_id_md =
  md_ifindex :: i32
  md_flags :: u32
  md_info :: xdp_link_info

section \<open>The socket\<close>

text \<open>The descriptor and the port, or an error; the descriptors that were closed.\<close>

definition libbpf_netlink_open :: "nl_sys \<Rightarrow> (int + (int \<times> u32)) \<times> int list" where
  "libbpf_netlink_open sys =
     (case sys_socket sys of
        Inl e \<Rightarrow> (Inl (- e), [])
      | Inr sock \<Rightarrow>
          (case sys_bind sys of
             Some e \<Rightarrow> (Inl (- e), [sock])
           | None \<Rightarrow>
               (case sys_getsockname sys of
                  Inl e \<Rightarrow> (Inl (- e), [sock])
                | Inr (nl_pid, addrlen) \<Rightarrow>
                    if addrlen \<noteq> SIZEOF_SOCKADDR_NL then (Inl (- LIBBPF_ERRNO__INTERNAL), [sock])
                    else (Inr (sock, nl_pid), []))))"

section \<open>Receiving\<close>

text \<open>
  The messages of one datagram.  \<open>Inl\<close> is a return from the function, \<open>Inr\<close> the end of the
  datagram with the new value of \<open>multipart\<close>.
\<close>

lemma NLMSG_ALIGN_eq: "NLMSG_ALIGN len = (len + 3) div 4 * 4"
  unfolding NLMSG_ALIGN_def using and_not_3 [of "len + 3"] by (simp add: add.commute)

function nlmsg_loop ::
    "packet \<Rightarrow> u32 \<Rightarrow> u32 \<Rightarrow> (packet \<Rightarrow> nat \<Rightarrow> 'c \<Rightarrow> int \<times> 'c) option \<Rightarrow> nat \<Rightarrow> int \<Rightarrow> bool \<Rightarrow> 'c \<Rightarrow> errormsg list \<Rightarrow>
     (int \<times> 'c \<times> errormsg list) + (bool \<times> 'c \<times> errormsg list)" where
  "nlmsg_loop buf nl_pid seq fn nh len multipart c out =
     (if \<not> NLMSG_OK buf nh len then Inr (multipart, c, out)
      else if nlmsg_pid_at buf nh \<noteq> nl_pid then Inl (- LIBBPF_ERRNO__WRNGPID, c, out)
      else if nlmsg_seq_at buf nh \<noteq> seq then Inl (- LIBBPF_ERRNO__INVSEQ, c, out)
      else
        (let multipart = (multipart \<or> nlmsg_flags_at buf nh AND NLM_F_MULTI \<noteq> 0);
             (nh', len') = NLMSG_NEXT buf nh len
         in if nlmsg_type_at buf nh = NLMSG_ERROR then
              (let error = sint (load32 buf (NLMSG_DATA nh))
               in if error = 0 then nlmsg_loop buf nl_pid seq fn nh' len' multipart c out
                  else Inl (error, c, out @ [snd (libbpf_nla_dump_errormsg buf nh)]))
            else if nlmsg_type_at buf nh = NLMSG_DONE then Inl (0, c, out)
            else
              (case fn of
                 None \<Rightarrow> nlmsg_loop buf nl_pid seq fn nh' len' multipart c out
               | Some f \<Rightarrow>
                   (let (ret, c) = f buf nh c
                    in if ret \<noteq> 0 then Inl (ret, c, out)
                       else nlmsg_loop buf nl_pid seq fn nh' len' multipart c out))))"
  by pat_completeness auto
termination
  by (relation "measure (\<lambda>(_, _, _, _, _, len, _, _, _). nat len)")
    (auto simp: NLMSG_NEXT_def NLMSG_OK_def NLMSG_ALIGN_eq Let_def)

declare nlmsg_loop.simps [simp del]

fun bpf_netlink_recv ::
    "(int + packet) list \<Rightarrow> u32 \<Rightarrow> u32 \<Rightarrow> (packet \<Rightarrow> nat \<Rightarrow> 'c \<Rightarrow> int \<times> 'c) option \<Rightarrow> 'c \<Rightarrow> errormsg list \<Rightarrow>
     (int \<times> 'c \<times> errormsg list) option" where
  "bpf_netlink_recv [] nl_pid seq fn c out = None"
| "bpf_netlink_recv (Inl e # ds) nl_pid seq fn c out = Some (- e, c, out)"
| "bpf_netlink_recv (Inr d # ds) nl_pid seq fn c out =
     (let buf = take 4096 d
      in if buf = [] then Some (0, c, out)
         else case nlmsg_loop buf nl_pid seq fn 0 (int (length buf)) False c out of
                Inl r \<Rightarrow> Some r
              | Inr (multipart, c, out) \<Rightarrow>
                  if multipart then bpf_netlink_recv ds nl_pid seq fn c out else Some (0, c, out))"

section \<open>Attaching\<close>

definition put32 :: "packet \<Rightarrow> nat \<Rightarrow> u32 \<Rightarrow> packet" where "put32 b off v = mem_write b off (le32 v)"
definition put16 :: "packet \<Rightarrow> nat \<Rightarrow> u16 \<Rightarrow> packet" where "put16 b off v = mem_write b off (le16 v)"

text \<open>
  The request: a zeroed buffer of 96 bytes with the message header at 0, \<open>struct ifinfomsg\<close> at 16
  (its interface index at 20) and the attributes from 32.
\<close>

definition xdp_request :: "i32 \<Rightarrow> i32 \<Rightarrow> u32 \<Rightarrow> packet" where
  "xdp_request ifi fd flags =
     (let req = replicate 96 0;
          nlmsg_len = NLMSG_LENGTH 16;
          req = put32 req 0 (of_nat nlmsg_len);
          req = put16 req 6 (NLM_F_REQUEST OR NLM_F_ACK);
          req = put16 req 4 RTM_SETLINK;
          req = put32 req 12 0;
          req = put32 req 8 1;
          req = mem_write req 16 [0];
          req = put32 req 20 ifi;
          nla = nat (NLMSG_ALIGN (int nlmsg_len));
          req = put16 req (nla + 2) (NLA_F_NESTED OR IFLA_XDP);
          nla_len = NLA_HDRLEN;
          nla_xdp = nla + nla_len;
          req = put16 req (nla_xdp + 2) IFLA_XDP_FD;
          req = put16 req nla_xdp (of_nat (NLA_HDRLEN + 4));
          req = put32 req (nla_xdp + NLA_HDRLEN) fd;
          nla_len = nla_len + (NLA_HDRLEN + 4);
          (req, nla_len) =
            (if flags \<noteq> 0 then
               (let nla_xdp = nla + nla_len;
                    req = put16 req (nla_xdp + 2) IFLA_XDP_FLAGS;
                    req = put16 req nla_xdp (of_nat (NLA_HDRLEN + 4));
                    req = put32 req (nla_xdp + NLA_HDRLEN) flags
                in (req, nla_len + (NLA_HDRLEN + 4)))
             else (req, nla_len));
          req = put16 req nla (of_nat nla_len);
          nlmsg_len = nlmsg_len + nat (NLA_ALIGN (int nla_len));
          req = put32 req 0 (of_nat nlmsg_len)
      in take nlmsg_len req)"

definition bpf_set_link_xdp_fd :: "nl_sys \<Rightarrow> i32 \<Rightarrow> i32 \<Rightarrow> u32 \<Rightarrow> (int \<times> nl_trace) option" where
  "bpf_set_link_xdp_fd sys ifi fd flags =
     (case libbpf_netlink_open sys of
        (Inl err, cl) \<Rightarrow> Some (err, nl_trace0\<lparr>closed := cl\<rparr>)
      | (Inr (sock, nl_pid), cl) \<Rightarrow>
          (let req = xdp_request ifi fd flags
           in case sys_send sys req of
                Some e \<Rightarrow> Some (- e, \<lparr>sent = [req], closed = cl @ [sock], messages = []\<rparr>)
              | None \<Rightarrow>
                  map_option (\<lambda>(ret, _, out). (ret, \<lparr>sent = [req], closed = cl @ [sock], messages = out\<rparr>))
                    (bpf_netlink_recv (sys_recv sys) nl_pid 1 None () [])))"

section \<open>Dumps\<close>

text \<open>
  \<open>dump_nlmsg\<close> is the body that \<open>__dump_link_nlmsg\<close> and its variants for classes, queueing
  disciplines and filters share: \<open>hdr\<close> is the size of \<open>struct ifinfomsg\<close> (16) or \<open>struct tcmsg\<close>
  (20).  The callback gets the offset of that struct and the index array.
\<close>

type_synonym 'c dump_fn = "packet \<Rightarrow> nat \<Rightarrow> nat option list \<Rightarrow> 'c \<Rightarrow> int \<times> 'c"

definition dump_nlmsg :: "nat \<Rightarrow> int \<Rightarrow> 'c dump_fn \<Rightarrow> packet \<Rightarrow> nat \<Rightarrow> 'c \<Rightarrow> int \<times> 'c" where
  "dump_nlmsg hdr maxtype dump_fn buf nlh c =
     (let msg = NLMSG_DATA nlh;
          len = sint (nlmsg_len_at buf nlh - of_nat (NLMSG_LENGTH hdr));
          attr = msg + nat (NLMSG_ALIGN (int hdr));
          (err, tb, _) = libbpf_nla_parse buf maxtype attr len None
      in if err \<noteq> 0 then (- LIBBPF_ERRNO__NLPARSE, c) else dump_fn buf msg tb c)"

definition dump_link_nlmsg :: "'c dump_fn \<Rightarrow> packet \<Rightarrow> nat \<Rightarrow> 'c \<Rightarrow> int \<times> 'c" where
  "dump_link_nlmsg = dump_nlmsg 16 IFLA_MAX"

definition dump_class_nlmsg :: "int \<Rightarrow> 'c dump_fn \<Rightarrow> packet \<Rightarrow> nat \<Rightarrow> 'c \<Rightarrow> int \<times> 'c" where
  "dump_class_nlmsg tca_max = dump_nlmsg 20 tca_max"

definition dump_qdisc_nlmsg :: "int \<Rightarrow> 'c dump_fn \<Rightarrow> packet \<Rightarrow> nat \<Rightarrow> 'c \<Rightarrow> int \<times> 'c" where
  "dump_qdisc_nlmsg tca_max = dump_nlmsg 20 tca_max"

definition dump_filter_nlmsg :: "int \<Rightarrow> 'c dump_fn \<Rightarrow> packet \<Rightarrow> nat \<Rightarrow> 'c \<Rightarrow> int \<times> 'c" where
  "dump_filter_nlmsg tca_max = dump_nlmsg 20 tca_max"

text \<open>A dump request: the header (flags \<open>NLM_F_DUMP | NLM_F_REQUEST\<close>) and the family struct.\<close>

definition dump_request :: "u16 \<Rightarrow> u32 \<Rightarrow> u8 list \<Rightarrow> packet" where
  "dump_request mtype seq body =
     le32 (of_nat (NLMSG_LENGTH (length body))) @ le16 mtype @ le16 (NLM_F_DUMP OR NLM_F_REQUEST) @ le32 seq @ le32 0 @ body"

text \<open>\<open>struct ifinfomsg\<close> with \<open>AF_PACKET\<close> (17), and \<open>struct tcmsg\<close> with \<open>AF_UNSPEC\<close> (0).\<close>

definition ifinfo_body :: "u8 list" where "ifinfo_body = 17 # replicate 15 0"

definition tcmsg_body :: "i32 \<Rightarrow> u32 \<Rightarrow> u8 list" where
  "tcmsg_body ifi parent = replicate 4 0 @ le32 ifi @ le32 0 @ le32 parent @ le32 0"

definition nl_dump ::
    "nl_sys \<Rightarrow> u32 \<Rightarrow> packet \<Rightarrow> (packet \<Rightarrow> nat \<Rightarrow> 'c \<Rightarrow> int \<times> 'c) \<Rightarrow> 'c \<Rightarrow> (int \<times> 'c \<times> errormsg list) option" where
  "nl_dump sys nl_pid req fn c =
     (case sys_send sys req of
        Some e \<Rightarrow> Some (- e, c, [])
      | None \<Rightarrow> bpf_netlink_recv (sys_recv sys) nl_pid (sys_time sys) (Some fn) c [])"

definition libbpf_nl_get_link :: "nl_sys \<Rightarrow> u32 \<Rightarrow> 'c dump_fn \<Rightarrow> 'c \<Rightarrow> (int \<times> 'c \<times> errormsg list) option" where
  "libbpf_nl_get_link sys nl_pid f c =
     nl_dump sys nl_pid (dump_request RTM_GETLINK (sys_time sys) ifinfo_body) (dump_link_nlmsg f) c"

definition libbpf_nl_get_class :: "nl_sys \<Rightarrow> int \<Rightarrow> u32 \<Rightarrow> i32 \<Rightarrow> 'c dump_fn \<Rightarrow> 'c \<Rightarrow> (int \<times> 'c \<times> errormsg list) option" where
  "libbpf_nl_get_class sys tca_max nl_pid ifi f c =
     nl_dump sys nl_pid (dump_request RTM_GETTCLASS (sys_time sys) (tcmsg_body ifi 0)) (dump_class_nlmsg tca_max f) c"

definition libbpf_nl_get_qdisc :: "nl_sys \<Rightarrow> int \<Rightarrow> u32 \<Rightarrow> i32 \<Rightarrow> 'c dump_fn \<Rightarrow> 'c \<Rightarrow> (int \<times> 'c \<times> errormsg list) option" where
  "libbpf_nl_get_qdisc sys tca_max nl_pid ifi f c =
     nl_dump sys nl_pid (dump_request RTM_GETQDISC (sys_time sys) (tcmsg_body ifi 0)) (dump_qdisc_nlmsg tca_max f) c"

definition libbpf_nl_get_filter ::
    "nl_sys \<Rightarrow> int \<Rightarrow> u32 \<Rightarrow> i32 \<Rightarrow> u32 \<Rightarrow> 'c dump_fn \<Rightarrow> 'c \<Rightarrow> (int \<times> 'c \<times> errormsg list) option" where
  "libbpf_nl_get_filter sys tca_max nl_pid ifi handle f c =
     nl_dump sys nl_pid (dump_request RTM_GETTFILTER (sys_time sys) (tcmsg_body ifi handle)) (dump_filter_nlmsg tca_max f) c"

section \<open>The program of an interface\<close>

definition set_id :: "packet \<Rightarrow> nat option list \<Rightarrow> u16 \<Rightarrow> (u32 \<Rightarrow> xdp_link_info \<Rightarrow> xdp_link_info) \<Rightarrow> xdp_link_info \<Rightarrow> xdp_link_info" where
  "set_id buf tb t upd info = (case tb ! unat t of None \<Rightarrow> info | Some nla \<Rightarrow> upd (libbpf_nla_getattr_u32 buf nla) info)"

definition get_xdp_info :: "xdp_id_md dump_fn" where
  "get_xdp_info buf ifinfo tb xdp_id =
     (if md_ifindex xdp_id \<noteq> 0 \<and> md_ifindex xdp_id \<noteq> load32 buf (ifinfo + 4) then (0, xdp_id)
      else
        case tb ! unat IFLA_XDP of
          None \<Rightarrow> (0, xdp_id)
        | Some nla \<Rightarrow>
            (let (ret, xdp_tb, _) = libbpf_nla_parse_nested buf IFLA_XDP_MAX nla None
             in if ret \<noteq> 0 then (ret, xdp_id)
                else
                  case xdp_tb ! unat IFLA_XDP_ATTACHED of
                    None \<Rightarrow> (0, xdp_id)
                  | Some att \<Rightarrow>
                      (let info = (md_info xdp_id)\<lparr>attach_mode := libbpf_nla_getattr_u8 buf att\<rparr>
                       in if attach_mode info = XDP_ATTACHED_NONE then (0, xdp_id\<lparr>md_info := info\<rparr>)
                          else
                            (let info = set_id buf xdp_tb IFLA_XDP_PROG_ID (\<lambda>v i. i\<lparr>prog_id := v\<rparr>) info;
                                 info = set_id buf xdp_tb IFLA_XDP_SKB_PROG_ID (\<lambda>v i. i\<lparr>skb_prog_id := v\<rparr>) info;
                                 info = set_id buf xdp_tb IFLA_XDP_DRV_PROG_ID (\<lambda>v i. i\<lparr>drv_prog_id := v\<rparr>) info;
                                 info = set_id buf xdp_tb IFLA_XDP_HW_PROG_ID (\<lambda>v i. i\<lparr>hw_prog_id := v\<rparr>) info
                             in (0, xdp_id\<lparr>md_info := info\<rparr>)))))"

definition XDP_FLAGS_MASK :: u32 where
  "XDP_FLAGS_MASK = XDP_FLAGS_UPDATE_IF_NOEXIST OR XDP_FLAGS_MODES"

definition xdp_link_info0 :: xdp_link_info where
  "xdp_link_info0 = \<lparr>prog_id = 0, drv_prog_id = 0, hw_prog_id = 0, skb_prog_id = 0, attach_mode = 0\<rparr>"

text \<open>
  The first \<open>info_size\<close> bytes of the answer go to the caller's buffer; the struct has 20
  bytes, and a larger buffer is filled with zeros.
\<close>

definition info_bytes :: "xdp_link_info \<Rightarrow> u8 list" where
  "info_bytes i = le32 (prog_id i) @ le32 (drv_prog_id i) @ le32 (hw_prog_id i) @ le32 (skb_prog_id i) @ [attach_mode i, 0, 0, 0]"

definition link_xdp_info :: "nl_sys \<Rightarrow> i32 \<Rightarrow> nat \<Rightarrow> u32 \<Rightarrow> (int \<times> xdp_link_info \<times> nl_trace) option" where
  "link_xdp_info sys ifi info_size flags =
     (if flags AND NOT XDP_FLAGS_MASK \<noteq> 0 \<or> info_size = 0 then Some (- EINVAL, xdp_link_info0, nl_trace0)
      else
        (let flags = flags AND (XDP_FLAGS_SKB_MODE OR XDP_FLAGS_DRV_MODE OR XDP_FLAGS_HW_MODE);
             msk = flags - 1
         in if flags \<noteq> 0 \<and> flags AND msk \<noteq> 0 then Some (- EINVAL, xdp_link_info0, nl_trace0)
            else
              case libbpf_netlink_open sys of
                (Inl err, cl) \<Rightarrow> Some (err, xdp_link_info0, nl_trace0\<lparr>closed := cl\<rparr>)
              | (Inr (sock, nl_pid), cl) \<Rightarrow>
                  map_option
                    (\<lambda>(ret, xdp_id, out). (ret, md_info xdp_id,
                       \<lparr>sent = [dump_request RTM_GETLINK (sys_time sys) ifinfo_body], closed = cl @ [sock], messages = out\<rparr>))
                    (libbpf_nl_get_link sys nl_pid get_xdp_info
                       \<lparr>md_ifindex = ifi, md_flags = flags, md_info = xdp_link_info0\<rparr>)))"

definition bpf_get_link_xdp_info :: "nl_sys \<Rightarrow> i32 \<Rightarrow> u8 list \<Rightarrow> u32 \<Rightarrow> (int \<times> u8 list \<times> nl_trace) option" where
  "bpf_get_link_xdp_info sys ifi info flags =
     map_option
       (\<lambda>(ret, i, tr).
          (ret, if ret = 0 then (let n = min (length info) (length (info_bytes i)) in take n (info_bytes i) @ replicate (length info - n) 0)
                else info, tr))
       (link_xdp_info sys ifi (length info) flags)"

definition get_xdp_id :: "xdp_link_info \<Rightarrow> u32 \<Rightarrow> u32" where
  "get_xdp_id info flags =
     (if attach_mode info \<noteq> XDP_ATTACHED_MULTI then prog_id info
      else if flags AND XDP_FLAGS_DRV_MODE \<noteq> 0 then drv_prog_id info
      else if flags AND XDP_FLAGS_HW_MODE \<noteq> 0 then hw_prog_id info
      else if flags AND XDP_FLAGS_SKB_MODE \<noteq> 0 then skb_prog_id info
      else 0)"

text \<open>The struct is read back from the buffer of its own size.\<close>

definition info_of_bytes :: "u8 list \<Rightarrow> xdp_link_info" where
  "info_of_bytes b =
     \<lparr>prog_id = load32 b 0, drv_prog_id = load32 b 4, hw_prog_id = load32 b 8, skb_prog_id = load32 b 12, attach_mode = b ! 16\<rparr>"

definition bpf_get_link_xdp_id :: "nl_sys \<Rightarrow> i32 \<Rightarrow> u32 \<Rightarrow> u32 \<Rightarrow> (int \<times> u32 \<times> nl_trace) option" where
  "bpf_get_link_xdp_id sys ifi progid flags =
     map_option (\<lambda>(ret, info, tr). (ret, if ret = 0 then get_xdp_id (info_of_bytes info) flags else progid, tr))
       (bpf_get_link_xdp_info sys ifi (replicate 20 0) flags)"

section \<open>The request\<close>

text \<open>The attributes of a request, and the message as a whole.\<close>

definition xdp_attrs :: "i32 \<Rightarrow> u32 \<Rightarrow> (u16 \<times> u8 list) list" where
  "xdp_attrs fd flags = (IFLA_XDP_FD, le32 fd) # (if flags \<noteq> 0 then [(IFLA_XDP_FLAGS, le32 flags)] else [])"

definition xdp_nested :: "i32 \<Rightarrow> u32 \<Rightarrow> u16 \<times> u8 list" where
  "xdp_nested fd flags = (NLA_F_NESTED OR IFLA_XDP, concat (map nla_bytes (xdp_attrs fd flags)))"

definition setlink_header :: "i32 \<Rightarrow> nat \<Rightarrow> u8 list" where
  "setlink_header ifi len =
     le32 (of_nat len) @ le16 RTM_SETLINK @ le16 (NLM_F_REQUEST OR NLM_F_ACK) @ le32 1 @ le32 0 @
     le32 0 @ le32 ifi @ le32 0 @ le32 0"

lemma length_setlink_header [simp]: "length (setlink_header ifi len) = 32"
  by (simp add: setlink_header_def)

lemma le_0: "le16 0 = [0, 0]" "le32 0 = [0, 0, 0, 0]"
  by (simp_all add: le16_def le32_def)

lemma mem_write_0: "mem_write xs 0 bs = bs @ drop (length bs) xs"
  by (simp add: mem_write_def)

lemma mem_write_Cons: "mem_write (x # xs) (numeral k) bs = x # mem_write xs (pred_numeral k) bs"
  by (simp add: mem_write_def numeral_eq_Suc)

lemma mem_write_Cons_1: "mem_write (x # xs) (Suc n) bs = x # mem_write xs n bs"
  by (simp add: mem_write_def)

lemma mem_write_past: "length xs \<le> off \<Longrightarrow> mem_write (xs @ ys) off bs = xs @ mem_write ys (off - length xs) bs"
  by (simp add: mem_write_def)

lemma replicate_Cons: "replicate (numeral k) x = x # replicate (pred_numeral k) x"
  by (simp add: numeral_eq_Suc)

lemma align_values: "NLA_ALIGN 12 = 12" "NLA_ALIGN 20 = 20" "NLMSG_ALIGN 32 = 32"
  by (simp_all add: NLA_ALIGN_eq NLMSG_ALIGN_eq)

lemmas write_simps = mem_write_0 mem_write_Cons mem_write_Cons_1 mem_write_past replicate_Cons align_values

lemma request_eq:
  "xdp_request ifi fd flags =
     setlink_header ifi (if flags = 0 then 44 else 52) @ nla_bytes (xdp_nested fd flags)"
  by (simp add: xdp_request_def setlink_header_def nla_bytes_def xdp_nested_def xdp_attrs_def padding_def
      put16_def put32_def NLMSG_LENGTH_def NLMSG_HDRLEN_def NLA_HDRLEN_def write_simps le_0 Let_def)
section \<open>Attributes that were found\<close>

text \<open>A successful parse of a stream inside the buffer, and an attribute of its index array.\<close>

definition found :: "packet \<Rightarrow> nat option list \<Rightarrow> nat \<Rightarrow> u8 list \<Rightarrow> nat \<Rightarrow> bool" where
  "found buf tb t payload p \<longleftrightarrow> tb ! t = Some p \<and> bytes_at buf (p + 4) payload \<and> libbpf_nla_len buf p = int (length payload)"

lemma parse_found:
  assumes "libbpf_nla_parse buf maxtype head len None = (0, tb, w)" "int head + len \<le> int (length buf)"
    and "0 \<le> t" "t \<le> maxtype" "map_option (attr_at buf) (tb ! nat t) = Some a"
  shows "\<exists>p. found buf tb (nat t) (snd a) p"
proof -
  obtain p where p: "tb ! nat t = Some p" "attr_at buf p = a" using assms(5) by auto
  have "tb_inside buf maxtype None head len (replicate (nat (maxtype + 1)) None)" by (auto simp: tb_inside_def)
  from parse_loop_inside [OF this, of head len "[]"] have "tb_inside buf maxtype None head len tb"
    using assms(1) by (simp add: libbpf_nla_parse_def)
  then have i: "NLA_HDRLEN \<le> nla_len buf p" "int (p + nla_len buf p) \<le> int head + len"
    using p(1) assms(3,4) by (auto simp: tb_inside_def attr_inside_def)
  then have "p + nla_len buf p \<le> length buf" using assms(2) by linarith
  then have "length (snd a) = nla_len buf p - 4" "bytes_at buf (p + 4) (snd a)"
    using p(2) i(1) by (auto simp: attr_at_def mem_read_def bytes_at_def NLA_HDRLEN_def)
  then show ?thesis using p(1) i(1) by (auto simp: found_def libbpf_nla_len_def NLA_HDRLEN_def)
qed

lemma found_u32: "found buf tb t (le32 v) p \<Longrightarrow> libbpf_nla_getattr_u32 buf p = v"
  using load32_at [of buf "p + 4" v] by (simp add: found_def libbpf_nla_getattr_u32_def libbpf_nla_data_def NLA_HDRLEN_def)

lemma found_u8: "found buf tb t [v] p \<Longrightarrow> libbpf_nla_getattr_u8 buf p = v"
  using bytes_at_nth [of buf "p + 4" "[v]" 0] by (simp add: found_def libbpf_nla_getattr_u8_def libbpf_nla_data_def NLA_HDRLEN_def)

text \<open>Parsing the attributes nested in an attribute that was found.\<close>

lemma nested_whole:
  assumes "found buf tb t (concat (map nla_bytes inner)) p" "\<forall>a\<in>set inner. attr_small a"
    and "length (concat (map nla_bytes inner)) < 2 ^ 31"
  shows "\<exists>xtb w. libbpf_nla_parse_nested buf maxtype p None = (0, xtb, w) \<and>
    (\<forall>t. 0 \<le> t \<and> t \<le> maxtype \<longrightarrow>
      (case find (\<lambda>a. attr_type a = t) (rev inner) of None \<Rightarrow> xtb ! nat t = None | Some a \<Rightarrow> \<exists>q. found buf xtb (nat t) (snd a) q))"
proof -
  have b: "bytes_at buf (p + 4) (concat (map nla_bytes inner))" using assms(1) by (simp add: found_def)
  obtain xtb w where 1: "libbpf_nla_parse buf maxtype (p + 4) (int (length (concat (map nla_bytes inner)))) None = (0, xtb, w)"
    and 2: "\<forall>t. 0 \<le> t \<and> t \<le> maxtype \<longrightarrow> map_option (attr_at buf) (xtb ! nat t) = find (\<lambda>a. attr_type a = t) (rev inner)"
    using parse_whole [OF b assms(2,3), of maxtype] by blast
  have "int (p + 4) + int (length (concat (map nla_bytes inner))) \<le> int (length buf)"
    using b unfolding bytes_at_def by linarith
  note pf = parse_found [OF 1 this]
  have "libbpf_nla_parse_nested buf maxtype p None = (0, xtb, w)"
    using 1 assms(1) unfolding libbpf_nla_parse_nested_def found_def libbpf_nla_data_def NLA_HDRLEN_def by metis
  moreover have "case find (\<lambda>a. attr_type a = t) (rev inner) of None \<Rightarrow> xtb ! nat t = None | Some a \<Rightarrow> \<exists>q. found buf xtb (nat t) (snd a) q"
    if "0 \<le> t" "t \<le> maxtype" for t
    using that 2 pf [OF that] by (auto split: option.splits)
  ultimately show ?thesis by blast
qed

lemma attr_types:
  "attr_type (IFLA_XDP_FD, p) = 1" "attr_type (IFLA_XDP_FLAGS, p) = 3" "attr_type (NLA_F_NESTED OR IFLA_XDP, p) = 43"
  "attr_type (IFLA_XDP, p) = 43" "attr_type (IFLA_XDP_ATTACHED, p) = 2" "attr_type (IFLA_XDP_PROG_ID, p) = 4"
  "attr_type (IFLA_XDP_DRV_PROG_ID, p) = 5" "attr_type (IFLA_XDP_SKB_PROG_ID, p) = 6" "attr_type (IFLA_XDP_HW_PROG_ID, p) = 7"
  by (simp_all add: attr_type_def IFLA_XDP_FD_def IFLA_XDP_FLAGS_def IFLA_XDP_def IFLA_XDP_ATTACHED_def IFLA_XDP_PROG_ID_def
      IFLA_XDP_DRV_PROG_ID_def IFLA_XDP_SKB_PROG_ID_def IFLA_XDP_HW_PROG_ID_def
      NLA_TYPE_MASK_def NLA_F_NESTED_def NLA_F_NET_BYTEORDER_def push_bit_eq_mult)

lemma request_parsed:
  fixes ifi fd flags
  defines "req \<equiv> xdp_request ifi fd flags"
  shows "unat (nlmsg_len_at req 0) = length req \<and> nlmsg_type_at req 0 = RTM_SETLINK \<and> nlmsg_seq_at req 0 = 1 \<and>
    load32 req 20 = ifi \<and>
    (\<exists>tb w p xtb xw. libbpf_nla_parse req IFLA_MAX 32 (int (length req) - 32) None = (0, tb, w) \<and>
       tb ! unat IFLA_XDP = Some p \<and> libbpf_nla_parse_nested req IFLA_XDP_MAX p None = (0, xtb, xw) \<and>
       map_option (libbpf_nla_getattr_u32 req) (xtb ! unat IFLA_XDP_FD) = Some fd \<and>
       map_option (libbpf_nla_getattr_u32 req) (xtb ! unat IFLA_XDP_FLAGS) = (if flags = 0 then None else Some flags))"
proof -
  let ?n = "if flags = 0 then 44 else 52 :: nat"
  have req: "req = setlink_header ifi ?n @ nla_bytes (xdp_nested fd flags)" by (simp add: req_def request_eq)
  have len: "length (nla_bytes (xdp_nested fd flags)) = ?n - 32"
    by (simp add: nla_bytes_def xdp_nested_def xdp_attrs_def padding_def)
  have b: "bytes_at req 0 (setlink_header ifi ?n)" "bytes_at req 32 (concat (map nla_bytes [xdp_nested fd flags]))"
    using bytes_at_self [of req] unfolding req by (simp_all add: bytes_at_append)
  have h: "bytes_at req 0 (le32 (of_nat ?n))" "bytes_at req 4 (le16 RTM_SETLINK)" "bytes_at req 8 (le32 1)" "bytes_at req 20 (le32 ifi)"
    using b(1) by (simp_all add: setlink_header_def bytes_at_append)
  have small: "attr_small (xdp_nested fd flags)" "\<forall>a\<in>set (xdp_attrs fd flags). attr_small a"
    by (simp_all add: attr_small_def xdp_nested_def xdp_attrs_def nla_bytes_def padding_def)
  have L: "int (length req) - 32 = int (length (concat (map nla_bytes [xdp_nested fd flags])))"
    "length (concat (map nla_bytes [xdp_nested fd flags])) < 2 ^ 31"
    "length (concat (map nla_bytes (xdp_attrs fd flags))) < 2 ^ 31"
    using len by (simp_all add: req xdp_attrs_def length_nla_bytes padding_def)
  obtain tb w where p1: "libbpf_nla_parse req IFLA_MAX 32 (int (length req) - 32) None = (0, tb, w)"
    and p2: "\<forall>t. 0 \<le> t \<and> t \<le> IFLA_MAX \<longrightarrow> map_option (attr_at req) (tb ! nat t) = find (\<lambda>a. attr_type a = t) (rev [xdp_nested fd flags])"
    using parse_whole [OF b(2) _ L(2), of IFLA_MAX] small(1) unfolding L(1) by auto
  have "map_option (attr_at req) (tb ! nat 43) = Some (xdp_nested fd flags)"
    using spec [OF p2, of 43] by (simp add: IFLA_MAX_def attr_types xdp_nested_def)
  from parse_found [OF p1 _ _ _ this] obtain p where p: "found req tb 43 (concat (map nla_bytes (xdp_attrs fd flags))) p"
    by (auto simp: IFLA_MAX_def xdp_nested_def)
  obtain xtb xw where x1: "libbpf_nla_parse_nested req IFLA_XDP_MAX p None = (0, xtb, xw)"
    and x2: "\<forall>t. 0 \<le> t \<and> t \<le> IFLA_XDP_MAX \<longrightarrow> (case find (\<lambda>a. attr_type a = t) (rev (xdp_attrs fd flags)) of
        None \<Rightarrow> xtb ! nat t = None | Some a \<Rightarrow> \<exists>q. found req xtb (nat t) (snd a) q)"
    using nested_whole [OF p small(2) L(3), of IFLA_XDP_MAX] by blast
  have f: "find (\<lambda>a. attr_type a = 1) (rev (xdp_attrs fd flags)) = Some (IFLA_XDP_FD, le32 fd)"
    "find (\<lambda>a. attr_type a = 3) (rev (xdp_attrs fd flags)) = (if flags = 0 then None else Some (IFLA_XDP_FLAGS, le32 flags))"
    by (simp_all add: xdp_attrs_def attr_types)
  obtain q1 where q1: "found req xtb 1 (le32 fd) q1"
    using spec [OF x2, of 1] by (auto simp: IFLA_XDP_MAX_def f)
  have "map_option (libbpf_nla_getattr_u32 req) (xtb ! 3) = (if flags = 0 then None else Some flags)"
    using spec [OF x2, of 3] found_u32 [of req xtb 3 flags]
    by (auto simp: IFLA_XDP_MAX_def f found_def split: if_splits)
  then show ?thesis
    using p1 p x1 found_u32 [OF q1] q1 load32_at [OF h(1)] load16_at [OF h(2)] load32_at [OF h(3)] load32_at [OF h(4)] len
    by (auto simp: nlmsg_len_at_def nlmsg_type_at_def nlmsg_seq_at_def found_def req
        IFLA_XDP_def IFLA_XDP_FD_def IFLA_XDP_FLAGS_def)
qed

text \<open>
  C20: the attach request says what was asked.  The message that \<open>bpf_set_link_xdp_fd\<close> builds
  declares its own length, is a \<open>RTM_SETLINK\<close> request for the interface with sequence number 1,
  and its attributes parse, without error, to a nested \<open>IFLA_XDP\<close> attribute that holds the
  program's descriptor, and the flags exactly when they are not 0.
\<close>

theorem xdp_request_parses:
  fixes ifi fd flags
  defines "req \<equiv> xdp_request ifi fd flags"
  shows "unat (nlmsg_len_at req 0) = length req \<and> nlmsg_type_at req 0 = RTM_SETLINK \<and> nlmsg_seq_at req 0 = 1 \<and>
    load32 req 20 = ifi \<and>
    (\<exists>tb w p xtb xw. libbpf_nla_parse req IFLA_MAX 32 (int (length req) - 32) None = (0, tb, w) \<and>
       tb ! unat IFLA_XDP = Some p \<and> libbpf_nla_parse_nested req IFLA_XDP_MAX p None = (0, xtb, xw) \<and>
       map_option (libbpf_nla_getattr_u32 req) (xtb ! unat IFLA_XDP_FD) = Some fd \<and>
       map_option (libbpf_nla_getattr_u32 req) (xtb ! unat IFLA_XDP_FLAGS) = (if flags = 0 then None else Some flags))"
  unfolding req_def by (rule request_parsed)

section \<open>Answers\<close>

lemma open_ok:
  assumes "sys_socket sys = Inr sock" "sys_bind sys = None" "sys_getsockname sys = Inr (nl_pid, SIZEOF_SOCKADDR_NL)"
  shows "libbpf_netlink_open sys = (Inr (sock, nl_pid), [])"
  using assms by (simp add: libbpf_netlink_open_def)

lemma open_closes:
  "libbpf_netlink_open sys = (r, cl) \<Longrightarrow>
     (case r of Inl _ \<Rightarrow> cl = (case sys_socket sys of Inl _ \<Rightarrow> [] | Inr s \<Rightarrow> [s])
      | Inr (sock, _) \<Rightarrow> cl = [] \<and> sys_socket sys = Inr sock)"
  by (auto simp: libbpf_netlink_open_def split: sum.splits option.splits prod.splits if_splits)

lemma NLMSG_short: "len < 16 \<Longrightarrow> \<not> NLMSG_OK buf nh len"
  by (simp add: NLMSG_OK_def)

text \<open>One turn of the message loop.\<close>

lemma nlmsg_loop_end: "\<not> NLMSG_OK buf nh len \<Longrightarrow> nlmsg_loop buf nl_pid seq fn nh len multipart c out = Inr (multipart, c, out)"
  by (simp add: nlmsg_loop.simps)

lemma nlmsg_loop_error:
  assumes "NLMSG_OK buf nh len" "nlmsg_pid_at buf nh = nl_pid" "nlmsg_seq_at buf nh = seq"
    "nlmsg_type_at buf nh = NLMSG_ERROR" "NLMSG_NEXT buf nh len = (nh', len')"
  shows "nlmsg_loop buf nl_pid seq fn nh len multipart c out =
    (if load32 buf (NLMSG_DATA nh) = 0
     then nlmsg_loop buf nl_pid seq fn nh' len' (multipart \<or> nlmsg_flags_at buf nh AND NLM_F_MULTI \<noteq> 0) c out
     else Inl (sint (load32 buf (NLMSG_DATA nh)), c, out @ [snd (libbpf_nla_dump_errormsg buf nh)]))"
  using assms by (subst nlmsg_loop.simps) (auto simp: Let_def signed_eq_0_iff)

lemma nlmsg_loop_done:
  assumes "NLMSG_OK buf nh len" "nlmsg_pid_at buf nh = nl_pid" "nlmsg_seq_at buf nh = seq" "nlmsg_type_at buf nh = NLMSG_DONE"
  shows "nlmsg_loop buf nl_pid seq fn nh len multipart c out = Inl (0, c, out)"
  using assms by (subst nlmsg_loop.simps) (simp add: Let_def NLMSG_DONE_def NLMSG_ERROR_def split: prod.splits)

lemma nlmsg_loop_data:
  assumes "NLMSG_OK buf nh len" "nlmsg_pid_at buf nh = nl_pid" "nlmsg_seq_at buf nh = seq"
    "nlmsg_type_at buf nh \<noteq> NLMSG_ERROR" "nlmsg_type_at buf nh \<noteq> NLMSG_DONE" "NLMSG_NEXT buf nh len = (nh', len')" "f buf nh c = (0, c')"
  shows "nlmsg_loop buf nl_pid seq (Some f) nh len multipart c out =
    nlmsg_loop buf nl_pid seq (Some f) nh' len' (multipart \<or> nlmsg_flags_at buf nh AND NLM_F_MULTI \<noteq> 0) c' out"
  using assms by (subst nlmsg_loop.simps) (simp add: Let_def)

text \<open>
  the socket is always closed again.  Whatever the kernel answers, when
  \<open>bpf_set_link_xdp_fd\<close> returns, the descriptor that it opened (if it did) is closed exactly
  once, and at most one request was sent, the one for its arguments.
\<close>

theorem set_link_closes_socket:
  assumes "bpf_set_link_xdp_fd sys ifi fd flags = Some (ret, tr)"
  shows "closed tr = (case sys_socket sys of Inl _ \<Rightarrow> [] | Inr sock \<Rightarrow> [sock]) \<and> sent tr \<in> {[], [xdp_request ifi fd flags]}"
proof -
  obtain r cl where o: "libbpf_netlink_open sys = (r, cl)" by force
  show ?thesis
  proof (cases r)
    case (Inl e)
    then show ?thesis using assms o open_closes [OF o] by (auto simp: bpf_set_link_xdp_fd_def nl_trace0_def)
  next
    case (Inr sp)
    then show ?thesis using assms o open_closes [OF o]
      by (cases sp) (auto simp: bpf_set_link_xdp_fd_def Let_def split: option.splits)
  qed
qed

definition ack_bytes :: "u32 \<Rightarrow> u32 \<Rightarrow> u8 list" where
  "ack_bytes nl_pid error = le32 36 @ le16 NLMSG_ERROR @ le16 0 @ le32 1 @ le32 nl_pid @ le32 error @ replicate 16 0"

definition sample_sys :: nl_sys where
  "sample_sys = \<lparr>sys_socket = Inr 5, sys_bind = None, sys_getsockname = Inr (7, 12), sys_send = (\<lambda>_. None),
     sys_recv = [Inr (ack_bytes 7 (- 17))], sys_time = 3\<rparr>"

lemma ack_fields:
  assumes "bytes_at buf nh (ack_bytes nl_pid error)"
  shows "nlmsg_len_at buf nh = 36" "nlmsg_type_at buf nh = NLMSG_ERROR" "nlmsg_flags_at buf nh = 0"
    "nlmsg_seq_at buf nh = 1" "nlmsg_pid_at buf nh = nl_pid" "load32 buf (NLMSG_DATA nh) = error"
proof -
  have b: "bytes_at buf nh (le32 36)" "bytes_at buf (nh + 4) (le16 NLMSG_ERROR)" "bytes_at buf (nh + 6) (le16 0)"
    "bytes_at buf (nh + 8) (le32 1)" "bytes_at buf (nh + 12) (le32 nl_pid)" "bytes_at buf (nh + 16) (le32 error)"
    using assms by (simp_all add: ack_bytes_def bytes_at_append add.commute)
  show "nlmsg_len_at buf nh = 36" "nlmsg_type_at buf nh = NLMSG_ERROR" "nlmsg_flags_at buf nh = 0"
    "nlmsg_seq_at buf nh = 1" "nlmsg_pid_at buf nh = nl_pid" "load32 buf (NLMSG_DATA nh) = error"
    using load32_at [OF b(1)] load16_at [OF b(2)] load16_at [OF b(3)] load32_at [OF b(4)] load32_at [OF b(5)] load32_at [OF b(6)]
    by (simp_all add: nlmsg_len_at_def nlmsg_type_at_def nlmsg_flags_at_def nlmsg_seq_at_def nlmsg_pid_at_def
        NLMSG_DATA_def NLMSG_LENGTH_def NLMSG_HDRLEN_def)
qed

text \<open>The socket of a call: it opens and takes the request, or the call fails before the kernel sees it.\<close>

definition takes :: "nl_sys \<Rightarrow> packet \<Rightarrow> int \<Rightarrow> u32 \<Rightarrow> bool" where
  "takes sys req sock nl_pid \<longleftrightarrow>
     sys_socket sys = Inr sock \<and> sys_bind sys = None \<and> sys_getsockname sys = Inr (nl_pid, SIZEOF_SOCKADDR_NL) \<and> sys_send sys req = None"

lemma takes_open: "takes sys req sock nl_pid \<Longrightarrow> libbpf_netlink_open sys = (Inr (sock, nl_pid), []) \<and> sys_send sys req = None"
  by (simp add: takes_def libbpf_netlink_open_def)

lemma set_link_ack:
  assumes "takes sys (xdp_request ifi fd flags) sock nl_pid" "sys_recv sys = Inr (ack_bytes nl_pid error) # ds"
  shows "\<exists>tr. bpf_set_link_xdp_fd sys ifi fd flags = Some (sint error, tr) \<and>
    sent tr = [xdp_request ifi fd flags] \<and> closed tr = [sock]"
proof -
  let ?b = "ack_bytes nl_pid error"
  note f = ack_fields [OF bytes_at_self [of ?b]]
  have len: "length ?b = 36" by (simp add: ack_bytes_def)
  have ok: "NLMSG_OK ?b 0 36" "NLMSG_NEXT ?b 0 36 = (36, 0)"
    by (simp_all add: NLMSG_OK_def NLMSG_NEXT_def f NLMSG_ALIGN_eq)
  have "nlmsg_loop ?b nl_pid 1 None 0 36 False () [] =
      (if error = 0 then Inr (False, (), []) else Inl (sint error, (), [snd (libbpf_nla_dump_errormsg ?b 0)]))"
    using nlmsg_loop_error [OF ok(1) f(5,4,2) ok(2), of None False "()" "[]"]
      nlmsg_loop_end [OF NLMSG_short [of 0 ?b 36], of nl_pid 1 None False "()" "[]"] f(3,6)
    by (cases "error = 0") simp_all
  then show ?thesis using assms(2) len takes_open [OF assms(1)]
    by (auto simp: bpf_set_link_xdp_fd_def Let_def)
qed

text \<open>
  The result of an attach is the kernel's.  When the socket opens, the request is sent and
  the kernel answers with an acknowledgement for this port and sequence number,
  \<open>bpf_set_link_xdp_fd\<close> sends exactly the request for its arguments, closes the socket, and
  returns the error number of the acknowledgement, 0 included.
\<close>

theorem set_link_returns_ack:
  assumes "sys_socket sys = Inr sock" "sys_bind sys = None" "sys_getsockname sys = Inr (nl_pid, SIZEOF_SOCKADDR_NL)"
    and "sys_send sys (xdp_request ifi fd flags) = None" "sys_recv sys = Inr (ack_bytes nl_pid error) # ds"
  shows "\<exists>tr. bpf_set_link_xdp_fd sys ifi fd flags = Some (sint error, tr) \<and>
    sent tr = [xdp_request ifi fd flags] \<and> closed tr = [sock]"
  by (rule set_link_ack) (use assms in \<open>simp_all add: takes_def\<close>)

theorem set_link_returns_ack_witness:
  "\<exists>tr. bpf_set_link_xdp_fd sample_sys 3 9 0 = Some (- EEXIST, tr) \<and> sent tr = [xdp_request 3 9 0] \<and> closed tr = [5]"
  using set_link_returns_ack [of sample_sys 5 7 3 9 0 "- 17" "[]"]
  by (simp add: sample_sys_def EEXIST_def SIZEOF_SOCKADDR_NL_def)

theorem set_link_closes_socket_witness:
  "\<exists>ret tr. bpf_set_link_xdp_fd (sample_sys\<lparr>sys_bind := Some 1\<rparr>) 3 9 0 = Some (ret, tr) \<and> closed tr = [5]"
proof -
  have "bpf_set_link_xdp_fd (sample_sys\<lparr>sys_bind := Some 1\<rparr>) 3 9 0 = Some (- 1, nl_trace0\<lparr>closed := [5]\<rparr>)"
    by (simp add: bpf_set_link_xdp_fd_def libbpf_netlink_open_def sample_sys_def)
  with set_link_closes_socket [OF this] show ?thesis by (auto simp: sample_sys_def)
qed

section \<open>Messages\<close>

text \<open>A netlink message whose body needs no padding, and a buffer that holds it.\<close>

definition nl_msg :: "u16 \<Rightarrow> u16 \<Rightarrow> u32 \<Rightarrow> u32 \<Rightarrow> u8 list \<Rightarrow> u8 list" where
  "nl_msg t flags seq nl_pid body =
     le32 (of_nat (16 + length body)) @ le16 t @ le16 flags @ le32 seq @ le32 nl_pid @ body"

lemma length_nl_msg [simp]: "length (nl_msg t flags seq nl_pid body) = 16 + length body"
  by (simp add: nl_msg_def)

lemma msg_fields:
  assumes "bytes_at buf nh (nl_msg t flags seq nl_pid body)"
  shows "nlmsg_len_at buf nh = of_nat (16 + length body)" "nlmsg_type_at buf nh = t" "nlmsg_flags_at buf nh = flags"
    "nlmsg_seq_at buf nh = seq" "nlmsg_pid_at buf nh = nl_pid" "bytes_at buf (nh + 16) body"
proof -
  have b: "bytes_at buf nh (le32 (of_nat (16 + length body)))" "bytes_at buf (nh + 4) (le16 t)" "bytes_at buf (nh + 6) (le16 flags)"
    "bytes_at buf (nh + 8) (le32 seq)" "bytes_at buf (nh + 12) (le32 nl_pid)" "bytes_at buf (nh + 16) body"
    using assms by (simp_all add: nl_msg_def bytes_at_append add.commute)
  show "nlmsg_len_at buf nh = of_nat (16 + length body)" "nlmsg_type_at buf nh = t" "nlmsg_flags_at buf nh = flags"
    "nlmsg_seq_at buf nh = seq" "nlmsg_pid_at buf nh = nl_pid"
    using load32_at [OF b(1)] load16_at [OF b(2)] load16_at [OF b(3)] load32_at [OF b(4)] load32_at [OF b(5)]
    by (simp_all add: nlmsg_len_at_def nlmsg_type_at_def nlmsg_flags_at_def nlmsg_seq_at_def nlmsg_pid_at_def)
  show "bytes_at buf (nh + 16) body" by (rule b(6))
qed

lemma msg_next:
  assumes "bytes_at buf nh (nl_msg t flags seq nl_pid body)" "int (16 + length body) \<le> len" "len < 2 ^ 31" "4 dvd length body"
  shows "NLMSG_OK buf nh len" "NLMSG_NEXT buf nh len = (nh + (16 + length body), len - int (16 + length body))"
proof -
  define n where "n = 16 + length body"
  have n: "int n \<le> len" "16 \<le> n" "4 dvd n" using assms(2,4) by (auto simp: n_def)
  have u: "uint (nlmsg_len_at buf nh) = int n"
    unfolding msg_fields(1) [OF assms(1)] n_def [symmetric] by (rule uint_of_nat_32) (use n assms(3) in linarith)
  obtain k where k: "n = 4 * k" using n(3) by auto
  have a: "NLMSG_ALIGN (int n) = int n" unfolding NLMSG_ALIGN_eq k by simp
  show "NLMSG_OK buf nh len" using u n by (simp add: NLMSG_OK_def)
  show "NLMSG_NEXT buf nh len = (nh + (16 + length body), len - int (16 + length body))"
    using u a by (simp add: NLMSG_NEXT_def Let_def flip: n_def)
qed

section \<open>Dumps of links\<close>

text \<open>
  The kernel's answer to a dump: \<open>RTM_NEWLINK\<close> messages, each with the index of an interface and
  any attributes, in one or more datagrams of which the last ends with \<open>NLMSG_DONE\<close>.
\<close>

type_synonym link = "i32 \<times> (u16 \<times> u8 list) list"

definition link_msg :: "u32 \<Rightarrow> u32 \<Rightarrow> link \<Rightarrow> u8 list" where
  "link_msg nl_pid seq l =
     nl_msg 16 NLM_F_MULTI seq nl_pid ((le32 0 @ le32 (fst l) @ le32 0 @ le32 0) @ concat (map nla_bytes (snd l)))"

definition done_msg :: "u32 \<Rightarrow> u32 \<Rightarrow> u8 list" where
  "done_msg nl_pid seq = nl_msg NLMSG_DONE NLM_F_MULTI seq nl_pid (le32 0)"

definition dump_reply :: "u32 \<Rightarrow> u32 \<Rightarrow> link list list \<Rightarrow> link list \<Rightarrow> packet list" where
  "dump_reply nl_pid seq lss ls =
     map (\<lambda>ls. concat (map (link_msg nl_pid seq) ls)) lss @ [concat (map (link_msg nl_pid seq) ls) @ done_msg nl_pid seq]"

text \<open>
  The attributes of a link tell about its programs: the mode, and the ids; an id that is left
  out is 0.
\<close>

definition ids_shown :: "(u16 \<times> u8 list) list \<Rightarrow> xdp_link_info \<Rightarrow> bool" where
  "ids_shown xs i \<longleftrightarrow>
     map_option snd (find (\<lambda>a. attr_type a = 2) (rev xs)) = Some [attach_mode i] \<and>
     (if attach_mode i = XDP_ATTACHED_NONE then i = xdp_link_info0
      else \<forall>(t, v) \<in> {(4, prog_id i), (5, drv_prog_id i), (6, skb_prog_id i), (7, hw_prog_id i)}.
             case find (\<lambda>a. attr_type a = t) (rev xs) of None \<Rightarrow> v = 0 | Some a \<Rightarrow> snd a = le32 v)"

definition shows_info :: "(u16 \<times> u8 list) list \<Rightarrow> xdp_link_info \<Rightarrow> bool" where
  "shows_info attrs i \<longleftrightarrow>
     (\<exists>xs. map_option snd (find (\<lambda>a. attr_type a = 43) (rev attrs)) = Some (concat (map nla_bytes xs)) \<and>
       (\<forall>a\<in>set xs. attr_small a) \<and> ids_shown xs i)"

lemma set_id_shown:
  assumes "case find (\<lambda>a. attr_type a = uint t) (rev xs) of None \<Rightarrow> xtb ! nat (uint t) = None | Some a \<Rightarrow> \<exists>q. found buf xtb (nat (uint t)) (snd a) q"
    and "case find (\<lambda>a. attr_type a = uint t) (rev xs) of None \<Rightarrow> v = 0 | Some a \<Rightarrow> snd a = le32 v"
    and "v = 0 \<Longrightarrow> upd v info = info"
  shows "set_id buf xtb t upd info = upd v info"
proof (cases "find (\<lambda>a. attr_type a = uint t) (rev xs)")
  case None
  then show ?thesis using assms by (simp add: set_id_def)
next
  case (Some a)
  then obtain q where "found buf xtb (unat t) (le32 v) q" using assms(1,2) by auto
  then show ?thesis using found_u32 [of buf xtb "unat t" v q] by (simp add: set_id_def found_def)
qed

lemma get_xdp_info_reads:
  assumes "found buf tb (unat IFLA_XDP) (concat (map nla_bytes xs)) p" "\<forall>a\<in>set xs. attr_small a" "ids_shown xs i"
    and "length (concat (map nla_bytes xs)) < 2 ^ 31"
    and "md_ifindex md = load32 buf (msg + 4)" "md_info md \<in> {xdp_link_info0, i}"
  shows "get_xdp_info buf msg tb md = (0, md\<lparr>md_info := i\<rparr>)"
proof -
  obtain xtb w where x1: "libbpf_nla_parse_nested buf IFLA_XDP_MAX p None = (0, xtb, w)"
    and x2: "\<forall>t. 0 \<le> t \<and> t \<le> IFLA_XDP_MAX \<longrightarrow> (case find (\<lambda>a. attr_type a = t) (rev xs) of
        None \<Rightarrow> xtb ! nat t = None | Some a \<Rightarrow> \<exists>q. found buf xtb (nat t) (snd a) q)"
    using nested_whole [OF assms(1,2,4), of IFLA_XDP_MAX] by auto
  obtain a where a: "found buf xtb (unat IFLA_XDP_ATTACHED) [attach_mode i] a"
    using spec [OF x2, of 2] assms(3) by (auto simp: ids_shown_def IFLA_XDP_MAX_def IFLA_XDP_ATTACHED_def)
  have tb: "tb ! unat IFLA_XDP = Some p" "xtb ! unat IFLA_XDP_ATTACHED = Some a" "libbpf_nla_getattr_u8 buf a = attach_mode i"
    using assms(1) a found_u8 [OF a] by (simp_all add: found_def)
  define info where "info = (md_info md)\<lparr>attach_mode := attach_mode i\<rparr>"
  show ?thesis
  proof (cases "attach_mode i = XDP_ATTACHED_NONE")
    case True
    then have "info = i" using assms(3,6) by (auto simp: info_def ids_shown_def)
    then show ?thesis using assms(5) True
      unfolding get_xdp_info_def tb option.case x1 prod.case Let_def info_def by auto
  next
    case False
    have s: "case find (\<lambda>a. attr_type a = uint t) (rev xs) of None \<Rightarrow> xtb ! nat (uint t) = None | Some a \<Rightarrow> \<exists>q. found buf xtb (nat (uint t)) (snd a) q"
      if "t \<in> {IFLA_XDP_PROG_ID, IFLA_XDP_DRV_PROG_ID, IFLA_XDP_SKB_PROG_ID, IFLA_XDP_HW_PROG_ID}" for t
    proof -
      have "0 \<le> uint t \<and> uint t \<le> IFLA_XDP_MAX" using that
        by (auto simp: IFLA_XDP_MAX_def IFLA_XDP_PROG_ID_def IFLA_XDP_DRV_PROG_ID_def IFLA_XDP_SKB_PROG_ID_def IFLA_XDP_HW_PROG_ID_def)
      then show ?thesis using x2 by blast
    qed
    have v: "case find (\<lambda>a. attr_type a = uint t) (rev xs) of None \<Rightarrow> v = 0 | Some a \<Rightarrow> snd a = le32 v"
      if "(t, v) \<in> {(IFLA_XDP_PROG_ID, prog_id i), (IFLA_XDP_DRV_PROG_ID, drv_prog_id i), (IFLA_XDP_SKB_PROG_ID, skb_prog_id i), (IFLA_XDP_HW_PROG_ID, hw_prog_id i)}" for t v
      using that assms(3) False
      by (auto simp: ids_shown_def IFLA_XDP_PROG_ID_def IFLA_XDP_DRV_PROG_ID_def IFLA_XDP_SKB_PROG_ID_def IFLA_XDP_HW_PROG_ID_def)
    have i0: "info \<in> {xdp_link_info0\<lparr>attach_mode := attach_mode i\<rparr>, i}" using assms(6) by (auto simp: info_def)
    define i1 where "i1 = info\<lparr>prog_id := prog_id i\<rparr>"
    define i2 where "i2 = i1\<lparr>skb_prog_id := skb_prog_id i\<rparr>"
    define i3 where "i3 = i2\<lparr>drv_prog_id := drv_prog_id i\<rparr>"
    have "set_id buf xtb IFLA_XDP_PROG_ID (\<lambda>v i. i\<lparr>prog_id := v\<rparr>) info = i1"
      unfolding i1_def using i0 by (intro set_id_shown [OF s v]) (auto simp: xdp_link_info0_def)
    moreover have "set_id buf xtb IFLA_XDP_SKB_PROG_ID (\<lambda>v i. i\<lparr>skb_prog_id := v\<rparr>) i1 = i2"
      unfolding i2_def using i0 by (intro set_id_shown [OF s v]) (auto simp: xdp_link_info0_def i1_def)
    moreover have "set_id buf xtb IFLA_XDP_DRV_PROG_ID (\<lambda>v i. i\<lparr>drv_prog_id := v\<rparr>) i2 = i3"
      unfolding i3_def using i0 by (intro set_id_shown [OF s v]) (auto simp: xdp_link_info0_def i1_def i2_def)
    moreover have "set_id buf xtb IFLA_XDP_HW_PROG_ID (\<lambda>v i. i\<lparr>hw_prog_id := v\<rparr>) i3 = i3\<lparr>hw_prog_id := hw_prog_id i\<rparr>"
      using i0 by (intro set_id_shown [OF s v]) (auto simp: xdp_link_info0_def i1_def i2_def i3_def)
    moreover have "i3\<lparr>hw_prog_id := hw_prog_id i\<rparr> = i" using i0 by (auto simp: i1_def i2_def i3_def xdp_link_info0_def)
    ultimately show ?thesis using assms(5) False
      unfolding get_xdp_info_def tb option.case x1 prod.case Let_def info_def by auto
  qed
qed

text \<open>One link, seen by the query for an interface.\<close>

definition link_ok :: "i32 \<Rightarrow> xdp_link_info \<Rightarrow> link \<Rightarrow> bool" where
  "link_ok ifi i l \<longleftrightarrow> (\<forall>a\<in>set (snd l). attr_small a) \<and> (fst l = ifi \<longrightarrow> shows_info (snd l) i)"

lemma dvd_nla_bytes: "4 dvd length (concat (map nla_bytes attrs))"
proof (induction attrs)
  case (Cons a attrs)
  have "4 dvd int (length (nla_bytes a))"
    unfolding length_nla_bytes padding_align [symmetric] NLA_ALIGN_eq by simp
  then have "4 dvd length (nla_bytes a)" by presburger
  then show ?case using Cons by simp
qed simp

lemma dump_link:
  assumes "bytes_at buf nh (link_msg nl_pid seq l)" "length (link_msg nl_pid seq l) < 2 ^ 31" "link_ok ifi i l"
    and "md_ifindex md = ifi" "ifi \<noteq> 0" "md_info md \<in> {xdp_link_info0, i}"
  shows "dump_link_nlmsg get_xdp_info buf nh md = (0, if fst l = ifi then md\<lparr>md_info := i\<rparr> else md)"
proof -
  let ?n = "length (concat (map nla_bytes (snd l)))"
  note f = msg_fields [OF assms(1) [unfolded link_msg_def]]
  have n: "?n < 2 ^ 31" "int (32 + ?n) < 2 ^ 31" using assms(2) by (simp_all add: link_msg_def)
  have b: "bytes_at buf (nh + 20) (le32 (fst l))" "bytes_at buf (nh + 32) (concat (map nla_bytes (snd l)))"
    using f(6) by (simp_all add: bytes_at_append add.commute)
  have ix: "load32 buf (nh + 20) = fst l" by (rule load32_at [OF b(1)])
  have "nlmsg_len_at buf nh - of_nat (NLMSG_LENGTH 16) = of_nat ?n"
    unfolding f(1) by (simp add: NLMSG_LENGTH_def NLMSG_HDRLEN_def)
  then have len: "sint (nlmsg_len_at buf nh - of_nat (NLMSG_LENGTH 16)) = int ?n"
    using n(1) by (simp only: sint32_of_nat)
  obtain tb w where p1: "libbpf_nla_parse buf IFLA_MAX (nh + 32) (int ?n) None = (0, tb, w)"
    and p2: "\<forall>t. 0 \<le> t \<and> t \<le> IFLA_MAX \<longrightarrow> map_option (attr_at buf) (tb ! nat t) = find (\<lambda>a. attr_type a = t) (rev (snd l))"
    using parse_whole [OF b(2) _ n(1), of IFLA_MAX] assms(3) by (auto simp: link_ok_def)
  have "get_xdp_info buf (nh + 16) tb md = (0, if fst l = ifi then md\<lparr>md_info := i\<rparr> else md)"
  proof (cases "fst l = ifi")
    case False
    then show ?thesis using assms(4,5) ix by (simp add: get_xdp_info_def add.commute)
  next
    case True
    then obtain xs where xs: "map_option snd (find (\<lambda>a. attr_type a = 43) (rev (snd l))) = Some (concat (map nla_bytes xs))"
        "\<forall>a\<in>set xs. attr_small a" "ids_shown xs i"
      using assms(3) by (auto simp: link_ok_def shows_info_def)
    then obtain a where a: "map_option (attr_at buf) (tb ! nat 43) = Some a" "snd a = concat (map nla_bytes xs)"
      using spec [OF p2, of 43] by (auto simp: IFLA_MAX_def)
    have inside: "int (nh + 32) + int ?n \<le> int (length buf)" using b(2) unfolding bytes_at_def by linarith
    obtain p where p: "found buf tb 43 (concat (map nla_bytes xs)) p"
      using parse_found [OF p1 inside _ _ a(1)] a(2) by (auto simp: IFLA_MAX_def)
    have "length (concat (map nla_bytes xs)) < 2 ^ 31"
    proof -
      have "length (concat (map nla_bytes xs)) = nla_len buf p - 4" using p by (simp add: found_def libbpf_nla_len_def NLA_HDRLEN_def) linarith
      moreover have "nla_len buf p < 2 ^ 16" unfolding nla_len_def by (rule order_less_le_trans [OF unsigned_less]) simp
      ultimately show ?thesis by simp
    qed
    moreover have "unat IFLA_XDP = 43" by (simp add: IFLA_XDP_def)
    ultimately show ?thesis using get_xdp_info_reads [OF _ xs(2,3), of buf tb p md "nh + 16"] p True assms(4,6) ix
      by (simp add: add.commute)
  qed
  then show ?thesis using p1 len
    by (simp add: dump_link_nlmsg_def dump_nlmsg_def NLMSG_DATA_def NLMSG_ALIGN_eq NLMSG_LENGTH_def NLMSG_HDRLEN_def Let_def add.commute)
qed

text \<open>All links of a datagram, and what follows them.\<close>

definition any_link :: "i32 \<Rightarrow> link list \<Rightarrow> bool" where
  "any_link ifi ls \<longleftrightarrow> ifi \<in> fst ` set ls"

lemma dump_links:
  assumes "bytes_at buf nh (concat (map (link_msg nl_pid seq) ls))" "\<forall>l\<in>set ls. link_ok ifi i l"
    and "len < 2 ^ 31" "int (length (concat (map (link_msg nl_pid seq) ls))) \<le> len"
    and "md_ifindex md = ifi" "ifi \<noteq> 0" "md_info md \<in> {xdp_link_info0, i}"
  shows "nlmsg_loop buf nl_pid seq (Some (dump_link_nlmsg get_xdp_info)) nh len multi md [] =
    nlmsg_loop buf nl_pid seq (Some (dump_link_nlmsg get_xdp_info))
      (nh + length (concat (map (link_msg nl_pid seq) ls))) (len - int (length (concat (map (link_msg nl_pid seq) ls))))
      (multi \<or> ls \<noteq> []) (if any_link ifi ls then md\<lparr>md_info := i\<rparr> else md) []"
  using assms
proof (induction ls arbitrary: nh len multi md)
  case Nil
  then show ?case by (simp add: any_link_def)
next
  case (Cons l ls)
  let ?m = "link_msg nl_pid seq l"
  have b: "bytes_at buf nh ?m" "bytes_at buf (nh + length ?m) (concat (map (link_msg nl_pid seq) ls))"
    using Cons.prems(1) by (simp_all add: bytes_at_append)
  have len: "int (length ?m) \<le> len" "len - int (length ?m) < 2 ^ 31"
    "int (length (concat (map (link_msg nl_pid seq) ls))) \<le> len - int (length ?m)" "length ?m < 2 ^ 31"
    using Cons.prems(3,4) by simp_all
  have ok: "link_ok ifi i l" "\<forall>l\<in>set ls. link_ok ifi i l" using Cons.prems(2) by simp_all
  define md' where "md' = (if fst l = ifi then md\<lparr>md_info := i\<rparr> else md)"
  note f = msg_fields [OF b(1) [unfolded link_msg_def]]
  have dvd: "4 dvd length ((le32 0 @ le32 (fst l) @ le32 0 @ le32 0) @ concat (map nla_bytes (snd l)))"
    using dvd_nla_bytes [of "snd l"] by simp
  have nx: "NLMSG_OK buf nh len" "NLMSG_NEXT buf nh len = (nh + length ?m, len - int (length ?m))"
    using msg_next [OF b(1) [unfolded link_msg_def] _ Cons.prems(3) dvd] len(1) by (simp_all add: link_msg_def)
  have "dump_link_nlmsg get_xdp_info buf nh md = (0, md')"
    unfolding md'_def by (rule dump_link [OF b(1) len(4) ok(1) Cons.prems(5-7)])
  from nlmsg_loop_data [where f = "dump_link_nlmsg get_xdp_info", OF nx(1) f(5,4) _ _ nx(2) this, of multi "[]"]
  have "nlmsg_loop buf nl_pid seq (Some (dump_link_nlmsg get_xdp_info)) nh len multi md [] =
      nlmsg_loop buf nl_pid seq (Some (dump_link_nlmsg get_xdp_info)) (nh + length ?m) (len - int (length ?m)) True md' []"
    using f(2,3) by (simp add: NLMSG_ERROR_def NLMSG_DONE_def NLM_F_MULTI_def)
  moreover have "md_ifindex md' = ifi" "md_info md' \<in> {xdp_link_info0, i}" using Cons.prems(5,7) by (auto simp: md'_def)
  ultimately show ?case using Cons.IH [OF b(2) ok(2) len(2,3) _ Cons.prems(6), of md' True]
    by (auto simp: any_link_def md'_def algebra_simps)
qed

text \<open>A whole dump.\<close>

definition dump_fits :: "u32 \<Rightarrow> u32 \<Rightarrow> link list list \<Rightarrow> link list \<Rightarrow> bool" where
  "dump_fits nl_pid seq lss ls \<longleftrightarrow> [] \<notin> set lss \<and> (\<forall>d\<in>set (dump_reply nl_pid seq lss ls). length d \<le> 4096)"

lemma dump_received:
  assumes "dump_fits nl_pid seq lss ls" "\<forall>l\<in>set (concat lss @ ls). link_ok ifi i l"
    and "md_ifindex md = ifi" "ifi \<noteq> 0" "md_info md \<in> {xdp_link_info0, i}"
  shows "bpf_netlink_recv (map Inr (dump_reply nl_pid seq lss ls) @ ds) nl_pid seq (Some (dump_link_nlmsg get_xdp_info)) md [] =
    Some (0, if any_link ifi (concat lss @ ls) then md\<lparr>md_info := i\<rparr> else md, [])"
  using assms
proof (induction lss arbitrary: md)
  case Nil
  let ?c = "concat (map (link_msg nl_pid seq) ls)" and ?d = "done_msg nl_pid seq"
  have len: "length ?d = 20" "length (?c @ ?d) \<le> 4096"
    using Nil.prems(1) by (simp_all add: dump_fits_def dump_reply_def done_msg_def)
  have b: "bytes_at (?c @ ?d) 0 ?c" "bytes_at (?c @ ?d) (length ?c) ?d"
    using bytes_at_self [of "?c @ ?d"] by (simp_all add: bytes_at_append)
  note f = msg_fields [OF b(2) [unfolded done_msg_def], folded done_msg_def]
  have "NLMSG_OK (?c @ ?d) (length ?c) 20"
    using msg_next(1) [OF b(2) [unfolded done_msg_def], of 20] by (simp add: done_msg_def)
  note dn = nlmsg_loop_done [where fn = "Some (dump_link_nlmsg get_xdp_info)", OF this f(5,4,2)]
  have "nlmsg_loop (?c @ ?d) nl_pid seq (Some (dump_link_nlmsg get_xdp_info)) 0 (int (length (?c @ ?d))) False md [] =
      Inl (0, if any_link ifi ls then md\<lparr>md_info := i\<rparr> else md, [])"
    using dump_links [OF b(1) _ _ _ Nil.prems(3-5), of "int (length (?c @ ?d))" False] Nil.prems(2) len dn by simp
  moreover have "done_msg nl_pid seq \<noteq> []" using len(1) by auto
  ultimately show ?case using len by (simp add: dump_reply_def Let_def)
next
  case (Cons l1 lss)
  let ?c = "concat (map (link_msg nl_pid seq) l1)"
  have len: "length ?c \<le> 4096" and ne: "l1 \<noteq> []" and fits: "dump_fits nl_pid seq lss ls"
    using Cons.prems(1) by (auto simp: dump_fits_def dump_reply_def)
  have "?c \<noteq> []" using ne by (cases l1) (auto simp: link_msg_def nl_msg_def le32_def)
  have b: "bytes_at ?c 0 ?c" by (rule bytes_at_self)
  define md' where "md' = (if any_link ifi l1 then md\<lparr>md_info := i\<rparr> else md)"
  have "nlmsg_loop ?c nl_pid seq (Some (dump_link_nlmsg get_xdp_info)) 0 (int (length ?c)) False md [] = Inr (True, md', [])"
    using dump_links [OF b _ _ _ Cons.prems(3-5), of "int (length ?c)" False] Cons.prems(2) len ne
      nlmsg_loop_end [where fn = "Some (dump_link_nlmsg get_xdp_info)", OF NLMSG_short [of 0 ?c "length ?c"]] by (simp add: md'_def)
  moreover have "md_ifindex md' = ifi" "md_info md' \<in> {xdp_link_info0, i}" using Cons.prems(3,5) by (auto simp: md'_def)
  ultimately show ?case using Cons.IH [OF fits _ _ Cons.prems(4), of md'] Cons.prems(2) \<open>?c \<noteq> []\<close> len
    by (auto simp: dump_reply_def Let_def any_link_def md'_def)
qed

lemma info_bytes_roundtrip: "info_of_bytes (info_bytes i) = i"
proof -
  have "bytes_at (info_bytes i) 0 (info_bytes i)" by (rule bytes_at_self)
  then have b: "bytes_at (info_bytes i) 0 (le32 (prog_id i))" "bytes_at (info_bytes i) 4 (le32 (drv_prog_id i))"
    "bytes_at (info_bytes i) 8 (le32 (hw_prog_id i))" "bytes_at (info_bytes i) 12 (le32 (skb_prog_id i))"
    unfolding info_bytes_def by (simp_all add: bytes_at_append)
  have "info_bytes i ! 16 = attach_mode i" by (simp add: info_bytes_def le32_def)
  then show ?thesis
    using load32_at [OF b(1)] load32_at [OF b(2)] load32_at [OF b(3)] load32_at [OF b(4)] by (simp add: info_of_bytes_def)
qed

text \<open>The call fails before the kernel gets the request.\<close>

definition refuses :: "nl_sys \<Rightarrow> packet \<Rightarrow> bool" where
  "refuses sys req \<longleftrightarrow>
     (case sys_socket sys of
        Inl e \<Rightarrow> e > 0
      | Inr _ \<Rightarrow>
          (case sys_bind sys of
             Some e \<Rightarrow> e > 0
           | None \<Rightarrow>
               (case sys_getsockname sys of
                  Inl e \<Rightarrow> e > 0
                | Inr (_, addrlen) \<Rightarrow> addrlen \<noteq> SIZEOF_SOCKADDR_NL \<or> (\<exists>e > 0. sys_send sys req = Some e))))"

lemma refuses_open:
  "refuses sys req \<Longrightarrow>
     (\<exists>e cl. e < 0 \<and> libbpf_netlink_open sys = (Inl e, cl)) \<or>
     (\<exists>sock nl_pid cl e. libbpf_netlink_open sys = (Inr (sock, nl_pid), cl) \<and> sys_send sys req = Some e \<and> e > 0)"
  by (auto simp: refuses_def libbpf_netlink_open_def LIBBPF_ERRNO__INTERNAL_def split: sum.splits option.splits prod.splits if_splits)

lemma set_link_refused:
  assumes "refuses sys (xdp_request ifi fd flags)"
  shows "\<exists>e tr. e < 0 \<and> bpf_set_link_xdp_fd sys ifi fd flags = Some (e, tr)"
  using refuses_open [OF assms] by (auto simp: bpf_set_link_xdp_fd_def Let_def)

text \<open>The flags of a query: known bits, and at most one mode.\<close>

definition query_flags_ok :: "u32 \<Rightarrow> bool" where
  "query_flags_ok flags \<longleftrightarrow> flags AND NOT XDP_FLAGS_MASK = 0 \<and>
     (let m = flags AND XDP_FLAGS_MODES in m \<noteq> 0 \<longrightarrow> m AND m - 1 = 0)"

lemma link_xdp_info_cases:
  "link_xdp_info sys ifi 20 flags =
     (if query_flags_ok flags then
        (case libbpf_netlink_open sys of
           (Inl err, cl) \<Rightarrow> Some (err, xdp_link_info0, nl_trace0\<lparr>closed := cl\<rparr>)
         | (Inr (sock, nl_pid), cl) \<Rightarrow>
             map_option
               (\<lambda>(ret, xdp_id, out). (ret, md_info xdp_id,
                  \<lparr>sent = [dump_request RTM_GETLINK (sys_time sys) ifinfo_body], closed = cl @ [sock], messages = out\<rparr>))
               (libbpf_nl_get_link sys nl_pid get_xdp_info
                  \<lparr>md_ifindex = ifi, md_flags = flags AND XDP_FLAGS_MODES, md_info = xdp_link_info0\<rparr>))
      else Some (- EINVAL, xdp_link_info0, nl_trace0))"
  unfolding link_xdp_info_def query_flags_ok_def XDP_FLAGS_MODES_def Let_def by simp

lemma get_link_id_flags:
  assumes "\<not> query_flags_ok flags"
  shows "\<exists>tr. bpf_get_link_xdp_id sys ifi old flags = Some (- EINVAL, old, tr)"
  using assms by (simp add: bpf_get_link_xdp_id_def bpf_get_link_xdp_info_def link_xdp_info_cases EINVAL_def)

lemma get_link_id_refused:
  assumes "refuses sys (dump_request RTM_GETLINK (sys_time sys) ifinfo_body)"
  shows "\<exists>e tr. e < 0 \<and> bpf_get_link_xdp_id sys ifi old flags = Some (e, old, tr)"
  using refuses_open [OF assms]
  by (auto simp: bpf_get_link_xdp_id_def bpf_get_link_xdp_info_def link_xdp_info_cases libbpf_nl_get_link_def nl_dump_def EINVAL_def)
    (metis less_irrefl neg_less_0_iff_less)+

lemma get_link_id_dump:
  assumes "takes sys (dump_request RTM_GETLINK (sys_time sys) ifinfo_body) sock nl_pid"
    and "sys_recv sys = map Inr (dump_reply nl_pid (sys_time sys) lss ls) @ ds" "dump_fits nl_pid (sys_time sys) lss ls"
    and "\<forall>l\<in>set (concat lss @ ls). link_ok ifi i l" "ifi \<noteq> 0" "query_flags_ok flags"
  shows "\<exists>tr. bpf_get_link_xdp_id sys ifi old flags =
      Some (0, get_xdp_id (if any_link ifi (concat lss @ ls) then i else xdp_link_info0) flags, tr) \<and> closed tr = [sock]"
proof -
  let ?md = "\<lparr>md_ifindex = ifi, md_flags = flags AND XDP_FLAGS_MODES, md_info = xdp_link_info0\<rparr>"
  have "libbpf_nl_get_link sys nl_pid get_xdp_info ?md =
      Some (0, if any_link ifi (concat lss @ ls) then ?md\<lparr>md_info := i\<rparr> else ?md, [])"
    using dump_received [OF assms(3,4), of ?md] assms(2,5) takes_open [OF assms(1)]
    by (simp add: libbpf_nl_get_link_def nl_dump_def)
  moreover have "length (info_bytes j) = 20" for j by (simp add: info_bytes_def)
  ultimately show ?thesis using takes_open [OF assms(1)] assms(6)
    by (auto simp: bpf_get_link_xdp_id_def bpf_get_link_xdp_info_def link_xdp_info_cases Let_def info_bytes_roundtrip)
qed

text \<open>
  The query for the attached program finds it.  When the socket opens and the kernel
  answers the dump with any number of links in any number of datagrams, each with any
  attributes, \<open>bpf_get_link_xdp_id\<close> returns 0 and the id of the program that the link of the
  interface shows, that of the requested mode when programs are attached in several modes, and
  the id 0 when no link has the index; the socket is closed.
\<close>

theorem get_link_xdp_id_found:
  assumes "takes sys (dump_request RTM_GETLINK (sys_time sys) ifinfo_body) sock nl_pid"
    and "sys_recv sys = map Inr (dump_reply nl_pid (sys_time sys) lss ls) @ ds" "dump_fits nl_pid (sys_time sys) lss ls"
    and "\<forall>l\<in>set (concat lss @ ls). link_ok ifi i l" "ifi \<noteq> 0"
    and "flags AND NOT XDP_FLAGS_MASK = 0" "flags AND XDP_FLAGS_MODES \<in> {0, XDP_FLAGS_SKB_MODE, XDP_FLAGS_DRV_MODE, XDP_FLAGS_HW_MODE}"
  shows "\<exists>tr. bpf_get_link_xdp_id sys ifi old flags =
      Some (0, if any_link ifi (concat lss @ ls) then get_xdp_id i flags else 0, tr) \<and> closed tr = [sock]"
proof -
  have "query_flags_ok flags"
    using assms(6,7) by (auto simp: query_flags_ok_def XDP_FLAGS_SKB_MODE_def XDP_FLAGS_DRV_MODE_def XDP_FLAGS_HW_MODE_def Let_def)
  from get_link_id_dump [OF assms(1-5) this, of old] show ?thesis
    by (auto simp: get_xdp_id_def xdp_link_info0_def XDP_ATTACHED_MULTI_def)
qed

definition sample_info :: xdp_link_info where
  "sample_info = \<lparr>prog_id = 11, drv_prog_id = 12, hw_prog_id = 0, skb_prog_id = 13, attach_mode = XDP_ATTACHED_MULTI\<rparr>"

definition sample_links :: "link list" where
  "sample_links =
     [(1, [(3, [108, 111, 0])]),
      (4, [(3, [101, 49, 0]),
           (IFLA_XDP, concat (map nla_bytes
              [(IFLA_XDP_ATTACHED, [4]), (IFLA_XDP_PROG_ID, le32 11), (IFLA_XDP_DRV_PROG_ID, le32 12), (IFLA_XDP_SKB_PROG_ID, le32 13)]))])]"

lemma sample_links_shown:
  "shows_info [(3, [101, 49, 0]), (IFLA_XDP, concat (map nla_bytes
     [(IFLA_XDP_ATTACHED, [4]), (IFLA_XDP_PROG_ID, le32 11), (IFLA_XDP_DRV_PROG_ID, le32 12), (IFLA_XDP_SKB_PROG_ID, le32 13)]))] sample_info"
  unfolding shows_info_def
  by (rule exI [of _ "[(IFLA_XDP_ATTACHED, [4]), (IFLA_XDP_PROG_ID, le32 11), (IFLA_XDP_DRV_PROG_ID, le32 12), (IFLA_XDP_SKB_PROG_ID, le32 13)]"])
    (simp add: attr_types ids_shown_def sample_info_def attr_small_def XDP_ATTACHED_MULTI_def XDP_ATTACHED_NONE_def)

theorem get_link_xdp_id_found_witness:
  "\<exists>tr. bpf_get_link_xdp_id (sample_sys\<lparr>sys_recv := map Inr (dump_reply 7 3 [[hd sample_links]] (tl sample_links))\<rparr>) 4 0 XDP_FLAGS_SKB_MODE =
      Some (0, 13, tr) \<and> closed tr = [5]"
proof -
  let ?sys = "sample_sys\<lparr>sys_recv := map Inr (dump_reply 7 3 [[hd sample_links]] (tl sample_links))\<rparr>"
  have 1: "takes ?sys (dump_request RTM_GETLINK (sys_time ?sys) ifinfo_body) 5 7"
    "sys_recv ?sys = map Inr (dump_reply 7 (sys_time ?sys) [[hd sample_links]] (tl sample_links)) @ []"
    by (simp_all add: takes_def sample_sys_def SIZEOF_SOCKADDR_NL_def)
  have 2: "dump_fits 7 (sys_time ?sys) [[hd sample_links]] (tl sample_links)"
    by (simp add: dump_fits_def dump_reply_def sample_links_def link_msg_def done_msg_def length_nla_bytes padding_def)
  have 3: "\<forall>l\<in>set (concat [[hd sample_links]] @ tl sample_links). link_ok 4 sample_info l"
    using sample_links_shown by (simp add: sample_links_def link_ok_def attr_small_def length_nla_bytes padding_def)
  have 4: "any_link 4 (concat [[hd sample_links]] @ tl sample_links)" "get_xdp_id sample_info XDP_FLAGS_SKB_MODE = 13"
    by (simp_all add: any_link_def sample_links_def get_xdp_id_def sample_info_def XDP_FLAGS_SKB_MODE_def XDP_FLAGS_DRV_MODE_def XDP_FLAGS_HW_MODE_def)
  show ?thesis using get_link_xdp_id_found [OF 1 2 3, of XDP_FLAGS_SKB_MODE 0] 4
    by (simp add: XDP_FLAGS_MASK_def XDP_FLAGS_MODES_def XDP_FLAGS_UPDATE_IF_NOEXIST_def XDP_FLAGS_SKB_MODE_def XDP_FLAGS_DRV_MODE_def XDP_FLAGS_HW_MODE_def)
qed

end
