(* ===== verification/Link_Netlink.thy ===== *)
theory Link_Netlink
  imports Xdp_Link Netlink
begin

text \<open>
  The link layer on top of netlink.  \<^verbatim>\<open>Xdp_Link\<close> states as a contract what attaching and detaching
  rely on; here the contract is proved of the calls of \<open>libbpf/src/netlink.c\<close>.  What remains an
  argument is the kernel at the other end of the socket: a function from a request, as the bytes
  that are sent, and the state of the devices to its answers and the state afterwards.
\<close>

section \<open>Calls on a kernel\<close>

text \<open>
  \<open>nk\<close> answers requests, \<open>clk\<close> is the time that a dump takes for its sequence number, \<open>hk\<close> observes
  the attached programs.  A call that does not return is the unspecified result of \<open>the\<close>; the
  contract below excludes it.
\<close>

definition netlink_ops ::
    "(packet \<Rightarrow> 's \<Rightarrow> nl_sys \<times> 's) \<Rightarrow> ('s \<Rightarrow> u32) \<Rightarrow> ('s \<Rightarrow> i32 \<Rightarrow> (u32 \<times> i32) option) \<Rightarrow> 's link_ops" where
  "netlink_ops nk clk hk =
     \<lparr>set_link_xdp_fd = (\<lambda>i fd fl s.
        (let (sys, s') = nk (xdp_request i fd fl) s in (fst (the (bpf_set_link_xdp_fd sys i fd fl)), s'))),
      get_link_xdp_id = (\<lambda>i fl s.
        (let sys = (fst (nk (dump_request RTM_GETLINK (clk s) ifinfo_body) s))\<lparr>sys_time := clk s\<rparr>;
             (ret, curr_prog_id, _) = the (bpf_get_link_xdp_id sys i 0 fl)
         in (ret, curr_prog_id))),
      hook = hk\<rparr>"

section \<open>The contract of the kernel\<close>

text \<open>
  A request to set the program of a link either does not reach the kernel, or is acknowledged: with
  a negative error number and no effect, or with 0 and the effect that was asked for.  A dump
  either does not reach the kernel or lists the links; the link of an interface with a
  program shows its id (one id, or one per mode when programs of several modes are attached, and
  then the program was attached in one of the modes), and no interface has the index 0.
\<close>

definition set_effect :: "(i32 \<Rightarrow> (u32 \<times> i32) option) \<Rightarrow> i32 \<Rightarrow> i32 \<Rightarrow> u32 \<Rightarrow> (i32 \<Rightarrow> (u32 \<times> i32) option) \<Rightarrow> bool" where
  "set_effect h i fd fl h' \<longleftrightarrow>
     (sint fd \<ge> 0 \<longrightarrow> h' = h(i \<mapsto> (fl AND XDP_FLAGS_MODES, fd)) \<and> (fl AND XDP_FLAGS_UPDATE_IF_NOEXIST = 0 \<or> h i = None)) \<and>
     (fd = - 1 \<longrightarrow> detached h i fl h')"

definition set_answer :: "('s \<Rightarrow> i32 \<Rightarrow> (u32 \<times> i32) option) \<Rightarrow> i32 \<Rightarrow> i32 \<Rightarrow> u32 \<Rightarrow> 's \<Rightarrow> nl_sys \<Rightarrow> 's \<Rightarrow> bool" where
  "set_answer hk i fd fl s sys s' \<longleftrightarrow>
     refuses sys (xdp_request i fd fl) \<and> s' = s \<or>
     (\<exists>sock nl_pid error ds. takes sys (xdp_request i fd fl) sock nl_pid \<and> sys_recv sys = Inr (ack_bytes nl_pid error) # ds \<and>
        (if error = 0 then set_effect (hk s) i fd fl (hk s') else sint error < 0 \<and> s' = s))"

text \<open>
  The id of a program that was attached in \<open>mode\<close>: the only id of the link, or the one of this mode
  when programs of several modes are attached.
\<close>

definition id_shown :: "u32 \<Rightarrow> xdp_link_info \<Rightarrow> bool" where
  "id_shown mode info \<longleftrightarrow>
     (if attach_mode info \<noteq> XDP_ATTACHED_MULTI then prog_id info \<noteq> 0
      else mode = XDP_FLAGS_DRV_MODE \<and> drv_prog_id info \<noteq> 0 \<or> mode = XDP_FLAGS_HW_MODE \<and> hw_prog_id info \<noteq> 0 \<or>
           mode = XDP_FLAGS_SKB_MODE \<and> skb_prog_id info \<noteq> 0)"

definition dump_answer :: "('s \<Rightarrow> i32 \<Rightarrow> (u32 \<times> i32) option) \<Rightarrow> u32 \<Rightarrow> 's \<Rightarrow> nl_sys \<Rightarrow> bool" where
  "dump_answer hk seq s sys \<longleftrightarrow>
     refuses sys (dump_request RTM_GETLINK seq ifinfo_body) \<or>
     (\<exists>sock nl_pid lss ls ds info. takes sys (dump_request RTM_GETLINK seq ifinfo_body) sock nl_pid \<and>
        sys_recv sys = map Inr (dump_reply nl_pid seq lss ls) @ ds \<and> dump_fits nl_pid seq lss ls \<and>
        (\<forall>i. (\<forall>l\<in>set (concat lss @ ls). link_ok i (info i) l) \<and>
          (\<forall>mode fd. hk s i = Some (mode, fd) \<longrightarrow> any_link i (concat lss @ ls) \<and> id_shown mode (info i))))"

lemma time_irrelevant [simp]:
  "takes (sys\<lparr>sys_time := t\<rparr>) req sock nl_pid = takes sys req sock nl_pid" "refuses (sys\<lparr>sys_time := t\<rparr>) req = refuses sys req"
  by (auto simp: takes_def refuses_def split: sum.splits option.splits)

lemma shown_id_found: "id_shown (fl AND XDP_FLAGS_MODES) info \<Longrightarrow> get_xdp_id info fl \<noteq> 0"
proof -
  assume i: "id_shown (fl AND XDP_FLAGS_MODES) info"
  have m: "fl AND XDP_FLAGS_DRV_MODE = (fl AND XDP_FLAGS_MODES) AND XDP_FLAGS_DRV_MODE"
    "fl AND XDP_FLAGS_HW_MODE = (fl AND XDP_FLAGS_MODES) AND XDP_FLAGS_HW_MODE"
    "fl AND XDP_FLAGS_SKB_MODE = (fl AND XDP_FLAGS_MODES) AND XDP_FLAGS_SKB_MODE"
    by (simp_all add: and.assoc XDP_FLAGS_MODES_def XDP_FLAGS_DRV_MODE_def XDP_FLAGS_HW_MODE_def XDP_FLAGS_SKB_MODE_def)
  show ?thesis
    using i unfolding get_xdp_id_def id_shown_def m
    by (auto simp: XDP_FLAGS_DRV_MODE_def XDP_FLAGS_HW_MODE_def XDP_FLAGS_SKB_MODE_def split: if_splits)
qed

locale netlink_kernel =
  fixes nk :: "packet \<Rightarrow> 's \<Rightarrow> nl_sys \<times> 's" and clk :: "'s \<Rightarrow> u32" and hk :: "'s \<Rightarrow> i32 \<Rightarrow> (u32 \<times> i32) option"
  assumes set_answered: "nk (xdp_request i fd fl) s = (sys, s') \<Longrightarrow> set_answer hk i fd fl s sys s'"
    and dump_answered: "dump_answer hk (clk s) s (fst (nk (dump_request RTM_GETLINK (clk s) ifinfo_body) s))"
    and no_index_0: "hk s 0 = None"
begin

lemma set_cases:
  obtains "fst (set_link_xdp_fd (netlink_ops nk clk hk) i fd fl s) < 0" "snd (set_link_xdp_fd (netlink_ops nk clk hk) i fd fl s) = s"
  | "fst (set_link_xdp_fd (netlink_ops nk clk hk) i fd fl s) = 0" "set_effect (hk s) i fd fl (hk (snd (set_link_xdp_fd (netlink_ops nk clk hk) i fd fl s)))"
proof -
  obtain sys s' where k: "nk (xdp_request i fd fl) s = (sys, s')" by force
  have r: "set_link_xdp_fd (netlink_ops nk clk hk) i fd fl s = (fst (the (bpf_set_link_xdp_fd sys i fd fl)), s')"
    by (simp add: netlink_ops_def k)
  from set_answered [OF k] show thesis unfolding set_answer_def
  proof (elim disjE exE conjE)
    assume "refuses sys (xdp_request i fd fl)" "s' = s"
    then show thesis using set_link_refused [of sys i fd fl] r that(1) by auto
  next
    fix sock nl_pid error ds
    assume "takes sys (xdp_request i fd fl) sock nl_pid" "sys_recv sys = Inr (ack_bytes nl_pid error) # ds"
      and e: "if error = 0 then set_effect (hk s) i fd fl (hk s') else sint error < 0 \<and> s' = s"
    then have "fst (the (bpf_set_link_xdp_fd sys i fd fl)) = sint error" using set_link_ack by fastforce
    then show thesis using r e that by (cases "error = 0") auto
  qed
qed

lemma get_id_0:
  assumes "get_link_xdp_id (netlink_ops nk clk hk) i fl s = (0, 0)"
  shows "detached (hk s) i fl (hk s)"
proof (cases "i = 0")
  case True
  then show ?thesis using no_index_0 by (simp add: detached_def fun_upd_idem)
next
  case i: False
  define sys where "sys = (fst (nk (dump_request RTM_GETLINK (clk s) ifinfo_body) s))\<lparr>sys_time := clk s\<rparr>"
  obtain tr where tr: "the (bpf_get_link_xdp_id sys i 0 fl) = (0, 0, tr)"
    using assms by (auto simp: netlink_ops_def Let_def simp flip: sys_def split: prod.splits)
  have fl: "query_flags_ok fl" using get_link_id_flags [of fl sys i 0] tr by (cases "query_flags_ok fl") (auto simp: EINVAL_def)
  have "dump_answer hk (clk s) s sys"
    using dump_answered [of s] unfolding dump_answer_def sys_def time_irrelevant by simp
  then show ?thesis unfolding dump_answer_def
  proof (elim disjE exE conjE)
    assume "refuses sys (dump_request RTM_GETLINK (clk s) ifinfo_body)"
    then show ?thesis using get_link_id_refused [of sys i 0 fl] tr by (auto simp: sys_def)
  next
    fix sock nl_pid lss ls ds info
    assume a: "takes sys (dump_request RTM_GETLINK (clk s) ifinfo_body) sock nl_pid" "sys_recv sys = map Inr (dump_reply nl_pid (clk s) lss ls) @ ds"
      "dump_fits nl_pid (clk s) lss ls"
      and l: "\<forall>i. (\<forall>l\<in>set (concat lss @ ls). link_ok i (info i) l) \<and>
        (\<forall>mode fd. hk s i = Some (mode, fd) \<longrightarrow> any_link i (concat lss @ ls) \<and> id_shown mode (info i))"
    have t: "sys_time sys = clk s" by (simp add: sys_def)
    have "\<exists>tr. bpf_get_link_xdp_id sys i 0 fl = Some (0, get_xdp_id (if any_link i (concat lss @ ls) then info i else xdp_link_info0) fl, tr) \<and> closed tr = [sock]"
      using get_link_id_dump [of sys sock nl_pid lss ls ds i "info i" fl 0] a l i fl t by auto
    then have "get_xdp_id (if any_link i (concat lss @ ls) then info i else xdp_link_info0) fl = 0" using tr by auto
    note id0 = this
    show ?thesis
    proof (cases "hk s i")
      case None
      then show ?thesis by (simp add: detached_def fun_upd_idem)
    next
      case (Some p)
      obtain mode pfd where p: "hk s i = Some (mode, pfd)" using Some by (cases p) simp
      then have "id_shown mode (info i)" "get_xdp_id (info i) fl = 0" using spec [OF l, of i] id0 by auto
      then have "mode \<noteq> fl AND XDP_FLAGS_MODES" using shown_id_found [of fl "info i"] by auto
      then show ?thesis using p by (auto simp: detached_def)
    qed
  qed
qed

end

text \<open>The calls over the socket keep the contract of the link layer.\<close>

sublocale netlink_kernel \<subseteq> xdp_link "netlink_ops nk clk hk"
proof
  fix i fd :: i32 and fl :: u32 and s :: 's
  let ?r = "set_link_xdp_fd (netlink_ops nk clk hk) i fd fl s"
  show "fst ?r \<noteq> 0 \<Longrightarrow> fst ?r < 0 \<and> snd ?r = s" by (rule set_cases [of i fd fl s]) simp_all
  show "fst ?r = 0 \<Longrightarrow> sint fd \<ge> 0 \<Longrightarrow> hook (netlink_ops nk clk hk) (snd ?r) = (hook (netlink_ops nk clk hk) s)(i \<mapsto> (fl AND XDP_FLAGS_MODES, fd))"
    by (rule set_cases [of i fd fl s]) (simp_all add: set_effect_def netlink_ops_def)
  show "fst (set_link_xdp_fd (netlink_ops nk clk hk) i (- 1) fl s) = 0 \<Longrightarrow>
      detached (hook (netlink_ops nk clk hk) s) i fl (hook (netlink_ops nk clk hk) (snd (set_link_xdp_fd (netlink_ops nk clk hk) i (- 1) fl s)))"
    by (rule set_cases [of i "- 1" fl s]) (simp_all add: set_effect_def netlink_ops_def)
  show "fl AND XDP_FLAGS_UPDATE_IF_NOEXIST \<noteq> 0 \<Longrightarrow> hook (netlink_ops nk clk hk) s i \<noteq> None \<Longrightarrow> sint fd \<ge> 0 \<Longrightarrow> fst ?r \<noteq> 0"
    by (rule set_cases [of i fd fl s]) (auto simp: set_effect_def netlink_ops_def)
  show "get_link_xdp_id (netlink_ops nk clk hk) i fl s = (0, 0) \<Longrightarrow> detached (hook (netlink_ops nk clk hk) s) i fl (hook (netlink_ops nk clk hk) s)"
    using get_id_0 by (simp add: netlink_ops_def)
qed

context netlink_kernel
begin

lemmas link_contract = xdp_link_axioms

end

section \<open>A kernel\<close>

text \<open>
  A kernel for the examples.  It has the interfaces of a list with the device table of
  \<^verbatim>\<open>Xdp_Link\<close>, reads the requests with the attribute parser, and lists its links one per datagram.
\<close>

definition ENODEV :: int where "ENODEV = 19"

definition answers :: "(int + packet) list \<Rightarrow> u32 \<Rightarrow> nl_sys" where
  "answers ds t = \<lparr>sys_socket = Inr 5, sys_bind = None, sys_getsockname = Inr (7, SIZEOF_SOCKADDR_NL), sys_send = (\<lambda>_. None), sys_recv = ds, sys_time = t\<rparr>"

definition read_request :: "packet \<Rightarrow> i32 \<times> i32 \<times> u32" where
  "read_request req =
     (let (_, tb, _) = libbpf_nla_parse req IFLA_MAX 32 (int (length req) - 32) None;
          (_, xtb, _) = libbpf_nla_parse_nested req IFLA_XDP_MAX (the (tb ! unat IFLA_XDP)) None;
          get = (\<lambda>t. case xtb ! unat t of None \<Rightarrow> 0 | Some nla \<Rightarrow> libbpf_nla_getattr_u32 req nla)
      in (load32 req 20, get IFLA_XDP_FD, get IFLA_XDP_FLAGS))"

definition shown_link :: "(i32 \<Rightarrow> (u32 \<times> i32) option) \<Rightarrow> i32 \<Rightarrow> link" where
  "shown_link h i =
     (i, [(IFLA_XDP, concat (map nla_bytes
            (case h i of
               None \<Rightarrow> [(IFLA_XDP_ATTACHED, [0])]
             | Some _ \<Rightarrow> [(IFLA_XDP_ATTACHED, [1]), (IFLA_XDP_PROG_ID, le32 1)])))])"

definition table_hook :: "i32 list \<times> (i32 \<Rightarrow> (u32 \<times> i32) option) \<Rightarrow> i32 \<Rightarrow> (u32 \<times> i32) option" where
  "table_hook s i = (if i \<noteq> 0 \<and> i \<in> set (fst s) then snd s i else None)"

definition table_kernel ::
    "packet \<Rightarrow> i32 list \<times> (i32 \<Rightarrow> (u32 \<times> i32) option) \<Rightarrow> nl_sys \<times> (i32 list \<times> (i32 \<Rightarrow> (u32 \<times> i32) option))" where
  "table_kernel req s =
     (if nlmsg_type_at req 0 = RTM_SETLINK then
        (let (i, fd, fl) = read_request req;
             (e, h) = (if i = 0 \<or> i \<notin> set (fst s) then (- ENODEV, snd s) else set_link_xdp_fd table_ops i fd fl (snd s))
         in (answers [Inr (ack_bytes 7 (word_of_int e))] 0, (fst s, h)))
      else
        (answers (map Inr (dump_reply 7 (nlmsg_seq_at req 0) (map (\<lambda>i. [shown_link (table_hook s) i]) (fst s)) [])) (nlmsg_seq_at req 0), s))"

lemma answers_takes: "takes (answers ds t) req 5 7"
  by (simp add: takes_def answers_def)

lemma read_request_eq: "read_request (xdp_request i fd fl) = (i, fd, fl)" "nlmsg_type_at (xdp_request i fd fl) 0 = RTM_SETLINK"
  using request_parsed [of i fd fl] by (auto simp: read_request_def split: option.splits if_splits)

lemma dump_request_fields:
  "nlmsg_type_at (dump_request RTM_GETLINK seq ifinfo_body) 0 = RTM_GETLINK" "nlmsg_seq_at (dump_request RTM_GETLINK seq ifinfo_body) 0 = seq"
proof -
  have "dump_request RTM_GETLINK seq ifinfo_body = nl_msg RTM_GETLINK (NLM_F_DUMP OR NLM_F_REQUEST) seq 0 ifinfo_body"
    by (simp add: dump_request_def nl_msg_def NLMSG_LENGTH_def NLMSG_HDRLEN_def add.commute)
  then show "nlmsg_type_at (dump_request RTM_GETLINK seq ifinfo_body) 0 = RTM_GETLINK" "nlmsg_seq_at (dump_request RTM_GETLINK seq ifinfo_body) 0 = seq"
    using msg_fields(2,4) [OF bytes_at_self] by metis+
qed

definition table_info :: "i32 list \<times> (i32 \<Rightarrow> (u32 \<times> i32) option) \<Rightarrow> i32 \<Rightarrow> xdp_link_info" where
  "table_info s i = (case table_hook s i of None \<Rightarrow> xdp_link_info0 | Some _ \<Rightarrow> xdp_link_info0\<lparr>prog_id := 1, attach_mode := 1\<rparr>)"

lemma shown_link_ok: "link_ok i (table_info s i) (shown_link (table_hook s) j)"
proof -
  define xs where "xs = (case table_hook s j of None \<Rightarrow> [(IFLA_XDP_ATTACHED, [0])] | Some _ \<Rightarrow> [(IFLA_XDP_ATTACHED, [1]), (IFLA_XDP_PROG_ID, le32 1)])"
  have small: "\<forall>a\<in>set xs. attr_small a" "length (concat (map nla_bytes xs)) \<le> 16"
    by (auto simp: xs_def attr_small_def length_nla_bytes padding_def split: option.splits)
  have "ids_shown xs (table_info s j)"
    by (auto simp: xs_def ids_shown_def table_info_def attr_types xdp_link_info0_def XDP_ATTACHED_NONE_def split: option.splits)
  then have "shows_info [(IFLA_XDP, concat (map nla_bytes xs))] (table_info s j)"
    unfolding shows_info_def using small(1) by (intro exI [of _ xs]) (simp add: attr_types)
  then show ?thesis using small(2) by (auto simp: link_ok_def shown_link_def attr_small_def simp flip: xs_def)
qed

lemma shown_link_fits: "length (link_msg nl_pid seq (shown_link h i)) \<le> 4096"
  by (auto simp: link_msg_def shown_link_def length_nla_bytes padding_def split: option.splits)

interpretation table_kernel: netlink_kernel table_kernel "\<lambda>_. 3" table_hook
proof
  fix i fd :: i32 and fl :: u32 and s s' :: "i32 list \<times> (i32 \<Rightarrow> (u32 \<times> i32) option)" and sys
  show "table_hook s 0 = None" by (simp add: table_hook_def)
  let ?lss = "map (\<lambda>i. [shown_link (table_hook s) i]) (fst s)"
  have "any_link j (concat ?lss)" if "table_hook s j \<noteq> None" for j
    using that by (auto simp: any_link_def table_hook_def shown_link_def image_iff split: if_splits)
  moreover have "dump_fits 7 3 ?lss []"
    using shown_link_fits by (auto simp: dump_fits_def dump_reply_def done_msg_def)
  moreover have "fst (table_kernel (dump_request RTM_GETLINK 3 ifinfo_body) s) = answers (map Inr (dump_reply 7 3 ?lss [])) 3"
    unfolding table_kernel_def dump_request_fields by (simp add: RTM_GETLINK_def RTM_SETLINK_def)
  moreover have "table_hook s j = Some (mode, pfd) \<Longrightarrow> id_shown mode (table_info s j)" for j mode pfd
    by (auto simp: id_shown_def table_info_def xdp_link_info0_def XDP_ATTACHED_MULTI_def split: option.splits)
  ultimately show "dump_answer table_hook 3 s (fst (table_kernel (dump_request RTM_GETLINK 3 ifinfo_body) s))"
    unfolding dump_answer_def using answers_takes shown_link_ok
    by (intro disjI2 exI [of _ "5 :: int"] exI [of _ "7 :: u32"] exI [of _ ?lss] exI [of _ "[] :: link list"] exI [of _ "[] :: (int + packet) list"]
          exI [of _ "table_info s"])
      (auto simp: answers_def)
  assume k: "table_kernel (xdp_request i fd fl) s = (sys, s')"
  obtain e h where e: "(if i = 0 \<or> i \<notin> set (fst s) then (- ENODEV, snd s) else set_link_xdp_fd table_ops i fd fl (snd s)) = (e, h)" by force
  have s: "sys = answers [Inr (ack_bytes 7 (word_of_int e))] 0" "s' = (fst s, h)"
    using k by (simp_all add: table_kernel_def read_request_eq e)
  have c: "e \<in> {0, - ENODEV, - EEXIST, - EBUSY}" using e by (auto simp: table_ops_def split: if_splits option.splits)
  then have se: "sint (word_of_int e :: i32) = e" "word_of_int e = (0 :: u32) \<longleftrightarrow> e = 0" by (auto simp: ENODEV_def EEXIST_def EBUSY_def)
  have "h = snd s" if "e \<noteq> 0" using e that by (auto simp: table_ops_def split: if_splits option.splits)
  then have "e \<noteq> 0 \<Longrightarrow> e < 0 \<and> s' = s" using c s(2) by (auto simp: ENODEV_def EEXIST_def EBUSY_def)
  moreover have "set_effect (table_hook s) i fd fl (table_hook s')" if "e = 0"
  proof -
    have i: "i \<noteq> 0" "i \<in> set (fst s)" and u: "set_link_xdp_fd table_ops i fd fl (snd s) = (0, h)"
      using e that by (auto simp: ENODEV_def split: if_splits)
    have h: "table_hook s i = snd s i" using i by (simp add: table_hook_def)
    have t: "table_hook s' = (table_hook s)(i := v)" if "h = (snd s)(i := v)" for v
      using that i s(2) by (auto simp: table_hook_def fun_eq_iff)
    have "h = (snd s)(i \<mapsto> (fl AND XDP_FLAGS_MODES, fd)) \<and> (fl AND XDP_FLAGS_UPDATE_IF_NOEXIST = 0 \<or> snd s i = None)" if "sint fd \<ge> 0"
      using table.set_attach [of i fd fl "snd s"] table.set_noexist [of fl "snd s" i fd] u that by (auto simp: table_ops_def)
    moreover have "detached (table_hook s) i fl (table_hook s')" if "fd = - 1"
      using table.set_detach [of i fl "snd s"] u that t [of None] h s(2) by (auto simp: detached_def table_ops_def table_hook_def fun_eq_iff)
    ultimately show ?thesis using t h by (auto simp: set_effect_def)
  qed
  ultimately show "set_answer table_hook i fd fl s sys s'"
    unfolding set_answer_def s(1) using answers_takes se
    by (intro disjI2 exI [of _ "5 :: int"] exI [of _ "7 :: u32"] exI [of _ "word_of_int e :: u32"] exI [of _ "[] :: (int + packet) list"])
      (auto simp: answers_def)
qed

lemma table_kernel_set:
  assumes "i \<noteq> 0" "i \<in> set (fst s)"
  shows "set_link_xdp_fd (netlink_ops table_kernel (\<lambda>_. 3) table_hook) i fd fl s =
    map_prod id (Pair (fst s)) (set_link_xdp_fd table_ops i fd fl (snd s))"
proof -
  obtain e h where e: "set_link_xdp_fd table_ops i fd fl (snd s) = (e, h)" by force
  then have "e \<in> {0, - EEXIST, - EBUSY}" by (auto simp: table_ops_def split: if_splits option.splits)
  then have "sint (word_of_int e :: i32) = e" by (auto simp: EEXIST_def EBUSY_def)
  then show ?thesis
    using assms e set_link_ack [OF answers_takes, of "[Inr (ack_bytes 7 (word_of_int e))]" 0 "word_of_int e" "[]" i fd fl]
    by (auto simp: netlink_ops_def table_kernel_def read_request_eq answers_def)
qed

lemma table_kernel_get:
  assumes "i \<noteq> 0" "i \<in> set (fst s)" "query_flags_ok fl"
  shows "get_link_xdp_id (netlink_ops table_kernel (\<lambda>_. 3) table_hook) i fl s = (0, if table_hook s i = None then 0 else 1)"
proof -
  let ?lss = "map (\<lambda>i. [shown_link (table_hook s) i]) (fst s)"
  let ?sys = "answers (map Inr (dump_reply 7 3 ?lss [])) 3"
  have "any_link i (concat ?lss @ [])" using assms(2) by (auto simp: any_link_def shown_link_def image_iff)
  moreover have "dump_fits 7 3 ?lss []" using shown_link_fits by (auto simp: dump_fits_def dump_reply_def done_msg_def)
  moreover have "get_xdp_id (table_info s i) fl = (if table_hook s i = None then 0 else 1)"
    by (auto simp: get_xdp_id_def table_info_def xdp_link_info0_def XDP_ATTACHED_MULTI_def split: option.splits)
  ultimately have "\<exists>tr. bpf_get_link_xdp_id ?sys i 0 fl = Some (0, if table_hook s i = None then 0 else 1, tr)"
    using get_link_id_dump [OF answers_takes, where ls = "[]" and lss = ?lss and ds = "[]" and ifi = i and i = "table_info s i" and flags = fl and old = 0
        and t1 = 3 and ds1 = "map Inr (dump_reply 7 3 ?lss [])"] shown_link_ok assms(1,3)
    by (auto simp: answers_def)
  moreover have "(fst (table_kernel (dump_request RTM_GETLINK 3 ifinfo_body) s))\<lparr>sys_time := 3\<rparr> = ?sys"
    unfolding table_kernel_def dump_request_fields by (simp add: RTM_GETLINK_def RTM_SETLINK_def answers_def)
  ultimately show ?thesis by (auto simp: netlink_ops_def)
qed

section \<open>Properties\<close>

text \<open>
  C15: attaching and detaching over the socket.  For every kernel that acknowledges requests and shows
  attached programs in its dump, attaching through the netlink client returns 0 only with the program
  attached to the interface in the mode of the flags, and otherwise 30: then nothing has changed, or,
  when replacing was allowed, at most the program is gone that was attached before.  No other
  interface changes.  Detaching with the same flags after a successful attach returns 0 only when the
  interface has no program any more and all others are as they were before the attach; with any
  other code it has changed nothing.
\<close>

theorem netlink_attach_detach:
  assumes "netlink_kernel nk clk hk" "sint fd \<ge> 0"
    and "xdp_link_attach (netlink_ops nk clk hk) i fl fd s = (code, msgs, s1)"
    and "xdp_link_detach (netlink_ops nk clk hk) v i fl expd s1 = (code', msgs', s2)"
  shows "if code = EXIT_OK then
           hk s1 = (hk s)(i \<mapsto> (fl AND XDP_FLAGS_MODES, fd)) \<and>
           (if code' = EXIT_OK then hk s2 = (hk s)(i := None) else s2 = s1)
         else code = EXIT_FAIL_XDP \<and>
           (s1 = s \<or> fl AND XDP_FLAGS_UPDATE_IF_NOEXIST = 0 \<and> hk s1 \<in> {hk s, (hk s)(i := None)})"
proof -
  let ?ops = "netlink_ops nk clk hk"
  have l: "xdp_link ?ops" by (rule netlink_kernel.link_contract [OF assms(1)])
  have h: "hook ?ops = hk" by (simp add: netlink_ops_def)
  obtain err s' where r: "(code, msgs, s1) = (if (err :: int) < 0 then EXIT_FAIL_XDP else EXIT_OK, msgs, s')"
      "err \<ge> 0 \<longrightarrow> hk s' = (hk s)(i \<mapsto> (fl AND XDP_FLAGS_MODES, fd))"
      "err < 0 \<longrightarrow> s' = s \<or> (fl AND XDP_FLAGS_UPDATE_IF_NOEXIST = 0 \<and> hk s' \<in> {hk s, (hk s)(i := None)})"
    using xdp_link.attach_cases [OF l assms(2), of i fl s] assms(3) unfolding h by auto
  have d: "code' = EXIT_OK \<Longrightarrow> detached (hk s1) i fl (hk s2)" "code' \<noteq> EXIT_OK \<Longrightarrow> s2 = s1"
    using xdp_link.detach_result [OF l, of v i fl expd s1] assms(4) unfolding h by simp_all
  show ?thesis using r d by (auto simp: EXIT_OK_def EXIT_FAIL_XDP_def detached_def split: if_splits)
qed

theorem netlink_attach_detach_witness:
  "\<exists>m s1 m' s2. xdp_link_attach (netlink_ops table_kernel (\<lambda>_. 3) table_hook) 2 XDP_FLAGS_SKB_MODE 7
        ([1, 2], (\<lambda>_. None)(2 \<mapsto> (XDP_FLAGS_DRV_MODE, 5))) = (EXIT_OK, m, s1) \<and>
    table_hook s1 2 = Some (XDP_FLAGS_SKB_MODE, 7) \<and>
    xdp_link_detach (netlink_ops table_kernel (\<lambda>_. 3) table_hook) True 2 XDP_FLAGS_SKB_MODE 0 s1 = (EXIT_OK, m', s2) \<and> table_hook s2 2 = None"
proof -
  let ?ops = "netlink_ops table_kernel (\<lambda>_. 3) table_hook"
  have f: "XDP_FLAGS_SKB_MODE AND XDP_FLAGS_MODES = XDP_FLAGS_SKB_MODE" "query_flags_ok XDP_FLAGS_SKB_MODE"
    by (simp_all add: query_flags_ok_def XDP_FLAGS_SKB_MODE_def XDP_FLAGS_MODES_def XDP_FLAGS_DRV_MODE_def XDP_FLAGS_HW_MODE_def
        XDP_FLAGS_MASK_def XDP_FLAGS_UPDATE_IF_NOEXIST_def)
  define s where "s = ([1, 2 :: i32], (\<lambda>_ :: i32. None)(2 \<mapsto> (XDP_FLAGS_DRV_MODE, 5 :: i32)))"
  define s1 where "s1 = ([1, 2 :: i32], (\<lambda>_ :: i32. None)(2 \<mapsto> (XDP_FLAGS_SKB_MODE, 7 :: i32)))"
  have 1: "xdp_link_attach ?ops 2 XDP_FLAGS_SKB_MODE 7 s = (EXIT_OK, [], s1)"
    by (simp add: xdp_link_attach_def table_kernel_set s_def s1_def table_ops_def EEXIST_def EBUSY_def XDP_FLAGS_SKB_MODE_def
        XDP_FLAGS_DRV_MODE_def XDP_FLAGS_HW_MODE_def XDP_FLAGS_MODES_def XDP_FLAGS_UPDATE_IF_NOEXIST_def)
  obtain m' s2 where 2: "xdp_link_detach ?ops True 2 XDP_FLAGS_SKB_MODE 0 s1 = (EXIT_OK, m', s2)"
    using table_kernel_get [OF _ _ f(2), of 2 s1]
    by (simp add: xdp_link_detach_def table_kernel_set s1_def table_ops_def table_hook_def)
  have "table_hook s1 2 = Some (XDP_FLAGS_SKB_MODE, 7) \<and> table_hook s2 2 = None"
    using netlink_attach_detach [OF table_kernel.netlink_kernel_axioms _ 1 2] f(1) by simp
  then show ?thesis using 1 2 unfolding s_def by blast
qed

end
