(* ===== verification/Xdp_Libxdp.thy ===== *)
theory Xdp_Libxdp
  imports Common_Params
begin

text \<open>
  Loading and unloading in the in-kernel variant, \<open>fully_in-kernel/common/common_user_bpf_xdp.c\<close>:
  \<open>load_bpf_and_xdp_attach\<close> and \<open>do_unload\<close>.  The library libxdp is not in the repository; its calls
  are an argument (the record \<open>libxdp\<close>), and the locale \<open>libxdp_laws\<close> states what their callers rely
  on.  The other functions of the file are those of the user-space variant (\<^verbatim>\<open>Xdp_Link\<close>).
\<close>

section \<open>Calls\<close>

text \<open>
  A program \<open>'p\<close>, and \<open>'m\<close> for the set of programs on an interface.  Errors are what
  \<open>libxdp_get_error\<close> gives; an absent program is None, the end of a walk the end of the list.
\<close>

record ('p, 'm, 's) libxdp =
  xl_create :: "string \<Rightarrow> string \<Rightarrow> 's \<Rightarrow> (int + 'p) \<times> 's"
  xl_attach :: "'p \<Rightarrow> i32 \<Rightarrow> xdp_attach_mode \<Rightarrow> 's \<Rightarrow> int \<times> 's"
  xl_fd :: "'p \<Rightarrow> 's \<Rightarrow> int"
  xl_get_from_ifindex :: "i32 \<Rightarrow> 's \<Rightarrow> int + 'm option"
  xl_detach_all :: "'m \<Rightarrow> 's \<Rightarrow> int \<times> 's"
  xl_progs :: "'m \<Rightarrow> 'p list"
  xl_attach_mode :: "'m \<Rightarrow> xdp_attach_mode"
  xl_is_legacy :: "'m \<Rightarrow> bool"
  xl_main_prog :: "'m \<Rightarrow> 'p option"
  xl_hw_prog :: "'m \<Rightarrow> 'p option"
  xl_id :: "'p option \<Rightarrow> u32"
  xl_detach :: "'p option \<Rightarrow> i32 \<Rightarrow> xdp_attach_mode \<Rightarrow> 's \<Rightarrow> int \<times> 's"

definition EXIT_SUCCESS :: int where "EXIT_SUCCESS = 0"
definition EXIT_FAILURE :: int where "EXIT_FAILURE = 1"

text \<open>\<open>Inl\<close> is the argument of \<open>exit\<close>.\<close>

definition load_bpf_and_xdp_attach_kern :: "('p, 'm, 's) libxdp \<Rightarrow> config_kern \<Rightarrow> 's \<Rightarrow> (int + 'p) \<times> 's" where
  "load_bpf_and_xdp_attach_kern X cfg s =
     (case xl_create X (c_string (filename cfg)) (c_string (progname cfg)) s of
        (Inl err, s) \<Rightarrow> (Inl EXIT_FAIL_BPF, s)
      | (Inr prog, s) \<Rightarrow>
          (let (err, s) = xl_attach X prog (ifindex cfg) (attach_mode cfg) s
           in if err \<noteq> 0 then (Inl err, s)
              else if xl_fd X prog s < 0 then (Inl EXIT_FAIL_BPF, s)
              else (Inr prog, s)))"

text \<open>
  The program that \<open>do_unload\<close> finds for an id, with the mode to detach it in: first among the
  programs of the dispatcher, then the single program of an interface without one, then the
  program of the hardware, which may be absent.
\<close>

definition find_prog :: "('p, 'm, 's) libxdp \<Rightarrow> 'm \<Rightarrow> u32 \<Rightarrow> ('p option \<times> xdp_attach_mode) option" where
  "find_prog X mp pid =
     (case find (\<lambda>p. xl_id X (Some p) = pid) (xl_progs X mp) of
        Some p \<Rightarrow> Some (Some p, xl_attach_mode X mp)
      | None \<Rightarrow>
          if xl_is_legacy X mp \<and> xl_id X (xl_main_prog X mp) = pid then Some (xl_main_prog X mp, xl_attach_mode X mp)
          else if xl_id X (xl_hw_prog X mp) = pid then Some (xl_hw_prog X mp, XDP_MODE_HW)
          else None)"

definition do_unload :: "('p, 'm, 's) libxdp \<Rightarrow> config_kern \<Rightarrow> 's \<Rightarrow> int \<times> 's" where
  "do_unload X cfg s =
     (let (err, s) =
        (case xl_get_from_ifindex X (ifindex cfg) s of
           Inl e \<Rightarrow> (EXIT_FAILURE, s)
         | Inr None \<Rightarrow> (EXIT_FAILURE, s)
         | Inr (Some mp) \<Rightarrow>
             if unload_all cfg then xl_detach_all X mp s
             else
               (case find_prog X mp (prog_id cfg) of
                  None \<Rightarrow> (- ENOENT, s)
                | Some (prog, mode) \<Rightarrow> xl_detach X prog (ifindex cfg) mode s))
      in (if err \<noteq> 0 then EXIT_FAILURE else EXIT_SUCCESS, s))"

section \<open>The contract of libxdp\<close>

text \<open>
  \<open>att\<close> observes the programs on an interface.  Ids are not 0, and different for the programs of
  one interface; the id of an absent program is 0, and it cannot be detached.
\<close>

definition described :: "('p, 'm, 's) libxdp \<Rightarrow> 'm \<Rightarrow> 'p set" where
  "described X mp = set (xl_progs X mp) \<union> (if xl_is_legacy X mp then set_option (xl_main_prog X mp) else {}) \<union> set_option (xl_hw_prog X mp)"

lemma find_prog_sound:
  assumes "find_prog X mp pid = Some (q, mode)"
  shows "xl_id X q = pid \<and> set_option q \<subseteq> described X mp"
proof (cases "find (\<lambda>p. xl_id X (Some p) = pid) (xl_progs X mp)")
  case None
  then have "xl_is_legacy X mp \<and> q = xl_main_prog X mp \<and> xl_id X q = pid \<or> q = xl_hw_prog X mp \<and> xl_id X q = pid"
    using assms unfolding find_prog_def by (simp split: if_split_asm)
  then show ?thesis unfolding described_def by fastforce
next
  case (Some p)
  then have "q = Some p" using assms unfolding find_prog_def by simp
  moreover have "p \<in> set (xl_progs X mp)" "xl_id X (Some p) = pid" using Some unfolding find_Some_iff by auto
  ultimately show ?thesis unfolding described_def by simp
qed

lemma find_prog_total:
  assumes "p \<in> described X mp" "xl_id X (Some p) = pid"
  shows "find_prog X mp pid \<noteq> None"
  using assms by (auto simp: find_prog_def described_def find_None_iff split: option.splits if_splits)

locale libxdp_laws =
  fixes X :: "('p, 'm, 's) libxdp" and att :: "'s \<Rightarrow> i32 \<Rightarrow> 'p set"
  assumes create_keeps: "xl_create X f n s = (r, s') \<Longrightarrow> att s' = att s"
    and attach_effect: "xl_attach X p i mode s = (e, s') \<Longrightarrow> att s' = (if e = 0 then (att s)(i := insert p (att s i)) else att s)"
    and query_none: "xl_get_from_ifindex X i s = Inr None \<Longrightarrow> att s i = {}"
    and query_some: "xl_get_from_ifindex X i s = Inr (Some mp) \<Longrightarrow> described X mp = att s i"
    and detach_all_effect: "xl_get_from_ifindex X i s = Inr (Some mp) \<Longrightarrow> xl_detach_all X mp s = (e, s') \<Longrightarrow>
      att s' = (if e = 0 then (att s)(i := {}) else att s)"
    and detach_effect: "xl_detach X (Some p) i mode s = (e, s') \<Longrightarrow> att s' = (if e = 0 then (att s)(i := att s i - {p}) else att s)"
    and detach_absent: "xl_detach X None i mode s = (e, s') \<Longrightarrow> e \<noteq> 0 \<and> att s' = att s"
    and ids: "p \<in> att s i \<Longrightarrow> q \<in> att s i \<Longrightarrow> xl_id X (Some p) = xl_id X (Some q) \<Longrightarrow> p = q"
      "p \<in> att s i \<Longrightarrow> xl_id X (Some p) \<noteq> 0" "xl_id X None = 0"
begin

lemma find_prog_attached:
  assumes "xl_get_from_ifindex X i s = Inr (Some mp)" "find_prog X mp pid = Some (Some p, mode)"
  shows "p \<in> att s i \<and> xl_id X (Some p) = pid"
proof -
  have "p \<in> described X mp" "xl_id X (Some p) = pid"
    using find_prog_sound [OF assms(2)] by auto
  then show ?thesis using query_some [OF assms(1)] by simp
qed

lemma find_prog_complete:
  assumes "xl_get_from_ifindex X i s = Inr (Some mp)" "p \<in> att s i" "xl_id X (Some p) = pid"
  obtains mode where "find_prog X mp pid = Some (Some p, mode)"
proof -
  have p: "p \<in> described X mp" using query_some [OF assms(1)] assms(2) by simp
  have "pid \<noteq> 0" using ids(2) [OF assms(2)] assms(3) by simp
  obtain q mode where q: "find_prog X mp pid = Some (q, mode)"
    using find_prog_total [OF p assms(3)] by force
  then obtain q' where q': "q = Some q'" using find_prog_sound [OF q] \<open>pid \<noteq> 0\<close> ids(3) by (cases q) auto
  then have "q' = p" using find_prog_attached [OF assms(1)] q assms(2,3) ids(1) by metis
  then show thesis using q q' that by simp
qed

lemma unload_one:
  assumes "\<not> unload_all cfg" "do_unload X cfg s = (code, s')"
  shows "code = EXIT_SUCCESS \<and> (\<exists>p\<in>att s (ifindex cfg). xl_id X (Some p) = prog_id cfg \<and> att s' = (att s)(ifindex cfg := att s (ifindex cfg) - {p})) \<or>
    code = EXIT_FAILURE \<and> att s' = att s"
proof (cases "\<exists>mp prog mode. xl_get_from_ifindex X (ifindex cfg) s = Inr (Some mp) \<and> find_prog X mp (prog_id cfg) = Some (prog, mode)")
  case True
  then obtain mp prog mode where f: "xl_get_from_ifindex X (ifindex cfg) s = Inr (Some mp)" "find_prog X mp (prog_id cfg) = Some (prog, mode)" by blast
  obtain e t where d: "xl_detach X prog (ifindex cfg) mode s = (e, t)" by force
  have r: "code = (if e \<noteq> 0 then EXIT_FAILURE else EXIT_SUCCESS)" "s' = t" using assms f d by (auto simp: do_unload_def)
  show ?thesis
  proof (cases prog)
    case None
    then show ?thesis using detach_absent d r by simp
  next
    case (Some p)
    then have "p \<in> att s (ifindex cfg) \<and> xl_id X (Some p) = prog_id cfg" using find_prog_attached [OF f(1)] f(2) by blast
    then show ?thesis using detach_effect [of p] d r Some by auto
  qed
next
  case False
  then show ?thesis using assms by (auto simp: do_unload_def EXIT_FAILURE_def ENOENT_def split: sum.splits option.splits)
qed

lemma unload_every:
  assumes "unload_all cfg" "do_unload X cfg s = (code, s')"
  shows "code = EXIT_SUCCESS \<and> att s' = (att s)(ifindex cfg := {}) \<or> code = EXIT_FAILURE \<and> att s' = att s"
  using assms detach_all_effect [of "ifindex cfg" s]
  by (auto simp: do_unload_def EXIT_FAILURE_def split: sum.splits option.splits prod.splits if_splits)

lemma unload_found:
  assumes "\<not> unload_all cfg" "do_unload X cfg s = (code, s')" "p \<in> att s (ifindex cfg)" "xl_id X (Some p) = prog_id cfg"
    and "xl_get_from_ifindex X (ifindex cfg) s = Inr (Some mp)" "\<And>mode. fst (xl_detach X (Some p) (ifindex cfg) mode s) = 0"
  shows "code = EXIT_SUCCESS"
proof -
  obtain mode where "find_prog X mp (prog_id cfg) = Some (Some p, mode)" using find_prog_complete [OF assms(5,3,4)] by blast
  then show ?thesis using assms(1,2,5) assms(6) [of mode] by (auto simp: do_unload_def split: prod.splits)
qed

lemma load_result:
  assumes "load_bpf_and_xdp_attach_kern X cfg s = (r, s')"
  shows "(\<exists>p. r = Inr p \<and> att s' = (att s)(ifindex cfg := insert p (att s (ifindex cfg)))) \<or>
    (\<exists>c. r = Inl c \<and> c \<noteq> 0 \<and> (att s' = att s \<or> c = EXIT_FAIL_BPF \<and> (\<exists>p. att s' = (att s)(ifindex cfg := insert p (att s (ifindex cfg))) \<and> xl_fd X p s' < 0)))"
proof -
  obtain r1 s1 where c: "xl_create X (c_string (filename cfg)) (c_string (progname cfg)) s = (r1, s1)" by force
  note k = create_keeps [OF c]
  show ?thesis
  proof (cases r1)
    case (Inl e)
    then show ?thesis using assms c k by (auto simp: load_bpf_and_xdp_attach_kern_def EXIT_FAIL_BPF_def)
  next
    case (Inr p)
    obtain e s2 where a: "xl_attach X p (ifindex cfg) (attach_mode cfg) s1 = (e, s2)" by force
    note t = attach_effect [OF a]
    show ?thesis using assms c k t Inr a by (auto simp: load_bpf_and_xdp_attach_kern_def EXIT_FAIL_BPF_def split: if_splits)
  qed
qed

end

section \<open>An instance\<close>

text \<open>
  Programs are their ids, which are not 0, and every interface has a list of them; attaching a
  program that is there already fails.  The last component is the descriptor that a program gets.
\<close>

definition list_att :: "(i32 \<Rightarrow> u32 list) \<times> int \<Rightarrow> i32 \<Rightarrow> u32 set" where
  "list_att s i = {p \<in> set (fst s i). p \<noteq> 0}"

definition list_libxdp :: "(u32, i32 \<times> u32 list, (i32 \<Rightarrow> u32 list) \<times> int) libxdp" where
  "list_libxdp =
     \<lparr>xl_create = (\<lambda>f n s. (Inr 9, s)),
      xl_attach = (\<lambda>p i mode s. if p = 0 \<or> p \<in> set (fst s i) then (- EEXIST, s) else (0, ((fst s)(i := fst s i @ [p]), snd s))),
      xl_fd = (\<lambda>p s. snd s),
      xl_get_from_ifindex = (\<lambda>i s. let ps = filter (\<lambda>p. p \<noteq> 0) (fst s i) in Inr (if ps = [] then None else Some (i, ps))),
      xl_detach_all = (\<lambda>mp s. (0, ((fst s)(fst mp := []), snd s))),
      xl_progs = snd,
      xl_attach_mode = (\<lambda>mp. XDP_MODE_SKB),
      xl_is_legacy = (\<lambda>mp. False),
      xl_main_prog = (\<lambda>mp. None),
      xl_hw_prog = (\<lambda>mp. None),
      xl_id = case_option 0 (\<lambda>p. p),
      xl_detach = (\<lambda>p i mode s.
        case p of
          None \<Rightarrow> (- EINVAL, s)
        | Some p \<Rightarrow> (0, ((fst s)(i := filter (\<lambda>q. q \<noteq> p) (fst s i)), snd s)))\<rparr>"

interpretation list_xdp: libxdp_laws list_libxdp list_att
  by unfold_locales
    (auto simp: list_libxdp_def list_att_def described_def EEXIST_def EINVAL_def fun_eq_iff Let_def filter_empty_conv split: if_splits)

definition sample_config_kern :: config_kern where
  "sample_config_kern = \<lparr>xdp_flags = 0, ifindex = 2, ifname_set = True, ifname_buf = [], redirect_ifindex = 0, redirect_ifname_set = False,
     redirect_ifname_buf = [], do_unload_flag = True, reuse_maps_flag = False, pin_dir = [], filename = ''x.o'', src_mac = [],
     dest_mac = [], xsk_bind_flags = 0, xsk_if_queue = 0, xsk_poll_mode = False, attach_mode = XDP_MODE_SKB, prog_id = 9,
     progname = ''xdp'', unload_all = False\<rparr>"

section \<open>Properties\<close>

text \<open>
  C16: unloading.  \<open>do_unload\<close> returns 0 only when, with \<open>unload_all\<close>, no program is left on the
  interface, and otherwise exactly the attached program with the id of the configuration is gone;
  in all other cases it returns 1 and nothing is detached.  It finds every program of the
  interface: when libxdp can list the programs and detach this one, it returns 0.
\<close>

theorem do_unload_result:
  assumes "libxdp_laws X att" "do_unload X cfg s = (code, s')"
  shows "(if code = EXIT_SUCCESS then
            (if unload_all cfg then att s' = (att s)(ifindex cfg := {})
             else \<exists>p\<in>att s (ifindex cfg). xl_id X (Some p) = prog_id cfg \<and> att s' = (att s)(ifindex cfg := att s (ifindex cfg) - {p}))
          else code = EXIT_FAILURE \<and> att s' = att s) \<and>
    (\<not> unload_all cfg \<and> (\<exists>mp. xl_get_from_ifindex X (ifindex cfg) s = Inr (Some mp)) \<and>
     (\<exists>p\<in>att s (ifindex cfg). xl_id X (Some p) = prog_id cfg \<and> (\<forall>mode. fst (xl_detach X (Some p) (ifindex cfg) mode s) = 0)) \<longrightarrow>
     code = EXIT_SUCCESS)"
proof -
  have "\<not> unload_all cfg \<and> (\<exists>mp. xl_get_from_ifindex X (ifindex cfg) s = Inr (Some mp)) \<and>
     (\<exists>p\<in>att s (ifindex cfg). xl_id X (Some p) = prog_id cfg \<and> (\<forall>mode. fst (xl_detach X (Some p) (ifindex cfg) mode s) = 0)) \<longrightarrow>
     code = EXIT_SUCCESS"
    using libxdp_laws.unload_found [OF assms(1) _ assms(2)] by blast
  moreover have "EXIT_SUCCESS \<noteq> EXIT_FAILURE" by (simp add: EXIT_SUCCESS_def EXIT_FAILURE_def)
  ultimately show ?thesis
    using libxdp_laws.unload_one [OF assms(1) _ assms(2)] libxdp_laws.unload_every [OF assms(1) _ assms(2)]
    by (cases "unload_all cfg") auto
qed

theorem do_unload_result_witness:
  "case do_unload list_libxdp sample_config_kern ((\<lambda>_. [])(2 := [7, 9]), 3) of
     (code, s') \<Rightarrow> code = EXIT_SUCCESS \<and> list_att s' 2 = {7}"
proof -
  obtain code s' where r: "do_unload list_libxdp sample_config_kern ((\<lambda>_. [])(2 := [7, 9]), 3) = (code, s')" by (meson surj_pair)
  have a: "list_att ((\<lambda>_. [])(2 := [7, 9]), 3) 2 = {7, 9}" by (auto simp: list_att_def)
  show ?thesis using do_unload_result [OF list_xdp.libxdp_laws_axioms r] r a
    by (auto simp: sample_config_kern_def list_libxdp_def Let_def)
qed

text \<open>
  Loading.  \<open>load_bpf_and_xdp_attach\<close> returns only with the program attached to the interface of the
  configuration in addition to those that were there.  It exits with another code than 0 in all
  other cases; then nothing has changed, except that a program without a descriptor stays attached.
\<close>

theorem load_kern_result:
  assumes "libxdp_laws X att" "load_bpf_and_xdp_attach_kern X cfg s = (r, s')"
  shows "case r of
           Inr p \<Rightarrow> att s' = (att s)(ifindex cfg := insert p (att s (ifindex cfg)))
         | Inl code \<Rightarrow> code \<noteq> 0 \<and>
             (att s' = att s \<or> code = EXIT_FAIL_BPF \<and> (\<exists>p. att s' = (att s)(ifindex cfg := insert p (att s (ifindex cfg))) \<and> xl_fd X p s' < 0))"
  using libxdp_laws.load_result [OF assms] by auto

theorem load_kern_result_witness:
  "case load_bpf_and_xdp_attach_kern list_libxdp sample_config_kern (\<lambda>_. [], - 1) of
     (r, s') \<Rightarrow> r = Inl EXIT_FAIL_BPF \<and> list_att s' 2 \<subseteq> {9}"
proof -
  have l: "load_bpf_and_xdp_attach_kern list_libxdp sample_config_kern (\<lambda>_. [], - 1) = (Inl EXIT_FAIL_BPF, ((\<lambda>_. [])(2 := [9]), - 1))"
    by (simp add: load_bpf_and_xdp_attach_kern_def list_libxdp_def sample_config_kern_def)
  show ?thesis using load_kern_result [OF list_xdp.libxdp_laws_axioms l] l by (auto simp: list_att_def)
qed

end
