(* ===== verification/Xdp_Stats.thy ===== *)
theory Xdp_Stats
  imports Packet
begin

text \<open>
  Counters per verdict, \<open>common/xdp_stats_kern.h\<close> and \<open>xdp_stats_kern_user.h\<close> of both variants: an
  array with one record per verdict, which every CPU has for itself.  The total over the CPUs,
  which user space reads, counts every packet once.
\<close>

section \<open>Recording\<close>

record datarec =
  rx_packets :: u64
  rx_bytes :: u64

definition XDP_STATS_MAX :: nat where "XDP_STATS_MAX = 5"

text \<open>
  The map \<open>xdp_stats_map\<close>: for a CPU the array of its records.  A lookup behind the end of the array
  gives NULL.
\<close>

type_synonym stats_map = "nat \<Rightarrow> datarec list"

definition stats_lookup :: "stats_map \<Rightarrow> nat \<Rightarrow> u32 \<Rightarrow> datarec option" where
  "stats_lookup m cpu key = (if unat key < length (m cpu) then Some (m cpu ! unat key) else None)"

text \<open>
  The verdict and the map afterwards; \<open>len\<close> is the distance of \<open>data\<close> and \<open>data_end\<close>.  The verdict
  0 is \<open>XDP_ABORTED\<close>.
\<close>

definition xdp_stats_record_action :: "nat \<Rightarrow> u64 \<Rightarrow> u32 \<Rightarrow> stats_map \<Rightarrow> u32 \<times> stats_map" where
  "xdp_stats_record_action cpu len action m =
     (if unat action \<ge> XDP_STATS_MAX then (0, m)
      else
        (case stats_lookup m cpu action of
           None \<Rightarrow> (0, m)
         | Some rec \<Rightarrow>
             (action, m(cpu := (m cpu)[unat action := \<lparr>rx_packets = rx_packets rec + 1, rx_bytes = rx_bytes rec + len\<rparr>]))))"

section \<open>Runs\<close>

text \<open>A run: the packets in the order in which they are counted, each with its CPU, length and verdict.\<close>

type_synonym stats_event = "nat \<times> u64 \<times> u32"

fun stats_run :: "stats_event list \<Rightarrow> stats_map \<Rightarrow> u32 list \<times> stats_map" where
  "stats_run [] m = ([], m)"
| "stats_run ((cpu, len, action) # es) m =
     (let (v, m) = xdp_stats_record_action cpu len action m; (vs, m) = stats_run es m in (v # vs, m))"

definition stats_init :: stats_map where
  "stats_init cpu = replicate XDP_STATS_MAX \<lparr>rx_packets = 0, rx_bytes = 0\<rparr>"

text \<open>What user space reads: the sums over the CPUs below a number.\<close>

definition total_packets :: "nat \<Rightarrow> stats_map \<Rightarrow> u32 \<Rightarrow> u64" where
  "total_packets ncpu m a = (\<Sum>c<ncpu. rx_packets (m c ! unat a))"

definition total_bytes :: "nat \<Rightarrow> stats_map \<Rightarrow> u32 \<Rightarrow> u64" where
  "total_bytes ncpu m a = (\<Sum>c<ncpu. rx_bytes (m c ! unat a))"

lemma sum_upd:
  fixes f g :: "nat \<Rightarrow> u64"
  assumes "c < n" "g c = f c + d" "\<And>i. i \<noteq> c \<Longrightarrow> g i = f i"
  shows "(\<Sum>i<n. g i) = (\<Sum>i<n. f i) + d"
proof -
  have "(\<Sum>i<n. g i) = g c + (\<Sum>i\<in>{..<n} - {c}. g i)" using assms(1) by (intro sum.remove) auto
  also have "(\<Sum>i\<in>{..<n} - {c}. g i) = (\<Sum>i\<in>{..<n} - {c}. f i)" using assms(3) by (intro sum.cong) auto
  also have "g c + \<dots> = f c + (\<Sum>i\<in>{..<n} - {c}. f i) + d" using assms(2) by simp
  also have "f c + (\<Sum>i\<in>{..<n} - {c}. f i) = (\<Sum>i<n. f i)" using assms(1) by (intro sum.remove [symmetric]) auto
  finally show ?thesis .
qed

lemma record_action_cases:
  assumes "\<And>c. length (m c) = XDP_STATS_MAX" "xdp_stats_record_action cpu len action m = (v, m')"
  shows "length (m' c) = XDP_STATS_MAX" "v = (if unat action < XDP_STATS_MAX then action else 0)"
    "unat a < XDP_STATS_MAX \<Longrightarrow> m' c ! unat a =
       (if c = cpu \<and> a = action then \<lparr>rx_packets = rx_packets (m c ! unat a) + 1, rx_bytes = rx_bytes (m c ! unat a) + len\<rparr> else m c ! unat a)"
  using assms by (auto simp: xdp_stats_record_action_def stats_lookup_def nth_list_update word_unat_eq_iff split: if_splits)

lemma record_action_totals:
  assumes "\<And>c. length (m c) = XDP_STATS_MAX" "xdp_stats_record_action cpu len action m = (v, m')" "cpu < n" "unat a < XDP_STATS_MAX"
  shows "total_packets n m' a = total_packets n m a + (if action = a then 1 else 0)"
    "total_bytes n m' a = total_bytes n m a + (if action = a then len else 0)"
  unfolding total_packets_def total_bytes_def using record_action_cases(3) [OF assms(1,2,4)] assms(3)
  by (intro sum_upd [of cpu]; auto)+

section \<open>Properties\<close>

text \<open>
  Packets are counted once.  From empty counters, in every order of packets on the CPUs of the
  machine, the total of a verdict is the number of packets with this verdict and the total of
  bytes the sum of their lengths, both modulo 2^64; the verdict of every packet is passed on, except
  that one that is out of range becomes \<open>XDP_ABORTED\<close> and is not counted.
\<close>

theorem stats_count_every_packet:
  assumes "stats_run es stats_init = (vs, m)" "\<forall>(cpu, len, action) \<in> set es. cpu < ncpu" "unat a < XDP_STATS_MAX"
  shows "total_packets ncpu m a = of_nat (length (filter (\<lambda>(cpu, len, action). action = a) es)) \<and>
    total_bytes ncpu m a = sum_list (map (\<lambda>(cpu, len, action). len) (filter (\<lambda>(cpu, len, action). action = a) es)) \<and>
    vs = map (\<lambda>(cpu, len, action). if unat action < XDP_STATS_MAX then action else 0) es"
proof -
  have "total_packets ncpu m a = total_packets ncpu m0 a + of_nat (length (filter (\<lambda>(cpu, len, action). action = a) es)) \<and>
    total_bytes ncpu m a = total_bytes ncpu m0 a + sum_list (map (\<lambda>(cpu, len, action). len) (filter (\<lambda>(cpu, len, action). action = a) es)) \<and>
    vs = map (\<lambda>(cpu, len, action). if unat action < XDP_STATS_MAX then action else 0) es"
    if "stats_run es m0 = (vs, m)" "\<And>c. length (m0 c) = XDP_STATS_MAX" for m0
    using that assms(2)
  proof (induction es arbitrary: m0 vs)
    case Nil
    then show ?case by simp
  next
    case (Cons e es)
    obtain cpu len action where e: "e = (cpu, len, action)" by (cases e)
    obtain v m1 where r: "xdp_stats_record_action cpu len action m0 = (v, m1)" by force
    obtain vs' where t: "stats_run es m1 = (vs', m)" "vs = v # vs'" using Cons.prems(1) by (auto simp: e r split: prod.splits)
    have cpu: "cpu < ncpu" "\<forall>(cpu, len, action) \<in> set es. cpu < ncpu" using Cons.prems(3) by (auto simp: e)
    note c = record_action_cases(1,2) [OF Cons.prems(2) r] and u = record_action_totals [OF Cons.prems(2) r cpu(1) assms(3)]
    show ?case using Cons.IH [OF t(1) c(1) cpu(2)] c(2) u t(2) by (auto simp: e)
  qed
  from this [OF assms(1)] show ?thesis using assms(3) by (simp add: stats_init_def total_packets_def total_bytes_def)
qed

theorem stats_count_every_packet_witness:
  "\<exists>vs m. stats_run [(0, 60, 2), (1, 100, 2), (1, 60, 1), (0, 40, 9)] stats_init = (vs, m) \<and> vs = [2, 2, 1, 0] \<and>
     total_packets 2 m 2 = 2 \<and> total_bytes 2 m 2 = 160"
proof -
  obtain vs m where r: "stats_run [(0, 60, 2), (1, 100, 2), (1, 60, 1), (0, 40, 9)] stats_init = (vs, m)" by (meson surj_pair)
  from stats_count_every_packet [OF r, of 2 2] r show ?thesis by (simp add: XDP_STATS_MAX_def)
qed

end
