(* ===== verification/Bpf_Syscall.thy ===== *)
theory Bpf_Syscall
  imports Packet
begin

text \<open>
  The wrappers of the \<open>bpf\<close> system call, \<open>libbpf/src/bpf.c\<close>, through which the loader creates and
  accesses maps and loads programs.

  The kernel is an argument: \<open>bpf_kernel\<close> has one function per shape of \<open>union bpf_attr\<close>, from the
  command, the attributes and the kernel's state to the return value, \<open>errno\<close>, the attributes as
  the kernel leaves them and its new state.  Pointers are 64-bit addresses, 0 for the null
  pointer; only the \<open>func_info\<close> and \<open>line_info\<close> records, which a retry copies, are given by their
  bytes.
\<close>

section \<open>Commands and types\<close>

datatype bpf_cmd =
    BPF_MAP_CREATE
  | BPF_MAP_LOOKUP_ELEM
  | BPF_MAP_UPDATE_ELEM
  | BPF_MAP_DELETE_ELEM
  | BPF_MAP_GET_NEXT_KEY
  | BPF_PROG_LOAD
  | BPF_OBJ_PIN
  | BPF_OBJ_GET
  | BPF_PROG_ATTACH
  | BPF_PROG_DETACH
  | BPF_PROG_TEST_RUN
  | BPF_PROG_GET_NEXT_ID
  | BPF_MAP_GET_NEXT_ID
  | BPF_PROG_GET_FD_BY_ID
  | BPF_MAP_GET_FD_BY_ID
  | BPF_OBJ_GET_INFO_BY_FD
  | BPF_PROG_QUERY
  | BPF_RAW_TRACEPOINT_OPEN
  | BPF_BTF_LOAD
  | BPF_BTF_GET_FD_BY_ID
  | BPF_TASK_FD_QUERY
  | BPF_MAP_LOOKUP_AND_DELETE_ELEM
  | BPF_MAP_FREEZE
  | BPF_BTF_GET_NEXT_ID

datatype bpf_map_type =
    BPF_MAP_TYPE_UNSPEC
  | BPF_MAP_TYPE_HASH
  | BPF_MAP_TYPE_ARRAY
  | BPF_MAP_TYPE_PROG_ARRAY
  | BPF_MAP_TYPE_PERF_EVENT_ARRAY
  | BPF_MAP_TYPE_PERCPU_HASH
  | BPF_MAP_TYPE_PERCPU_ARRAY
  | BPF_MAP_TYPE_STACK_TRACE
  | BPF_MAP_TYPE_CGROUP_ARRAY
  | BPF_MAP_TYPE_LRU_HASH
  | BPF_MAP_TYPE_LRU_PERCPU_HASH
  | BPF_MAP_TYPE_LPM_TRIE
  | BPF_MAP_TYPE_ARRAY_OF_MAPS
  | BPF_MAP_TYPE_HASH_OF_MAPS
  | BPF_MAP_TYPE_DEVMAP
  | BPF_MAP_TYPE_SOCKMAP
  | BPF_MAP_TYPE_CPUMAP
  | BPF_MAP_TYPE_XSKMAP
  | BPF_MAP_TYPE_SOCKHASH
  | BPF_MAP_TYPE_CGROUP_STORAGE
  | BPF_MAP_TYPE_REUSEPORT_SOCKARRAY
  | BPF_MAP_TYPE_PERCPU_CGROUP_STORAGE
  | BPF_MAP_TYPE_QUEUE
  | BPF_MAP_TYPE_STACK
  | BPF_MAP_TYPE_SK_STORAGE
  | BPF_MAP_TYPE_DEVMAP_HASH

datatype bpf_prog_type =
    BPF_PROG_TYPE_UNSPEC
  | BPF_PROG_TYPE_SOCKET_FILTER
  | BPF_PROG_TYPE_KPROBE
  | BPF_PROG_TYPE_SCHED_CLS
  | BPF_PROG_TYPE_SCHED_ACT
  | BPF_PROG_TYPE_TRACEPOINT
  | BPF_PROG_TYPE_XDP
  | BPF_PROG_TYPE_PERF_EVENT
  | BPF_PROG_TYPE_CGROUP_SKB
  | BPF_PROG_TYPE_CGROUP_SOCK
  | BPF_PROG_TYPE_LWT_IN
  | BPF_PROG_TYPE_LWT_OUT
  | BPF_PROG_TYPE_LWT_XMIT
  | BPF_PROG_TYPE_SOCK_OPS
  | BPF_PROG_TYPE_SK_SKB
  | BPF_PROG_TYPE_CGROUP_DEVICE
  | BPF_PROG_TYPE_SK_MSG
  | BPF_PROG_TYPE_RAW_TRACEPOINT
  | BPF_PROG_TYPE_CGROUP_SOCK_ADDR
  | BPF_PROG_TYPE_LWT_SEG6LOCAL
  | BPF_PROG_TYPE_LIRC_MODE2
  | BPF_PROG_TYPE_SK_REUSEPORT
  | BPF_PROG_TYPE_FLOW_DISSECTOR
  | BPF_PROG_TYPE_CGROUP_SYSCTL
  | BPF_PROG_TYPE_RAW_TRACEPOINT_WRITABLE
  | BPF_PROG_TYPE_CGROUP_SOCKOPT
  | BPF_PROG_TYPE_TRACING

datatype bpf_attach_type =
    BPF_CGROUP_INET_INGRESS
  | BPF_CGROUP_INET_EGRESS
  | BPF_CGROUP_INET_SOCK_CREATE
  | BPF_CGROUP_SOCK_OPS
  | BPF_SK_SKB_STREAM_PARSER
  | BPF_SK_SKB_STREAM_VERDICT
  | BPF_CGROUP_DEVICE
  | BPF_SK_MSG_VERDICT
  | BPF_CGROUP_INET4_BIND
  | BPF_CGROUP_INET6_BIND
  | BPF_CGROUP_INET4_CONNECT
  | BPF_CGROUP_INET6_CONNECT
  | BPF_CGROUP_INET4_POST_BIND
  | BPF_CGROUP_INET6_POST_BIND
  | BPF_CGROUP_UDP4_SENDMSG
  | BPF_CGROUP_UDP6_SENDMSG
  | BPF_LIRC_MODE2
  | BPF_FLOW_DISSECTOR
  | BPF_CGROUP_SYSCTL
  | BPF_CGROUP_UDP4_RECVMSG
  | BPF_CGROUP_UDP6_RECVMSG
  | BPF_CGROUP_GETSOCKOPT
  | BPF_CGROUP_SETSOCKOPT
  | BPF_TRACE_RAW_TP

section \<open>Attributes\<close>

record map_create_attr =
  mc_map_type :: bpf_map_type
  mc_key_size :: u32
  mc_value_size :: u32
  mc_max_entries :: u32
  mc_map_flags :: u32
  mc_inner_map_fd :: u32
  mc_numa_node :: u32
  mc_map_name :: "u8 list"
  mc_map_ifindex :: u32
  mc_btf_fd :: u32
  mc_btf_key_type_id :: u32
  mc_btf_value_type_id :: u32

text \<open>\<open>el_value\<close> is also \<open>next_key\<close>: the two share their place in the union.\<close>

record elem_attr =
  el_map_fd :: u32
  el_key :: u64
  el_value :: u64
  el_flags :: u64

record prog_load_attr =
  pl_prog_type :: bpf_prog_type
  pl_insn_cnt :: u32
  pl_insns :: u64
  pl_license :: u64
  pl_log_level :: u32
  pl_log_size :: u32
  pl_log_buf :: u64
  pl_kern_version :: u32
  pl_prog_flags :: u32
  pl_prog_name :: "u8 list"
  pl_prog_ifindex :: u32
  pl_expected_attach_type :: bpf_attach_type
  pl_prog_btf_fd :: u32
  pl_func_info_rec_size :: u32
  pl_func_info :: packet
  pl_func_info_cnt :: u32
  pl_line_info_rec_size :: u32
  pl_line_info :: packet
  pl_line_info_cnt :: u32
  pl_attach_btf_id :: u32

record obj_attr =
  ob_pathname :: u64
  ob_bpf_fd :: u32

record attach_attr =
  at_target_fd :: u32
  at_attach_bpf_fd :: u32
  at_attach_type :: bpf_attach_type
  at_attach_flags :: u32

record query_attr =
  qu_target_fd :: u32
  qu_attach_type :: bpf_attach_type
  qu_query_flags :: u32
  qu_attach_flags :: u32
  qu_prog_ids :: u64
  qu_prog_cnt :: u32

record test_attr =
  te_prog_fd :: u32
  te_retval :: u32
  te_data_size_in :: u32
  te_data_size_out :: u32
  te_data_in :: u64
  te_data_out :: u64
  te_repeat :: u32
  te_duration :: u32
  te_ctx_size_in :: u32
  te_ctx_size_out :: u32
  te_ctx_in :: u64
  te_ctx_out :: u64

text \<open>\<open>id_id\<close> stands for \<open>start_id\<close>, \<open>prog_id\<close>, \<open>map_id\<close> and \<open>btf_id\<close>, which share their place.\<close>

record id_attr =
  id_id :: u32
  id_next_id :: u32

record info_attr =
  in_bpf_fd :: u32
  in_info_len :: u32
  in_info :: u64

record raw_tracepoint_attr =
  rt_name :: u64
  rt_prog_fd :: u32

record btf_load_attr =
  bt_btf :: u64
  bt_log_buf :: u64
  bt_size :: u32
  bt_log_size :: u32
  bt_log_level :: u32

record task_query_attr =
  tq_pid :: u32
  tq_fd :: u32
  tq_flags :: u32
  tq_buf_len :: u32
  tq_buf :: u64
  tq_prog_id :: u32
  tq_fd_type :: u32
  tq_probe_offset :: u64
  tq_probe_addr :: u64

type_synonym ('a, 's) sys_call = "bpf_cmd \<Rightarrow> 'a \<Rightarrow> 's \<Rightarrow> int \<times> int \<times> 'a \<times> 's"

record 's bpf_kernel =
  k_map_create :: "(map_create_attr, 's) sys_call"
  k_elem :: "(elem_attr, 's) sys_call"
  k_prog_load :: "(prog_load_attr, 's) sys_call"
  k_obj :: "(obj_attr, 's) sys_call"
  k_attach :: "(attach_attr, 's) sys_call"
  k_query :: "(query_attr, 's) sys_call"
  k_test :: "(test_attr, 's) sys_call"
  k_id :: "(id_attr, 's) sys_call"
  k_info :: "(info_attr, 's) sys_call"
  k_raw_tracepoint :: "(raw_tracepoint_attr, 's) sys_call"
  k_btf_load :: "(btf_load_attr, 's) sys_call"
  k_task_query :: "(task_query_attr, 's) sys_call"

text \<open>A call whose attributes are not read back.\<close>

definition sys_bpf :: "('a, 's) sys_call \<Rightarrow> bpf_cmd \<Rightarrow> 'a \<Rightarrow> 's \<Rightarrow> int \<times> 's" where
  "sys_bpf k cmd attr s = (case k cmd attr s of (ret, _, _, s) \<Rightarrow> (ret, s))"

definition EAGAIN :: int where "EAGAIN = 11"
definition E2BIG :: int where "E2BIG = 7"

definition BPF_F_NUMA_NODE :: u32 where "BPF_F_NUMA_NODE = 4"
definition BPF_OBJ_NAME_LEN :: nat where "BPF_OBJ_NAME_LEN = 16"

section \<open>Creating maps\<close>

record create_map_attr =
  cm_name :: "u8 list option"
  cm_map_type :: bpf_map_type
  cm_map_flags :: u32
  cm_key_size :: u32
  cm_value_size :: u32
  cm_max_entries :: u32
  cm_numa_node :: u32
  cm_btf_fd :: u32
  cm_btf_key_type_id :: u32
  cm_btf_value_type_id :: u32
  cm_map_ifindex :: u32
  cm_inner_map_fd :: u32

text \<open>Copying a name into a zeroed field of 16 bytes; a name is its characters without the final 0.\<close>

definition obj_name :: "u8 list option \<Rightarrow> u8 list" where
  "obj_name nm =
     (case nm of None \<Rightarrow> replicate BPF_OBJ_NAME_LEN 0
      | Some n \<Rightarrow> mem_write (replicate BPF_OBJ_NAME_LEN 0) 0 (take (min (length n) (BPF_OBJ_NAME_LEN - 1)) n))"

definition bpf_create_map_xattr :: "'s bpf_kernel \<Rightarrow> create_map_attr \<Rightarrow> 's \<Rightarrow> int \<times> 's" where
  "bpf_create_map_xattr K c s =
     sys_bpf (k_map_create K) BPF_MAP_CREATE
       \<lparr>mc_map_type = cm_map_type c, mc_key_size = cm_key_size c, mc_value_size = cm_value_size c,
        mc_max_entries = cm_max_entries c, mc_map_flags = cm_map_flags c, mc_inner_map_fd = cm_inner_map_fd c,
        mc_numa_node = cm_numa_node c, mc_map_name = obj_name (cm_name c), mc_map_ifindex = cm_map_ifindex c,
        mc_btf_fd = cm_btf_fd c, mc_btf_key_type_id = cm_btf_key_type_id c, mc_btf_value_type_id = cm_btf_value_type_id c\<rparr> s"

definition create_map_attr0 :: create_map_attr where
  "create_map_attr0 =
     \<lparr>cm_name = None, cm_map_type = BPF_MAP_TYPE_UNSPEC, cm_map_flags = 0, cm_key_size = 0, cm_value_size = 0,
      cm_max_entries = 0, cm_numa_node = 0, cm_btf_fd = 0, cm_btf_key_type_id = 0, cm_btf_value_type_id = 0,
      cm_map_ifindex = 0, cm_inner_map_fd = 0\<rparr>"

definition bpf_create_map_node ::
    "'s bpf_kernel \<Rightarrow> bpf_map_type \<Rightarrow> u8 list option \<Rightarrow> i32 \<Rightarrow> i32 \<Rightarrow> i32 \<Rightarrow> u32 \<Rightarrow> i32 \<Rightarrow> 's \<Rightarrow> int \<times> 's" where
  "bpf_create_map_node K map_type nm key_size value_size max_entries map_flags node s =
     (let map_attr = create_map_attr0\<lparr>cm_name := nm, cm_map_type := map_type, cm_map_flags := map_flags,
            cm_key_size := key_size, cm_value_size := value_size, cm_max_entries := max_entries\<rparr>;
          map_attr = (if sint node \<ge> 0 then map_attr\<lparr>cm_numa_node := node, cm_map_flags := cm_map_flags map_attr OR BPF_F_NUMA_NODE\<rparr>
                      else map_attr)
      in bpf_create_map_xattr K map_attr s)"

definition bpf_create_map :: "'s bpf_kernel \<Rightarrow> bpf_map_type \<Rightarrow> i32 \<Rightarrow> i32 \<Rightarrow> i32 \<Rightarrow> u32 \<Rightarrow> 's \<Rightarrow> int \<times> 's" where
  "bpf_create_map K map_type key_size value_size max_entries map_flags s =
     bpf_create_map_xattr K (create_map_attr0\<lparr>cm_map_type := map_type, cm_map_flags := map_flags,
       cm_key_size := key_size, cm_value_size := value_size, cm_max_entries := max_entries\<rparr>) s"

definition bpf_create_map_name ::
    "'s bpf_kernel \<Rightarrow> bpf_map_type \<Rightarrow> u8 list option \<Rightarrow> i32 \<Rightarrow> i32 \<Rightarrow> i32 \<Rightarrow> u32 \<Rightarrow> 's \<Rightarrow> int \<times> 's" where
  "bpf_create_map_name K map_type nm key_size value_size max_entries map_flags s =
     bpf_create_map_xattr K (create_map_attr0\<lparr>cm_name := nm, cm_map_type := map_type, cm_map_flags := map_flags,
       cm_key_size := key_size, cm_value_size := value_size, cm_max_entries := max_entries\<rparr>) s"

definition bpf_create_map_in_map_node ::
    "'s bpf_kernel \<Rightarrow> bpf_map_type \<Rightarrow> u8 list option \<Rightarrow> i32 \<Rightarrow> i32 \<Rightarrow> i32 \<Rightarrow> u32 \<Rightarrow> i32 \<Rightarrow> 's \<Rightarrow> int \<times> 's" where
  "bpf_create_map_in_map_node K map_type nm key_size inner_map_fd max_entries map_flags node s =
     (let attr = \<lparr>mc_map_type = map_type, mc_key_size = key_size, mc_value_size = 4, mc_max_entries = max_entries,
            mc_map_flags = map_flags, mc_inner_map_fd = inner_map_fd, mc_numa_node = 0, mc_map_name = obj_name nm,
            mc_map_ifindex = 0, mc_btf_fd = 0, mc_btf_key_type_id = 0, mc_btf_value_type_id = 0\<rparr>;
          attr = (if sint node \<ge> 0 then attr\<lparr>mc_map_flags := mc_map_flags attr OR BPF_F_NUMA_NODE, mc_numa_node := node\<rparr> else attr)
      in sys_bpf (k_map_create K) BPF_MAP_CREATE attr s)"

definition bpf_create_map_in_map ::
    "'s bpf_kernel \<Rightarrow> bpf_map_type \<Rightarrow> u8 list option \<Rightarrow> i32 \<Rightarrow> i32 \<Rightarrow> i32 \<Rightarrow> u32 \<Rightarrow> 's \<Rightarrow> int \<times> 's" where
  "bpf_create_map_in_map K map_type nm key_size inner_map_fd max_entries map_flags s =
     bpf_create_map_in_map_node K map_type nm key_size inner_map_fd max_entries map_flags (- 1) s"

section \<open>Loading programs\<close>

text \<open>The log buffer: its address (0 for none) and its size.\<close>

record load_program_attr =
  lp_prog_type :: bpf_prog_type
  lp_expected_attach_type :: bpf_attach_type
  lp_name :: "u8 list option"
  lp_insns :: u64
  lp_insns_cnt :: u64
  lp_license :: u64
  lp_kern_version :: u32
  lp_prog_ifindex :: u32
  lp_prog_btf_fd :: u32
  lp_func_info_rec_size :: u32
  lp_func_info :: packet
  lp_func_info_cnt :: u32
  lp_line_info_rec_size :: u32
  lp_line_info :: packet
  lp_line_info_cnt :: u32
  lp_log_level :: u32
  lp_prog_flags :: u32

text \<open>The loop repeats the call while the kernel answers \<open>EAGAIN\<close>; \<open>None\<close> is a loop without end.\<close>

partial_function (option) sys_bpf_prog_load ::
    "'s bpf_kernel \<Rightarrow> prog_load_attr \<Rightarrow> 's \<Rightarrow> (int \<times> int \<times> prog_load_attr \<times> 's) option" where
  "sys_bpf_prog_load K attr s =
     (let r = k_prog_load K BPF_PROG_LOAD attr s
      in if fst r < 0 \<and> fst (snd r) = EAGAIN then sys_bpf_prog_load K (fst (snd (snd r))) (snd (snd (snd r)))
         else Some r)"

text \<open>Copying the records, with everything past the size that the kernel knows set to zero.\<close>

fun zero_tails :: "nat \<Rightarrow> nat \<Rightarrow> nat \<Rightarrow> packet \<Rightarrow> packet" where
  "zero_tails 0 actual expected orecord = []"
| "zero_tails (Suc n) actual expected orecord =
     take expected orecord @ replicate (actual - expected) 0 @ zero_tails n actual expected (drop actual orecord)"

definition alloc_zero_tailing_info :: "bool \<Rightarrow> packet \<Rightarrow> u32 \<Rightarrow> u32 \<Rightarrow> u32 \<Rightarrow> packet option" where
  "alloc_zero_tailing_info malloc_ok orecord cnt actual_rec_size expected_rec_size =
     (if \<not> malloc_ok then None
      else Some (zero_tails (unat cnt) (unat actual_rec_size) (unat expected_rec_size) orecord))"

text \<open>
  The retries after \<open>E2BIG\<close>: \<open>finfo\<close> and \<open>linfo\<close> say whether the records were already replaced,
  \<open>mallocs\<close> whether their copies can be allocated.  The result is the descriptor, whether
  the function leaves through \<open>done\<close>, and the attributes for a last attempt.
\<close>

function load_retry ::
    "'s bpf_kernel \<Rightarrow> load_program_attr \<Rightarrow> bool \<times> bool \<Rightarrow> bool \<Rightarrow> bool \<Rightarrow> int \<Rightarrow> int \<Rightarrow> prog_load_attr \<Rightarrow> 's \<Rightarrow>
     (int \<times> bool \<times> prog_load_attr \<times> 's) option" where
  "load_retry K la mallocs finfo linfo fd errno attr s =
     (if \<not> (errno = E2BIG \<and> (\<not> finfo \<or> \<not> linfo)) then Some (fd, False, attr, s)
      else if \<not> finfo \<and> pl_func_info_cnt attr \<noteq> 0 \<and> pl_func_info_rec_size attr < lp_func_info_rec_size la then
        (case alloc_zero_tailing_info (fst mallocs) (lp_func_info la) (lp_func_info_cnt la) (lp_func_info_rec_size la) (pl_func_info_rec_size attr) of
           None \<Rightarrow> Some (fd, True, attr, s)
         | Some info \<Rightarrow>
             (case sys_bpf_prog_load K (attr\<lparr>pl_func_info := info, pl_func_info_rec_size := lp_func_info_rec_size la\<rparr>) s of
                None \<Rightarrow> None
              | Some (fd, errno, attr, s) \<Rightarrow>
                  if fd \<ge> 0 then Some (fd, True, attr, s) else load_retry K la mallocs True linfo fd errno attr s))
      else if \<not> linfo \<and> pl_line_info_cnt attr \<noteq> 0 \<and> pl_line_info_rec_size attr < lp_line_info_rec_size la then
        (case alloc_zero_tailing_info (snd mallocs) (lp_line_info la) (lp_line_info_cnt la) (lp_line_info_rec_size la) (pl_line_info_rec_size attr) of
           None \<Rightarrow> Some (fd, True, attr, s)
         | Some info \<Rightarrow>
             (case sys_bpf_prog_load K (attr\<lparr>pl_line_info := info, pl_line_info_rec_size := lp_line_info_rec_size la\<rparr>) s of
                None \<Rightarrow> None
              | Some (fd, errno, attr, s) \<Rightarrow>
                  if fd \<ge> 0 then Some (fd, True, attr, s) else load_retry K la mallocs finfo True fd errno attr s))
      else Some (fd, False, attr, s))"
  by pat_completeness auto
termination
  by (relation "measure (\<lambda>(_, _, _, finfo, linfo, _, _, _, _). (if finfo then 0 else 1) + (if linfo then 0 else 1 :: nat))") auto

declare load_retry.simps [simp del]

definition load_attr0 :: "load_program_attr \<Rightarrow> u64 \<Rightarrow> u64 \<Rightarrow> prog_load_attr" where
  "load_attr0 la log_buf log_buf_sz =
     \<lparr>pl_prog_type = lp_prog_type la, pl_insn_cnt = ucast (lp_insns_cnt la), pl_insns = lp_insns la, pl_license = lp_license la,
      pl_log_level = lp_log_level la, pl_log_size = (if lp_log_level la \<noteq> 0 then ucast log_buf_sz else 0),
      pl_log_buf = (if lp_log_level la \<noteq> 0 then log_buf else 0), pl_kern_version = lp_kern_version la,
      pl_prog_flags = lp_prog_flags la, pl_prog_name = obj_name (lp_name la),
      pl_prog_ifindex = (if lp_prog_type la = BPF_PROG_TYPE_TRACING then 0 else lp_prog_ifindex la),
      pl_expected_attach_type = lp_expected_attach_type la, pl_prog_btf_fd = lp_prog_btf_fd la,
      pl_func_info_rec_size = lp_func_info_rec_size la, pl_func_info = lp_func_info la, pl_func_info_cnt = lp_func_info_cnt la,
      pl_line_info_rec_size = lp_line_info_rec_size la, pl_line_info = lp_line_info la, pl_line_info_cnt = lp_line_info_cnt la,
      pl_attach_btf_id = (if lp_prog_type la = BPF_PROG_TYPE_TRACING then lp_prog_ifindex la else 0)\<rparr>"

definition bpf_load_program_xattr ::
    "'s bpf_kernel \<Rightarrow> bool \<times> bool \<Rightarrow> load_program_attr option \<Rightarrow> u64 \<Rightarrow> u64 \<Rightarrow> 's \<Rightarrow> (int \<times> 's) option" where
  "bpf_load_program_xattr K mallocs load_attr log_buf log_buf_sz s =
     (case load_attr of
        None \<Rightarrow> Some (- EINVAL, s)
      | Some la \<Rightarrow>
          if (log_buf = 0) \<noteq> (log_buf_sz = 0) then Some (- EINVAL, s)
          else if lp_log_level la > 7 \<or> (lp_log_level la \<noteq> 0 \<and> log_buf = 0) then Some (- EINVAL, s)
          else
            case sys_bpf_prog_load K (load_attr0 la log_buf log_buf_sz) s of
              None \<Rightarrow> None
            | Some (fd, errno, attr, s) \<Rightarrow>
                if fd \<ge> 0 then Some (fd, s)
                else
                  case load_retry K la mallocs False False fd errno attr s of
                    None \<Rightarrow> None
                  | Some (fd, fin, attr, s) \<Rightarrow>
                      if fin \<or> lp_log_level la \<noteq> 0 \<or> log_buf = 0 then Some (fd, s)
                      else
                        map_option (\<lambda>(fd, _, _, s). (fd, s))
                          (sys_bpf_prog_load K (attr\<lparr>pl_log_buf := log_buf, pl_log_size := ucast log_buf_sz, pl_log_level := 1\<rparr>) s))"

definition load_program_attr0 :: load_program_attr where
  "load_program_attr0 =
     \<lparr>lp_prog_type = BPF_PROG_TYPE_UNSPEC, lp_expected_attach_type = BPF_CGROUP_INET_INGRESS, lp_name = None, lp_insns = 0,
      lp_insns_cnt = 0, lp_license = 0, lp_kern_version = 0, lp_prog_ifindex = 0, lp_prog_btf_fd = 0, lp_func_info_rec_size = 0,
      lp_func_info = [], lp_func_info_cnt = 0, lp_line_info_rec_size = 0, lp_line_info = [], lp_line_info_cnt = 0,
      lp_log_level = 0, lp_prog_flags = 0\<rparr>"

definition bpf_load_program ::
    "'s bpf_kernel \<Rightarrow> bpf_prog_type \<Rightarrow> u64 \<Rightarrow> u64 \<Rightarrow> u64 \<Rightarrow> u32 \<Rightarrow> u64 \<Rightarrow> u64 \<Rightarrow> 's \<Rightarrow> (int \<times> 's) option" where
  "bpf_load_program K ptype insns insns_cnt license kern_version log_buf log_buf_sz s =
     bpf_load_program_xattr K (True, True)
       (Some (load_program_attr0\<lparr>lp_prog_type := ptype, lp_insns := insns, lp_insns_cnt := insns_cnt, lp_license := license,
          lp_kern_version := kern_version\<rparr>)) log_buf log_buf_sz s"

definition bpf_verify_program ::
    "'s bpf_kernel \<Rightarrow> bpf_prog_type \<Rightarrow> u64 \<Rightarrow> u64 \<Rightarrow> u32 \<Rightarrow> u64 \<Rightarrow> u32 \<Rightarrow> u64 \<Rightarrow> u64 \<Rightarrow> i32 \<Rightarrow> 's \<Rightarrow> (int \<times> 's) option" where
  "bpf_verify_program K ptype insns insns_cnt prog_flags license kern_version log_buf log_buf_sz log_level s =
     map_option (\<lambda>(fd, _, _, s). (fd, s))
       (sys_bpf_prog_load K
         ((load_attr0 (load_program_attr0\<lparr>lp_prog_type := ptype, lp_insns := insns, lp_insns_cnt := insns_cnt, lp_license := license,
             lp_kern_version := kern_version, lp_prog_flags := prog_flags\<rparr>) 0 0)
           \<lparr>pl_log_buf := log_buf, pl_log_size := ucast log_buf_sz, pl_log_level := log_level\<rparr>) s)"

section \<open>Elements\<close>

definition elem_attr0 :: elem_attr where "elem_attr0 = \<lparr>el_map_fd = 0, el_key = 0, el_value = 0, el_flags = 0\<rparr>"

definition bpf_map_update_elem :: "'s bpf_kernel \<Rightarrow> i32 \<Rightarrow> u64 \<Rightarrow> u64 \<Rightarrow> u64 \<Rightarrow> 's \<Rightarrow> int \<times> 's" where
  "bpf_map_update_elem K fd key val flags =
     sys_bpf (k_elem K) BPF_MAP_UPDATE_ELEM (elem_attr0\<lparr>el_map_fd := fd, el_key := key, el_value := val, el_flags := flags\<rparr>)"

definition bpf_map_lookup_elem :: "'s bpf_kernel \<Rightarrow> i32 \<Rightarrow> u64 \<Rightarrow> u64 \<Rightarrow> 's \<Rightarrow> int \<times> 's" where
  "bpf_map_lookup_elem K fd key val =
     sys_bpf (k_elem K) BPF_MAP_LOOKUP_ELEM (elem_attr0\<lparr>el_map_fd := fd, el_key := key, el_value := val\<rparr>)"

definition bpf_map_lookup_elem_flags :: "'s bpf_kernel \<Rightarrow> i32 \<Rightarrow> u64 \<Rightarrow> u64 \<Rightarrow> u64 \<Rightarrow> 's \<Rightarrow> int \<times> 's" where
  "bpf_map_lookup_elem_flags K fd key val flags =
     sys_bpf (k_elem K) BPF_MAP_LOOKUP_ELEM (elem_attr0\<lparr>el_map_fd := fd, el_key := key, el_value := val, el_flags := flags\<rparr>)"

definition bpf_map_lookup_and_delete_elem :: "'s bpf_kernel \<Rightarrow> i32 \<Rightarrow> u64 \<Rightarrow> u64 \<Rightarrow> 's \<Rightarrow> int \<times> 's" where
  "bpf_map_lookup_and_delete_elem K fd key val =
     sys_bpf (k_elem K) BPF_MAP_LOOKUP_AND_DELETE_ELEM (elem_attr0\<lparr>el_map_fd := fd, el_key := key, el_value := val\<rparr>)"

definition bpf_map_delete_elem :: "'s bpf_kernel \<Rightarrow> i32 \<Rightarrow> u64 \<Rightarrow> 's \<Rightarrow> int \<times> 's" where
  "bpf_map_delete_elem K fd key = sys_bpf (k_elem K) BPF_MAP_DELETE_ELEM (elem_attr0\<lparr>el_map_fd := fd, el_key := key\<rparr>)"

definition bpf_map_get_next_key :: "'s bpf_kernel \<Rightarrow> i32 \<Rightarrow> u64 \<Rightarrow> u64 \<Rightarrow> 's \<Rightarrow> int \<times> 's" where
  "bpf_map_get_next_key K fd key next_key =
     sys_bpf (k_elem K) BPF_MAP_GET_NEXT_KEY (elem_attr0\<lparr>el_map_fd := fd, el_key := key, el_value := next_key\<rparr>)"

definition bpf_map_freeze :: "'s bpf_kernel \<Rightarrow> i32 \<Rightarrow> 's \<Rightarrow> int \<times> 's" where
  "bpf_map_freeze K fd = sys_bpf (k_elem K) BPF_MAP_FREEZE (elem_attr0\<lparr>el_map_fd := fd\<rparr>)"

section \<open>Pinning, attaching, querying\<close>

definition bpf_obj_pin :: "'s bpf_kernel \<Rightarrow> i32 \<Rightarrow> u64 \<Rightarrow> 's \<Rightarrow> int \<times> 's" where
  "bpf_obj_pin K fd pathname = sys_bpf (k_obj K) BPF_OBJ_PIN \<lparr>ob_pathname = pathname, ob_bpf_fd = fd\<rparr>"

definition bpf_obj_get :: "'s bpf_kernel \<Rightarrow> u64 \<Rightarrow> 's \<Rightarrow> int \<times> 's" where
  "bpf_obj_get K pathname = sys_bpf (k_obj K) BPF_OBJ_GET \<lparr>ob_pathname = pathname, ob_bpf_fd = 0\<rparr>"

definition bpf_prog_attach :: "'s bpf_kernel \<Rightarrow> i32 \<Rightarrow> i32 \<Rightarrow> bpf_attach_type \<Rightarrow> u32 \<Rightarrow> 's \<Rightarrow> int \<times> 's" where
  "bpf_prog_attach K prog_fd target_fd atype flags =
     sys_bpf (k_attach K) BPF_PROG_ATTACH
       \<lparr>at_target_fd = target_fd, at_attach_bpf_fd = prog_fd, at_attach_type = atype, at_attach_flags = flags\<rparr>"

definition bpf_prog_detach :: "'s bpf_kernel \<Rightarrow> i32 \<Rightarrow> bpf_attach_type \<Rightarrow> 's \<Rightarrow> int \<times> 's" where
  "bpf_prog_detach K target_fd atype =
     sys_bpf (k_attach K) BPF_PROG_DETACH
       \<lparr>at_target_fd = target_fd, at_attach_bpf_fd = 0, at_attach_type = atype, at_attach_flags = 0\<rparr>"

definition bpf_prog_detach2 :: "'s bpf_kernel \<Rightarrow> i32 \<Rightarrow> i32 \<Rightarrow> bpf_attach_type \<Rightarrow> 's \<Rightarrow> int \<times> 's" where
  "bpf_prog_detach2 K prog_fd target_fd atype =
     sys_bpf (k_attach K) BPF_PROG_DETACH
       \<lparr>at_target_fd = target_fd, at_attach_bpf_fd = prog_fd, at_attach_type = atype, at_attach_flags = 0\<rparr>"

text \<open>The result, the attach flags (when asked for) and the number of programs.\<close>

definition bpf_prog_query ::
    "'s bpf_kernel \<Rightarrow> i32 \<Rightarrow> bpf_attach_type \<Rightarrow> u32 \<Rightarrow> bool \<Rightarrow> u64 \<Rightarrow> u32 \<Rightarrow> 's \<Rightarrow> int \<times> u32 option \<times> u32 \<times> 's" where
  "bpf_prog_query K target_fd atype query_flags want_flags prog_ids prog_cnt s =
     (let (ret, _, attr, s) = k_query K BPF_PROG_QUERY
            \<lparr>qu_target_fd = target_fd, qu_attach_type = atype, qu_query_flags = query_flags, qu_attach_flags = 0,
             qu_prog_ids = prog_ids, qu_prog_cnt = prog_cnt\<rparr> s
      in (ret, if want_flags then Some (qu_attach_flags attr) else None, qu_prog_cnt attr, s))"

text \<open>The test runs: \<open>data_size_out\<close>, \<open>retval\<close> and \<open>duration\<close>; each only when its pointer is given.\<close>

definition bpf_prog_test_run ::
    "'s bpf_kernel \<Rightarrow> i32 \<Rightarrow> i32 \<Rightarrow> u64 \<Rightarrow> u32 \<Rightarrow> u64 \<Rightarrow> bool \<Rightarrow> bool \<Rightarrow> bool \<Rightarrow> 's \<Rightarrow>
     int \<times> u32 option \<times> u32 option \<times> u32 option \<times> 's" where
  "bpf_prog_test_run K prog_fd repeat data dsize data_out size_out retval duration s =
     (let (ret, _, attr, s) = k_test K BPF_PROG_TEST_RUN
            \<lparr>te_prog_fd = prog_fd, te_retval = 0, te_data_size_in = dsize, te_data_size_out = 0, te_data_in = data,
             te_data_out = data_out, te_repeat = repeat, te_duration = 0, te_ctx_size_in = 0, te_ctx_size_out = 0,
             te_ctx_in = 0, te_ctx_out = 0\<rparr> s
      in (ret, if size_out then Some (te_data_size_out attr) else None, if retval then Some (te_retval attr) else None,
          if duration then Some (te_duration attr) else None, s))"

text \<open>\<open>struct bpf_prog_test_run_attr\<close> has the same fields as the attributes of the command.\<close>

definition bpf_prog_test_run_xattr :: "'s bpf_kernel \<Rightarrow> test_attr \<Rightarrow> 's \<Rightarrow> int \<times> test_attr \<times> 's" where
  "bpf_prog_test_run_xattr K t s =
     (if te_data_out t = 0 \<and> te_data_size_out t > 0 then (- EINVAL, t, s)
      else
        (let (ret, _, attr, s) = k_test K BPF_PROG_TEST_RUN (t\<lparr>te_retval := 0, te_duration := 0\<rparr>) s
         in (ret, t\<lparr>te_data_size_out := te_data_size_out attr, te_ctx_size_out := te_ctx_size_out attr,
                    te_retval := te_retval attr, te_duration := te_duration attr\<rparr>, s)))"

definition bpf_obj_get_next_id :: "'s bpf_kernel \<Rightarrow> u32 \<Rightarrow> u32 \<Rightarrow> bpf_cmd \<Rightarrow> 's \<Rightarrow> int \<times> u32 \<times> 's" where
  "bpf_obj_get_next_id K start_id next_id cmd s =
     (let (err, _, attr, s) = k_id K cmd \<lparr>id_id = start_id, id_next_id = 0\<rparr> s
      in (err, if err = 0 then id_next_id attr else next_id, s))"

definition bpf_prog_get_next_id :: "'s bpf_kernel \<Rightarrow> u32 \<Rightarrow> u32 \<Rightarrow> 's \<Rightarrow> int \<times> u32 \<times> 's" where
  "bpf_prog_get_next_id K start_id next_id = bpf_obj_get_next_id K start_id next_id BPF_PROG_GET_NEXT_ID"

definition bpf_map_get_next_id :: "'s bpf_kernel \<Rightarrow> u32 \<Rightarrow> u32 \<Rightarrow> 's \<Rightarrow> int \<times> u32 \<times> 's" where
  "bpf_map_get_next_id K start_id next_id = bpf_obj_get_next_id K start_id next_id BPF_MAP_GET_NEXT_ID"

definition bpf_btf_get_next_id :: "'s bpf_kernel \<Rightarrow> u32 \<Rightarrow> u32 \<Rightarrow> 's \<Rightarrow> int \<times> u32 \<times> 's" where
  "bpf_btf_get_next_id K start_id next_id = bpf_obj_get_next_id K start_id next_id BPF_BTF_GET_NEXT_ID"

definition bpf_prog_get_fd_by_id :: "'s bpf_kernel \<Rightarrow> u32 \<Rightarrow> 's \<Rightarrow> int \<times> 's" where
  "bpf_prog_get_fd_by_id K i = sys_bpf (k_id K) BPF_PROG_GET_FD_BY_ID \<lparr>id_id = i, id_next_id = 0\<rparr>"

definition bpf_map_get_fd_by_id :: "'s bpf_kernel \<Rightarrow> u32 \<Rightarrow> 's \<Rightarrow> int \<times> 's" where
  "bpf_map_get_fd_by_id K i = sys_bpf (k_id K) BPF_MAP_GET_FD_BY_ID \<lparr>id_id = i, id_next_id = 0\<rparr>"

definition bpf_btf_get_fd_by_id :: "'s bpf_kernel \<Rightarrow> u32 \<Rightarrow> 's \<Rightarrow> int \<times> 's" where
  "bpf_btf_get_fd_by_id K i = sys_bpf (k_id K) BPF_BTF_GET_FD_BY_ID \<lparr>id_id = i, id_next_id = 0\<rparr>"

definition bpf_obj_get_info_by_fd :: "'s bpf_kernel \<Rightarrow> i32 \<Rightarrow> u64 \<Rightarrow> u32 \<Rightarrow> 's \<Rightarrow> int \<times> u32 \<times> 's" where
  "bpf_obj_get_info_by_fd K prog_fd info info_len s =
     (let (err, _, attr, s) = k_info K BPF_OBJ_GET_INFO_BY_FD \<lparr>in_bpf_fd = prog_fd, in_info_len = info_len, in_info = info\<rparr> s
      in (err, if err = 0 then in_info_len attr else info_len, s))"

definition bpf_raw_tracepoint_open :: "'s bpf_kernel \<Rightarrow> u64 \<Rightarrow> i32 \<Rightarrow> 's \<Rightarrow> int \<times> 's" where
  "bpf_raw_tracepoint_open K nm prog_fd =
     sys_bpf (k_raw_tracepoint K) BPF_RAW_TRACEPOINT_OPEN \<lparr>rt_name = nm, rt_prog_fd = prog_fd\<rparr>"

text \<open>The second turn of the loop has \<open>do_log\<close> set, so there are at most two.\<close>

definition bpf_load_btf :: "'s bpf_kernel \<Rightarrow> u64 \<Rightarrow> u32 \<Rightarrow> u64 \<Rightarrow> u32 \<Rightarrow> bool \<Rightarrow> 's \<Rightarrow> int \<times> 's" where
  "bpf_load_btf K btf btf_size log_buf log_buf_size do_log s =
     (let can_log = (log_buf \<noteq> 0 \<and> log_buf_size \<noteq> 0);
          attr = \<lparr>bt_btf = btf, bt_log_buf = 0, bt_size = btf_size, bt_log_size = 0, bt_log_level = 0\<rparr>;
          with_log = (\<lambda>attr. attr\<lparr>bt_log_level := 1, bt_log_size := log_buf_size, bt_log_buf := log_buf\<rparr>);
          (fd, _, attr, s) = k_btf_load K BPF_BTF_LOAD (if do_log \<and> can_log then with_log attr else attr) s
      in if fd = - 1 \<and> \<not> do_log \<and> can_log then sys_bpf (k_btf_load K) BPF_BTF_LOAD (with_log attr) s else (fd, s))"

definition bpf_task_fd_query ::
    "'s bpf_kernel \<Rightarrow> i32 \<Rightarrow> i32 \<Rightarrow> u32 \<Rightarrow> u64 \<Rightarrow> u32 \<Rightarrow> 's \<Rightarrow> int \<times> (u32 \<times> u32 \<times> u32 \<times> u64 \<times> u64) \<times> 's" where
  "bpf_task_fd_query K pid fd flags buf buf_len s =
     (let (err, _, attr, s) = k_task_query K BPF_TASK_FD_QUERY
            \<lparr>tq_pid = pid, tq_fd = fd, tq_flags = flags, tq_buf_len = buf_len, tq_buf = buf, tq_prog_id = 0, tq_fd_type = 0,
             tq_probe_offset = 0, tq_probe_addr = 0\<rparr> s
      in (err, (tq_buf_len attr, tq_prog_id attr, tq_fd_type attr, tq_probe_offset attr, tq_probe_addr attr), s))"

section \<open>Copied records\<close>

lemma length_zero_tails:
  "n * actual \<le> length rec \<Longrightarrow> expected \<le> actual \<Longrightarrow> length (zero_tails n actual expected rec) = n * actual"
  by (induction n arbitrary: "rec") auto

lemma zero_tails_nth:
  assumes "n * actual \<le> length rec" "expected \<le> actual" "i < n" "j < actual"
  shows "zero_tails n actual expected rec ! (i * actual + j) = (if j < expected then rec ! (i * actual + j) else 0)"
  using assms
proof (induction n arbitrary: i "rec")
  case (Suc n)
  show ?case
  proof (cases i)
    case 0
    then show ?thesis using Suc.prems by (auto simp: nth_append min_def)
  next
    case (Suc k)
    have "length (take expected rec @ replicate (actual - expected) (0 :: u8)) = actual" using Suc.prems by simp
    then have "zero_tails (Suc n) actual expected rec ! (i * actual + j) = zero_tails n actual expected (drop actual rec) ! (k * actual + j)"
      using Suc nth_append_length_plus [of "take expected rec @ replicate (actual - expected) (0 :: u8)" "zero_tails n actual expected (drop actual rec)" "k * actual + j"]
      by (simp add: add.assoc)
    also have "\<dots> = (if j < expected then drop actual rec ! (k * actual + j) else 0)"
      using Suc Suc.prems by (intro Suc.IH) auto
    finally show ?thesis using Suc Suc.prems by (simp add: add.assoc)
  qed
qed simp

section \<open>The load loop\<close>

text \<open>What makes two attempts the same program: everything but the log and the debug records.\<close>

definition program_of :: "prog_load_attr \<Rightarrow> prog_load_attr" where
  "program_of a = a\<lparr>pl_log_level := 0, pl_log_size := 0, pl_log_buf := 0, pl_func_info := [], pl_func_info_rec_size := 0,
     pl_line_info := [], pl_line_info_rec_size := 0\<rparr>"

lemma program_of_rec: "program_of (a\<lparr>pl_func_info_rec_size := r\<rparr>) = program_of a"
  by (simp add: program_of_def)

lemma program_of_log [simp]:
  "program_of (a\<lparr>pl_log_buf := b, pl_log_size := n, pl_log_level := l\<rparr>) = program_of a"
  "program_of (a\<lparr>pl_func_info := i, pl_func_info_rec_size := r\<rparr>) = program_of a"
  "program_of (a\<lparr>pl_line_info := i, pl_line_info_rec_size := r\<rparr>) = program_of a"
  by (simp_all add: program_of_def)

text \<open>
  A contract of the kernel for the load of one program: an answer leaves the program in the
  attributes as it was (the kernel only writes size hints) and keeps an invariant of its state.
\<close>

definition load_contract :: "'s bpf_kernel \<Rightarrow> prog_load_attr \<Rightarrow> ('s \<Rightarrow> bool) \<Rightarrow> bool" where
  "load_contract K p I \<longleftrightarrow>
     (\<forall>attr s. program_of attr = p \<and> I s \<longrightarrow>
       (case k_prog_load K BPF_PROG_LOAD attr s of (_, _, attr', s') \<Rightarrow> program_of attr' = p \<and> I s'))"

lemma prog_load_contract:
  assumes "sys_bpf_prog_load K attr s = Some (fd, errno, attr', s')" "load_contract K p I" "program_of attr = p" "I s"
  shows "program_of attr' = p \<and> I s'"
proof -
  define P where "P K attr s r \<longleftrightarrow> (load_contract K p I \<longrightarrow> program_of attr = p \<and> I s \<longrightarrow>
      program_of (fst (snd (snd r))) = p \<and> I (snd (snd (snd r))))" for K :: "'a bpf_kernel" and attr s and r :: "int \<times> int \<times> prog_load_attr \<times> 'a"
  have "P K attr s (fd, errno, attr', s')"
  proof (rule sys_bpf_prog_load.raw_induct [OF _ assms(1)])
    fix f K attr s r
    assume IH: "\<And>K attr s r. f K attr s = Some r \<Longrightarrow> P K attr s r"
      and body: "(let r = k_prog_load K BPF_PROG_LOAD attr s
        in if fst r < 0 \<and> fst (snd r) = EAGAIN then f K (fst (snd (snd r))) (snd (snd (snd r))) else Some r) = Some r"
    obtain r0 e0 a0 s0 where k: "k_prog_load K BPF_PROG_LOAD attr s = (r0, e0, a0, s0)" by (metis prod_cases4)
    have "program_of a0 = p \<and> I s0" if "load_contract K p I" "program_of attr = p" "I s"
      using that k unfolding load_contract_def by fastforce
    moreover have "(if r0 < 0 \<and> e0 = EAGAIN then f K a0 s0 else Some (r0, e0, a0, s0)) = Some r"
      using body by (auto simp: k Let_def split: if_splits)
    ultimately show "P K attr s r" using IH [of K a0 s0 r] by (auto simp: P_def split: if_splits)
  qed
  then show ?thesis using assms(2-4) by (simp add: P_def)
qed

lemma load_retry_contract:
  assumes "load_retry K la mallocs finfo linfo fd errno attr s = Some (fd', fin, attr', s')"
    "load_contract K p I" "program_of attr = p" "I s"
  shows "program_of attr' = p \<and> I s'"
  using assms
proof (induction K la mallocs finfo linfo fd errno attr s rule: load_retry.induct)
  case (1 K la mallocs finfo linfo fd errno attr s)
  note c = "1.prems"(2-4)
  let ?go = "errno = E2BIG \<and> (\<not> finfo \<or> \<not> linfo)"
  let ?fi = "\<not> finfo \<and> pl_func_info_cnt attr \<noteq> 0 \<and> pl_func_info_rec_size attr < lp_func_info_rec_size la"
  let ?li = "\<not> linfo \<and> pl_line_info_cnt attr \<noteq> 0 \<and> pl_line_info_rec_size attr < lp_line_info_rec_size la"
  have eq: "load_retry K la mallocs finfo linfo fd errno attr s = Some (fd', fin, attr', s')" by (rule "1.prems"(1))
  consider "\<not> ?go \<or> \<not> ?fi \<and> \<not> ?li" | "?go" "?fi" | "?go" "\<not> ?fi" "?li" by blast
  then show ?case
  proof cases
    case 1
    then show ?thesis using eq c by (subst (asm) load_retry.simps) (auto split: if_splits)
  next
    case 2
    show ?thesis
    proof (cases "alloc_zero_tailing_info (fst mallocs) (lp_func_info la) (lp_func_info_cnt la) (lp_func_info_rec_size la) (pl_func_info_rec_size attr)")
      case None
      then show ?thesis using eq c 2 by (subst (asm) load_retry.simps) simp
    next
      case (Some info)
      obtain fd1 e1 a1 s1 where l: "sys_bpf_prog_load K (attr\<lparr>pl_func_info := info, pl_func_info_rec_size := lp_func_info_rec_size la\<rparr>) s = Some (fd1, e1, a1, s1)"
        using eq Some 2 by (subst (asm) load_retry.simps) (auto split: option.splits)
      have "program_of a1 = p \<and> I s1" using prog_load_contract [OF l c(1)] c by simp
      then show ?thesis
        using "1.IH"(1) [OF _ 2(2) Some l] eq Some 2 l c by (subst (asm) load_retry.simps) (auto split: if_splits)
    qed
  next
    case 3
    show ?thesis
    proof (cases "alloc_zero_tailing_info (snd mallocs) (lp_line_info la) (lp_line_info_cnt la) (lp_line_info_rec_size la) (pl_line_info_rec_size attr)")
      case None
      then show ?thesis using eq c 3 by (subst (asm) load_retry.simps) simp
    next
      case (Some info)
      obtain fd1 e1 a1 s1 where l: "sys_bpf_prog_load K (attr\<lparr>pl_line_info := info, pl_line_info_rec_size := lp_line_info_rec_size la\<rparr>) s = Some (fd1, e1, a1, s1)"
        using eq Some 3 by (subst (asm) load_retry.simps) (auto split: option.splits)
      have "program_of a1 = p \<and> I s1" using prog_load_contract [OF l c(1)] c by simp
      then show ?thesis
        using "1.IH"(2) [OF _ 3(2) 3(3) Some l] eq Some 3 l c by (subst (asm) load_retry.simps) (auto split: if_splits)
    qed
  qed
qed

section \<open>Termination\<close>

text \<open>A kernel that answers \<open>EAGAIN\<close> only finitely often in a row, by a measure of its state.\<close>

definition again_ends :: "'s bpf_kernel \<Rightarrow> ('s \<Rightarrow> nat) \<Rightarrow> bool" where
  "again_ends K \<mu> \<longleftrightarrow>
     (\<forall>attr s. case k_prog_load K BPF_PROG_LOAD attr s of (ret, errno, _, s') \<Rightarrow>
       ret < 0 \<and> errno = EAGAIN \<longrightarrow> \<mu> s' < \<mu> s)"

lemma prog_load_total:
  assumes "again_ends K \<mu>"
  shows "\<exists>r. sys_bpf_prog_load K attr s = Some r"
proof (induction "\<mu> s" arbitrary: attr s rule: less_induct)
  case less
  obtain r0 e0 a0 s0 where k: "k_prog_load K BPF_PROG_LOAD attr s = (r0, e0, a0, s0)" by (metis prod_cases4)
  show ?case
  proof (cases "r0 < 0 \<and> e0 = EAGAIN")
    case True
    then have "\<mu> s0 < \<mu> s" using assms [unfolded again_ends_def, THEN spec, THEN spec, of s attr] k by simp
    then show ?thesis using less [of s0 a0] True k by (subst sys_bpf_prog_load.simps) (simp add: Let_def)
  next
    case False
    then show ?thesis using k by (subst sys_bpf_prog_load.simps) (auto simp: Let_def)
  qed
qed

lemma load_retry_total:
  assumes "again_ends K \<mu>"
  shows "\<exists>r. load_retry K la mallocs finfo linfo fd errno attr s = Some r"
  using assms
proof (induction K la mallocs finfo linfo fd errno attr s rule: load_retry.induct)
  case (1 K la mallocs finfo linfo fd errno attr s)
  let ?go = "errno = E2BIG \<and> (\<not> finfo \<or> \<not> linfo)"
  let ?fi = "\<not> finfo \<and> pl_func_info_cnt attr \<noteq> 0 \<and> pl_func_info_rec_size attr < lp_func_info_rec_size la"
  let ?li = "\<not> linfo \<and> pl_line_info_cnt attr \<noteq> 0 \<and> pl_line_info_rec_size attr < lp_line_info_rec_size la"
  consider "\<not> ?go \<or> \<not> ?fi \<and> \<not> ?li" | "?go" "?fi" | "?go" "\<not> ?fi" "?li" by blast
  then show ?case
  proof cases
    case 1
    then show ?thesis by (subst load_retry.simps) auto
  next
    case 2
    show ?thesis
    proof (cases "alloc_zero_tailing_info (fst mallocs) (lp_func_info la) (lp_func_info_cnt la) (lp_func_info_rec_size la) (pl_func_info_rec_size attr)")
      case (Some info)
      obtain fd1 e1 a1 s1 where l: "sys_bpf_prog_load K (attr\<lparr>pl_func_info := info, pl_func_info_rec_size := lp_func_info_rec_size la\<rparr>) s = Some (fd1, e1, a1, s1)"
        using prog_load_total [OF "1.prems"] by (metis prod_cases4)
      show ?thesis using "1.IH"(1) [OF _ 2(2) Some l] 2 Some l "1.prems" by (subst load_retry.simps) auto
    qed (use 2 in \<open>subst load_retry.simps, auto\<close>)
  next
    case 3
    show ?thesis
    proof (cases "alloc_zero_tailing_info (snd mallocs) (lp_line_info la) (lp_line_info_cnt la) (lp_line_info_rec_size la) (pl_line_info_rec_size attr)")
      case (Some info)
      obtain fd1 e1 a1 s1 where l: "sys_bpf_prog_load K (attr\<lparr>pl_line_info := info, pl_line_info_rec_size := lp_line_info_rec_size la\<rparr>) s = Some (fd1, e1, a1, s1)"
        using prog_load_total [OF "1.prems"] by (metis prod_cases4)
      show ?thesis using "1.IH"(2) [OF _ 3(2) 3(3) Some l] 3 Some l "1.prems" by (subst load_retry.simps) auto
    qed (use 3 in \<open>subst load_retry.simps, auto\<close>)
  qed
qed

section \<open>Properties\<close>

definition load_args_ok :: "load_program_attr option \<Rightarrow> u64 \<Rightarrow> u64 \<Rightarrow> bool" where
  "load_args_ok load_attr log_buf log_buf_sz \<longleftrightarrow>
     (case load_attr of None \<Rightarrow> False
      | Some la \<Rightarrow> (log_buf = 0) = (log_buf_sz = 0) \<and> \<not> lp_log_level la > 7 \<and> (lp_log_level la \<noteq> 0 \<longrightarrow> log_buf \<noteq> 0))"

lemma load_program_total:
  assumes "again_ends K \<mu>"
  shows "\<exists>fd s'. bpf_load_program_xattr K mallocs load_attr log_buf log_buf_sz s = Some (fd, s') \<and>
    (\<not> load_args_ok load_attr log_buf log_buf_sz \<longrightarrow> fd = - EINVAL \<and> s' = s)"
proof (cases "load_args_ok load_attr log_buf log_buf_sz")
  case False
  then show ?thesis by (auto simp: bpf_load_program_xattr_def load_args_ok_def split: option.splits)
next
  case True
  then obtain la where la: "load_attr = Some la" by (auto simp: load_args_ok_def split: option.splits)
  obtain fd errno attr s1 where 1: "sys_bpf_prog_load K (load_attr0 la log_buf log_buf_sz) s = Some (fd, errno, attr, s1)"
    using prog_load_total [OF assms] by (metis prod_cases4)
  obtain fd2 fin attr2 s2 where 2: "load_retry K la mallocs False False fd errno attr s1 = Some (fd2, fin, attr2, s2)"
    using load_retry_total [OF assms] by (metis prod_cases4)
  obtain fd3 e3 a3 s3 where 3: "sys_bpf_prog_load K (attr2\<lparr>pl_log_buf := log_buf, pl_log_size := ucast log_buf_sz, pl_log_level := 1\<rparr>) s2 = Some (fd3, e3, a3, s3)"
    using prog_load_total [OF assms] by (metis prod_cases4)
  show ?thesis using True la 1 2 3 by (auto simp: bpf_load_program_xattr_def load_args_ok_def)
qed

text \<open>
  Loading a program ends.  When the kernel answers \<open>EAGAIN\<close> only finitely often in a row,
  \<open>bpf_load_program_xattr\<close> returns, whatever else the kernel answers: the retries with
  corrected records and with a log are bounded.  With invalid arguments it returns
  \<open>-EINVAL\<close> without calling the kernel.
\<close>

theorem load_program_returns:
  assumes "again_ends K \<mu>"
  shows "\<exists>fd s'. bpf_load_program_xattr K mallocs load_attr log_buf log_buf_sz s = Some (fd, s') \<and>
    (\<not> load_args_ok load_attr log_buf log_buf_sz \<longrightarrow> fd = - EINVAL \<and> s' = s)"
  by (rule load_program_total [OF assms])

text \<open>A kernel that rejects a first attempt with too large records and accepts the second.\<close>

definition sample_kernel :: "prog_load_attr list bpf_kernel" where
  "sample_kernel =
     \<lparr>k_map_create = (\<lambda>_ a s. (3, 0, a, s)), k_elem = (\<lambda>_ a s. (0, 0, a, s)),
      k_prog_load = (\<lambda>_ a s. if s = [] then (- 1, E2BIG, a\<lparr>pl_func_info_rec_size := 1\<rparr>, [a]) else (9, 0, a, s @ [a])),
      k_obj = (\<lambda>_ a s. (0, 0, a, s)), k_attach = (\<lambda>_ a s. (0, 0, a, s)), k_query = (\<lambda>_ a s. (0, 0, a, s)),
      k_test = (\<lambda>_ a s. (0, 0, a, s)), k_id = (\<lambda>_ a s. (0, 0, a, s)), k_info = (\<lambda>_ a s. (0, 0, a, s)),
      k_raw_tracepoint = (\<lambda>_ a s. (0, 0, a, s)), k_btf_load = (\<lambda>_ a s. (0, 0, a, s)), k_task_query = (\<lambda>_ a s. (0, 0, a, s))\<rparr>"

definition sample_load :: load_program_attr where
  "sample_load = load_program_attr0\<lparr>lp_prog_type := BPF_PROG_TYPE_XDP, lp_insns := 64, lp_insns_cnt := 2,
     lp_func_info_rec_size := 2, lp_func_info := [1, 2], lp_func_info_cnt := 1\<rparr>"

theorem load_program_returns_witness:
  "\<exists>fd s'. bpf_load_program_xattr sample_kernel (True, True) (Some sample_load) 0 0 [] = Some (fd, s')"
proof -
  have "again_ends sample_kernel (\<lambda>_. 0)" by (simp add: again_ends_def sample_kernel_def E2BIG_def EAGAIN_def)
  from load_program_returns [OF this] show ?thesis by blast
qed

text \<open>
  every attempt is for the program that was asked for.  Whatever invariant of the kernel a
  load of exactly this program keeps (its type, instructions, licence, name, flags and
  interface; the log settings and the debug records may differ), the whole call keeps,
  retries included: no other program is ever submitted.
\<close>

theorem load_only_this_program:
  assumes "load_contract K (program_of (load_attr0 la log_buf log_buf_sz)) I" "I s"
    and "bpf_load_program_xattr K mallocs (Some la) log_buf log_buf_sz s = Some (fd, s')"
  shows "I s'"
proof -
  let ?p = "program_of (load_attr0 la log_buf log_buf_sz)"
  show ?thesis
  proof (cases "load_args_ok (Some la) log_buf log_buf_sz")
    case False
    then show ?thesis using assms(2,3) by (auto simp: bpf_load_program_xattr_def load_args_ok_def split: if_splits)
  next
    case True
    then obtain fd1 errno attr s1 where 1: "sys_bpf_prog_load K (load_attr0 la log_buf log_buf_sz) s = Some (fd1, errno, attr, s1)"
      using assms(3) by (auto simp: bpf_load_program_xattr_def load_args_ok_def split: option.splits)
    note p1 = prog_load_contract [OF 1 assms(1) refl assms(2)]
    show ?thesis
    proof (cases "fd1 \<ge> 0")
      case True
      then show ?thesis using p1 1 assms(3) \<open>load_args_ok _ _ _\<close>
        by (auto simp: bpf_load_program_xattr_def load_args_ok_def)
    next
      case False
      then obtain fd2 fin attr2 s2 where 2: "load_retry K la mallocs False False fd1 errno attr s1 = Some (fd2, fin, attr2, s2)"
        using 1 assms(3) True by (auto simp: bpf_load_program_xattr_def load_args_ok_def split: option.splits)
      note p2 = load_retry_contract [OF 2 assms(1)] p1
      show ?thesis using False 1 2 p2 assms(3) True prog_load_contract [OF _ assms(1)]
        by (auto simp: bpf_load_program_xattr_def load_args_ok_def split: if_splits)
    qed
  qed
qed

theorem load_only_this_program_witness:
  "\<exists>fd s'. bpf_load_program_xattr sample_kernel (True, True) (Some sample_load) 0 0 [] = Some (fd, s') \<and>
    (\<forall>a\<in>set s'. program_of a = program_of (load_attr0 sample_load 0 0))"
proof -
  let ?p = "program_of (load_attr0 sample_load 0 0)"
  have c: "load_contract sample_kernel ?p (\<lambda>s. \<forall>a\<in>set s. program_of a = ?p)"
    unfolding load_contract_def sample_kernel_def by (auto simp: program_of_rec)
  have "again_ends sample_kernel (\<lambda>_. 0)" by (simp add: again_ends_def sample_kernel_def E2BIG_def EAGAIN_def)
  from load_program_total [OF this, of "(True, True)" "Some sample_load" 0 0 "[]"]
  obtain fd s' where "bpf_load_program_xattr sample_kernel (True, True) (Some sample_load) 0 0 [] = Some (fd, s')" by blast
  with load_only_this_program [OF c _ this] show ?thesis by auto
qed

end
