(* ===== verification/Libbpf_Maps.thy ===== *)
theory Libbpf_Maps
  imports Bpf_Syscall Common_Params "HOL-Library.Multiset"
begin

text \<open>
  Maps of an object in libbpf, \<open>libbpf/src/libbpf.c\<close>: taking over the descriptor of an existing map,
  creating the maps of an object, pinning and unpinning.

  The operating system is an argument, the record \<open>os\<close> over a state \<open>'s\<close>: the kernel behind the
  wrappers of \<open>bpf.c\<close>, file descriptors, the file system of pins, \<open>errno\<close>, and allocation.
  \<open>os_str\<close> is the address at which a string is in memory, which the wrappers pass on to the kernel;
  \<open>os_map_info\<close> reads back the structure that the kernel filled in at \<open>os_info_buf\<close>.  The parts of \<open>struct bpf_map\<close> that belong to the caller
  (\<open>priv\<close>, \<open>clear_priv\<close>) are left out.  Messages are not kept.
\<close>

section \<open>Data\<close>

record bpf_map_def =
  d_type :: bpf_map_type
  d_key_size :: u32
  d_value_size :: u32
  d_max_entries :: u32
  d_map_flags :: u32

datatype libbpf_map_type = LIBBPF_MAP_UNSPEC | LIBBPF_MAP_DATA | LIBBPF_MAP_BSS | LIBBPF_MAP_RODATA

fun libbpf_type_to_btf_name :: "libbpf_map_type \<Rightarrow> string" where
  "libbpf_type_to_btf_name LIBBPF_MAP_UNSPEC = []"
| "libbpf_type_to_btf_name LIBBPF_MAP_DATA = ''.data''"
| "libbpf_type_to_btf_name LIBBPF_MAP_BSS = ''.bss''"
| "libbpf_type_to_btf_name LIBBPF_MAP_RODATA = ''.rodata''"

record libbpf_map =
  bm_fd :: int
  bm_name :: string
  bm_sec_idx :: int
  bm_sec_offset :: nat
  bm_map_ifindex :: i32
  bm_inner_map_fd :: int
  bm_def :: bpf_map_def
  bm_btf_key_type_id :: u32
  bm_btf_value_type_id :: u32
  bm_libbpf_type :: libbpf_map_type
  bm_pin_path :: "string option"
  bm_pinned :: bool
  bm_reused :: bool

record map_info =
  ki_type :: bpf_map_type
  ki_key_size :: u32
  ki_value_size :: u32
  ki_max_entries :: u32
  ki_map_flags :: u32
  ki_name :: string
  ki_btf_key_type_id :: u32
  ki_btf_value_type_id :: u32

text \<open>The file of processors: an error number from \<open>open\<close>, one from \<open>read\<close>, or the bytes read.\<close>

datatype cpu_file = No_file int | Bad_read int | Contents string

record 's os =
  os_kernel :: "'s bpf_kernel"
  os_errno :: "'s \<Rightarrow> int"
  os_str :: "string \<Rightarrow> 's \<Rightarrow> u64 \<times> 's"
  os_zero :: u64
  os_info_buf :: u64
  os_map_info :: "'s \<Rightarrow> map_info"
  os_close :: "int \<Rightarrow> 's \<Rightarrow> int \<times> 's"
  os_open_root :: "'s \<Rightarrow> int \<times> 's"
  os_dup3 :: "int \<Rightarrow> int \<Rightarrow> 's \<Rightarrow> int \<times> 's"
  os_mkdir :: "string \<Rightarrow> 's \<Rightarrow> int \<times> 's"
  os_statfs :: "string \<Rightarrow> 's \<Rightarrow> int \<times> u32 \<times> 's"
  os_unlink :: "string \<Rightarrow> 's \<Rightarrow> int \<times> 's"
  os_rmdir :: "string \<Rightarrow> 's \<Rightarrow> int \<times> 's"
  os_malloc :: "'s \<Rightarrow> bool \<times> 's"
  os_cpu_file :: "'s \<Rightarrow> cpu_file \<times> 's"

text \<open>What the object's BTF answers: its descriptor and the searches for type numbers.\<close>

record btf_handle =
  bt_fd :: int
  bt_kv_tids :: "string \<Rightarrow> u32 \<Rightarrow> u32 \<Rightarrow> int \<times> u32 \<times> u32"
  bt_find :: "string \<Rightarrow> int"

definition BPF_FS_MAGIC :: u32 where "BPF_FS_MAGIC = 0xcafe4a11"
definition SIZEOF_MAP_INFO :: u32 where "SIZEOF_MAP_INFO = 80"

definition bytes_of :: "string \<Rightarrow> u8 list" where "bytes_of s = map of_char s"

text \<open>The calls of \<open>bpf.c\<close> that take a path.\<close>

definition obj_get_path :: "'s os \<Rightarrow> string \<Rightarrow> 's \<Rightarrow> int \<times> 's" where
  "obj_get_path os path s = (let (p, s) = os_str os path s in bpf_obj_get (os_kernel os) p s)"

definition obj_pin_path :: "'s os \<Rightarrow> int \<Rightarrow> string \<Rightarrow> 's \<Rightarrow> int \<times> 's" where
  "obj_pin_path os fd path s = (let (p, s) = os_str os path s in bpf_obj_pin (os_kernel os) (of_int fd) p s)"

section \<open>Descriptors\<close>

text \<open>\<open>zclose\<close>; the caller then holds -1.\<close>

definition zclose :: "'s os \<Rightarrow> int \<Rightarrow> 's \<Rightarrow> int \<times> 's" where
  "zclose os fd s = (if fd \<ge> 0 then os_close os fd s else (0, s))"

definition bpf_map_reuse_fd :: "'s os \<Rightarrow> libbpf_map \<Rightarrow> int \<Rightarrow> 's \<Rightarrow> int \<times> libbpf_map \<times> 's" where
  "bpf_map_reuse_fd os m fd s =
     (let (err, _, s) = bpf_obj_get_info_by_fd (os_kernel os) (of_int fd) (os_info_buf os) SIZEOF_MAP_INFO s
      in if err \<noteq> 0 then (err, m, s)
         else
           (let info = os_map_info os s; (ok, s) = os_malloc os s
            in if \<not> ok then (- os_errno os s, m, s)
               else
                 (let (new_fd, s) = os_open_root os s
                  in if new_fd < 0 then (- os_errno os s, m, s)
                     else
                       (let (new_fd, s) = os_dup3 os fd new_fd s
                        in if new_fd < 0 then (- os_errno os s, m, snd (os_close os new_fd s))
                           else
                             (let (err, s) = zclose os (bm_fd m) s; m = m\<lparr>bm_fd := - 1\<rparr>
                              in if err \<noteq> 0 then (- os_errno os s, m, snd (os_close os new_fd s))
                                 else
                                   (0, m\<lparr>bm_fd := new_fd, bm_name := ki_name info,
                                         bm_def := \<lparr>d_type = ki_type info, d_key_size = ki_key_size info,
                                                    d_value_size = ki_value_size info, d_max_entries = ki_max_entries info,
                                                    d_map_flags = ki_map_flags info\<rparr>,
                                         bm_btf_key_type_id := ki_btf_key_type_id info,
                                         bm_btf_value_type_id := ki_btf_value_type_id info, bm_reused := True\<rparr>, s))))))"

definition bpf_map_resize :: "libbpf_map option \<Rightarrow> u32 \<Rightarrow> int \<times> libbpf_map option" where
  "bpf_map_resize m max_entries =
     (case m of
        None \<Rightarrow> (- EINVAL, None)
      | Some m \<Rightarrow>
          if max_entries = 0 then (- EINVAL, Some m)
          else if bm_fd m \<ge> 0 then (- EBUSY, Some m)
          else (0, Some (m\<lparr>bm_def := (bm_def m)\<lparr>d_max_entries := max_entries\<rparr>\<rparr>)))"

definition map_is_reuse_compat :: "'s os \<Rightarrow> libbpf_map \<Rightarrow> int \<Rightarrow> 's \<Rightarrow> bool \<times> 's" where
  "map_is_reuse_compat os m map_fd s =
     (let (err, _, s) = bpf_obj_get_info_by_fd (os_kernel os) (of_int map_fd) (os_info_buf os) SIZEOF_MAP_INFO s;
          i = os_map_info os s; d = bm_def m
      in if err \<noteq> 0 then (False, s)
         else (ki_type i = d_type d \<and> ki_key_size i = d_key_size d \<and> ki_value_size i = d_value_size d \<and>
               ki_max_entries i = d_max_entries d \<and> ki_map_flags i = d_map_flags d, s))"

definition bpf_object_reuse_map :: "'s os \<Rightarrow> string \<Rightarrow> libbpf_map \<Rightarrow> 's \<Rightarrow> int \<times> libbpf_map \<times> 's" where
  "bpf_object_reuse_map os pin_path m s =
     (let (pin_fd, s) = obj_get_path os pin_path s
      in if pin_fd < 0 then (if os_errno os s = ENOENT then 0 else - os_errno os s, m, s)
         else
           (let (compat, s) = map_is_reuse_compat os m pin_fd s
            in if \<not> compat then (- EINVAL, m, snd (os_close os pin_fd s))
               else
                 (let (err, m, s) = bpf_map_reuse_fd os m pin_fd s
                  in if err \<noteq> 0 then (err, m, snd (os_close os pin_fd s))
                     else (0, m\<lparr>bm_pinned := True\<rparr>, s))))"

section \<open>Paths\<close>

text \<open>\<open>dirname\<close>: the path without its last component and the slashes around it.\<close>

definition dirname :: "string \<Rightarrow> string" where
  "dirname path =
     (let slash = (\<lambda>c. c = CHR ''/'');
          p = dropWhile slash (rev path);
          q = dropWhile slash (dropWhile (\<lambda>c. \<not> slash c) p)
      in if q \<noteq> [] then rev q
         else if path \<noteq> [] \<and> slash (hd path) then ''/'' else ''.'')"

definition make_parent_dir :: "'s os \<Rightarrow> string \<Rightarrow> 's \<Rightarrow> int \<times> 's" where
  "make_parent_dir os path s =
     (let (ok, s) = os_malloc os s
      in if \<not> ok then (- ENOMEM, s)
         else (let (r, s) = os_mkdir os (dirname path) s
               in (if r \<noteq> 0 \<and> os_errno os s \<noteq> EEXIST then - os_errno os s else 0, s)))"

definition check_path :: "'s os \<Rightarrow> string option \<Rightarrow> 's \<Rightarrow> int \<times> 's" where
  "check_path os path s =
     (case path of
        None \<Rightarrow> (- EINVAL, s)
      | Some path \<Rightarrow>
          (let (ok, s) = os_malloc os s
           in if \<not> ok then (- ENOMEM, s)
              else (let (r, f_type, s) = os_statfs os (dirname path) s;
                        err = (if r \<noteq> 0 then - os_errno os s else 0)
                    in (if err = 0 \<and> f_type \<noteq> BPF_FS_MAGIC then - EINVAL else err, s))))"

section \<open>Pinning\<close>

text \<open>The common end of \<open>bpf_map__pin\<close>, from the creation of the directory on.\<close>

definition pin_at :: "'s os \<Rightarrow> libbpf_map \<Rightarrow> string \<Rightarrow> 's \<Rightarrow> int \<times> libbpf_map \<times> 's" where
  "pin_at os m pin_path s =
     (let (err, s) = make_parent_dir os pin_path s
      in if err \<noteq> 0 then (err, m, s)
         else
           (let (err, s) = check_path os (Some pin_path) s
            in if err \<noteq> 0 then (err, m, s)
               else
                 (let (err, s) = obj_pin_path os (bm_fd m) pin_path s
                  in if err \<noteq> 0 then (- os_errno os s, m, s) else (0, m\<lparr>bm_pinned := True\<rparr>, s))))"

definition bpf_map_pin :: "'s os \<Rightarrow> libbpf_map \<Rightarrow> string option \<Rightarrow> 's \<Rightarrow> int \<times> libbpf_map \<times> 's" where
  "bpf_map_pin os m path s =
     (case bm_pin_path m of
        Some pin_path \<Rightarrow>
          if path \<noteq> None \<and> path \<noteq> Some pin_path then (- EINVAL, m, s)
          else if bm_pinned m then (0, m, s)
          else pin_at os m pin_path s
      | None \<Rightarrow>
          (case path of
             None \<Rightarrow> (- EINVAL, m, s)
           | Some path \<Rightarrow>
               if bm_pinned m then (- EEXIST, m, s)
               else
                 (let (ok, s) = os_malloc os s
                  in if \<not> ok then (- os_errno os s, m, s)
                     else pin_at os (m\<lparr>bm_pin_path := Some path\<rparr>) path s)))"

definition bpf_map_unpin :: "'s os \<Rightarrow> libbpf_map \<Rightarrow> string option \<Rightarrow> 's \<Rightarrow> int \<times> libbpf_map \<times> 's" where
  "bpf_map_unpin os m path s =
     (case (case bm_pin_path m of
              Some pin_path \<Rightarrow> if path \<noteq> None \<and> path \<noteq> Some pin_path then None else Some pin_path
            | None \<Rightarrow> path) of
        None \<Rightarrow> (- EINVAL, m, s)
      | Some path \<Rightarrow>
          (let (err, s) = check_path os (Some path) s
           in if err \<noteq> 0 then (err, m, s)
              else
                (let (err, s) = os_unlink os path s
                 in if err \<noteq> 0 then (- os_errno os s, m, s) else (0, m\<lparr>bm_pinned := False\<rparr>, s))))"

definition bpf_map_set_pin_path :: "'s os \<Rightarrow> libbpf_map \<Rightarrow> string option \<Rightarrow> 's \<Rightarrow> int \<times> libbpf_map \<times> 's" where
  "bpf_map_set_pin_path os m path s =
     (case path of
        None \<Rightarrow> (0, m\<lparr>bm_pin_path := None\<rparr>, s)
      | Some path \<Rightarrow>
          (let (ok, s) = os_malloc os s
           in if \<not> ok then (- os_errno os s, m, s) else (0, m\<lparr>bm_pin_path := Some path\<rparr>, s)))"

definition build_map_pin_path :: "'s os \<Rightarrow> libbpf_map \<Rightarrow> string option \<Rightarrow> 's \<Rightarrow> int \<times> libbpf_map \<times> 's" where
  "build_map_pin_path os m path s =
     (let buf = (case path of None \<Rightarrow> ''/sys/fs/bpf'' | Some p \<Rightarrow> p) @ ''/'' @ bm_name m
      in if length buf \<ge> PATH_MAX then (- ENAMETOOLONG, m, s) else bpf_map_set_pin_path os m (Some buf) s)"

text \<open>
  Pinning all maps.  \<open>done\<close> are the maps before the current one, the last of them first; on an
  error they are unpinned in that order.
\<close>

fun unpin_back :: "'s os \<Rightarrow> libbpf_map list \<Rightarrow> 's \<Rightarrow> libbpf_map list \<times> 's" where
  "unpin_back os [] s = ([], s)"
| "unpin_back os (m # ms) s =
     (let (m, s) = (if bm_pin_path m = None then (m, s) else snd (bpf_map_unpin os m None s));
          (ms, s) = unpin_back os ms s
      in (m # ms, s))"

fun pin_maps_loop ::
    "'s os \<Rightarrow> string option \<Rightarrow> libbpf_map list \<Rightarrow> libbpf_map list \<Rightarrow> 's \<Rightarrow> int \<times> libbpf_map list \<times> 's" where
  "pin_maps_loop os path done [] s = (0, rev done, s)"
| "pin_maps_loop os path done (m # ms) s =
     (let fail = (\<lambda>err m s. let (done, s) = unpin_back os done s in (err, rev done @ m # ms, s))
      in case (case path of
                 Some p \<Rightarrow>
                   if length (p @ ''/'' @ bm_name m) \<ge> PATH_MAX then Some (- ENAMETOOLONG, m, s)
                   else Some (bpf_map_pin os m (Some (p @ ''/'' @ bm_name m)) s)
               | None \<Rightarrow> if bm_pin_path m = None then None else Some (bpf_map_pin os m None s)) of
           None \<Rightarrow> pin_maps_loop os path (m # done) ms s
         | Some (err, m, s) \<Rightarrow>
             if err \<noteq> 0 then fail err m s else pin_maps_loop os path (m # done) ms s)"

fun unpin_maps_loop :: "'s os \<Rightarrow> string option \<Rightarrow> libbpf_map list \<Rightarrow> 's \<Rightarrow> int \<times> libbpf_map list \<times> 's" where
  "unpin_maps_loop os path [] s = (0, [], s)"
| "unpin_maps_loop os path (m # ms) s =
     (case (case path of
              Some p \<Rightarrow>
                if length (p @ ''/'' @ bm_name m) \<ge> PATH_MAX then Some (- ENAMETOOLONG, m, s)
                else Some (bpf_map_unpin os m (Some (p @ ''/'' @ bm_name m)) s)
            | None \<Rightarrow> if bm_pin_path m = None then None else Some (bpf_map_unpin os m None s)) of
        None \<Rightarrow> (let (err, ms, s) = unpin_maps_loop os path ms s in (err, m # ms, s))
      | Some (err, m, s) \<Rightarrow>
          if err \<noteq> 0 then (err, m # ms, s)
          else (let (err, ms, s) = unpin_maps_loop os path ms s in (err, m # ms, s)))"

section \<open>The number of processors\<close>

text \<open>\<open>sscanf(s, "%u-%u", &start, &end)\<close>: the number of fields read, and the fields.\<close>

definition scan_uint :: "string \<Rightarrow> (u32 \<times> string) option" where
  "scan_uint str =
     (let s = dropWhile (\<lambda>c. c \<in> set [CHR '' '', CHR 0x09, CHR 0x0A, CHR 0x0B, CHR 0x0C, CHR 0x0D]) str;
          neg = (s \<noteq> [] \<and> hd s = CHR ''-'');
          s = (if s \<noteq> [] \<and> hd s \<in> {CHR ''-'', CHR ''+''} then tl s else s);
          ds = takeWhile is_digit s
      in if ds = [] then None
         else Some (of_int (if digits_val ds \<ge> 2 ^ 64 then 2 ^ 64 - 1 else if neg then - digits_val ds else digits_val ds),
                   drop (length ds) s))"

definition scan_range :: "string \<Rightarrow> nat \<times> u32 \<times> u32" where
  "scan_range str =
     (case scan_uint str of
        None \<Rightarrow> (0, 0, 0)
      | Some (start, rest) \<Rightarrow>
          (case rest of
             c # rest \<Rightarrow>
               (case (if c = CHR ''-'' then scan_uint rest else None) of
                  None \<Rightarrow> (1, start, 0) | Some (e, _) \<Rightarrow> (2, start, e))
           | [] \<Rightarrow> (1, start, 0)))"

text \<open>The loop over the substrings: \<open>None\<close> when one of them holds no number.\<close>

fun count_cpus :: "string list \<Rightarrow> i32 \<Rightarrow> i32 option" where
  "count_cpus [] tmp_cpus = Some tmp_cpus"
| "count_cpus (str # strs) tmp_cpus =
     (case scan_range str of (n, start, e) \<Rightarrow>
        if n = 0 then None
        else (let e = (if n = 1 then start else e) in count_cpus strs (tmp_cpus + (e - start + 1))))"

fun split_commas :: "string \<Rightarrow> string list" where
  "split_commas [] = [[]]"
| "split_commas (c # cs) =
     (case split_commas cs of str # strs \<Rightarrow> if c = CHR '','' \<or> c = CHR 0x00 then [] # str # strs else (c # str) # strs | [] \<Rightarrow> [])"

text \<open>\<open>cpus\<close> is the static variable that caches the result, returned updated.\<close>

definition libbpf_num_possible_cpus :: "'s os \<Rightarrow> i32 \<Rightarrow> 's \<Rightarrow> int \<times> i32 \<times> 's" where
  "libbpf_num_possible_cpus os cpus s =
     (if sint cpus > 0 then (sint cpus, cpus, s)
      else
        case os_cpu_file os s of
          (No_file e, s) \<Rightarrow> (- e, cpus, s)
        | (Bad_read e, s) \<Rightarrow> (- e, cpus, s)
        | (Contents buf, s) \<Rightarrow>
            if buf = [] then (- EINVAL, cpus, s)
            else if length buf \<ge> 128 then (- EOVERFLOW, cpus, s)
            else
              (case count_cpus (split_commas buf) 0 of
                 None \<Rightarrow> (- EINVAL, cpus, s)
               | Some n \<Rightarrow> if sint n \<le> 0 then (- EINVAL, cpus, s) else (sint n, n, s)))"

section \<open>Creating maps\<close>

record bpf_capabilities =
  cap_name :: bool
  cap_global_data :: bool
  cap_btf_func :: bool
  cap_btf_datasec :: bool

text \<open>What \<open>bpf_object__create_maps\<close> reads of the object: capabilities, BTF, section data.\<close>

record map_context =
  mx_caps :: bpf_capabilities
  mx_btf :: "btf_handle option"
  mx_btf_maps_shndx :: int
  mx_data :: u64
  mx_rodata :: u64

definition bpf_map_is_internal :: "libbpf_map \<Rightarrow> bool" where
  "bpf_map_is_internal m \<longleftrightarrow> bm_libbpf_type m \<noteq> LIBBPF_MAP_UNSPEC"

definition bpf_map_is_offload_neutral :: "libbpf_map \<Rightarrow> bool" where
  "bpf_map_is_offload_neutral m \<longleftrightarrow> d_type (bm_def m) = BPF_MAP_TYPE_PERF_EVENT_ARRAY"

definition bpf_map_type_is_map_in_map :: "bpf_map_type \<Rightarrow> bool" where
  "bpf_map_type_is_map_in_map t \<longleftrightarrow> t = BPF_MAP_TYPE_ARRAY_OF_MAPS \<or> t = BPF_MAP_TYPE_HASH_OF_MAPS"

definition bpf_map_set_inner_map_fd :: "libbpf_map \<Rightarrow> int \<Rightarrow> int \<times> libbpf_map" where
  "bpf_map_set_inner_map_fd m fd =
     (if \<not> bpf_map_type_is_map_in_map (d_type (bm_def m)) then (- EINVAL, m)
      else if bm_inner_map_fd m \<noteq> - 1 then (- EINVAL, m)
      else (0, m\<lparr>bm_inner_map_fd := fd\<rparr>))"

definition bpf_map_find_btf_info :: "map_context \<Rightarrow> btf_handle \<Rightarrow> libbpf_map \<Rightarrow> int \<times> libbpf_map" where
  "bpf_map_find_btf_info cx btf m =
     (if bm_sec_idx m = mx_btf_maps_shndx cx then (0, m)
      else
        (let (ret, key_type_id, value_type_id) =
               (if \<not> bpf_map_is_internal m
                then bt_kv_tids btf (bm_name m) (d_key_size (bm_def m)) (d_value_size (bm_def m))
                else (bt_find btf (libbpf_type_to_btf_name (bm_libbpf_type m)), 0, 0))
         in if ret < 0 then (ret, m)
            else (0, m\<lparr>bm_btf_key_type_id := key_type_id,
                        bm_btf_value_type_id := if bpf_map_is_internal m then of_int ret else value_type_id\<rparr>)))"

definition bpf_object_populate_internal_map :: "'s os \<Rightarrow> map_context \<Rightarrow> libbpf_map \<Rightarrow> 's \<Rightarrow> int \<times> 's" where
  "bpf_object_populate_internal_map os cx m s =
     (if bm_libbpf_type m = LIBBPF_MAP_BSS then (0, s)
      else
        (let data = (if bm_libbpf_type m = LIBBPF_MAP_DATA then mx_data cx else mx_rodata cx);
             (err, s) = bpf_map_update_elem (os_kernel os) (of_int (bm_fd m)) (os_zero os) data 0 s
         in if err = 0 \<and> bm_libbpf_type m = LIBBPF_MAP_RODATA
            then (0, snd (bpf_map_freeze (os_kernel os) (of_int (bm_fd m)) s))
            else (err, s)))"

text \<open>
  One turn of the loop: go on, return, or leave through \<open>err_out\<close>, which closes the maps that
  were created before.  \<open>create_attr\<close>, \<open>nr_cpus\<close> and the cache of the number of processors live
  across turns.
\<close>

datatype create_result = Created | Return int | Err_out int

definition create_max_entries ::
    "'s os \<Rightarrow> bpf_map_def \<Rightarrow> int \<Rightarrow> i32 \<Rightarrow> 's \<Rightarrow> u32 option \<times> int \<times> i32 \<times> 's" where
  "create_max_entries os d nr_cpus cpus s =
     (if d_type d = BPF_MAP_TYPE_PERF_EVENT_ARRAY \<and> d_max_entries d = 0 then
        (let (nr_cpus, cpus, s) = (if nr_cpus = 0 then libbpf_num_possible_cpus os cpus s else (nr_cpus, cpus, s))
         in (if nr_cpus < 0 then None else Some (of_int nr_cpus), nr_cpus, cpus, s))
      else (Some (d_max_entries d), nr_cpus, cpus, s))"

definition create_attr_for :: "map_context \<Rightarrow> libbpf_map \<Rightarrow> u32 \<Rightarrow> create_map_attr \<Rightarrow> create_map_attr \<times> libbpf_map" where
  "create_attr_for cx m max_entries a =
     (let d = bm_def m;
          a = (if cap_name (mx_caps cx) then a\<lparr>cm_name := Some (bytes_of (bm_name m))\<rparr> else a);
          a = a\<lparr>cm_map_ifindex := bm_map_ifindex m, cm_map_type := d_type d, cm_map_flags := d_map_flags d,
                cm_key_size := d_key_size d, cm_value_size := d_value_size d, cm_max_entries := max_entries,
                cm_btf_fd := 0, cm_btf_key_type_id := 0, cm_btf_value_type_id := 0\<rparr>;
          a = (if bpf_map_type_is_map_in_map (d_type d) \<and> bm_inner_map_fd m \<ge> 0
               then a\<lparr>cm_inner_map_fd := of_int (bm_inner_map_fd m)\<rparr> else a)
      in case mx_btf cx of
           None \<Rightarrow> (a, m)
         | Some btf \<Rightarrow>
             (let (err, m) = bpf_map_find_btf_info cx btf m
              in if err = 0
                 then (a\<lparr>cm_btf_fd := of_int (bt_fd btf), cm_btf_key_type_id := bm_btf_key_type_id m,
                         cm_btf_value_type_id := bm_btf_value_type_id m\<rparr>, m)
                 else (a, m)))"

text \<open>The kernel's answer; without BTF when it refuses the map with it.\<close>

definition create_fd ::
    "'s os \<Rightarrow> create_map_attr \<Rightarrow> libbpf_map \<Rightarrow> 's \<Rightarrow> create_map_attr \<times> libbpf_map \<times> 's" where
  "create_fd os a m s =
     (let (fd, s) = bpf_create_map_xattr (os_kernel os) a s
      in if fd < 0 \<and> (cm_btf_key_type_id a \<noteq> 0 \<or> cm_btf_value_type_id a \<noteq> 0) then
           (let a = a\<lparr>cm_btf_fd := 0, cm_btf_key_type_id := 0, cm_btf_value_type_id := 0\<rparr>;
                (fd, s) = bpf_create_map_xattr (os_kernel os) a s
            in (a, m\<lparr>bm_btf_key_type_id := 0, bm_btf_value_type_id := 0, bm_fd := fd\<rparr>, s))
         else (a, m\<lparr>bm_fd := fd\<rparr>, s))"

text \<open>What is done with a map that exists: its contents, then its pin.\<close>

definition create_rest :: "'s os \<Rightarrow> map_context \<Rightarrow> libbpf_map \<Rightarrow> 's \<Rightarrow> create_result \<times> libbpf_map \<times> 's" where
  "create_rest os cx m s =
     (let (err, s) = (if bpf_map_is_internal m then bpf_object_populate_internal_map os cx m s else (0, s))
      in if err < 0 then (Err_out err, m\<lparr>bm_fd := - 1\<rparr>, snd (zclose os (bm_fd m) s))
         else if bm_pin_path m \<noteq> None \<and> \<not> bm_pinned m then
           (let (err, m, s) = bpf_map_pin os m None s in (if err \<noteq> 0 then Return err else Created, m, s))
         else (Created, m, s))"

definition create_one ::
    "'s os \<Rightarrow> map_context \<Rightarrow> libbpf_map \<Rightarrow> create_map_attr \<Rightarrow> int \<Rightarrow> i32 \<Rightarrow> 's \<Rightarrow>
     create_result \<times> libbpf_map \<times> create_map_attr \<times> int \<times> i32 \<times> 's" where
  "create_one os cx m a nr_cpus cpus s =
     (let (err, m, s) = (case bm_pin_path m of None \<Rightarrow> (0, m, s) | Some p \<Rightarrow> bpf_object_reuse_map os p m s)
      in if err \<noteq> 0 then (Return err, m, a, nr_cpus, cpus, s)
         else if bm_fd m \<ge> 0 then (Created, m, a, nr_cpus, cpus, s)
         else
           case create_max_entries os (bm_def m) nr_cpus cpus s of
             (None, nr_cpus, cpus, s) \<Rightarrow> (Err_out nr_cpus, m, a, nr_cpus, cpus, s)
           | (Some max_entries, nr_cpus, cpus, s) \<Rightarrow>
               (let (a, m) = create_attr_for cx m max_entries a;
                    (a, m, s) = create_fd os a m s
                in if bm_fd m < 0 then (Err_out (- os_errno os s), m, a, nr_cpus, cpus, s)
                   else (let (r, m, s) = create_rest os cx m s in (r, m, a, nr_cpus, cpus, s))))"

fun close_maps :: "'s os \<Rightarrow> libbpf_map list \<Rightarrow> 's \<Rightarrow> libbpf_map list \<times> 's" where
  "close_maps os [] s = ([], s)"
| "close_maps os (m # ms) s =
     (let s = snd (zclose os (bm_fd m) s); (ms, s) = close_maps os ms s in (m\<lparr>bm_fd := - 1\<rparr> # ms, s))"

text \<open>\<open>done\<close> are the maps before the current one, in order.\<close>

fun create_maps_loop ::
    "'s os \<Rightarrow> map_context \<Rightarrow> libbpf_map list \<Rightarrow> libbpf_map list \<Rightarrow> create_map_attr \<Rightarrow> int \<Rightarrow> i32 \<Rightarrow> 's \<Rightarrow>
     int \<times> libbpf_map list \<times> i32 \<times> 's" where
  "create_maps_loop os cx done [] a nr_cpus cpus s = (0, done, cpus, s)"
| "create_maps_loop os cx done (m # ms) a nr_cpus cpus s =
     (case create_one os cx m a nr_cpus cpus s of
        (Created, m, a, nr_cpus, cpus, s) \<Rightarrow> create_maps_loop os cx (done @ [m]) ms a nr_cpus cpus s
      | (Return err, m, a, nr_cpus, cpus, s) \<Rightarrow> (err, done @ m # ms, cpus, s)
      | (Err_out err, m, a, nr_cpus, cpus, s) \<Rightarrow>
          (let (done, s) = close_maps os done s in (err, done @ m # ms, cpus, s)))"

definition bpf_object_create_maps ::
    "'s os \<Rightarrow> map_context \<Rightarrow> libbpf_map list \<Rightarrow> i32 \<Rightarrow> 's \<Rightarrow> int \<times> libbpf_map list \<times> i32 \<times> 's" where
  "bpf_object_create_maps os cx ms cpus s = create_maps_loop os cx [] ms create_map_attr0 0 cpus s"

section \<open>The contract of the operating system\<close>

text \<open>
  Two observers of the state: \<open>fdv\<close>, the kernel object behind each open descriptor, and \<open>pinv\<close>, the
  object behind each path of the file system of pins.  A call either keeps both, or does one
  documented thing to them.
\<close>

definition keeps :: "('s \<Rightarrow> int \<Rightarrow> nat option) \<Rightarrow> ('s \<Rightarrow> string \<Rightarrow> nat option) \<Rightarrow> 's \<Rightarrow> 's \<Rightarrow> bool" where
  "keeps fdv pinv s s' \<longleftrightarrow> fdv s' = fdv s \<and> pinv s' = pinv s"

text \<open>A call that returns a new descriptor, or a negative number and changes nothing.\<close>

definition opens :: "('s \<Rightarrow> int \<Rightarrow> nat option) \<Rightarrow> ('s \<Rightarrow> string \<Rightarrow> nat option) \<Rightarrow> int \<Rightarrow> 's \<Rightarrow> 's \<Rightarrow> bool" where
  "opens fdv pinv fd s s' \<longleftrightarrow>
     (if fd < 0 then keeps fdv pinv s s'
      else fdv s fd = None \<and> pinv s' = pinv s \<and> (\<exists>ob. fdv s' = (fdv s)(fd \<mapsto> ob)))"

text \<open>Beyond the descriptors \<open>F\<close>, exactly \<open>fds\<close> are open.\<close>

definition owns :: "('s \<Rightarrow> int \<Rightarrow> nat option) \<Rightarrow> (int \<Rightarrow> nat option) \<Rightarrow> int list \<Rightarrow> 's \<Rightarrow> bool" where
  "owns fdv F fds s \<longleftrightarrow>
     distinct fds \<and> (\<forall>fd\<in>set fds. F fd = None \<and> fdv s fd \<noteq> None) \<and> (\<forall>fd. fd \<notin> set fds \<longrightarrow> fdv s fd = F fd)"

definition held :: "libbpf_map list \<Rightarrow> int list" where
  "held ms = filter (\<lambda>fd. 0 \<le> fd) (map bm_fd ms)"

text \<open>A map that is marked as pinned is the object at its path.\<close>

definition pin_ok :: "('s \<Rightarrow> int \<Rightarrow> nat option) \<Rightarrow> ('s \<Rightarrow> string \<Rightarrow> nat option) \<Rightarrow> 's \<Rightarrow> libbpf_map \<Rightarrow> bool" where
  "pin_ok fdv pinv s m \<longleftrightarrow>
     (bm_pinned m \<longrightarrow> (\<exists>p ob. bm_pin_path m = Some p \<and> fdv s (bm_fd m) = Some ob \<and> pinv s p = Some ob))"

definition is_int :: "int \<Rightarrow> bool" where "is_int i \<longleftrightarrow> - (2 ^ 31) \<le> i \<and> i < 2 ^ 31"

locale libbpf_os =
  fixes os :: "'s os" and fdv :: "'s \<Rightarrow> int \<Rightarrow> nat option" and pinv :: "'s \<Rightarrow> string \<Rightarrow> nat option"
  assumes fd_range: "fdv s fd \<noteq> None \<Longrightarrow> 0 \<le> fd"
    and close_fd: "fdv (snd (os_close os fd s)) = (fdv s)(fd := None)"
    and close_pin: "pinv (snd (os_close os fd s)) = pinv s"
    and open_root: "opens fdv pinv (fst (os_open_root os s)) s (snd (os_open_root os s))"
    and dup3: "fdv s new = Some ob \<Longrightarrow> os_dup3 os old new s = (r, s') \<Longrightarrow>
      pinv s' = pinv s \<and> (if r < 0 then fdv s' = fdv s else r = new \<and> fdv s' = (fdv s)(new := fdv s old) \<and> fdv s old \<noteq> None)"
    and quiet: "keeps fdv pinv s (snd (os_malloc os s))" "keeps fdv pinv s (snd (os_mkdir os p s))"
      "keeps fdv pinv s (snd (snd (os_statfs os p s)))" "keeps fdv pinv s (snd (os_cpu_file os s))" "keeps fdv pinv s (snd (os_rmdir os p s))"
      "keeps fdv pinv s (snd (snd (snd (k_info (os_kernel os) c info s))))" "keeps fdv pinv s (snd (snd (snd (k_elem (os_kernel os) c el s))))"
    and map_create: "k_map_create (os_kernel os) BPF_MAP_CREATE mc s = (fd, e, mc', s') \<Longrightarrow> opens fdv pinv fd s s'"
    and obj_get: "obj_get_path os p s = (fd, s') \<Longrightarrow> opens fdv pinv fd s s' \<and> (0 \<le> fd \<longrightarrow> fdv s' fd = pinv s p)"
    and obj_pin: "is_int fd \<Longrightarrow> obj_pin_path os fd p s = (r, s') \<Longrightarrow>
      fdv s' = fdv s \<and> (if r = 0 then fdv s fd \<noteq> None \<and> pinv s p = None \<and> pinv s' = (pinv s)(p := fdv s fd) else pinv s' = pinv s)"
    and unlink: "os_unlink os p s = (r, s') \<Longrightarrow>
      fdv s' = fdv s \<and> pinv s' = (if r = 0 then (pinv s)(p := None) else pinv s)"
    and prog_load: "k_prog_load (os_kernel os) BPF_PROG_LOAD pl s = (fd, e, pl', s') \<Longrightarrow> opens fdv pinv fd s s'"
    and errno: "os_malloc os s = (False, s') \<Longrightarrow> 0 < os_errno os s'"
      "os_open_root os s = (r, s') \<Longrightarrow> r < 0 \<Longrightarrow> 0 < os_errno os s'" "os_dup3 os fd fd' s = (r, s') \<Longrightarrow> r < 0 \<Longrightarrow> 0 < os_errno os s'"
      "os_close os fd s = (r, s') \<Longrightarrow> r \<noteq> 0 \<Longrightarrow> 0 < os_errno os s'" "os_statfs os p s = (r, ty, s') \<Longrightarrow> r \<noteq> 0 \<Longrightarrow> 0 < os_errno os s'"
      "os_unlink os p s = (r, s') \<Longrightarrow> r \<noteq> 0 \<Longrightarrow> 0 < os_errno os s'" "obj_pin_path os fd p s = (r, s') \<Longrightarrow> r \<noteq> 0 \<Longrightarrow> 0 < os_errno os s'"
      "bpf_create_map_xattr (os_kernel os) a s = (r, s') \<Longrightarrow> r < 0 \<Longrightarrow> 0 < os_errno os s'"
begin

lemma owns_perm: "mset xs = mset ys \<Longrightarrow> owns fdv F xs s \<longleftrightarrow> owns fdv F ys s"
  unfolding owns_def by (metis mset_eq_setD mset_eq_imp_distinct_iff)

lemma owns_keeps: "keeps fdv pinv s s' \<Longrightarrow> owns fdv F fds s' = owns fdv F fds s"
  by (simp add: keeps_def owns_def)

lemma owns_nil: "owns fdv F [] s \<longleftrightarrow> fdv s = F"
  by (auto simp: owns_def)

lemma owns_open: "opens fdv pinv fd s s' \<Longrightarrow> owns fdv F fds s \<Longrightarrow> owns fdv F (if fd < 0 then fds else fd # fds) s'"
  by (auto simp: opens_def owns_def keeps_def)

lemma owns_close: "owns fdv F (fd # fds) s \<Longrightarrow> owns fdv F fds (snd (os_close os fd s))"
  by (auto simp: owns_def close_fd)

lemma create_xattr_opens: "bpf_create_map_xattr (os_kernel os) a s = (fd, s') \<Longrightarrow> opens fdv pinv fd s s'"
  unfolding bpf_create_map_xattr_def sys_bpf_def by (auto split: prod.splits dest: map_create)

lemma keeps_refl [simp]: "keeps fdv pinv s s" by (simp add: keeps_def)

lemma keeps_trans: "keeps fdv pinv s s1 \<Longrightarrow> keeps fdv pinv s1 s2 \<Longrightarrow> keeps fdv pinv s s2" by (simp add: keeps_def)

lemma opens_pin: "opens fdv pinv fd s s' \<Longrightarrow> pinv s' = pinv s"
  by (auto simp: opens_def keeps_def split: if_splits)

lemma quiet_steps:
  "os_malloc os s = (ok, s') \<Longrightarrow> keeps fdv pinv s s'" "os_mkdir os p s = (r, s') \<Longrightarrow> keeps fdv pinv s s'"
  "os_statfs os p s = (r, ty, s') \<Longrightarrow> keeps fdv pinv s s'" "os_cpu_file os s = (cf, s') \<Longrightarrow> keeps fdv pinv s s'"
  "os_rmdir os p s = (r, s') \<Longrightarrow> keeps fdv pinv s s'"
  "bpf_obj_get_info_by_fd (os_kernel os) wfd p' n s = (r, n', s') \<Longrightarrow> keeps fdv pinv s s'"
  "bpf_map_update_elem (os_kernel os) wfd a b c s = (r, s') \<Longrightarrow> keeps fdv pinv s s'"
  "bpf_map_freeze (os_kernel os) wfd s = (r, s') \<Longrightarrow> keeps fdv pinv s s'"
  using quiet [of s]
  by (auto simp: bpf_obj_get_info_by_fd_def bpf_map_update_elem_def bpf_map_freeze_def sys_bpf_def Let_def split: prod.splits)
    (metis snd_conv)+

lemma cpus_keeps: "libbpf_num_possible_cpus os cpus s = (n, c, s') \<Longrightarrow> keeps fdv pinv s s'"
  using quiet(4) [of s]
  by (auto simp: libbpf_num_possible_cpus_def split: if_splits prod.splits cpu_file.splits option.splits)

lemma max_entries_keeps: "create_max_entries os d n cpus s = (r, n', c', s') \<Longrightarrow> keeps fdv pinv s s'"
  by (auto simp: create_max_entries_def Let_def split: if_splits prod.splits dest: cpus_keeps)

lemma populate_keeps: "bpf_object_populate_internal_map os cx m s = (err, s') \<Longrightarrow> keeps fdv pinv s s'"
  by (auto simp: bpf_object_populate_internal_map_def Let_def split: if_splits prod.splits dest!: quiet_steps intro: keeps_trans quiet_steps(8) [OF surjective_pairing])

lemma zclose_owns:
  "owns fdv F (filter (\<lambda>fd. 0 \<le> fd) [fd] @ fds) s \<Longrightarrow> owns fdv F fds (snd (zclose os fd s))"
  by (auto simp: zclose_def owns_close)

lemma zclose_pin: "pinv (snd (zclose os fd s)) = pinv s"
  by (auto simp: zclose_def close_pin)

lemma create_attr_keeps:
  "create_attr_for cx m entries a = (a', m') \<Longrightarrow>
     bm_fd m' = bm_fd m \<and> bm_pin_path m' = bm_pin_path m \<and> bm_name m' = bm_name m \<and> bm_pinned m' = bm_pinned m \<and> bm_reused m' = bm_reused m"
  by (auto simp: create_attr_for_def bpf_map_find_btf_info_def Let_def split: option.splits prod.splits if_splits)

lemma create_fd_opens:
  "create_fd os a m s = (a', m', s') \<Longrightarrow>
     opens fdv pinv (bm_fd m') s s' \<and> bm_pin_path m' = bm_pin_path m \<and> bm_name m' = bm_name m \<and> bm_pinned m' = bm_pinned m \<and> bm_reused m' = bm_reused m"
  by (auto simp: create_fd_def Let_def split: prod.splits if_splits dest!: create_xattr_opens)
    (auto simp: opens_def keeps_def)

lemma create_fd_errno: "create_fd os a m s = (a', m', s') \<Longrightarrow> bm_fd m' < 0 \<Longrightarrow> 0 < os_errno os s'"
  using errno(8) by (auto simp: create_fd_def Let_def split: prod.splits if_splits)

lemma create_rest_owns:
  assumes "create_rest os cx m s = (r, m', s')" "bm_pin_path m = None" "0 \<le> bm_fd m" "owns fdv F (bm_fd m # fds) s"
  shows "owns fdv F (held [m'] @ fds) s' \<and> pinv s' = pinv s \<and> bm_pin_path m' = None \<and> bm_name m' = bm_name m \<and>
    bm_pinned m' = bm_pinned m \<and> bm_reused m' = bm_reused m \<and> (r = Created \<longleftrightarrow> bm_fd m' \<ge> 0) \<and> r \<noteq> Return err \<and> r \<noteq> Err_out 0"
proof -
  obtain e s1 where 1: "(if bpf_map_is_internal m then bpf_object_populate_internal_map os cx m s else (0, s)) = (e, s1)" by force
  then have k: "keeps fdv pinv s s1" by (auto split: if_splits dest: populate_keeps)
  then have o: "owns fdv F (bm_fd m # fds) s1" using assms(4) owns_keeps by simp
  show ?thesis
    using assms(1-3) 1 o k zclose_owns [of F "bm_fd m" fds s1] zclose_pin [of "bm_fd m" s1]
    by (auto simp: create_rest_def held_def keeps_def split: if_splits)
qed

lemma create_one_owns:
  assumes "create_one os cx m a n c s = (r, m', a', n', c', s')" "bm_pin_path m = None" "bm_fd m < 0" "owns fdv F fds s"
  shows "owns fdv F (held [m'] @ fds) s' \<and> pinv s' = pinv s \<and> bm_pin_path m' = None \<and> bm_name m' = bm_name m \<and>
    bm_pinned m' = bm_pinned m \<and> bm_reused m' = bm_reused m \<and> (r = Created \<longleftrightarrow> bm_fd m' \<ge> 0) \<and> r \<noteq> Return err \<and> r \<noteq> Err_out 0"
proof -
  obtain me n1 c1 s1 where 1: "create_max_entries os (bm_def m) n c s = (me, n1, c1, s1)" by (metis prod_cases4)
  note k1 = max_entries_keeps [OF 1]
  show ?thesis
  proof (cases me)
    case None
    then show ?thesis using assms 1 k1 owns_keeps [OF k1]
      by (auto simp: create_one_def held_def keeps_def create_max_entries_def Let_def split: if_splits prod.splits)
  next
    case (Some entries)
    obtain a2 m2 where 2: "create_attr_for cx m entries a = (a2, m2)" by force
    obtain a3 m3 s3 where 3: "create_fd os a2 m2 s1 = (a3, m3, s3)" by (metis prod_cases3)
    note k = create_attr_keeps [OF 2] create_fd_opens [OF 3]
    have o: "owns fdv F (if bm_fd m3 < 0 then fds else bm_fd m3 # fds) s3"
      using owns_open k owns_keeps [OF k1] assms(4) by blast
    have p: "pinv s3 = pinv s" using k opens_pin k1 by (auto simp: keeps_def)
    show ?thesis
    proof (cases "bm_fd m3 < 0")
      case True
      then show ?thesis using assms 1 2 3 Some o p k create_fd_errno [OF 3] by (auto simp: create_one_def held_def)
    next
      case False
      obtain r4 m4 s4 where 4: "create_rest os cx m3 s3 = (r4, m4, s4)" by (metis prod_cases3)
      show ?thesis using create_rest_owns [OF 4 _ _, of F fds] assms 1 2 3 4 Some o p k False
        by (auto simp: create_one_def)
    qed
  qed
qed

lemma held_append [simp]: "held (xs @ ys) = held xs @ held ys" "held [] = []"
  by (simp_all add: held_def)

lemma held_Cons: "held (m # ms) = held [m] @ held ms"
  by (simp add: held_def)

lemma close_maps_owns:
  "close_maps os ms s = (ms', s') \<Longrightarrow> owns fdv F (held ms @ fds) s \<Longrightarrow>
     owns fdv F fds s' \<and> pinv s' = pinv s \<and> ms' = map (\<lambda>m. m\<lparr>bm_fd := - 1\<rparr>) ms"
proof (induction ms arbitrary: s ms')
  case (Cons m ms)
  have "owns fdv F (held ms @ fds) (snd (zclose os (bm_fd m) s))"
    using Cons.prems(2) by (intro zclose_owns) (simp add: held_def split: if_splits)
  with Cons.IH [OF _ this] Cons.prems(1) show ?case by (auto simp: zclose_pin split: prod.splits)
qed simp

lemma create_maps_owns:
  assumes "create_maps_loop os cx dn ms a n c s = (err, ms', c', s')"
    "\<forall>m\<in>set ms. bm_pin_path m = None \<and> bm_fd m < 0" "\<forall>m\<in>set dn. bm_pin_path m = None \<and> 0 \<le> bm_fd m" "owns fdv F (held dn) s"
  shows "owns fdv F (held ms') s' \<and> pinv s' = pinv s \<and> map bm_name ms' = map bm_name (dn @ ms) \<and>
    map bm_pinned ms' = map bm_pinned (dn @ ms) \<and> (\<forall>m\<in>set ms'. bm_pin_path m = None) \<and>
    (if err = 0 then \<forall>m\<in>set ms'. 0 \<le> bm_fd m else held ms' = [])"
  using assms
proof (induction ms arbitrary: dn a n c s)
  case Nil
  then show ?case by auto
next
  case (Cons m ms)
  obtain r m1 a1 n1 c1 s1 where 1: "create_one os cx m a n c s = (r, m1, a1, n1, c1, s1)" by (metis prod_cases3)
  note o = create_one_owns [OF 1 _ _ Cons.prems(4)]
  have op: "owns fdv F (held dn @ held [m1]) s1"
    using o Cons.prems(2) owns_perm [of "held [m1] @ held dn" "held dn @ held [m1]"] by simp
  show ?case
  proof (cases r)
    case Created
    then have "\<forall>m\<in>set (dn @ [m1]). bm_pin_path m = None \<and> 0 \<le> bm_fd m" using o Cons.prems(2,3) by auto
    from Cons.IH [OF _ _ this, of a1 n1 c1 s1] show ?thesis using Cons.prems 1 op Created o by auto
  next
    case (Err_out e)
    then have h: "held [m1] = []" "e \<noteq> 0" using o Cons.prems(2) by (auto simp: held_def)
    obtain dn2 s2 where 2: "close_maps os dn s1 = (dn2, s2)" by force
    from close_maps_owns [OF 2, of F "[]"] op h
    have c: "owns fdv F [] s2" "pinv s2 = pinv s1" "dn2 = map (\<lambda>m. m\<lparr>bm_fd := - 1\<rparr>) dn" by simp_all
    have "held ms = []" using Cons.prems(2) by (auto simp: held_def filter_empty_conv)
    then show ?thesis using c Cons.prems 1 2 Err_out o h
      by (auto simp: held_Cons [of m1 ms] held_def)
  qed (use o Cons.prems(2) in auto)
qed


lemma path_keeps:
  "make_parent_dir os p s = (r, s') \<Longrightarrow> keeps fdv pinv s s'" "check_path os po s = (r, s') \<Longrightarrow> keeps fdv pinv s s'"
  by (auto simp: make_parent_dir_def check_path_def Let_def split: prod.splits if_splits option.splits
      dest!: quiet_steps intro: keeps_trans)

text \<open>Reusing a descriptor: on success the map holds a new descriptor of the same kernel object.\<close>

lemma reuse_fd_result:
  assumes "bpf_map_reuse_fd os m fd s = (0, m', s')" "fdv s fd = Some ob" "0 \<le> bm_fd m \<Longrightarrow> fdv s (bm_fd m) \<noteq> None"
  shows "fdv s (bm_fd m') = None \<and> fdv s' = (if 0 \<le> bm_fd m then (fdv s)(bm_fd m := None) else fdv s)(bm_fd m' \<mapsto> ob) \<and>
    pinv s' = pinv s \<and> bm_reused m' \<and> bm_pin_path m' = bm_pin_path m"
proof -
  obtain n1 s1 where 1: "bpf_obj_get_info_by_fd (os_kernel os) (of_int fd) (os_info_buf os) SIZEOF_MAP_INFO s = (0, n1, s1)"
    using assms(1) by (auto simp: bpf_map_reuse_fd_def Let_def split: prod.splits if_splits)
  obtain ok s2 where 2: "os_malloc os s1 = (ok, s2)" by force
  obtain fd3 s3 where 3: "os_open_root os s2 = (fd3, s3)" by force
  obtain fd4 s4 where 4: "os_dup3 os fd fd3 s3 = (fd4, s4)" by force
  obtain e5 s5 where 5: "zclose os (bm_fd m) s4 = (e5, s5)" by force
  have r: "ok" "\<not> fd3 < 0" "\<not> fd4 < 0" "e5 = 0" "s' = s5"
    "bm_fd m' = fd4" "bm_reused m'" "bm_pin_path m' = bm_pin_path m"
    using assms(1) 1 2 3 4 5 errno(1) [of s1 s2] errno(2) [OF 3] errno(3) [OF 4] errno(4) [of "bm_fd m" s4 e5 s5]
    by (auto simp: bpf_map_reuse_fd_def Let_def zclose_def split: if_splits)
  have f2: "fdv s2 = fdv s" "pinv s2 = pinv s" using quiet_steps(6) [OF 1] quiet_steps(1) [OF 2] by (simp_all add: keeps_def)
  obtain o3 where f3: "fdv s fd3 = None" "fdv s3 = (fdv s)(fd3 \<mapsto> o3)" "pinv s3 = pinv s"
    using open_root [of s2] 3 r(2) f2 by (auto simp: opens_def)
  have f4: "fd4 = fd3" "fdv s4 = (fdv s)(fd3 \<mapsto> ob)" "pinv s4 = pinv s"
    using dup3 [OF _ 4, of o3] f3 r(3) assms(2) by (auto simp: fun_eq_iff)
  have "0 \<le> bm_fd m \<Longrightarrow> bm_fd m \<noteq> fd3" using assms(3) f3(1) by auto
  then show ?thesis
    using 5 r f3(1) f4 close_fd [of "bm_fd m" s4] close_pin [of "bm_fd m" s4] by (auto simp: zclose_def fun_upd_twist)
qed

text \<open>A map that is reused at its pin shares the pinned object, but the descriptor of the pin stays open.\<close>

lemma reuse_map_leaks:
  assumes "bpf_object_reuse_map os p m s = (0, m', s')" "bm_fd m < 0" "0 \<le> bm_fd m'"
  shows "\<exists>pin_fd ob. pinv s p = Some ob \<and> fdv s pin_fd = None \<and> fdv s (bm_fd m') = None \<and> pin_fd \<noteq> bm_fd m' \<and>
    fdv s' = (fdv s)(pin_fd \<mapsto> ob, bm_fd m' \<mapsto> ob) \<and> pinv s' = pinv s \<and> bm_pinned m' \<and> bm_reused m'"
proof -
  obtain fd1 s1 where 1: "obj_get_path os p s = (fd1, s1)" by force
  obtain compat s2 where 2: "map_is_reuse_compat os m fd1 s1 = (compat, s2)" by force
  have k2: "keeps fdv pinv s1 s2"
    using 2 by (auto simp: map_is_reuse_compat_def Let_def split: prod.splits if_splits dest: quiet_steps)
  obtain m3 s3 where 3: "bpf_map_reuse_fd os m fd1 s2 = (0, m3, s3)" "\<not> fd1 < 0" "compat" "m' = m3\<lparr>bm_pinned := True\<rparr>" "s' = s3"
    using assms 1 2 by (auto simp: bpf_object_reuse_map_def EINVAL_def split: prod.splits if_splits)
  obtain ob where o: "fdv s fd1 = None" "fdv s1 = (fdv s)(fd1 \<mapsto> ob)" "pinv s1 = pinv s" "pinv s p = Some ob"
    using obj_get [OF 1] 3(2) by (auto simp: opens_def) (metis fun_upd_same)
  have "fdv s2 fd1 = Some ob" using o k2 by (simp add: keeps_def)
  from reuse_fd_result [OF 3(1) this] assms(2)
  have "fdv s2 (bm_fd m3) = None" "fdv s3 = (fdv s2)(bm_fd m3 \<mapsto> ob)" "pinv s3 = pinv s2" "bm_reused m3" by auto
  then show ?thesis using o k2 3 by (auto simp: keeps_def intro!: exI [of _ fd1] split: if_splits)
qed

text \<open>Pinning and unpinning one map.\<close>

lemma obj_pin_step:
  "is_int fd \<Longrightarrow> obj_pin_path os fd p s = (r, s') \<Longrightarrow> fdv s' = fdv s \<and>
    (if r = 0 then fdv s fd \<noteq> None \<and> pinv s p = None \<and> pinv s' = (pinv s)(p := fdv s fd) else pinv s' = pinv s \<and> 0 < os_errno os s')"
  using obj_pin [of fd p s r s'] errno(7) [of fd p s r s'] by (auto split: if_splits)

lemma unlink_step:
  "os_unlink os p s = (r, s') \<Longrightarrow> fdv s' = fdv s \<and>
    (if r = 0 then pinv s' = (pinv s)(p := None) else pinv s' = pinv s \<and> 0 < os_errno os s')"
  using unlink [of p s r s'] errno(6) [of p s r s'] by (auto split: if_splits)

lemma pin_at_result:
  assumes "is_int (bm_fd m)" "pin_at os m p s = (err, m', s')"
  shows "fdv s' = fdv s \<and>
    (if err = 0 then m' = m\<lparr>bm_pinned := True\<rparr> \<and> fdv s (bm_fd m) \<noteq> None \<and> pinv s p = None \<and> pinv s' = (pinv s)(p := fdv s (bm_fd m))
     else m' = m \<and> pinv s' = pinv s)"
  using assms
  by (auto simp: pin_at_def Let_def keeps_def split: prod.splits if_splits dest!: path_keeps obj_pin_step [rotated])

lemma pin_result:
  assumes "is_int (bm_fd m)" "bpf_map_pin os m path s = (err, m', s')"
  shows "fdv s' = fdv s \<and> bm_fd m' = bm_fd m \<and> bm_name m' = bm_name m \<and>
    (bm_pin_path m' = bm_pin_path m \<or> bm_pin_path m = None \<and> path \<noteq> None \<and> bm_pin_path m' = path) \<and>
    (if err = 0 then bm_pinned m' \<and> (\<exists>p. bm_pin_path m' = Some p \<and> (path = None \<or> path = Some p) \<and>
        (bm_pinned m \<and> m' = m \<and> pinv s' = pinv s \<or>
         fdv s (bm_fd m) \<noteq> None \<and> pinv s p = None \<and> pinv s' = (pinv s)(p := fdv s (bm_fd m))))
     else bm_pinned m' = bm_pinned m \<and> pinv s' = pinv s)"
proof -
  have m: "os_malloc os s = (ok, s1) \<Longrightarrow> fdv s1 = fdv s \<and> pinv s1 = pinv s \<and> (\<not> ok \<longrightarrow> 0 < os_errno os s1)" for ok s1
    using quiet_steps(1) [of s ok s1] errno(1) [of s s1] by (cases ok) (auto simp: keeps_def)
  show ?thesis using assms
    by (auto simp: bpf_map_pin_def EINVAL_def EEXIST_def split: option.splits if_splits prod.splits dest!: pin_at_result [rotated] m)
qed

lemma unpin_result:
  assumes "bpf_map_unpin os m path s = (err, m', s')"
  shows "fdv s' = fdv s \<and>
    (if err = 0 then m' = m\<lparr>bm_pinned := False\<rparr> \<and> (\<exists>p. (bm_pin_path m = Some p \<or> bm_pin_path m = None \<and> path = Some p) \<and> pinv s' = (pinv s)(p := None))
     else m' = m \<and> pinv s' = pinv s)"
  using assms
  by (auto simp: bpf_map_unpin_def EINVAL_def keeps_def split: option.splits if_splits prod.splits dest!: path_keeps unlink_step)

text \<open>Pinning all maps below a directory.\<close>

lemma pin_ok_upd:
  assumes "pin_ok fdv pinv s x" "fdv s' = fdv s" "pinv s' = (pinv s)(p := ob)" "bm_pin_path x \<noteq> Some p \<or> pinv s p = None"
  shows "pin_ok fdv pinv s' x"
proof (cases "bm_pin_path x")
  case (Some q)
  then show ?thesis using assms by (cases "q = p") (auto simp: pin_ok_def)
qed (use assms in \<open>simp add: pin_ok_def\<close>)

lemma pin_ok_same: "pin_ok fdv pinv s x \<Longrightarrow> fdv s' = fdv s \<Longrightarrow> pinv s' = pinv s \<Longrightarrow> pin_ok fdv pinv s' x"
  by (simp add: pin_ok_def)

lemma pin_keeps_ok:
  assumes "is_int (bm_fd m)" "bpf_map_pin os m path s = (err, m', s')" "pin_ok fdv pinv s x"
  shows "pin_ok fdv pinv s' x"
proof -
  note r = pin_result [OF assms(1,2)]
  consider "pinv s' = pinv s" | p where "pinv s p = None" "pinv s' = (pinv s)(p := fdv s (bm_fd m))"
    using r by (auto split: if_splits)
  then show ?thesis
  proof cases
    case 1
    then show ?thesis using conjunct1 [OF r] by (rule pin_ok_same [OF assms(3), rotated])
  next
    case (2 p)
    then show ?thesis using pin_ok_upd [OF assms(3) conjunct1 [OF r]] by blast
  qed
qed

lemma pin_makes_ok:
  assumes "is_int (bm_fd m)" "bpf_map_pin os m path s = (err, m', s')" "pin_ok fdv pinv s m"
  shows "pin_ok fdv pinv s' m'"
proof (cases "err = 0")
  case False
  then have "bm_pinned m' = bm_pinned m" "pinv s' = pinv s" "fdv s' = fdv s" "bm_fd m' = bm_fd m"
    "bm_pin_path m' = bm_pin_path m \<or> bm_pin_path m = None"
    using pin_result [OF assms(1,2)] by auto
  then show ?thesis using assms(3) by (auto simp: pin_ok_def)
next
  case True
  then obtain p where p: "bm_pin_path m' = Some p" "bm_fd m' = bm_fd m" "fdv s' = fdv s"
    and "m' = m \<and> pinv s' = pinv s \<or> fdv s (bm_fd m) \<noteq> None \<and> pinv s' = (pinv s)(p := fdv s (bm_fd m))"
    using pin_result [OF assms(1,2)] by auto
  then show ?thesis using assms(3) pin_ok_same [OF assms(3), of s'] by (auto simp: pin_ok_def)
qed

lemma set_pin_paths: "p \<in> set (List.map_filter f xs) \<longleftrightarrow> (\<exists>x\<in>set xs. f x = Some p)"
  by (force simp: List.map_filter_def)

lemma distinct_pin_paths_perm: "mset (map f xs) = mset (map f ys) \<Longrightarrow> distinct (List.map_filter f xs) \<longleftrightarrow> distinct (List.map_filter f ys)"
proof -
  have "mset (List.map_filter f xs) = image_mset the (filter_mset (\<lambda>x. x \<noteq> None) (mset (map f xs)))" for xs
    by (induction xs) auto
  then show "mset (map f xs) = mset (map f ys) \<Longrightarrow> ?thesis" by (metis mset_eq_imp_distinct_iff)
qed

lemma distinct_targets:
  "distinct (map (\<lambda>m. case f m of Some p \<Rightarrow> p | None \<Rightarrow> d m) xs) \<Longrightarrow> distinct (List.map_filter f xs)"
proof (induction xs)
  case (Cons x xs)
  then show ?case by (force simp: set_pin_paths split: option.splits)
qed simp

lemma unpin_back_result:
  assumes "unpin_back os ms s = (ms', s')" "distinct (List.map_filter bm_pin_path (ms @ others))" "\<forall>m\<in>set (ms @ others). pin_ok fdv pinv s m"
  shows "fdv s' = fdv s \<and> (\<forall>m\<in>set (ms' @ others). pin_ok fdv pinv s' m) \<and> map bm_pin_path ms' = map bm_pin_path ms \<and>
    map bm_name ms' = map bm_name ms \<and> map bm_fd ms' = map bm_fd ms \<and>
    (\<forall>p. p \<notin> set (List.map_filter bm_pin_path ms) \<longrightarrow> pinv s' p = pinv s p)"
  using assms
proof (induction ms arbitrary: s ms' s' others)
  case (Cons m ms)
  obtain m1 s1 where 1: "(if bm_pin_path m = None then (m, s) else snd (bpf_map_unpin os m None s)) = (m1, s1)" by force
  obtain ms2 s2 where 2: "unpin_back os ms s1 = (ms2, s2)" by force
  have r: "ms' = m1 # ms2" "s' = s2" using Cons.prems(1) 1 2 by auto
  have m1: "bm_pin_path m1 = bm_pin_path m" "bm_fd m1 = bm_fd m" "bm_name m1 = bm_name m" "fdv s1 = fdv s"
    "(m1 = m \<and> pinv s1 = pinv s) \<or> (\<not> bm_pinned m1 \<and> (\<exists>p. bm_pin_path m = Some p \<and> pinv s1 = (pinv s)(p := None)))"
    using 1 unpin_result [of m None s "fst (bpf_map_unpin os m None s)" m1 s1]
    by (auto simp: prod_eq_iff split: if_splits)
  have d: "bm_pin_path m = Some p \<Longrightarrow> x \<in> set (ms @ others) \<Longrightarrow> bm_pin_path x \<noteq> Some p" for p x
    using Cons.prems(2) by (auto simp: set_pin_paths)
  have "distinct (List.map_filter bm_pin_path (ms @ m1 # others))"
    using Cons.prems(2) m1(1) distinct_pin_paths_perm [of bm_pin_path "(m # ms) @ others" "ms @ m1 # others"] by simp
  moreover have "\<forall>x\<in>set (ms @ m1 # others). pin_ok fdv pinv s1 x"
  proof
    fix x
    assume x: "x \<in> set (ms @ m1 # others)"
    consider "m1 = m" "pinv s1 = pinv s" | p where "\<not> bm_pinned m1" "bm_pin_path m = Some p" "pinv s1 = (pinv s)(p := None)"
      using m1(5) by blast
    then show "pin_ok fdv pinv s1 x"
    proof cases
      case 1
      then have "pin_ok fdv pinv s x" using x Cons.prems(3) by auto
      then show ?thesis using m1(4) 1(2) by (rule pin_ok_same)
    next
      case (2 p)
      show ?thesis
      proof (cases "x = m1")
        case False
        then have "pin_ok fdv pinv s x" "bm_pin_path x \<noteq> Some p" using x Cons.prems(3) d [OF 2(2)] by auto
        then show ?thesis using pin_ok_upd m1(4) 2(3) by blast
      qed (use 2 in \<open>simp add: pin_ok_def\<close>)
    qed
  qed
  ultimately have IH: "fdv s2 = fdv s1 \<and> (\<forall>x\<in>set (ms2 @ m1 # others). pin_ok fdv pinv s2 x) \<and> map bm_pin_path ms2 = map bm_pin_path ms \<and>
    map bm_name ms2 = map bm_name ms \<and> map bm_fd ms2 = map bm_fd ms \<and>
    (\<forall>p. p \<notin> set (List.map_filter bm_pin_path ms) \<longrightarrow> pinv s2 p = pinv s1 p)"
    by (rule Cons.IH [OF 2])
  have "pinv s2 p = pinv s p" if "p \<notin> set (List.map_filter bm_pin_path (m # ms))" for p
  proof -
    have "pinv s1 p = pinv s p" using that m1(5) by (auto simp: set_pin_paths)
    moreover have "p \<notin> set (List.map_filter bm_pin_path ms)" using that by (auto split: option.splits)
    ultimately show ?thesis using IH by simp
  qed
  then show ?case using r m1 IH by simp
qed simp

lemma pin_maps_result:
  assumes "pin_maps_loop os (Some dir) dn ms s = (err, ms', s')"
    "distinct (map (\<lambda>m. case bm_pin_path m of Some p \<Rightarrow> p | None \<Rightarrow> dir @ ''/'' @ bm_name m) (rev dn @ ms))"
    "\<forall>m\<in>set (dn @ ms). pin_ok fdv pinv s m" "\<forall>m\<in>set dn. bm_pinned m \<and> bm_pin_path m = Some (dir @ ''/'' @ bm_name m)"
    "\<forall>m\<in>set ms. is_int (bm_fd m)"
  shows "fdv s' = fdv s \<and> (\<forall>m\<in>set ms'. pin_ok fdv pinv s' m) \<and> map bm_name ms' = map bm_name (rev dn @ ms) \<and> map bm_fd ms' = map bm_fd (rev dn @ ms) \<and>
    (\<forall>p. p \<notin> (\<lambda>m. dir @ ''/'' @ bm_name m) ` set (dn @ ms) \<longrightarrow> pinv s' p = pinv s p) \<and>
    (err = 0 \<longrightarrow> (\<forall>m\<in>set ms'. bm_pinned m \<and> bm_pin_path m = Some (dir @ ''/'' @ bm_name m)))"
  using assms
proof (induction ms arbitrary: dn s)
  case (Cons m ms)
  let ?p = "dir @ ''/'' @ bm_name m" and ?t = "\<lambda>m. case bm_pin_path m of Some p \<Rightarrow> p | None \<Rightarrow> dir @ ''/'' @ bm_name m"
  obtain e1 m1 s1 where 1: "(if length ?p \<ge> PATH_MAX then (- ENAMETOOLONG, m, s) else bpf_map_pin os m (Some ?p) s) = (e1, m1, s1)"
    by (metis prod_cases3)
  have i: "is_int (bm_fd m)" "\<forall>m\<in>set ms. is_int (bm_fd m)" using Cons.prems(5) by auto
  have r: "fdv s1 = fdv s" "bm_fd m1 = bm_fd m" "bm_name m1 = bm_name m" "?t m1 = ?t m" "bm_pin_path m \<noteq> None \<longrightarrow> bm_pin_path m1 = bm_pin_path m"
    "if e1 = 0 then bm_pinned m1 \<and> bm_pin_path m1 = Some ?p \<and>
        (bm_pinned m \<and> m1 = m \<and> pinv s1 = pinv s \<or> fdv s (bm_fd m) \<noteq> None \<and> pinv s ?p = None \<and> pinv s1 = (pinv s)(?p := fdv s (bm_fd m)))
     else bm_pinned m1 = bm_pinned m \<and> pinv s1 = pinv s"
    using 1 pin_result [OF i(1), of "Some ?p" s e1 m1 s1] by (auto simp: ENAMETOOLONG_def split: if_splits option.split)
  have ok1: "\<forall>x\<in>set (dn @ m1 # ms). pin_ok fdv pinv s1 x"
  proof (cases "length ?p \<ge> PATH_MAX")
    case True
    then show ?thesis using 1 Cons.prems(3) by auto
  next
    case False
    then have p: "bpf_map_pin os m (Some ?p) s = (e1, m1, s1)" using 1 by simp
    show ?thesis using pin_keeps_ok [OF i(1) p] pin_makes_ok [OF i(1) p] Cons.prems(3) by simp
  qed
  show ?case
  proof (cases "e1 = 0")
    case True
    have h1: "distinct (map ?t (rev (m1 # dn) @ ms))" using Cons.prems(2) r(4) by simp
    have h3: "\<forall>x\<in>set (m1 # dn). bm_pinned x \<and> bm_pin_path x = Some (dir @ ''/'' @ bm_name x)"
      using Cons.prems(4) r True by simp
    have h0: "pin_maps_loop os (Some dir) (m1 # dn) ms s1 = (err, ms', s')"
      using Cons.prems(1) 1 True by (auto split: if_splits)
    have h2: "\<forall>x\<in>set ((m1 # dn) @ ms). pin_ok fdv pinv s1 x" using ok1 by auto
    have IH: "fdv s' = fdv s1 \<and> (\<forall>m\<in>set ms'. pin_ok fdv pinv s' m) \<and> map bm_name ms' = map bm_name (rev (m1 # dn) @ ms) \<and>
        map bm_fd ms' = map bm_fd (rev (m1 # dn) @ ms) \<and>
        (\<forall>p. p \<notin> (\<lambda>m. dir @ ''/'' @ bm_name m) ` set ((m1 # dn) @ ms) \<longrightarrow> pinv s' p = pinv s1 p) \<and>
        (err = 0 \<longrightarrow> (\<forall>m\<in>set ms'. bm_pinned m \<and> bm_pin_path m = Some (dir @ ''/'' @ bm_name m)))"
      by (rule Cons.IH [OF h0 h1 h2 h3 i(2)])
    have "pinv s1 p = pinv s p" if "p \<noteq> ?p" for p using r(6) True that by auto
    then show ?thesis using IH r(1-3) by auto
  next
    case False
    obtain dn2 s2 where 2: "unpin_back os dn s1 = (dn2, s2)" by force
    have res: "err = e1" "ms' = rev dn2 @ m1 # ms" "s' = s2"
      using Cons.prems(1) 1 2 False by (auto simp: Let_def split: if_splits)
    have "distinct (map ?t (dn @ m1 # ms))"
      using Cons.prems(2) r(4) by (auto simp: rev_map [symmetric])
    then have "distinct (List.map_filter bm_pin_path (dn @ m1 # ms))" by (rule distinct_targets)
    from unpin_back_result [OF 2 this ok1]
    have u: "fdv s2 = fdv s1" "\<forall>m\<in>set (dn2 @ m1 # ms). pin_ok fdv pinv s2 m" "map bm_name dn2 = map bm_name dn" "map bm_fd dn2 = map bm_fd dn"
      "\<forall>p. p \<notin> set (List.map_filter bm_pin_path dn) \<longrightarrow> pinv s2 p = pinv s1 p" by blast+
    have "pinv s2 p = pinv s p" if "p \<notin> (\<lambda>m. dir @ ''/'' @ bm_name m) ` set (dn @ m # ms)" for p
    proof -
      have "p \<notin> set (List.map_filter bm_pin_path dn)" using that Cons.prems(4) by (auto simp: set_pin_paths)
      then show ?thesis using u(5) r(6) False by auto
    qed
    then show ?thesis using res r(1-3) False u(1-4) by (auto simp: rev_map [symmetric])
  qed
qed auto

end

section \<open>A small operating system\<close>

text \<open>
  Descriptors are handed out in order up to 1024, objects are numbered by their descriptor, and
  every path is on the file system of pins.
\<close>

record sys_state =
  ss_fds :: "int \<Rightarrow> nat option"
  ss_next :: nat
  ss_pins :: "string \<Rightarrow> nat option"
  ss_path :: string
  ss_errno :: int

definition ss_fdv :: "sys_state \<Rightarrow> int \<Rightarrow> nat option" where
  "ss_fdv s fd = (if 0 \<le> fd \<and> fd < int (min (ss_next s) 1024) then ss_fds s fd else None)"

definition ss_alloc :: "nat \<Rightarrow> sys_state \<Rightarrow> int \<times> sys_state" where
  "ss_alloc ob s =
     (if ss_next s < 1024
      then (int (ss_next s), s\<lparr>ss_fds := (ss_fds s)(int (ss_next s) \<mapsto> ob), ss_next := Suc (ss_next s)\<rparr>)
      else (- 1, s\<lparr>ss_errno := 24\<rparr>))"

definition ss_obj :: "(obj_attr, sys_state) sys_call" where
  "ss_obj cmd a s =
     (if cmd = BPF_OBJ_PIN then
        (if ss_fdv s (sint (ob_bpf_fd a)) = None \<or> ss_pins s (ss_path s) \<noteq> None then (- 1, 17, a, s\<lparr>ss_errno := 17\<rparr>)
         else (0, 0, a, s\<lparr>ss_pins := (ss_pins s)(ss_path s := ss_fdv s (sint (ob_bpf_fd a)))\<rparr>))
      else
        (case ss_pins s (ss_path s) of
           None \<Rightarrow> (- 1, 2, a, s\<lparr>ss_errno := 2\<rparr>)
         | Some ob \<Rightarrow> (let (fd, s) = ss_alloc ob s in (fd, 24, a, s))))"

definition sample_bpf :: "sys_state bpf_kernel" where
  "sample_bpf =
     \<lparr>k_map_create = (\<lambda>cmd a s. let (fd, s) = ss_alloc (ss_next s) s in (fd, 24, a, s)),
      k_elem = (\<lambda>cmd a s. (0, 0, a, s)),
      k_prog_load = (\<lambda>cmd a s. let (fd, s) = ss_alloc (ss_next s) s in (fd, 24, a, s)),
      k_obj = ss_obj, k_attach = (\<lambda>cmd a s. (0, 0, a, s)), k_query = (\<lambda>cmd a s. (0, 0, a, s)), k_test = (\<lambda>cmd a s. (0, 0, a, s)),
      k_id = (\<lambda>cmd a s. (0, 0, a, s)), k_info = (\<lambda>cmd a s. (0, 0, a, s)), k_raw_tracepoint = (\<lambda>cmd a s. (0, 0, a, s)),
      k_btf_load = (\<lambda>cmd a s. (0, 0, a, s)), k_task_query = (\<lambda>cmd a s. (0, 0, a, s))\<rparr>"

definition sample_map_info :: map_info where
  "sample_map_info = \<lparr>ki_type = BPF_MAP_TYPE_HASH, ki_key_size = 4, ki_value_size = 16, ki_max_entries = 1000, ki_map_flags = 0,
     ki_name = ''logger'', ki_btf_key_type_id = 0, ki_btf_value_type_id = 0\<rparr>"

definition sample_os :: "sys_state os" where
  "sample_os =
     \<lparr>os_kernel = sample_bpf, os_errno = (\<lambda>s. if ss_errno s > 0 then ss_errno s else 5), os_str = (\<lambda>p s. (1, s\<lparr>ss_path := p\<rparr>)),
      os_zero = 8, os_info_buf = 16, os_map_info = (\<lambda>_. sample_map_info),
      os_close = (\<lambda>fd s. (0, s\<lparr>ss_fds := (ss_fds s)(fd := None)\<rparr>)), os_open_root = ss_alloc 0,
      os_dup3 = (\<lambda>old new s. case ss_fdv s old of None \<Rightarrow> (- 1, s\<lparr>ss_errno := 9\<rparr>) | Some ob \<Rightarrow> (new, s\<lparr>ss_fds := (ss_fds s)(new \<mapsto> ob)\<rparr>)),
      os_mkdir = (\<lambda>_ s. (0, s)), os_statfs = (\<lambda>_ s. (0, BPF_FS_MAGIC, s)),
      os_unlink = (\<lambda>p s. if ss_pins s p = None then (- 1, s\<lparr>ss_errno := 2\<rparr>) else (0, s\<lparr>ss_pins := (ss_pins s)(p := None)\<rparr>)),
      os_rmdir = (\<lambda>_ s. (0, s)), os_malloc = (\<lambda>s. (True, s)), os_cpu_file = (\<lambda>s. (Contents ''0-3'', s))\<rparr>"

lemma ss_alloc_opens: "ss_alloc ob s = (fd, s') \<Longrightarrow> opens ss_fdv ss_pins fd s s'"
  by (auto simp: ss_alloc_def opens_def keeps_def ss_fdv_def fun_eq_iff split: if_splits)

lemma of_int_i32: "is_int fd \<Longrightarrow> sint (of_int fd :: i32) = fd"
  by (auto simp: is_int_def signed_of_int intro!: signed_take_bit_int_eq_self)

interpretation sample_os: libbpf_os sample_os ss_fdv ss_pins
proof
  show "is_int fd \<Longrightarrow> obj_pin_path sample_os fd p s = (r, s') \<Longrightarrow>
      ss_fdv s' = ss_fdv s \<and>
      (if r = 0 then ss_fdv s fd \<noteq> None \<and> ss_pins s p = None \<and> ss_pins s' = (ss_pins s)(p := ss_fdv s fd) else ss_pins s' = ss_pins s)" for fd p s r s'
    using of_int_i32 [of fd]
    by (auto simp: obj_pin_path_def bpf_obj_pin_def sys_bpf_def sample_os_def sample_bpf_def ss_obj_def ss_fdv_def fun_eq_iff split: if_splits)
  show "obj_get_path sample_os p s = (fd, s') \<Longrightarrow> opens ss_fdv ss_pins fd s s' \<and> (0 \<le> fd \<longrightarrow> ss_fdv s' fd = ss_pins s p)" for p s fd s'
    by (auto simp: obj_get_path_def bpf_obj_get_def sys_bpf_def sample_os_def sample_bpf_def ss_obj_def ss_alloc_def ss_fdv_def opens_def keeps_def
        fun_eq_iff split: if_splits option.splits)
qed (auto simp: sample_os_def sample_bpf_def ss_fdv_def keeps_def opens_def ss_alloc_def fun_eq_iff bpf_create_map_xattr_def sys_bpf_def
    obj_pin_path_def bpf_obj_pin_def ss_obj_def split: if_splits option.splits)

definition sample_map :: "string \<Rightarrow> libbpf_map" where
  "sample_map nm = \<lparr>bm_fd = - 1, bm_name = nm, bm_sec_idx = 4, bm_sec_offset = 0, bm_map_ifindex = 0, bm_inner_map_fd = - 1,
     bm_def = \<lparr>d_type = BPF_MAP_TYPE_HASH, d_key_size = 4, d_value_size = 16, d_max_entries = 1000, d_map_flags = 0\<rparr>,
     bm_btf_key_type_id = 0, bm_btf_value_type_id = 0, bm_libbpf_type = LIBBPF_MAP_UNSPEC, bm_pin_path = None, bm_pinned = False,
     bm_reused = False\<rparr>"

definition sample_context :: map_context where
  "sample_context = \<lparr>mx_caps = \<lparr>cap_name = True, cap_global_data = True, cap_btf_func = True, cap_btf_datasec = True\<rparr>,
     mx_btf = None, mx_btf_maps_shndx = - 1, mx_data = 0, mx_rodata = 0\<rparr>"

definition sample_sys_state :: sys_state where
  "sample_sys_state = \<lparr>ss_fds = (\<lambda>fd. if fd < 3 then Some 0 else None), ss_next = 3, ss_pins = (\<lambda>_. None), ss_path = [], ss_errno = 0\<rparr>"

section \<open>Properties\<close>

text \<open>
  C22: the maps of an object are created all or none.  When no map has a pin path and no map has a
  descriptor yet (the returns at libbpf.c 2290 and 2377, which only maps with a pin path reach, close nothing),
  \<open>bpf_object__create_maps\<close> either gives every map an open descriptor of its own, or fails with
  every descriptor closed again that it opened.  In both cases all other descriptors and all
  pins are as before.
\<close>

theorem create_maps_all_or_none:
  assumes "libbpf_os os fdv pinv" "\<forall>m\<in>set ms. bm_pin_path m = None \<and> bm_fd m < 0"
    and "bpf_object_create_maps os cx ms cpus s = (err, ms', cpus', s')"
  shows "map bm_name ms' = map bm_name ms \<and> pinv s' = pinv s \<and>
    (if err = 0 then distinct (map bm_fd ms') \<and> (\<forall>m\<in>set ms'. fdv s (bm_fd m) = None \<and> fdv s' (bm_fd m) \<noteq> None) \<and>
        (\<forall>fd. fd \<notin> bm_fd ` set ms' \<longrightarrow> fdv s' fd = fdv s fd)
     else fdv s' = fdv s \<and> (\<forall>m\<in>set ms'. bm_fd m < 0))"
proof -
  have o0: "owns fdv (fdv s) (held []) s" by (simp add: owns_def held_def)
  have c: "owns fdv (fdv s) (held ms') s'" "pinv s' = pinv s" "map bm_name ms' = map bm_name ms"
      "if err = 0 then \<forall>m\<in>set ms'. 0 \<le> bm_fd m else held ms' = []"
    using libbpf_os.create_maps_owns [OF assms(1) assms(3) [unfolded bpf_object_create_maps_def] assms(2) _ o0] by simp_all
  show ?thesis
  proof (cases "err = 0")
    case True
    then have "held ms' = map bm_fd ms'" using c(4) by (simp add: held_def filter_id_conv)
    then show ?thesis using c True by (auto simp: owns_def)
  next
    case False
    then have h: "held ms' = []" using c(4) by simp
    then have "\<forall>m\<in>set ms'. bm_fd m < 0" by (auto simp: held_def filter_empty_conv not_le)
    moreover have "fdv s' = fdv s" using c(1) h by (auto simp: owns_def)
    ultimately show ?thesis using c False by simp
  qed
qed

theorem create_maps_all_or_none_witness:
  "\<exists>ms' c s'. bpf_object_create_maps sample_os sample_context [sample_map ''logger'', sample_map ''data''] 0 sample_sys_state = (0, ms', c, s') \<and>
     distinct (map bm_fd ms') \<and> (\<forall>m\<in>set ms'. ss_fdv s' (bm_fd m) \<noteq> None)"
proof -
  have e: "fst (bpf_object_create_maps sample_os sample_context [sample_map ''logger'', sample_map ''data''] 0 sample_sys_state) = 0"
    by (simp add: bpf_object_create_maps_def create_one_def sample_map_def create_max_entries_def create_attr_for_def create_fd_def create_rest_def
        sample_context_def sample_os_def sample_bpf_def bpf_create_map_xattr_def sys_bpf_def ss_alloc_def sample_sys_state_def bpf_map_is_internal_def)
  obtain ms' c s' where r: "bpf_object_create_maps sample_os sample_context [sample_map ''logger'', sample_map ''data''] 0 sample_sys_state = (0, ms', c, s')"
    using e by (metis fst_conv prod_cases4)
  with create_maps_all_or_none [OF sample_os.libbpf_os_axioms _ r] show ?thesis by (auto simp: sample_map_def)
qed

text \<open>
  C23: the marks of pinned maps are right.  Pinning all maps of an object below a directory, when their
  target paths differ, keeps every map marked as pinned the object that its path names, whether it
  succeeds or fails and unpins what it has pinned.  On success every map is pinned at the
  directory's path for its name; no other path and no descriptor changes.
\<close>

theorem pin_maps_consistent:
  assumes "libbpf_os os fdv pinv" "pin_maps_loop os (Some dir) [] ms s = (err, ms', s')"
    and "distinct (map (\<lambda>m. case bm_pin_path m of Some p \<Rightarrow> p | None \<Rightarrow> dir @ ''/'' @ bm_name m) ms)"
    and "\<forall>m\<in>set ms. pin_ok fdv pinv s m \<and> is_int (bm_fd m)"
  shows "fdv s' = fdv s \<and> (\<forall>m\<in>set ms'. pin_ok fdv pinv s' m) \<and> map bm_name ms' = map bm_name ms \<and> map bm_fd ms' = map bm_fd ms \<and>
    (\<forall>p. p \<notin> (\<lambda>m. dir @ ''/'' @ bm_name m) ` set ms \<longrightarrow> pinv s' p = pinv s p) \<and>
    (err = 0 \<longrightarrow> (\<forall>m\<in>set ms'. bm_pinned m \<and> bm_pin_path m = Some (dir @ ''/'' @ bm_name m)))"
  using libbpf_os.pin_maps_result [OF assms(1,2)] assms(3,4) by auto

theorem pin_maps_consistent_witness:
  "\<exists>ms' s'. pin_maps_loop sample_os (Some ''/sys/fs/bpf'') [] [(sample_map ''logger'')\<lparr>bm_fd := 2\<rparr>] sample_sys_state = (0, ms', s') \<and>
     (\<forall>m\<in>set ms'. bm_pinned m \<and> bm_pin_path m = Some ''/sys/fs/bpf/logger'')"
proof -
  have e: "fst (pin_maps_loop sample_os (Some ''/sys/fs/bpf'') [] [(sample_map ''logger'')\<lparr>bm_fd := 2\<rparr>] sample_sys_state) = 0"
    by (simp add: sample_map_def sample_os_def sample_bpf_def ss_obj_def ss_fdv_def sample_sys_state_def bpf_map_pin_def pin_at_def make_parent_dir_def
        check_path_def obj_pin_path_def bpf_obj_pin_def sys_bpf_def PATH_MAX_def Let_def)
  obtain ms' s' where r: "pin_maps_loop sample_os (Some ''/sys/fs/bpf'') [] [(sample_map ''logger'')\<lparr>bm_fd := 2\<rparr>] sample_sys_state = (0, ms', s')"
    using e by (metis fst_conv prod_cases3)
  with pin_maps_consistent [OF sample_os.libbpf_os_axioms r] show ?thesis
    by (auto simp: sample_map_def pin_ok_def is_int_def)
qed

text \<open>
  a map that is taken over at its pin path leaves the descriptor of the pin open: \<open>bpf_object__reuse_map\<close>
  duplicates it and closes it only on errors.
\<close>

theorem reuse_map_leaks_descriptor:
  assumes "libbpf_os os fdv pinv" "bpf_object_reuse_map os p m s = (0, m', s')" "bm_fd m < 0" "0 \<le> bm_fd m'"
  shows "\<exists>pin_fd. pin_fd \<noteq> bm_fd m' \<and> fdv s pin_fd = None \<and> fdv s' pin_fd = pinv s p \<and> fdv s' (bm_fd m') = pinv s p"
  using libbpf_os.reuse_map_leaks [OF assms] by auto

end
