(* ===== verification/Libbpf_Relocs.thy ===== *)
theory Libbpf_Relocs
  imports Libbpf_Maps Libbpf_Errno
begin

text \<open>
  Programs of an object in libbpf and their relocations, \<open>libbpf/src/libbpf.c\<close>: how a program is set up
  from its section, how the references to maps, data and subprograms are collected from the
  relocation entries of the object file, and how they are resolved once the maps exist.

  An access outside of an array of the source is the result \<open>None\<close>.  Entries and symbols are what
  libelf decodes; the tables of \<open>btf_ext\<close> are answers of \<open>btf.c\<close>, an argument.  The caller's own
  data (\<open>priv\<close>) is left out.
\<close>

section \<open>Data\<close>

record bpf_insn =
  in_code :: u8
  in_dst_reg :: "4 word"
  in_src_reg :: "4 word"
  in_off :: u16
  in_imm :: i32

datatype reloc_type = RELO_LD64 | RELO_CALL | RELO_DATA

text \<open>\<open>rd_arg\<close> is \<open>map_idx\<close> or \<open>text_off\<close>, which share their place.\<close>

record reloc_desc =
  rd_type :: reloc_type
  rd_insn_idx :: int
  rd_arg :: int

text \<open>
  \<open>bp_nr\<close> and \<open>bp_fds\<close> are \<open>instances\<close>; a freed or missing array is \<open>None\<close>, for instructions the
  empty list.  A preprocessor gives for an instance an error and the instructions to load, none to
  skip it.
\<close>

record libbpf_program =
  bp_idx :: int
  bp_name :: "string option"
  bp_prog_ifindex :: i32
  bp_section_name :: string
  bp_pin_name :: string
  bp_insns :: "bpf_insn list"
  bp_main_prog_cnt :: nat
  bp_type :: bpf_prog_type
  bp_reloc_desc :: "reloc_desc list option"
  bp_log_level :: u32
  bp_nr :: int
  bp_fds :: "int list option"
  bp_prep :: "(nat \<Rightarrow> bpf_insn list \<Rightarrow> int \<times> bpf_insn list) option"
  bp_attach :: bpf_attach_type
  bp_attach_btf_id :: u32
  bp_func_info :: "packet option"
  bp_func_info_rec_size :: u32
  bp_func_info_cnt :: u32
  bp_line_info :: "packet option"
  bp_line_info_rec_size :: u32
  bp_line_info_cnt :: u32
  bp_prog_flags :: u32

text \<open>The section indices of the object file.\<close>

record elf_file =
  ef_maps_shndx :: int
  ef_btf_maps_shndx :: int
  ef_text_shndx :: int
  ef_data_shndx :: int
  ef_rodata_shndx :: int
  ef_bss_shndx :: int

record elf_sym =
  st_shndx :: u32
  st_value :: u64
  st_global :: bool

record elf_rel =
  r_offset :: u64
  r_sym :: "elf_sym option"

definition SHN_LORESERVE :: u32 where "SHN_LORESERVE = 0xff00"
definition BPF_PSEUDO_MAP_FD :: "4 word" where "BPF_PSEUDO_MAP_FD = 1"
definition BPF_PSEUDO_MAP_VALUE :: "4 word" where "BPF_PSEUDO_MAP_VALUE = 2"
definition BPF_PSEUDO_CALL :: "4 word" where "BPF_PSEUDO_CALL = 1"
definition BPF_JMP_CALL :: u8 where "BPF_JMP_CALL = 0x85"
definition BPF_LD_IMM_DW :: u8 where "BPF_LD_IMM_DW = 0x18"

section \<open>Setting up a program\<close>

definition bpf_program_pin_name :: "string \<Rightarrow> string" where
  "bpf_program_pin_name section_name = map (\<lambda>c. if c = CHR ''/'' then CHR ''_'' else c) section_name"

definition empty_program :: libbpf_program where
  "empty_program = \<lparr>bp_idx = 0, bp_name = None, bp_prog_ifindex = 0, bp_section_name = [], bp_pin_name = [], bp_insns = [],
     bp_main_prog_cnt = 0, bp_type = BPF_PROG_TYPE_UNSPEC, bp_reloc_desc = None, bp_log_level = 0, bp_nr = 0, bp_fds = None,
     bp_prep = None, bp_attach = BPF_CGROUP_INET_INGRESS, bp_attach_btf_id = 0, bp_func_info = None, bp_func_info_rec_size = 0,
     bp_func_info_cnt = 0, bp_line_info = None, bp_line_info_rec_size = 0, bp_line_info_cnt = 0, bp_prog_flags = 0\<rparr>"

text \<open>The bytes of a section as instructions of eight bytes.\<close>

definition insn_of :: "packet \<Rightarrow> nat \<Rightarrow> bpf_insn" where
  "insn_of data off =
     \<lparr>in_code = data ! off, in_dst_reg = ucast (data ! (off + 1)), in_src_reg = ucast (drop_bit 4 (data ! (off + 1))),
      in_off = load16 data (off + 2), in_imm = load32 data (off + 4)\<rparr>"

text \<open>The allocations are those of the section name, the pin name and the instructions.\<close>

definition bpf_program_init :: "bool \<times> bool \<times> bool \<Rightarrow> packet \<Rightarrow> string \<Rightarrow> int \<Rightarrow> int + libbpf_program" where
  "bpf_program_init mallocs data section_name idx =
     (if length data = 0 \<or> length data mod 8 \<noteq> 0 then Inl (- EINVAL)
      else case mallocs of (m1, m2, m3) \<Rightarrow>
        if \<not> m1 \<or> \<not> m2 \<or> \<not> m3 then Inl (- ENOMEM)
        else Inr (empty_program\<lparr>bp_section_name := section_name, bp_pin_name := bpf_program_pin_name section_name,
               bp_insns := map (\<lambda>i. insn_of data (8 * i)) [0..<length data div 8], bp_idx := idx, bp_fds := None, bp_nr := - 1,
               bp_type := BPF_PROG_TYPE_UNSPEC\<rparr>))"

definition bpf_object_add_program ::
    "bool \<times> bool \<times> bool \<Rightarrow> bool \<Rightarrow> libbpf_program list \<Rightarrow> packet \<Rightarrow> string \<Rightarrow> int \<Rightarrow> int \<times> libbpf_program list" where
  "bpf_object_add_program mallocs realloc_ok progs data section_name idx =
     (case bpf_program_init mallocs data section_name idx of
        Inl err \<Rightarrow> (err, progs)
      | Inr prog \<Rightarrow> if \<not> realloc_ok then (- ENOMEM, progs) else (0, progs @ [prog]))"

definition bpf_object_find_prog_by_idx :: "libbpf_program list \<Rightarrow> int \<Rightarrow> libbpf_program option" where
  "bpf_object_find_prog_by_idx progs idx = find (\<lambda>p. bp_idx p = idx) progs"

section \<open>Collecting relocations\<close>

definition shndx_is_data :: "elf_file \<Rightarrow> int \<Rightarrow> bool" where
  "shndx_is_data ef shndx \<longleftrightarrow> shndx = ef_data_shndx ef \<or> shndx = ef_bss_shndx ef \<or> shndx = ef_rodata_shndx ef"

definition shndx_is_maps :: "elf_file \<Rightarrow> int \<Rightarrow> bool" where
  "shndx_is_maps ef shndx \<longleftrightarrow> shndx = ef_maps_shndx ef \<or> shndx = ef_btf_maps_shndx ef"

definition relo_in_known_section :: "elf_file \<Rightarrow> int \<Rightarrow> bool" where
  "relo_in_known_section ef shndx \<longleftrightarrow> shndx = ef_text_shndx ef \<or> shndx_is_maps ef shndx \<or> shndx_is_data ef shndx"

definition section_to_libbpf_map_type :: "elf_file \<Rightarrow> int \<Rightarrow> libbpf_map_type" where
  "section_to_libbpf_map_type ef shndx =
     (if shndx = ef_data_shndx ef then LIBBPF_MAP_DATA
      else if shndx = ef_bss_shndx ef then LIBBPF_MAP_BSS
      else if shndx = ef_rodata_shndx ef then LIBBPF_MAP_RODATA
      else LIBBPF_MAP_UNSPEC)"

fun find_reloc_map :: "libbpf_map_type \<Rightarrow> elf_sym \<Rightarrow> libbpf_map list \<Rightarrow> nat \<Rightarrow> nat option" where
  "find_reloc_map type symb [] i = None"
| "find_reloc_map type symb (m # ms) i =
     (if bm_libbpf_type m = type \<and>
         (type \<noteq> LIBBPF_MAP_UNSPEC \<or> bm_sec_idx m = uint (st_shndx symb) \<and> bm_sec_offset m = unat (st_value symb))
      then Some i else find_reloc_map type symb ms (Suc i))"

text \<open>
  One entry: the error, the descriptor and whether it was a call of a subprogram.  \<open>junk\<close> is
  what the freshly allocated array holds; it stays when no branch writes the descriptor.
\<close>

definition collect_one ::
    "elf_file \<Rightarrow> bool \<Rightarrow> libbpf_map list \<Rightarrow> bpf_insn list \<Rightarrow> reloc_desc \<Rightarrow> elf_rel option \<Rightarrow> (int \<times> reloc_desc \<times> bool) option" where
  "collect_one ef global_data maps insns junk rel =
     (case rel of
        None \<Rightarrow> Some (- LIBBPF_ERRNO__FORMAT, junk, False)
      | Some rel \<Rightarrow>
          (case r_sym rel of
             None \<Rightarrow> Some (- LIBBPF_ERRNO__FORMAT, junk, False)
           | Some symb \<Rightarrow>
               (let insn_idx = (ucast (r_offset rel div 8) :: u32); i = unat insn_idx;
                    shndx = sint (st_shndx symb)
                in if st_shndx symb \<ge> SHN_LORESERVE then
                     (if i < length insns then Some (- LIBBPF_ERRNO__RELOC, junk, False) else None)
                   else if \<not> relo_in_known_section ef shndx then Some (- LIBBPF_ERRNO__RELOC, junk, False)
                   else if \<not> i < length insns then None
                   else if in_code (insns ! i) = BPF_JMP_CALL then
                     (if in_src_reg (insns ! i) \<noteq> BPF_PSEUDO_CALL then Some (- LIBBPF_ERRNO__RELOC, junk, False)
                      else Some (0, \<lparr>rd_type = RELO_CALL, rd_insn_idx = sint insn_idx, rd_arg = sint (ucast (st_value symb) :: i32)\<rparr>, True))
                   else if in_code (insns ! i) \<noteq> BPF_LD_IMM_DW then Some (- LIBBPF_ERRNO__RELOC, junk, False)
                   else if shndx_is_maps ef shndx \<or> shndx_is_data ef shndx then
                     (let type = section_to_libbpf_map_type ef shndx
                      in if type \<noteq> LIBBPF_MAP_UNSPEC \<and> (st_global symb \<or> \<not> global_data) then Some (- LIBBPF_ERRNO__RELOC, junk, False)
                         else case find_reloc_map type symb maps 0 of
                                None \<Rightarrow> Some (- LIBBPF_ERRNO__RELOC, junk, False)
                              | Some map_idx \<Rightarrow>
                                  Some (0, \<lparr>rd_type = if type \<noteq> LIBBPF_MAP_UNSPEC then RELO_DATA else RELO_LD64,
                                            rd_insn_idx = sint insn_idx, rd_arg = int map_idx\<rparr>, False))
                   else Some (0, junk, False))))"

fun collect_relocs ::
    "elf_file \<Rightarrow> bool \<Rightarrow> libbpf_map list \<Rightarrow> bpf_insn list \<Rightarrow> (elf_rel option \<times> reloc_desc) list \<Rightarrow> bool \<Rightarrow>
     (int \<times> reloc_desc list \<times> bool) option" where
  "collect_relocs ef global_data maps insns [] pseudo = Some (0, [], pseudo)"
| "collect_relocs ef global_data maps insns ((rel, junk) # rels) pseudo =
     (case collect_one ef global_data maps insns junk rel of
        None \<Rightarrow> None
      | Some (err, d, call) \<Rightarrow>
          if err \<noteq> 0 then Some (err, junk # map snd rels, pseudo)
          else map_option (\<lambda>(err, ds, pseudo). (err, d # ds, pseudo)) (collect_relocs ef global_data maps insns rels (pseudo \<or> call)))"

text \<open>\<open>rels\<close> are the entries of the section, each with the initial contents of its descriptor.\<close>

definition bpf_program_collect_reloc ::
    "bool \<Rightarrow> elf_file \<Rightarrow> bool \<Rightarrow> libbpf_map list \<Rightarrow> (elf_rel option \<times> reloc_desc) list \<Rightarrow> libbpf_program \<Rightarrow> bool \<Rightarrow>
     (int \<times> libbpf_program \<times> bool) option" where
  "bpf_program_collect_reloc malloc_ok ef global_data maps rels prog pseudo =
     (if \<not> malloc_ok then Some (- ENOMEM, prog\<lparr>bp_reloc_desc := None\<rparr>, pseudo)
      else map_option (\<lambda>(err, ds, pseudo). (err, prog\<lparr>bp_reloc_desc := Some ds\<rparr>, pseudo))
             (collect_relocs ef global_data maps (bp_insns prog) rels pseudo))"

section \<open>Resolving relocations\<close>

text \<open>
  \<open>btf_ext__reloc_func_info\<close> and \<open>btf_ext__reloc_line_info\<close>: from the section, the offset and the records
  so far, an error and the records with their number; and the sizes of a record.
\<close>

record btf_ext_ops =
  bx_func :: "string \<Rightarrow> nat \<Rightarrow> packet option \<Rightarrow> u32 \<Rightarrow> int \<times> packet option \<times> u32"
  bx_func_rec_size :: u32
  bx_line :: "string \<Rightarrow> nat \<Rightarrow> packet option \<Rightarrow> u32 \<Rightarrow> int \<times> packet option \<times> u32"
  bx_line_rec_size :: u32

definition check_btf_ext_reloc_err :: "int \<Rightarrow> packet option \<Rightarrow> int" where
  "check_btf_ext_reloc_err err btf_prog_info =
     (if err \<noteq> - ENOENT then err else if btf_prog_info \<noteq> None then err else 0)"

definition bpf_program_reloc_btf_ext :: "btf_ext_ops \<Rightarrow> libbpf_program \<Rightarrow> string \<Rightarrow> nat \<Rightarrow> int \<times> libbpf_program" where
  "bpf_program_reloc_btf_ext bx prog section_name insn_offset =
     (let (err, prog) =
            (if insn_offset = 0 \<or> bp_func_info prog \<noteq> None then
               (let (err, info, cnt) = bx_func bx section_name insn_offset (bp_func_info prog) (bp_func_info_cnt prog);
                    prog = prog\<lparr>bp_func_info := info, bp_func_info_cnt := cnt\<rparr>
                in if err \<noteq> 0 then (Some (check_btf_ext_reloc_err err info), prog)
                   else (None, prog\<lparr>bp_func_info_rec_size := bx_func_rec_size bx\<rparr>))
             else (None, prog))
      in case err of
           Some err \<Rightarrow> (err, prog)
         | None \<Rightarrow>
             (if insn_offset = 0 \<or> bp_line_info prog \<noteq> None then
                (let (err, info, cnt) = bx_line bx section_name insn_offset (bp_line_info prog) (bp_line_info_cnt prog);
                     prog = prog\<lparr>bp_line_info := info, bp_line_info_cnt := cnt\<rparr>
                 in if err \<noteq> 0 then (check_btf_ext_reloc_err err info, prog)
                    else (0, prog\<lparr>bp_line_info_rec_size := bx_line_rec_size bx\<rparr>))
              else (0, prog)))"

text \<open>What relocation reads of the object: its BTF tables, the index of \<open>.text\<close>, its maps, and whether memory can grow.\<close>

record reloc_context =
  rx_btf_ext :: "btf_ext_ops option"
  rx_text_shndx :: int
  rx_maps :: "libbpf_map list"
  rx_realloc :: bool

text \<open>The first part of \<open>bpf_program__reloc_text\<close>: appending the subprograms, once.\<close>

definition append_text :: "reloc_context \<Rightarrow> libbpf_program list \<Rightarrow> libbpf_program \<Rightarrow> int \<times> libbpf_program" where
  "append_text cx progs prog =
     (if bp_main_prog_cnt prog = 0 then
        (case bpf_object_find_prog_by_idx progs (rx_text_shndx cx) of
           None \<Rightarrow> (- LIBBPF_ERRNO__RELOC, prog)
         | Some txt \<Rightarrow>
             if \<not> rx_realloc cx then (- ENOMEM, prog)
             else
               (let (err, prog) = (case rx_btf_ext cx of None \<Rightarrow> (0, prog)
                      | Some bx \<Rightarrow> bpf_program_reloc_btf_ext bx prog (bp_section_name txt) (length (bp_insns prog)))
                in if err \<noteq> 0 then (err, prog)
                   else (0, prog\<lparr>bp_insns := bp_insns prog @ bp_insns txt, bp_main_prog_cnt := length (bp_insns prog)\<rparr>)))
      else (0, prog))"

definition bpf_program_reloc_text ::
    "reloc_context \<Rightarrow> libbpf_program list \<Rightarrow> reloc_desc \<Rightarrow> libbpf_program \<Rightarrow> (int \<times> libbpf_program) option" where
  "bpf_program_reloc_text cx progs relo prog =
     (if rd_type relo \<noteq> RELO_CALL then Some (- LIBBPF_ERRNO__RELOC, prog)
      else if bp_idx prog = rx_text_shndx cx then Some (- LIBBPF_ERRNO__RELOC, prog)
      else
        (let (err, prog) = append_text cx progs prog; i = nat (rd_insn_idx relo); insns = bp_insns prog
         in if err \<noteq> 0 then Some (err, prog)
            else if \<not> (0 \<le> rd_insn_idx relo \<and> i < length insns) then None
            else Some (0, prog\<lparr>bp_insns := insns[i := (insns ! i)\<lparr>in_imm :=
                   in_imm (insns ! i) + (of_nat (bp_main_prog_cnt prog) - of_int (rd_insn_idx relo))\<rparr>]\<rparr>)))"

definition reloc_insns :: "bool \<Rightarrow> nat \<Rightarrow> int \<Rightarrow> bpf_insn list \<Rightarrow> bpf_insn list" where
  "reloc_insns relo_data i fd insns =
     (let insns =
            (if \<not> relo_data then insns[i := (insns ! i)\<lparr>in_src_reg := BPF_PSEUDO_MAP_FD\<rparr>]
             else (let insns = insns[i := (insns ! i)\<lparr>in_src_reg := BPF_PSEUDO_MAP_VALUE\<rparr>]
                   in insns[i + 1 := (insns ! (i + 1))\<lparr>in_imm := in_imm (insns ! i)\<rparr>]))
      in insns[i := (insns ! i)\<lparr>in_imm := of_int fd\<rparr>])"

definition relocate_one ::
    "reloc_context \<Rightarrow> libbpf_program list \<Rightarrow> reloc_desc \<Rightarrow> libbpf_program \<Rightarrow> (int \<times> libbpf_program) option" where
  "relocate_one cx progs d prog =
     (if rd_type d = RELO_CALL then bpf_program_reloc_text cx progs d prog
      else if rd_insn_idx d + 1 \<ge> int (length (bp_insns prog)) then Some (- LIBBPF_ERRNO__RELOC, prog)
      else if \<not> 0 \<le> rd_insn_idx d \<or> \<not> (0 \<le> rd_arg d \<and> nat (rd_arg d) < length (rx_maps cx)) then None
      else Some (0, prog\<lparr>bp_insns := reloc_insns (rd_type d = RELO_DATA) (nat (rd_insn_idx d)) (bm_fd (rx_maps cx ! nat (rd_arg d))) (bp_insns prog)\<rparr>))"

fun relocate_all ::
    "reloc_context \<Rightarrow> libbpf_program list \<Rightarrow> reloc_desc list \<Rightarrow> libbpf_program \<Rightarrow> (int \<times> libbpf_program) option" where
  "relocate_all cx progs [] prog = Some (0, prog)"
| "relocate_all cx progs (d # ds) prog =
     (case relocate_one cx progs d prog of
        None \<Rightarrow> None
      | Some (err, prog) \<Rightarrow> if err \<noteq> 0 then Some (err, prog) else relocate_all cx progs ds prog)"

definition bpf_program_relocate ::
    "reloc_context \<Rightarrow> libbpf_program list \<Rightarrow> libbpf_program \<Rightarrow> (int \<times> libbpf_program) option" where
  "bpf_program_relocate cx progs prog =
     (let (err, prog) = (case rx_btf_ext cx of None \<Rightarrow> (0, prog)
            | Some bx \<Rightarrow> bpf_program_reloc_btf_ext bx prog (bp_section_name prog) 0)
      in if err \<noteq> 0 then Some (err, prog)
         else case bp_reloc_desc prog of
                None \<Rightarrow> Some (0, prog)
              | Some ds \<Rightarrow>
                  (case relocate_all cx progs ds prog of
                     None \<Rightarrow> None
                   | Some (err, prog) \<Rightarrow> Some (err, if err \<noteq> 0 then prog else prog\<lparr>bp_reloc_desc := None\<rparr>)))"

text \<open>The programs in order; each sees the others as they are by then.\<close>

fun relocate_progs :: "reloc_context \<Rightarrow> nat list \<Rightarrow> libbpf_program list \<Rightarrow> (int \<times> libbpf_program list) option" where
  "relocate_progs cx [] progs = Some (0, progs)"
| "relocate_progs cx (i # is) progs =
     (case bpf_program_relocate cx progs (progs ! i) of
        None \<Rightarrow> None
      | Some (err, prog) \<Rightarrow>
          if err \<noteq> 0 then Some (err, progs[i := prog]) else relocate_progs cx is (progs[i := prog]))"

text \<open>
  \<open>core\<close> is \<open>bpf_object__relocate_core\<close>, which patches the instructions of each program; without BTF
  tables it is not called.
\<close>

definition bpf_object_relocate ::
    "reloc_context \<Rightarrow> (bpf_insn list list \<Rightarrow> int \<times> (nat \<Rightarrow> bpf_insn list)) \<Rightarrow> libbpf_program list \<Rightarrow>
     (int \<times> libbpf_program list) option" where
  "bpf_object_relocate cx core progs =
     (if rx_btf_ext cx = None then relocate_progs cx [0..<length progs] progs
      else
        (let (err, code) = core (map bp_insns progs);
             progs = map (\<lambda>(i, p). p\<lparr>bp_insns := code i\<rparr>) (enumerate 0 progs)
         in if err \<noteq> 0 then Some (err, progs) else relocate_progs cx [0..<length progs] progs))"

section \<open>What a relocation does to the instructions\<close>

text \<open>The instructions of a descriptor: a load of 64 bits takes two.\<close>

definition slots :: "reloc_desc \<Rightarrow> nat set" where
  "slots d = (if rd_type d = RELO_CALL then {nat (rd_insn_idx d)} else {nat (rd_insn_idx d), Suc (nat (rd_insn_idx d))})"

text \<open>The instruction loads the descriptor of the map, or a value inside of it.\<close>

definition resolved :: "libbpf_map list \<Rightarrow> reloc_desc \<Rightarrow> bpf_insn list \<Rightarrow> bpf_insn list \<Rightarrow> bool" where
  "resolved maps d insns insns' \<longleftrightarrow>
     (let i = nat (rd_insn_idx d); fd = bm_fd (maps ! nat (rd_arg d))
      in rd_type d \<noteq> RELO_CALL \<longrightarrow>
           0 \<le> rd_insn_idx d \<and> Suc i < length insns \<and> nat (rd_arg d) < length maps \<and>
           insns' ! i = (insns ! i)\<lparr>in_src_reg := if rd_type d = RELO_DATA then BPF_PSEUDO_MAP_VALUE else BPF_PSEUDO_MAP_FD, in_imm := of_int fd\<rparr> \<and>
           (rd_type d = RELO_DATA \<longrightarrow> insns' ! Suc i = (insns ! Suc i)\<lparr>in_imm := in_imm (insns ! i)\<rparr>))"

lemma btf_ext_keeps:
  "bpf_program_reloc_btf_ext bx p sec off = (err, p') \<Longrightarrow>
     bp_insns p' = bp_insns p \<and> bp_reloc_desc p' = bp_reloc_desc p \<and> bp_fds p' = bp_fds p \<and> bp_nr p' = bp_nr p \<and>
     bp_main_prog_cnt p' = bp_main_prog_cnt p \<and> bp_idx p' = bp_idx p \<and> bp_type p' = bp_type p \<and> bp_prep p' = bp_prep p"
  by (auto simp: bpf_program_reloc_btf_ext_def Let_def split: if_splits prod.splits option.splits)

lemma append_text_result:
  "append_text cx progs p = (err, p') \<Longrightarrow>
     (\<exists>txt. bp_insns p' = bp_insns p @ txt) \<and> bp_reloc_desc p' = bp_reloc_desc p \<and> bp_fds p' = bp_fds p \<and> bp_nr p' = bp_nr p \<and>
     bp_idx p' = bp_idx p \<and> bp_type p' = bp_type p \<and> bp_prep p' = bp_prep p"
  by (auto simp: append_text_def split: if_splits prod.splits option.splits dest!: btf_ext_keeps)

lemma reloc_insns_nth:
  assumes "Suc i < length insns"
  shows "length (reloc_insns b i fd insns) = length insns"
    "reloc_insns b i fd insns ! i = (insns ! i)\<lparr>in_src_reg := if b then BPF_PSEUDO_MAP_VALUE else BPF_PSEUDO_MAP_FD, in_imm := of_int fd\<rparr>"
    "b \<Longrightarrow> reloc_insns b i fd insns ! Suc i = (insns ! Suc i)\<lparr>in_imm := in_imm (insns ! i)\<rparr>"
    "j \<noteq> i \<Longrightarrow> (b \<Longrightarrow> j \<noteq> Suc i) \<Longrightarrow> reloc_insns b i fd insns ! j = insns ! j"
  using assms by (auto simp: reloc_insns_def Let_def nth_list_update)

lemma relocate_one_result:
  assumes "relocate_one cx progs d p = Some (0, p')"
  shows "length (bp_insns p) \<le> length (bp_insns p') \<and> resolved (rx_maps cx) d (bp_insns p) (bp_insns p') \<and>
    (\<forall>j. j < length (bp_insns p) \<longrightarrow> j \<notin> slots d \<longrightarrow> bp_insns p' ! j = bp_insns p ! j)"
proof (cases "rd_type d = RELO_CALL")
  case True
  obtain err q where a: "append_text cx progs p = (err, q)" by force
  obtain sub where q: "bp_insns q = bp_insns p @ sub" using append_text_result [OF a] by blast
  show ?thesis using True assms a q
    by (auto simp: relocate_one_def bpf_program_reloc_text_def Let_def resolved_def slots_def nth_append LIBBPF_ERRNO__RELOC_def
        nth_list_update split: if_splits)
next
  case False
  let ?i = "nat (rd_insn_idx d)"
  have i: "0 \<le> rd_insn_idx d" "Suc ?i < length (bp_insns p)" "nat (rd_arg d) < length (rx_maps cx)"
      "bp_insns p' = reloc_insns (rd_type d = RELO_DATA) ?i (bm_fd (rx_maps cx ! nat (rd_arg d))) (bp_insns p)"
    using assms False by (auto simp: relocate_one_def LIBBPF_ERRNO__RELOC_def split: if_splits)
  show ?thesis using i False by (auto simp: resolved_def reloc_insns_nth Let_def slots_def split: if_splits)
qed

lemma resolved_later:
  assumes "resolved maps d insns insns1" "length insns \<le> length insns1" "\<forall>j\<in>slots d. insns2 ! j = insns1 ! j"
  shows "resolved maps d insns insns2"
  using assms by (auto simp: resolved_def slots_def Let_def split: if_splits)

lemma resolved_earlier:
  assumes "resolved maps d insns1 insns2" "\<forall>j\<in>slots d. j < length insns" "\<forall>j\<in>slots d. insns1 ! j = insns ! j"
  shows "resolved maps d insns insns2"
  using assms by (cases "rd_type d = RELO_CALL") (simp_all add: resolved_def slots_def Let_def)

lemma relocate_all_result:
  assumes "relocate_all cx progs ds p = Some (0, p')" "sorted_wrt (\<lambda>d d'. slots d \<inter> slots d' = {}) ds"
    "\<forall>d\<in>set ds. \<forall>j\<in>slots d. j < length (bp_insns p)"
  shows "length (bp_insns p) \<le> length (bp_insns p') \<and> (\<forall>d\<in>set ds. resolved (rx_maps cx) d (bp_insns p) (bp_insns p')) \<and>
    (\<forall>j<length (bp_insns p). j \<notin> \<Union> (slots ` set ds) \<longrightarrow> bp_insns p' ! j = bp_insns p ! j)"
  using assms
proof (induction ds arbitrary: p)
  case (Cons d ds)
  obtain p1 where 1: "relocate_one cx progs d p = Some (0, p1)" "relocate_all cx progs ds p1 = Some (0, p')"
    using Cons.prems(1) by (auto split: option.splits if_splits)
  have r: "length (bp_insns p) \<le> length (bp_insns p1)" "resolved (rx_maps cx) d (bp_insns p) (bp_insns p1)"
      "\<And>j. j < length (bp_insns p) \<Longrightarrow> j \<notin> slots d \<Longrightarrow> bp_insns p1 ! j = bp_insns p ! j"
    using relocate_one_result [OF 1(1)] by auto
  have dis: "slots d \<inter> slots d' = {}" if "d' \<in> set ds" for d' using Cons.prems(2) that by simp
  have len: "j < length (bp_insns p)" if "d' \<in> set (d # ds)" "j \<in> slots d'" for d' j using Cons.prems(3) that by blast
  have "\<forall>d\<in>set ds. \<forall>j\<in>slots d. j < length (bp_insns p1)" using len r(1) by fastforce
  moreover have "sorted_wrt (\<lambda>d d'. slots d \<inter> slots d' = {}) ds" using Cons.prems(2) by simp
  ultimately have IH: "length (bp_insns p1) \<le> length (bp_insns p')" "\<And>d. d \<in> set ds \<Longrightarrow> resolved (rx_maps cx) d (bp_insns p1) (bp_insns p')"
    "\<And>j. j < length (bp_insns p1) \<Longrightarrow> j \<notin> \<Union> (slots ` set ds) \<Longrightarrow> bp_insns p' ! j = bp_insns p1 ! j"
    using Cons.IH [OF 1(2)] by blast+
  have "resolved (rx_maps cx) d (bp_insns p) (bp_insns p')"
  proof (rule resolved_later [OF r(2,1)], rule)
    fix j assume j: "j \<in> slots d"
    then have "j < length (bp_insns p1)" using len [of d j] r(1) by simp
    moreover have "j \<notin> \<Union> (slots ` set ds)" using dis j by blast
    ultimately show "bp_insns p' ! j = bp_insns p1 ! j" by (rule IH(3))
  qed
  moreover have "resolved (rx_maps cx) d' (bp_insns p) (bp_insns p')" if "d' \<in> set ds" for d'
  proof (rule resolved_earlier [OF IH(2) [OF that]])
    show l: "\<forall>j\<in>slots d'. j < length (bp_insns p)" using len [of d'] that by simp
    show "\<forall>j\<in>slots d'. bp_insns p1 ! j = bp_insns p ! j" using l dis [OF that] r(3) by blast
  qed
  moreover have "bp_insns p' ! j = bp_insns p ! j" if "j < length (bp_insns p)" "j \<notin> \<Union> (slots ` set (d # ds))" for j
    using IH(3) [of j] r(1) r(3) [of j] that by auto
  ultimately show ?case using r(1) IH(1) by auto
qed simp

section \<open>Collected descriptors\<close>

definition rel_idx :: "elf_rel \<Rightarrow> nat" where
  "rel_idx rel = unat (ucast (r_offset rel div 8) :: u32)"

text \<open>The instructions that an entry of the object file is about.\<close>

definition rel_slots :: "bpf_insn list \<Rightarrow> elf_rel \<Rightarrow> nat set" where
  "rel_slots insns rel = (if in_code (insns ! rel_idx rel) = BPF_JMP_CALL then {rel_idx rel} else {rel_idx rel, Suc (rel_idx rel)})"

lemma find_reloc_map_result:
  "find_reloc_map type symb ms i = Some k \<Longrightarrow>
     \<exists>j<length ms. k = i + j \<and> bm_libbpf_type (ms ! j) = type \<and>
       (type = LIBBPF_MAP_UNSPEC \<longrightarrow> bm_sec_idx (ms ! j) = uint (st_shndx symb) \<and> bm_sec_offset (ms ! j) = unat (st_value symb))"
proof (induction ms arbitrary: i)
  case (Cons m ms)
  show ?case
  proof (cases "find_reloc_map type symb ms (Suc i) = Some k")
    case True
    from Cons.IH [OF this] obtain j where j: "j < length ms" "k = Suc i + j" "bm_libbpf_type (ms ! j) = type"
      "type = LIBBPF_MAP_UNSPEC \<longrightarrow> bm_sec_idx (ms ! j) = uint (st_shndx symb) \<and> bm_sec_offset (ms ! j) = unat (st_value symb)" by blast
    then show ?thesis by (intro exI [of _ "Suc j"]) simp
  next
    case False
    then show ?thesis using Cons.prems by (intro exI [of _ 0]) (auto split: if_splits)
  qed
qed simp

text \<open>
  A descriptor is about the instruction of its entry, and for a map it is the map that the symbol of the
  entry names.  An entry for a 64-bit load that points into \<open>.text\<close> is excluded: its
  descriptor is never written.
\<close>

definition describes :: "elf_file \<Rightarrow> libbpf_map list \<Rightarrow> bpf_insn list \<Rightarrow> elf_rel \<Rightarrow> reloc_desc \<Rightarrow> bool" where
  "describes ef maps insns rel d \<longleftrightarrow>
     rd_insn_idx d = sint (ucast (r_offset rel div 8) :: u32) \<and>
     (rd_type d = RELO_CALL \<longleftrightarrow> in_code (insns ! rel_idx rel) = BPF_JMP_CALL) \<and>
     (rd_type d \<noteq> RELO_CALL \<longrightarrow> 0 \<le> rd_arg d \<and> nat (rd_arg d) < length maps \<and>
        (case r_sym rel of None \<Rightarrow> False
         | Some symb \<Rightarrow>
             (rd_type d = RELO_LD64 \<longleftrightarrow> section_to_libbpf_map_type ef (sint (st_shndx symb)) = LIBBPF_MAP_UNSPEC) \<and>
             bm_libbpf_type (maps ! nat (rd_arg d)) = section_to_libbpf_map_type ef (sint (st_shndx symb)) \<and>
             (rd_type d = RELO_LD64 \<longrightarrow> bm_sec_idx (maps ! nat (rd_arg d)) = uint (st_shndx symb) \<and>
                bm_sec_offset (maps ! nat (rd_arg d)) = unat (st_value symb))))"

definition not_text_load :: "elf_file \<Rightarrow> bpf_insn list \<Rightarrow> elf_rel \<Rightarrow> bool" where
  "not_text_load ef insns rel \<longleftrightarrow>
     (case r_sym rel of None \<Rightarrow> True
      | Some symb \<Rightarrow> in_code (insns ! rel_idx rel) = BPF_JMP_CALL \<or> shndx_is_maps ef (sint (st_shndx symb)) \<or> shndx_is_data ef (sint (st_shndx symb)))"

lemma collect_one_describes:
  assumes "collect_one ef gd maps insns junk (Some rel) = Some (0, d, call)" "not_text_load ef insns rel"
  shows "describes ef maps insns rel d \<and> rel_idx rel < length insns"
  using assms
  by (auto simp: collect_one_def describes_def not_text_load_def rel_idx_def Let_def LIBBPF_ERRNO__FORMAT_def LIBBPF_ERRNO__RELOC_def
      split: option.splits if_splits dest!: find_reloc_map_result)

lemma collect_relocs_describes:
  assumes "collect_relocs ef gd maps insns (zip (map Some rels) junks) pseudo = Some (0, ds, pseudo')" "length junks = length rels"
    "\<forall>rel\<in>set rels. not_text_load ef insns rel"
  shows "list_all2 (describes ef maps insns) rels ds \<and> (\<forall>rel\<in>set rels. rel_idx rel < length insns)"
  using assms
proof (induction rels arbitrary: junks ds pseudo)
  case (Cons rel rels)
  obtain junk junks' where j: "junks = junk # junks'" using Cons.prems(2) by (cases junks) auto
  obtain d call where 1: "collect_one ef gd maps insns junk (Some rel) = Some (0, d, call)"
    using Cons.prems(1) j by (auto split: option.splits if_splits)
  obtain ds' where 2: "collect_relocs ef gd maps insns (zip (map Some rels) junks') (pseudo \<or> call) = Some (0, ds', pseudo')" "ds = d # ds'"
    using Cons.prems(1) j 1 by (auto split: option.splits)
  from Cons.IH [OF 2(1)] collect_one_describes [OF 1] Cons.prems(2,3) j 2(2) show ?case by auto
qed auto

lemma describes_slots:
  assumes "describes ef maps insns rel d" "rel_idx rel < 2 ^ 31"
  shows "nat (rd_insn_idx d) = rel_idx rel" "slots d = rel_slots insns rel"
proof -
  have "sint (ucast (r_offset rel div 8) :: u32) = int (rel_idx rel)"
    using assms(2) unfolding rel_idx_def
    by (subst sint32_small) (metis nat_int_comparison(2) of_nat_numeral of_nat_power uint_nat, simp only: uint_nat)
  then show n: "nat (rd_insn_idx d) = rel_idx rel" using assms(1) by (simp add: describes_def)
  show "slots d = rel_slots insns rel" using assms(1) n by (auto simp: slots_def rel_slots_def describes_def)
qed

lemma relocate_descriptors:
  assumes "bpf_program_relocate cx progs p = Some (0, p')" "bp_reloc_desc p = Some ds"
    "sorted_wrt (\<lambda>d d'. slots d \<inter> slots d' = {}) ds" "\<forall>d\<in>set ds. \<forall>j\<in>slots d. j < length (bp_insns p)"
  shows "length (bp_insns p) \<le> length (bp_insns p') \<and> (\<forall>d\<in>set ds. resolved (rx_maps cx) d (bp_insns p) (bp_insns p')) \<and>
    (\<forall>j<length (bp_insns p). j \<notin> \<Union> (slots ` set ds) \<longrightarrow> bp_insns p' ! j = bp_insns p ! j) \<and> bp_reloc_desc p' = None"
proof -
  obtain q where q: "(case rx_btf_ext cx of None \<Rightarrow> (0, p) | Some bx \<Rightarrow> bpf_program_reloc_btf_ext bx p (bp_section_name p) 0) = (0, q)"
    using assms(1) by (auto simp: bpf_program_relocate_def split: prod.splits if_splits)
  then have k: "bp_insns q = bp_insns p" "bp_reloc_desc q = bp_reloc_desc p" by (auto split: option.splits dest!: btf_ext_keeps)
  obtain r where r: "relocate_all cx progs ds q = Some (0, r)" "p' = r\<lparr>bp_reloc_desc := None\<rparr>"
    using assms(1,2) q k by (auto simp: bpf_program_relocate_def split: option.splits if_splits)
  show ?thesis using relocate_all_result [OF r(1) assms(3)] assms(4) k(1) r(2) by simp
qed

section \<open>Properties\<close>

text \<open>
  C21: every reference to a map is bound to the right map.  Take a program whose relocation entries are
  well formed (each about instructions of its own inside the program, and no 64-bit load that
  points into \<open>.text\<close>).  When the entries are collected without error, and relocation then
  succeeds with the maps in the same places, the instruction of every entry whose symbol is in a
  section of maps loads the descriptor of the map at exactly that section and offset; nothing
  outside of the entries' instructions has changed.
\<close>

theorem map_references_resolved:
  fixes prog :: libbpf_program
  defines "insns \<equiv> bp_insns prog"
  assumes "bpf_program_collect_reloc True ef gd maps (zip (map Some rels) junks) prog pseudo = Some (0, prog1, pseudo1)"
    and "bpf_program_relocate cx progs prog1 = Some (0, prog2)"
    and "length junks = length rels" "length insns < 2 ^ 31"
    and "\<forall>rel\<in>set rels. not_text_load ef insns rel \<and> (\<forall>j\<in>rel_slots insns rel. j < length insns)"
    and "sorted_wrt (\<lambda>r r'. rel_slots insns r \<inter> rel_slots insns r' = {}) rels"
  shows "(\<forall>rel symb. rel \<in> set rels \<and> r_sym rel = Some symb \<and> in_code (insns ! rel_idx rel) \<noteq> BPF_JMP_CALL \<and>
            section_to_libbpf_map_type ef (sint (st_shndx symb)) = LIBBPF_MAP_UNSPEC \<longrightarrow>
            (\<exists>k<length maps. bm_sec_idx (maps ! k) = uint (st_shndx symb) \<and> bm_sec_offset (maps ! k) = unat (st_value symb) \<and>
               bp_insns prog2 ! rel_idx rel =
                 (insns ! rel_idx rel)\<lparr>in_src_reg := BPF_PSEUDO_MAP_FD, in_imm := of_int (bm_fd (rx_maps cx ! k))\<rparr>)) \<and>
         (\<forall>j<length insns. j \<notin> \<Union> (rel_slots insns ` set rels) \<longrightarrow> bp_insns prog2 ! j = insns ! j)"
proof -
  obtain ds where c: "collect_relocs ef gd maps insns (zip (map Some rels) junks) pseudo = Some (0, ds, pseudo1)"
      "prog1 = prog\<lparr>bp_reloc_desc := Some ds\<rparr>"
    using assms(2) by (auto simp: bpf_program_collect_reloc_def insns_def)
  have d: "list_all2 (describes ef maps insns) rels ds" "\<forall>rel\<in>set rels. rel_idx rel < length insns"
    using collect_relocs_describes [OF c(1) assms(4)] assms(6) by auto
  have len: "length ds = length rels" and dn: "\<And>i. i < length rels \<Longrightarrow> describes ef maps insns (rels ! i) (ds ! i)"
    using d(1) by (simp_all add: list_all2_conv_all_nth)
  have small: "i < length rels \<Longrightarrow> rel_idx (rels ! i) < 2 ^ 31" for i
    using d(2) assms(5) nth_mem [of i rels] by (meson less_trans)
  have s: "map slots ds = map (rel_slots insns) rels"
    using len describes_slots(2) [OF dn small] by (intro nth_equalityI) simp_all
  have dis: "sorted_wrt (\<lambda>d d'. slots d \<inter> slots d' = {}) ds"
    using assms(7) s sorted_wrt_map [of "\<lambda>a b. a \<inter> b = {}" slots ds] sorted_wrt_map [of "\<lambda>a b. a \<inter> b = {}" "rel_slots insns" rels] by simp
  have im: "slots ` set ds = rel_slots insns ` set rels" using arg_cong [OF s, of set] by simp
  have bnd: "\<forall>d\<in>set ds. \<forall>j\<in>slots d. j < length (bp_insns prog1)"
  proof (intro ballI)
    fix d j assume dj: "d \<in> set ds" "j \<in> slots d"
    have "slots d \<in> rel_slots insns ` set rels" using im dj(1) by blast
    then obtain rel where "rel \<in> set rels" "slots d = rel_slots insns rel" by blast
    then have "j < length insns" using assms(6) dj(2) by blast
    then show "j < length (bp_insns prog1)" by (simp add: c(2) insns_def)
  qed
  have res: "\<forall>d\<in>set ds. resolved (rx_maps cx) d insns (bp_insns prog2)"
      "\<forall>j<length insns. j \<notin> \<Union> (slots ` set ds) \<longrightarrow> bp_insns prog2 ! j = insns ! j"
    using relocate_descriptors [OF assms(3) _ dis bnd] by (simp_all add: c(2) insns_def)
  have "\<exists>k<length maps. bm_sec_idx (maps ! k) = uint (st_shndx symb) \<and> bm_sec_offset (maps ! k) = unat (st_value symb) \<and>
      bp_insns prog2 ! rel_idx rel = (insns ! rel_idx rel)\<lparr>in_src_reg := BPF_PSEUDO_MAP_FD, in_imm := of_int (bm_fd (rx_maps cx ! k))\<rparr>"
    if h: "rel \<in> set rels" "r_sym rel = Some symb" "in_code (insns ! rel_idx rel) \<noteq> BPF_JMP_CALL"
      "section_to_libbpf_map_type ef (sint (st_shndx symb)) = LIBBPF_MAP_UNSPEC" for rel symb
  proof -
    obtain i where i: "i < length rels" "rel = rels ! i" using h(1) by (metis in_set_conv_nth)
    let ?d = "ds ! i"
    have "resolved (rx_maps cx) ?d insns (bp_insns prog2)" using res(1) i(1) len by simp
    then show ?thesis using dn [OF i(1)] describes_slots(1) [OF dn small, OF i(1) i(1)] h i(2)
      by (intro exI [of _ "nat (rd_arg ?d)"]) (auto simp: resolved_def describes_def Let_def)
  qed
  then show ?thesis using res(2) im by auto
qed

definition sample_elf :: elf_file where
  "sample_elf = \<lparr>ef_maps_shndx = 5, ef_btf_maps_shndx = - 1, ef_text_shndx = 1, ef_data_shndx = - 1, ef_rodata_shndx = - 1, ef_bss_shndx = - 1\<rparr>"

definition sample_prog :: libbpf_program where
  "sample_prog = empty_program\<lparr>bp_idx := 3, bp_nr := - 1, bp_section_name := ''xdp_filter'', bp_insns :=
     [\<lparr>in_code = BPF_LD_IMM_DW, in_dst_reg = 1, in_src_reg = 0, in_off = 0, in_imm = 0\<rparr>,
      \<lparr>in_code = 0, in_dst_reg = 0, in_src_reg = 0, in_off = 0, in_imm = 0\<rparr>,
      \<lparr>in_code = 0x95, in_dst_reg = 0, in_src_reg = 0, in_off = 0, in_imm = 0\<rparr>]\<rparr>"

definition sample_rel :: elf_rel where
  "sample_rel = \<lparr>r_offset = 0, r_sym = Some \<lparr>st_shndx = 5, st_value = 0, st_global = True\<rparr>\<rparr>"

definition sample_reloc_maps :: "libbpf_map list" where
  "sample_reloc_maps = [(sample_map ''logger'')\<lparr>bm_sec_idx := 5, bm_fd := 7\<rparr>]"

definition sample_reloc_context :: reloc_context where
  "sample_reloc_context = \<lparr>rx_btf_ext = None, rx_text_shndx = 1, rx_maps = sample_reloc_maps, rx_realloc = True\<rparr>"

abbreviation sample_junk_desc :: reloc_desc where
  "sample_junk_desc \<equiv> \<lparr>rd_type = RELO_CALL, rd_insn_idx = 9, rd_arg = 9\<rparr>"

theorem map_references_resolved_witness:
  "\<exists>prog1 prog2. bpf_program_collect_reloc True sample_elf True sample_reloc_maps (zip (map Some [sample_rel]) [sample_junk_desc]) sample_prog False
       = Some (0, prog1, False) \<and>
     bpf_program_relocate sample_reloc_context [] prog1 = Some (0, prog2) \<and> in_imm (bp_insns prog2 ! 0) = 7"
proof -
  let ?prog1 = "sample_prog\<lparr>bp_reloc_desc := Some [\<lparr>rd_type = RELO_LD64, rd_insn_idx = 0, rd_arg = 0\<rparr>]\<rparr>"
  have 1: "bpf_program_collect_reloc True sample_elf True sample_reloc_maps (zip (map Some [sample_rel]) [sample_junk_desc]) sample_prog False = Some (0, ?prog1, False)"
    by (simp add: bpf_program_collect_reloc_def collect_one_def sample_rel_def sample_prog_def sample_elf_def sample_reloc_maps_def sample_map_def
        SHN_LORESERVE_def relo_in_known_section_def shndx_is_maps_def section_to_libbpf_map_type_def BPF_JMP_CALL_def BPF_LD_IMM_DW_def Let_def)
  have e: "map_option fst (bpf_program_relocate sample_reloc_context [] ?prog1) = Some 0"
    by (simp add: bpf_program_relocate_def sample_reloc_context_def relocate_one_def sample_prog_def sample_reloc_maps_def Let_def)
  then obtain prog2 where 2: "bpf_program_relocate sample_reloc_context [] ?prog1 = Some (0, prog2)" by (auto simp: map_option_case split: option.splits)
  have "\<exists>k<1. bp_insns prog2 ! 0 = (bp_insns sample_prog ! 0)\<lparr>in_src_reg := BPF_PSEUDO_MAP_FD, in_imm := of_int (bm_fd (rx_maps sample_reloc_context ! k))\<rparr>"
    using map_references_resolved [OF 1 2]
    by (simp add: sample_rel_def sample_prog_def sample_reloc_maps_def rel_idx_def rel_slots_def not_text_load_def sample_elf_def shndx_is_maps_def
        section_to_libbpf_map_type_def BPF_JMP_CALL_def BPF_LD_IMM_DW_def)
  then show ?thesis using 1 2 by (auto simp: sample_reloc_context_def sample_reloc_maps_def)
qed

text \<open>
  A 64-bit load whose symbol is in \<open>.text\<close> passes the checks without a descriptor being written: what the
  allocated memory held is used as the descriptor.
\<close>

theorem text_load_keeps_junk:
  assumes "r_sym rel = Some symb" "sint (st_shndx symb) = ef_text_shndx ef" "st_shndx symb < SHN_LORESERVE"
    and "\<not> shndx_is_maps ef (ef_text_shndx ef)" "\<not> shndx_is_data ef (ef_text_shndx ef)"
    and "rel_idx rel < length insns" "in_code (insns ! rel_idx rel) = BPF_LD_IMM_DW"
  shows "collect_one ef gd maps insns junk (Some rel) = Some (0, junk, False)"
  using assms less_le_not_le [of "st_shndx symb" SHN_LORESERVE]
  by (auto simp: collect_one_def rel_idx_def relo_in_known_section_def Let_def BPF_LD_IMM_DW_def BPF_JMP_CALL_def)

end
