(* ===== verification/Libbpf_Sections.thy ===== *)
theory Libbpf_Sections
  imports Bpf_Syscall
begin

text \<open>
  Section names of object files in libbpf, \<open>libbpf/src/libbpf.c\<close>: the table that gives a program its
  type from the name of its section, and the searches in it.  The messages that list the known
  names go to the log only; the buffer they are built in is modelled.
\<close>

section \<open>The table\<close>

record section_def =
  sd_sec :: string
  sd_prog_type :: bpf_prog_type
  sd_expected_attach_type :: bpf_attach_type
  sd_is_attachable :: bool
  sd_is_attach_btf :: bool
  sd_attach_type :: bpf_attach_type

text \<open>The zero of the enumeration of attach types.\<close>

abbreviation no_attach_type :: bpf_attach_type where "no_attach_type \<equiv> BPF_CGROUP_INET_INGRESS"

definition BPF_PROG_SEC :: "string \<Rightarrow> bpf_prog_type \<Rightarrow> section_def" where
  "BPF_PROG_SEC str ptype =
     \<lparr>sd_sec = str, sd_prog_type = ptype, sd_expected_attach_type = no_attach_type, sd_is_attachable = False,
      sd_is_attach_btf = False, sd_attach_type = no_attach_type\<rparr>"

definition BPF_APROG_SEC :: "string \<Rightarrow> bpf_prog_type \<Rightarrow> bpf_attach_type \<Rightarrow> section_def" where
  "BPF_APROG_SEC str ptype atype =
     \<lparr>sd_sec = str, sd_prog_type = ptype, sd_expected_attach_type = no_attach_type, sd_is_attachable = True,
      sd_is_attach_btf = False, sd_attach_type = atype\<rparr>"

definition BPF_EAPROG_SEC :: "string \<Rightarrow> bpf_prog_type \<Rightarrow> bpf_attach_type \<Rightarrow> section_def" where
  "BPF_EAPROG_SEC str ptype eatype =
     \<lparr>sd_sec = str, sd_prog_type = ptype, sd_expected_attach_type = eatype, sd_is_attachable = True,
      sd_is_attach_btf = False, sd_attach_type = eatype\<rparr>"

definition BPF_PROG_BTF :: "string \<Rightarrow> bpf_prog_type \<Rightarrow> bpf_attach_type \<Rightarrow> section_def" where
  "BPF_PROG_BTF str ptype eatype =
     \<lparr>sd_sec = str, sd_prog_type = ptype, sd_expected_attach_type = eatype, sd_is_attachable = False,
      sd_is_attach_btf = True, sd_attach_type = no_attach_type\<rparr>"

definition BPF_APROG_COMPAT :: "string \<Rightarrow> bpf_prog_type \<Rightarrow> section_def" where
  "BPF_APROG_COMPAT = BPF_PROG_SEC"

definition section_names :: "section_def list" where
  "section_names =
     [BPF_PROG_SEC ''socket'' BPF_PROG_TYPE_SOCKET_FILTER,
      BPF_PROG_SEC ''kprobe/'' BPF_PROG_TYPE_KPROBE,
      BPF_PROG_SEC ''uprobe/'' BPF_PROG_TYPE_KPROBE,
      BPF_PROG_SEC ''kretprobe/'' BPF_PROG_TYPE_KPROBE,
      BPF_PROG_SEC ''uretprobe/'' BPF_PROG_TYPE_KPROBE,
      BPF_PROG_SEC ''classifier'' BPF_PROG_TYPE_SCHED_CLS,
      BPF_PROG_SEC ''action'' BPF_PROG_TYPE_SCHED_ACT,
      BPF_PROG_SEC ''tracepoint/'' BPF_PROG_TYPE_TRACEPOINT,
      BPF_PROG_SEC ''tp/'' BPF_PROG_TYPE_TRACEPOINT,
      BPF_PROG_SEC ''raw_tracepoint/'' BPF_PROG_TYPE_RAW_TRACEPOINT,
      BPF_PROG_SEC ''raw_tp/'' BPF_PROG_TYPE_RAW_TRACEPOINT,
      BPF_PROG_BTF ''tp_btf/'' BPF_PROG_TYPE_TRACING BPF_TRACE_RAW_TP,
      BPF_PROG_SEC ''xdp'' BPF_PROG_TYPE_XDP,
      BPF_PROG_SEC ''perf_event'' BPF_PROG_TYPE_PERF_EVENT,
      BPF_PROG_SEC ''lwt_in'' BPF_PROG_TYPE_LWT_IN,
      BPF_PROG_SEC ''lwt_out'' BPF_PROG_TYPE_LWT_OUT,
      BPF_PROG_SEC ''lwt_xmit'' BPF_PROG_TYPE_LWT_XMIT,
      BPF_PROG_SEC ''lwt_seg6local'' BPF_PROG_TYPE_LWT_SEG6LOCAL,
      BPF_APROG_SEC ''cgroup_skb/ingress'' BPF_PROG_TYPE_CGROUP_SKB BPF_CGROUP_INET_INGRESS,
      BPF_APROG_SEC ''cgroup_skb/egress'' BPF_PROG_TYPE_CGROUP_SKB BPF_CGROUP_INET_EGRESS,
      BPF_APROG_COMPAT ''cgroup/skb'' BPF_PROG_TYPE_CGROUP_SKB,
      BPF_APROG_SEC ''cgroup/sock'' BPF_PROG_TYPE_CGROUP_SOCK BPF_CGROUP_INET_SOCK_CREATE,
      BPF_EAPROG_SEC ''cgroup/post_bind4'' BPF_PROG_TYPE_CGROUP_SOCK BPF_CGROUP_INET4_POST_BIND,
      BPF_EAPROG_SEC ''cgroup/post_bind6'' BPF_PROG_TYPE_CGROUP_SOCK BPF_CGROUP_INET6_POST_BIND,
      BPF_APROG_SEC ''cgroup/dev'' BPF_PROG_TYPE_CGROUP_DEVICE BPF_CGROUP_DEVICE,
      BPF_APROG_SEC ''sockops'' BPF_PROG_TYPE_SOCK_OPS BPF_CGROUP_SOCK_OPS,
      BPF_APROG_SEC ''sk_skb/stream_parser'' BPF_PROG_TYPE_SK_SKB BPF_SK_SKB_STREAM_PARSER,
      BPF_APROG_SEC ''sk_skb/stream_verdict'' BPF_PROG_TYPE_SK_SKB BPF_SK_SKB_STREAM_VERDICT,
      BPF_APROG_COMPAT ''sk_skb'' BPF_PROG_TYPE_SK_SKB,
      BPF_APROG_SEC ''sk_msg'' BPF_PROG_TYPE_SK_MSG BPF_SK_MSG_VERDICT,
      BPF_APROG_SEC ''lirc_mode2'' BPF_PROG_TYPE_LIRC_MODE2 BPF_LIRC_MODE2,
      BPF_APROG_SEC ''flow_dissector'' BPF_PROG_TYPE_FLOW_DISSECTOR BPF_FLOW_DISSECTOR,
      BPF_EAPROG_SEC ''cgroup/bind4'' BPF_PROG_TYPE_CGROUP_SOCK_ADDR BPF_CGROUP_INET4_BIND,
      BPF_EAPROG_SEC ''cgroup/bind6'' BPF_PROG_TYPE_CGROUP_SOCK_ADDR BPF_CGROUP_INET6_BIND,
      BPF_EAPROG_SEC ''cgroup/connect4'' BPF_PROG_TYPE_CGROUP_SOCK_ADDR BPF_CGROUP_INET4_CONNECT,
      BPF_EAPROG_SEC ''cgroup/connect6'' BPF_PROG_TYPE_CGROUP_SOCK_ADDR BPF_CGROUP_INET6_CONNECT,
      BPF_EAPROG_SEC ''cgroup/sendmsg4'' BPF_PROG_TYPE_CGROUP_SOCK_ADDR BPF_CGROUP_UDP4_SENDMSG,
      BPF_EAPROG_SEC ''cgroup/sendmsg6'' BPF_PROG_TYPE_CGROUP_SOCK_ADDR BPF_CGROUP_UDP6_SENDMSG,
      BPF_EAPROG_SEC ''cgroup/recvmsg4'' BPF_PROG_TYPE_CGROUP_SOCK_ADDR BPF_CGROUP_UDP4_RECVMSG,
      BPF_EAPROG_SEC ''cgroup/recvmsg6'' BPF_PROG_TYPE_CGROUP_SOCK_ADDR BPF_CGROUP_UDP6_RECVMSG,
      BPF_EAPROG_SEC ''cgroup/sysctl'' BPF_PROG_TYPE_CGROUP_SYSCTL BPF_CGROUP_SYSCTL,
      BPF_EAPROG_SEC ''cgroup/getsockopt'' BPF_PROG_TYPE_CGROUP_SOCKOPT BPF_CGROUP_GETSOCKOPT,
      BPF_EAPROG_SEC ''cgroup/setsockopt'' BPF_PROG_TYPE_CGROUP_SOCKOPT BPF_CGROUP_SETSOCKOPT]"

definition ESRCH :: int where "ESRCH = 3"

section \<open>Searches\<close>

text \<open>\<open>strncmp(name, sec, len) == 0\<close> for a \<open>sec\<close> of \<open>len\<close> characters: it starts the name.\<close>

fun starts_with :: "string \<Rightarrow> string \<Rightarrow> bool" where
  "starts_with name [] = True"
| "starts_with [] (c # cs) = False"
| "starts_with (d # ds) (c # cs) = (c = d \<and> starts_with ds cs)"

text \<open>The list of names for a message: \<open>None\<close> when it does not fit in the buffer.\<close>

definition MAX_TYPE_NAME_SIZE :: nat where "MAX_TYPE_NAME_SIZE = 32"

fun type_names :: "bool \<Rightarrow> nat \<Rightarrow> section_def list \<Rightarrow> string \<Rightarrow> string option" where
  "type_names attach_type len [] buf = Some buf"
| "type_names attach_type len (sd # sds) buf =
     (if attach_type \<and> \<not> sd_is_attachable sd then type_names attach_type len sds buf
      else if length buf + length (sd_sec sd) + 2 > len then None
      else type_names attach_type len sds (buf @ '' '' @ sd_sec sd))"

definition libbpf_get_type_names :: "bool \<Rightarrow> bool \<Rightarrow> string option" where
  "libbpf_get_type_names malloc_ok attach_type =
     (if \<not> malloc_ok then None
      else type_names attach_type (length section_names * MAX_TYPE_NAME_SIZE) section_names [])"

definition find_section :: "(section_def \<Rightarrow> bool) \<Rightarrow> string \<Rightarrow> section_def option" where
  "find_section ok name = find (\<lambda>sd. ok sd \<and> starts_with name (sd_sec sd)) section_names"

text \<open>The error, or the types that the source writes through its pointers.\<close>

definition libbpf_prog_type_by_name :: "string option \<Rightarrow> int + bpf_prog_type \<times> bpf_attach_type" where
  "libbpf_prog_type_by_name name =
     (case name of
        None \<Rightarrow> Inl (- EINVAL)
      | Some name \<Rightarrow>
          (case find_section (\<lambda>_. True) name of
             None \<Rightarrow> Inl (- ESRCH)
           | Some sd \<Rightarrow> Inr (sd_prog_type sd, sd_expected_attach_type sd)))"

definition libbpf_attach_type_by_name :: "string option \<Rightarrow> int + bpf_attach_type" where
  "libbpf_attach_type_by_name name =
     (case name of
        None \<Rightarrow> Inl (- EINVAL)
      | Some name \<Rightarrow>
          (case find_section (\<lambda>_. True) name of
             None \<Rightarrow> Inl (- EINVAL)
           | Some sd \<Rightarrow> if \<not> sd_is_attachable sd then Inl (- EINVAL) else Inr (sd_attach_type sd)))"

text \<open>
  The type of a tracepoint in the BTF of the kernel: \<open>btf\<close> is the search by name in it, \<open>None\<close> when the
  kernel's BTF is not found.  The name is built in 128 bytes.
\<close>

definition BTF_PREFIX :: string where "BTF_PREFIX = ''btf_trace_''"

definition libbpf_attach_btf_id_by_name :: "(string \<Rightarrow> int) option \<Rightarrow> string option \<Rightarrow> int + u32" where
  "libbpf_attach_btf_id_by_name btf name =
     (case btf of
        None \<Rightarrow> Inl (- EINVAL)
      | Some btf_find \<Rightarrow>
          (case name of
             None \<Rightarrow> Inl (- EINVAL)
           | Some name \<Rightarrow>
               (case find_section sd_is_attach_btf name of
                  None \<Rightarrow> Inl (- ESRCH)
                | Some sd \<Rightarrow>
                    (let raw_tp_btf_name = BTF_PREFIX @ take (128 - (length BTF_PREFIX + 1)) (drop (length (sd_sec sd)) name);
                         ret = btf_find raw_tp_btf_name
                     in if ret \<le> 0 then Inl (- EINVAL) else Inr (of_int ret)))))"

section \<open>Names with an extension\<close>

lemma starts_with_append: "starts_with (s @ t) s"
  by (induction s) auto

lemma starts_with_extended: "starts_with (s @ t) u \<Longrightarrow> starts_with s u \<or> starts_with u s"
proof (induction s arbitrary: u)
  case (Cons c s)
  then show ?case by (cases u) auto
qed auto

text \<open>Two names of which one starts the other belong to the same type of program.\<close>

definition same_type :: "section_def \<Rightarrow> section_def \<Rightarrow> bool" where
  "same_type a b \<longleftrightarrow>
     starts_with (sd_sec a) (sd_sec b) \<or> starts_with (sd_sec b) (sd_sec a) \<longrightarrow>
     sd_prog_type a = sd_prog_type b \<and> sd_expected_attach_type a = sd_expected_attach_type b"

lemma section_names_types: "\<forall>a\<in>set section_names. \<forall>b\<in>set section_names. same_type a b"
  by code_simp

text \<open>No name comes after one that starts it.\<close>

lemma section_names_order: "sorted_wrt (\<lambda>a b. \<not> starts_with (sd_sec b) (sd_sec a)) section_names"
  by code_simp

lemma find_own:
  "sd \<in> set sds \<Longrightarrow> sorted_wrt (\<lambda>a b. \<not> P b a) sds \<Longrightarrow> (\<And>a. P a a) \<Longrightarrow> find (P sd) sds = Some sd"
  by (induction sds) auto

lemma starts_with_self [simp]: "starts_with s s"
  by (induction s) auto

lemma find_section_own: "sd \<in> set section_names \<Longrightarrow> find_section (\<lambda>_. True) (sd_sec sd) = Some sd"
  unfolding find_section_def
  using find_own [of sd section_names "\<lambda>a b. starts_with (sd_sec a) (sd_sec b)"] section_names_order by simp

lemma find_section_extended:
  assumes "sd \<in> set section_names"
  shows "\<exists>sd'. find_section (\<lambda>_. True) (sd_sec sd @ t) = Some sd' \<and> sd_prog_type sd' = sd_prog_type sd \<and>
    sd_expected_attach_type sd' = sd_expected_attach_type sd"
proof -
  obtain sd' where f: "find_section (\<lambda>_. True) (sd_sec sd @ t) = Some sd'"
    using assms starts_with_append [of "sd_sec sd" t] by (fastforce simp: find_section_def find_None_iff)
  then have "sd' \<in> set section_names" "starts_with (sd_sec sd @ t) (sd_sec sd')"
    by (auto simp: find_section_def find_Some_iff)
  then show ?thesis using f section_names_types assms starts_with_extended by (fastforce simp: same_type_def)
qed

section \<open>Properties\<close>

text \<open>
  A section name gives its program the type of the table: a name that extends an entry of the
  table has that entry's type, whatever follows; a name that extends none is unknown
  (\<open>-ESRCH\<close>).  The attach type of an entry's own name is the entry's, and \<open>-EINVAL\<close> where it
  has none.
\<close>

theorem section_types_resolved:
  "(\<forall>sd\<in>set section_names.
      libbpf_prog_type_by_name (Some (sd_sec sd @ t)) = Inr (sd_prog_type sd, sd_expected_attach_type sd) \<and>
      libbpf_attach_type_by_name (Some (sd_sec sd)) = (if sd_is_attachable sd then Inr (sd_attach_type sd) else Inl (- EINVAL))) \<and>
   (libbpf_prog_type_by_name (Some name) = Inl (- ESRCH) \<longleftrightarrow> (\<nexists>sd u. sd \<in> set section_names \<and> name = sd_sec sd @ u))"
proof -
  have sw: "starts_with n s \<longleftrightarrow> (\<exists>u. n = s @ u)" for n s
  proof (induction n s rule: starts_with.induct)
    case (3 d ds c cs)
    then show ?case by auto
  qed auto
  show ?thesis
    using find_section_extended [of _ t] find_section_own
    by (fastforce simp: libbpf_prog_type_by_name_def libbpf_attach_type_by_name_def find_section_def find_None_iff sw split: option.splits)
qed

theorem section_types_resolved_witness:
  "libbpf_prog_type_by_name (Some ''xdp_filter'') = Inr (BPF_PROG_TYPE_XDP, no_attach_type)"
proof -
  have "BPF_PROG_SEC ''xdp'' BPF_PROG_TYPE_XDP \<in> set section_names" by (simp add: section_names_def)
  then have "libbpf_prog_type_by_name (Some (''xdp'' @ ''_filter'')) = Inr (BPF_PROG_TYPE_XDP, no_attach_type)"
    using section_types_resolved [of "''_filter''" "[]"] by (force simp: BPF_PROG_SEC_def)
  then show ?thesis by simp
qed

text \<open>The list of names in the messages always fits in its buffer.\<close>

lemma type_names_fit:
  "length buf + sum_list (map (\<lambda>sd. length (sd_sec sd) + 1) sds) + 1 \<le> len \<Longrightarrow> type_names a len sds buf \<noteq> None"
  by (induction sds arbitrary: buf) auto

lemma get_type_names_complete: "libbpf_get_type_names True a \<noteq> None"
proof -
  have "sum_list (map (\<lambda>sd. length (sd_sec sd) + 1) section_names) + 1 \<le> length section_names * MAX_TYPE_NAME_SIZE"
    by code_simp
  then show ?thesis by (simp add: libbpf_get_type_names_def type_names_fit)
qed

end
