(* ===== verification/Libbpf_Load.thy ===== *)
theory Libbpf_Load
  imports Libbpf_Relocs Libbpf_Sections
begin

text \<open>
  Loading an object in libbpf, \<open>libbpf/src/libbpf.c\<close>: one program into the kernel with its retries,
  the instances of a program, all programs of an object, and the whole object with what is undone
  on errors.

  To the operating system of \<^verbatim>\<open>Libbpf_Maps\<close> the record \<open>load_env\<close> adds where instructions are in
  memory, the allocation of the log (its address, 0 for none), the first byte of the log, the
  allocations inside of \<open>bpf_load_program_xattr\<close> and the relocation by BTF.  The result \<open>None\<close> is a
  loop without end, an access outside of an array, or the use of a variable that was never written.
  Pointers to objects and programs are not NULL.  The caller's own data (\<open>priv\<close>, the place where a preprocessor wants its descriptor) is left out.
\<close>

section \<open>Data\<close>

record libbpf_object =
  lo_license :: string
  lo_kern_version :: u32
  lo_programs :: "libbpf_program list"
  lo_maps :: "libbpf_map list"
  lo_data :: u64
  lo_rodata :: u64
  lo_loaded :: bool
  lo_has_pseudo_calls :: bool
  lo_efile :: elf_file
  lo_btf :: "btf_handle option"
  lo_btf_ext :: "btf_ext_ops option"
  lo_caps :: bpf_capabilities

record 's load_env =
  le_os :: "'s os"
  le_insns :: "bpf_insn list \<Rightarrow> 's \<Rightarrow> u64 \<times> 's"
  le_log :: "i32 \<Rightarrow> 's \<Rightarrow> u64 \<times> 's"
  le_log_byte :: "'s \<Rightarrow> u8"
  le_mallocs :: "bool \<times> bool"
  le_core :: "bpf_insn list list \<Rightarrow> int \<times> (nat \<Rightarrow> bpf_insn list)"
  le_realloc :: bool

definition ENOSPC :: int where "ENOSPC = 28"
definition BPF_MAXINSNS :: u64 where "BPF_MAXINSNS = 4096"
definition BPF_LOG_BUF_SIZE :: i32 where "BPF_LOG_BUF_SIZE = drop_bit 8 0xFFFFFFFF"

section \<open>Unloading a program\<close>

fun close_fds :: "'s os \<Rightarrow> int list \<Rightarrow> 's \<Rightarrow> 's" where
  "close_fds os [] s = s"
| "close_fds os (fd # fds) s = close_fds os fds (snd (zclose os fd s))"

definition bpf_program_unload :: "'s os \<Rightarrow> libbpf_program \<Rightarrow> 's \<Rightarrow> (libbpf_program \<times> 's) option" where
  "bpf_program_unload os prog s =
     (let prog' = prog\<lparr>bp_nr := - 1, bp_fds := None, bp_func_info := None, bp_line_info := None\<rparr>
      in if bp_nr prog > 0 then
           (case bp_fds prog of
              None \<Rightarrow> None
            | Some fds \<Rightarrow>
                if nat (bp_nr prog) \<le> length fds then Some (prog', close_fds os (take (nat (bp_nr prog)) fds) s) else None)
         else Some (prog', s))"

definition bpf_program_exit :: "'s os \<Rightarrow> libbpf_program \<Rightarrow> 's \<Rightarrow> (libbpf_program \<times> 's) option" where
  "bpf_program_exit os prog s =
     map_option (\<lambda>(prog, s).
         (prog\<lparr>bp_name := None, bp_section_name := [], bp_pin_name := [], bp_insns := [], bp_reloc_desc := None, bp_idx := - 1\<rparr>, s))
       (bpf_program_unload os prog s)"

section \<open>Loading a program\<close>

text \<open>\<open>prog_ifindex\<close> and \<open>attach_btf_id\<close> share their place; the second assignment stays.\<close>

definition load_attr_for ::
    "libbpf_object \<Rightarrow> libbpf_program \<Rightarrow> u64 \<Rightarrow> i32 \<Rightarrow> u64 \<Rightarrow> u32 \<Rightarrow> load_program_attr" where
  "load_attr_for obj prog insns insns_cnt license kern_version =
     (let btf_fd = (if lo_btf_ext obj \<noteq> None then (case lo_btf obj of None \<Rightarrow> - 1 | Some btf \<Rightarrow> bt_fd btf) else - 1);
          la = load_program_attr0\<lparr>lp_prog_type := bp_type prog, lp_expected_attach_type := bp_attach prog\<rparr>;
          la = (if cap_name (lo_caps obj) then la\<lparr>lp_name := map_option bytes_of (bp_name prog)\<rparr> else la);
          la = la\<lparr>lp_insns := insns, lp_insns_cnt := scast insns_cnt, lp_license := license, lp_kern_version := kern_version,
                  lp_prog_ifindex := bp_prog_ifindex prog, lp_prog_btf_fd := if btf_fd \<ge> 0 then of_int btf_fd else 0,
                  lp_func_info := (case bp_func_info prog of None \<Rightarrow> [] | Some i \<Rightarrow> i),
                  lp_func_info_rec_size := bp_func_info_rec_size prog, lp_func_info_cnt := bp_func_info_cnt prog,
                  lp_line_info := (case bp_line_info prog of None \<Rightarrow> [] | Some i \<Rightarrow> i),
                  lp_line_info_rec_size := bp_line_info_rec_size prog, lp_line_info_cnt := bp_line_info_cnt prog,
                  lp_log_level := bp_log_level prog, lp_prog_flags := bp_prog_flags prog\<rparr>
      in la\<lparr>lp_prog_ifindex := bp_attach_btf_id prog\<rparr>)"

text \<open>The kernel refuses the program: the reason.\<close>

definition load_refused :: "'s load_env \<Rightarrow> load_program_attr \<Rightarrow> u64 \<Rightarrow> 's \<Rightarrow> (int \<times> 's) option" where
  "load_refused E la log_buf s =
     (let ret = - os_errno (le_os E) s
      in if log_buf \<noteq> 0 \<and> le_log_byte E s \<noteq> 0 then Some (- LIBBPF_ERRNO__VERIFY, s)
         else if lp_insns_cnt la \<ge> BPF_MAXINSNS then Some (- LIBBPF_ERRNO__PROG2BIG, s)
         else if lp_prog_type la \<noteq> BPF_PROG_TYPE_KPROBE then
           (case bpf_load_program_xattr (os_kernel (le_os E)) (le_mallocs E)
                  (Some (la\<lparr>lp_prog_type := BPF_PROG_TYPE_KPROBE, lp_expected_attach_type := no_attach_type\<rparr>)) 0 0 s of
              None \<Rightarrow> None
            | Some (fd, s) \<Rightarrow>
                if fd \<ge> 0 then Some (- LIBBPF_ERRNO__PROGTYPE, snd (os_close (le_os E) fd s)) else Some (ret, s))
         else Some (ret, s))"

text \<open>
  The loop at \<open>retry_load\<close>, with the size of the log as its \<open>int\<close>.  The result is the returned
  number and what was written to \<open>*pfd\<close>.
\<close>

partial_function (option) load_loop :: "'s load_env \<Rightarrow> load_program_attr \<Rightarrow> i32 \<Rightarrow> 's \<Rightarrow> (int \<times> int option \<times> 's) option" where
  "load_loop E la log_buf_size s =
     (let l = le_log E log_buf_size s
      in Option.bind (bpf_load_program_xattr (os_kernel (le_os E)) (le_mallocs E) (Some la) (fst l) (scast log_buf_size) (snd l))
           (\<lambda>r. if fst r \<ge> 0 then Some (0, Some (fst r), snd r)
                else if os_errno (le_os E) (snd r) = ENOSPC then load_loop E la (push_bit 1 log_buf_size) (snd r)
                else map_option (\<lambda>(ret, s). (ret, None, s)) (load_refused E la (fst l) (snd r))))"

definition load_program ::
    "'s load_env \<Rightarrow> libbpf_object \<Rightarrow> libbpf_program \<Rightarrow> bpf_insn list \<Rightarrow> string \<Rightarrow> u32 \<Rightarrow> 's \<Rightarrow> (int \<times> int option \<times> 's) option" where
  "load_program E obj prog insns license kern_version s =
     (let insns_cnt = (of_nat (length insns) :: i32)
      in if insns = [] \<or> insns_cnt = 0 then Some (- EINVAL, None, s)
         else
           (let (pi, s) = le_insns E insns s; (pl, s) = os_str (le_os E) license s
            in load_loop E (load_attr_for obj prog pi insns_cnt pl kern_version) BPF_LOG_BUF_SIZE s))"

text \<open>The instances that a preprocessor makes, from the \<open>i\<close>th on; \<open>n\<close> of them are left.\<close>

fun load_instances ::
    "'s load_env \<Rightarrow> libbpf_object \<Rightarrow> (nat \<Rightarrow> bpf_insn list \<Rightarrow> int \<times> bpf_insn list) \<Rightarrow> string \<Rightarrow> u32 \<Rightarrow> nat \<Rightarrow> nat \<Rightarrow>
     libbpf_program \<Rightarrow> int list \<Rightarrow> 's \<Rightarrow> (int \<times> int list \<times> 's) option" where
  "load_instances E obj prep license kern_version i 0 prog fds s = Some (0, fds, s)"
| "load_instances E obj prep license kern_version i (Suc n) prog fds s =
     (let (err, insns) = prep i (bp_insns prog)
      in if err \<noteq> 0 then Some (err, fds, s)
         else if insns = [] then
           (if i < length fds then load_instances E obj prep license kern_version (Suc i) n prog (fds[i := - 1]) s else None)
         else
           (case load_program E obj prog insns license kern_version s of
              None \<Rightarrow> None
            | Some (err, fd, s) \<Rightarrow>
                if err \<noteq> 0 then Some (err, fds, s)
                else
                  (case fd of
                     None \<Rightarrow> None
                   | Some fd \<Rightarrow>
                       if i < length fds then load_instances E obj prep license kern_version (Suc i) n prog (fds[i := fd]) s else None)))"

definition load_single ::
    "'s load_env \<Rightarrow> libbpf_object \<Rightarrow> string \<Rightarrow> u32 \<Rightarrow> libbpf_program \<Rightarrow> int list \<Rightarrow> 's \<Rightarrow> (int \<times> int list \<times> 's) option" where
  "load_single E obj license kern_version prog fds s =
     (case load_program E obj prog (bp_insns prog) license kern_version s of
        None \<Rightarrow> None
      | Some (err, fd, s) \<Rightarrow>
          if err \<noteq> 0 then Some (err, fds, s)
          else (case fd of None \<Rightarrow> None | Some fd \<Rightarrow> if fds = [] then None else Some (0, fds[0 := fd], s)))"

text \<open>The part up to the array of descriptors: an error, or the program with its array.\<close>

definition instances_ready :: "'s os \<Rightarrow> libbpf_program \<Rightarrow> 's \<Rightarrow> (int + libbpf_program \<times> int list) \<times> 's" where
  "instances_ready os prog s =
     (case (if bp_nr prog < 0 then None else bp_fds prog) of
        Some fds \<Rightarrow> (Inr (prog, fds), s)
      | None \<Rightarrow>
          if bp_prep prog \<noteq> None then (Inl (- LIBBPF_ERRNO__INTERNAL), s)
          else
            (let (ok, s) = os_malloc os s
             in if \<not> ok then (Inl (- ENOMEM), s) else (Inr (prog\<lparr>bp_nr := 1, bp_fds := Some [- 1]\<rparr>, [- 1]), s)))"

definition bpf_program_load ::
    "'s load_env \<Rightarrow> libbpf_object \<Rightarrow> libbpf_program \<Rightarrow> string \<Rightarrow> u32 \<Rightarrow> 's \<Rightarrow> (int \<times> libbpf_program \<times> 's) option" where
  "bpf_program_load E obj prog license kern_version s =
     (case instances_ready (le_os E) prog s of
        (Inl err, s) \<Rightarrow> Some (err, prog\<lparr>bp_fds := if bp_prep prog = None then None else bp_fds prog\<rparr>, s)
      | (Inr (prog, fds), s) \<Rightarrow>
          map_option (\<lambda>(err, fds, s). (err, prog\<lparr>bp_fds := Some fds, bp_insns := []\<rparr>, s))
            (case bp_prep prog of
               None \<Rightarrow> load_single E obj license kern_version prog fds s
             | Some prep \<Rightarrow> load_instances E obj prep license kern_version 0 (nat (bp_nr prog)) prog fds s))"

definition bpf_program_is_function_storage :: "libbpf_object \<Rightarrow> libbpf_program \<Rightarrow> bool" where
  "bpf_program_is_function_storage obj prog \<longleftrightarrow> bp_idx prog = ef_text_shndx (lo_efile obj) \<and> lo_has_pseudo_calls obj"

text \<open>The loop over the programs; the object is only read.\<close>

fun load_progs ::
    "'s load_env \<Rightarrow> libbpf_object \<Rightarrow> u32 \<Rightarrow> libbpf_program list \<Rightarrow> 's \<Rightarrow> (int \<times> libbpf_program list \<times> 's) option" where
  "load_progs E obj log_level [] s = Some (0, [], s)"
| "load_progs E obj log_level (prog # progs) s =
     (if bpf_program_is_function_storage obj prog then
        map_option (\<lambda>(err, progs, s). (err, prog # progs, s)) (load_progs E obj log_level progs s)
      else
        (case bpf_program_load E obj (prog\<lparr>bp_log_level := bp_log_level prog OR log_level\<rparr>) (lo_license obj) (lo_kern_version obj) s of
           None \<Rightarrow> None
         | Some (err, prog, s) \<Rightarrow>
             if err \<noteq> 0 then Some (err, prog # progs, s)
             else map_option (\<lambda>(err, progs, s). (err, prog # progs, s)) (load_progs E obj log_level progs s)))"

section \<open>Loading an object\<close>

fun unload_progs :: "'s os \<Rightarrow> libbpf_program list \<Rightarrow> 's \<Rightarrow> (libbpf_program list \<times> 's) option" where
  "unload_progs os [] s = Some ([], s)"
| "unload_progs os (prog # progs) s =
     (case bpf_program_unload os prog s of
        None \<Rightarrow> None
      | Some (prog, s) \<Rightarrow> map_option (\<lambda>(progs, s). (prog # progs, s)) (unload_progs os progs s))"

definition bpf_object_unload :: "'s os \<Rightarrow> libbpf_object \<Rightarrow> 's \<Rightarrow> (libbpf_object \<times> 's) option" where
  "bpf_object_unload os obj s =
     (let (maps, s) = close_maps os (lo_maps obj) s
      in map_option (\<lambda>(progs, s). (obj\<lparr>lo_maps := maps, lo_programs := progs\<rparr>, s)) (unload_progs os (lo_programs obj) s))"

text \<open>On an error, the maps that loading has pinned are unpinned.\<close>

fun unpin_auto :: "'s os \<Rightarrow> libbpf_map list \<Rightarrow> 's \<Rightarrow> libbpf_map list \<times> 's" where
  "unpin_auto os [] s = ([], s)"
| "unpin_auto os (m # ms) s =
     (let (m, s) = (if bm_pinned m \<and> \<not> bm_reused m then snd (bpf_map_unpin os m None s) else (m, s));
          (ms, s) = unpin_auto os ms s
      in (m # ms, s))"

definition map_context_of :: "libbpf_object \<Rightarrow> map_context" where
  "map_context_of obj = \<lparr>mx_caps = lo_caps obj, mx_btf = lo_btf obj, mx_btf_maps_shndx = ef_btf_maps_shndx (lo_efile obj),
     mx_data = lo_data obj, mx_rodata = lo_rodata obj\<rparr>"

definition reloc_context_of :: "'s load_env \<Rightarrow> libbpf_object \<Rightarrow> libbpf_map list \<Rightarrow> reloc_context" where
  "reloc_context_of E obj maps = \<lparr>rx_btf_ext = lo_btf_ext obj, rx_text_shndx = ef_text_shndx (lo_efile obj), rx_maps = maps,
     rx_realloc = le_realloc E\<rparr>"

text \<open>The three steps of loading: maps, relocations, programs.\<close>

definition load_steps ::
    "'s load_env \<Rightarrow> u32 \<Rightarrow> libbpf_object \<Rightarrow> i32 \<Rightarrow> 's \<Rightarrow> (int \<times> libbpf_object \<times> i32 \<times> 's) option" where
  "load_steps E log_level obj cpus s =
     (let (err, maps, cpus, s) = bpf_object_create_maps (le_os E) (map_context_of obj) (lo_maps obj) cpus s; obj = obj\<lparr>lo_maps := maps\<rparr>
      in if err \<noteq> 0 then Some (err, obj, cpus, s)
         else
           (case bpf_object_relocate (reloc_context_of E obj maps) (le_core E) (lo_programs obj) of
              None \<Rightarrow> None
            | Some (err, progs) \<Rightarrow>
                (let obj = obj\<lparr>lo_programs := progs\<rparr>
                 in if err \<noteq> 0 then Some (err, obj, cpus, s)
                    else map_option (\<lambda>(err, progs, s). (err, obj\<lparr>lo_programs := progs\<rparr>, cpus, s)) (load_progs E obj log_level progs s))))"

definition bpf_object_load_xattr ::
    "'s load_env \<Rightarrow> u32 \<Rightarrow> libbpf_object \<Rightarrow> i32 \<Rightarrow> 's \<Rightarrow> (int \<times> libbpf_object \<times> i32 \<times> 's) option" where
  "bpf_object_load_xattr E log_level obj cpus s =
     (if lo_loaded obj then Some (- EINVAL, obj, cpus, s)
      else
        (case load_steps E log_level (obj\<lparr>lo_loaded := True\<rparr>) cpus s of
           None \<Rightarrow> None
         | Some (err, obj, cpus, s) \<Rightarrow>
             if err = 0 then Some (0, obj, cpus, s)
             else
               (let (maps, s) = unpin_auto (le_os E) (lo_maps obj) s
                in map_option (\<lambda>(obj, s). (err, obj, cpus, s)) (bpf_object_unload (le_os E) (obj\<lparr>lo_maps := maps\<rparr>) s))))"

definition bpf_object_load :: "'s load_env \<Rightarrow> libbpf_object \<Rightarrow> i32 \<Rightarrow> 's \<Rightarrow> (int \<times> libbpf_object \<times> i32 \<times> 's) option" where
  "bpf_object_load E obj cpus s = bpf_object_load_xattr E 0 obj cpus s"

section \<open>The contract of the loader\<close>

text \<open>
  What loading relies on beyond \<open>libbpf_os\<close>: copying to memory opens nothing, the kernel sets
  \<open>errno\<close> when it refuses a program and answers \<open>EAGAIN\<close> only finitely often in a row, and
  \<open>malloc\<close> fails with \<open>ENOMEM\<close>, always so for a size with the sign bit.
\<close>

locale libbpf_loader = libbpf_os "le_os E" fdv pinv
  for E :: "'s load_env" and fdv :: "'s \<Rightarrow> int \<Rightarrow> nat option" and pinv :: "'s \<Rightarrow> string \<Rightarrow> nat option" +
  fixes \<mu> :: "'s \<Rightarrow> nat"
  assumes insns_quiet: "keeps fdv pinv s (snd (le_insns E insns s))"
    and str_quiet: "keeps fdv pinv s (snd (os_str (le_os E) str s))"
    and log_quiet: "keeps fdv pinv s (snd (le_log E n s))"
    and load_errno: "k_prog_load (os_kernel (le_os E)) BPF_PROG_LOAD pl s = (fd, e, pl', s') \<Longrightarrow> fd < 0 \<Longrightarrow>
      os_errno (le_os E) s' = e \<and> 0 < e"
    and log_errno: "le_log E n s = (0, s') \<Longrightarrow> os_errno (le_os E) s' = ENOMEM"
    and log_sign: "sint n < 0 \<Longrightarrow> fst (le_log E n s) = 0"
    and again: "again_ends (os_kernel (le_os E)) \<mu>"
begin

abbreviation K :: "'s bpf_kernel" where "K \<equiv> os_kernel (le_os E)"

text \<open>A load that fails keeps everything and leaves an error number.\<close>

definition tried :: "int \<Rightarrow> 's \<Rightarrow> 's \<Rightarrow> bool" where
  "tried fd s s' \<longleftrightarrow> opens fdv pinv fd s s' \<and> (fd < 0 \<longrightarrow> 0 < os_errno (le_os E) s')"

lemma tried_trans: "tried fd s s1 \<Longrightarrow> fd < 0 \<Longrightarrow> tried fd' s1 s2 \<Longrightarrow> tried fd' s s2"
  by (auto simp: tried_def opens_def keeps_def)

lemma tried_keeps: "keeps fdv pinv s s1 \<Longrightarrow> tried fd' s1 s2 \<Longrightarrow> tried fd' s s2"
  by (auto simp: tried_def opens_def keeps_def)

lemma prog_load_tried:
  "\<exists>fd e a s'. sys_bpf_prog_load K attr s = Some (fd, e, a, s') \<and> tried fd s s'"
proof (induction "\<mu> s" arbitrary: attr s rule: less_induct)
  case less
  obtain r0 e0 a0 s0 where k: "k_prog_load K BPF_PROG_LOAD attr s = (r0, e0, a0, s0)" by (metis prod_cases4)
  have t: "tried r0 s s0" using prog_load [OF k] load_errno [OF k] by (auto simp: tried_def)
  show ?case
  proof (cases "r0 < 0 \<and> e0 = EAGAIN")
    case True
    then have "\<mu> s0 < \<mu> s" using again [unfolded again_ends_def, THEN spec, THEN spec, of s attr] k by simp
    then obtain fd e a s' where "sys_bpf_prog_load K a0 s0 = Some (fd, e, a, s')" "tried fd s0 s'" using less by blast
    then show ?thesis using True k t tried_trans by (subst sys_bpf_prog_load.simps) (auto simp: Let_def)
  next
    case False
    then show ?thesis using k t by (subst sys_bpf_prog_load.simps) (auto simp: Let_def)
  qed
qed

lemma load_retry_tried:
  assumes "fd < 0" "0 < os_errno (le_os E) s"
  shows "\<exists>fd' fin a s'. load_retry K la mallocs finfo linfo fd errno attr s = Some (fd', fin, a, s') \<and> tried fd' s s' \<and> (\<not> fin \<longrightarrow> fd' < 0)"
  using assms
proof (induction "(if finfo then 0 else 1) + (if linfo then 0 else 1 :: nat)" arbitrary: finfo linfo fd errno attr s rule: less_induct)
  case less
  let ?go = "errno = E2BIG \<and> (\<not> finfo \<or> \<not> linfo)"
  let ?fi = "\<not> finfo \<and> pl_func_info_cnt attr \<noteq> 0 \<and> pl_func_info_rec_size attr < lp_func_info_rec_size la"
  let ?li = "\<not> linfo \<and> pl_line_info_cnt attr \<noteq> 0 \<and> pl_line_info_rec_size attr < lp_line_info_rec_size la"
  let ?fa = "alloc_zero_tailing_info (fst mallocs) (lp_func_info la) (lp_func_info_cnt la) (lp_func_info_rec_size la) (pl_func_info_rec_size attr)"
  let ?la = "alloc_zero_tailing_info (snd mallocs) (lp_line_info la) (lp_line_info_cnt la) (lp_line_info_rec_size la) (pl_line_info_rec_size attr)"
  have now: "tried fd s s" using less.prems by (simp add: tried_def opens_def)
  have go: "\<exists>fd' fin a s'. (case sys_bpf_prog_load K attr' s of None \<Rightarrow> None
        | Some (fd, errno, attr, s) \<Rightarrow> if fd \<ge> 0 then Some (fd, True, attr, s) else load_retry K la mallocs fi li fd errno attr s)
        = Some (fd', fin, a, s') \<and> tried fd' s s' \<and> (\<not> fin \<longrightarrow> fd' < 0)"
    if m: "(if fi then 0 else 1) + (if li then 0 else 1 :: nat) < (if finfo then 0 else 1) + (if linfo then 0 else 1)" for fi li attr'
  proof -
    obtain fd1 e1 a1 s1 where l: "sys_bpf_prog_load K attr' s = Some (fd1, e1, a1, s1)" "tried fd1 s s1" using prog_load_tried by blast
    show ?thesis using l less.hyps [OF m, of fd1 s1 e1 a1] tried_trans by (cases "0 \<le> fd1") (fastforce simp: tried_def)+
  qed
  consider "\<not> ?go \<or> \<not> ?fi \<and> \<not> ?li" | "?go" "?fi" | "?go" "\<not> ?fi" "?li" by blast
  then show ?case
  proof cases
    case 1
    then show ?thesis using now less.prems by (subst load_retry.simps) auto
  next
    case 2
    then show ?thesis using go [of True linfo] now by (cases ?fa; subst load_retry.simps) auto
  next
    case 3
    then show ?thesis using go [of finfo True] now by (cases ?la; subst load_retry.simps) auto
  qed
qed

lemma xattr_tried:
  "\<exists>fd s'. bpf_load_program_xattr K mallocs (Some la) log_buf sz s = Some (fd, s') \<and>
     (if load_args_ok (Some la) log_buf sz then tried fd s s' else fd < 0 \<and> s' = s)"
proof (cases "load_args_ok (Some la) log_buf sz")
  case False
  then show ?thesis by (simp add: bpf_load_program_xattr_def load_args_ok_def EINVAL_def) blast
next
  case ok: True
  then have args: "\<not> ((log_buf = 0) \<noteq> (sz = 0))" "\<not> (lp_log_level la > 7 \<or> (lp_log_level la \<noteq> 0 \<and> log_buf = 0))"
    by (auto simp: load_args_ok_def)
  obtain fd e a s1 where 1: "sys_bpf_prog_load K (load_attr0 la log_buf sz) s = Some (fd, e, a, s1)" "tried fd s s1"
    using prog_load_tried by blast
  note def = bpf_load_program_xattr_def option.case if_not_P [OF args(1)] if_not_P [OF args(2)] 1(1) prod.case
  show ?thesis
  proof (cases "0 \<le> fd")
    case True
    show ?thesis unfolding def if_P [OF True] using ok 1(2) by simp
  next
    case False
    then have "fd < 0" "0 < os_errno (le_os E) s1" using 1(2) by (simp_all add: tried_def)
    from load_retry_tried [OF this] obtain fd2 fin a2 s2 where
      2: "load_retry K la mallocs False False fd e a s1 = Some (fd2, fin, a2, s2)" "tried fd2 s1 s2" "\<not> fin \<longrightarrow> fd2 < 0" by blast
    obtain fd3 e3 a3 s3 where 3: "sys_bpf_prog_load K (a2\<lparr>pl_log_buf := log_buf, pl_log_size := ucast sz, pl_log_level := 1\<rparr>) s2 = Some (fd3, e3, a3, s3)"
        "tried fd3 s2 s3"
      using prog_load_tried by blast
    have t2: "tried fd2 s s2" using tried_trans [OF 1(2) _ 2(2)] False by simp
    show ?thesis
    proof (cases "fin \<or> lp_log_level la \<noteq> 0 \<or> log_buf = 0")
      case stop: True
      show ?thesis unfolding def if_not_P [OF False] 2(1) if_P [OF stop] using ok t2 by simp
    next
      case go: False
      then have "tried fd3 s s3" using tried_trans [OF t2 _ 3(2)] 2(3) by simp
      then show ?thesis unfolding def if_not_P [OF False] 2(1) if_not_P [OF go] 3(1) using ok by simp
    qed
  qed
qed

text \<open>The answer of \<open>load_program\<close>: a new descriptor, or an error and nothing else.\<close>

definition loaded :: "int \<Rightarrow> int option \<Rightarrow> 's \<Rightarrow> 's \<Rightarrow> bool" where
  "loaded ret pfd s s' \<longleftrightarrow>
     (case pfd of None \<Rightarrow> ret \<noteq> 0 \<and> keeps fdv pinv s s' | Some fd \<Rightarrow> ret = 0 \<and> 0 \<le> fd \<and> opens fdv pinv fd s s')"

lemma loaded_keeps: "keeps fdv pinv s s1 \<Longrightarrow> loaded ret pfd s1 s2 \<Longrightarrow> loaded ret pfd s s2"
  by (auto simp: loaded_def opens_def keeps_def split: option.splits)

lemma opens_close: "opens fdv pinv fd s s' \<Longrightarrow> 0 \<le> fd \<Longrightarrow> keeps fdv pinv s (snd (os_close (le_os E) fd s'))"
  by (auto simp: opens_def keeps_def close_fd close_pin)

lemma refused_keeps:
  "\<exists>ret s'. load_refused E la log_buf s = Some (ret, s') \<and> keeps fdv pinv s s' \<and> (0 < os_errno (le_os E) s \<longrightarrow> ret \<noteq> 0)"
proof -
  let ?la = "la\<lparr>lp_prog_type := BPF_PROG_TYPE_KPROBE, lp_expected_attach_type := no_attach_type\<rparr>"
  obtain fd s1 where 1: "bpf_load_program_xattr K (le_mallocs E) (Some ?la) 0 0 s = Some (fd, s1)"
      "if load_args_ok (Some ?la) 0 0 then tried fd s s1 else fd < 0 \<and> s1 = s"
    using xattr_tried by blast
  have o: "opens fdv pinv fd s s1" using 1(2) by (auto simp: tried_def opens_def split: if_splits)
  then have "fd < 0 \<Longrightarrow> keeps fdv pinv s s1" by (simp add: opens_def)
  then show ?thesis using 1(1) opens_close [OF o]
    by (simp add: load_refused_def Let_def LIBBPF_ERRNO__VERIFY_def LIBBPF_ERRNO__PROG2BIG_def LIBBPF_ERRNO__PROGTYPE_def not_le)
qed

lemma log_sizes:
  "push_bit k BPF_LOG_BUF_SIZE \<noteq> 0" "k = 8 \<Longrightarrow> sint (push_bit k BPF_LOG_BUF_SIZE) < 0" if "k \<le> 8"
proof -
  have "k \<in> {0, 1, 2, 3, 4, 5, 6, 7, 8}" using that by auto
  then show "push_bit k BPF_LOG_BUF_SIZE \<noteq> 0" by (auto simp: BPF_LOG_BUF_SIZE_def push_bit_eq_mult drop_bit_eq_div)
  show "k = 8 \<Longrightarrow> sint (push_bit k BPF_LOG_BUF_SIZE) < 0" by (simp add: BPF_LOG_BUF_SIZE_def push_bit_eq_mult drop_bit_eq_div)
qed

lemma scast_nonzero: "(n :: i32) \<noteq> 0 \<Longrightarrow> (scast n :: u64) \<noteq> 0"
  using scast_up_scast_id [where 'a = 32 and 'b = 64, of n] by (auto simp: is_up)

lemma load_loop_result:
  assumes "k \<le> 8" "lp_log_level la \<le> 7"
  shows "\<exists>ret pfd s'. load_loop E la (push_bit k BPF_LOG_BUF_SIZE) s = Some (ret, pfd, s') \<and> loaded ret pfd s s'"
  using assms
proof (induction "8 - k" arbitrary: k s rule: less_induct)
  case less
  let ?sz = "push_bit k BPF_LOG_BUF_SIZE"
  obtain p s1 where 1: "le_log E ?sz s = (p, s1)" by force
  have k1: "keeps fdv pinv s s1" using log_quiet [of s ?sz] 1 by simp
  obtain fd s2 where 2: "bpf_load_program_xattr K (le_mallocs E) (Some la) p (scast ?sz) s1 = Some (fd, s2)"
      "if load_args_ok (Some la) p (scast ?sz) then tried fd s1 s2 else fd < 0 \<and> s2 = s1"
    using xattr_tried by blast
  have sz: "(scast ?sz :: u64) \<noteq> 0" using scast_nonzero log_sizes(1) less.prems(1) by blast
  have bad: "p = 0" if "\<not> load_args_ok (Some la) p (scast ?sz)"
    using that sz less.prems(2) by (auto simp: load_args_ok_def)
  have p0: "fd < 0 \<and> s2 = s1 \<and> os_errno (le_os E) s2 = ENOMEM" if "p = 0"
    using that 2(2) sz log_errno [of ?sz s s1] 1 by (simp add: load_args_ok_def)
  have e: "fd < 0 \<Longrightarrow> 0 < os_errno (le_os E) s2" using 2(2) bad p0 by (auto simp: tried_def ENOMEM_def split: if_splits)
  have o: "opens fdv pinv fd s s2" using 2(2) k1 by (auto simp: tried_def opens_def keeps_def split: if_splits)
  note step = load_loop.simps [of E la ?sz s] 1 fst_conv snd_conv 2(1) Let_def
  show ?case
  proof (cases "0 \<le> fd")
    case True
    then show ?thesis using o by (simp add: step loaded_def)
  next
    case neg: False
    then have ks: "keeps fdv pinv s s2" using o by (simp add: opens_def)
    show ?thesis
    proof (cases "os_errno (le_os E) s2 = ENOSPC")
      case True
      have "k < 8"
      proof (rule ccontr)
        assume "\<not> k < 8"
        then have "p = 0" using log_sign [OF log_sizes(2) [OF less.prems(1)], of s] less.prems(1) 1 by simp
        then show False using p0 True by (simp add: ENOMEM_def ENOSPC_def)
      qed
      moreover have "push_bit 1 ?sz = push_bit (Suc k) BPF_LOG_BUF_SIZE" by (simp add: push_bit_push_bit)
      ultimately show ?thesis using less.hyps [of "Suc k" s2] less.prems(2) True neg loaded_keeps [OF ks]
        by (fastforce simp: step)
    next
      case False
      obtain ret s3 where "load_refused E la p s2 = Some (ret, s3)" "keeps fdv pinv s2 s3" "ret \<noteq> 0"
        using refused_keeps [of la p s2] e neg by auto
      then show ?thesis using False neg ks by (auto simp: step loaded_def intro: keeps_trans)
    qed
  qed
qed

lemma load_program_result:
  assumes "bp_log_level prog \<le> 7"
  shows "\<exists>ret pfd s'. load_program E obj prog insns lic kv s = Some (ret, pfd, s') \<and> loaded ret pfd s s'"
proof (cases "insns = [] \<or> (of_nat (length insns) :: i32) = 0")
  case True
  then show ?thesis by (auto simp: load_program_def loaded_def EINVAL_def)
next
  case False
  obtain pi s1 pl s2 where 1: "le_insns E insns s = (pi, s1)" "os_str (le_os E) lic s1 = (pl, s2)" by force
  have k: "keeps fdv pinv s s2" using insns_quiet [of s insns] str_quiet [of s1 lic] 1 keeps_trans by auto
  let ?la = "load_attr_for obj prog pi (of_nat (length insns)) pl kv"
  have "lp_log_level ?la \<le> 7" using assms by (simp add: load_attr_for_def Let_def)
  from load_loop_result [of 0, OF _ this, of s2] show ?thesis
    using False 1 loaded_keeps [OF k] by (fastforce simp: load_program_def Let_def)
qed

end

section \<open>The descriptors of programs\<close>

text \<open>
  The array of instances is as long as its number says; before the first load there is none, or a
  preprocessor has set one up.
\<close>

definition inst_ok :: "libbpf_program \<Rightarrow> bool" where
  "inst_ok p \<longleftrightarrow> (case bp_fds p of None \<Rightarrow> bp_nr p = - 1 | Some fds \<Rightarrow> fds \<noteq> [] \<and> bp_nr p = int (length fds))"

definition live :: "int list \<Rightarrow> int list" where
  "live fds = filter (\<lambda>fd. 0 \<le> fd) fds"

definition prog_held :: "libbpf_program \<Rightarrow> int list" where
  "prog_held p = (case bp_fds p of None \<Rightarrow> [] | Some fds \<Rightarrow> live fds)"

definition progs_held :: "libbpf_program list \<Rightarrow> int list" where
  "progs_held ps = concat (map prog_held ps)"

lemma progs_held_simps [simp]: "progs_held [] = []" "progs_held (p # ps) = prog_held p @ progs_held ps"
  by (simp_all add: progs_held_def)

lemma live_simps [simp]: "live [] = []" "live (fd # fds) = (if 0 \<le> fd then fd # live fds else live fds)"
  by (simp_all add: live_def)

lemma live_update:
  "i < length fds \<Longrightarrow> fds ! i < 0 \<Longrightarrow> mset (live (fds[i := fd])) = (if 0 \<le> fd then add_mset fd (mset (live fds)) else mset (live fds))"
proof (induction fds arbitrary: i)
  case (Cons x fds)
  then show ?case by (cases i) auto
qed simp

text \<open>A program that has not been loaded yet.\<close>

definition fresh :: "libbpf_program \<Rightarrow> bool" where
  "fresh p \<longleftrightarrow> inst_ok p \<and> (\<forall>fds. bp_fds p = Some fds \<longrightarrow> (\<forall>fd\<in>set fds. fd < 0))"

text \<open>Relocation leaves the instances alone.\<close>

definition load_kind :: "libbpf_program \<Rightarrow> bpf_prog_type \<times> bpf_attach_type \<times> i32 \<times> u32" where
  "load_kind p = (bp_type p, bp_attach p, bp_prog_ifindex p, bp_prog_flags p)"

definition inst :: "libbpf_program \<Rightarrow> int list option \<times> int \<times> (nat \<Rightarrow> bpf_insn list \<Rightarrow> int \<times> bpf_insn list) option \<times> u32 \<times> int \<times>
    (bpf_prog_type \<times> bpf_attach_type \<times> i32 \<times> u32)" where
  "inst p = (bp_fds p, bp_nr p, bp_prep p, bp_log_level p, bp_idx p, load_kind p)"

text \<open>
  A descriptor is the answer to a load of the program: of its type, attach type, device and flags.
  After a load, a program without a preprocessor has the descriptor of its own load; a program with one
  has, for each instance, the descriptor of the load of what the preprocessor made of its
  instructions, or -1 where it made nothing.
\<close>

definition loaded_as :: "'s load_env \<Rightarrow> libbpf_program \<Rightarrow> bpf_insn list \<Rightarrow> int \<Rightarrow> bool" where
  "loaded_as E p insns fd \<longleftrightarrow> 0 \<le> fd \<and>
     (\<exists>obj p1 license kern_version s s'. load_kind p1 = load_kind p \<and> load_program E obj p1 insns license kern_version s = Some (0, Some fd, s'))"

definition instance_made :: "'s load_env \<Rightarrow> libbpf_program \<Rightarrow> int \<times> bpf_insn list \<Rightarrow> int \<Rightarrow> bool" where
  "instance_made E p r fd \<longleftrightarrow> fst r = 0 \<and> (if snd r = [] then fd = - 1 else loaded_as E p (snd r) fd)"

definition instances_loaded :: "'s load_env \<Rightarrow> libbpf_program \<Rightarrow> libbpf_program \<Rightarrow> bool" where
  "instances_loaded E p p' \<longleftrightarrow>
     (\<exists>fds insns. bp_fds p' = Some fds \<and>
        (case bp_prep p of
           None \<Rightarrow> loaded_as E p insns (fds ! 0)
         | Some prep \<Rightarrow> int (length fds) = bp_nr p \<and>
             (\<forall>j<length fds. instance_made E p (prep j insns) (fds ! j))))"

lemma btf_ext_inst: "bpf_program_reloc_btf_ext bx p sec off = (err, p') \<Longrightarrow> inst p' = inst p"
  by (auto simp: inst_def load_kind_def bpf_program_reloc_btf_ext_def Let_def split: if_splits prod.splits option.splits)

lemma append_text_inst: "append_text cx progs p = (err, p') \<Longrightarrow> inst p' = inst p"
  by (auto simp: append_text_def split: if_splits prod.splits option.splits dest!: btf_ext_inst) (simp_all add: inst_def load_kind_def)

lemma reloc_text_inst: "bpf_program_reloc_text cx progs d p = Some (err, p') \<Longrightarrow> inst p' = inst p"
  by (auto simp: bpf_program_reloc_text_def Let_def split: if_splits prod.splits dest!: append_text_inst) (simp_all add: inst_def load_kind_def)

lemma relocate_one_inst: "relocate_one cx progs d p = Some (err, p') \<Longrightarrow> inst p' = inst p"
  by (auto simp: relocate_one_def inst_def load_kind_def split: if_splits dest!: reloc_text_inst)

lemma relocate_all_inst: "relocate_all cx progs ds p = Some (err, p') \<Longrightarrow> inst p' = inst p"
  by (induction ds arbitrary: p) (auto split: option.splits if_splits dest!: relocate_one_inst)

lemma relocate_inst: "bpf_program_relocate cx progs p = Some (err, p') \<Longrightarrow> inst p' = inst p"
  by (auto simp: bpf_program_relocate_def Let_def split: if_splits prod.splits option.splits dest!: btf_ext_inst relocate_all_inst)
    (auto simp: inst_def load_kind_def)

lemma relocate_progs_inst:
  "relocate_progs cx is progs = Some (err, progs') \<Longrightarrow> map inst progs' = map inst progs"
proof (induction "is" arbitrary: progs)
  case (Cons i "is")
  obtain e p where 1: "bpf_program_relocate cx progs (progs ! i) = Some (e, p)" using Cons.prems by (auto split: option.splits)
  have "map inst (progs[i := p]) = map inst progs" using relocate_inst [OF 1] by (metis list_update_id map_update)
  then show ?case using Cons 1 by (auto split: if_splits)
qed simp

lemma object_relocate_inst:
  assumes "bpf_object_relocate cx core progs = Some (err, progs')"
  shows "map inst progs' = map inst progs"
proof -
  obtain e code where c: "core (map bp_insns progs) = (e, code)" by force
  have "map inst (map (\<lambda>(i, p). p\<lparr>bp_insns := code i\<rparr>) (enumerate 0 progs)) = map (inst \<circ> snd) (enumerate 0 progs)"
    by (auto simp: inst_def load_kind_def)
  also have "\<dots> = map inst progs" by (simp flip: map_map)
  finally have "map inst (map (\<lambda>(i, p). p\<lparr>bp_insns := code i\<rparr>) (enumerate 0 progs)) = map inst progs" .
  then show ?thesis using assms c
    by (auto simp: bpf_object_relocate_def Let_def split: if_splits dest!: relocate_progs_inst)
qed

lemma same_kind:
  assumes "load_kind p = load_kind q"
  shows "loaded_as E p = loaded_as E q" "instance_made E p = instance_made E q"
    "bp_prep p = bp_prep q \<Longrightarrow> bp_nr p = bp_nr q \<Longrightarrow> instances_loaded E p = instances_loaded E q"
proof -
  show 1: "loaded_as E p = loaded_as E q" using assms by (simp add: loaded_as_def fun_eq_iff)
  show 2: "instance_made E p = instance_made E q" using 1 by (simp add: instance_made_def fun_eq_iff)
  show "bp_prep p = bp_prep q \<Longrightarrow> bp_nr p = bp_nr q \<Longrightarrow> instances_loaded E p = instances_loaded E q"
    by (simp add: instances_loaded_def 1 2 fun_eq_iff cong: option.case_cong)
qed

lemma inst_same:
  assumes "inst p = inst q"
  shows "inst_ok p = inst_ok q" "fresh p = fresh q" "prog_held p = prog_held q" "bp_log_level p = bp_log_level q"
    "bp_prep p = bp_prep q" "instances_loaded E p r = instances_loaded E q r" "bpf_program_is_function_storage obj p = bpf_program_is_function_storage obj q"
    "load_kind p = load_kind q"
  using assms
  by (auto simp: inst_def inst_ok_def fresh_def prog_held_def bpf_program_is_function_storage_def same_kind(3) [of p q] split: option.splits)

lemma loaded_as_intro: "load_program E obj p insns lic kv s = Some (0, Some fd, s') \<Longrightarrow> 0 \<le> fd \<Longrightarrow> loaded_as E p insns fd"
  unfolding loaded_as_def by blast

text \<open>What an object is before its first load.\<close>

definition can_load :: "u32 \<Rightarrow> libbpf_object \<Rightarrow> bool" where
  "can_load ll obj \<longleftrightarrow> (\<forall>m\<in>set (lo_maps obj). bm_pin_path m = None \<and> \<not> bm_pinned m \<and> bm_fd m < 0) \<and>
     (\<forall>p\<in>set (lo_programs obj). fresh p \<and> bp_log_level p OR ll \<le> 7)"

context libbpf_loader
begin

lemma loaded_owns:
  assumes "loaded ret pfd s s'" "owns fdv F fds s"
  shows "owns fdv F (case pfd of None \<Rightarrow> fds | Some fd \<Rightarrow> fd # fds) s' \<and> pinv s' = pinv s"
proof (cases pfd)
  case None
  then show ?thesis using assms owns_keeps [of s s' F fds] by (simp add: loaded_def keeps_def)
next
  case (Some fd)
  then show ?thesis using assms owns_open [of fd s s' F fds] opens_pin [of fd s s'] by (simp add: loaded_def)
qed

lemma owns_update:
  assumes "owns fdv F (fd # live fds @ rest) s" "i < length fds" "fds ! i < 0" "0 \<le> fd"
  shows "owns fdv F (live (fds[i := fd]) @ rest) s"
  using assms owns_perm [of "live (fds[i := fd]) @ rest" "fd # live fds @ rest"] live_update [of i fds fd] by simp

lemma load_instances_result:
  assumes "bp_log_level prog \<le> 7" "i + n \<le> length fds" "\<forall>j<length fds. i \<le> j \<longrightarrow> fds ! j < 0" "owns fdv F (live fds @ rest) s"
  shows "\<exists>err fds' s'. load_instances E obj prep lic kv i n prog fds s = Some (err, fds', s') \<and> length fds' = length fds \<and>
    owns fdv F (live fds' @ rest) s' \<and> pinv s' = pinv s \<and> (\<forall>j<i. fds' ! j = fds ! j) \<and>
    (err = 0 \<longrightarrow> (\<forall>j. i \<le> j \<and> j < i + n \<longrightarrow> instance_made E prog (prep j (bp_insns prog)) (fds' ! j)))"
  using assms
proof (induction n arbitrary: i fds s)
  case (Suc n)
  obtain e insns where p: "prep i (bp_insns prog) = (e, insns)" by force
  have i: "i < length fds" "fds ! i < 0" using Suc.prems by auto
  let ?made = "\<lambda>j. instance_made E prog (prep j (bp_insns prog))"
  have IH: "\<exists>err fds' s2. load_instances E obj prep lic kv (Suc i) n prog (fds[i := fd]) s1 = Some (err, fds', s2) \<and>
      length fds' = length fds \<and> owns fdv F (live fds' @ rest) s2 \<and> pinv s2 = pinv s1 \<and> (\<forall>j<i. fds' ! j = fds ! j) \<and>
      (err = 0 \<longrightarrow> (\<forall>j. i \<le> j \<and> j < i + Suc n \<longrightarrow> ?made j (fds' ! j)))"
    if m: "owns fdv F (live (fds[i := fd]) @ rest) s1" "?made i fd" for fd s1
  proof -
    obtain err fds' s2 where h: "load_instances E obj prep lic kv (Suc i) n prog (fds[i := fd]) s1 = Some (err, fds', s2)"
        "length fds' = length fds" "owns fdv F (live fds' @ rest) s2" "pinv s2 = pinv s1" "\<forall>j<Suc i. fds' ! j = fds[i := fd] ! j"
        "err = 0 \<longrightarrow> (\<forall>j. Suc i \<le> j \<and> j < Suc i + n \<longrightarrow> ?made j (fds' ! j))"
      using Suc.IH [of "Suc i" "fds[i := fd]" s1] Suc.prems m(1) by (auto simp: nth_list_update)
    have at: "fds' ! i = fd" using h(5) i by simp
    have "?made j (fds' ! j)" if "err = 0" "i \<le> j" "j < i + Suc n" for j
      using that h(6) at m(2) by (cases "j = i") auto
    then show ?thesis using h by auto
  qed
  obtain ret pfd s1 where l: "load_program E obj prog insns lic kv s = Some (ret, pfd, s1)" "loaded ret pfd s s1"
    using load_program_result [OF Suc.prems(1)] by blast
  note o = loaded_owns [OF l(2) Suc.prems(4)]
  consider "e \<noteq> 0" | "e = 0" "insns = []" | "e = 0" "insns \<noteq> []" "pfd = None" | fd where "e = 0" "insns \<noteq> []" "pfd = Some fd" by fastforce
  then show ?case
  proof cases
    case 1
    then show ?thesis using p Suc.prems by simp
  next
    case 2
    have "mset (live (fds[i := - 1])) = mset (live fds)" using live_update [OF i, of "- 1"] by simp
    then have "owns fdv F (live (fds[i := - 1]) @ rest) s"
      using Suc.prems(4) owns_perm [of "live (fds[i := - 1]) @ rest" "live fds @ rest"] by simp
    moreover have "?made i (- 1)" using p 2 by (simp add: instance_made_def)
    ultimately show ?thesis using IH [of "- 1" s] p 2 i by auto
  next
    case 3
    then show ?thesis using p l o Suc.prems(4) by (auto simp: loaded_def)
  next
    case 4
    then have "0 \<le> fd" "ret = 0" using l(2) by (auto simp: loaded_def)
    moreover have "owns fdv F (live (fds[i := fd]) @ rest) s1" using owns_update [of F fd fds rest s1 i] o 4 i calculation by simp
    moreover have "?made i fd" using p l 4 calculation loaded_as_intro by (auto simp: instance_made_def)
    ultimately show ?thesis using IH [of fd s1] p l o 4 i by auto
  qed
qed auto

lemma load_single_result:
  assumes "bp_log_level prog \<le> 7" "fds \<noteq> []" "fds ! 0 < 0" "owns fdv F (live fds @ rest) s"
  shows "\<exists>err fds' s'. load_single E obj lic kv prog fds s = Some (err, fds', s') \<and> length fds' = length fds \<and>
    owns fdv F (live fds' @ rest) s' \<and> pinv s' = pinv s \<and> (err = 0 \<longrightarrow> loaded_as E prog (bp_insns prog) (fds' ! 0))"
proof -
  obtain ret pfd s1 where l: "load_program E obj prog (bp_insns prog) lic kv s = Some (ret, pfd, s1)" "loaded ret pfd s s1"
    using load_program_result [OF assms(1)] by blast
  note o = loaded_owns [OF l(2) assms(4)]
  show ?thesis
  proof (cases pfd)
    case None
    then show ?thesis using l o by (auto simp: load_single_def loaded_def)
  next
    case (Some fd)
    then have f: "0 \<le> fd" "ret = 0" using l(2) by (auto simp: loaded_def)
    then have "owns fdv F (live (fds[0 := fd]) @ rest) s1" using owns_update [of F fd fds rest s1 0] o Some assms by simp
    moreover have "loaded_as E prog (bp_insns prog) fd" using l Some f loaded_as_intro [of E obj prog "bp_insns prog" lic kv s fd s1] by simp
    ultimately show ?thesis using l o Some f assms(2) by (simp add: load_single_def)
  qed
qed

lemma program_load_result:
  assumes "fresh p" "bp_log_level p \<le> 7" "owns fdv F rest s"
  shows "\<exists>err p' s'. bpf_program_load E obj p lic kv s = Some (err, p', s') \<and> inst_ok p' \<and> owns fdv F (prog_held p' @ rest) s' \<and> pinv s' = pinv s \<and>
    load_kind p' = load_kind p \<and> (err = 0 \<longrightarrow> instances_loaded E p p')"
proof -
  obtain r s1 where 1: "instances_ready (le_os E) p s = (r, s1)" by force
  have k: "keeps fdv pinv s s1"
    using 1 by (auto simp: instances_ready_def split: option.splits if_splits prod.splits dest: quiet_steps(1))
  have o: "owns fdv F rest s1" "pinv s1 = pinv s" using assms(3) owns_keeps [OF k] k by (auto simp: keeps_def)
  show ?thesis
  proof (cases r)
    case (Inl err)
    then have "err \<noteq> 0" "bp_nr p < 0 \<or> bp_fds p = None"
      using 1 by (auto simp: instances_ready_def LIBBPF_ERRNO__INTERNAL_def ENOMEM_def split: option.splits if_splits prod.splits)
    moreover have "bp_fds p = None" using assms(1) calculation(2) by (auto simp: fresh_def inst_ok_def split: option.splits)
    ultimately show ?thesis using 1 Inl assms(1) o by (auto simp: bpf_program_load_def fresh_def inst_ok_def prog_held_def load_kind_def)
  next
    case (Inr q)
    obtain p1 fds where q: "q = (p1, fds)" by force
    have p1: "bp_fds p1 = Some fds" "fds \<noteq> []" "bp_nr p1 = int (length fds)" "\<forall>fd\<in>set fds. fd < 0" "bp_log_level p1 = bp_log_level p" "bp_prep p1 = bp_prep p"
        "load_kind p1 = load_kind p" "bp_prep p \<noteq> None \<Longrightarrow> bp_nr p1 = bp_nr p"
      using 1 Inr q assms(1) by (auto simp: instances_ready_def fresh_def inst_ok_def load_kind_def split: option.splits if_splits prod.splits)
    note as = same_kind(1,2) [OF p1(7), of E]
    have live0: "live fds = []" using p1(4) by (auto simp: live_def filter_empty_conv)
    have neg: "\<forall>j<length fds. fds ! j < 0" using p1(4) by auto
    obtain err fds' s2 where 2: "(case bp_prep p1 of None \<Rightarrow> load_single E obj lic kv p1 fds s1
          | Some prep \<Rightarrow> load_instances E obj prep lic kv 0 (nat (bp_nr p1)) p1 fds s1) = Some (err, fds', s2)"
        "length fds' = length fds" "owns fdv F (live fds' @ rest) s2" "pinv s2 = pinv s1"
        "err = 0 \<longrightarrow> (case bp_prep p1 of None \<Rightarrow> loaded_as E p1 (bp_insns p1) (fds' ! 0)
           | Some prep \<Rightarrow> \<forall>j<length fds. instance_made E p1 (prep j (bp_insns p1)) (fds' ! j))"
    proof (cases "bp_prep p1")
      case None
      then show ?thesis
        using load_single_result [of p1 fds F rest s1 obj lic kv] p1(2,5) neg live0 o(1) assms(2) that by auto
    next
      case (Some prep)
      then show ?thesis
        using load_instances_result [of p1 0 "length fds" fds F rest s1 obj prep lic kv] p1(3,5) neg live0 o(1) assms(2) that by auto
    qed
    let ?p = "p1\<lparr>bp_fds := Some fds', bp_insns := []\<rparr>"
    have l: "bpf_program_load E obj p lic kv s = Some (err, ?p, s2)" using 1 2(1) Inr q by (simp add: bpf_program_load_def)
    have k: "load_kind ?p = load_kind p" using p1(7) by (simp add: load_kind_def)
    have "instances_loaded E p ?p" if "err = 0"
    proof (cases "bp_prep p")
      case None
      then show ?thesis using that 2(5) p1(6) as by (auto simp: instances_loaded_def)
    next
      case (Some prep)
      then have "\<forall>j<length fds'. instance_made E p (prep j (bp_insns p1)) (fds' ! j)"
        using that 2(2,5) p1(6) as by simp
      then show ?thesis using Some p1(3,8) 2(2) by (auto simp: instances_loaded_def)
    qed
    then show ?thesis using l k 2(2,3,4) p1(2,3) o by (auto simp: inst_ok_def prog_held_def)
  qed
qed

lemma load_progs_result:
  assumes "\<forall>p\<in>set ps. fresh p \<and> bp_log_level p OR ll \<le> 7" "owns fdv F rest s"
  shows "\<exists>err ps' s'. load_progs E obj ll ps s = Some (err, ps', s') \<and> (\<forall>p\<in>set ps'. inst_ok p) \<and>
    owns fdv F (progs_held ps' @ rest) s' \<and> pinv s' = pinv s \<and> map load_kind ps' = map load_kind ps \<and>
    (err = 0 \<longrightarrow> (\<forall>i<length ps. \<not> bpf_program_is_function_storage obj (ps ! i) \<longrightarrow> instances_loaded E (ps ! i) (ps' ! i)))"
  using assms
proof (induction ps arbitrary: rest s)
  case (Cons p ps)
  let ?p = "p\<lparr>bp_log_level := bp_log_level p OR ll\<rparr>"
  have f: "fresh ?p" "fresh p" "bp_log_level ?p \<le> 7"
    using Cons.prems by (auto simp: fresh_def inst_ok_def split: option.splits)
  have lvl: "load_kind ?p = load_kind p" "instances_loaded E ?p = instances_loaded E p"
    using same_kind(3) [of ?p p] by (simp_all add: load_kind_def)
  have none: "prog_held q = []" if "fresh q" for q
    using that by (auto simp: fresh_def prog_held_def live_def filter_empty_conv not_le split: option.split)
  have all: "progs_held qs = []" if "\<forall>q\<in>set qs. fresh q" for qs using that none by (induction qs) auto
  show ?case
  proof (cases "bpf_program_is_function_storage obj p")
    case True
    obtain err ps' s' where IH: "load_progs E obj ll ps s = Some (err, ps', s')" "\<forall>p\<in>set ps'. inst_ok p" "owns fdv F (progs_held ps' @ rest) s'"
        "pinv s' = pinv s" "map load_kind ps' = map load_kind ps"
        "err = 0 \<longrightarrow> (\<forall>i<length ps. \<not> bpf_program_is_function_storage obj (ps ! i) \<longrightarrow> instances_loaded E (ps ! i) (ps' ! i))"
      using Cons.IH [of rest s] Cons.prems by auto
    then show ?thesis using True none [OF f(2)] f(2) by (auto simp: fresh_def nth_Cons split: nat.splits)
  next
    case False
    obtain e p1 s1 where 1: "bpf_program_load E obj ?p (lo_license obj) (lo_kern_version obj) s = Some (e, p1, s1)" "inst_ok p1"
        "owns fdv F (prog_held p1 @ rest) s1" "pinv s1 = pinv s" "load_kind p1 = load_kind p" "e = 0 \<longrightarrow> instances_loaded E p p1"
      using program_load_result [OF f(1,3) Cons.prems(2), of obj "lo_license obj" "lo_kern_version obj"] lvl by auto
    show ?thesis
    proof (cases "e = 0")
      case True
      obtain err ps' s' where IH: "load_progs E obj ll ps s1 = Some (err, ps', s')" "\<forall>p\<in>set ps'. inst_ok p"
          "owns fdv F (progs_held ps' @ prog_held p1 @ rest) s'"
          "pinv s' = pinv s1" "map load_kind ps' = map load_kind ps"
          "err = 0 \<longrightarrow> (\<forall>i<length ps. \<not> bpf_program_is_function_storage obj (ps ! i) \<longrightarrow> instances_loaded E (ps ! i) (ps' ! i))"
        using Cons.IH [of "prog_held p1 @ rest" s1] Cons.prems 1(3) by auto
      have "owns fdv F ((prog_held p1 @ progs_held ps') @ rest) s'"
        using IH(3) owns_perm [of "progs_held ps' @ prog_held p1 @ rest" "(prog_held p1 @ progs_held ps') @ rest"] by simp
      then show ?thesis using False 1 IH True by (auto simp: nth_Cons split: nat.splits)
    next
      case e: False
      have "progs_held ps = []" "\<forall>p\<in>set ps. inst_ok p" using all Cons.prems(1) by (auto simp: fresh_def)
      then show ?thesis using False 1 e by simp
    qed
  qed
qed simp

lemma close_fds_owns: "owns fdv F (live fds @ rest) s \<Longrightarrow> owns fdv F rest (close_fds (le_os E) fds s) \<and> pinv (close_fds (le_os E) fds s) = pinv s"
proof (induction fds arbitrary: s)
  case (Cons fd fds)
  have "owns fdv F (live fds @ rest) (snd (zclose (le_os E) fd s))"
    using Cons.prems by (intro zclose_owns) (simp split: if_splits)
  then show ?case using Cons.IH zclose_pin by simp
qed simp

lemma program_unload_result:
  assumes "inst_ok p" "owns fdv F (prog_held p @ rest) s"
  shows "\<exists>p' s'. bpf_program_unload (le_os E) p s = Some (p', s') \<and> bp_fds p' = None \<and> bp_nr p' = - 1 \<and> owns fdv F rest s' \<and> pinv s' = pinv s"
  using assms close_fds_owns
  by (cases "bp_fds p") (auto simp: bpf_program_unload_def inst_ok_def prog_held_def Let_def)

lemma unload_progs_result:
  assumes "\<forall>p\<in>set ps. inst_ok p" "owns fdv F (progs_held ps @ rest) s"
  shows "\<exists>ps' s'. unload_progs (le_os E) ps s = Some (ps', s') \<and> (\<forall>p\<in>set ps'. bp_fds p = None \<and> bp_nr p = - 1) \<and> owns fdv F rest s' \<and> pinv s' = pinv s"
  using assms
proof (induction ps arbitrary: s)
  case (Cons p ps)
  obtain p1 s1 where 1: "bpf_program_unload (le_os E) p s = Some (p1, s1)" "bp_fds p1 = None" "bp_nr p1 = - 1" "owns fdv F (progs_held ps @ rest) s1"
      "pinv s1 = pinv s"
    using program_unload_result [of p F "progs_held ps @ rest" s] Cons.prems by auto
  then show ?case using Cons.IH [of s1] Cons.prems by auto
qed simp

lemma object_unload_result:
  assumes "\<forall>p\<in>set (lo_programs obj). inst_ok p" "owns fdv F (held (lo_maps obj) @ progs_held (lo_programs obj)) s"
  shows "\<exists>obj' s'. bpf_object_unload (le_os E) obj s = Some (obj', s') \<and> fdv s' = F \<and> pinv s' = pinv s \<and>
    (\<forall>m\<in>set (lo_maps obj'). bm_fd m = - 1) \<and> (\<forall>p\<in>set (lo_programs obj'). bp_fds p = None \<and> bp_nr p = - 1)"
proof -
  obtain ms s1 where 1: "close_maps (le_os E) (lo_maps obj) s = (ms, s1)" by force
  have c: "owns fdv F (progs_held (lo_programs obj) @ []) s1" "pinv s1 = pinv s" "ms = map (\<lambda>m. m\<lparr>bm_fd := - 1\<rparr>) (lo_maps obj)"
    using close_maps_owns [OF 1 assms(2)] by simp_all
  show ?thesis using unload_progs_result [OF assms(1) c(1)] 1 c(2,3) by (auto simp: bpf_object_unload_def owns_nil)
qed

lemma unpin_auto_none: "\<forall>m\<in>set ms. \<not> bm_pinned m \<Longrightarrow> unpin_auto (le_os E) ms s = (ms, s)"
  by (induction ms) auto

lemma load_steps_result:
  assumes "load_steps E ll obj c s = Some (err, obj', c', s')" "can_load ll obj"
  shows "owns fdv (fdv s) (held (lo_maps obj') @ progs_held (lo_programs obj')) s' \<and> pinv s' = pinv s \<and>
    (\<forall>p\<in>set (lo_programs obj'). inst_ok p) \<and> (\<forall>m\<in>set (lo_maps obj'). \<not> bm_pinned m) \<and>
    (err = 0 \<longrightarrow> (\<forall>m\<in>set (lo_maps obj'). 0 \<le> bm_fd m) \<and> map load_kind (lo_programs obj') = map load_kind (lo_programs obj) \<and>
      (\<forall>i<length (lo_programs obj). \<not> bpf_program_is_function_storage obj (lo_programs obj ! i) \<longrightarrow>
        instances_loaded E (lo_programs obj ! i) (lo_programs obj' ! i)))"
proof -
  obtain e1 ms c1 s1 where 1: "bpf_object_create_maps (le_os E) (map_context_of obj) (lo_maps obj) c s = (e1, ms, c1, s1)" by (metis prod_cases4)
  have o0: "owns fdv (fdv s) (held []) s" by (simp add: owns_nil)
  have m: "owns fdv (fdv s) (held ms) s1" "pinv s1 = pinv s" "map bm_pinned ms = map bm_pinned (lo_maps obj)"
      "if e1 = 0 then \<forall>m\<in>set ms. 0 \<le> bm_fd m else held ms = []"
    using create_maps_owns [OF 1 [unfolded bpf_object_create_maps_def] _ _ o0] assms(2) by (simp_all add: can_load_def)
  have "bm_pinned ` set ms = bm_pinned ` set (lo_maps obj)" using arg_cong [OF m(3), of set] by simp
  then have np: "\<forall>m\<in>set ms. \<not> bm_pinned m" using assms(2) by (force simp: can_load_def)
  have none: "progs_held ps = [] \<and> (\<forall>p\<in>set ps. inst_ok p)" if "\<forall>p\<in>set ps. fresh p" for ps
    using that by (induction ps) (auto simp: fresh_def prog_held_def live_def filter_empty_conv not_le split: option.split)
  show ?thesis
  proof (cases "e1 = 0")
    case False
    have "err = e1" "obj' = obj\<lparr>lo_maps := ms\<rparr>" "s' = s1" using assms(1) 1 False by (simp_all add: load_steps_def Let_def)
    then show ?thesis using assms(2) False m(1,2) np none [of "lo_programs obj"] by (simp add: can_load_def)
  next
    case e1: True
    let ?obj = "obj\<lparr>lo_maps := ms\<rparr>"
    obtain e2 ps where 2: "bpf_object_relocate (reloc_context_of E ?obj ms) (le_core E) (lo_programs obj) = Some (e2, ps)"
      using assms(1) 1 e1 by (auto simp: load_steps_def Let_def split: option.splits)
    have len: "length ps = length (lo_programs obj)" using object_relocate_inst [OF 2] by (rule map_eq_imp_length_eq)
    have same: "inst (ps ! i) = inst (lo_programs obj ! i)" if "i < length ps" for i
      using object_relocate_inst [OF 2] that len by (metis nth_map)
    have fr: "\<forall>p\<in>set ps. fresh p \<and> bp_log_level p OR ll \<le> 7"
    proof
      fix p assume "p \<in> set ps"
      then obtain i where i: "i < length ps" "p = ps ! i" by (auto simp: in_set_conv_nth)
      then have "lo_programs obj ! i \<in> set (lo_programs obj)" using len by simp
      then show "fresh p \<and> bp_log_level p OR ll \<le> 7" using assms(2) inst_same(2,4) [OF same [OF i(1)]] i(2) by (simp add: can_load_def)
    qed
    show ?thesis
    proof (cases "e2 = 0")
      case False
      have "err = e2" "obj' = ?obj\<lparr>lo_programs := ps\<rparr>" "s' = s1" using assms(1) 1 2 e1 False by (simp_all add: load_steps_def Let_def)
      then show ?thesis using False m(1,2) np none [of ps] fr by simp
    next
      case e2: True
      let ?o = "?obj\<lparr>lo_programs := ps\<rparr>"
      obtain e3 ps' s3 where 3: "load_progs E ?o ll ps s1 = Some (e3, ps', s3)" "\<forall>p\<in>set ps'. inst_ok p"
          "owns fdv (fdv s) (progs_held ps' @ held ms) s3" "pinv s3 = pinv s1" "map load_kind ps' = map load_kind ps"
          "e3 = 0 \<longrightarrow> (\<forall>i<length ps. \<not> bpf_program_is_function_storage ?o (ps ! i) \<longrightarrow> instances_loaded E (ps ! i) (ps' ! i))"
        using load_progs_result [OF fr m(1)] by blast
      have r: "err = e3" "obj' = ?o\<lparr>lo_programs := ps'\<rparr>" "s' = s3"
        using assms(1) 1 2 3(1) e1 e2 by (simp_all add: load_steps_def Let_def)
      have st: "bpf_program_is_function_storage ?o p = bpf_program_is_function_storage obj p" for p
        by (simp add: bpf_program_is_function_storage_def)
      have "owns fdv (fdv s) (held ms @ progs_held ps') s3"
        using 3(3) owns_perm [of "progs_held ps' @ held ms" "held ms @ progs_held ps'"] by simp
      moreover have "e3 = 0 \<longrightarrow> (\<forall>i<length (lo_programs obj). \<not> bpf_program_is_function_storage obj (lo_programs obj ! i) \<longrightarrow>
          instances_loaded E (lo_programs obj ! i) (ps' ! i))"
        using 3(6) inst_same(6) [OF same, where E = E] inst_same(7) [OF same] len by (simp add: st)
      moreover have "map load_kind ps' = map load_kind (lo_programs obj)"
        using 3(5) inst_same(8) [OF same] len by (auto intro!: nth_equalityI)
      ultimately show ?thesis using r 3(2,4) m np len e1 by simp
    qed
  qed
qed

lemma object_load_result:
  assumes "can_load ll obj" "\<not> lo_loaded obj"
    and "bpf_object_load_xattr E ll obj c s = Some (err, obj', c', s')"
  shows "pinv s' = pinv s \<and>
    (if err \<noteq> 0 then fdv s' = fdv s \<and> (\<forall>m\<in>set (lo_maps obj'). bm_fd m = - 1) \<and> (\<forall>p\<in>set (lo_programs obj'). bp_fds p = None \<and> bp_nr p = - 1)
     else map load_kind (lo_programs obj') = map load_kind (lo_programs obj) \<and> (\<forall>p\<in>set (lo_programs obj'). inst_ok p) \<and>
       owns fdv (fdv s) (map bm_fd (lo_maps obj') @ progs_held (lo_programs obj')) s' \<and>
       (\<forall>i<length (lo_programs obj). \<not> bpf_program_is_function_storage obj (lo_programs obj ! i) \<longrightarrow>
          instances_loaded E (lo_programs obj ! i) (lo_programs obj' ! i)) \<and>
       (\<exists>obj2 s2. bpf_object_unload (le_os E) obj' s' = Some (obj2, s2) \<and> fdv s2 = fdv s \<and> pinv s2 = pinv s))"
proof -
  have can: "can_load ll (obj\<lparr>lo_loaded := True\<rparr>)" using assms(1) by (simp add: can_load_def)
  obtain e o1 c1 s1 where 1: "load_steps E ll (obj\<lparr>lo_loaded := True\<rparr>) c s = Some (e, o1, c1, s1)"
    using assms(2,3) by (auto simp: bpf_object_load_xattr_def split: option.splits)
  note r = load_steps_result [OF 1 can]
  obtain o2 s2 where u: "bpf_object_unload (le_os E) o1 s1 = Some (o2, s2)" "fdv s2 = fdv s" "pinv s2 = pinv s1"
      "\<forall>m\<in>set (lo_maps o2). bm_fd m = - 1" "\<forall>p\<in>set (lo_programs o2). bp_fds p = None \<and> bp_nr p = - 1"
    using object_unload_result [of o1 "fdv s" s1] r by blast
  have same: "o1\<lparr>lo_maps := lo_maps o1\<rparr> = o1" by simp
  have un: "unpin_auto (le_os E) (lo_maps o1) s1 = (lo_maps o1, s1)"
    using unpin_auto_none r by blast
  show ?thesis
  proof (cases "e = 0")
    case True
    then have "err = 0" "obj' = o1" "s' = s1" using assms(2,3) 1 by (simp_all add: bpf_object_load_xattr_def)
    moreover have "held (lo_maps o1) = map bm_fd (lo_maps o1)" using r True by (simp add: held_def filter_id_conv)
    moreover have "bpf_program_is_function_storage (obj\<lparr>lo_loaded := True\<rparr>) p = bpf_program_is_function_storage obj p" for p
      by (simp add: bpf_program_is_function_storage_def)
    ultimately show ?thesis using r u True by simp
  next
    case False
    then have "err = e" "obj' = o2" "s' = s2"
      using assms(2,3) 1 un u(1) same by (simp_all add: bpf_object_load_xattr_def)
    then show ?thesis using False u r by simp
  qed
qed

end

section \<open>A loader for examples\<close>

definition sample_load_env :: "sys_state load_env" where
  "sample_load_env = \<lparr>le_os = sample_os, le_insns = (\<lambda>_ s. (32, s)),
     le_log = (\<lambda>n s. if sint n < 0 then (0, s\<lparr>ss_errno := ENOMEM\<rparr>) else (64, s)), le_log_byte = (\<lambda>_. 0), le_mallocs = (True, True),
     le_core = (\<lambda>_. (0, \<lambda>_. [])), le_realloc = True\<rparr>"

interpretation sample_loader: libbpf_loader sample_load_env ss_fdv ss_pins "\<lambda>_. 0"
proof -
  have "libbpf_os (le_os sample_load_env) ss_fdv ss_pins"
    using sample_os.libbpf_os_axioms by (simp add: sample_load_env_def)
  moreover have "libbpf_loader_axioms sample_load_env ss_fdv ss_pins (\<lambda>_. 0)"
    by unfold_locales
      (auto simp: sample_load_env_def sample_os_def sample_bpf_def ss_fdv_def keeps_def ss_alloc_def again_ends_def EAGAIN_def ENOMEM_def
        fun_eq_iff split: if_splits)
  ultimately show "libbpf_loader sample_load_env ss_fdv ss_pins (\<lambda>_. 0)" by (simp add: libbpf_loader_def)
qed

definition sample_object :: libbpf_object where
  "sample_object = \<lparr>lo_license = ''GPL'', lo_kern_version = 0, lo_programs = [sample_prog],
     lo_maps = [(sample_map ''logger'')\<lparr>bm_sec_idx := 5\<rparr>], lo_data = 0, lo_rodata = 0, lo_loaded = False, lo_has_pseudo_calls = False,
     lo_efile = sample_elf, lo_btf = None, lo_btf_ext = None,
     lo_caps = \<lparr>cap_name = True, cap_global_data = True, cap_btf_func = True, cap_btf_datasec = True\<rparr>\<rparr>"

section \<open>Properties\<close>


text \<open>
  C25: loading a program ends.  Whatever the kernel answers, \<open>load_program\<close> returns: a log that is too small is
  doubled at most eight times before its size has the sign bit and cannot be allocated.  It returns 0
  with a new descriptor, or an error with all descriptors as before.
\<close>

theorem load_program_ends:
  assumes "libbpf_loader E fdv pinv \<mu>" "bp_log_level prog \<le> 7"
  shows "\<exists>ret pfd s'. load_program E obj prog insns license kern_version s = Some (ret, pfd, s') \<and>
    (case pfd of
       None \<Rightarrow> ret \<noteq> 0 \<and> fdv s' = fdv s \<and> pinv s' = pinv s
     | Some fd \<Rightarrow> ret = 0 \<and> 0 \<le> fd \<and> fdv s fd = None \<and> (\<exists>ob. fdv s' = (fdv s)(fd \<mapsto> ob)) \<and> pinv s' = pinv s)"
  using libbpf_loader.load_program_result [OF assms, of obj insns license kern_version s]
  by (auto simp: libbpf_loader.loaded_def [OF assms(1)] keeps_def opens_def split: option.splits)

lemma sample_xattr:
  assumes "lp_log_level la \<le> 7" "ss_next s < 1024"
  shows "bpf_load_program_xattr sample_bpf mallocs (Some la) 64 0xFFFFFF s =
    Some (int (ss_next s), s\<lparr>ss_fds := (ss_fds s)(int (ss_next s) \<mapsto> ss_next s), ss_next := Suc (ss_next s)\<rparr>)"
  using assms by (simp add: bpf_load_program_xattr_def sys_bpf_prog_load.simps sample_bpf_def ss_alloc_def not_le [symmetric])

lemma sample_load_program:
  assumes "bp_log_level p \<le> 7" "ss_next s < 1024" "insns \<noteq> []" "(of_nat (length insns) :: i32) \<noteq> 0"
  shows "\<exists>s'. load_program sample_load_env obj p insns lic kv s = Some (0, Some (int (ss_next s)), s')"
proof -
  have 1: "(scast BPF_LOG_BUF_SIZE :: u64) = 0xFFFFFF" "\<not> sint BPF_LOG_BUF_SIZE < 0"
    by (simp_all add: BPF_LOG_BUF_SIZE_def drop_bit_eq_div)
  have 2: "lp_log_level (load_attr_for obj p 32 (of_nat (length insns)) 1 kv) \<le> 7" using assms(1) by (simp add: load_attr_for_def Let_def)
  have 3: "le_insns sample_load_env insns s = (32, s)" "os_str (le_os sample_load_env) lic s = (1, s\<lparr>ss_path := lic\<rparr>)"
    "le_log sample_load_env BPF_LOG_BUF_SIZE s2 = (64, s2)" "os_kernel (le_os sample_load_env) = sample_bpf" for s2
    using 1(2) by (simp_all add: sample_load_env_def sample_os_def)
  show ?thesis
    using assms(2-4) sample_xattr [OF 2, of "s\<lparr>ss_path := lic\<rparr>" "le_mallocs sample_load_env"]
    by (simp add: load_program_def Let_def 3 load_loop.simps 1)
qed

theorem load_program_ends_witness:
  "\<exists>s'. load_program sample_load_env sample_object sample_prog (bp_insns sample_prog) ''GPL'' 0 sample_sys_state = Some (0, Some 3, s') \<and>
     ss_fdv s' 3 \<noteq> None"
proof -
  have "\<exists>s'. load_program sample_load_env sample_object sample_prog (bp_insns sample_prog) ''GPL'' 0 sample_sys_state = Some (0, Some 3, s')"
    using sample_load_program [of sample_prog sample_sys_state "bp_insns sample_prog"]
    by (simp add: sample_prog_def empty_program_def sample_sys_state_def)
  with load_program_ends [OF sample_loader.libbpf_loader_axioms, of sample_prog sample_object "bp_insns sample_prog" "''GPL''" 0 sample_sys_state]
  show ?thesis by (auto simp: sample_prog_def empty_program_def)
qed

lemma sample_object_loads:
  fixes ty at
  defines "p \<equiv> sample_prog\<lparr>bp_type := ty, bp_attach := at\<rparr>"
  shows "\<exists>obj' c s'. bpf_object_load_xattr sample_load_env 0 (sample_object\<lparr>lo_programs := [p]\<rparr>) 0 sample_sys_state = Some (0, obj', c, s') \<and>
    lo_programs obj' = [p\<lparr>bp_nr := 1, bp_fds := Some [4], bp_insns := []\<rparr>]"
proof -
  let ?o = "sample_object\<lparr>lo_programs := [p]\<rparr>"
  obtain ms c s1 where 1: "bpf_object_create_maps sample_os (map_context_of (?o\<lparr>lo_loaded := True\<rparr>)) (lo_maps ?o) 0 sample_sys_state = (0, ms, c, s1)" "ss_next s1 = 4"
    by (simp add: bpf_object_create_maps_def create_one_def sample_object_def sample_map_def create_max_entries_def create_attr_for_def create_fd_def create_rest_def
        map_context_of_def sample_os_def sample_bpf_def bpf_create_map_xattr_def sys_bpf_def ss_alloc_def sample_sys_state_def bpf_map_is_internal_def)
  let ?obj = "?o\<lparr>lo_loaded := True, lo_maps := ms\<rparr>"
  let ?p = "p\<lparr>bp_nr := 1, bp_fds := Some [- 1]\<rparr>"
  have os: "le_os sample_load_env = sample_os" by (simp add: sample_load_env_def)
  have progs: "lo_programs ?o = [p]" "lo_license ?o = ''GPL''" "lo_kern_version ?o = 0"
    "lo_loaded ?o = False" "\<not> bpf_program_is_function_storage ?obj p"
    by (simp_all add: sample_object_def bpf_program_is_function_storage_def)
  have prog: "bp_log_level ?p \<le> 7" "p\<lparr>bp_log_level := 0\<rparr> = p" "bp_log_level p = 0" "bp_prep p = None"
    by (simp_all add: p_def sample_prog_def empty_program_def)
  have rel: "bpf_object_relocate (reloc_context_of sample_load_env ?obj ms) (le_core sample_load_env) [p] = Some (0, [p])"
    by (simp add: bpf_object_relocate_def reloc_context_of_def sample_object_def bpf_program_relocate_def p_def sample_prog_def empty_program_def)
  have ready: "instances_ready sample_os p s1 = (Inr (?p, [- 1]), s1)"
    by (simp add: instances_ready_def p_def sample_prog_def empty_program_def sample_os_def)
  obtain s2 where 2: "load_program sample_load_env ?obj ?p (bp_insns ?p) ''GPL'' 0 s1 = Some (0, Some 4, s2)"
    using sample_load_program [OF prog(1), of s1 "bp_insns ?p"] 1(2) by (fastforce simp: p_def sample_prog_def)
  have o: "sample_object\<lparr>lo_loaded := True, lo_maps := ms, lo_programs := [p]\<rparr> = ?obj"
    "sample_object\<lparr>lo_programs := [p], lo_loaded := True, lo_maps := ms\<rparr> = ?obj" by (simp_all add: sample_object_def)
  have "bpf_program_load sample_load_env ?obj p ''GPL'' 0 s1 = Some (0, ?p\<lparr>bp_fds := Some [4], bp_insns := []\<rparr>, s2)"
    using 2 ready by (simp add: bpf_program_load_def os prog load_single_def)
  then have "bpf_object_load_xattr sample_load_env 0 ?o 0 sample_sys_state =
      Some (0, ?obj\<lparr>lo_programs := [?p\<lparr>bp_fds := Some [4], bp_insns := []\<rparr>]\<rparr>, c, s2)"
    using 1 rel progs by (simp add: bpf_object_load_xattr_def load_steps_def os prog Let_def o(1))
  then show ?thesis by simp
qed


text \<open>
  The index of the device never reaches the kernel: it is overwritten by the BTF type that a traced
  program is attached to, which is 0 for all others.
\<close>

theorem offload_index_lost:
  "bp_attach_btf_id prog = 0 \<Longrightarrow> pl_prog_ifindex (load_attr0 (load_attr_for obj prog insns n lic kv) log_buf sz) = 0"
  by (simp add: load_attr_for_def load_attr0_def Let_def)

text \<open>
  A log level above 7 is refused without an error number: when none is left from before, \<open>load_program\<close>
  reports success without a descriptor.
\<close>

theorem high_log_level_reports_success:
  assumes "le_log E BPF_LOG_BUF_SIZE s1 = (p, s)" "os_errno (le_os E) s = 0" "p \<noteq> 0 \<longrightarrow> le_log_byte E s = 0"
    and "7 < lp_log_level la" "lp_insns_cnt la < BPF_MAXINSNS"
  shows "load_loop E la BPF_LOG_BUF_SIZE s1 = Some (0, None, s)"
  using assms
  by (subst load_loop.simps) (auto simp: bpf_load_program_xattr_def load_refused_def Let_def ENOSPC_def EINVAL_def not_le [symmetric])

text \<open>
  Without memory for the log, nothing is loaded, although the message says that loading goes on
  without a log.
\<close>

theorem no_log_no_load:
  assumes "le_log E BPF_LOG_BUF_SIZE s1 = (0, s)" "os_errno (le_os E) s = ENOMEM" "load_loop E la BPF_LOG_BUF_SIZE s1 = Some (ret, pfd, s')"
  shows "pfd = None"
proof -
  have "(scast BPF_LOG_BUF_SIZE :: u64) \<noteq> 0" by (simp add: BPF_LOG_BUF_SIZE_def drop_bit_eq_div)
  then show ?thesis using assms
    by (subst (asm) load_loop.simps) (auto simp: bpf_load_program_xattr_def Let_def ENOSPC_def ENOMEM_def EINVAL_def)
qed

end
