(* ===== verification/Libbpf_Programs.thy ===== *)
theory Libbpf_Programs
  imports Libbpf_Load
begin

text \<open>
  Access to the parts of an object in libbpf, \<open>libbpf/src/libbpf.c\<close>: walking over its programs and
  maps, finding them by name, reading and setting what they hold, the descriptors of instances,
  pinning programs, closing the object, and the load with a given program type.

  A pointer to a program or a map is its object and its index there.  The loop
  \<open>bpf_object__for_each_program\<close> is \<open>for_each_program\<close>, the list of indices in the order in which
  \<open>bpf_program__next\<close> visits them.  The result \<open>None\<close> is an access outside of an array.
\<close>

section \<open>Walking over programs and maps\<close>

text \<open>An object is identified by a number, a program by its object and index.\<close>

definition bpf_program_iter :: "nat \<Rightarrow> libbpf_object \<Rightarrow> (nat \<times> nat) option \<Rightarrow> bool \<Rightarrow> (nat \<times> nat) option" where
  "bpf_program_iter oid obj p forward =
     (let nr_programs = length (lo_programs obj)
      in if nr_programs = 0 then None
         else
           (case p of
              None \<Rightarrow> Some (oid, if forward then 0 else nr_programs - 1)
            | Some (o', i) \<Rightarrow>
                if o' \<noteq> oid then None
                else
                  (let idx = int i + (if forward then 1 else - 1)
                   in if idx \<ge> int nr_programs \<or> idx < 0 then None else Some (oid, nat idx))))"

abbreviation is_storage :: "libbpf_object \<Rightarrow> nat \<Rightarrow> bool" where
  "is_storage obj i \<equiv> bpf_program_is_function_storage obj (lo_programs obj ! i)"

function bpf_program_next :: "nat \<Rightarrow> libbpf_object \<Rightarrow> (nat \<times> nat) option \<Rightarrow> (nat \<times> nat) option" where
  "bpf_program_next oid obj prev =
     (case bpf_program_iter oid obj prev True of
        None \<Rightarrow> None
      | Some (o', i) \<Rightarrow> if is_storage obj i then bpf_program_next oid obj (Some (o', i)) else Some (o', i))"
  by pat_completeness auto
termination
  by (relation "measure (\<lambda>(oid, obj, p). Suc (length (lo_programs obj)) - (case p of None \<Rightarrow> 0 | Some (o', i) \<Rightarrow> Suc i))")
    (auto simp: bpf_program_iter_def Let_def split: option.splits if_splits)

function bpf_program_prev :: "nat \<Rightarrow> libbpf_object \<Rightarrow> (nat \<times> nat) option \<Rightarrow> (nat \<times> nat) option" where
  "bpf_program_prev oid obj next =
     (case bpf_program_iter oid obj next False of
        None \<Rightarrow> None
      | Some (o', i) \<Rightarrow> if is_storage obj i then bpf_program_prev oid obj (Some (o', i)) else Some (o', i))"
  by pat_completeness auto
termination
  by (relation "measure (\<lambda>(oid, obj, p). case p of None \<Rightarrow> Suc (length (lo_programs obj)) | Some (o', i) \<Rightarrow> i)")
    (auto simp: bpf_program_iter_def Let_def split: option.splits if_splits)

declare bpf_program_next.simps [simp del] bpf_program_prev.simps [simp del]

definition for_each_program :: "libbpf_object \<Rightarrow> nat list" where
  "for_each_program obj = filter (\<lambda>i. \<not> is_storage obj i) [0..<length (lo_programs obj)]"

definition bpf_map_iter :: "nat \<Rightarrow> libbpf_object \<Rightarrow> nat \<times> nat \<Rightarrow> int \<Rightarrow> (nat \<times> nat) option" where
  "bpf_map_iter oid obj m d =
     (let (o', i) = m; idx = int i + d
      in if lo_maps obj = [] then None
         else if o' \<noteq> oid \<or> i \<ge> length (lo_maps obj) then None
         else if idx \<ge> int (length (lo_maps obj)) \<or> idx < 0 then None
         else Some (oid, nat idx))"

text \<open>The first map of an object without maps is the array itself, which is NULL.\<close>

definition bpf_map_next :: "nat \<Rightarrow> libbpf_object \<Rightarrow> (nat \<times> nat) option \<Rightarrow> (nat \<times> nat) option" where
  "bpf_map_next oid obj prev =
     (case prev of None \<Rightarrow> if lo_maps obj = [] then None else Some (oid, 0) | Some m \<Rightarrow> bpf_map_iter oid obj m 1)"

definition bpf_map_prev :: "nat \<Rightarrow> libbpf_object \<Rightarrow> (nat \<times> nat) option \<Rightarrow> (nat \<times> nat) option" where
  "bpf_map_prev oid obj next =
     (case next of
        None \<Rightarrow> if lo_maps obj = [] then None else Some (oid, length (lo_maps obj) - 1)
      | Some m \<Rightarrow> bpf_map_iter oid obj m (- 1))"

section \<open>Finding by name\<close>

definition bpf_object_find_program_by_title :: "libbpf_object \<Rightarrow> string \<Rightarrow> nat option" where
  "bpf_object_find_program_by_title obj title =
     find (\<lambda>i. bp_section_name (lo_programs obj ! i) = title) (for_each_program obj)"

definition bpf_object_find_map_by_name :: "libbpf_object \<Rightarrow> string \<Rightarrow> nat option" where
  "bpf_object_find_map_by_name obj name = find (\<lambda>i. bm_name (lo_maps obj ! i) = name) [0..<length (lo_maps obj)]"

definition bpf_map_fd :: "libbpf_map option \<Rightarrow> int" where
  "bpf_map_fd m = (case m of None \<Rightarrow> - EINVAL | Some m \<Rightarrow> bm_fd m)"

definition bpf_object_find_map_fd_by_name :: "libbpf_object \<Rightarrow> string \<Rightarrow> int" where
  "bpf_object_find_map_fd_by_name obj name =
     bpf_map_fd (map_option (\<lambda>i. lo_maps obj ! i) (bpf_object_find_map_by_name obj name))"

section \<open>Instances\<close>

text \<open>A number of instances is an \<open>int\<close>; a missing preprocessor is \<open>None\<close>.\<close>

definition bpf_program_set_prep ::
    "bool \<Rightarrow> libbpf_program \<Rightarrow> int \<Rightarrow> (nat \<Rightarrow> bpf_insn list \<Rightarrow> int \<times> bpf_insn list) option \<Rightarrow> int \<times> libbpf_program" where
  "bpf_program_set_prep malloc_ok prog nr_instances prep =
     (if nr_instances \<le> 0 \<or> prep = None then (- EINVAL, prog)
      else if bp_nr prog > 0 \<or> bp_fds prog \<noteq> None then (- EINVAL, prog)
      else if \<not> malloc_ok then (- ENOMEM, prog)
      else (0, prog\<lparr>bp_nr := nr_instances, bp_fds := Some (replicate (nat nr_instances) (- 1)), bp_prep := prep\<rparr>))"

definition bpf_program_nth_fd :: "libbpf_program option \<Rightarrow> int \<Rightarrow> int option" where
  "bpf_program_nth_fd prog n =
     (case prog of
        None \<Rightarrow> Some (- EINVAL)
      | Some prog \<Rightarrow>
          if n \<ge> bp_nr prog \<or> n < 0 then Some (- EINVAL)
          else
            (case bp_fds prog of
               None \<Rightarrow> None
             | Some fds \<Rightarrow>
                 if nat n < length fds then Some (if fds ! nat n < 0 then - ENOENT else fds ! nat n) else None))"

definition bpf_program_fd :: "libbpf_program option \<Rightarrow> int option" where
  "bpf_program_fd prog = bpf_program_nth_fd prog 0"

section \<open>Types\<close>

definition bpf_program_set_type :: "libbpf_program \<Rightarrow> bpf_prog_type \<Rightarrow> libbpf_program" where
  "bpf_program_set_type prog t = prog\<lparr>bp_type := t\<rparr>"

definition bpf_program_set_expected_attach_type :: "libbpf_program \<Rightarrow> bpf_attach_type \<Rightarrow> libbpf_program" where
  "bpf_program_set_expected_attach_type prog t = prog\<lparr>bp_attach := t\<rparr>"

definition bpf_program_is_type :: "libbpf_program option \<Rightarrow> bpf_prog_type \<Rightarrow> bool" where
  "bpf_program_is_type prog t = (case prog of None \<Rightarrow> False | Some prog \<Rightarrow> bp_type prog = t)"

text \<open>\<open>bpf_program__set_xdp\<close> and the like, one for each type of a list.\<close>

definition type_fns :: "bpf_prog_type list" where
  "type_fns = [BPF_PROG_TYPE_SOCKET_FILTER, BPF_PROG_TYPE_KPROBE, BPF_PROG_TYPE_SCHED_CLS, BPF_PROG_TYPE_SCHED_ACT,
     BPF_PROG_TYPE_TRACEPOINT, BPF_PROG_TYPE_RAW_TRACEPOINT, BPF_PROG_TYPE_XDP, BPF_PROG_TYPE_PERF_EVENT, BPF_PROG_TYPE_TRACING]"

definition bpf_program_set_NAME :: "bpf_prog_type \<Rightarrow> libbpf_program option \<Rightarrow> int \<times> libbpf_program option" where
  "bpf_program_set_NAME t prog =
     (case prog of None \<Rightarrow> (- EINVAL, None) | Some prog \<Rightarrow> (0, Some (bpf_program_set_type prog t)))"

definition bpf_program_set_ifindex :: "libbpf_program \<Rightarrow> u32 \<Rightarrow> libbpf_program" where
  "bpf_program_set_ifindex prog ifi = prog\<lparr>bp_prog_ifindex := ifi\<rparr>"

definition bpf_map_set_ifindex :: "libbpf_map \<Rightarrow> u32 \<Rightarrow> libbpf_map" where
  "bpf_map_set_ifindex m ifi = m\<lparr>bm_map_ifindex := ifi\<rparr>"

definition bpf_program_size :: "libbpf_program \<Rightarrow> nat" where
  "bpf_program_size prog = length (bp_insns prog) * 8"

section \<open>Pinning programs\<close>

abbreviation instance_path :: "string \<Rightarrow> nat \<Rightarrow> string" where
  "instance_path path i \<equiv> path @ ''/'' @ decimal i"

definition bpf_program_pin_instance :: "'s os \<Rightarrow> libbpf_program \<Rightarrow> string \<Rightarrow> int \<Rightarrow> 's \<Rightarrow> (int \<times> 's) option" where
  "bpf_program_pin_instance os prog path instance_no s =
     (let (err, s) = make_parent_dir os path s
      in if err \<noteq> 0 then Some (err, s)
         else
           (let (err, s) = check_path os (Some path) s
            in if err \<noteq> 0 then Some (err, s)
               else if instance_no < 0 \<or> instance_no \<ge> bp_nr prog then Some (- EINVAL, s)
               else
                 (case bp_fds prog of
                    None \<Rightarrow> None
                  | Some fds \<Rightarrow>
                      if nat instance_no < length fds then
                        (let (r, s) = obj_pin_path os (fds ! nat instance_no) path s in Some (if r \<noteq> 0 then - os_errno os s else 0, s))
                      else None)))"

definition bpf_program_unpin_instance :: "'s os \<Rightarrow> libbpf_program \<Rightarrow> string \<Rightarrow> int \<Rightarrow> 's \<Rightarrow> int \<times> 's" where
  "bpf_program_unpin_instance os prog path instance_no s =
     (let (err, s) = check_path os (Some path) s
      in if err \<noteq> 0 then (err, s)
         else if instance_no < 0 \<or> instance_no \<ge> bp_nr prog then (- EINVAL, s)
         else (let (err, s) = os_unlink os path s in (if err \<noteq> 0 then - os_errno os s else 0, s)))"

text \<open>Undoing the instances before the \<open>i\<close>th, the last of them first.\<close>

fun unpin_instances_back :: "'s os \<Rightarrow> libbpf_program \<Rightarrow> string \<Rightarrow> nat \<Rightarrow> 's \<Rightarrow> 's" where
  "unpin_instances_back os prog path 0 s = s"
| "unpin_instances_back os prog path (Suc i) s =
     (let s = (if length (instance_path path i) \<ge> PATH_MAX then s
               else snd (bpf_program_unpin_instance os prog (instance_path path i) (int i) s))
      in unpin_instances_back os prog path i s)"

fun pin_instances :: "'s os \<Rightarrow> libbpf_program \<Rightarrow> string \<Rightarrow> nat \<Rightarrow> nat \<Rightarrow> 's \<Rightarrow> (int \<times> 's) option" where
  "pin_instances os prog path i 0 s = Some (0, s)"
| "pin_instances os prog path i (Suc n) s =
     (case (if length (instance_path path i) \<ge> PATH_MAX then Some (- ENAMETOOLONG, s)
            else bpf_program_pin_instance os prog (instance_path path i) (int i) s) of
        None \<Rightarrow> None
      | Some (err, s) \<Rightarrow>
          if err \<noteq> 0 then Some (err, snd (os_rmdir os path (unpin_instances_back os prog path i s)))
          else pin_instances os prog path (Suc i) n s)"

definition bpf_program_pin :: "'s os \<Rightarrow> libbpf_program \<Rightarrow> string \<Rightarrow> 's \<Rightarrow> (int \<times> 's) option" where
  "bpf_program_pin os prog path s =
     (let (err, s) = make_parent_dir os path s
      in if err \<noteq> 0 then Some (err, s)
         else
           (let (err, s) = check_path os (Some path) s
            in if err \<noteq> 0 then Some (err, s)
               else if bp_nr prog \<le> 0 then Some (- EINVAL, s)
               else if bp_nr prog = 1 then bpf_program_pin_instance os prog path 0 s
               else pin_instances os prog path 0 (nat (bp_nr prog)) s))"

fun unpin_instances :: "'s os \<Rightarrow> libbpf_program \<Rightarrow> string \<Rightarrow> nat \<Rightarrow> nat \<Rightarrow> 's \<Rightarrow> int \<times> 's" where
  "unpin_instances os prog path i 0 s = (let (err, s) = os_rmdir os path s in (if err \<noteq> 0 then - os_errno os s else 0, s))"
| "unpin_instances os prog path i (Suc n) s =
     (if length (instance_path path i) \<ge> PATH_MAX then (- ENAMETOOLONG, s)
      else
        (let (err, s) = bpf_program_unpin_instance os prog (instance_path path i) (int i) s
         in if err \<noteq> 0 then (err, s) else unpin_instances os prog path (Suc i) n s))"

definition bpf_program_unpin :: "'s os \<Rightarrow> libbpf_program \<Rightarrow> string \<Rightarrow> 's \<Rightarrow> int \<times> 's" where
  "bpf_program_unpin os prog path s =
     (let (err, s) = check_path os (Some path) s
      in if err \<noteq> 0 then (err, s)
         else if bp_nr prog \<le> 0 then (- EINVAL, s)
         else if bp_nr prog = 1 then bpf_program_unpin_instance os prog path 0 s
         else unpin_instances os prog path 0 (nat (bp_nr prog)) s)"

section \<open>Pinning objects\<close>

definition bpf_object_pin_maps :: "'s os \<Rightarrow> libbpf_object option \<Rightarrow> string option \<Rightarrow> 's \<Rightarrow> int \<times> libbpf_object option \<times> 's" where
  "bpf_object_pin_maps os obj path s =
     (case obj of
        None \<Rightarrow> (- ENOENT, None, s)
      | Some obj \<Rightarrow>
          if \<not> lo_loaded obj then (- ENOENT, Some obj, s)
          else (let (err, maps, s) = pin_maps_loop os path [] (lo_maps obj) s in (err, Some (obj\<lparr>lo_maps := maps\<rparr>), s)))"

definition bpf_object_unpin_maps :: "'s os \<Rightarrow> libbpf_object option \<Rightarrow> string option \<Rightarrow> 's \<Rightarrow> int \<times> libbpf_object option \<times> 's" where
  "bpf_object_unpin_maps os obj path s =
     (case obj of
        None \<Rightarrow> (- ENOENT, None, s)
      | Some obj \<Rightarrow> (let (err, maps, s) = unpin_maps_loop os path (lo_maps obj) s in (err, Some (obj\<lparr>lo_maps := maps\<rparr>), s)))"

abbreviation program_path :: "string \<Rightarrow> libbpf_program \<Rightarrow> string" where
  "program_path path prog \<equiv> path @ ''/'' @ bp_pin_name prog"

text \<open>\<open>done\<close> are the programs before the current one, the last of them first.\<close>

fun unpin_programs_back :: "'s os \<Rightarrow> string \<Rightarrow> libbpf_program list \<Rightarrow> 's \<Rightarrow> 's" where
  "unpin_programs_back os path [] s = s"
| "unpin_programs_back os path (prog # progs) s =
     unpin_programs_back os path progs
       (if length (program_path path prog) \<ge> PATH_MAX then s else snd (bpf_program_unpin os prog (program_path path prog) s))"

fun pin_programs_loop :: "'s os \<Rightarrow> string \<Rightarrow> libbpf_program list \<Rightarrow> libbpf_program list \<Rightarrow> 's \<Rightarrow> (int \<times> 's) option" where
  "pin_programs_loop os path done [] s = Some (0, s)"
| "pin_programs_loop os path done (prog # progs) s =
     (case (if length (program_path path prog) \<ge> PATH_MAX then Some (- ENAMETOOLONG, s)
            else bpf_program_pin os prog (program_path path prog) s) of
        None \<Rightarrow> None
      | Some (err, s) \<Rightarrow>
          if err \<noteq> 0 then Some (err, unpin_programs_back os path done s)
          else pin_programs_loop os path (prog # done) progs s)"

definition each_program :: "libbpf_object \<Rightarrow> libbpf_program list" where
  "each_program obj = map (\<lambda>i. lo_programs obj ! i) (for_each_program obj)"

definition bpf_object_pin_programs :: "'s os \<Rightarrow> libbpf_object option \<Rightarrow> string \<Rightarrow> 's \<Rightarrow> (int \<times> 's) option" where
  "bpf_object_pin_programs os obj path s =
     (case obj of
        None \<Rightarrow> Some (- ENOENT, s)
      | Some obj \<Rightarrow> if \<not> lo_loaded obj then Some (- ENOENT, s) else pin_programs_loop os path [] (each_program obj) s)"

fun unpin_programs_loop :: "'s os \<Rightarrow> string \<Rightarrow> libbpf_program list \<Rightarrow> 's \<Rightarrow> int \<times> 's" where
  "unpin_programs_loop os path [] s = (0, s)"
| "unpin_programs_loop os path (prog # progs) s =
     (if length (program_path path prog) \<ge> PATH_MAX then (- ENAMETOOLONG, s)
      else
        (let (err, s) = bpf_program_unpin os prog (program_path path prog) s
         in if err \<noteq> 0 then (err, s) else unpin_programs_loop os path progs s))"

definition bpf_object_unpin_programs :: "'s os \<Rightarrow> libbpf_object option \<Rightarrow> string \<Rightarrow> 's \<Rightarrow> int \<times> 's" where
  "bpf_object_unpin_programs os obj path s =
     (case obj of None \<Rightarrow> (- ENOENT, s) | Some obj \<Rightarrow> unpin_programs_loop os path (each_program obj) s)"

definition bpf_object_pin :: "'s os \<Rightarrow> libbpf_object option \<Rightarrow> string \<Rightarrow> 's \<Rightarrow> (int \<times> libbpf_object option \<times> 's) option" where
  "bpf_object_pin os obj path s =
     (let (err, obj, s) = bpf_object_pin_maps os obj (Some path) s
      in if err \<noteq> 0 then Some (err, obj, s)
         else
           (case bpf_object_pin_programs os obj path s of
              None \<Rightarrow> None
            | Some (err, s) \<Rightarrow>
                if err \<noteq> 0 then (let (_, obj, s) = bpf_object_unpin_maps os obj (Some path) s in Some (err, obj, s))
                else Some (0, obj, s)))"

section \<open>Closing and loading with a type\<close>

text \<open>\<open>btf__free\<close> closes the descriptor of the object's BTF.\<close>

definition btf_free :: "'s os \<Rightarrow> btf_handle option \<Rightarrow> 's \<Rightarrow> 's" where
  "btf_free os btf s = (case btf of None \<Rightarrow> s | Some btf \<Rightarrow> if bt_fd btf \<noteq> - 1 then snd (os_close os (bt_fd btf) s) else s)"

fun exit_progs :: "'s os \<Rightarrow> libbpf_program list \<Rightarrow> 's \<Rightarrow> 's option" where
  "exit_progs os [] s = Some s"
| "exit_progs os (prog # progs) s =
     (case bpf_program_exit os prog s of None \<Rightarrow> None | Some (_, s) \<Rightarrow> exit_progs os progs s)"

definition bpf_object_close :: "'s os \<Rightarrow> libbpf_object option \<Rightarrow> 's \<Rightarrow> 's option" where
  "bpf_object_close os obj s =
     (case obj of
        None \<Rightarrow> Some s
      | Some obj \<Rightarrow>
          (case bpf_object_unload os obj s of
             None \<Rightarrow> None
           | Some (obj, s) \<Rightarrow> exit_progs os (lo_programs obj) (btf_free os (lo_btf obj) s)))"

record prog_load_opts =
  po_file :: "string option"
  po_prog_type :: bpf_prog_type
  po_attach :: bpf_attach_type
  po_ifindex :: i32
  po_log_level :: u32
  po_prog_flags :: u32

definition set_load_opts :: "prog_load_opts \<Rightarrow> libbpf_program \<Rightarrow> libbpf_program" where
  "set_load_opts at prog =
     (if po_prog_type at \<noteq> BPF_PROG_TYPE_UNSPEC
      then bpf_program_set_expected_attach_type (bpf_program_set_type prog (po_prog_type at)) (po_attach at) else prog)"

text \<open>The loop over the programs: \<open>None\<close> when one of them has no type.\<close>

fun set_progs_opts :: "prog_load_opts \<Rightarrow> nat list \<Rightarrow> libbpf_program list \<Rightarrow> libbpf_program list option" where
  "set_progs_opts at [] progs = Some progs"
| "set_progs_opts at (i # is) progs =
     (let prog = set_load_opts at (progs ! i)
      in if bp_type prog = BPF_PROG_TYPE_UNSPEC then None
         else set_progs_opts at is
                (progs[i := prog\<lparr>bp_prog_ifindex := po_ifindex at, bp_log_level := po_log_level at, bp_prog_flags := po_prog_flags at\<rparr>]))"

definition set_maps_opts :: "prog_load_opts \<Rightarrow> libbpf_map list \<Rightarrow> libbpf_map list" where
  "set_maps_opts at = map (\<lambda>m. if \<not> bpf_map_is_offload_neutral m then bpf_map_set_ifindex m (po_ifindex at) else m)"

text \<open>
  \<open>opn\<close> is \<open>bpf_object__open_xattr\<close>: an object, or \<open>None\<close> for an error.  The result is the returned
  number and what is written through \<open>pobj\<close> and \<open>prog_fd\<close>.
\<close>

definition bpf_prog_load_xattr ::
    "'s load_env \<Rightarrow> (string \<Rightarrow> 's \<Rightarrow> libbpf_object option \<times> 's) \<Rightarrow> prog_load_opts option \<Rightarrow> i32 \<Rightarrow> 's \<Rightarrow>
     (int \<times> (libbpf_object \<times> int) option \<times> i32 \<times> 's) option" where
  "bpf_prog_load_xattr E opn at cpus s =
     (case at of
        None \<Rightarrow> Some (- EINVAL, None, cpus, s)
      | Some at \<Rightarrow>
          (case po_file at of
             None \<Rightarrow> Some (- EINVAL, None, cpus, s)
           | Some path \<Rightarrow>
               (case opn path s of
                  (None, s) \<Rightarrow> Some (- ENOENT, None, cpus, s)
                | (Some obj, s) \<Rightarrow>
                    (case set_progs_opts at (for_each_program obj) (lo_programs obj) of
                       None \<Rightarrow> map_option (\<lambda>s. (- EINVAL, None, cpus, s)) (bpf_object_close (le_os E) (Some obj) s)
                     | Some progs \<Rightarrow>
                         (let obj = obj\<lparr>lo_programs := progs, lo_maps := set_maps_opts at (lo_maps obj)\<rparr>
                          in case for_each_program obj of
                               [] \<Rightarrow> map_option (\<lambda>s. (- ENOENT, None, cpus, s)) (bpf_object_close (le_os E) (Some obj) s)
                             | first_prog # _ \<Rightarrow>
                                 (case bpf_object_load E obj cpus s of
                                    None \<Rightarrow> None
                                  | Some (err, obj, cpus, s) \<Rightarrow>
                                      if err \<noteq> 0 then map_option (\<lambda>s. (- EINVAL, None, cpus, s)) (bpf_object_close (le_os E) (Some obj) s)
                                      else map_option (\<lambda>fd. (0, Some (obj, fd), cpus, s))
                                             (bpf_program_fd (Some (lo_programs obj ! first_prog)))))))))"

definition bpf_prog_load ::
    "'s load_env \<Rightarrow> (string \<Rightarrow> 's \<Rightarrow> libbpf_object option \<times> 's) \<Rightarrow> string option \<Rightarrow> bpf_prog_type \<Rightarrow> i32 \<Rightarrow> 's \<Rightarrow>
     (int \<times> (libbpf_object \<times> int) option \<times> i32 \<times> 's) option" where
  "bpf_prog_load E opn path type cpus s =
     bpf_prog_load_xattr E opn
       (Some \<lparr>po_file = path, po_prog_type = type, po_attach = no_attach_type, po_ifindex = 0, po_log_level = 0, po_prog_flags = 0\<rparr>) cpus s"

section \<open>The order of programs\<close>

lemma iter_result:
  assumes "i < length (lo_programs obj)"
  shows "bpf_program_iter oid obj (Some (oid, i)) True = (if Suc i < length (lo_programs obj) then Some (oid, Suc i) else None)"
    "bpf_program_iter oid obj (Some (oid, i)) False = (if i = 0 then None else Some (oid, i - 1))"
  using assms by (auto simp: bpf_program_iter_def Let_def nat_diff_distrib)

lemma iter_first:
  "lo_programs obj \<noteq> [] \<Longrightarrow> bpf_program_iter oid obj None True = Some (oid, 0)"
  "lo_programs obj \<noteq> [] \<Longrightarrow> bpf_program_iter oid obj None False = Some (oid, length (lo_programs obj) - 1)"
  by (simp_all add: bpf_program_iter_def)

text \<open>The first program that is not a store of subprograms, from the \<open>i\<close>th on and below the \<open>i\<close>th.\<close>

definition first_from :: "libbpf_object \<Rightarrow> nat \<Rightarrow> nat option" where
  "first_from obj i = find (\<lambda>j. \<not> is_storage obj j) [i..<length (lo_programs obj)]"

definition last_below :: "libbpf_object \<Rightarrow> nat \<Rightarrow> nat option" where
  "last_below obj i = find (\<lambda>j. \<not> is_storage obj j) (rev [0..<i])"

lemma first_from_step:
  "first_from obj i = (if i < length (lo_programs obj) then if is_storage obj i then first_from obj (Suc i) else Some i else None)"
  by (simp add: first_from_def upt_rec [of i])

lemma last_below_step: "last_below obj (Suc i) = (if is_storage obj i then last_below obj i else Some i)"
  by (simp add: last_below_def)

lemma next_after:
  "i < length (lo_programs obj) \<Longrightarrow> bpf_program_next oid obj (Some (oid, i)) = map_option (Pair oid) (first_from obj (Suc i))"
proof (induction "length (lo_programs obj) - i" arbitrary: i rule: less_induct)
  case less
  show ?case
    using less.hyps [of "Suc i"] less.prems
    by (subst bpf_program_next.simps, subst first_from_step) (auto simp: iter_result)
qed

lemma next_start: "bpf_program_next oid obj None = map_option (Pair oid) (first_from obj 0)"
proof (cases "lo_programs obj = []")
  case True
  then show ?thesis by (subst bpf_program_next.simps) (simp add: bpf_program_iter_def first_from_def)
next
  case False
  then show ?thesis using next_after [of 0 obj oid]
    by (subst bpf_program_next.simps, subst first_from_step) (simp add: iter_first)
qed

lemma prev_before:
  "i < length (lo_programs obj) \<Longrightarrow> bpf_program_prev oid obj (Some (oid, i)) = map_option (Pair oid) (last_below obj i)"
proof (induction i)
  case 0
  then show ?case by (subst bpf_program_prev.simps) (simp add: iter_result last_below_def)
next
  case (Suc i)
  then show ?case by (subst bpf_program_prev.simps) (simp add: iter_result last_below_step)
qed

lemma prev_start: "bpf_program_prev oid obj None = map_option (Pair oid) (last_below obj (length (lo_programs obj)))"
proof (cases "length (lo_programs obj)")
  case 0
  then show ?thesis by (subst bpf_program_prev.simps) (simp add: bpf_program_iter_def last_below_def)
next
  case (Suc n)
  then have "lo_programs obj \<noteq> []" by auto
  then show ?thesis using prev_before [of n obj oid] Suc
    by (subst bpf_program_prev.simps) (simp add: iter_first last_below_step)
qed

text \<open>The walk that the loop macros make: from a start, until there is no next.\<close>

inductive walk :: "('a option \<Rightarrow> 'a option) \<Rightarrow> 'a option \<Rightarrow> 'a list \<Rightarrow> bool" for f where
  stop: "f p = None \<Longrightarrow> walk f p []"
| step: "f p = Some q \<Longrightarrow> walk f (Some q) qs \<Longrightarrow> walk f p (q # qs)"

inductive_cases walkE: "walk f p qs"

lemma walk_unique: "walk f p qs \<Longrightarrow> walk f p rs \<Longrightarrow> qs = rs"
proof (induction arbitrary: rs rule: walk.induct)
  case (stop p)
  then show ?case by (auto elim: walkE)
next
  case (step p q qs)
  from step.prems show ?case using step.hyps(1) step.IH by (cases rule: walk.cases) auto
qed

lemma find_filter: "find P xs = (case filter P xs of [] \<Rightarrow> None | x # _ \<Rightarrow> Some x)"
  by (induction xs) auto

lemma walk_next:
  assumes "bpf_program_next oid obj p = map_option (Pair oid) (first_from obj i)"
  shows "walk (bpf_program_next oid obj) p (map (Pair oid) (filter (\<lambda>j. \<not> is_storage obj j) [i..<length (lo_programs obj)]))"
  using assms
proof (induction "length (lo_programs obj) - i" arbitrary: p i rule: less_induct)
  case less
  show ?case
  proof (cases "first_from obj i")
    case None
    then have "filter (\<lambda>j. \<not> is_storage obj j) [i..<length (lo_programs obj)] = []"
      by (simp add: first_from_def find_filter split: list.splits)
    then show ?thesis using less.prems None by (auto intro: walk.stop)
  next
    case (Some j)
    then have j: "i \<le> j" "j < length (lo_programs obj)" "\<not> is_storage obj j" "\<forall>k. i \<le> k \<and> k < j \<longrightarrow> is_storage obj k"
      by (auto simp: first_from_def find_Some_iff nth_append) (metis add_diff_inverse_nat le_add_diff_inverse less_diff_conv2 not_le nat_add_left_cancel_less)
    have "[i..<length (lo_programs obj)] = [i..<j] @ j # [Suc j..<length (lo_programs obj)]"
      using j by (metis less_imp_le upt_add_eq_append upt_conv_Cons le_add_diff_inverse)
    then have f: "filter (\<lambda>j. \<not> is_storage obj j) [i..<length (lo_programs obj)] =
        j # filter (\<lambda>j. \<not> is_storage obj j) [Suc j..<length (lo_programs obj)]" using j by simp
    have "walk (bpf_program_next oid obj) (Some (oid, j)) (map (Pair oid) (filter (\<lambda>j. \<not> is_storage obj j) [Suc j..<length (lo_programs obj)]))"
      using less.hyps [OF _ next_after] j by simp
    then show ?thesis using less.prems Some f by (auto intro: walk.step)
  qed
qed

lemma walk_prev:
  assumes "bpf_program_prev oid obj p = map_option (Pair oid) (last_below obj i)" "i \<le> length (lo_programs obj)"
  shows "walk (bpf_program_prev oid obj) p (map (Pair oid) (rev (filter (\<lambda>j. \<not> is_storage obj j) [0..<i])))"
  using assms
proof (induction i arbitrary: p)
  case 0
  then show ?case by (auto simp: last_below_def intro: walk.stop)
next
  case (Suc i)
  have "i < length (lo_programs obj)" using Suc.prems by simp
  then show ?case using Suc.IH [of p] Suc.IH [OF prev_before] Suc.prems
    by (auto simp: last_below_step intro: walk.step split: if_splits)
qed

text \<open>
  the iterators visit every program once.  From the start, \<open>bpf_program__next\<close> visits exactly the programs
  of the object that are not a store of subprograms, in order, and \<open>bpf_program__prev\<close> visits the
  same ones backwards; both end.
\<close>

theorem program_iteration_order:
  "(walk (bpf_program_next oid obj) None ps \<longleftrightarrow> ps = map (Pair oid) (for_each_program obj)) \<and>
   (walk (bpf_program_prev oid obj) None ps \<longleftrightarrow> ps = map (Pair oid) (rev (for_each_program obj)))"
  using walk_next [OF next_start] walk_prev [OF prev_start] walk_unique
  unfolding for_each_program_def by blast

section \<open>The life of a program\<close>

text \<open>What a caller does with a program of an object, in any order.\<close>

inductive prog_step :: "'s load_env \<Rightarrow> libbpf_object \<Rightarrow> libbpf_program \<times> 's \<Rightarrow> libbpf_program \<times> 's \<Rightarrow> bool" for E obj where
  set_prep: "bpf_program_set_prep ok p n prep = (err, p') \<Longrightarrow> prog_step E obj (p, s) (p', s)"
| load: "bpf_program_load E obj p license kern_version s = Some (err, p', s') \<Longrightarrow> prog_step E obj (p, s) (p', s')"
| unload: "bpf_program_unload (le_os E) p s = Some (p', s') \<Longrightarrow> prog_step E obj (p, s) (p', s')"
| set_type: "prog_step E obj (p, s) (bpf_program_set_type p t, s)"
| set_attach: "prog_step E obj (p, s) (bpf_program_set_expected_attach_type p at, s)"

inductive_cases prog_stepE: "prog_step E obj (p, s) (p', s')"

lemma load_instances_length:
  "load_instances E obj prep lic kv i n p fds s = Some (err, fds', s') \<Longrightarrow> length fds' = length fds"
  by (induction n arbitrary: i fds s) (auto simp: Let_def split: prod.splits option.splits if_splits)

lemma load_single_length: "load_single E obj lic kv p fds s = Some (err, fds', s') \<Longrightarrow> length fds' = length fds"
  by (auto simp: load_single_def split: option.splits if_splits)

lemma ready_ok:
  "inst_ok p \<Longrightarrow> instances_ready os p s = (Inr (p', fds), s') \<Longrightarrow> bp_fds p' = Some fds \<and> fds \<noteq> [] \<and> bp_nr p' = int (length fds)"
  by (auto simp: instances_ready_def inst_ok_def split: option.splits if_splits prod.splits)

lemma ready_error: "inst_ok p \<Longrightarrow> instances_ready os p s = (Inl err, s') \<Longrightarrow> bp_fds p = None"
  by (auto simp: instances_ready_def inst_ok_def split: option.splits if_splits prod.splits)

lemma load_ok:
  assumes "inst_ok p" "bpf_program_load E obj p lic kv s = Some (err, p', s')"
  shows "inst_ok p'"
proof -
  obtain r s1 where r: "instances_ready (le_os E) p s = (r, s1)" by force
  show ?thesis
  proof (cases r)
    case (Inl e)
    then have "bp_fds p = None" using ready_error [OF assms(1), of "le_os E" s e s1] r by simp
    moreover from this have "bp_nr p = - 1" using assms(1) by (simp add: inst_ok_def)
    ultimately show ?thesis using assms(2) r Inl by (auto simp: bpf_program_load_def inst_ok_def)
  next
    case (Inr q)
    then show ?thesis using assms r ready_ok [OF assms(1), of "le_os E" s "fst q" "snd q" s1]
      by (cases q) (auto simp: bpf_program_load_def inst_ok_def split: option.splits dest!: load_instances_length load_single_length)
  qed
qed

lemma prog_step_ok: "prog_step E obj (p, s) (p', s') \<Longrightarrow> inst_ok p \<Longrightarrow> inst_ok p'"
  by (erule prog_stepE)
    (auto simp: load_ok, auto simp: inst_ok_def bpf_program_set_prep_def bpf_program_unload_def bpf_program_set_type_def
      bpf_program_set_expected_attach_type_def Let_def split: if_splits option.splits)

lemma prog_steps_ok: "(prog_step E obj)\<^sup>*\<^sup>* x y \<Longrightarrow> inst_ok (fst x) \<Longrightarrow> inst_ok (fst y)"
proof (induction rule: rtranclp_induct)
  case (step y z)
  then show ?case using prog_step_ok by (cases y; cases z) auto
qed simp

lemma init_ok: "bpf_program_init mallocs data sec idx = Inr p \<Longrightarrow> inst_ok p"
  by (auto simp: bpf_program_init_def inst_ok_def split: if_splits prod.splits)

lemma ok_defined:
  assumes "inst_ok p"
  shows "bpf_program_nth_fd (Some p) n \<noteq> None" "bpf_program_unload os p s \<noteq> None" "bpf_program_pin_instance os p path n s \<noteq> None"
  using assms
  by (auto simp: inst_ok_def bpf_program_nth_fd_def bpf_program_unload_def bpf_program_pin_instance_def Let_def split: option.splits prod.splits)

lemma pin_instances_defined: "inst_ok p \<Longrightarrow> pin_instances os p path i n s \<noteq> None"
  by (induction n arbitrary: i s) (auto simp: ok_defined split: option.splits)

lemma pin_defined: "inst_ok p \<Longrightarrow> bpf_program_pin os p path s \<noteq> None"
  unfolding bpf_program_pin_def Let_def
  by (auto split: prod.splits simp: not_None_eq [symmetric] ok_defined pin_instances_defined simp del: not_None_eq)

text \<open>
  C27: the array of instances has its length.  Whatever a caller does with a program after it was set up
  from its section (preprocessors, loads that succeed or fail, unloads), the array of descriptors
  exists exactly when the number of instances is positive and has that many places.  So no operation on
  instances reads outside of it.
\<close>

theorem program_instances_typed:
  assumes "bpf_program_init mallocs data section_name idx = Inr p" "(prog_step E obj)\<^sup>*\<^sup>* (p, s) (q, s')"
  shows "inst_ok q \<and> bpf_program_nth_fd (Some q) n \<noteq> None \<and> bpf_program_unload os q t \<noteq> None \<and> bpf_program_pin os q path t \<noteq> None"
proof -
  have "inst_ok q" using prog_steps_ok [OF assms(2)] init_ok [OF assms(1)] by simp
  then show ?thesis by (simp only: ok_defined pin_defined not_False_eq_True simp_thms)
qed

theorem program_instances_typed_witness:
  "\<exists>p q. bpf_program_init (True, True, True) (replicate 8 0) ''xdp'' 3 = Inr p \<and>
     prog_step sample_load_env sample_object (p, sample_sys_state) (q, sample_sys_state) \<and> bp_nr q = 2 \<and> bpf_program_nth_fd (Some q) 1 \<noteq> None"
proof -
  obtain p where p: "bpf_program_init (True, True, True) (replicate 8 0) ''xdp'' 3 = Inr p" "bp_nr p = - 1" "bp_fds p = None"
    by (simp add: bpf_program_init_def)
  obtain q where q: "bpf_program_set_prep True p 2 (Some (\<lambda>_ insns. (0, insns))) = (0, q)" "bp_nr q = 2"
    using p by (simp add: bpf_program_set_prep_def)
  have st: "prog_step sample_load_env sample_object (p, sample_sys_state) (q, sample_sys_state)" using q by (auto intro: prog_step.set_prep)
  have "bpf_program_nth_fd (Some q) 1 \<noteq> None"
    using program_instances_typed [OF p(1) r_into_rtranclp [of "prog_step _ _", OF st], of 1 sample_os sample_sys_state "''p''"] by blast
  then show ?thesis using p(1) q(2) st by blast
qed

section \<open>Loading with a type\<close>

lemma set_progs_keeps:
  assumes "set_progs_opts at is ps = Some ps'"
  shows "length ps' = length ps \<and> (\<forall>j<length ps. bp_fds (ps' ! j) = bp_fds (ps ! j) \<and> bp_nr (ps' ! j) = bp_nr (ps ! j) \<and>
    bp_prep (ps' ! j) = bp_prep (ps ! j) \<and> bp_idx (ps' ! j) = bp_idx (ps ! j) \<and>
    bp_log_level (ps' ! j) \<in> {bp_log_level (ps ! j), po_log_level at})"
  using assms
proof (induction "is" arbitrary: ps)
  case (Cons i "is")
  let ?p = "(set_load_opts at (ps ! i))\<lparr>bp_prog_ifindex := po_ifindex at, bp_log_level := po_log_level at, bp_prog_flags := po_prog_flags at\<rparr>"
  have s: "set_progs_opts at is (ps[i := ?p]) = Some ps'" using Cons.prems by (auto simp: Let_def split: if_splits)
  have k: "bp_fds ?p = bp_fds (ps ! i)" "bp_nr ?p = bp_nr (ps ! i)" "bp_prep ?p = bp_prep (ps ! i)" "bp_idx ?p = bp_idx (ps ! i)"
    by (simp_all add: set_load_opts_def bpf_program_set_type_def bpf_program_set_expected_attach_type_def)
  show ?case
  proof (intro conjI allI impI)
    show "length ps' = length ps" using Cons.IH [OF s] by simp
    fix j assume j: "j < length ps"
    note IH = Cons.IH [OF s]
    show "bp_fds (ps' ! j) = bp_fds (ps ! j)" "bp_nr (ps' ! j) = bp_nr (ps ! j)" "bp_prep (ps' ! j) = bp_prep (ps ! j)"
      "bp_idx (ps' ! j) = bp_idx (ps ! j)"
      using IH j k by (cases "i = j"; auto simp: nth_list_update)+
    show "bp_log_level (ps' ! j) \<in> {bp_log_level (ps ! j), po_log_level at}"
      using IH j by (cases "i = j") (auto simp: nth_list_update)
  qed
qed simp

text \<open>
  What a caller asks for: the type and the attach type of the options when they name a type, those
  guessed from the section otherwise; the device and the flags of the options.
\<close>

definition asked_type :: "prog_load_opts \<Rightarrow> libbpf_program \<Rightarrow> bpf_prog_type" where
  "asked_type at p = (if po_prog_type at = BPF_PROG_TYPE_UNSPEC then bp_type p else po_prog_type at)"

definition asked_kind :: "prog_load_opts \<Rightarrow> libbpf_program \<Rightarrow> bpf_prog_type \<times> bpf_attach_type \<times> i32 \<times> u32" where
  "asked_kind at p = (asked_type at p, if po_prog_type at = BPF_PROG_TYPE_UNSPEC then bp_attach p else po_attach at, po_ifindex at, po_prog_flags at)"

lemma set_load_opts_type:
  "bp_type (set_load_opts at p) = asked_type at p"
  "load_kind ((set_load_opts at p)\<lparr>bp_prog_ifindex := po_ifindex at, bp_log_level := l, bp_prog_flags := po_prog_flags at\<rparr>) = asked_kind at p"
  by (simp_all add: set_load_opts_def asked_type_def asked_kind_def load_kind_def bpf_program_set_type_def bpf_program_set_expected_attach_type_def)

lemma set_progs_result:
  assumes "distinct is" "set is \<subseteq> {..<length ps}"
  shows "case set_progs_opts at is ps of
      None \<Rightarrow> \<exists>i\<in>set is. asked_type at (ps ! i) = BPF_PROG_TYPE_UNSPEC
    | Some ps' \<Rightarrow> \<forall>i<length ps. if i \<in> set is then asked_type at (ps ! i) \<noteq> BPF_PROG_TYPE_UNSPEC \<and> load_kind (ps' ! i) = asked_kind at (ps ! i)
                               else ps' ! i = ps ! i"
  using assms
proof (induction "is" arbitrary: ps)
  case (Cons i "is")
  let ?p = "(set_load_opts at (ps ! i))\<lparr>bp_prog_ifindex := po_ifindex at, bp_log_level := po_log_level at, bp_prog_flags := po_prog_flags at\<rparr>"
  have i: "i \<notin> set is" "i < length ps" using Cons.prems by auto
  have other: "ps[i := ?p] ! j = ps ! j" if "j \<in> set is" for j using that i by (auto simp: nth_list_update)
  show ?case
  proof (cases "asked_type at (ps ! i) = BPF_PROG_TYPE_UNSPEC")
    case True
    then show ?thesis by (simp add: set_load_opts_type)
  next
    case False
    then have s: "set_progs_opts at (i # is) ps = set_progs_opts at is (ps[i := ?p])" by (simp add: set_load_opts_type Let_def)
    have IH: "case set_progs_opts at is (ps[i := ?p]) of
        None \<Rightarrow> \<exists>j\<in>set is. asked_type at (ps[i := ?p] ! j) = BPF_PROG_TYPE_UNSPEC
      | Some ps' \<Rightarrow> \<forall>j<length ps. if j \<in> set is
          then asked_type at (ps[i := ?p] ! j) \<noteq> BPF_PROG_TYPE_UNSPEC \<and> load_kind (ps' ! j) = asked_kind at (ps[i := ?p] ! j)
          else ps' ! j = ps[i := ?p] ! j"
      using Cons.IH [of "ps[i := ?p]"] Cons.prems by (simp only: length_list_update distinct.simps list.set insert_subset simp_thms)
    show ?thesis
    proof (cases "set_progs_opts at is (ps[i := ?p])")
      case None
      then show ?thesis using IH s other by auto
    next
      case (Some ps')
      have "ps' ! i = ?p" using IH Some i by simp
      then have "load_kind (ps' ! i) = asked_kind at (ps ! i)" by (simp add: set_load_opts_type)
      moreover have "ps' ! j = ps ! j" if "j < length ps" "j \<noteq> i" "j \<notin> set is" for j using IH Some that by (simp split: if_splits)
      moreover have "asked_type at (ps ! j) \<noteq> BPF_PROG_TYPE_UNSPEC \<and> load_kind (ps' ! j) = asked_kind at (ps ! j)"
        if "j < length ps" "j \<in> set is" for j
      proof -
        have "\<forall>j<length ps. j \<in> set is \<longrightarrow> asked_type at (ps[i := ?p] ! j) \<noteq> BPF_PROG_TYPE_UNSPEC \<and> load_kind (ps' ! j) = asked_kind at (ps[i := ?p] ! j)"
          using IH unfolding Some option.case by presburger
        then show ?thesis using that other [OF that(2)] by metis
      qed
      ultimately show ?thesis using s Some False i by simp
    qed
  qed
qed simp

lemma for_each_places: "distinct (for_each_program obj)" "set (for_each_program obj) \<subseteq> {..<length (lo_programs obj)}"
  by (auto simp: for_each_program_def)

lemma opts_can_load:
  assumes "set_progs_opts at is (lo_programs obj) = Some ps" "can_load 0 obj" "po_log_level at \<le> 7"
  shows "can_load 0 (obj\<lparr>lo_programs := ps, lo_maps := set_maps_opts at (lo_maps obj)\<rparr>)"
proof -
  note k = set_progs_keeps [OF assms(1)]
  have "fresh p \<and> bp_log_level p \<le> 7" if p: "p \<in> set ps" for p
  proof -
    obtain j where j: "j < length ps" "p = ps ! j" using p by (auto simp: in_set_conv_nth)
    have q: "fresh (lo_programs obj ! j)" "bp_log_level (lo_programs obj ! j) \<le> 7" using assms(2) j k by (auto simp: can_load_def)
    have e: "bp_fds p = bp_fds (lo_programs obj ! j)" "bp_nr p = bp_nr (lo_programs obj ! j)"
      "bp_log_level p \<in> {bp_log_level (lo_programs obj ! j), po_log_level at}" using j k by auto
    show ?thesis using q e assms(3) by (auto simp: fresh_def inst_ok_def split: option.splits)
  qed
  then show ?thesis using assms(2) by (auto simp: can_load_def set_maps_opts_def bpf_map_set_ifindex_def)
qed

lemma exit_progs_none: "\<forall>p\<in>set ps. bp_fds p = None \<and> bp_nr p = - 1 \<Longrightarrow> exit_progs os ps s = Some s"
  by (induction ps) (auto simp: bpf_program_exit_def bpf_program_unload_def)

context libbpf_loader
begin

text \<open>Closing gives back the descriptors of an object without BTF.\<close>

lemma object_close_result:
  assumes "\<forall>p\<in>set (lo_programs obj). inst_ok p" "owns fdv F (held (lo_maps obj) @ progs_held (lo_programs obj)) s" "lo_btf obj = None"
  shows "\<exists>s'. bpf_object_close (le_os E) (Some obj) s = Some s' \<and> fdv s' = F \<and> pinv s' = pinv s"
proof -
  obtain obj' s' where u: "bpf_object_unload (le_os E) obj s = Some (obj', s')" "fdv s' = F" "pinv s' = pinv s"
      "\<forall>p\<in>set (lo_programs obj'). bp_fds p = None \<and> bp_nr p = - 1"
    using object_unload_result [OF assms(1,2)] by blast
  have "lo_btf obj' = None" using u(1) assms(3) by (auto simp: bpf_object_unload_def split: prod.splits)
  then show ?thesis using u exit_progs_none [OF u(4), of "le_os E" s'] by (simp add: bpf_object_close_def btf_free_def)
qed

lemma can_load_owns:
  assumes "can_load ll obj"
  shows "\<forall>p\<in>set (lo_programs obj). inst_ok p" "held (lo_maps obj) = []" "progs_held (lo_programs obj) = []"
proof -
  show "\<forall>p\<in>set (lo_programs obj). inst_ok p" using assms by (auto simp: can_load_def fresh_def)
  show "held (lo_maps obj) = []" using assms by (auto simp: can_load_def held_def filter_empty_conv not_le)
  have "prog_held p = []" if "p \<in> set (lo_programs obj)" for p
    using that assms by (auto simp: can_load_def fresh_def prog_held_def live_def filter_empty_conv not_le split: option.split)
  then show "progs_held (lo_programs obj) = []" by (auto simp: progs_held_def)
qed

lemma load_xattr_btf: "bpf_object_load_xattr E ll obj c s = Some (err, obj', c', s') \<Longrightarrow> lo_btf obj' = lo_btf obj"
  by (auto simp: bpf_object_load_xattr_def load_steps_def bpf_object_unload_def Let_def split: if_splits prod.splits option.splits)

text \<open>The first program of the walk stays the first.\<close>

lemma for_each_opts:
  assumes "set_progs_opts at is (lo_programs obj) = Some ps"
  shows "for_each_program (obj\<lparr>lo_programs := ps, lo_maps := ms\<rparr>) = for_each_program obj"
  using set_progs_keeps [OF assms]
  by (auto simp: for_each_program_def bpf_program_is_function_storage_def intro!: filter_cong)

lemma prog_load_result:
  assumes "bpf_prog_load_xattr E opn (Some at) c s = Some (ret, out, c', s')" "po_file at = Some path" "opn path s = (Some obj, s0)"
    "keeps fdv pinv s s0" "can_load 0 obj" "\<not> lo_loaded obj" "lo_btf obj = None" "po_log_level at \<le> 7"
    "\<forall>p\<in>set (lo_programs obj). bp_prep p = None"
  shows "pinv s' = pinv s \<and>
    (case out of
       None \<Rightarrow> fdv s' = fdv s \<and>
         ret = (if \<exists>i\<in>set (for_each_program obj). asked_type at (lo_programs obj ! i) = BPF_PROG_TYPE_UNSPEC then - EINVAL
                else if for_each_program obj = [] then - ENOENT else - EINVAL)
     | Some (obj', fd) \<Rightarrow> ret = 0 \<and>
         (\<exists>first others. for_each_program obj = first # others \<and> bpf_program_fd (Some (lo_programs obj' ! first)) = Some fd) \<and>
         (\<forall>i\<in>set (for_each_program obj). asked_type at (lo_programs obj ! i) \<noteq> BPF_PROG_TYPE_UNSPEC \<and>
            load_kind (lo_programs obj' ! i) = asked_kind at (lo_programs obj ! i) \<and>
            (\<exists>fd insns. bpf_program_fd (Some (lo_programs obj' ! i)) = Some fd \<and> loaded_as E (lo_programs obj' ! i) insns fd)) \<and>
         fdv s fd = None \<and> fdv s' fd \<noteq> None \<and>
         owns fdv (fdv s) (map bm_fd (lo_maps obj') @ progs_held (lo_programs obj')) s')"
proof -
  have eq: "fdv s0 = fdv s" "pinv s0 = pinv s" using assms(4) by (auto simp: keeps_def)
  have closes: "\<exists>s1. bpf_object_close (le_os E) (Some ob) s0 = Some s1 \<and> fdv s1 = fdv s \<and> pinv s1 = pinv s"
    if "can_load 0 ob" "lo_btf ob = None" for ob
    using object_close_result [of ob "fdv s" s0] can_load_owns [OF that(1)] that(2) eq by (auto simp: owns_nil)
  note opts = set_progs_result [OF for_each_places, of obj at]
  show ?thesis
  proof (cases "set_progs_opts at (for_each_program obj) (lo_programs obj)")
    case None
    then show ?thesis using assms(1-3,5,7) closes [of obj] opts by (auto simp: bpf_prog_load_xattr_def)
  next
    case (Some ps)
    let ?obj = "obj\<lparr>lo_programs := ps, lo_maps := set_maps_opts at (lo_maps obj)\<rparr>"
    have can: "can_load 0 ?obj" by (rule opts_can_load [OF Some assms(5,8)])
    note fe = for_each_opts [OF Some]
    have typed: "asked_type at (lo_programs obj ! i) \<noteq> BPF_PROG_TYPE_UNSPEC" "load_kind (ps ! i) = asked_kind at (lo_programs obj ! i)"
      if "i \<in> set (for_each_program obj)" for i
      using opts Some that for_each_places(2) [of obj] by auto
    then have none: "\<not> (\<exists>i\<in>set (for_each_program obj). asked_type at (lo_programs obj ! i) = BPF_PROG_TYPE_UNSPEC)" by blast
    show ?thesis
    proof (cases "for_each_program obj")
      case Nil
      then show ?thesis using assms(1-3,7) closes [OF can] Some fe by (auto simp: bpf_prog_load_xattr_def)
    next
      case (Cons first others)
      obtain e o1 c1 s1 where l: "bpf_object_load_xattr E 0 ?obj c s0 = Some (e, o1, c1, s1)"
        using assms(1-3) Some Cons fe by (auto simp: bpf_prog_load_xattr_def bpf_object_load_def Let_def split: option.splits)
      note r = object_load_result [OF can _ l, simplified, OF assms(6)]
      have b: "lo_btf o1 = None" using load_xattr_btf [OF l] assms(7) by simp
      show ?thesis
      proof (cases "e = 0")
        case False
        have cl: "held (lo_maps o1) = []" "progs_held (lo_programs o1) = []" "\<forall>p\<in>set (lo_programs o1). inst_ok p"
          using r False by (auto simp: held_def filter_empty_conv progs_held_def prog_held_def inst_ok_def)
        obtain s2 where "bpf_object_close (le_os E) (Some o1) s1 = Some s2" "fdv s2 = fdv s" "pinv s2 = pinv s"
          using object_close_result [of o1 "fdv s" s1] cl b r False eq by (auto simp: owns_nil)
        then show ?thesis using assms(1-3) Some Cons fe l False none
          by (auto simp: bpf_prog_load_xattr_def bpf_object_load_def Let_def)
      next
        case True
        have kinds: "map load_kind (lo_programs o1) = map load_kind ps" using r True by simp
        have ow: "owns fdv (fdv s) (map bm_fd (lo_maps o1) @ progs_held (lo_programs o1)) s1" using r True eq by simp
        have loaded: "load_kind (lo_programs o1 ! i) = asked_kind at (lo_programs obj ! i) \<and>
            (\<exists>fd insns. bpf_program_fd (Some (lo_programs o1 ! i)) = Some fd \<and> loaded_as E (lo_programs o1 ! i) insns fd \<and>
               fd \<in> set (progs_held (lo_programs o1)))"
          if i: "i \<in> set (for_each_program obj)" for i
        proof -
          have i1: "i < length (lo_programs o1)" "i < length ps" "\<not> is_storage obj i"
            using i map_eq_imp_length_eq [OF kinds] set_progs_keeps [OF Some] by (auto simp: for_each_program_def)
          have len: "bp_prep (ps ! i) = None" "\<not> is_storage ?obj i"
            using set_progs_keeps [OF Some] i1 assms(9) by (auto simp: bpf_program_is_function_storage_def)
          have k: "load_kind (lo_programs o1 ! i) = load_kind (ps ! i)" using kinds i1 by (metis nth_map)
          have "instances_loaded E (ps ! i) (lo_programs o1 ! i)" using r True len(2) i1(2) by simp
          then obtain fds insns where f: "bp_fds (lo_programs o1 ! i) = Some fds" "loaded_as E (ps ! i) insns (fds ! 0)"
            using len(1) by (auto simp: instances_loaded_def)
          have f0: "0 \<le> fds ! 0" using f(2) by (simp add: loaded_as_def)
          have ok: "inst_ok (lo_programs o1 ! i)" using r True i1(1) by simp
          then have ne: "fds \<noteq> []" "bp_nr (lo_programs o1 ! i) = int (length fds)" using f(1) by (simp_all add: inst_ok_def)
          then have fd: "bpf_program_fd (Some (lo_programs o1 ! i)) = Some (fds ! 0)"
            using f f0 by (simp add: bpf_program_fd_def bpf_program_nth_fd_def)
          have "fds ! 0 \<in> set (prog_held (lo_programs o1 ! i))" using f f0 ne by (simp add: prog_held_def live_def)
          then have "fds ! 0 \<in> set (progs_held (lo_programs o1))" using i1(1) by (auto simp: progs_held_def)
          then show ?thesis using k typed(2) [OF i] fd f(2) same_kind(1) [OF k, of E] by auto
        qed
        obtain fd where fd: "bpf_program_fd (Some (lo_programs o1 ! first)) = Some fd" "fd \<in> set (progs_held (lo_programs o1))"
          using loaded [of first] Cons by auto
        have out: "ret = 0" "out = Some (o1, fd)" "s' = s1"
          using assms(1-3) Some Cons fe l True fd(1) by (simp_all add: bpf_prog_load_xattr_def bpf_object_load_def Let_def)
        have "fdv s fd = None" "fdv s1 fd \<noteq> None" using ow fd(2) by (auto simp: owns_def)
        then show ?thesis using out ow fd(1) r eq typed(1) loaded Cons by fastforce
      qed
    qed
  qed
qed

end

section \<open>Properties\<close>


definition sample_opts :: prog_load_opts where
  "sample_opts = \<lparr>po_file = Some ''xdp_prog_kern.o'', po_prog_type = BPF_PROG_TYPE_XDP, po_attach = no_attach_type, po_ifindex = 0,
     po_log_level = 0, po_prog_flags = 0\<rparr>"


end
