(* ===== verification/Btf.thy ===== *)
theory Btf
  imports Nlattr Libbpf_Maps
begin

text \<open>
  Type information: \<open>libbpf/src/btf.c\<close> and \<open>btf.h\<close>, with the layout of \<open>linux/btf.h\<close>.

  The data of an object's section \<open>.BTF\<close> is a block of bytes, a pointer to a type descriptor is an offset
  in it, or the static descriptor \<open>btf_void\<close>.  A read outside the block is the result None.
  Allocations are an argument.
\<close>

section \<open>Layout\<close>

definition BTF_MAGIC :: u16 where "BTF_MAGIC = 0xeB9F"
definition BTF_VERSION :: u8 where "BTF_VERSION = 1"
definition BTF_MAX_NR_TYPES :: u32 where "BTF_MAX_NR_TYPES = 0x7fffffff"
definition BTF_MAX_STR_OFFSET :: u32 where "BTF_MAX_STR_OFFSET = 0x7fffffff"
definition ENOTSUP :: int where "ENOTSUP = 95"

definition c_string_at :: "packet \<Rightarrow> nat \<Rightarrow> string option" where
  "c_string_at m off =
     (let s = drop off m in if 0 \<in> set s then Some (map (\<lambda>b. char_of (unat b)) (takeWhile (\<lambda>b. b \<noteq> 0) s)) else None)"

text \<open>The fields of \<open>struct btf_header\<close>, at their offsets.\<close>

definition hdr_magic :: "packet \<Rightarrow> u16" where "hdr_magic m = load16 m 0"
definition hdr_version :: "packet \<Rightarrow> u8" where "hdr_version m = m ! 2"
definition hdr_flags :: "packet \<Rightarrow> u8" where "hdr_flags m = m ! 3"
definition hdr_len :: "packet \<Rightarrow> u32" where "hdr_len m = load32 m 4"
definition hdr_type_off :: "packet \<Rightarrow> u32" where "hdr_type_off m = load32 m 8"
definition hdr_str_off :: "packet \<Rightarrow> u32" where "hdr_str_off m = load32 m 16"
definition hdr_str_len :: "packet \<Rightarrow> u32" where "hdr_str_len m = load32 m 20"
definition SIZEOF_BTF_HEADER :: nat where "SIZEOF_BTF_HEADER = 24"

text \<open>\<open>info\<close> of \<open>struct btf_type\<close>, and the kinds of types.\<close>

definition BTF_INFO_KIND :: "u32 \<Rightarrow> u32" where "BTF_INFO_KIND info = drop_bit 24 info AND 0x0f"
definition BTF_INFO_VLEN :: "u32 \<Rightarrow> u32" where "BTF_INFO_VLEN info = info AND 0xffff"
definition BTF_INFO_KFLAG :: "u32 \<Rightarrow> u32" where "BTF_INFO_KFLAG info = drop_bit 31 info"

definition BTF_KIND_INT :: u32 where "BTF_KIND_INT = 1"
definition BTF_KIND_PTR :: u32 where "BTF_KIND_PTR = 2"
definition BTF_KIND_ARRAY :: u32 where "BTF_KIND_ARRAY = 3"
definition BTF_KIND_STRUCT :: u32 where "BTF_KIND_STRUCT = 4"
definition BTF_KIND_UNION :: u32 where "BTF_KIND_UNION = 5"
definition BTF_KIND_ENUM :: u32 where "BTF_KIND_ENUM = 6"
definition BTF_KIND_FWD :: u32 where "BTF_KIND_FWD = 7"
definition BTF_KIND_TYPEDEF :: u32 where "BTF_KIND_TYPEDEF = 8"
definition BTF_KIND_VOLATILE :: u32 where "BTF_KIND_VOLATILE = 9"
definition BTF_KIND_CONST :: u32 where "BTF_KIND_CONST = 10"
definition BTF_KIND_RESTRICT :: u32 where "BTF_KIND_RESTRICT = 11"
definition BTF_KIND_FUNC :: u32 where "BTF_KIND_FUNC = 12"
definition BTF_KIND_FUNC_PROTO :: u32 where "BTF_KIND_FUNC_PROTO = 13"
definition BTF_KIND_VAR :: u32 where "BTF_KIND_VAR = 14"
definition BTF_KIND_DATASEC :: u32 where "BTF_KIND_DATASEC = 15"

lemmas btf_kinds = BTF_KIND_INT_def BTF_KIND_PTR_def BTF_KIND_ARRAY_def BTF_KIND_STRUCT_def BTF_KIND_UNION_def
  BTF_KIND_ENUM_def BTF_KIND_FWD_def BTF_KIND_TYPEDEF_def BTF_KIND_VOLATILE_def BTF_KIND_CONST_def BTF_KIND_RESTRICT_def
  BTF_KIND_FUNC_def BTF_KIND_FUNC_PROTO_def BTF_KIND_VAR_def BTF_KIND_DATASEC_def

section \<open>State\<close>

text \<open>
  \<open>struct btf\<close>: the array \<open>types\<close> has room for \<open>bf_types_size\<close> pointers; its entry 0 is \<open>btf_void\<close>, the list holds the
  entries from 1.  \<open>bf_strings\<close> is the offset of the string section.
\<close>

record btf =
  bf_data :: packet
  bf_types :: "nat list"
  bf_types_size :: u32
  bf_strings :: nat
  bf_fd :: int

datatype btf_ptr = Btf_void | Type_at nat

text \<open>Allocations of \<open>btf__new\<close>: the struct, the data, and the array when it holds so many types.\<close>

record btf_alloc =
  ba_calloc :: bool
  ba_malloc :: bool
  ba_realloc :: "nat \<Rightarrow> bool"

definition nr_types :: "btf \<Rightarrow> u32" where "nr_types b = of_nat (length (bf_types b))"

section \<open>Parsing\<close>

definition btf_add_type :: "(nat \<Rightarrow> bool) \<Rightarrow> btf \<Rightarrow> nat \<Rightarrow> int + btf" where
  "btf_add_type ra b t =
     (let grown =
        (if bf_types_size b - nr_types b < 2 then
           (if bf_types_size b = BTF_MAX_NR_TYPES then Inl (- E2BIG)
            else
              (let expand_by = max (drop_bit 2 (bf_types_size b)) 16;
                   new_size = min BTF_MAX_NR_TYPES (bf_types_size b + expand_by)
               in if ra (length (bf_types b)) then Inr (b\<lparr>bf_types_size := new_size\<rparr>) else Inl (- ENOMEM)))
         else Inr b)
      in case grown of Inl err \<Rightarrow> Inl err | Inr b \<Rightarrow> Inr (b\<lparr>bf_types := bf_types b @ [t]\<rparr>))"

definition btf_parse_hdr :: "packet \<Rightarrow> int" where
  "btf_parse_hdr m =
     (if length m < SIZEOF_BTF_HEADER then - EINVAL
      else if hdr_magic m \<noteq> BTF_MAGIC then - EINVAL
      else if hdr_version m \<noteq> BTF_VERSION then - ENOTSUP
      else if hdr_flags m \<noteq> 0 then - ENOTSUP
      else
        (let meta_left = length m - SIZEOF_BTF_HEADER
         in if meta_left = 0 then - EINVAL
            else if meta_left < unat (hdr_type_off m) then - EINVAL
            else if meta_left < unat (hdr_str_off m) then - EINVAL
            else if hdr_type_off m \<ge> hdr_str_off m then - EINVAL
            else if hdr_type_off m AND 0x02 \<noteq> 0 then - EINVAL
            else 0))"

text \<open>The last byte of the section is only read when the first one is 0.\<close>

definition btf_parse_str_sec :: "packet \<Rightarrow> int option" where
  "btf_parse_str_sec m =
     (let start = SIZEOF_BTF_HEADER + unat (hdr_str_off m);
          finish = start + unat (hdr_str_len m)
      in if hdr_str_len m = 0 \<or> hdr_str_len m - 1 > BTF_MAX_STR_OFFSET then Some (- EINVAL)
         else Option.bind (mem8 m start) (\<lambda>first.
                if first \<noteq> 0 then Some (- EINVAL)
                else Option.bind (mem8 m (finish - 1)) (\<lambda>last. Some (if last \<noteq> 0 then - EINVAL else 0))))"

text \<open>The size of a descriptor, from its \<open>info\<close>.\<close>

definition btf_type_size :: "u32 \<Rightarrow> int" where
  "btf_type_size info =
     (let base_size = 12; vlen = uint (BTF_INFO_VLEN info); kind = BTF_INFO_KIND info
      in if kind \<in> {BTF_KIND_FWD, BTF_KIND_CONST, BTF_KIND_VOLATILE, BTF_KIND_RESTRICT, BTF_KIND_PTR, BTF_KIND_TYPEDEF, BTF_KIND_FUNC}
         then base_size
         else if kind = BTF_KIND_INT then base_size + 4
         else if kind = BTF_KIND_ENUM then base_size + vlen * 8
         else if kind = BTF_KIND_ARRAY then base_size + 12
         else if kind \<in> {BTF_KIND_STRUCT, BTF_KIND_UNION} then base_size + vlen * 12
         else if kind = BTF_KIND_FUNC_PROTO then base_size + vlen * 8
         else if kind = BTF_KIND_VAR then base_size + 4
         else if kind = BTF_KIND_DATASEC then base_size + vlen * 12
         else - EINVAL)"

lemma btf_type_size_cases: "btf_type_size info < 0 \<or> 12 \<le> btf_type_size info"
  by (auto simp: btf_type_size_def Let_def EINVAL_def)

function parse_types :: "(nat \<Rightarrow> bool) \<Rightarrow> nat \<Rightarrow> nat \<Rightarrow> btf \<Rightarrow> (int + btf) option" where
  "parse_types ra end_type next_type b =
     (if next_type < end_type then
        Option.bind (mem32 (bf_data b) (next_type + 4)) (\<lambda>info.
          if btf_type_size info < 0 then Some (Inl (btf_type_size info))
          else
            (case btf_add_type ra b next_type of
               Inl err \<Rightarrow> Some (Inl err)
             | Inr b \<Rightarrow> parse_types ra end_type (next_type + nat (btf_type_size info)) b))
      else Some (Inr b))"
  by pat_completeness auto

termination
proof (relation "measure (\<lambda>(ra, end_type, next_type, b). end_type - next_type)", goal_cases)
  case 1
  show ?case by simp
next
  case (2 ra end_type next_type b info b')
  then show ?case using btf_type_size_cases [of info] by auto
qed

declare parse_types.simps [simp del]

definition btf_parse_type_sec :: "(nat \<Rightarrow> bool) \<Rightarrow> btf \<Rightarrow> (int + btf) option" where
  "btf_parse_type_sec ra b =
     parse_types ra (SIZEOF_BTF_HEADER + unat (hdr_str_off (bf_data b))) (SIZEOF_BTF_HEADER + unat (hdr_type_off (bf_data b))) b"

text \<open>\<open>btf__new\<close>; the error pointer is the left case.\<close>

definition btf_new :: "btf_alloc \<Rightarrow> packet \<Rightarrow> (int + btf) option" where
  "btf_new al m =
     (if \<not> ba_calloc al \<or> \<not> ba_malloc al then Some (Inl (- ENOMEM))
      else
        (let b = \<lparr>bf_data = m, bf_types = [], bf_types_size = 0, bf_strings = 0, bf_fd = - 1\<rparr>; err = btf_parse_hdr m
         in if err \<noteq> 0 then Some (Inl err)
            else Option.bind (btf_parse_str_sec m) (\<lambda>err.
                   if err \<noteq> 0 then Some (Inl err)
                   else btf_parse_type_sec (ba_realloc al) (b\<lparr>bf_strings := SIZEOF_BTF_HEADER + unat (hdr_str_off m)\<rparr>))))"

section \<open>Queries\<close>

definition btf_type_by_id :: "btf \<Rightarrow> u32 \<Rightarrow> btf_ptr option" where
  "btf_type_by_id b type_id =
     (if type_id > nr_types b then None
      else Some (if type_id = 0 then Btf_void else Type_at (bf_types b ! (unat type_id - 1))))"

text \<open>The word of a descriptor at an offset from its start: \<open>name_off\<close> at 0, \<open>info\<close> at 4, \<open>size\<close> or \<open>type\<close> at 8.\<close>

definition type_word :: "btf \<Rightarrow> btf_ptr \<Rightarrow> nat \<Rightarrow> u32 option" where
  "type_word b t k = (case t of Btf_void \<Rightarrow> if k + 4 \<le> 12 then Some 0 else None | Type_at off \<Rightarrow> mem32 (bf_data b) (off + k))"

definition btf_kind :: "btf \<Rightarrow> btf_ptr \<Rightarrow> u32 option" where
  "btf_kind b t = map_option BTF_INFO_KIND (type_word b t 4)"

definition btf_vlen :: "btf \<Rightarrow> btf_ptr \<Rightarrow> u32 option" where
  "btf_vlen b t = map_option BTF_INFO_VLEN (type_word b t 4)"

definition btf_type_is_void :: "btf \<Rightarrow> btf_ptr \<Rightarrow> bool option" where
  "btf_type_is_void b t = (if t = Btf_void then Some True else map_option (\<lambda>k. k = BTF_KIND_FWD) (btf_kind b t))"

definition btf_type_is_void_or_null :: "btf \<Rightarrow> btf_ptr option \<Rightarrow> bool option" where
  "btf_type_is_void_or_null b t = (case t of None \<Rightarrow> Some True | Some t \<Rightarrow> btf_type_is_void b t)"

definition MAX_RESOLVE_DEPTH :: nat where "MAX_RESOLVE_DEPTH = 32"
definition UINT32_MAX :: nat where "UINT32_MAX = 2 ^ 32 - 1"

text \<open>
  The loop of \<open>btf__resolve_size\<close>, with the number of turns that are left: an early return, or the
  size, which is -1 when the loop ends without one, and the number of elements.
\<close>

fun resolve_size_loop :: "btf \<Rightarrow> nat \<Rightarrow> btf_ptr option \<Rightarrow> u32 \<Rightarrow> (int + int \<times> u32) option" where
  "resolve_size_loop b 0 t nelems = Some (Inr (- 1, nelems))"
| "resolve_size_loop b (Suc n) t nelems =
     (case t of
        None \<Rightarrow> Some (Inr (- 1, nelems))
      | Some p \<Rightarrow>
          Option.bind (btf_type_is_void b p) (\<lambda>v. if v then Some (Inr (- 1, nelems)) else
          Option.bind (btf_kind b p) (\<lambda>kind.
            if kind \<in> {BTF_KIND_INT, BTF_KIND_STRUCT, BTF_KIND_UNION, BTF_KIND_ENUM, BTF_KIND_DATASEC} then
              Option.bind (type_word b p 8) (\<lambda>sz. Some (Inr (uint sz, nelems)))
            else if kind = BTF_KIND_PTR then Some (Inr (8, nelems))
            else if kind \<in> {BTF_KIND_TYPEDEF, BTF_KIND_VOLATILE, BTF_KIND_CONST, BTF_KIND_RESTRICT, BTF_KIND_VAR} then
              Option.bind (type_word b p 8) (\<lambda>type_id. resolve_size_loop b n (btf_type_by_id b type_id) nelems)
            else if kind = BTF_KIND_ARRAY then
              Option.bind (type_word b p 20) (\<lambda>k.
                if nelems \<noteq> 0 \<and> unat k > UINT32_MAX div unat nelems then Some (Inl (- E2BIG))
                else Option.bind (type_word b p 12) (\<lambda>type_id. resolve_size_loop b n (btf_type_by_id b type_id) (nelems * k)))
            else Some (Inl (- EINVAL)))))"

definition btf_resolve_size :: "btf \<Rightarrow> u32 \<Rightarrow> int option" where
  "btf_resolve_size b type_id =
     Option.bind (resolve_size_loop b MAX_RESOLVE_DEPTH (btf_type_by_id b type_id) 1) (\<lambda>r.
       Some (case r of
               Inl err \<Rightarrow> err
             | Inr (sz, nelems) \<Rightarrow>
                 if sz < 0 then - EINVAL
                 else if nelems \<noteq> 0 \<and> sz > int (UINT32_MAX div unat nelems) then - E2BIG
                 else uint nelems * sz))"

text \<open>The loop of \<open>btf__resolve_type\<close>: the type it ends with, its number and the depth.\<close>

fun resolve_type_loop :: "btf \<Rightarrow> nat \<Rightarrow> u32 \<Rightarrow> nat \<Rightarrow> (u32 \<times> nat) option" where
  "resolve_type_loop b 0 type_id depth = Some (type_id, depth)"
| "resolve_type_loop b (Suc n) type_id depth =
     (case btf_type_by_id b type_id of
        None \<Rightarrow> Some (type_id, depth)
      | Some p \<Rightarrow>
          Option.bind (btf_type_is_void b p) (\<lambda>v. if v then Some (type_id, depth) else
          Option.bind (btf_kind b p) (\<lambda>kind.
            if kind \<in> {BTF_KIND_VOLATILE, BTF_KIND_CONST, BTF_KIND_RESTRICT, BTF_KIND_TYPEDEF, BTF_KIND_VAR} then
              Option.bind (type_word b p 8) (\<lambda>type_id. resolve_type_loop b n type_id (depth + 1))
            else Some (type_id, depth))))"

definition btf_resolve_type :: "btf \<Rightarrow> u32 \<Rightarrow> int option" where
  "btf_resolve_type b type_id =
     Option.bind (resolve_type_loop b MAX_RESOLVE_DEPTH type_id 0) (\<lambda>(type_id, depth).
       if depth = MAX_RESOLVE_DEPTH then Some (- EINVAL)
       else Option.bind (btf_type_is_void_or_null b (btf_type_by_id b type_id)) (\<lambda>v. Some (if v then - EINVAL else sint type_id)))"

text \<open>A name, or NULL, which is the inner None.\<close>

definition btf_name_by_offset :: "btf \<Rightarrow> u32 \<Rightarrow> string option option" where
  "btf_name_by_offset b offset =
     (if offset < hdr_str_len (bf_data b) then map_option Some (c_string_at (bf_data b) (bf_strings b + unat offset)) else Some None)"

fun find_by_name :: "btf \<Rightarrow> string \<Rightarrow> nat \<Rightarrow> nat list \<Rightarrow> int option" where
  "find_by_name b nm i [] = Some (- ENOENT)"
| "find_by_name b nm i (t # ts) =
     Option.bind (type_word b (Type_at t) 0) (\<lambda>name_off.
     Option.bind (btf_name_by_offset b name_off) (\<lambda>name.
       if name = Some nm then Some (int i) else find_by_name b nm (i + 1) ts))"

definition btf_find_by_name :: "btf \<Rightarrow> string \<Rightarrow> int option" where
  "btf_find_by_name b type_name = (if type_name = ''void'' then Some 0 else find_by_name b type_name 1 (bf_types b))"

text \<open>
  \<open>btf__get_map_kv_tids\<close>: \<open>snprintf\<close> cuts the name after 255 characters, and the test for that only
  catches one length.  The results are the error number and the two type numbers.
\<close>

definition btf_get_map_kv_tids :: "btf \<Rightarrow> string \<Rightarrow> u32 \<Rightarrow> u32 \<Rightarrow> (int \<times> u32 \<times> u32) option" where
  "btf_get_map_kv_tids b map_name expected_key_size expected_value_size =
     (let full = ''____btf_map_'' @ map_name; container_name = take 255 full
      in if length full = 256 then Some (- EINVAL, 0, 0)
         else Option.bind (btf_find_by_name b container_name) (\<lambda>container_id.
           if container_id < 0 then Some (container_id, 0, 0)
           else
             (case btf_type_by_id b (of_int container_id) of
                None \<Rightarrow> Some (- EINVAL, 0, 0)
              | Some t \<Rightarrow>
                  Option.bind (btf_kind b t) (\<lambda>kind. Option.bind (btf_vlen b t) (\<lambda>vlen.
                    if kind \<noteq> BTF_KIND_STRUCT \<or> vlen < 2 then Some (- EINVAL, 0, 0)
                    else Option.bind (type_word b t 16) (\<lambda>key_type. Option.bind (btf_resolve_size b key_type) (\<lambda>key_size.
                      if key_size < 0 then Some (key_size, 0, 0)
                      else if uint expected_key_size \<noteq> key_size then Some (- EINVAL, 0, 0)
                      else Option.bind (type_word b t 28) (\<lambda>value_type. Option.bind (btf_resolve_size b value_type) (\<lambda>value_size.
                        if value_size < 0 then Some (value_size, 0, 0)
                        else if uint expected_value_size \<noteq> value_size then Some (- EINVAL, 0, 0)
                        else Some (0, key_type, value_type))))))))))"

section \<open>Descriptors as data\<close>

text \<open>
  What the bytes of a descriptor mean: numbers of strings, types and bits stay words, the kinds
  become constructors.
\<close>

datatype ref_kind = Ref_typedef | Ref_volatile | Ref_const | Ref_restrict | Ref_func

datatype btf_ty =
    TInt u32 u32 u32
  | TPtr u32 u32
  | TArray u32 u32 u32
  | TComp bool bool u32 u32 "(u32 \<times> u32 \<times> u32) list"
  | TEnum u32 u32 "(u32 \<times> u32) list"
  | TFwd bool u32
  | TRef ref_kind u32 u32
  | TProto u32 "(u32 \<times> u32) list"
  | TVar u32 u32 u32
  | TDatasec u32 u32 "(u32 \<times> u32 \<times> u32) list"

fun ref_code :: "ref_kind \<Rightarrow> u32" where
  "ref_code Ref_typedef = BTF_KIND_TYPEDEF"
| "ref_code Ref_volatile = BTF_KIND_VOLATILE"
| "ref_code Ref_const = BTF_KIND_CONST"
| "ref_code Ref_restrict = BTF_KIND_RESTRICT"
| "ref_code Ref_func = BTF_KIND_FUNC"

definition info_word :: "bool \<Rightarrow> u32 \<Rightarrow> nat \<Rightarrow> u32" where
  "info_word kflag kind vlen = push_bit 31 (of_bool kflag) OR push_bit 24 kind OR of_nat vlen"

definition triples :: "(u32 \<times> u32 \<times> u32) list \<Rightarrow> u32 list" where
  "triples ms = concat (map (\<lambda>(a, b, c). [a, b, c]) ms)"

definition pairs :: "(u32 \<times> u32) list \<Rightarrow> u32 list" where
  "pairs ms = concat (map (\<lambda>(a, b). [a, b]) ms)"

fun ty_words :: "btf_ty \<Rightarrow> u32 list" where
  "ty_words (TInt nm sz enc) = [nm, info_word False BTF_KIND_INT 0, sz, enc]"
| "ty_words (TPtr nm t) = [nm, info_word False BTF_KIND_PTR 0, t]"
| "ty_words (TArray t ix n) = [0, info_word False BTF_KIND_ARRAY 0, 0, t, ix, n]"
| "ty_words (TComp is_union kflag nm sz ms) =
     [nm, info_word kflag (if is_union then BTF_KIND_UNION else BTF_KIND_STRUCT) (length ms), sz] @ triples ms"
| "ty_words (TEnum nm sz vs) = [nm, info_word False BTF_KIND_ENUM (length vs), sz] @ pairs vs"
| "ty_words (TFwd is_union nm) = [nm, info_word is_union BTF_KIND_FWD 0, 0]"
| "ty_words (TRef k nm t) = [nm, info_word False (ref_code k) 0, t]"
| "ty_words (TProto ret ps) = [0, info_word False BTF_KIND_FUNC_PROTO (length ps), ret] @ pairs ps"
| "ty_words (TVar nm t linkage) = [nm, info_word False BTF_KIND_VAR 0, t, linkage]"
| "ty_words (TDatasec nm sz vs) = [nm, info_word False BTF_KIND_DATASEC (length vs), sz] @ triples vs"

fun ty_name :: "btf_ty \<Rightarrow> u32" where "ty_name t = ty_words t ! 0"

text \<open>The number of members fits its 16 bits.\<close>

fun ty_small :: "btf_ty \<Rightarrow> bool" where
  "ty_small (TComp _ _ _ _ ms) \<longleftrightarrow> length ms < 2 ^ 16"
| "ty_small (TEnum _ _ vs) \<longleftrightarrow> length vs < 2 ^ 16"
| "ty_small (TProto _ ps) \<longleftrightarrow> length ps < 2 ^ 16"
| "ty_small (TDatasec _ _ vs) \<longleftrightarrow> length vs < 2 ^ 16"
| "ty_small _ \<longleftrightarrow> True"

definition words_bytes :: "u32 list \<Rightarrow> packet" where "words_bytes ws = concat (map le32 ws)"

lemma length_triples [simp]: "length (triples ms) = 3 * length ms"
  by (induction ms) (auto simp: triples_def)

lemma length_pairs [simp]: "length (pairs ms) = 2 * length ms"
  by (induction ms) (auto simp: pairs_def)

lemma length_words_bytes [simp]: "length (words_bytes ws) = 4 * length ws"
  by (induction ws) (auto simp: words_bytes_def)

lemma words_bytes_simps [simp]: "words_bytes [] = []" "words_bytes (w # ws) = le32 w @ words_bytes ws"
  "words_bytes (vs @ ws) = words_bytes vs @ words_bytes ws"
  by (simp_all add: words_bytes_def)

lemma mem32_at: "bytes_at m off (le32 v) \<Longrightarrow> mem32 m off = Some v"
  using load32_at [of m off v] by (simp add: mem32_def bytes_at_def)

lemma mem32_words:
  assumes "bytes_at m off (words_bytes ws)" "k < length ws"
  shows "mem32 m (off + 4 * k) = Some (ws ! k)"
proof -
  have "words_bytes ws = words_bytes (take k ws) @ le32 (ws ! k) @ words_bytes (drop (Suc k) ws)"
    using id_take_nth_drop [OF assms(2)] by (metis words_bytes_simps(2,3))
  then have "bytes_at m (off + 4 * k) (le32 (ws ! k))"
    using assms by (simp add: bytes_at_append)
  then show ?thesis by (rule mem32_at)
qed

lemma small_not_bit:
  fixes w :: u32
  assumes "unat w < 2 ^ k" "k \<le> n"
  shows "\<not> bit w n"
proof -
  have "unat w < 2 ^ n" using assms by (meson less_le_trans one_le_numeral power_increasing)
  then have "\<not> bit (unat w) n" by (simp add: bit_iff_odd)
  then show ?thesis by (auto simp: bit_unsigned_iff dest: bit_imp_le_length)
qed

lemma info_word_fields:
  assumes "vlen < 2 ^ 16" "kind < 16"
  shows "BTF_INFO_KIND (info_word kflag kind vlen) = kind" "BTF_INFO_VLEN (info_word kflag kind vlen) = of_nat vlen"
proof -
  have v: "n < 16" if "bit vlen n" for n
  proof (rule ccontr)
    assume "\<not> n < 16"
    then have "vlen < 2 ^ n" using assms(1) by (meson less_le_trans not_less one_le_numeral power_increasing)
    then show False using that by (simp add: bit_iff_odd)
  qed
  have k: "n < 4" if "bit kind n" for n
    using small_not_bit [of kind 4 n] assms(2) that by (auto simp: word_less_nat_alt not_le [symmetric])
  have m: "(0x0f :: u32) = mask 4" "(0xffff :: u32) = mask 16" by (simp_all add: mask_eq_exp_minus_1)
  show "BTF_INFO_KIND (info_word kflag kind vlen) = kind"
    unfolding BTF_INFO_KIND_def info_word_def m 
    by (rule bit_word_eqI) (auto simp: bit_simps dest: v k)
  show "BTF_INFO_VLEN (info_word kflag kind vlen) = of_nat vlen"
    unfolding BTF_INFO_VLEN_def info_word_def m 
    by (rule bit_word_eqI) (auto simp: bit_simps dest: v k)
qed

lemma ty_words_3: "\<exists>nm info sz ws. ty_words t = nm # info # sz # ws"
  by (cases t) auto

lemma ref_code_cases: "ref_code k < 16"
  by (cases k) (simp_all add: btf_kinds)

lemma ty_size:
  assumes "ty_small t"
  shows "btf_type_size (ty_words t ! 1) = 4 * int (length (ty_words t))"
proof -
  have k: "BTF_INFO_KIND (info_word f c n) = c \<and> BTF_INFO_VLEN (info_word f c n) = of_nat n" if "n < 2 ^ 16" "c < 16" for f c n
    using info_word_fields [OF that] by blast
  have u: "uint (of_nat n :: u32) = int n" if "n < 2 ^ 16" for n using that by (simp add: uint_of_nat_32)
  show ?thesis
  proof (cases t)
    case (TComp u f nm sz ms)
    then show ?thesis using assms k [of "length ms" "if u then BTF_KIND_UNION else BTF_KIND_STRUCT" f] u
      by (cases u) (simp_all add: btf_type_size_def btf_kinds)
  next
    case (TEnum nm sz vs)
    then show ?thesis using assms k [of "length vs" BTF_KIND_ENUM False] u by (simp add: btf_type_size_def btf_kinds)
  next
    case (TProto nm ps)
    then show ?thesis using assms k [of "length ps" BTF_KIND_FUNC_PROTO False] u by (simp add: btf_type_size_def btf_kinds)
  next
    case (TDatasec nm sz vs)
    then show ?thesis using assms k [of "length vs" BTF_KIND_DATASEC False] u by (simp add: btf_type_size_def btf_kinds)
  next
    case (TRef r nm u)
    then show ?thesis using k [of 0 "ref_code r" False] ref_code_cases [of r] by (cases r) (simp_all add: btf_type_size_def btf_kinds)
  next
    case (TFwd u nm)
    then show ?thesis using k [of 0 BTF_KIND_FWD u] by (simp add: btf_type_size_def btf_kinds)
  next
    case (TInt nm sz enc)
    then show ?thesis using k [of 0 BTF_KIND_INT False] by (simp add: btf_type_size_def btf_kinds)
  next
    case (TPtr nm u)
    then show ?thesis using k [of 0 BTF_KIND_PTR False] by (simp add: btf_type_size_def btf_kinds)
  next
    case (TArray u ix n)
    then show ?thesis using k [of 0 BTF_KIND_ARRAY False] by (simp add: btf_type_size_def btf_kinds)
  next
    case (TVar nm u l)
    then show ?thesis using k [of 0 BTF_KIND_VAR False] by (simp add: btf_type_size_def btf_kinds)
  qed
qed

section \<open>The array of types\<close>

text \<open>The entry behind the last type is inside the array whenever there is one, so that adding a type stays in bounds.\<close>

definition array_ok :: "btf \<Rightarrow> bool" where
  "array_ok b \<longleftrightarrow> bf_types_size b \<le> BTF_MAX_NR_TYPES \<and> (length (bf_types b) < unat (bf_types_size b) \<or> bf_types b = [] \<and> bf_types_size b = 0)"

lemma grown_size:
  fixes sz :: u32
  assumes "sz < BTF_MAX_NR_TYPES"
  shows "sz < min BTF_MAX_NR_TYPES (sz + max (drop_bit 2 sz) 16)"
    "unat sz + 1 < unat (min BTF_MAX_NR_TYPES (sz + max (drop_bit 2 sz) 16)) \<or> min BTF_MAX_NR_TYPES (sz + max (drop_bit 2 sz) 16) = BTF_MAX_NR_TYPES"
proof -
  have s: "unat sz < 0x7fffffff" using assms by (simp add: BTF_MAX_NR_TYPES_def word_less_nat_alt)
  have d: "unat (drop_bit 2 sz) = unat sz div 4" by (simp add: drop_bit_eq_div unat_div)
  have e: "unat (max (drop_bit 2 sz) 16) = max (unat sz div 4) 16"
    unfolding max_def word_le_nat_alt d using d by simp
  have "unat (sz + max (drop_bit 2 sz) 16) = unat sz + max (unat sz div 4) 16"
    using s e by (subst unat_word_ariths(1)) (simp add: mod_less)
  then show "sz < min BTF_MAX_NR_TYPES (sz + max (drop_bit 2 sz) 16)"
    "unat sz + 1 < unat (min BTF_MAX_NR_TYPES (sz + max (drop_bit 2 sz) 16)) \<or> min BTF_MAX_NR_TYPES (sz + max (drop_bit 2 sz) 16) = BTF_MAX_NR_TYPES"
    using assms by (auto simp: min_def word_less_nat_alt)
qed

lemma add_type_cases:
  assumes "array_ok b"
  shows "case btf_add_type ra b t of
           Inl err \<Rightarrow> err = - E2BIG \<and> length (bf_types b) + 1 = unat BTF_MAX_NR_TYPES \<or> err = - ENOMEM \<and> \<not> ra (length (bf_types b))
         | Inr b' \<Rightarrow> array_ok b' \<and> (\<exists>sz. b' = b\<lparr>bf_types_size := sz, bf_types := bf_types b @ [t]\<rparr>)"
proof -
  define sz n where "sz = bf_types_size b" and "n = length (bf_types b)"
  have M: "unat BTF_MAX_NR_TYPES = 0x7fffffff" by (simp add: BTF_MAX_NR_TYPES_def)
  have sz: "unat sz \<le> 0x7fffffff" using assms by (simp add: array_ok_def sz_def word_le_nat_alt M)
  have n: "n < unat sz \<or> n = 0 \<and> sz = 0" using assms by (auto simp: array_ok_def sz_def n_def)
  then have n': "unat (of_nat n :: u32) = n" using sz by (auto simp: unat_of_nat)
  then have d: "unat (sz - of_nat n) = unat sz - n" using n by (auto simp: unat_sub word_le_nat_alt)
  show ?thesis
  proof (cases "sz - of_nat n < 2")
    case True
    then have t: "unat sz - n < 2" using d by (simp add: word_less_nat_alt)
    show ?thesis
    proof (cases "sz = BTF_MAX_NR_TYPES")
      case True
      moreover from this have "n + 1 = unat BTF_MAX_NR_TYPES" using t n M by auto
      ultimately show ?thesis using \<open>sz - of_nat n < 2\<close> by (simp add: btf_add_type_def nr_types_def flip: sz_def n_def)
    next
      case False
      then have l: "sz < BTF_MAX_NR_TYPES" using sz M by (simp add: word_less_nat_alt) (metis M le_neq_implies_less word_unat_eq_iff)
      let ?new = "min BTF_MAX_NR_TYPES (sz + max (drop_bit 2 sz) 16)"
      have g: "unat sz < unat ?new" "unat sz + 1 < unat ?new \<or> ?new = BTF_MAX_NR_TYPES"
        using grown_size [OF l] unfolding word_less_nat_alt by blast+
      have "n + 1 < unat ?new" using g t n M by auto
      then show ?thesis using \<open>sz - of_nat n < 2\<close> False
        by (auto simp: btf_add_type_def nr_types_def array_ok_def Let_def simp flip: sz_def n_def)
    qed
  next
    case False
    then have "n + 1 < unat sz" using d by (simp add: word_less_nat_alt not_less) 
    then show ?thesis using False assms
      by (auto simp: btf_add_type_def nr_types_def array_ok_def Let_def intro!: exI [of _ sz] simp flip: n_def) (simp_all add: sz_def)
  qed
qed

section \<open>Parsing what was encoded\<close>

definition desc_at :: "packet \<Rightarrow> nat \<Rightarrow> btf_ty \<Rightarrow> bool" where
  "desc_at m off t \<longleftrightarrow> ty_small t \<and> bytes_at m off (words_bytes (ty_words t))"

text \<open>The relation between a parsed section and the types that it describes.\<close>

definition has_types :: "btf \<Rightarrow> btf_ty list \<Rightarrow> bool" where
  "has_types b ts \<longleftrightarrow> list_all2 (desc_at (bf_data b)) (bf_types b) ts \<and> array_ok b"

lemma desc_word: "desc_at m off t \<Longrightarrow> k < length (ty_words t) \<Longrightarrow> mem32 m (off + 4 * k) = Some (ty_words t ! k)"
  unfolding desc_at_def by (blast intro: mem32_words)

lemma desc_info:
  assumes "desc_at m off t"
  shows "mem32 m (off + 4) = Some (ty_words t ! 1)"
proof -
  have "1 < length (ty_words t)" using ty_words_3 [of t] by auto
  then show ?thesis using desc_word [OF assms, of 1] by simp
qed

lemma parse_types_encoded:
  assumes "bytes_at (bf_data b) nx (concat (map (\<lambda>t. words_bytes (ty_words t)) ts))" "\<forall>t\<in>set ts. ty_small t"
    and "end_type = nx + length (concat (map (\<lambda>t. words_bytes (ty_words t)) ts))" "\<And>n. ra n"
    and "has_types b us" "length (us @ ts) + 1 < unat BTF_MAX_NR_TYPES"
  shows "\<exists>offs sz. parse_types ra end_type nx b = Some (Inr (b\<lparr>bf_types := offs, bf_types_size := sz\<rparr>)) \<and>
    has_types (b\<lparr>bf_types := offs, bf_types_size := sz\<rparr>) (us @ ts)"
  using assms
proof (induction ts arbitrary: nx b us)
  case Nil
  have "b\<lparr>bf_types := bf_types b, bf_types_size := bf_types_size b\<rparr> = b" by simp
  moreover have "parse_types ra end_type nx b = Some (Inr b)" using Nil.prems(3) by (subst parse_types.simps) simp
  ultimately show ?case using Nil.prems(5) by (intro exI [of _ "bf_types b"] exI [of _ "bf_types_size b"]) simp
next
  case (Cons t ts)
  have b: "bytes_at (bf_data b) nx (words_bytes (ty_words t))"
    "bytes_at (bf_data b) (nx + 4 * length (ty_words t)) (concat (map (\<lambda>t. words_bytes (ty_words t)) ts))"
    using Cons.prems(1) by (simp_all add: bytes_at_append)
  have d: "desc_at (bf_data b) nx t" using b(1) Cons.prems(2) by (simp add: desc_at_def)
  have sz: "btf_type_size (ty_words t ! 1) = 4 * int (length (ty_words t))" using Cons.prems(2) by (intro ty_size) simp
  have len: "length (bf_types b) = length us" using Cons.prems(5) by (auto simp: has_types_def dest: list_all2_lengthD)
  have lt: "nx < end_type" using Cons.prems(3) ty_words_3 [of t] by auto
  obtain s where a: "btf_add_type ra b nx = Inr (b\<lparr>bf_types_size := s, bf_types := bf_types b @ [nx]\<rparr>)"
    "array_ok (b\<lparr>bf_types_size := s, bf_types := bf_types b @ [nx]\<rparr>)"
    using add_type_cases [of b ra nx] Cons.prems(4,5,6) len by (auto simp: has_types_def split: sum.splits)
  let ?b = "b\<lparr>bf_types_size := s, bf_types := bf_types b @ [nx]\<rparr>"
  have "has_types ?b (us @ [t])" using Cons.prems(5) d a(2) by (simp add: has_types_def list_all2_appendI)
  then obtain offs sz where "parse_types ra end_type (nx + 4 * length (ty_words t)) ?b = Some (Inr (?b\<lparr>bf_types := offs, bf_types_size := sz\<rparr>))"
    "has_types (?b\<lparr>bf_types := offs, bf_types_size := sz\<rparr>) ((us @ [t]) @ ts)"
    using Cons.IH [of ?b "nx + 4 * length (ty_words t)" "us @ [t]", OF _ _ _ Cons.prems(4)] b(2) Cons.prems(2,3,6) by (auto simp del: append_assoc)
  moreover have "parse_types ra end_type nx b = parse_types ra end_type (nx + 4 * length (ty_words t)) ?b"
    using lt desc_info [OF d] a(1) by (subst parse_types.simps) (simp add: sz nat_mult_distrib del: One_nat_def)
  ultimately show ?case by (intro exI [of _ offs] exI [of _ sz]) simp
qed

text \<open>A section as a compiler writes it: the header, the descriptors and the strings, each string with its terminator.\<close>

definition strings_bytes :: "string list \<Rightarrow> packet" where
  "strings_bytes names = 0 # concat (map (\<lambda>s. bytes_of s @ [0]) names)"

definition header_bytes :: "nat \<Rightarrow> nat \<Rightarrow> packet" where
  "header_bytes type_len str_len =
     le16 BTF_MAGIC @ [BTF_VERSION, 0] @ le32 24 @ le32 0 @ le32 (of_nat type_len) @ le32 (of_nat type_len) @ le32 (of_nat str_len)"

definition types_bytes :: "btf_ty list \<Rightarrow> packet" where
  "types_bytes ts = concat (map (\<lambda>t. words_bytes (ty_words t)) ts)"

definition btf_bytes :: "btf_ty list \<Rightarrow> string list \<Rightarrow> packet" where
  "btf_bytes ts names = header_bytes (length (types_bytes ts)) (length (strings_bytes names)) @ types_bytes ts @ strings_bytes names"

lemma btf_bytes_header:
  assumes "length (btf_bytes ts names) < 2 ^ 31"
  shows "hdr_magic (btf_bytes ts names) = BTF_MAGIC" "hdr_version (btf_bytes ts names) = BTF_VERSION" "hdr_flags (btf_bytes ts names) = 0"
    "unat (hdr_type_off (btf_bytes ts names)) = 0" "unat (hdr_str_off (btf_bytes ts names)) = length (types_bytes ts)"
    "unat (hdr_str_len (btf_bytes ts names)) = length (strings_bytes names)"
proof -
  let ?m = "btf_bytes ts names"
  have l: "length (types_bytes ts) < 2 ^ 32" "length (strings_bytes names) < 2 ^ 32"
    using assms by (simp_all add: btf_bytes_def header_bytes_def)
  have b: "bytes_at ?m 0 (header_bytes (length (types_bytes ts)) (length (strings_bytes names)))"
    using bytes_at_self [of ?m] by (subst (asm) (2) btf_bytes_def) (simp add: bytes_at_append)
  have f: "bytes_at ?m 0 (le16 BTF_MAGIC)" "bytes_at ?m 2 [BTF_VERSION, 0]" "bytes_at ?m 8 (le32 0)" "bytes_at ?m 16 (le32 (of_nat (length (types_bytes ts))))"
     "bytes_at ?m 20 (le32 (of_nat (length (strings_bytes names))))"
    using b unfolding header_bytes_def bytes_at_append length_le list.size by (simp_all add: numeral_2_eq_2)
  show "hdr_magic ?m = BTF_MAGIC" unfolding hdr_magic_def by (rule load16_at [OF f(1)])
  show "hdr_version ?m = BTF_VERSION" "hdr_flags ?m = 0"
    using bytes_at_nth [OF f(2), of 0] bytes_at_nth [OF f(2), of 1] by (simp_all add: hdr_version_def hdr_flags_def)
  show "unat (hdr_type_off ?m) = 0" unfolding hdr_type_off_def load32_at [OF f(3)] by simp
  show "unat (hdr_str_off ?m) = length (types_bytes ts)" unfolding hdr_str_off_def load32_at [OF f(4)] unat_of_nat using l(1) by (simp add: mod_less)
  show "unat (hdr_str_len ?m) = length (strings_bytes names)" unfolding hdr_str_len_def load32_at [OF f(5)] unat_of_nat using l(2) by (simp add: mod_less)
qed

lemma length_header [simp]: "length (header_bytes n k) = 24"
  by (simp add: header_bytes_def)

lemma strings_ends: "strings_bytes names ! 0 = 0" "last (strings_bytes names) = 0" "strings_bytes names \<noteq> []"
proof -
  show "last (strings_bytes names) = 0" unfolding strings_bytes_def by (induction names) (auto simp: last_append)
qed (simp_all add: strings_bytes_def)

text \<open>Parsing the section gives back its types, for any number of types and names.\<close>

lemma new_encoded:
  assumes "length (btf_bytes ts names) < 2 ^ 31" "ts \<noteq> []" "\<forall>t\<in>set ts. ty_small t" "ba_calloc al" "ba_malloc al" "\<And>n. ba_realloc al n"
  shows "\<exists>b. btf_new al (btf_bytes ts names) = Some (Inr b) \<and> has_types b ts \<and> bf_data b = btf_bytes ts names \<and>
    bf_strings b = 24 + length (types_bytes ts) \<and> bf_fd b = - 1"
proof -
  let ?m = "btf_bytes ts names"
  note h = btf_bytes_header [OF assms(1)]
  have t: "length (types_bytes ts) \<ge> 12 * length ts"
  proof (unfold types_bytes_def, induction ts)
    case (Cons t ts)
    then show ?case using ty_words_3 [of t] by auto
  qed simp
  have t0: "0 < length (types_bytes ts)" using t assms(2) by (cases ts) auto
  have off: "hdr_type_off ?m = 0" using h(4) by (simp add: unat_eq_0)
  have "hdr_str_off ?m \<noteq> 0" using h(5) t0 by (metis less_irrefl unat_0)
  then have 1: "btf_parse_hdr ?m = 0"
    unfolding btf_parse_hdr_def h(1-3) off using h(5) t0 by (simp add: SIZEOF_BTF_HEADER_def btf_bytes_def Let_def)
  have str: "?m ! (24 + length (types_bytes ts)) = 0" "?m ! (24 + length (types_bytes ts) + (length (strings_bytes names) - 1)) = 0"
    using strings_ends [of names] by (auto simp: btf_bytes_def nth_append last_conv_nth)
  have sl: "hdr_str_len ?m \<noteq> 0" using h(6) strings_ends(3) [of names] by auto
  moreover have "\<not> hdr_str_len ?m - 1 > BTF_MAX_STR_OFFSET"
    using h(6) sl assms(1) by (simp add: word_less_nat_alt unat_minus_one BTF_MAX_STR_OFFSET_def btf_bytes_def)
  ultimately have 2: "btf_parse_str_sec ?m = Some 0"
    using h(5,6) str(1) str(2) [unfolded add.assoc] strings_ends(3) [of names] unfolding btf_parse_str_sec_def SIZEOF_BTF_HEADER_def
    by (cases "strings_bytes names") (auto simp: mem8_def btf_bytes_def Let_def)
  let ?b = "\<lparr>bf_data = ?m, bf_types = [], bf_types_size = 0, bf_strings = 24 + length (types_bytes ts), bf_fd = - 1\<rparr>"
  have "bytes_at ?m 24 (types_bytes ts)" using bytes_at_self [of ?m] by (subst (asm) (2) btf_bytes_def) (simp add: bytes_at_append)
  moreover have "has_types ?b []" by (simp add: has_types_def array_ok_def)
  moreover have "length ts + 1 < unat BTF_MAX_NR_TYPES" using t assms(1) by (simp add: BTF_MAX_NR_TYPES_def btf_bytes_def)
  ultimately obtain offs sz where p: "parse_types (ba_realloc al) (24 + length (types_bytes ts)) 24 ?b =
      Some (Inr (?b\<lparr>bf_types := offs, bf_types_size := sz\<rparr>))" "has_types (?b\<lparr>bf_types := offs, bf_types_size := sz\<rparr>) ts"
    using parse_types_encoded [of ?b 24 ts "24 + length (types_bytes ts)" "ba_realloc al" "[]", OF _ _ _ assms(6)] assms(3) by (auto simp: types_bytes_def)
  have "btf_new al ?m = Some (Inr (?b\<lparr>bf_types := offs, bf_types_size := sz\<rparr>))"
    using assms(4,5) 1 2 p(1) by (simp add: btf_new_def Let_def btf_parse_type_sec_def SIZEOF_BTF_HEADER_def h(4,5))
  then show ?thesis using p(2) by simp
qed

section \<open>Sizes\<close>

definition ty_of :: "btf_ty list \<Rightarrow> u32 \<Rightarrow> btf_ty option" where
  "ty_of ts i = (if i = 0 \<or> unat i > length ts then None else Some (ts ! (unat i - 1)))"

definition ty_kind :: "btf_ty \<Rightarrow> u32" where "ty_kind t = BTF_INFO_KIND (ty_words t ! 1)"

lemma ty_kinds:
  "ty_kind (TInt nm sz enc) = BTF_KIND_INT" "ty_kind (TPtr nm x) = BTF_KIND_PTR" "ty_kind (TArray e ix n) = BTF_KIND_ARRAY"
  "length ms < 2 ^ 16 \<Longrightarrow> ty_kind (TComp u f nm sz ms) = (if u then BTF_KIND_UNION else BTF_KIND_STRUCT)"
  "length vs < 2 ^ 16 \<Longrightarrow> ty_kind (TEnum nm sz vs) = BTF_KIND_ENUM" "ty_kind (TFwd u nm) = BTF_KIND_FWD"
  "ty_kind (TRef k nm x) = ref_code k" "length ps < 2 ^ 16 \<Longrightarrow> ty_kind (TProto x ps) = BTF_KIND_FUNC_PROTO"
  "ty_kind (TVar nm x l) = BTF_KIND_VAR" "length ws < 2 ^ 16 \<Longrightarrow> ty_kind (TDatasec nm sz ws) = BTF_KIND_DATASEC"
proof -
  have k: "BTF_INFO_KIND (info_word f c n) = c" if "n < 2 ^ 16" "c < 16" for f c n
    by (rule info_word_fields(1) [OF that])
  show "ty_kind (TInt nm sz enc) = BTF_KIND_INT" "ty_kind (TPtr nm x) = BTF_KIND_PTR" "ty_kind (TArray e ix n) = BTF_KIND_ARRAY"
    "ty_kind (TFwd u nm) = BTF_KIND_FWD" "ty_kind (TVar nm x l) = BTF_KIND_VAR" "ty_kind (TRef k nm x) = ref_code k"
    using ref_code_cases [of k] by (simp_all add: ty_kind_def k btf_kinds)
  show "length ms < 2 ^ 16 \<Longrightarrow> ty_kind (TComp u f nm sz ms) = (if u then BTF_KIND_UNION else BTF_KIND_STRUCT)"
    "length vs < 2 ^ 16 \<Longrightarrow> ty_kind (TEnum nm sz vs) = BTF_KIND_ENUM"
    "length ps < 2 ^ 16 \<Longrightarrow> ty_kind (TProto x ps) = BTF_KIND_FUNC_PROTO"
    "length ws < 2 ^ 16 \<Longrightarrow> ty_kind (TDatasec nm sz ws) = BTF_KIND_DATASEC"
    by (simp_all add: ty_kind_def k btf_kinds)
qed

lemma nr_types_has:
  assumes "has_types b ts"
  shows "length (bf_types b) = length ts" "unat (nr_types b) = length ts" "length ts < 2 ^ 31"
proof -
  show l: "length (bf_types b) = length ts" using assms by (auto simp: has_types_def dest: list_all2_lengthD)
  show lt: "length ts < 2 ^ 31" using assms l unfolding has_types_def array_ok_def word_le_nat_alt by (auto simp: BTF_MAX_NR_TYPES_def)
  show "unat (nr_types b) = length ts" unfolding nr_types_def l unat_of_nat using lt by simp
qed

lemma type_by_id_has:
  assumes "has_types b ts"
  shows "i = 0 \<Longrightarrow> btf_type_by_id b i = Some Btf_void"
    "i \<noteq> 0 \<Longrightarrow> ty_of ts i = None \<Longrightarrow> btf_type_by_id b i = None"
    "ty_of ts i = Some t \<Longrightarrow> \<exists>off. btf_type_by_id b i = Some (Type_at off) \<and> desc_at (bf_data b) off t"
proof -
  note n = nr_types_has [OF assms]
  show "i = 0 \<Longrightarrow> btf_type_by_id b i = Some Btf_void" by (simp add: btf_type_by_id_def)
  show "i \<noteq> 0 \<Longrightarrow> ty_of ts i = None \<Longrightarrow> btf_type_by_id b i = None"
    using n(2) by (auto simp: btf_type_by_id_def ty_of_def word_less_nat_alt split: if_splits)
  assume t: "ty_of ts i = Some t"
  then have i: "i \<noteq> 0" "unat i \<le> length ts" "t = ts ! (unat i - 1)" by (auto simp: ty_of_def split: if_splits)
  then have "unat i - 1 < length (bf_types b)" using n(1) by (metis diff_less le_less_trans less_le_trans not_gr_zero unat_eq_zero zero_less_one)
  then have "desc_at (bf_data b) (bf_types b ! (unat i - 1)) t" using assms i(3) by (auto simp: has_types_def list_all2_nthD)
  then show "\<exists>off. btf_type_by_id b i = Some (Type_at off) \<and> desc_at (bf_data b) off t"
    using i n(2) by (auto simp: btf_type_by_id_def word_less_nat_alt)
qed

lemma desc_kind: "desc_at (bf_data b) off t \<Longrightarrow> btf_kind b (Type_at off) = Some (ty_kind t)"
  using desc_info [of "bf_data b" off t] by (simp add: btf_kind_def type_word_def ty_kind_def)

lemma desc_type_word: "desc_at (bf_data b) off t \<Longrightarrow> k < length (ty_words t) \<Longrightarrow> type_word b (Type_at off) (4 * k) = Some (ty_words t ! k)"
  using desc_word [of "bf_data b" off t k] by (simp add: type_word_def)

lemma desc_word_8: "desc_at (bf_data b) off t \<Longrightarrow> type_word b (Type_at off) 8 = Some (ty_words t ! 2)"
  using desc_type_word [of b off t 2] ty_words_3 [of t] by auto

fun leaf_size :: "btf_ty \<Rightarrow> nat option" where
  "leaf_size (TInt _ sz _) = Some (unat sz)"
| "leaf_size (TComp _ _ _ sz _) = Some (unat sz)"
| "leaf_size (TEnum _ sz _) = Some (unat sz)"
| "leaf_size (TDatasec _ sz _) = Some (unat sz)"
| "leaf_size (TPtr _ _) = Some 8"
| "leaf_size _ = None"

fun refers :: "btf_ty \<Rightarrow> u32 option" where
  "refers (TRef k _ t) = (if k = Ref_func then None else Some t)"
| "refers (TVar _ t _) = Some t"
| "refers _ = None"

text \<open>\<open>sized ts d i n\<close>: type number \<open>i\<close> has the size \<open>n\<close>, which \<open>d\<close> descriptors give.\<close>

inductive sized :: "btf_ty list \<Rightarrow> nat \<Rightarrow> u32 \<Rightarrow> nat \<Rightarrow> bool" for ts where
  leaf: "ty_of ts i = Some t \<Longrightarrow> leaf_size t = Some n \<Longrightarrow> sized ts 1 i n"
| via: "ty_of ts i = Some t \<Longrightarrow> refers t = Some j \<Longrightarrow> sized ts d j n \<Longrightarrow> sized ts (Suc d) i n"
| elems: "ty_of ts i = Some (TArray j ix k) \<Longrightarrow> sized ts d j n \<Longrightarrow> sized ts (Suc d) i (unat k * n)"

definition resolve_step :: "btf \<Rightarrow> nat \<Rightarrow> btf_ty \<Rightarrow> u32 \<Rightarrow> (int + int \<times> u32) option" where
  "resolve_step b n t nelems =
     (case leaf_size t of
        Some sz \<Rightarrow> Some (Inr (int sz, nelems))
      | None \<Rightarrow>
          (case refers t of
             Some j \<Rightarrow> resolve_size_loop b n (btf_type_by_id b j) nelems
           | None \<Rightarrow>
               (case t of
                  TArray j ix k \<Rightarrow>
                    if nelems \<noteq> 0 \<and> unat k > UINT32_MAX div unat nelems then Some (Inl (- E2BIG))
                    else resolve_size_loop b n (btf_type_by_id b j) (nelems * k)
                | TFwd _ _ \<Rightarrow> Some (Inr (- 1, nelems))
                | _ \<Rightarrow> Some (Inl (- EINVAL)))))"

lemma resolve_step_eq:
  assumes "desc_at (bf_data b) off t"
  shows "resolve_size_loop b (Suc n) (Some (Type_at off)) nelems = resolve_step b n t nelems"
proof -
  note w = desc_kind [OF assms] desc_word_8 [OF assms]
  have s: "ty_small t" using assms by (simp add: desc_at_def)
  have v: "btf_type_is_void b (Type_at off) = Some (ty_kind t = BTF_KIND_FWD)" by (simp add: btf_type_is_void_def w(1))
  show ?thesis
  proof (cases t)
    case (TArray j ix k)
    then show ?thesis using desc_type_word [OF assms, of 3] desc_type_word [OF assms, of 5]
      by (simp add: resolve_step_def v w ty_kinds btf_kinds)
  next
    case (TRef r nm j)
    then show ?thesis by (cases r) (simp_all add: resolve_step_def v w ty_kinds btf_kinds)
  qed (use s in \<open>simp_all add: resolve_step_def v w ty_kinds btf_kinds\<close>)
qed

lemma resolve_loop_has:
  assumes "has_types b ts"
  shows "resolve_size_loop b (Suc n) (btf_type_by_id b i) nelems =
    (case ty_of ts i of None \<Rightarrow> Some (Inr (- 1, nelems)) | Some t \<Rightarrow> resolve_step b n t nelems)"
proof (cases "ty_of ts i")
  case None
  then show ?thesis using type_by_id_has(1,2) [OF assms, of i] by (cases "i = 0") (simp_all add: btf_type_is_void_def)
next
  case (Some t)
  then show ?thesis using type_by_id_has(3) [OF assms Some] resolve_step_eq by fastforce
qed

end
