(* ===== verification/Btf_Types.thy ===== *)
theory Btf_Types
  imports Btf
begin

text \<open>
  What the queries of \<^verbatim>\<open>Btf\<close> answer on sections that describe given types: sizes, names, and the key and
  value types of maps.
\<close>

section \<open>Resolving sizes\<close>


declare resolve_size_loop.simps(2) [simp del]

lemma mult_fits:
  fixes x y :: u32
  assumes "x = 0 \<or> unat y \<le> UINT32_MAX div unat x"
  shows "unat (x * y) = unat x * unat y"
proof (cases "x = 0")
  case False
  then have "unat x * unat y \<le> UINT32_MAX" using assms by (metis div_times_less_eq_dividend le_trans mult.commute mult_le_mono1)
  then show ?thesis by (simp add: unat_word_ariths(2) UINT32_MAX_def)
qed simp

lemma resolve_loop_total:
  assumes "has_types b ts"
  shows "\<exists>r. resolve_size_loop b n (btf_type_by_id b i) nelems = Some r \<and> (case r of Inl e \<Rightarrow> e = - E2BIG \<or> e = - EINVAL | Inr (s, m) \<Rightarrow> s = - 1 \<or> s \<ge> 0)"
proof (induction n arbitrary: i nelems)
  case (Suc n)
  then show ?case unfolding resolve_loop_has [OF assms]
    by (cases "ty_of ts i") (auto simp: resolve_step_def split: option.splits btf_ty.splits)
qed simp

text \<open>What the loop finds is the size, with the number of elements multiplied on the way.\<close>

lemma resolve_loop_sound:
  assumes "has_types b ts" "resolve_size_loop b n (btf_type_by_id b i) nelems = Some (Inr (s, m))" "s \<ge> 0"
  shows "\<exists>d k. d \<le> n \<and> sized ts d i (k * nat s) \<and> unat m = unat nelems * k"
  using assms(2)
proof (induction n arbitrary: i nelems)
  case 0
  then show ?case using assms(3) by simp
next
  case (Suc n)
  obtain t where t: "ty_of ts i = Some t" "resolve_step b n t nelems = Some (Inr (s, m))"
    using Suc.prems assms(3) by (auto simp: resolve_loop_has [OF assms(1)] split: option.splits)
  consider sz where "leaf_size t = Some sz" | j where "leaf_size t = None" "refers t = Some j" | j ix k where "t = TArray j ix k"
    using t(2) assms(3) by (auto simp: resolve_step_def split: option.splits btf_ty.splits)
  then show ?case
  proof cases
    case 1
    then have "s = int sz" "m = nelems" using t(2) by (auto simp: resolve_step_def)
    then show ?thesis using sized.leaf [OF t(1) 1] by (intro exI [of _ 1]) auto
  next
    case 2
    then have "resolve_size_loop b n (btf_type_by_id b j) nelems = Some (Inr (s, m))" using t(2) by (simp add: resolve_step_def)
    then obtain d k where "d \<le> n" "sized ts d j (k * nat s)" "unat m = unat nelems * k" using Suc.IH by blast
    then show ?thesis using sized.via [OF t(1) 2(2)] by (intro exI [of _ "Suc d"] exI [of _ k]) auto
  next
    case 3
    then have f: "nelems = 0 \<or> unat k \<le> UINT32_MAX div unat nelems" "resolve_size_loop b n (btf_type_by_id b j) (nelems * k) = Some (Inr (s, m))"
      using t(2) by (auto simp: resolve_step_def not_less split: if_splits)
    obtain d l where "d \<le> n" "sized ts d j (l * nat s)" "unat m = unat (nelems * k) * l" using Suc.IH [OF f(2)] by blast
    then show ?thesis using sized.elems [OF t(1) [unfolded 3], of d "l * nat s"] mult_fits [OF f(1)]
      by (intro exI [of _ "Suc d"] exI [of _ "unat k * l"]) (auto simp: mult.assoc)
  qed
qed

lemma sized_pos: "sized ts d i n \<Longrightarrow> 0 < d"
  by (induction rule: sized.induct) auto

lemma resolve_loop_complete:
  assumes "has_types b ts" "sized ts d i n" "d \<le> fuel" "0 < n" "nelems \<noteq> 0" "unat nelems * n \<le> UINT32_MAX"
  shows "\<exists>s m. resolve_size_loop b fuel (btf_type_by_id b i) nelems = Some (Inr (int s, m)) \<and> m \<noteq> 0 \<and> unat m * s = unat nelems * n"
  using assms(2-)
proof (induction arbitrary: fuel nelems rule: sized.induct)
  case (leaf i t n)
  then obtain f where "fuel = Suc f" by (cases fuel) auto
  then show ?case using leaf by (auto simp: resolve_loop_has [OF assms(1)] resolve_step_def)
next
  case (via i t j d n)
  then obtain f where f: "fuel = Suc f" "d \<le> f" by (cases fuel) auto
  have "leaf_size t = None" using via(2) by (cases t) auto
  then show ?case using via f by (simp add: resolve_loop_has [OF assms(1)] resolve_step_def)
next
  case (elems i j ix k d n)
  obtain f where f: "fuel = Suc f" "d \<le> f" using elems.prems(1) by (cases fuel) auto
  have p: "0 < n" "0 < unat k" using elems.prems(2) by auto
  have "unat nelems * unat k \<le> unat nelems * unat k * n" using p(1) by (metis One_nat_def Suc_leI mult.right_neutral mult_le_mono2)
  then have u: "unat nelems * unat k \<le> UINT32_MAX" by (rule le_trans) (use elems.prems(4) in \<open>simp add: mult.assoc\<close>)
  then have c: "unat k \<le> UINT32_MAX div unat nelems" using elems.prems(3) by (simp add: less_eq_div_iff_mult_less_eq unat_gt_0 mult.commute)
  then have mu: "unat (nelems * k) = unat nelems * unat k" by (intro mult_fits) simp
  moreover have "nelems * k \<noteq> 0" using mu p(2) elems.prems(3) by (metis mult_is_0 unat_0 unat_eq_zero less_irrefl)
  moreover have "unat (nelems * k) * n \<le> UINT32_MAX" using elems.prems(4) mu by (simp add: mult.assoc)
  ultimately obtain s m where "resolve_size_loop b f (btf_type_by_id b j) (nelems * k) = Some (Inr (int s, m))" "m \<noteq> 0" "unat m * s = unat (nelems * k) * n"
    using elems.IH [OF f(2) p(1)] by blast
  then show ?case using c elems.hyps(1) f(1) mu by (auto simp: resolve_loop_has [OF assms(1)] resolve_step_def mult.assoc not_less)
qed

lemma resolve_size_eq:
  assumes "resolve_size_loop b MAX_RESOLVE_DEPTH (btf_type_by_id b i) 1 = Some (Inr (s, m))"
  shows "btf_resolve_size b i = Some (if s < 0 then - EINVAL else if m \<noteq> 0 \<and> s > int (UINT32_MAX div unat m) then - E2BIG else uint m * s)"
  unfolding btf_resolve_size_def assms by simp

lemma product_fits:
  fixes m :: u32
  assumes "\<not> s < 0" "\<not> (m \<noteq> 0 \<and> s > int (UINT32_MAX div unat m))"
  shows "uint m * s = int (unat m * nat s)" "uint m * s < 2 ^ 32"
proof -
  show e: "uint m * s = int (unat m * nat s)" using assms(1) by simp
  have "unat m * nat s \<le> UINT32_MAX"
  proof (cases "m = 0")
    case False
    then have "nat s \<le> UINT32_MAX div unat m" using assms by linarith
    then show ?thesis by (metis div_times_less_eq_dividend le_trans mult.commute mult_le_mono1)
  qed simp
  then have "unat m * nat s < 2 ^ 32" by (simp add: UINT32_MAX_def)
  then show "uint m * s < 2 ^ 32" unfolding e by (metis of_nat_less_iff of_nat_numeral of_nat_power)
qed

lemma resolve_size_cases:
  assumes "has_types b ts"
  shows "\<exists>r. btf_resolve_size b i = Some r \<and>
    (r \<in> {- EINVAL, - E2BIG} \<or> 0 \<le> r \<and> r < 2 ^ 32 \<and> (\<exists>d\<le>MAX_RESOLVE_DEPTH. sized ts d i (nat r)))"
proof -
  obtain r where r: "resolve_size_loop b MAX_RESOLVE_DEPTH (btf_type_by_id b i) 1 = Some r"
    "case r of Inl e \<Rightarrow> e = - E2BIG \<or> e = - EINVAL | Inr (s, m) \<Rightarrow> s = - 1 \<or> s \<ge> 0"
    using resolve_loop_total [OF assms] by blast
  show ?thesis
  proof (cases r)
    case (Inl e)
    then show ?thesis using r(2) unfolding btf_resolve_size_def r(1) by auto
  next
    case (Inr sm)
    then obtain s m where sm: "resolve_size_loop b MAX_RESOLVE_DEPTH (btf_type_by_id b i) 1 = Some (Inr (s, m))" using r(1) by (cases sm) simp
    show ?thesis
    proof (cases "s < 0 \<or> m \<noteq> 0 \<and> s > int (UINT32_MAX div unat m)")
      case True
      then show ?thesis unfolding resolve_size_eq [OF sm] by (cases "s < 0") simp_all
    next
      case False
      then have n: "\<not> s < 0" "\<not> (m \<noteq> 0 \<and> s > int (UINT32_MAX div unat m))" by blast+
      have "s \<ge> 0" using n(1) by simp
      then obtain d k where d: "d \<le> MAX_RESOLVE_DEPTH" "sized ts d i (k * nat s)" "unat m = unat (1 :: u32) * k"
        using resolve_loop_sound [OF assms sm] by blast
      have "nat (uint m * s) = k * nat s" unfolding product_fits(1) [OF n] d(3) nat_int by (simp only: unat_1 mult_1)
      then have "sized ts d i (nat (uint m * s))" using d(2) by simp
      moreover have "0 \<le> uint m * s" unfolding product_fits(1) [OF n] by simp
      ultimately show ?thesis using product_fits(2) [OF n] d(1) False unfolding resolve_size_eq [OF sm] by auto
    qed
  qed
qed

lemma resolve_size_complete:
  assumes "has_types b ts" "sized ts d i n" "d \<le> MAX_RESOLVE_DEPTH" "0 < n" "n < 2 ^ 32"
  shows "btf_resolve_size b i = Some (int n)"
proof -
  obtain s m where l: "resolve_size_loop b MAX_RESOLVE_DEPTH (btf_type_by_id b i) 1 = Some (Inr (int s, m))" "m \<noteq> 0" "unat m * s = n"
    using resolve_loop_complete [OF assms(1-4), of 1] assms(5) by (auto simp: UINT32_MAX_def)
  have "s \<le> UINT32_MAX div unat m"
    using l(2,3) assms(5) by (simp add: less_eq_div_iff_mult_less_eq unat_gt_0 UINT32_MAX_def mult.commute)
  then have "\<not> (m \<noteq> 0 \<and> int s > int (UINT32_MAX div unat m))" by simp
  then have "btf_resolve_size b i = Some (uint m * int s)" unfolding resolve_size_eq [OF l(1)] by (simp only: if_False of_nat_less_0_iff)
  moreover have "uint m * int s = int n" unfolding l(3) [symmetric] by simp
  ultimately show ?thesis by simp
qed

text \<open>
  C29: Sizes.  For a section with types \<open>ts\<close>, \<open>btf__resolve_size\<close> returns for every number, also
  when types refer to each other in a circle.  A result that is not negative is the size of the
  type, the product of the lengths of all arrays on the way and the size at the end; it is below
  \<open>2 ^ 32\<close>.  A size that is not 0 and fits is found if at most 32 descriptors lead to it.
  Otherwise the result is \<open>-EINVAL\<close> or \<open>-E2BIG\<close>.
\<close>

theorem resolve_size_correct:
  assumes "has_types b ts"
  shows "\<exists>r. btf_resolve_size b i = Some r \<and> (r < 0 \<longrightarrow> r \<in> {- EINVAL, - E2BIG}) \<and>
    (0 \<le> r \<longrightarrow> r < 2 ^ 32 \<and> (\<exists>d\<le>MAX_RESOLVE_DEPTH. sized ts d i (nat r))) \<and>
    (\<forall>d n. sized ts d i n \<and> d \<le> MAX_RESOLVE_DEPTH \<and> 0 < n \<and> n < 2 ^ 32 \<longrightarrow> r = int n)"
proof -
  obtain r where r: "btf_resolve_size b i = Some r"
    "r \<in> {- EINVAL, - E2BIG} \<or> 0 \<le> r \<and> r < 2 ^ 32 \<and> (\<exists>d\<le>MAX_RESOLVE_DEPTH. sized ts d i (nat r))"
    using resolve_size_cases [OF assms] by blast
  have "r = int n" if "sized ts d i n" "d \<le> MAX_RESOLVE_DEPTH" "0 < n" "n < 2 ^ 32" for d n
    using resolve_size_complete [OF assms that] r(1) by simp
  then have "\<forall>d n. sized ts d i n \<and> d \<le> MAX_RESOLVE_DEPTH \<and> 0 < n \<and> n < 2 ^ 32 \<longrightarrow> r = int n" by blast
  moreover have "r < 0 \<longrightarrow> r \<in> {- EINVAL, - E2BIG}" using r(2) by linarith
  moreover have "0 \<le> r \<longrightarrow> r < 2 ^ 32 \<and> (\<exists>d\<le>MAX_RESOLVE_DEPTH. sized ts d i (nat r))" using r(2) by (auto simp: EINVAL_def E2BIG_def)
  ultimately show ?thesis using r(1) by blast
qed

section \<open>Names\<close>

definition name_offset :: "string list \<Rightarrow> nat \<Rightarrow> nat" where
  "name_offset names k = length (strings_bytes (take k names))"

lemma unat_of_char: "unat (of_char c :: u8) = of_char c"
proof -
  have "(of_char c :: u8) = of_nat (of_char c)" by (simp add: of_nat_of_char)
  then show ?thesis using nat_of_char_less_256 [of c] by (simp add: unat_of_nat)
qed

lemma char_byte [simp]: "char_of (unat (of_char c :: u8)) = c"
  by (simp add: unat_of_char)

lemma of_char_0: "(of_char c :: u8) = 0 \<longleftrightarrow> c = CHR 0x00"
proof -
  have "(of_char c :: u8) = 0 \<longleftrightarrow> (of_char c :: nat) = of_char (CHR 0x00)" unfolding unat_of_char [symmetric] by (simp add: unat_eq_0)
  then show ?thesis unfolding of_char_eq_iff .
qed

lemma c_string_at_bytes:
  assumes "bytes_at m off (bytes_of s @ [0])" "CHR 0x00 \<notin> set s"
  shows "c_string_at m off = Some s"
proof -
  have "drop off m = (bytes_of s @ [0]) @ drop (length (bytes_of s @ [0])) (drop off m)"
    using assms(1) unfolding bytes_at_def by (metis append_take_drop_id)
  moreover have nz: "\<forall>x\<in>set (bytes_of s). x \<noteq> 0" using assms(2) by (auto simp: bytes_of_def of_char_0)
  ultimately obtain rest where r: "drop off m = bytes_of s @ 0 # rest" by auto
  then have "takeWhile (\<lambda>b. b \<noteq> 0) (drop off m) = bytes_of s" using nz by (simp add: takeWhile_append2)
  then show ?thesis unfolding c_string_at_def Let_def r by (simp add: bytes_of_def o_def)
qed

lemma strings_bytes_append: "strings_bytes (xs @ ys) = strings_bytes xs @ concat (map (\<lambda>s. bytes_of s @ [0]) ys)"
  by (simp add: strings_bytes_def)

lemma name_by_offset_encoded:
  assumes "length (btf_bytes ts names) < 2 ^ 31" "bf_data b = btf_bytes ts names" "bf_strings b = 24 + length (types_bytes ts)"
    and "k < length names" "CHR 0x00 \<notin> set (names ! k)"
  shows "btf_name_by_offset b (of_nat (name_offset names k)) = Some (Some (names ! k))"
proof -
  have s: "strings_bytes names = strings_bytes (take k names) @ (bytes_of (names ! k) @ [0]) @ concat (map (\<lambda>s. bytes_of s @ [0]) (drop (Suc k) names))"
    using id_take_nth_drop [OF assms(4)] strings_bytes_append [of "take k names" "names ! k # drop (Suc k) names"] by simp
  have l: "length (strings_bytes names) < 2 ^ 31" using assms(1) by (simp add: btf_bytes_def)
  have o: "name_offset names k < length (strings_bytes names)" unfolding name_offset_def s by simp
  then have u: "unat (of_nat (name_offset names k) :: u32) = name_offset names k" using l by (simp add: unat_of_nat)
  have "bytes_at (btf_bytes ts names) (24 + length (types_bytes ts)) (strings_bytes names)"
    using bytes_at_self [of "btf_bytes ts names"] by (subst (asm) (2) btf_bytes_def) (simp add: bytes_at_append add.assoc)
  then have "bytes_at (btf_bytes ts names) (24 + length (types_bytes ts) + name_offset names k) (bytes_of (names ! k) @ [0])"
    unfolding s name_offset_def by (simp only: bytes_at_append add.assoc)
  then have "c_string_at (btf_bytes ts names) (24 + length (types_bytes ts) + name_offset names k) = Some (names ! k)"
    using assms(5) by (rule c_string_at_bytes)
  moreover have "(of_nat (name_offset names k) :: u32) < hdr_str_len (btf_bytes ts names)"
    unfolding word_less_nat_alt u btf_bytes_header(6) [OF assms(1)] by (rule o)
  ultimately show ?thesis by (simp add: btf_name_by_offset_def assms(2,3) u)
qed

text \<open>
  C28: round trip.  Parsing a section with any types and names succeeds when memory suffices; it has as many
  types as were written, every type number leads to the words of its descriptor, and the offset
  of a name to the name.  No read leaves the data.
\<close>

theorem btf_new_roundtrip:
  assumes "length (btf_bytes ts names) < 2 ^ 31" "ts \<noteq> []" "\<forall>t\<in>set ts. ty_small t" "\<forall>s\<in>set names. CHR 0x00 \<notin> set s"
    and "ba_calloc al" "ba_malloc al" "\<And>n. ba_realloc al n"
  shows "\<exists>b. btf_new al (btf_bytes ts names) = Some (Inr b) \<and> unat (nr_types b) = length ts \<and>
    (\<forall>i t. ty_of ts i = Some t \<longrightarrow> (\<exists>p. btf_type_by_id b i = Some p \<and> btf_kind b p = Some (ty_kind t) \<and>
      (\<forall>k<length (ty_words t). type_word b p (4 * k) = Some (ty_words t ! k)))) \<and>
    (\<forall>k<length names. btf_name_by_offset b (of_nat (name_offset names k)) = Some (Some (names ! k)))"
proof -
  obtain b where b: "btf_new al (btf_bytes ts names) = Some (Inr b)" "has_types b ts" "bf_data b = btf_bytes ts names"
    "bf_strings b = 24 + length (types_bytes ts)"
    using new_encoded [OF assms(1,2,3,5,6,7)] by blast
  have "\<exists>p. btf_type_by_id b i = Some p \<and> btf_kind b p = Some (ty_kind t) \<and> (\<forall>k<length (ty_words t). type_word b p (4 * k) = Some (ty_words t ! k))"
    if "ty_of ts i = Some t" for i t
    using type_by_id_has(3) [OF b(2) that] desc_kind desc_type_word by blast
  moreover have "btf_name_by_offset b (of_nat (name_offset names k)) = Some (Some (names ! k))" if "k < length names" for k
    using name_by_offset_encoded [OF assms(1) b(3,4) that] assms(4) that by simp
  ultimately show ?thesis using b(1) nr_types_has(2) [OF b(2)] by blast
qed

text \<open>
  The types of \<open>struct ____btf_map_logger { __u32 key; struct logger_value[2] value; }\<close>, as the macro
  \<open>BPF_ANNOTATE_KV_PAIR\<close> declares them.
\<close>

definition sample_names :: "string list" where
  "sample_names = [''u32'', ''____btf_map_logger'']"

definition sample_types :: "btf_ty list" where
  "sample_types = [TInt 1 4 32, TRef Ref_typedef 0 1, TArray 2 2 5, TComp False False 5 24 [(0, 2, 0), (0, 3, 32)]]"

definition plenty :: btf_alloc where "plenty = \<lparr>ba_calloc = True, ba_malloc = True, ba_realloc = (\<lambda>_. True)\<rparr>"

lemma sample_btf:
  "length (btf_bytes sample_types sample_names) < 2 ^ 31" "sample_types \<noteq> []" "\<forall>t\<in>set sample_types. ty_small t"
  "\<forall>s\<in>set sample_names. CHR 0x00 \<notin> set s" "ba_calloc plenty" "ba_malloc plenty" "ba_realloc plenty n"
  by (simp_all add: sample_types_def sample_names_def btf_bytes_def types_bytes_def strings_bytes_def bytes_of_def plenty_def)

theorem btf_new_roundtrip_witness:
  "\<exists>b. btf_new plenty (btf_bytes sample_types sample_names) = Some (Inr b) \<and> unat (nr_types b) = 4 \<and>
     (\<exists>p. btf_type_by_id b 3 = Some p \<and> type_word b p 20 = Some 5) \<and>
     btf_name_by_offset b 5 = Some (Some ''____btf_map_logger'')"
proof -
  obtain b where b: "btf_new plenty (btf_bytes sample_types sample_names) = Some (Inr b)" "unat (nr_types b) = length sample_types"
    "\<forall>i t. ty_of sample_types i = Some t \<longrightarrow> (\<exists>p. btf_type_by_id b i = Some p \<and> btf_kind b p = Some (ty_kind t) \<and>
      (\<forall>k<length (ty_words t). type_word b p (4 * k) = Some (ty_words t ! k)))"
    "\<forall>k<length sample_names. btf_name_by_offset b (of_nat (name_offset sample_names k)) = Some (Some (sample_names ! k))"
    using btf_new_roundtrip [OF sample_btf] by blast
  have "ty_of sample_types 3 = Some (TArray 2 2 5)" by (simp add: ty_of_def sample_types_def)
  from b(3) [rule_format, OF this] obtain p where p: "btf_type_by_id b 3 = Some p"
    "\<forall>k<length (ty_words (TArray 2 2 5)). type_word b p (4 * k) = Some (ty_words (TArray 2 2 5) ! k)" by blast
  have "type_word b p 20 = Some 5" using p(2) [rule_format, of 5] by simp
  moreover have "name_offset sample_names 1 = 5" by (simp add: name_offset_def sample_names_def strings_bytes_def bytes_of_def)
  then have "btf_name_by_offset b 5 = Some (Some ''____btf_map_logger'')"
    using b(4) [rule_format, of 1] by (simp add: sample_names_def)
  ultimately show ?thesis using b(1,2) p(1) by (simp add: sample_types_def)
qed

theorem resolve_size_correct_witness:
  "\<exists>b. btf_new plenty (btf_bytes sample_types sample_names) = Some (Inr b) \<and> btf_resolve_size b 3 = Some 20"
proof -
  obtain b where b: "btf_new plenty (btf_bytes sample_types sample_names) = Some (Inr b)" "has_types b sample_types"
    using new_encoded [OF sample_btf(1,2,3,5,6,7)] by blast
  have "sized sample_types 1 1 4" by (rule sized.leaf [of _ _ "TInt 1 4 32"]) (simp_all add: ty_of_def sample_types_def)
  then have "sized sample_types (Suc 1) 2 4" by (rule sized.via [rotated 2, of _ _ 1 _ _ "TRef Ref_typedef 0 1"]) (simp_all add: ty_of_def sample_types_def)
  then have "sized sample_types (Suc (Suc 1)) 3 (unat (5 :: u32) * 4)" by (rule sized.elems [rotated 1, of _ _ 2 _ _ 2]) (simp_all add: ty_of_def sample_types_def)
  then have s: "sized sample_types 3 3 20" by (simp add: numeral_3_eq_3)
  obtain r where r: "btf_resolve_size b 3 = Some r"
      "\<forall>d n. sized sample_types d 3 n \<and> d \<le> MAX_RESOLVE_DEPTH \<and> 0 < n \<and> n < 2 ^ 32 \<longrightarrow> r = int n"
    using resolve_size_correct [OF b(2), of 3] by blast
  have "r = int 20" using r(2) [rule_format, of 3 20] s by (simp add: MAX_RESOLVE_DEPTH_def)
  then show ?thesis using b(1) r(1) by simp
qed

section \<open>Searches\<close>

text \<open>\<open>f\<close> gives the name of a type, or None when its offset is behind the string section.\<close>

definition has_names :: "btf \<Rightarrow> btf_ty list \<Rightarrow> (btf_ty \<Rightarrow> string option) \<Rightarrow> bool" where
  "has_names b ts f \<longleftrightarrow> (\<forall>t\<in>set ts. btf_name_by_offset b (ty_name t) = Some (f t))"

lemma desc_word_0: "desc_at (bf_data b) off t \<Longrightarrow> type_word b (Type_at off) 0 = Some (ty_name t)"
  using desc_type_word [of b off t 0] ty_words_3 [of t] by auto

lemma find_by_name_has:
  assumes "list_all2 (desc_at (bf_data b)) offs ts" "has_names b ts f"
  shows "find_by_name b nm i offs =
    Some (if \<exists>t\<in>set ts. f t = Some nm then int (i + length (takeWhile (\<lambda>t. f t \<noteq> Some nm) ts)) else - ENOENT)"
  using assms
proof (induction offs ts arbitrary: i rule: list_all2_induct)
  case (Cons off offs t ts)
  then have "btf_name_by_offset b (ty_name t) = Some (f t)" "has_names b ts f" by (simp_all add: has_names_def)
  then show ?case using Cons.IH [of "i + 1"] desc_word_0 [OF Cons.hyps(1)] by (simp del: ty_name.simps)
qed simp

text \<open>The number of the first type with a name.\<close>

definition first_named :: "btf_ty list \<Rightarrow> (btf_ty \<Rightarrow> string option) \<Rightarrow> string \<Rightarrow> u32 \<Rightarrow> bool" where
  "first_named ts f nm i \<longleftrightarrow> (\<exists>t. ty_of ts i = Some t \<and> f t = Some nm) \<and> (\<forall>j t. j < i \<and> ty_of ts j = Some t \<longrightarrow> f t \<noteq> Some nm)"

lemma first_named_index:
  assumes "first_named ts f nm i"
  shows "\<exists>t\<in>set ts. f t = Some nm" "length (takeWhile (\<lambda>t. f t \<noteq> Some nm) ts) = unat i - 1" "0 < unat i" "unat i \<le> length ts"
proof -
  obtain t where t: "ty_of ts i = Some t" "f t = Some nm" and m: "\<And>j t. j < i \<Longrightarrow> ty_of ts j = Some t \<Longrightarrow> f t \<noteq> Some nm"
    using assms unfolding first_named_def by blast
  show i: "0 < unat i" "unat i \<le> length ts" using t by (auto simp: ty_of_def unat_gt_0 split: if_splits)
  have ti: "t = ts ! (unat i - 1)" using t(1) by (simp add: ty_of_def split: if_splits)
  then show "\<exists>t\<in>set ts. f t = Some nm" using t(2) i by (metis Suc_pred' Suc_le_lessD nth_mem)
  have "f (ts ! k) \<noteq> Some nm" if "k < unat i - 1" for k
  proof (rule m)
    have k: "k + 1 < unat i" using that by linarith
    have "unat i < 2 ^ 32" by (rule unsigned_less [THEN less_le_trans]) simp
    then have u: "unat (of_nat (k + 1) :: u32) = k + 1" unfolding unat_of_nat using k by (intro mod_less) simp
    then show "(of_nat (k + 1) :: u32) < i" unfolding word_less_nat_alt using k by linarith
    show "ty_of ts (of_nat (k + 1)) = Some (ts ! k)" unfolding ty_of_def unat_eq_0 [symmetric] u using k i(2) by simp
  qed
  then show "length (takeWhile (\<lambda>t. f t \<noteq> Some nm) ts) = unat i - 1"
    using t(2) i ti by (subst takeWhile_eq_take_P_nth [of "unat i - 1"]) auto
qed

lemma find_first_named:
  assumes "has_types b ts" "has_names b ts f" "first_named ts f nm i" "nm \<noteq> ''void''"
  shows "btf_find_by_name b nm = Some (uint i)"
proof -
  note n = first_named_index [OF assms(3)]
  have "btf_find_by_name b nm = Some (int (1 + (unat i - 1)))"
    using find_by_name_has [of b "bf_types b" ts f nm 1] assms(1,2,4) n(1,2) by (simp add: btf_find_by_name_def has_types_def)
  then show ?thesis using n(3) by simp
qed

lemma desc_vlen:
  assumes "desc_at (bf_data b) off (TComp u f nm sz ms)"
  shows "btf_vlen b (Type_at off) = Some (of_nat (length ms))"
  using desc_info [OF assms] info_word_fields(2) [of "length ms" "if u then BTF_KIND_UNION else BTF_KIND_STRUCT" f] assms
  by (simp add: btf_vlen_def type_word_def desc_at_def btf_kinds)

lemma kv_tids_resolved:
  assumes "has_types b ts" "has_names b ts f" "length nm < 243"
    and "first_named ts f (''____btf_map_'' @ nm) i" "ty_of ts i = Some (TComp False kf sn sz ((kn, kt, ko) # (vn, vt, vo) # ms))"
    and "btf_resolve_size b kt = Some ks" "0 \<le> ks" "btf_resolve_size b vt = Some vs" "0 \<le> vs"
  shows "btf_get_map_kv_tids b nm key_size value_size =
    Some (if uint key_size = ks \<and> uint value_size = vs then (0, kt, vt) else (- EINVAL, 0, 0))"
proof -
  let ?full = "''____btf_map_'' @ nm"
  obtain off where off: "btf_type_by_id b i = Some (Type_at off)" "desc_at (bf_data b) off (TComp False kf sn sz ((kn, kt, ko) # (vn, vt, vo) # ms))"
    using type_by_id_has(3) [OF assms(1,5)] by blast
  have sm: "length ((kn, kt, ko) # (vn, vt, vo) # ms) < 2 ^ 16" using off(2) by (simp add: desc_at_def)
  have k: "btf_kind b (Type_at off) = Some BTF_KIND_STRUCT" using desc_kind [OF off(2)] ty_kinds(4) [OF sm] by simp
  have "unat (of_nat (length ((kn, kt, ko) # (vn, vt, vo) # ms)) :: u32) = length ((kn, kt, ko) # (vn, vt, vo) # ms)"
    unfolding unat_of_nat using sm by (intro mod_less) simp
  then have v: "\<not> of_nat (length ((kn, kt, ko) # (vn, vt, vo) # ms)) < (2 :: u32)" by (simp add: word_less_nat_alt)
  have w: "type_word b (Type_at off) 16 = Some kt" "type_word b (Type_at off) 28 = Some vt"
    using desc_type_word [OF off(2), of 4] desc_type_word [OF off(2), of 7] by (simp_all add: triples_def)
  have find: "btf_find_by_name b ?full = Some (uint i)" by (rule find_first_named [OF assms(1,2,4)]) simp
  have t: "take 255 ?full = ?full" "length ?full \<noteq> 256" using assms(3) by simp_all
  have i: "(of_int (uint i) :: u32) = i" "\<not> uint i < 0" by simp_all
  show ?thesis
    unfolding btf_get_map_kv_tids_def Let_def t(1) find if_not_P [OF t(2)] Option.bind.bind_lunit i(1) if_not_P [OF i(2)] off(1)
    using v assms(7,9) by (simp add: k desc_vlen [OF off(2)] w assms(6,8))
qed

text \<open>
  Key and value types.  If the first type with the name \<open>____btf_map_\<close> and the name of the map is a
  structure with at least two members, whose types have the sizes of keys and values of the map,
  then \<open>btf__get_map_kv_tids\<close> finds the numbers of these types.  With other sizes it returns \<open>-EINVAL\<close>.
\<close>

theorem kv_tids_correct:
  assumes "has_types b ts" "has_names b ts f" "length nm < 243"
    and "first_named ts f (''____btf_map_'' @ nm) i" "ty_of ts i = Some (TComp False kf sn sz ((kn, kt, ko) # (vn, vt, vo) # ms))"
    and "sized ts d kt ks" "d \<le> MAX_RESOLVE_DEPTH" "0 < ks" "ks < 2 ^ 32" "sized ts e vt vs" "e \<le> MAX_RESOLVE_DEPTH" "0 < vs" "vs < 2 ^ 32"
  shows "btf_get_map_kv_tids b nm key_size value_size =
    Some (if unat key_size = ks \<and> unat value_size = vs then (0, kt, vt) else (- EINVAL, 0, 0))"
proof -
  have r: "btf_resolve_size b kt = Some (int ks)" "btf_resolve_size b vt = Some (int vs)"
    by (rule resolve_size_complete [OF assms(1,6-9)], rule resolve_size_complete [OF assms(1,10-13)])
  have u: "uint w = int n \<longleftrightarrow> unat w = n" for w :: u32 and n by (metis nat_int uint_nat)
  show ?thesis using kv_tids_resolved [OF assms(1-5) r(1) _ r(2), of key_size value_size] unfolding u by simp
qed

definition sample_ty_name :: "btf_ty \<Rightarrow> string option" where
  "sample_ty_name t = (if ty_name t = 0 then Some [] else if ty_name t = 1 then Some ''u32'' else Some ''____btf_map_logger'')"

lemma sample_sized: "sized sample_types 2 2 4" "sized sample_types 3 3 20"
proof -
  have "sized sample_types 1 1 4" by (rule sized.leaf [of _ _ "TInt 1 4 32"]) (simp_all add: ty_of_def sample_types_def)
  then have *: "sized sample_types (Suc 1) 2 4" by (rule sized.via [rotated 2, of _ _ 1 _ _ "TRef Ref_typedef 0 1"]) (simp_all add: ty_of_def sample_types_def)
  then show "sized sample_types 2 2 4" by (simp add: numeral_2_eq_2)
  have "sized sample_types (Suc (Suc 1)) 3 (unat (5 :: u32) * 4)" using * by (rule sized.elems [rotated 1, of _ _ 2 _ _ 2]) (simp_all add: ty_of_def sample_types_def)
  then show "sized sample_types 3 3 20" by (simp add: numeral_3_eq_3)
qed

lemma sample_first_named: "first_named sample_types sample_ty_name (''____btf_map_'' @ ''logger'') 4"
proof -
  have "sample_ty_name t \<noteq> Some (''____btf_map_'' @ ''logger'')" if "j < 4" "ty_of sample_types j = Some t" for j t
  proof -
    have "j = 0 \<or> j = 1 \<or> j = 2 \<or> j = 3" using that(1) by (simp add: word_less_nat_alt word_unat_eq_iff) arith
    then show ?thesis using that(2) by (elim disjE) (auto simp: ty_of_def sample_types_def sample_ty_name_def)
  qed
  moreover have "ty_of sample_types 4 = Some (TComp False False 5 24 [(0, 2, 0), (0, 3, 32)])" by (simp add: ty_of_def sample_types_def)
  moreover have "sample_ty_name (TComp False False 5 24 [(0, 2, 0), (0, 3, 32)]) = Some (''____btf_map_'' @ ''logger'')" by (simp add: sample_ty_name_def)
  ultimately show ?thesis unfolding first_named_def by blast
qed

theorem kv_tids_correct_witness:
  "\<exists>b. btf_new plenty (btf_bytes sample_types sample_names) = Some (Inr b) \<and>
     btf_get_map_kv_tids b ''logger'' 4 20 = Some (0, 2, 3) \<and> btf_get_map_kv_tids b ''logger'' 4 24 = Some (- EINVAL, 0, 0)"
proof -
  obtain b where b: "btf_new plenty (btf_bytes sample_types sample_names) = Some (Inr b)" "has_types b sample_types"
    "bf_data b = btf_bytes sample_types sample_names" "bf_strings b = 24 + length (types_bytes sample_types)"
    using new_encoded [OF sample_btf(1,2,3,5,6,7)] by blast
  have o: "name_offset sample_names 0 = 1" "name_offset sample_names 1 = 5"
    by (simp_all add: name_offset_def sample_names_def strings_bytes_def bytes_of_def)
  have n: "btf_name_by_offset b 1 = Some (Some ''u32'')" "btf_name_by_offset b 5 = Some (Some ''____btf_map_logger'')"
    using name_by_offset_encoded [OF sample_btf(1) b(3,4), of 0] name_by_offset_encoded [OF sample_btf(1) b(3,4), of 1] o
    by (simp_all add: sample_names_def)
  have z: "btf_name_by_offset b 0 = Some (Some [])"
  proof -
    have "0 < hdr_str_len (bf_data b)" unfolding b(3) word_less_nat_alt btf_bytes_header(6) [OF sample_btf(1)] by (simp add: strings_bytes_def)
    moreover have "bytes_at (bf_data b) (bf_strings b) (bytes_of [] @ [0])"
      unfolding b(3,4) by (simp add: bytes_at_def bytes_of_def btf_bytes_def strings_bytes_def)
    ultimately show ?thesis using c_string_at_bytes [of "bf_data b" "bf_strings b" "[]"] by (simp add: btf_name_by_offset_def)
  qed
  have "has_names b sample_types sample_ty_name"
    using n z by (simp add: has_names_def sample_types_def sample_ty_name_def)
  then have "btf_get_map_kv_tids b ''logger'' k v = Some (if unat k = 4 \<and> unat v = 20 then (0, 2, 3) else (- EINVAL, 0, 0))" for k v
    using kv_tids_correct [OF b(2) _ _ sample_first_named _ sample_sized(1) _ _ _ sample_sized(2), where kf = False and sn = 5 and sz = 24
        and kn = 0 and ko = 0 and vn = 0 and vo = 32 and ms = "[]"]
    by (simp add: ty_of_def sample_types_def MAX_RESOLVE_DEPTH_def)
  then show ?thesis using b(1) by simp
qed

end
