(* ===== verification/Btf_Ext.thy ===== *)
theory Btf_Ext
  imports Btf_Types Libbpf_Relocs
begin

text \<open>
  The extension of the type information, section \<open>.BTF.ext\<close>: \<open>libbpf/src/btf.c\<close> from \<open>btf_ext_setup_info\<close>.  It
  holds three tables (functions, lines, fields), each a size of records and then, per program
  section, a header and the records.  Constructing it checks the tables; relocating copies the
  records of one program section to the end of those collected so far, with the instruction
  offsets counted in instructions of the program that is assembled.
\<close>

section \<open>State\<close>

text \<open>\<open>struct btf_ext_info\<close>: the offset of a table in the data, behind its record size.\<close>

record btf_ext_info =
  xi_info :: nat
  xi_rec_size :: u32
  xi_len :: u32

record btf_ext =
  be_data :: packet
  be_func_info :: btf_ext_info
  be_line_info :: btf_ext_info
  be_field_reloc_info :: btf_ext_info

definition no_info :: btf_ext_info where "no_info = \<lparr>xi_info = 0, xi_rec_size = 0, xi_len = 0\<rparr>"

text \<open>
  The fields of \<open>struct btf_ext_header\<close>, each a checked read: None when the field does not lie
  in the data.  Then the ends of three of them.
\<close>

definition ext_magic :: "packet \<Rightarrow> u16 option" where "ext_magic m = mem16 m 0"
definition ext_version :: "packet \<Rightarrow> u8 option" where "ext_version m = mem8 m 2"
definition ext_flags :: "packet \<Rightarrow> u8 option" where "ext_flags m = mem8 m 3"
definition ext_hdr_len :: "packet \<Rightarrow> u32 option" where "ext_hdr_len m = mem32 m 4"
definition ext_func_info_off :: "packet \<Rightarrow> u32 option" where "ext_func_info_off m = mem32 m 8"
definition ext_func_info_len :: "packet \<Rightarrow> u32 option" where "ext_func_info_len m = mem32 m 12"
definition ext_line_info_off :: "packet \<Rightarrow> u32 option" where "ext_line_info_off m = mem32 m 16"
definition ext_line_info_len :: "packet \<Rightarrow> u32 option" where "ext_line_info_len m = mem32 m 20"
definition ext_field_reloc_off :: "packet \<Rightarrow> u32 option" where "ext_field_reloc_off m = mem32 m 24"
definition ext_field_reloc_len :: "packet \<Rightarrow> u32 option" where "ext_field_reloc_len m = mem32 m 28"

definition END_HDR_LEN :: nat where "END_HDR_LEN = 8"
definition END_LINE_INFO_LEN :: u32 where "END_LINE_INFO_LEN = 24"
definition END_FIELD_RELOC_LEN :: u32 where "END_FIELD_RELOC_LEN = 32"
definition SEC_HDRLEN :: nat where "SEC_HDRLEN = 8"

section \<open>Construction\<close>

text \<open>The loop over the sections of a table; None is a read outside the data.\<close>

function check_secs :: "packet \<Rightarrow> nat \<Rightarrow> nat \<Rightarrow> nat \<Rightarrow> int option" where
  "check_secs m record_size sinfo info_left =
     (if info_left = 0 then Some 0
      else if info_left < SEC_HDRLEN then Some (- EINVAL)
      else
        Option.bind (mem32 m (sinfo + 4)) (\<lambda>num_records.
          if num_records = 0 then Some (- EINVAL)
          else
            (let total_record_size = SEC_HDRLEN + unat num_records * record_size
             in if info_left < total_record_size then Some (- EINVAL)
                else check_secs m record_size (sinfo + total_record_size) (info_left - total_record_size))))"
  by pat_completeness auto

termination
  by (relation "measure (\<lambda>(m, r, s, l). l)") (auto simp: SEC_HDRLEN_def)

declare check_secs.simps [simp del]

definition btf_ext_setup_info :: "packet \<Rightarrow> u32 \<Rightarrow> u32 \<Rightarrow> u32 \<Rightarrow> (int \<times> btf_ext_info) option" where
  "btf_ext_setup_info m off len min_rec_size =
     (if len = 0 then Some (0, no_info)
      else if off AND 0x03 \<noteq> 0 then Some (- EINVAL, no_info)
      else Option.bind (ext_hdr_len m) (\<lambda>hdr_len.
        (let info = unat hdr_len + unat off
         in if length m < info + unat len then Some (- EINVAL, no_info)
            else if unat len < 4 then Some (- EINVAL, no_info)
            else
              Option.bind (mem32 m info) (\<lambda>record_size.
                if record_size < min_rec_size \<or> record_size AND 0x03 \<noteq> 0 then Some (- EINVAL, no_info)
                else if unat len - 4 = 0 then Some (- EINVAL, no_info)
                else
                  Option.bind (check_secs m (unat record_size) (info + 4) (unat len - 4)) (\<lambda>err.
                    if err \<noteq> 0 then Some (err, no_info)
                    else Some (0, \<lparr>xi_info = info + 4, xi_rec_size = record_size, xi_len = len - 4\<rparr>))))))"

definition btf_ext_setup_func_info :: "packet \<Rightarrow> (int \<times> btf_ext_info) option" where
  "btf_ext_setup_func_info m =
     Option.bind (ext_func_info_off m) (\<lambda>off. Option.bind (ext_func_info_len m) (\<lambda>len. btf_ext_setup_info m off len 8))"

definition btf_ext_setup_line_info :: "packet \<Rightarrow> (int \<times> btf_ext_info) option" where
  "btf_ext_setup_line_info m =
     Option.bind (ext_line_info_off m) (\<lambda>off. Option.bind (ext_line_info_len m) (\<lambda>len. btf_ext_setup_info m off len 16))"

definition btf_ext_setup_field_reloc :: "packet \<Rightarrow> (int \<times> btf_ext_info) option" where
  "btf_ext_setup_field_reloc m =
     Option.bind (ext_field_reloc_off m) (\<lambda>off. Option.bind (ext_field_reloc_len m) (\<lambda>len. btf_ext_setup_info m off len 16))"

definition btf_ext_parse_hdr :: "packet \<Rightarrow> int option" where
  "btf_ext_parse_hdr m =
     (if length m < END_HDR_LEN then Some (- EINVAL)
      else Option.bind (ext_hdr_len m) (\<lambda>hdr_len.
        if length m < unat hdr_len then Some (- EINVAL)
        else Option.bind (ext_magic m) (\<lambda>magic.
          if magic \<noteq> BTF_MAGIC then Some (- EINVAL)
          else Option.bind (ext_version m) (\<lambda>version.
            if version \<noteq> BTF_VERSION then Some (- ENOTSUP)
            else Option.bind (ext_flags m) (\<lambda>flags.
              if flags \<noteq> 0 then Some (- ENOTSUP)
              else if length m = unat hdr_len then Some (- EINVAL)
              else Some 0)))))"

definition btf_ext_new :: "bool \<Rightarrow> bool \<Rightarrow> packet \<Rightarrow> (int + btf_ext) option" where
  "btf_ext_new calloc_ok malloc_ok m =
     (let x = \<lparr>be_data = m, be_func_info = no_info, be_line_info = no_info, be_field_reloc_info = no_info\<rparr>
      in Option.bind (btf_ext_parse_hdr m) (\<lambda>err.
         if err \<noteq> 0 then Some (Inl err)
         else if \<not> calloc_ok \<or> \<not> malloc_ok then Some (Inl (- ENOMEM))
         else Option.bind (ext_hdr_len m) (\<lambda>hdr_len.
           if hdr_len < END_LINE_INFO_LEN then Some (Inr x)
           else
             Option.bind (btf_ext_setup_func_info m) (\<lambda>(err, info).
               if err \<noteq> 0 then Some (Inl err)
               else
                 (let x = x\<lparr>be_func_info := info\<rparr>
                  in Option.bind (btf_ext_setup_line_info m) (\<lambda>(err, info).
                       if err \<noteq> 0 then Some (Inl err)
                       else
                         (let x = x\<lparr>be_line_info := info\<rparr>
                          in if hdr_len < END_FIELD_RELOC_LEN then Some (Inr x)
                             else
                               Option.bind (btf_ext_setup_field_reloc m) (\<lambda>(err, info).
                                 if err \<noteq> 0 then Some (Inl err) else Some (Inr (x\<lparr>be_field_reloc_info := info\<rparr>))))))))))"

section \<open>Relocation\<close>

text \<open>The first word of every record is its instruction offset, in bytes.\<close>

fun adjust_records :: "nat \<Rightarrow> nat \<Rightarrow> u32 \<Rightarrow> packet \<Rightarrow> packet" where
  "adjust_records record_size 0 insns_cnt bs = []"
| "adjust_records record_size (Suc n) insns_cnt bs =
     le32 (load32 bs 0 div 8 + insns_cnt) @ drop 4 (take record_size bs) @ adjust_records record_size n insns_cnt (drop record_size bs)"

text \<open>
  The loop of \<open>btf_ext_reloc_info\<close> with the records collected so far and their number.  None is undefined:
  \<open>strcmp\<close> with NULL, a section that is longer than the rest of the table, or a copy past the end
  of a block, whose length is a 32-bit sum.
\<close>

function reloc_secs ::
    "bool \<Rightarrow> btf \<Rightarrow> packet \<Rightarrow> u32 \<Rightarrow> string \<Rightarrow> u32 \<Rightarrow> packet option \<Rightarrow> u32 \<Rightarrow> nat \<Rightarrow> nat \<Rightarrow> (int \<times> packet option \<times> u32) option" where
  "reloc_secs realloc_ok b m record_size sec_name insns_cnt info cnt sinfo remain_len =
     (if remain_len = 0 then Some (- ENOENT, info, cnt)
      else
        Option.bind (mem32 m (sinfo + 4)) (\<lambda>num_info.
        Option.bind (mem32 m sinfo) (\<lambda>sec_name_off.
        Option.bind (Option.bind (btf_name_by_offset b sec_name_off) (\<lambda>name. name)) (\<lambda>info_sec_name.
          let records_len = unat (num_info * record_size); step = unat (8 + num_info * record_size) in
          if remain_len < step \<or> step = 0 then None
          else if info_sec_name \<noteq> sec_name then
            reloc_secs realloc_ok b m record_size sec_name insns_cnt info cnt (sinfo + step) (remain_len - step)
          else
            (let existing_len = unat (cnt * record_size); old = (case info of None \<Rightarrow> [] | Some bs \<Rightarrow> bs)
             in if \<not> realloc_ok then Some (- ENOMEM, info, cnt)
                else if length old < existing_len \<or> length m < sinfo + SEC_HDRLEN + records_len \<or> 2 ^ 32 \<le> existing_len + records_len then None
                else
                  Some (0, Some (take existing_len old @
                                 adjust_records (unat record_size) (unat num_info) insns_cnt (mem_read m (sinfo + SEC_HDRLEN) records_len)),
                        cnt + num_info))))))"
  by pat_completeness auto

termination
  by (relation "measure (\<lambda>(ok, b, m, r, s, c, i, n, p, l). l)") auto

declare reloc_secs.simps [simp del]

definition btf_ext_reloc_info ::
    "bool \<Rightarrow> btf \<Rightarrow> packet \<Rightarrow> btf_ext_info \<Rightarrow> string \<Rightarrow> u32 \<Rightarrow> packet option \<Rightarrow> u32 \<Rightarrow> (int \<times> packet option \<times> u32) option" where
  "btf_ext_reloc_info realloc_ok b m x sec_name insns_cnt info cnt =
     reloc_secs realloc_ok b m (xi_rec_size x) sec_name insns_cnt info cnt (xi_info x) (unat (xi_len x))"

definition btf_ext_reloc_func_info ::
    "bool \<Rightarrow> btf \<Rightarrow> btf_ext \<Rightarrow> string \<Rightarrow> u32 \<Rightarrow> packet option \<Rightarrow> u32 \<Rightarrow> (int \<times> packet option \<times> u32) option" where
  "btf_ext_reloc_func_info realloc_ok b x = btf_ext_reloc_info realloc_ok b (be_data x) (be_func_info x)"

definition btf_ext_reloc_line_info ::
    "bool \<Rightarrow> btf \<Rightarrow> btf_ext \<Rightarrow> string \<Rightarrow> u32 \<Rightarrow> packet option \<Rightarrow> u32 \<Rightarrow> (int \<times> packet option \<times> u32) option" where
  "btf_ext_reloc_line_info realloc_ok b x = btf_ext_reloc_info realloc_ok b (be_data x) (be_line_info x)"

definition btf_ext_func_info_rec_size :: "btf_ext \<Rightarrow> u32" where "btf_ext_func_info_rec_size x = xi_rec_size (be_func_info x)"
definition btf_ext_line_info_rec_size :: "btf_ext \<Rightarrow> u32" where "btf_ext_line_info_rec_size x = xi_rec_size (be_line_info x)"

section \<open>Tables as data\<close>

text \<open>A section of a table: the offset of its name, and its records.\<close>

type_synonym ext_sec = "u32 \<times> packet list"

definition sec_size :: "nat \<Rightarrow> ext_sec \<Rightarrow> nat" where "sec_size r s = SEC_HDRLEN + length (snd s) * r"

definition secs_size :: "nat \<Rightarrow> ext_sec list \<Rightarrow> nat" where "secs_size r ss = sum_list (map (sec_size r) ss)"

definition sec_at :: "packet \<Rightarrow> nat \<Rightarrow> nat \<Rightarrow> ext_sec \<Rightarrow> bool" where
  "sec_at m r pos s \<longleftrightarrow> mem32 m pos = Some (fst s) \<and> mem32 m (pos + 4) = Some (of_nat (length (snd s))) \<and> length (snd s) < 2 ^ 32 \<and>
     (\<forall>x\<in>set (snd s). length x = r) \<and> bytes_at m (pos + SEC_HDRLEN) (concat (snd s))"

fun secs_at :: "packet \<Rightarrow> nat \<Rightarrow> nat \<Rightarrow> ext_sec list \<Rightarrow> bool" where
  "secs_at m r pos [] \<longleftrightarrow> True"
| "secs_at m r pos (s # ss) \<longleftrightarrow> sec_at m r pos s \<and> secs_at m r (pos + sec_size r s) ss"

definition chunks :: "nat \<Rightarrow> nat \<Rightarrow> packet \<Rightarrow> packet list" where
  "chunks r n bs = map (\<lambda>i. take r (drop (i * r) bs)) [0..<n]"

lemma chunks_props:
  assumes "n * r \<le> length bs"
  shows "length (chunks r n bs) = n" "\<forall>x\<in>set (chunks r n bs). length x = r" "concat (chunks r n bs) = take (n * r) bs"
proof -
  show "length (chunks r n bs) = n" by (simp add: chunks_def)
  show "concat (chunks r n bs) = take (n * r) bs"
  proof (induction n)
    case (Suc n)
    have "take (Suc n * r) bs = take (n * r) bs @ take r (drop (n * r) bs)" unfolding mult_Suc add.commute [of r] by (rule take_add)
    then show ?case using Suc by (simp add: chunks_def)
  qed (simp add: chunks_def)
  have "min (length bs - i * r) r = r" if "i < n" for i
    using mult_le_mono1 [of "Suc i" n r] that assms by simp
  then show "\<forall>x\<in>set (chunks r n bs). length x = r" by (auto simp: chunks_def)
qed

text \<open>A table that passes the check is a list of sections, and nothing outside the data is read on the way.\<close>

lemma check_secs_result:
  assumes "pos + left \<le> length m"
  shows "\<exists>e. check_secs m r pos left = Some e \<and> (e = 0 \<longrightarrow> (\<exists>ss. secs_at m r pos ss \<and> secs_size r ss = left))"
  using assms
proof (induction m r pos left rule: check_secs.induct)
  case (1 m r pos left)
  consider (none_left) "left = 0" | (short) "left \<noteq> 0" "left < SEC_HDRLEN" | (sec) "SEC_HDRLEN \<le> left" by linarith
  then show ?case
  proof cases
    case none_left
    then have "check_secs m r pos left = Some 0" by (subst check_secs.simps) simp
    then show ?thesis using none_left by (auto simp: secs_size_def intro: exI [of _ "[]"])
  next
    case short
    then have "check_secs m r pos left = Some (- EINVAL)" by (subst check_secs.simps) simp
    then show ?thesis by (simp add: EINVAL_def)
  next
    case sec
    then have left: "left \<noteq> 0" "\<not> left < SEC_HDRLEN" "pos + 8 \<le> length m" using "1.prems" by (simp_all add: SEC_HDRLEN_def)
    then obtain nm n where w: "mem32 m pos = Some nm" "mem32 m (pos + 4) = Some n" by (simp add: mem32_def)
    let ?t = "SEC_HDRLEN + unat n * r"
    have e: "check_secs m r pos left = (if n = 0 then Some (- EINVAL) else if left < ?t then Some (- EINVAL) else check_secs m r (pos + ?t) (left - ?t))"
      using left w by (subst check_secs.simps) (simp add: Let_def)
    show ?thesis
    proof (cases "n = 0 \<or> left < ?t")
      case True
      then show ?thesis using e by (auto simp: EINVAL_def)
    next
      case False
      then have f: "n \<noteq> 0" "\<not> left < ?t" by blast+
      have "pos + ?t + (left - ?t) \<le> length m" using f(2) "1.prems" by simp
      from "1.IH" [OF left(1,2) w(2) f(1) refl f(2) this]
      obtain err where err: "check_secs m r (pos + ?t) (left - ?t) = Some err"
        "err = 0 \<longrightarrow> (\<exists>ss. secs_at m r (pos + ?t) ss \<and> secs_size r ss = left - ?t)" by blast
      have in': "unat n * r \<le> length (drop (pos + SEC_HDRLEN) m)" using f(2) "1.prems" by simp
      let ?s = "(nm, chunks r (unat n) (drop (pos + SEC_HDRLEN) m))"
      note c = chunks_props [OF in']
      have "unat n < 2 ^ 32" by (rule unsigned_less [THEN less_le_trans]) simp
      moreover have "bytes_at m (pos + SEC_HDRLEN) (concat (snd ?s))" using in' left(3) unfolding snd_conv c(3) bytes_at_def by (simp add: SEC_HDRLEN_def)
      ultimately have "sec_at m r pos ?s" using w c(1,2) unfolding sec_at_def by simp
      moreover have "sec_size r ?s = ?t" by (simp add: sec_size_def c(1))
      ultimately have "secs_at m r pos (?s # ss) \<and> secs_size r (?s # ss) = left" if "secs_at m r (pos + ?t) ss" "secs_size r ss = left - ?t" for ss
        using that f(2) by (simp add: secs_size_def)
      then have "err = 0 \<longrightarrow> (\<exists>ss. secs_at m r pos ss \<and> secs_size r ss = left)" using err(2) by blast
      moreover have "check_secs m r pos left = Some err" unfolding e if_not_P [OF f(1)] if_not_P [OF f(2)] by (rule err(1))
      ultimately show ?thesis by blast
    qed
  qed
qed

text \<open>\<open>table_ok m x ss\<close>: the table \<open>x\<close> of the data \<open>m\<close> consists of the sections \<open>ss\<close>.\<close>

definition table_ok :: "packet \<Rightarrow> btf_ext_info \<Rightarrow> ext_sec list \<Rightarrow> bool" where
  "table_ok m x ss \<longleftrightarrow> secs_at m (unat (xi_rec_size x)) (xi_info x) ss \<and> secs_size (unat (xi_rec_size x)) ss = unat (xi_len x) \<and>
     xi_info x + unat (xi_len x) \<le> length m \<and> (ss \<noteq> [] \<longrightarrow> 4 \<le> unat (xi_rec_size x))"

lemma no_table: "table_ok m no_info []"
  by (simp add: table_ok_def no_info_def secs_size_def)

text \<open>
  \<open>table_from m hl off len x\<close>: \<open>x\<close> is the table that the header announces at \<open>off\<close> behind its
  \<open>hl\<close> bytes with \<open>len\<close> bytes; the first word is the record size.
\<close>

definition table_from :: "packet \<Rightarrow> u32 \<Rightarrow> u32 \<Rightarrow> u32 \<Rightarrow> btf_ext_info \<Rightarrow> bool" where
  "table_from m hl off len x \<longleftrightarrow>
     (if len = 0 then x = no_info
      else mem32 m (unat hl + unat off) = Some (xi_rec_size x) \<and> xi_info x = unat hl + unat off + 4 \<and> xi_len x = len - 4)"

text \<open>
  The table that the header announces in the words \<open>o_off\<close> and \<open>o_off + 4\<close>; a header of less
  than \<open>bound\<close> bytes does not have them and announces none.
\<close>

definition announced :: "packet \<Rightarrow> u32 \<Rightarrow> nat \<Rightarrow> btf_ext_info \<Rightarrow> bool" where
  "announced m bound o_off x \<longleftrightarrow>
     (\<exists>hl. mem32 m 4 = Some hl \<and>
        (if hl < bound then x = no_info
         else \<exists>off len. mem32 m o_off = Some off \<and> mem32 m (o_off + 4) = Some len \<and> table_from m hl off len x))"

lemma setup_info_result:
  assumes "4 \<le> min_rec" "mem32 m 4 = Some hl"
  shows "\<exists>e x. btf_ext_setup_info m off len min_rec = Some (e, x) \<and> (e = 0 \<longrightarrow> (\<exists>ss. table_ok m x ss) \<and> table_from m hl off len x)"
proof -
  let ?info = "unat hl + unat off"
  have h: "ext_hdr_len m = Some hl" using assms(2) by (simp add: ext_hdr_len_def)
  consider (empty) "len = 0" | (bad) "btf_ext_setup_info m off len min_rec = Some (- EINVAL, no_info)"
    | (go) "len \<noteq> 0" "off AND 0x03 = 0" "?info + unat len \<le> length m" "4 \<le> unat len"
    unfolding btf_ext_setup_info_def Let_def h Option.bind.bind_lunit by (metis not_le)
  then show ?thesis
  proof cases
    case empty
    then show ?thesis using no_table by (auto simp: btf_ext_setup_info_def table_from_def)
  next
    case bad
    then show ?thesis by (simp add: EINVAL_def)
  next
    case go
    then obtain r where r: "mem32 m ?info = Some r" by (simp add: mem32_def)
    have "?info + 4 + (unat len - 4) \<le> length m" using go by simp
    from check_secs_result [OF this, of "unat r"]
    obtain e where e: "check_secs m (unat r) (?info + 4) (unat len - 4) = Some e"
      "e = 0 \<longrightarrow> (\<exists>ss. secs_at m (unat r) (?info + 4) ss \<and> secs_size (unat r) ss = unat len - 4)" by blast
    let ?x = "\<lparr>xi_info = ?info + 4, xi_rec_size = r, xi_len = len - 4\<rparr>"
    have f: "btf_ext_setup_info m off len min_rec =
        (if r < min_rec \<or> r AND 0x03 \<noteq> 0 then Some (- EINVAL, no_info) else if unat len - 4 = 0 then Some (- EINVAL, no_info)
         else if e \<noteq> 0 then Some (e, no_info) else Some (0, ?x))"
      using go r e(1) h by (simp add: btf_ext_setup_info_def Let_def)
    have l: "unat (len - 4) = unat len - 4" using go(4) by (subst unat_sub) (simp_all add: word_le_nat_alt)
    show ?thesis
    proof (cases "r < min_rec \<or> r AND 0x03 \<noteq> 0 \<or> unat len - 4 = 0 \<or> e \<noteq> 0")
      case True
      then show ?thesis unfolding f by (auto simp: EINVAL_def)
    next
      case False
      then obtain ss where ss: "secs_at m (unat r) (?info + 4) ss" "secs_size (unat r) ss = unat len - 4" using e(2) by blast
      have "4 \<le> unat r" using False assms(1) by (simp add: word_less_nat_alt word_le_nat_alt)
      then have "table_ok m ?x ss" using ss l go by (simp add: table_ok_def)
      moreover have "table_from m hl off len ?x" using go(1) r by (simp add: table_from_def)
      ultimately show ?thesis unfolding f using False by (intro exI [of _ 0] exI [of _ ?x]) auto
    qed
  qed
qed

text \<open>A header that passed \<open>btf_ext_parse_hdr\<close> declares no more bytes than there are, and is read inside the data.\<close>

lemma parse_hdr_result:
  "\<exists>e. btf_ext_parse_hdr m = Some e \<and> (e = 0 \<longrightarrow> (\<exists>hl. mem32 m 4 = Some hl \<and> unat hl \<le> length m))"
proof (cases "length m < END_HDR_LEN")
  case True
  then show ?thesis by (simp add: btf_ext_parse_hdr_def EINVAL_def)
next
  case False
  then have r: "ext_hdr_len m = Some (load32 m 4)" "ext_magic m = Some (load16 m 0)" "ext_version m = Some (m ! 2)" "ext_flags m = Some (m ! 3)"
    by (simp_all add: END_HDR_LEN_def ext_hdr_len_def ext_magic_def ext_version_def ext_flags_def mem_Some)
  show ?thesis using False
    by (simp add: btf_ext_parse_hdr_def r EINVAL_def ENOTSUP_def flip: ext_hdr_len_def)
qed

definition ext_ok :: "btf_ext \<Rightarrow> bool" where
  "ext_ok x \<longleftrightarrow> (\<exists>ss. table_ok (be_data x) (be_func_info x) ss) \<and> (\<exists>ss. table_ok (be_data x) (be_line_info x) ss) \<and>
     (\<exists>ss. table_ok (be_data x) (be_field_reloc_info x) ss) \<and> announced (be_data x) END_LINE_INFO_LEN 8 (be_func_info x) \<and>
     announced (be_data x) END_LINE_INFO_LEN 16 (be_line_info x) \<and> announced (be_data x) END_FIELD_RELOC_LEN 24 (be_field_reloc_info x)"

lemma setup_tables:
  assumes "mem32 m 4 = Some hl" "unat hl \<le> length m"
  shows "END_LINE_INFO_LEN \<le> hl \<Longrightarrow> \<exists>e x. btf_ext_setup_func_info m = Some (e, x) \<and> (e = 0 \<longrightarrow> (\<exists>ss. table_ok m x ss) \<and> announced m END_LINE_INFO_LEN 8 x)"
    and "END_LINE_INFO_LEN \<le> hl \<Longrightarrow> \<exists>e x. btf_ext_setup_line_info m = Some (e, x) \<and> (e = 0 \<longrightarrow> (\<exists>ss. table_ok m x ss) \<and> announced m END_LINE_INFO_LEN 16 x)"
    and "END_FIELD_RELOC_LEN \<le> hl \<Longrightarrow> \<exists>e x. btf_ext_setup_field_reloc m = Some (e, x) \<and> (e = 0 \<longrightarrow> (\<exists>ss. table_ok m x ss) \<and> announced m END_FIELD_RELOC_LEN 24 x)"
proof -
  have r: "mem32 m k = Some (load32 m k)" if "unat b \<le> length m" "k + 4 \<le> unat b" for k and b :: u32 using that by (simp add: mem_Some)
  have a: "announced m b k x" if "b \<le> hl" "mem32 m k = Some off" "mem32 m (k + 4) = Some len" "table_from m hl off len x" for b k off len x
    using assms(1) that by (auto simp: announced_def)
  show "\<exists>e x. btf_ext_setup_func_info m = Some (e, x) \<and> (e = 0 \<longrightarrow> (\<exists>ss. table_ok m x ss) \<and> announced m END_LINE_INFO_LEN 8 x)" if h: "END_LINE_INFO_LEN \<le> hl"
  proof -
    have f: "mem32 m 8 = Some (load32 m 8)" "mem32 m 12 = Some (load32 m 12)"
      using h assms(2) by (simp_all add: END_LINE_INFO_LEN_def word_le_nat_alt mem_Some)
    obtain e x where e: "btf_ext_setup_info m (load32 m 8) (load32 m 12) 8 = Some (e, x)"
      "e = 0 \<longrightarrow> (\<exists>ss. table_ok m x ss) \<and> table_from m hl (load32 m 8) (load32 m 12) x"
      using setup_info_result [of 8, OF _ assms(1)] by (simp add: word_le_nat_alt) metis
    then show ?thesis using a [OF h f(1), of "load32 m 12"] f
      by (auto simp: btf_ext_setup_func_info_def ext_func_info_off_def ext_func_info_len_def)
  qed
  show "\<exists>e x. btf_ext_setup_line_info m = Some (e, x) \<and> (e = 0 \<longrightarrow> (\<exists>ss. table_ok m x ss) \<and> announced m END_LINE_INFO_LEN 16 x)" if h: "END_LINE_INFO_LEN \<le> hl"
  proof -
    have f: "mem32 m 16 = Some (load32 m 16)" "mem32 m 20 = Some (load32 m 20)"
      using h assms(2) by (simp_all add: END_LINE_INFO_LEN_def word_le_nat_alt mem_Some)
    obtain e x where e: "btf_ext_setup_info m (load32 m 16) (load32 m 20) 16 = Some (e, x)"
      "e = 0 \<longrightarrow> (\<exists>ss. table_ok m x ss) \<and> table_from m hl (load32 m 16) (load32 m 20) x"
      using setup_info_result [of 16, OF _ assms(1)] by (simp add: word_le_nat_alt) metis
    then show ?thesis using a [OF h f(1), of "load32 m 20"] f
      by (auto simp: btf_ext_setup_line_info_def ext_line_info_off_def ext_line_info_len_def)
  qed
  show "\<exists>e x. btf_ext_setup_field_reloc m = Some (e, x) \<and> (e = 0 \<longrightarrow> (\<exists>ss. table_ok m x ss) \<and> announced m END_FIELD_RELOC_LEN 24 x)" if h: "END_FIELD_RELOC_LEN \<le> hl"
  proof -
    have f: "mem32 m 24 = Some (load32 m 24)" "mem32 m 28 = Some (load32 m 28)"
      using h assms(2) by (simp_all add: END_FIELD_RELOC_LEN_def word_le_nat_alt mem_Some)
    obtain e x where e: "btf_ext_setup_info m (load32 m 24) (load32 m 28) 16 = Some (e, x)"
      "e = 0 \<longrightarrow> (\<exists>ss. table_ok m x ss) \<and> table_from m hl (load32 m 24) (load32 m 28) x"
      using setup_info_result [of 16, OF _ assms(1)] by (simp add: word_le_nat_alt) metis
    then show ?thesis using a [OF h f(1), of "load32 m 28"] f
      by (auto simp: btf_ext_setup_field_reloc_def ext_field_reloc_off_def ext_field_reloc_len_def)
  qed
qed

lemma ext_new_result:
  "\<exists>r. btf_ext_new c d m = Some r \<and> (case r of Inl e \<Rightarrow> e \<noteq> 0 | Inr x \<Rightarrow> be_data x = m \<and> ext_ok x)"
proof -
  obtain e where e: "btf_ext_parse_hdr m = Some e" "e = 0 \<longrightarrow> (\<exists>hl. mem32 m 4 = Some hl \<and> unat hl \<le> length m)"
    using parse_hdr_result by blast
  have n: "\<exists>ss. table_ok m no_info ss" using no_table by blast
  show ?thesis
  proof (cases "e = 0 \<and> c \<and> d")
    case False
    then show ?thesis using e(1) by (cases "e = 0"; cases c; cases d) (simp_all add: btf_ext_new_def Let_def ENOMEM_def)
  next
    case True
    then obtain hl where hl: "mem32 m 4 = Some hl" "unat hl \<le> length m" using e(2) by blast
    have none: "announced m b k no_info" if "hl < b" for b k using hl(1) that by (simp add: announced_def)
    have lt: "hl < END_FIELD_RELOC_LEN" if "hl < END_LINE_INFO_LEN"
      using that by (simp add: END_FIELD_RELOC_LEN_def END_LINE_INFO_LEN_def word_less_nat_alt)
    note new = btf_ext_new_def Let_def e(1) ext_hdr_len_def hl(1)
    show ?thesis
    proof (cases "hl < END_LINE_INFO_LEN")
      case short: True
      then show ?thesis using True n none [OF short] none [OF lt [OF short]] by (simp add: new ext_ok_def)
    next
      case long: False
      then obtain e1 x1 e2 x2 where s: "btf_ext_setup_func_info m = Some (e1, x1)" "e1 = 0 \<longrightarrow> (\<exists>ss. table_ok m x1 ss) \<and> announced m END_LINE_INFO_LEN 8 x1"
        "btf_ext_setup_line_info m = Some (e2, x2)" "e2 = 0 \<longrightarrow> (\<exists>ss. table_ok m x2 ss) \<and> announced m END_LINE_INFO_LEN 16 x2"
        using setup_tables(1,2) [OF hl] by (simp only: not_less) metis
      show ?thesis
      proof (cases "hl < END_FIELD_RELOC_LEN")
        case t: True
        then show ?thesis using True long s n none [OF t] by (simp add: new ext_ok_def)
      next
        case False
        then obtain e3 x3 where "btf_ext_setup_field_reloc m = Some (e3, x3)" "e3 = 0 \<longrightarrow> (\<exists>ss. table_ok m x3 ss) \<and> announced m END_FIELD_RELOC_LEN 24 x3"
          using setup_tables(3) [OF hl] by (simp only: not_less) metis
        then show ?thesis using True False long s by (simp add: new ext_ok_def)
      qed
    qed
  qed
qed

section \<open>Relocated records\<close>

definition adjust_record :: "u32 \<Rightarrow> packet \<Rightarrow> packet" where
  "adjust_record insns_cnt x = le32 (load32 x 0 div 8 + insns_cnt) @ drop 4 x"

lemma adjust_records_concat:
  assumes "\<forall>x\<in>set recs. length x = r" "4 \<le> r"
  shows "adjust_records r (length recs) c (concat recs) = concat (map (adjust_record c) recs)"
  using assms(1)
proof (induction recs)
  case (Cons x recs)
  have "load32 (x @ concat recs) 0 = load32 x 0" using Cons.prems assms(2) by (simp add: load32_def nth_append)
  then show ?case using Cons by (simp add: adjust_record_def)
qed simp

text \<open>The names of the sections of a table are in the string section.\<close>

definition secs_named :: "btf \<Rightarrow> (u32 \<Rightarrow> string) \<Rightarrow> ext_sec list \<Rightarrow> bool" where
  "secs_named b f ss \<longleftrightarrow> (\<forall>s\<in>set ss. btf_name_by_offset b (fst s) = Some (Some (f (fst s))))"

definition reloc_spec ::
    "bool \<Rightarrow> (u32 \<Rightarrow> string) \<Rightarrow> ext_sec list \<Rightarrow> string \<Rightarrow> u32 \<Rightarrow> packet option \<Rightarrow> u32 \<Rightarrow> int \<times> packet option \<times> u32" where
  "reloc_spec ok f ss sec_name insns_cnt info cnt =
     (case find (\<lambda>s. f (fst s) = sec_name) ss of
        None \<Rightarrow> (- ENOENT, info, cnt)
      | Some s \<Rightarrow>
          if ok then (0, Some ((case info of None \<Rightarrow> [] | Some bs \<Rightarrow> bs) @ concat (map (adjust_record insns_cnt) (snd s))), cnt + of_nat (length (snd s)))
          else (- ENOMEM, info, cnt))"

lemma reloc_secs_result:
  assumes "secs_at m (unat r) pos ss" "secs_size (unat r) ss = left" "left < 2 ^ 32" "4 \<le> unat r" "secs_named b f ss"
    and "length (case info of None \<Rightarrow> [] | Some bs \<Rightarrow> bs) = unat cnt * unat r" "unat cnt * unat r + left < 2 ^ 32"
  shows "reloc_secs ok b m r sec_name insns_cnt info cnt pos left = Some (reloc_spec ok f ss sec_name insns_cnt info cnt)"
  using assms(1-3,5,7)
proof (induction ss arbitrary: pos left)
  case Nil
  then show ?case by (subst reloc_secs.simps) (simp add: secs_size_def reloc_spec_def)
next
  case (Cons s ss)
  let ?recs = "snd s" and ?old = "case info of None \<Rightarrow> [] | Some bs \<Rightarrow> bs"
  have s: "mem32 m pos = Some (fst s)" "mem32 m (pos + 4) = Some (of_nat (length ?recs))" "\<forall>x\<in>set ?recs. length x = unat r"
    "bytes_at m (pos + SEC_HDRLEN) (concat ?recs)"
    using Cons.prems(1) by (simp_all add: sec_at_def)
  have sz: "SEC_HDRLEN + length ?recs * unat r + secs_size (unat r) ss = left" using Cons.prems(2) by (simp add: secs_size_def sec_size_def)
  have lr: "length ?recs < 2 ^ 32" using Cons.prems(1) by (simp add: sec_at_def)
  have un: "unat (of_nat (length ?recs) :: u32) = length ?recs" unfolding unat_of_nat using lr by (intro mod_less) simp
  have m1: "unat (of_nat (length ?recs) * r) = length ?recs * unat r"
    using sz Cons.prems(3) un by (subst unat_word_ariths(2)) (simp add: mod_less)
  have m2: "unat (8 + of_nat (length ?recs) * r) = SEC_HDRLEN + length ?recs * unat r"
    using sz Cons.prems(3) m1 by (subst unat_word_ariths(1)) (simp add: mod_less SEC_HDRLEN_def)
  have cn: "unat (cnt * r) = unat cnt * unat r" using Cons.prems(5) by (subst unat_word_ariths(2)) (simp add: mod_less)
  have nm: "btf_name_by_offset b (fst s) = Some (Some (f (fst s)))" using Cons.prems(4) by (simp add: secs_named_def)
  have cl: "length (concat ?recs) = length ?recs * unat r"
    using s(3) by (simp add: length_concat sum_list_triv cong: map_cong)
  have h: "SEC_HDRLEN \<noteq> 0" by (simp add: SEC_HDRLEN_def)
  have l0: "left \<noteq> 0" "\<not> (left < SEC_HDRLEN + length ?recs * unat r \<or> SEC_HDRLEN + length ?recs * unat r = 0)"
    using sz by (simp_all add: SEC_HDRLEN_def)
  show ?case
  proof (cases "f (fst s) = sec_name")
    case False
    have "reloc_secs ok b m r sec_name insns_cnt info cnt pos left =
      reloc_secs ok b m r sec_name insns_cnt info cnt (pos + (SEC_HDRLEN + length ?recs * unat r)) (left - (SEC_HDRLEN + length ?recs * unat r))"
      using l0 False by (subst reloc_secs.simps) (simp add: s(1,2) nm m2 h Let_def)
    also have "\<dots> = Some (reloc_spec ok f ss sec_name insns_cnt info cnt)"
      using Cons.prems sz by (intro Cons.IH) (auto simp: sec_size_def secs_named_def)
    finally show ?thesis using False by (simp add: reloc_spec_def)
  next
    case True
    have rd: "mem_read m (pos + SEC_HDRLEN) (length ?recs * unat r) = concat ?recs" using bytes_at_read [OF s(4)] unfolding cl .
    have "\<not> (length ?old < unat cnt * unat r \<or> length m < pos + SEC_HDRLEN + length ?recs * unat r \<or> 2 ^ 32 \<le> unat cnt * unat r + length ?recs * unat r)"
      using assms(6) s(4) sz Cons.prems(5) unfolding bytes_at_def cl by simp
    then have "reloc_secs ok b m r sec_name insns_cnt info cnt pos left =
      (if ok then Some (0, Some (take (unat cnt * unat r) ?old @ adjust_records (unat r) (length ?recs) insns_cnt (concat ?recs)), cnt + of_nat (length ?recs))
       else Some (- ENOMEM, info, cnt))"
      using l0 True by (subst reloc_secs.simps) (simp add: s(1,2) nm m1 m2 cn rd un h Let_def)
    then show ?thesis using True adjust_records_concat [OF s(3) assms(4)] assms(6) by (simp add: reloc_spec_def)
  qed
qed

text \<open>The records collected so far fill their block, and one more table fits.\<close>

definition collected :: "u32 \<Rightarrow> btf_ext_info \<Rightarrow> packet option \<Rightarrow> u32 \<Rightarrow> bool" where
  "collected r x info cnt \<longleftrightarrow> length (case info of None \<Rightarrow> [] | Some bs \<Rightarrow> bs) = unat cnt * unat r \<and> unat cnt * unat r + unat (xi_len x) < 2 ^ 32"

lemma reloc_info_result:
  assumes "table_ok m x ss" "secs_named b f ss" "collected (xi_rec_size x) x info cnt"
  shows "btf_ext_reloc_info ok b m x sec n info cnt = Some (reloc_spec ok f ss sec n info cnt)"
proof (cases "ss = []")
  case True
  then have "unat (xi_len x) = 0" using assms(1) by (simp add: table_ok_def secs_size_def)
  then show ?thesis unfolding btf_ext_reloc_info_def using True by (subst reloc_secs.simps) (simp add: reloc_spec_def)
next
  case False
  then show ?thesis unfolding btf_ext_reloc_info_def using assms
    by (intro reloc_secs_result) (auto simp: table_ok_def collected_def)
qed

text \<open>
  C30: Function and line records.  Constructing the extension from any bytes returns without a read
  outside them, with an error or with three tables that are lists of sections inside the data.
  Relocating against such a table, for type information that knows the names of the sections,
  returns: the records of the first section with the given name are appended to those collected
  so far, each with its instruction offset divided by the size of an instruction and moved by the
  number of instructions before it; without such a section \<open>-ENOENT\<close>, and nothing changes.
\<close>

theorem ext_info_relocated:
  "\<exists>r. btf_ext_new c d m = Some r \<and>
     (case r of
        Inl e \<Rightarrow> e \<noteq> 0
      | Inr x \<Rightarrow>
          \<exists>fs ls. table_ok m (be_func_info x) fs \<and> announced m END_LINE_INFO_LEN 8 (be_func_info x) \<and>
            table_ok m (be_line_info x) ls \<and> announced m END_LINE_INFO_LEN 16 (be_line_info x) \<and>
            (\<forall>ok b f sec n info cnt. secs_named b f fs \<and> collected (btf_ext_func_info_rec_size x) (be_func_info x) info cnt \<longrightarrow>
               btf_ext_reloc_func_info ok b x sec n info cnt = Some (reloc_spec ok f fs sec n info cnt)) \<and>
            (\<forall>ok b f sec n info cnt. secs_named b f ls \<and> collected (btf_ext_line_info_rec_size x) (be_line_info x) info cnt \<longrightarrow>
               btf_ext_reloc_line_info ok b x sec n info cnt = Some (reloc_spec ok f ls sec n info cnt)))"
proof -
  obtain r where r: "btf_ext_new c d m = Some r" "case r of Inl e \<Rightarrow> e \<noteq> 0 | Inr x \<Rightarrow> be_data x = m \<and> ext_ok x"
    using ext_new_result by blast
  show ?thesis
  proof (cases r)
    case (Inr x)
    then obtain fs ls where t: "be_data x = m" "table_ok m (be_func_info x) fs" "table_ok m (be_line_info x) ls"
      "announced m END_LINE_INFO_LEN 8 (be_func_info x)" "announced m END_LINE_INFO_LEN 16 (be_line_info x)" using r(2) by (auto simp: ext_ok_def)
    note d = btf_ext_reloc_func_info_def btf_ext_reloc_line_info_def btf_ext_func_info_rec_size_def btf_ext_line_info_rec_size_def
    show ?thesis unfolding r(1) Inr d t(1) option.inject sum.case ex_simps simp_thms
      using t(2-5) by (intro exI [of _ r] conjI refl exI [of _ fs] exI [of _ ls] allI impI) (auto simp: Inr reloc_info_result)
  qed (use r in simp)
qed

text \<open>
  A table for functions with one section, named \<open>''xdp''\<close> in the strings of the type information:
  one record for the instruction at byte 16.
\<close>

definition sample_ext :: packet where
  "sample_ext = le16 BTF_MAGIC @ [BTF_VERSION, 0] @ le32 24 @ le32 0 @ le32 20 @ le32 20 @ le32 0 @
     le32 8 @ le32 1 @ le32 1 @ le32 16 @ le32 2"

definition sample_ext_btf :: btf where
  "sample_ext_btf = \<lparr>bf_data = btf_bytes [TInt 0 4 32] [''xdp''], bf_types = [24], bf_types_size = 16, bf_strings = 40, bf_fd = - 1\<rparr>"

lemma sample_ext_name: "btf_name_by_offset sample_ext_btf 1 = Some (Some ''xdp'')"
proof -
  have "btf_name_by_offset sample_ext_btf (of_nat (name_offset [''xdp''] 0)) = Some (Some ([''xdp''] ! 0))"
    by (rule name_by_offset_encoded [where ts = "[TInt 0 4 32]"])
      (simp_all add: sample_ext_btf_def btf_bytes_def types_bytes_def strings_bytes_def bytes_of_def)
  then show ?thesis by (simp add: name_offset_def strings_bytes_def)
qed

lemma sample_ext_bytes:
  "mem32 sample_ext 28 = Some 1" "mem32 sample_ext 32 = Some 1" "bytes_at sample_ext 36 (le32 16 @ le32 2)" "length sample_ext = 44"
proof -
  have b: "bytes_at sample_ext 0 (le16 BTF_MAGIC @ [BTF_VERSION, 0] @ le32 24 @ le32 0 @ le32 20 @ le32 20 @ le32 0 @ le32 8 @ le32 1 @ le32 1 @ le32 16 @ le32 2)"
    using bytes_at_self [of sample_ext] unfolding sample_ext_def .
  show "mem32 sample_ext 28 = Some 1" "mem32 sample_ext 32 = Some 1" "bytes_at sample_ext 36 (le32 16 @ le32 2)"
    using b unfolding bytes_at_append length_le list.size by (simp_all add: mem32_at bytes_at_append)
  show "length sample_ext = 44" by (simp add: sample_ext_def)
qed

lemma sample_ext_new:
  "btf_ext_new True True sample_ext = Some (Inr \<lparr>be_data = sample_ext, be_func_info = \<lparr>xi_info = 28, xi_rec_size = 8, xi_len = 16\<rparr>,
     be_line_info = no_info, be_field_reloc_info = no_info\<rparr>)"
proof -
  have b: "bytes_at sample_ext 0 (le16 BTF_MAGIC @ [BTF_VERSION, 0] @ le32 24 @ le32 0 @ le32 20 @ le32 20 @ le32 0 @ le32 8 @ le32 1 @ le32 1 @ le32 16 @ le32 2)"
    using bytes_at_self [of sample_ext] unfolding sample_ext_def .
  have f: "bytes_at sample_ext 0 (le16 BTF_MAGIC)" "bytes_at sample_ext 2 [BTF_VERSION, 0]" "bytes_at sample_ext 4 (le32 24)" "bytes_at sample_ext 8 (le32 0)"
    "bytes_at sample_ext 12 (le32 20)" "bytes_at sample_ext 16 (le32 20)" "bytes_at sample_ext 20 (le32 0)" "bytes_at sample_ext 24 (le32 8)"
    using b unfolding bytes_at_append length_le list.size by (simp_all add: numeral_2_eq_2 eval_nat_numeral)
  note v = load16_at [OF f(1)] f(3-8) [THEN mem32_at]
  have w: "sample_ext ! 2 = BTF_VERSION" "sample_ext ! 3 = 0" using bytes_at_nth [OF f(2), of 0] bytes_at_nth [OF f(2), of 1] by simp_all
  have p: "btf_ext_parse_hdr sample_ext = Some 0"
    by (simp add: btf_ext_parse_hdr_def END_HDR_LEN_def ext_hdr_len_def ext_magic_def ext_version_def ext_flags_def mem16_def mem8_def v w sample_ext_bytes(4))
  have c: "check_secs sample_ext 8 28 16 = Some 0"
    by (subst check_secs.simps, simp add: sample_ext_bytes(2) SEC_HDRLEN_def, subst check_secs.simps, simp)
  show ?thesis
    by (simp add: btf_ext_new_def p ext_hdr_len_def v END_LINE_INFO_LEN_def END_FIELD_RELOC_LEN_def btf_ext_setup_func_info_def btf_ext_setup_line_info_def
        btf_ext_setup_info_def ext_func_info_off_def ext_func_info_len_def ext_line_info_off_def ext_line_info_len_def c sample_ext_bytes(4))
qed

lemma sample_ext_table:
  assumes "table_ok sample_ext \<lparr>xi_info = 28, xi_rec_size = 8, xi_len = 16\<rparr> ss"
  shows "ss = [(1, [le32 16 @ le32 2])]"
proof -
  have a: "secs_at sample_ext 8 28 ss" "secs_size 8 ss = 16" using assms by (simp_all add: table_ok_def)
  then obtain s ss' where s: "ss = s # ss'" by (cases ss) (auto simp: secs_size_def)
  have t: "sec_at sample_ext 8 28 s" using a(1) s by simp
  then have "(of_nat (length (snd s)) :: u32) = 1" "length (snd s) < 2 ^ 32" using sample_ext_bytes(2) by (simp_all add: sec_at_def)
  then have "length (snd s) = 1" using unat_of_nat [where 'a = 32, of "length (snd s)"] by simp
  then obtain x where x: "snd s = [x]" by (cases "snd s") auto
  have "length x = 8" "bytes_at sample_ext 36 x" using t x by (simp_all add: sec_at_def SEC_HDRLEN_def)
  then have "x = le32 16 @ le32 2" using sample_ext_bytes(3) unfolding bytes_at_def by (metis length_append length_le(2) numeral_Bit0)
  moreover have "fst s = 1" using t sample_ext_bytes(1) by (simp add: sec_at_def)
  moreover have "ss' = []" using a(2) s x by (cases ss') (auto simp: secs_size_def sec_size_def SEC_HDRLEN_def)
  ultimately show ?thesis using s x by (metis prod.collapse)
qed

theorem ext_info_relocated_witness:
  "\<exists>x. btf_ext_new True True sample_ext = Some (Inr x) \<and> btf_ext_reloc_func_info True sample_ext_btf x ''xdp'' 5 None 0 = Some (0, Some (le32 7 @ le32 2), 1)"
proof -
  let ?x = "\<lparr>be_data = sample_ext, be_func_info = \<lparr>xi_info = 28, xi_rec_size = 8, xi_len = 16\<rparr>, be_line_info = no_info, be_field_reloc_info = no_info\<rparr>"
  obtain fs where fs: "table_ok sample_ext \<lparr>xi_info = 28, xi_rec_size = 8, xi_len = 16\<rparr> fs"
    "\<forall>ok b f sec n info cnt. secs_named b f fs \<and> collected 8 \<lparr>xi_info = 28, xi_rec_size = 8, xi_len = 16\<rparr> info cnt \<longrightarrow>
       btf_ext_reloc_func_info ok b ?x sec n info cnt = Some (reloc_spec ok f fs sec n info cnt)"
    using ext_info_relocated [of True True sample_ext] unfolding sample_ext_new by (auto simp: btf_ext_func_info_rec_size_def)
  note ss = sample_ext_table [OF fs(1)]
  have "secs_named sample_ext_btf (\<lambda>_. ''xdp'') fs" by (simp add: ss secs_named_def sample_ext_name)
  moreover have "collected 8 \<lparr>xi_info = 28, xi_rec_size = 8, xi_len = 16\<rparr> None 0" by (simp add: collected_def)
  ultimately have "btf_ext_reloc_func_info True sample_ext_btf ?x ''xdp'' 5 None 0 = Some (reloc_spec True (\<lambda>_. ''xdp'') fs ''xdp'' 5 None 0)"
    using fs(2) by blast
  also have "\<dots> = Some (0, Some (le32 7 @ le32 2), 1)" by (simp add: ss reloc_spec_def adjust_record_def le32_def load32_def)
  finally show ?thesis using sample_ext_new by blast
qed

end
