(* ===== verification/Prog_Linfo.thy ===== *)
theory Prog_Linfo
  imports Btf
begin

text \<open>
  Line information of a loaded program: \<open>libbpf/src/bpf_prog_linfo.c\<close>.

  The kernel reports, for a program, the records of its source lines, each with the offset of
  its first instruction, and for the compiled program the addresses of the same lines, function by
  function.  \<open>bpf_prog_linfo__new\<close> copies both and finds where the records of every function start; the
  two searches look up the line of an instruction or of an address.
\<close>

section \<open>State\<close>

text \<open>
  What is read of \<open>struct bpf_prog_info\<close>.  The tables that it points to are lists; the bytes of the
  records keep their layout, since the kernel chooses the size of a record.
\<close>

record line_tables =
  lt_nr_line_info :: u32
  lt_line_info_rec_size :: u32
  lt_line_info :: packet
  lt_nr_jited_ksyms :: u32
  lt_jited_line_info :: "packet option"
  lt_nr_jited_line_info :: u32
  lt_jited_line_info_rec_size :: u32
  lt_nr_jited_func_lens :: u32
  lt_jited_ksyms :: "u64 list option"
  lt_jited_func_lens :: "u32 list option"

record bpf_prog_linfo =
  raw_linfo :: packet
  raw_jited_linfo :: packet
  nr_jited_linfo_per_func :: "u32 list"
  jited_linfo_func_idx :: "u32 list"
  nr_linfo :: u32
  nr_jited_func :: u32
  rec_size :: u32
  jited_rec_size :: u32

definition mem64 :: "packet \<Rightarrow> nat \<Rightarrow> u64 option" where
  "mem64 m off = (if off + 8 \<le> length m then Some (ucast (load32 m off) OR push_bit 32 (ucast (load32 m (off + 4)))) else None)"

definition at_index :: "'a list \<Rightarrow> nat \<Rightarrow> 'a option" where
  "at_index xs i = (if i < length xs then Some (xs ! i) else None)"

section \<open>Dissecting the addresses\<close>

text \<open>
  The loop of \<open>dissect_jited_func\<close>, at the record with index \<open>i\<close>: \<open>f\<close> is the function that is searched,
  \<open>prev_i\<close> the first record of the one before, \<open>prev_addr\<close> the address of the record before.  None is a read
  outside the tables, the left case the label \<open>errout\<close>.
\<close>

function dissect_loop ::
    "u64 list \<Rightarrow> u32 list \<Rightarrow> bpf_prog_linfo \<Rightarrow> nat \<Rightarrow> nat \<Rightarrow> nat \<Rightarrow> u64 \<Rightarrow> (unit + bpf_prog_linfo \<times> nat \<times> nat) option" where
  "dissect_loop ksym_func ksym_len pl i f prev_i prev_addr =
     (if i < unat (nr_linfo pl) \<and> f < unat (nr_jited_func pl) then
        Option.bind (mem64 (raw_jited_linfo pl) (i * unat (jited_rec_size pl))) (\<lambda>addr.
        Option.bind (at_index ksym_func f) (\<lambda>start.
          if start = addr then
            Option.bind (at_index ksym_func (f - 1)) (\<lambda>start0.
            Option.bind (at_index ksym_len (f - 1)) (\<lambda>len0.
              if prev_addr - start0 + 1 > ucast len0 then Some (Inl ())
              else dissect_loop ksym_func ksym_len
                     (pl\<lparr>jited_linfo_func_idx := (jited_linfo_func_idx pl)[f := of_nat i],
                         nr_jited_linfo_per_func := (nr_jited_linfo_per_func pl)[f - 1 := of_nat (i - prev_i)]\<rparr>)
                     (i + 1) (f + 1) i addr))
          else if addr \<le> prev_addr then Some (Inl ())
          else dissect_loop ksym_func ksym_len pl (i + 1) f prev_i addr))
      else Some (Inr (pl, f, prev_i)))"
  by pat_completeness auto

termination
  by (relation "measure (\<lambda>(k, l, pl, i, f, p, a). unat (nr_linfo pl) - i)") auto

declare dissect_loop.simps [simp del]

definition dissect_jited_func :: "u64 list \<Rightarrow> u32 list \<Rightarrow> bpf_prog_linfo \<Rightarrow> (int + bpf_prog_linfo) option" where
  "dissect_jited_func ksym_func ksym_len pl =
     Option.bind (at_index ksym_func 0) (\<lambda>first.
     Option.bind (mem64 (raw_jited_linfo pl) 0) (\<lambda>addr.
       if first \<noteq> addr then Some (Inl (- EINVAL))
       else
         Option.bind (dissect_loop ksym_func ksym_len (pl\<lparr>jited_linfo_func_idx := (jited_linfo_func_idx pl)[0 := 0]\<rparr>) 1 1 0 addr) (\<lambda>r.
           Some (case r of
                   Inl _ \<Rightarrow> Inl (- EINVAL)
                 | Inr (pl, f, prev_i) \<Rightarrow>
                     if f \<noteq> unat (nr_jited_func pl) then Inl (- EINVAL)
                     else Inr (pl\<lparr>nr_jited_linfo_per_func :=
                                   (nr_jited_linfo_per_func pl)[unat (nr_jited_func pl) - 1 := nr_linfo pl - of_nat prev_i]\<rparr>)))))"

section \<open>Construction\<close>

text \<open>\<open>memcpy\<close> of the first \<open>n\<close> bytes.\<close>

definition copy_bytes :: "packet \<Rightarrow> nat \<Rightarrow> packet option" where
  "copy_bytes m n = (if n \<le> length m then Some (take n m) else None)"

text \<open>
  \<open>alloc k\<close> is whether allocation \<open>k\<close> succeeds, \<open>junk\<close> the contents of fresh memory; the result NULL
  is the inner None.
\<close>

definition bpf_prog_linfo_new :: "(nat \<Rightarrow> bool) \<Rightarrow> (nat \<Rightarrow> u32) \<Rightarrow> line_tables \<Rightarrow> bpf_prog_linfo option option" where
  "bpf_prog_linfo_new alloc junk info =
     (let nr = lt_nr_line_info info; nf = lt_nr_jited_ksyms info
      in if nr = 0 then Some None
         else if lt_line_info_rec_size info < 4 then Some None
         else if \<not> alloc 0 \<or> \<not> alloc 1 then Some None
         else
           Option.bind (copy_bytes (lt_line_info info) (unat nr * unat (lt_line_info_rec_size info))) (\<lambda>raw.
             let pl = \<lparr>raw_linfo = raw, raw_jited_linfo = [], nr_jited_linfo_per_func = [], jited_linfo_func_idx = [], nr_linfo = nr,
                       nr_jited_func = 0, rec_size = lt_line_info_rec_size info, jited_rec_size = 0\<rparr>
             in case (lt_jited_line_info info, lt_jited_ksyms info, lt_jited_func_lens info) of
                  (Some jited, Some ksyms, Some lens) \<Rightarrow>
                    if nf = 0 \<or> lt_nr_jited_line_info info \<noteq> nr \<or> lt_jited_line_info_rec_size info < 8 \<or> lt_nr_jited_func_lens info \<noteq> nf
                    then Some (Some pl)
                    else if \<not> alloc 2 then Some None
                    else
                      Option.bind (copy_bytes jited (unat nr * unat (lt_jited_line_info_rec_size info))) (\<lambda>raw_jited.
                        if \<not> alloc 3 \<or> \<not> alloc 4 then Some None
                        else
                          Option.bind (dissect_jited_func ksyms lens
                            (pl\<lparr>nr_jited_func := nf, jited_rec_size := lt_jited_line_info_rec_size info, raw_jited_linfo := raw_jited,
                                nr_jited_linfo_per_func := map junk [0..<unat nf], jited_linfo_func_idx := map junk [0..<unat nf]\<rparr>)) (\<lambda>r.
                              Some (case r of Inl _ \<Rightarrow> None | Inr pl \<Rightarrow> Some pl)))
                | _ \<Rightarrow> Some (Some pl)))"

section \<open>Searches\<close>

text \<open>
  The loops: from record \<open>i\<close>, at most \<open>n\<close> records are passed while their key is not above the one
  that is searched.  \<open>key\<close> reads the key of a record.  The result is the index behind the last record passed.
\<close>

fun pass_records :: "(nat \<Rightarrow> 'k::linorder option) \<Rightarrow> 'k \<Rightarrow> nat \<Rightarrow> nat \<Rightarrow> nat option" where
  "pass_records key k i 0 = Some i"
| "pass_records key k i (Suc n) = Option.bind (key i) (\<lambda>x. if k < x then Some i else pass_records key k (i + 1) n)"

text \<open>
  The offsets of the first record are products of 32-bit numbers; later ones are reached by adding the size.
  The result is the offset of a record of \<open>raw_linfo\<close>, or NULL.
\<close>

definition bpf_prog_linfo_lfind_addr_func :: "bpf_prog_linfo \<Rightarrow> u64 \<Rightarrow> u32 \<Rightarrow> u32 \<Rightarrow> nat option option" where
  "bpf_prog_linfo_lfind_addr_func pl addr func_idx nr_skip =
     (if func_idx \<ge> nr_jited_func pl then Some None
      else
        Option.bind (at_index (nr_jited_linfo_per_func pl) (unat func_idx)) (\<lambda>nr.
          if nr_skip \<ge> nr then Some None
          else
            Option.bind (at_index (jited_linfo_func_idx pl) (unat func_idx)) (\<lambda>idx.
              let start = idx + nr_skip;
                  base = unat (start * jited_rec_size pl);
                  key = (\<lambda>i. mem64 (raw_jited_linfo pl) (base + i * unat (jited_rec_size pl)))
              in Option.bind (key 0) (\<lambda>first.
                   if addr < first then Some None
                   else
                     Option.bind (pass_records key addr 0 (unat (nr - nr_skip))) (\<lambda>i.
                       Some (Some (unat (start * rec_size pl) + i * unat (rec_size pl) - unat (rec_size pl))))))))"

definition bpf_prog_linfo_lfind :: "bpf_prog_linfo \<Rightarrow> u32 \<Rightarrow> u32 \<Rightarrow> nat option option" where
  "bpf_prog_linfo_lfind pl insn_off nr_skip =
     (if nr_skip \<ge> nr_linfo pl then Some None
      else
        (let base = unat (nr_skip * rec_size pl);
             key = (\<lambda>i. mem32 (raw_linfo pl) (base + i * unat (rec_size pl)))
         in Option.bind (key 0) (\<lambda>first.
              if insn_off < first then Some None
              else
                Option.bind (pass_records key insn_off 0 (unat (nr_linfo pl - nr_skip))) (\<lambda>i.
                  Some (Some (base + i * unat (rec_size pl) - unat (rec_size pl)))))))"

section \<open>What dissecting finds\<close>

text \<open>The addresses of the records, as the table of the compiled program holds them.\<close>

definition jited_addrs :: "bpf_prog_linfo \<Rightarrow> u64 list \<Rightarrow> bool" where
  "jited_addrs pl xs \<longleftrightarrow> length xs = unat (nr_linfo pl) \<and>
     (\<forall>i<length xs. mem64 (raw_jited_linfo pl) (i * unat (jited_rec_size pl)) = Some (xs ! i))"

definition first_rec :: "bpf_prog_linfo \<Rightarrow> nat \<Rightarrow> nat" where
  "first_rec pl g = unat (jited_linfo_func_idx pl ! g)"

definition nr_recs :: "bpf_prog_linfo \<Rightarrow> nat \<Rightarrow> nat" where
  "nr_recs pl g = unat (nr_jited_linfo_per_func pl ! g)"

text \<open>
  The first \<open>f\<close> functions are dissected: each starts with the record of its own address, behind
  the start of the one before; up to the last one they are closed, with increasing addresses.
\<close>

definition dissected :: "u64 list \<Rightarrow> u64 list \<Rightarrow> bpf_prog_linfo \<Rightarrow> nat \<Rightarrow> bool" where
  "dissected xs ksyms pl f \<longleftrightarrow> first_rec pl 0 = 0 \<and>
     (\<forall>g<f. first_rec pl g < length xs \<and> xs ! first_rec pl g = ksyms ! g) \<and>
     (\<forall>g. g + 1 < f \<longrightarrow> first_rec pl g < first_rec pl (g + 1) \<and> nr_recs pl g = first_rec pl (g + 1) - first_rec pl g \<and>
        (\<forall>j. first_rec pl g \<le> j \<and> j + 1 < first_rec pl (g + 1) \<longrightarrow> xs ! j < xs ! (j + 1)))"

definition arrays_fit :: "bpf_prog_linfo \<Rightarrow> bool" where
  "arrays_fit pl \<longleftrightarrow> length (jited_linfo_func_idx pl) = unat (nr_jited_func pl) \<and> length (nr_jited_linfo_per_func pl) = unat (nr_jited_func pl)"

lemma unat_of_nat_u32: "n < unat (w :: u32) \<Longrightarrow> unat (of_nat n :: u32) = n"
proof -
  assume "n < unat w"
  moreover have "unat w < 2 ^ 32" by (rule unsigned_less [THEN less_le_trans]) simp
  ultimately show ?thesis unfolding unat_of_nat by (intro mod_less) simp
qed

lemma dissect_step:
  assumes "dissected xs ksyms pl f" "arrays_fit pl" "0 < f" "f < unat (nr_jited_func pl)" "i < length xs" "length xs = unat (nr_linfo pl)"
    and "first_rec pl (f - 1) = p" "p < i" "xs ! i = ksyms ! f" "\<forall>j. p \<le> j \<and> j + 1 < i \<longrightarrow> xs ! j < xs ! (j + 1)"
  defines "pl' \<equiv> pl\<lparr>jited_linfo_func_idx := (jited_linfo_func_idx pl)[f := of_nat i],
                   nr_jited_linfo_per_func := (nr_jited_linfo_per_func pl)[f - 1 := of_nat (i - p)]\<rparr>"
  shows "dissected xs ksyms pl' (f + 1)" "first_rec pl' f = i"
proof -
  have u: "unat (of_nat i :: u32) = i" "unat (of_nat (i - p) :: u32) = i - p"
    using assms(5,6) unat_of_nat_u32 [of i "nr_linfo pl"] unat_of_nat_u32 [of "i - p" "nr_linfo pl"] by auto
  have fr: "first_rec pl' g = (if g = f then i else first_rec pl g)" if "g \<le> f" for g
    using assms(2,4) that u(1) by (auto simp: first_rec_def pl'_def arrays_fit_def nth_list_update)
  have nr: "nr_recs pl' g = (if g = f - 1 then i - p else nr_recs pl g)" if "g < f" for g
    using assms(2,3,4) that u(2) by (auto simp: nr_recs_def pl'_def arrays_fit_def nth_list_update)
  show "first_rec pl' f = i" by (simp add: fr)
  have d: "first_rec pl 0 = 0" "\<And>g. g < f \<Longrightarrow> first_rec pl g < length xs \<and> xs ! first_rec pl g = ksyms ! g"
    "\<And>g. g + 1 < f \<Longrightarrow> first_rec pl g < first_rec pl (g + 1) \<and> nr_recs pl g = first_rec pl (g + 1) - first_rec pl g \<and>
        (\<forall>j. first_rec pl g \<le> j \<and> j + 1 < first_rec pl (g + 1) \<longrightarrow> xs ! j < xs ! (j + 1))"
    using assms(1) unfolding dissected_def by blast+
  show "dissected xs ksyms pl' (f + 1)"
    unfolding dissected_def
  proof (intro conjI allI impI)
    show "first_rec pl' 0 = 0" using fr [of 0] d(1) assms(3) by simp
    fix g assume "g < f + 1"
    then show "first_rec pl' g < length xs" "xs ! first_rec pl' g = ksyms ! g" using fr [of g] d(2) [of g] assms(5,9) by auto
  next
    fix g assume g: "g + 1 < f + 1"
    then consider "g + 1 < f" | "g = f - 1" by linarith
    then have "first_rec pl' g < first_rec pl' (g + 1) \<and> nr_recs pl' g = first_rec pl' (g + 1) - first_rec pl' g \<and>
        (\<forall>j. first_rec pl' g \<le> j \<and> j + 1 < first_rec pl' (g + 1) \<longrightarrow> xs ! j < xs ! (j + 1))"
    proof cases
      case 1
      then have "first_rec pl' g = first_rec pl g" "first_rec pl' (g + 1) = first_rec pl (g + 1)" "nr_recs pl' g = nr_recs pl g"
        using fr [of g] fr [of "g + 1"] nr [of g] by auto
      then show ?thesis using d(3) [OF 1] by simp
    next
      case 2
      then have "first_rec pl' g = p" "first_rec pl' (g + 1) = i" "nr_recs pl' g = i - p"
        using fr [of g] fr [of "g + 1"] nr [of g] assms(3,7) by auto
      then show ?thesis using assms(8,10) by simp
    qed
    then show "first_rec pl' g < first_rec pl' (g + 1)" "nr_recs pl' g = first_rec pl' (g + 1) - first_rec pl' g"
        "\<And>j. first_rec pl' g \<le> j \<and> j + 1 < first_rec pl' (g + 1) \<Longrightarrow> xs ! j < xs ! (j + 1)" by blast+
  qed
qed

definition same_tables :: "bpf_prog_linfo \<Rightarrow> bpf_prog_linfo \<Rightarrow> bool" where
  "same_tables pl pl' \<longleftrightarrow> (\<exists>ns is. pl' = pl\<lparr>jited_linfo_func_idx := is, nr_jited_linfo_per_func := ns\<rparr>)"

lemma same_tablesD:
  assumes "same_tables pl pl'"
  shows "nr_linfo pl' = nr_linfo pl" "nr_jited_func pl' = nr_jited_func pl" "raw_jited_linfo pl' = raw_jited_linfo pl"
    "raw_linfo pl' = raw_linfo pl" "rec_size pl' = rec_size pl" "jited_rec_size pl' = jited_rec_size pl" "jited_addrs pl' xs = jited_addrs pl xs"
  using assms by (auto simp: same_tables_def jited_addrs_def)

lemma dissect_loop_result:
  assumes "jited_addrs pl xs" "arrays_fit pl" "unat (nr_jited_func pl) \<le> length ksyms" "unat (nr_jited_func pl) \<le> length lens"
    and "dissected xs ksyms pl f" "0 < f" "f \<le> unat (nr_jited_func pl)" "first_rec pl (f - 1) = p" "p < i" "i \<le> length xs"
    and "\<forall>j. p \<le> j \<and> j + 1 < i \<longrightarrow> xs ! j < xs ! (j + 1)" "a = xs ! (i - 1)"
  shows "\<exists>r. dissect_loop ksyms lens pl i f p a = Some r \<and>
    (case r of Inl _ \<Rightarrow> True | Inr (pl', f', p') \<Rightarrow> same_tables pl pl' \<and> arrays_fit pl' \<and> dissected xs ksyms pl' f' \<and> 0 < f' \<and>
       f' \<le> unat (nr_jited_func pl) \<and> first_rec pl' (f' - 1) = p' \<and> p' < length xs)"
  using assms
proof (induction ksyms lens pl i f p a rule: dissect_loop.induct)
  case (1 ksyms lens pl i f p a)
  have nr: "unat (nr_linfo pl) = length xs" using "1.prems"(1) by (simp add: jited_addrs_def)
  show ?case
  proof (cases "i < length xs \<and> f < unat (nr_jited_func pl)")
    case False
    then have "dissect_loop ksyms lens pl i f p a = Some (Inr (pl, f, p))" by (subst dissect_loop.simps) (simp only: nr if_False)
    moreover have "same_tables pl pl" unfolding same_tables_def by (intro exI [of _ "nr_jited_linfo_per_func pl"] exI [of _ "jited_linfo_func_idx pl"]) simp
    ultimately show ?thesis using "1.prems" by simp
  next
    case True
    then have c: "i < unat (nr_linfo pl) \<and> f < unat (nr_jited_func pl)" using nr by simp
    have m: "mem64 (raw_jited_linfo pl) (i * unat (jited_rec_size pl)) = Some (xs ! i)" using "1.prems"(1) True by (simp add: jited_addrs_def)
    have k: "at_index ksyms f = Some (ksyms ! f)" "at_index ksyms (f - 1) = Some (ksyms ! (f - 1))" "at_index lens (f - 1) = Some (lens ! (f - 1))"
      using "1.prems"(3,4) True by (auto simp: at_index_def)
    let ?pl = "pl\<lparr>jited_linfo_func_idx := (jited_linfo_func_idx pl)[f := of_nat i],
                   nr_jited_linfo_per_func := (nr_jited_linfo_per_func pl)[f - 1 := of_nat (i - p)]\<rparr>"
    have e: "dissect_loop ksyms lens pl i f p a =
      (if ksyms ! f = xs ! i then
         (if a - ksyms ! (f - 1) + 1 > ucast (lens ! (f - 1)) then Some (Inl ()) else dissect_loop ksyms lens ?pl (i + 1) (f + 1) i (xs ! i))
       else if xs ! i \<le> a then Some (Inl ()) else dissect_loop ksyms lens pl (i + 1) f p (xs ! i))"
      by (subst dissect_loop.simps) (simp only: c m k if_True Option.bind.bind_lunit simp_thms)
    consider (found) "ksyms ! f = xs ! i" "\<not> a - ksyms ! (f - 1) + 1 > ucast (lens ! (f - 1))"
      | (more) "ksyms ! f \<noteq> xs ! i" "\<not> xs ! i \<le> a" | (bad) "dissect_loop ksyms lens pl i f p a = Some (Inl ())"
      using e by (auto split: if_splits)
    then show ?thesis
    proof cases
      case found
      have d: "dissected xs ksyms ?pl (f + 1)" "first_rec ?pl f = i"
        using dissect_step [OF "1.prems"(5,2,6) _ _ nr [symmetric] "1.prems"(8,9) _ "1.prems"(11)] True found(1) by simp_all
      have "arrays_fit ?pl" using "1.prems"(2) by (simp add: arrays_fit_def)
      then have "\<exists>r. dissect_loop ksyms lens ?pl (i + 1) (f + 1) i (xs ! i) = Some r \<and>
        (case r of Inl _ \<Rightarrow> True | Inr (pl', f', p') \<Rightarrow> same_tables ?pl pl' \<and> arrays_fit pl' \<and> dissected xs ksyms pl' f' \<and> 0 < f' \<and>
           f' \<le> unat (nr_jited_func ?pl) \<and> first_rec pl' (f' - 1) = p' \<and> p' < length xs)"
        using found "1.prems"(1,3,4) d True
        by (intro "1.IH"(1) [OF c m k(1) _ k(2,3)]) (auto simp: jited_addrs_def)
      then show ?thesis using e found by (auto simp: same_tables_def split: sum.splits)
    next
      case more
      have "\<exists>r. dissect_loop ksyms lens pl (i + 1) f p (xs ! i) = Some r \<and>
        (case r of Inl _ \<Rightarrow> True | Inr (pl', f', p') \<Rightarrow> same_tables pl pl' \<and> arrays_fit pl' \<and> dissected xs ksyms pl' f' \<and> 0 < f' \<and>
           f' \<le> unat (nr_jited_func pl) \<and> first_rec pl' (f' - 1) = p' \<and> p' < length xs)"
      proof (intro "1.IH"(2) [OF c m k(1) more] "1.prems"(1-8))
        have "xs ! j < xs ! (j + 1)" if "p \<le> j \<and> j + 1 < i + 1" for j
          using that "1.prems"(11,12) more(2) by (cases "j + 1 = i") (auto simp: not_le)
        then show "\<forall>j. p \<le> j \<and> j + 1 < i + 1 \<longrightarrow> xs ! j < xs ! (j + 1)" by blast
      qed (use "1.prems"(9) True in simp_all)
      then show ?thesis using e more by simp
    qed simp
  qed
qed

text \<open>All functions are found, and their records partition the table.\<close>

definition partitioned :: "u64 list \<Rightarrow> u64 list \<Rightarrow> bpf_prog_linfo \<Rightarrow> bool" where
  "partitioned xs ksyms pl \<longleftrightarrow>
     (let nf = unat (nr_jited_func pl)
      in 0 < nf \<and> arrays_fit pl \<and> jited_addrs pl xs \<and> dissected xs ksyms pl nf \<and> nr_recs pl (nf - 1) = length xs - first_rec pl (nf - 1))"

lemma dissect_result:
  assumes "jited_addrs pl xs" "arrays_fit pl" "unat (nr_jited_func pl) \<le> length ksyms" "unat (nr_jited_func pl) \<le> length lens"
    and "0 < unat (nr_jited_func pl)" "0 < length xs"
  shows "\<exists>r. dissect_jited_func ksyms lens pl = Some r \<and> (case r of Inl e \<Rightarrow> e = - EINVAL | Inr pl' \<Rightarrow> same_tables pl pl' \<and> partitioned xs ksyms pl')"
proof -
  have a: "at_index ksyms 0 = Some (ksyms ! 0)" "mem64 (raw_jited_linfo pl) 0 = Some (xs ! 0)"
    using assms(1,3,5,6) by (auto simp: at_index_def jited_addrs_def dest: spec [of _ 0])
  show ?thesis
  proof (cases "ksyms ! 0 = xs ! 0")
    case False
    then show ?thesis by (simp add: dissect_jited_func_def a)
  next
    case True
    let ?pl = "pl\<lparr>jited_linfo_func_idx := (jited_linfo_func_idx pl)[0 := 0]\<rparr>"
    have "first_rec ?pl 0 = 0" using assms(2,5) by (simp add: first_rec_def arrays_fit_def)
    then have "dissected xs ksyms ?pl 1" using True assms(6) by (simp add: dissected_def)
    moreover have "jited_addrs ?pl xs" "arrays_fit ?pl" using assms(1,2) by (auto simp: jited_addrs_def arrays_fit_def)
    ultimately obtain r where r: "dissect_loop ksyms lens ?pl 1 1 0 (xs ! 0) = Some r"
      "case r of Inl _ \<Rightarrow> True | Inr (pl', f', p') \<Rightarrow> same_tables ?pl pl' \<and> arrays_fit pl' \<and> dissected xs ksyms pl' f' \<and> 0 < f' \<and>
         f' \<le> unat (nr_jited_func ?pl) \<and> first_rec pl' (f' - 1) = p' \<and> p' < length xs"
      using dissect_loop_result [of ?pl xs ksyms lens 1 0 1 "xs ! 0"] assms(3-6) \<open>first_rec ?pl 0 = 0\<close> by auto
    have e: "dissect_jited_func ksyms lens pl = Some (case r of
                   Inl _ \<Rightarrow> Inl (- EINVAL)
                 | Inr (pl, f, prev_i) \<Rightarrow>
                     if f \<noteq> unat (nr_jited_func pl) then Inl (- EINVAL)
                     else Inr (pl\<lparr>nr_jited_linfo_per_func :=
                                   (nr_jited_linfo_per_func pl)[unat (nr_jited_func pl) - 1 := nr_linfo pl - of_nat prev_i]\<rparr>))"
      unfolding dissect_jited_func_def a using True r(1) by simp
    show ?thesis
    proof (cases r)
      case (Inl u)
      then show ?thesis using e by simp
    next
      case (Inr x)
      obtain pl' f' p' where x: "x = (pl', f', p')" by (metis prod_cases3)
      note p = r(2) [unfolded Inr x sum.case prod.case]
      have t: "same_tables ?pl pl'" using p by blast
      have nf: "nr_jited_func pl' = nr_jited_func pl" "nr_linfo pl' = nr_linfo pl" using same_tablesD [OF t] by simp_all
      show ?thesis
      proof (cases "f' = unat (nr_jited_func pl)")
        case False
        then show ?thesis using e Inr x nf by simp
      next
        case True
        let ?q = "pl'\<lparr>nr_jited_linfo_per_func := (nr_jited_linfo_per_func pl')[f' - 1 := nr_linfo pl' - of_nat p']\<rparr>"
        have xs: "length xs = unat (nr_linfo pl)" using assms(1) by (simp add: jited_addrs_def)
        have u: "unat (of_nat p' :: u32) = p'" using p xs by (intro unat_of_nat_u32 [of _ "nr_linfo pl"]) simp
        have "unat (nr_linfo pl' - of_nat p') = length xs - p'" using p xs u nf by (subst unat_sub) (simp_all add: word_le_nat_alt)
        then have n: "nr_recs ?q (f' - 1) = length xs - p'" "\<And>g. g + 1 < f' \<Longrightarrow> nr_recs ?q g = nr_recs pl' g"
          using p True nf(1) by (auto simp: nr_recs_def arrays_fit_def)
        have f: "\<And>g. first_rec ?q g = first_rec pl' g" by (simp add: first_rec_def)
        have "dissected xs ksyms ?q f'" using p n(2) unfolding dissected_def f by (metis (no_types, lifting))
        moreover have "jited_addrs ?q xs" using assms(1) same_tablesD(7) [OF t, of xs] by (simp add: jited_addrs_def)
        moreover have "arrays_fit ?q" using p by (simp add: arrays_fit_def)
        ultimately have "partitioned xs ksyms ?q" using p n(1) True nf(1) f unfolding partitioned_def Let_def by simp
        moreover have "same_tables pl ?q" using t by (auto simp: same_tables_def) blast
        ultimately show ?thesis using e Inr x True nf(1) by simp
      qed
    qed
  qed
qed

text \<open>Passing records stops behind the last one that is not above the key, if the keys can be read.\<close>

lemma pass_records_spec:
  assumes "\<And>j. j < n \<Longrightarrow> key (i + j) = Some (x (i + j))"
  shows "\<exists>r\<le>n. pass_records key k i n = Some (i + r) \<and> (\<forall>j<r. x (i + j) \<le> k) \<and> (r < n \<longrightarrow> k < x (i + r))"
  using assms
proof (induction n arbitrary: i)
  case (Suc n)
  have k0: "key i = Some (x i)" using Suc.prems [of 0] by simp
  show ?case
  proof (cases "k < x i")
    case True
    then show ?thesis using k0 by (intro exI [of _ 0]) simp
  next
    case False
    obtain r where r: "r \<le> n" "pass_records key k (i + 1) n = Some (i + 1 + r)" "\<forall>j<r. x (i + 1 + j) \<le> k" "r < n \<longrightarrow> k < x (i + 1 + r)"
      using Suc.IH [of "i + 1"] Suc.prems [of "Suc j" for j] by auto
    have "\<forall>j<Suc r. x (i + j) \<le> k" using r(3) False by (auto simp: less_Suc_eq_0_disj)
    then show ?thesis using r k0 False by (intro exI [of _ "Suc r"]) auto
  qed
qed simp

section \<open>What the searches find\<close>

text \<open>The tables that the kernel hands out are as long as their numbers say, and hold the addresses \<open>xs\<close>.\<close>

definition tables_ok :: "line_tables \<Rightarrow> u64 list \<Rightarrow> u64 list \<Rightarrow> u32 list \<Rightarrow> packet \<Rightarrow> bool" where
  "tables_ok info xs ksyms lens jited \<longleftrightarrow>
     unat (lt_nr_line_info info) * unat (lt_line_info_rec_size info) \<le> length (lt_line_info info) \<and>
     lt_jited_line_info info = Some jited \<and> lt_jited_ksyms info = Some ksyms \<and> lt_jited_func_lens info = Some lens \<and>
     unat (lt_nr_jited_ksyms info) \<le> length ksyms \<and> unat (lt_nr_jited_func_lens info) \<le> length lens \<and>
     unat (lt_nr_jited_line_info info) * unat (lt_jited_line_info_rec_size info) \<le> length jited \<and>
     length xs = unat (lt_nr_line_info info) \<and>
     (\<forall>i<length xs. mem64 jited (i * unat (lt_jited_line_info_rec_size info)) = Some (xs ! i))"

lemma mem64_take: "off + 8 \<le> n \<Longrightarrow> n \<le> length m \<Longrightarrow> mem64 (take n m) off = mem64 m off"
  by (simp add: mem64_def load32_def)

lemma record_inside: "i < n \<Longrightarrow> k \<le> r \<Longrightarrow> i * r + k \<le> n * (r :: nat)"
  by (metis Suc_leI add_le_mono1 add.commute le_trans mult_Suc mult_le_mono1 nat_add_left_cancel_le)

lemma linfo_new_result:
  assumes "tables_ok info xs ksyms lens jited"
  shows "\<exists>r. bpf_prog_linfo_new alloc junk info = Some r \<and>
    (\<forall>pl. r = Some pl \<and> nr_jited_func pl \<noteq> 0 \<longrightarrow> partitioned xs ksyms pl \<and> nr_linfo pl = lt_nr_line_info info \<and>
      rec_size pl = lt_line_info_rec_size info \<and> jited_rec_size pl = lt_jited_line_info_rec_size info)"
proof -
  note t = assms [unfolded tables_ok_def]
  let ?nr = "lt_nr_line_info info" and ?nf = "lt_nr_jited_ksyms info" and ?rs = "lt_jited_line_info_rec_size info"
  let ?n = "unat ?nr * unat (lt_line_info_rec_size info)"
  let ?plain = "\<lparr>raw_linfo = take ?n (lt_line_info info), raw_jited_linfo = [], nr_jited_linfo_per_func = [], jited_linfo_func_idx = [],
     nr_linfo = ?nr, nr_jited_func = 0, rec_size = lt_line_info_rec_size info, jited_rec_size = 0\<rparr>"
  let ?pl = "?plain\<lparr>nr_jited_func := ?nf, jited_rec_size := ?rs, raw_jited_linfo := take (unat ?nr * unat ?rs) jited,
     nr_jited_linfo_per_func := map junk [0..<unat ?nf], jited_linfo_func_idx := map junk [0..<unat ?nf]\<rparr>"
  let ?early = "?nr = 0 \<or> lt_line_info_rec_size info < 4 \<or> \<not> alloc 0 \<or> \<not> alloc 1"
  let ?none = "?nf = 0 \<or> lt_nr_jited_line_info info \<noteq> ?nr \<or> ?rs < 8 \<or> lt_nr_jited_func_lens info \<noteq> ?nf"
  have c: "copy_bytes (lt_line_info info) ?n = Some (take ?n (lt_line_info info))" using t by (simp add: copy_bytes_def)
  have e: "bpf_prog_linfo_new alloc junk info =
    (if ?early then Some None else if ?none then Some (Some ?plain) else if \<not> alloc 2 then Some None
     else Option.bind (copy_bytes jited (unat ?nr * unat ?rs)) (\<lambda>raw_jited.
       if \<not> alloc 3 \<or> \<not> alloc 4 then Some None
       else Option.bind (dissect_jited_func ksyms lens
           (?plain\<lparr>nr_jited_func := ?nf, jited_rec_size := ?rs, raw_jited_linfo := raw_jited,
              nr_jited_linfo_per_func := map junk [0..<unat ?nf], jited_linfo_func_idx := map junk [0..<unat ?nf]\<rparr>))
         (\<lambda>r. Some (case r of Inl _ \<Rightarrow> None | Inr pl \<Rightarrow> Some pl))))"
    using t c by (simp add: bpf_prog_linfo_new_def Let_def)
  show ?thesis
  proof (cases "?early \<or> ?none \<or> \<not> alloc 2")
    case True
    then show ?thesis unfolding e by auto
  next
    case F: False
    have cj: "copy_bytes jited (unat ?nr * unat ?rs) = Some (take (unat ?nr * unat ?rs) jited)" using t F by (simp add: copy_bytes_def)
    show ?thesis
    proof (cases "\<not> alloc 3 \<or> \<not> alloc 4")
      case True
      then show ?thesis unfolding e cj using F by simp
    next
      case False
      have e2: "bpf_prog_linfo_new alloc junk info =
        Option.bind (dissect_jited_func ksyms lens ?pl) (\<lambda>r. Some (case r of Inl _ \<Rightarrow> None | Inr pl \<Rightarrow> Some pl))"
        unfolding e cj using F False by simp
      have rs: "8 \<le> unat ?rs" using F by (simp add: word_less_nat_alt not_less)
      have "jited_addrs ?pl xs"
        unfolding jited_addrs_def using t F rs record_inside [of _ "unat ?nr" 8 "unat ?rs"] by (auto simp: mem64_take)
      moreover have "arrays_fit ?pl" by (simp add: arrays_fit_def)
      moreover have "0 < unat ?nf" "0 < length xs" using F t by (auto simp: unat_gt_0)
      ultimately obtain r where r: "dissect_jited_func ksyms lens ?pl = Some r"
        "case r of Inl e \<Rightarrow> e = - EINVAL | Inr pl' \<Rightarrow> same_tables ?pl pl' \<and> partitioned xs ksyms pl'"
        using dissect_result [of ?pl xs ksyms lens] t F by auto
      show ?thesis
      proof (cases r)
        case (Inl x)
        then show ?thesis unfolding e2 r(1) by simp
      next
        case (Inr pl')
        then have "same_tables ?pl pl'" "partitioned xs ksyms pl'" using r(2) by simp_all
        then show ?thesis unfolding e2 r(1) Inr using same_tablesD(1,5,6) [of ?pl pl'] by simp
      qed
    qed
  qed
qed

text \<open>The records of a function lie inside the table.\<close>

lemma partitioned_inside:
  assumes "partitioned xs ksyms pl" "g < unat (nr_jited_func pl)"
  shows "first_rec pl g + nr_recs pl g \<le> length xs" "0 < nr_recs pl g"
proof -
  note p = assms(1) [unfolded partitioned_def Let_def dissected_def]
  have "first_rec pl g + nr_recs pl g \<le> length xs \<and> 0 < nr_recs pl g"
  proof (cases "g + 1 < unat (nr_jited_func pl)")
    case True
    then have "first_rec pl g < first_rec pl (g + 1)" "nr_recs pl g = first_rec pl (g + 1) - first_rec pl g" "first_rec pl (g + 1) < length xs"
      using p by blast+
    then show ?thesis by simp
  next
    case False
    then have "g = unat (nr_jited_func pl) - 1" "first_rec pl g < length xs" using p assms(2) by auto
    then show ?thesis using p by (simp only:) linarith
  qed
  then show "first_rec pl g + nr_recs pl g \<le> length xs" "0 < nr_recs pl g" by blast+
qed

lemma lfind_addr_result:
  assumes "partitioned xs ksyms pl" "unat func_idx < unat (nr_jited_func pl)" "unat nr_skip < nr_recs pl (unat func_idx)"
    and "length xs * unat (rec_size pl) < 2 ^ 32" "length xs * unat (jited_rec_size pl) < 2 ^ 32"
  defines "s \<equiv> first_rec pl (unat func_idx) + unat nr_skip" and "e \<equiv> first_rec pl (unat func_idx) + nr_recs pl (unat func_idx)"
  shows "bpf_prog_linfo_lfind_addr_func pl addr func_idx nr_skip = Some None \<and> addr < xs ! s \<or>
    (\<exists>k. s \<le> k \<and> k < e \<and> bpf_prog_linfo_lfind_addr_func pl addr func_idx nr_skip = Some (Some (k * unat (rec_size pl))) \<and>
      (\<forall>j. s \<le> j \<and> j \<le> k \<longrightarrow> xs ! j \<le> addr) \<and> (k + 1 < e \<longrightarrow> addr < xs ! (k + 1)))"
proof -
  let ?g = "unat func_idx"
  have fit: "?g < length (nr_jited_linfo_per_func pl)" "?g < length (jited_linfo_func_idx pl)" and ja: "jited_addrs pl xs"
    using assms(1,2) by (simp_all add: partitioned_def Let_def arrays_fit_def)
  have e: "e \<le> length xs" "s < e" using partitioned_inside [OF assms(1,2)] assms(3) by (simp_all add: e_def s_def)
  have xs: "length xs = unat (nr_linfo pl)" using ja by (simp add: jited_addrs_def)
  have lt: "length xs < 2 ^ 32" unfolding xs by (rule unsigned_less [THEN less_le_trans]) simp
  let ?start = "jited_linfo_func_idx pl ! ?g + nr_skip"
  have st: "unat ?start = s"
    using e lt unfolding s_def first_rec_def by (subst unat_word_ariths(1)) (simp add: mod_less)
  have wrap: "unat (?start * w) = s * unat w" if "length xs * unat w < 2 ^ 32" for w :: u32
  proof -
    have "s * unat w \<le> length xs * unat w" using e by (intro mult_le_mono1) simp
    then have "s * unat w < 2 ^ 32" using that by (rule le_less_trans)
    then show ?thesis by (subst unat_word_ariths(2)) (simp add: st mod_less)
  qed
  define n where "n = nr_recs pl ?g - unat nr_skip"
  have nn: "s + n = e" "0 < n" using assms(3) by (simp_all add: n_def s_def e_def)
  have un: "unat (nr_jited_linfo_per_func pl ! ?g - nr_skip) = n"
    using assms(3) by (subst unat_sub) (simp_all add: word_le_nat_alt nr_recs_def n_def)
  let ?key = "\<lambda>i. mem64 (raw_jited_linfo pl) (unat (?start * jited_rec_size pl) + i * unat (jited_rec_size pl))"
  have key: "?key j = Some (xs ! (s + j))" if "j < n" for j
  proof -
    have "s + j < length xs" using that nn e by simp
    then have "mem64 (raw_jited_linfo pl) ((s + j) * unat (jited_rec_size pl)) = Some (xs ! (s + j))" using ja by (simp add: jited_addrs_def)
    then show ?thesis by (simp add: wrap [OF assms(5)] add_mult_distrib)
  qed
  obtain r where r: "r \<le> n" "pass_records ?key addr 0 n = Some r" "\<forall>j<r. xs ! (s + j) \<le> addr" "r < n \<longrightarrow> addr < xs ! (s + r)"
    using pass_records_spec [of n ?key 0 "\<lambda>j. xs ! (s + j)" addr] key by auto
  have "\<not> nr_skip \<ge> nr_jited_linfo_per_func pl ! ?g" using assms(3) by (simp add: word_le_nat_alt nr_recs_def)
  moreover have "\<not> func_idx \<ge> nr_jited_func pl" using assms(2) by (simp add: word_le_nat_alt)
  ultimately have f: "bpf_prog_linfo_lfind_addr_func pl addr func_idx nr_skip =
      (if addr < xs ! s then Some None else Some (Some (s * unat (rec_size pl) + r * unat (rec_size pl) - unat (rec_size pl))))"
    unfolding bpf_prog_linfo_lfind_addr_func_def using fit key [OF nn(2)] r(2) un wrap [OF assms(4)]
    by (simp add: at_index_def Let_def)
  show ?thesis
  proof (cases "addr < xs ! s")
    case False
    have "r \<noteq> 0"
    proof
      assume "r = 0"
      then show False using r(4) nn(2) False by simp
    qed
    then have "s * unat (rec_size pl) + r * unat (rec_size pl) - unat (rec_size pl) = (s + r - 1) * unat (rec_size pl)"
      by (cases r) (simp_all add: add_mult_distrib)
    moreover have "xs ! j \<le> addr" if "s \<le> j \<and> j \<le> s + r - 1" for j
      using r(3) [rule_format, of "j - s"] that \<open>r \<noteq> 0\<close> by auto
    moreover have "addr < xs ! (s + r - 1 + 1)" if "s + r - 1 + 1 < e" using that r(4) nn(1) \<open>r \<noteq> 0\<close> by simp
    ultimately show ?thesis using f False r(1) nn \<open>r \<noteq> 0\<close> by (intro disjI2 exI [of _ "s + r - 1"]) auto
  qed (simp add: f)
qed

section \<open>Properties\<close>

text \<open>
  C31: Lines of addresses.  On tables as long as their numbers say, the construction returns and reads
  nothing outside them.  If it gives a table of the compiled program, the records are partitioned
  among the functions, each starting with the record of the function's own address.  The search in a
  function then returns no record exactly when the first record is above the address;
  otherwise the record it returns and those before it are not above the address, and the next one
  of the function is.
\<close>

theorem linfo_lookup:
  assumes "tables_ok info xs ksyms lens jited" "unat (lt_nr_line_info info) * unat (lt_line_info_rec_size info) < 2 ^ 32"
    and "unat (lt_nr_line_info info) * unat (lt_jited_line_info_rec_size info) < 2 ^ 32"
  shows "\<exists>r. bpf_prog_linfo_new alloc junk info = Some r \<and> (\<forall>pl. r = Some pl \<and> nr_jited_func pl \<noteq> 0 \<longrightarrow> partitioned xs ksyms pl \<and>
    (\<forall>addr g skip. unat g < unat (nr_jited_func pl) \<and> unat skip < nr_recs pl (unat g) \<longrightarrow>
      (let s = first_rec pl (unat g) + unat skip; e = first_rec pl (unat g) + nr_recs pl (unat g)
       in bpf_prog_linfo_lfind_addr_func pl addr g skip = Some None \<and> addr < xs ! s \<or>
          (\<exists>k. s \<le> k \<and> k < e \<and> bpf_prog_linfo_lfind_addr_func pl addr g skip = Some (Some (k * unat (rec_size pl))) \<and>
             (\<forall>j. s \<le> j \<and> j \<le> k \<longrightarrow> xs ! j \<le> addr) \<and> (k + 1 < e \<longrightarrow> addr < xs ! (k + 1))))))"
proof -
  obtain r where r: "bpf_prog_linfo_new alloc junk info = Some r"
    "\<forall>pl. r = Some pl \<and> nr_jited_func pl \<noteq> 0 \<longrightarrow> partitioned xs ksyms pl \<and> nr_linfo pl = lt_nr_line_info info \<and>
      rec_size pl = lt_line_info_rec_size info \<and> jited_rec_size pl = lt_jited_line_info_rec_size info"
    using linfo_new_result [OF assms(1)] by blast
  have l: "length xs = unat (lt_nr_line_info info)" using assms(1) by (simp add: tables_ok_def)
  show ?thesis unfolding Let_def using r assms(2,3) l by (intro exI [of _ r] conjI allI impI lfind_addr_result) auto
qed

text \<open>Three lines in two functions; records of 4 and 8 bytes.\<close>

definition le64 :: "u64 \<Rightarrow> packet" where "le64 w = le32 (ucast w) @ le32 (ucast (drop_bit 32 w))"

definition sample_tables :: line_tables where
  "sample_tables = \<lparr>lt_nr_line_info = 3, lt_line_info_rec_size = 4, lt_line_info = le32 0 @ le32 2 @ le32 5, lt_nr_jited_ksyms = 2,
     lt_jited_line_info = Some (le64 0x1000 @ le64 0x1008 @ le64 0x2000), lt_nr_jited_line_info = 3, lt_jited_line_info_rec_size = 8,
     lt_nr_jited_func_lens = 2, lt_jited_ksyms = Some [0x1000, 0x2000], lt_jited_func_lens = Some [64, 32]\<rparr>"

lemma sample_tables_ok:
  "tables_ok sample_tables [0x1000, 0x1008, 0x2000] [0x1000, 0x2000] [64, 32] (le64 0x1000 @ le64 0x1008 @ le64 0x2000)"
  by (simp add: tables_ok_def sample_tables_def le64_def le32_def mem64_def load32_def All_less_Suc)

theorem linfo_lookup_witness:
  "\<exists>pl. bpf_prog_linfo_new (\<lambda>_. True) (\<lambda>_. 7) sample_tables = Some (Some pl) \<and> bpf_prog_linfo_lfind_addr_func pl 0x100c 0 0 = Some (Some 4)"
proof -
  obtain pl where pl: "bpf_prog_linfo_new (\<lambda>_. True) (\<lambda>_. 7) sample_tables = Some (Some pl)" "nr_jited_func pl = 2"
    "jited_linfo_func_idx pl = [0, 2]" "nr_jited_linfo_per_func pl = [2, 1]" "rec_size pl = 4"
    by (simp add: bpf_prog_linfo_new_def sample_tables_def copy_bytes_def dissect_jited_func_def dissect_loop.simps at_index_def le64_def le32_def mem64_def
        load32_def upt_rec)
  have "unat (0 :: u32) < unat (nr_jited_func pl) \<and> unat (0 :: u32) < nr_recs pl (unat (0 :: u32))" using pl by (simp add: nr_recs_def)
  then have "bpf_prog_linfo_lfind_addr_func pl 0x100c 0 0 = Some (Some 4)"
    using linfo_lookup [OF sample_tables_ok, of "\<lambda>_. True" "\<lambda>_. 7"] pl
    by (auto simp: sample_tables_def Let_def first_rec_def nr_recs_def less_Suc_eq dest!: spec [of _ "0x100c :: u64"] spec [of _ "0 :: u32"])
  then show ?thesis using pl(1) by blast
qed

end
