(* ===== verification/Xsk_Ring.thy ===== *)
theory Xsk_Ring
  imports Prelude
begin

text \<open>
  The rings of AF_XDP sockets, \<open>libbpf/src/xsk.h\<close>: a ring is an array in memory shared with the kernel
  and two counters of 32 bits that only grow and wrap around, \<open>producer\<close> and \<open>consumer\<close>; each end
  keeps copies of both.

  The counters of the other end are arguments.  Places in the array are given by their index.  The
  header's barriers order the accesses; the model is sequentially consistent.
\<close>

unbundle bit_operations_syntax

section \<open>The two ends\<close>

record xsk_ring =
  cached_prod :: u32
  cached_cons :: u32
  ring_mask :: u32
  ring_size :: u32

definition XDP_RING_NEED_WAKEUP :: u32 where "XDP_RING_NEED_WAKEUP = 1"
definition XSK_UNALIGNED_BUF_OFFSET_SHIFT :: nat where "XSK_UNALIGNED_BUF_OFFSET_SHIFT = 48"
definition XSK_UNALIGNED_BUF_ADDR_MASK :: u64 where "XSK_UNALIGNED_BUF_ADDR_MASK = push_bit 48 1 - 1"

text \<open>The index of an entry: the four accessors differ in the type of the entries.\<close>

definition xsk_ring_prod_fill_addr :: "xsk_ring \<Rightarrow> u32 \<Rightarrow> nat" where
  "xsk_ring_prod_fill_addr fill idx = unat (idx AND ring_mask fill)"

definition xsk_ring_cons_comp_addr :: "xsk_ring \<Rightarrow> u32 \<Rightarrow> nat" where
  "xsk_ring_cons_comp_addr cr idx = unat (idx AND ring_mask cr)"

definition xsk_ring_prod_tx_desc :: "xsk_ring \<Rightarrow> u32 \<Rightarrow> nat" where
  "xsk_ring_prod_tx_desc tx idx = unat (idx AND ring_mask tx)"

definition xsk_ring_cons_rx_desc :: "xsk_ring \<Rightarrow> u32 \<Rightarrow> nat" where
  "xsk_ring_cons_rx_desc rx idx = unat (idx AND ring_mask rx)"

definition xsk_ring_prod_needs_wakeup :: "u32 \<Rightarrow> u32" where
  "xsk_ring_prod_needs_wakeup flags = flags AND XDP_RING_NEED_WAKEUP"

definition xsk_prod_nb_free :: "u32 \<Rightarrow> xsk_ring \<Rightarrow> u32 \<Rightarrow> u32 \<times> xsk_ring" where
  "xsk_prod_nb_free consumer r nb =
     (let free_entries = cached_cons r - cached_prod r
      in if free_entries \<ge> nb then (free_entries, r)
         else (let r = r\<lparr>cached_cons := consumer + ring_size r\<rparr> in (cached_cons r - cached_prod r, r)))"

definition xsk_cons_nb_avail :: "u32 \<Rightarrow> xsk_ring \<Rightarrow> u32 \<Rightarrow> u32 \<times> xsk_ring" where
  "xsk_cons_nb_avail producer r nb =
     (let entries = cached_prod r - cached_cons r;
          (entries, r) = (if entries = 0 then (let r = r\<lparr>cached_prod := producer\<rparr> in (cached_prod r - cached_cons r, r)) else (entries, r))
      in (if entries > nb then nb else entries, r))"

text \<open>\<open>reserve\<close> and \<open>peek\<close> return a number and, when it is not 0, write an index.\<close>

definition xsk_ring_prod_reserve :: "u32 \<Rightarrow> xsk_ring \<Rightarrow> u64 \<Rightarrow> u64 \<times> u32 option \<times> xsk_ring" where
  "xsk_ring_prod_reserve consumer pr nb =
     (let (free_entries, pr) = xsk_prod_nb_free consumer pr (ucast nb)
      in if ucast free_entries < nb then (0, None, pr)
         else (nb, Some (cached_prod pr), pr\<lparr>cached_prod := cached_prod pr + ucast nb\<rparr>))"

definition xsk_ring_prod_submit :: "u32 \<Rightarrow> u64 \<Rightarrow> u32" where
  "xsk_ring_prod_submit producer nb = producer + ucast nb"

definition xsk_ring_cons_peek :: "u32 \<Rightarrow> xsk_ring \<Rightarrow> u64 \<Rightarrow> u64 \<times> u32 option \<times> xsk_ring" where
  "xsk_ring_cons_peek producer cr nb =
     (let (entries, cr) = xsk_cons_nb_avail producer cr (ucast nb)
      in if entries > 0 then (ucast entries, Some (cached_cons cr), cr\<lparr>cached_cons := cached_cons cr + entries\<rparr>)
         else (ucast entries, None, cr))"

definition xsk_ring_cons_release :: "u32 \<Rightarrow> u64 \<Rightarrow> u32" where
  "xsk_ring_cons_release consumer nb = consumer + ucast nb"

section \<open>Addresses in the shared buffers\<close>

definition xsk_umem_get_data :: "u64 \<Rightarrow> u64 \<Rightarrow> u64" where
  "xsk_umem_get_data umem_area addr = umem_area + addr"

definition xsk_umem_extract_addr :: "u64 \<Rightarrow> u64" where
  "xsk_umem_extract_addr addr = addr AND XSK_UNALIGNED_BUF_ADDR_MASK"

definition xsk_umem_extract_offset :: "u64 \<Rightarrow> u64" where
  "xsk_umem_extract_offset addr = drop_bit XSK_UNALIGNED_BUF_OFFSET_SHIFT addr"

definition xsk_umem_add_offset_to_addr :: "u64 \<Rightarrow> u64" where
  "xsk_umem_add_offset_to_addr addr = xsk_umem_extract_addr addr + xsk_umem_extract_offset addr"

section \<open>A ring with both ends\<close>

text \<open>
  The memory of the ring and the two ends, each used by one thread.  A producer fills only what it has
  reserved and submits at most that; a consumer releases at most what it has peeked at.
\<close>

record 'a ring_sys =
  rs_ring :: "'a list"
  rs_producer :: u32
  rs_consumer :: u32
  rs_prod :: xsk_ring
  rs_cons :: xsk_ring

inductive ring_step :: "'a ring_sys \<Rightarrow> 'a ring_sys \<Rightarrow> bool" where
  reserve: "xsk_ring_prod_reserve (rs_consumer c) (rs_prod c) nb = (ret, idx, r) \<Longrightarrow> ring_step c (c\<lparr>rs_prod := r\<rparr>)"
| fill: "j < unat (cached_prod (rs_prod c) - rs_producer c) \<Longrightarrow>
    ring_step c (c\<lparr>rs_ring := (rs_ring c)[xsk_ring_prod_fill_addr (rs_prod c) (rs_producer c + of_nat j) := v]\<rparr>)"
| submit: "unat nb \<le> unat (cached_prod (rs_prod c) - rs_producer c) \<Longrightarrow>
    ring_step c (c\<lparr>rs_producer := xsk_ring_prod_submit (rs_producer c) nb\<rparr>)"
| peek: "xsk_ring_cons_peek (rs_producer c) (rs_cons c) nb = (ret, idx, r) \<Longrightarrow> ring_step c (c\<lparr>rs_cons := r\<rparr>)"
| release: "unat nb \<le> unat (cached_cons (rs_cons c) - rs_consumer c) \<Longrightarrow>
    ring_step c (c\<lparr>rs_consumer := xsk_ring_cons_release (rs_consumer c) nb\<rparr>)"

text \<open>The rings as the socket is set up, in structures that the caller has zeroed: the producer's copy of the consumer is one turn ahead.\<close>

definition ring_init :: "u32 \<Rightarrow> 'a list \<Rightarrow> 'a ring_sys" where
  "ring_init sz mem = \<lparr>rs_ring = mem, rs_producer = 0, rs_consumer = 0,
     rs_prod = \<lparr>cached_prod = 0, cached_cons = sz, ring_mask = sz - 1, ring_size = sz\<rparr>,
     rs_cons = \<lparr>cached_prod = 0, cached_cons = 0, ring_mask = sz - 1, ring_size = sz\<rparr>\<rparr>"

section \<open>Counters that wrap around\<close>

lemma unat_add_sub:
  fixes a b n :: u32
  assumes "unat (a - b) + unat n < 2 ^ 32"
  shows "unat (a + n - b) = unat (a - b) + unat n"
proof -
  have e: "a + n - b = (a - b) + n" by simp
  show ?thesis unfolding e using assms unat_add_lem [of "a - b" n] by simp
qed

lemma unat_sub_add:
  fixes a b n :: u32
  assumes "unat n \<le> unat (a - b)"
  shows "unat (a - (b + n)) = unat (a - b) - unat n"
proof -
  have e: "a - (b + n) = (a - b) - n" by simp
  show ?thesis unfolding e using assms unat_sub [of n "a - b"] by (simp add: word_le_nat_alt)
qed

lemma unat_chain:
  fixes a b c :: u32
  assumes "unat (b - a) + unat (c - b) < 2 ^ 32"
  shows "unat (c - a) = unat (b - a) + unat (c - b)"
proof -
  have "c - a = (b - a) + (c - b)" by simp
  then show ?thesis using assms unat_add_lem [of "b - a" "c - b"] by simp
qed

lemma unat_ucast_down: "unat (ucast nb :: u32) = unat nb mod 2 ^ 32" for nb :: u64
  by (simp add: unsigned_ucast_eq take_bit_eq_mod)

lemma unat_less_32: "unat x < 2 ^ 32" for x :: u32
  using unsigned_less [of x] by (simp only: len_num1 len_bit0 mult_1_right) simp

lemma unat_ucast_up: "unat (ucast x :: u64) = unat x" for x :: u32
  using unat_less_32 [of x] by (simp add: unsigned_ucast_eq take_bit_nat_eq_self)

text \<open>The place of a counter in an array of \<open>2 ^ k\<close> entries.\<close>

lemma slot_eq: "k \<le> 31 \<Longrightarrow> unat (x AND (2 ^ k - 1)) = unat x mod 2 ^ k" for x :: u32
  by (simp flip: mask_eq_exp_minus_1 take_bit_eq_mask add: unsigned_take_bit_eq) (simp add: take_bit_eq_mod)

lemma slot_add: "k \<le> 31 \<Longrightarrow> unat (x + of_nat j) mod 2 ^ k = (unat x + j) mod 2 ^ k" for x :: u32
proof -
  assume "k \<le> 31"
  then have d: "(2::nat) ^ k dvd 2 ^ 32" by (intro le_imp_power_dvd) simp
  have "unat (x + of_nat j) = (unat x + j) mod 2 ^ 32"
    by (simp add: unat_word_ariths unat_of_nat mod_add_right_eq)
  then show ?thesis using mod_mod_cancel [OF d] by simp
qed

lemma slot_inj:
  fixes n :: nat
  assumes "i < 2 ^ k" "j < 2 ^ k" "(n + i) mod 2 ^ k = (n + j) mod 2 ^ k"
  shows "i = j"
proof -
  have le: "x = y" if "x \<le> y" "y < 2 ^ k" "(n + x) mod 2 ^ k = (n + y) mod 2 ^ k" for x y
  proof -
    have "2 ^ k dvd (n + y) - (n + x)" using that by (metis add_le_cancel_left mod_eq_dvd_iff_nat)
    then have "2 ^ k dvd y - x" by simp
    then show ?thesis using that by (metis diff_is_0_eq' dvd_imp_le le_antisym less_imp_diff_less linorder_not_less not_gr_zero zero_less_diff)
  qed
  show ?thesis using le [of i j] le [of j i] assms by (cases "i \<le> j") auto
qed

section \<open>The invariant\<close>

text \<open>
  The entries that the consumer holds, those it has yet to look at, those the producer has reserved
  and not submitted, and those it knows to be free.
\<close>

definition n_held :: "'a ring_sys \<Rightarrow> nat" where
  "n_held c = unat (cached_cons (rs_cons c) - rs_consumer c)"

definition n_queue :: "'a ring_sys \<Rightarrow> nat" where
  "n_queue c = unat (rs_producer c - cached_cons (rs_cons c))"

definition n_open :: "'a ring_sys \<Rightarrow> nat" where
  "n_open c = unat (cached_prod (rs_prod c) - rs_producer c)"

definition n_free :: "'a ring_sys \<Rightarrow> nat" where
  "n_free c = unat (cached_cons (rs_prod c) - cached_prod (rs_prod c))"

definition n_seen :: "'a ring_sys \<Rightarrow> nat" where
  "n_seen c = unat (cached_prod (rs_cons c) - cached_cons (rs_cons c))"

lemmas n_defs = n_held_def n_queue_def n_open_def n_free_def n_seen_def

definition ring_ok :: "nat \<Rightarrow> 'a ring_sys \<Rightarrow> bool" where
  "ring_ok k c \<longleftrightarrow>
     k \<le> 31 \<and> length (rs_ring c) = 2 ^ k \<and> ring_mask (rs_prod c) = 2 ^ k - 1 \<and> ring_mask (rs_cons c) = 2 ^ k - 1 \<and> ring_size (rs_prod c) = 2 ^ k \<and>
     n_held c + n_queue c + n_open c + n_free c \<le> 2 ^ k \<and> n_seen c \<le> n_queue c"

lemma ring_okD:
  assumes "ring_ok k c"
  shows "k \<le> 31" "length (rs_ring c) = 2 ^ k" "ring_mask (rs_prod c) = 2 ^ k - 1" "ring_mask (rs_cons c) = 2 ^ k - 1" "ring_size (rs_prod c) = 2 ^ k"
    "n_held c + n_queue c + n_open c + n_free c \<le> 2 ^ k" "n_seen c \<le> n_queue c" "(2::nat) ^ k \<le> 2 ^ 31"
  using assms power_increasing [of k 31 "2::nat"] by (auto simp: ring_ok_def)

lemma unat_size: "k \<le> 31 \<Longrightarrow> unat (2 ^ k :: u32) = 2 ^ k"
proof -
  assume "k \<le> 31"
  then have "(2::nat) ^ k < 2 ^ 32" by (intro power_strict_increasing) auto
  moreover have "(2 ^ k :: u32) = of_nat (2 ^ k)" by simp
  ultimately show ?thesis by (simp only: unat_of_nat) simp
qed

text \<open>The producer is as far ahead of the consumer as there are entries in use.\<close>

lemma in_use:
  assumes "ring_ok k c"
  shows "unat (rs_producer c - rs_consumer c) = n_held c + n_queue c"
    "unat (cached_prod (rs_prod c) - rs_consumer c) = n_held c + n_queue c + n_open c"
proof -
  note d = ring_okD [OF assms]
  have lt: "n_held c + n_queue c + n_open c < 2 ^ 32" using d(6,8) by simp
  show 1: "unat (rs_producer c - rs_consumer c) = n_held c + n_queue c"
    using unat_chain [of "cached_cons (rs_cons c)" "rs_consumer c" "rs_producer c"] lt by (simp add: n_defs)
  show "unat (cached_prod (rs_prod c) - rs_consumer c) = n_held c + n_queue c + n_open c"
    using unat_chain [of "rs_producer c" "rs_consumer c" "cached_prod (rs_prod c)"] 1 lt by (simp add: n_defs)
qed

lemma refresh_free:
  assumes "ring_ok k c"
  shows "unat (rs_consumer c + 2 ^ k - cached_prod (rs_prod c)) = 2 ^ k - (n_held c + n_queue c + n_open c)"
proof -
  note d = ring_okD [OF assms]
  have e: "rs_consumer c + 2 ^ k - cached_prod (rs_prod c) = 2 ^ k - (cached_prod (rs_prod c) - rs_consumer c)" by simp
  have "cached_prod (rs_prod c) - rs_consumer c \<le> 2 ^ k"
    using in_use(2) [OF assms] d(1,6) by (simp add: word_le_nat_alt unat_size)
  then show ?thesis unfolding e using in_use(2) [OF assms] d(1) by (simp add: unat_sub unat_size)
qed

text \<open>What \<open>reserve\<close> answers: it succeeds exactly when there is room.\<close>

lemma reserve_result:
  assumes "ring_ok k c" "xsk_ring_prod_reserve (rs_consumer c) (rs_prod c) nb = (ret, idx, r)"
  shows "ring_ok k (c\<lparr>rs_prod := r\<rparr>)"
    "if n_held c + n_queue c + n_open c + unat nb \<le> 2 ^ k
     then ret = nb \<and> idx = Some (cached_prod (rs_prod c)) \<and> cached_prod r = cached_prod (rs_prod c) + ucast nb \<and>
          n_open (c\<lparr>rs_prod := r\<rparr>) = n_open c + unat nb
     else ret = 0 \<and> idx = None \<and> cached_prod r = cached_prod (rs_prod c)"
proof -
  note d = ring_okD [OF assms(1)]
  let ?p = "rs_prod c" and ?T = "n_held c + n_queue c + n_open c"
  obtain f p where f: "xsk_prod_nb_free (rs_consumer c) ?p (ucast nb) = (f, p)" by force
  have p: "cached_prod p = cached_prod ?p" "ring_mask p = ring_mask ?p" "ring_size p = ring_size ?p" "f = cached_cons p - cached_prod p"
    "unat f \<le> 2 ^ k - ?T" "unat f < unat nb mod 2 ^ 32 \<longrightarrow> unat f = 2 ^ k - ?T"
    using f d refresh_free [OF assms(1)]
    by (auto simp: xsk_prod_nb_free_def Let_def n_defs word_le_nat_alt unat_ucast_down split: if_splits)
  have fl: "unat f < 2 ^ 32" by (rule unat_less_32)
  have nb: "unat (ucast nb :: u32) = unat nb" if "unat nb \<le> unat f" using that fl by (simp add: unat_ucast_down)
  have T: "?T \<le> 2 ^ k" using d(6) by simp
  have "ring_ok k (c\<lparr>rs_prod := r\<rparr>) \<and>
    (if ?T + unat nb \<le> 2 ^ k
     then ret = nb \<and> idx = Some (cached_prod (rs_prod c)) \<and> cached_prod r = cached_prod (rs_prod c) + ucast nb \<and>
          n_open (c\<lparr>rs_prod := r\<rparr>) = n_open c + unat nb
     else ret = 0 \<and> idx = None \<and> cached_prod r = cached_prod (rs_prod c))"
  proof (cases "unat f < unat nb")
    case True
    then have r: "ret = 0" "idx = None" "r = p"
      using assms(2) f by (simp_all add: xsk_ring_prod_reserve_def word_less_nat_alt unat_ucast_up)
    have "\<not> ?T + unat nb \<le> 2 ^ k"
    proof (cases "unat nb < 2 ^ 32")
      case less: True
      then show ?thesis using p(6) True T by simp
    next
      case False
      then show ?thesis using d(8) by simp
    qed
    moreover have "ring_ok k (c\<lparr>rs_prod := p\<rparr>)" using d p T by (simp add: ring_ok_def n_defs)
    ultimately show ?thesis using r p by simp
  next
    case False
    then have r: "ret = nb" "idx = Some (cached_prod ?p)" "r = p\<lparr>cached_prod := cached_prod ?p + ucast nb\<rparr>" and le: "unat nb \<le> unat f"
      using assms(2) f p(1) by (auto simp: xsk_ring_prod_reserve_def word_less_nat_alt unat_ucast_up)
    have o: "n_open (c\<lparr>rs_prod := r\<rparr>) = n_open c + unat nb"
      using unat_add_sub [of "cached_prod ?p" "rs_producer c" "ucast nb"] nb [OF le] le p(5) d(6,8) by (simp add: n_defs r(3))
    have "n_free (c\<lparr>rs_prod := r\<rparr>) = unat f - unat nb"
      using unat_sub_add [of "ucast nb" "cached_cons p" "cached_prod p"] nb [OF le] le p(1,4) by (simp add: n_defs r(3))
    moreover have "n_held (c\<lparr>rs_prod := r\<rparr>) = n_held c" "n_queue (c\<lparr>rs_prod := r\<rparr>) = n_queue c" "n_seen (c\<lparr>rs_prod := r\<rparr>) = n_seen c"
      by (simp_all add: n_defs)
    moreover have "?T + unat f \<le> 2 ^ k" using p(5) T by linarith
    ultimately show ?thesis using r(1,2) o p(2,3) d(1-5,7) le by (simp add: ring_ok_def r(3))
  qed
  then show "ring_ok k (c\<lparr>rs_prod := r\<rparr>)" and
    "if ?T + unat nb \<le> 2 ^ k
     then ret = nb \<and> idx = Some (cached_prod (rs_prod c)) \<and> cached_prod r = cached_prod (rs_prod c) + ucast nb \<and>
          n_open (c\<lparr>rs_prod := r\<rparr>) = n_open c + unat nb
     else ret = 0 \<and> idx = None \<and> cached_prod r = cached_prod (rs_prod c)"
    by blast+
qed

text \<open>What \<open>peek\<close> answers: nothing exactly when there is nothing to take or nothing is asked for.\<close>

lemma peek_result:
  assumes "ring_ok k c" "xsk_ring_cons_peek (rs_producer c) (rs_cons c) nb = (ret, idx, r)"
  shows "ring_ok k (c\<lparr>rs_cons := r\<rparr>) \<and> unat ret \<le> n_queue c \<and> unat ret \<le> unat nb \<and> (ret = 0 \<longleftrightarrow> n_queue c = 0 \<or> unat nb mod 2 ^ 32 = 0) \<and>
    idx = (if ret = 0 then None else Some (cached_cons (rs_cons c))) \<and> cached_cons r = cached_cons (rs_cons c) + of_nat (unat ret) \<and>
    n_held (c\<lparr>rs_cons := r\<rparr>) = n_held c + unat ret \<and> n_queue (c\<lparr>rs_cons := r\<rparr>) = n_queue c - unat ret"
proof -
  note d = ring_okD [OF assms(1)]
  let ?c = "rs_cons c"
  define m :: u32 where "m = ucast nb"
  have m: "unat m = unat nb mod 2 ^ 32" by (simp add: m_def unat_ucast_down)
  obtain e p where e: "xsk_cons_nb_avail (rs_producer c) ?c m = (e, p)" by force
  have p: "cached_cons p = cached_cons ?c" "ring_mask p = ring_mask ?c" "ring_size p = ring_size ?c"
      "unat e \<le> unat (cached_prod p - cached_cons p)" "unat (cached_prod p - cached_cons p) \<le> n_queue c"
      "unat e \<le> unat m" "unat e = 0 \<longleftrightarrow> n_queue c = 0 \<or> unat m = 0"
    using e d(7) by (auto simp: xsk_cons_nb_avail_def Let_def n_defs word_less_nat_alt unat_eq_zero split: if_splits)
  have r: "ret = ucast e" "idx = (if e = 0 then None else Some (cached_cons ?c))" "r = p\<lparr>cached_cons := cached_cons p + e\<rparr>"
    using assms(2) [folded m_def] e p(1)
    by (cases "e = 0"; auto simp: xsk_ring_cons_peek_def m_def [symmetric] word_neq_0_conv)+
  have u: "unat ret = unat e" "ret = 0 \<longleftrightarrow> e = 0" using unat_ucast_up [of e] r(1) by (auto simp flip: unat_eq_zero)
  have h: "n_held (c\<lparr>rs_cons := r\<rparr>) = n_held c + unat e"
    using unat_add_sub [of "cached_cons ?c" "rs_consumer c" e] p(1,4,5) d(6,8) by (simp add: n_defs r(3))
  have q: "n_queue (c\<lparr>rs_cons := r\<rparr>) = n_queue c - unat e"
    using unat_sub_add [of e "rs_producer c" "cached_cons ?c"] p(1,4,5) by (simp add: n_defs r(3))
  have s: "n_seen (c\<lparr>rs_cons := r\<rparr>) = unat (cached_prod p - cached_cons p) - unat e"
    using unat_sub_add [of e "cached_prod p" "cached_cons p"] p(1,4) by (simp add: n_defs r(3))
  have "n_open (c\<lparr>rs_cons := r\<rparr>) = n_open c" "n_free (c\<lparr>rs_cons := r\<rparr>) = n_free c" by (simp_all add: n_defs)
  then have "ring_ok k (c\<lparr>rs_cons := r\<rparr>)" using d p(2-5) h q s by (simp add: ring_ok_def r(3))
  moreover have "unat nb mod 2 ^ 32 \<le> unat nb" by simp
  ultimately show ?thesis using u h q p(1,4-7) m r by (auto simp: unat_eq_zero)
qed

section \<open>A queue\<close>

text \<open>
  The abstract ring: what the consumer holds, the queue, and what the producer is filling; a place is
  in one of them or free.
\<close>

inductive fifo_step :: "nat \<Rightarrow> 'a list \<times> 'a list \<times> 'a list \<Rightarrow> 'a list \<times> 'a list \<times> 'a list \<Rightarrow> bool" for cap where
  f_reserve: "length h + length q + length w + length vs \<le> cap \<Longrightarrow> fifo_step cap (h, q, w) (h, q, w @ vs)"
| f_fill: "j < length w \<Longrightarrow> fifo_step cap (h, q, w) (h, q, w[j := v])"
| f_submit: "n \<le> length w \<Longrightarrow> fifo_step cap (h, q, w) (h, q @ take n w, drop n w)"
| f_peek: "n \<le> length q \<Longrightarrow> fifo_step cap (h, q, w) (h @ take n q, drop n q, w)"
| f_release: "n \<le> length h \<Longrightarrow> fifo_step cap (h, q, w) (drop n h, q, w)"

text \<open>\<open>n\<close> entries of the ring from a counter on.\<close>

definition ring_part :: "'a ring_sys \<Rightarrow> u32 \<Rightarrow> nat \<Rightarrow> 'a list" where
  "ring_part c x n = map (\<lambda>j. rs_ring c ! xsk_ring_cons_rx_desc (rs_cons c) (x + of_nat j)) [0..<n]"

definition ring_abs :: "'a ring_sys \<Rightarrow> 'a list \<times> 'a list \<times> 'a list" where
  "ring_abs c = (ring_part c (rs_consumer c) (n_held c), ring_part c (cached_cons (rs_cons c)) (n_queue c),
     ring_part c (rs_producer c) (n_open c))"

lemma length_ring_part [simp]: "length (ring_part c x n) = n"
  by (simp add: ring_part_def)

lemma ring_part_add: "ring_part c x (n + m) = ring_part c x n @ ring_part c (x + of_nat n) m"
  by (rule nth_equalityI) (auto simp: ring_part_def nth_append add.assoc)

lemma ring_part_take: "m \<le> n \<Longrightarrow> take m (ring_part c x n) = ring_part c x m"
  using ring_part_add [of c x m "n - m"] by simp

lemma ring_part_drop: "m \<le> n \<Longrightarrow> drop m (ring_part c x n) = ring_part c (x + of_nat m) (n - m)"
  using ring_part_add [of c x m "n - m"] by simp

text \<open>An entry depends only on the memory and the mask.\<close>

lemma ring_part_cong:
  "rs_ring c' = rs_ring c \<Longrightarrow> ring_mask (rs_cons c') = ring_mask (rs_cons c) \<Longrightarrow> ring_part c' x n = ring_part c x n"
  by (simp add: ring_part_def xsk_ring_cons_rx_desc_def)

lemma ring_slot:
  assumes "ring_ok k c"
  shows "xsk_ring_cons_rx_desc (rs_cons c) (x + of_nat j) = (unat x + j) mod 2 ^ k"
    "xsk_ring_prod_fill_addr (rs_prod c) (x + of_nat j) = (unat x + j) mod 2 ^ k"
  using ring_okD [OF assms] by (simp_all add: xsk_ring_cons_rx_desc_def xsk_ring_prod_fill_addr_def slot_eq slot_add)

lemma of_nat_unat_diff: "x + of_nat (unat (y - x)) = y" for x y :: u32
  by simp

text \<open>All entries in use, from the consumer on.\<close>

lemma ring_all:
  assumes "ring_ok k c"
  shows "ring_part c (rs_consumer c) (n_held c + n_queue c + n_open c) =
    ring_part c (rs_consumer c) (n_held c) @ ring_part c (cached_cons (rs_cons c)) (n_queue c) @ ring_part c (rs_producer c) (n_open c)"
proof -
  have "rs_consumer c + of_nat (n_held c) = cached_cons (rs_cons c)" by (simp add: n_defs)
  moreover have "rs_consumer c + of_nat (n_held c + n_queue c) = rs_producer c"
    using in_use(1) [OF assms] of_nat_unat_diff [of "rs_consumer c" "rs_producer c"] by simp
  ultimately show ?thesis by (simp add: ring_part_add)
qed

text \<open>Filling a reserved place changes no other entry in use.\<close>

lemma fill_part:
  assumes "ring_ok k c" "j < n_open c"
  shows "ring_abs (c\<lparr>rs_ring := (rs_ring c)[xsk_ring_prod_fill_addr (rs_prod c) (rs_producer c + of_nat j) := v]\<rparr>) =
    (ring_part c (rs_consumer c) (n_held c), ring_part c (cached_cons (rs_cons c)) (n_queue c), (ring_part c (rs_producer c) (n_open c))[j := v])"
proof -
  let ?i = "xsk_ring_prod_fill_addr (rs_prod c) (rs_producer c + of_nat j)"
  let ?c = "c\<lparr>rs_ring := (rs_ring c)[?i := v]\<rparr>" and ?H = "n_held c + n_queue c" and ?N = "n_held c + n_queue c + n_open c"
  note d = ring_okD [OF assms(1)]
  have p: "rs_producer c = rs_consumer c + of_nat ?H"
    unfolding in_use(1) [OF assms(1), symmetric] by simp
  have i: "?i = (unat (rs_consumer c) + (?H + j)) mod 2 ^ k"
  proof -
    have e: "rs_producer c + of_nat j = rs_consumer c + of_nat (?H + j)" unfolding p by (simp only: of_nat_add add.assoc)
    show ?thesis unfolding e by (rule ring_slot(2) [OF assms(1)])
  qed
  have ok': "ring_ok k ?c" using assms(1) by (simp add: ring_ok_def n_defs)
  have n: "n_held ?c = n_held c" "n_queue ?c = n_queue c" "n_open ?c = n_open c" by (simp_all add: n_defs)
  have upd: "ring_part ?c (rs_consumer c) ?N = (ring_part c (rs_consumer c) ?N)[?H + j := v]"
  proof (rule nth_equalityI)
    fix a assume a: "a < length (ring_part ?c (rs_consumer c) ?N)"
    have "?i = (unat (rs_consumer c) + a) mod 2 ^ k \<longleftrightarrow> a = ?H + j"
    proof
      have "a < 2 ^ k" "?H + j < 2 ^ k" using a assms(2) d(6) by simp_all
      then show "?i = (unat (rs_consumer c) + a) mod 2 ^ k \<Longrightarrow> a = ?H + j" using slot_inj i by metis
    qed (simp add: i)
    moreover have "?i < length (rs_ring c)" using i d(2) by simp
    ultimately show "ring_part ?c (rs_consumer c) ?N ! a = (ring_part c (rs_consumer c) ?N)[?H + j := v] ! a"
      using a ring_slot(1) [OF assms(1), of "rs_consumer c" a] assms(2) by (simp add: ring_part_def nth_list_update)
  qed simp
  let ?L = "ring_part c (rs_consumer c) (n_held c)" and ?Q = "ring_part c (cached_cons (rs_cons c)) (n_queue c)" and ?W = "ring_part c (rs_producer c) (n_open c)"
  have "ring_part ?c (rs_consumer c) (n_held c) @ ring_part ?c (cached_cons (rs_cons c)) (n_queue c) @ ring_part ?c (rs_producer c) (n_open c) =
      ring_part ?c (rs_consumer c) ?N"
    using ring_all [OF ok'] by (simp add: n)
  also have "\<dots> = (?L @ ?Q @ ?W)[?H + j := v]" by (simp only: upd ring_all [OF assms(1)])
  also have "\<dots> = ?L @ ?Q @ ?W[j := v]" by (simp add: list_update_append)
  finally have "ring_part ?c (rs_consumer c) (n_held c) = ?L \<and> ring_part ?c (cached_cons (rs_cons c)) (n_queue c) = ?Q \<and>
      ring_part ?c (rs_producer c) (n_open c) = ?W[j := v]"
    by (simp add: append_eq_append_conv)
  then show ?thesis by (simp add: ring_abs_def n)
qed

lemma submit_ok:
  assumes "ring_ok k c" "unat nb \<le> n_open c"
  defines "c' \<equiv> c\<lparr>rs_producer := xsk_ring_prod_submit (rs_producer c) nb\<rparr>"
  shows "ring_ok k c' \<and> n_open c' = n_open c - unat nb \<and> n_queue c' = n_queue c + unat nb \<and> n_held c' = n_held c \<and>
    rs_producer c' = rs_producer c + of_nat (unat nb)"
proof -
  note d = ring_okD [OF assms(1)]
  have nb: "unat (ucast nb :: u32) = unat nb" using assms(2) d(6,8) by (simp add: unat_ucast_down)
  have o: "n_open c' = n_open c - unat nb"
    using unat_sub_add [of "ucast nb" "cached_prod (rs_prod c)" "rs_producer c"] assms(2) nb by (simp add: n_defs c'_def xsk_ring_prod_submit_def)
  have q: "n_queue c' = n_queue c + unat nb"
    using unat_add_sub [of "rs_producer c" "cached_cons (rs_cons c)" "ucast nb"] assms(2) nb d(6,8)
    by (simp add: n_defs c'_def xsk_ring_prod_submit_def)
  have "n_held c' = n_held c" "n_free c' = n_free c" "n_seen c' = n_seen c" by (simp_all add: n_defs c'_def)
  then show ?thesis using o q d assms(2) by (simp add: ring_ok_def c'_def xsk_ring_prod_submit_def)
qed

lemma release_ok:
  assumes "ring_ok k c" "unat nb \<le> n_held c"
  defines "c' \<equiv> c\<lparr>rs_consumer := xsk_ring_cons_release (rs_consumer c) nb\<rparr>"
  shows "ring_ok k c' \<and> n_held c' = n_held c - unat nb \<and> n_queue c' = n_queue c \<and> n_open c' = n_open c \<and>
    rs_consumer c' = rs_consumer c + of_nat (unat nb)"
proof -
  note d = ring_okD [OF assms(1)]
  have nb: "unat (ucast nb :: u32) = unat nb" using assms(2) d(6,8) by (simp add: unat_ucast_down)
  have h: "n_held c' = n_held c - unat nb"
    using unat_sub_add [of "ucast nb" "cached_cons (rs_cons c)" "rs_consumer c"] assms(2) nb by (simp add: n_defs c'_def xsk_ring_cons_release_def)
  have "n_queue c' = n_queue c" "n_open c' = n_open c" "n_free c' = n_free c" "n_seen c' = n_seen c" by (simp_all add: n_defs c'_def)
  then show ?thesis using h d assms(2) by (simp add: ring_ok_def c'_def xsk_ring_cons_release_def)
qed

lemma ring_abs_reserve:
  assumes "ring_ok k c" "xsk_ring_prod_reserve (rs_consumer c) (rs_prod c) nb = (ret, idx, r)"
  shows "fifo_step (2 ^ k) (ring_abs c) (ring_abs (c\<lparr>rs_prod := r\<rparr>))"
proof -
  let ?c = "c\<lparr>rs_prod := r\<rparr>" and ?T = "n_held c + n_queue c + n_open c"
  note res = reserve_result [OF assms]
  have p: "ring_part ?c x n = ring_part c x n" for x n by (rule ring_part_cong) simp_all
  have n: "n_held ?c = n_held c" "n_queue ?c = n_queue c" by (simp_all add: n_defs)
  define m where "m = (if ?T + unat nb \<le> 2 ^ k then unat nb else 0)"
  have o: "n_open ?c = n_open c + m"
  proof (cases "?T + unat nb \<le> 2 ^ k")
    case True
    then show ?thesis using res(2) by (simp add: m_def)
  next
    case False
    then show ?thesis using res(2) by (simp add: m_def n_open_def)
  qed
  have "ring_abs ?c = (ring_part c (rs_consumer c) (n_held c), ring_part c (cached_cons (rs_cons c)) (n_queue c),
      ring_part c (rs_producer c) (n_open c) @ ring_part c (rs_producer c + of_nat (n_open c)) m)"
    by (simp add: ring_abs_def p n o ring_part_add)
  moreover have "?T + m \<le> 2 ^ k" using ring_okD(6) [OF assms(1)] by (simp add: m_def)
  ultimately show ?thesis unfolding ring_abs_def [of c] by (auto intro: fifo_step.f_reserve)
qed

lemma ring_abs_peek:
  assumes "ring_ok k c" "xsk_ring_cons_peek (rs_producer c) (rs_cons c) nb = (ret, idx, r)"
  shows "fifo_step (2 ^ k) (ring_abs c) (ring_abs (c\<lparr>rs_cons := r\<rparr>))"
    "fst (ring_abs (c\<lparr>rs_cons := r\<rparr>)) = fst (ring_abs c) @ take (unat ret) (fst (snd (ring_abs c)))"
proof -
  let ?c = "c\<lparr>rs_cons := r\<rparr>"
  note res = peek_result [OF assms]
  have mask: "ring_mask r = ring_mask (rs_cons c)"
    using ring_okD(4) [OF assms(1)] ring_okD(4) [of k ?c] res by simp
  have p: "ring_part ?c x n = ring_part c x n" for x n by (rule ring_part_cong) (simp_all add: mask)
  have x: "rs_consumer c + of_nat (n_held c) = cached_cons (rs_cons c)" by (simp add: n_defs)
  have q: "unat ret \<le> n_queue c" using res by blast
  have n: "n_held ?c = n_held c + unat ret" "n_queue ?c = n_queue c - unat ret" "cached_cons r = cached_cons (rs_cons c) + of_nat (unat ret)"
    using res by blast+
  have no: "n_open ?c = n_open c" by (simp add: n_defs)
  have a: "ring_abs ?c = (ring_part c (rs_consumer c) (n_held c) @ take (unat ret) (ring_part c (cached_cons (rs_cons c)) (n_queue c)),
      drop (unat ret) (ring_part c (cached_cons (rs_cons c)) (n_queue c)), ring_part c (rs_producer c) (n_open c))"
    using q x by (simp add: ring_abs_def p n no ring_part_add ring_part_take ring_part_drop del: of_nat_unat)
  show "fifo_step (2 ^ k) (ring_abs c) (ring_abs ?c)" unfolding a unfolding ring_abs_def using q by (intro fifo_step.f_peek) simp
  show "fst (ring_abs ?c) = fst (ring_abs c) @ take (unat ret) (fst (snd (ring_abs c)))" unfolding a by (simp add: ring_abs_def)
qed

lemma ring_step_refines:
  assumes "ring_ok k c" "ring_step c c'"
  shows "ring_ok k c' \<and> fifo_step (2 ^ k) (ring_abs c) (ring_abs c')"
  using assms(2)
proof (cases rule: ring_step.cases)
  case (reserve nb ret idx r)
  then show ?thesis using reserve_result(1) [OF assms(1)] ring_abs_reserve [OF assms(1)] by blast
next
  case (fill j v)
  then have j: "j < n_open c" by (simp add: n_defs)
  have "fifo_step (2 ^ k) (ring_abs c) (ring_abs c')"
    unfolding fill(1) fill_part [OF assms(1) j] unfolding ring_abs_def using j by (intro fifo_step.f_fill) simp
  moreover have "ring_ok k c'" using assms(1) by (simp add: fill(1) ring_ok_def n_defs)
  ultimately show ?thesis by simp
next
  case (submit nb)
  then have le: "unat nb \<le> n_open c" by (simp add: n_defs)
  note s = submit_ok [OF assms(1) le, folded submit(1)]
  have p: "ring_part c' x n = ring_part c x n" for x n by (rule ring_part_cong) (simp_all add: submit(1))
  have x: "cached_cons (rs_cons c) + of_nat (n_queue c) = rs_producer c" by (simp add: n_defs)
  have f: "rs_consumer c' = rs_consumer c" "rs_cons c' = rs_cons c" by (simp_all add: submit(1))
  have "ring_abs c' = (ring_part c (rs_consumer c) (n_held c), ring_part c (cached_cons (rs_cons c)) (n_queue c) @ take (unat nb) (ring_part c (rs_producer c) (n_open c)),
      drop (unat nb) (ring_part c (rs_producer c) (n_open c)))"
    using s x le by (simp add: ring_abs_def p f ring_part_add ring_part_take ring_part_drop del: of_nat_unat)
  then show ?thesis using s le unfolding ring_abs_def [of c] by (simp add: fifo_step.f_submit)
next
  case (peek nb ret idx r)
  then show ?thesis using peek_result [OF assms(1)] ring_abs_peek(1) [OF assms(1)] by blast
next
  case (release nb)
  then have le: "unat nb \<le> n_held c" by (simp add: n_defs)
  note s = release_ok [OF assms(1) le, folded release(1)]
  have p: "ring_part c' x n = ring_part c x n" for x n by (rule ring_part_cong) (simp_all add: release(1))
  have f: "rs_producer c' = rs_producer c" "rs_cons c' = rs_cons c" by (simp_all add: release(1))
  have "ring_abs c' = (drop (unat nb) (ring_part c (rs_consumer c) (n_held c)), ring_part c (cached_cons (rs_cons c)) (n_queue c), ring_part c (rs_producer c) (n_open c))"
    using s le by (simp add: ring_abs_def p f ring_part_drop del: of_nat_unat)
  then show ?thesis using s le unfolding ring_abs_def [of c] by (simp add: fifo_step.f_release)
qed

lemma ring_init_ok: "k \<le> 31 \<Longrightarrow> length mem = 2 ^ k \<Longrightarrow> ring_ok k (ring_init (2 ^ k) mem)"
  by (simp add: ring_ok_def ring_init_def n_defs unat_size)

lemma ring_init_abs: "ring_abs (ring_init sz mem) = ([], [], [])"
  by (simp add: ring_abs_def ring_init_def n_defs ring_part_def)

lemma ring_reachable:
  assumes "ring_step\<^sup>*\<^sup>* (ring_init (2 ^ k) mem) c" "k \<le> 31" "length mem = 2 ^ k"
  shows "ring_ok k c \<and> (fifo_step (2 ^ k))\<^sup>*\<^sup>* ([], [], []) (ring_abs c)"
  using assms(1)
proof (induction rule: rtranclp_induct)
  case base
  then show ?case using ring_init_ok [OF assms(2,3)] by (simp add: ring_init_abs)
next
  case (step y z)
  then show ?case using ring_step_refines [of k y z] by (meson rtranclp.rtrancl_into_rtrancl)
qed

section \<open>Properties\<close>

text \<open>
  C32: a ring is a queue.  In every interleaving of one producer and one consumer on a ring of \<open>2 ^ k\<close> entries, across
  all wrap-arounds of the 32-bit counters, the ring behaves like a bounded queue: entries come out in the
  order in which they were submitted and with the values they had then, no entry that the consumer
  holds or has yet to take is overwritten, and at most \<open>2 ^ k\<close> entries are in use.
\<close>

theorem ring_refines_queue:
  assumes "ring_step\<^sup>*\<^sup>* (ring_init (2 ^ k) mem) c" "k \<le> 31" "length mem = 2 ^ k"
  shows "(fifo_step (2 ^ k))\<^sup>*\<^sup>* ([], [], []) (ring_abs c) \<and>
    (\<forall>c'. ring_step c c' \<longrightarrow> fifo_step (2 ^ k) (ring_abs c) (ring_abs c')) \<and>
    (case ring_abs c of (h, q, w) \<Rightarrow> length h + length q + length w \<le> 2 ^ k)"
proof -
  note r = ring_reachable [OF assms]
  then have ok: "ring_ok k c" by blast
  have "n_held c + n_queue c + n_open c \<le> 2 ^ k" using ring_okD(6) [OF ok] by simp
  then show ?thesis using r ring_step_refines [OF ok] by (simp add: ring_abs_def)
qed

theorem ring_refines_queue_witness:
  "\<exists>c. ring_step (ring_init (2 ^ 2) [0, 0, 0, 0 :: u64]) c \<and> n_open c = 3 \<and> (fifo_step 4)\<^sup>*\<^sup>* ([], [], []) (ring_abs c)"
proof -
  let ?i = "ring_init (2 ^ 2) [0, 0, 0, 0 :: u64]"
  obtain ret idx r where r: "xsk_ring_prod_reserve (rs_consumer ?i) (rs_prod ?i) 3 = (ret, idx, r)" "cached_prod r = 3"
    by (simp add: xsk_ring_prod_reserve_def xsk_prod_nb_free_def ring_init_def)
  have st: "ring_step ?i (?i\<lparr>rs_prod := r\<rparr>)" by (rule ring_step.reserve [OF r(1)])
  have "(fifo_step (2 ^ 2))\<^sup>*\<^sup>* ([], [], []) (ring_abs (?i\<lparr>rs_prod := r\<rparr>))"
    using ring_refines_queue [of 2 "[0, 0, 0, 0 :: u64]", OF r_into_rtranclp [of ring_step, OF st]] by simp
  moreover have "n_open (?i\<lparr>rs_prod := r\<rparr>) = 3" using r(2) by (simp add: n_open_def ring_init_def)
  ultimately show ?thesis using st by auto
qed

text \<open>
  reserving and peeking give what there is.  \<open>xsk_ring_prod__reserve\<close> gives all of what it is asked for exactly when
  that many entries are free, and nothing otherwise, even when its copy of the consumer is old.
  \<open>xsk_ring_cons__peek\<close> gives nothing only when the queue is empty or nothing is asked for, and
  otherwise the next entries of the queue, at the index it writes.
\<close>

theorem ring_reserve_peek:
  assumes "ring_step\<^sup>*\<^sup>* (ring_init (2 ^ k) mem) c" "k \<le> 31" "length mem = 2 ^ k" "ring_abs c = (h, q, w)"
  shows "(case xsk_ring_prod_reserve (rs_consumer c) (rs_prod c) nb of (ret, idx, r) \<Rightarrow>
      if length h + length q + length w + unat nb \<le> 2 ^ k then ret = nb \<and> idx = Some (cached_prod (rs_prod c)) else ret = 0 \<and> idx = None) \<and>
    (case xsk_ring_cons_peek (rs_producer c) (rs_cons c) nb of (ret, idx, r) \<Rightarrow>
      unat ret \<le> unat nb \<and> (ret = 0 \<longleftrightarrow> q = [] \<or> unat nb mod 2 ^ 32 = 0) \<and>
      (ret \<noteq> 0 \<longrightarrow> (\<exists>i. idx = Some i \<and> ring_part c i (unat ret) = take (unat ret) q)))"
proof -
  have ok: "ring_ok k c" using ring_reachable [OF assms(1-3)] by blast
  have a: "length h = n_held c" "length q = n_queue c" "length w = n_open c" "q = ring_part c (cached_cons (rs_cons c)) (n_queue c)"
    using assms(4) by (auto simp: ring_abs_def)
  obtain ret idx r where 1: "xsk_ring_prod_reserve (rs_consumer c) (rs_prod c) nb = (ret, idx, r)" by (metis prod_cases3)
  obtain ret' idx' r' where 2: "xsk_ring_cons_peek (rs_producer c) (rs_cons c) nb = (ret', idx', r')" by (metis prod_cases3)
  have e: "q = [] \<longleftrightarrow> n_queue c = 0" using a(2) by auto
  have "unat ret' \<le> n_queue c" using peek_result [OF ok 2] by blast
  then have t: "ring_part c (cached_cons (rs_cons c)) (unat ret') = take (unat ret') q" using a(4) ring_part_take by metis
  have A: "if length h + length q + length w + unat nb \<le> 2 ^ k then ret = nb \<and> idx = Some (cached_prod (rs_prod c)) else ret = 0 \<and> idx = None"
    using reserve_result(2) [OF ok 1] a(1-3) by (simp split: if_splits)
  have B: "unat ret' \<le> unat nb \<and> (ret' = 0 \<longleftrightarrow> q = [] \<or> unat nb mod 2 ^ 32 = 0) \<and>
      (ret' \<noteq> 0 \<longrightarrow> (\<exists>i. idx' = Some i \<and> ring_part c i (unat ret') = take (unat ret') q))"
    using peek_result [OF ok 2] t e by simp
  show ?thesis unfolding 1 2 prod.case using A B by blast
qed

theorem ring_reserve_peek_witness:
  "fst (xsk_ring_prod_reserve 0 (rs_prod (ring_init (2 ^ 2) [0, 0, 0, 0 :: u64])) 4) = 4 \<and>
   fst (xsk_ring_prod_reserve 0 (rs_prod (ring_init (2 ^ 2) [0, 0, 0, 0 :: u64])) 5) = 0"
proof -
  let ?i = "ring_init (2 ^ 2) [0, 0, 0, 0 :: u64]"
  have c: "rs_consumer (ring_init z mem) = 0" for z :: u32 and mem :: "u64 list" by (simp add: ring_init_def)
  note t = ring_reserve_peek [of 2 "[0, 0, 0, 0 :: u64]", OF rtranclp.rtrancl_refl [of ring_step] _ _ ring_init_abs]
  show ?thesis using t [of 4] t [of 5] by (simp add: c split: prod.splits)
qed

text \<open>
  An address in an unaligned buffer carries its offset in the upper 16 bits; the two parts are
  read back as they were put together.
\<close>

lemma umem_addr_parts:
  assumes "addr < 2 ^ 48" "off < 2 ^ 16"
  shows "xsk_umem_extract_addr (addr OR push_bit 48 off) = addr" "xsk_umem_extract_offset (addr OR push_bit 48 off) = off"
proof -
  have a: "take_bit 48 addr = addr" using assms(1) by (simp add: word_unat_eq_iff unsigned_take_bit_eq take_bit_nat_eq_self word_less_nat_alt)
  have o: "take_bit 16 off = off" using assms(2) by (simp add: word_unat_eq_iff unsigned_take_bit_eq take_bit_nat_eq_self word_less_nat_alt)
  have m: "XSK_UNALIGNED_BUF_ADDR_MASK = mask 48" by (simp add: XSK_UNALIGNED_BUF_ADDR_MASK_def mask_eq_exp_minus_1)
  show "xsk_umem_extract_addr (addr OR push_bit 48 off) = addr"
    unfolding xsk_umem_extract_addr_def m take_bit_eq_mask [symmetric] by (simp add: take_bit_or a take_bit_push_bit)
  have "drop_bit 48 addr = 0" using a by (metis drop_bit_take_bit diff_self_eq_0 take_bit_0)
  moreover have "drop_bit 48 (push_bit 48 off) = off"
    by (rule bit_word_eqI) (use o in \<open>auto simp: bit_simps bit_eq_iff\<close>)
  ultimately show "xsk_umem_extract_offset (addr OR push_bit 48 off) = off"
    by (simp add: xsk_umem_extract_offset_def XSK_UNALIGNED_BUF_OFFSET_SHIFT_def drop_bit_or)
qed

end
