(* ===== verification/Xsk_Prog.thy ===== *)
theory Xsk_Prog
  imports Libbpf_Relocs
begin

text \<open>
  The XDP program that libbpf attaches for AF_XDP sockets: the instructions in \<open>xsk_load_xdp_prog\<close> of
  \<open>libbpf/src/xsk.c\<close>, written with the macros of \<open>include/linux/filter.h\<close>.  A comment gives the C program that
  they stand for; both are defined here, and the instructions are run by the rules of the BPF machine.
\<close>

section \<open>Instructions\<close>

definition BPF_LDX :: u8 where "BPF_LDX = 0x01"
definition BPF_STX :: u8 where "BPF_STX = 0x03"
definition BPF_JMP :: u8 where "BPF_JMP = 0x05"
definition BPF_JMP32 :: u8 where "BPF_JMP32 = 0x06"
definition BPF_ALU64 :: u8 where "BPF_ALU64 = 0x07"
definition BPF_W :: u8 where "BPF_W = 0x00"
definition BPF_DW :: u8 where "BPF_DW = 0x18"
definition BPF_MEM :: u8 where "BPF_MEM = 0x60"
definition BPF_ADD :: u8 where "BPF_ADD = 0x00"
definition BPF_MOV :: u8 where "BPF_MOV = 0xb0"
definition BPF_JEQ :: u8 where "BPF_JEQ = 0x10"
definition BPF_JSGT :: u8 where "BPF_JSGT = 0x60"
definition BPF_CALL :: u8 where "BPF_CALL = 0x80"
definition BPF_EXIT :: u8 where "BPF_EXIT = 0x90"
definition BPF_K :: u8 where "BPF_K = 0x00"
definition BPF_X :: u8 where "BPF_X = 0x08"
definition BPF_SIZE :: "u8 \<Rightarrow> u8" where "BPF_SIZE code = code AND 0x18"
definition BPF_OP :: "u8 \<Rightarrow> u8" where "BPF_OP code = code AND 0xf0"

definition BPF_FUNC_map_lookup_elem :: i32 where "BPF_FUNC_map_lookup_elem = 1"
definition BPF_FUNC_redirect_map :: i32 where "BPF_FUNC_redirect_map = 51"

definition insn :: "u8 \<Rightarrow> 4 word \<Rightarrow> 4 word \<Rightarrow> u16 \<Rightarrow> i32 \<Rightarrow> bpf_insn" where
  "insn code dst src off imm = \<lparr>in_code = code, in_dst_reg = dst, in_src_reg = src, in_off = off, in_imm = imm\<rparr>"

definition BPF_ALU64_IMM :: "u8 \<Rightarrow> 4 word \<Rightarrow> i32 \<Rightarrow> bpf_insn" where
  "BPF_ALU64_IMM opc dst imm = insn (BPF_ALU64 OR BPF_OP opc OR BPF_K) dst 0 0 imm"

definition BPF_MOV64_IMM :: "4 word \<Rightarrow> i32 \<Rightarrow> bpf_insn" where
  "BPF_MOV64_IMM dst imm = insn (BPF_ALU64 OR BPF_MOV OR BPF_K) dst 0 0 imm"

definition BPF_EXIT_INSN :: bpf_insn where "BPF_EXIT_INSN = insn (BPF_JMP OR BPF_EXIT) 0 0 0 0"

definition BPF_EMIT_CALL :: "i32 \<Rightarrow> bpf_insn" where "BPF_EMIT_CALL func = insn (BPF_JMP OR BPF_CALL) 0 0 0 func"

definition BPF_LDX_MEM :: "u8 \<Rightarrow> 4 word \<Rightarrow> 4 word \<Rightarrow> u16 \<Rightarrow> bpf_insn" where
  "BPF_LDX_MEM sz dst src off = insn (BPF_LDX OR BPF_SIZE sz OR BPF_MEM) dst src off 0"

definition BPF_STX_MEM :: "u8 \<Rightarrow> 4 word \<Rightarrow> 4 word \<Rightarrow> u16 \<Rightarrow> bpf_insn" where
  "BPF_STX_MEM sz dst src off = insn (BPF_STX OR BPF_SIZE sz OR BPF_MEM) dst src off 0"

definition BPF_MOV64_REG :: "4 word \<Rightarrow> 4 word \<Rightarrow> bpf_insn" where
  "BPF_MOV64_REG dst src = insn (BPF_ALU64 OR BPF_MOV OR BPF_X) dst src 0 0"

definition BPF_LD_MAP_FD :: "4 word \<Rightarrow> i32 \<Rightarrow> bpf_insn list" where
  "BPF_LD_MAP_FD dst fd = [insn BPF_DW dst (ucast BPF_PSEUDO_MAP_FD) 0 fd, insn 0 0 0 0 0]"

definition BPF_JMP_IMM :: "u8 \<Rightarrow> 4 word \<Rightarrow> i32 \<Rightarrow> u16 \<Rightarrow> bpf_insn" where
  "BPF_JMP_IMM opc dst imm off = insn (BPF_JMP OR BPF_OP opc OR BPF_K) dst 0 off imm"

definition BPF_JMP32_IMM :: "u8 \<Rightarrow> 4 word \<Rightarrow> i32 \<Rightarrow> u16 \<Rightarrow> bpf_insn" where
  "BPF_JMP32_IMM opc dst imm off = insn (BPF_JMP32 OR BPF_OP opc OR BPF_K) dst 0 off imm"

definition xsk_xdp_prog :: "i32 \<Rightarrow> bpf_insn list" where
  "xsk_xdp_prog xsks_map_fd =
     [BPF_LDX_MEM BPF_W 2 1 16, BPF_STX_MEM BPF_W 10 2 (- 4)] @ BPF_LD_MAP_FD 1 xsks_map_fd @
     [BPF_MOV64_IMM 3 2, BPF_EMIT_CALL BPF_FUNC_redirect_map, BPF_JMP32_IMM BPF_JSGT 0 0 13,
      BPF_MOV64_REG 2 10, BPF_ALU64_IMM BPF_ADD 2 (- 4)] @ BPF_LD_MAP_FD 1 xsks_map_fd @
     [BPF_EMIT_CALL BPF_FUNC_map_lookup_elem, BPF_MOV64_REG 1 0, BPF_MOV64_IMM 0 2, BPF_JMP_IMM BPF_JEQ 1 0 5,
      BPF_LDX_MEM BPF_W 2 10 (- 4)] @ BPF_LD_MAP_FD 1 xsks_map_fd @
     [BPF_MOV64_IMM 3 0, BPF_EMIT_CALL BPF_FUNC_redirect_map, BPF_EXIT_INSN]"

section \<open>The machine\<close>

text \<open>
  Registers hold numbers or pointers: to the context, to the frame (with an offset from its end), to a
  map, to an element of a map.  Register 10 points to the end of the frame, of which the program uses one word.  A call leaves
  its result in register 0 and the registers 1 to 5 without a value.  An instruction that is not among
  those of the program, or an access that the machine forbids, is the result None.
\<close>

datatype bpf_val = Num u64 | Ctx_ptr | Frame_ptr int | Map_ptr i32 | Elem_ptr

text \<open>
  The helpers: \<open>bpf_redirect_map\<close> with the map, the index and the flags, and \<open>bpf_map_lookup_elem\<close>, whether the
  element is there.  Both may change the state of the kernel.
\<close>

record 's bpf_helpers =
  h_redirect_map :: "i32 \<Rightarrow> u32 \<Rightarrow> u64 \<Rightarrow> 's \<Rightarrow> u64 \<times> 's"
  h_map_lookup_elem :: "i32 \<Rightarrow> u32 \<Rightarrow> 's \<Rightarrow> bool \<times> 's"

record 's machine =
  m_pc :: int
  m_regs :: "4 word \<Rightarrow> bpf_val option"
  m_word :: "u32 option"
  m_kernel :: 's

definition call_helper :: "'s bpf_helpers \<Rightarrow> i32 \<Rightarrow> 's machine \<Rightarrow> (bpf_val \<times> 's) option" where
  "call_helper H func s =
     (if func = BPF_FUNC_redirect_map then
        (case (m_regs s 1, m_regs s 2, m_regs s 3) of
           (Some (Map_ptr fd), Some (Num key), Some (Num flags)) \<Rightarrow>
             (let (r, k) = h_redirect_map H fd (ucast key) flags (m_kernel s) in Some (Num r, k))
         | _ \<Rightarrow> None)
      else if func = BPF_FUNC_map_lookup_elem then
        (case (m_regs s 1, m_regs s 2, m_word s) of
           (Some (Map_ptr fd), Some (Frame_ptr off), Some key) \<Rightarrow>
             if off = - 4 then (let (found, k) = h_map_lookup_elem H fd key (m_kernel s) in Some (if found then Elem_ptr else Num 0, k)) else None
         | _ \<Rightarrow> None)
      else None)"

text \<open>The field of the context at offset 16 is \<open>rx_queue_index\<close>.\<close>

definition bpf_step :: "'s bpf_helpers \<Rightarrow> u32 \<Rightarrow> bpf_insn list \<Rightarrow> 's machine \<Rightarrow> ('s machine + u64 \<times> 's) option" where
  "bpf_step H rx_queue_index prog s =
     (if m_pc s < 0 \<or> nat (m_pc s) \<ge> length prog then None
      else
        (let i = prog ! nat (m_pc s); code = in_code i; dst = in_dst_reg i; off = sint (in_off i);
             next = (\<lambda>s. Some (Inl (s\<lparr>m_pc := m_pc s + 1\<rparr>)));
             set = (\<lambda>v. next (s\<lparr>m_regs := (m_regs s)(dst := Some v)\<rparr>))
         in if code = 0x61 then
              (case m_regs s (in_src_reg i) of
                 Some Ctx_ptr \<Rightarrow> if off = 16 then set (Num (ucast rx_queue_index)) else None
               | Some (Frame_ptr p) \<Rightarrow> if p + off = - 4 then (case m_word s of Some w \<Rightarrow> set (Num (ucast w)) | None \<Rightarrow> None) else None
               | _ \<Rightarrow> None)
            else if code = 0x63 then
              (case (m_regs s dst, m_regs s (in_src_reg i)) of
                 (Some (Frame_ptr p), Some (Num w)) \<Rightarrow> if p + off = - 4 then next (s\<lparr>m_word := Some (ucast w)\<rparr>) else None
               | _ \<Rightarrow> None)
            else if code = 0x18 then
              (if in_src_reg i = 1 then Some (Inl (s\<lparr>m_regs := (m_regs s)(dst := Some (Map_ptr (in_imm i))), m_pc := m_pc s + 2\<rparr>)) else None)
            else if code = 0xb7 then set (Num (scast (in_imm i)))
            else if code = 0xbf then (case m_regs s (in_src_reg i) of Some v \<Rightarrow> set v | None \<Rightarrow> None)
            else if code = 0x07 then
              (case m_regs s dst of
                 Some (Num w) \<Rightarrow> set (Num (w + scast (in_imm i)))
               | Some (Frame_ptr p) \<Rightarrow> set (Frame_ptr (p + sint (in_imm i)))
               | _ \<Rightarrow> None)
            else if code = 0x85 then
              (case call_helper H (in_imm i) s of
                 None \<Rightarrow> None
               | Some (v, k) \<Rightarrow>
                   next (s\<lparr>m_kernel := k, m_regs := (\<lambda>r. if r = 0 then Some v else if r \<le> 5 then None else m_regs s r)\<rparr>))
            else if code = 0x66 then
              (case m_regs s dst of
                 Some (Num w) \<Rightarrow>
                   Some (Inl (s\<lparr>m_pc := m_pc s + 1 + (if sint (ucast w :: i32) > sint (in_imm i) then off else 0)\<rparr>))
               | _ \<Rightarrow> None)
            else if code = 0x15 then
              (case m_regs s dst of
                 Some (Num w) \<Rightarrow> Some (Inl (s\<lparr>m_pc := m_pc s + 1 + (if w = scast (in_imm i) then off else 0)\<rparr>))
               | Some Elem_ptr \<Rightarrow> if in_imm i = 0 then next s else None
               | _ \<Rightarrow> None)
            else if code = 0x95 then (case m_regs s 0 of Some (Num w) \<Rightarrow> Some (Inr (w, m_kernel s)) | _ \<Rightarrow> None)
            else None))"

fun bpf_run :: "'s bpf_helpers \<Rightarrow> u32 \<Rightarrow> bpf_insn list \<Rightarrow> nat \<Rightarrow> 's machine \<Rightarrow> (u64 \<times> 's) option" where
  "bpf_run H rx prog 0 s = None"
| "bpf_run H rx prog (Suc n) s =
     (case bpf_step H rx prog s of None \<Rightarrow> None | Some (Inr r) \<Rightarrow> Some r | Some (Inl s) \<Rightarrow> bpf_run H rx prog n s)"

definition entry_state :: "'s \<Rightarrow> 's machine" where
  "entry_state k = \<lparr>m_pc = 0, m_regs = (\<lambda>r. if r = 1 then Some Ctx_ptr else if r = 10 then Some (Frame_ptr 0) else None), m_word = None, m_kernel = k\<rparr>"

text \<open>The C program of the comment; the result of a program is its lower 32 bits, and \<open>ret\<close> is an \<open>int\<close>.\<close>

definition xdp_sock_prog :: "'s bpf_helpers \<Rightarrow> i32 \<Rightarrow> u32 \<Rightarrow> 's \<Rightarrow> i32 \<times> 's" where
  "xdp_sock_prog H xsks_map index k =
     (let (r, k) = h_redirect_map H xsks_map index 2 k; ret = (ucast r :: i32)
      in if sint ret > 0 then (ret, k)
         else
           (let (found, k) = h_map_lookup_elem H xsks_map index k
            in if found then (let (r, k) = h_redirect_map H xsks_map index 0 k in (ucast r, k)) else (2, k)))"

lemma xsk_prog_code:
  "xsk_xdp_prog fd =
     [insn 0x61 2 1 16 0, insn 0x63 10 2 (- 4) 0, insn 0x18 1 1 0 fd, insn 0 0 0 0 0, insn 0xb7 3 0 0 2, insn 0x85 0 0 0 51,
      insn 0x66 0 0 13 0, insn 0xbf 2 10 0 0, insn 0x07 2 0 0 (- 4), insn 0x18 1 1 0 fd, insn 0 0 0 0 0, insn 0x85 0 0 0 1,
      insn 0xbf 1 0 0 0, insn 0xb7 0 0 0 2, insn 0x15 1 0 5 0, insn 0x61 2 10 (- 4) 0, insn 0x18 1 1 0 fd, insn 0 0 0 0 0,
      insn 0xb7 3 0 0 0, insn 0x85 0 0 0 51, insn 0x95 0 0 0 0]"
  unfolding xsk_xdp_prog_def BPF_LDX_MEM_def BPF_STX_MEM_def BPF_LD_MAP_FD_def BPF_MOV64_IMM_def BPF_EMIT_CALL_def BPF_JMP32_IMM_def BPF_MOV64_REG_def
    BPF_ALU64_IMM_def BPF_JMP_IMM_def BPF_EXIT_INSN_def BPF_FUNC_redirect_map_def BPF_FUNC_map_lookup_elem_def BPF_LDX_def BPF_STX_def BPF_JMP_def
    BPF_JMP32_def BPF_ALU64_def BPF_W_def BPF_DW_def BPF_MEM_def BPF_ADD_def BPF_MOV_def BPF_JEQ_def BPF_JSGT_def BPF_CALL_def BPF_EXIT_def BPF_K_def
    BPF_X_def BPF_SIZE_def BPF_OP_def BPF_PSEUDO_MAP_FD_def
  by simp

lemma run_unfold:
  "bpf_run H rx prog (n + numeral m) s =
     (case bpf_step H rx prog s of None \<Rightarrow> None | Some (Inr r) \<Rightarrow> Some r | Some (Inl s) \<Rightarrow> bpf_run H rx prog (n + pred_numeral m) s)"
  by (simp add: numeral_eq_Suc)

lemma ucast_back: "ucast (ucast w :: u64) = (w :: u32)"
  by (rule bit_word_eqI) (auto simp: bit_simps dest: bit_imp_le_length)

text \<open>
  C33: The instructions implement the C program.  For every map, queue, helpers and state of the kernel, running
  them ends within 21 steps with the verdict and the state of the C program; no step is
  forbidden.
\<close>

theorem xsk_prog_implements:
  assumes "fuel \<ge> 21"
  shows "map_option (map_prod ucast id) (bpf_run H rx_queue_index (xsk_xdp_prog xsks_map_fd) fuel (entry_state k)) =
    Some (xdp_sock_prog H xsks_map_fd rx_queue_index k)"
proof -
  obtain n where n: "fuel = n + 21" using assms by (metis le_add_diff_inverse2)
  obtain r1 k1 where h1: "h_redirect_map H xsks_map_fd rx_queue_index 2 k = (r1, k1)" by force
  obtain found k2 where h2: "h_map_lookup_elem H xsks_map_fd rx_queue_index k1 = (found, k2)" by force
  obtain r3 k3 where h3: "h_redirect_map H xsks_map_fd rx_queue_index 0 k2 = (r3, k3)" by force
  show ?thesis
    unfolding n xsk_prog_code entry_state_def xdp_sock_prog_def
    by (simp add: ucast_back h1 h2 h3 run_unfold bpf_step_def call_helper_def insn_def BPF_FUNC_map_lookup_elem_def BPF_FUNC_redirect_map_def)
qed

text \<open>A kernel without the default action, and with a socket on every queue: the first redirection is refused.\<close>

definition old_kernel :: "nat bpf_helpers" where
  "old_kernel = \<lparr>h_redirect_map = (\<lambda>fd index flags k. (if flags = 0 then 4 else 0, k + 1)), h_map_lookup_elem = (\<lambda>fd index k. (True, k + 1))\<rparr>"

theorem xsk_prog_implements_witness:
  "map_option (map_prod ucast id) (bpf_run old_kernel 3 (xsk_xdp_prog 7) 21 (entry_state 0)) = Some (4 :: i32, 3)"
proof -
  have x: "Some (xdp_sock_prog old_kernel 7 3 0) = Some (4, 3)" by (simp add: xdp_sock_prog_def old_kernel_def)
  show ?thesis unfolding x [symmetric] by (rule xsk_prog_implements) simp
qed

end
