(* ===== verification/Xsk_Socket.thy ===== *)
theory Xsk_Socket
  imports Xsk_Ring Xsk_Prog
begin

text \<open>
  Setting up AF_XDP sockets, \<open>libbpf/src/xsk.c\<close>: registering the memory of the packets (\<open>umem\<close>) with its two
  rings, creating a socket with its rings, attaching the XDP program that feeds it, and
  deleting both.

  The system is a record of calls on a state: sockets, memory mappings, network interfaces, the wrappers
  of \<open>bpf.c\<close> and \<open>netlink.c\<close>.  \<open>errno\<close> is read from the state.  An address is a number; \<open>MAP_FAILED\<close> is -1.  A
  \<open>umem\<close> is shared by the sockets on it: the operations return it with its new reference count.
\<close>

section \<open>Data\<close>

record umem_config =
  uc_fill_size :: u32
  uc_comp_size :: u32
  uc_frame_size :: u32
  uc_frame_headroom :: u32
  uc_flags :: u32

record socket_config =
  sc_rx_size :: u32
  sc_tx_size :: u32
  sc_libbpf_flags :: u32
  sc_xdp_flags :: u32
  sc_bind_flags :: u16

record ring_offset =
  ro_producer :: u64
  ro_consumer :: u64
  ro_desc :: u64
  ro_flags :: u64

record mmap_offsets =
  mo_rx :: ring_offset
  mo_tx :: ring_offset
  mo_fr :: ring_offset
  mo_cr :: ring_offset

text \<open>A ring of the caller: the part that \<^verbatim>\<open>Xsk_Ring\<close> models, and its pointers into the mapping.\<close>

record ring_ptrs =
  rp_ring :: xsk_ring
  rp_producer :: int
  rp_consumer :: int
  rp_flags :: int
  rp_desc :: int

record umem_reg =
  mr_addr :: int
  mr_len :: u64
  mr_chunk_size :: u32
  mr_headroom :: u32
  mr_flags :: u32

record sockaddr_xdp =
  sx_flags :: u16
  sx_ifindex :: i32
  sx_queue_id :: u32
  sx_shared_umem_fd :: int

record xsk_umem =
  um_fill :: ring_ptrs
  um_comp :: ring_ptrs
  um_area :: int
  um_config :: umem_config
  um_fd :: int
  um_refcount :: int

record xsk_socket =
  sk_rx :: "ring_ptrs option"
  sk_tx :: "ring_ptrs option"
  sk_config :: socket_config
  sk_fd :: int
  sk_ifindex :: i32
  sk_prog_fd :: int
  sk_xsks_map_fd :: int
  sk_queue_id :: u32
  sk_ifname :: string

datatype xsk_opt = XDP_UMEM_REG umem_reg | XDP_UMEM_FILL_RING u32 | XDP_UMEM_COMPLETION_RING u32 | XDP_RX_RING u32 | XDP_TX_RING u32
datatype xsk_pgoff = XDP_PGOFF_RX_RING | XDP_PGOFF_TX_RING | XDP_UMEM_PGOFF_FILL_RING | XDP_UMEM_PGOFF_COMPLETION_RING

definition MAP_FAILED :: int where "MAP_FAILED = - 1"
definition XSK_LIBBPF_FLAGS__INHIBIT_PROG_LOAD :: u32 where "XSK_LIBBPF_FLAGS__INHIBIT_PROG_LOAD = 1"
definition XDP_SHARED_UMEM :: u16 where "XDP_SHARED_UMEM = 1"
definition XSK_RING_CONS__DEFAULT_NUM_DESCS :: u32 where "XSK_RING_CONS__DEFAULT_NUM_DESCS = 2048"
definition XSK_RING_PROD__DEFAULT_NUM_DESCS :: u32 where "XSK_RING_PROD__DEFAULT_NUM_DESCS = 2048"
definition XSK_UMEM__DEFAULT_FRAME_SIZE :: u32 where "XSK_UMEM__DEFAULT_FRAME_SIZE = 4096"
definition XSK_UMEM__DEFAULT_FRAME_HEADROOM :: u32 where "XSK_UMEM__DEFAULT_FRAME_HEADROOM = 0"
definition XSK_UMEM__DEFAULT_FLAGS :: u32 where "XSK_UMEM__DEFAULT_FLAGS = 0"
definition IFNAMSIZ :: nat where "IFNAMSIZ = 16"

text \<open>
  The calls.  A descriptor is negative on failure.  \<open>xs_getsockopt\<close> gives the error, the length of the answer and the
  words it wrote; \<open>xs_prog_info\<close>, with room for so many ids, the error, the number of maps and their ids.
\<close>

record 's xsk_sys =
  xs_errno :: "'s \<Rightarrow> int"
  xs_calloc :: "'s \<Rightarrow> bool \<times> 's"
  xs_pagesize :: int
  xs_socket :: "'s \<Rightarrow> int \<times> 's"
  xs_socket_inet :: "'s \<Rightarrow> int \<times> 's"
  xs_setsockopt :: "int \<Rightarrow> xsk_opt \<Rightarrow> 's \<Rightarrow> int \<times> 's"
  xs_getsockopt :: "int \<Rightarrow> 's \<Rightarrow> int \<times> nat \<times> u64 list \<times> 's"
  xs_mmap :: "u64 \<Rightarrow> int \<Rightarrow> xsk_pgoff \<Rightarrow> 's \<Rightarrow> int \<times> 's"
  xs_munmap :: "int \<Rightarrow> u64 \<Rightarrow> 's \<Rightarrow> 's"
  xs_close :: "int \<Rightarrow> 's \<Rightarrow> 's"
  xs_bind :: "int \<Rightarrow> sockaddr_xdp \<Rightarrow> 's \<Rightarrow> int \<times> 's"
  xs_nametoindex :: "string \<Rightarrow> 's \<Rightarrow> i32 \<times> 's"
  xs_channels :: "int \<Rightarrow> string \<Rightarrow> 's \<Rightarrow> int \<times> u32 \<times> 's"
  xs_get_link_id :: "i32 \<Rightarrow> u32 \<Rightarrow> 's \<Rightarrow> int \<times> u32 \<times> 's"
  xs_set_link :: "i32 \<Rightarrow> int \<Rightarrow> u32 \<Rightarrow> 's \<Rightarrow> int \<times> 's"
  xs_load_program :: "bpf_insn list \<Rightarrow> 's \<Rightarrow> int \<times> 's"
  xs_create_map :: "u32 \<Rightarrow> 's \<Rightarrow> int \<times> 's"
  xs_map_delete :: "int \<Rightarrow> u32 \<Rightarrow> 's \<Rightarrow> 's"
  xs_map_update :: "int \<Rightarrow> u32 \<Rightarrow> int \<Rightarrow> 's \<Rightarrow> int \<times> 's"
  xs_prog_fd :: "u32 \<Rightarrow> 's \<Rightarrow> int \<times> 's"
  xs_prog_info :: "int \<Rightarrow> u32 \<Rightarrow> 's \<Rightarrow> int \<times> u32 \<times> u32 list \<times> 's"
  xs_map_fd :: "u32 \<Rightarrow> 's \<Rightarrow> int \<times> 's"
  xs_map_name :: "int \<Rightarrow> 's \<Rightarrow> int \<times> string \<times> 's"

section \<open>Configuration and offsets\<close>

definition xsk_umem_fd :: "xsk_umem option \<Rightarrow> int" where
  "xsk_umem_fd umem = (case umem of None \<Rightarrow> - EINVAL | Some u \<Rightarrow> um_fd u)"

definition xsk_socket_fd :: "xsk_socket option \<Rightarrow> int" where
  "xsk_socket_fd xsk = (case xsk of None \<Rightarrow> - EINVAL | Some x \<Rightarrow> sk_fd x)"

definition xsk_page_aligned :: "int \<Rightarrow> int \<Rightarrow> bool" where
  "xsk_page_aligned pagesize addr \<longleftrightarrow> addr AND (pagesize - 1) = 0"

definition xsk_set_umem_config :: "umem_config option \<Rightarrow> umem_config" where
  "xsk_set_umem_config usr_cfg =
     (case usr_cfg of
        None \<Rightarrow> \<lparr>uc_fill_size = XSK_RING_PROD__DEFAULT_NUM_DESCS, uc_comp_size = XSK_RING_CONS__DEFAULT_NUM_DESCS,
                uc_frame_size = XSK_UMEM__DEFAULT_FRAME_SIZE, uc_frame_headroom = XSK_UMEM__DEFAULT_FRAME_HEADROOM, uc_flags = XSK_UMEM__DEFAULT_FLAGS\<rparr>
      | Some cfg \<Rightarrow> cfg)"

definition xsk_set_xdp_socket_config :: "socket_config option \<Rightarrow> int + socket_config" where
  "xsk_set_xdp_socket_config usr_cfg =
     (case usr_cfg of
        None \<Rightarrow> Inr \<lparr>sc_rx_size = XSK_RING_CONS__DEFAULT_NUM_DESCS, sc_tx_size = XSK_RING_PROD__DEFAULT_NUM_DESCS, sc_libbpf_flags = 0,
                    sc_xdp_flags = 0, sc_bind_flags = 0\<rparr>
      | Some cfg \<Rightarrow> if sc_libbpf_flags cfg AND NOT XSK_LIBBPF_FLAGS__INHIBIT_PROG_LOAD \<noteq> 0 then Inl (- EINVAL) else Inr cfg)"

definition ring_offset_at :: "u64 list \<Rightarrow> nat \<Rightarrow> ring_offset" where
  "ring_offset_at ws i = \<lparr>ro_producer = ws ! i, ro_consumer = ws ! (i + 1), ro_desc = ws ! (i + 2), ro_flags = ws ! (i + 3)\<rparr>"

definition offsets_of :: "u64 list \<Rightarrow> mmap_offsets" where
  "offsets_of ws = \<lparr>mo_rx = ring_offset_at ws 0, mo_tx = ring_offset_at ws 4, mo_fr = ring_offset_at ws 8, mo_cr = ring_offset_at ws 12\<rparr>"

definition ring_offset_v1 :: "u64 list \<Rightarrow> nat \<Rightarrow> ring_offset" where
  "ring_offset_v1 ws i = \<lparr>ro_producer = ws ! i, ro_consumer = ws ! (i + 1), ro_desc = ws ! (i + 2), ro_flags = ws ! (i + 1) + 4\<rparr>"

definition xsk_mmap_offsets_v1 :: "u64 list \<Rightarrow> mmap_offsets" where
  "xsk_mmap_offsets_v1 ws = \<lparr>mo_rx = ring_offset_v1 ws 0, mo_tx = ring_offset_v1 ws 3, mo_fr = ring_offset_v1 ws 6, mo_cr = ring_offset_v1 ws 9\<rparr>"

definition xsk_get_mmap_offsets :: "'s xsk_sys \<Rightarrow> int \<Rightarrow> 's \<Rightarrow> int \<times> mmap_offsets \<times> 's" where
  "xsk_get_mmap_offsets S fd s =
     (let (err, optlen, ws, s) = xs_getsockopt S fd s
      in if err \<noteq> 0 then (err, offsets_of ws, s)
         else if optlen = 128 then (0, offsets_of ws, s)
         else if optlen = 96 then (0, xsk_mmap_offsets_v1 ws, s)
         else (- EINVAL, offsets_of ws, s))"

section \<open>The memory\<close>

definition fill_len :: "mmap_offsets \<Rightarrow> umem_config \<Rightarrow> u64" where
  "fill_len off cfg = ro_desc (mo_fr off) + ucast (uc_fill_size cfg) * 8"

definition comp_len :: "mmap_offsets \<Rightarrow> umem_config \<Rightarrow> u64" where
  "comp_len off cfg = ro_desc (mo_cr off) + ucast (uc_comp_size cfg) * 8"

definition place_ring :: "int \<Rightarrow> ring_offset \<Rightarrow> u32 \<Rightarrow> ring_ptrs \<Rightarrow> ring_ptrs" where
  "place_ring addr off sz r =
     \<lparr>rp_ring = (rp_ring r)\<lparr>ring_mask := sz - 1, ring_size := sz\<rparr>, rp_producer = addr + uint (ro_producer off),
      rp_consumer = addr + uint (ro_consumer off), rp_flags = addr + uint (ro_flags off), rp_desc = addr + uint (ro_desc off)\<rparr>"

definition set_cached_cons :: "u32 \<Rightarrow> ring_ptrs \<Rightarrow> ring_ptrs" where
  "set_cached_cons n r = r\<lparr>rp_ring := (rp_ring r)\<lparr>cached_cons := n\<rparr>\<rparr>"

text \<open>The settings of the socket, in order, up to the first that fails, whose error it gives.\<close>

fun setsockopts :: "'s xsk_sys \<Rightarrow> int \<Rightarrow> xsk_opt list \<Rightarrow> 's \<Rightarrow> int option \<times> 's" where
  "setsockopts S fd [] s = (None, s)"
| "setsockopts S fd (a # as) s = (let (err, s) = xs_setsockopt S fd a s in if err \<noteq> 0 then (Some (- xs_errno S s), s) else setsockopts S fd as s)"

text \<open>
  \<open>xsk_umem__create\<close>: \<open>ptr_ok\<close> is whether the place for the result is not NULL; a ring that is None is NULL.
  The mapping that the label \<open>out_mmap\<close> releases is the second one, which has failed.
\<close>

definition xsk_umem_create ::
    "'s xsk_sys \<Rightarrow> bool \<Rightarrow> int \<Rightarrow> u64 \<Rightarrow> ring_ptrs option \<Rightarrow> ring_ptrs option \<Rightarrow> umem_config option \<Rightarrow> 's \<Rightarrow> (int + xsk_umem) \<times> 's" where
  "xsk_umem_create S ptr_ok umem_area size0 fill comp0 usr_config s =
     (case (fill, comp0) of
        (Some fill, Some comp0) \<Rightarrow>
          if umem_area = 0 \<or> \<not> ptr_ok then (Inl (- EFAULT), s)
          else if size0 = 0 \<and> \<not> xsk_page_aligned (xs_pagesize S) umem_area then (Inl (- EINVAL), s)
          else
            (let (mem, s) = xs_calloc S s
             in if \<not> mem then (Inl (- ENOMEM), s)
                else
                  (let (fd, s) = xs_socket S s
                   in if fd < 0 then (Inl (- xs_errno S s), s)
                      else
                        (let cfg = xsk_set_umem_config usr_config;
                             mr = \<lparr>mr_addr = umem_area, mr_len = size0, mr_chunk_size = uc_frame_size cfg, mr_headroom = uc_frame_headroom cfg,
                                   mr_flags = uc_flags cfg\<rparr>;
                             (fail, s) = setsockopts S fd [XDP_UMEM_REG mr, XDP_UMEM_FILL_RING (uc_fill_size cfg), XDP_UMEM_COMPLETION_RING (uc_comp_size cfg)] s
                         in if fail \<noteq> None then (Inl (the fail), xs_close S fd s)
                            else
                              (let (err, off, s) = xsk_get_mmap_offsets S fd s
                               in if err \<noteq> 0 then (Inl (- xs_errno S s), xs_close S fd s)
                                  else
                                    (let (map, s) = xs_mmap S (fill_len off cfg) fd XDP_UMEM_PGOFF_FILL_RING s
                                     in if map = MAP_FAILED then (Inl (- xs_errno S s), xs_close S fd s)
                                        else
                                          (let fill = set_cached_cons (uc_fill_size cfg) (place_ring map (mo_fr off) (uc_fill_size cfg) fill);
                                               (map, s) = xs_mmap S (comp_len off cfg) fd XDP_UMEM_PGOFF_COMPLETION_RING s
                                           in if map = MAP_FAILED then (Inl (- xs_errno S s), xs_close S fd (xs_munmap S map (fill_len off cfg) s))
                                              else
                                                (Inr \<lparr>um_fill = fill, um_comp = place_ring map (mo_cr off) (uc_comp_size cfg) comp0, um_area = umem_area,
                                                      um_config = cfg, um_fd = fd, um_refcount = 0\<rparr>, s)))))))
      | _ \<Rightarrow> (Inl (- EFAULT), s))"

text \<open>The older version has no flags in its configuration.\<close>

definition xsk_umem_create_v0_0_2 ::
    "'s xsk_sys \<Rightarrow> bool \<Rightarrow> int \<Rightarrow> u64 \<Rightarrow> ring_ptrs option \<Rightarrow> ring_ptrs option \<Rightarrow> umem_config \<Rightarrow> 's \<Rightarrow> (int + xsk_umem) \<times> 's" where
  "xsk_umem_create_v0_0_2 S ptr_ok umem_area size0 fill comp0 usr_config s =
     xsk_umem_create S ptr_ok umem_area size0 fill comp0 (Some (usr_config\<lparr>uc_flags := 0\<rparr>)) s"

definition xsk_umem_delete :: "'s xsk_sys \<Rightarrow> xsk_umem option \<Rightarrow> 's \<Rightarrow> int \<times> 's" where
  "xsk_umem_delete S umem s =
     (case umem of
        None \<Rightarrow> (0, s)
      | Some u \<Rightarrow>
          if um_refcount u \<noteq> 0 then (- EBUSY, s)
          else
            (let (err, off, s) = xsk_get_mmap_offsets S (um_fd u) s;
                 s = (if err = 0
                      then xs_munmap S (rp_desc (um_comp u) - uint (ro_desc (mo_cr off))) (comp_len off (um_config u))
                             (xs_munmap S (rp_desc (um_fill u) - uint (ro_desc (mo_fr off))) (fill_len off (um_config u)) s)
                      else s)
             in (0, xs_close S (um_fd u) s)))"

section \<open>The program\<close>

definition xsk_load_xdp_prog :: "'s xsk_sys \<Rightarrow> xsk_socket \<Rightarrow> 's \<Rightarrow> int \<times> xsk_socket \<times> 's" where
  "xsk_load_xdp_prog S xsk s =
     (let (prog_fd, s) = xs_load_program S (xsk_xdp_prog (of_int (sk_xsks_map_fd xsk))) s
      in if prog_fd < 0 then (prog_fd, xsk, s)
         else
           (let (err, s) = xs_set_link S (sk_ifindex xsk) prog_fd (sc_xdp_flags (sk_config xsk)) s
            in if err \<noteq> 0 then (err, xsk, xs_close S prog_fd s) else (0, xsk\<lparr>sk_prog_fd := prog_fd\<rparr>, s)))"

definition xsk_get_max_queues :: "'s xsk_sys \<Rightarrow> xsk_socket \<Rightarrow> 's \<Rightarrow> int \<times> 's" where
  "xsk_get_max_queues S xsk s =
     (let (fd, s) = xs_socket_inet S s
      in if fd < 0 then (- xs_errno S s, s)
         else
           (let (err, max_combined, s) = xs_channels S fd (sk_ifname xsk) s;
                ret = (if err \<noteq> 0 \<and> xs_errno S s \<noteq> EOPNOTSUPP then - xs_errno S s
                       else if err \<noteq> 0 \<or> max_combined = 0 then 1
                       else sint max_combined)
            in (ret, xs_close S fd s)))"

definition xsk_create_bpf_maps :: "'s xsk_sys \<Rightarrow> xsk_socket \<Rightarrow> 's \<Rightarrow> int \<times> xsk_socket \<times> 's" where
  "xsk_create_bpf_maps S xsk s =
     (let (max_queues, s) = xsk_get_max_queues S xsk s
      in if max_queues < 0 then (max_queues, xsk, s)
         else
           (let (fd, s) = xs_create_map S (of_int max_queues) s
            in if fd < 0 then (fd, xsk, s) else (0, xsk\<lparr>sk_xsks_map_fd := fd\<rparr>, s)))"

definition xsk_delete_bpf_maps :: "'s xsk_sys \<Rightarrow> xsk_socket \<Rightarrow> 's \<Rightarrow> 's" where
  "xsk_delete_bpf_maps S xsk s = xs_close S (sk_xsks_map_fd xsk) (xs_map_delete S (sk_xsks_map_fd xsk) (sk_queue_id xsk) s)"

text \<open>The loop over the maps of the program: the descriptor of the last one with the name stays.\<close>

fun lookup_maps :: "'s xsk_sys \<Rightarrow> u32 list \<Rightarrow> int \<Rightarrow> 's \<Rightarrow> int \<times> 's" where
  "lookup_maps S [] xsks_map_fd s = (xsks_map_fd, s)"
| "lookup_maps S (i # is) xsks_map_fd s =
     (let (fd, s) = xs_map_fd S i s
      in if fd < 0 then lookup_maps S is xsks_map_fd s
         else
           (let (err, name, s) = xs_map_name S fd s
            in if err \<noteq> 0 then lookup_maps S is xsks_map_fd (xs_close S fd s)
               else if name = ''xsks_map'' then lookup_maps S is fd s
               else lookup_maps S is xsks_map_fd (xs_close S fd s)))"

definition xsk_lookup_bpf_maps :: "'s xsk_sys \<Rightarrow> xsk_socket \<Rightarrow> 's \<Rightarrow> int \<times> xsk_socket \<times> 's" where
  "xsk_lookup_bpf_maps S xsk s =
     (let (err, num_maps, _, s) = xs_prog_info S (sk_prog_fd xsk) 0 s
      in if err \<noteq> 0 then (err, xsk, s)
         else
           (let (mem, s) = xs_calloc S s
            in if \<not> mem then (- ENOMEM, xsk, s)
               else
                 (let (err, nr_map_ids, map_ids, s) = xs_prog_info S (sk_prog_fd xsk) num_maps s
                  in if err \<noteq> 0 then (err, xsk, s)
                     else
                       (let (fd, s) = lookup_maps S (take (unat nr_map_ids) map_ids) (- 1) s
                        in (if fd = - 1 then - ENOENT else 0, xsk\<lparr>sk_xsks_map_fd := fd\<rparr>, s)))))"

definition xsk_set_bpf_maps :: "'s xsk_sys \<Rightarrow> xsk_socket \<Rightarrow> 's \<Rightarrow> int \<times> 's" where
  "xsk_set_bpf_maps S xsk = xs_map_update S (sk_xsks_map_fd xsk) (sk_queue_id xsk) (sk_fd xsk)"

text \<open>
  The program and its map: new ones when the interface has none, else the ones that are attached.  \<open>Inl\<close> is a return from
  \<open>xsk_setup_xdp_prog\<close>.
\<close>

definition prepare_prog :: "'s xsk_sys \<Rightarrow> u32 \<Rightarrow> xsk_socket \<Rightarrow> 's \<Rightarrow> (int + unit) \<times> xsk_socket \<times> 's" where
  "prepare_prog S pid xsk s =
     (if pid = 0 then
        (let (err, xsk, s) = xsk_create_bpf_maps S xsk s
         in if err \<noteq> 0 then (Inl err, xsk, s)
            else
              (let (err, xsk, s) = xsk_load_xdp_prog S xsk s
               in if err \<noteq> 0 then (Inl err, xsk, xsk_delete_bpf_maps S xsk s) else (Inr (), xsk, s)))
      else
        (let (fd, s) = xs_prog_fd S pid s; xsk = xsk\<lparr>sk_prog_fd := fd\<rparr>
         in if fd < 0 then (Inl (- xs_errno S s), xsk, s)
            else
              (let (err, xsk, s) = xsk_lookup_bpf_maps S xsk s
               in if err \<noteq> 0 then (Inl err, xsk, xs_close S (sk_prog_fd xsk) s) else (Inr (), xsk, s))))"

definition xsk_setup_xdp_prog :: "'s xsk_sys \<Rightarrow> xsk_socket \<Rightarrow> 's \<Rightarrow> int \<times> xsk_socket \<times> 's" where
  "xsk_setup_xdp_prog S xsk s =
     (let (err, pid, s) = xs_get_link_id S (sk_ifindex xsk) (sc_xdp_flags (sk_config xsk)) s
      in if err \<noteq> 0 then (err, xsk, s)
         else
           (let (r, xsk, s) = prepare_prog S pid xsk s
            in case r of
                 Inl err \<Rightarrow> (err, xsk, s)
               | Inr _ \<Rightarrow>
                   (let (err, s) = (if sk_rx xsk \<noteq> None then xsk_set_bpf_maps S xsk s else (0, s))
                    in if err \<noteq> 0 then (err, xsk, xs_close S (sk_prog_fd xsk) (xsk_delete_bpf_maps S xsk s)) else (0, xsk, s))))"

section \<open>The socket\<close>

definition rx_len :: "mmap_offsets \<Rightarrow> socket_config \<Rightarrow> u64" where
  "rx_len off cfg = ro_desc (mo_rx off) + ucast (sc_rx_size cfg) * 16"

definition tx_len :: "mmap_offsets \<Rightarrow> socket_config \<Rightarrow> u64" where
  "tx_len off cfg = ro_desc (mo_tx off) + ucast (sc_tx_size cfg) * 16"

text \<open>The labels of \<open>xsk_socket__create\<close>, from the last one up.\<close>

definition out_socket :: "'s xsk_sys \<Rightarrow> xsk_socket \<Rightarrow> xsk_umem \<Rightarrow> 's \<Rightarrow> xsk_umem \<times> 's" where
  "out_socket S xsk umem s =
     (let umem = umem\<lparr>um_refcount := um_refcount umem - 1\<rparr> in (umem, if um_refcount umem \<noteq> 0 then xs_close S (sk_fd xsk) s else s))"

definition out_mmap_rx :: "'s xsk_sys \<Rightarrow> mmap_offsets \<Rightarrow> int \<Rightarrow> bool \<Rightarrow> xsk_socket \<Rightarrow> xsk_umem \<Rightarrow> 's \<Rightarrow> xsk_umem \<times> 's" where
  "out_mmap_rx S off rx_map has_rx xsk umem s =
     out_socket S xsk umem (if has_rx then xs_munmap S rx_map (rx_len off (sk_config xsk)) s else s)"

definition out_mmap_tx :: "'s xsk_sys \<Rightarrow> mmap_offsets \<Rightarrow> int \<Rightarrow> int \<Rightarrow> bool \<Rightarrow> bool \<Rightarrow> xsk_socket \<Rightarrow> xsk_umem \<Rightarrow> 's \<Rightarrow> xsk_umem \<times> 's" where
  "out_mmap_tx S off tx_map rx_map has_tx has_rx xsk umem s =
     out_mmap_rx S off rx_map has_rx xsk umem (if has_tx then xs_munmap S tx_map (tx_len off (sk_config xsk)) s else s)"

definition inhibited :: "xsk_socket \<Rightarrow> bool" where
  "inhibited xsk \<longleftrightarrow> sc_libbpf_flags (sk_config xsk) AND XSK_LIBBPF_FLAGS__INHIBIT_PROG_LOAD \<noteq> 0"

definition bind_addr :: "xsk_socket \<Rightarrow> xsk_umem \<Rightarrow> sockaddr_xdp" where
  "bind_addr xsk umem =
     (if um_refcount umem > 1
      then \<lparr>sx_flags = XDP_SHARED_UMEM, sx_ifindex = sk_ifindex xsk, sx_queue_id = sk_queue_id xsk, sx_shared_umem_fd = um_fd umem\<rparr>
      else \<lparr>sx_flags = sc_bind_flags (sk_config xsk), sx_ifindex = sk_ifindex xsk, sx_queue_id = sk_queue_id xsk, sx_shared_umem_fd = 0\<rparr>)"

text \<open>From the binding of the socket on.\<close>

definition bind_socket ::
    "'s xsk_sys \<Rightarrow> mmap_offsets \<Rightarrow> int \<Rightarrow> int \<Rightarrow> xsk_socket \<Rightarrow> xsk_umem \<Rightarrow> 's \<Rightarrow> (int + xsk_socket) \<times> xsk_umem \<times> 's" where
  "bind_socket S off tx_map rx_map xsk umem s =
     (let out = (\<lambda>xsk. out_mmap_tx S off tx_map rx_map (sk_tx xsk \<noteq> None) (sk_rx xsk \<noteq> None) xsk umem);
          (err, s) = xs_bind S (sk_fd xsk) (bind_addr xsk umem) s
      in if err \<noteq> 0 then (Inl (- xs_errno S s), out xsk s)
         else
           (let xsk = xsk\<lparr>sk_prog_fd := - 1\<rparr>
            in if inhibited xsk then (Inr xsk, umem, s)
               else
                 (let (err, xsk, s) = xsk_setup_xdp_prog S xsk s in if err \<noteq> 0 then (Inl err, out xsk s) else (Inr xsk, umem, s))))"

text \<open>From the mapping of the rings on.\<close>

definition map_rings ::
    "'s xsk_sys \<Rightarrow> mmap_offsets \<Rightarrow> ring_ptrs option \<Rightarrow> ring_ptrs option \<Rightarrow> xsk_socket \<Rightarrow> xsk_umem \<Rightarrow> 's \<Rightarrow> (int + xsk_socket) \<times> xsk_umem \<times> 's" where
  "map_rings S off rx tx xsk umem s =
     (let cfg = sk_config xsk;
          (rx_map, s) = (if rx \<noteq> None then xs_mmap S (rx_len off cfg) (sk_fd xsk) XDP_PGOFF_RX_RING s else (0, s))
      in if rx \<noteq> None \<and> rx_map = MAP_FAILED then (Inl (- xs_errno S s), out_socket S xsk umem s)
         else
           (let xsk = xsk\<lparr>sk_rx := map_option (place_ring rx_map (mo_rx off) (sc_rx_size cfg)) rx\<rparr>;
                (tx_map, s) = (if tx \<noteq> None then xs_mmap S (tx_len off cfg) (sk_fd xsk) XDP_PGOFF_TX_RING s else (0, s))
            in if tx \<noteq> None \<and> tx_map = MAP_FAILED then (Inl (- xs_errno S s), out_mmap_rx S off rx_map (rx \<noteq> None) xsk umem s)
               else
                 bind_socket S off tx_map rx_map
                   (xsk\<lparr>sk_tx := map_option (\<lambda>r. set_cached_cons (sc_tx_size cfg) (place_ring tx_map (mo_tx off) (sc_tx_size cfg) r)) tx\<rparr>) umem s))"

text \<open>From the lookup of the interface on.\<close>

definition open_socket ::
    "'s xsk_sys \<Rightarrow> string \<Rightarrow> u32 \<Rightarrow> ring_ptrs option \<Rightarrow> ring_ptrs option \<Rightarrow> socket_config \<Rightarrow> int \<Rightarrow> xsk_umem \<Rightarrow> 's \<Rightarrow>
     (int + xsk_socket) \<times> xsk_umem \<times> 's" where
  "open_socket S ifname queue_id rx tx cfg fd umem s =
     (let (ifindex, s) = xs_nametoindex S ifname s;
          xsk = \<lparr>sk_rx = None, sk_tx = None, sk_config = cfg, sk_fd = fd, sk_ifindex = ifindex, sk_prog_fd = 0, sk_xsks_map_fd = 0,
                 sk_queue_id = queue_id, sk_ifname = take (IFNAMSIZ - 1) ifname\<rparr>
      in if ifindex = 0 then (Inl (- xs_errno S s), out_socket S xsk umem s)
         else
           (let (fail, s) = setsockopts S fd ((if rx \<noteq> None then [XDP_RX_RING (sc_rx_size cfg)] else []) @
                                             (if tx \<noteq> None then [XDP_TX_RING (sc_tx_size cfg)] else [])) s
            in if fail \<noteq> None then (Inl (the fail), out_socket S xsk umem s)
               else
                 (let (err, off, s) = xsk_get_mmap_offsets S fd s
                  in if err \<noteq> 0 then (Inl (- xs_errno S s), out_socket S xsk umem s) else map_rings S off rx tx xsk umem s)))"

definition xsk_socket_create ::
    "'s xsk_sys \<Rightarrow> bool \<Rightarrow> string \<Rightarrow> u32 \<Rightarrow> xsk_umem \<Rightarrow> ring_ptrs option \<Rightarrow> ring_ptrs option \<Rightarrow> socket_config option \<Rightarrow> 's \<Rightarrow>
     (int + xsk_socket) \<times> xsk_umem \<times> 's" where
  "xsk_socket_create S ptr_ok ifname queue_id umem rx tx usr_config s =
     (if \<not> ptr_ok \<or> rx = None \<and> tx = None then (Inl (- EFAULT), umem, s)
      else
        (let (mem, s) = xs_calloc S s
         in if \<not> mem then (Inl (- ENOMEM), umem, s)
            else
              (case xsk_set_xdp_socket_config usr_config of
                 Inl err \<Rightarrow> (Inl err, umem, s)
               | Inr cfg \<Rightarrow>
                   if um_refcount umem \<noteq> 0 \<and> sc_libbpf_flags cfg AND XSK_LIBBPF_FLAGS__INHIBIT_PROG_LOAD = 0 then (Inl (- EBUSY), umem, s)
                   else
                     (let umem' = umem\<lparr>um_refcount := um_refcount umem + 1\<rparr>
                      in if um_refcount umem > 0 then
                           (let (fd, s) = xs_socket S s
                            in if fd < 0 then (Inl (- xs_errno S s), umem', s) else open_socket S ifname queue_id rx tx cfg fd umem' s)
                         else open_socket S ifname queue_id rx tx cfg (um_fd umem) umem' s))))"

definition xsk_socket_delete :: "'s xsk_sys \<Rightarrow> xsk_socket \<Rightarrow> xsk_umem \<Rightarrow> 's \<Rightarrow> xsk_umem \<times> 's" where
  "xsk_socket_delete S xsk umem s =
     (let s = (if sk_prog_fd xsk \<noteq> - 1 then xs_close S (sk_prog_fd xsk) (xsk_delete_bpf_maps S xsk s) else s);
          (err, off, s) = xsk_get_mmap_offsets S (sk_fd xsk) s;
          s = (if err = 0
               then (let s = (case sk_rx xsk of None \<Rightarrow> s | Some r \<Rightarrow> xs_munmap S (rp_desc r - uint (ro_desc (mo_rx off))) (rx_len off (sk_config xsk)) s)
                     in case sk_tx xsk of None \<Rightarrow> s | Some r \<Rightarrow> xs_munmap S (rp_desc r - uint (ro_desc (mo_tx off))) (tx_len off (sk_config xsk)) s)
               else s);
          umem = umem\<lparr>um_refcount := um_refcount umem - 1\<rparr>
      in (umem, if sk_fd xsk \<noteq> um_fd umem then xs_close S (sk_fd xsk) s else s))"

end
