(* ===== verification/Xsk_Resources.thy ===== *)
theory Xsk_Resources
  imports Xsk_Socket
begin

text \<open>
  What the functions of \<open>libbpf/src/xsk.c\<close> do with descriptors and mappings.  The laws of the system calls, as their manual pages
  give them, are a locale; every function is followed through its error labels.
\<close>

section \<open>Descriptors and mappings\<close>

text \<open>What a process holds of the kernel: open descriptors and mapped regions.\<close>

datatype handle = Fd int | Mapping int u64

definition opened :: "('s \<Rightarrow> handle set) \<Rightarrow> int \<Rightarrow> 's \<Rightarrow> 's \<Rightarrow> bool" where
  "opened hold fd s s' \<longleftrightarrow> (if fd < 0 then hold s' = hold s else Fd fd \<notin> hold s \<and> hold s' = insert (Fd fd) (hold s))"

text \<open>The socket \<open>xsk'\<close> is \<open>xsk\<close> with a program and a map of its own; the handles \<open>L\<close> have been opened besides.\<close>

definition with_prog :: "('s \<Rightarrow> handle set) \<Rightarrow> handle set \<Rightarrow> xsk_socket \<Rightarrow> xsk_socket \<Rightarrow> 's \<Rightarrow> 's \<Rightarrow> bool" where
  "with_prog hold L xsk xsk' s s' \<longleftrightarrow>
     (\<exists>p m. xsk' = xsk\<lparr>sk_prog_fd := p, sk_xsks_map_fd := m\<rparr> \<and> 0 \<le> p \<and> 0 \<le> m \<and> p \<noteq> m \<and> Fd p \<notin> L \<union> hold s \<and> Fd m \<notin> L \<union> hold s \<and>
        hold s' = {Fd p, Fd m} \<union> (L \<union> hold s))"

definition same_socket :: "xsk_socket \<Rightarrow> xsk_socket \<Rightarrow> bool" where
  "same_socket xsk xsk' \<longleftrightarrow> (\<exists>p m. xsk' = xsk\<lparr>sk_prog_fd := p, sk_xsks_map_fd := m\<rparr>)"

text \<open>The descriptors that the loop of \<^verbatim>\<open>xsk_lookup_bpf_maps\<close> leaves open.\<close>

fun lookup_kept :: "'s xsk_sys \<Rightarrow> u32 list \<Rightarrow> 's \<Rightarrow> int list" where
  "lookup_kept S [] s = []"
| "lookup_kept S (i # is) s =
     (let (fd, s) = xs_map_fd S i s
      in if fd < 0 then lookup_kept S is s
         else
           (let (err, name, s) = xs_map_name S fd s
            in if err = 0 \<and> name = ''xsks_map'' then fd # lookup_kept S is s else lookup_kept S is (xs_close S fd s)))"

text \<open>
  Only the last one reaches the socket.  The others are lost: no name for them is left, and nobody closes
  them.  For each function, the descriptors that its own call of the lookup loses; there are none unless a
  program is attached to the interface already and has several maps named \<open>xsks_map\<close>.
\<close>

definition lookup_lost :: "'s xsk_sys \<Rightarrow> xsk_socket \<Rightarrow> 's \<Rightarrow> int list" where
  "lookup_lost S xsk s =
     (let (e1, n1, _, s) = xs_prog_info S (sk_prog_fd xsk) 0 s; (mem, s) = xs_calloc S s;
          (e2, n2, ids, s) = xs_prog_info S (sk_prog_fd xsk) n1 s
      in if e1 \<noteq> 0 \<or> \<not> mem \<or> e2 \<noteq> 0 then [] else butlast (lookup_kept S (take (unat n2) ids) s))"

definition prepare_lost :: "'s xsk_sys \<Rightarrow> u32 \<Rightarrow> xsk_socket \<Rightarrow> 's \<Rightarrow> int list" where
  "prepare_lost S pid xsk s =
     (let (fd, s) = xs_prog_fd S pid s in if pid = 0 \<or> fd < 0 then [] else lookup_lost S (xsk\<lparr>sk_prog_fd := fd\<rparr>) s)"

definition setup_lost :: "'s xsk_sys \<Rightarrow> xsk_socket \<Rightarrow> 's \<Rightarrow> int list" where
  "setup_lost S xsk s =
     (let (e, pid, s) = xs_get_link_id S (sk_ifindex xsk) (sc_xdp_flags (sk_config xsk)) s in if e \<noteq> 0 then [] else prepare_lost S pid xsk s)"

definition bind_lost :: "'s xsk_sys \<Rightarrow> xsk_socket \<Rightarrow> xsk_umem \<Rightarrow> 's \<Rightarrow> int list" where
  "bind_lost S xsk umem s =
     (let (e, s) = xs_bind S (sk_fd xsk) (bind_addr xsk umem) s; xsk = xsk\<lparr>sk_prog_fd := - 1\<rparr>
      in if e \<noteq> 0 \<or> inhibited xsk then [] else setup_lost S xsk s)"

definition rings_lost :: "'s xsk_sys \<Rightarrow> mmap_offsets \<Rightarrow> bool \<Rightarrow> bool \<Rightarrow> xsk_socket \<Rightarrow> xsk_umem \<Rightarrow> 's \<Rightarrow> int list" where
  "rings_lost S off rx tx xsk umem s =
     (let (a, s) = (if rx then xs_mmap S (rx_len off (sk_config xsk)) (sk_fd xsk) XDP_PGOFF_RX_RING s else (0, s));
          (b, s) = (if tx then xs_mmap S (tx_len off (sk_config xsk)) (sk_fd xsk) XDP_PGOFF_TX_RING s else (0, s))
      in if rx \<and> a = MAP_FAILED \<or> tx \<and> b = MAP_FAILED then [] else bind_lost S xsk umem s)"

definition open_lost ::
    "'s xsk_sys \<Rightarrow> string \<Rightarrow> u32 \<Rightarrow> bool \<Rightarrow> bool \<Rightarrow> socket_config \<Rightarrow> int \<Rightarrow> xsk_umem \<Rightarrow> 's \<Rightarrow> int list" where
  "open_lost S ifname queue_id rx tx cfg fd umem s =
     (let (ifindex, s) = xs_nametoindex S ifname s;
          xsk = \<lparr>sk_rx = None, sk_tx = None, sk_config = cfg, sk_fd = fd, sk_ifindex = ifindex, sk_prog_fd = 0, sk_xsks_map_fd = 0,
                 sk_queue_id = queue_id, sk_ifname = take (IFNAMSIZ - 1) ifname\<rparr>;
          (f, s) = setsockopts S fd ((if rx then [XDP_RX_RING (sc_rx_size cfg)] else []) @ (if tx then [XDP_TX_RING (sc_tx_size cfg)] else [])) s;
          (e, off, s) = xsk_get_mmap_offsets S fd s
      in if ifindex = 0 \<or> f \<noteq> None \<or> e \<noteq> 0 then [] else rings_lost S off rx tx xsk umem s)"

text \<open>Only the first socket on a memory may bring a program, so only it can lose descriptors.\<close>

definition create_lost ::
    "'s xsk_sys \<Rightarrow> bool \<Rightarrow> string \<Rightarrow> u32 \<Rightarrow> xsk_umem \<Rightarrow> ring_ptrs option \<Rightarrow> ring_ptrs option \<Rightarrow> socket_config option \<Rightarrow> 's \<Rightarrow> int list" where
  "create_lost S ptr_ok ifname queue_id umem rx tx usr_config s =
     (let (mem, s) = xs_calloc S s
      in case xsk_set_xdp_socket_config usr_config of
           Inl _ \<Rightarrow> []
         | Inr cfg \<Rightarrow>
             if \<not> ptr_ok \<or> rx = None \<and> tx = None \<or> \<not> mem \<or> um_refcount umem \<noteq> 0 then []
             else open_lost S ifname queue_id (rx \<noteq> None) (tx \<noteq> None) cfg (um_fd umem) (umem\<lparr>um_refcount := um_refcount umem + 1\<rparr>) s)"

lemma setup_lost_same:
  assumes "sk_ifindex x = sk_ifindex y" "sk_config x = sk_config y"
  shows "setup_lost S x s = setup_lost S y s"
proof -
  have "prepare_lost S pid x s' = prepare_lost S pid y s'" for pid s'
    by (simp add: prepare_lost_def lookup_lost_def split: prod.split)
  then show ?thesis using assms by (simp add: setup_lost_def split: prod.split)
qed

lemma bind_lost_same:
  assumes "sk_ifindex x = sk_ifindex y" "sk_config x = sk_config y" "sk_fd x = sk_fd y" "sk_queue_id x = sk_queue_id y"
  shows "bind_lost S x umem s = bind_lost S y umem s"
proof -
  have "bind_addr x umem = bind_addr y umem" "inhibited (x\<lparr>sk_prog_fd := p\<rparr>) = inhibited (y\<lparr>sk_prog_fd := p\<rparr>)" for p
    using assms by (simp_all add: bind_addr_def inhibited_def)
  then show ?thesis using assms setup_lost_same [of "x\<lparr>sk_prog_fd := - 1\<rparr>" "y\<lparr>sk_prog_fd := - 1\<rparr>" S]
    by (simp add: bind_lost_def Let_def split: prod.split)
qed

text \<open>Without a call of the lookup, nothing is lost.\<close>

lemma open_lost_none:
  assumes "\<And>xsk umem s. sk_config xsk = cfg \<Longrightarrow> sk_ifindex xsk = fst (xs_nametoindex S ifname s0) \<Longrightarrow> bind_lost S xsk umem s = []"
  shows "open_lost S ifname queue_id rx tx cfg fd umem s0 = []"
proof -
  have "rings_lost S off rx tx xsk umem s = []" if "sk_config xsk = cfg" "sk_ifindex xsk = fst (xs_nametoindex S ifname s0)" for off xsk s
    using assms [OF that] unfolding rings_lost_def Let_def by (auto split: prod.split)
  then show ?thesis unfolding open_lost_def Let_def by (auto split: prod.split)
qed

lemma open_lost_inhibited:
  assumes "sc_libbpf_flags cfg AND XSK_LIBBPF_FLAGS__INHIBIT_PROG_LOAD \<noteq> 0"
  shows "open_lost S ifname queue_id rx tx cfg fd umem s = []"
  by (rule open_lost_none) (use assms in \<open>simp add: bind_lost_def inhibited_def Let_def split: prod.split\<close>)

lemma create_lost_shared: "um_refcount umem \<noteq> 0 \<Longrightarrow> create_lost S ptr_ok ifname queue_id umem rx tx cfg s = []"
  by (auto simp: create_lost_def split: prod.split sum.split)

text \<open>
  What \<open>xsk_umem__create\<close> leaves mapped when it fails: the fill ring, after the mapping of the completion ring
  has failed.  It is the mapping that this call has made, with its address and length.
\<close>

definition umem_args_ok :: "'s xsk_sys \<Rightarrow> bool \<Rightarrow> int \<Rightarrow> u64 \<Rightarrow> ring_ptrs option \<Rightarrow> ring_ptrs option \<Rightarrow> bool" where
  "umem_args_ok S ptr_ok area sz fill cmp \<longleftrightarrow> fill \<noteq> None \<and> cmp \<noteq> None \<and> area \<noteq> 0 \<and> ptr_ok \<and> (sz = 0 \<longrightarrow> xsk_page_aligned (xs_pagesize S) area)"

definition umem_opts :: "umem_config \<Rightarrow> int \<Rightarrow> u64 \<Rightarrow> xsk_opt list" where
  "umem_opts cfg area sz =
     [XDP_UMEM_REG \<lparr>mr_addr = area, mr_len = sz, mr_chunk_size = uc_frame_size cfg, mr_headroom = uc_frame_headroom cfg, mr_flags = uc_flags cfg\<rparr>,
      XDP_UMEM_FILL_RING (uc_fill_size cfg), XDP_UMEM_COMPLETION_RING (uc_comp_size cfg)]"

definition umem_lost ::
    "'s xsk_sys \<Rightarrow> bool \<Rightarrow> int \<Rightarrow> u64 \<Rightarrow> ring_ptrs option \<Rightarrow> ring_ptrs option \<Rightarrow> umem_config option \<Rightarrow> 's \<Rightarrow> handle set" where
  "umem_lost S ptr_ok area sz fill cmp usr_config s =
     (let cfg = xsk_set_umem_config usr_config; (mem, s) = xs_calloc S s; (fd, s) = xs_socket S s; (f, s) = setsockopts S fd (umem_opts cfg area sz) s;
          (e, off, s) = xsk_get_mmap_offsets S fd s; (fa, s) = xs_mmap S (fill_len off cfg) fd XDP_UMEM_PGOFF_FILL_RING s;
          (ca, s) = xs_mmap S (comp_len off cfg) fd XDP_UMEM_PGOFF_COMPLETION_RING s
      in if umem_args_ok S ptr_ok area sz fill cmp \<and> mem \<and> 0 \<le> fd \<and> f = None \<and> e = 0 \<and> fa \<noteq> MAP_FAILED \<and> ca = MAP_FAILED
         then {Mapping fa (fill_len off cfg)} else {})"

locale xsk_kernel =
  fixes S :: "'s xsk_sys" and hold :: "'s \<Rightarrow> handle set"
  assumes calloc_held: "xs_calloc S s = (b, s') \<Longrightarrow> hold s' = hold s"
    and socket_opened: "xs_socket S s = (fd, s') \<Longrightarrow> opened hold fd s s'"
    and inet_opened: "xs_socket_inet S s = (fd, s') \<Longrightarrow> opened hold fd s s'"
    and load_opened: "xs_load_program S insns s = (fd, s') \<Longrightarrow> opened hold fd s s'"
    and map_opened: "xs_create_map S mx s = (fd, s') \<Longrightarrow> opened hold fd s s'"
    and prog_fd_opened: "xs_prog_fd S i s = (fd, s') \<Longrightarrow> opened hold fd s s'"
    and map_fd_opened: "xs_map_fd S i s = (fd, s') \<Longrightarrow> opened hold fd s s'"
    and prog_fd_errno: "xs_prog_fd S i s = (fd, s') \<Longrightarrow> fd < 0 \<Longrightarrow> 0 < xs_errno S s'"
    and mmap_mapped: "xs_mmap S n fd p s = (a, s') \<Longrightarrow>
      (if a = MAP_FAILED then hold s' = hold s else Mapping a n \<notin> hold s \<and> hold s' = insert (Mapping a n) (hold s))"
    and close_held [simp]: "hold (xs_close S fd s) = hold s - {Fd fd}"
    and munmap_held [simp]: "hold (xs_munmap S a n s) = hold s - {Mapping a n}"
    and setsockopt_held: "xs_setsockopt S fd opt s = (e, s') \<Longrightarrow> hold s' = hold s"
    and getsockopt_held: "xs_getsockopt S fd s = (e, ol, ws, s') \<Longrightarrow> hold s' = hold s"
    and bind_held: "xs_bind S fd addr s = (e, s') \<Longrightarrow> hold s' = hold s"
    and nametoindex_held: "xs_nametoindex S ifn s = (ix, s') \<Longrightarrow> hold s' = hold s"
    and channels_held: "xs_channels S fd ifn s = (e, n', s') \<Longrightarrow> hold s' = hold s"
    and get_link_held: "xs_get_link_id S ifx fl s = (e, pid, s') \<Longrightarrow> hold s' = hold s"
    and set_link_held: "xs_set_link S ifx fd fl s = (e, s') \<Longrightarrow> hold s' = hold s"
    and map_delete_held [simp]: "hold (xs_map_delete S fd k s) = hold s"
    and map_update_held: "xs_map_update S fd k v s = (e, s') \<Longrightarrow> hold s' = hold s"
    and prog_info_held: "xs_prog_info S fd n' s = (e, n'', ids, s') \<Longrightarrow> hold s' = hold s"
    and map_name_held: "xs_map_name S fd s = (e, nm, s') \<Longrightarrow> hold s' = hold s"
begin

lemma setsockopts_held:
  assumes "setsockopts S fd as s = (r, s')"
  shows "hold s' = hold s"
  using assms
proof (induction as arbitrary: s)
  case (Cons a as)
  obtain e1 s1 where e: "xs_setsockopt S fd a s = (e1, s1)" by (cases "xs_setsockopt S fd a s")
  show ?case using Cons e setsockopt_held [OF e] by (auto split: if_splits)
qed simp

lemma offsets_held:
  assumes "xsk_get_mmap_offsets S fd s = (e, off, s')"
  shows "hold s' = hold s"
  using assms by (auto simp: xsk_get_mmap_offsets_def dest: getsockopt_held split: prod.splits if_splits)

lemma max_queues_held:
  assumes "xsk_get_max_queues S xsk s = (r, s')"
  shows "hold s' = hold s"
  using assms by (auto simp: xsk_get_max_queues_def opened_def dest!: inet_opened channels_held split: prod.splits if_splits)

lemma delete_maps_held [simp]: "hold (xsk_delete_bpf_maps S xsk s) = hold s - {Fd (sk_xsks_map_fd xsk)}"
  by (simp add: xsk_delete_bpf_maps_def)

lemma load_prog_held:
  assumes "xsk_load_xdp_prog S xsk s = (e, xsk', s')"
  shows "if e \<noteq> 0 then xsk' = xsk \<and> hold s' = hold s
    else \<exists>p. 0 \<le> p \<and> xsk' = xsk\<lparr>sk_prog_fd := p\<rparr> \<and> Fd p \<notin> hold s \<and> hold s' = insert (Fd p) (hold s)"
proof -
  let ?is = "xsk_xdp_prog (of_int (sk_xsks_map_fd xsk))"
  obtain p s1 where p: "xs_load_program S ?is s = (p, s1)" by (cases "xs_load_program S ?is s")
  obtain e1 s2 where e: "xs_set_link S (sk_ifindex xsk) p (sc_xdp_flags (sk_config xsk)) s1 = (e1, s2)"
    by (cases "xs_set_link S (sk_ifindex xsk) p (sc_xdp_flags (sk_config xsk)) s1")
  show ?thesis
    using assms p e load_opened [OF p] set_link_held [OF e]
    by (auto simp: xsk_load_xdp_prog_def opened_def not_less split: if_splits)
qed

lemma create_maps_held:
  assumes "xsk_create_bpf_maps S xsk s = (e, xsk', s')"
  shows "if e \<noteq> 0 then xsk' = xsk \<and> hold s' = hold s
    else \<exists>m. 0 \<le> m \<and> xsk' = xsk\<lparr>sk_xsks_map_fd := m\<rparr> \<and> Fd m \<notin> hold s \<and> hold s' = insert (Fd m) (hold s)"
proof -
  obtain q s1 where q: "xsk_get_max_queues S xsk s = (q, s1)" by (cases "xsk_get_max_queues S xsk s")
  obtain m s2 where m: "xs_create_map S (of_int q) s1 = (m, s2)" by (cases "xs_create_map S (of_int q) s1")
  show ?thesis
    using assms q m max_queues_held [OF q] map_opened [OF m]
    by (auto simp: xsk_create_bpf_maps_def opened_def not_less split: if_splits)
qed

lemma lookup_maps_held:
  assumes "lookup_maps S is fd s = (fd', s')"
  shows "fd' = (if lookup_kept S is s = [] then fd else last (lookup_kept S is s)) \<and> (\<forall>d\<in>set (lookup_kept S is s). 0 \<le> d) \<and>
    distinct (lookup_kept S is s) \<and> Fd ` set (lookup_kept S is s) \<inter> hold s = {} \<and> hold s' = Fd ` set (lookup_kept S is s) \<union> hold s"
  using assms
proof (induction "is" arbitrary: fd s)
  case (Cons i "is")
  obtain d s1 where d: "xs_map_fd S i s = (d, s1)" by (cases "xs_map_fd S i s")
  obtain e nm s2 where e: "xs_map_name S d s1 = (e, nm, s2)" by (cases "xs_map_name S d s1")
  note o = map_fd_opened [OF d] map_name_held [OF e]
  consider "d < 0" | "0 \<le> d" "e = 0 \<and> nm = ''xsks_map''" | "0 \<le> d" "\<not> (e = 0 \<and> nm = ''xsks_map'')"
    by linarith
  then show ?case
  proof cases
    case 1
    then have "lookup_maps S is fd s1 = (fd', s')" using Cons.prems d by simp
    then show ?thesis using Cons.IH [of fd s1] 1 d o by (simp add: opened_def)
  next
    case 2
    then have "lookup_maps S is d s2 = (fd', s')" using Cons.prems d e by simp
    then show ?thesis using Cons.IH [of d s2] 2 d e o by (auto simp: opened_def)
  next
    case 3
    then have "lookup_maps S is fd (xs_close S d s2) = (fd', s')" using Cons.prems d e by (auto split: if_splits)
    then show ?thesis using Cons.IH [of fd "xs_close S d s2"] 3 d e o by (auto simp: opened_def)
  qed
qed simp

lemma lookup_held:
  assumes "xsk_lookup_bpf_maps S xsk s = (e, xsk', s')"
  shows "if e \<noteq> 0 then (\<exists>m. xsk' = xsk\<lparr>sk_xsks_map_fd := m\<rparr>) \<and> hold s' = hold s \<and> lookup_lost S xsk s = []
    else \<exists>m. 0 \<le> m \<and> xsk' = xsk\<lparr>sk_xsks_map_fd := m\<rparr> \<and> Fd ` set (lookup_lost S xsk s) \<inter> hold s = {} \<and>
      Fd m \<notin> Fd ` set (lookup_lost S xsk s) \<union> hold s \<and> hold s' = insert (Fd m) (Fd ` set (lookup_lost S xsk s) \<union> hold s)"
proof -
  obtain e1 n1 i1 s1 where a: "xs_prog_info S (sk_prog_fd xsk) 0 s = (e1, n1, i1, s1)" by (cases "xs_prog_info S (sk_prog_fd xsk) 0 s")
  obtain b s2 where b: "xs_calloc S s1 = (b, s2)" by (cases "xs_calloc S s1")
  obtain e2 n2 i2 s3 where c: "xs_prog_info S (sk_prog_fd xsk) n1 s2 = (e2, n2, i2, s3)" by (cases "xs_prog_info S (sk_prog_fd xsk) n1 s2")
  let ?k = "lookup_kept S (take (unat n2) i2) s3"
  obtain m s4 where d: "lookup_maps S (take (unat n2) i2) (- 1) s3 = (m, s4)" by (cases "lookup_maps S (take (unat n2) i2) (- 1) s3")
  note h = prog_info_held [OF a] calloc_held [OF b] prog_info_held [OF c] lookup_maps_held [OF d]
  have u: "xsk\<lparr>sk_xsks_map_fd := sk_xsks_map_fd xsk\<rparr> = xsk" by simp
  have l: "lookup_lost S xsk s = (if e1 \<noteq> 0 \<or> \<not> b \<or> e2 \<noteq> 0 then [] else butlast ?k)"
    by (simp only: lookup_lost_def Let_def a b c prod.case)
  consider (early) "e1 \<noteq> 0 \<or> \<not> b \<or> e2 \<noteq> 0" | (none) "e1 = 0" b "e2 = 0" "?k = []" | (some) "e1 = 0" b "e2 = 0" "?k \<noteq> []" by blast
  then show ?thesis
  proof cases
    case early
    then have "e \<noteq> 0" "xsk' = xsk" "hold s' = hold s"
      using assms a b c h by (auto simp: xsk_lookup_bpf_maps_def ENOMEM_def split: if_splits)
    then show ?thesis using u l early by (simp only: if_True simp_thms) metis
  next
    case none
    then show ?thesis using assms a b c d h l by (auto simp: xsk_lookup_bpf_maps_def ENOENT_def)
  next
    case some
    have k: "butlast ?k @ [last ?k] = ?k" using some(4) by simp
    have "distinct (butlast ?k @ [last ?k])" unfolding k using h(4) by blast
    moreover have "set ?k = set (butlast ?k @ [last ?k])" by (simp only: k)
    ultimately have k1: "set ?k = insert (last ?k) (set (butlast ?k))" "last ?k \<notin> set (butlast ?k)" by auto
    have m: "m = last ?k" "0 \<le> m" "hold s4 = insert (Fd m) (Fd ` set (butlast ?k) \<union> hold s)" "Fd m \<notin> Fd ` set (butlast ?k) \<union> hold s"
        "Fd ` set (butlast ?k) \<inter> hold s = {}"
      using h k1 some(4) by auto
    have "(e, xsk', s') = (0, xsk\<lparr>sk_xsks_map_fd := m\<rparr>, s4)" using assms a b c d some m(2) by (simp add: xsk_lookup_bpf_maps_def)
    then show ?thesis using m(2-5) l some by (simp, intro exI [of _ m]) simp_all
  qed
qed

lemma same_socketI [intro]:
  "same_socket xsk xsk" "same_socket xsk (xsk\<lparr>sk_prog_fd := p\<rparr>)" "same_socket xsk (xsk\<lparr>sk_xsks_map_fd := m\<rparr>)"
  "same_socket xsk (xsk\<lparr>sk_prog_fd := p, sk_xsks_map_fd := m\<rparr>)"
proof -
  show "same_socket xsk xsk" unfolding same_socket_def by (rule exI [of _ "sk_prog_fd xsk"], rule exI [of _ "sk_xsks_map_fd xsk"]) simp
  show "same_socket xsk (xsk\<lparr>sk_prog_fd := p\<rparr>)" unfolding same_socket_def by (rule exI [of _ p], rule exI [of _ "sk_xsks_map_fd xsk"]) simp
  show "same_socket xsk (xsk\<lparr>sk_xsks_map_fd := m\<rparr>)" unfolding same_socket_def by (rule exI [of _ "sk_prog_fd xsk"], rule exI [of _ m]) simp
  show "same_socket xsk (xsk\<lparr>sk_prog_fd := p, sk_xsks_map_fd := m\<rparr>)" unfolding same_socket_def by blast
qed

lemma new_prog_held:
  assumes "prepare_prog S 0 xsk s = (r, xsk', s')"
  shows "same_socket xsk xsk' \<and> (case r of Inl e \<Rightarrow> e \<noteq> 0 \<and> hold s' = hold s | Inr _ \<Rightarrow> with_prog hold {} xsk xsk' s s')"
proof -
  obtain e1 x1 s1 where a: "xsk_create_bpf_maps S xsk s = (e1, x1, s1)" by (cases "xsk_create_bpf_maps S xsk s")
  obtain e2 x2 s2 where b: "xsk_load_xdp_prog S x1 s1 = (e2, x2, s2)" by (cases "xsk_load_xdp_prog S x1 s1")
  note h = create_maps_held [OF a] load_prog_held [OF b]
  consider "e1 \<noteq> 0" | "e1 = 0" "e2 \<noteq> 0" | "e1 = 0" "e2 = 0" by blast
  then show ?thesis
  proof cases
    case 1
    then show ?thesis using assms a h by (auto simp: prepare_prog_def)
  next
    case 2
    then obtain m where "x1 = xsk\<lparr>sk_xsks_map_fd := m\<rparr>" "x2 = x1" "Fd m \<notin> hold s" "hold s2 = insert (Fd m) (hold s)" using h by auto
    then show ?thesis using 2 assms a b by (auto simp: prepare_prog_def)
  next
    case 3
    then obtain m p where x: "x1 = xsk\<lparr>sk_xsks_map_fd := m\<rparr>" "x2 = x1\<lparr>sk_prog_fd := p\<rparr>" "0 \<le> m" "0 \<le> p" "Fd m \<notin> hold s"
        "Fd p \<notin> hold s1" "hold s1 = insert (Fd m) (hold s)" "hold s2 = insert (Fd p) (hold s1)"
      using h by auto
    have "with_prog hold {} xsk x2 s s2"
      unfolding with_prog_def using x by (intro exI [of _ p] exI [of _ m]) auto
    moreover from this have "same_socket xsk x2" by (auto simp: with_prog_def same_socket_def)
    ultimately show ?thesis using 3 assms a b by (auto simp: prepare_prog_def)
  qed
qed

lemma attached_prog_held:
  assumes "prepare_prog S pid xsk s = (r, xsk', s')" "pid \<noteq> 0"
  shows "same_socket xsk xsk' \<and> Fd ` set (prepare_lost S pid xsk s) \<inter> hold s = {} \<and>
    (case r of Inl e \<Rightarrow> e \<noteq> 0 \<and> hold s' = hold s \<and> prepare_lost S pid xsk s = []
     | Inr _ \<Rightarrow> with_prog hold (Fd ` set (prepare_lost S pid xsk s)) xsk xsk' s s')"
proof -
  obtain p s1 where a: "xs_prog_fd S pid s = (p, s1)" by (cases "xs_prog_fd S pid s")
  let ?x = "xsk\<lparr>sk_prog_fd := p\<rparr>"
  obtain e2 x2 s2 where b: "xsk_lookup_bpf_maps S ?x s1 = (e2, x2, s2)" by (cases "xsk_lookup_bpf_maps S ?x s1")
  note h = prog_fd_opened [OF a] lookup_held [OF b]
  have l: "prepare_lost S pid xsk s = (if p < 0 then [] else lookup_lost S ?x s1)" using assms(2) a by (simp add: prepare_lost_def)
  consider "p < 0" | "0 \<le> p" "e2 \<noteq> 0" | "0 \<le> p" "e2 = 0" by linarith
  then show ?thesis
  proof cases
    case 1
    then show ?thesis using assms a h l prog_fd_errno [OF a] by (auto simp: prepare_prog_def opened_def)
  next
    case 2
    then obtain m where x: "x2 = ?x\<lparr>sk_xsks_map_fd := m\<rparr>" "hold s2 = hold s1" "lookup_lost S ?x s1 = []" using h by auto
    then have "(r, xsk', s') = (Inl e2, x2, xs_close S p s2)" using 2 assms a b by (simp add: prepare_prog_def)
    then show ?thesis using 2 x h l by (auto simp: opened_def)
  next
    case 3
    let ?L = "Fd ` set (lookup_lost S ?x s1)"
    obtain m where x: "x2 = ?x\<lparr>sk_xsks_map_fd := m\<rparr>" "0 \<le> m" "?L \<inter> hold s1 = {}" "Fd m \<notin> ?L \<union> hold s1" "hold s2 = insert (Fd m) (?L \<union> hold s1)"
      using h(2) 3 by auto
    have p: "Fd p \<notin> hold s" "hold s1 = insert (Fd p) (hold s)" using h(1) 3 by (simp_all add: opened_def)
    have "with_prog hold ?L xsk x2 s s2"
      unfolding with_prog_def by (intro exI [of _ p] exI [of _ m]) (use x p 3(1) in auto)
    moreover have "?L \<inter> hold s = {}" "prepare_lost S pid xsk s = lookup_lost S ?x s1" using x(3) p(2) l 3 by auto
    moreover have "(r, xsk', s') = (Inr (), x2, s2)" using 3 assms a b by (simp add: prepare_prog_def)
    ultimately show ?thesis using x(1) by (auto simp: same_socket_def)
  qed
qed

lemma prepare_held:
  assumes "prepare_prog S pid xsk s = (r, xsk', s')"
  shows "same_socket xsk xsk' \<and> Fd ` set (prepare_lost S pid xsk s) \<inter> hold s = {} \<and>
    (case r of Inl e \<Rightarrow> e \<noteq> 0 \<and> hold s' = hold s \<and> prepare_lost S pid xsk s = []
     | Inr _ \<Rightarrow> with_prog hold (Fd ` set (prepare_lost S pid xsk s)) xsk xsk' s s')"
proof (cases "pid = 0")
  case True
  then have "prepare_lost S pid xsk s = []" by (simp add: prepare_lost_def split: prod.split)
  then show ?thesis using new_prog_held [of xsk s r xsk' s'] assms True by (cases r) simp_all
next
  case False
  then show ?thesis using attached_prog_held [OF assms] by simp
qed

lemma setup_held:
  assumes "xsk_setup_xdp_prog S xsk s = (e, xsk', s')"
  shows "same_socket xsk xsk' \<and> Fd ` set (setup_lost S xsk s) \<inter> hold s = {} \<and>
    (if e \<noteq> 0 then hold s' = Fd ` set (setup_lost S xsk s) \<union> hold s else with_prog hold (Fd ` set (setup_lost S xsk s)) xsk xsk' s s')"
proof -
  let ?fl = "sc_xdp_flags (sk_config xsk)"
  obtain e1 pid s1 where a: "xs_get_link_id S (sk_ifindex xsk) ?fl s = (e1, pid, s1)" by (cases "xs_get_link_id S (sk_ifindex xsk) ?fl s")
  obtain r x2 s2 where b: "prepare_prog S pid xsk s1 = (r, x2, s2)" by (cases "prepare_prog S pid xsk s1")
  obtain e3 s3 where c: "(if sk_rx x2 \<noteq> None then xsk_set_bpf_maps S x2 s2 else (0, s2)) = (e3, s3)"
    by (cases "if sk_rx x2 \<noteq> None then xsk_set_bpf_maps S x2 s2 else (0, s2)")
  have h1: "hold s1 = hold s" by (rule get_link_held [OF a])
  let ?L = "Fd ` set (prepare_lost S pid xsk s1)"
  have h2: "same_socket xsk x2" "?L \<inter> hold s1 = {}"
      "case r of Inl e \<Rightarrow> e \<noteq> 0 \<and> hold s2 = hold s1 \<and> prepare_lost S pid xsk s1 = [] | Inr _ \<Rightarrow> with_prog hold ?L xsk x2 s1 s2"
    using prepare_held [OF b] by blast+
  have l: "setup_lost S xsk s = (if e1 \<noteq> 0 then [] else prepare_lost S pid xsk s1)" using a by (simp add: setup_lost_def)
  have h3: "hold s3 = hold s2" using c map_update_held by (auto simp: xsk_set_bpf_maps_def split: if_splits)
  consider (link) "e1 \<noteq> 0" | (prep) e' where "e1 = 0" "r = Inl e'" | (upd) "e1 = 0" "r = Inr ()" "e3 \<noteq> 0" | (ok) "e1 = 0" "r = Inr ()" "e3 = 0"
    by (cases r) auto
  then show ?thesis
  proof cases
    case link
    then show ?thesis using assms a h1 l by (auto simp: xsk_setup_xdp_prog_def)
  next
    case prep
    then show ?thesis using assms a b h1 h2 l by (auto simp: xsk_setup_xdp_prog_def)
  next
    case upd
    then have "(e, xsk', s') = (e3, x2, xs_close S (sk_prog_fd x2) (xsk_delete_bpf_maps S x2 s3))"
      using assms a b c by (auto simp: xsk_setup_xdp_prog_def)
    moreover have "hold (xs_close S (sk_prog_fd x2) (xsk_delete_bpf_maps S x2 s3)) = ?L \<union> hold s1"
      using h2(3) h3 upd(2) by (auto simp: with_prog_def)
    ultimately show ?thesis using upd h1 h2(1,2) l by simp
  next
    case ok
    then have "(e, xsk', s') = (0, x2, s3)" using assms a b c by (simp add: xsk_setup_xdp_prog_def)
    then show ?thesis using ok h1 h2 h3 l by (simp add: with_prog_def)
  qed
qed

end

section \<open>Sockets\<close>

text \<open>
  What a socket adds to the handles: the mappings of its rings, its program and its map, and its descriptor when that is
  not the one of the memory.
\<close>

definition rx_handles :: "mmap_offsets \<Rightarrow> xsk_socket \<Rightarrow> handle set" where
  "rx_handles off xsk = (case sk_rx xsk of None \<Rightarrow> {} | Some r \<Rightarrow> {Mapping (rp_desc r - uint (ro_desc (mo_rx off))) (rx_len off (sk_config xsk))})"

definition tx_handles :: "mmap_offsets \<Rightarrow> xsk_socket \<Rightarrow> handle set" where
  "tx_handles off xsk = (case sk_tx xsk of None \<Rightarrow> {} | Some r \<Rightarrow> {Mapping (rp_desc r - uint (ro_desc (mo_tx off))) (tx_len off (sk_config xsk))})"

definition prog_handles :: "xsk_socket \<Rightarrow> handle set" where
  "prog_handles xsk = (if sk_prog_fd xsk = - 1 then {} else {Fd (sk_prog_fd xsk), Fd (sk_xsks_map_fd xsk)})"

definition umem_handles :: "mmap_offsets \<Rightarrow> xsk_umem \<Rightarrow> handle list" where
  "umem_handles off u =
     [Fd (um_fd u), Mapping (rp_desc (um_fill u) - uint (ro_desc (mo_fr off))) (fill_len off (um_config u)),
      Mapping (rp_desc (um_comp u) - uint (ro_desc (mo_cr off))) (comp_len off (um_config u))]"

definition umem_over :: "mmap_offsets \<Rightarrow> handle set \<Rightarrow> xsk_umem \<Rightarrow> handle set \<Rightarrow> bool" where
  "umem_over off H u K \<longleftrightarrow> distinct (umem_handles off u) \<and> set (umem_handles off u) \<inter> H = {} \<and> K = set (umem_handles off u) \<union> H"

text \<open>The rings of a socket over the handles \<open>H\<close>, and the whole socket.\<close>

definition rings_over :: "mmap_offsets \<Rightarrow> handle set \<Rightarrow> xsk_socket \<Rightarrow> handle set \<Rightarrow> bool" where
  "rings_over off H xsk K \<longleftrightarrow> K = tx_handles off xsk \<union> (rx_handles off xsk \<union> H) \<and> rx_handles off xsk \<inter> H = {} \<and>
     tx_handles off xsk \<inter> (rx_handles off xsk \<union> H) = {}"

definition socket_over :: "mmap_offsets \<Rightarrow> handle set \<Rightarrow> xsk_socket \<Rightarrow> handle set \<Rightarrow> bool" where
  "socket_over off H xsk K \<longleftrightarrow> (\<exists>R. rings_over off H xsk R \<and> K = prog_handles xsk \<union> R \<and> prog_handles xsk \<inter> R = {})"

lemma same_socket_rings:
  assumes "same_socket xsk xsk'"
  shows "sk_rx xsk' = sk_rx xsk" "sk_tx xsk' = sk_tx xsk" "sk_fd xsk' = sk_fd xsk" "sk_config xsk' = sk_config xsk"
    "rx_handles off xsk' = rx_handles off xsk" "tx_handles off xsk' = tx_handles off xsk" "rings_over off H xsk' R \<longleftrightarrow> rings_over off H xsk R"
proof -
  show s: "sk_rx xsk' = sk_rx xsk" "sk_tx xsk' = sk_tx xsk" "sk_fd xsk' = sk_fd xsk" "sk_config xsk' = sk_config xsk"
    using assms by (auto simp: same_socket_def)
  show r: "rx_handles off xsk' = rx_handles off xsk" "tx_handles off xsk' = tx_handles off xsk"
    by (simp_all add: rx_handles_def tx_handles_def s split: option.split)
  show "rings_over off H xsk' R \<longleftrightarrow> rings_over off H xsk R" by (simp add: rings_over_def r)
qed

text \<open>Descriptors that are opened besides do not touch the rings.\<close>

lemma rings_over_more:
  assumes "rings_over off H xsk K"
  shows "rings_over off (Fd ` L \<union> H) xsk (Fd ` L \<union> K)"
proof -
  have "rx_handles off xsk \<inter> Fd ` L = {}" "tx_handles off xsk \<inter> Fd ` L = {}"
    by (auto simp: rx_handles_def tx_handles_def split: option.splits)
  then show ?thesis using assms unfolding rings_over_def by blast
qed

context xsk_kernel
begin

lemma out_socket_held:
  assumes "out_socket S xsk umem s = (umem', s')"
  shows "umem' = umem\<lparr>um_refcount := um_refcount umem - 1\<rparr> \<and> hold s' = hold s - (if um_refcount umem = 1 then {} else {Fd (sk_fd xsk)})"
  using assms by (auto simp: out_socket_def Let_def)

lemma out_mmap_rx_held:
  assumes "out_mmap_rx S off a (sk_rx xsk \<noteq> None) xsk umem s = (umem', s')" "hold s = rx_handles off xsk \<union> H" "rx_handles off xsk \<inter> H = {}"
    and "\<And>r. sk_rx xsk = Some r \<Longrightarrow> a = rp_desc r - uint (ro_desc (mo_rx off))"
  shows "umem' = umem\<lparr>um_refcount := um_refcount umem - 1\<rparr> \<and> hold s' = H - (if um_refcount umem = 1 then {} else {Fd (sk_fd xsk)})"
proof -
  let ?s = "if sk_rx xsk \<noteq> None then xs_munmap S a (rx_len off (sk_config xsk)) s else s"
  have "hold ?s = H" using assms(2-4) by (cases "sk_rx xsk") (auto simp: rx_handles_def)
  then show ?thesis using out_socket_held [of xsk umem ?s] assms(1) by (simp add: out_mmap_rx_def)
qed

lemma out_mmap_tx_held:
  assumes "out_mmap_tx S off b a (sk_tx xsk \<noteq> None) (sk_rx xsk \<noteq> None) xsk umem s = (umem', s')"
    and "rings_over off H xsk (hold s)"
    and "\<And>r. sk_rx xsk = Some r \<Longrightarrow> a = rp_desc r - uint (ro_desc (mo_rx off))"
    and "\<And>r. sk_tx xsk = Some r \<Longrightarrow> b = rp_desc r - uint (ro_desc (mo_tx off))"
  shows "umem' = umem\<lparr>um_refcount := um_refcount umem - 1\<rparr> \<and> hold s' = H - (if um_refcount umem = 1 then {} else {Fd (sk_fd xsk)})"
proof -
  let ?s = "if sk_tx xsk \<noteq> None then xs_munmap S b (tx_len off (sk_config xsk)) s else s"
  have e: "hold ?s = rx_handles off xsk \<union> H"
    using assms(2,4) by (cases "sk_tx xsk") (auto simp: tx_handles_def rings_over_def)
  have d: "rx_handles off xsk \<inter> H = {}" using assms(2) by (simp add: rings_over_def)
  show ?thesis by (rule out_mmap_rx_held [OF _ e d assms(3)]) (use assms(1) in \<open>simp_all add: out_mmap_tx_def\<close>)
qed

lemma bind_socket_held:
  assumes "bind_socket S off b a xsk umem s = (r, umem', s')" "rings_over off H xsk (hold s)"
    and a: "\<And>r. sk_rx xsk = Some r \<Longrightarrow> a = rp_desc r - uint (ro_desc (mo_rx off))"
    and b: "\<And>r. sk_tx xsk = Some r \<Longrightarrow> b = rp_desc r - uint (ro_desc (mo_tx off))"
  shows "Fd ` set (bind_lost S xsk umem s) \<inter> hold s = {} \<and> (case r of
      Inl e \<Rightarrow> umem' = umem\<lparr>um_refcount := um_refcount umem - 1\<rparr> \<and>
        hold s' = (Fd ` set (bind_lost S xsk umem s) \<union> H) - (if um_refcount umem = 1 then {} else {Fd (sk_fd xsk)})
    | Inr xsk' \<Rightarrow> umem' = umem \<and> sk_fd xsk' = sk_fd xsk \<and> socket_over off (Fd ` set (bind_lost S xsk umem s) \<union> H) xsk' (hold s'))"
proof -
  define out where "out = (\<lambda>xsk. out_mmap_tx S off b a (sk_tx xsk \<noteq> None) (sk_rx xsk \<noteq> None) xsk umem)"
  have err: "umem1 = umem\<lparr>um_refcount := um_refcount umem - 1\<rparr> \<and> hold s1' = (Fd ` L \<union> H) - (if um_refcount umem = 1 then {} else {Fd (sk_fd xsk)})"
    if "out x s1 = (umem1, s1')" "same_socket xsk x" "hold s1 = Fd ` L \<union> hold s" for x s1 umem1 s1' L
    using out_mmap_tx_held [OF that(1) [unfolded out_def], of "Fd ` L \<union> H"] rings_over_more [OF assms(2), of L] a b same_socket_rings [OF that(2)] that(3) by simp
  let ?x = "xsk\<lparr>sk_prog_fd := - 1\<rparr>"
  obtain e1 s1 where e1: "xs_bind S (sk_fd xsk) (bind_addr xsk umem) s = (e1, s1)" by (cases "xs_bind S (sk_fd xsk) (bind_addr xsk umem) s")
  obtain e2 x2 s2 where e2: "xsk_setup_xdp_prog S ?x s1 = (e2, x2, s2)" by (cases "xsk_setup_xdp_prog S ?x s1")
  have h1: "hold s1 = hold s" by (rule bind_held [OF e1])
  have x: "same_socket xsk ?x" by blast
  note h2 = setup_held [OF e2]
  let ?L = "set (setup_lost S ?x s1)"
  have l: "bind_lost S xsk umem s = (if e1 \<noteq> 0 \<or> inhibited ?x then [] else setup_lost S ?x s1)" by (simp add: bind_lost_def e1 Let_def)
  have x2: "same_socket xsk x2" using x h2 by (auto simp: same_socket_def)
  have eq: "(r, umem', s') = (if e1 \<noteq> 0 then (Inl (- xs_errno S s1), out xsk s1) else if inhibited ?x then (Inr ?x, umem, s1)
      else if e2 \<noteq> 0 then (Inl e2, out x2 s2) else (Inr x2, umem, s2))"
    using assms(1) e1 e2 unfolding bind_socket_def Let_def out_def
    by (cases "e1 = 0"; cases "inhibited ?x"; cases "e2 = 0") simp_all
  consider (bind) "e1 \<noteq> 0" | (inh) "e1 = 0" "inhibited ?x" | (prog) "e1 = 0" "\<not> inhibited ?x" "e2 \<noteq> 0" | (ok) "e1 = 0" "\<not> inhibited ?x" "e2 = 0"
    by blast
  then show ?thesis
  proof cases
    case bind
    then show ?thesis using eq err [OF _ same_socketI(1), of s1 umem' s' "{}"] h1 l by simp
  next
    case inh
    have "socket_over off H ?x (hold s1)"
      using assms(2) h1 same_socket_rings(7) [OF x] by (auto simp: socket_over_def prog_handles_def)
    then show ?thesis using inh eq l by simp
  next
    case prog
    then show ?thesis using eq err [OF _ x2, of s2 umem' s' ?L] h1 h2 l by simp
  next
    case ok
    then have w: "with_prog hold (Fd ` ?L) ?x x2 s1 s2" using h2 by simp
    have "rings_over off (Fd ` ?L \<union> H) x2 (Fd ` ?L \<union> hold s1)"
      using rings_over_more [OF assms(2), of ?L] h1 same_socket_rings(7) [OF x2] by simp
    moreover have "hold s2 = prog_handles x2 \<union> (Fd ` ?L \<union> hold s1)" "prog_handles x2 \<inter> (Fd ` ?L \<union> hold s1) = {}"
      using w by (auto simp: with_prog_def prog_handles_def)
    ultimately have "socket_over off (Fd ` ?L \<union> H) x2 (hold s2)" unfolding socket_over_def by blast
    then show ?thesis using ok eq same_socket_rings(3) [OF x2] h1 h2 l by simp
  qed
qed

lemma place_ring_desc [simp]:
  "rp_desc (place_ring a off sz r) = a + uint (ro_desc off)" "rp_desc (set_cached_cons n r) = rp_desc r"
  by (simp_all add: place_ring_def set_cached_cons_def)

lemma map_rings_held:
  assumes "map_rings S off rx tx xsk umem s = (r, umem', s')" "sk_rx xsk = None" "sk_tx xsk = None"
  shows "Fd ` set (rings_lost S off (rx \<noteq> None) (tx \<noteq> None) xsk umem s) \<inter> hold s = {} \<and> (case r of
      Inl e \<Rightarrow> umem' = umem\<lparr>um_refcount := um_refcount umem - 1\<rparr> \<and>
        hold s' = (Fd ` set (rings_lost S off (rx \<noteq> None) (tx \<noteq> None) xsk umem s) \<union> hold s) - (if um_refcount umem = 1 then {} else {Fd (sk_fd xsk)})
    | Inr xsk' \<Rightarrow> umem' = umem \<and> sk_fd xsk' = sk_fd xsk \<and>
        socket_over off (Fd ` set (rings_lost S off (rx \<noteq> None) (tx \<noteq> None) xsk umem s) \<union> hold s) xsk' (hold s'))"
proof -
  let ?c = "sk_config xsk"
  let ?mrx = "if rx \<noteq> None then xs_mmap S (rx_len off ?c) (sk_fd xsk) XDP_PGOFF_RX_RING s else (0, s)"
  obtain a s1 where a: "?mrx = (a, s1)" by (cases ?mrx)
  let ?x1 = "xsk\<lparr>sk_rx := map_option (place_ring a (mo_rx off) (sc_rx_size ?c)) rx\<rparr>"
  have f: "sk_fd ?x1 = sk_fd xsk" by simp
  let ?mtx = "if tx \<noteq> None then xs_mmap S (tx_len off ?c) (sk_fd xsk) XDP_PGOFF_TX_RING s1 else (0, s1)"
  obtain b s2 where b: "?mtx = (b, s2)" by (cases ?mtx)
  let ?x2 = "?x1\<lparr>sk_tx := map_option (\<lambda>r. set_cached_cons (sc_tx_size ?c) (place_ring b (mo_tx off) (sc_tx_size ?c) r)) tx\<rparr>"
  have eq: "(r, umem', s') = (if rx \<noteq> None \<and> a = MAP_FAILED then (Inl (- xs_errno S s1), out_socket S xsk umem s1)
      else if tx \<noteq> None \<and> b = MAP_FAILED then (Inl (- xs_errno S s2), out_mmap_rx S off a (rx \<noteq> None) ?x1 umem s2)
      else bind_socket S off b a ?x2 umem s2)"
    unfolding assms(1) [symmetric] by (simp only: map_rings_def Let_def a f b prod.case)
  have h1: "if rx \<noteq> None \<and> a = MAP_FAILED then hold s1 = hold s else hold s1 = rx_handles off ?x1 \<union> hold s \<and> rx_handles off ?x1 \<inter> hold s = {}"
    using a mmap_mapped [of "rx_len off ?c" "sk_fd xsk" XDP_PGOFF_RX_RING s a s1] by (cases rx) (auto simp: rx_handles_def)
  have h2: "if tx \<noteq> None \<and> b = MAP_FAILED then hold s2 = hold s1 else hold s2 = tx_handles off ?x2 \<union> hold s1 \<and> tx_handles off ?x2 \<inter> hold s1 = {}"
    using b mmap_mapped [of "tx_len off ?c" "sk_fd xsk" XDP_PGOFF_TX_RING s1 b s2] by (cases tx) (auto simp: tx_handles_def)
  have l: "rings_lost S off (rx \<noteq> None) (tx \<noteq> None) xsk umem s =
      (if (rx \<noteq> None) \<and> a = MAP_FAILED \<or> (tx \<noteq> None) \<and> b = MAP_FAILED then [] else bind_lost S xsk umem s2)"
    by (simp only: rings_lost_def Let_def a b prod.case)
  have lb: "bind_lost S ?x2 umem s2 = bind_lost S xsk umem s2"
    by (rule bind_lost_same) simp_all
  have rx2: "rx_handles off ?x2 = rx_handles off ?x1" by (cases rx) (simp_all add: rx_handles_def)
  consider (rxf) "rx \<noteq> None \<and> a = MAP_FAILED" | (txf) "\<not> (rx \<noteq> None \<and> a = MAP_FAILED)" "tx \<noteq> None \<and> b = MAP_FAILED"
    | (bind) "\<not> (rx \<noteq> None \<and> a = MAP_FAILED)" "\<not> (tx \<noteq> None \<and> b = MAP_FAILED)" by blast
  then show ?thesis
  proof cases
    case rxf
    then show ?thesis using eq [unfolded if_P [OF rxf]] h1 l out_socket_held [of xsk umem s1 umem' s'] by simp
  next
    case txf
    have ra: "\<And>r. sk_rx ?x1 = Some r \<Longrightarrow> a = rp_desc r - uint (ro_desc (mo_rx off))" by auto
    have "out_mmap_rx S off a (sk_rx ?x1 \<noteq> None) ?x1 umem s2 = (umem', s')" "r = Inl (- xs_errno S s2)" using eq [unfolded if_not_P [OF txf(1)] if_P [OF txf(2)]] by simp_all
    then show ?thesis using out_mmap_rx_held [of off a ?x1 umem s2 umem' s' "hold s", OF _ _ _ ra] h1 h2 l txf by simp
  next
    case bind
    then have "rings_over off (hold s) ?x2 (hold s2)" using h1 h2 rx2 by (auto simp: rings_over_def)
    moreover have "\<And>r. sk_rx ?x2 = Some r \<Longrightarrow> a = rp_desc r - uint (ro_desc (mo_rx off))"
      "\<And>r. sk_tx ?x2 = Some r \<Longrightarrow> b = rp_desc r - uint (ro_desc (mo_tx off))" by auto
    moreover have "bind_socket S off b a ?x2 umem s2 = (r, umem', s')"
      using eq [unfolded if_not_P [OF bind(1)] if_not_P [OF bind(2)]] by simp
    ultimately have "Fd ` set (bind_lost S ?x2 umem s2) \<inter> hold s2 = {} \<and> (case r of
        Inl e \<Rightarrow> umem' = umem\<lparr>um_refcount := um_refcount umem - 1\<rparr> \<and>
          hold s' = (Fd ` set (bind_lost S ?x2 umem s2) \<union> hold s) - (if um_refcount umem = 1 then {} else {Fd (sk_fd ?x2)})
      | Inr xsk' \<Rightarrow> umem' = umem \<and> sk_fd xsk' = sk_fd ?x2 \<and> socket_over off (Fd ` set (bind_lost S ?x2 umem s2) \<union> hold s) xsk' (hold s'))"
      by (intro bind_socket_held)
    moreover have "hold s \<subseteq> hold s2" using h1 h2 bind by (auto simp only: if_False if_not_P)
    moreover have "rings_lost S off (rx \<noteq> None) (tx \<noteq> None) xsk umem s = bind_lost S ?x2 umem s2" using l lb bind by (simp only: if_False simp_thms)
    ultimately show ?thesis by (cases r) auto
  qed
qed

lemma open_socket_held:
  assumes "open_socket S ifname queue_id rx tx cfg fd umem s = (r, umem', s')"
  shows "Fd ` set (open_lost S ifname queue_id (rx \<noteq> None) (tx \<noteq> None) cfg fd umem s) \<inter> hold s = {} \<and> (case r of
      Inl e \<Rightarrow> umem' = umem\<lparr>um_refcount := um_refcount umem - 1\<rparr> \<and>
        hold s' = (Fd ` set (open_lost S ifname queue_id (rx \<noteq> None) (tx \<noteq> None) cfg fd umem s) \<union> hold s) - (if um_refcount umem = 1 then {} else {Fd fd})
    | Inr xsk \<Rightarrow> umem' = umem \<and> sk_fd xsk = fd \<and> (\<exists>off sa sb. xsk_get_mmap_offsets S fd sa = (0, off, sb) \<and>
        socket_over off (Fd ` set (open_lost S ifname queue_id (rx \<noteq> None) (tx \<noteq> None) cfg fd umem s) \<union> hold s) xsk (hold s')))"
proof -
  obtain ix s1 where a: "xs_nametoindex S ifname s = (ix, s1)" by (cases "xs_nametoindex S ifname s")
  let ?x = "\<lparr>sk_rx = None, sk_tx = None, sk_config = cfg, sk_fd = fd, sk_ifindex = ix, sk_prog_fd = 0, sk_xsks_map_fd = 0,
                 sk_queue_id = queue_id, sk_ifname = take (IFNAMSIZ - 1) ifname\<rparr>"
  let ?o = "(if rx \<noteq> None then [XDP_RX_RING (sc_rx_size cfg)] else []) @ (if tx \<noteq> None then [XDP_TX_RING (sc_tx_size cfg)] else [])"
  obtain f s2 where b: "setsockopts S fd ?o s1 = (f, s2)" by (cases "setsockopts S fd ?o s1")
  obtain e off s3 where c: "xsk_get_mmap_offsets S fd s2 = (e, off, s3)" by (cases "xsk_get_mmap_offsets S fd s2")
  have h: "hold s1 = hold s" "hold s2 = hold s" "hold s3 = hold s"
    using nametoindex_held [OF a] setsockopts_held [OF b] offsets_held [OF c] by simp_all
  have eq: "(r, umem', s') = (if ix = 0 then (Inl (- xs_errno S s1), out_socket S ?x umem s1)
      else if f \<noteq> None then (Inl (the f), out_socket S ?x umem s2)
      else if e \<noteq> 0 then (Inl (- xs_errno S s3), out_socket S ?x umem s3) else map_rings S off rx tx ?x umem s3)"
    unfolding assms [symmetric] by (simp only: open_socket_def Let_def a b c prod.case)
  let ?l = "open_lost S ifname queue_id (rx \<noteq> None) (tx \<noteq> None) cfg fd umem s"
  have l: "?l = (if ix = 0 \<or> f \<noteq> None \<or> e \<noteq> 0 then [] else rings_lost S off (rx \<noteq> None) (tx \<noteq> None) ?x umem s3)"
    by (simp only: open_lost_def Let_def a b c prod.case)
  have out: "r = Inl z \<Longrightarrow> out_socket S ?x umem s0 = (umem', s') \<Longrightarrow> hold s0 = hold s \<Longrightarrow> ?l = [] \<Longrightarrow> ?thesis" for z s0
    using out_socket_held [of ?x umem s0 umem' s'] by simp
  consider (ix) "ix = 0" | (opt) "ix \<noteq> 0" "f \<noteq> None" | (offs) "ix \<noteq> 0" "f = None" "e \<noteq> 0" | (ok) "ix \<noteq> 0" "f = None" "e = 0" by blast
  then show ?thesis
  proof cases
    case ok
    have l: "?l = rings_lost S off (rx \<noteq> None) (tx \<noteq> None) ?x umem s3" using l ok by (simp only: if_False simp_thms)
    have "Fd ` set ?l \<inter> hold s3 = {} \<and> (case r of
        Inl e \<Rightarrow> umem' = umem\<lparr>um_refcount := um_refcount umem - 1\<rparr> \<and> hold s' = (Fd ` set ?l \<union> hold s3) - (if um_refcount umem = 1 then {} else {Fd (sk_fd ?x)})
      | Inr xsk' \<Rightarrow> umem' = umem \<and> sk_fd xsk' = sk_fd ?x \<and> socket_over off (Fd ` set ?l \<union> hold s3) xsk' (hold s'))"
      unfolding l by (rule map_rings_held) (use eq ok in simp_all)
    then show ?thesis using c h ok by (cases r) auto
  next
    case ix
    show ?thesis by (rule out [of "- xs_errno S s1" s1]) (use eq ix h l in simp_all)
  next
    case opt
    show ?thesis by (rule out [of "the f" s2]) (use eq opt h l in simp_all)
  next
    case offs
    show ?thesis by (rule out [of "- xs_errno S s3" s3]) (use eq offs h l in simp_all)
  qed
qed

text \<open>The ways through \<open>xsk_socket__create\<close>: an early return, a socket that cannot be opened, and a socket that is set up.\<close>

lemma socket_create_cases:
  assumes "xsk_socket_create S ptr_ok ifname queue_id umem rx tx usr_config s = (r, umem', s')" "0 \<le> um_refcount umem"
    and b: "xs_calloc S s = (b, s1)" and fd: "xs_socket S s1 = (fd, s2)"
  obtains (early) e where "(r, umem', s') = (Inl e, umem, s)" "create_lost S ptr_ok ifname queue_id umem rx tx usr_config s = []"
    | (early1) e where "(r, umem', s') = (Inl e, umem, s1)" "create_lost S ptr_ok ifname queue_id umem rx tx usr_config s = []"
    | (nosock) "0 < um_refcount umem" "fd < 0" "(r, umem', s') = (Inl (- xs_errno S s2), umem\<lparr>um_refcount := um_refcount umem + 1\<rparr>, s2)"
        "create_lost S ptr_ok ifname queue_id umem rx tx usr_config s = []"
    | (shared) cfg where "0 < um_refcount umem" "0 \<le> fd" "open_socket S ifname queue_id rx tx cfg fd (umem\<lparr>um_refcount := um_refcount umem + 1\<rparr>) s2 = (r, umem', s')"
        "create_lost S ptr_ok ifname queue_id umem rx tx usr_config s = []" "sc_libbpf_flags cfg AND XSK_LIBBPF_FLAGS__INHIBIT_PROG_LOAD \<noteq> 0"
    | (first) cfg where "um_refcount umem = 0" "open_socket S ifname queue_id rx tx cfg (um_fd umem) (umem\<lparr>um_refcount := um_refcount umem + 1\<rparr>) s1 = (r, umem', s')"
        "create_lost S ptr_ok ifname queue_id umem rx tx usr_config s =
           open_lost S ifname queue_id (rx \<noteq> None) (tx \<noteq> None) cfg (um_fd umem) (umem\<lparr>um_refcount := um_refcount umem + 1\<rparr>) s1"
proof (cases "\<not> ptr_ok \<or> rx = None \<and> tx = None")
  case True
  have "(r, umem', s') = (Inl (- EFAULT), umem, s)" by (unfold assms(1) [symmetric] xsk_socket_create_def if_P [OF True], rule refl)
  moreover have "create_lost S ptr_ok ifname queue_id umem rx tx usr_config s = []" using True b by (auto simp: create_lost_def split: sum.split)
  ultimately show ?thesis by (rule early)
next
  case valid: False
  note d = assms(1) [symmetric, unfolded xsk_socket_create_def if_not_P [OF valid] Let_def b prod.case fd]
  note l = create_lost_def [of S ptr_ok ifname queue_id umem rx tx usr_config s, unfolded Let_def b prod.case]
  show ?thesis
  proof (cases "b \<and> (\<exists>cfg. xsk_set_xdp_socket_config usr_config = Inr cfg)")
    case True
    then obtain cfg where c: "xsk_set_xdp_socket_config usr_config = Inr cfg" by blast
    note d = d [unfolded c sum.case]
    note l = l [unfolded c sum.case]
    consider "um_refcount umem \<noteq> 0 \<and> sc_libbpf_flags cfg AND XSK_LIBBPF_FLAGS__INHIBIT_PROG_LOAD = 0" | "um_refcount umem = 0"
      | "0 < um_refcount umem" "\<not> (um_refcount umem \<noteq> 0 \<and> sc_libbpf_flags cfg AND XSK_LIBBPF_FLAGS__INHIBIT_PROG_LOAD = 0)"
      using assms(2) by linarith
    then show ?thesis
    proof cases
      case 1
      show ?thesis by (rule early1 [of "- EBUSY"]) (use d l True 1 in simp_all)
    next
      case 2
      have v: "\<not> (\<not> ptr_ok \<or> rx = None \<and> tx = None \<or> \<not> b \<or> um_refcount umem \<noteq> 0)" using valid True 2 by blast
      show ?thesis by (rule first [of cfg, OF 2 _ l [unfolded if_not_P [OF v]]]) (use d True 2 in simp)
    next
      case 3
      show ?thesis by (cases "fd < 0", rule nosock, use d l True 3 in simp_all, rule shared [of cfg], simp_all)
    qed
  next
    case False
    show ?thesis
    proof (cases b)
      case True
      then obtain e where "xsk_set_xdp_socket_config usr_config = Inl e" using False by (cases "xsk_set_xdp_socket_config usr_config") auto
      then show ?thesis using d l True by (intro early1 [of e]) simp_all
    qed (use d l in \<open>intro early1 [of "- ENOMEM"], simp_all split: sum.split\<close>)
  qed
qed

text \<open>
  The whole of \<open>xsk_socket__create\<close>.  A socket that is not the first on its memory has a descriptor of its own; when
  that one cannot be opened, the count of the memory stays incremented.
\<close>

lemma socket_create_held:
  assumes "xsk_socket_create S ptr_ok ifname queue_id umem rx tx usr_config s = (r, umem', s')" "0 \<le> um_refcount umem"
  shows "Fd ` set (create_lost S ptr_ok ifname queue_id umem rx tx usr_config s) \<inter> hold s = {} \<and> (case r of
      Inl e \<Rightarrow> hold s' = Fd ` set (create_lost S ptr_ok ifname queue_id umem rx tx usr_config s) \<union> hold s \<and>
        (umem' = umem \<or> 0 < um_refcount umem \<and> umem' = umem\<lparr>um_refcount := um_refcount umem + 1\<rparr> \<and>
          fst (xs_socket S (snd (xs_calloc S s))) < 0 \<and> s' = snd (xs_socket S (snd (xs_calloc S s))) \<and> e = - xs_errno S s')
    | Inr xsk \<Rightarrow> umem' = umem\<lparr>um_refcount := um_refcount umem + 1\<rparr> \<and>
        (\<exists>off sa sb H. xsk_get_mmap_offsets S (sk_fd xsk) sa = (0, off, sb) \<and>
          socket_over off (Fd ` set (create_lost S ptr_ok ifname queue_id umem rx tx usr_config s) \<union> H) xsk (hold s') \<and>
          (if um_refcount umem = 0 then sk_fd xsk = um_fd umem \<and> H = hold s
           else Fd (sk_fd xsk) \<notin> hold s \<and> H = insert (Fd (sk_fd xsk)) (hold s))))"
proof -
  let ?u = "umem\<lparr>um_refcount := um_refcount umem + 1\<rparr>"
  obtain b s1 where b: "xs_calloc S s = (b, s1)" by (cases "xs_calloc S s")
  obtain fd s2 where fd: "xs_socket S s1 = (fd, s2)" by (cases "xs_socket S s1")
  have h1: "hold s1 = hold s" by (rule calloc_held [OF b])
  show ?thesis
  proof (rule socket_create_cases [OF assms b fd], goal_cases early early1 nosock shared first)
    case nosock
    then have "hold s2 = hold s" using socket_opened [OF fd] h1 by (simp add: opened_def)
    then show ?thesis using nosock fd b by auto
  next
    case (shared cfg)
    have o: "Fd fd \<notin> hold s" "hold s2 = insert (Fd fd) (hold s)" using socket_opened [OF fd] h1 shared(2) by (simp_all add: opened_def)
    have "case r of
        Inl e \<Rightarrow> umem' = ?u\<lparr>um_refcount := um_refcount ?u - 1\<rparr> \<and> hold s' = hold s2 - (if um_refcount ?u = 1 then {} else {Fd fd})
      | Inr xsk \<Rightarrow> umem' = ?u \<and> sk_fd xsk = fd \<and> (\<exists>off sa sb. xsk_get_mmap_offsets S fd sa = (0, off, sb) \<and> socket_over off (hold s2) xsk (hold s'))"
      using open_socket_held [OF shared(3)] unfolding open_lost_inhibited [OF shared(5)] by (simp only: list.set image_empty Un_empty_left simp_thms)
    then show ?thesis using shared(1,4) o by (cases r) auto
  next
    case (first cfg)
    have l: "create_lost S ptr_ok ifname queue_id umem rx tx usr_config s =
        open_lost S ifname queue_id (rx \<noteq> None) (tx \<noteq> None) cfg (um_fd umem) ?u s1" using first(3) .
    have o: "Fd ` set (create_lost S ptr_ok ifname queue_id umem rx tx usr_config s) \<inter> hold s1 = {} \<and> (case r of
        Inl e \<Rightarrow> umem' = ?u\<lparr>um_refcount := um_refcount ?u - 1\<rparr> \<and> hold s' = (Fd ` set (create_lost S ptr_ok ifname queue_id umem rx tx usr_config s) \<union> hold s1) -
          (if um_refcount ?u = 1 then {} else {Fd (um_fd umem)})
      | Inr xsk \<Rightarrow> umem' = ?u \<and> sk_fd xsk = um_fd umem \<and> (\<exists>off sa sb. xsk_get_mmap_offsets S (um_fd umem) sa = (0, off, sb) \<and>
          socket_over off (Fd ` set (create_lost S ptr_ok ifname queue_id umem rx tx usr_config s) \<union> hold s1) xsk (hold s')))"
      unfolding l by (rule open_socket_held [OF first(2)])
    show ?thesis using o first(1) h1 by (cases r) auto
  qed (use h1 in simp_all)
qed

lemma socket_delete_held:
  assumes "xsk_socket_delete S xsk umem s = (umem', s')" "socket_over off H xsk (hold s)"
    and "\<And>s. \<exists>s'. xsk_get_mmap_offsets S (sk_fd xsk) s = (0, off, s')"
  shows "umem' = umem\<lparr>um_refcount := um_refcount umem - 1\<rparr> \<and> hold s' = H - (if sk_fd xsk = um_fd umem then {} else {Fd (sk_fd xsk)})"
proof -
  let ?s1 = "if sk_prog_fd xsk \<noteq> - 1 then xs_close S (sk_prog_fd xsk) (xsk_delete_bpf_maps S xsk s) else s"
  obtain s2 where b: "xsk_get_mmap_offsets S (sk_fd xsk) ?s1 = (0, off, s2)" using assms(3) by blast
  let ?s3 = "case sk_rx xsk of None \<Rightarrow> s2 | Some r \<Rightarrow> xs_munmap S (rp_desc r - uint (ro_desc (mo_rx off))) (rx_len off (sk_config xsk)) s2"
  let ?s4 = "case sk_tx xsk of None \<Rightarrow> ?s3 | Some r \<Rightarrow> xs_munmap S (rp_desc r - uint (ro_desc (mo_tx off))) (tx_len off (sk_config xsk)) ?s3"
  obtain R where R: "rings_over off H xsk R" "hold s = prog_handles xsk \<union> R" "prog_handles xsk \<inter> R = {}"
    using assms(2) unfolding socket_over_def by blast
  have "hold ?s1 = hold s - prog_handles xsk" by (auto simp: prog_handles_def)
  then have "hold s2 = R" using R(2,3) offsets_held [OF b] by auto
  then have h2: "rings_over off H xsk (hold s2)" using R(1) by simp
  have h3: "hold ?s3 = hold s2 - rx_handles off xsk" by (simp add: rx_handles_def split: option.split)
  have "hold ?s4 = hold ?s3 - tx_handles off xsk" by (simp add: tx_handles_def split: option.split)
  then have h4: "hold ?s4 = H" unfolding h3 using h2 by (auto simp: rings_over_def)
  have uf: "um_fd (umem\<lparr>um_refcount := um_refcount umem - 1\<rparr>) = um_fd umem" by simp
  have "(umem', s') = (umem\<lparr>um_refcount := um_refcount umem - 1\<rparr>, if sk_fd xsk \<noteq> um_fd umem then xs_close S (sk_fd xsk) ?s4 else ?s4)"
    unfolding assms(1) [symmetric] xsk_socket_delete_def Let_def b prod.case uf by (simp only: simp_thms if_True)
  then show ?thesis using h4 by simp
qed

section \<open>Memory\<close>

lemma umem_create_cases:
  assumes "xsk_umem_create S ptr_ok area sz fill cmp usr_config s = (r, s')"
    and a: "xs_calloc S s = (m, s1)" and b: "xs_socket S s1 = (fd, s2)"
    and c: "setsockopts S fd (umem_opts (xsk_set_umem_config usr_config) area sz) s2 = (f, s3)"
    and d: "xsk_get_mmap_offsets S fd s3 = (e, off, s4)"
    and g: "xs_mmap S (fill_len off (xsk_set_umem_config usr_config)) fd XDP_UMEM_PGOFF_FILL_RING s4 = (fa, s5)"
    and k: "xs_mmap S (comp_len off (xsk_set_umem_config usr_config)) fd XDP_UMEM_PGOFF_COMPLETION_RING s5 = (ca, s6)"
  obtains (null) e' where "\<not> umem_args_ok S ptr_ok area sz fill cmp" "(r, s') = (Inl e', s)" | (nomem) e' where "\<not> m" "(r, s') = (Inl e', s1)"
    | (nosock) e' where "fd < 0" "(r, s') = (Inl e', s2)"
    | (opt) e' where "0 \<le> fd" "f \<noteq> None" "(r, s') = (Inl e', xs_close S fd s3)" | (offs) e' where "0 \<le> fd" "e \<noteq> 0" "(r, s') = (Inl e', xs_close S fd s4)"
    | (fillf) e' where "0 \<le> fd" "fa = MAP_FAILED" "(r, s') = (Inl e', xs_close S fd s5)"
    | (compf) e' where "umem_args_ok S ptr_ok area sz fill cmp" m "0 \<le> fd" "f = None" "e = 0" "fa \<noteq> MAP_FAILED" "ca = MAP_FAILED" "(r, s') = (Inl e', xs_close S fd (xs_munmap S ca (fill_len off (xsk_set_umem_config usr_config)) s6))"
    | (ok) u where "0 \<le> fd" "e = 0" "fa \<noteq> MAP_FAILED" "ca \<noteq> MAP_FAILED" "(r, s') = (Inr u, s6)" "um_fd u = fd" "um_refcount u = 0"
        "um_config u = (xsk_set_umem_config usr_config)" "rp_desc (um_fill u) = fa + uint (ro_desc (mo_fr off))" "rp_desc (um_comp u) = ca + uint (ro_desc (mo_cr off))"
proof (cases "umem_args_ok S ptr_ok area sz fill cmp")
  case False
  then have "\<exists>e'. (r, s') = (Inl e', s)"
    unfolding assms(1) [symmetric] xsk_umem_create_def umem_args_ok_def by (cases fill; cases cmp) auto
  then show ?thesis using null False by blast
next
  case True
  then obtain fi co where v: "fill = Some fi" "cmp = Some co" "\<not> (area = 0 \<or> \<not> ptr_ok)" "\<not> (sz = 0 \<and> \<not> xsk_page_aligned (xs_pagesize S) area)"
    by (auto simp: umem_args_ok_def)
  note c = c [unfolded umem_opts_def]
  note D = assms(1) [symmetric, unfolded xsk_umem_create_def v(1,2) prod.case option.case if_not_P [OF v(3)] if_not_P [OF v(4)] Let_def a b c d g k]
  consider "\<not> m" | "m" "fd < 0" | m "\<not> fd < 0" "f \<noteq> None" | m "\<not> fd < 0" "\<not> f \<noteq> None" "e \<noteq> 0" | m "\<not> fd < 0" "\<not> f \<noteq> None" "\<not> e \<noteq> 0" "fa = MAP_FAILED"
    | m "\<not> fd < 0" "\<not> f \<noteq> None" "\<not> e \<noteq> 0" "fa \<noteq> MAP_FAILED" "ca = MAP_FAILED" | m "\<not> fd < 0" "\<not> f \<noteq> None" "\<not> e \<noteq> 0" "fa \<noteq> MAP_FAILED" "ca \<noteq> MAP_FAILED"
    by blast
  then show ?thesis
  proof cases
    case 1
    then show ?thesis using D by (intro nomem) simp_all
  next
    case 2
    then show ?thesis using D by (intro nosock) simp_all
  next
    case 3
    then show ?thesis using D by (intro opt) simp_all
  next
    case 4
    then show ?thesis using D by (intro offs) simp_all
  next
    case 5
    then show ?thesis using D by (intro fillf) simp_all
  next
    case 6
    then show ?thesis using D True by (intro compf) simp_all
  next
    case 7
    let ?c = "xsk_set_umem_config usr_config"
    show ?thesis
      by (rule ok [of "\<lparr>um_fill = set_cached_cons (uc_fill_size ?c) (place_ring fa (mo_fr off) (uc_fill_size ?c) fi),
            um_comp = place_ring ca (mo_cr off) (uc_comp_size ?c) co, um_area = area, um_config = ?c, um_fd = fd, um_refcount = 0\<rparr>"])
        (use 7 D in simp_all)
  qed
qed

lemma umem_create_held:
  assumes "xsk_umem_create S ptr_ok area sz fill cmp usr_config s = (r, s')" "\<And>n. Mapping MAP_FAILED n \<notin> hold s"
  shows "case r of
      Inl e \<Rightarrow> hold s' = umem_lost S ptr_ok area sz fill cmp usr_config s \<union> hold s \<and> umem_lost S ptr_ok area sz fill cmp usr_config s \<inter> hold s = {}
    | Inr u \<Rightarrow> um_refcount u = 0 \<and> (\<exists>off sa sb. xsk_get_mmap_offsets S (um_fd u) sa = (0, off, sb) \<and> umem_over off (hold s) u (hold s'))"
proof -
  let ?cfg = "xsk_set_umem_config usr_config"
  obtain m s1 where a: "xs_calloc S s = (m, s1)" by (cases "xs_calloc S s")
  obtain fd s2 where b: "xs_socket S s1 = (fd, s2)" by (cases "xs_socket S s1")
  let ?o = "umem_opts ?cfg area sz"
  obtain f s3 where c: "setsockopts S fd ?o s2 = (f, s3)" by (cases "setsockopts S fd ?o s2")
  obtain e off s4 where d: "xsk_get_mmap_offsets S fd s3 = (e, off, s4)" by (cases "xsk_get_mmap_offsets S fd s3")
  obtain fa s5 where g: "xs_mmap S (fill_len off ?cfg) fd XDP_UMEM_PGOFF_FILL_RING s4 = (fa, s5)"
    by (cases "xs_mmap S (fill_len off ?cfg) fd XDP_UMEM_PGOFF_FILL_RING s4")
  obtain ca s6 where k: "xs_mmap S (comp_len off ?cfg) fd XDP_UMEM_PGOFF_COMPLETION_RING s5 = (ca, s6)"
    by (cases "xs_mmap S (comp_len off ?cfg) fd XDP_UMEM_PGOFF_COMPLETION_RING s5")
  have h1: "hold s1 = hold s" by (rule calloc_held [OF a])
  have h2: "if fd < 0 then hold s2 = hold s else Fd fd \<notin> hold s \<and> hold s2 = insert (Fd fd) (hold s)"
    using socket_opened [OF b] h1 by (auto simp: opened_def)
  have h4: "hold s3 = hold s2" "hold s4 = hold s2" using setsockopts_held [OF c] offsets_held [OF d] by simp_all
  note h5 = mmap_mapped [OF g] mmap_mapped [OF k]
  have l: "umem_lost S ptr_ok area sz fill cmp usr_config s =
      (if umem_args_ok S ptr_ok area sz fill cmp \<and> m \<and> 0 \<le> fd \<and> f = None \<and> e = 0 \<and> fa \<noteq> MAP_FAILED \<and> ca = MAP_FAILED
       then {Mapping fa (fill_len off ?cfg)} else {})"
    by (simp only: umem_lost_def Let_def a b c d g k prod.case)
  show ?thesis
  proof (rule umem_create_cases [OF assms(1) a b c d g k], goal_cases null nomem nosock opt offs fillf compf ok)
    case compf
    have "hold s' = insert (Mapping fa (fill_len off ?cfg)) (hold s)" "Mapping fa (fill_len off ?cfg) \<notin> hold s"
      using compf h2 h4 h5 assms(2) by auto
    moreover have "umem_lost S ptr_ok area sz fill cmp usr_config s = {Mapping fa (fill_len off ?cfg)}" using l compf by simp
    ultimately show ?thesis using compf by auto
  next
    case (ok u)
    have "umem_over off (hold s) u (hold s6)" using ok h2 h4 h5 by (auto simp: umem_over_def umem_handles_def)
    then show ?thesis using ok d by auto
  qed (use h1 h2 h4 h5 l in auto)
qed

lemma umem_delete_held:
  assumes "xsk_umem_delete S (Some u) s = (ret, s')" "umem_over off H u (hold s)" "um_refcount u = 0"
    and "\<And>s. \<exists>s'. xsk_get_mmap_offsets S (um_fd u) s = (0, off, s')"
  shows "ret = 0 \<and> hold s' = H"
proof -
  obtain s1 where a: "xsk_get_mmap_offsets S (um_fd u) s = (0, off, s1)" using assms(4) by blast
  have "(ret, s') = (0, xs_close S (um_fd u) (xs_munmap S (rp_desc (um_comp u) - uint (ro_desc (mo_cr off))) (comp_len off (um_config u))
      (xs_munmap S (rp_desc (um_fill u) - uint (ro_desc (mo_fr off))) (fill_len off (um_config u)) s1)))"
    using assms(1,3) a by (simp add: xsk_umem_delete_def)
  then show ?thesis using assms(2) offsets_held [OF a] by (auto simp: umem_over_def umem_handles_def)
qed

lemma offsets_const:
  assumes "\<forall>fd s. \<exists>s'. xs_getsockopt S fd s = (0, 128, ws, s')"
  shows "\<exists>s'. xsk_get_mmap_offsets S fd s = (0, offsets_of ws, s')" "xsk_get_mmap_offsets S fd s = (0, off, s') \<Longrightarrow> off = offsets_of ws"
  using assms [rule_format, of fd s] by (auto simp: xsk_get_mmap_offsets_def)

lemma socket_restored:
  assumes "xsk_socket_create S ptr_ok ifname queue_id umem rx tx usr_config s = (Inr xsk, umem1, s1)" "hold s2 = hold s1"
    and "xsk_socket_delete S xsk umem1 s2 = (umem2, s3)" "0 \<le> um_refcount umem" "Fd (um_fd umem) \<in> hold s"
    and "\<forall>fd s. \<exists>s'. xs_getsockopt S fd s = (0, 128, ws, s')"
  shows "umem2 = umem \<and> hold s3 = Fd ` set (create_lost S ptr_ok ifname queue_id umem rx tx usr_config s) \<union> hold s"
proof -
  let ?L = "Fd ` set (create_lost S ptr_ok ifname queue_id umem rx tx usr_config s)"
  let ?H = "?L \<union> (if um_refcount umem = 0 then hold s else insert (Fd (sk_fd xsk)) (hold s))"
  have c: "umem1 = umem\<lparr>um_refcount := um_refcount umem + 1\<rparr>" "socket_over (offsets_of ws) ?H xsk (hold s2)"
      "if um_refcount umem = 0 then sk_fd xsk = um_fd umem else Fd (sk_fd xsk) \<notin> hold s"
    using socket_create_held [OF assms(1,4)] offsets_const(2) [OF assms(6)] assms(2) by (auto split: if_splits)
  have "umem2 = umem1\<lparr>um_refcount := um_refcount umem1 - 1\<rparr> \<and> hold s3 = ?H - (if sk_fd xsk = um_fd umem1 then {} else {Fd (sk_fd xsk)})"
    by (rule socket_delete_held [OF assms(3) c(2) offsets_const(1) [OF assms(6)]])
  then show ?thesis using c(1,3) assms(5) create_lost_shared [of umem S ptr_ok ifname queue_id rx tx usr_config s] by (auto split: if_splits)
qed

end

text \<open>
  A system of descriptors and mappings: the lowest number that is above all in use is the next one, and there are 1024.
  The interface \<open>eth0\<close> has no program; the one attached to \<open>eth1\<close> has two maps named \<open>xsks_map\<close>.
\<close>

fun fd_no :: "handle \<Rightarrow> int" where
  "fd_no (Fd n) = n"
| "fd_no (Mapping a n) = a"

definition next_no :: "handle list \<Rightarrow> int" where
  "next_no hs = 1 + foldr (\<lambda>h. max (fd_no h)) hs 2"

definition open_no :: "handle list \<Rightarrow> int \<times> handle list" where
  "open_no hs = (if next_no hs \<ge> 1024 then (- 1, hs) else (next_no hs, Fd (next_no hs) # hs))"

definition mmap_no :: "u64 \<Rightarrow> handle list \<Rightarrow> int \<times> handle list" where
  "mmap_no n hs = (if next_no hs \<ge> 1024 then (MAP_FAILED, hs) else (next_no hs, Mapping (next_no hs) n # hs))"

lemma next_no_fresh: "h \<in> set hs \<Longrightarrow> fd_no h < next_no hs" and next_no_pos: "0 < next_no hs"
  by (induction hs) (auto simp: next_no_def)

lemma next_no_new: "Fd (next_no hs) \<notin> set hs" "Mapping (next_no hs) n \<notin> set hs"
  using next_no_fresh [of "Fd (next_no hs)" hs] next_no_fresh [of "Mapping (next_no hs) n" hs] by auto

lemma open_no_opened: "open_no hs = (fd, hs') \<Longrightarrow> opened set fd hs hs'"
  using next_no_pos [of hs] by (auto simp: open_no_def opened_def next_no_new split: if_splits)

definition sample_xsk_sys :: "handle list xsk_sys" where
  "sample_xsk_sys =
     \<lparr>xs_errno = (\<lambda>_. 24), xs_calloc = Pair True, xs_pagesize = 4096, xs_socket = open_no, xs_socket_inet = open_no,
      xs_setsockopt = (\<lambda>_ _. Pair 0), xs_getsockopt = (\<lambda>_ s. (0, 128, replicate 16 64, s)), xs_mmap = (\<lambda>n _ _. mmap_no n),
      xs_munmap = (\<lambda>a n. filter (\<lambda>h. h \<noteq> Mapping a n)), xs_close = (\<lambda>fd. filter (\<lambda>h. h \<noteq> Fd fd)), xs_bind = (\<lambda>_ _. Pair 0),
      xs_nametoindex = (\<lambda>nm. Pair (if nm = ''eth0'' then 2 else if nm = ''eth1'' then 3 else 0)), xs_channels = (\<lambda>_ _ s. (0, 4, s)), xs_get_link_id = (\<lambda>i _ s. (0, if i = 3 then 5 else 0, s)),
      xs_set_link = (\<lambda>_ _ _. Pair 0), xs_load_program = (\<lambda>_. open_no), xs_create_map = (\<lambda>_. open_no), xs_map_delete = (\<lambda>_ _ s. s),
      xs_map_update = (\<lambda>_ _ _. Pair 0), xs_prog_fd = (\<lambda>_. open_no), xs_prog_info = (\<lambda>_ n s. (0, 2, if n = 0 then [] else [7, 8], s)),
      xs_map_fd = (\<lambda>i s. if i = 7 \<or> i = 8 then open_no s else (- 1, s)), xs_map_name = (\<lambda>_ s. (0, ''xsks_map'', s))\<rparr>"

lemma sample_lost:
  assumes "ifname \<noteq> ''eth1''"
  shows "create_lost sample_xsk_sys ptr_ok ifname queue_id umem rx tx cfg s = []"
proof -
  have ix: "fst (xs_nametoindex sample_xsk_sys ifname s') \<noteq> 3" for s' using assms by (simp add: sample_xsk_sys_def)
  have "bind_lost sample_xsk_sys xsk u s1 = []" if "sk_ifindex xsk \<noteq> 3" for xsk u s1
    using that by (simp add: bind_lost_def setup_lost_def prepare_lost_def Let_def sample_xsk_sys_def split: prod.split)
  then have "open_lost sample_xsk_sys ifname queue_id r t c fd u s1 = []" for r t c fd u s1
    by (intro open_lost_none) (metis ix)
  then show ?thesis by (simp add: create_lost_def split: prod.split sum.split)
qed

lemma next_no_ok: "next_no hs \<noteq> MAP_FAILED"
  using next_no_pos [of hs] by (simp add: MAP_FAILED_def)

interpretation sample_xsk: xsk_kernel sample_xsk_sys set
  by unfold_locales
    (auto simp: sample_xsk_sys_def opened_def [of set "- 1"] open_no_opened mmap_no_def next_no_new next_no_ok split: if_splits)

section \<open>Results\<close>

text \<open>
  C35: An error of \<open>xsk_socket__create\<close>, wherever it occurs, closes and unmaps all that the call has opened and mapped, except the
  descriptors that its lookup of the maps of an attached program has lost (\<^const>\<open>create_lost\<close>: all but the last map named
  \<open>xsks_map\<close>; none for a program with one such map, for an interface without a program, for a configuration that inhibits the
  program and for a socket that shares its memory).  The memory has its reference count as before, unless the error is that
  the descriptor of a further socket could not be opened: then the count stays incremented.
\<close>

theorem socket_create_error:
  assumes "xsk_kernel S hold"
    and "xsk_socket_create S ptr_ok ifname queue_id umem rx tx usr_config s = (Inl e, umem', s')" "0 \<le> um_refcount umem"
  shows "hold s' = Fd ` set (create_lost S ptr_ok ifname queue_id umem rx tx usr_config s) \<union> hold s \<and>
    Fd ` set (create_lost S ptr_ok ifname queue_id umem rx tx usr_config s) \<inter> hold s = {} \<and>
    (umem' = umem \<or> 0 < um_refcount umem \<and> umem' = umem\<lparr>um_refcount := um_refcount umem + 1\<rparr> \<and>
       fst (xs_socket S (snd (xs_calloc S s))) < 0 \<and> s' = snd (xs_socket S (snd (xs_calloc S s))) \<and> e = - xs_errno S s')"
  using xsk_kernel.socket_create_held [OF assms] by simp

definition sample_ring :: ring_ptrs where
  "sample_ring = \<lparr>rp_ring = \<lparr>cached_prod = 0, cached_cons = 0, ring_mask = 0, ring_size = 0\<rparr>, rp_producer = 0, rp_consumer = 0, rp_flags = 0, rp_desc = 0\<rparr>"

definition sample_umem :: xsk_umem where
  "sample_umem = \<lparr>um_fill = sample_ring, um_comp = sample_ring, um_area = 4096, um_config = xsk_set_umem_config None, um_fd = 3, um_refcount = 0\<rparr>"

lemmas sample_xsk_run = xsk_socket_create_def open_socket_def map_rings_def bind_socket_def out_socket_def xsk_set_xdp_socket_config_def sample_xsk_sys_def
  xsk_get_mmap_offsets_def

theorem socket_create_error_witness:
  "\<exists>e u s'. xsk_socket_create sample_xsk_sys True ''lo'' 0 sample_umem (Some sample_ring) None None [Fd 3] = (Inl e, u, s') \<and> set s' = {Fd 3} \<and> u = sample_umem"
proof -
  let ?r = "xsk_socket_create sample_xsk_sys True ''lo'' 0 sample_umem (Some sample_ring) None None [Fd 3]"
  have r: "?r = (Inl (- 24), fst (snd ?r), snd (snd ?r))"
    by (simp add: sample_xsk_run sample_umem_def Let_def)
  have z: "um_refcount sample_umem = 0" by (simp add: sample_umem_def)
  have h: "set (snd (snd ?r)) = set [Fd 3] \<and> fst (snd ?r) = sample_umem"
    using socket_create_error [OF sample_xsk.xsk_kernel_axioms r] unfolding z
    by (simp add: sample_lost)
  show ?thesis by (intro exI conjI, rule r) (use h in simp_all)
qed

text \<open>
  C36: An error of \<open>xsk_umem__create\<close> leaves the descriptors and the mappings as they were, except when the call fails because its second
  \<open>mmap\<close>, that of the completion ring, fails: then the mapping that its first \<open>mmap\<close> has made, the fill ring's, stays
  (\<^const>\<open>umem_lost\<close>).
\<close>

theorem umem_create_error:
  assumes "xsk_kernel S hold" "xsk_umem_create S ptr_ok area sz fill cmp usr_config s = (Inl e, s')" "\<And>n. Mapping MAP_FAILED n \<notin> hold s"
  shows "hold s' = umem_lost S ptr_ok area sz fill cmp usr_config s \<union> hold s \<and> umem_lost S ptr_ok area sz fill cmp usr_config s \<inter> hold s = {}"
  using xsk_kernel.umem_create_held [OF assms] by simp

theorem umem_create_error_witness:
  "\<exists>e s'. xsk_umem_create sample_xsk_sys True 4096 8192 (Some sample_ring) (Some sample_ring) None [Fd 1021] = (Inl e, s') \<and>
     set s' = {Mapping 1023 16448, Fd 1021}"
proof -
  let ?r = "xsk_umem_create sample_xsk_sys True 4096 8192 (Some sample_ring) (Some sample_ring) None [Fd 1021]"
  have r: "?r = (Inl (- 24), snd ?r)"
    by (simp add: xsk_umem_create_def sample_xsk_sys_def xsk_get_mmap_offsets_def open_no_def mmap_no_def next_no_def MAP_FAILED_def)
  have l: "umem_lost sample_xsk_sys True 4096 8192 (Some sample_ring) (Some sample_ring) None [Fd 1021] = {Mapping 1023 16448}"
    by (simp add: umem_lost_def umem_args_ok_def umem_opts_def sample_xsk_sys_def xsk_get_mmap_offsets_def open_no_def mmap_no_def next_no_def MAP_FAILED_def
        fill_len_def offsets_of_def ring_offset_at_def xsk_set_umem_config_def XSK_RING_PROD__DEFAULT_NUM_DESCS_def)
  have "set (snd ?r) = {Mapping 1023 16448, Fd 1021}"
    using umem_create_error [OF sample_xsk.xsk_kernel_axioms r] l by auto
  then show ?thesis using r by blast
qed

text \<open>
  C34: The life of an AF_XDP socket: registering the memory, opening the first socket on it, deleting the socket and deleting the memory
  gives back every descriptor and every mapping except those that the lookup of the maps of an already attached program has lost
  (\<^const>\<open>create_lost\<close>), and the deletion of the memory is not refused.  Assumed: the kernel always gives the same offsets of
  the rings, in the present layout.
\<close>

theorem af_xdp_lifecycle:
  assumes "xsk_kernel S hold" "\<forall>fd s. \<exists>s'. xs_getsockopt S fd s = (0, 128, ws, s')" "\<And>n. Mapping MAP_FAILED n \<notin> hold s"
    and "xsk_umem_create S True area sz fill cmp umem_cfg s = (Inr umem, s1)"
    and "xsk_socket_create S True ifname queue_id umem rx tx cfg s1 = (Inr xsk, umem1, s2)"
    and "xsk_socket_delete S xsk umem1 s3 = (umem2, s4)" "hold s3 = hold s2"
    and "xsk_umem_delete S (Some umem2) s4 = (ret, s5)"
  shows "ret = 0 \<and> hold s5 = Fd ` set (create_lost S True ifname queue_id umem rx tx cfg s1) \<union> hold s"
proof -
  let ?L = "Fd ` set (create_lost S True ifname queue_id umem rx tx cfg s1)"
  have u: "um_refcount umem = 0" "umem_over (offsets_of ws) (hold s) umem (hold s1)"
    using xsk_kernel.umem_create_held [OF assms(1,4,3)] xsk_kernel.offsets_const(2) [OF assms(1,2)] by auto
  then have f: "Fd (um_fd umem) \<in> hold s1" by (simp add: umem_over_def umem_handles_def)
  have s: "umem2 = umem" "hold s4 = ?L \<union> hold s1"
    using xsk_kernel.socket_restored [OF assms(1,5,7,6) _ f assms(2)] u(1) by simp_all
  have "?L \<inter> hold s1 = {}" using xsk_kernel.socket_create_held [OF assms(1,5)] u(1) by simp
  then have "umem_over (offsets_of ws) (?L \<union> hold s) umem (?L \<union> hold s1)" using u(2) by (auto simp: umem_over_def)
  then show ?thesis
    by (intro xsk_kernel.umem_delete_held [OF assms(1) assms(8) [unfolded s] _ u(1) xsk_kernel.offsets_const(1) [OF assms(1,2)]]) (simp add: s)
qed

lemma next_no_Cons: "next_no (h # hs) = max (fd_no h + 1) (next_no hs)"
  by (simp add: next_no_def)

theorem af_xdp_lifecycle_witness:
  "\<exists>u s1 xsk u1 s2.
     xsk_umem_create sample_xsk_sys True 4096 8192 (Some sample_ring) (Some sample_ring) None [] = (Inr u, s1) \<and>
     xsk_socket_create sample_xsk_sys True ''eth0'' 0 u (Some sample_ring) (Some sample_ring) None s1 = (Inr xsk, u1, s2) \<and> length s2 = 7 \<and>
     (let (u2, s4) = xsk_socket_delete sample_xsk_sys xsk u1 s2; (ret, s5) = xsk_umem_delete sample_xsk_sys (Some u2) s4 in ret = 0 \<and> s5 = [])"
proof -
  have "\<exists>u s1. xsk_umem_create sample_xsk_sys True 4096 8192 (Some sample_ring) (Some sample_ring) None [] = (Inr u, s1) \<and> length s1 = 3 \<and> next_no s1 = 6 \<and> um_refcount u = 0"
    by (simp add: xsk_umem_create_def sample_xsk_sys_def xsk_get_mmap_offsets_def open_no_def mmap_no_def next_no_def MAP_FAILED_def Let_def)
  then obtain u s1 where u: "xsk_umem_create sample_xsk_sys True 4096 8192 (Some sample_ring) (Some sample_ring) None [] = (Inr u, s1)"
      "length s1 = 3" "next_no s1 = 6" "um_refcount u = 0" by blast
  have "filter (\<lambda>h. h \<noteq> Fd 8) s1 = s1" by (rule filter_True) (use next_no_fresh [of _ s1] u(3) in force)
  then have "\<exists>xsk u1 s2. xsk_socket_create sample_xsk_sys True ''eth0'' 0 u (Some sample_ring) (Some sample_ring) None s1 = (Inr xsk, u1, s2) \<and> length s2 = 7"
    using u(2-4)
    by (simp add: sample_xsk_run Let_def mmap_no_def open_no_def next_no_Cons inhibited_def xsk_setup_xdp_prog_def prepare_prog_def xsk_create_bpf_maps_def
        xsk_get_max_queues_def xsk_load_xdp_prog_def xsk_set_bpf_maps_def MAP_FAILED_def)
  then obtain xsk u1 s2 where x: "xsk_socket_create sample_xsk_sys True ''eth0'' 0 u (Some sample_ring) (Some sample_ring) None s1 = (Inr xsk, u1, s2)"
      "length s2 = 7" by blast
  obtain u2 s4 where d: "xsk_socket_delete sample_xsk_sys xsk u1 s2 = (u2, s4)" by (cases "xsk_socket_delete sample_xsk_sys xsk u1 s2")
  obtain ret s5 where m: "xsk_umem_delete sample_xsk_sys (Some u2) s4 = (ret, s5)" by (cases "xsk_umem_delete sample_xsk_sys (Some u2) s4")
  have g: "\<forall>fd s. \<exists>s'. xs_getsockopt sample_xsk_sys fd s = (0, 128, replicate 16 64, s')" by (simp add: sample_xsk_sys_def)
  have "ret = 0 \<and> set s5 = set []"
    using af_xdp_lifecycle [OF sample_xsk.xsk_kernel_axioms g _ u(1) x(1) d refl m] by (simp add: sample_lost)
  then show ?thesis using u(1) x d m by auto
qed

text \<open>
  The lookup of \<^verbatim>\<open>xsk_lookup_bpf_maps\<close> does lose descriptors: on the interface whose program has two maps named \<open>xsks_map\<close>, the
  first of their two descriptors stays open and is in no socket.
\<close>

theorem lookup_loses_descriptor:
  "\<exists>xsk. xsk_setup_xdp_prog sample_xsk_sys xsk [] = (0, xsk\<lparr>sk_prog_fd := 3, sk_xsks_map_fd := 5\<rparr>, [Fd 5, Fd 4, Fd 3]) \<and> setup_lost sample_xsk_sys xsk [] = [4]"
  by (intro exI [of _ "\<lparr>sk_rx = None, sk_tx = None, sk_config = \<lparr>sc_rx_size = 0, sc_tx_size = 0, sc_libbpf_flags = 0, sc_xdp_flags = 0, sc_bind_flags = 0\<rparr>,
        sk_fd = 2, sk_ifindex = 3, sk_prog_fd = 0, sk_xsks_map_fd = 0, sk_queue_id = 0, sk_ifname = ''eth1''\<rparr>"])
    (simp add: xsk_setup_xdp_prog_def prepare_prog_def xsk_lookup_bpf_maps_def setup_lost_def prepare_lost_def lookup_lost_def sample_xsk_sys_def
      open_no_def next_no_def)

end
