(* ===== verification/Perf_Buffer.thy ===== *)
theory Perf_Buffer
  imports Prog_Linfo Xsk_Resources
begin

text \<open>
  Perf buffers of \<open>libbpf/src/libbpf.c\<close>: reading the records that the kernel writes into a ring, the callbacks, polling, and opening
  and freeing the buffers of all CPUs.  The data area is read as it is when the reading begins: the kernel does not touch
  what lies between tail and head.
\<close>

section \<open>Reading records\<close>

text \<open>
  The data area of a perf buffer is a ring of bytes; positions count bytes and are never reduced, as the kernel counts them.  A
  record begins with its type (4 bytes), flags (2) and size (2).  The outcome of reading is the result of the last
  callback, the new tail and the size of the buffer for records that wrap around; \<open>Overread\<close> is a read outside the ring, or
  outside the record by the callback.
\<close>

definition LIBBPF_PERF_EVENT_DONE :: int where "LIBBPF_PERF_EVENT_DONE = 0"
definition LIBBPF_PERF_EVENT_ERROR :: int where "LIBBPF_PERF_EVENT_ERROR = - 1"
definition LIBBPF_PERF_EVENT_CONT :: int where "LIBBPF_PERF_EVENT_CONT = - 2"

datatype fetched = Outside | No_memory | Record packet u64

datatype 's read_result = Overread | Read int u64 u64 's

text \<open>The record at \<open>tail\<close>, copied together when it wraps around.\<close>

definition fetch_record :: "(u64 \<Rightarrow> bool) \<Rightarrow> packet \<Rightarrow> u64 \<Rightarrow> u64 \<Rightarrow> fetched" where
  "fetch_record malloc ring tail copy_size =
     (let pos = unat (tail AND (of_nat (length ring) - 1))
      in if pos + 8 > length ring then Outside
         else
           (let n = unat (load16 ring (pos + 6))
            in if pos + n > length ring then
                 (let len_first = length ring - pos; len_secnd = n - len_first
                  in if len_secnd > length ring then Outside
                     else if copy_size < of_nat n \<and> \<not> malloc (of_nat n) then No_memory
                     else Record (drop pos ring @ take len_secnd ring) (if copy_size < of_nat n then of_nat n else copy_size))
               else Record (take n (drop pos ring)) copy_size))"

partial_function (option) read_records ::
    "(u64 \<Rightarrow> bool) \<Rightarrow> (packet \<Rightarrow> 's \<Rightarrow> (int \<times> 's) option) \<Rightarrow> packet \<Rightarrow> u64 \<Rightarrow> u64 \<Rightarrow> u64 \<Rightarrow> int \<Rightarrow> 's \<Rightarrow> 's read_result option" where
  "read_records malloc fn ring head tail copy_size ret s =
     (if head = tail then Some (Read ret tail copy_size s)
      else
        (case fetch_record malloc ring tail copy_size of
           Outside \<Rightarrow> Some Overread
         | No_memory \<Rightarrow> Some (Read LIBBPF_PERF_EVENT_ERROR tail 0 s)
         | Record ehdr copy_size \<Rightarrow>
             (case fn ehdr s of
                None \<Rightarrow> Some Overread
              | Some (ret, s) \<Rightarrow>
                  if ret \<noteq> LIBBPF_PERF_EVENT_CONT then Some (Read ret (tail + of_nat (length ehdr)) copy_size s)
                  else read_records malloc fn ring head (tail + of_nat (length ehdr)) copy_size ret s)))"

section \<open>A stream of records\<close>

definition record_ok :: "packet \<Rightarrow> bool" where
  "record_ok r \<longleftrightarrow> 8 \<le> length r \<and> 8 dvd length r \<and> length r < 2 ^ 16 \<and> unat (load16 r 6) = length r"

text \<open>The bytes of the ring from a position on, around its end.\<close>

definition ring_holds :: "packet \<Rightarrow> u64 \<Rightarrow> packet \<Rightarrow> bool" where
  "ring_holds ring pos bs \<longleftrightarrow> length bs \<le> length ring \<and> (\<forall>i < length bs. ring ! ((unat pos + i) mod length ring) = bs ! i)"

text \<open>The callback over a list of records: the last result, the bytes consumed and the state.\<close>

fun feed :: "(packet \<Rightarrow> 's \<Rightarrow> (int \<times> 's) option) \<Rightarrow> packet list \<Rightarrow> int \<Rightarrow> 's \<Rightarrow> (int \<times> nat \<times> 's) option" where
  "feed fn [] ret s = Some (ret, 0, s)"
| "feed fn (r # rs) ret s =
     (case fn r s of
        None \<Rightarrow> None
      | Some (ret, s) \<Rightarrow>
          if ret \<noteq> LIBBPF_PERF_EVENT_CONT then Some (ret, length r, s)
          else map_option (\<lambda>(ret, n, s). (ret, length r + n, s)) (feed fn rs ret s))"

lemma mask_ring:
  assumes "length ring = 2 ^ k" "k < 64"
  shows "unat (tail AND (of_nat (length ring) - 1)) = unat (tail :: u64) mod length ring"
proof -
  have "(of_nat (length ring) - 1 :: u64) = mask k" using assms by (simp add: mask_eq_exp_minus_1)
  then have "unat (tail AND (of_nat (length ring) - 1)) = unat (take_bit k tail)" by (simp only: take_bit_eq_mask)
  also have "\<dots> = take_bit k (unat tail)" by (rule unsigned_take_bit_eq)
  finally show ?thesis by (simp add: take_bit_eq_mod assms(1))
qed

lemma ring_holds_split:
  assumes "ring_holds ring pos (a @ b)" "length ring = 2 ^ k" "k < 64"
  shows "ring_holds ring pos a" "ring_holds ring (pos + of_nat (length a)) b"
proof -
  show "ring_holds ring pos a"
    using assms(1) by (auto simp: ring_holds_def nth_append)
  have "(unat (pos + of_nat (length a)) + i) mod length ring = (unat pos + (length a + i)) mod length ring" for i
  proof -
    have d: "length ring dvd 2 ^ 64" unfolding assms(2) by (rule le_imp_power_dvd) (use assms(3) in simp)
    have "unat (pos + of_nat (length a)) = (unat pos + length a) mod 2 ^ 64"
      by (simp add: unat_word_ariths unat_of_nat mod_add_right_eq)
    then have "unat (pos + of_nat (length a)) mod length ring = (unat pos + length a) mod length ring"
      using d by (simp add: mod_mod_cancel)
    then show ?thesis by (metis add.assoc mod_add_left_eq)
  qed
  then show "ring_holds ring (pos + of_nat (length a)) b"
    using assms(1) unfolding ring_holds_def by (auto simp: nth_append)
qed

lemma ring_mod:
  assumes "length ring = 2 ^ k" "3 \<le> k" "k < 64" "8 dvd unat (tail :: u64)"
  shows "unat tail mod length ring + 8 \<le> length ring"
proof -
  let ?p = "unat tail mod length ring"
  have d: "8 dvd length ring" using le_imp_power_dvd [OF assms(2), of "2 :: nat"] assms(1) by simp
  then have "8 dvd ?p" using assms(4) by (simp add: dvd_mod)
  moreover have "?p < length ring" using assms(1) by simp
  ultimately show ?thesis using d by (elim dvdE) (metis Suc_leI mult_Suc_right mult_le_mono2 nat_mult_less_cancel1 add.commute zero_less_numeral)
qed

lemma copied:
  assumes "p < length ring" "length r \<le> length ring" "\<And>i. i < length r \<Longrightarrow> ring ! ((p + i) mod length ring) = r ! i"
  shows "p + length r \<le> length ring \<Longrightarrow> take (length r) (drop p ring) = r"
    "p + length r > length ring \<Longrightarrow> drop p ring @ take (length r - (length ring - p)) ring = r"
proof -
  assume "p + length r \<le> length ring"
  then show "take (length r) (drop p ring) = r" using assms(3) by (intro nth_equalityI) auto
next
  assume "p + length r > length ring"
  then show "drop p ring @ take (length r - (length ring - p)) ring = r"
  proof (intro nth_equalityI)
    fix i
    assume a: "i < length (drop p ring @ take (length r - (length ring - p)) ring)" "length ring < p + length r"
    show "(drop p ring @ take (length r - (length ring - p)) ring) ! i = r ! i"
    proof (cases "p + i < length ring")
      case True
      then show ?thesis using assms(3) [of i] a by (simp add: nth_append less_diff_conv add.commute)
    next
      case False
      then have "(p + i) mod length ring = i - (length ring - p)"
        using assms(1,2) a by (simp add: mod_if add.commute)
      moreover have "ring ! ((p + i) mod length ring) = r ! i" using a assms by (intro assms(3)) simp
      ultimately show ?thesis using False assms(1,2) a by (auto simp: nth_append add.commute less_diff_conv)
    qed
  qed (use assms in simp)
qed

lemma fetch_next:
  assumes ring: "length ring = 2 ^ k" "3 \<le> k" "k < 64" and "8 dvd unat tail" "ring_holds ring tail r" "record_ok r" "\<And>n. malloc n"
  shows "\<exists>cs'. fetch_record malloc ring tail cs = Record r cs'"
proof -
  let ?p = "unat tail mod length ring"
  have m: "unat (tail AND (of_nat (length ring) - 1)) = ?p" by (rule mask_ring) (use ring in simp_all)
  have p8: "?p + 8 \<le> length ring" by (rule ring_mod) (use assms in simp_all)
  have h: "length r \<le> length ring" "\<And>i. i < length r \<Longrightarrow> ring ! ((?p + i) mod length ring) = r ! i"
    using assms(5) by (simp_all add: ring_holds_def mod_add_left_eq)
  have "ring ! (?p + 6) = r ! 6" "ring ! (7 + ?p) = r ! 7"
    using h(2) [of 6] h(2) [of 7] assms(6) p8 by (simp_all add: record_ok_def add.commute)
  then have n: "unat (load16 ring (?p + 6)) = length r" using assms(6) by (simp add: record_ok_def load16_def add.assoc)
  have pl: "?p < length ring" using ring by simp
  show ?thesis
    using copied [OF pl h] h(1) p8 assms(7) unfolding fetch_record_def Let_def m n
    by (cases "?p + length r \<le> length ring") (auto simp: not_le)
qed

lemma advance_ne:
  assumes "0 < n" "n < 2 ^ 64"
  shows "tail + of_nat n \<noteq> (tail :: u64)"
proof
  assume "tail + of_nat n = tail"
  then have "(of_nat n :: u64) = 0" by simp
  then have "unat (of_nat n :: u64) = 0" by simp
  then show False using assms by (simp add: unat_of_nat)
qed

lemma read_stream:
  assumes ring: "length ring = 2 ^ k" "3 \<le> k" "k < 64" and "8 dvd unat tail" "ring_holds ring tail (concat rs)" "\<forall>r\<in>set rs. record_ok r" "\<forall>n. malloc n"
    and "feed fn rs ret s = Some (ret', n, s')"
  shows "\<exists>cs'. read_records malloc fn ring (tail + of_nat (length (concat rs))) tail cs ret s = Some (Read ret' (tail + of_nat n) cs' s')"
  using assms(4-)
proof (induction rs arbitrary: tail cs ret s n)
  case Nil
  then show ?case by (simp add: read_records.simps)
next
  case (Cons r rs)
  have h: "ring_holds ring tail r" "ring_holds ring (tail + of_nat (length r)) (concat rs)"
    using ring_holds_split [of ring tail r "concat rs" k] Cons.prems(2) ring by simp_all
  obtain cs' where f: "fetch_record malloc ring tail cs = Record r cs'"
    using fetch_next [OF ring Cons.prems(1) h(1), of malloc cs] Cons.prems by auto
  have "0 < length (concat (r # rs))" "length (concat (r # rs)) < 2 ^ 64"
    using Cons.prems(2,3) ring power_strict_increasing [of k 64 "2 :: nat"] by (auto simp: ring_holds_def record_ok_def)
  then have ne: "tail + of_nat (length (concat (r # rs))) \<noteq> tail" by (rule advance_ne)
  obtain c s1 where c: "fn r s = Some (c, s1)" using Cons.prems(5) by (auto split: option.splits)
  have a8: "8 dvd unat (tail + of_nat (length r))"
    using Cons.prems(1,3) by (auto simp: record_ok_def unat_word_ariths unat_of_nat mod_add_right_eq intro!: dvd_mod)
  show ?case
  proof (cases "c = LIBBPF_PERF_EVENT_CONT")
    case True
    then obtain n' where n: "feed fn rs c s1 = Some (ret', n', s')" "n = length r + n'" using Cons.prems(5) c by auto
    show ?thesis
      using Cons.IH [OF a8 h(2) _ Cons.prems(4) n(1), of cs'] Cons.prems(3) ne f c True n(2)
      by (simp add: read_records.simps [of _ _ _ _ tail] add.assoc)
  next
    case False
    then show ?thesis using Cons.prems(5) ne f c by (simp add: read_records.simps)
  qed
qed

section \<open>Perf buffers\<close>

text \<open>
  A callback takes the number of the CPU and works on the state.  The data of a sample follow the header and its size.
\<close>

record 's perf_buffer_cbs =
  event_cb :: "(int \<Rightarrow> packet \<Rightarrow> 's \<Rightarrow> (int \<times> 's) option) option"
  sample_cb :: "(int \<Rightarrow> packet \<Rightarrow> u32 \<Rightarrow> 's \<Rightarrow> 's) option"
  lost_cb :: "(int \<Rightarrow> u64 \<Rightarrow> 's \<Rightarrow> 's) option"

record perf_cpu_buf =
  cb_base :: int
  cb_buf_size :: u64
  cb_fd :: int
  cb_cpu :: int
  cb_map_key :: int

record perf_buffer =
  pb_page_size :: u64
  pb_mmap_size :: u64
  pb_cpu_bufs :: "perf_cpu_buf list"
  pb_cpu_cnt :: int
  pb_epoll_fd :: int
  pb_map_fd :: int

text \<open>Options: the attribute, and the CPUs with the keys of the map when they are given.\<close>

record 'a perf_params =
  pp_attr :: 'a
  pp_cpu_cnt :: int
  pp_cpus :: "int list"
  pp_map_keys :: "int list"

text \<open>The calls.  \<open>ps_ring\<close> is the data area behind the address of a mapping.\<close>

record ('a, 's) perf_sys =
  ps_errno :: "'s \<Rightarrow> int"
  ps_pagesize :: u64
  ps_calloc :: "'s \<Rightarrow> bool \<times> 's"
  ps_malloc :: "u64 \<Rightarrow> bool"
  ps_map_info :: "int \<Rightarrow> 's \<Rightarrow> int \<times> bpf_map_type \<times> u32 \<times> 's"
  ps_possible_cpus :: "'s \<Rightarrow> int \<times> 's"
  ps_epoll_create :: "'s \<Rightarrow> int \<times> 's"
  ps_epoll_add :: "int \<Rightarrow> int \<Rightarrow> 's \<Rightarrow> int \<times> 's"
  ps_epoll_wait :: "int \<Rightarrow> int \<Rightarrow> int \<Rightarrow> 's \<Rightarrow> int \<times> nat list \<times> 's"
  ps_perf_event_open :: "'a \<Rightarrow> int \<Rightarrow> 's \<Rightarrow> int \<times> 's"
  ps_mmap :: "u64 \<Rightarrow> int \<Rightarrow> 's \<Rightarrow> int \<times> 's"
  ps_munmap :: "int \<Rightarrow> u64 \<Rightarrow> 's \<Rightarrow> 's"
  ps_enable :: "int \<Rightarrow> 's \<Rightarrow> int \<times> 's"
  ps_disable :: "int \<Rightarrow> 's \<Rightarrow> 's"
  ps_close :: "int \<Rightarrow> 's \<Rightarrow> 's"
  ps_map_update :: "int \<Rightarrow> int \<Rightarrow> int \<Rightarrow> 's \<Rightarrow> int \<times> 's"
  ps_map_delete :: "int \<Rightarrow> int \<Rightarrow> 's \<Rightarrow> 's"
  ps_ring :: "int \<Rightarrow> u64 \<Rightarrow> 's \<Rightarrow> packet"
  ps_head :: "int \<Rightarrow> 's \<Rightarrow> u64"
  ps_tail :: "int \<Rightarrow> 's \<Rightarrow> u64"
  ps_set_tail :: "int \<Rightarrow> u64 \<Rightarrow> 's \<Rightarrow> 's"

definition PERF_RECORD_LOST :: u32 where "PERF_RECORD_LOST = 2"
definition PERF_RECORD_SAMPLE :: u32 where "PERF_RECORD_SAMPLE = 9"

definition bpf_perf_event_read_simple ::
    "('a, 's) perf_sys \<Rightarrow> int \<Rightarrow> u64 \<Rightarrow> u64 \<Rightarrow> (packet \<Rightarrow> 's \<Rightarrow> (int \<times> 's) option) \<Rightarrow> 's \<Rightarrow> (int \<times> u64 \<times> 's) option option" where
  "bpf_perf_event_read_simple S base mmap_size copy_size fn s =
     map_option (\<lambda>r. case r of Overread \<Rightarrow> None | Read ret tail copy_size s \<Rightarrow> Some (ret, copy_size, ps_set_tail S base tail s))
       (read_records (ps_malloc S) fn (ps_ring S base mmap_size s) (ps_head S base s) (ps_tail S base s) copy_size LIBBPF_PERF_EVENT_CONT s)"

definition perf_buffer_process_record :: "'s perf_buffer_cbs \<Rightarrow> int \<Rightarrow> packet \<Rightarrow> 's \<Rightarrow> (int \<times> 's) option" where
  "perf_buffer_process_record pb cpu e s =
     (case event_cb pb of
        Some f \<Rightarrow> f cpu e s
      | None \<Rightarrow>
          Option.bind (mem32 e 0) (\<lambda>ty.
            if ty = PERF_RECORD_SAMPLE then
              (case sample_cb pb of
                 None \<Rightarrow> Some (LIBBPF_PERF_EVENT_CONT, s)
               | Some f \<Rightarrow> Option.bind (mem32 e 8) (\<lambda>sz. Some (LIBBPF_PERF_EVENT_CONT, f cpu (drop 12 e) sz s)))
            else if ty = PERF_RECORD_LOST then
              (case lost_cb pb of
                 None \<Rightarrow> Some (LIBBPF_PERF_EVENT_CONT, s)
               | Some f \<Rightarrow> Option.bind (mem64 e 16) (\<lambda>lost. Some (LIBBPF_PERF_EVENT_CONT, f cpu lost s)))
            else Some (LIBBPF_PERF_EVENT_ERROR, s)))"

definition perf_buffer_process_records ::
    "('a, 's) perf_sys \<Rightarrow> 's perf_buffer_cbs \<Rightarrow> perf_buffer \<Rightarrow> perf_cpu_buf \<Rightarrow> 's \<Rightarrow> (int \<times> perf_cpu_buf \<times> 's) option option" where
  "perf_buffer_process_records S cbs pb cb s =
     map_option (map_option (\<lambda>(ret, n, s). (if ret \<noteq> LIBBPF_PERF_EVENT_CONT then ret else 0, cb\<lparr>cb_buf_size := n\<rparr>, s)))
       (bpf_perf_event_read_simple S (cb_base cb) (pb_mmap_size pb) (cb_buf_size cb) (perf_buffer_process_record cbs (cb_cpu cb)) s)"

text \<open>The loop of \<open>perf_buffer__poll\<close> over the buffers that are ready, up to the first error.\<close>

fun process_ready :: "('a, 's) perf_sys \<Rightarrow> 's perf_buffer_cbs \<Rightarrow> nat list \<Rightarrow> perf_buffer \<Rightarrow> 's \<Rightarrow> (int \<times> perf_buffer \<times> 's) option option" where
  "process_ready S cbs [] pb s = Some (Some (0, pb, s))"
| "process_ready S cbs (i # is) pb s =
     Option.bind (perf_buffer_process_records S cbs pb (pb_cpu_bufs pb ! i) s) (\<lambda>r.
       case r of
         None \<Rightarrow> Some None
       | Some (err, cb, s) \<Rightarrow>
           (let pb = pb\<lparr>pb_cpu_bufs := (pb_cpu_bufs pb)[i := cb]\<rparr>
            in if err \<noteq> 0 then Some (Some (err, pb, s)) else process_ready S cbs is pb s))"

definition perf_buffer_poll :: "('a, 's) perf_sys \<Rightarrow> 's perf_buffer_cbs \<Rightarrow> perf_buffer \<Rightarrow> int \<Rightarrow> 's \<Rightarrow> (int \<times> perf_buffer \<times> 's) option option" where
  "perf_buffer_poll S cbs pb timeout_ms s =
     (let (cnt, ready, s) = ps_epoll_wait S (pb_epoll_fd pb) (pb_cpu_cnt pb) timeout_ms s
      in map_option (map_option (\<lambda>(err, pb, s). (if err \<noteq> 0 then err else if cnt < 0 then - ps_errno S s else cnt, pb, s)))
           (process_ready S cbs (take (nat cnt) ready) pb s))"

section \<open>Opening and closing\<close>

definition perf_buffer_free_cpu_buf :: "('a, 's) perf_sys \<Rightarrow> perf_buffer \<Rightarrow> perf_cpu_buf \<Rightarrow> 's \<Rightarrow> 's" where
  "perf_buffer_free_cpu_buf S pb cb s =
     (let s = (if cb_base cb \<noteq> 0 then ps_munmap S (cb_base cb) (pb_mmap_size pb + pb_page_size pb) s else s)
      in if cb_fd cb \<ge> 0 then ps_close S (cb_fd cb) (ps_disable S (cb_fd cb) s) else s)"

fun free_cpu_bufs :: "('a, 's) perf_sys \<Rightarrow> perf_buffer \<Rightarrow> perf_cpu_buf list \<Rightarrow> 's \<Rightarrow> 's" where
  "free_cpu_bufs S pb [] s = s"
| "free_cpu_bufs S pb (cb # cbs) s = free_cpu_bufs S pb cbs (perf_buffer_free_cpu_buf S pb cb (ps_map_delete S (pb_map_fd pb) (cb_map_key cb) s))"

definition perf_buffer_free :: "('a, 's) perf_sys \<Rightarrow> perf_buffer option \<Rightarrow> 's \<Rightarrow> 's" where
  "perf_buffer_free S p s =
     (case p of
        None \<Rightarrow> s
      | Some pb \<Rightarrow>
          (let s = free_cpu_bufs S pb (pb_cpu_bufs pb) s in if pb_epoll_fd pb \<ge> 0 then ps_close S (pb_epoll_fd pb) s else s))"

definition perf_buffer_open_cpu_buf :: "('a, 's) perf_sys \<Rightarrow> perf_buffer \<Rightarrow> 'a \<Rightarrow> int \<Rightarrow> int \<Rightarrow> 's \<Rightarrow> (int + perf_cpu_buf) \<times> 's" where
  "perf_buffer_open_cpu_buf S pb attr cpu map_key s =
     (let (mem, s) = ps_calloc S s
      in if \<not> mem then (Inl (- ENOMEM), s)
         else
           (let (fd, s) = ps_perf_event_open S attr cpu s;
                cb = \<lparr>cb_base = 0, cb_buf_size = 0, cb_fd = fd, cb_cpu = cpu, cb_map_key = map_key\<rparr>
            in if fd < 0 then (Inl (- ps_errno S s), perf_buffer_free_cpu_buf S pb cb s)
               else
                 (let (base, s) = ps_mmap S (pb_mmap_size pb + pb_page_size pb) fd s
                  in if base = MAP_FAILED then (Inl (- ps_errno S s), perf_buffer_free_cpu_buf S pb cb s)
                     else
                       (let cb = cb\<lparr>cb_base := base\<rparr>; (e, s) = ps_enable S fd s
                        in if e < 0 then (Inl (- ps_errno S s), perf_buffer_free_cpu_buf S pb cb s) else (Inr cb, s)))))"

text \<open>The loop over the CPUs: the error, if there is one, and the buffers so far.\<close>

fun open_cpu_bufs :: "('a, 's) perf_sys \<Rightarrow> 'a \<Rightarrow> (int \<times> int) list \<Rightarrow> perf_buffer \<Rightarrow> 's \<Rightarrow> int option \<times> perf_buffer \<times> 's" where
  "open_cpu_bufs S attr [] pb s = (None, pb, s)"
| "open_cpu_bufs S attr ((cpu, map_key) # ks) pb s =
     (case perf_buffer_open_cpu_buf S pb attr cpu map_key s of
        (Inl err, s) \<Rightarrow> (Some err, pb, s)
      | (Inr cb, s) \<Rightarrow>
          (let pb = pb\<lparr>pb_cpu_bufs := pb_cpu_bufs pb @ [cb]\<rparr>; (err, s) = ps_map_update S (pb_map_fd pb) map_key (cb_fd cb) s
           in if err \<noteq> 0 then (Some (- ps_errno S s), pb, s)
              else
                (let (e, s) = ps_epoll_add S (pb_epoll_fd pb) (cb_fd cb) s
                 in if e < 0 then (Some (- ps_errno S s), pb, s) else open_cpu_bufs S attr ks pb s)))"

text \<open>The part of \<open>__perf_buffer__new\<close> that ends in the label \<open>error\<close> when it fails.\<close>

definition perf_buffer_open :: "('a, 's) perf_sys \<Rightarrow> 'a perf_params \<Rightarrow> u32 \<Rightarrow> perf_buffer \<Rightarrow> 's \<Rightarrow> int option \<times> perf_buffer \<times> 's" where
  "perf_buffer_open S p max_entries pb s =
     (let (fd, s) = ps_epoll_create S s; pb = pb\<lparr>pb_epoll_fd := fd\<rparr>
      in if fd < 0 then (Some (- ps_errno S s), pb, s)
         else
           (let (cnt, s) = (if pp_cpu_cnt p > 0 then (pp_cpu_cnt p, s) else ps_possible_cpus S s)
            in if cnt < 0 then (Some cnt, pb\<lparr>pb_cpu_cnt := cnt\<rparr>, s)
               else
                 (let cnt = (if pp_cpu_cnt p \<le> 0 \<and> uint max_entries < cnt then uint max_entries else cnt);
                      pb = pb\<lparr>pb_cpu_cnt := cnt\<rparr>;
                      (mem, s) = ps_calloc S s
                  in if \<not> mem then (Some (- ENOMEM), pb, s)
                     else
                       (let (mem, s) = ps_calloc S s
                        in if \<not> mem then (Some (- ENOMEM), pb, s)
                           else open_cpu_bufs S (pp_attr p)
                                  (map (\<lambda>i. if pp_cpu_cnt p > 0 then (pp_cpus p ! i, pp_map_keys p ! i) else (int i, int i)) [0..<nat cnt]) pb s))))"

definition perf_buffer_new_params :: "('a, 's) perf_sys \<Rightarrow> int \<Rightarrow> u64 \<Rightarrow> 'a perf_params \<Rightarrow> 's \<Rightarrow> (int + perf_buffer) \<times> 's" where
  "perf_buffer_new_params S map_fd page_cnt p s =
     (if page_cnt AND (page_cnt - 1) \<noteq> 0 then (Inl (- EINVAL), s)
      else
        (let (err, ty, max_entries, s) = ps_map_info S map_fd s
         in if err \<noteq> 0 then (Inl (- ps_errno S s), s)
            else if ty \<noteq> BPF_MAP_TYPE_PERF_EVENT_ARRAY then (Inl (- EINVAL), s)
            else
              (let (mem, s) = ps_calloc S s
               in if \<not> mem then (Inl (- ENOMEM), s)
                  else
                    (let pb = \<lparr>pb_page_size = ps_pagesize S, pb_mmap_size = ps_pagesize S * page_cnt, pb_cpu_bufs = [], pb_cpu_cnt = 0, pb_epoll_fd = 0,
                               pb_map_fd = map_fd\<rparr>;
                         (fail, pb, s) = perf_buffer_open S p max_entries pb s
                     in case fail of None \<Rightarrow> (Inr pb, s) | Some err \<Rightarrow> (Inl err, perf_buffer_free S (Some pb) s)))))"

text \<open>The two public constructors.  The first one opens a buffer on every CPU, with the attribute of the kernel's BPF output.\<close>

definition perf_buffer_new :: "('a, 's) perf_sys \<Rightarrow> 'a \<Rightarrow> int \<Rightarrow> u64 \<Rightarrow> 's \<Rightarrow> (int + perf_buffer) \<times> 's" where
  "perf_buffer_new S bpf_output map_fd page_cnt = perf_buffer_new_params S map_fd page_cnt \<lparr>pp_attr = bpf_output, pp_cpu_cnt = 0, pp_cpus = [], pp_map_keys = []\<rparr>"

definition perf_buffer_new_raw :: "('a, 's) perf_sys \<Rightarrow> int \<Rightarrow> u64 \<Rightarrow> 'a perf_params \<Rightarrow> 's \<Rightarrow> (int + perf_buffer) \<times> 's" where
  "perf_buffer_new_raw S map_fd page_cnt opts = perf_buffer_new_params S map_fd page_cnt opts"

section \<open>Descriptors and mappings\<close>

definition buf_handles :: "perf_buffer \<Rightarrow> perf_cpu_buf \<Rightarrow> handle set" where
  "buf_handles pb cb = {Fd (cb_fd cb), Mapping (cb_base cb) (pb_mmap_size pb + pb_page_size pb)}"

definition pb_handles :: "perf_buffer \<Rightarrow> handle set" where
  "pb_handles pb = insert (Fd (pb_epoll_fd pb)) (\<Union>cb\<in>set (pb_cpu_bufs pb). buf_handles pb cb)"

definition bufs_open :: "perf_buffer \<Rightarrow> bool" where
  "bufs_open pb \<longleftrightarrow> 0 \<le> pb_epoll_fd pb \<and> (\<forall>cb\<in>set (pb_cpu_bufs pb). 0 \<le> cb_fd cb \<and> cb_base cb \<noteq> 0)"

definition pb_over :: "handle set \<Rightarrow> perf_buffer \<Rightarrow> handle set \<Rightarrow> bool" where
  "pb_over H pb K \<longleftrightarrow> bufs_open pb \<and> pb_handles pb \<inter> H = {} \<and> K = pb_handles pb \<union> H"

locale perf_kernel =
  fixes S :: "('a, 's) perf_sys" and hold :: "'s \<Rightarrow> handle set"
  assumes calloc_held: "ps_calloc S s = (b, s') \<Longrightarrow> hold s' = hold s"
    and info_held: "ps_map_info S fd s = (e, ty, n, s') \<Longrightarrow> hold s' = hold s"
    and cpus_held: "ps_possible_cpus S s = (c, s') \<Longrightarrow> hold s' = hold s"
    and epoll_opened: "ps_epoll_create S s = (fd, s') \<Longrightarrow> opened hold fd s s'"
    and event_opened: "ps_perf_event_open S attr cpu s = (fd, s') \<Longrightarrow> opened hold fd s s'"
    and mmap_mapped: "ps_mmap S len fd s = (a, s') \<Longrightarrow>
      (if a = MAP_FAILED then hold s' = hold s else a \<noteq> 0 \<and> Mapping a len \<notin> hold s \<and> hold s' = insert (Mapping a len) (hold s))"
    and munmap_held [simp]: "hold (ps_munmap S a len s) = hold s - {Mapping a len}"
    and close_held [simp]: "hold (ps_close S fd s) = hold s - {Fd fd}"
    and enable_held: "ps_enable S fd s = (e, s') \<Longrightarrow> hold s' = hold s"
    and disable_held [simp]: "hold (ps_disable S fd s) = hold s"
    and update_held: "ps_map_update S fd k v s = (e, s') \<Longrightarrow> hold s' = hold s"
    and delete_held [simp]: "hold (ps_map_delete S fd k s) = hold s"
    and add_held: "ps_epoll_add S fd fd' s = (e, s') \<Longrightarrow> hold s' = hold s"
begin

lemma free_bufs_held:
  assumes "\<forall>cb\<in>set cbs. 0 \<le> cb_fd cb \<and> cb_base cb \<noteq> 0"
  shows "hold (free_cpu_bufs S pb cbs s) = hold s - (\<Union>cb\<in>set cbs. buf_handles pb cb)"
  using assms by (induction cbs arbitrary: s) (auto simp: perf_buffer_free_cpu_buf_def buf_handles_def)

lemma free_held:
  assumes "pb_over H pb (hold s)"
  shows "hold (perf_buffer_free S (Some pb) s) = H"
proof -
  have "hold (perf_buffer_free S (Some pb) s) = hold s - pb_handles pb"
    using assms by (auto simp: perf_buffer_free_def Let_def pb_over_def bufs_open_def free_bufs_held pb_handles_def)
  then show ?thesis using assms by (auto simp: pb_over_def)
qed

lemma open_buf_held:
  assumes "perf_buffer_open_cpu_buf S pb attr cpu key s = (r, s')"
  shows "case r of
      Inl e \<Rightarrow> hold s' = hold s
    | Inr cb \<Rightarrow> 0 \<le> cb_fd cb \<and> cb_base cb \<noteq> 0 \<and> buf_handles pb cb \<inter> hold s = {} \<and> hold s' = buf_handles pb cb \<union> hold s"
proof -
  let ?n = "pb_mmap_size pb + pb_page_size pb"
  obtain m s1 where a: "ps_calloc S s = (m, s1)" by (cases "ps_calloc S s")
  obtain fd s2 where b: "ps_perf_event_open S attr cpu s1 = (fd, s2)" by (cases "ps_perf_event_open S attr cpu s1")
  obtain ba s3 where c: "ps_mmap S ?n fd s2 = (ba, s3)" by (cases "ps_mmap S ?n fd s2")
  obtain e s4 where d: "ps_enable S fd s3 = (e, s4)" by (cases "ps_enable S fd s3")
  have h1: "hold s1 = hold s" by (rule calloc_held [OF a])
  have h2: "if fd < 0 then hold s2 = hold s else Fd fd \<notin> hold s \<and> hold s2 = insert (Fd fd) (hold s)"
    using event_opened [OF b] h1 by (auto simp: opened_def)
  note h = h1 h2 mmap_mapped [OF c] enable_held [OF d]
  note E = assms [symmetric, unfolded perf_buffer_open_cpu_buf_def Let_def a b c d prod.case]
  consider "\<not> m" | m "fd < 0" | m "\<not> fd < 0" "ba = MAP_FAILED" | m "\<not> fd < 0" "ba \<noteq> MAP_FAILED" "e < 0" | m "\<not> fd < 0" "ba \<noteq> MAP_FAILED" "\<not> e < 0" by blast
  then show ?thesis using E h by cases (auto simp: c d perf_buffer_free_cpu_buf_def buf_handles_def)
qed

lemma open_bufs_held:
  assumes "open_cpu_bufs S attr ks pb s = (r, pb', s')" "pb_over H pb (hold s)"
  shows "pb_over H pb' (hold s')"
  using assms
proof (induction ks arbitrary: pb s)
  case (Cons k ks)
  obtain cpu key where k: "k = (cpu, key)" by (cases k)
  obtain q s1 where a: "perf_buffer_open_cpu_buf S pb attr cpu key s = (q, s1)" by (cases "perf_buffer_open_cpu_buf S pb attr cpu key s")
  show ?case
  proof (cases q)
    case (Inl e)
    then show ?thesis using Cons.prems a k open_buf_held [OF a] by simp
  next
    case (Inr cb)
    let ?pb = "pb\<lparr>pb_cpu_bufs := pb_cpu_bufs pb @ [cb]\<rparr>"
    obtain e1 s2 where b: "ps_map_update S (pb_map_fd pb) key (cb_fd cb) s1 = (e1, s2)" by (cases "ps_map_update S (pb_map_fd pb) key (cb_fd cb) s1")
    obtain e2 s3 where c: "ps_epoll_add S (pb_epoll_fd pb) (cb_fd cb) s2 = (e2, s3)" by (cases "ps_epoll_add S (pb_epoll_fd pb) (cb_fd cb) s2")
    have "buf_handles ?pb x = buf_handles pb x" for x by (simp add: buf_handles_def)
    then have "pb_over H ?pb (hold s1)"
      using Cons.prems(2) open_buf_held [OF a] Inr by (auto simp: pb_over_def pb_handles_def bufs_open_def)
    then have "pb_over H ?pb (hold s2)" "pb_over H ?pb (hold s3)" using update_held [OF b] add_held [OF c] by simp_all
    then show ?thesis using Cons.prems(1) Cons.IH [of ?pb s3] a b c k Inr by (auto simp: Let_def split: if_splits)
  qed
qed simp

lemma open_held:
  assumes "perf_buffer_open S p mx pb s = (r, pb', s')" "pb_cpu_bufs pb = []"
  shows "pb_over (hold s) pb' (hold s') \<or> r \<noteq> None \<and> pb_epoll_fd pb' < 0 \<and> pb_cpu_bufs pb' = [] \<and> hold s' = hold s"
proof -
  obtain fd s1 where a: "ps_epoll_create S s = (fd, s1)" by (cases "ps_epoll_create S s")
  let ?pb = "pb\<lparr>pb_epoll_fd := fd\<rparr>"
  have over: "pb_over (hold s) (?pb\<lparr>pb_cpu_cnt := c\<rparr>) (hold s1)" if "0 \<le> fd" for c
    using epoll_opened [OF a] that assms(2) by (auto simp: opened_def pb_over_def pb_handles_def bufs_open_def)
  obtain c s2 where b: "(if pp_cpu_cnt p > 0 then (pp_cpu_cnt p, s1) else ps_possible_cpus S s1) = (c, s2)"
    by (cases "if pp_cpu_cnt p > 0 then (pp_cpu_cnt p, s1) else ps_possible_cpus S s1")
  obtain m1 s3 where m1: "ps_calloc S s2 = (m1, s3)" by (cases "ps_calloc S s2")
  obtain m2 s4 where m2: "ps_calloc S s3 = (m2, s4)" by (cases "ps_calloc S s3")
  have h: "hold s2 = hold s1" "hold s3 = hold s1" "hold s4 = hold s1"
    using b cpus_held [of s1 c s2] calloc_held [OF m1] calloc_held [OF m2] by (auto split: if_splits)
  let ?c = "if pp_cpu_cnt p \<le> 0 \<and> uint mx < c then uint mx else c"
  note E = assms(1) [symmetric, unfolded perf_buffer_open_def Let_def a b m1 m2 prod.case]
  show ?thesis
  proof (cases "fd < 0")
    case True
    then show ?thesis using E epoll_opened [OF a] assms(2) by (simp add: opened_def)
  next
    case False
    then have o: "pb_over (hold s) (?pb\<lparr>pb_cpu_cnt := x\<rparr>) (hold s4)" for x using over h by simp
    show ?thesis
    proof (cases "c < 0 \<or> \<not> m1 \<or> \<not> m2")
      case True
      then show ?thesis using E [unfolded if_not_P [OF False]] o h by (cases "c < 0"; cases m1; cases m2) (simp_all add: m2)
    next
      case ok: False
      let ?ks = "map (\<lambda>i. if pp_cpu_cnt p > 0 then (pp_cpus p ! i, pp_map_keys p ! i) else (int i, int i)) [0..<nat ?c]"
      have "open_cpu_bufs S (pp_attr p) ?ks (?pb\<lparr>pb_cpu_cnt := ?c\<rparr>) s4 = (r, pb', s')"
        using E [unfolded if_not_P [OF False]] ok by (simp add: m2)
      then show ?thesis using open_bufs_held [OF _ o] by blast
    qed
  qed
qed

lemma new_held:
  assumes "perf_buffer_new_params S fd pages p s = (r, s')"
  shows "case r of Inl e \<Rightarrow> hold s' = hold s | Inr pb \<Rightarrow> pb_over (hold s) pb (hold s')"
proof -
  obtain e ty mx s1 where a: "ps_map_info S fd s = (e, ty, mx, s1)" by (cases "ps_map_info S fd s")
  obtain m s2 where b: "ps_calloc S s1 = (m, s2)" by (cases "ps_calloc S s1")
  let ?pb = "\<lparr>pb_page_size = ps_pagesize S, pb_mmap_size = ps_pagesize S * pages, pb_cpu_bufs = [], pb_cpu_cnt = 0, pb_epoll_fd = 0, pb_map_fd = fd\<rparr>"
  obtain f pb s3 where c: "perf_buffer_open S p mx ?pb s2 = (f, pb, s3)" by (cases "perf_buffer_open S p mx ?pb s2")
  have h: "hold s1 = hold s" "hold s2 = hold s" using info_held [OF a] calloc_held [OF b] by simp_all
  have o: "pb_over (hold s) pb (hold s3) \<or> f \<noteq> None \<and> pb_epoll_fd pb < 0 \<and> pb_cpu_bufs pb = [] \<and> hold s3 = hold s"
    using open_held [OF c] h by simp
  then have fr: "f \<noteq> None \<Longrightarrow> hold (perf_buffer_free S (Some pb) s3) = hold s"
    using free_held by (auto simp: perf_buffer_free_def)
  note E = assms [symmetric, unfolded perf_buffer_new_params_def Let_def a b c prod.case]
  show ?thesis
    using E h o fr by (auto split: if_splits option.splits)
qed

end

section \<open>Results\<close>

text \<open>
  C37: Reading a stream of records.  When the ring holds, from its tail to its head and possibly around its end, records whose
  sizes are multiples of eight, \<open>bpf_perf_event_read_simple\<close> returns; it has given each record in one piece and in order to the
  callback, up to the first that asks to stop, and has moved the tail past exactly these, also when the 64-bit positions
  themselves wrap around.
\<close>

theorem perf_read_stream:
  assumes "length (ps_ring S base sz s) = 2 ^ k" "3 \<le> k" "k < 64" "8 dvd unat (ps_tail S base s)"
    and "ring_holds (ps_ring S base sz s) (ps_tail S base s) (concat rs)" "\<forall>r\<in>set rs. record_ok r" "\<forall>n. ps_malloc S n"
    and "ps_head S base s = ps_tail S base s + of_nat (length (concat rs))"
    and "feed fn rs LIBBPF_PERF_EVENT_CONT s = Some (ret, n, s')"
  shows "\<exists>copy'. bpf_perf_event_read_simple S base sz copy fn s = Some (Some (ret, copy', ps_set_tail S base (ps_tail S base s + of_nat n) s'))"
  using read_stream [OF assms(1-7) assms(9), of copy] assms(8) by (auto simp: bpf_perf_event_read_simple_def)

text \<open>A ring of sixteen bytes that is full with one record, which begins in its middle; the tail is eight bytes before the wrap-around of the positions.\<close>

definition sample_record :: packet where
  "sample_record = [9, 0, 0, 0, 0, 0, 16, 0, 4, 0, 0, 0, 65, 66, 67, 68]"

definition sample_reader :: "(unit, packet list) perf_sys" where
  "sample_reader =
     \<lparr>ps_errno = (\<lambda>_. 0), ps_pagesize = 4096, ps_calloc = Pair True, ps_malloc = (\<lambda>_. True), ps_map_info = (\<lambda>_ s. (0, BPF_MAP_TYPE_PERF_EVENT_ARRAY, 2, s)), ps_possible_cpus = Pair 1,
      ps_epoll_create = Pair (- 1), ps_epoll_add = (\<lambda>_ _. Pair 0), ps_epoll_wait = (\<lambda>_ _ _ s. (0, [], s)), ps_perf_event_open = (\<lambda>_ _. Pair (- 1)),
      ps_mmap = (\<lambda>_ _. Pair MAP_FAILED), ps_munmap = (\<lambda>_ _ s. s), ps_enable = (\<lambda>_. Pair 0), ps_disable = (\<lambda>_ s. s), ps_close = (\<lambda>_ s. s),
      ps_map_update = (\<lambda>_ _ _. Pair 0), ps_map_delete = (\<lambda>_ _ s. s), ps_ring = (\<lambda>_ _ _. drop 8 sample_record @ take 8 sample_record),
      ps_head = (\<lambda>_ _. 8), ps_tail = (\<lambda>_ _. - 8), ps_set_tail = (\<lambda>_ t s. s @ [[ucast t]])\<rparr>"

theorem perf_read_stream_witness:
  "\<exists>copy'. bpf_perf_event_read_simple sample_reader 0 16 0 (\<lambda>r s. Some (LIBBPF_PERF_EVENT_CONT, s @ [r])) [] =
     Some (Some (LIBBPF_PERF_EVENT_CONT, copy', [sample_record, [8]]))"
proof -
  let ?fn = "\<lambda>r s. Some (LIBBPF_PERF_EVENT_CONT, s @ [r])"
  have u: "unat (- 8 :: u64) = 18446744073709551608" by (simp add: unat_eq_nat_uint uint_word_ariths)
  have len: "length sample_record = 16" by (simp add: sample_record_def)
  have l: "record_ok sample_record" by (simp add: record_ok_def len) (simp add: sample_record_def load16_def)
  have h: "ring_holds (ps_ring sample_reader 0 16 []) (ps_tail sample_reader 0 []) (concat [sample_record])"
  proof -
    have "\<forall>i\<in>set [0..<16]. (drop 8 sample_record @ take 8 sample_record) ! ((18446744073709551608 + i) mod 16) = sample_record ! i"
      by (simp add: upt_rec sample_record_def)
    then show ?thesis by (simp add: ring_holds_def sample_reader_def u) (simp add: sample_record_def)
  qed
  have "\<exists>copy'. bpf_perf_event_read_simple sample_reader 0 16 0 ?fn [] =
      Some (Some (LIBBPF_PERF_EVENT_CONT, copy', ps_set_tail sample_reader 0 (ps_tail sample_reader 0 [] + of_nat 16) [sample_record]))"
  proof (rule perf_read_stream [where k = 4 and rs = "[sample_record]", OF _ _ _ _ h])
    show "8 dvd unat (ps_tail sample_reader 0 [])" by (simp add: sample_reader_def u)
    show "feed ?fn [sample_record] LIBBPF_PERF_EVENT_CONT [] = Some (LIBBPF_PERF_EVENT_CONT, 16, [sample_record])" by (simp add: sample_record_def)
  qed (use l in \<open>simp_all add: sample_reader_def sample_record_def\<close>)
  then show ?thesis by (simp add: sample_reader_def)
qed

text \<open>
  C38: Opening a perf buffer, with any number of CPUs: an error gives back every descriptor and mapping that was opened; after
  success, freeing the buffer does.
\<close>

theorem perf_buffer_released:
  assumes "perf_kernel S hold" "perf_buffer_new_params S fd pages p s = (r, s')"
  shows "case r of Inl e \<Rightarrow> hold s' = hold s | Inr pb \<Rightarrow> hold s \<subseteq> hold s' \<and> (\<forall>s2. hold s2 = hold s' \<longrightarrow> hold (perf_buffer_free S (Some pb) s2) = hold s)"
  using perf_kernel.new_held [OF assms] perf_kernel.free_held [OF assms(1), of "hold s"] by (auto simp: pb_over_def split: sum.splits)

text \<open>A system on lists of handles.\<close>

definition sample_perf :: "(unit, handle list) perf_sys" where
  "sample_perf =
     \<lparr>ps_errno = (\<lambda>_. 24), ps_pagesize = 4096, ps_calloc = Pair True, ps_malloc = (\<lambda>_. True), ps_map_info = (\<lambda>_ s. (0, BPF_MAP_TYPE_PERF_EVENT_ARRAY, 2, s)), ps_possible_cpus = Pair 2,
      ps_epoll_create = open_no, ps_epoll_add = (\<lambda>_ _. Pair 0), ps_epoll_wait = (\<lambda>_ _ _ s. (0, [], s)), ps_perf_event_open = (\<lambda>_ _. open_no),
      ps_mmap = (\<lambda>n _. mmap_no n), ps_munmap = (\<lambda>a n. filter (\<lambda>h. h \<noteq> Mapping a n)), ps_enable = (\<lambda>_. Pair 0), ps_disable = (\<lambda>_ s. s),
      ps_close = (\<lambda>fd. filter (\<lambda>h. h \<noteq> Fd fd)), ps_map_update = (\<lambda>_ _ _. Pair 0), ps_map_delete = (\<lambda>_ _ s. s), ps_ring = (\<lambda>_ _ _. []),
      ps_head = (\<lambda>_ _. 0), ps_tail = (\<lambda>_ _. 0), ps_set_tail = (\<lambda>_ _ s. s)\<rparr>"

interpretation sample_perf: perf_kernel sample_perf set
  using next_no_pos
  by unfold_locales (auto simp: sample_perf_def open_no_opened mmap_no_def next_no_new next_no_ok less_imp_neq [symmetric] split: if_splits)

theorem perf_buffer_released_witness:
  "\<exists>pb s'. perf_buffer_new sample_perf () 9 8 [Fd 9] = (Inr pb, s') \<and> length s' = 6 \<and> set (perf_buffer_free sample_perf (Some pb) s') = {Fd 9}"
proof -
  let ?p = "\<lparr>pp_attr = (), pp_cpu_cnt = 0, pp_cpus = [], pp_map_keys = []\<rparr>"
  have "\<exists>pb s'. perf_buffer_new_params sample_perf 9 8 ?p [Fd 9] = (Inr pb, s') \<and> length s' = 6"
    by (simp add: perf_buffer_new_params_def perf_buffer_open_def sample_perf_def open_no_def mmap_no_def next_no_def
        perf_buffer_open_cpu_buf_def MAP_FAILED_def upt_rec Let_def)
  then obtain pb s' where n: "perf_buffer_new_params sample_perf 9 8 ?p [Fd 9] = (Inr pb, s')" "length s' = 6" by blast
  have "set (perf_buffer_free sample_perf (Some pb) s') = set [Fd 9]"
    using perf_buffer_released [OF sample_perf.perf_kernel_axioms n(1)] by simp
  then show ?thesis using n by (simp add: perf_buffer_new_def)
qed

end
