(* ===== verification/Prog_Info.thy ===== *)
theory Prog_Info
  imports Bpf_Syscall
begin

text \<open>
  The information about a loaded program with its arrays in one piece of memory, \<open>bpf_program__get_prog_info_linear\<close> of
  \<open>libbpf/src/libbpf.c\<close>, and the conversion of its pointers for saving it to a file and loading it again.
\<close>

section \<open>The structure\<close>

text \<open>
  \<open>struct bpf_prog_info\<close> is its 52 words of 32 bits.  An entry of the table of arrays has the byte offsets of the pointer to the
  array, of its number of elements and of the size of an element; a negative size offset is a fixed size.
\<close>

record array_desc =
  array_offset :: int
  count_offset :: int
  size_offset :: int

definition BPF_TAG_SIZE :: int where "BPF_TAG_SIZE = 8"
definition BPF_PROG_INFO_LAST_ARRAY :: nat where "BPF_PROG_INFO_LAST_ARRAY = 9"
definition sizeof_prog_info :: u32 where "sizeof_prog_info = 208"

definition bpf_prog_info_array_desc :: "array_desc list" where
  "bpf_prog_info_array_desc =
     [\<lparr>array_offset = 24, count_offset = 16, size_offset = - 1\<rparr>,
      \<lparr>array_offset = 32, count_offset = 20, size_offset = - 1\<rparr>,
      \<lparr>array_offset = 56, count_offset = 52, size_offset = - 4\<rparr>,
      \<lparr>array_offset = 112, count_offset = 104, size_offset = - 8\<rparr>,
      \<lparr>array_offset = 120, count_offset = 108, size_offset = - 4\<rparr>,
      \<lparr>array_offset = 136, count_offset = 144, size_offset = 132\<rparr>,
      \<lparr>array_offset = 152, count_offset = 148, size_offset = 172\<rparr>,
      \<lparr>array_offset = 160, count_offset = 168, size_offset = 176\<rparr>,
      \<lparr>array_offset = 184, count_offset = 180, size_offset = - BPF_TAG_SIZE\<rparr>]"

definition bpf_prog_info_read_offset_u32 :: "u32 list \<Rightarrow> int \<Rightarrow> u32" where
  "bpf_prog_info_read_offset_u32 info off = (if off \<ge> 0 then info ! (nat off div 4) else of_int (- off))"

definition word64 :: "u32 list \<Rightarrow> nat \<Rightarrow> u64" where
  "word64 info p = ucast (info ! (2 * p)) OR push_bit 32 (ucast (info ! (2 * p + 1)))"

definition bpf_prog_info_read_offset_u64 :: "u32 list \<Rightarrow> int \<Rightarrow> u64" where
  "bpf_prog_info_read_offset_u64 info off = (if off \<ge> 0 then word64 info (nat off div 8) else of_int (- off))"

definition bpf_prog_info_set_offset_u32 :: "u32 list \<Rightarrow> int \<Rightarrow> u32 \<Rightarrow> u32 list" where
  "bpf_prog_info_set_offset_u32 info off v = (if off \<ge> 0 then info[nat off div 4 := v] else info)"

definition bpf_prog_info_set_offset_u64 :: "u32 list \<Rightarrow> int \<Rightarrow> u64 \<Rightarrow> u32 list" where
  "bpf_prog_info_set_offset_u64 info off v =
     (if off \<ge> 0 then info[2 * (nat off div 8) := ucast v, 2 * (nat off div 8) + 1 := ucast (drop_bit 32 v)] else info)"

text \<open>\<open>li_data\<close> is the address of the memory behind the structure.\<close>

record prog_info_linear =
  li_info_len :: u32
  li_data_len :: u32
  li_arrays :: u64
  li_info :: "u32 list"
  li_data :: u64

section \<open>Reading the information of a program\<close>

definition has_array :: "u64 \<Rightarrow> nat \<Rightarrow> bool" where
  "has_array arrays i \<longleftrightarrow> arrays AND push_bit i 1 \<noteq> 0"

text \<open>Step 2 for one array: the mask without arrays that the kernel does not know, and the length with this one.\<close>

definition measure_array :: "u32 list \<Rightarrow> u32 \<Rightarrow> nat \<Rightarrow> u64 \<times> u32 \<Rightarrow> u64 \<times> u32" where
  "measure_array info info_len i = (\<lambda>(arrays, data_len).
     (let desc = bpf_prog_info_array_desc ! i;
          too_old = uint info_len < array_offset desc + 4 \<or> uint info_len < count_offset desc + 4 \<or>
            size_offset desc > 0 \<and> uint info_len < size_offset desc
      in if \<not> has_array arrays i \<or> too_old then (arrays AND NOT (push_bit i 1), data_len)
         else (arrays, data_len + bpf_prog_info_read_offset_u32 info (count_offset desc) * bpf_prog_info_read_offset_u32 info (size_offset desc))))"

text \<open>Step 4 for one array: its number of elements, their size and its place in the memory.\<close>

definition place_array :: "u32 list \<Rightarrow> u64 \<Rightarrow> nat \<Rightarrow> u32 list \<times> u64 \<Rightarrow> u32 list \<times> u64" where
  "place_array info arrays i = (\<lambda>(linfo, ptr).
     if \<not> has_array arrays i then (linfo, ptr)
     else
       (let desc = bpf_prog_info_array_desc ! i;
            count = bpf_prog_info_read_offset_u32 info (count_offset desc);
            sz = bpf_prog_info_read_offset_u32 info (size_offset desc);
            linfo = bpf_prog_info_set_offset_u32 linfo (count_offset desc) count;
            linfo = bpf_prog_info_set_offset_u32 linfo (size_offset desc) sz;
            linfo = bpf_prog_info_set_offset_u64 linfo (array_offset desc) ptr
        in (linfo, ptr + ucast (count * sz))))"

definition roundup8 :: "u32 \<Rightarrow> u32" where
  "roundup8 n = ucast (((ucast n :: u64) + 7) div 8 * 8)"

text \<open>
  The call of the kernel takes the structure and its length and gives the error and both again; \<open>malloc\<close> gives the address of the data.
  Step 6 only prints warnings.
\<close>

definition bpf_program_get_prog_info_linear ::
    "(u32 list \<Rightarrow> u32 \<Rightarrow> 's \<Rightarrow> int \<times> u32 list \<times> u32 \<times> 's) \<Rightarrow> (u32 \<Rightarrow> 's \<Rightarrow> u64 option \<times> 's) \<Rightarrow> u64 \<Rightarrow> 's \<Rightarrow> (int + prog_info_linear) \<times> 's" where
  "bpf_program_get_prog_info_linear get_info malloc arrays s =
     (if drop_bit BPF_PROG_INFO_LAST_ARRAY arrays \<noteq> 0 then (Inl (- EINVAL), s)
      else
        (let (err, info, info_len, s) = get_info (replicate 52 0) sizeof_prog_info s
         in if err \<noteq> 0 then (Inl (- EFAULT), s)
            else
              (let (arrays, data_len) = fold (measure_array info info_len) [0..<BPF_PROG_INFO_LAST_ARRAY] (arrays, 0);
                   data_len = roundup8 data_len;
                   (mem, s) = malloc data_len s
               in case mem of
                    None \<Rightarrow> (Inl (- ENOMEM), s)
                  | Some data \<Rightarrow>
                      (let linfo = fst (fold (place_array info arrays) [0..<BPF_PROG_INFO_LAST_ARRAY] (replicate 52 0, data));
                           (err, linfo, _, s) = get_info linfo info_len s
                       in if err \<noteq> 0 then (Inl (- EFAULT), s)
                          else (Inr \<lparr>li_info_len = sizeof_prog_info, li_data_len = data_len, li_arrays = arrays, li_info = linfo, li_data = data\<rparr>, s)))))"

text \<open>Between addresses and offsets into the data.\<close>

definition map_pointer :: "(u64 \<Rightarrow> u64) \<Rightarrow> u64 \<Rightarrow> nat \<Rightarrow> u32 list \<Rightarrow> u32 list" where
  "map_pointer f arrays i info =
     (if \<not> has_array arrays i then info
      else (let desc = bpf_prog_info_array_desc ! i
            in bpf_prog_info_set_offset_u64 info (array_offset desc) (f (bpf_prog_info_read_offset_u64 info (array_offset desc)))))"

definition bpf_program_bpil_addr_to_offs :: "prog_info_linear \<Rightarrow> prog_info_linear" where
  "bpf_program_bpil_addr_to_offs l = l\<lparr>li_info := fold (map_pointer (\<lambda>addr. addr - li_data l) (li_arrays l)) [0..<BPF_PROG_INFO_LAST_ARRAY] (li_info l)\<rparr>"

definition bpf_program_bpil_offs_to_addr :: "prog_info_linear \<Rightarrow> prog_info_linear" where
  "bpf_program_bpil_offs_to_addr l = l\<lparr>li_info := fold (map_pointer (\<lambda>offs. offs + li_data l) (li_arrays l)) [0..<BPF_PROG_INFO_LAST_ARRAY] (li_info l)\<rparr>"

section \<open>Moving the data\<close>

lemma halves: "(ucast (ucast v :: u32) :: u64) OR push_bit 32 (ucast (ucast (drop_bit 32 v) :: u32)) = v"
proof (rule bit_eqI)
  fix n
  assume "possible_bit TYPE(u64) n"
  then have "n < 64" by simp
  then show "bit ((ucast (ucast v :: u32) :: u64) OR push_bit 32 (ucast (ucast (drop_bit 32 v) :: u32))) n = bit v n"
    by (auto simp: bit_or_iff bit_push_bit_iff bit_unsigned_iff bit_drop_bit_eq)
qed

lemma word64_set:
  assumes "off \<ge> 0" "2 * (nat off div 8) + 1 < length info"
  shows "word64 (bpf_prog_info_set_offset_u64 info off v) p = (if p = nat off div 8 then v else word64 info p)"
proof (cases "p = nat off div 8")
  case True
  then show ?thesis using assms by (simp add: word64_def bpf_prog_info_set_offset_u64_def halves)
next
  case False
  then have "2 * p \<noteq> 2 * (nat off div 8)" by simp
  moreover have odd: "2 * p \<noteq> 2 * q + 1" "2 * p + 1 \<noteq> 2 * q" for q :: nat by presburger+
  ultimately show ?thesis using False assms odd [of "nat off div 8"] by (simp add: word64_def bpf_prog_info_set_offset_u64_def)
qed

lemma words_eqI:
  assumes "length a = 52" "length b = 52" "\<And>p. p < 26 \<Longrightarrow> word64 a p = word64 b p"
  shows "a = b"
proof (rule nth_equalityI)
  fix k
  assume "k < length a"
  then have p: "k div 2 < 26" using assms(1) by simp
  have low: "bit (word64 x p) n = bit (x ! (2 * p)) n" "bit (word64 x p) (n + 32) = bit (x ! (2 * p + 1)) n" if "n < 32" for x p n
    using that bit_imp_le_length [of "x ! (2 * p)" "n + 32"] by (auto simp: word64_def bit_or_iff bit_push_bit_iff bit_unsigned_iff)
  have "a ! (2 * (k div 2)) = b ! (2 * (k div 2))" "a ! (2 * (k div 2) + 1) = b ! (2 * (k div 2) + 1)"
    using low assms(3) [OF p] by (auto intro!: bit_word_eqI) metis+
  then show "a ! k = b ! k" by (cases "even k") (auto elim!: evenE oddE)
qed (use assms in simp)

definition ptr_no :: "nat \<Rightarrow> nat" where
  "ptr_no i = nat (array_offset (bpf_prog_info_array_desc ! i)) div 8"

lemma descs: "i < 9 \<Longrightarrow> array_offset (bpf_prog_info_array_desc ! i) \<ge> 0" "i < 9 \<Longrightarrow> ptr_no i < 26"
  "i < 9 \<Longrightarrow> j < 9 \<Longrightarrow> ptr_no i = ptr_no j \<Longrightarrow> i = j"
proof -
  have all: "(\<forall>i\<in>set [0..<9]. array_offset (bpf_prog_info_array_desc ! i) \<ge> 0 \<and> ptr_no i < 26) \<and> distinct (map ptr_no [0..<9])"
    by (simp add: upt_rec bpf_prog_info_array_desc_def ptr_no_def)
  then show "i < 9 \<Longrightarrow> array_offset (bpf_prog_info_array_desc ! i) \<ge> 0" "i < 9 \<Longrightarrow> ptr_no i < 26" by simp_all
  show "i < 9 \<Longrightarrow> j < 9 \<Longrightarrow> ptr_no i = ptr_no j \<Longrightarrow> i = j" using all by (auto simp: distinct_map inj_on_def)
qed

lemma map_pointer_word:
  assumes "length info = 52" "i < 9"
  shows "length (map_pointer f arrays i info) = 52"
    "word64 (map_pointer f arrays i info) p = (if has_array arrays i \<and> p = ptr_no i then f (word64 info p) else word64 info p)"
proof -
  let ?o = "array_offset (bpf_prog_info_array_desc ! i)"
  have o: "?o \<ge> 0" "2 * (nat ?o div 8) + 1 < length info" "ptr_no i = nat ?o div 8"
    using descs(1,2) [OF assms(2)] assms(1) by (simp_all add: ptr_no_def)
  show "length (map_pointer f arrays i info) = 52"
    using assms(1) by (simp add: map_pointer_def bpf_prog_info_set_offset_u64_def Let_def)
  show "word64 (map_pointer f arrays i info) p = (if has_array arrays i \<and> p = ptr_no i then f (word64 info p) else word64 info p)"
    using word64_set [OF o(1,2)] o by (simp add: map_pointer_def Let_def bpf_prog_info_read_offset_u64_def)
qed

lemma map_pointers_word:
  assumes "length info = 52" "set is \<subseteq> {..<9}" "distinct is"
  shows "length (fold (map_pointer f arrays) is info) = 52 \<and>
    word64 (fold (map_pointer f arrays) is info) p = (if \<exists>i\<in>set is. has_array arrays i \<and> p = ptr_no i then f (word64 info p) else word64 info p)"
  using assms
proof (induction "is" arbitrary: info)
  case (Cons i "is")
  have l: "length (map_pointer f arrays i info) = 52" using Cons.prems by (intro map_pointer_word) auto
  have n: "j \<in> set is \<Longrightarrow> ptr_no j \<noteq> ptr_no i" for j using descs(3) [of i j] Cons.prems by (auto dest: sym)
  have w: "word64 (map_pointer f arrays i info) p = (if has_array arrays i \<and> p = ptr_no i then f (word64 info p) else word64 info p)"
    using Cons.prems by (intro map_pointer_word) auto
  show ?case
  proof (cases "has_array arrays i \<and> p = ptr_no i")
    case True
    then have "\<not> (\<exists>j\<in>set is. has_array arrays j \<and> p = ptr_no j)" using n by force
    then show ?thesis using Cons.IH [OF l] Cons.prems w True by auto
  next
    case False
    then show ?thesis using Cons.IH [OF l] Cons.prems w by auto
  qed
qed simp

text \<open>
  C39: Saving and restoring.  Turning the addresses into offsets, moving the structure with its data to another address and turning them
  back adjusts exactly the pointers to the arrays that are included, by the distance of the move; without a move, nothing changes.
\<close>

theorem bpil_moved:
  assumes "length (li_info l) = 52"
  shows "\<exists>info. bpf_program_bpil_offs_to_addr ((bpf_program_bpil_addr_to_offs l)\<lparr>li_data := d\<rparr>) = l\<lparr>li_info := info, li_data := d\<rparr> \<and>
    length info = 52 \<and> (d = li_data l \<longrightarrow> info = li_info l) \<and>
    (\<forall>p < 26. word64 info p = (if \<exists>i < 9. has_array (li_arrays l) i \<and> p = ptr_no i then word64 (li_info l) p + (d - li_data l) else word64 (li_info l) p))"
proof -
  let ?o = "fold (map_pointer (\<lambda>addr. addr - li_data l) (li_arrays l)) [0..<9] (li_info l)"
  let ?i = "fold (map_pointer (\<lambda>offs. offs + d) (li_arrays l)) [0..<9] ?o"
  have o: "length ?o = 52 \<and> word64 ?o p = (if \<exists>i\<in>set [0..<9]. has_array (li_arrays l) i \<and> p = ptr_no i then word64 (li_info l) p - li_data l else word64 (li_info l) p)" for p
    by (rule map_pointers_word [OF assms]) auto
  have "length ?i = 52 \<and> word64 ?i p = (if \<exists>i\<in>set [0..<9]. has_array (li_arrays l) i \<and> p = ptr_no i then word64 ?o p + d else word64 ?o p)" for p
    by (rule map_pointers_word [OF conjunct1 [OF o]]) auto
  then have i: "length ?i = 52" "word64 ?i p = (if \<exists>i < 9. has_array (li_arrays l) i \<and> p = ptr_no i then word64 (li_info l) p + (d - li_data l) else word64 (li_info l) p)" for p
    using o [of p] by (auto simp: Bex_def)
  have "?i = li_info l" if "d = li_data l"
    by (rule words_eqI [OF i(1) assms], subst i(2)) (simp add: that)
  moreover have "bpf_program_bpil_offs_to_addr ((bpf_program_bpil_addr_to_offs l)\<lparr>li_data := d\<rparr>) = l\<lparr>li_info := ?i, li_data := d\<rparr>"
    by (simp add: bpf_program_bpil_offs_to_addr_def bpf_program_bpil_addr_to_offs_def BPF_PROG_INFO_LAST_ARRAY_def)
  ultimately show ?thesis using i by blast
qed

text \<open>A kernel whose program has five bytes of machine code and two maps.\<close>

definition sample_info :: "u32 list \<Rightarrow> u32 \<Rightarrow> unit \<Rightarrow> int \<times> u32 list \<times> u32 \<times> unit" where
  "sample_info info n s = (0, bpf_prog_info_set_offset_u32 (bpf_prog_info_set_offset_u32 info 16 5) 52 2, n, s)"

definition sample_linear :: prog_info_linear where
  "sample_linear = \<lparr>li_info_len = 208, li_data_len = 16, li_arrays = 5,
     li_info = (replicate 52 0)[6 := 4096, 14 := 4101], li_data = 4096\<rparr>"

theorem bpil_moved_witness:
  "\<exists>info. bpf_program_bpil_offs_to_addr ((bpf_program_bpil_addr_to_offs sample_linear)\<lparr>li_data := 8192\<rparr>) = sample_linear\<lparr>li_info := info, li_data := 8192\<rparr> \<and>
     word64 info 7 = 8197"
proof -
  obtain info where i: "bpf_program_bpil_offs_to_addr ((bpf_program_bpil_addr_to_offs sample_linear)\<lparr>li_data := 8192\<rparr>) = sample_linear\<lparr>li_info := info, li_data := 8192\<rparr>"
      "\<forall>p < 26. word64 info p = (if \<exists>i < 9. has_array (li_arrays sample_linear) i \<and> p = ptr_no i then word64 (li_info sample_linear) p + (8192 - li_data sample_linear)
        else word64 (li_info sample_linear) p)"
    using bpil_moved [of sample_linear 8192] by (auto simp: sample_linear_def)
  have "has_array (li_arrays sample_linear) 2 \<and> 7 = ptr_no 2"
    by (simp add: sample_linear_def has_array_def ptr_no_def bpf_prog_info_array_desc_def)
  then have "\<exists>i < 9. has_array (li_arrays sample_linear) i \<and> 7 = ptr_no i" by (intro exI [of _ 2]) simp
  moreover have "word64 (li_info sample_linear) 7 = 4101" "li_data sample_linear = 4096" by (simp_all add: sample_linear_def word64_def)
  ultimately have "word64 info 7 = 8197" using i(2) [rule_format, of 7] by simp
  then show ?thesis using i(1) by blast
qed

section \<open>The layout\<close>

definition array_bytes :: "u32 list \<Rightarrow> nat \<Rightarrow> u32" where
  "array_bytes info i = bpf_prog_info_read_offset_u32 info (count_offset (bpf_prog_info_array_desc ! i)) *
     bpf_prog_info_read_offset_u32 info (size_offset (bpf_prog_info_array_desc ! i))"

text \<open>The bytes of an array, without a bound, and where it begins.\<close>

definition extent :: "u32 list \<Rightarrow> u64 \<Rightarrow> nat \<Rightarrow> nat" where
  "extent info arrays i =
     (if has_array arrays i
      then unat (bpf_prog_info_read_offset_u32 info (count_offset (bpf_prog_info_array_desc ! i))) *
           unat (bpf_prog_info_read_offset_u32 info (size_offset (bpf_prog_info_array_desc ! i)))
      else 0)"

definition start :: "u32 list \<Rightarrow> u64 \<Rightarrow> nat \<Rightarrow> nat" where
  "start info arrays n = (\<Sum>i<n. extent info arrays i)"

lemma word64_set_u32:
  assumes "off \<ge> 0 \<Longrightarrow> nat off div 8 \<noteq> p"
  shows "word64 (bpf_prog_info_set_offset_u32 info off v) p = word64 info p"
proof -
  have "nat off div 4 \<noteq> 2 * p" "nat off div 4 \<noteq> 2 * p + 1" if "off \<ge> 0"
    using assms [OF that] by (simp_all add: div_mult2_eq [of "nat off" 4 2, simplified] mult.commute)
  then show ?thesis by (simp add: word64_def bpf_prog_info_set_offset_u32_def)
qed

lemma counts_apart:
  assumes "i < 9" "j < 9"
  shows "0 \<le> count_offset (bpf_prog_info_array_desc ! i) \<Longrightarrow> nat (count_offset (bpf_prog_info_array_desc ! i)) div 8 \<noteq> ptr_no j"
    "0 \<le> size_offset (bpf_prog_info_array_desc ! i) \<Longrightarrow> nat (size_offset (bpf_prog_info_array_desc ! i)) div 8 \<noteq> ptr_no j"
proof -
  have "\<forall>i\<in>set [0..<9]. \<forall>j\<in>set [0..<9]. (0 \<le> count_offset (bpf_prog_info_array_desc ! i) \<longrightarrow> nat (count_offset (bpf_prog_info_array_desc ! i)) div 8 \<noteq> ptr_no j) \<and>
    (0 \<le> size_offset (bpf_prog_info_array_desc ! i) \<longrightarrow> nat (size_offset (bpf_prog_info_array_desc ! i)) div 8 \<noteq> ptr_no j)"
    by (simp add: upt_rec bpf_prog_info_array_desc_def ptr_no_def BPF_TAG_SIZE_def)
  then show "0 \<le> count_offset (bpf_prog_info_array_desc ! i) \<Longrightarrow> nat (count_offset (bpf_prog_info_array_desc ! i)) div 8 \<noteq> ptr_no j"
    "0 \<le> size_offset (bpf_prog_info_array_desc ! i) \<Longrightarrow> nat (size_offset (bpf_prog_info_array_desc ! i)) div 8 \<noteq> ptr_no j"
    using assms by simp_all
qed

lemma place_array_word:
  assumes "length linfo = 52" "i < 9" "place_array info arrays i (linfo, ptr) = (linfo', ptr')"
  shows "length linfo' = 52" "ptr' = ptr + (if has_array arrays i then ucast (array_bytes info i) else 0)"
    "j < 9 \<Longrightarrow> word64 linfo' (ptr_no j) = (if has_array arrays i \<and> j = i then ptr else word64 linfo (ptr_no j))"
proof -
  let ?d = "bpf_prog_info_array_desc ! i"
  let ?c = "bpf_prog_info_read_offset_u32 info (count_offset ?d)" and ?z = "bpf_prog_info_read_offset_u32 info (size_offset ?d)"
  let ?l = "bpf_prog_info_set_offset_u32 (bpf_prog_info_set_offset_u32 linfo (count_offset ?d) ?c) (size_offset ?d) ?z"
  have o: "array_offset ?d \<ge> 0" "2 * (nat (array_offset ?d) div 8) + 1 < length ?l" "ptr_no i = nat (array_offset ?d) div 8" "length ?l = 52"
    using descs(1,2) [OF assms(2)] assms(1) by (simp_all add: ptr_no_def bpf_prog_info_set_offset_u32_def)
  show "length linfo' = 52" "ptr' = ptr + (if has_array arrays i then ucast (array_bytes info i) else 0)"
    using assms(1,3) o(4) by (auto simp: place_array_def Let_def array_bytes_def bpf_prog_info_set_offset_u64_def split: if_splits)
  assume j: "j < 9"
  have "word64 ?l (ptr_no j) = word64 linfo (ptr_no j)"
    using counts_apart [OF assms(2) j] by (simp add: word64_set_u32)
  then show "word64 linfo' (ptr_no j) = (if has_array arrays i \<and> j = i then ptr else word64 linfo (ptr_no j))"
    using assms(3) word64_set [OF o(1,2), of ptr "ptr_no j"] o(3) descs(3) [OF j assms(2)]
    by (auto simp: place_array_def Let_def split: if_splits)
qed

lemma place_arrays_word:
  assumes "n \<le> 9" "\<And>i. i < n \<Longrightarrow> extent info arrays i < 2 ^ 32" "length linfo = 52"
    "fold (place_array info arrays) [0..<n] (linfo, ptr) = (linfo', ptr')"
  shows "length linfo' = 52 \<and> ptr' = ptr + of_nat (start info arrays n) \<and>
    (\<forall>i < n. has_array arrays i \<longrightarrow> word64 linfo' (ptr_no i) = ptr + of_nat (start info arrays i))"
  using assms
proof (induction n arbitrary: linfo' ptr')
  case (Suc n)
  obtain l p where f: "fold (place_array info arrays) [0..<n] (linfo, ptr) = (l, p)" by fastforce
  have IH: "length l = 52" "p = ptr + of_nat (start info arrays n)" "\<And>i. i < n \<Longrightarrow> has_array arrays i \<Longrightarrow> word64 l (ptr_no i) = ptr + of_nat (start info arrays i)"
    using Suc.IH [OF _ _ Suc.prems(3) f] Suc.prems(1,2) by auto
  have s: "place_array info arrays n (l, p) = (linfo', ptr')" using Suc.prems(4) f by simp
  note w = place_array_word [OF IH(1) _ s]
  have e: "has_array arrays n \<Longrightarrow> (ucast (array_bytes info n) :: u64) = of_nat (extent info arrays n)"
  proof -
    assume "has_array arrays n"
    then have "extent info arrays n = unat (array_bytes info n)"
      using Suc.prems(2) [of n] unat_mult_lem [where 'a = 32, THEN iffD1] by (simp add: extent_def array_bytes_def)
    then show ?thesis by simp
  qed
  show ?case using w e IH Suc.prems(1) by (auto simp: start_def less_Suc_eq extent_def add.assoc)
qed (simp add: start_def)

lemma fold_place_length:
  "fold (place_array info arrays) is (linfo, ptr) = (linfo', ptr') \<Longrightarrow> length linfo = 52 \<Longrightarrow> length linfo' = 52"
proof (induction "is" arbitrary: linfo ptr)
  case (Cons i xs)
  obtain l p where f: "place_array info arrays i (linfo, ptr) = (l, p)" by fastforce
  then have "length l = 52" using Cons.prems(2)
    by (auto simp: place_array_def Let_def bpf_prog_info_set_offset_u32_def bpf_prog_info_set_offset_u64_def split: if_splits)
  then show ?case using Cons.IH [of l p] Cons.prems(1) f by simp
qed simp

lemma has_array_bit: "has_array a i \<longleftrightarrow> bit a i"
  by (simp add: has_array_def bit_iff_and_push_bit_not_eq_0)

lemma start_cong: "(\<And>i. i < n \<Longrightarrow> has_array a i = has_array b i) \<Longrightarrow> start info a n = start info b n"
  by (simp add: start_def extent_def)

lemma measure_arrays:
  assumes "n \<le> 9" "fold (measure_array info info_len) [0..<n] (arrays, 0) = (arrays', len)"
  shows "len = of_nat (start info arrays' n) \<and> (\<forall>i \<ge> n. has_array arrays' i = has_array arrays i)"
  using assms
proof (induction n arbitrary: arrays' len)
  case (Suc n)
  obtain a k where f: "fold (measure_array info info_len) [0..<n] (arrays, 0) = (a, k)" by fastforce
  have IH: "k = of_nat (start info a n)" "\<And>i. i \<ge> n \<Longrightarrow> has_array a i = has_array arrays i" using Suc.IH [OF _ f] Suc.prems(1) by auto
  have s: "measure_array info info_len n (a, k) = (arrays', len)" using Suc.prems(2) f by simp
  show ?case
  proof (cases "arrays' = a \<and> len = k + array_bytes info n \<and> has_array a n")
    case True
    then show ?thesis using IH by (auto simp: start_def extent_def array_bytes_def)
  next
    case False
    then have r: "arrays' = a AND NOT (push_bit n 1)" "len = k"
      using s by (auto simp: measure_array_def Let_def array_bytes_def split: if_splits)
    have h: "has_array arrays' i \<longleftrightarrow> has_array a i \<and> i \<noteq> n" for i
      using Suc.prems(1) bit_imp_le_length [of a i] by (auto simp: r has_array_bit bit_and_iff bit_not_iff bit_push_bit_iff bit_exp_iff)
    have "start info arrays' (Suc n) = start info a n"
      using start_cong [of n arrays' a info] h by (simp add: start_def extent_def)
    then show ?thesis using IH r h by auto
  qed
qed (simp add: start_def)

lemma measure_arrays_subset:
  assumes "fold (measure_array info info_len) is (arrays, k) = (arrays', len)" "has_array arrays' i"
  shows "has_array arrays i"
  using assms
proof (induction "is" arbitrary: arrays k)
  case (Cons j xs)
  obtain a p where f: "measure_array info info_len j (arrays, k) = (a, p)" by fastforce
  have "has_array a i" using Cons.IH [of a p] Cons.prems f by simp
  then show ?case using f by (auto simp: measure_array_def Let_def has_array_bit bit_and_iff split: if_splits)
qed simp

lemma start_mono: "i < j \<Longrightarrow> start info a i + extent info a i \<le> start info a j"
  using sum_mono2 [of "{..<j}" "{..<Suc i}" "extent info a"] by (simp add: start_def subset_eq)

lemma roundup8_fits:
  assumes "n \<le> 2 ^ 32 - 8"
  shows "n \<le> unat (roundup8 (of_nat n))"
proof -
  have n: "unat (of_nat n :: u32) = n" using assms by (simp add: unat_of_nat)
  have m: "unat ((ucast (of_nat n :: u32) :: u64) + 7) = n + 7" using assms n by (simp add: unat_word_ariths unsigned_ucast_eq take_bit_eq_mod unat_of_nat)
  have "unat (((ucast (of_nat n :: u32) :: u64) + 7) div 8 * 8) = (n + 7) div 8 * 8"
    using assms m by (simp add: unat_word_ariths unat_div_distrib)
  then have "unat (roundup8 (of_nat n)) = (n + 7) div 8 * 8 mod 2 ^ 32" by (simp add: roundup8_def unsigned_ucast_eq take_bit_eq_mod)
  also have "\<dots> = (n + 7) div 8 * 8" using assms by (intro mod_less) simp
  finally show ?thesis by simp
qed

text \<open>The numbers and sizes that the structure announces are those that the kernel gave, for every included array.\<close>

lemma read_set_u32:
  assumes "length l = 52" "nat off div 4 < 52"
  shows "bpf_prog_info_read_offset_u32 (bpf_prog_info_set_offset_u32 l off v) c =
    (if 0 \<le> c \<and> 0 \<le> off \<and> nat c div 4 = nat off div 4 then v else bpf_prog_info_read_offset_u32 l c)"
  using assms by (simp add: bpf_prog_info_read_offset_u32_def bpf_prog_info_set_offset_u32_def)

lemma read_set_u64:
  assumes "0 \<le> c \<Longrightarrow> 0 \<le> off \<Longrightarrow> nat c div 8 \<noteq> nat off div 8"
  shows "bpf_prog_info_read_offset_u32 (bpf_prog_info_set_offset_u64 l off v) c = bpf_prog_info_read_offset_u32 l c"
proof -
  have "nat c div 4 \<noteq> 2 * (nat off div 8)" "nat c div 4 \<noteq> 2 * (nat off div 8) + 1" if "0 \<le> c" "0 \<le> off"
    using assms [OF that] by (simp_all add: div_mult2_eq [of "nat c" 4 2, simplified] mult.commute)
  then show ?thesis by (auto simp: bpf_prog_info_read_offset_u32_def bpf_prog_info_set_offset_u64_def)
qed

definition announces :: "u32 list \<Rightarrow> u32 list \<Rightarrow> nat \<Rightarrow> bool" where
  "announces asked info i \<longleftrightarrow>
     bpf_prog_info_read_offset_u32 asked (count_offset (bpf_prog_info_array_desc ! i)) = bpf_prog_info_read_offset_u32 info (count_offset (bpf_prog_info_array_desc ! i)) \<and>
     bpf_prog_info_read_offset_u32 asked (size_offset (bpf_prog_info_array_desc ! i)) = bpf_prog_info_read_offset_u32 info (size_offset (bpf_prog_info_array_desc ! i))"

lemma count_words:
  assumes "i < 9"
  shows "nat (count_offset (bpf_prog_info_array_desc ! i)) div 4 < 52" "nat (size_offset (bpf_prog_info_array_desc ! i)) div 4 < 52"
proof -
  have "\<forall>i\<in>set [0..<9]. nat (count_offset (bpf_prog_info_array_desc ! i)) div 4 < 52 \<and> nat (size_offset (bpf_prog_info_array_desc ! i)) div 4 < 52"
    by (simp add: upt_rec bpf_prog_info_array_desc_def BPF_TAG_SIZE_def)
  then show "nat (count_offset (bpf_prog_info_array_desc ! i)) div 4 < 52" "nat (size_offset (bpf_prog_info_array_desc ! i)) div 4 < 52"
    using assms by simp_all
qed

lemma place_array_announces:
  assumes "length linfo = 52" "i < 9" "place_array info arrays i (linfo, ptr) = (linfo', ptr')" "j < 9"
    "announces linfo info j \<or> has_array arrays i \<and> j = i"
  shows "announces linfo' info j"
proof (cases "has_array arrays i")
  case False
  then show ?thesis using assms(3,5) by (simp add: place_array_def)
next
  case True
  let ?d = "bpf_prog_info_array_desc ! i" and ?e = "bpf_prog_info_array_desc ! j"
  let ?r = "bpf_prog_info_read_offset_u32"
  define l1 where "l1 = bpf_prog_info_set_offset_u32 linfo (count_offset ?d) (?r info (count_offset ?d))"
  define l2 where "l2 = bpf_prog_info_set_offset_u32 l1 (size_offset ?d) (?r info (size_offset ?d))"
  have l: "length l1 = 52" "linfo' = bpf_prog_info_set_offset_u64 l2 (array_offset ?d) ptr"
    using assms(1,3) True by (simp_all add: l1_def l2_def place_array_def Let_def bpf_prog_info_set_offset_u32_def)
  have same: "?r info c = ?r info d" if "0 \<le> c" "0 \<le> d" "nat c div 4 = nat d div 4" for c d
    using that by (simp add: bpf_prog_info_read_offset_u32_def)
  have r1: "?r l1 c = (if 0 \<le> c \<and> 0 \<le> count_offset ?d \<and> nat c div 4 = nat (count_offset ?d) div 4 then ?r info (count_offset ?d) else ?r linfo c)" for c
    unfolding l1_def by (rule read_set_u32 [OF assms(1) count_words(1) [OF assms(2)]])
  have r2a: "?r l2 c = (if 0 \<le> c \<and> 0 \<le> size_offset ?d \<and> nat c div 4 = nat (size_offset ?d) div 4 then ?r info (size_offset ?d) else ?r l1 c)" for c
    unfolding l2_def by (rule read_set_u32 [OF l(1) count_words(2) [OF assms(2)]])
  have r2: "?r l2 c = (if 0 \<le> c \<and> 0 \<le> size_offset ?d \<and> nat c div 4 = nat (size_offset ?d) div 4 then ?r info c
      else if 0 \<le> c \<and> 0 \<le> count_offset ?d \<and> nat c div 4 = nat (count_offset ?d) div 4 then ?r info c else ?r linfo c)" for c
    unfolding r2a r1 by (intro if_cong refl) (blast intro: same [symmetric])+
  have neg: "?r x c = ?r y c" if "\<not> 0 \<le> c" for x y c using that by (simp add: bpf_prog_info_read_offset_u32_def)
  have ptr: "ptr_no i = nat (array_offset ?d) div 8" by (simp add: ptr_no_def)
  have r3: "?r linfo' c = ?r l2 c" if "c \<in> {count_offset ?e, size_offset ?e}" for c
    unfolding l(2) using counts_apart [OF assms(4,2)] that ptr by (intro read_set_u64) auto
  show ?thesis using assms(5)
  proof
    assume "announces linfo info j"
    then show ?thesis unfolding announces_def by (simp add: r3 r2)
  next
    assume "has_array arrays i \<and> j = i"
    then have ji: "?e = ?d" by simp
    have "?r l2 (count_offset ?d) = ?r info (count_offset ?d)"
      using neg [of "count_offset ?d" linfo info] by (cases "0 \<le> count_offset ?d") (simp_all add: r2)
    moreover have "?r l2 (size_offset ?d) = ?r info (size_offset ?d)"
      using neg [of "size_offset ?d" linfo info] by (cases "0 \<le> size_offset ?d") (simp_all add: r2)
    ultimately show ?thesis unfolding announces_def using r3 by (simp add: ji)
  qed
qed

lemma place_arrays_announce:
  assumes "n \<le> 9" "length linfo = 52" "fold (place_array info arrays) [0..<n] (linfo, ptr) = (linfo', ptr')" "i < n" "has_array arrays i"
  shows "announces linfo' info i"
  using assms
proof (induction n arbitrary: linfo' ptr')
  case (Suc n)
  obtain l p where f: "fold (place_array info arrays) [0..<n] (linfo, ptr) = (l, p)" by fastforce
  have len: "length l = 52" by (rule fold_place_length [OF f Suc.prems(2)])
  have s: "place_array info arrays n (l, p) = (linfo', ptr')" using Suc.prems(3) f by simp
  show ?case
    using Suc.IH [OF _ Suc.prems(2) f] Suc.prems by (intro place_array_announces [OF len _ s]) (auto simp: less_Suc_eq)
qed simp

text \<open>
  C40: The layout of the data.  When the program information is read, the kernel is asked twice.  The structure that the second request hands
  to it announces every included array with the number and the size of elements that the first answer gave, and gives it its place in the memory that was
  allocated: each place lies inside the memory behind all arrays before it, and none reaches into a later one, provided that the bytes of all
  included arrays do not overflow the 32-bit length.  The included arrays are requested ones, and what the second call answers is returned.
\<close>

theorem linear_layout:
  assumes "bpf_program_get_prog_info_linear get_info malloc arrays s = (Inr l, s')"
    and "get_info (replicate 52 0) sizeof_prog_info s = (0, info, info_len, s1)"
    and "start info (li_arrays l) 9 \<le> 2 ^ 32 - 8"
  shows "\<exists>s2 asked n. malloc (li_data_len l) s1 = (Some (li_data l), s2) \<and> get_info asked info_len s2 = (0, li_info l, n, s') \<and>
    length asked = 52 \<and> start info (li_arrays l) 9 \<le> unat (li_data_len l) \<and>
    (\<forall>i < 9. has_array (li_arrays l) i \<longrightarrow>
       has_array arrays i \<and> announces asked info i \<and> word64 asked (ptr_no i) = li_data l + of_nat (start info (li_arrays l) i) \<and>
       start info (li_arrays l) i + extent info (li_arrays l) i \<le> unat (li_data_len l) \<and>
       (\<forall>j. i < j \<and> j < 9 \<longrightarrow> start info (li_arrays l) i + extent info (li_arrays l) i \<le> start info (li_arrays l) j))"
proof -
  obtain a k where m: "fold (measure_array info info_len) [0..<9] (arrays, 0) = (a, k)" by fastforce
  obtain mem s2 where al: "malloc (roundup8 k) s1 = (mem, s2)" by fastforce
  obtain d where d: "mem = Some d" using assms(1,2) m al by (cases mem) (auto simp: bpf_program_get_prog_info_linear_def BPF_PROG_INFO_LAST_ARRAY_def split: if_splits)
  obtain lf q where p: "fold (place_array info a) [0..<9] (replicate 52 0, d) = (lf, q)" by fastforce
  obtain e x n s3 where g: "get_info lf info_len s2 = (e, x, n, s3)" by (cases "get_info lf info_len s2")
  have l: "l = \<lparr>li_info_len = sizeof_prog_info, li_data_len = roundup8 k, li_arrays = a, li_info = x, li_data = d\<rparr>" "e = 0" "s3 = s'"
    using assms(1,2) m al d p g by (auto simp: bpf_program_get_prog_info_linear_def BPF_PROG_INFO_LAST_ARRAY_def split: if_splits)
  have le: "start info a i + extent info a i \<le> start info a j" if "i < j" for i j
    by (rule start_mono [OF that])
  have b: "extent info a j < 2 ^ 32" if "j < 9" for j using le [of j 9] that assms(3) l(1) by simp
  have k: "k = of_nat (start info a 9)" using measure_arrays [OF order_refl m] by simp
  have fits: "start info a 9 \<le> unat (roundup8 k)" unfolding k by (rule roundup8_fits) (use assms(3) l(1) in simp)
  have w: "length lf = 52" "\<And>i. i < 9 \<Longrightarrow> has_array a i \<Longrightarrow> word64 lf (ptr_no i) = d + of_nat (start info a i)"
    using place_arrays_word [OF order_refl b _ p] by auto
  have an: "announces lf info i" if "i < 9" "has_array a i" for i using place_arrays_announce [OF order_refl _ p that] by simp
  have sub: "has_array arrays i" if "has_array a i" for i using measure_arrays_subset [OF m that] .
  have "malloc (li_data_len l) s1 = (Some (li_data l), s2)" "get_info lf info_len s2 = (0, li_info l, n, s')" using al d g l by simp_all
  moreover have "start info a i + extent info a i \<le> unat (roundup8 k)" if "i < 9" for i using le [OF that] fits by (rule order_trans)
  ultimately show ?thesis using w an sub fits le l(1)
    by (intro exI [of _ s2] exI [of _ lf] exI [of _ n]) auto
qed

theorem linear_layout_witness:
  "\<exists>l asked n. bpf_program_get_prog_info_linear sample_info (\<lambda>n s. (Some 4096, s)) 5 () = (Inr l, ()) \<and>
     sample_info asked sizeof_prog_info () = (0, li_info l, n, ()) \<and> word64 asked (ptr_no 2) = 4101 \<and> 13 \<le> unat (li_data_len l)"
proof -
  let ?info = "(replicate 52 0)[4 := 5, 13 := 2] :: u32 list"
  let ?r = "bpf_program_get_prog_info_linear sample_info (\<lambda>n s. (Some 4096, s)) 5 ()"
  have "\<exists>l. ?r = (Inr l, ()) \<and> li_arrays l = 5 \<and> li_data l = 4096"
    by (simp add: bpf_program_get_prog_info_linear_def sample_info_def bpf_prog_info_set_offset_u32_def BPF_PROG_INFO_LAST_ARRAY_def upt_rec measure_array_def
        bpf_prog_info_array_desc_def has_array_def sizeof_prog_info_def Let_def BPF_TAG_SIZE_def bpf_prog_info_read_offset_u32_def)
  then obtain l where l: "?r = (Inr l, ())" "li_arrays l = 5" "li_data l = 4096" by blast
  have g: "sample_info (replicate 52 0) sizeof_prog_info () = (0, ?info, sizeof_prog_info, ())"
    by (simp add: sample_info_def bpf_prog_info_set_offset_u32_def)
  have x: "extent ?info 5 i = (if i = 0 then 5 else if i = 2 then 8 else 0)" for i
  proof -
    have "has_array 5 i \<longleftrightarrow> i = 0 \<or> i = 2"
      by (auto simp: has_array_bit bit_numeral_rec bit_1_iff split: nat.splits)
    then show ?thesis by (auto simp: extent_def bpf_prog_info_array_desc_def bpf_prog_info_read_offset_u32_def)
  qed
  have st: "start ?info 5 9 = 13" "start ?info 5 2 = 5" by (simp_all add: start_def x lessThan_nat_numeral lessThan_Suc)
  have h: "has_array 5 2" by (simp add: has_array_def)
  obtain asked n where a: "sample_info asked sizeof_prog_info () = (0, li_info l, n, ())" "13 \<le> unat (li_data_len l)"
      "word64 asked (ptr_no 2) = 4101"
    using linear_layout [OF l(1) g] l(2,3) st h by auto
  then show ?thesis using l(1) by blast
qed

end
