(* ===== verification/Spec2Isabelle.thy ===== *)
theory Spec2Isabelle
  imports Interval_Lock Loader_Legacy Loader_Main Parsing_Helpers Rewrite_Helpers Dynamic_Fix
    Hashmap Link_Netlink Xdp_Libxdp Xdp_Stats Libbpf_Programs Btf_Ext Perf_Buffer Prog_Info
begin

text \<open>
  FIDe, a detector of traffic anomalies on eBPF/XDP, and the libraries its loader runs on.

  \<^bold>\<open>The program.\<close>  An XDP program sees every frame of a network interface.  It counts the packets
  per IPv4 source address (the \<open>logger\<close> table) and per interval, and at the end of an interval the
  entropy of every flow is compared with a moving average.  There are two variants:

  \<^item> \<open>src/fully_in-kernel\<close>: everything happens in the XDP program \<open>main/xdp_prog_kern.c\<close>, with the
    arithmetic of \<open>main/fixed-point.h\<close> (\<open>src/fixed-point.h\<close> is the same file, \<open>main/dynamic-fix.c\<close>
    its prototype in user space);
  \<^item> \<open>src/user+ebpf\<close>: the XDP program \<open>main/xdp_prog_kern.c\<close> only counts, and the loader
    \<open>main/xdp_loader.c\<close> walks the table once per interval and does the rest on doubles.

  Both share \<open>common/\<close> (command line, attaching, loading objects, parsing and rewriting headers), and the
  second one carries the library libbpf, \<open>main/libbpf/src\<close>.

  \<^bold>\<open>The theories\<close>, by the part of the program they model.

  \<^item> \<open>Prelude\<close>: C integers as words, the shifts and divisions of the BPF machine, bit lengths, error
    numbers.  \<open>Packet\<close>: bytes of a frame or buffer, byte order, loads and stores.  \<open>Bpf_Map\<close>: what the
    kernel's maps promise, a locale over a record of map operations; a locale of map walks; an
    association-list instance for the witnesses.
  \<^item> \<open>Fixed_Point\<close> (\<open>fixed-point.h\<close>): every function.  Accuracy of \<open>add\<close> and \<open>divide\<close>, the value of
    \<open>calc_log\<close> and of the leading-zero counters, where results saturate, are flushed to zero or are scaled
    wrongly, as for operands of unequal fraction widths.  \<open>Dynamic_Fix\<close> (\<open>dynamic-fix.c\<close>): the prototype's own functions and how far they agree
    with the header.
  \<^item> \<open>Xdp_Kern\<close> (in-kernel \<open>xdp_prog_kern.c\<close>): maps as the record \<open>xdp_state\<close>, the program
    \<open>xdp_filter_func\<close> with \<open>calc_entropy\<close> and \<open>detection\<close>.  Packet counts are conserved over all runs,
    what the end of an interval does to every flow, the verdict of every frame.  \<open>Interval_Lock\<close>: the
    same program on several CPUs as a step relation: one packet closes an interval, the spin lock never
    blocks, the race of first packets.
  \<^item> \<open>Xdp_Filter_User\<close> (user-space variant's \<open>xdp_prog_kern.c\<close>); \<open>Loader_Ent\<close> (\<open>calculate_ent\<close> and the
    loop of \<open>main\<close>), with packets between its turns (counts are conserved) and, in
    \<open>calculate_ent_racing\<close>, during one (packets are lost); \<open>Loader_Legacy\<close> (\<open>calculate_entropy\<close>,
    \<open>calculate_entropy_csv\<close> and \<open>check_trie\<close>, which \<open>main\<close> no longer calls); \<open>Loader_Main\<close> (options,
    loading, pinning, start of \<open>main\<close>).
  \<^item> \<open>Parsing_Helpers\<close>, \<open>Rewrite_Helpers\<close> (\<open>common/parsing_helpers.h\<close>, \<open>rewrite_helpers.h\<close>): the parsers read
    through checked loads and always return, so none reads outside the frame; VLAN push and pop are inverse.
  \<^item> \<open>Common_Params\<close> (\<open>common_params.c\<close> of both variants), \<open>Xdp_Link\<close>, \<open>Bpf_Object\<close>
    (\<open>common_user_bpf_xdp.c\<close>, \<open>common_libbpf.c\<close>): the configuration a command line gives, what is
    attached after every outcome, which maps are reused or pinned.  \<open>Xdp_Libxdp\<close> (the in-kernel variant's
    \<open>common_user_bpf_xdp.c\<close>): attaching and unloading through libxdp.  \<open>Xdp_Stats\<close>
    (\<open>xdp_stats_kern.h\<close>): counters per verdict and CPU.
  \<^item> libbpf: \<open>Hashmap\<close> (\<open>hashmap.c\<close>, \<open>hashmap.h\<close>, with the key functions of \<open>btf.c\<close> and
    \<open>btf_dump.c\<close>), a refinement of finite maps through growth, collisions and failed allocation, for every insertion strategy;
    \<open>Nlattr\<close> (\<open>nlattr.c\<close>), attribute streams; \<open>Netlink\<close> (\<open>netlink.c\<close>), the attach request, its
    acknowledgement, and the query of the attached program; \<open>Link_Netlink\<close>, that this client
    implements the contract on which \<open>Xdp_Link\<close> rests; \<open>Bpf_Syscall\<close> (\<open>bpf.c\<close>), the wrappers of
    the system call and the load loop; \<open>Libbpf_Errno\<close> (\<open>libbpf_errno.c\<close>, \<open>str_error.c\<close>), error numbers
    and messages.
  \<^item> Objects of libbpf (\<open>libbpf.c\<close>): \<open>Libbpf_Maps\<close>, creating, reusing, filling and pinning maps;
    \<open>Libbpf_Relocs\<close>, programs and the relocation of their references to maps, data and subprograms;
    \<open>Libbpf_Sections\<close>, the table that gives a section its program and attach type; \<open>Libbpf_Load\<close>,
    loading one program with its retries, all programs, and a whole object, with what an error undoes;
    \<open>Libbpf_Programs\<close>, walks, searches, instances, pinning, closing and \<open>bpf_prog_load_xattr\<close>.  The
    theorems account for descriptors: an operation leaves every map and program with an open
    descriptor of its own, or closes all that it has opened (for maps without pin paths: with them the
    code leaks, as the list of findings says).  \<open>Perf_Buffer\<close>, reading records from the
    kernel's rings in one piece and in order, and opening and freeing the rings of all CPUs;
    \<open>Prog_Info\<close>, the information on a program with its arrays in one piece of memory, its layout and
    its conversion for files.
  \<^item> Type information (\<open>btf.c\<close>): \<open>Btf\<close>, the parser of a section, with types as data and their encoding;
    \<open>Btf_Types\<close>, sizes, references, names and the key and value types of maps: the parser inverts the
    encoding, and sizes agree with an inductive definition on cyclic types too; \<open>Btf_Ext\<close>, the tables of
    function and line records, read inside their bytes and relocated per program.  \<open>Prog_Linfo\<close>
    (\<open>bpf_prog_linfo.c\<close>): line records of a compiled program and the search in them.
  \<^item> AF_XDP sockets: \<open>Xsk_Ring\<close> (\<open>xsk.h\<close>), the rings as two ends that run interleaved, a refinement of
    a bounded queue across the wrap-around of the 32-bit counters; \<open>Xsk_Prog\<close> (\<open>filter.h\<close>, the program of
    \<open>xsk.c\<close>), the instructions on a small BPF machine, equivalent to the C program in the comment;
    \<open>Xsk_Socket\<close> (\<open>xsk.c\<close>), every function; \<open>Xsk_Resources\<close>, the descriptors and mappings that each of
    them opens and releases, through all error labels, with the exact set of those that a call loses
    (\<open>create_lost\<close>, \<open>umem_lost\<close>).

  \<^bold>\<open>Choices of the model.\<close>  Machine integers are words and wrap.  Shift counts are taken modulo the
  width and division by zero gives zero, as the BPF instruction set defines them (the user-space sources
  never rely on either).  Loads and stores are little-endian, the byte order of the targets.  Where a property says
  that no read leaves a buffer, the reads are checked loads (\<open>mem8\<close>, \<open>mem16\<close>, \<open>mem32\<close>) and a function that reads
  outside has no result.  A \<open>raise\<close>,
  \<open>exit\<close> or early return of the source is a value of a result type.  Printed text that no caller reads is
  kept as a trace only where a property speaks about it.

  \<^bold>\<open>Parameters.\<close>  What is not in the repository is an argument of the definitions: the kernel's map
  operations, its clock, \<open>bpf_redirect\<close> and \<open>bpf_xdp_adjust_head\<close>, the \<open>bpf\<close> system call, the netlink
  socket, AF_XDP sockets, perf events and memory mappings (the records \<open>xsk_sys\<close> and \<open>perf_sys\<close>), \<open>if_nametoindex\<close>, \<open>access\<close>, \<open>unlink\<close>, arithmetic on doubles, failing allocation, and the
  contents of memory that is read before it is written.  Hypotheses on them state documented
  behaviour; every theorem that has one is applied to concrete functions in its witness.  The
  operations of libbpf's object layer that the loaders call are a parameter of \<open>Bpf_Object\<close> and
  \<open>Loader_Main\<close>; their own models are the theories on \<open>libbpf.c\<close>.

  \<^bold>\<open>Loops.\<close>  The walk of \<open>calculate_ent\<close> stops after 100000 flows and \<open>check_trie\<close> after 10000, as in the
  source; VLAN headers are followed to depth 2, the source's unrolling; references between types are
  followed 32 deep, the source's limit.  The BPF machine of \<open>Xsk_Prog\<close> runs with fuel; 21 steps
  are enough for the program, which has no backward jumps.  A receive loop recurses on the
  datagrams the socket delivers, and is undefined (None) when they run out; the attribute and
  message loops terminate by a measure; loading one program doubles the buffer of the log at most
  eight times before its size exceeds what the system call accepts; the system call that is repeated on \<open>EAGAIN\<close> is a partial
  function, and that it returns is a theorem about kernels that do not answer \<open>EAGAIN\<close> forever; so is the
  loop over the records of a perf buffer, which returns when the ring holds whole records.

  \<^bold>\<open>Not modelled.\<close>  The opening of ELF files (the reading of sections in \<open>libbpf.c\<close> through libelf), CO-RE
  relocation and links of \<open>libbpf.c\<close>, the deduplication of types in \<open>btf.c\<close> and their printing
  (\<open>btf_dump.c\<close>), feature probes (\<open>libbpf_probes.c\<close>), generated helper
  tables (\<open>bpf_helper_defs.h\<close>), the copies of headers under \<open>libbpf/src/build\<close>, build scripts.
\<close>

text \<open>
  C6: the two programs decide alike.  With the same blacklist and both array entries present,
  the in-kernel detector and the program of the user-space variant give the same verdict on
  every frame, except that a frame too short for its headers is passed by the first and
  aborted by the second.
\<close>

theorem variants_agree:
  assumes "blacklist st = u_blacklist us" "data st = Some d" "loc_ts st = Some t" "u_data us = Some ud"
  shows "(if classify (blacklist st) pkt \<in> {Bad_eth, Bad_ip}
          then fst (xdp_filter_func ops ts redirect pkt st) = XDP_PASS \<and>
               fst (xdp_filter_func_user uops redirect pkt us) = XDP_ABORTED
          else fst (xdp_filter_func ops ts redirect pkt st) = fst (xdp_filter_func_user uops redirect pkt us))"
  using assms
  by (auto simp: xdp_filter_func_eq xdp_filter_func_user_eq classify_def user_classify_def listed_def)

theorem variants_agree_witness:
  "fst (xdp_filter_func (alist_ops 2) 5 XDP_REDIRECT sample_packet (sample_state\<lparr>blacklist := (\<lambda>_. Some 0)\<rparr>)) =
   fst (xdp_filter_func_user (alist_ops 2) XDP_REDIRECT sample_packet sample_state_user)"
  using variants_agree [of "sample_state\<lparr>blacklist := (\<lambda>_. Some 0)\<rparr>" sample_state_user _ 1
      "\<lparr>ud_prev_interval_pkt = 0, ud_cur_interval_pkt = 5\<rparr>" sample_packet "alist_ops 2" 5 XDP_REDIRECT "alist_ops 2"]
  by (simp add: sample_state_user_def sample_packet_def classify_def load16_def load32_def bswap16_def ETH_P_IP_def)

end
